(* ===== verification/Prelude.thy ===== *)
theory Prelude
  imports Main "HOL-Library.Word"
begin

text \<open>
  Prelude of the development: the machine integers of the C code, memory as byte lists,
  the collections of rewrite rules the component theories fill, and the generic lemmas on
  words and lists they share.

  An unsigned C integer of \<open>w\<close> bits is a \<open>w word\<close>, so that \<open>+\<close>, \<open>-\<close> and \<open>*\<close> wrap as the
  code's do. A signed \<open>int32_t\<close> is a \<open>32 word\<close> read with \<open>sint\<close>. The bytes that can be read
  from a C pointer are a list of bytes; \<open>rd m i\<close> is \<open>m[i]\<close>.
\<close>

unbundle bit_operations_syntax

type_synonym u8 = "8 word"
type_synonym u16 = "16 word"
type_synonym u32 = "32 word"
type_synonym u64 = "64 word"
type_synonym i32 = "32 word"

text \<open>The bytes readable from a pointer, and a C array of bytes.\<close>

type_synonym bytes = "8 word list"

text \<open>Rules that decode what the encoders of the wire format wrote.\<close>

named_theorems wire_simps

text \<open>Rules that unfold the operations of the scene store on well-formed scenes.\<close>

named_theorems scene_simps

text \<open>Introduction rules for the invariants of the components.\<close>

named_theorems inv_intros

subsection \<open>Byte memory\<close>

text \<open>
  A read beyond the end of the list is a read of memory the model knows nothing about; it
  yields 0. The only such reads the code can make are named where they occur.
\<close>

definition rd :: "bytes \<Rightarrow> nat \<Rightarrow> u8" where
  "rd m i = (if i < length m then m ! i else 0)"

text \<open>Store the bytes \<open>bs\<close> at offset \<open>off\<close>.\<close>

definition wr :: "bytes \<Rightarrow> nat \<Rightarrow> bytes \<Rightarrow> bytes" where
  "wr m off bs = take off m @ bs @ drop (off + length bs) m"

text \<open>The \<open>n\<close> bytes a copy from \<open>m + off\<close> reads.\<close>

definition slice :: "bytes \<Rightarrow> nat \<Rightarrow> nat \<Rightarrow> bytes" where
  "slice m off n = map (rd m) [off..<off + n]"

lemma length_slice [simp]: "length (slice m off n) = n"
  by (simp add: slice_def)

lemma rd_in: "i < length m \<Longrightarrow> rd m i = m ! i"
  by (simp add: rd_def)

lemma rd_nth: "i < length m \<Longrightarrow> m ! i = rd m i"
  by (simp add: rd_def)

lemma rd_append_left [simp]: "i < length xs \<Longrightarrow> rd (xs @ ys) i = rd xs i"
  by (simp add: rd_def nth_append)

lemma rd_append_shift [simp]: "rd (xs @ ys) (length xs + i) = rd ys i"
  by (simp add: rd_def nth_append)

lemma rd_append_shift_Suc [simp]:
  "rd (xs @ ys) (Suc (length xs + i)) = rd ys (Suc i)"
  "rd (xs @ ys) (Suc (Suc (length xs + i))) = rd ys (Suc (Suc i))"
  using rd_append_shift [of xs ys "Suc i"] rd_append_shift [of xs ys "Suc (Suc i)"] by simp_all

lemma rd_append_right: "length xs \<le> i \<Longrightarrow> rd (xs @ ys) i = rd ys (i - length xs)"
  by (auto simp: rd_def nth_append)

lemma rd_Cons_0 [simp]: "rd (x # xs) 0 = x"
  by (simp add: rd_def)

lemma rd_Cons_Suc [simp]: "rd (x # xs) (Suc i) = rd xs i"
  by (simp add: rd_def)

lemma rd_Cons_numeral [simp]: "rd (x # xs) (numeral n) = rd xs (pred_numeral n)"
  by (simp add: numeral_eq_Suc)

lemma rd_take: "i < n \<Longrightarrow> rd (take n m) i = rd m i"
  by (simp add: rd_def)

lemma rd_drop [simp]: "rd (drop n m) i = rd m (n + i)"
  by (auto simp: rd_def)

lemma slice_inside: "off + n \<le> length m \<Longrightarrow> slice m off n = take n (drop off m)"
  by (rule nth_equalityI) (auto simp: slice_def rd_def)

lemma slice_append_right:
  "length xs \<le> off \<Longrightarrow> slice (xs @ ys) off n = slice ys (off - length xs) n"
  by (rule nth_equalityI) (auto simp: slice_def rd_append_right)

lemma slice_all [simp]: "slice m 0 (length m) = m"
  by (simp add: slice_inside)

lemma length_wr [simp]: "off + length bs \<le> length m \<Longrightarrow> length (wr m off bs) = length m"
  by (simp add: wr_def)

lemma rd_wr:
  "off + length bs \<le> length m \<Longrightarrow>
   rd (wr m off bs) i = (if off \<le> i \<and> i < off + length bs then bs ! (i - off) else rd m i)"
  by (auto simp: wr_def rd_def nth_append min_def)

subsection \<open>Words\<close>

text \<open>The byte \<open>i\<close> of a word, as the shifts and masks of the encoders extract it.\<close>

lemma bit_byte_of:
  "bit (ucast (drop_bit n v AND 0xFF) :: 8 word) i \<longleftrightarrow> i < 8 \<and> bit (v :: 'a::len word) (n + i)"
proof -
  have "bit (0xFF :: 'a word) i \<longleftrightarrow> i < 8 \<and> i < LENGTH('a)"
  proof -
    have "(0xFF :: 'a word) = mask 8" by (simp add: mask_eq_exp_minus_1)
    then show ?thesis by (simp only: bit_mask_iff) auto
  qed
  then show ?thesis
    by (auto simp: bit_ucast_iff bit_and_iff bit_drop_bit_eq dest: bit_imp_le_length)
qed

text \<open>That byte, put back where it was taken from.\<close>

lemma bit_byte_field:
  "bit (push_bit n (ucast (ucast (drop_bit n (v :: 'a word) AND 0xFF) :: 8 word)) :: 'a::len word) i
     \<longleftrightarrow> n \<le> i \<and> i < n + 8 \<and> bit v i"
proof -
  have "bit (push_bit n (ucast (ucast (drop_bit n v AND 0xFF) :: 8 word)) :: 'a word) i
          \<longleftrightarrow> n \<le> i \<and> i < LENGTH('a) \<and>
              bit (ucast (drop_bit n v AND 0xFF) :: 8 word) (i - n)"
    by (simp only: bit_push_bit_iff bit_ucast_iff possible_bit_word) auto
  then show ?thesis
    using bit_imp_le_length [of v i] by (simp only: bit_byte_of) auto
qed

lemma bit_byte_field_0:
  "bit (ucast (ucast ((v :: 'a word) AND 0xFF) :: 8 word) :: 'a::len word) i \<longleftrightarrow> i < 8 \<and> bit v i"
  using bit_byte_field [of 0 v i] by simp

lemma unat_of_nat_small: "n < 2 ^ LENGTH('a) \<Longrightarrow> unat (of_nat n :: 'a::len word) = n"
  by (simp add: unat_of_nat take_bit_nat_eq_self)

subsection \<open>Lists\<close>

lemma foldl_inj_step:
  assumes inj: "\<And>a b c. f a c = f b c \<Longrightarrow> a = b"
  shows "foldl f a xs = foldl f b xs \<Longrightarrow> a = b"
proof (induction xs arbitrary: a b)
  case Nil
  then show ?case by simp
next
  case (Cons x xs)
  then have "f a x = f b x" by simp
  then show ?case by (rule inj)
qed

lemma list_update_split: "i < length xs \<Longrightarrow> xs[i := x] = take i xs @ x # drop (Suc i) xs"
  by (simp add: upd_conv_take_nth_drop)

end
