(* ===== verification/SceneFmt.thy ===== *)
theory SceneFmt
  imports Prelude
begin

text \<open>
  The wire format: the constants, roles, limits and frame header of
  \<open>include/scene_fmt.h\<close>, and the little-endian primitives, the FNV-1a 32 hash and the
  whole-frame validation of \<open>src/scene_fmt.c\<close>.

  A C encoder stores bytes at a pointer; its model returns the bytes it stores, and the
  caller places them. A C decoder reads at \<open>p + off\<close>; its model takes the memory and the
  offset. The lemmas show that decoding inverts encoding at any offset, that the checksum
  step is injective, and that one altered byte in a frame is always detected.
\<close>

subsection \<open>Constants\<close>

abbreviation SCENE_MAGIC :: u32 where "SCENE_MAGIC \<equiv> 0x5343454e"
abbreviation SCENE_PROTOCOL_V0 :: u16 where "SCENE_PROTOCOL_V0 \<equiv> 0"
abbreviation SCENE_HEADER_SIZE :: nat where "SCENE_HEADER_SIZE \<equiv> 16"

abbreviation SCENE_NO_PARENT :: u32 where "SCENE_NO_PARENT \<equiv> 0xFFFFFFFF"
abbreviation SCENE_NO_TEXTURE :: u32 where "SCENE_NO_TEXTURE \<equiv> 0xFFFFFFFF"

abbreviation SCENE_FLAG_ENABLED :: u8 where "SCENE_FLAG_ENABLED \<equiv> 1"
abbreviation SCENE_FLAG_FOCUSABLE :: u8 where "SCENE_FLAG_FOCUSABLE \<equiv> 2"
abbreviation SCENE_FLAG_VISIBLE :: u8 where "SCENE_FLAG_VISIBLE \<equiv> 4"

text \<open>Roles: the enumeration of section 4 and the code of each.\<close>

datatype scene_role =
    ROLE_GENERIC | ROLE_WINDOW | ROLE_PANEL | ROLE_BUTTON | ROLE_CHECKBOX | ROLE_TEXTFIELD
  | ROLE_LABEL | ROLE_LIST | ROLE_TREE | ROLE_TABLE | ROLE_MENU | ROLE_DIALOG
  | ROLE_SCROLLBAR | ROLE_TABBAR | ROLE_SLIDER | ROLE_IMAGE | ROLE_SPINNER | ROLE_TOOLBAR
  | ROLE_STATUSBAR | ROLE_TITLEBAR | ROLE_TERMINAL | ROLE_EDITOR | ROLE_COMBO
  | ROLE_PROGRESS | ROLE_TOOLTIP | ROLE_POPUP | ROLE_GROUP | ROLE_CANVAS | ROLE_TEXTBLOCK
  | ROLE_SELECTION | ROLE_CURSOR | ROLE_LINK | ROLE_NOTIFICATION

definition scene_roles :: "scene_role list" where
  "scene_roles =
     [ROLE_GENERIC, ROLE_WINDOW, ROLE_PANEL, ROLE_BUTTON, ROLE_CHECKBOX, ROLE_TEXTFIELD,
      ROLE_LABEL, ROLE_LIST, ROLE_TREE, ROLE_TABLE, ROLE_MENU, ROLE_DIALOG,
      ROLE_SCROLLBAR, ROLE_TABBAR, ROLE_SLIDER, ROLE_IMAGE, ROLE_SPINNER, ROLE_TOOLBAR,
      ROLE_STATUSBAR, ROLE_TITLEBAR, ROLE_TERMINAL, ROLE_EDITOR, ROLE_COMBO,
      ROLE_PROGRESS, ROLE_TOOLTIP, ROLE_POPUP, ROLE_GROUP, ROLE_CANVAS, ROLE_TEXTBLOCK,
      ROLE_SELECTION, ROLE_CURSOR, ROLE_LINK, ROLE_NOTIFICATION]"

abbreviation SCENE_ROLE_MAX :: u16 where "SCENE_ROLE_MAX \<equiv> 0x20"

text \<open>Client operations.\<close>

abbreviation SCENE_OP_CREATE_NODE :: u16 where "SCENE_OP_CREATE_NODE \<equiv> 0x0001"
abbreviation SCENE_OP_DESTROY_NODE :: u16 where "SCENE_OP_DESTROY_NODE \<equiv> 0x0002"
abbreviation SCENE_OP_SET_TEXT :: u16 where "SCENE_OP_SET_TEXT \<equiv> 0x0003"
abbreviation SCENE_OP_SET_VALUE :: u16 where "SCENE_OP_SET_VALUE \<equiv> 0x0004"
abbreviation SCENE_OP_SET_RECT :: u16 where "SCENE_OP_SET_RECT \<equiv> 0x0005"
abbreviation SCENE_OP_SET_FLAGS :: u16 where "SCENE_OP_SET_FLAGS \<equiv> 0x0006"
abbreviation SCENE_OP_SET_STYLE :: u16 where "SCENE_OP_SET_STYLE \<equiv> 0x0007"
abbreviation SCENE_OP_SET_TEXTURE :: u16 where "SCENE_OP_SET_TEXTURE \<equiv> 0x0008"
abbreviation SCENE_OP_SET_EFFECT :: u16 where "SCENE_OP_SET_EFFECT \<equiv> 0x0009"
abbreviation SCENE_OP_FOCUS :: u16 where "SCENE_OP_FOCUS \<equiv> 0x000A"
abbreviation SCENE_OP_FOCUS_NEXT :: u16 where "SCENE_OP_FOCUS_NEXT \<equiv> 0x000B"
abbreviation SCENE_OP_PRESENT :: u16 where "SCENE_OP_PRESENT \<equiv> 0x000C"
abbreviation SCENE_OP_SNAPSHOT :: u16 where "SCENE_OP_SNAPSHOT \<equiv> 0x000D"
abbreviation SCENE_OP_SEARCH :: u16 where "SCENE_OP_SEARCH \<equiv> 0x000E"
abbreviation SCENE_OP_MACRO_BEGIN :: u16 where "SCENE_OP_MACRO_BEGIN \<equiv> 0x000F"
abbreviation SCENE_OP_MACRO_END :: u16 where "SCENE_OP_MACRO_END \<equiv> 0x0010"
abbreviation SCENE_OP_EXEC_MACRO :: u16 where "SCENE_OP_EXEC_MACRO \<equiv> 0x0011"
abbreviation SCENE_OP_CAPTURE :: u16 where "SCENE_OP_CAPTURE \<equiv> 0x0012"
abbreviation SCENE_OP_ACK :: u16 where "SCENE_OP_ACK \<equiv> 0x0013"
abbreviation SCENE_OP_PING :: u16 where "SCENE_OP_PING \<equiv> 0x0014"
abbreviation SCENE_OP_SET_INPUT_MODE :: u16 where "SCENE_OP_SET_INPUT_MODE \<equiv> 0x0015"
abbreviation SCENE_OP_SEEK :: u16 where "SCENE_OP_SEEK \<equiv> 0x0016"
abbreviation SCENE_OP_IMPORT_TEXTURE :: u16 where "SCENE_OP_IMPORT_TEXTURE \<equiv> 0x0017"

text \<open>Server records.\<close>

abbreviation SCENE_SRV_WELCOME :: u16 where "SCENE_SRV_WELCOME \<equiv> 0x8001"
abbreviation SCENE_SRV_ERROR :: u16 where "SCENE_SRV_ERROR \<equiv> 0x8002"
abbreviation SCENE_SRV_SNAPSHOT :: u16 where "SCENE_SRV_SNAPSHOT \<equiv> 0x8003"
abbreviation SCENE_SRV_SEARCH_RESULT :: u16 where "SCENE_SRV_SEARCH_RESULT \<equiv> 0x8004"
abbreviation SCENE_SRV_CAPTURE :: u16 where "SCENE_SRV_CAPTURE \<equiv> 0x8005"
abbreviation SCENE_SRV_PONG :: u16 where "SCENE_SRV_PONG \<equiv> 0x8006"
abbreviation SCENE_SRV_INPUT_POINTER :: u16 where "SCENE_SRV_INPUT_POINTER \<equiv> 0x8007"
abbreviation SCENE_SRV_INPUT_ACTIVATE :: u16 where "SCENE_SRV_INPUT_ACTIVATE \<equiv> 0x8008"
abbreviation SCENE_SRV_INPUT_FOCUS :: u16 where "SCENE_SRV_INPUT_FOCUS \<equiv> 0x8009"
abbreviation SCENE_SRV_PRESENT_DONE :: u16 where "SCENE_SRV_PRESENT_DONE \<equiv> 0x800A"
abbreviation SCENE_SRV_TEXT_INDEX :: u16 where "SCENE_SRV_TEXT_INDEX \<equiv> 0x800B"
abbreviation SCENE_SRV_INPUT_KEY :: u16 where "SCENE_SRV_INPUT_KEY \<equiv> 0x800C"
abbreviation SCENE_SRV_IMPORT_RESULT :: u16 where "SCENE_SRV_IMPORT_RESULT \<equiv> 0x800D"
abbreviation SCENE_SRV_INPUT_TEXT :: u16 where "SCENE_SRV_INPUT_TEXT \<equiv> 0x800E"

text \<open>Error codes.\<close>

abbreviation SCENE_ERR_PROTOCOL :: u16 where "SCENE_ERR_PROTOCOL \<equiv> 0x0001"
abbreviation SCENE_ERR_SEQ :: u16 where "SCENE_ERR_SEQ \<equiv> 0x0002"
abbreviation SCENE_ERR_BAD_NODE :: u16 where "SCENE_ERR_BAD_NODE \<equiv> 0x0003"
abbreviation SCENE_ERR_BAD_PARENT :: u16 where "SCENE_ERR_BAD_PARENT \<equiv> 0x0004"
abbreviation SCENE_ERR_BAD_ROLE :: u16 where "SCENE_ERR_BAD_ROLE \<equiv> 0x0005"
abbreviation SCENE_ERR_LIMIT :: u16 where "SCENE_ERR_LIMIT \<equiv> 0x0006"
abbreviation SCENE_ERR_STATE :: u16 where "SCENE_ERR_STATE \<equiv> 0x0007"
abbreviation SCENE_ERR_CKSUM :: u16 where "SCENE_ERR_CKSUM \<equiv> 0x0008"
abbreviation SCENE_ERR_MACRO :: u16 where "SCENE_ERR_MACRO \<equiv> 0x0009"
abbreviation SCENE_ERR_INPUT_MODE :: u16 where "SCENE_ERR_INPUT_MODE \<equiv> 0x000A"

abbreviation SCENE_MODE_LIVE :: u8 where "SCENE_MODE_LIVE \<equiv> 0"
abbreviation SCENE_MODE_REPLAY :: u8 where "SCENE_MODE_REPLAY \<equiv> 1"
abbreviation SCENE_MODE_RECORD :: u8 where "SCENE_MODE_RECORD \<equiv> 2"

text \<open>A function that returns the negative of an error code.\<close>

definition neg_err :: "u16 \<Rightarrow> int" where
  "neg_err e = - uint e"

subsection \<open>Limits and frame header\<close>

record scene_limits =
  max_nodes_per_session :: u32
  max_text_bytes_per_slot :: u32
  max_text_slots_per_node :: u32
  max_record_length :: u32
  input_latency_budget_us :: u64

definition scene_default_limits :: scene_limits where
  "scene_default_limits =
     \<lparr>max_nodes_per_session = 262144, max_text_bytes_per_slot = 1024 * 1024,
      max_text_slots_per_node = 48, max_record_length = 16 * 1024 * 1024,
      input_latency_budget_us = 16667\<rparr>"

record scene_frame_header =
  fh_magic :: u32
  fh_version :: u16
  fh_opcode :: u16
  fh_length :: u32
  fh_checksum :: u32

record rect =
  rx :: i32
  ry :: i32
  rw :: i32
  rh :: i32

subsection \<open>Little-endian primitives\<close>

definition scene_put_u16 :: "u16 \<Rightarrow> bytes" where
  "scene_put_u16 v = [ucast (v AND 0xFF), ucast (drop_bit 8 v AND 0xFF)]"

definition scene_put_u32 :: "u32 \<Rightarrow> bytes" where
  "scene_put_u32 v =
     [ucast (v AND 0xFF), ucast (drop_bit 8 v AND 0xFF),
      ucast (drop_bit 16 v AND 0xFF), ucast (drop_bit 24 v AND 0xFF)]"

definition scene_put_u64 :: "u64 \<Rightarrow> bytes" where
  "scene_put_u64 v = map (\<lambda>i. ucast (drop_bit (8 * i) v AND 0xFF)) [0..<8]"

definition scene_put_i32 :: "i32 \<Rightarrow> bytes" where
  "scene_put_i32 v = scene_put_u32 v"

definition scene_get_u16 :: "bytes \<Rightarrow> nat \<Rightarrow> u16" where
  "scene_get_u16 p off = ucast (rd p off) OR push_bit 8 (ucast (rd p (off + 1)))"

definition scene_get_u32 :: "bytes \<Rightarrow> nat \<Rightarrow> u32" where
  "scene_get_u32 p off =
     ucast (rd p off) OR push_bit 8 (ucast (rd p (off + 1))) OR
     push_bit 16 (ucast (rd p (off + 2))) OR push_bit 24 (ucast (rd p (off + 3)))"

definition scene_get_u64 :: "bytes \<Rightarrow> nat \<Rightarrow> u64" where
  "scene_get_u64 p off =
     foldl (\<lambda>v i. v OR push_bit (8 * i) (ucast (rd p (off + i)))) 0 [0..<8]"

definition scene_get_i32 :: "bytes \<Rightarrow> nat \<Rightarrow> i32" where
  "scene_get_i32 p off = scene_get_u32 p off"

definition scene_utf8_field_len :: "u32 \<Rightarrow> nat" where
  "scene_utf8_field_len len = 4 + unat len"

text \<open>The bytes the field writer stores, with the field length it returns.\<close>

definition scene_put_utf8 :: "bytes option \<Rightarrow> u32 \<Rightarrow> bytes \<times> nat" where
  "scene_put_utf8 s len =
     (scene_put_u32 len @
        (case s of
           Some cs \<Rightarrow> if len > 0 then map (rd cs) [0..<unat len] else []
         | None \<Rightarrow> []),
      scene_utf8_field_len len)"

subsection \<open>FNV-1a 32 and the frame check\<close>

definition fnv_step :: "u32 \<Rightarrow> u8 \<Rightarrow> u32" where
  "fnv_step h b = (h XOR ucast b) * 16777619"

definition scene_fnv1a32 :: "bytes \<Rightarrow> nat \<Rightarrow> u32" where
  "scene_fnv1a32 data len = foldl (\<lambda>h i. fnv_step h (rd data i)) 2166136261 [0..<len]"

text \<open>The hash of a frame, its checksum field (bytes 12 to 15) read as zero.\<close>

definition frame_hash :: "bytes \<Rightarrow> nat \<Rightarrow> u32" where
  "frame_hash frame n =
     foldl (\<lambda>ck i. fnv_step ck (if i \<ge> 12 \<and> i < 16 then 0 else rd frame i))
       2166136261 [0..<n]"

definition scene_frame_check :: "scene_frame_header \<Rightarrow> bytes \<Rightarrow> u32 \<Rightarrow> int" where
  "scene_frame_check h frame frame_len =
     (if frame_len < 16 then neg_err SCENE_ERR_PROTOCOL
      else if fh_magic h \<noteq> SCENE_MAGIC then neg_err SCENE_ERR_PROTOCOL
      else if fh_version h \<noteq> SCENE_PROTOCOL_V0 then neg_err SCENE_ERR_PROTOCOL
      else if fh_length h \<noteq> frame_len - 16 then neg_err SCENE_ERR_PROTOCOL
      else
        let total = 16 + fh_length h;
            ck = frame_hash frame (unat total)
        in if ck \<noteq> fh_checksum h then neg_err SCENE_ERR_CKSUM else 0)"

text \<open>The header of a frame, as the server adapter decodes it before the check.\<close>

definition read_header :: "bytes \<Rightarrow> scene_frame_header" where
  "read_header f =
     \<lparr>fh_magic = scene_get_u32 f 0, fh_version = scene_get_u16 f 4,
      fh_opcode = scene_get_u16 f 6, fh_length = scene_get_u32 f 8,
      fh_checksum = scene_get_u32 f 12\<rparr>"

subsection \<open>Encoding and decoding are inverse\<close>

lemma length_put [simp]:
  "length (scene_put_u16 a) = 2" "length (scene_put_u32 b) = 4"
  "length (scene_put_u64 c) = 8" "length (scene_put_i32 d) = 4"
  by (simp_all add: scene_put_u16_def scene_put_u32_def scene_put_u64_def scene_put_i32_def)

text \<open>Decoding what was encoded, wherever the encoding stands in memory.\<close>

lemma get_put_u16_0: "scene_get_u16 (scene_put_u16 v @ ys) 0 = v"
proof (rule bit_word_eqI)
  fix n assume "n < LENGTH(16)"
  then show "bit (scene_get_u16 (scene_put_u16 v @ ys) 0) n = bit v n"
    by (auto simp: scene_get_u16_def scene_put_u16_def bit_or_iff bit_byte_field bit_byte_field_0)
qed

lemma get_put_u32_0: "scene_get_u32 (scene_put_u32 v @ ys) 0 = v"
proof (rule bit_word_eqI)
  fix n assume "n < LENGTH(32)"
  then show "bit (scene_get_u32 (scene_put_u32 v @ ys) 0) n = bit v n"
    by (auto simp: scene_get_u32_def scene_put_u32_def bit_or_iff bit_byte_field bit_byte_field_0)
qed

lemma get_put_u64_0: "scene_get_u64 (scene_put_u64 v @ ys) 0 = v"
proof (rule bit_word_eqI)
  fix n assume "n < LENGTH(64)"
  then show "bit (scene_get_u64 (scene_put_u64 v @ ys) 0) n = bit v n"
    by (auto simp: scene_get_u64_def scene_put_u64_def upt_rec bit_or_iff bit_byte_field
        bit_byte_field_0)
qed

lemma get_u16_append_left:
  "off + 2 \<le> length xs \<Longrightarrow> scene_get_u16 (xs @ ys) off = scene_get_u16 xs off"
  by (simp add: scene_get_u16_def)

lemma get_u32_append_left:
  "off + 4 \<le> length xs \<Longrightarrow> scene_get_u32 (xs @ ys) off = scene_get_u32 xs off"
  by (simp add: scene_get_u32_def)

lemma get_u64_append_left:
  "off + 8 \<le> length xs \<Longrightarrow> scene_get_u64 (xs @ ys) off = scene_get_u64 xs off"
  by (simp add: scene_get_u64_def upt_rec)

lemma get_append_shift [simp]:
  "scene_get_u16 (xs @ ys) (length xs + off) = scene_get_u16 ys off"
  "scene_get_u32 (xs @ ys) (length xs + off) = scene_get_u32 ys off"
  "scene_get_u64 (xs @ ys) (length xs + off) = scene_get_u64 ys off"
  "scene_get_i32 (xs @ ys) (length xs + off) = scene_get_i32 ys off"
  by (simp_all add: scene_get_u16_def scene_get_u32_def scene_get_u64_def scene_get_i32_def
      add.assoc)

lemma get_append_right:
  assumes "length xs \<le> off"
  shows "scene_get_u16 (xs @ ys) off = scene_get_u16 ys (off - length xs)"
    and "scene_get_u32 (xs @ ys) off = scene_get_u32 ys (off - length xs)"
    and "scene_get_u64 (xs @ ys) off = scene_get_u64 ys (off - length xs)"
    and "scene_get_i32 (xs @ ys) off = scene_get_i32 ys (off - length xs)"
  using assms get_append_shift [of xs ys "off - length xs"] by simp_all

lemma get_drop [simp]:
  "scene_get_u16 (drop n m) off = scene_get_u16 m (n + off)"
  "scene_get_u32 (drop n m) off = scene_get_u32 m (n + off)"
  "scene_get_u64 (drop n m) off = scene_get_u64 m (n + off)"
  by (simp_all add: scene_get_u16_def scene_get_u32_def scene_get_u64_def add.assoc)

lemma get_put_at [wire_simps]:
  assumes "off = length xs"
  shows "scene_get_u16 (xs @ scene_put_u16 a @ ys) off = a"
    and "scene_get_u32 (xs @ scene_put_u32 b @ ys) off = b"
    and "scene_get_u64 (xs @ scene_put_u64 c @ ys) off = c"
    and "scene_get_i32 (xs @ scene_put_i32 d @ ys) off = d"
  using assms get_put_u16_0 get_put_u32_0 get_put_u64_0
  by (simp_all add: get_append_right scene_get_i32_def scene_put_i32_def)

lemma get_put_whole [wire_simps]:
  "scene_get_u16 (scene_put_u16 a) 0 = a" "scene_get_u32 (scene_put_u32 b) 0 = b"
  "scene_get_u64 (scene_put_u64 c) 0 = c" "scene_get_i32 (scene_put_i32 d) 0 = d"
  using get_put_at [of 0 "[]" _ "[]"] by simp_all

subsection \<open>Checksum\<close>

text \<open>The FNV prime is odd, so multiplying by it is injective modulo \<open>2^32\<close>.\<close>

lemma fnv_prime_inverse: "(16777619 :: u32) * 899433627 = 1"
  by simp

lemma fnv_step_inj: "fnv_step a c = fnv_step b c \<Longrightarrow> a = b"
proof -
  assume "fnv_step a c = fnv_step b c"
  then have "(a XOR ucast c) * 16777619 * 899433627 = (b XOR ucast c) * 16777619 * 899433627"
    by (simp add: fnv_step_def)
  then have "a XOR ucast c = b XOR ucast c"
    by (simp only: mult.assoc fnv_prime_inverse mult_1_right)
  then show "a = b"
    by (metis (no_types) xor.assoc xor_self_eq xor.right_neutral)
qed

lemma fnv_step_byte_inj: "fnv_step a b = fnv_step a c \<Longrightarrow> b = c"
proof -
  assume "fnv_step a b = fnv_step a c"
  then have "(a XOR ucast b) * 16777619 * 899433627 = (a XOR ucast c) * 16777619 * 899433627"
    by (simp add: fnv_step_def)
  then have "a XOR ucast b = a XOR ucast c"
    by (simp only: mult.assoc fnv_prime_inverse mult_1_right)
  then have "(ucast b :: u32) = ucast c"
    by (metis (no_types) xor.assoc xor_self_eq xor.left_neutral)
  then have bits: "bit (ucast b :: u32) n = bit (ucast c :: u32) n" for n by simp
  show "b = c"
  proof (rule bit_word_eqI)
    fix n assume "n < LENGTH(8)"
    then show "bit b n = bit c n" using bits [of n] by (simp add: bit_ucast_iff)
  qed
qed

text \<open>A hash over byte positions, as a fold over the bytes read.\<close>

lemma foldl_positions: "foldl (\<lambda>h i. fnv_step h (g i)) a is = foldl fnv_step a (map g is)"
  by (induction "is" arbitrary: a) simp_all

lemma foldl_fnv_one_byte:
  assumes "i < length xs" "foldl fnv_step a (xs[i := b]) = foldl fnv_step a xs"
  shows "xs ! i = b"
proof -
  let ?h = "foldl fnv_step a (take i xs)"
  have xs: "xs = take i xs @ xs ! i # drop (Suc i) xs"
    using assms(1) by (rule id_take_nth_drop)
  have "foldl fnv_step a xs = foldl fnv_step (fnv_step ?h (xs ! i)) (drop (Suc i) xs)"
    by (subst xs) (simp del: append_take_drop_id)
  moreover have "foldl fnv_step a (xs[i := b]) = foldl fnv_step (fnv_step ?h b) (drop (Suc i) xs)"
    using assms(1) by (simp add: upd_conv_take_nth_drop)
  ultimately have "foldl fnv_step (fnv_step ?h b) (drop (Suc i) xs) =
      foldl fnv_step (fnv_step ?h (xs ! i)) (drop (Suc i) xs)"
    using assms(2) by simp
  then have "fnv_step ?h b = fnv_step ?h (xs ! i)"
    by (rule foldl_inj_step [of fnv_step, rotated]) (rule fnv_step_inj)
  then show ?thesis using fnv_step_byte_inj by metis
qed

text \<open>One altered byte outside the checksum field always changes the hash of a frame.\<close>

lemma frame_hash_one_byte:
  assumes i: "i < n" "n \<le> length f" "\<not> (12 \<le> i \<and> i < 16)" and ne: "f ! i \<noteq> b"
  shows "frame_hash (f[i := b]) n \<noteq> frame_hash f n"
proof
  define g where "g = (\<lambda>f i. if 12 \<le> i \<and> i < 16 then 0 else rd f i :: u8)"
  have hash: "frame_hash f n = foldl fnv_step 2166136261 (map (g f) [0..<n])" for f
    unfolding frame_hash_def g_def by (rule foldl_positions)
  have at: "g (f[i := b]) j = (if j = i then b else g f j)" if "j < n" for j
    using i that by (auto simp: g_def rd_def)
  have map: "map (g (f[i := b])) [0..<n] = (map (g f) [0..<n])[i := b]"
    by (rule nth_equalityI) (auto simp: at nth_list_update)
  assume "frame_hash (f[i := b]) n = frame_hash f n"
  then have "foldl fnv_step 2166136261 ((map (g f) [0..<n])[i := b]) =
      foldl fnv_step 2166136261 (map (g f) [0..<n])" by (simp only: hash map)
  then have "map (g f) [0..<n] ! i = b"
    using i(1) by (intro foldl_fnv_one_byte [of _ _ 2166136261]) (simp_all del: list_update.simps)
  moreover have "map (g f) [0..<n] ! i = f ! i"
    using i by (auto simp: g_def rd_def)
  ultimately show False using ne by simp
qed

lemma frame_hash_checksum_field:
  assumes "12 \<le> i" "i < 16"
  shows "frame_hash (f[i := b]) n = frame_hash f n"
proof -
  have "(if 12 \<le> j \<and> j < 16 then 0 else rd (f[i := b]) j) =
        (if 12 \<le> j \<and> j < 16 then 0 else rd f j)" for j
    using assms by (auto simp: rd_def)
  then show ?thesis by (simp only: frame_hash_def)
qed

text \<open>Four bytes and the word they encode determine each other.\<close>

lemma bit_get_u32:
  "bit (scene_get_u32 p off) (8 * j + k) \<longleftrightarrow> bit (rd p (off + j)) k" if "j < 4" "k < 8"
proof -
  have bits: "\<not> bit (rd p a) n" if "8 \<le> n" for a n
    using that bit_imp_le_length by fastforce
  from that consider "j = 0" | "j = 1" | "j = 2" | "j = 3" by linarith
  then show ?thesis
    using that bits
    by cases (auto simp: scene_get_u32_def bit_or_iff bit_push_bit_iff bit_ucast_iff)
qed

lemma get_u32_inj:
  assumes "scene_get_u32 p off = scene_get_u32 q off" "j < 4"
  shows "rd p (off + j) = rd q (off + j)"
proof (rule bit_word_eqI)
  fix k assume "k < LENGTH(8)"
  then have k: "k < 8" by simp
  show "bit (rd p (off + j)) k = bit (rd q (off + j)) k"
    by (simp only: bit_get_u32 [OF assms(2) k, symmetric] assms(1))
qed

end
