(* ===== verification/DynBuf.thy ===== *)
theory DynBuf
  imports SceneFmt
begin

text \<open>
  The growable byte buffer of \<open>src/scene_store.c\<close> (\<open>dynbuf\<close>, \<open>db_reserve\<close>, \<open>db_put\<close>) and
  the framing of outbound records (\<open>emit\<close>), at the width of the code's \<open>uint32_t\<close> lengths
  and capacities. Allocation is taken to succeed.

  The capacity is doubled in a loop that ends only when a 32-bit capacity reaches the
  need; the loop is a partial function, so that not returning is the value \<open>None\<close>. The
  lemmas show that up to \<open>2^31\<close> bytes a buffer is exactly the list of the bytes appended to
  it, and that a need beyond \<open>2^31\<close> makes the loop run forever. The component theories
  above this one therefore keep a buffer as the list of its bytes.
\<close>

subsection \<open>The buffer\<close>

record dynbuf =
  db_data :: bytes   \<comment> \<open>the first \<open>len\<close> bytes of the allocation\<close>
  db_len :: u32
  db_cap :: u32

definition db_empty :: dynbuf where
  "db_empty = \<lparr>db_data = [], db_len = 0, db_cap = 0\<rparr>"

partial_function (option) db_grow :: "u32 \<Rightarrow> u32 \<Rightarrow> u32 option" where
  "db_grow nc need = (if nc < need then db_grow (push_bit 1 nc) need else Some nc)"

definition db_reserve :: "dynbuf \<Rightarrow> u32 \<Rightarrow> dynbuf option" where
  "db_reserve b need =
     (if db_cap b \<ge> need then Some b
      else case db_grow (if db_cap b \<noteq> 0 then db_cap b else 256) need of
             None \<Rightarrow> None
           | Some nc \<Rightarrow> Some (b\<lparr>db_cap := nc\<rparr>))"

definition db_put :: "dynbuf \<Rightarrow> bytes \<Rightarrow> dynbuf option" where
  "db_put b bs =
     (case db_reserve b (db_len b + of_nat (length bs)) of
        None \<Rightarrow> None
      | Some b' \<Rightarrow> Some (b'\<lparr>db_data := db_data b' @ bs,
                          db_len := db_len b' + of_nat (length bs)\<rparr>))"

definition db_put_u8 :: "dynbuf \<Rightarrow> u8 \<Rightarrow> dynbuf option" where
  "db_put_u8 b v = db_put b [v]"

definition db_put_u16 :: "dynbuf \<Rightarrow> u16 \<Rightarrow> dynbuf option" where
  "db_put_u16 b v = db_put b (scene_put_u16 v)"

definition db_put_u32 :: "dynbuf \<Rightarrow> u32 \<Rightarrow> dynbuf option" where
  "db_put_u32 b v = db_put b (scene_put_u32 v)"

definition db_put_u64 :: "dynbuf \<Rightarrow> u64 \<Rightarrow> dynbuf option" where
  "db_put_u64 b v = db_put b (scene_put_u64 v)"

definition db_put_i32 :: "dynbuf \<Rightarrow> i32 \<Rightarrow> dynbuf option" where
  "db_put_i32 b v = db_put_u32 b v"

definition db_free :: "dynbuf \<Rightarrow> dynbuf" where
  "db_free b = b\<lparr>db_data := [], db_len := 0, db_cap := 0\<rparr>"

text \<open>Framing: header with a zero checksum, payload, then the checksum patched in.\<close>

definition db_emit :: "dynbuf \<Rightarrow> u16 \<Rightarrow> bytes \<Rightarrow> dynbuf option" where
  "db_emit out opcode payload =
     (let plen = of_nat (length payload) :: u32;
          hdr = scene_put_u32 SCENE_MAGIC @ scene_put_u16 SCENE_PROTOCOL_V0 @
                scene_put_u16 opcode @ scene_put_u32 plen @ scene_put_u32 0
      in case db_reserve out (16 + plen) of
           None \<Rightarrow> None
         | Some o1 \<Rightarrow>
             let base = unat (db_len o1) in
             (case db_put o1 hdr of
                None \<Rightarrow> None
              | Some o2 \<Rightarrow>
                  (case (if plen \<noteq> 0 then db_put o2 payload else Some o2) of
                     None \<Rightarrow> None
                   | Some o3 \<Rightarrow>
                       let ck = scene_fnv1a32 (drop base (db_data o3)) (unat (16 + plen))
                       in Some (o3\<lparr>db_data :=
                                  wr (db_data o3) (base + 12) (scene_put_u32 ck)\<rparr>))))"

text \<open>The frame as a list of bytes.\<close>

definition frame_head :: "u16 \<Rightarrow> bytes \<Rightarrow> bytes" where
  "frame_head opcode payload =
     scene_put_u32 SCENE_MAGIC @ scene_put_u16 SCENE_PROTOCOL_V0 @ scene_put_u16 opcode @
     scene_put_u32 (of_nat (length payload))"

definition scene_frame :: "u16 \<Rightarrow> bytes \<Rightarrow> bytes" where
  "scene_frame opcode payload =
     (let blank = frame_head opcode payload @ scene_put_u32 0 @ payload
      in frame_head opcode payload @
           scene_put_u32 (scene_fnv1a32 blank (16 + length payload)) @ payload)"

subsection \<open>Growth\<close>

text \<open>A buffer within the range where its capacity arithmetic is exact.\<close>

definition db_ok :: "dynbuf \<Rightarrow> bool" where
  "db_ok b \<longleftrightarrow>
     unat (db_len b) = length (db_data b) \<and> unat (db_len b) \<le> unat (db_cap b) \<and>
     (db_cap b = 0 \<or> (\<exists>k. unat (db_cap b) = 256 * 2 ^ k \<and> k \<le> 23))"

lemma db_ok_empty [simp]: "db_ok db_empty"
  by (simp add: db_ok_def db_empty_def)

lemma unat_shift1: "unat (nc :: u32) < 2 ^ 31 \<Longrightarrow> unat (push_bit 1 nc) = 2 * unat nc"
  by (simp add: push_bit_eq_mult unat_word_ariths(2))

lemma db_grow_Some:
  assumes "unat nc = 256 * 2 ^ k" "k \<le> 23" "unat need \<le> 2 ^ 31"
  shows "\<exists>nc' k'. db_grow nc need = Some nc' \<and> unat nc' = 256 * 2 ^ k' \<and> k' \<le> 23 \<and> need \<le> nc'"
  using assms
proof (induction "23 - k" arbitrary: nc k)
  case 0
  then have "unat nc = 2 ^ 31" by simp
  with 0 have le: "need \<le> nc" by (simp add: word_le_nat_alt)
  then have "db_grow nc need = Some nc" by (subst db_grow.simps) auto
  with le 0 \<open>unat nc = 2 ^ 31\<close> show ?case by (intro exI [of _ nc] exI [of _ 23]) simp
next
  case (Suc d)
  show ?case
  proof (cases "nc < need")
    case False
    with Suc show ?thesis by (subst db_grow.simps) (auto simp: not_less)
  next
    case True
    have lt: "unat nc < 2 ^ 31"
      using True Suc.prems(3) by (simp add: word_less_nat_alt)
    have "unat (push_bit 1 nc) = 256 * 2 ^ Suc k"
      by (simp only: unat_shift1 [OF lt] Suc.prems(1)) simp
    moreover have "Suc k \<le> 23" "d = 23 - Suc k" using Suc.hyps(2) by auto
    ultimately show ?thesis
      using Suc.hyps(1) [of "Suc k" "push_bit 1 nc"] Suc.prems(3) True
      by (subst db_grow.simps) simp
  qed
qed

text \<open>Beyond \<open>2^31\<close> the loop does not return: the capacity wraps to 0 and stays there.\<close>

lemma unat_push_256: "unat (push_bit k 256 :: u32) \<le> 2 ^ 31"
proof (cases "k \<le> 23")
  case True
  then have "(2::nat) ^ k \<le> 2 ^ 23" by (rule power_increasing) simp
  then have "256 * 2 ^ k \<le> (2::nat) ^ 31" by simp
  moreover have "unat (push_bit k 256 :: u32) \<le> 256 * 2 ^ k"
    using take_bit_nat_less_eq_self [of 32 "push_bit k 256"]
    by (simp only: unsigned_push_bit_eq) (simp add: push_bit_eq_mult mult.commute)
  ultimately show ?thesis by (rule order_trans [rotated])
next
  case False
  then have "push_bit k (256 :: u32) = push_bit (k - 24) (push_bit 24 256)"
    by (simp only: push_bit_push_bit) simp
  also have "push_bit 24 (256 :: u32) = 0" by simp
  finally show ?thesis by simp
qed

lemma db_grow_diverges:
  assumes need: "2 ^ 31 < unat need"
  shows "db_grow (push_bit k 256) need = None"
proof (rule ccontr)
  assume "db_grow (push_bit k 256) need \<noteq> None"
  then obtain r where r: "db_grow (push_bit k 256) need = Some r" by blast
  define P where "P = (\<lambda>(nc :: u32) (nd :: u32) (r :: u32). nd = need \<longrightarrow> (\<forall>k. nc \<noteq> push_bit k 256))"
  have "P (push_bit k 256) need r"
  proof (rule db_grow.raw_induct [OF _ r])
    fix g :: "u32 \<Rightarrow> u32 \<Rightarrow> u32 option" and nc nd r :: u32
    assume IH: "\<And>nc nd r. g nc nd = Some r \<Longrightarrow> P nc nd r"
      and eq: "(if nc < nd then g (push_bit 1 nc) nd else Some nc) = Some r"
    show "P nc nd r"
      unfolding P_def
    proof (intro allI impI notI)
      fix k assume nd: "nd = need" and nc: "nc = push_bit k 256"
      have "nc < nd" using unat_push_256 [of k] need by (simp add: nc nd word_less_nat_alt)
      with eq have "g (push_bit (Suc k) 256) nd = Some r" by (simp add: nc)
      then show False using IH nd unfolding P_def by blast
    qed
  qed
  then show False unfolding P_def by blast
qed

subsection \<open>A buffer is the list of what was appended\<close>

lemma db_ok_cap_push: "db_ok b \<Longrightarrow> db_cap b \<noteq> 0 \<Longrightarrow> \<exists>k. db_cap b = push_bit k 256"
proof -
  assume "db_ok b" "db_cap b \<noteq> 0"
  then obtain k where k: "unat (db_cap b) = 256 * 2 ^ k" "k \<le> 23" by (auto simp: db_ok_def)
  then have "(2::nat) ^ k \<le> 2 ^ 23" by (intro power_increasing) simp_all
  then have "unat (push_bit k 256 :: u32) = 256 * 2 ^ k"
    by (simp only: unsigned_push_bit_eq) (simp add: push_bit_eq_mult take_bit_nat_eq_self)
  with k show ?thesis by (metis word_unat_eq_iff)
qed

lemma db_reserve_Some:
  assumes "db_ok b" "unat need \<le> 2 ^ 31"
  shows "\<exists>b'. db_reserve b need = Some b' \<and> db_ok b' \<and> db_data b' = db_data b \<and>
              db_len b' = db_len b \<and> need \<le> db_cap b'"
proof (cases "need \<le> db_cap b")
  case True
  with assms show ?thesis by (simp add: db_reserve_def)
next
  case False
  let ?c = "if db_cap b \<noteq> 0 then db_cap b else 256"
  have "\<exists>k. unat ?c = 256 * 2 ^ k \<and> k \<le> 23"
    using assms(1) by (auto simp: db_ok_def intro: exI [of _ 0])
  then obtain nc k' where nc: "db_grow ?c need = Some nc" "unat nc = 256 * 2 ^ k'" "k' \<le> 23"
      "need \<le> nc"
    using db_grow_Some assms(2) by blast
  have "unat (db_len b) \<le> unat nc"
    using False assms(1) nc(4) by (simp add: db_ok_def word_le_nat_alt)
  with nc False assms(1) show ?thesis
    by (auto simp: db_reserve_def db_ok_def)
qed

lemma db_reserve_None:
  assumes "db_ok b" "2 ^ 31 < unat need"
  shows "db_reserve b need = None"
proof -
  let ?c = "if db_cap b \<noteq> 0 then db_cap b else 256"
  obtain k where k: "?c = push_bit k 256"
  proof (cases "db_cap b = 0")
    case True
    then show ?thesis using that [of 0] by simp
  next
    case False
    then show ?thesis using that db_ok_cap_push [OF assms(1)] by auto
  qed
  have "unat (db_cap b) \<le> unat ?c" by simp
  then have "unat (db_cap b) \<le> 2 ^ 31"
    unfolding k using unat_push_256 [of k] by (rule order_trans)
  with assms(2) have "\<not> need \<le> db_cap b" by (simp add: word_le_nat_alt)
  then show ?thesis
    unfolding db_reserve_def k using db_grow_diverges [OF assms(2), of k] by simp
qed

text \<open>Appending is list append up to \<open>2^31\<close> bytes, and does not return beyond.\<close>

lemma db_put_append:
  assumes "db_ok b" "length (db_data b) + length bs \<le> 2 ^ 31"
  shows "\<exists>b'. db_put b bs = Some b' \<and> db_ok b' \<and> db_data b' = db_data b @ bs"
proof -
  let ?need = "db_len b + of_nat (length bs)"
  have len: "unat (of_nat (length bs) :: u32) = length bs"
    using assms(2) by (intro unat_of_nat_small) simp
  have need: "unat ?need = length (db_data b) + length bs"
    using assms by (simp add: unat_word_ariths(1) len db_ok_def)
  then obtain b' where b': "db_reserve b ?need = Some b'" "db_ok b'" "db_data b' = db_data b"
      "db_len b' = db_len b" "?need \<le> db_cap b'"
    using db_reserve_Some [OF assms(1), of ?need] assms(2) by auto
  then show ?thesis
    using need by (auto simp: db_put_def db_ok_def word_le_nat_alt)
qed

lemma db_put_diverges:
  assumes "db_ok b" "2 ^ 31 < length (db_data b) + length bs"
    and "length (db_data b) + length bs < 2 ^ 32"
  shows "db_put b bs = None"
proof -
  let ?need = "db_len b + of_nat (length bs)"
  have "unat (of_nat (length bs) :: u32) = length bs"
    using assms(3) by (intro unat_of_nat_small) simp
  then have "unat ?need = length (db_data b) + length bs"
    using assms by (simp add: unat_word_ariths(1) db_ok_def)
  then show ?thesis
    using db_reserve_None [OF assms(1)] assms(2) by (simp add: db_put_def)
qed

end
