(* ===== verification/Emit.thy ===== *)
theory Emit
  imports DynBuf
begin

text \<open>
  Outbound records: what \<open>emit\<close> puts on the wire, and the outbound queue of the store
  (\<open>scene_store_out_next\<close>, \<open>scene_store_out_next_frame\<close>). The buffer of the queue is the
  list of its bytes, which \<open>db_emit_frame\<close> shows the code's buffer to be.
\<close>

subsection \<open>Frames\<close>

lemma length_frame_head [simp]: "length (frame_head opcode p) = 12"
  by (simp add: frame_head_def)

lemma length_scene_frame [simp]: "length (scene_frame opcode p) = 16 + length p"
  by (simp add: scene_frame_def Let_def)

lemma frame_payload [simp]: "drop 16 (scene_frame opcode p) = p"
  by (simp add: scene_frame_def Let_def)

lemma frame_payload_get:
  "scene_get_u32 (scene_frame opcode p @ ys) 8 = of_nat (length p)"
  "scene_get_u16 (scene_frame opcode p @ ys) 6 = opcode"
proof -
  let ?a = "scene_put_u32 SCENE_MAGIC @ scene_put_u16 SCENE_PROTOCOL_V0"
  have "scene_frame opcode p @ ys = ?a @ scene_put_u16 opcode @ drop 8 (scene_frame opcode p) @ ys"
    by (simp add: scene_frame_def frame_head_def Let_def)
  moreover have "scene_get_u16 (?a @ scene_put_u16 opcode @ zs) 6 = opcode" for zs
    by (rule get_put_at) simp
  ultimately show "scene_get_u16 (scene_frame opcode p @ ys) 6 = opcode"
    by (simp only: append_assoc)
  let ?b = "?a @ scene_put_u16 opcode"
  have "scene_frame opcode p @ ys =
      ?b @ scene_put_u32 (of_nat (length p)) @ drop 12 (scene_frame opcode p) @ ys"
    by (simp add: scene_frame_def frame_head_def Let_def)
  moreover have "scene_get_u32 (?b @ scene_put_u32 n @ zs) 8 = n" for n zs
    by (rule get_put_at) simp
  ultimately show "scene_get_u32 (scene_frame opcode p @ ys) 8 = of_nat (length p)"
    by (simp only: append_assoc)
qed

lemma read_header_frame:
  "read_header (scene_frame opcode p) =
     \<lparr>fh_magic = SCENE_MAGIC, fh_version = SCENE_PROTOCOL_V0, fh_opcode = opcode,
      fh_length = of_nat (length p),
      fh_checksum = scene_fnv1a32 (frame_head opcode p @ scene_put_u32 0 @ p) (16 + length p)\<rparr>"
proof -
  let ?f = "scene_frame opcode p"
  let ?ck = "scene_fnv1a32 (frame_head opcode p @ scene_put_u32 0 @ p) (16 + length p)"
  have "?f = scene_put_u32 SCENE_MAGIC @ drop 4 ?f"
    by (simp add: scene_frame_def frame_head_def Let_def)
  then have magic: "scene_get_u32 ?f 0 = SCENE_MAGIC"
    by (metis get_put_u32_0)
  have "?f = scene_put_u32 SCENE_MAGIC @ scene_put_u16 SCENE_PROTOCOL_V0 @ drop 6 ?f"
    by (simp add: scene_frame_def frame_head_def Let_def)
  then have version: "scene_get_u16 ?f 4 = SCENE_PROTOCOL_V0"
    by (metis get_put_at(1) length_put(2))
  have "?f = frame_head opcode p @ scene_put_u32 ?ck @ p"
    by (simp add: scene_frame_def Let_def)
  then have ck: "scene_get_u32 ?f 12 = ?ck"
    by (metis get_put_at(2) length_frame_head)
  show ?thesis
    using magic version ck frame_payload_get [of opcode p "[]"]
    by (simp add: read_header_def)
qed

text \<open>The hash of the frame with its checksum field blanked is the checksum stored in it.\<close>

lemma frame_hash_frame:
  "frame_hash (scene_frame opcode p) (16 + length p) =
   scene_fnv1a32 (frame_head opcode p @ scene_put_u32 0 @ p) (16 + length p)"
proof -
  let ?f = "scene_frame opcode p" and ?b = "frame_head opcode p @ scene_put_u32 0 @ p"
  have zero: "scene_put_u32 0 = [0, 0, 0, 0]" by (simp add: scene_put_u32_def)
  have "(if 12 \<le> i \<and> i < 16 then 0 else rd ?f i) = rd ?b i" for i
  proof -
    consider "i < 12" | "12 \<le> i \<and> i < 16" | "16 \<le> i" by linarith
    then show ?thesis
    proof cases
      case 1 then show ?thesis by (simp add: scene_frame_def Let_def)
    next
      case 2
      then have "i - 12 \<in> {0, 1, 2, 3}" by auto
      then have "rd (scene_put_u32 0 @ p) (i - 12) = 0" by (auto simp: zero)
      with 2 show ?thesis by (simp add: rd_append_right)
    next
      case 3
      then show ?thesis by (simp add: scene_frame_def Let_def rd_append_right)
    qed
  qed
  then show ?thesis by (simp only: frame_hash_def scene_fnv1a32_def)
qed

lemma frame_check_emitted:
  assumes "length p < 2 ^ 32 - 16"
  shows "scene_frame_check (read_header (scene_frame opcode p)) (scene_frame opcode p)
           (of_nat (16 + length p)) = 0"
proof -
  have len: "unat (of_nat (16 + length p) :: u32) = 16 + length p"
    using assms by (intro unat_of_nat_small) simp
  have "unat (16 + of_nat (length p) :: u32) = 16 + length p"
    using len by simp
  moreover have "\<not> (of_nat (16 + length p) :: u32) < 16"
    using len by (simp only: word_less_nat_alt) simp
  ultimately show ?thesis
    by (simp add: scene_frame_check_def read_header_frame frame_hash_frame Let_def)
qed

text \<open>A valid frame with one byte altered fails the check.\<close>

lemma frame_check_one_byte:
  assumes ok: "scene_frame_check (read_header f) f (of_nat (length f)) = 0"
    and len: "length f < 2 ^ 32" and i: "i < length f" and ne: "b \<noteq> f ! i"
  shows "scene_frame_check (read_header (f[i := b])) (f[i := b]) (of_nat (length f)) \<noteq> 0"
proof
  let ?g = "f[i := b]" and ?n = "of_nat (length f) :: u32"
  assume bad: "scene_frame_check (read_header ?g) ?g ?n = 0"
  have n: "unat ?n = length f" using len by (intro unat_of_nat_small) simp
  have chk: "frame_hash h (length f) = scene_get_u32 h 12"
    if "scene_frame_check (read_header h) h ?n = 0" for h
  proof -
    from that have "fh_length (read_header h) = ?n - 16"
      and "frame_hash h (unat (16 + fh_length (read_header h))) = fh_checksum (read_header h)"
      by (auto simp: scene_frame_check_def neg_err_def Let_def split: if_splits)
    then show ?thesis using n by (simp add: read_header_def)
  qed
  note hf = chk [OF ok] and hg = chk [OF bad]
  show False
  proof (cases "12 \<le> i \<and> i < 16")
    case True
    then have "scene_get_u32 ?g 12 = scene_get_u32 f 12"
      using hf hg frame_hash_checksum_field by simp
    then have "rd ?g (12 + (i - 12)) = rd f (12 + (i - 12))"
      using True by (intro get_u32_inj) auto
    with True i ne show False by (auto simp: rd_def)
  next
    case False
    then have "scene_get_u32 ?g 12 = scene_get_u32 f 12"
      by (auto simp: scene_get_u32_def rd_def)
    with hf hg have "frame_hash ?g (length f) = frame_hash f (length f)" by simp
    moreover have "frame_hash ?g (length f) \<noteq> frame_hash f (length f)"
      using False i ne by (intro frame_hash_one_byte) auto
    ultimately show False by simp
  qed
qed

text \<open>The code's emission appends exactly that frame to the outbound buffer.\<close>

lemma db_emit_frame:
  assumes ok: "db_ok out" and len: "length (db_data out) + 16 + length p \<le> 2 ^ 31"
  shows "\<exists>out'. db_emit out opcode p = Some out' \<and> db_ok out' \<and>
                db_data out' = db_data out @ scene_frame opcode p"
proof -
  let ?pl = "of_nat (length p) :: u32"
  define hdr where "hdr = frame_head opcode p @ scene_put_u32 0"
  have lh: "length hdr = 16" by (simp add: hdr_def)
  have pl: "unat ?pl = length p" using len by (intro unat_of_nat_small) simp
  have need: "unat (16 + ?pl) = 16 + length p"
    using pl len by (simp add: unat_word_ariths(1))
  obtain o1 where o1: "db_reserve out (16 + ?pl) = Some o1" "db_ok o1" "db_data o1 = db_data out"
    using db_reserve_Some [OF ok, of "16 + ?pl"] need len by auto
  obtain o2 where o2: "db_put o1 hdr = Some o2" "db_ok o2" "db_data o2 = db_data out @ hdr"
    using db_put_append [OF o1(2), of hdr] o1(3) len lh by auto
  obtain o3 where o3: "(if ?pl \<noteq> 0 then db_put o2 p else Some o2) = Some o3" "db_ok o3"
      "db_data o3 = db_data out @ hdr @ p"
  proof (cases "?pl = 0")
    case True
    then have "p = []" using pl by simp
    then show ?thesis using that o2 True by simp
  next
    case False
    then show ?thesis
      using that db_put_append [OF o2(2), of p] o2(3) len lh by auto
  qed
  have base: "unat (db_len o1) = length (db_data out)"
    using o1 by (simp add: db_ok_def)
  define out' where "out' = o3\<lparr>db_data := wr (db_data o3) (length (db_data out) + 12)
      (scene_put_u32 (scene_fnv1a32 (hdr @ p) (16 + length p)))\<rparr>"
  have "db_data out' = db_data out @ scene_frame opcode p"
    by (simp add: out'_def o3(3) wr_def scene_frame_def hdr_def Let_def)
  moreover have "db_ok out'"
    using o3(2) \<open>db_data out' = _\<close> o3(3) lh by (simp add: db_ok_def out'_def)
  moreover have "db_emit out opcode p = Some out'"
    using o1(1) o2(1) o3(1)
    by (simp add: db_emit_def hdr_def frame_head_def Let_def base need out'_def o3(3)
        split: if_splits)
  ultimately show ?thesis by blast
qed

subsection \<open>The outbound queue\<close>

text \<open>
  The queue is the outbound buffer and the read offset \<open>out_off\<close> into it. The two drain
  functions differ only in what they hand out: opcode and payload, or the whole frame. The
  offsets are natural numbers: they stay below the length of the buffer.
\<close>

record outq =
  oq_bytes :: bytes
  oq_off :: nat

definition oq_empty :: outq where
  "oq_empty = \<lparr>oq_bytes = [], oq_off = 0\<rparr>"

definition emit :: "outq \<Rightarrow> u16 \<Rightarrow> bytes \<Rightarrow> outq" where
  "emit q opcode payload = q\<lparr>oq_bytes := oq_bytes q @ scene_frame opcode payload\<rparr>"

definition out_next_frame :: "outq \<Rightarrow> bytes option \<times> outq" where
  "out_next_frame q =
     (if oq_off q = length (oq_bytes q) then (None, oq_empty)
      else
        let p = drop (oq_off q) (oq_bytes q);
            total = 16 + unat (scene_get_u32 p 8)
        in if oq_off q + total > length (oq_bytes q) then (None, q)
           else (Some (take total p), q\<lparr>oq_off := oq_off q + total\<rparr>))"

definition out_next :: "outq \<Rightarrow> (u16 \<times> bytes) option \<times> outq" where
  "out_next q =
     (if oq_off q = length (oq_bytes q) then (None, oq_empty)
      else
        let p = drop (oq_off q) (oq_bytes q);
            plen = unat (scene_get_u32 p 8)
        in if oq_off q + 16 + plen > length (oq_bytes q) then (None, q)
           else (Some (scene_get_u16 p 6, take plen (drop 16 p)),
                 q\<lparr>oq_off := oq_off q + 16 + plen\<rparr>))"

text \<open>The records still in the queue.\<close>

definition pending :: "outq \<Rightarrow> (u16 \<times> bytes) list \<Rightarrow> bool" where
  "pending q rs \<longleftrightarrow>
     oq_off q \<le> length (oq_bytes q) \<and>
     drop (oq_off q) (oq_bytes q) = concat (map (\<lambda>(opc, p). scene_frame opc p) rs) \<and>
     (\<forall>(opc, p) \<in> set rs. length p < 2 ^ 32)"

lemma pending_empty: "pending oq_empty []"
  by (simp add: pending_def oq_empty_def)

lemma pending_emit:
  "pending q rs \<Longrightarrow> length p < 2 ^ 32 \<Longrightarrow> pending (emit q opc p) (rs @ [(opc, p)])"
  by (auto simp: pending_def emit_def)

lemma pending_Nil_iff: "pending q rs \<Longrightarrow> rs = [] \<longleftrightarrow> oq_off q = length (oq_bytes q)"
proof -
  assume q: "pending q rs"
  have "concat (map (\<lambda>(opc, p). scene_frame opc p) rs) = [] \<longleftrightarrow> rs = []"
  proof (cases rs)
    case (Cons r rs')
    have "scene_frame (fst r) (snd r) \<noteq> []"
      using length_scene_frame [of "fst r" "snd r"] by (metis list.size(3) add_is_0 zero_neq_numeral)
    with Cons show ?thesis by (simp add: split_beta)
  qed simp
  then have "rs = [] \<longleftrightarrow> drop (oq_off q) (oq_bytes q) = []"
    using q by (simp only: pending_def)
  also have "\<dots> \<longleftrightarrow> oq_off q = length (oq_bytes q)"
    using conjunct1 [OF q [unfolded pending_def]] by auto
  finally show ?thesis .
qed

text \<open>Where the next record stands in the buffer.\<close>

lemma pending_Cons:
  assumes "pending q ((opc, p) # rs)"
  defines "m \<equiv> drop (oq_off q) (oq_bytes q)"
  shows "m = scene_frame opc p @ drop (16 + length p) m"
    and "unat (scene_get_u32 m 8) = length p" and "scene_get_u16 m 6 = opc"
    and "oq_off q + 16 + length p \<le> length (oq_bytes q)"
    and "oq_off q \<noteq> length (oq_bytes q)"
    and "pending (q\<lparr>oq_off := oq_off q + 16 + length p\<rparr>) rs"
proof -
  let ?ys = "concat (map (\<lambda>(opc, p). scene_frame opc p) rs)"
  have m: "m = scene_frame opc p @ ?ys" and len: "length p < 2 ^ 32"
    using assms by (auto simp: pending_def)
  then show "m = scene_frame opc p @ drop (16 + length p) m" by simp
  show "unat (scene_get_u32 m 8) = length p"
    using len by (simp add: m frame_payload_get unat_of_nat_small)
  show "scene_get_u16 m 6 = opc" by (simp add: m frame_payload_get)
  have "length m = 16 + length p + length ?ys" by (simp add: m)
  then show le: "oq_off q + 16 + length p \<le> length (oq_bytes q)"
    and "oq_off q \<noteq> length (oq_bytes q)"
    unfolding m_def length_drop by linarith+
  have "drop (oq_off q + 16 + length p) (oq_bytes q) = drop (16 + length p) m"
    by (simp add: m_def add.commute add.left_commute)
  also have "\<dots> = ?ys" by (simp add: m)
  finally show "pending (q\<lparr>oq_off := oq_off q + 16 + length p\<rparr>) rs"
    using assms(1) le by (simp add: pending_def)
qed

lemma out_next_Cons:
  assumes "pending q ((opc, p) # rs)"
  shows "\<exists>q'. out_next q = (Some (opc, p), q') \<and> pending q' rs"
proof -
  let ?m = "drop (oq_off q) (oq_bytes q)"
  note * = pending_Cons [OF assms]
  have "take (length p) (drop 16 ?m) = p"
    by (subst *(1)) simp
  then show ?thesis
    using * by (simp add: out_next_def Let_def del: drop_drop)
qed

lemma out_next_frame_Cons:
  assumes "pending q ((opc, p) # rs)"
  shows "\<exists>q'. out_next_frame q = (Some (scene_frame opc p), q') \<and> pending q' rs"
proof -
  let ?m = "drop (oq_off q) (oq_bytes q)"
  note * = pending_Cons [OF assms]
  have "take (16 + length p) ?m = scene_frame opc p"
    by (subst *(1)) simp
  then show ?thesis
    using * by (simp add: out_next_frame_def Let_def add.assoc)
qed

lemma out_next_Nil:
  "pending q [] \<Longrightarrow> out_next q = (None, oq_empty)"
  "pending q [] \<Longrightarrow> out_next_frame q = (None, oq_empty)"
  using pending_Nil_iff [of q "[]"] by (auto simp: out_next_def out_next_frame_def)

text \<open>
  The contract a consumer of outbound records relies on: a queue whose content is a list
  of records, appended at one end and taken from the other.
\<close>

locale record_queue =
  fixes put :: "'q \<Rightarrow> 'r \<Rightarrow> 'q"
    and get :: "'q \<Rightarrow> 'o option \<times> 'q"
    and content :: "'q \<Rightarrow> 'r list \<Rightarrow> bool"
    and view :: "'r \<Rightarrow> 'o"
    and admissible :: "'r \<Rightarrow> bool"
  assumes put: "content q rs \<Longrightarrow> admissible r \<Longrightarrow> content (put q r) (rs @ [r])"
    and get_Cons: "content q (r # rs) \<Longrightarrow> \<exists>q'. get q = (Some (view r), q') \<and> content q' rs"
    and get_Nil: "content q [] \<Longrightarrow> \<exists>q'. get q = (None, q') \<and> content q' []"
begin

primrec drain :: "nat \<Rightarrow> 'q \<Rightarrow> 'o list \<times> 'q" where
  "drain 0 q = ([], q)"
| "drain (Suc n) q =
     (case get q of
        (None, q') \<Rightarrow> ([], q')
      | (Some x, q') \<Rightarrow> (let (xs, q'') = drain n q' in (x # xs, q'')))"

lemma drain_all:
  "content q rs \<Longrightarrow> length rs < n \<Longrightarrow> \<exists>q'. drain n q = (map view rs, q') \<and> content q' []"
proof (induction rs arbitrary: q n)
  case Nil
  then obtain m where "n = Suc m" by (cases n) auto
  with get_Nil [OF Nil.prems(1)] show ?case by auto
next
  case (Cons r rs)
  from Cons.prems obtain m where n: "n = Suc m" by (cases n) auto
  from get_Cons [OF Cons.prems(1)] obtain q' where q': "get q = (Some (view r), q')"
    "content q' rs" by blast
  from Cons.IH [OF q'(2), of m] Cons.prems(2) n obtain q'' where
    "drain m q' = (map view rs, q'')" "content q'' []" by auto
  then show ?case by (simp add: n q'(1))
qed

lemma fold_put:
  "content q rs \<Longrightarrow> list_all admissible ss \<Longrightarrow> content (foldl put q ss) (rs @ ss)"
proof (induction ss arbitrary: q rs)
  case (Cons s ss)
  then show ?case using put [of q rs s] Cons.IH [of "put q s" "rs @ [s]"] by simp
qed simp

lemma put_then_drain:
  assumes "content q []" "list_all admissible ss" "length ss < n"
  shows "\<exists>q'. drain n (foldl put q ss) = (map view ss, q') \<and> content q' []"
  using drain_all fold_put [OF assms(1,2)] assms(3) by simp

end

abbreviation record_ok :: "u16 \<times> bytes \<Rightarrow> bool" where
  "record_ok r \<equiv> length (snd r) < 2 ^ 32"

interpretation payload_queue: record_queue
  "\<lambda>q (opc, p). emit q opc p" out_next pending "\<lambda>r. r" record_ok
  by unfold_locales
    (auto simp: pending_empty out_next_Nil split: prod.splits intro: pending_emit out_next_Cons)

interpretation frame_queue: record_queue
  "\<lambda>q (opc, p). emit q opc p" out_next_frame pending "\<lambda>(opc, p). scene_frame opc p" record_ok
  by unfold_locales
    (auto simp: pending_empty out_next_Nil split: prod.splits
      intro: pending_emit out_next_frame_Cons)

end
