(* ===== verification/IdMap.thy ===== *)
theory IdMap
  imports Prelude
begin

text \<open>
  The node-id table of \<open>src/scene_store.c\<close> (\<open>idmap\<close>): open addressing with linear probing
  over two arrays of a power-of-two capacity, growth at three quarters load, and deletion
  that re-inserts the rest of the cluster. The arrays are functions on indices; the code
  masks every index below the capacity. A slot is a positive number, 0 an empty cell.

  A probe is a loop that ends at the first cell that satisfies a test; it is given the
  capacity as fuel, and \<open>probe_first\<close> with \<open>free_cell_ahead\<close> shows that this is enough
  whenever a cell is free, which the load bound of \<open>idmap_inv\<close> guarantees.

  The lemmas show that the table is a map from ids to slots. The growth loop looks for a
  free cell by \<open>nk[h] == 0\<close>, that is by the key and not by the slot, so the id 0 is not
  safe in the table: \<open>idmap_inv\<close> excludes it.
\<close>

subsection \<open>Operations\<close>

record idmap =
  im_keys :: "nat \<Rightarrow> u32"
  im_vals :: "nat \<Rightarrow> nat"
  im_cap :: nat
  im_count :: nat

definition idmap_init :: idmap where
  "idmap_init = \<lparr>im_keys = (\<lambda>_. 0), im_vals = (\<lambda>_. 0), im_cap = 1024, im_count = 0\<rparr>"

definition idmap_free :: "idmap \<Rightarrow> idmap" where
  "idmap_free m = \<lparr>im_keys = (\<lambda>_. 0), im_vals = (\<lambda>_. 0), im_cap = 0, im_count = 0\<rparr>"

text \<open>\<open>while (!stop(h)) h = (h + 1) & (cap - 1);\<close>\<close>

fun probe :: "(nat \<Rightarrow> bool) \<Rightarrow> nat \<Rightarrow> nat \<Rightarrow> nat \<Rightarrow> nat option" where
  "probe stop cap 0 h = None"
| "probe stop cap (Suc fuel) h =
     (if stop h then Some h else probe stop cap fuel ((h + 1) AND (cap - 1)))"

definition home :: "nat \<Rightarrow> u32 \<Rightarrow> nat" where
  "home cap key = unat key AND (cap - 1)"

definition grow_step :: "idmap \<Rightarrow> nat \<Rightarrow> (nat \<Rightarrow> u32) \<times> (nat \<Rightarrow> nat) \<Rightarrow> nat \<Rightarrow> (nat \<Rightarrow> u32) \<times> (nat \<Rightarrow> nat)"
where
  "grow_step m ncap = (\<lambda>(nk, nv) i.
     if im_vals m i \<noteq> 0 then
       (case probe (\<lambda>h. nk h = 0) ncap ncap (home ncap (im_keys m i)) of
          None \<Rightarrow> (nk, nv)
        | Some h \<Rightarrow> (nk(h := im_keys m i), nv(h := im_vals m i)))
     else (nk, nv))"

definition idmap_grow :: "idmap \<Rightarrow> idmap" where
  "idmap_grow m =
     (let ncap = push_bit 1 (im_cap m);
          (nk, nv) = foldl (grow_step m ncap) (\<lambda>_. 0, \<lambda>_. 0) [0..<im_cap m]
      in m\<lparr>im_keys := nk, im_vals := nv, im_cap := ncap\<rparr>)"

definition idmap_put :: "idmap \<Rightarrow> u32 \<Rightarrow> nat \<Rightarrow> idmap" where
  "idmap_put m0 key slot =
     (let m = (if (im_count m0 + 1) * 4 \<ge> im_cap m0 * 3 then idmap_grow m0 else m0)
      in case probe (\<lambda>h. im_vals m h = 0) (im_cap m) (im_cap m) (home (im_cap m) key) of
           None \<Rightarrow> m
         | Some h \<Rightarrow> m\<lparr>im_keys := (im_keys m)(h := key), im_vals := (im_vals m)(h := slot),
                       im_count := im_count m + 1\<rparr>)"

definition idmap_find :: "idmap \<Rightarrow> u32 \<Rightarrow> nat option" where
  "idmap_find m key =
     probe (\<lambda>h. im_vals m h = 0 \<or> im_keys m h = key) (im_cap m) (im_cap m)
       (home (im_cap m) key)"

definition idmap_get :: "idmap \<Rightarrow> u32 \<Rightarrow> nat" where
  "idmap_get m key =
     (if im_cap m = 0 \<or> im_count m = 0 then 0
      else case idmap_find m key of None \<Rightarrow> 0 | Some h \<Rightarrow> im_vals m h)"

text \<open>Re-insert the entries that follow a removed one, up to the next empty cell.\<close>

fun idmap_rehash :: "nat \<Rightarrow> idmap \<Rightarrow> nat \<Rightarrow> idmap" where
  "idmap_rehash 0 m i = m"
| "idmap_rehash (Suc fuel) m i =
     (if im_vals m i = 0 then m
      else
        let k = im_keys m i; v = im_vals m i;
            m1 = m\<lparr>im_vals := (im_vals m)(i := 0), im_count := im_count m - 1\<rparr>;
            m2 = idmap_put m1 k v
        in idmap_rehash fuel m2 ((i + 1) AND (im_cap m2 - 1)))"

definition idmap_remove :: "idmap \<Rightarrow> u32 \<Rightarrow> nat \<times> idmap" where
  "idmap_remove m key =
     (if im_cap m = 0 \<or> im_count m = 0 then (0, m)
      else case idmap_find m key of
             None \<Rightarrow> (0, m)
           | Some h \<Rightarrow>
               if im_vals m h = 0 then (0, m)
               else (im_vals m h,
                     idmap_rehash (im_cap m)
                       (m\<lparr>im_vals := (im_vals m)(h := 0), im_count := im_count m - 1\<rparr>)
                       ((h + 1) AND (im_cap m - 1))))"

subsection \<open>Indices\<close>

lemma and_mask_mod: "h AND (2 ^ b - Suc 0) = h mod 2 ^ b"
  using take_bit_eq_mask [of b h] by (simp add: take_bit_eq_mod mask_eq_exp_minus_1)

lemma mod_less_eq: "x < 2 * c \<Longrightarrow> c \<le> x \<Longrightarrow> x mod c = x - (c :: nat)"
  by (simp add: le_mod_geq)

text \<open>Two steps from one index that meet before a full turn are the same step.\<close>

lemma turn_inj:
  assumes "(h + m) mod c = (h + n) mod (c :: nat)" "m < c" "n < c"
  shows "m = n"
proof -
  have "m mod c = n mod c"
    using assms(1) by (simp add: mod_add_cong nat_mod_eq_iff)
  then show ?thesis using assms(2,3) by simp
qed

lemma turn_reaches:
  assumes "h < c" "e < (c :: nat)"
  shows "\<exists>n < c. (h + n) mod c = e"
proof (cases "h \<le> e")
  case True
  then show ?thesis using assms by (intro exI [of _ "e - h"]) simp
next
  case False
  then show ?thesis using assms by (intro exI [of _ "c + e - h"]) simp
qed

lemma probe_first:
  assumes "cap = 2 ^ b" "h < cap" "n < fuel"
    and "stop ((h + n) mod cap)" "\<forall>j < n. \<not> stop ((h + j) mod cap)"
  shows "probe stop cap fuel h = Some ((h + n) mod cap)"
  using assms(2-)
proof (induction n arbitrary: h fuel)
  case 0
  then show ?case by (cases fuel) auto
next
  case (Suc n)
  obtain g where g: "fuel = Suc g" using Suc.prems by (cases fuel) auto
  define h' where "h' = (h + 1) mod cap"
  have cap: "0 < cap" using assms(1) by simp
  have next_h: "(h + 1) AND (cap - 1) = h'"
    using and_mask_mod [of "h + 1" b] assms(1) by (simp add: h'_def)
  have shift: "(h' + j) mod cap = (h + Suc j) mod cap" for j
    by (simp add: h'_def mod_simps)
  have "\<not> stop h"
    using Suc.prems(1) spec [OF Suc.prems(4), of 0] by simp
  moreover have "probe stop cap g h' = Some ((h' + n) mod cap)"
  proof (rule Suc.IH)
    show "h' < cap" using cap by (simp add: h'_def)
    show "n < g" using Suc.prems g by simp
    show "stop ((h' + n) mod cap)" using Suc.prems by (simp only: shift)
    show "\<forall>j < n. \<not> stop ((h' + j) mod cap)"
      using Suc.prems(4) by (metis shift Suc_less_eq)
  qed
  ultimately show ?case by (simp only: g probe.simps next_h shift if_False)
qed

text \<open>The first cell from \<open>h\<close> on that satisfies a test, if some cell does.\<close>

lemma first_from:
  assumes "h < c" "e < (c :: nat)" "stop e"
  shows "\<exists>n < c. stop ((h + n) mod c) \<and> (\<forall>j < n. \<not> stop ((h + j) mod c))"
proof -
  let ?P = "\<lambda>n. stop ((h + n) mod c)"
  obtain n where "n < c" "?P n" using turn_reaches assms by metis
  moreover from this have "?P (LEAST n. ?P n)" "(LEAST n. ?P n) \<le> n"
    by (auto intro: LeastI Least_le)
  moreover have "\<not> ?P j" if "j < (LEAST n. ?P n)" for j using that by (rule not_less_Least)
  ultimately show ?thesis by (intro exI [of _ "LEAST n. ?P n"]) auto
qed

lemma home_less: "cap = 2 ^ b \<Longrightarrow> home cap k < cap"
  using and_mask_mod [of "unat k" b] by (simp add: home_def)

subsection \<open>Tables\<close>

text \<open>
  An occupied cell is reached from the home of its key through occupied cells only, and no
  key occurs twice.
\<close>

definition reaches :: "(nat \<Rightarrow> nat) \<Rightarrow> nat \<Rightarrow> nat \<Rightarrow> nat \<Rightarrow> bool" where
  "reaches vals cap h i \<longleftrightarrow>
     (\<exists>n < cap. i = (h + n) mod cap \<and> (\<forall>j < n. vals ((h + j) mod cap) \<noteq> 0))"

definition tab_inv :: "(nat \<Rightarrow> u32) \<Rightarrow> (nat \<Rightarrow> nat) \<Rightarrow> nat \<Rightarrow> bool" where
  "tab_inv keys vals cap \<longleftrightarrow>
     (\<exists>b. cap = 2 ^ b) \<and>
     (\<forall>i < cap. vals i \<noteq> 0 \<longrightarrow> keys i \<noteq> 0 \<and> reaches vals cap (home cap (keys i)) i) \<and>
     (\<forall>i < cap. \<forall>j < cap. vals i \<noteq> 0 \<longrightarrow> vals j \<noteq> 0 \<longrightarrow> keys i = keys j \<longrightarrow> i = j)"

definition entry :: "(nat \<Rightarrow> u32) \<Rightarrow> (nat \<Rightarrow> nat) \<Rightarrow> nat \<Rightarrow> u32 \<Rightarrow> nat \<Rightarrow> bool" where
  "entry keys vals cap k v \<longleftrightarrow> v \<noteq> 0 \<and> (\<exists>i < cap. keys i = k \<and> vals i = v)"

definition occupied :: "(nat \<Rightarrow> nat) \<Rightarrow> nat \<Rightarrow> nat set" where
  "occupied vals cap = {i. i < cap \<and> vals i \<noteq> 0}"

lemma finite_occupied [simp]: "finite (occupied vals cap)"
  by (simp add: occupied_def)

lemma card_occupied_le: "card (occupied vals cap) \<le> cap"
proof -
  have "occupied vals cap \<subseteq> {..<cap}" by (auto simp: occupied_def)
  then show ?thesis using card_mono [of "{..<cap}"] by simp
qed

lemma free_cell: "card (occupied vals cap) < cap \<Longrightarrow> \<exists>e < cap. vals e = 0"
proof (rule ccontr)
  assume "card (occupied vals cap) < cap" "\<not> (\<exists>e < cap. vals e = 0)"
  moreover from this have "occupied vals cap = {..<cap}" by (auto simp: occupied_def)
  ultimately show False by simp
qed

lemma entry_unique:
  "tab_inv keys vals cap \<Longrightarrow> entry keys vals cap k v \<Longrightarrow> entry keys vals cap k w \<Longrightarrow> v = w"
  by (auto simp: tab_inv_def entry_def)

lemma reaches_mono:
  "reaches vals cap h i \<Longrightarrow> (\<And>j. j < cap \<Longrightarrow> vals j \<noteq> 0 \<Longrightarrow> vals' j \<noteq> 0) \<Longrightarrow>
   reaches vals' cap h i"
proof -
  assume r: "reaches vals cap h i" and mono: "\<And>j. j < cap \<Longrightarrow> vals j \<noteq> 0 \<Longrightarrow> vals' j \<noteq> 0"
  from r obtain n where n: "n < cap" "i = (h + n) mod cap" "\<forall>j < n. vals ((h + j) mod cap) \<noteq> 0"
    by (auto simp: reaches_def)
  have "vals' ((h + j) mod cap) \<noteq> 0" if "j < n" for j
    using n that by (intro mono) auto
  with n show ?thesis by (auto simp: reaches_def)
qed

text \<open>Looking a key up finds its cell, or an empty cell when it is absent.\<close>

lemma find_present:
  assumes inv: "tab_inv keys vals cap" and i: "i < cap" "vals i \<noteq> 0" "keys i = k"
  shows "probe (\<lambda>h. vals h = 0 \<or> keys h = k) cap cap (home cap k) = Some i"
proof -
  obtain b where b: "cap = 2 ^ b" using inv by (auto simp: tab_inv_def)
  let ?h = "home cap k"
  obtain n where n: "n < cap" "i = (?h + n) mod cap" "\<forall>j < n. vals ((?h + j) mod cap) \<noteq> 0"
    using inv i unfolding tab_inv_def reaches_def by metis
  have "keys ((?h + j) mod cap) \<noteq> k" if "j < n" for j
  proof
    assume "keys ((?h + j) mod cap) = k"
    moreover have "(?h + j) mod cap < cap" using i by simp
    ultimately have "(?h + j) mod cap = i"
      using inv i n that unfolding tab_inv_def by metis
    then have "(?h + j) mod cap = (?h + n) mod cap" using n by simp
    then show False using turn_inj [of ?h j cap n] n that by simp
  qed
  then show ?thesis
    using probe_first [OF b home_less [OF b], of n cap "\<lambda>h. vals h = 0 \<or> keys h = k" k] n i
    by auto
qed

lemma find_absent:
  assumes inv: "tab_inv keys vals cap" and free: "e < cap" "vals e = 0"
    and absent: "\<And>v. \<not> entry keys vals cap k v"
  shows "\<exists>f < cap. probe (\<lambda>h. vals h = 0 \<or> keys h = k) cap cap (home cap k) = Some f \<and> vals f = 0"
proof -
  obtain b where b: "cap = 2 ^ b" using inv by (auto simp: tab_inv_def)
  let ?h = "home cap k" and ?stop = "\<lambda>h. vals h = 0 \<or> keys h = k"
  obtain n where n: "n < cap" "?stop ((?h + n) mod cap)" "\<forall>j < n. \<not> ?stop ((?h + j) mod cap)"
    using first_from [OF home_less [OF b] free(1), of ?stop] free(2) by blast
  have "(?h + n) mod cap < cap" using free by simp
  moreover have "vals ((?h + n) mod cap) = 0"
    using n(2) absent \<open>(?h + n) mod cap < cap\<close> unfolding entry_def by metis
  ultimately show ?thesis
    using probe_first [OF b home_less [OF b] n(1), of ?stop] n(2,3) by blast
qed

text \<open>Placing a new key in the first free cell from its home.\<close>

lemma free_from_home:
  assumes b: "cap = 2 ^ b" and free: "e < cap" "vals e = 0"
  shows "\<exists>f. probe (\<lambda>h. vals h = 0) cap cap (home cap k) = Some f \<and> f < cap \<and> vals f = 0 \<and>
             reaches vals cap (home cap k) f"
proof -
  let ?h = "home cap k" and ?stop = "\<lambda>h. vals h = 0"
  obtain n where n: "n < cap" "?stop ((?h + n) mod cap)" "\<forall>j < n. \<not> ?stop ((?h + j) mod cap)"
    using first_from [OF home_less [OF b] free(1), of ?stop] free(2) by blast
  then show ?thesis
    using probe_first [OF b home_less [OF b] n(1), of ?stop] free
    by (auto simp: reaches_def)
qed

lemma tab_inv_cap: "tab_inv keys vals cap \<Longrightarrow> \<exists>b. cap = 2 ^ b"
  by (simp add: tab_inv_def)

lemma place_inv:
  assumes inv: "tab_inv keys vals cap" and f: "f < cap" "vals f = 0" "reaches vals cap (home cap k) f"
    and k: "k \<noteq> 0" "\<And>v. \<not> entry keys vals cap k v" and s: "s \<noteq> 0"
  shows "tab_inv (keys(f := k)) (vals(f := s)) cap"
    and "entry (keys(f := k)) (vals(f := s)) cap k' v \<longleftrightarrow> entry keys vals cap k' v \<or> k' = k \<and> v = s"
    and "card (occupied (vals(f := s)) cap) = Suc (card (occupied vals cap))"
proof -
  have mono: "reaches (vals(f := s)) cap h i" if "reaches vals cap h i" for h i
    using that by (rule reaches_mono) (simp add: s [unfolded neq0_conv])
  have nokey: "i < cap \<Longrightarrow> vals i \<noteq> 0 \<Longrightarrow> keys i \<noteq> k" for i
    using k(2) [of "vals i"] by (auto simp: entry_def)
  show "tab_inv (keys(f := k)) (vals(f := s)) cap"
    unfolding tab_inv_def
  proof (intro conjI allI impI)
    show "\<exists>b. cap = 2 ^ b" using inv by (simp add: tab_inv_def)
  next
    fix i assume "i < cap" "(vals(f := s)) i \<noteq> 0"
    then show "(keys(f := k)) i \<noteq> 0"
      and "reaches (vals(f := s)) cap (home cap ((keys(f := k)) i)) i"
      using inv k f mono by (auto simp: tab_inv_def split: if_splits)
  next
    fix i j assume "i < cap" "j < cap" "(vals(f := s)) i \<noteq> 0" "(vals(f := s)) j \<noteq> 0"
      "(keys(f := k)) i = (keys(f := k)) j"
    then show "i = j"
      using inv nokey by (auto simp: tab_inv_def split: if_splits)
  qed
  show "entry (keys(f := k)) (vals(f := s)) cap k' v \<longleftrightarrow> entry keys vals cap k' v \<or> k' = k \<and> v = s"
  proof
    assume "entry (keys(f := k)) (vals(f := s)) cap k' v"
    then show "entry keys vals cap k' v \<or> k' = k \<and> v = s"
      by (auto simp: entry_def split: if_splits)
  next
    assume "entry keys vals cap k' v \<or> k' = k \<and> v = s"
    then show "entry (keys(f := k)) (vals(f := s)) cap k' v"
    proof
      assume "entry keys vals cap k' v"
      then obtain i where "v \<noteq> 0" "i < cap" "keys i = k'" "vals i = v" by (auto simp: entry_def)
      moreover from this f(2) have "i \<noteq> f" by auto
      ultimately show ?thesis unfolding entry_def by (intro conjI exI [of _ i]) simp_all
    next
      assume "k' = k \<and> v = s"
      then show ?thesis using f(1) s unfolding entry_def by (intro conjI exI [of _ f]) simp_all
    qed
  qed
  have "occupied (vals(f := s)) cap = insert f (occupied vals cap)" "f \<notin> occupied vals cap"
    using f s by (auto simp: occupied_def)
  then show "card (occupied (vals(f := s)) cap) = Suc (card (occupied vals cap))" by simp
qed

subsection \<open>Growth and insertion\<close>

definition idmap_inv :: "idmap \<Rightarrow> bool" where
  "idmap_inv m \<longleftrightarrow>
     tab_inv (im_keys m) (im_vals m) (im_cap m) \<and>
     im_count m = card (occupied (im_vals m) (im_cap m)) \<and> 4 * im_count m < 3 * im_cap m"

definition idmap_entry :: "idmap \<Rightarrow> u32 \<Rightarrow> nat \<Rightarrow> bool" where
  "idmap_entry m k v \<longleftrightarrow> entry (im_keys m) (im_vals m) (im_cap m) k v"

lemma idmap_inv_free: "idmap_inv m \<Longrightarrow> \<exists>e < im_cap m. im_vals m e = 0"
  by (rule free_cell) (auto simp: idmap_inv_def)

lemma tab_inv_empty: "tab_inv (\<lambda>_. 0) (\<lambda>_. 0) (2 ^ b)"
  by (auto simp: tab_inv_def)

lemma empty_table [simp]:
  "\<not> entry keys (\<lambda>_. 0) cap k v" "occupied (\<lambda>_. 0) cap = {}"
  "\<not> entry keys vals 0 k v" "occupied vals 0 = {}"
  by (auto simp: entry_def occupied_def)

lemma grow_step_empty: "im_vals m i = 0 \<Longrightarrow> grow_step m ncap t i = t"
  by (cases t) (simp add: grow_step_def)

text \<open>
  The growth loop after the cells \<open>0..<n\<close>: the new table holds the entries of those cells,
  and its two arrays agree on which cells are empty, because no key is 0.
\<close>

lemma grow_loop:
  fixes m :: idmap
  defines "ncap \<equiv> 2 * im_cap m"
  assumes inv: "tab_inv (im_keys m) (im_vals m) (im_cap m)" and n: "n \<le> im_cap m"
  shows "case foldl (grow_step m ncap) (\<lambda>_. 0, \<lambda>_. 0) [0..<n] of (nk, nv) \<Rightarrow>
           tab_inv nk nv ncap \<and> (\<forall>i. nk i = 0 \<longleftrightarrow> nv i = 0) \<and>
           card (occupied nv ncap) = card (occupied (im_vals m) n) \<and>
           (\<forall>k v. entry nk nv ncap k v \<longleftrightarrow> entry (im_keys m) (im_vals m) n k v)"
  using n
proof (induction n)
  case 0
  obtain b where "im_cap m = 2 ^ b" using inv by (auto simp: tab_inv_def)
  then have "ncap = 2 ^ Suc b" by (simp add: ncap_def)
  then show ?case using tab_inv_empty [of "Suc b"] by simp
next
  case (Suc n)
  obtain nk nv where t: "foldl (grow_step m ncap) (\<lambda>_. 0, \<lambda>_. 0) [0..<n] = (nk, nv)"
    by (cases "foldl (grow_step m ncap) (\<lambda>_. 0, \<lambda>_. 0) [0..<n]") auto
  with Suc have IH: "tab_inv nk nv ncap" "\<And>i. nk i = 0 \<longleftrightarrow> nv i = 0"
      "card (occupied nv ncap) = card (occupied (im_vals m) n)"
      "\<And>k v. entry nk nv ncap k v \<longleftrightarrow> entry (im_keys m) (im_vals m) n k v"
    by auto
  let ?k = "im_keys m n" and ?v = "im_vals m n"
  show ?case
  proof (cases "?v = 0")
    case True
    moreover from this have "occupied (im_vals m) (Suc n) = occupied (im_vals m) n"
      by (auto simp: occupied_def less_Suc_eq)
    moreover from True have "entry (im_keys m) (im_vals m) (Suc n) = entry (im_keys m) (im_vals m) n"
      by (auto simp: entry_def fun_eq_iff less_Suc_eq)
    ultimately show ?thesis using t IH by (simp add: grow_step_empty)
  next
    case False
    have k: "?k \<noteq> 0" using inv False Suc.prems by (auto simp: tab_inv_def)
    have absent: "\<not> entry nk nv ncap ?k v" for v
    proof
      assume "entry nk nv ncap ?k v"
      then have "entry (im_keys m) (im_vals m) n ?k v" by (simp only: IH(4))
      then obtain i where i: "i < n" "im_keys m i = ?k" "im_vals m i \<noteq> 0"
        by (auto simp: entry_def)
      moreover have "i = n"
        using inv i False Suc.prems unfolding tab_inv_def by (meson Suc_le_lessD less_trans)
      ultimately show False by simp
    qed
    have "card (occupied nv ncap) \<le> n" by (simp add: IH(3) card_occupied_le)
    also have "\<dots> < ncap" using Suc.prems by (simp add: ncap_def)
    finally obtain e where "e < ncap" "nv e = 0" using free_cell by blast
    then obtain f where f: "probe (\<lambda>h. nv h = 0) ncap ncap (home ncap ?k) = Some f"
        "f < ncap" "nv f = 0" "reaches nv ncap (home ncap ?k) f"
      using free_from_home tab_inv_cap [OF IH(1)] by metis
    then have step: "grow_step m ncap (nk, nv) n = (nk(f := ?k), nv(f := ?v))"
      using False by (simp add: grow_step_def IH(2))
    note * = place_inv [OF IH(1) f(2,3,4) k absent False]
    have "occupied (im_vals m) (Suc n) = insert n (occupied (im_vals m) n)"
      using False by (auto simp: occupied_def less_Suc_eq)
    then have "card (occupied (im_vals m) (Suc n)) = Suc (card (occupied (im_vals m) n))"
      by (simp add: occupied_def)
    then have 1: "card (occupied (nv(f := ?v)) ncap) = card (occupied (im_vals m) (Suc n))"
      by (simp only: *(3) IH(3))
    have "entry (im_keys m) (im_vals m) (Suc n) k v \<longleftrightarrow>
        entry (im_keys m) (im_vals m) n k v \<or> k = ?k \<and> v = ?v" for k v
      using False by (auto simp: entry_def less_Suc_eq)
    then have 2: "entry (nk(f := ?k)) (nv(f := ?v)) ncap k v \<longleftrightarrow>
        entry (im_keys m) (im_vals m) (Suc n) k v" for k v
      by (simp only: *(2) IH(4))
    have 3: "(nk(f := ?k)) i = 0 \<longleftrightarrow> (nv(f := ?v)) i = 0" for i
      using k False IH(2) by simp
    have "foldl (grow_step m ncap) (\<lambda>_. 0, \<lambda>_. 0) [0..<Suc n] = (nk(f := ?k), nv(f := ?v))"
      by (simp only: upt_Suc_append le0 foldl_append t foldl.simps step)
    with *(1) 1 2 3 show ?thesis by (simp only: prod.case) blast
  qed
qed

lemma idmap_grow_inv:
  assumes "tab_inv (im_keys m) (im_vals m) (im_cap m)"
  shows "tab_inv (im_keys (idmap_grow m)) (im_vals (idmap_grow m)) (im_cap (idmap_grow m))"
    and "im_cap (idmap_grow m) = 2 * im_cap m" "im_count (idmap_grow m) = im_count m"
    and "card (occupied (im_vals (idmap_grow m)) (im_cap (idmap_grow m))) =
         card (occupied (im_vals m) (im_cap m))"
    and "idmap_entry (idmap_grow m) k v \<longleftrightarrow> idmap_entry m k v"
  using grow_loop [OF assms order_refl]
  by (auto simp: idmap_grow_def idmap_entry_def push_bit_eq_mult mult.commute split: prod.splits)

lemma idmap_put_inv:
  assumes inv: "idmap_inv m" and k: "k \<noteq> 0" "\<And>v. \<not> idmap_entry m k v" and s: "s \<noteq> 0"
  shows "idmap_inv (idmap_put m k s)"
    and "idmap_entry (idmap_put m k s) k' v \<longleftrightarrow> idmap_entry m k' v \<or> k' = k \<and> v = s"
proof -
  define m' where "m' = (if (im_count m + 1) * 4 \<ge> im_cap m * 3 then idmap_grow m else m)"
  have tab: "tab_inv (im_keys m) (im_vals m) (im_cap m)"
    and cnt: "im_count m = card (occupied (im_vals m) (im_cap m))"
    and load: "4 * im_count m < 3 * im_cap m"
    using inv by (auto simp: idmap_inv_def)
  note g = idmap_grow_inv [OF tab]
  have inv': "tab_inv (im_keys m') (im_vals m') (im_cap m')"
    and cnt': "im_count m' = card (occupied (im_vals m') (im_cap m'))"
    and ent': "\<And>k v. idmap_entry m' k v \<longleftrightarrow> idmap_entry m k v"
    using g tab cnt by (simp_all add: m'_def)
  have load': "4 * Suc (im_count m') < 3 * im_cap m'"
  proof -
    have "4 * Suc (im_count m) < 3 * (2 * im_cap m)" using load by presburger
    then show ?thesis using load g(2,3) by (auto simp: m'_def)
  qed
  then have "card (occupied (im_vals m') (im_cap m')) < im_cap m'" by (simp add: cnt')
  then obtain e where "e < im_cap m'" "im_vals m' e = 0" using free_cell by blast
  then obtain f where f: "f < im_cap m'" "im_vals m' f = 0"
      "reaches (im_vals m') (im_cap m') (home (im_cap m') k) f"
    and probe: "probe (\<lambda>h. im_vals m' h = 0) (im_cap m') (im_cap m') (home (im_cap m') k) = Some f"
    using free_from_home tab_inv_cap [OF inv'] by metis
  then have put: "idmap_put m k s = m'\<lparr>im_keys := (im_keys m')(f := k),
      im_vals := (im_vals m')(f := s), im_count := im_count m' + 1\<rparr>"
    unfolding idmap_put_def Let_def m'_def by simp
  have "\<not> entry (im_keys m') (im_vals m') (im_cap m') k v" for v
    using k(2) ent' unfolding idmap_entry_def by blast
  note * = place_inv [OF inv' f k(1) this s]
  show "idmap_inv (idmap_put m k s)"
    using * load' cnt' unfolding put idmap_inv_def by simp
  show "idmap_entry (idmap_put m k s) k' v \<longleftrightarrow> idmap_entry m k' v \<or> k' = k \<and> v = s"
    using *(2) ent' unfolding put idmap_entry_def by simp
qed

subsection \<open>Lookup\<close>

lemma idmap_get_entry:
  assumes inv: "idmap_inv m" and ent: "idmap_entry m k v"
  shows "idmap_get m k = v"
proof -
  from ent obtain i where i: "v \<noteq> 0" "i < im_cap m" "im_keys m i = k" "im_vals m i = v"
    by (auto simp: idmap_entry_def entry_def)
  then have "i \<in> occupied (im_vals m) (im_cap m)" by (simp add: occupied_def)
  then have "im_count m \<noteq> 0" using inv by (auto simp: idmap_inv_def card_eq_0_iff)
  moreover have "idmap_find m k = Some i"
    using inv i find_present [of "im_keys m" "im_vals m" "im_cap m" i k]
    by (simp add: idmap_inv_def idmap_find_def)
  ultimately show ?thesis using i by (simp add: idmap_get_def)
qed

lemma idmap_find_absent:
  assumes inv: "idmap_inv m" and absent: "\<And>v. \<not> idmap_entry m k v"
  shows "\<exists>f. idmap_find m k = Some f \<and> im_vals m f = 0"
proof -
  obtain e where "e < im_cap m" "im_vals m e = 0" using idmap_inv_free [OF inv] by blast
  then show ?thesis
    using find_absent [of "im_keys m" "im_vals m" "im_cap m" e k] inv absent
    by (auto simp: idmap_inv_def idmap_entry_def idmap_find_def)
qed

lemma idmap_get_absent:
  "idmap_inv m \<Longrightarrow> (\<And>v. \<not> idmap_entry m k v) \<Longrightarrow> idmap_get m k = 0"
  using idmap_find_absent [of m k] by (auto simp: idmap_get_def)

lemma idmap_get_iff:
  assumes "idmap_inv m"
  shows "idmap_entry m k v \<longleftrightarrow> v \<noteq> 0 \<and> idmap_get m k = v"
  using idmap_get_entry [OF assms] idmap_get_absent [OF assms, of k]
  by (metis entry_def idmap_entry_def)

subsection \<open>Removal\<close>

text \<open>
  Cells are numbered from the one after a fixed empty cell \<open>e\<close>: no probe path crosses
  \<open>e\<close>, so in this numbering paths are intervals and do not wrap.
\<close>

definition pos :: "nat \<Rightarrow> nat \<Rightarrow> nat \<Rightarrow> nat" where
  "pos e c i = (i + c - Suc e) mod c"

lemma pos_less: "0 < c \<Longrightarrow> pos e c i < c"
  by (simp add: pos_def)

lemma pos_self: "e < c \<Longrightarrow> pos e c e = c - 1"
  by (simp add: pos_def)

lemma pos_turn: "e < c \<Longrightarrow> pos e c ((h + n) mod c) = (pos e c h + n) mod c"
proof -
  assume "e < c"
  then have "pos e c ((h + n) mod c) = ((h + n) mod c + (c - Suc e)) mod c"
    by (simp add: pos_def)
  also have "\<dots> = (h + (c - Suc e) + n) mod c" by (simp add: mod_simps ac_simps)
  also have "\<dots> = (pos e c h + n) mod c" using \<open>e < c\<close> by (simp add: pos_def mod_simps)
  finally show ?thesis .
qed

lemma pos_inj: "e < c \<Longrightarrow> i < c \<Longrightarrow> j < c \<Longrightarrow> pos e c i = pos e c j \<Longrightarrow> i = j"
proof -
  assume "e < c" "i < c" "j < c" "pos e c i = pos e c j"
  then have "((c - Suc e) + i) mod c = ((c - Suc e) + j) mod c"
    by (simp add: pos_def add.commute)
  then show ?thesis using turn_inj \<open>i < c\<close> \<open>j < c\<close> by blast
qed

lemma pos_less_self:
  assumes "e < c" "i < c" "i \<noteq> e"
  shows "pos e c i < c - 1"
proof -
  have "pos e c i \<noteq> c - 1" using pos_inj [of e c i e] pos_self [of e c] assms by auto
  with pos_less [of c e i] assms show ?thesis by linarith
qed

text \<open>Going forward from \<open>i\<close> without reaching \<open>e\<close> adds to the position.\<close>

lemma pos_ahead: "e < c \<Longrightarrow> pos e c h + n < c \<Longrightarrow> pos e c ((h + n) mod c) = pos e c h + n"
  by (simp add: pos_turn)

lemma cell_ahead:
  assumes "e < c" "j < c" "pos e c h \<le> pos e c j"
  shows "j = (h + (pos e c j - pos e c h)) mod c"
proof (rule pos_inj [OF assms(1,2)])
  show "(h + (pos e c j - pos e c h)) mod c < c" using assms(1) by simp
  have "pos e c ((h + (pos e c j - pos e c h)) mod c) = pos e c h + (pos e c j - pos e c h)"
    using assms pos_less [of c e j] by (intro pos_ahead) auto
  then show "pos e c j = pos e c ((h + (pos e c j - pos e c h)) mod c)"
    using assms(3) by simp
qed

definition clear_from :: "nat \<Rightarrow> (nat \<Rightarrow> nat) \<Rightarrow> nat \<Rightarrow> nat \<Rightarrow> nat \<Rightarrow> bool" where
  "clear_from e vals cap h i \<longleftrightarrow>
     pos e cap h \<le> pos e cap i \<and>
     (\<forall>c < cap. pos e cap h \<le> pos e cap c \<longrightarrow> pos e cap c < pos e cap i \<longrightarrow> vals c \<noteq> 0)"

lemma reaches_clear:
  assumes e: "e < cap" "vals e = 0" and i: "i < cap" "i \<noteq> e"
  shows "reaches vals cap h i \<longleftrightarrow> clear_from e vals cap h i"
proof
  assume "reaches vals cap h i"
  then obtain n where n: "n < cap" "i = (h + n) mod cap" "\<forall>j < n. vals ((h + j) mod cap) \<noteq> 0"
    by (auto simp: reaches_def)
  have lt: "pos e cap h + n < cap"
  proof (rule ccontr)
    assume "\<not> pos e cap h + n < cap"
    define d where "d = cap - 1 - pos e cap h"
    have d: "d < n" "pos e cap h + d = cap - 1"
      using \<open>\<not> pos e cap h + n < cap\<close> pos_less [of cap e h] e(1) by (auto simp: d_def)
    then have "pos e cap ((h + d) mod cap) = pos e cap e"
      using pos_ahead [of e cap h d] pos_self [OF e(1)] e(1) by simp
    then have "(h + d) mod cap = e" using pos_inj [OF e(1)] e(1) by simp
    with n(3) d(1) e(2) show False by auto
  qed
  then have pi: "pos e cap i = pos e cap h + n" using pos_ahead [OF e(1)] n(2) by simp
  show "clear_from e vals cap h i"
    unfolding clear_from_def
  proof (intro conjI allI impI)
    show "pos e cap h \<le> pos e cap i" using pi by simp
    fix c assume "c < cap" "pos e cap h \<le> pos e cap c" "pos e cap c < pos e cap i"
    then show "vals c \<noteq> 0"
      using cell_ahead [OF e(1), of c h] n(3) pi by (metis add.commute less_diff_conv2)
  qed
next
  assume "clear_from e vals cap h i"
  then have le: "pos e cap h \<le> pos e cap i"
    and occ: "\<And>c. c < cap \<Longrightarrow> pos e cap h \<le> pos e cap c \<Longrightarrow> pos e cap c < pos e cap i \<Longrightarrow> vals c \<noteq> 0"
    by (auto simp: clear_from_def)
  let ?n = "pos e cap i - pos e cap h"
  have "vals ((h + j) mod cap) \<noteq> 0" if "j < ?n" for j
  proof (rule occ)
    have "pos e cap ((h + j) mod cap) = pos e cap h + j"
      using that pos_less [of cap e i] e(1) by (intro pos_ahead) auto
    then show "pos e cap h \<le> pos e cap ((h + j) mod cap)"
      "pos e cap ((h + j) mod cap) < pos e cap i" using that by simp_all
  qed (use e(1) in simp)
  moreover have "?n < cap" using pos_less [of cap e i] e(1) by linarith
  moreover have "i = (h + ?n) mod cap" using cell_ahead [OF e(1) i(1) le] .
  ultimately show "reaches vals cap h i" unfolding reaches_def by blast
qed

text \<open>
  The re-insertion loop, with the cleared cell at position \<open>a\<close> and the current cell at
  position \<open>q\<close>: the cells from \<open>q\<close> to \<open>e\<close> are still occupied, entries before \<open>q\<close> are
  reached as they should, and a later entry misses at most cells between \<open>a\<close> and \<open>q\<close>.
\<close>

definition rehash_inv :: "nat \<Rightarrow> nat \<Rightarrow> nat \<Rightarrow> idmap \<Rightarrow> bool" where
  "rehash_inv e a q m \<longleftrightarrow>
     (\<exists>b. im_cap m = 2 ^ b) \<and> e < im_cap m \<and> im_vals m e = 0 \<and>
     im_count m = card (occupied (im_vals m) (im_cap m)) \<and> 4 * im_count m < 3 * im_cap m \<and>
     (\<forall>c < im_cap m. q \<le> pos e (im_cap m) c \<longrightarrow> c \<noteq> e \<longrightarrow> im_vals m c \<noteq> 0) \<and>
     (\<forall>i < im_cap m. im_vals m i \<noteq> 0 \<longrightarrow>
        im_keys m i \<noteq> 0 \<and>
        pos e (im_cap m) (home (im_cap m) (im_keys m i)) \<le> pos e (im_cap m) i \<and>
        (\<forall>c < im_cap m.
           pos e (im_cap m) (home (im_cap m) (im_keys m i)) \<le> pos e (im_cap m) c \<longrightarrow>
           pos e (im_cap m) c < pos e (im_cap m) i \<longrightarrow>
           pos e (im_cap m) c < a \<or> q \<le> pos e (im_cap m) c \<or> pos e (im_cap m) i < q \<longrightarrow>
           im_vals m c \<noteq> 0)) \<and>
     (\<forall>i < im_cap m. \<forall>j < im_cap m.
        im_vals m i \<noteq> 0 \<longrightarrow> im_vals m j \<noteq> 0 \<longrightarrow> im_keys m i = im_keys m j \<longrightarrow> i = j)"

lemma rehash_inv_done:
  assumes R: "rehash_inv e a q m" and q: "im_cap m - 1 \<le> q"
  shows "idmap_inv m"
proof -
  let ?c = "im_cap m"
  have e: "e < ?c" "im_vals m e = 0" using R by (auto simp: rehash_inv_def)
  have "reaches (im_vals m) ?c (home ?c (im_keys m i)) i" if i: "i < ?c" "im_vals m i \<noteq> 0" for i
  proof -
    have "i \<noteq> e" using e i by auto
    then have "pos e ?c i < q" using pos_less_self [OF e(1) i(1)] q by linarith
    then have "clear_from e (im_vals m) ?c (home ?c (im_keys m i)) i"
      using R i unfolding rehash_inv_def clear_from_def by blast
    then show ?thesis using reaches_clear [of e ?c "im_vals m" i] e i(1) \<open>i \<noteq> e\<close> by simp
  qed
  then show ?thesis
    using R unfolding rehash_inv_def idmap_inv_def tab_inv_def by blast
qed

text \<open>One round of the loop: the current entry is taken out and put back.\<close>

lemma rehash_round:
  fixes m :: idmap
  assumes R: "rehash_inv e a q m" and aq: "a < q"
    and i: "i < im_cap m" "pos e (im_cap m) i = q" "i \<noteq> e"
  defines "m1 \<equiv> m\<lparr>im_vals := (im_vals m)(i := 0), im_count := im_count m - 1\<rparr>"
  defines "m2 \<equiv> idmap_put m1 (im_keys m i) (im_vals m i)"
  shows "rehash_inv e a (Suc q) m2" and "im_cap m2 = im_cap m"
    and "idmap_entry m2 k v \<longleftrightarrow> idmap_entry m k v"
proof -
  define c where "c = im_cap m"
  define K where "K = im_keys m"
  define V where "V = im_vals m"
  define V1 where "V1 = V(i := 0)"
  define h where "h = home c (K i)"
  obtain b where b: "c = 2 ^ b" using R by (auto simp: rehash_inv_def c_def)
  have e: "e < c" "V e = 0" using R by (auto simp: rehash_inv_def c_def V_def)
  have ic: "i < c" "pos e c i = q" using i by (simp_all add: c_def)
  have cluster: "V x \<noteq> 0" if "x < c" "q \<le> pos e c x" "x \<noteq> e" for x
    using R that unfolding rehash_inv_def c_def V_def by blast
  have Vi: "V i \<noteq> 0" using cluster ic i(3) by simp
  have key: "K j \<noteq> 0" "pos e c (home c (K j)) \<le> pos e c j" if "j < c" "V j \<noteq> 0" for j
    using R that unfolding rehash_inv_def c_def V_def K_def by blast+
  have path: "V x \<noteq> 0"
    if "j < c" "V j \<noteq> 0" "x < c" "pos e c (home c (K j)) \<le> pos e c x" "pos e c x < pos e c j"
      "pos e c x < a \<or> q \<le> pos e c x \<or> pos e c j < q" for j x
    using R that unfolding rehash_inv_def c_def V_def K_def by blast
  have uniq: "j = j'" if "j < c" "j' < c" "V j \<noteq> 0" "V j' \<noteq> 0" "K j = K j'" for j j'
    using R that unfolding rehash_inv_def c_def V_def K_def by blast
  have cnt: "im_count m = card (occupied V c)" and load: "4 * im_count m < 3 * c"
    using R by (auto simp: rehash_inv_def c_def V_def)
  have occ1: "occupied V c = insert i (occupied V1 c)" "i \<notin> occupied V1 c"
    using ic Vi by (auto simp: occupied_def V1_def)
  then have cnt1: "im_count m = Suc (card (occupied V1 c))" by (simp add: cnt)
  obtain f where f: "probe (\<lambda>x. V1 x = 0) c c h = Some f" "f < c" "V1 f = 0" "reaches V1 c h f"
    using free_from_home [OF b, of i V1] ic by (auto simp: h_def V1_def)
  have e1: "V1 e = 0" using e i(3) by (simp add: V1_def)
  \<comment> \<open>the free cell found is not after the current one\<close>
  obtain n where n: "n < c" "f = (h + n) mod c" "\<forall>j < n. V1 ((h + j) mod c) \<noteq> 0"
    using f(4) by (auto simp: reaches_def)
  have "i = (h + (q - pos e c h)) mod c"
    using cell_ahead [OF e(1) ic(1), of h] key(2) [OF ic(1) Vi] ic(2) by (simp add: h_def)
  then have "n \<le> q - pos e c h"
    using n(3) by (metis V1_def fun_upd_same not_le)
  moreover have hq: "pos e c h \<le> q" using key(2) [OF ic(1) Vi] ic(2) by (simp add: h_def)
  moreover have qc: "q < c - 1" using pos_less_self [OF e(1) ic(1) i(3)] ic(2) by simp
  ultimately have pf: "pos e c f = pos e c h + n" "pos e c f \<le> q"
    using pos_ahead [OF e(1), of h n] n(2) by auto
  have fe: "f \<noteq> e" using pf(2) qc pos_self [OF e(1)] by auto
  have clear: "V1 x \<noteq> 0" if "x < c" "pos e c h \<le> pos e c x" "pos e c x < pos e c f" for x
    using f(4) reaches_clear [of e c V1 f h] e(1) e1 f(2) fe that by (simp add: clear_from_def)
  define K2 where "K2 = K(f := K i)"
  define V2 where "V2 = V1(f := V i)"
  have "\<not> (im_count m1 + 1) * 4 \<ge> im_cap m1 * 3"
    using load cnt1 by (simp add: m1_def c_def)
  then have m2: "m2 = m\<lparr>im_keys := K2, im_vals := V2, im_count := im_count m\<rparr>"
    using f(1) cnt1 by (simp add: m2_def idmap_put_def Let_def m1_def V1_def V_def K_def c_def
        h_def K2_def V2_def)
  have V2_V1: "x < c \<Longrightarrow> V1 x \<noteq> 0 \<Longrightarrow> V2 x \<noteq> 0" for x using Vi by (simp add: V2_def)
  have V1_V: "pos e c x \<noteq> q \<Longrightarrow> V x \<noteq> 0 \<Longrightarrow> V1 x \<noteq> 0" for x using ic by (auto simp: V1_def)
  have V2_V: "V2 x \<noteq> 0" if "x < c" "pos e c x \<noteq> q" "V x \<noteq> 0" for x
    using V2_V1 V1_V that by blast
  have old: "V x \<noteq> 0 \<and> V2 x = V x \<and> K2 x = K x" if "V2 x \<noteq> 0" "x \<noteq> f" for x
    using that by (auto simp: V2_def V1_def K2_def split: if_splits)
  have at_f: "K2 f = K i" "V2 f = V i" by (simp_all add: K2_def V2_def)
  have fields: "im_cap m2 = c" "im_keys m2 = K2" "im_vals m2 = V2" "im_count m2 = im_count m"
    by (simp_all add: m2 c_def)
  show "im_cap m2 = im_cap m" by (simp add: m2)
  show "rehash_inv e a (Suc q) m2"
    unfolding rehash_inv_def fields
  proof (intro conjI allI impI)
    show "\<exists>b. c = 2 ^ b" using b by blast
    show "e < c" by (rule e)
    show "V2 e = 0" using e1 fe by (simp add: V2_def)
    have "occupied V2 c = insert f (occupied V1 c)" "f \<notin> occupied V1 c"
      using f Vi by (auto simp: occupied_def V2_def)
    then show "im_count m = card (occupied V2 c)" by (simp add: cnt1)
    show "4 * im_count m < 3 * c" by (rule load)
  next
    fix x assume "x < c" "Suc q \<le> pos e c x" "x \<noteq> e"
    then show "V2 x \<noteq> 0" using V2_V cluster by auto
  next
    fix j assume j: "j < c" "V2 j \<noteq> 0"
    show "K2 j \<noteq> 0" using j old key(1) at_f ic(1) Vi by metis
    show "pos e c (home c (K2 j)) \<le> pos e c j"
      using j old key(2) at_f pf(1) by (metis h_def le_add1)
    fix x assume x: "x < c" "pos e c (home c (K2 j)) \<le> pos e c x" "pos e c x < pos e c j"
      "pos e c x < a \<or> Suc q \<le> pos e c x \<or> pos e c j < Suc q"
    show "V2 x \<noteq> 0"
    proof (cases "j = f")
      case True
      then show ?thesis using clear x V2_V1 at_f by (simp add: h_def)
    next
      case False
      with old j have "V j \<noteq> 0" "K2 j = K j" by auto
      have "j \<noteq> i" using j(2) False by (auto simp: V2_def V1_def)
      then have "pos e c j \<noteq> q" using pos_inj [OF e(1) j(1) ic(1)] ic(2) by auto
      then have "V x \<noteq> 0" "pos e c x \<noteq> q"
        using path [OF j(1) \<open>V j \<noteq> 0\<close> x(1)] x \<open>K2 j = K j\<close> aq by auto
      then show ?thesis using V2_V x(1) by blast
    qed
  next
    fix j j' assume j: "j < c" "j' < c" "V2 j \<noteq> 0" "V2 j' \<noteq> 0" "K2 j = K2 j'"
    have ne: "K2 x \<noteq> K i" if x: "x < c" "V2 x \<noteq> 0" "x \<noteq> f" for x
    proof
      assume "K2 x = K i"
      then have "x = i" using old [OF x(2,3)] uniq [OF x(1) ic(1)] Vi by simp
      then show False using x(2,3) by (simp add: V2_def V1_def)
    qed
    show "j = j'"
    proof (cases "j = f \<or> j' = f")
      case True
      then show ?thesis
      proof
        assume "j = f"
        then have "K2 j' = K i" using j(5) at_f by simp
        then show ?thesis using ne [OF j(2,4)] \<open>j = f\<close> by auto
      next
        assume "j' = f"
        then have "K2 j = K i" using j(5) at_f by simp
        then show ?thesis using ne [OF j(1,3)] \<open>j' = f\<close> by auto
      qed
    next
      case False
      then have "V j \<noteq> 0" "V j' \<noteq> 0" "K j = K j'"
        using old [OF j(3)] old [OF j(4)] j(5) by auto
      then show ?thesis using uniq j(1,2) by blast
    qed
  qed
  have "idmap_entry m2 k v \<longleftrightarrow> v \<noteq> 0 \<and> (\<exists>x < c. V2 x = v \<and> K2 x = k)"
    by (auto simp: m2 idmap_entry_def entry_def c_def)
  also have "\<dots> \<longleftrightarrow> v \<noteq> 0 \<and> (\<exists>x < c. V x = v \<and> K x = k)"
  proof (intro conj_cong refl iffI)
    assume "v \<noteq> 0" "\<exists>x < c. V2 x = v \<and> K2 x = k"
    then show "\<exists>x < c. V x = v \<and> K x = k" using old at_f ic(1) by metis
  next
    assume v: "v \<noteq> 0" and "\<exists>x < c. V x = v \<and> K x = k"
    then obtain x where x: "x < c" "V x = v" "K x = k" by blast
    show "\<exists>x < c. V2 x = v \<and> K2 x = k"
    proof (cases "x = i")
      case True then show ?thesis using x at_f f(2) by metis
    next
      case False
      then have "V1 x \<noteq> 0" using x v by (simp add: V1_def)
      then have "x \<noteq> f" using f(3) by auto
      then show ?thesis using x False by (intro exI [of _ x]) (simp add: V2_def V1_def K2_def)
    qed
  qed
  finally show "idmap_entry m2 k v \<longleftrightarrow> idmap_entry m k v"
    by (auto simp: idmap_entry_def entry_def c_def V_def K_def)
qed

lemma next_cell:
  assumes cap: "\<exists>b. c = 2 ^ b" and e: "e < c" "i < c" "i \<noteq> e"
  shows "(i + 1) AND (c - 1) < c" "pos e c ((i + 1) AND (c - 1)) = Suc (pos e c i)"
    "(i + 1) AND (c - 1) = (i + 1) mod c"
proof -
  obtain b where b: "c = 2 ^ b" using cap by blast
  show n: "(i + 1) AND (c - 1) = (i + 1) mod c"
    using and_mask_mod [of "i + 1" b] by (simp add: b)
  show "(i + 1) AND (c - 1) < c" using n e(1) by simp
  have "pos e c i + 1 < c" using pos_less_self [OF e(1,2,3)] by linarith
  then show "pos e c ((i + 1) AND (c - 1)) = Suc (pos e c i)"
    using pos_ahead [OF e(1), of i 1] n by simp
qed

lemma idmap_rehash_inv:
  "rehash_inv e a q m \<Longrightarrow> a < q \<Longrightarrow> i < im_cap m \<Longrightarrow> pos e (im_cap m) i = q \<Longrightarrow>
   im_cap m - 1 \<le> q + fuel \<Longrightarrow>
   idmap_inv (idmap_rehash fuel m i) \<and>
   (\<forall>k v. idmap_entry (idmap_rehash fuel m i) k v \<longleftrightarrow> idmap_entry m k v)"
proof (induction fuel arbitrary: m q i)
  case 0
  then show ?case using rehash_inv_done [of e a q m] by simp
next
  case (Suc fuel)
  have e: "e < im_cap m" "im_vals m e = 0" and cap: "\<exists>b. im_cap m = 2 ^ b"
    using Suc.prems(1) by (auto simp: rehash_inv_def)
  show ?case
  proof (cases "im_vals m i = 0")
    case True
    have "i = e" using Suc.prems(1,3,4) True unfolding rehash_inv_def by blast
    then have "im_cap m - 1 \<le> q" using pos_self [OF e(1)] Suc.prems(4) by simp
    then show ?thesis using rehash_inv_done [OF Suc.prems(1)] True by simp
  next
    case False
    then have ie: "i \<noteq> e" using e by auto
    let ?m1 = "m\<lparr>im_vals := (im_vals m)(i := 0), im_count := im_count m - 1\<rparr>"
    let ?m2 = "idmap_put ?m1 (im_keys m i) (im_vals m i)"
    let ?i = "(i + 1) AND (im_cap m - 1)"
    note round = rehash_round [OF Suc.prems(1,2,3,4) ie]
    note nxt = next_cell [OF cap e(1) Suc.prems(3) ie]
    have "idmap_rehash (Suc fuel) m i = idmap_rehash fuel ?m2 ?i"
      using False round(2) by (simp add: Let_def)
    moreover have "idmap_inv (idmap_rehash fuel ?m2 ?i) \<and>
        (\<forall>k v. idmap_entry (idmap_rehash fuel ?m2 ?i) k v \<longleftrightarrow> idmap_entry ?m2 k v)"
      using round(1,2) nxt Suc.prems(2,4,5) by (intro Suc.IH [of "Suc q"]) simp_all
    ultimately show ?thesis using round(3) by simp
  qed
qed

lemma idmap_remove_inv:
  assumes inv: "idmap_inv m"
  shows "idmap_inv (snd (idmap_remove m k))"
    and "idmap_entry (snd (idmap_remove m k)) k' v \<longleftrightarrow> idmap_entry m k' v \<and> k' \<noteq> k"
    and "fst (idmap_remove m k) = idmap_get m k"
proof (atomize (full), cases "\<exists>v. idmap_entry m k v")
  case False
  then have abs: "\<And>v. \<not> idmap_entry m k v" by blast
  then have "idmap_remove m k = (0, m)"
    using idmap_find_absent [OF inv, of k] by (auto simp: idmap_remove_def)
  then show "idmap_inv (snd (idmap_remove m k)) \<and>
      (idmap_entry (snd (idmap_remove m k)) k' v \<longleftrightarrow> idmap_entry m k' v \<and> k' \<noteq> k) \<and>
      fst (idmap_remove m k) = idmap_get m k"
    using inv idmap_get_absent [OF inv abs] abs by auto
next
  case True
  define c where "c = im_cap m"
  define K where "K = im_keys m"
  define V where "V = im_vals m"
  obtain i where i: "i < c" "K i = k" "V i \<noteq> 0"
    using True by (auto simp: idmap_entry_def entry_def c_def K_def V_def)
  have tab: "tab_inv K V c" and cnt: "im_count m = card (occupied V c)"
    and load: "4 * im_count m < 3 * c"
    using inv by (simp_all add: idmap_inv_def c_def K_def V_def)
  have cap: "\<exists>b. c = 2 ^ b" using tab by (rule tab_inv_cap)
  then have c0: "0 < c" by auto
  have find: "idmap_find m k = Some i"
    using find_present [OF tab i(1,3,2)] by (simp add: idmap_find_def c_def K_def V_def)
  have io: "i \<in> occupied V c" using i by (simp add: occupied_def)
  then have count: "im_count m \<noteq> 0" by (auto simp: cnt card_eq_0_iff)
  \<comment> \<open>the first empty cell after the one to clear\<close>
  let ?h = "(i + 1) mod c"
  obtain e0 where "e0 < c" "V e0 = 0"
    using idmap_inv_free [OF inv] by (auto simp: c_def V_def)
  then obtain n where n: "n < c" "V ((?h + n) mod c) = 0" "\<forall>j < n. V ((?h + j) mod c) \<noteq> 0"
    using first_from [of ?h c e0 "\<lambda>x. V x = 0"] c0 by auto
  define e where "e = (?h + n) mod c"
  have e: "e < c" "V e = 0" using n(2) c0 by (simp_all add: e_def)
  have ie: "i \<noteq> e" using i e by auto
  have ph: "pos e c ?h + n = c - 1"
  proof -
    have "(pos e c ?h + n) mod c = c - 1"
      using pos_turn [OF e(1), of ?h n] pos_self [OF e(1)] by (simp add: e_def)
    moreover have "pos e c ?h < c" using c0 by (rule pos_less)
    ultimately show ?thesis using n(1) mod_less_eq [of "pos e c ?h + n" c]
      by (cases "pos e c ?h + n < c") auto
  qed
  define a where "a = pos e c i"
  have pa: "pos e c ?h = Suc a"
    using next_cell [OF cap e(1) i(1) ie] by (simp add: a_def)
  have cluster: "V x \<noteq> 0" if "x < c" "Suc a \<le> pos e c x" "x \<noteq> e" for x
  proof -
    have "x = (?h + (pos e c x - pos e c ?h)) mod c"
      using cell_ahead [OF e(1) that(1), of ?h] that(2) pa by simp
    moreover have "pos e c x - pos e c ?h < n"
      using pos_less_self [OF e(1) that(1,3)] ph pa that(2) by linarith
    ultimately show ?thesis using n(3) by metis
  qed
  define m1 where "m1 = m\<lparr>im_vals := V(i := 0), im_count := im_count m - 1\<rparr>"
  have fields: "im_cap m1 = c" "im_keys m1 = K" "im_vals m1 = V(i := 0)"
      "im_count m1 = im_count m - 1"
    by (simp_all add: m1_def c_def K_def)
  have R: "rehash_inv e a (Suc a) m1"
    unfolding rehash_inv_def fields
  proof (intro conjI allI impI)
    show "\<exists>b. c = 2 ^ b" by (rule cap)
    show "e < c" "(V(i := 0)) e = 0" using e by simp_all
    have "occupied (V(i := 0)) c = occupied V c - {i}" by (auto simp: occupied_def)
    then show "im_count m - 1 = card (occupied (V(i := 0)) c)" using io by (simp add: cnt)
    show "4 * (im_count m - 1) < 3 * c" using load by simp
  next
    fix x assume "x < c" "Suc a \<le> pos e c x" "x \<noteq> e"
    then show "(V(i := 0)) x \<noteq> 0" using cluster by (auto simp: a_def)
  next
    fix j assume j: "j < c" "(V(i := 0)) j \<noteq> 0"
    then have j': "V j \<noteq> 0" "j \<noteq> e" using e by (auto split: if_splits)
    then have cl: "K j \<noteq> 0" "clear_from e V c (home c (K j)) j"
      using tab j(1) reaches_clear [of e c V j "home c (K j)"] e by (auto simp: tab_inv_def)
    then show "K j \<noteq> 0" "pos e c (home c (K j)) \<le> pos e c j" by (auto simp: clear_from_def)
    fix x assume x: "x < c" "pos e c (home c (K j)) \<le> pos e c x" "pos e c x < pos e c j"
      "pos e c x < a \<or> Suc a \<le> pos e c x \<or> pos e c j < Suc a"
    then have "x \<noteq> i" by (auto simp: a_def)
    then show "(V(i := 0)) x \<noteq> 0" using cl(2) x by (auto simp: clear_from_def)
  next
    fix j j' assume "j < c" "j' < c" "(V(i := 0)) j \<noteq> 0" "(V(i := 0)) j' \<noteq> 0" "K j = K j'"
    then show "j = j'" using tab by (auto simp: tab_inv_def split: if_splits)
  qed
  have res: "idmap_remove m k = (V i, idmap_rehash c m1 ((i + 1) AND (c - 1)))"
    using find count c0 i(3)
    by (simp add: idmap_remove_def m1_def c_def V_def)
  have fin: "idmap_inv (idmap_rehash c m1 ((i + 1) AND (c - 1))) \<and>
      (\<forall>k v. idmap_entry (idmap_rehash c m1 ((i + 1) AND (c - 1))) k v \<longleftrightarrow> idmap_entry m1 k v)"
    using next_cell [OF cap e(1) i(1) ie]
    by (intro idmap_rehash_inv [OF R]) (simp_all add: fields a_def)
  have "idmap_entry m1 k' v \<longleftrightarrow> idmap_entry m k' v \<and> k' \<noteq> k"
  proof
    assume "idmap_entry m1 k' v"
    then obtain x where x: "v \<noteq> 0" "x < c" "K x = k'" "(V(i := 0)) x = v"
      by (auto simp: idmap_entry_def entry_def fields)
    then have "x \<noteq> i" "V x = v" by (auto split: if_splits)
    moreover from this x i tab have "k' \<noteq> k" unfolding tab_inv_def by metis
    ultimately show "idmap_entry m k' v \<and> k' \<noteq> k"
      using x by (auto simp: idmap_entry_def entry_def c_def K_def V_def)
  next
    assume "idmap_entry m k' v \<and> k' \<noteq> k"
    then obtain x where x: "v \<noteq> 0" "x < c" "K x = k'" "V x = v" "k' \<noteq> k"
      by (auto simp: idmap_entry_def entry_def c_def K_def V_def)
    then have "x \<noteq> i" using i by auto
    with x show "idmap_entry m1 k' v"
      unfolding idmap_entry_def entry_def fields by (intro conjI exI [of _ x]) auto
  qed
  moreover have "idmap_get m k = V i" using find count c0 by (simp add: idmap_get_def c_def V_def)
  ultimately show "idmap_inv (snd (idmap_remove m k)) \<and>
      (idmap_entry (snd (idmap_remove m k)) k' v \<longleftrightarrow> idmap_entry m k' v \<and> k' \<noteq> k) \<and>
      fst (idmap_remove m k) = idmap_get m k"
    using fin by (simp add: res)
qed

subsection \<open>The contract of an id table\<close>

text \<open>
  What the scene store relies on: a table from ids to slots, 0 for no slot, with the laws
  of a finite map. A new entry needs an id that is absent and admissible, and a slot that
  is not 0.
\<close>

locale id_table =
  fixes empty :: "'t"
    and get :: "'t \<Rightarrow> 'k \<Rightarrow> nat"
    and put :: "'t \<Rightarrow> 'k \<Rightarrow> nat \<Rightarrow> 't"
    and del :: "'t \<Rightarrow> 'k \<Rightarrow> 't"
    and invar :: "'t \<Rightarrow> bool"
    and admissible :: "'k \<Rightarrow> bool"
  assumes invar_empty: "invar empty"
    and get_empty: "get empty k = 0"
    and invar_put: "invar t \<Longrightarrow> get t k = 0 \<Longrightarrow> admissible k \<Longrightarrow> s \<noteq> 0 \<Longrightarrow> invar (put t k s)"
    and get_put: "invar t \<Longrightarrow> get t k = 0 \<Longrightarrow> admissible k \<Longrightarrow> s \<noteq> 0 \<Longrightarrow>
                  get (put t k s) k' = (if k' = k then s else get t k')"
    and invar_del: "invar t \<Longrightarrow> invar (del t k)"
    and get_del: "invar t \<Longrightarrow> get (del t k) k' = (if k' = k then 0 else get t k')"
begin

text \<open>Removing a list of ids, and entering a list of new ones.\<close>

lemma del_all:
  "invar t \<Longrightarrow> invar (foldl del t ks) \<and>
     get (foldl del t ks) k = (if k \<in> set ks then 0 else get t k)"
  by (induction ks arbitrary: t) (auto simp: invar_del get_del)

lemma put_all:
  "invar t \<Longrightarrow> distinct (map fst xs) \<Longrightarrow>
   \<forall>(k, s) \<in> set xs. admissible k \<and> s \<noteq> 0 \<and> get t k = 0 \<Longrightarrow>
   invar (foldl (\<lambda>t (k, s). put t k s) t xs) \<and>
   get (foldl (\<lambda>t (k, s). put t k s) t xs) k =
     (case map_of xs k of Some s \<Rightarrow> s | None \<Rightarrow> get t k)"
proof (induction xs arbitrary: t)
  case (Cons x xs)
  obtain k' s where x: "x = (k', s)" by (cases x)
  let ?t = "put t k' s"
  have t: "invar ?t" "\<And>j. get ?t j = (if j = k' then s else get t j)"
    using Cons.prems x by (auto simp: invar_put get_put)
  have "\<forall>(k, s) \<in> set xs. admissible k \<and> s \<noteq> 0 \<and> get ?t k = 0"
    using Cons.prems x t(2) by (fastforce simp: image_iff)
  moreover have "map_of xs k' = None"
    using Cons.prems x by (auto simp: map_of_eq_None_iff)
  ultimately show ?case
    using Cons.IH [of ?t] Cons.prems x t by (auto split: option.splits)
qed simp

end

definition idmap_del :: "idmap \<Rightarrow> u32 \<Rightarrow> idmap" where
  "idmap_del m k = snd (idmap_remove m k)"

lemma idmap_get_eqI:
  assumes "idmap_inv m" "\<And>v. v \<noteq> 0 \<Longrightarrow> idmap_entry m k v \<longleftrightarrow> s = v"
  shows "idmap_get m k = s"
  using idmap_get_iff [OF assms(1), of k] assms(2) by (metis idmap_entry_def entry_def)

interpretation idt: id_table idmap_init idmap_get idmap_put idmap_del idmap_inv "\<lambda>k. k \<noteq> 0"
proof
  have "tab_inv (\<lambda>_. 0) (\<lambda>_. 0) 1024" using tab_inv_empty [of 10] by simp
  then show "idmap_inv idmap_init" by (simp add: idmap_inv_def idmap_init_def)
  show "idmap_get idmap_init k = 0" for k by (simp add: idmap_get_def idmap_init_def)
next
  fix t k k' and s :: nat
  assume t: "idmap_inv t" "idmap_get t k = 0" "k \<noteq> 0" "s \<noteq> 0"
  then have abs: "\<And>v. \<not> idmap_entry t k v" by (auto simp: idmap_get_iff)
  show p: "idmap_inv (idmap_put t k s)" using t abs by (intro idmap_put_inv)
  show "idmap_get (idmap_put t k s) k' = (if k' = k then s else idmap_get t k')"
    by (rule idmap_get_eqI [OF p])
      (use t abs in \<open>auto simp: idmap_put_inv(2) idmap_get_iff [OF t(1)]\<close>)
next
  fix t k k'
  assume t: "idmap_inv t"
  show d: "idmap_inv (idmap_del t k)" using t by (simp add: idmap_del_def idmap_remove_inv)
  show "idmap_get (idmap_del t k) k' = (if k' = k then 0 else idmap_get t k')"
    by (rule idmap_get_eqI [OF d])
      (auto simp: idmap_del_def idmap_remove_inv(2) [OF t] idmap_get_iff [OF t])
qed

end
