(* ===== verification/StoreState.thy ===== *)
theory StoreState
  imports Emit IdMap Arena
begin

text \<open>
  The state of a session: \<open>struct scene_store\<close> of \<open>src/scene_store.c\<close> with the records it
  holds (textures, macros, checkpoints), its construction, and the emission of the records
  whose payload does not depend on the scene (ERROR, TEXT_INDEX, INPUT_FOCUS, PONG, WELCOME).

  A scene is the arena, the id table, the focus and the texture table that one
  \<open>apply_ctx\<close> points to; a store holds two of them, the live one and the one replay
  builds. The log and the outbound buffer are the lists of their bytes (\<open>DynBuf\<close>), the
  arrays of textures, macros and checkpoints are lists. \<open>st_heap\<close> stands for the contents
  of memory that \<open>realloc\<close> hands out and the code does not initialise. The clock is read
  by the caller and passed to the operations that read it.
\<close>

subsection \<open>Records\<close>

record tex_ent =
  te_ref :: u32
  te_w :: u32
  te_h :: u32
  te_fmt :: u16
  te_opaque :: u8

record macro_op =
  mo_opcode :: u16
  mo_payload :: bytes
  mo_id :: u32
  mo_rect :: rect

record macro_rec =
  mr_id :: u32
  mr_ops :: "macro_op list"

record ckpt_ent =
  ck_seq :: u64
  ck_dump :: bytes

record scene =
  sc_arena :: arena
  sc_idm :: idmap
  sc_focus :: u32
  sc_tex :: "tex_ent list"

record scene_store =
  st_lim :: scene_limits
  st_scene_id :: u32
  st_next_seq :: u64
  st_scene_seq :: u64
  st_present_seq :: u64
  st_last_token :: u64
  st_input_pending :: bool
  st_last_input_seq :: u64
  st_last_input_us :: u64
  st_mode :: u8
  st_dead :: bool
  st_budget_violations :: u32
  st_budget_max_us :: u64
  st_live :: scene
  st_replay :: scene
  st_rnodes :: bool   \<comment> \<open>\<open>rnodes != NULL\<close>\<close>
  st_replay_seq :: u64
  st_style_count :: u32
  st_effect_count :: u32
  st_log :: bytes
  st_log_records :: u64
  st_ckpts :: "ckpt_ent list"
  st_macros :: "macro_rec list"
  st_open_macro :: "nat option"   \<comment> \<open>\<open>SCENE_NO_MACRO\<close> is \<open>None\<close>\<close>
  st_out :: outq
  st_heap :: cells

abbreviation SCENE_CKPT_PERIOD :: u64 where "SCENE_CKPT_PERIOD \<equiv> 4096"

text \<open>The nodes of a scene, by slot.\<close>

abbreviation cell :: "scene \<Rightarrow> nat \<Rightarrow> node" where
  "cell sc s \<equiv> ar_nodes (sc_arena sc) s"

definition set_cell :: "scene \<Rightarrow> nat \<Rightarrow> node \<Rightarrow> scene" where
  "set_cell sc s n =
     sc\<lparr>sc_arena := (sc_arena sc)\<lparr>ar_nodes := (ar_nodes (sc_arena sc))(s := n)\<rparr>\<rparr>"

subsection \<open>Construction\<close>

text \<open>\<open>calloc(1, sizeof(node))\<close>: one zeroed cell, the pseudo-root, and no node.\<close>

definition new_arena :: "cells \<Rightarrow> arena" where
  "new_arena mem =
     \<lparr>ar_nodes = mem(0 := zero_node), ar_cap = 1, ar_count = 0, ar_free = 0\<rparr>"

text \<open>No arena: the pointer is NULL and the counters are 0.\<close>

definition no_arena :: "cells \<Rightarrow> arena" where
  "no_arena mem = \<lparr>ar_nodes = mem, ar_cap = 0, ar_count = 0, ar_free = 0\<rparr>"

definition no_idmap :: idmap where
  "no_idmap = \<lparr>im_keys = (\<lambda>_. 0), im_vals = (\<lambda>_. 0), im_cap = 0, im_count = 0\<rparr>"

definition scene_store_new :: "scene_limits option \<Rightarrow> u64 \<Rightarrow> cells \<Rightarrow> scene_store" where
  "scene_store_new limits now mem =
     \<lparr>st_lim = (case limits of Some l \<Rightarrow> l | None \<Rightarrow> scene_default_limits),
      st_scene_id = ucast (now AND 0xFFFFFFFF), st_next_seq = 1, st_scene_seq = 0,
      st_present_seq = 0, st_last_token = 0, st_input_pending = False,
      st_last_input_seq = 0, st_last_input_us = 0, st_mode = SCENE_MODE_LIVE,
      st_dead = False, st_budget_violations = 0, st_budget_max_us = 0,
      st_live = \<lparr>sc_arena = new_arena mem, sc_idm = idmap_init,
                 sc_focus = SCENE_NO_PARENT, sc_tex = []\<rparr>,
      st_replay = \<lparr>sc_arena = no_arena mem, sc_idm = no_idmap, sc_focus = 0, sc_tex = []\<rparr>,
      st_rnodes = False, st_replay_seq = 0, st_style_count = 0, st_effect_count = 0,
      st_log = [], st_log_records = 0, st_ckpts = [], st_macros = [], st_open_macro = None,
      st_out = oq_empty, st_heap = mem\<rparr>"

subsection \<open>Records that do not depend on the scene\<close>

definition store_emit :: "scene_store \<Rightarrow> u16 \<Rightarrow> bytes \<Rightarrow> scene_store" where
  "store_emit s opcode payload = s\<lparr>st_out := emit (st_out s) opcode payload\<rparr>"

text \<open>A message is an ASCII string; the payload field holds its bytes.\<close>

definition ascii :: "string \<Rightarrow> bytes" where
  "ascii msg = map (\<lambda>c. of_nat (of_char c)) msg"

definition error_payload :: "u16 \<Rightarrow> string \<Rightarrow> bytes" where
  "error_payload code msg =
     (let mlen = (if length msg > 0xFFFF then 0xFFFF else length msg)
      in scene_put_u16 code @ scene_put_u32 (of_nat mlen) @ take mlen (ascii msg))"

definition emit_error :: "scene_store \<Rightarrow> u16 \<Rightarrow> string \<Rightarrow> scene_store" where
  "emit_error s code msg = store_emit s SCENE_SRV_ERROR (error_payload code msg)"

definition emit_text_index :: "outq \<Rightarrow> u32 \<Rightarrow> u32 \<Rightarrow> bytes \<Rightarrow> outq" where
  "emit_text_index q text_id node_id data =
     emit q SCENE_SRV_TEXT_INDEX
       (scene_put_u32 1 @ scene_put_u32 text_id @ scene_put_u32 node_id @
        scene_put_u32 (of_nat (length data)) @ data)"

definition emit_focus_evt :: "outq \<Rightarrow> u64 \<Rightarrow> u32 \<Rightarrow> u8 \<Rightarrow> outq" where
  "emit_focus_evt q seq node_id state =
     emit q SCENE_SRV_INPUT_FOCUS (scene_put_u64 seq @ scene_put_u32 node_id @ [state])"

definition emit_pong :: "scene_store \<Rightarrow> u64 \<Rightarrow> scene_store" where
  "emit_pong s nonce = store_emit s SCENE_SRV_PONG (scene_put_u64 nonce)"

definition scene_store_welcome :: "scene_store \<Rightarrow> scene_store" where
  "scene_store_welcome s =
     store_emit s SCENE_SRV_WELCOME
       (scene_put_u32 (st_scene_id s) @ scene_put_u16 SCENE_PROTOCOL_V0 @
        scene_put_u32 (max_nodes_per_session (st_lim s)) @
        scene_put_u32 (max_text_bytes_per_slot (st_lim s)) @
        scene_put_u32 (max_text_slots_per_node (st_lim s)) @
        scene_put_u32 (max_record_length (st_lim s)) @
        scene_put_u64 (input_latency_budget_us (st_lim s)))"

text \<open>Fatal errors: the ERROR record goes out, the session is dead, the caller gets the
  negated code.\<close>

definition fatal_error :: "scene_store \<Rightarrow> u16 \<Rightarrow> string \<Rightarrow> int \<times> scene_store" where
  "fatal_error s code msg = (neg_err code, (emit_error s code msg)\<lparr>st_dead := True\<rparr>)"

definition scene_store_fail :: "scene_store \<Rightarrow> u16 \<Rightarrow> string \<Rightarrow> int \<times> scene_store" where
  "scene_store_fail s code msg = (0, (emit_error s code msg)\<lparr>st_dead := True\<rparr>)"

definition scene_store_emit_record ::
    "scene_store \<Rightarrow> u16 \<Rightarrow> bytes \<Rightarrow> u32 \<Rightarrow> int \<times> scene_store" where
  "scene_store_emit_record s opcode payload plen =
     (if opcode < 0x8000 \<or> opcode > 0x8FFF then (-1, s)
      else if plen > max_record_length (st_lim s) then (-1, s)
      else (0, store_emit s opcode (slice payload 0 (unat plen))))"

text \<open>The drain functions of the API.\<close>

definition scene_store_out_next :: "scene_store \<Rightarrow> (u16 \<times> bytes) option \<times> scene_store" where
  "scene_store_out_next s = (let (r, q) = out_next (st_out s) in (r, s\<lparr>st_out := q\<rparr>))"

definition scene_store_out_next_frame :: "scene_store \<Rightarrow> bytes option \<times> scene_store" where
  "scene_store_out_next_frame s =
     (let (r, q) = out_next_frame (st_out s) in (r, s\<lparr>st_out := q\<rparr>))"

subsection \<open>Texture registry\<close>

definition scene_store_texture_registered :: "scene_store \<Rightarrow> u32 \<Rightarrow> bool" where
  "scene_store_texture_registered s ref =
     list_ex (\<lambda>t. te_ref t = ref) (sc_tex (st_live s))"

definition scene_store_register_texture ::
    "scene_store \<Rightarrow> u32 \<Rightarrow> u32 \<Rightarrow> u32 \<Rightarrow> u16 \<Rightarrow> u8 \<Rightarrow> int \<times> scene_store" where
  "scene_store_register_texture s ref w h fmt opq =
     (if list_ex (\<lambda>t. te_ref t = ref) (sc_tex (st_live s)) then (-1, s)
      else (0, s\<lparr>st_live := (st_live s)\<lparr>sc_tex := sc_tex (st_live s) @
                 [\<lparr>te_ref = ref, te_w = w, te_h = h, te_fmt = fmt, te_opaque = opq\<rparr>]\<rparr>\<rparr>))"

text \<open>Release moves the last entry into the place of the released one.\<close>

fun tex_release :: "tex_ent list \<Rightarrow> nat \<Rightarrow> u32 \<Rightarrow> nat \<Rightarrow> tex_ent list option" where
  "tex_release ts i ref 0 = None"
| "tex_release ts i ref (Suc n) =
     (if te_ref (ts ! i) \<noteq> ref then tex_release ts (i + 1) ref n
      else Some (butlast (ts[i := last ts])))"

definition scene_store_release_texture :: "scene_store \<Rightarrow> u32 \<Rightarrow> int \<times> scene_store" where
  "scene_store_release_texture s ref =
     (let ts = sc_tex (st_live s)
      in case tex_release ts 0 ref (length ts) of
           None \<Rightarrow> (-1, s)
         | Some ts' \<Rightarrow> (0, s\<lparr>st_live := (st_live s)\<lparr>sc_tex := ts'\<rparr>\<rparr>))"

subsection \<open>Crash recovery and small setters\<close>

text \<open>The stale mark goes on every cell below the capacity that does not carry the id of a
  cell without a node.\<close>

definition ghost_cells :: "arena \<Rightarrow> cells" where
  "ghost_cells a =
     (\<lambda>i. if 1 \<le> i \<and> i < ar_cap a \<and> nd_id (ar_nodes a i) \<noteq> 0xFFFFFFFF
          then (ar_nodes a i)\<lparr>nd_stale := True\<rparr> else ar_nodes a i)"

definition scene_store_ghost_mark :: "scene_store \<Rightarrow> scene_store" where
  "scene_store_ghost_mark s =
     s\<lparr>st_live := (st_live s)\<lparr>sc_arena :=
         (sc_arena (st_live s))\<lparr>ar_nodes := ghost_cells (sc_arena (st_live s))\<rparr>\<rparr>\<rparr>"

definition scene_store_rejoin :: "scene_store \<Rightarrow> u64 \<Rightarrow> int \<times> scene_store" where
  "scene_store_rejoin s seq =
     (if st_dead s then (-1, s)
      else if st_mode s \<noteq> SCENE_MODE_LIVE then (-1, s)
      else if seq < st_next_seq s then (-1, s)
      else (0, s\<lparr>st_next_seq := seq\<rparr>))"

definition scene_store_set_style_count :: "scene_store \<Rightarrow> u32 \<Rightarrow> scene_store" where
  "scene_store_set_style_count s n = s\<lparr>st_style_count := n\<rparr>"

definition scene_store_set_effect_count :: "scene_store \<Rightarrow> u32 \<Rightarrow> scene_store" where
  "scene_store_set_effect_count s n = s\<lparr>st_effect_count := n\<rparr>"

end
