(* ===== verification/Snapshot.thy ===== *)
theory Snapshot
  imports StoreState
begin

text \<open>
  Snapshots of a scene: the section 6 dump of \<open>src/scene_store.c\<close> (\<open>dump_node\<close>,
  \<open>snapshot_serialize\<close>) and the rebuilding of an arena from one (\<open>snapshot_restore\<close>). The
  operation log and its checkpoints (\<open>log_append\<close>) use the first, replay the second.

  The parser keeps its offset and the length in 32 bits, as the code does: \<open>len - off\<close>
  wraps around when the offset has run past the end.
\<close>

subsection \<open>Dump\<close>

definition put_rect :: "rect \<Rightarrow> bytes" where
  "put_rect r =
     scene_put_i32 (rx r) @ scene_put_i32 (ry r) @ scene_put_i32 (rw r) @ scene_put_i32 (rh r)"

definition dump_text :: "text_slot \<Rightarrow> bytes" where
  "dump_text t =
     scene_put_u32 (ts_id t) @ scene_put_u32 (of_nat (length (ts_data t))) @ ts_data t"

definition dump_node :: "cells \<Rightarrow> node \<Rightarrow> bytes" where
  "dump_node h nd =
     scene_put_u32 (nd_id nd) @
     scene_put_u32 (if nd_parent nd \<noteq> 0 then nd_id (h (nd_parent nd)) else SCENE_NO_PARENT) @
     scene_put_u16 (nd_role nd) @ [nd_flags nd] @ put_rect (nd_rect nd) @
     scene_put_u32 (nd_style nd) @ scene_put_u32 (nd_effect nd) @ scene_put_u32 (nd_tex nd) @
     scene_put_u32 (of_nat (length (nd_texts nd))) @ concat (map dump_text (nd_texts nd))"

definition dump_tex :: "tex_ent \<Rightarrow> bytes" where
  "dump_tex t =
     scene_put_u32 (te_ref t) @ scene_put_u32 (te_w t) @ scene_put_u32 (te_h t) @
     scene_put_u16 (te_fmt t) @ [te_opaque t]"

text \<open>\<open>None\<close> when the walk did not see \<open>count\<close> nodes.\<close>

definition snapshot_serialize :: "arena \<Rightarrow> u64 \<Rightarrow> tex_ent list \<Rightarrow> bytes option" where
  "snapshot_serialize a seq texes =
     (let header = scene_put_u64 seq @ scene_put_u32 (of_nat (ar_count a)) @
                   scene_put_u32 (of_nat (length texes));
          (nodes, seen) =
            arena_walk a (\<lambda>c (d, k). (d @ dump_node (ar_nodes a) (ar_nodes a c), k + 1))
              (\<lambda>_ x. x) ([], 0 :: nat)
      in if seen \<noteq> ar_count a then None
         else Some (header @ nodes @ concat (map dump_tex texes)))"

subsection \<open>Restore\<close>

fun restore_texts :: "scene_limits \<Rightarrow> bytes \<Rightarrow> u32 \<Rightarrow> nat \<Rightarrow> u32 \<Rightarrow> text_slot list \<Rightarrow>
    (text_slot list \<times> u32) option" where
  "restore_texts lim p len 0 off ts = Some (ts, off)"
| "restore_texts lim p len (Suc n) off ts =
     (if len - off < 8 then None
      else
        let tid = scene_get_u32 p (unat off);
            tl = scene_get_u32 p (unat (off + 4));
            off = off + 8
        in if tl > max_text_bytes_per_slot lim \<or> len - off < tl then None
           else restore_texts lim p len n (off + tl)
                  (ts @ [\<lparr>ts_id = tid, ts_data = slice p (unat off) (unat tl)\<rparr>]))"

text \<open>One node: allocated, filled, entered in the id table. Until the links are rebuilt the
  parent field holds the id of the parent.\<close>

definition restore_node :: "scene_limits \<Rightarrow> bytes \<Rightarrow> u32 \<Rightarrow> arena \<times> idmap \<times> u32 \<Rightarrow>
    (arena \<times> idmap \<times> u32) option" where
  "restore_node lim p len = (\<lambda>(ar, idm, off).
     let (slot, ar1) = arena_alloc ar
     in if len - off < 32 then None
        else
          let o0 = unat off;
              nid = scene_get_u32 p o0;
              tcount = scene_get_u32 p (unat (off + 39))
          in if tcount > max_text_slots_per_node lim then None
             else case restore_texts lim p len (unat tcount) (off + 43) [] of
               None \<Rightarrow> None
             | Some (texts, off') \<Rightarrow>
                 let nd = (ar_nodes ar1 slot)
                       \<lparr>nd_id := nid,
                        nd_parent := unat (scene_get_u32 p (unat (off + 4))),
                        nd_role := scene_get_u16 p (unat (off + 8)),
                        nd_flags := rd p (unat (off + 10)),
                        nd_rect := \<lparr>rx = scene_get_i32 p (unat (off + 11)),
                                    ry = scene_get_i32 p (unat (off + 15)),
                                    rw = scene_get_i32 p (unat (off + 19)),
                                    rh = scene_get_i32 p (unat (off + 23))\<rparr>,
                        nd_style := scene_get_u32 p (unat (off + 27)),
                        nd_effect := scene_get_u32 p (unat (off + 31)),
                        nd_tex := scene_get_u32 p (unat (off + 35)),
                        nd_texts := texts\<rparr>
                 in Some (ar1\<lparr>ar_nodes := (ar_nodes ar1)(slot := nd)\<rparr>,
                          idmap_put idm nid slot, off'))"

fun restore_nodes :: "scene_limits \<Rightarrow> bytes \<Rightarrow> u32 \<Rightarrow> nat \<Rightarrow> arena \<times> idmap \<times> u32 \<Rightarrow>
    (arena \<times> idmap \<times> u32) option" where
  "restore_nodes lim p len 0 st = Some st"
| "restore_nodes lim p len (Suc n) st =
     (case restore_node lim p len st of
        None \<Rightarrow> None | Some st' \<Rightarrow> restore_nodes lim p len n st')"

text \<open>Rebuild the links of slot \<open>i\<close> and those after it.\<close>

fun restore_links :: "idmap \<Rightarrow> nat \<Rightarrow> nat \<Rightarrow> arena \<Rightarrow> arena option" where
  "restore_links idm i 0 ar = Some ar"
| "restore_links idm i (Suc n) ar =
     (let nd = ar_nodes ar i
      in if nd_id nd = 0xFFFFFFFF then restore_links idm (i + 1) n ar
         else
           let ps = (if nd_parent nd = unat SCENE_NO_PARENT then 0
                     else idmap_get idm (of_nat (nd_parent nd)))
           in if nd_parent nd \<noteq> unat SCENE_NO_PARENT \<and> ps = 0 then None
              else restore_links idm (i + 1) n
                     (attach ar ps i (if ps \<noteq> 0 then nd_depth (ar_nodes ar ps) + 1 else 0)))"

fun restore_tex :: "bytes \<Rightarrow> nat \<Rightarrow> u32 \<Rightarrow> tex_ent list" where
  "restore_tex p 0 off = []"
| "restore_tex p (Suc n) off =
     \<lparr>te_ref = scene_get_u32 p (unat off), te_w = scene_get_u32 p (unat (off + 4)),
      te_h = scene_get_u32 p (unat (off + 8)), te_fmt = scene_get_u16 p (unat (off + 12)),
      te_opaque = rd p (unat (off + 14))\<rparr> # restore_tex p n (off + 15)"

definition snapshot_restore :: "scene_limits \<Rightarrow> cells \<Rightarrow> bytes \<Rightarrow> u32 \<Rightarrow>
    (arena \<times> idmap \<times> u64 \<times> tex_ent list) option" where
  "snapshot_restore lim mem p len =
     (if len < 16 then None
      else
        let seq = scene_get_u64 p 0;
            count = scene_get_u32 p 8;
            texc = scene_get_u32 p 12
        in case restore_nodes lim p len (unat count) (no_arena mem, idmap_init, 16) of
             None \<Rightarrow> None
           | Some (ar, idm, off) \<Rightarrow>
               (case restore_links idm 1 (ar_count ar) ar of
                  None \<Rightarrow> None
                | Some ar' \<Rightarrow>
                    if texc \<noteq> 0 \<and> len - off < texc * 15 then None
                    else Some (ar', idm, seq, restore_tex p (unat texc) off)))"

subsection \<open>Log\<close>

text \<open>\<open>False\<close> when a checkpoint is due and the scene cannot be serialised; the record is in
  the log by then.\<close>

definition log_append :: "scene_store \<Rightarrow> u16 \<Rightarrow> bytes \<Rightarrow> u32 \<Rightarrow> bool \<times> scene_store" where
  "log_append s opcode payload plen =
     (let s1 = s\<lparr>st_log := st_log s @ scene_put_u16 opcode @ scene_put_u32 plen @
                          slice payload 0 (unat plen),
                 st_log_records := st_log_records s + 1\<rparr>
      in if st_log_records s1 mod SCENE_CKPT_PERIOD = 0 then
           (case snapshot_serialize (sc_arena (st_live s1)) (st_scene_seq s1)
                   (sc_tex (st_live s1)) of
              None \<Rightarrow> (False, s1)
            | Some dump \<Rightarrow> (True, s1\<lparr>st_ckpts := st_ckpts s1 @
                                   [\<lparr>ck_seq = st_scene_seq s1, ck_dump = dump\<rparr>]\<rparr>))
         else (True, s1))"

end
