(* ===== verification/Ops.thy ===== *)
theory Ops
  imports StoreState
begin

text \<open>
  The mutation primitives of \<open>src/scene_store.c\<close> (\<open>op_create\<close> to \<open>op_focus_next\<close>) and their
  dispatcher \<open>apply_op\<close>, shared by live ingest, macro execution, replay and the host.

  A context is what \<open>apply_ctx\<close> points to: the scene an operation works on, what it reads
  of the store and the outbound queue. An operation takes the payload as the memory it can
  read and \<open>plen\<close>, and returns its status with the context; on an error the context is the
  one at the point of the early return.
\<close>

subsection \<open>Context and status\<close>

record apply_ctx =
  ac_lim :: scene_limits
  ac_style_count :: u32
  ac_effect_count :: u32
  ac_scene_seq :: u64
  ac_out :: outq
  ac_scene :: scene
  ac_events :: bool
  ac_replay :: bool

text \<open>\<open>0\<close> and \<open>1\<close> with \<open>fatal_err\<close> set.\<close>

datatype op_status = OpOk | OpErr u16

type_synonym op_result = "op_status \<times> apply_ctx"

abbreviation ac_arena :: "apply_ctx \<Rightarrow> arena" where "ac_arena a \<equiv> sc_arena (ac_scene a)"
abbreviation ac_cell :: "apply_ctx \<Rightarrow> nat \<Rightarrow> node" where "ac_cell a s \<equiv> cell (ac_scene a) s"

definition with_arena :: "apply_ctx \<Rightarrow> arena \<Rightarrow> apply_ctx" where
  "with_arena a ar = a\<lparr>ac_scene := (ac_scene a)\<lparr>sc_arena := ar\<rparr>\<rparr>"

definition put_cell :: "apply_ctx \<Rightarrow> nat \<Rightarrow> node \<Rightarrow> apply_ctx" where
  "put_cell a s n = a\<lparr>ac_scene := set_cell (ac_scene a) s n\<rparr>"

definition get_rect :: "bytes \<Rightarrow> nat \<Rightarrow> rect" where
  "get_rect p off =
     \<lparr>rx = scene_get_i32 p off, ry = scene_get_i32 p (off + 4),
      rw = scene_get_i32 p (off + 8), rh = scene_get_i32 p (off + 12)\<rparr>"

subsection \<open>Create\<close>

text \<open>The parent slot a CREATE names: 0 for no parent, an error when unknown or stale.\<close>

definition parent_slot :: "apply_ctx \<Rightarrow> u32 \<Rightarrow> nat option" where
  "parent_slot a parent_id =
     (if parent_id \<noteq> SCENE_NO_PARENT then
        let ps = idmap_get (sc_idm (ac_scene a)) parent_id
        in if ps = 0 \<or> nd_stale (ac_cell a ps) then None else Some ps
      else Some 0)"

definition child_depth :: "apply_ctx \<Rightarrow> nat \<Rightarrow> nat" where
  "child_depth a ps = (if ps \<noteq> 0 then nd_depth (ac_cell a ps) + 1 else 0)"

definition op_create :: "apply_ctx \<Rightarrow> bytes \<Rightarrow> u32 \<Rightarrow> op_result" where
  "op_create a p plen =
     (if plen \<noteq> 35 then (OpErr SCENE_ERR_PROTOCOL, a)
      else
        let parent_id = scene_get_u32 p 8;
            nid = scene_get_u32 p 12;
            role = scene_get_u16 p 16;
            r = get_rect p 18;
            flags = rd p 34
        in if role > SCENE_ROLE_MAX then (OpErr SCENE_ERR_BAD_ROLE, a)
           else if nid = SCENE_NO_PARENT then (OpErr SCENE_ERR_PROTOCOL, a)
           else
             let slot = idmap_get (sc_idm (ac_scene a)) nid
             in if slot \<noteq> 0 then
                  (if \<not> nd_stale (ac_cell a slot) \<and> \<not> ac_replay a
                   then (OpErr SCENE_ERR_BAD_NODE, a)
                   else case parent_slot a parent_id of
                     None \<Rightarrow> (OpErr SCENE_ERR_BAD_PARENT, a)
                   | Some ps \<Rightarrow>
                       let a1 = with_arena a (detach (ac_arena a) slot);
                           a2 = put_cell a1 slot ((ac_cell a1 slot)
                                  \<lparr>nd_role := role, nd_flags := flags, nd_blend := 0,
                                   nd_opacity := 255, nd_rect := r, nd_stale := False\<rparr>)
                       in (OpOk, with_arena a2
                                   (attach (ac_arena a2) ps slot (child_depth a2 ps))))
                else if ar_count (ac_arena a) \<ge> unat (max_nodes_per_session (ac_lim a))
                then (OpErr SCENE_ERR_LIMIT, a)
                else case parent_slot a parent_id of
                  None \<Rightarrow> (OpErr SCENE_ERR_BAD_PARENT, a)
                | Some ps \<Rightarrow>
                    let (slot, ar) = arena_alloc (ac_arena a);
                        a1 = with_arena a ar;
                        a2 = put_cell a1 slot ((ac_cell a1 slot)
                               \<lparr>nd_id := nid, nd_role := role, nd_flags := flags, nd_rect := r,
                                nd_tex := SCENE_NO_TEXTURE, nd_blend := 0, nd_opacity := 255\<rparr>);
                        a3 = with_arena a2 (attach (ac_arena a2) ps slot (child_depth a2 ps))
                    in (OpOk, a3\<lparr>ac_scene := (ac_scene a3)\<lparr>sc_idm :=
                                idmap_put (sc_idm (ac_scene a3)) nid slot\<rparr>\<rparr>))"

subsection \<open>Destroy\<close>

text \<open>One node out of the id table and onto the free list.\<close>

definition free_node :: "scene \<Rightarrow> nat \<Rightarrow> scene" where
  "free_node sc s =
     sc\<lparr>sc_idm := snd (idmap_remove (sc_idm sc) (nd_id (cell sc s))),
        sc_arena := (arena_free_one (sc_arena sc) s)\<lparr>ar_count := ar_count (sc_arena sc) - 1\<rparr>\<rparr>"

text \<open>The post-order loop over the descendants; the links are read from the arena as the
  loop changes it, the next sibling before the node is freed.\<close>

fun destroy_loop :: "nat \<Rightarrow> scene \<Rightarrow> nat \<Rightarrow> nat list \<Rightarrow> scene" where
  "destroy_loop 0 sc c stack = sc"
| "destroy_loop (Suc fuel) sc c stack =
     (if c \<noteq> 0 then destroy_loop fuel sc (nd_first (cell sc c)) (c # stack)
      else case stack of
             [] \<Rightarrow> sc
           | s # stack' \<Rightarrow> destroy_loop fuel (free_node sc s) (nd_next (cell sc s)) stack')"

definition op_destroy :: "apply_ctx \<Rightarrow> bytes \<Rightarrow> u32 \<Rightarrow> op_result" where
  "op_destroy a p plen =
     (if plen \<noteq> 12 then (OpErr SCENE_ERR_PROTOCOL, a)
      else
        let nid = scene_get_u32 p 8;
            slot = idmap_get (sc_idm (ac_scene a)) nid
        in if slot = 0 then (OpErr SCENE_ERR_BAD_NODE, a)
           else
             let sc1 = destroy_loop (2 * ar_count (ac_arena a) + 1) (ac_scene a)
                         (nd_first (ac_cell a slot)) [];
                 sc2 = sc1\<lparr>sc_arena := detach (sc_arena sc1) slot\<rparr>;
                 sc3 = sc2\<lparr>sc_idm := snd (idmap_remove (sc_idm sc2) nid),
                           sc_arena := (arena_free_one (sc_arena sc2) slot)
                             \<lparr>ar_count := ar_count (sc_arena sc2) - 1\<rparr>\<rparr>;
                 sc4 = (if sc_focus sc3 = nid then sc3\<lparr>sc_focus := SCENE_NO_PARENT\<rparr> else sc3)
             in (OpOk, a\<lparr>ac_scene := sc4\<rparr>))"

subsection \<open>Attributes\<close>

text \<open>The node an attribute operation addresses: known and not stale.\<close>

definition target :: "apply_ctx \<Rightarrow> u32 \<Rightarrow> nat option" where
  "target a nid =
     (let slot = idmap_get (sc_idm (ac_scene a)) nid
      in if slot = 0 then None
         else if nd_stale (ac_cell a slot) then None else Some slot)"

text \<open>The index of the text slot with an id, \<open>text_count\<close> when there is none.\<close>

fun text_index :: "text_slot list \<Rightarrow> u32 \<Rightarrow> nat" where
  "text_index [] tid = 0"
| "text_index (t # ts) tid = (if ts_id t = tid then 0 else Suc (text_index ts tid))"

definition text_set :: "apply_ctx \<Rightarrow> u32 \<Rightarrow> u32 \<Rightarrow> bytes \<Rightarrow> nat \<Rightarrow> u32 \<Rightarrow> op_result" where
  "text_set a nid text_id p off len =
     (case target a nid of
        None \<Rightarrow> (OpErr SCENE_ERR_BAD_NODE, a)
      | Some slot \<Rightarrow>
          let n = ac_cell a slot;
              i = text_index (nd_texts n) text_id
          in if i = length (nd_texts n) \<and>
                length (nd_texts n) \<ge> unat (max_text_slots_per_node (ac_lim a))
             then (OpErr SCENE_ERR_LIMIT, a)
             else
               let texts = (if i = length (nd_texts n)
                            then nd_texts n @ [\<lparr>ts_id = text_id, ts_data = []\<rparr>]
                            else nd_texts n);
                   a1 = put_cell a slot (n\<lparr>nd_texts := texts\<rparr>)
               in if len > max_text_bytes_per_slot (ac_lim a) then (OpErr SCENE_ERR_LIMIT, a1)
                  else
                    let data = slice p off (unat len);
                        a2 = put_cell a1 slot (n\<lparr>nd_texts :=
                               texts[i := (texts ! i)\<lparr>ts_data := data\<rparr>]\<rparr>)
                    in (OpOk, if ac_events a
                              then a2\<lparr>ac_out := emit_text_index (ac_out a2) text_id nid data\<rparr>
                              else a2))"

definition op_set_text :: "apply_ctx \<Rightarrow> bytes \<Rightarrow> u32 \<Rightarrow> op_result" where
  "op_set_text a p plen =
     (if plen < 20 then (OpErr SCENE_ERR_PROTOCOL, a)
      else
        let nid = scene_get_u32 p 8;
            text_id = scene_get_u32 p 12;
            slen = scene_get_u32 p 16
        in if plen \<noteq> 20 + slen then (OpErr SCENE_ERR_PROTOCOL, a)
           else text_set a nid text_id p 20 slen)"

definition op_set_rect :: "apply_ctx \<Rightarrow> bytes \<Rightarrow> u32 \<Rightarrow> op_result" where
  "op_set_rect a p plen =
     (if plen \<noteq> 28 then (OpErr SCENE_ERR_PROTOCOL, a)
      else case target a (scene_get_u32 p 8) of
        None \<Rightarrow> (OpErr SCENE_ERR_BAD_NODE, a)
      | Some slot \<Rightarrow> (OpOk, put_cell a slot ((ac_cell a slot)\<lparr>nd_rect := get_rect p 12\<rparr>)))"

definition op_set_flags :: "apply_ctx \<Rightarrow> bytes \<Rightarrow> u32 \<Rightarrow> op_result" where
  "op_set_flags a p plen =
     (if plen \<noteq> 13 then (OpErr SCENE_ERR_PROTOCOL, a)
      else case target a (scene_get_u32 p 8) of
        None \<Rightarrow> (OpErr SCENE_ERR_BAD_NODE, a)
      | Some slot \<Rightarrow> (OpOk, put_cell a slot ((ac_cell a slot)\<lparr>nd_flags := rd p 12\<rparr>)))"

definition op_set_style :: "apply_ctx \<Rightarrow> bytes \<Rightarrow> u32 \<Rightarrow> op_result" where
  "op_set_style a p plen =
     (if plen \<noteq> 16 then (OpErr SCENE_ERR_PROTOCOL, a)
      else case target a (scene_get_u32 p 8) of
        None \<Rightarrow> (OpErr SCENE_ERR_BAD_NODE, a)
      | Some slot \<Rightarrow>
          let st = scene_get_u32 p 12
          in if st \<ge> ac_style_count a then (OpErr SCENE_ERR_BAD_NODE, a)
             else (OpOk, put_cell a slot ((ac_cell a slot)\<lparr>nd_style := st\<rparr>)))"

definition op_set_effect :: "apply_ctx \<Rightarrow> bytes \<Rightarrow> u32 \<Rightarrow> op_result" where
  "op_set_effect a p plen =
     (if plen \<noteq> 16 then (OpErr SCENE_ERR_PROTOCOL, a)
      else case target a (scene_get_u32 p 8) of
        None \<Rightarrow> (OpErr SCENE_ERR_BAD_NODE, a)
      | Some slot \<Rightarrow>
          let ef = scene_get_u32 p 12
          in if ef \<ge> ac_effect_count a then (OpErr SCENE_ERR_BAD_NODE, a)
             else (OpOk, put_cell a slot ((ac_cell a slot)\<lparr>nd_effect := ef\<rparr>)))"

definition op_set_texture :: "apply_ctx \<Rightarrow> bytes \<Rightarrow> u32 \<Rightarrow> op_result" where
  "op_set_texture a p plen =
     (if plen \<noteq> 34 then (OpErr SCENE_ERR_PROTOCOL, a)
      else case target a (scene_get_u32 p 8) of
        None \<Rightarrow> (OpErr SCENE_ERR_BAD_NODE, a)
      | Some slot \<Rightarrow>
          let tex = scene_get_u32 p 12
          in if \<not> list_ex (\<lambda>t. te_ref t = tex) (sc_tex (ac_scene a))
             then (OpErr SCENE_ERR_PROTOCOL, a)
             else (OpOk, put_cell a slot ((ac_cell a slot)
                     \<lparr>nd_tex := tex, nd_tex_src := get_rect p 16,
                      nd_blend := rd p 32, nd_opacity := rd p 33\<rparr>)))"

subsection \<open>Focus\<close>

definition set_focus :: "apply_ctx \<Rightarrow> u32 \<Rightarrow> apply_ctx" where
  "set_focus a nid =
     (let f = sc_focus (ac_scene a);
          a1 = (if ac_events a \<and> f \<noteq> SCENE_NO_PARENT
                then a\<lparr>ac_out := emit_focus_evt (ac_out a) (ac_scene_seq a) f 0\<rparr> else a);
          a2 = a1\<lparr>ac_scene := (ac_scene a1)\<lparr>sc_focus := nid\<rparr>\<rparr>
      in if ac_events a
         then a2\<lparr>ac_out := emit_focus_evt (ac_out a2) (ac_scene_seq a2) nid 1\<rparr> else a2)"

definition op_focus :: "apply_ctx \<Rightarrow> bytes \<Rightarrow> u32 \<Rightarrow> op_result" where
  "op_focus a p plen =
     (if plen \<noteq> 12 then (OpErr SCENE_ERR_PROTOCOL, a)
      else
        let nid = scene_get_u32 p 8
        in case target a nid of
             None \<Rightarrow> (OpErr SCENE_ERR_BAD_NODE, a)
           | Some slot \<Rightarrow>
               if sc_focus (ac_scene a) = nid then (OpOk, a) else (OpOk, set_focus a nid))"

definition fnext_cb :: "cells \<Rightarrow> nat \<Rightarrow> nat \<Rightarrow> u32 list \<Rightarrow> u32 list" where
  "fnext_cb h cap slot ids =
     (let nd = h slot
      in if nd_flags nd AND SCENE_FLAG_VISIBLE \<noteq> 0 \<and>
            nd_flags nd AND SCENE_FLAG_FOCUSABLE \<noteq> 0 \<and> \<not> nd_stale nd
         then (if length ids < cap then ids @ [nd_id nd] else ids) else ids)"

definition focusables :: "arena \<Rightarrow> u32 list" where
  "focusables ar =
     (let cap = (if ar_count ar \<noteq> 0 then ar_count ar else 1)
      in arena_walk ar (fnext_cb (ar_nodes ar) cap) (\<lambda>_ ids. ids) [])"

fun index_of :: "u32 list \<Rightarrow> u32 \<Rightarrow> nat option" where
  "index_of [] x = None"
| "index_of (y # ys) x = (if y = x then Some 0 else map_option Suc (index_of ys x))"

definition op_focus_next :: "apply_ctx \<Rightarrow> bytes \<Rightarrow> u32 \<Rightarrow> op_result" where
  "op_focus_next a p plen =
     (if plen \<noteq> 9 then (OpErr SCENE_ERR_PROTOCOL, a)
      else
        let step = sint (rd p 8)
        in if step = 0 then (OpErr SCENE_ERR_PROTOCOL, a)
           else
             let ids = focusables (ac_arena a);
                 n = length ids
             in if n = 0 then (OpOk, a)
                else
                  let cur = sc_focus (ac_scene a);
                      ni = (if step > 0
                            then (case index_of ids cur of Some i \<Rightarrow> (i + 1) mod n | None \<Rightarrow> 0)
                            else (case index_of ids cur of Some i \<Rightarrow> (i + n - 1) mod n
                                                         | None \<Rightarrow> n - 1));
                      tgt = ids ! ni
                  in if tgt = cur then (OpOk, a) else (OpOk, set_focus a tgt))"

subsection \<open>Dispatch\<close>

definition op_is_scene_affecting :: "u16 \<Rightarrow> bool" where
  "op_is_scene_affecting opc \<longleftrightarrow>
     opc \<in> {SCENE_OP_CREATE_NODE, SCENE_OP_DESTROY_NODE, SCENE_OP_SET_TEXT,
            SCENE_OP_SET_VALUE, SCENE_OP_SET_RECT, SCENE_OP_SET_FLAGS, SCENE_OP_SET_STYLE,
            SCENE_OP_SET_TEXTURE, SCENE_OP_SET_EFFECT, SCENE_OP_FOCUS, SCENE_OP_FOCUS_NEXT}"

definition apply_op :: "apply_ctx \<Rightarrow> u16 \<Rightarrow> bytes \<Rightarrow> u32 \<Rightarrow> op_result" where
  "apply_op a opcode p plen =
     (if opcode = SCENE_OP_CREATE_NODE then op_create a p plen
      else if opcode = SCENE_OP_DESTROY_NODE then op_destroy a p plen
      else if opcode = SCENE_OP_SET_TEXT then op_set_text a p plen
      else if opcode = SCENE_OP_SET_VALUE then op_set_text a p plen
      else if opcode = SCENE_OP_SET_RECT then op_set_rect a p plen
      else if opcode = SCENE_OP_SET_FLAGS then op_set_flags a p plen
      else if opcode = SCENE_OP_SET_STYLE then op_set_style a p plen
      else if opcode = SCENE_OP_SET_TEXTURE then op_set_texture a p plen
      else if opcode = SCENE_OP_SET_EFFECT then op_set_effect a p plen
      else if opcode = SCENE_OP_FOCUS then op_focus a p plen
      else if opcode = SCENE_OP_FOCUS_NEXT then op_focus_next a p plen
      else (OpErr SCENE_ERR_PROTOCOL, a))"

subsection \<open>Contexts of a store\<close>

text \<open>The contexts the callers build: on the live scene and on the replay scene.\<close>

definition live_ctx :: "scene_store \<Rightarrow> bool \<Rightarrow> apply_ctx" where
  "live_ctx s events =
     \<lparr>ac_lim = st_lim s, ac_style_count = st_style_count s, ac_effect_count = st_effect_count s,
      ac_scene_seq = st_scene_seq s, ac_out = st_out s, ac_scene = st_live s,
      ac_events = events, ac_replay = False\<rparr>"

definition live_back :: "scene_store \<Rightarrow> apply_ctx \<Rightarrow> scene_store" where
  "live_back s a = s\<lparr>st_live := ac_scene a, st_out := ac_out a\<rparr>"

definition replay_ctx :: "scene_store \<Rightarrow> apply_ctx" where
  "replay_ctx s =
     \<lparr>ac_lim = st_lim s, ac_style_count = st_style_count s, ac_effect_count = st_effect_count s,
      ac_scene_seq = st_scene_seq s, ac_out = st_out s, ac_scene = st_replay s,
      ac_events = False, ac_replay = True\<rparr>"

definition replay_back :: "scene_store \<Rightarrow> apply_ctx \<Rightarrow> scene_store" where
  "replay_back s a =
     s\<lparr>st_replay := ac_scene a, st_out := ac_out a, st_rnodes := ar_cap (ac_arena a) \<noteq> 0\<rparr>"

end
