(* ===== verification/Replay.thy ===== *)
theory Replay
  imports Snapshot Ops
begin

text \<open>
  Replay of the operation log (\<open>replay_teardown\<close>, \<open>replay_apply_log\<close>, \<open>replay_build\<close> of
  \<open>src/scene_store.c\<close>) and the internal transitions into and out of replay
  (\<open>scene_store_begin_replay\<close>, \<open>scene_store_end_replay\<close>, \<open>scene_store_seek_to\<close>).

  The log is read as the list of its bytes; offsets into it do not reach \<open>2^31\<close>. A result
  is a pair of success and store: on a failure the store is the one at the early return.
\<close>

definition replay_teardown :: "scene_store \<Rightarrow> scene_store" where
  "replay_teardown s =
     s\<lparr>st_replay := (st_replay s)\<lparr>sc_arena := no_arena (st_heap s),
                                 sc_idm := idmap_free (sc_idm (st_replay s)), sc_tex := []\<rparr>,
       st_rnodes := False\<rparr>"

text \<open>Records with \<open>base < seq \<le> target\<close> are applied to the replay scene.\<close>

function replay_loop :: "bytes \<Rightarrow> u64 \<Rightarrow> u64 \<Rightarrow> scene_store \<Rightarrow> bool \<times> scene_store" where
  "replay_loop log base tgt s =
     (if length log < 6 then (True, s)
      else
        let opc = scene_get_u16 log 0;
            plen = scene_get_u32 log 2
        in if 6 + unat plen > length log then (False, s)
           else
             let pay = drop 6 log;
                 rest = drop (6 + unat plen) log
             in if plen < 8 \<or> \<not> op_is_scene_affecting opc then replay_loop rest base tgt s
                else
                  let seq = scene_get_u64 pay 0
                  in if seq \<le> base \<or> seq > tgt then replay_loop rest base tgt s
                     else
                       case apply_op (replay_ctx s) opc pay plen of
                         (OpErr _, a) \<Rightarrow> (False, replay_back s a)
                       | (OpOk, a) \<Rightarrow>
                           replay_loop rest base tgt ((replay_back s a)\<lparr>st_replay_seq := seq\<rparr>))"
  by pat_completeness auto

termination
  by (relation "measure (\<lambda>(log, _, _, _). length log)") auto

declare replay_loop.simps [simp del]

definition replay_apply_log :: "scene_store \<Rightarrow> u64 \<Rightarrow> u64 \<Rightarrow> bool \<times> scene_store" where
  "replay_apply_log s base tgt = replay_loop (st_log s) base tgt s"

text \<open>The last checkpoint not beyond the target, looked for from the end.\<close>

fun ckpt_pick :: "ckpt_ent list \<Rightarrow> u64 \<Rightarrow> nat \<Rightarrow> nat" where
  "ckpt_pick cks tgt 0 = 0"
| "ckpt_pick cks tgt (Suc i) =
     (if ck_seq (cks ! i) > tgt then ckpt_pick cks tgt i else Suc i)"

definition replay_build :: "scene_store \<Rightarrow> u64 \<Rightarrow> bool \<times> scene_store" where
  "replay_build s0 tgt =
     (let s1 = replay_teardown s0;
          s = s1\<lparr>st_replay := (st_replay s1)\<lparr>sc_idm := idmap_init\<rparr>\<rparr>;
          cki = ckpt_pick (st_ckpts s) tgt (length (st_ckpts s))
      in if cki > 0 then
           let ck = ck_dump (st_ckpts s ! (cki - 1))
           in case snapshot_restore (st_lim s) (st_heap s) ck (of_nat (length ck)) of
                None \<Rightarrow> (False, s)
              | Some (ar, idm, rseq, tex) \<Rightarrow>
                  replay_apply_log
                    (s\<lparr>st_replay := (st_replay s)\<lparr>sc_arena := ar, sc_idm := idm, sc_tex := tex\<rparr>,
                       st_rnodes := ar_cap ar \<noteq> 0, st_replay_seq := rseq\<rparr>) rseq tgt
         else
           replay_apply_log
             (s\<lparr>st_replay := (st_replay s)\<lparr>sc_arena := new_arena (st_heap s)\<rparr>,
                st_rnodes := True, st_replay_seq := 0\<rparr>) 0 tgt)"

subsection \<open>Mode transitions of internal consumers\<close>

definition scene_store_begin_replay :: "scene_store \<Rightarrow> int \<times> scene_store" where
  "scene_store_begin_replay s =
     (if st_dead s then (-1, s)
      else if st_mode s = SCENE_MODE_REPLAY then (-1, s)
      else case replay_build (s\<lparr>st_mode := SCENE_MODE_REPLAY\<rparr>) 0 of
             (False, s') \<Rightarrow> (-1, s'\<lparr>st_mode := SCENE_MODE_LIVE\<rparr>)
           | (True, s') \<Rightarrow> (0, s'))"

definition scene_store_end_replay :: "scene_store \<Rightarrow> int \<times> scene_store" where
  "scene_store_end_replay s =
     (if st_dead s then (-1, s)
      else if st_mode s \<noteq> SCENE_MODE_REPLAY then (-1, s)
      else (0, (replay_teardown s)\<lparr>st_mode := SCENE_MODE_LIVE\<rparr>))"

definition scene_store_seek_to :: "scene_store \<Rightarrow> u64 \<Rightarrow> int \<times> scene_store" where
  "scene_store_seek_to s tgt0 =
     (if st_dead s then (-1, s)
      else if st_mode s \<noteq> SCENE_MODE_REPLAY then (-1, s)
      else
        let tgt1 = (if tgt0 < 1 then 1 else tgt0);
            tgt = (if tgt1 > st_next_seq s - 1 then st_next_seq s - 1 else tgt1)
        in case replay_build s tgt of
             (False, s') \<Rightarrow> (-1, s')
           | (True, s') \<Rightarrow> (0, s'))"

end
