(* ===== verification/Requests.thy ===== *)
theory Requests
  imports Replay
begin

text \<open>
  What a session answers and what the host reads: the SNAPSHOT, CAPTURE and SEARCH replies,
  region resolution (\<open>scene_store_region_at\<close>), the host search (\<open>scene_store_search\<close>) and
  the read views (\<open>scene_store_walk\<close>, \<open>node_vis\<close>, \<open>node_texts\<close>, \<open>node_child_count\<close>), all of
  \<open>src/scene_store.c\<close>.
\<close>

subsection \<open>Which scene is read\<close>

definition req_arena :: "scene_store \<Rightarrow> arena \<times> u64 \<times> tex_ent list" where
  "req_arena s =
     (if st_mode s = SCENE_MODE_REPLAY \<and> st_rnodes s
      then (sc_arena (st_replay s), st_replay_seq s, sc_tex (st_replay s))
      else (sc_arena (st_live s), st_scene_seq s, sc_tex (st_live s)))"

definition view_arena :: "scene_store \<Rightarrow> arena \<times> idmap" where
  "view_arena s =
     (if st_mode s = SCENE_MODE_REPLAY \<and> st_rnodes s
      then (sc_arena (st_replay s), sc_idm (st_replay s))
      else (sc_arena (st_live s), sc_idm (st_live s)))"

definition scene_store_view_seq :: "scene_store \<Rightarrow> u64" where
  "scene_store_view_seq s =
     (if st_mode s = SCENE_MODE_REPLAY \<and> st_rnodes s then st_replay_seq s else st_scene_seq s)"

definition scene_store_in_replay :: "scene_store \<Rightarrow> bool" where
  "scene_store_in_replay s \<longleftrightarrow> st_mode s = SCENE_MODE_REPLAY \<and> st_rnodes s"

subsection \<open>Snapshot and capture\<close>

definition emit_snapshot_reply :: "scene_store \<Rightarrow> u32 \<Rightarrow> scene_store option" where
  "emit_snapshot_reply s req_id =
     (let (ar, seq, texes) = req_arena s
      in case snapshot_serialize ar seq texes of
           None \<Rightarrow> None
         | Some d \<Rightarrow> Some (store_emit s SCENE_SRV_SNAPSHOT (scene_put_u32 req_id @ d)))"

definition emit_capture_reply :: "scene_store \<Rightarrow> u32 \<Rightarrow> scene_store option" where
  "emit_capture_reply s req_id =
     (let (ar, seq, texes) = req_arena s
      in case snapshot_serialize ar seq texes of
           None \<Rightarrow> None
         | Some d \<Rightarrow> Some (store_emit s SCENE_SRV_CAPTURE
                             (scene_put_u32 req_id @ scene_put_u64 seq @ d)))"

subsection \<open>Search\<close>

definition ascii_lower :: "u8 \<Rightarrow> u8" where
  "ascii_lower a = (if 65 \<le> a \<and> a \<le> 90 then a + 32 else a)"

definition ascii_ci_find :: "bytes \<Rightarrow> nat \<Rightarrow> bytes \<Rightarrow> nat \<Rightarrow> bool" where
  "ascii_ci_find h hlen n nlen =
     (if nlen = 0 then True
      else if nlen > hlen then False
      else list_ex (\<lambda>i. list_all (\<lambda>j. ascii_lower (rd h (i + j)) = ascii_lower (rd n j)) [0..<nlen])
             [0..<hlen - nlen + 1])"

text \<open>The text slots of a node that a term matches, in order.\<close>

definition text_hits :: "node \<Rightarrow> bytes \<Rightarrow> nat \<Rightarrow> text_slot list" where
  "text_hits nd term term_len =
     filter (\<lambda>t. \<not> length (ts_data t) < term_len \<and>
                 ascii_ci_find (ts_data t) (length (ts_data t)) term term_len) (nd_texts nd)"

definition search_hit :: "node \<Rightarrow> text_slot \<Rightarrow> bytes" where
  "search_hit nd t =
     scene_put_u32 (nd_id nd) @ scene_put_i32 (rx (nd_rect nd)) @ scene_put_i32 (ry (nd_rect nd)) @
     scene_put_i32 (rw (nd_rect nd)) @ scene_put_i32 (rh (nd_rect nd)) @
     scene_put_u16 (nd_role nd) @ scene_put_u32 (ts_id t)"

definition search_step :: "cells \<Rightarrow> bytes \<Rightarrow> nat \<Rightarrow> nat \<Rightarrow> bytes \<times> nat \<Rightarrow> bytes \<times> nat" where
  "search_step h term term_len c = (\<lambda>(body, hits).
     let nd = h c
     in if nd_flags nd AND SCENE_FLAG_VISIBLE = 0 then (body, hits)
        else foldl (\<lambda>(body, hits) t. (body @ search_hit nd t, hits + 1)) (body, hits)
               (text_hits nd term term_len))"

definition emit_search_reply :: "scene_store \<Rightarrow> u32 \<Rightarrow> bytes \<Rightarrow> u32 \<Rightarrow> scene_store" where
  "emit_search_reply s req_id term term_len =
     (let (ar, _, _) = req_arena s;
          (body, hits) = arena_walk ar (search_step (ar_nodes ar) term (unat term_len))
                           (\<lambda>_ x. x) ([], 0)
      in store_emit s SCENE_SRV_SEARCH_RESULT
           (scene_put_u32 req_id @ scene_put_u32 (of_nat hits) @ body))"

text \<open>The host search: the arrays get the first hits that fit, the count is of all.\<close>

definition scene_store_search :: "scene_store \<Rightarrow> bytes \<Rightarrow> u32 \<Rightarrow> nat \<Rightarrow> nat \<Rightarrow>
    nat \<times> u32 list \<times> u32 list \<times> nat" where
  "scene_store_search s term term_len out_cap text_cap =
     (let ar = sc_arena (st_live s);
          (hits, nodes, texts) =
            arena_walk ar
              (\<lambda>c x.
                 let nd = ar_nodes ar c
                 in if nd_flags nd AND SCENE_FLAG_VISIBLE = 0 then x
                    else foldl (\<lambda>(hits, nodes, texts) t.
                           (hits + 1, if hits < out_cap then nodes @ [nd_id nd] else nodes,
                            if hits < text_cap then texts @ [ts_id t] else texts))
                         x (text_hits nd term (unat term_len)))
              (\<lambda>_ x. x) (0, [], [])
      in (hits, nodes, texts, if hits < text_cap then hits else text_cap))"

subsection \<open>Region resolution\<close>

definition in_rect :: "rect \<Rightarrow> i32 \<Rightarrow> i32 \<Rightarrow> bool" where
  "in_rect r x y \<longleftrightarrow>
     sint x \<ge> sint (rx r) \<and> sint y \<ge> sint (ry r) \<and>
     sint x < sint (rx r + rw r) \<and> sint y < sint (ry r + rh r)"

definition region_step :: "cells \<Rightarrow> i32 \<Rightarrow> i32 \<Rightarrow> nat \<Rightarrow> u32 \<times> nat \<Rightarrow> u32 \<times> nat" where
  "region_step h x y c = (\<lambda>(best, best_depth).
     let nd = h c
     in if \<not> nd_stale nd \<and> nd_flags nd AND SCENE_FLAG_VISIBLE \<noteq> 0 \<and> in_rect (nd_rect nd) x y \<and>
           nd_depth nd \<ge> best_depth
        then (nd_id nd, nd_depth nd) else (best, best_depth))"

definition scene_region_at :: "scene \<Rightarrow> i32 \<Rightarrow> i32 \<Rightarrow> u32" where
  "scene_region_at sc x y =
     (if ar_count (sc_arena sc) = 0 then SCENE_NO_PARENT
      else fst (arena_walk (sc_arena sc) (\<lambda>_ b. b)
                  (region_step (ar_nodes (sc_arena sc)) x y) (SCENE_NO_PARENT, 0)))"

definition scene_store_region_at :: "scene_store \<Rightarrow> i32 \<Rightarrow> i32 \<Rightarrow> u32" where
  "scene_store_region_at s x y = scene_region_at (st_live s) x y"

subsection \<open>Read views\<close>

text \<open>The callback takes an id and its own state and says whether to stop.\<close>

definition scene_store_walk :: "scene_store \<Rightarrow> (u32 \<Rightarrow> 'o \<Rightarrow> bool \<times> 'o) \<Rightarrow> 'o \<Rightarrow> 'o" where
  "scene_store_walk s cb out =
     (let (ar, _) = view_arena s
      in snd (arena_walk ar
                (\<lambda>c (stop, o1). if stop then (stop, o1) else cb (nd_id (ar_nodes ar c)) o1)
                (\<lambda>_ x. x) (False, out)))"

record scene_node_vis =
  nv_id :: u32
  nv_parent :: u32
  nv_role :: u16
  nv_flags :: u8
  nv_stale :: bool
  nv_rect :: rect
  nv_tex_src :: rect
  nv_style :: u32
  nv_effect :: u32
  nv_tex :: u32
  nv_blend :: u8
  nv_opacity :: u8
  nv_text_count :: nat

definition scene_store_node_vis :: "scene_store \<Rightarrow> u32 \<Rightarrow> scene_node_vis option" where
  "scene_store_node_vis s nid =
     (let (ar, im) = view_arena s;
          slot = idmap_get im nid
      in if slot = 0 then None
         else
           let n = ar_nodes ar slot
           in Some \<lparr>nv_id = nid,
                    nv_parent = (if nd_parent n \<noteq> 0 then nd_id (ar_nodes ar (nd_parent n))
                                 else SCENE_NO_PARENT),
                    nv_role = nd_role n, nv_flags = nd_flags n, nv_stale = nd_stale n,
                    nv_rect = nd_rect n, nv_tex_src = nd_tex_src n, nv_style = nd_style n,
                    nv_effect = nd_effect n, nv_tex = nd_tex n, nv_blend = nd_blend n,
                    nv_opacity = nd_opacity n, nv_text_count = length (nd_texts n)\<rparr>)"

text \<open>The count of the texts, and as many of them as fit.\<close>

definition scene_store_node_texts :: "scene_store \<Rightarrow> u32 \<Rightarrow> nat \<Rightarrow> (nat \<times> text_slot list) option" where
  "scene_store_node_texts s nid cap =
     (let (ar, im) = view_arena s;
          slot = idmap_get im nid
      in if slot = 0 then None
         else
           let n = ar_nodes ar slot;
               fill = (if length (nd_texts n) < cap then length (nd_texts n) else cap)
           in Some (length (nd_texts n), map (\<lambda>i. nd_texts n ! i) [0..<fill]))"

text \<open>\<open>while (c) { cnt++; c = ar[c].next_sib; }\<close>\<close>

fun sib_count :: "cells \<Rightarrow> nat \<Rightarrow> nat \<Rightarrow> nat \<Rightarrow> nat" where
  "sib_count h 0 c cnt = cnt"
| "sib_count h (Suc fuel) c cnt =
     (if c \<noteq> 0 then sib_count h fuel (nd_next (h c)) (cnt + 1) else cnt)"

definition scene_store_node_child_count :: "scene_store \<Rightarrow> u32 \<Rightarrow> nat" where
  "scene_store_node_child_count s nid =
     (let (ar, im) = view_arena s;
          slot = idmap_get im nid
      in if slot = 0 then 0
         else sib_count (ar_nodes ar) (ar_cap ar) (nd_first (ar_nodes ar slot)) 0)"

end
