(* ===== verification/Macros.thy ===== *)
theory Macros
  imports Requests
begin

text \<open>
  Macros of \<open>src/scene_store.c\<close>: recording of the mutations a session makes while a macro is
  open, with the id and rectangle of the node each addresses (\<open>macro_capture\<close>), their
  execution with re-resolution of targets that no longer exist (\<open>macro_resolve\<close>,
  \<open>macro_exec\<close>), and the transfer of a macro to another session
  (\<open>scene_store_import_macro\<close>).
\<close>

fun macro_find :: "macro_rec list \<Rightarrow> u32 \<Rightarrow> nat option" where
  "macro_find [] mid = None"
| "macro_find (m # ms) mid =
     (if mr_id m = mid then Some 0 else map_option Suc (macro_find ms mid))"

definition macro_op_free :: "macro_op \<Rightarrow> macro_op" where
  "macro_op_free m = m\<lparr>mo_payload := []\<rparr>"

definition macro_rec_free :: "macro_rec \<Rightarrow> macro_rec" where
  "macro_rec_free m = m\<lparr>mr_ops := []\<rparr>"

subsection \<open>Capture\<close>

text \<open>The target a record is captured with, \<open>None\<close> when it is not captured.\<close>

definition capture_target :: "scene_store \<Rightarrow> u16 \<Rightarrow> bytes \<Rightarrow> u32 \<Rightarrow> (u32 \<times> rect) option" where
  "capture_target s opcode payload plen =
     (if opcode = SCENE_OP_CREATE_NODE then
        (if plen < 18 then None
         else Some (scene_get_u32 payload 12, get_rect payload 18))
      else if plen < 12 then None
      else
        let nid = scene_get_u32 payload 8;
            slot = idmap_get (sc_idm (st_live s)) nid
        in if slot = 0 then None else Some (nid, nd_rect (cell (st_live s) slot)))"

definition macro_capture :: "scene_store \<Rightarrow> nat \<Rightarrow> u16 \<Rightarrow> bytes \<Rightarrow> u32 \<Rightarrow> scene_store" where
  "macro_capture s idx opcode payload plen =
     (case capture_target s opcode payload plen of
        None \<Rightarrow> s
      | Some (nid, r) \<Rightarrow>
          let mr = st_macros s ! idx;
              mo = \<lparr>mo_opcode = opcode, mo_payload = slice payload 0 (unat plen),
                    mo_id = nid, mo_rect = r\<rparr>
          in s\<lparr>st_macros := (st_macros s)[idx := mr\<lparr>mr_ops := mr_ops mr @ [mo]\<rparr>]\<rparr>)"

subsection \<open>Execution\<close>

text \<open>C division of an \<open>int32_t\<close> by 2 rounds towards 0.\<close>

definition half_i32 :: "i32 \<Rightarrow> i32" where
  "half_i32 x = word_of_int (sgn (sint x) * (\<bar>sint x\<bar> div 2))"

text \<open>The payload to apply, with the target re-resolved, or \<open>None\<close> to skip the operation.\<close>

definition macro_resolve :: "scene \<Rightarrow> macro_op \<Rightarrow> bytes option" where
  "macro_resolve sc mo =
     (let p = mo_payload mo
      in if mo_opcode mo = SCENE_OP_CREATE_NODE then
           (if idmap_get (sc_idm sc) (scene_get_u32 p 12) \<noteq> 0 then None else Some p)
         else if idmap_get (sc_idm sc) (scene_get_u32 p 8) \<noteq> 0 then Some p
         else
           let r = mo_rect mo;
               cx = rx r + half_i32 (rw r);
               cy = ry r + half_i32 (rh r);
               rid = scene_region_at sc cx cy
           in if rid = SCENE_NO_PARENT then None
              else Some (wr p 8 (scene_put_u32 rid)))"

text \<open>The operations in order; the result is 0 or the error code of the one that failed.\<close>

fun macro_run :: "macro_op list \<Rightarrow> apply_ctx \<Rightarrow> int \<times> apply_ctx" where
  "macro_run [] a = (0, a)"
| "macro_run (mo # ops) a =
     (case macro_resolve (ac_scene a) mo of
        None \<Rightarrow> macro_run ops a
      | Some p \<Rightarrow>
          (case apply_op a (mo_opcode mo) p (of_nat (length p)) of
             (OpErr fe, a') \<Rightarrow> (uint fe, a')
           | (OpOk, a') \<Rightarrow> macro_run ops a'))"

definition macro_exec :: "scene_store \<Rightarrow> u32 \<Rightarrow> int \<times> scene_store" where
  "macro_exec s macro_id =
     (case macro_find (st_macros s) macro_id of
        None \<Rightarrow> (1, s)
      | Some i \<Rightarrow>
          let (r, a) = macro_run (mr_ops (st_macros s ! i)) (live_ctx s True)
          in (r, live_back s a))"

subsection \<open>Import\<close>

definition scene_store_import_macro ::
    "scene_store \<Rightarrow> scene_store \<Rightarrow> u32 \<Rightarrow> u32 \<Rightarrow> int \<times> scene_store" where
  "scene_store_import_macro dst src from_id to_id =
     (if st_open_macro dst \<noteq> None then (-1, dst)
      else case macro_find (st_macros src) from_id of
        None \<Rightarrow> (-1, dst)
      | Some i \<Rightarrow>
          if macro_find (st_macros dst) to_id \<noteq> None then (-1, dst)
          else (0, dst\<lparr>st_macros := st_macros dst @
                   [\<lparr>mr_id = to_id, mr_ops = mr_ops (st_macros src ! i)\<rparr>]\<rparr>))"

end
