(* ===== verification/Ingest.thy ===== *)
theory Ingest
  imports Macros
begin

text \<open>
  The record dispatcher \<open>scene_store_ingest\<close> of \<open>src/scene_store.c\<close>, one definition per
  case of its switch, and what the host does to a session beside it: the window-manager
  operations (\<open>host_mutate\<close> and the functions on it) and the delivery of input.

  A result is the return code and the store. \<open>now\<close> is the clock reading.
\<close>

type_synonym result = "int \<times> scene_store"

abbreviation fatal :: "scene_store \<Rightarrow> u16 \<Rightarrow> string \<Rightarrow> result" where
  "fatal s code msg \<equiv> fatal_error s code msg"

text \<open>\<open>if (log_append(...) != 0) return fatal_error(...)\<close>, then the rest of the case.\<close>

definition logged :: "scene_store \<Rightarrow> u16 \<Rightarrow> bytes \<Rightarrow> u32 \<Rightarrow> (scene_store \<Rightarrow> result) \<Rightarrow> result" where
  "logged s opcode payload plen k =
     (case log_append s opcode payload plen of
        (False, s') \<Rightarrow> fatal s' SCENE_ERR_LIMIT ''log''
      | (True, s') \<Rightarrow> k s')"

abbreviation ok :: "scene_store \<Rightarrow> result" where "ok s \<equiv> (0, s)"

subsection \<open>The cases of the dispatcher\<close>

definition ingest_ack :: "scene_store \<Rightarrow> bytes \<Rightarrow> u32 \<Rightarrow> result" where
  "ingest_ack s payload plen =
     (if plen \<noteq> 16 then fatal s SCENE_ERR_PROTOCOL ''ack len''
      else
        let consumed = scene_get_u64 payload 0;
            s1 = (if consumed \<ge> st_last_input_seq s then s\<lparr>st_input_pending := False\<rparr> else s)
        in logged s1 SCENE_OP_ACK payload plen ok)"

definition ingest_mutation :: "scene_store \<Rightarrow> u64 \<Rightarrow> u16 \<Rightarrow> bytes \<Rightarrow> u32 \<Rightarrow> result" where
  "ingest_mutation s seq opcode payload plen =
     (if st_mode s = SCENE_MODE_REPLAY then fatal s SCENE_ERR_STATE ''mutation in replay''
      else case apply_op (live_ctx s True) opcode payload plen of
        (OpErr fe, a) \<Rightarrow> fatal (live_back s a) fe ''op rejected''
      | (OpOk, a) \<Rightarrow>
          let s1 = live_back s a;
              s2 = (case st_open_macro s1 of
                      None \<Rightarrow> s1
                    | Some idx \<Rightarrow> macro_capture s1 idx opcode payload plen)
          in logged (s2\<lparr>st_scene_seq := seq\<rparr>) opcode payload plen ok)"

definition ingest_present :: "scene_store \<Rightarrow> u64 \<Rightarrow> bytes \<Rightarrow> u32 \<Rightarrow> result" where
  "ingest_present s now payload plen =
     (if st_mode s = SCENE_MODE_REPLAY then fatal s SCENE_ERR_STATE ''present in replay''
      else if plen \<noteq> 16 then fatal s SCENE_ERR_PROTOCOL ''present len''
      else
        let token = scene_get_u64 payload 8;
            s1 = s\<lparr>st_present_seq := st_scene_seq s, st_last_token := token\<rparr>;
            lat = (if st_last_input_us s1 \<noteq> 0 then now - st_last_input_us s1 else 0);
            s2 = (if lat > input_latency_budget_us (st_lim s1)
                  then s1\<lparr>st_budget_violations := st_budget_violations s1 + 1\<rparr> else s1);
            s3 = (if lat > st_budget_max_us s2 then s2\<lparr>st_budget_max_us := lat\<rparr> else s2)
        in logged
             (store_emit s3 SCENE_SRV_PRESENT_DONE
                (scene_put_u64 (st_present_seq s3) @ scene_put_u64 token @ scene_put_u64 lat))
             SCENE_OP_PRESENT payload plen ok)"

definition ingest_import_texture :: "scene_store \<Rightarrow> bytes \<Rightarrow> u32 \<Rightarrow> result" where
  "ingest_import_texture s payload plen =
     (if plen < 16 then fatal s SCENE_ERR_PROTOCOL ''imp len''
      else
        let tlen = scene_get_u32 payload 12
        in if plen \<noteq> 16 + tlen then fatal s SCENE_ERR_PROTOCOL ''imp path'' else ok s)"

definition ingest_snapshot :: "scene_store \<Rightarrow> bytes \<Rightarrow> u32 \<Rightarrow> result" where
  "ingest_snapshot s payload plen =
     (if plen \<noteq> 12 then fatal s SCENE_ERR_PROTOCOL ''snap len''
      else
        let req_id = scene_get_u32 payload 8
        in logged s SCENE_OP_SNAPSHOT payload plen (\<lambda>s1.
             case emit_snapshot_reply s1 req_id of
               None \<Rightarrow> fatal s1 SCENE_ERR_LIMIT ''snap emit''
             | Some s2 \<Rightarrow> ok s2))"

definition ingest_capture :: "scene_store \<Rightarrow> bytes \<Rightarrow> u32 \<Rightarrow> result" where
  "ingest_capture s payload plen =
     (if plen \<noteq> 12 then fatal s SCENE_ERR_PROTOCOL ''cap len''
      else
        let req_id = scene_get_u32 payload 8
        in logged s SCENE_OP_CAPTURE payload plen (\<lambda>s1.
             case emit_capture_reply s1 req_id of
               None \<Rightarrow> fatal s1 SCENE_ERR_LIMIT ''cap emit''
             | Some s2 \<Rightarrow> ok s2))"

text \<open>A payload of 12 to 15 bytes passes the length test, and the term length is then read
  past its end.\<close>

definition ingest_search :: "scene_store \<Rightarrow> bytes \<Rightarrow> u32 \<Rightarrow> result" where
  "ingest_search s payload plen =
     (if plen < 12 then fatal s SCENE_ERR_PROTOCOL ''search len''
      else
        let req_id = scene_get_u32 payload 8;
            tlen = scene_get_u32 payload 12
        in if plen \<noteq> 16 + tlen then fatal s SCENE_ERR_PROTOCOL ''search term''
           else logged s SCENE_OP_SEARCH payload plen (\<lambda>s1.
                  ok (emit_search_reply s1 req_id (drop 16 payload) tlen)))"

definition ingest_ping :: "scene_store \<Rightarrow> bytes \<Rightarrow> u32 \<Rightarrow> result" where
  "ingest_ping s payload plen =
     (if plen \<noteq> 16 then fatal s SCENE_ERR_PROTOCOL ''ping len''
      else
        let nonce = scene_get_u64 payload 8
        in logged s SCENE_OP_PING payload plen (\<lambda>s1. ok (emit_pong s1 nonce)))"

definition ingest_macro_begin :: "scene_store \<Rightarrow> bytes \<Rightarrow> u32 \<Rightarrow> result" where
  "ingest_macro_begin s payload plen =
     (if plen \<noteq> 12 then fatal s SCENE_ERR_PROTOCOL ''mb len''
      else if st_open_macro s \<noteq> None then fatal s SCENE_ERR_MACRO ''macro already open''
      else
        let mid = scene_get_u32 payload 8
        in if macro_find (st_macros s) mid \<noteq> None then fatal s SCENE_ERR_MACRO ''macro id exists''
           else
             logged (s\<lparr>st_macros := st_macros s @ [\<lparr>mr_id = mid, mr_ops = []\<rparr>],
                       st_open_macro := Some (length (st_macros s))\<rparr>)
               SCENE_OP_MACRO_BEGIN payload plen ok)"

definition ingest_macro_end :: "scene_store \<Rightarrow> bytes \<Rightarrow> u32 \<Rightarrow> result" where
  "ingest_macro_end s payload plen =
     (if plen \<noteq> 12 then fatal s SCENE_ERR_PROTOCOL ''me len''
      else case st_open_macro s of
        None \<Rightarrow> fatal s SCENE_ERR_MACRO ''no open macro''
      | Some idx \<Rightarrow>
          let mid = scene_get_u32 payload 8
          in if mr_id (st_macros s ! idx) \<noteq> mid then fatal s SCENE_ERR_MACRO ''macro id mismatch''
             else logged (s\<lparr>st_open_macro := None\<rparr>) SCENE_OP_MACRO_END payload plen ok)"

definition ingest_exec_macro :: "scene_store \<Rightarrow> u64 \<Rightarrow> bytes \<Rightarrow> u32 \<Rightarrow> result" where
  "ingest_exec_macro s seq payload plen =
     (if plen \<noteq> 12 then fatal s SCENE_ERR_PROTOCOL ''ex len''
      else if st_mode s = SCENE_MODE_REPLAY then fatal s SCENE_ERR_STATE ''exec in replay''
      else
        let mid = scene_get_u32 payload 8
        in logged s SCENE_OP_EXEC_MACRO payload plen (\<lambda>s1.
             let (r, s2) = macro_exec s1 mid
             in if r = 1 then fatal s2 SCENE_ERR_MACRO ''macro not found''
                else if r < 0 then fatal s2 SCENE_ERR_LIMIT ''macro oom''
                else if r > 1 then fatal s2 (word_of_int r) ''macro op rejected''
                else ok (s2\<lparr>st_scene_seq := seq\<rparr>)))"

definition ingest_set_input_mode :: "scene_store \<Rightarrow> bytes \<Rightarrow> u32 \<Rightarrow> result" where
  "ingest_set_input_mode s payload plen =
     (if plen \<noteq> 9 then fatal s SCENE_ERR_PROTOCOL ''mode len''
      else
        let mode = rd payload 8
        in if mode > SCENE_MODE_RECORD then fatal s SCENE_ERR_PROTOCOL ''mode value''
           else logged s SCENE_OP_SET_INPUT_MODE payload plen (\<lambda>s1.
                  ok ((if mode = SCENE_MODE_LIVE then replay_teardown s1 else s1)
                        \<lparr>st_mode := mode\<rparr>)))"

definition ingest_seek :: "scene_store \<Rightarrow> bytes \<Rightarrow> u32 \<Rightarrow> result" where
  "ingest_seek s payload plen =
     (if plen \<noteq> 16 then fatal s SCENE_ERR_PROTOCOL ''seek len''
      else if st_mode s \<noteq> SCENE_MODE_REPLAY \<and> st_mode s \<noteq> SCENE_MODE_RECORD
      then fatal s SCENE_ERR_STATE ''seek in live mode''
      else
        let tgt = scene_get_u64 payload 8
        in if tgt > st_next_seq s - 1 then fatal s SCENE_ERR_SEQ ''seek past end''
           else logged s SCENE_OP_SEEK payload plen (\<lambda>s1.
                  case replay_build s1 tgt of
                    (False, s2) \<Rightarrow> fatal s2 SCENE_ERR_STATE ''replay build failed''
                  | (True, s2) \<Rightarrow> ok s2))"

subsection \<open>The dispatcher\<close>

text \<open>The switch, after the sequence check.\<close>

definition ingest_switch :: "scene_store \<Rightarrow> u64 \<Rightarrow> u64 \<Rightarrow> u16 \<Rightarrow> bytes \<Rightarrow> u32 \<Rightarrow> result" where
  "ingest_switch s now seq opcode payload plen =
     (if op_is_scene_affecting opcode then ingest_mutation s seq opcode payload plen
      else if opcode = SCENE_OP_PRESENT then ingest_present s now payload plen
      else if opcode = SCENE_OP_IMPORT_TEXTURE then ingest_import_texture s payload plen
      else if opcode = SCENE_OP_SNAPSHOT then ingest_snapshot s payload plen
      else if opcode = SCENE_OP_CAPTURE then ingest_capture s payload plen
      else if opcode = SCENE_OP_SEARCH then ingest_search s payload plen
      else if opcode = SCENE_OP_PING then ingest_ping s payload plen
      else if opcode = SCENE_OP_MACRO_BEGIN then ingest_macro_begin s payload plen
      else if opcode = SCENE_OP_MACRO_END then ingest_macro_end s payload plen
      else if opcode = SCENE_OP_EXEC_MACRO then ingest_exec_macro s seq payload plen
      else if opcode = SCENE_OP_SET_INPUT_MODE then ingest_set_input_mode s payload plen
      else if opcode = SCENE_OP_SEEK then ingest_seek s payload plen
      else fatal s SCENE_ERR_PROTOCOL ''unknown opcode'')"

definition scene_store_ingest :: "scene_store \<Rightarrow> u64 \<Rightarrow> u16 \<Rightarrow> bytes \<Rightarrow> u32 \<Rightarrow> result" where
  "scene_store_ingest s now opcode payload plen =
     (if st_dead s then (neg_err SCENE_ERR_STATE, s)
      else if plen > max_record_length (st_lim s)
      then fatal s SCENE_ERR_LIMIT ''record exceeds max_record_length''
      else if opcode = SCENE_OP_ACK then ingest_ack s payload plen
      else if plen < 8 then fatal s SCENE_ERR_PROTOCOL ''no seq''
      else
        let seq = scene_get_u64 payload 0
        in if seq \<noteq> st_next_seq s then fatal s SCENE_ERR_SEQ ''non-monotonic seq''
           else ingest_switch (s\<lparr>st_next_seq := seq + 1\<rparr>) now seq opcode payload plen)"

subsection \<open>Host operations\<close>

definition host_mutate :: "scene_store \<Rightarrow> u16 \<Rightarrow> bytes \<Rightarrow> u32 \<Rightarrow> result" where
  "host_mutate s opcode payload plen =
     (if st_dead s then (-1, s)
      else if st_mode s = SCENE_MODE_REPLAY then (-1, s)
      else case apply_op (live_ctx s False) opcode payload plen of
        (OpErr fe, a) \<Rightarrow> (-1, live_back s a)
      | (OpOk, a) \<Rightarrow> (0, (live_back s a)\<lparr>st_scene_seq := st_scene_seq s + 1\<rparr>))"

definition host_target :: "scene_store \<Rightarrow> u32 \<Rightarrow> nat option" where
  "host_target s nid =
     (if st_dead s \<or> st_mode s = SCENE_MODE_REPLAY then None
      else
        let slot = idmap_get (sc_idm (st_live s)) nid
        in if slot = 0 \<or> nd_stale (cell (st_live s) slot) then None else Some slot)"

definition scene_store_host_focus :: "scene_store \<Rightarrow> u32 \<Rightarrow> result" where
  "scene_store_host_focus s nid =
     (case host_target s nid of
        None \<Rightarrow> (-1, s)
      | Some slot \<Rightarrow>
          if sc_focus (st_live s) = nid then (0, s)
          else host_mutate s SCENE_OP_FOCUS
                 (scene_put_u64 (st_scene_seq s) @ scene_put_u32 nid) 12)"

definition scene_store_host_set_visible :: "scene_store \<Rightarrow> u32 \<Rightarrow> bool \<Rightarrow> result" where
  "scene_store_host_set_visible s nid want =
     (case host_target s nid of
        None \<Rightarrow> (-1, s)
      | Some slot \<Rightarrow>
          let fl = nd_flags (cell (st_live s) slot)
          in if (fl AND SCENE_FLAG_VISIBLE \<noteq> 0) = want then (0, s)
             else host_mutate s SCENE_OP_SET_FLAGS
                    (scene_put_u64 (st_scene_seq s) @ scene_put_u32 nid @
                     [if want then fl OR SCENE_FLAG_VISIBLE else fl AND NOT SCENE_FLAG_VISIBLE]) 13)"

definition scene_store_host_set_rect :: "scene_store \<Rightarrow> u32 \<Rightarrow> rect \<Rightarrow> result" where
  "scene_store_host_set_rect s nid r =
     (case host_target s nid of
        None \<Rightarrow> (-1, s)
      | Some slot \<Rightarrow>
          if nd_rect (cell (st_live s) slot) = r then (0, s)
          else host_mutate s SCENE_OP_SET_RECT
                 (scene_put_u64 (st_scene_seq s) @ scene_put_u32 nid @ put_rect r) 28)"

subsection \<open>Input delivery\<close>

text \<open>The test every delivery starts with: a return code, or \<open>None\<close> to go on.\<close>

definition input_gate :: "scene_store \<Rightarrow> int option" where
  "input_gate s =
     (if st_dead s then Some (neg_err SCENE_ERR_STATE)
      else if st_mode s \<noteq> SCENE_MODE_LIVE then Some (neg_err SCENE_ERR_INPUT_MODE)
      else if st_input_pending s then Some 0
      else None)"

definition input_sent :: "scene_store \<Rightarrow> u64 \<Rightarrow> scene_store" where
  "input_sent s now =
     s\<lparr>st_input_pending := True, st_last_input_seq := st_scene_seq s, st_last_input_us := now\<rparr>"

definition scene_store_input_pointer ::
    "scene_store \<Rightarrow> u64 \<Rightarrow> u8 \<Rightarrow> i32 \<Rightarrow> i32 \<Rightarrow> u8 \<Rightarrow> result" where
  "scene_store_input_pointer s now device x y buttons =
     (case input_gate s of
        Some r \<Rightarrow> (r, s)
      | None \<Rightarrow>
          let s1 = input_sent
                (store_emit s SCENE_SRV_INPUT_POINTER
                   (scene_put_u64 (st_scene_seq s) @ [device] @ scene_put_i32 x @
                    scene_put_i32 y @ [buttons])) now
          in if buttons AND 1 \<noteq> 0 then
               let nid = scene_store_region_at s1 x y
               in if nid \<noteq> SCENE_NO_PARENT
                  then (0, store_emit s1 SCENE_SRV_INPUT_ACTIVATE
                             (scene_put_u64 (st_scene_seq s1) @ scene_put_u32 nid))
                  else (0, s1)
             else (0, s1))"

definition scene_store_input_key :: "scene_store \<Rightarrow> u64 \<Rightarrow> u32 \<Rightarrow> u8 \<Rightarrow> u8 \<Rightarrow> result" where
  "scene_store_input_key s now key_code state modifiers =
     (case input_gate s of
        Some r \<Rightarrow> (r, s)
      | None \<Rightarrow>
          (0, input_sent
                (store_emit s SCENE_SRV_INPUT_KEY
                   (scene_put_u64 (st_scene_seq s) @ scene_put_u32 key_code @
                    [state, modifiers])) now))"

text \<open>\<open>txt\<close> is \<open>None\<close> for a NULL pointer.\<close>

definition scene_store_input_text ::
    "scene_store \<Rightarrow> u64 \<Rightarrow> bytes option \<Rightarrow> u32 \<Rightarrow> result" where
  "scene_store_input_text s now txt len =
     (case input_gate s of
        Some r \<Rightarrow> (r, s)
      | None \<Rightarrow>
          if len \<noteq> 0 \<and> txt = None then (neg_err SCENE_ERR_PROTOCOL, s)
          else if len > max_record_length (st_lim s) - 12 then (neg_err SCENE_ERR_LIMIT, s)
          else
            (0, input_sent
                  (store_emit s SCENE_SRV_INPUT_TEXT
                     (scene_put_u64 (st_scene_seq s) @ scene_put_u32 len @
                      (case txt of None \<Rightarrow> [] | Some cs \<Rightarrow> slice cs 0 (unat len)))) now))"

end
