(* ===== verification/Server.thy ===== *)
theory Server
  imports Ingest
begin

text \<open>
  The server adapter \<open>src/scene_server.c\<close>: reassembly of frames from the bytes of the
  transport, validation, the rejoin of a client after a crash, the hand-over of
  IMPORT_TEXTURE to the importer of the host, and ingest.

  The input buffer is the list of its bytes with the read offset. The importer is code of
  the host: it is a parameter, which takes the store, the texture reference and the path
  and returns its return code with the store it leaves. \<open>clk\<close> gives the clock reading at the
  ingest of the record with a given stream sequence number.
\<close>

record scene_server =
  sv_store :: scene_store
  sv_in :: bytes
  sv_off :: nat
  sv_attached :: bool
  sv_ghosted :: bool
  sv_dead :: bool

type_synonym importer = "scene_store \<Rightarrow> u32 \<Rightarrow> bytes \<Rightarrow> int \<times> scene_store"

definition scene_server_new :: "scene_limits option \<Rightarrow> u64 \<Rightarrow> cells \<Rightarrow> scene_server" where
  "scene_server_new limits now mem =
     \<lparr>sv_store = scene_store_new limits now mem, sv_in = [], sv_off = 0, sv_attached = False,
      sv_ghosted = False, sv_dead = False\<rparr>"

definition scene_server_attach :: "scene_server \<Rightarrow> scene_server" where
  "scene_server_attach sv =
     (if sv_attached sv then sv
      else sv\<lparr>sv_store := scene_store_welcome (sv_store sv), sv_attached := True\<rparr>)"

definition scene_server_detach :: "scene_server \<Rightarrow> scene_server" where
  "scene_server_detach sv =
     sv\<lparr>sv_store := scene_store_ghost_mark (sv_store sv), sv_attached := False,
        sv_ghosted := True\<rparr>"

definition scene_server_import_result :: "scene_server \<Rightarrow> u32 \<Rightarrow> u8 \<Rightarrow> int \<times> scene_server" where
  "scene_server_import_result sv ref okv =
     (let (r, s) = scene_store_emit_record (sv_store sv) SCENE_SRV_IMPORT_RESULT
                     (scene_put_u32 ref @ [okv]) 5
      in (r, sv\<lparr>sv_store := s\<rparr>))"

text \<open>A frame-level failure: ERROR through the store, adapter dead.\<close>

definition server_fail :: "scene_server \<Rightarrow> u16 \<Rightarrow> string \<Rightarrow> int \<times> scene_server" where
  "server_fail sv code msg =
     (-1, sv\<lparr>sv_store := snd (scene_store_fail (sv_store sv) code msg), sv_dead := True\<rparr>)"

subsection \<open>One frame\<close>

text \<open>The stages after validation; each returns \<open>Inl\<close> for an early return of the loop. \<open>f\<close> is
  the memory from the start of the frame.\<close>

definition feed_rejoin ::
    "scene_server \<Rightarrow> bytes \<Rightarrow> u16 \<Rightarrow> (int \<times> scene_server) + scene_server" where
  "feed_rejoin sv f opc =
     (if sv_ghosted sv \<and> opc \<noteq> SCENE_OP_ACK then
        (case scene_store_rejoin (sv_store sv) (scene_get_u64 f 16) of
           (r, s) \<Rightarrow>
             if r \<noteq> 0 then Inl (server_fail sv SCENE_ERR_SEQ ''ghost rejoin seq'')
             else Inr (sv\<lparr>sv_store := s, sv_ghosted := False\<rparr>))
      else Inr sv)"

definition feed_import :: "importer option \<Rightarrow> scene_server \<Rightarrow> bytes \<Rightarrow> u16 \<Rightarrow> u32 \<Rightarrow>
    (int \<times> scene_server) + scene_server" where
  "feed_import import_cb sv f opc plen =
     (if opc = SCENE_OP_IMPORT_TEXTURE then
        if plen < 16 then Inl (server_fail sv SCENE_ERR_PROTOCOL ''imp len'')
        else
          let tlen = scene_get_u32 f (16 + 12)
          in if plen \<noteq> 16 + tlen then Inl (server_fail sv SCENE_ERR_PROTOCOL ''imp path'')
             else case import_cb of
               None \<Rightarrow> Inr sv
             | Some cb \<Rightarrow>
                 let ref = scene_get_u32 f (16 + 8);
                     (rc, s) = cb (sv_store sv) ref (slice f 32 (unat tlen));
                     sv1 = sv\<lparr>sv_store := s\<rparr>
                 in if rc \<noteq> 0 then
                      (case scene_server_import_result sv1 ref 0 of
                         (r, sv2) \<Rightarrow>
                           if r \<noteq> 0 then Inl (-1, sv2\<lparr>sv_dead := True\<rparr>) else Inr sv2)
                    else Inr sv1
      else Inr sv)"

definition feed_ingest :: "(u64 \<Rightarrow> u64) \<Rightarrow> scene_server \<Rightarrow> bytes \<Rightarrow> u16 \<Rightarrow> u32 \<Rightarrow>
    (int \<times> scene_server) + scene_server" where
  "feed_ingest clk sv f opc plen =
     (let (r, s) = scene_store_ingest (sv_store sv) (clk (st_next_seq (sv_store sv))) opc
                     (drop 16 f) plen;
          sv1 = sv\<lparr>sv_store := s\<rparr>
      in if r \<noteq> 0 then Inl (r, sv1\<lparr>sv_dead := True\<rparr>) else Inr sv1)"

definition bind_sum :: "'e + 'a \<Rightarrow> ('a \<Rightarrow> 'e + 'b) \<Rightarrow> 'e + 'b" where
  "bind_sum m k = (case m of Inl e \<Rightarrow> Inl e | Inr x \<Rightarrow> k x)"

definition feed_frame :: "importer option \<Rightarrow> (u64 \<Rightarrow> u64) \<Rightarrow> scene_server \<Rightarrow> bytes \<Rightarrow> u32 \<Rightarrow>
    (int \<times> scene_server) + scene_server" where
  "feed_frame import_cb clk sv f plen =
     (let h = \<lparr>fh_magic = scene_get_u32 f 0, fh_version = scene_get_u16 f 4,
               fh_opcode = scene_get_u16 f 6, fh_length = plen,
               fh_checksum = scene_get_u32 f 12\<rparr>;
          opc = fh_opcode h
      in if scene_frame_check h f (16 + plen) \<noteq> 0
         then Inl (server_fail sv SCENE_ERR_CKSUM ''bad frame'')
         else
           bind_sum (feed_rejoin sv f opc) (\<lambda>sv1.
           bind_sum (feed_import import_cb sv1 f opc plen) (\<lambda>sv2.
           feed_ingest clk sv2 f opc plen)))"

subsection \<open>The loop\<close>

function feed_loop :: "importer option \<Rightarrow> (u64 \<Rightarrow> u64) \<Rightarrow> bytes \<Rightarrow> nat \<Rightarrow> scene_server \<Rightarrow>
    int \<times> scene_server" where
  "feed_loop import_cb clk buf off sv =
     (let avail = length buf - off
      in if avail < SCENE_HEADER_SIZE then (0, sv\<lparr>sv_in := buf, sv_off := off\<rparr>)
         else
           let f = drop off buf;
               plen = scene_get_u32 f 8
           in if plen > max_record_length (st_lim (sv_store sv))
              then server_fail (sv\<lparr>sv_in := buf, sv_off := off\<rparr>) SCENE_ERR_LIMIT
                     ''record exceeds limit''
              else
                let tot = 16 + unat plen
                in if avail < tot then (0, sv\<lparr>sv_in := buf, sv_off := off\<rparr>)
                   else case feed_frame import_cb clk (sv\<lparr>sv_in := buf, sv_off := off\<rparr>) f plen of
                     Inl r \<Rightarrow> r
                   | Inr sv1 \<Rightarrow>
                       if off + tot = length buf then feed_loop import_cb clk [] 0 sv1
                       else feed_loop import_cb clk buf (off + tot) sv1)"
  by pat_completeness auto

termination
  by (relation "measure (\<lambda>(_, _, buf, off, _). length buf - off)") auto

declare feed_loop.simps [simp del]

definition scene_server_feed :: "importer option \<Rightarrow> (u64 \<Rightarrow> u64) \<Rightarrow> scene_server \<Rightarrow> bytes \<Rightarrow> u32 \<Rightarrow>
    int \<times> scene_server" where
  "scene_server_feed import_cb clk sv inp len =
     (if sv_dead sv then (-1, sv)
      else if len = 0 then (0, sv)
      else
        let (r, sv1) = feed_loop import_cb clk (sv_in sv @ slice inp 0 (unat len)) (sv_off sv) sv
        in if r = 0 \<and> sv_off sv1 > 4096
           then (r, sv1\<lparr>sv_in := drop (sv_off sv1) (sv_in sv1), sv_off := 0\<rparr>)
           else (r, sv1))"

subsection \<open>Pass-through operations\<close>

definition scene_server_out_next_frame :: "scene_server \<Rightarrow> bytes option \<times> scene_server" where
  "scene_server_out_next_frame sv =
     (let (r, s) = scene_store_out_next_frame (sv_store sv) in (r, sv\<lparr>sv_store := s\<rparr>))"

definition scene_server_input_pointer ::
    "scene_server \<Rightarrow> u64 \<Rightarrow> u8 \<Rightarrow> i32 \<Rightarrow> i32 \<Rightarrow> u8 \<Rightarrow> int \<times> scene_server" where
  "scene_server_input_pointer sv now device x y buttons =
     (let (r, s) = scene_store_input_pointer (sv_store sv) now device x y buttons
      in (r, sv\<lparr>sv_store := s\<rparr>))"

definition scene_server_input_key ::
    "scene_server \<Rightarrow> u64 \<Rightarrow> u32 \<Rightarrow> u8 \<Rightarrow> u8 \<Rightarrow> int \<times> scene_server" where
  "scene_server_input_key sv now key_code state modifiers =
     (let (r, s) = scene_store_input_key (sv_store sv) now key_code state modifiers
      in (r, sv\<lparr>sv_store := s\<rparr>))"

definition scene_server_input_text ::
    "scene_server \<Rightarrow> u64 \<Rightarrow> bytes option \<Rightarrow> u32 \<Rightarrow> int \<times> scene_server" where
  "scene_server_input_text sv now txt len =
     (let (r, s) = scene_store_input_text (sv_store sv) now txt len
      in (r, sv\<lparr>sv_store := s\<rparr>))"

end
