(* ===== verification/A11y.thy ===== *)
theory A11y
  imports Requests
begin

text \<open>
  The accessibility consumer \<open>src/scene_a11y.c\<close>: the view of one node, the walk over the
  visible nodes that are not stale, and what is built on it (focus chain, search by role,
  children).
\<close>

record scene_a11y_node =
  an_id :: u32
  an_parent :: u32
  an_role :: u16
  an_flags :: u8
  an_rect :: rect
  an_text_count :: nat
  an_primary_text_id :: u32
  an_primary_text :: bytes
  an_child_count :: nat
  an_depth :: nat

definition scene_store_a11y_node :: "scene_store \<Rightarrow> u32 \<Rightarrow> scene_a11y_node option" where
  "scene_store_a11y_node s nid =
     (case scene_store_node_vis s nid of
        None \<Rightarrow> None
      | Some nv \<Rightarrow>
          if nv_stale nv then None
          else
            let an = \<lparr>an_id = nv_id nv, an_parent = nv_parent nv, an_role = nv_role nv,
                      an_flags = nv_flags nv, an_rect = nv_rect nv,
                      an_text_count = nv_text_count nv, an_primary_text_id = 0,
                      an_primary_text = [], an_child_count = scene_store_node_child_count s nid,
                      an_depth = 0\<rparr>
            in if nv_text_count nv > 0 then
                 (case scene_store_node_texts s nid 1 of
                    Some (n, tv) \<Rightarrow>
                      if n \<ge> 1 then Some (an\<lparr>an_primary_text_id := ts_id (hd tv),
                                            an_primary_text := ts_data (hd tv)\<rparr>)
                      else Some an
                  | None \<Rightarrow> Some an)
               else Some an)"

definition walk_cb ::
    "scene_store \<Rightarrow> (scene_a11y_node \<Rightarrow> 'o \<Rightarrow> bool \<times> 'o) \<Rightarrow> u32 \<Rightarrow> 'o \<Rightarrow> bool \<times> 'o" where
  "walk_cb s fn nid ud =
     (case scene_store_a11y_node s nid of
        None \<Rightarrow> (False, ud)
      | Some an \<Rightarrow>
          if an_flags an AND SCENE_FLAG_VISIBLE = 0 then (False, ud) else fn an ud)"

definition scene_store_a11y_walk ::
    "scene_store \<Rightarrow> (scene_a11y_node \<Rightarrow> 'o \<Rightarrow> bool \<times> 'o) \<Rightarrow> 'o \<Rightarrow> 'o" where
  "scene_store_a11y_walk s fn ud = scene_store_walk s (walk_cb s fn) ud"

definition scene_store_a11y_focused :: "scene_store \<Rightarrow> scene_a11y_node option" where
  "scene_store_a11y_focused s =
     (let fid = sc_focus (st_live s)
      in if fid = SCENE_NO_PARENT then None else scene_store_a11y_node s fid)"

text \<open>The collectors: the ids that fit into the array, and the count of all.\<close>

definition fc_cb :: "nat \<Rightarrow> scene_a11y_node \<Rightarrow> u32 list \<times> nat \<Rightarrow> bool \<times> u32 list \<times> nat" where
  "fc_cb cap an = (\<lambda>(out, count).
     if an_flags an AND SCENE_FLAG_VISIBLE \<noteq> 0 \<and> an_flags an AND SCENE_FLAG_FOCUSABLE \<noteq> 0
     then (False, if count < cap then out @ [an_id an] else out, count + 1)
     else (False, out, count))"

definition scene_store_a11y_focus_chain :: "scene_store \<Rightarrow> nat \<Rightarrow> u32 list \<times> nat" where
  "scene_store_a11y_focus_chain s cap = scene_store_a11y_walk s (fc_cb cap) ([], 0)"

definition rb_cb :: "u16 \<Rightarrow> nat \<Rightarrow> scene_a11y_node \<Rightarrow> u32 list \<times> nat \<Rightarrow> bool \<times> u32 list \<times> nat" where
  "rb_cb role cap an = (\<lambda>(out, count).
     if an_flags an AND SCENE_FLAG_VISIBLE \<noteq> 0 \<and> an_role an = role
     then (False, if count < cap then out @ [an_id an] else out, count + 1)
     else (False, out, count))"

definition scene_store_a11y_find_by_role :: "scene_store \<Rightarrow> u16 \<Rightarrow> nat \<Rightarrow> u32 list \<times> nat" where
  "scene_store_a11y_find_by_role s role cap = scene_store_a11y_walk s (rb_cb role cap) ([], 0)"

definition child_cb :: "u32 \<Rightarrow> nat \<Rightarrow> scene_a11y_node \<Rightarrow> u32 list \<times> nat \<Rightarrow> bool \<times> u32 list \<times> nat" where
  "child_cb pid cap an = (\<lambda>(out, count).
     if an_parent an = pid \<and> an_flags an AND SCENE_FLAG_VISIBLE \<noteq> 0
     then (False, if count < cap then out @ [an_id an] else out, count + 1)
     else (False, out, count))"

definition scene_store_a11y_children :: "scene_store \<Rightarrow> u32 \<Rightarrow> nat \<Rightarrow> u32 list \<times> nat" where
  "scene_store_a11y_children s parent_id cap =
     scene_store_a11y_walk s (child_cb parent_id cap) ([], 0)"

end
