(* ===== verification/Rewind.thy ===== *)
theory Rewind
  imports A11y
begin

text \<open>
  The replay service \<open>src/scene_rewind.c\<close>: a cursor over the operation log of a store, and
  the difference between the scenes at two positions.

  \<open>qsort\<close> is the sort by key of HOL; the ids it sorts by are distinct.
\<close>

record scene_rewind =
  rwd_store :: scene_store
  rwd_pos :: u64
  rwd_in_replay :: bool

definition scene_rewind_new :: "scene_store \<Rightarrow> scene_rewind" where
  "scene_rewind_new s = \<lparr>rwd_store = s, rwd_pos = 0, rwd_in_replay = False\<rparr>"

definition scene_rewind_enter_replay :: "scene_rewind \<Rightarrow> int \<times> scene_rewind" where
  "scene_rewind_enter_replay rwd =
     (if rwd_in_replay rwd then (-1, rwd)
      else
        let (r, s) = scene_store_begin_replay (rwd_store rwd)
        in if r \<noteq> 0 then (-1, rwd\<lparr>rwd_store := s\<rparr>)
           else (0, rwd\<lparr>rwd_store := s, rwd_in_replay := True, rwd_pos := 0\<rparr>))"

definition scene_rewind_exit_replay :: "scene_rewind \<Rightarrow> int \<times> scene_rewind" where
  "scene_rewind_exit_replay rwd =
     (if \<not> rwd_in_replay rwd then (-1, rwd)
      else
        let (r, s) = scene_store_end_replay (rwd_store rwd)
        in if r \<noteq> 0 then (-1, rwd\<lparr>rwd_store := s\<rparr>)
           else (0, rwd\<lparr>rwd_store := s, rwd_in_replay := False\<rparr>))"

definition scene_rewind_seek :: "scene_rewind \<Rightarrow> u64 \<Rightarrow> int \<times> scene_rewind" where
  "scene_rewind_seek rwd target_seq =
     (if \<not> rwd_in_replay rwd then (-1, rwd)
      else
        let (r, s) = scene_store_seek_to (rwd_store rwd) target_seq
        in if r \<noteq> 0 then (-1, rwd\<lparr>rwd_store := s\<rparr>)
           else (0, rwd\<lparr>rwd_store := s, rwd_pos := target_seq\<rparr>))"

definition scene_rewind_head :: "scene_rewind \<Rightarrow> u64" where
  "scene_rewind_head rwd = st_scene_seq (rwd_store rwd)"

definition scene_rewind_step_forward :: "scene_rewind \<Rightarrow> u32 \<Rightarrow> int \<times> scene_rewind" where
  "scene_rewind_step_forward rwd n =
     (if \<not> rwd_in_replay rwd then (-1, rwd)
      else
        let head = scene_rewind_head rwd;
            tgt = rwd_pos rwd + ucast n
        in scene_rewind_seek rwd (if tgt > head then head else tgt))"

definition scene_rewind_step_backward :: "scene_rewind \<Rightarrow> u32 \<Rightarrow> int \<times> scene_rewind" where
  "scene_rewind_step_backward rwd n =
     (if \<not> rwd_in_replay rwd then (-1, rwd)
      else scene_rewind_seek rwd
             (if rwd_pos rwd > ucast n then rwd_pos rwd - ucast n else 1))"

subsection \<open>Snapshots of the nodes\<close>

text \<open>A \<open>node_snap\<close> and a \<open>scene_rewind_delta\<close> carry the same fields.\<close>

record delta =
  dl_id :: u32
  dl_role :: u16
  dl_flags :: u8
  dl_rect :: rect
  dl_text_hash :: u32

definition fnv1a32_data :: "bytes \<Rightarrow> u32" where
  "fnv1a32_data m = foldl (\<lambda>h i. (h XOR ucast (rd m i)) * 16777619) 2166136261 [0..<length m]"

definition snap_of :: "scene_a11y_node \<Rightarrow> delta" where
  "snap_of an =
     \<lparr>dl_id = an_id an, dl_role = an_role an, dl_flags = an_flags an, dl_rect = an_rect an,
      dl_text_hash = (if length (an_primary_text an) > 0 then fnv1a32_data (an_primary_text an)
                      else 0)\<rparr>"

definition snap_cb :: "nat \<Rightarrow> scene_a11y_node \<Rightarrow> delta list \<Rightarrow> bool \<times> delta list" where
  "snap_cb cap an snaps =
     (if length snaps \<ge> cap then (False, snaps) else (False, snaps @ [snap_of an]))"

definition collect_arena_snaps :: "scene_store \<Rightarrow> delta list" where
  "collect_arena_snaps s =
     (let est = ar_count (sc_arena (st_live s)) + 16
      in scene_store_a11y_walk s (snap_cb est) [])"

subsection \<open>Difference\<close>

record diff_result =
  df_created :: "delta list"
  df_destroyed :: "delta list"
  df_modified :: "delta list"

text \<open>The merge of the two sorted arrays.\<close>

fun diff_merge :: "delta list \<Rightarrow> delta list \<Rightarrow> diff_result \<Rightarrow> diff_result" where
  "diff_merge [] os d = d\<lparr>df_created := df_created d @ os\<rparr>"
| "diff_merge (c # cs) [] d = d\<lparr>df_destroyed := df_destroyed d @ c # cs\<rparr>"
| "diff_merge (c # cs) (ot # os) d =
     (if dl_id c = dl_id ot then
        diff_merge cs os
          (if dl_role c \<noteq> dl_role ot \<or> dl_flags c \<noteq> dl_flags ot \<or>
              dl_text_hash c \<noteq> dl_text_hash ot \<or> dl_rect c \<noteq> dl_rect ot
           then d\<lparr>df_modified := df_modified d @ [ot\<lparr>dl_id := dl_id c\<rparr>]\<rparr> else d)
      else if dl_id c < dl_id ot then
        diff_merge cs (ot # os) (d\<lparr>df_destroyed := df_destroyed d @ [c]\<rparr>)
      else
        diff_merge (c # cs) os (d\<lparr>df_created := df_created d @ [ot]\<rparr>))"

definition snap_diff :: "delta list \<Rightarrow> delta list \<Rightarrow> diff_result" where
  "snap_diff cur other =
     diff_merge (sort_key dl_id cur) (sort_key dl_id other)
       \<lparr>df_created = [], df_destroyed = [], df_modified = []\<rparr>"

definition scene_rewind_diff ::
    "scene_rewind \<Rightarrow> u64 \<Rightarrow> diff_result option \<times> scene_rewind" where
  "scene_rewind_diff rwd other_seq =
     (if \<not> rwd_in_replay rwd then (None, rwd)
      else if other_seq > st_scene_seq (rwd_store rwd) then (None, rwd)
      else
        let cur = collect_arena_snaps (rwd_store rwd);
            saved_pos = rwd_pos rwd;
            (r, rwd1) = scene_rewind_seek rwd other_seq
        in if r \<noteq> 0 then (None, rwd1)
           else
             let other = collect_arena_snaps (rwd_store rwd1);
                 (_, rwd2) = scene_rewind_seek rwd1 saved_pos
             in (Some (snap_diff cur other), rwd2))"

end
