(* ===== verification/Client.thy ===== *)
theory Client
  imports Snapshot
begin

text \<open>
  The reference client \<open>src/scene_client.c\<close>: the sequence-numbered stream of framed
  operations and its typed builders, the reconnect log, the reassembly, validation and
  dispatch of server records, and the decoder of section 6 payloads.

  The transport is an interface of function pointers: what a receive yields and whether a
  send succeeds are parameters, and \<open>cl_wire\<close> collects the bytes handed to a successful
  send. A callback of the application is recorded as an event in \<open>cl_events\<close>, in order;
  callbacks that call back into the client are not modelled. Strings are byte lists.
\<close>

subsection \<open>State\<close>

record search_hit_rec =
  sh_id :: u32
  sh_rect :: rect
  sh_role :: u16
  sh_text_id :: u32

record text_hit_rec =
  th_text_id :: u32
  th_node_id :: u32
  th_data :: bytes

datatype client_event =
    EvWelcome u32 u16 scene_limits
  | EvError u16 bytes
  | EvSnapshot u32 bytes
  | EvSearchResult u32 "search_hit_rec list"
  | EvCapture u32 u64 bytes
  | EvPong u64
  | EvInputPointer u64 u8 i32 i32 u8
  | EvInputActivate u64 u32
  | EvInputFocus u64 u32 u8
  | EvInputKey u64 u32 u8 u8
  | EvInputText u64 bytes
  | EvPresentDone u64 u64 u64
  | EvTextIndex "text_hit_rec list"
  | EvImportResult u32 u8
  | EvClosed

record clog_ent =
  ce_opcode :: u16
  ce_body :: bytes

record scene_client =
  cl_conn_open :: bool
  cl_welcomed :: bool
  cl_fatal :: bool
  cl_had_session :: bool
  cl_prev_scene_id :: u32
  cl_scene_id :: u32
  cl_lim :: scene_limits
  cl_next_seq :: u64
  cl_sent_seq :: u64
  cl_last_token :: u64
  cl_last_present_seq :: u64
  cl_out :: bytes
  cl_in :: bytes
  cl_in_off :: nat
  cl_log :: "clog_ent list"
  cl_events :: "client_event list"
  cl_wire :: bytes

definition scene_client_new :: scene_client where
  "scene_client_new =
     \<lparr>cl_conn_open = False, cl_welcomed = False, cl_fatal = False, cl_had_session = False,
      cl_prev_scene_id = 0, cl_scene_id = 0,
      cl_lim = \<lparr>max_nodes_per_session = 0, max_text_bytes_per_slot = 0,
                max_text_slots_per_node = 0, max_record_length = 16 * 1024 * 1024,
                input_latency_budget_us = 0\<rparr>,
      cl_next_seq = 0, cl_sent_seq = 0, cl_last_token = 0, cl_last_present_seq = 0,
      cl_out = [], cl_in = [], cl_in_off = 0, cl_log = [], cl_events = [], cl_wire = []\<rparr>"

definition deliver :: "scene_client \<Rightarrow> client_event \<Rightarrow> scene_client" where
  "deliver c e = c\<lparr>cl_events := cl_events c @ [e]\<rparr>"

text \<open>\<open>opened\<close> is the result of \<open>scene_transport_open\<close>.\<close>

definition scene_client_connect :: "bool \<Rightarrow> scene_client \<Rightarrow> int \<times> scene_client" where
  "scene_client_connect opened c0 =
     (let c = c0\<lparr>cl_conn_open := False, cl_welcomed := False, cl_fatal := False,
                 cl_next_seq := 1, cl_sent_seq := 0, cl_out := [], cl_in := [], cl_in_off := 0\<rparr>
      in if \<not> opened then (-1, deliver c EvClosed)
         else (0, c\<lparr>cl_conn_open := True\<rparr>))"

definition scene_client_reconnect :: "bool \<Rightarrow> scene_client \<Rightarrow> int \<times> scene_client" where
  "scene_client_reconnect opened c0 =
     (if cl_fatal c0 then (-1, c0)
      else
        let c = c0\<lparr>cl_conn_open := False, cl_welcomed := False, cl_out := [], cl_in := [],
                   cl_in_off := 0\<rparr>
        in if \<not> opened then (-1, c) else (0, c\<lparr>cl_conn_open := True\<rparr>))"

definition scene_client_dead :: "scene_client \<Rightarrow> bool" where
  "scene_client_dead c \<longleftrightarrow> \<not> cl_conn_open c \<or> cl_fatal c"

subsection \<open>Outbound\<close>

definition clog_append :: "scene_client \<Rightarrow> u16 \<Rightarrow> bytes \<Rightarrow> scene_client" where
  "clog_append c opcode body = c\<lparr>cl_log := cl_log c @ [\<lparr>ce_opcode = opcode, ce_body = body\<rparr>]\<rparr>"

text \<open>One framed record at the end of the outbound buffer.\<close>

definition cli_emit :: "scene_client \<Rightarrow> u16 \<Rightarrow> bytes \<Rightarrow> bool \<Rightarrow> bool \<Rightarrow> int \<times> scene_client" where
  "cli_emit c opcode body is_ack log_it =
     (if \<not> cl_conn_open c \<or> \<not> cl_welcomed c \<or> cl_fatal c then (-1, c)
      else
        let seq = cl_next_seq c;
            c1 = (if is_ack then c
                  else c\<lparr>cl_next_seq := cl_next_seq c + 1, cl_sent_seq := seq\<rparr>);
            payload = (if is_ack then body else scene_put_u64 seq @ body);
            c2 = c1\<lparr>cl_out := cl_out c1 @ scene_frame opcode payload\<rparr>
        in (0, if log_it then clog_append c2 opcode body else c2))"

definition scene_client_flush :: "(bytes \<Rightarrow> bool) \<Rightarrow> scene_client \<Rightarrow> int \<times> scene_client" where
  "scene_client_flush send c =
     (if \<not> cl_conn_open c then (-1, c)
      else if cl_out c \<noteq> [] then
        (if \<not> send (cl_out c) then (-1, deliver (c\<lparr>cl_conn_open := False\<rparr>) EvClosed)
         else (0, c\<lparr>cl_wire := cl_wire c @ cl_out c, cl_out := []\<rparr>))
      else (0, c\<lparr>cl_out := []\<rparr>))"

subsection \<open>Operation builders\<close>

definition scene_client_create_node ::
    "scene_client \<Rightarrow> u32 \<Rightarrow> u32 \<Rightarrow> u16 \<Rightarrow> rect \<Rightarrow> u8 \<Rightarrow> int \<times> scene_client" where
  "scene_client_create_node c parent nid role r flags =
     (if role > SCENE_ROLE_MAX \<or> nid = SCENE_NO_PARENT then (-1, c)
      else cli_emit c SCENE_OP_CREATE_NODE
             (scene_put_u32 parent @ scene_put_u32 nid @ scene_put_u16 role @ put_rect r @ [flags])
             False True)"

definition scene_client_destroy_node :: "scene_client \<Rightarrow> u32 \<Rightarrow> int \<times> scene_client" where
  "scene_client_destroy_node c nid =
     cli_emit c SCENE_OP_DESTROY_NODE (scene_put_u32 nid) False True"

definition cli_set_text_like ::
    "scene_client \<Rightarrow> u16 \<Rightarrow> u32 \<Rightarrow> u32 \<Rightarrow> bytes option \<Rightarrow> u32 \<Rightarrow> int \<times> scene_client" where
  "cli_set_text_like c opcode nid slot utf8 len =
     (if utf8 = None \<and> len \<noteq> 0 then (-1, c)
      else if len > max_text_bytes_per_slot (cl_lim c) then (-1, c)
      else cli_emit c opcode
             (scene_put_u32 nid @ scene_put_u32 slot @ scene_put_u32 len @
              (case utf8 of None \<Rightarrow> [] | Some cs \<Rightarrow> slice cs 0 (unat len))) False True)"

definition scene_client_set_text ::
    "scene_client \<Rightarrow> u32 \<Rightarrow> u32 \<Rightarrow> bytes option \<Rightarrow> u32 \<Rightarrow> int \<times> scene_client" where
  "scene_client_set_text c nid slot utf8 len =
     cli_set_text_like c SCENE_OP_SET_TEXT nid slot utf8 len"

definition scene_client_set_value ::
    "scene_client \<Rightarrow> u32 \<Rightarrow> u32 \<Rightarrow> bytes option \<Rightarrow> u32 \<Rightarrow> int \<times> scene_client" where
  "scene_client_set_value c nid slot utf8 len =
     cli_set_text_like c SCENE_OP_SET_VALUE nid slot utf8 len"

definition scene_client_set_rect :: "scene_client \<Rightarrow> u32 \<Rightarrow> rect \<Rightarrow> int \<times> scene_client" where
  "scene_client_set_rect c nid r =
     cli_emit c SCENE_OP_SET_RECT (scene_put_u32 nid @ put_rect r) False True"

definition scene_client_set_flags :: "scene_client \<Rightarrow> u32 \<Rightarrow> u8 \<Rightarrow> int \<times> scene_client" where
  "scene_client_set_flags c nid flags =
     cli_emit c SCENE_OP_SET_FLAGS (scene_put_u32 nid @ [flags]) False True"

definition scene_client_set_style :: "scene_client \<Rightarrow> u32 \<Rightarrow> u32 \<Rightarrow> int \<times> scene_client" where
  "scene_client_set_style c nid style =
     cli_emit c SCENE_OP_SET_STYLE (scene_put_u32 nid @ scene_put_u32 style) False True"

definition scene_client_set_texture ::
    "scene_client \<Rightarrow> u32 \<Rightarrow> u32 \<Rightarrow> rect \<Rightarrow> u8 \<Rightarrow> u8 \<Rightarrow> int \<times> scene_client" where
  "scene_client_set_texture c nid tex src blend opacity =
     (if tex = SCENE_NO_TEXTURE then (-1, c)
      else cli_emit c SCENE_OP_SET_TEXTURE
             (scene_put_u32 nid @ scene_put_u32 tex @ put_rect src @ [blend, opacity])
             False True)"

definition scene_client_set_effect :: "scene_client \<Rightarrow> u32 \<Rightarrow> u32 \<Rightarrow> int \<times> scene_client" where
  "scene_client_set_effect c nid effect =
     cli_emit c SCENE_OP_SET_EFFECT (scene_put_u32 nid @ scene_put_u32 effect) False True"

definition scene_client_focus :: "scene_client \<Rightarrow> u32 \<Rightarrow> int \<times> scene_client" where
  "scene_client_focus c nid = cli_emit c SCENE_OP_FOCUS (scene_put_u32 nid) False True"

definition scene_client_focus_next :: "scene_client \<Rightarrow> u8 \<Rightarrow> int \<times> scene_client" where
  "scene_client_focus_next c step =
     (if step = 0 then (-1, c) else cli_emit c SCENE_OP_FOCUS_NEXT [step] False True)"

definition scene_client_present :: "scene_client \<Rightarrow> u64 \<Rightarrow> int \<times> scene_client" where
  "scene_client_present c token = cli_emit c SCENE_OP_PRESENT (scene_put_u64 token) False False"

definition scene_client_snapshot :: "scene_client \<Rightarrow> u32 \<Rightarrow> int \<times> scene_client" where
  "scene_client_snapshot c req_id =
     cli_emit c SCENE_OP_SNAPSHOT (scene_put_u32 req_id) False False"

definition scene_client_search ::
    "scene_client \<Rightarrow> u32 \<Rightarrow> bytes option \<Rightarrow> u32 \<Rightarrow> int \<times> scene_client" where
  "scene_client_search c req_id term len =
     (if term = None \<and> len \<noteq> 0 then (-1, c)
      else cli_emit c SCENE_OP_SEARCH
             (scene_put_u32 req_id @ scene_put_u32 len @
              (case term of None \<Rightarrow> [] | Some cs \<Rightarrow> slice cs 0 (unat len))) False False)"

definition scene_client_macro_begin :: "scene_client \<Rightarrow> u32 \<Rightarrow> int \<times> scene_client" where
  "scene_client_macro_begin c macro_id =
     cli_emit c SCENE_OP_MACRO_BEGIN (scene_put_u32 macro_id) False False"

definition scene_client_macro_end :: "scene_client \<Rightarrow> u32 \<Rightarrow> int \<times> scene_client" where
  "scene_client_macro_end c macro_id =
     cli_emit c SCENE_OP_MACRO_END (scene_put_u32 macro_id) False False"

definition scene_client_exec_macro :: "scene_client \<Rightarrow> u32 \<Rightarrow> int \<times> scene_client" where
  "scene_client_exec_macro c macro_id =
     cli_emit c SCENE_OP_EXEC_MACRO (scene_put_u32 macro_id) False False"

definition scene_client_capture :: "scene_client \<Rightarrow> u32 \<Rightarrow> int \<times> scene_client" where
  "scene_client_capture c req_id =
     cli_emit c SCENE_OP_CAPTURE (scene_put_u32 req_id) False False"

definition scene_client_ack :: "scene_client \<Rightarrow> u64 \<Rightarrow> int \<times> scene_client" where
  "scene_client_ack c consumed_seq =
     cli_emit c SCENE_OP_ACK (scene_put_u64 consumed_seq @ scene_put_u64 (cl_last_token c))
       True False"

definition scene_client_ping :: "scene_client \<Rightarrow> u64 \<Rightarrow> int \<times> scene_client" where
  "scene_client_ping c nonce = cli_emit c SCENE_OP_PING (scene_put_u64 nonce) False False"

definition scene_client_set_input_mode :: "scene_client \<Rightarrow> u8 \<Rightarrow> int \<times> scene_client" where
  "scene_client_set_input_mode c mode =
     (if mode > SCENE_MODE_RECORD then (-1, c)
      else cli_emit c SCENE_OP_SET_INPUT_MODE [mode] False False)"

definition scene_client_seek :: "scene_client \<Rightarrow> u64 \<Rightarrow> int \<times> scene_client" where
  "scene_client_seek c target_seq =
     cli_emit c SCENE_OP_SEEK (scene_put_u64 target_seq) False False"

definition scene_client_import_texture :: "scene_client \<Rightarrow> u32 \<Rightarrow> bytes \<Rightarrow> int \<times> scene_client" where
  "scene_client_import_texture c ref path =
     (let len = of_nat (length path) :: u32
      in if len > max_record_length (cl_lim c) - 16 then (-1, c)
         else cli_emit c SCENE_OP_IMPORT_TEXTURE
                (scene_put_u32 ref @ scene_put_u32 len @ path) False False)"

subsection \<open>Inbound\<close>

definition cli_violation :: "scene_client \<Rightarrow> string \<Rightarrow> scene_client" where
  "cli_violation c what =
     deliver (c\<lparr>cl_fatal := True\<rparr>) (EvError SCENE_ERR_PROTOCOL (ascii what))"

text \<open>Re-issue the reconnect log until an emission fails.\<close>

fun reissue :: "clog_ent list \<Rightarrow> scene_client \<Rightarrow> scene_client" where
  "reissue [] c = c"
| "reissue (e # es) c =
     (case cli_emit c (ce_opcode e) (ce_body e) False False of
        (r, c') \<Rightarrow> if r \<noteq> 0 then c' else reissue es c')"

definition dispatch_welcome :: "(bytes \<Rightarrow> bool) \<Rightarrow> scene_client \<Rightarrow> bytes \<Rightarrow> u32 \<Rightarrow> scene_client" where
  "dispatch_welcome send c p plen =
     (if plen \<noteq> 30 then cli_violation c ''welcome len''
      else
        let sid = scene_get_u32 p 0;
            ver = scene_get_u16 p 4
        in if ver \<noteq> SCENE_PROTOCOL_V0 then cli_violation c ''version''
           else
             let lim = \<lparr>max_nodes_per_session = scene_get_u32 p 6,
                        max_text_bytes_per_slot = scene_get_u32 p 10,
                        max_text_slots_per_node = scene_get_u32 p 14,
                        max_record_length = scene_get_u32 p 18,
                        input_latency_budget_us = scene_get_u64 p 22\<rparr>;
                 c1 = (if \<not> cl_welcomed c then
                         let c2 = reissue (cl_log c) (c\<lparr>
                               cl_next_seq :=
                                 (if cl_had_session c \<and> sid = cl_prev_scene_id c
                                  then cl_sent_seq c + 1 else 1),
                               cl_prev_scene_id := sid, cl_had_session := True,
                               cl_welcomed := True, cl_fatal := False, cl_scene_id := sid,
                               cl_lim := lim\<rparr>)
                         in if cl_log c \<noteq> [] then snd (scene_client_flush send c2) else c2
                       else c)
             in deliver c1 (EvWelcome sid ver lim))"

definition read_rect :: "bytes \<Rightarrow> nat \<Rightarrow> rect" where
  "read_rect p off =
     \<lparr>rx = scene_get_i32 p off, ry = scene_get_i32 p (off + 4),
      rw = scene_get_i32 p (off + 8), rh = scene_get_i32 p (off + 12)\<rparr>"

definition read_hit :: "bytes \<Rightarrow> nat \<Rightarrow> search_hit_rec" where
  "read_hit p off =
     \<lparr>sh_id = scene_get_u32 p off, sh_rect = read_rect p (off + 4),
      sh_role = scene_get_u16 p (off + 20), sh_text_id = scene_get_u32 p (off + 22)\<rparr>"

definition dispatch_search :: "scene_client \<Rightarrow> bytes \<Rightarrow> u32 \<Rightarrow> scene_client" where
  "dispatch_search c p plen =
     (if plen < 8 then cli_violation c ''search len''
      else
        let req = scene_get_u32 p 0;
            count = scene_get_u32 p 4
        in if unat plen - 8 < unat count * 26 then cli_violation c ''search count''
           else deliver c (EvSearchResult req
                  (map (\<lambda>i. read_hit p (8 + i * 26)) [0..<unat count])))"

text \<open>The first pass over a TEXT_INDEX: the end offset, or \<open>None\<close> for a short entry. The
  offset is a \<open>uint32_t\<close>; the test against it is made in 64 bits.\<close>

fun index_end :: "bytes \<Rightarrow> u32 \<Rightarrow> nat \<Rightarrow> u32 \<Rightarrow> u32 option" where
  "index_end p plen 0 off = Some off"
| "index_end p plen (Suc n) off =
     (if (ucast plen :: u64) - ucast off < 12 then None
      else index_end p plen n (off + (12 + scene_get_u32 p (unat (off + 8)))))"

fun index_hits :: "bytes \<Rightarrow> nat \<Rightarrow> u32 \<Rightarrow> text_hit_rec list" where
  "index_hits p 0 off = []"
| "index_hits p (Suc n) off =
     (let len = scene_get_u32 p (unat (off + 8))
      in \<lparr>th_text_id = scene_get_u32 p (unat off), th_node_id = scene_get_u32 p (unat (off + 4)),
          th_data = slice p (unat (off + 12)) (unat len)\<rparr> # index_hits p n (off + (12 + len)))"

definition dispatch_text_index :: "scene_client \<Rightarrow> bytes \<Rightarrow> u32 \<Rightarrow> scene_client" where
  "dispatch_text_index c p plen =
     (if plen < 4 then cli_violation c ''textindex len''
      else
        let count = scene_get_u32 p 0
        in case index_end p plen (unat count) 4 of
             None \<Rightarrow> cli_violation c ''textindex''
           | Some off \<Rightarrow>
               if off \<noteq> plen then cli_violation c ''textindex end''
               else deliver c (EvTextIndex (index_hits p (unat count) 4)))"

definition dispatch_error :: "scene_client \<Rightarrow> bytes \<Rightarrow> u32 \<Rightarrow> scene_client" where
  "dispatch_error c p plen =
     (if plen < 6 then cli_violation c ''error len''
      else
        let code = scene_get_u16 p 0;
            mlen = scene_get_u32 p 2
        in if mlen \<noteq> plen - 6 then cli_violation c ''error msg''
           else deliver (c\<lparr>cl_fatal := True\<rparr>) (EvError code (slice p 6 (unat mlen))))"

definition dispatch_input_text :: "scene_client \<Rightarrow> bytes \<Rightarrow> u32 \<Rightarrow> scene_client" where
  "dispatch_input_text c p plen =
     (if plen < 12 then cli_violation c ''text len''
      else
        let seq = scene_get_u64 p 0;
            len = scene_get_u32 p 8
        in if unat plen - 12 < unat len then cli_violation c ''text bytes''
           else deliver c (EvInputText seq (slice p 12 (unat len))))"

text \<open>The fixed-length input records.\<close>

definition dispatch_input :: "scene_client \<Rightarrow> u16 \<Rightarrow> bytes \<Rightarrow> u32 \<Rightarrow> scene_client" where
  "dispatch_input c opcode p plen =
     (if opcode = SCENE_SRV_INPUT_POINTER then
        (if plen \<noteq> 18 then cli_violation c ''pointer len''
         else deliver c (EvInputPointer (scene_get_u64 p 0) (rd p 8) (scene_get_i32 p 9)
                           (scene_get_i32 p 13) (rd p 17)))
      else if opcode = SCENE_SRV_INPUT_ACTIVATE then
        (if plen \<noteq> 12 then cli_violation c ''activate len''
         else deliver c (EvInputActivate (scene_get_u64 p 0) (scene_get_u32 p 8)))
      else if opcode = SCENE_SRV_INPUT_FOCUS then
        (if plen \<noteq> 13 then cli_violation c ''focus len''
         else deliver c (EvInputFocus (scene_get_u64 p 0) (scene_get_u32 p 8) (rd p 12)))
      else
        (if plen \<noteq> 14 then cli_violation c ''key len''
         else deliver c (EvInputKey (scene_get_u64 p 0) (scene_get_u32 p 8) (rd p 12) (rd p 13))))"

definition dispatch :: "(bytes \<Rightarrow> bool) \<Rightarrow> scene_client \<Rightarrow> u16 \<Rightarrow> bytes \<Rightarrow> u32 \<Rightarrow> scene_client" where
  "dispatch send c opcode p plen =
     (if opcode = SCENE_SRV_WELCOME then dispatch_welcome send c p plen
      else if opcode = SCENE_SRV_ERROR then dispatch_error c p plen
      else if opcode = SCENE_SRV_SNAPSHOT then
        (if plen < 4 then cli_violation c ''snapshot len''
         else deliver c (EvSnapshot (scene_get_u32 p 0) (slice p 4 (unat (plen - 4)))))
      else if opcode = SCENE_SRV_CAPTURE then
        (if plen < 12 then cli_violation c ''capture len''
         else deliver c (EvCapture (scene_get_u32 p 0) (scene_get_u64 p 4)
                           (slice p 12 (unat (plen - 12)))))
      else if opcode = SCENE_SRV_SEARCH_RESULT then dispatch_search c p plen
      else if opcode = SCENE_SRV_PONG then
        (if plen \<noteq> 8 then cli_violation c ''pong len''
         else deliver c (EvPong (scene_get_u64 p 0)))
      else if opcode \<in> {SCENE_SRV_INPUT_POINTER, SCENE_SRV_INPUT_ACTIVATE,
                        SCENE_SRV_INPUT_FOCUS, SCENE_SRV_INPUT_KEY}
      then dispatch_input c opcode p plen
      else if opcode = SCENE_SRV_INPUT_TEXT then dispatch_input_text c p plen
      else if opcode = SCENE_SRV_PRESENT_DONE then
        (if plen \<noteq> 24 then cli_violation c ''present len''
         else deliver (c\<lparr>cl_last_token := scene_get_u64 p 8,
                         cl_last_present_seq := scene_get_u64 p 0\<rparr>)
                (EvPresentDone (scene_get_u64 p 0) (scene_get_u64 p 8) (scene_get_u64 p 16)))
      else if opcode = SCENE_SRV_IMPORT_RESULT then
        (if plen \<noteq> 5 then cli_violation c ''import len''
         else deliver c (EvImportResult (scene_get_u32 p 0) (rd p 4)))
      else if opcode = SCENE_SRV_TEXT_INDEX then dispatch_text_index c p plen
      else cli_violation c ''unknown record'')"

text \<open>What \<open>scene_transport_recv\<close> yields: a batch, nothing, or the end of the connection.\<close>

datatype recv_result = RecvData bytes | RecvNone | RecvClosed

function pump_loop :: "(bytes \<Rightarrow> bool) \<Rightarrow> bytes \<Rightarrow> nat \<Rightarrow> scene_client \<Rightarrow> bool \<times> scene_client" where
  "pump_loop send buf off c =
     (let avail = length buf - off
      in if avail < SCENE_HEADER_SIZE then (True, c\<lparr>cl_in := buf, cl_in_off := off\<rparr>)
         else
           let f = drop off buf;
               plen = scene_get_u32 f 8;
               maxr = (if cl_welcomed c then max_record_length (cl_lim c) else 16 * 1024 * 1024)
           in if plen > maxr
              then (False, cli_violation (c\<lparr>cl_in := buf, cl_in_off := off\<rparr>) ''oversized record'')
              else
                let tot = 16 + unat plen
                in if avail < tot then (True, c\<lparr>cl_in := buf, cl_in_off := off\<rparr>)
                   else
                     let h = \<lparr>fh_magic = scene_get_u32 f 0, fh_version = scene_get_u16 f 4,
                              fh_opcode = scene_get_u16 f 6, fh_length = plen,
                              fh_checksum = scene_get_u32 f 12\<rparr>
                     in if scene_frame_check h f (16 + plen) \<noteq> 0
                        then (False, cli_violation (c\<lparr>cl_in := buf, cl_in_off := off\<rparr>) ''bad frame'')
                        else
                          let c1 = dispatch send c (fh_opcode h) (drop 16 f) plen
                          in if off + tot = length buf then pump_loop send [] 0 c1
                             else pump_loop send buf (off + tot) c1)"
  by pat_completeness auto

termination
  by (relation "measure (\<lambda>(_, buf, off, _). length buf - off)") auto

declare pump_loop.simps [simp del]

definition scene_client_pump ::
    "(bytes \<Rightarrow> bool) \<Rightarrow> recv_result \<Rightarrow> scene_client \<Rightarrow> int \<times> scene_client" where
  "scene_client_pump send recv c =
     (if \<not> cl_conn_open c then (-1, c)
      else if recv = RecvClosed then (-1, deliver (c\<lparr>cl_conn_open := False\<rparr>) EvClosed)
      else
        let batch = (case recv of RecvData bs \<Rightarrow> bs | _ \<Rightarrow> []);
            (more, c1) = pump_loop send (cl_in c @ batch) (cl_in_off c) c
        in if more \<and> cl_in_off c1 > 4096
           then (0, c1\<lparr>cl_in := drop (cl_in_off c1) (cl_in c1), cl_in_off := 0\<rparr>)
           else (0, c1))"

subsection \<open>Decoding a snapshot\<close>

record snapshot_text =
  st_text_id :: u32
  st_text_data :: bytes

record snapshot_node =
  sn_id :: u32
  sn_parent :: u32
  sn_role :: u16
  sn_flags :: u8
  sn_rect :: rect
  sn_style :: u32
  sn_effect :: u32
  sn_tex :: u32
  sn_texts :: "nat option"   \<comment> \<open>index of the first text in the text buffer\<close>
  sn_text_count :: nat

text \<open>The texts of a node: the offset after them, the text buffer, and how many texts there
  have been in all.\<close>

fun parse_texts :: "bytes \<Rightarrow> u32 \<Rightarrow> nat \<Rightarrow> nat \<Rightarrow> u32 \<Rightarrow> snapshot_text list \<Rightarrow> nat \<Rightarrow>
    (u32 \<times> snapshot_text list \<times> nat) option" where
  "parse_texts p plen texts_cap 0 off buf filled = Some (off, buf, filled)"
| "parse_texts p plen texts_cap (Suc n) off buf filled =
     (if plen - off < 8 then None
      else
        let tl = scene_get_u32 p (unat (off + 4))
        in if plen - off < 8 + tl then None
           else parse_texts p plen texts_cap n (off + (8 + tl))
                  (if filled < texts_cap
                   then buf @ [\<lparr>st_text_id = scene_get_u32 p (unat off),
                                st_text_data = slice p (unat (off + 8)) (unat tl)\<rparr>]
                   else buf) (filled + 1))"

definition parse_node :: "bytes \<Rightarrow> u32 \<Rightarrow> nat \<Rightarrow> nat \<Rightarrow> snapshot_node" where
  "parse_node p off tcount fill_start =
     \<lparr>sn_id = scene_get_u32 p (unat off), sn_parent = scene_get_u32 p (unat (off + 4)),
      sn_role = scene_get_u16 p (unat (off + 8)), sn_flags = rd p (unat (off + 10)),
      sn_rect = read_rect p (unat (off + 11)), sn_style = scene_get_u32 p (unat (off + 27)),
      sn_effect = scene_get_u32 p (unat (off + 31)), sn_tex = scene_get_u32 p (unat (off + 35)),
      sn_texts = (if tcount \<noteq> 0 then Some fill_start else None), sn_text_count = tcount\<rparr>"

fun parse_nodes :: "bytes \<Rightarrow> u32 \<Rightarrow> nat \<Rightarrow> nat \<Rightarrow> nat \<Rightarrow> u32 \<Rightarrow> snapshot_node list \<Rightarrow>
    snapshot_text list \<Rightarrow> nat \<Rightarrow> (u32 \<times> snapshot_node list \<times> snapshot_text list \<times> nat) option" where
  "parse_nodes p plen cap texts_cap 0 off nodes buf filled = Some (off, nodes, buf, filled)"
| "parse_nodes p plen cap texts_cap (Suc n) off nodes buf filled =
     (if plen - off < 43 then None
      else
        let tcount = unat (scene_get_u32 p (unat (off + 39)))
        in case parse_texts p plen texts_cap tcount (off + 43) buf filled of
             None \<Rightarrow> None
           | Some (off', buf', filled') \<Rightarrow>
               parse_nodes p plen cap texts_cap n off'
                 (if length nodes < cap then nodes @ [parse_node p off tcount filled] else nodes)
                 buf' filled')"

record parsed =
  ps_seq :: u64
  ps_tex_count :: u32
  ps_texts_used :: nat
  ps_count :: u32
  ps_nodes :: "snapshot_node list"
  ps_texts :: "snapshot_text list"
  ps_texes :: "u32 list"

definition scene_snapshot_parse :: "bytes \<Rightarrow> u32 \<Rightarrow> nat \<Rightarrow> nat \<Rightarrow> nat \<Rightarrow> parsed option" where
  "scene_snapshot_parse p plen cap texts_cap tex_cap =
     (if plen < 16 then None
      else
        let seq = scene_get_u64 p 0;
            count = scene_get_u32 p 8;
            texc = scene_get_u32 p 12
        in case parse_nodes p plen cap texts_cap (unat count) 16 [] [] 0 of
             None \<Rightarrow> None
           | Some (off, nodes, buf, filled) \<Rightarrow>
               if texc \<noteq> 0 \<and> plen - off < texc * 15 then None
               else if off + texc * 15 \<noteq> plen then None
               else Some \<lparr>ps_seq = seq, ps_tex_count = texc, ps_texts_used = filled,
                          ps_count = count, ps_nodes = nodes, ps_texts = buf,
                          ps_texes = map (\<lambda>j. scene_get_u32 p (unat (off + of_nat j * 15)))
                                       [0..<min tex_cap (unat texc)]\<rparr>)"

end
