(* ===== verification/Frames.thy ===== *)
theory Frames
  imports Ingest
begin

text \<open>
  What the operations of a session leave alone. An operation on a scene changes the scene and
  the outbound queue of its context and nothing else, and sends nothing when it is silent;
  hence the replay machinery touches the replay scene only, and the other functions of
  \<open>src/scene_store.c\<close> have the frame they are expected to have.
\<close>

subsection \<open>Operations\<close>

lemma op_frame_intro:
  "r = (st, a) \<or> r = (st, a\<lparr>ac_scene := sc\<rparr>) \<or> r = (st, a\<lparr>ac_scene := sc, ac_out := q\<rparr>) \<Longrightarrow>
   snd r = a\<lparr>ac_scene := ac_scene (snd r), ac_out := ac_out (snd r)\<rparr>"
  by auto

text \<open>The context an operation returns: only the scene and the queue may differ, and the queue
  only when events are on.\<close>

definition framed :: "apply_ctx \<Rightarrow> op_result \<Rightarrow> bool" where
  "framed a r \<longleftrightarrow>
     snd r = a\<lparr>ac_scene := ac_scene (snd r), ac_out := ac_out (snd r)\<rparr> \<and>
     (\<not> ac_events a \<longrightarrow> ac_out (snd r) = ac_out a) \<and>
     (\<forall>e. fst r = OpErr e \<longrightarrow> e \<noteq> 0)"

lemma framed_same [simp]: "framed a (OpOk, a)" "e \<noteq> 0 \<Longrightarrow> framed a (OpErr e, a)"
  by (simp_all add: framed_def)

lemma framed_scene [simp]:
  "framed a (OpOk, a\<lparr>ac_scene := sc\<rparr>)" "e \<noteq> 0 \<Longrightarrow> framed a (OpErr e, a\<lparr>ac_scene := sc\<rparr>)"
  by (simp_all add: framed_def)

lemma framed_put_cell [simp]:
  "framed a (OpOk, put_cell a s n)" "e \<noteq> 0 \<Longrightarrow> framed a (OpErr e, put_cell a s n)"
  by (simp_all add: framed_def put_cell_def)

lemma framed_set_focus [simp]: "framed a (OpOk, set_focus a nid)"
  by (simp add: framed_def set_focus_def Let_def)

lemma framed_if: "(c \<Longrightarrow> framed a x) \<Longrightarrow> (\<not> c \<Longrightarrow> framed a y) \<Longrightarrow> framed a (if c then x else y)"
  by simp

lemma framed_option:
  "framed a x \<Longrightarrow> (\<And>v. m = Some v \<Longrightarrow> framed a (f v)) \<Longrightarrow> framed a (case m of None \<Rightarrow> x | Some v \<Rightarrow> f v)"
  by (cases m) simp_all

lemma op_create_framed: "framed a (op_create a p plen)"
  unfolding op_create_def Let_def
  by (intro framed_if framed_option)
    (auto simp: framed_def with_arena_def put_cell_def split: prod.splits)

lemma op_destroy_framed: "framed a (op_destroy a p plen)"
  unfolding op_destroy_def Let_def by (intro framed_if framed_scene) simp_all

lemma text_set_framed: "framed a (text_set a nid tid p off len)"
  unfolding text_set_def Let_def
  by (intro framed_if framed_option) (auto simp: framed_def put_cell_def)

lemma op_set_text_framed: "framed a (op_set_text a p plen)"
  unfolding op_set_text_def Let_def by (intro framed_if text_set_framed) simp_all

lemma op_set_framed:
  "framed a (op_set_rect a p plen)" "framed a (op_set_flags a p plen)"
  "framed a (op_set_style a p plen)" "framed a (op_set_effect a p plen)"
  "framed a (op_set_texture a p plen)"
  unfolding op_set_rect_def op_set_flags_def op_set_style_def op_set_effect_def op_set_texture_def Let_def
  by (intro framed_if framed_option framed_put_cell framed_same; simp)+

lemma op_focus_framed: "framed a (op_focus a p plen)" "framed a (op_focus_next a p plen)"
  unfolding op_focus_def op_focus_next_def Let_def
  by (intro framed_if framed_option framed_set_focus framed_same; simp)+

lemma apply_op_framed: "framed a (apply_op a opcode p plen)"
  unfolding apply_op_def
  by (intro framed_if op_create_framed op_destroy_framed op_set_text_framed op_set_framed
      op_focus_framed framed_same) simp

lemma apply_op_frame:
  assumes "apply_op a opcode p plen = (st, a')"
  shows "a' = a\<lparr>ac_scene := ac_scene a', ac_out := ac_out a'\<rparr>"
    and "\<not> ac_events a \<Longrightarrow> ac_out a' = ac_out a"
    and "st = OpErr e \<Longrightarrow> e \<noteq> 0"
  using apply_op_framed [of a opcode p plen] assms by (simp_all add: framed_def)

subsection \<open>Replay\<close>

text \<open>Stores that agree outside the replay scene.\<close>

definition session_part :: "scene_store \<Rightarrow> scene_store" where
  "session_part s = s\<lparr>st_replay := st_live s, st_rnodes := False, st_replay_seq := 0\<rparr>"

definition same_session :: "scene_store \<Rightarrow> scene_store \<Rightarrow> bool" where
  "same_session s s' \<longleftrightarrow> session_part s' = session_part s"

lemma same_session_refl [simp]: "same_session s s"
  by (simp add: same_session_def)

lemma same_session_trans: "same_session s s' \<Longrightarrow> same_session s' s'' \<Longrightarrow> same_session s s''"
  by (simp add: same_session_def)

lemma same_session_upd [simp]:
  "same_session s (s\<lparr>st_replay := r\<rparr>)" "same_session s (s\<lparr>st_rnodes := b\<rparr>)"
  "same_session s (s\<lparr>st_replay_seq := q\<rparr>)" "same_session s (s\<lparr>st_replay := r, st_rnodes := b\<rparr>)"
  "same_session s (s\<lparr>st_replay := r, st_rnodes := b, st_replay_seq := q\<rparr>)"
  by (simp_all add: same_session_def session_part_def)

lemma same_sessionD:
  assumes "same_session s s'"
  shows "st_live s' = st_live s" "st_out s' = st_out s" "st_log s' = st_log s"
    "st_log_records s' = st_log_records s" "st_ckpts s' = st_ckpts s" "st_dead s' = st_dead s"
    "st_mode s' = st_mode s" "st_next_seq s' = st_next_seq s" "st_scene_seq s' = st_scene_seq s"
    "st_macros s' = st_macros s" "st_open_macro s' = st_open_macro s" "st_lim s' = st_lim s"
    "st_style_count s' = st_style_count s" "st_effect_count s' = st_effect_count s"
    "st_input_pending s' = st_input_pending s" "st_last_input_seq s' = st_last_input_seq s"
proof -
  have e: "session_part s' = session_part s" using assms by (simp add: same_session_def)
  show "st_live s' = st_live s" using arg_cong [OF e, of st_live] by (simp add: session_part_def)
  show "st_out s' = st_out s" using arg_cong [OF e, of st_out] by (simp add: session_part_def)
  show "st_log s' = st_log s" using arg_cong [OF e, of st_log] by (simp add: session_part_def)
  show "st_log_records s' = st_log_records s" using arg_cong [OF e, of st_log_records] by (simp add: session_part_def)
  show "st_ckpts s' = st_ckpts s" using arg_cong [OF e, of st_ckpts] by (simp add: session_part_def)
  show "st_dead s' = st_dead s" using arg_cong [OF e, of st_dead] by (simp add: session_part_def)
  show "st_mode s' = st_mode s" using arg_cong [OF e, of st_mode] by (simp add: session_part_def)
  show "st_next_seq s' = st_next_seq s" using arg_cong [OF e, of st_next_seq] by (simp add: session_part_def)
  show "st_scene_seq s' = st_scene_seq s" using arg_cong [OF e, of st_scene_seq] by (simp add: session_part_def)
  show "st_macros s' = st_macros s" using arg_cong [OF e, of st_macros] by (simp add: session_part_def)
  show "st_open_macro s' = st_open_macro s" using arg_cong [OF e, of st_open_macro] by (simp add: session_part_def)
  show "st_lim s' = st_lim s" using arg_cong [OF e, of st_lim] by (simp add: session_part_def)
  show "st_style_count s' = st_style_count s" using arg_cong [OF e, of st_style_count] by (simp add: session_part_def)
  show "st_effect_count s' = st_effect_count s" using arg_cong [OF e, of st_effect_count] by (simp add: session_part_def)
  show "st_input_pending s' = st_input_pending s" using arg_cong [OF e, of st_input_pending] by (simp add: session_part_def)
  show "st_last_input_seq s' = st_last_input_seq s" using arg_cong [OF e, of st_last_input_seq] by (simp add: session_part_def)
qed

lemma replay_back_same:
  assumes "apply_op (replay_ctx s) opcode p plen = (st, a)"
  shows "same_session s (replay_back s a)"
proof -
  have "ac_out a = st_out s"
    using apply_op_frame(2) [OF assms] by (simp add: replay_ctx_def)
  then show ?thesis
    by (simp add: same_session_def session_part_def replay_back_def)
qed

lemma replay_loop_same: "same_session s (snd (replay_loop log base tgt s))"
proof (induction log base tgt s rule: replay_loop.induct)
  case (1 log base tgt s)
  let ?opc = "scene_get_u16 log 0" and ?plen = "scene_get_u32 log 2"
  let ?rest = "drop (6 + unat ?plen) log" and ?seq = "scene_get_u64 (drop 6 log) 0"
  consider "length log < 6 \<or> 6 + unat ?plen > length log"
    | "\<not> length log < 6" "\<not> 6 + unat ?plen > length log"
      "?plen < 8 \<or> \<not> op_is_scene_affecting ?opc \<or> ?seq \<le> base \<or> ?seq > tgt"
    | "\<not> length log < 6" "\<not> 6 + unat ?plen > length log"
      "\<not> (?plen < 8 \<or> \<not> op_is_scene_affecting ?opc)" "\<not> (?seq \<le> base \<or> ?seq > tgt)"
    by blast
  then show ?case
  proof cases
    case 1
    then show ?thesis by (subst replay_loop.simps) (auto simp: Let_def)
  next
    case 2
    then have "replay_loop log base tgt s = replay_loop ?rest base tgt s"
      by (subst replay_loop.simps) (auto simp: Let_def)
    with 2 "1.IH"(1,2) show ?thesis by (cases "?plen < 8 \<or> \<not> op_is_scene_affecting ?opc") auto
  next
    case 3
    obtain st a where op: "apply_op (replay_ctx s) ?opc (drop 6 log) ?plen = (st, a)" by fastforce
    note rback = replay_back_same [OF op]
    have step: "same_session s ((replay_back s a)\<lparr>st_replay_seq := ?seq\<rparr>)"
      using rback same_session_upd(3) same_session_trans by blast
    show ?thesis
    proof (cases st)
      case OpOk
      then have "replay_loop log base tgt s =
          replay_loop ?rest base tgt ((replay_back s a)\<lparr>st_replay_seq := ?seq\<rparr>)"
        using 3 op by (subst replay_loop.simps) (simp add: Let_def)
      with "1.IH"(3) [OF 3(1) refl refl _ refl refl _ refl 3(4) op [symmetric] OpOk] 3(2,3) step
      show ?thesis using same_session_trans by auto
    next
      case (OpErr e)
      then have "replay_loop log base tgt s = (False, replay_back s a)"
        using 3 op by (subst replay_loop.simps) (simp add: Let_def)
      with rback show ?thesis by simp
    qed
  qed
qed

lemma replay_build_same: "same_session s (snd (replay_build s tgt))"
proof -
  have td: "same_session s (replay_teardown s)"
    by (simp add: replay_teardown_def)
  then have s1: "same_session s ((replay_teardown s)\<lparr>st_replay := r\<rparr>)" for r
    using same_session_upd(1) same_session_trans by blast
  have "same_session s ((replay_teardown s)\<lparr>st_replay := r, st_rnodes := b, st_replay_seq := q\<rparr>)" for r b q
    using td same_session_upd(5) same_session_trans by blast
  then have app: "same_session s (snd (replay_apply_log
      ((replay_teardown s)\<lparr>st_replay := r, st_rnodes := b, st_replay_seq := q\<rparr>) base tgt))" for r b q base
    unfolding replay_apply_log_def using replay_loop_same same_session_trans by blast
  show ?thesis
    using app s1 by (simp add: replay_build_def Let_def split: option.split prod.split)
qed

end
