(* ===== verification/Forest.thy ===== *)
theory Forest
  imports Arena "HOL-Library.Multiset"
begin

text \<open>
  The forest an arena represents, and what linking, unlinking, allocation and release do to
  it. A node of the binary tree carries the subtree of its children on the left and its later
  siblings on the right; \<open>at q f t\<close> edits the children of \<open>q\<close> (the roots for \<open>q = 0\<close>),
  \<open>snoc\<close> appends to a sibling list and \<open>cut\<close> removes from one.

  \<open>arena_wf a t fs xs\<close>: the links represent the forest \<open>t\<close>, the free list is \<open>fs\<close>, and \<open>xs\<close>
  are the allocated slots that are in neither; together they are the slots \<open>1..n\<close>, each once.
\<close>

subsection \<open>Editing a forest\<close>

fun spine :: "'s tree \<Rightarrow> 's list" where
  "spine \<langle>\<rangle> = []"
| "spine \<langle>l, s, r\<rangle> = s # spine r"

fun snoc :: "'s tree \<Rightarrow> 's tree \<Rightarrow> 's tree" where
  "snoc \<langle>\<rangle> x = x"
| "snoc \<langle>l, s, r\<rangle> x = \<langle>l, s, snoc r x\<rangle>"

fun cut :: "'s \<Rightarrow> 's tree \<Rightarrow> 's tree" where
  "cut s \<langle>\<rangle> = \<langle>\<rangle>"
| "cut s \<langle>l, x, r\<rangle> = (if x = s then r else \<langle>l, x, cut s r\<rangle>)"

fun kids :: "'s \<Rightarrow> 's tree \<Rightarrow> 's tree" where
  "kids q \<langle>\<rangle> = \<langle>\<rangle>"
| "kids q \<langle>l, s, r\<rangle> = (if s = q then l else if q \<in> set_tree l then kids q l else kids q r)"

fun upd_kids :: "'s \<Rightarrow> ('s tree \<Rightarrow> 's tree) \<Rightarrow> 's tree \<Rightarrow> 's tree" where
  "upd_kids q f \<langle>\<rangle> = \<langle>\<rangle>"
| "upd_kids q f \<langle>l, s, r\<rangle> =
     (if s = q then \<langle>f l, s, r\<rangle> else \<langle>upd_kids q f l, s, upd_kids q f r\<rangle>)"

definition kids0 :: "nat \<Rightarrow> nat tree \<Rightarrow> nat tree" where
  "kids0 q t = (if q = 0 then t else kids q t)"

definition at :: "nat \<Rightarrow> (nat tree \<Rightarrow> nat tree) \<Rightarrow> nat tree \<Rightarrow> nat tree" where
  "at q f t = (if q = 0 then f t else upd_kids q f t)"

abbreviation slots :: "'s tree \<Rightarrow> 's multiset" where
  "slots t \<equiv> mset (preorder t)"

lemma mset_inorder [simp]: "mset (inorder t) = slots t"
  by (induction t) auto

lemma distinct_inorder [simp]: "distinct (inorder t) \<longleftrightarrow> distinct (preorder t)"
  by (rule mset_eq_imp_distinct_iff) simp

lemma set_spine: "set (spine t) \<subseteq> set_tree t"
  by (induction t) auto

lemma set_kids: "set_tree (kids q t) \<subseteq> set_tree t"
  by (induction t) auto

lemma set_kids0: "set_tree (kids0 q t) \<subseteq> set_tree t"
  by (simp add: kids0_def set_kids)

lemma kids_absent: "q \<notin> set_tree t \<Longrightarrow> kids q t = \<langle>\<rangle>"
  by (induction t) auto

lemma upd_kids_absent [simp]: "q \<notin> set_tree t \<Longrightarrow> upd_kids q f t = t"
  by (induction t) auto

lemma slots_snoc [simp]: "slots (snoc t x) = slots t + slots x"
  by (induction t) auto

lemma set_snoc [simp]: "set_tree (snoc t x) = set_tree t \<union> set_tree x"
  by (induction t) auto

lemma distinct_kids: "distinct (preorder t) \<Longrightarrow> distinct (preorder (kids q t))"
  by (induction t) auto

lemma distinct_kids0: "distinct (preorder t) \<Longrightarrow> distinct (preorder (kids0 q t))"
  by (simp add: kids0_def distinct_kids)

lemma root_notin_kids: "distinct (preorder t) \<Longrightarrow> s \<notin> set_tree (kids s t)"
  by (induction t) auto

lemma slots_upd_kids:
  "distinct (preorder t) \<Longrightarrow> q \<in> set_tree t \<Longrightarrow>
   slots (upd_kids q f t) + slots (kids q t) = slots t + slots (f (kids q t))"
proof (induction t)
  case (Node l s r)
  show ?case
  proof (cases "s = q")
    case False
    with Node.prems consider "q \<in> set_tree l" "q \<notin> set_tree r" | "q \<notin> set_tree l" "q \<in> set_tree r"
      by auto
    then show ?thesis
      using Node False by cases (auto simp: add.assoc add.commute add.left_commute)
  qed simp
qed simp

lemma slots_at:
  assumes "distinct (preorder t)" "q = 0 \<or> q \<in> set_tree t"
  shows "slots (at q f t) + slots (kids0 q t) = slots t + slots (f (kids0 q t))"
  using assms slots_upd_kids [of t q f] by (auto simp: at_def kids0_def)

lemma slots_cut:
  "distinct (preorder t) \<Longrightarrow> s \<in> set (spine t) \<Longrightarrow>
   slots (cut s t) + slots (kids s t) + {#s#} = slots t"
proof (induction t)
  case (Node l x r)
  then have "x \<noteq> s \<Longrightarrow> s \<notin> set_tree l" using set_spine [of r] by auto
  with Node show ?case by auto
qed simp

lemma kids_kids0:
  "distinct (preorder t) \<Longrightarrow> s \<in> set_tree (kids0 q t) \<Longrightarrow> kids s (kids0 q t) = kids s t"
proof -
  have "distinct (preorder t) \<Longrightarrow> s \<in> set_tree (kids q t) \<Longrightarrow> kids s (kids q t) = kids s t"
  proof (induction t)
    case (Node l x r)
    have "x \<notin> set_tree (kids q l)" "x \<notin> set_tree (kids q r)"
      using Node.prems set_kids [of q l] set_kids [of q r] by auto
    with Node show ?case
      using set_kids [of q l] set_kids [of q r] by (auto split: if_splits)
  qed simp
  then show "distinct (preorder t) \<Longrightarrow> s \<in> set_tree (kids0 q t) \<Longrightarrow> kids s (kids0 q t) = kids s t"
    by (simp add: kids0_def split: if_splits)
qed

lemma spine_kids:
  "distinct (preorder t) \<Longrightarrow> s \<in> set (spine t) \<Longrightarrow> x \<in> set (spine t) \<Longrightarrow> x \<notin> set_tree (kids s t)"
proof (induction t)
  case (Node l y r)
  then show ?case using set_spine [of r] set_kids [of s r] by auto
qed simp

lemma size_kids0: "distinct (preorder t) \<Longrightarrow> size (kids0 q t) \<le> size t"
proof -
  assume d: "distinct (preorder t)"
  have "size (kids0 q t) = card (set_tree (kids0 q t))"
    using distinct_kids0 [OF d, of q] by (metis distinct_card length_preorder set_preorder)
  also have "\<dots> \<le> card (set_tree t)" by (intro card_mono set_kids0) simp
  also have "\<dots> = size t" using d by (metis distinct_card length_preorder set_preorder)
  finally show ?thesis .
qed

subsection \<open>Parents and children\<close>

text \<open>The pairs of parent and child; \<open>p\<close> is the parent of the roots.\<close>

fun edges :: "'s \<Rightarrow> 's tree \<Rightarrow> ('s \<times> 's) set" where
  "edges p \<langle>\<rangle> = {}"
| "edges p \<langle>l, s, r\<rangle> = insert (p, s) (edges s l \<union> edges p r)"

lemma edges_child: "(q, s) \<in> edges p t \<Longrightarrow> s \<in> set_tree t"
  by (induction t arbitrary: p) auto

lemma edges_parent: "(q, s) \<in> edges p t \<Longrightarrow> q = p \<or> q \<in> set_tree t"
  by (induction t arbitrary: p) auto

lemma edge_of: "s \<in> set_tree t \<Longrightarrow> \<exists>q. (q, s) \<in> edges p t"
  by (induction t arbitrary: p) auto

lemma edges_snoc: "edges p (snoc t x) = edges p t \<union> edges p x"
  by (induction t) auto

lemma edges_cut: "edges p (cut s t) \<subseteq> edges p t"
  by (induction t) auto

lemma edges_upd_kids:
  "distinct (preorder t) \<Longrightarrow> q \<in> set_tree t \<Longrightarrow>
   edges p (upd_kids q f t) \<subseteq> edges p t \<union> edges q (f (kids q t))"
proof (induction t arbitrary: p)
  case (Node l s r)
  show ?case
  proof (cases "s = q")
    case False
    with Node.prems consider "q \<in> set_tree l" "q \<notin> set_tree r" | "q \<notin> set_tree l" "q \<in> set_tree r"
      by auto
    then show ?thesis
    proof cases
      case 1
      with Node.IH(1) [of s] Node.prems False show ?thesis by auto
    next
      case 2
      with Node.IH(2) [of p] Node.prems False show ?thesis by auto
    qed
  qed auto
qed simp

lemma edges_at:
  "distinct (preorder t) \<Longrightarrow> q = 0 \<or> q \<in> set_tree t \<Longrightarrow>
   edges 0 (at q f t) \<subseteq> edges 0 t \<union> edges q (f (kids0 q t))"
  using edges_upd_kids [of t q 0 f] by (auto simp: at_def kids0_def)

lemma edges_kids: "q \<in> set_tree t \<Longrightarrow> edges q (kids q t) \<subseteq> edges p t"
proof (induction t arbitrary: p)
  case (Node l s r)
  show ?case
  proof (cases "s = q \<or> q \<in> set_tree l")
    case True
    with Node.IH(1) [of s] show ?thesis by auto
  next
    case False
    with Node.IH(2) [of p] Node.prems show ?thesis by auto
  qed
qed simp

lemma edges_kids0: "q = 0 \<or> q \<in> set_tree t \<Longrightarrow> edges q (kids0 q t) \<subseteq> edges 0 t"
  using edges_kids [of q t 0] by (auto simp: kids0_def)

text \<open>A child stands in the sibling list of its parent.\<close>

lemma edge_spine:
  "distinct (preorder t) \<Longrightarrow> p \<notin> set_tree t \<Longrightarrow> (q, s) \<in> edges p t \<Longrightarrow>
   s \<in> set (spine (if q = p then t else kids q t))"
proof (induction t arbitrary: p)
  case (Node l x r)
  from Node.prems(3) consider "q = p" "s = x" | "(q, s) \<in> edges x l" | "(q, s) \<in> edges p r" by auto
  then show ?case
  proof cases
    case 2
    have "q \<noteq> p" using 2 edges_parent [of q s x l] Node.prems by auto
    moreover have "s \<in> set (spine (if q = x then l else kids q l))"
      using 2 Node.prems by (intro Node.IH(1) [of x]) auto
    ultimately show ?thesis
      using 2 edges_parent [of q s x l] by auto
  next
    case 3
    have ih: "s \<in> set (spine (if q = p then r else kids q r))"
      using 3 Node.prems by (intro Node.IH(2) [of p]) auto
    have "q \<noteq> p \<Longrightarrow> q \<noteq> x \<and> q \<notin> set_tree l"
      using 3 edges_parent [of q s p r] Node.prems by auto
    with ih show ?thesis by auto
  qed simp
qed simp

lemma edge_spine0:
  "distinct (preorder t) \<Longrightarrow> 0 \<notin> set_tree t \<Longrightarrow> (q, s) \<in> edges 0 t \<Longrightarrow> s \<in> set (spine (kids0 q t))"
  using edge_spine [of t 0 q s] by (auto simp: kids0_def)

lemma edge_parent0: "(q, s) \<in> edges 0 t \<Longrightarrow> q = 0 \<or> q \<in> set_tree t"
  by (rule edges_parent)

subsection \<open>Representation under edits\<close>

abbreviation forest :: "cells \<Rightarrow> nat tree \<Rightarrow> bool" where
  "forest h t \<equiv> rep h (nd_first (h 0)) t"

lemma rep_kids: "rep h c t \<Longrightarrow> q \<in> set_tree t \<Longrightarrow> rep h (nd_first (h q)) (kids q t)"
  by (induction t arbitrary: c) auto

lemma rep_kids0: "forest h t \<Longrightarrow> q = 0 \<or> q \<in> set_tree t \<Longrightarrow> rep h (nd_first (h q)) (kids0 q t)"
  using rep_kids by (auto simp: kids0_def)

lemma rep_upd_kids:
  "rep h c t \<Longrightarrow> distinct (preorder t) \<Longrightarrow> q \<in> set_tree t \<Longrightarrow>
   (\<And>x. x \<in> set_tree t \<Longrightarrow> x \<notin> set_tree (kids q t) \<Longrightarrow> x \<noteq> q \<Longrightarrow>
        nd_first (h' x) = nd_first (h x) \<and> nd_next (h' x) = nd_next (h x)) \<Longrightarrow>
   nd_next (h' q) = nd_next (h q) \<Longrightarrow> rep h' (nd_first (h' q)) (f (kids q t)) \<Longrightarrow>
   rep h' c (upd_kids q f t)"
proof (induction t arbitrary: c)
  case (Node l s r)
  show ?case
  proof (cases "s = q")
    case True
    have "rep h' (nd_next (h s)) r \<longleftrightarrow> rep h (nd_next (h s)) r"
      using Node.prems True by (intro rep_cong) auto
    with Node.prems True show ?thesis by auto
  next
    case False
    have s: "nd_first (h' s) = nd_first (h s)" "nd_next (h' s) = nd_next (h s)"
    proof -
      have "s \<notin> set_tree (kids q \<langle>l, s, r\<rangle>)"
        using Node.prems(2) False set_kids [of q l] set_kids [of q r] by (auto split: if_splits)
      then show "nd_first (h' s) = nd_first (h s)" "nd_next (h' s) = nd_next (h s)"
        using Node.prems(4) [of s] False by auto
    qed
    from Node.prems False consider "q \<in> set_tree l" "q \<notin> set_tree r" | "q \<notin> set_tree l" "q \<in> set_tree r"
      by auto
    then show ?thesis
    proof cases
      case 1
      have "rep h' (nd_next (h s)) r \<longleftrightarrow> rep h (nd_next (h s)) r"
        using Node.prems False 1 set_kids [of q l] by (intro rep_cong) auto
      moreover have "rep h' (nd_first (h s)) (upd_kids q f l)"
        using Node.prems False 1 by (intro Node.IH(1)) auto
      ultimately show ?thesis using Node.prems False 1 s by auto
    next
      case 2
      have "rep h' (nd_first (h s)) l \<longleftrightarrow> rep h (nd_first (h s)) l"
        using Node.prems False 2 set_kids [of q r] by (intro rep_cong) auto
      moreover have "rep h' (nd_next (h s)) (upd_kids q f r)"
        using Node.prems False 2 by (intro Node.IH(2)) auto
      ultimately show ?thesis using Node.prems False 2 s by auto
    qed
  qed
qed simp

lemma forest_at:
  assumes "forest h t" "distinct (preorder t)" "q = 0 \<or> q \<in> set_tree t"
    and "\<And>x. x \<in> set_tree t \<Longrightarrow> x \<notin> set_tree (kids0 q t) \<Longrightarrow> x \<noteq> q \<Longrightarrow>
           nd_first (h' x) = nd_first (h x) \<and> nd_next (h' x) = nd_next (h x)"
    and "q \<noteq> 0 \<Longrightarrow> nd_first (h' 0) = nd_first (h 0)"
    and "q \<noteq> 0 \<Longrightarrow> nd_next (h' q) = nd_next (h q)"
    and "rep h' (nd_first (h' q)) (f (kids0 q t))"
  shows "forest h' (at q f t)"
  using assms rep_upd_kids [of h "nd_first (h 0)" t q h' f]
  by (cases "q = 0") (auto simp: at_def kids0_def)

lemma last_sib_snoc:
  "rep h c t \<Longrightarrow> t \<noteq> \<langle>\<rangle> \<Longrightarrow> distinct (preorder t) \<Longrightarrow> size t \<le> fuel \<Longrightarrow>
   last_sib h fuel c \<in> set_tree t \<and>
   (\<forall>h' x. rep h' s x \<longrightarrow>
      (\<forall>y \<in> set_tree t. nd_first (h' y) = nd_first (h y) \<and>
         nd_next (h' y) = (if y = last_sib h fuel c then s else nd_next (h y))) \<longrightarrow>
      rep h' c (snoc t x))"
proof (induction t arbitrary: c fuel)
  case (Node l a r)
  then obtain f where fuel: "fuel = Suc f" by (cases fuel) auto
  have c: "c = a" "a \<noteq> 0" "rep h (nd_first (h a)) l" "rep h (nd_next (h a)) r"
    using Node.prems by auto
  show ?case
  proof (cases r)
    case Leaf
    then have "nd_next (h a) = 0" using c by simp
    then have last: "last_sib h fuel c = a" using c fuel by simp
    have "rep h' c (snoc \<langle>l, a, r\<rangle> x)"
      if "rep h' s x" "\<forall>y \<in> set_tree \<langle>l, a, r\<rangle>. nd_first (h' y) = nd_first (h y) \<and>
         nd_next (h' y) = (if y = a then s else nd_next (h y))" for h' x
    proof -
      have "rep h' (nd_first (h a)) l \<longleftrightarrow> rep h (nd_first (h a)) l"
        using that(2) Node.prems(3) by (intro rep_cong) auto
      with that c Leaf show ?thesis by simp
    qed
    with last show ?thesis by (auto simp: c)
  next
    case (Node l' b r')
    then have b: "nd_next (h a) = b" "b \<noteq> 0" using c by auto
    have dist: "a \<notin> set_tree r" "set_tree l \<inter> set_tree r = {}" "a \<notin> set_tree l"
      using Node.prems(3) by auto
    have ih: "last_sib h f b \<in> set_tree r"
      "\<And>h' x. rep h' s x \<Longrightarrow>
         (\<forall>y \<in> set_tree r. nd_first (h' y) = nd_first (h y) \<and>
            nd_next (h' y) = (if y = last_sib h f b then s else nd_next (h y))) \<Longrightarrow>
         rep h' b (snoc r x)"
      using Node.IH(2) [of b f] Node.prems fuel c b Node by auto
    have last: "last_sib h fuel c = last_sib h f b" using c b fuel by simp
    have "rep h' c (snoc \<langle>l, a, r\<rangle> x)"
      if "rep h' s x" "\<forall>y \<in> set_tree \<langle>l, a, r\<rangle>. nd_first (h' y) = nd_first (h y) \<and>
         nd_next (h' y) = (if y = last_sib h f b then s else nd_next (h y))" for h' x
    proof -
      have "rep h' b (snoc r x)" using that by (intro ih(2)) auto
      moreover have "rep h' (nd_first (h a)) l \<longleftrightarrow> rep h (nd_first (h a)) l"
        using that(2) dist ih(1) by (intro rep_cong) auto
      moreover have "nd_next (h' a) = b" "nd_first (h' a) = nd_first (h a)"
        using that(2) dist ih(1) b by auto
      ultimately show ?thesis using c by simp
    qed
    with last ih(1) show ?thesis by auto
  qed
qed simp

lemma pred_sib_cut:
  "rep h0 c t \<Longrightarrow> distinct (preorder t) \<Longrightarrow> s \<in> set (spine t) \<Longrightarrow> c \<noteq> s \<Longrightarrow> size t \<le> fuel \<Longrightarrow>
   (\<And>x. x \<in> set (spine t) \<Longrightarrow> x \<noteq> s \<Longrightarrow> nd_next (h x) = nd_next (h0 x)) \<Longrightarrow>
   pred_sib h s fuel c \<in> set (spine t) \<and> pred_sib h s fuel c \<noteq> s \<and>
   (\<forall>h'. (\<forall>x \<in> set_tree t. x \<noteq> s \<longrightarrow> x \<notin> set_tree (kids s t) \<longrightarrow>
            nd_first (h' x) = nd_first (h0 x) \<and>
            nd_next (h' x) = (if x = pred_sib h s fuel c then nd_next (h0 s) else nd_next (h0 x)))
         \<longrightarrow> rep h' c (cut s t))"
proof (induction t arbitrary: c fuel)
  case (Node l x r)
  then obtain f where fuel: "fuel = Suc f" by (cases fuel) auto
  have c: "c = x" "x \<noteq> 0" "rep h0 (nd_first (h0 x)) l" "rep h0 (nd_next (h0 x)) r" and xs: "x \<noteq> s"
    using Node.prems by auto
  have sr: "s \<in> set (spine r)" "s \<in> set_tree r"
    using Node.prems(3) xs set_spine [of r] by auto
  then obtain l' b r' where r: "r = \<langle>l', b, r'\<rangle>" by (cases r) auto
  then have b: "nd_next (h0 x) = b" using c by simp
  have hx: "nd_next (h x) = b" using Node.prems(6) [of x] xs b by simp
  have dist: "x \<notin> set_tree r" "x \<notin> set_tree l" "set_tree l \<inter> set_tree r = {}" "distinct (preorder r)"
    using Node.prems(2) by auto
  have kids: "kids s \<langle>l, x, r\<rangle> = kids s r" using sr dist xs by auto
  have outside: "y \<noteq> s" "y \<notin> set_tree (kids s r)" if "y \<in> set_tree l \<or> y = x" for y
    using that dist sr set_kids [of s r] by auto
  define z where "z = pred_sib h s fuel c"
  define R where "R = (\<lambda>(h' :: cells) K. \<forall>y \<in> set_tree K. y \<noteq> s \<longrightarrow> y \<notin> set_tree (kids s r) \<longrightarrow>
      nd_first (h' y) = nd_first (h0 y) \<and>
      nd_next (h' y) = (if y = z then nd_next (h0 s) else nd_next (h0 y)))"
  have goal: "z \<in> set (spine \<langle>l, x, r\<rangle>) \<and> z \<noteq> s \<and> (\<forall>h'. R h' \<langle>l, x, r\<rangle> \<longrightarrow> rep h' c (cut s \<langle>l, x, r\<rangle>))"
  proof (cases "b = s")
    case True
    then have z: "z = x" by (simp add: z_def fuel c hx)
    have "rep h' c (cut s \<langle>l, x, r\<rangle>)" if R: "R h' \<langle>l, x, r\<rangle>" for h'
    proof -
      have "nd_first (h' x) = nd_first (h0 x)" "nd_next (h' x) = nd_next (h0 s)"
        using R outside [of x] by (auto simp: R_def z)
      moreover have "rep h' (nd_first (h0 x)) l \<longleftrightarrow> rep h0 (nd_first (h0 x)) l"
        using R outside dist by (intro rep_cong) (auto simp: R_def z)
      moreover have "y \<in> set_tree r' \<Longrightarrow> y \<noteq> s \<and> y \<notin> set_tree (kids s r) \<and> y \<noteq> x" for y
        using dist r True by auto
      then have "rep h' (nd_next (h0 s)) r' \<longleftrightarrow> rep h0 (nd_next (h0 s)) r'"
        using R r by (intro rep_cong) (auto simp: R_def z)
      ultimately show ?thesis using c r True xs by auto
    qed
    with z xs show ?thesis by auto
  next
    case False
    then have z: "z = pred_sib h s f b" by (simp add: z_def fuel c hx)
    have "rep h0 b r" using c b by simp
    then have ih: "z \<in> set (spine r)" "z \<noteq> s" "\<And>h'. R h' r \<Longrightarrow> rep h' b (cut s r)"
      using Node.IH(2) [of b f] Node.prems(5,6) sr dist False fuel
      unfolding z R_def by auto
    then have zr: "z \<in> set_tree r" using set_spine [of r] by auto
    have "rep h' c (cut s \<langle>l, x, r\<rangle>)" if R: "R h' \<langle>l, x, r\<rangle>" for h'
    proof -
      have "nd_first (h' x) = nd_first (h0 x)" "nd_next (h' x) = b"
        using R outside [of x] zr dist b by (auto simp: R_def)
      moreover have "rep h' (nd_first (h0 x)) l \<longleftrightarrow> rep h0 (nd_first (h0 x)) l"
        using R outside dist zr by (intro rep_cong) (auto simp: R_def)
      moreover have "rep h' b (cut s r)" using R by (intro ih(3)) (auto simp: R_def)
      ultimately show ?thesis using c xs by auto
    qed
    with ih show ?thesis by auto
  qed
  then show ?case unfolding z_def [symmetric] kids R_def .
qed simp

subsection \<open>Linking and unlinking\<close>

text \<open>Linking leaves everything of a node but its links as it was.\<close>

definition payload :: "node \<Rightarrow> node" where
  "payload n = n\<lparr>nd_parent := 0, nd_first := 0, nd_next := 0, nd_depth := 0\<rparr>"

lemma payload_links [simp]:
  "payload (n\<lparr>nd_first := a\<rparr>) = payload n" "payload (n\<lparr>nd_next := a\<rparr>) = payload n"
  "payload (n\<lparr>nd_parent := a\<rparr>) = payload n" "payload (n\<lparr>nd_depth := a\<rparr>) = payload n"
  by (simp_all add: payload_def)

lemma payload_sel [simp]:
  "nd_id (payload n) = nd_id n" "nd_role (payload n) = nd_role n" "nd_flags (payload n) = nd_flags n"
  "nd_stale (payload n) = nd_stale n" "nd_texts (payload n) = nd_texts n"
  "nd_rect (payload n) = nd_rect n" "nd_style (payload n) = nd_style n"
  "nd_effect (payload n) = nd_effect n" "nd_tex (payload n) = nd_tex n"
  "nd_tex_src (payload n) = nd_tex_src n" "nd_blend (payload n) = nd_blend n"
  "nd_opacity (payload n) = nd_opacity n" "nd_first (payload n) = 0" "nd_next (payload n) = 0"
  by (simp_all add: payload_def)

lemma payload_eqD:
  assumes "payload m = payload n"
  shows "nd_id m = nd_id n" "nd_stale m = nd_stale n" "nd_flags m = nd_flags n"
    "nd_texts m = nd_texts n"
  using payload_sel assms by metis+

lemma attach_forest:
  fixes dep :: nat
  assumes f: "forest (ar_nodes a) t" and d: "distinct (preorder t)"
    and p: "p = 0 \<or> p \<in> set_tree t" and s: "s \<noteq> 0" "s \<notin> set_tree t"
    and l: "rep (ar_nodes a) (nd_first (ar_nodes a s)) l" "s \<notin> set_tree l"
      "set_tree l \<inter> set_tree t = {}" "p \<notin> set_tree l"
    and n: "nd_next (ar_nodes a s) = 0" and cap: "size t \<le> ar_cap a"
  defines "h \<equiv> ar_nodes a" and "h' \<equiv> ar_nodes (attach a p s dep)"
  shows "forest h' (at p (\<lambda>k. snoc k \<langle>l, s, \<langle>\<rangle>\<rangle>) t)"
    and "nd_parent (h' s) = p" "nd_depth (h' s) = dep"
    and "x \<noteq> s \<Longrightarrow> nd_parent (h' x) = nd_parent (h x) \<and> nd_depth (h' x) = nd_depth (h x)"
    and "payload (h' x) = payload (h x)"
    and "x \<notin> set_tree t \<Longrightarrow> x \<noteq> p \<Longrightarrow> x \<noteq> s \<Longrightarrow> h' x = h x"
    and "ar_cap (attach a p s dep) = ar_cap a" "ar_count (attach a p s dep) = ar_count a"
    and "ar_free (attach a p s dep) = ar_free a"
proof -
  let ?K = "kids0 p t" and ?c = "nd_first (h p)"
  let ?z = "last_sib h (ar_cap a) ?c"
  have K: "rep h ?c ?K" using f p by (simp add: rep_kids0 h_def)
  have sp: "s \<noteq> p" using s p by auto
  have z0: "0 \<notin> set_tree t" using f by (rule rep_nonzero)
  have pK: "p \<notin> set_tree ?K"
    using p z0 root_notin_kids [OF d, of p] by (auto simp: kids0_def)
  have zall: "?z \<in> set_tree ?K \<and> (\<forall>h' x. rep h' s x \<longrightarrow>
      (\<forall>y \<in> set_tree ?K. nd_first (h' y) = nd_first (h y) \<and>
         nd_next (h' y) = (if y = ?z then s else nd_next (h y))) \<longrightarrow> rep h' ?c (snoc ?K x))"
    if "?c \<noteq> 0"
  proof (rule last_sib_snoc [OF K])
    show "?K \<noteq> \<langle>\<rangle>" using K that by auto
    show "size ?K \<le> ar_cap a" using size_kids0 [OF d, of p] cap by simp
  qed (rule distinct_kids0 [OF d])
  have zK: "?c \<noteq> 0 \<Longrightarrow> ?z \<in> set_tree ?K" using zall by (rule conjunct1)
  have h': "h' = (if ?c = 0 then h(p := (h p)\<lparr>nd_first := s\<rparr>, s := (h s)\<lparr>nd_parent := p, nd_depth := dep\<rparr>)
      else h(?z := (h ?z)\<lparr>nd_next := s\<rparr>, s := (h s)\<lparr>nd_parent := p, nd_depth := dep\<rparr>))"
    using sp zK set_kids0 [of p t] s unfolding h'_def h_def attach_def Let_def
    by (auto simp: fun_eq_iff)
  have zt: "?c \<noteq> 0 \<Longrightarrow> ?z \<in> set_tree t \<and> ?z \<noteq> s \<and> ?z \<noteq> p \<and> ?z \<noteq> 0"
    using zK set_kids0 [of p t] s z0 pK by (metis in_mono)
  have lr: "rep h' s \<langle>l, s, \<langle>\<rangle>\<rangle>"
  proof -
    have "rep h' (nd_first (h s)) l \<longleftrightarrow> rep h (nd_first (h s)) l"
      using l zt by (intro rep_cong) (auto simp: h')
    then show ?thesis using l s n zt by (auto simp: h' h_def)
  qed
  show "forest h' (at p (\<lambda>k. snoc k \<langle>l, s, \<langle>\<rangle>\<rangle>) t)"
  proof (rule forest_at [OF f d p])
    fix x assume "x \<in> set_tree t" "x \<notin> set_tree ?K" "x \<noteq> p"
    with zK s show "nd_first (h' x) = nd_first (ar_nodes a x) \<and> nd_next (h' x) = nd_next (ar_nodes a x)"
      by (auto simp: h' h_def)
  next
    assume "p \<noteq> 0"
    then show "nd_first (h' 0) = nd_first (ar_nodes a 0)" using s zt by (auto simp: h' h_def)
    show "nd_next (h' p) = nd_next (ar_nodes a p)" using sp zt by (auto simp: h' h_def)
  next
    show "rep h' (nd_first (h' p)) (snoc ?K \<langle>l, s, \<langle>\<rangle>\<rangle>)"
    proof (cases "?c = 0")
      case True
      then have "?K = \<langle>\<rangle>" using K by (cases ?K) auto
      with lr sp True show ?thesis by (simp add: h')
    next
      case False
      have "\<forall>y \<in> set_tree ?K. nd_first (h' y) = nd_first (h y) \<and>
         nd_next (h' y) = (if y = ?z then s else nd_next (h y))"
        using False s set_kids0 [of p t] by (auto simp: h')
      with zall [OF False] lr have "rep h' ?c (snoc ?K \<langle>l, s, \<langle>\<rangle>\<rangle>)" by blast
      then show ?thesis using False sp zt by (simp add: h')
    qed
  qed
  show "nd_parent (h' s) = p" "nd_depth (h' s) = dep" by (simp_all add: h')
  show "x \<noteq> s \<Longrightarrow> nd_parent (h' x) = nd_parent (h x) \<and> nd_depth (h' x) = nd_depth (h x)"
    by (auto simp: h')
  show "payload (h' x) = payload (h x)" by (auto simp: h')
  show "x \<notin> set_tree t \<Longrightarrow> x \<noteq> p \<Longrightarrow> x \<noteq> s \<Longrightarrow> h' x = h x"
    using zt by (auto simp: h')
  show "ar_cap (attach a p s dep) = ar_cap a" "ar_count (attach a p s dep) = ar_count a"
    "ar_free (attach a p s dep) = ar_free a"
    by (simp_all add: attach_def Let_def)
qed

text \<open>
  Unlinking reads only the parent of the node and its siblings, so the heap it runs on may
  differ from the represented one on the descendants of the node.
\<close>

lemma detach_forest:
  assumes f: "forest h0 t" and d: "distinct (preorder t)" and e: "(p, s) \<in> edges 0 t"
    and par: "nd_parent (h0 s) = p"
    and same: "\<And>x. x \<notin> set_tree (kids s t) \<Longrightarrow> ar_nodes a x = h0 x" and cap: "size t \<le> ar_cap a"
  defines "h \<equiv> ar_nodes a" and "h' \<equiv> ar_nodes (detach a s)"
  shows "forest h' (at p (cut s) t)"
    and "nd_first (h' s) = nd_first (h0 s)" "nd_next (h' s) = 0" "nd_parent (h' s) = 0"
    and "x \<noteq> s \<Longrightarrow> nd_parent (h' x) = nd_parent (h x)"
    and "nd_depth (h' x) = nd_depth (h x)" "payload (h' x) = payload (h x)"
    and "x \<noteq> p \<Longrightarrow> x \<noteq> s \<Longrightarrow> x \<notin> set_tree (kids0 p t) - set_tree (kids s t) \<Longrightarrow> h' x = h x"
    and "ar_cap (detach a s) = ar_cap a" "ar_count (detach a s) = ar_count a"
    and "ar_free (detach a s) = ar_free a"
proof -
  let ?K = "kids0 p t" and ?c = "nd_first (h p)"
  let ?z = "pred_sib h s (ar_cap a) ?c"
  have z0: "0 \<notin> set_tree t" using f by (rule rep_nonzero)
  have p: "p = 0 \<or> p \<in> set_tree t" using e by (rule edge_parent0)
  have sK: "s \<in> set (spine ?K)" using d z0 e by (rule edge_spine0)
  then have sK': "s \<in> set_tree ?K" using set_spine [of ?K] by blast
  have kid: "kids s ?K = kids s t" using d sK' by (rule kids_kids0)
  have st: "s \<in> set_tree t" "s \<noteq> 0" using sK' set_kids0 [of p t] z0 by (blast, metis in_mono)
  have pK: "p \<notin> set_tree ?K"
    using p z0 root_notin_kids [OF d, of p] by (auto simp: kids0_def)
  have sp: "s \<noteq> p" using sK' pK by auto
  have sub: "set_tree (kids s t) \<subseteq> set_tree ?K" unfolding kid [symmetric] by (rule set_kids)
  have hp: "h p = h0 p" using same [of p] pK sub by (auto simp: h_def)
  have hs: "h s = h0 s" using same [of s] root_notin_kids [OF d, of s] by (auto simp: h_def)
  have K: "rep h0 ?c ?K" using f p hp by (simp add: rep_kids0)
  have c0: "?c \<noteq> 0"
  proof
    assume "?c = 0"
    with K have "?K = \<langle>\<rangle>" by (cases ?K) auto
    with sK show False by simp
  qed
  have spine: "nd_next (h x) = nd_next (h0 x)" if "x \<in> set (spine ?K)" "x \<noteq> s" for x
    using same [of x] spine_kids [OF distinct_kids0 [OF d] sK that(1)] by (simp add: h_def kid)
  have fuel: "size ?K \<le> ar_cap a" using size_kids0 [OF d, of p] cap by simp
  have zall: "?z \<in> set_tree ?K \<and> ?z \<noteq> s \<and> ?z \<notin> set_tree (kids s t) \<and>
      (\<forall>h'. (\<forall>x \<in> set_tree ?K. x \<noteq> s \<longrightarrow> x \<notin> set_tree (kids s t) \<longrightarrow>
            nd_first (h' x) = nd_first (h0 x) \<and>
            nd_next (h' x) = (if x = ?z then nd_next (h0 s) else nd_next (h0 x)))
         \<longrightarrow> rep h' ?c (cut s ?K))" if "?c \<noteq> s"
  proof -
    have *: "?z \<in> set (spine ?K) \<and> ?z \<noteq> s \<and>
      (\<forall>h'. (\<forall>x \<in> set_tree ?K. x \<noteq> s \<longrightarrow> x \<notin> set_tree (kids s ?K) \<longrightarrow>
            nd_first (h' x) = nd_first (h0 x) \<and>
            nd_next (h' x) = (if x = ?z then nd_next (h0 s) else nd_next (h0 x)))
         \<longrightarrow> rep h' ?c (cut s ?K))"
      using K distinct_kids0 [OF d] sK that fuel spine by (rule pred_sib_cut)
    then have "?z \<notin> set_tree (kids s t)"
      using spine_kids [OF distinct_kids0 [OF d] sK, of ?z] by (simp add: kid)
    with * show ?thesis using set_spine [of ?K] by (auto simp: kid)
  qed
  have zK: "?c \<noteq> s \<Longrightarrow> ?z \<in> set_tree ?K \<and> ?z \<noteq> s \<and> ?z \<notin> set_tree (kids s t)"
    using zall by blast
  have zt: "?c \<noteq> s \<Longrightarrow> ?z \<in> set_tree t \<and> ?z \<noteq> p \<and> ?z \<noteq> 0"
    using zK set_kids0 [of p t] z0 pK by (metis in_mono)
  have h': "h' = (if ?c = s then h(p := (h p)\<lparr>nd_first := nd_next (h s)\<rparr>, s := (h s)\<lparr>nd_next := 0, nd_parent := 0\<rparr>)
      else h(?z := (h ?z)\<lparr>nd_next := nd_next (h s)\<rparr>, s := (h s)\<lparr>nd_next := 0, nd_parent := 0\<rparr>))"
    using sp zK c0 par hs unfolding h'_def h_def detach_def Let_def by (auto simp: fun_eq_iff)
  show "forest h' (at p (cut s) t)"
  proof (rule forest_at [OF f d p])
    fix x assume "x \<in> set_tree t" "x \<notin> set_tree ?K" "x \<noteq> p"
    moreover from this have "x \<noteq> s" "?c \<noteq> s \<Longrightarrow> x \<noteq> ?z" "h x = h0 x"
      using zK sK' sub same [of x] by (auto simp: h_def)
    ultimately show "nd_first (h' x) = nd_first (h0 x) \<and> nd_next (h' x) = nd_next (h0 x)"
      by (simp add: h')
  next
    assume "p \<noteq> 0"
    moreover have "0 \<notin> set_tree (kids s t)" using z0 set_kids [of s t] by blast
    ultimately show "nd_first (h' 0) = nd_first (h0 0)" using st zt same [of 0] by (auto simp: h' h_def)
    show "nd_next (h' p) = nd_next (h0 p)" using sp zt hp by (auto simp: h' h_def)
  next
    show "rep h' (nd_first (h' p)) (cut s ?K)"
    proof (cases "?c = s")
      case True
      then obtain l r where Kq: "?K = \<langle>l, s, r\<rangle>" using K c0 by (cases ?K) auto
      then have "kids s t = l" using kid by simp
      have h'r: "h' = h(p := (h p)\<lparr>nd_first := nd_next (h s)\<rparr>, s := (h s)\<lparr>nd_next := 0, nd_parent := 0\<rparr>)"
        using h' True by simp
      have "h' y = h0 y" if "y \<in> set_tree r" for y
      proof -
        have "y \<noteq> s" "y \<noteq> p" "y \<notin> set_tree (kids s t)"
          using that distinct_kids0 [OF d, of p] pK by (auto simp: Kq \<open>kids s t = l\<close>)
        with same [of y] show ?thesis by (simp add: h'r h_def)
      qed
      then have "rep h' (nd_next (h0 s)) r \<longleftrightarrow> rep h0 (nd_next (h0 s)) r"
        by (intro rep_cong) simp
      then show ?thesis using K Kq sp hs by (simp add: h' True)
    next
      case False
      have "\<forall>x \<in> set_tree ?K. x \<noteq> s \<longrightarrow> x \<notin> set_tree (kids s t) \<longrightarrow>
            nd_first (h' x) = nd_first (h0 x) \<and>
            nd_next (h' x) = (if x = ?z then nd_next (h0 s) else nd_next (h0 x))"
      proof (intro ballI impI)
        fix y assume "y \<noteq> s" "y \<notin> set_tree (kids s t)" "y \<in> set_tree ?K"
        then have "y \<noteq> s" "h y = h0 y" using same [of y] by (simp_all add: h_def)
        with False hs show "nd_first (h' y) = nd_first (h0 y) \<and>
            nd_next (h' y) = (if y = ?z then nd_next (h0 s) else nd_next (h0 y))"
          by (auto simp: h')
      qed
      with zall [OF False] have "rep h' ?c (cut s ?K)" by blast
      then show ?thesis using False sp zt by (simp add: h')
    qed
  qed
  show "nd_first (h' s) = nd_first (h0 s)" "nd_next (h' s) = 0" "nd_parent (h' s) = 0"
    using hs by (simp_all add: h')
  show "x \<noteq> s \<Longrightarrow> nd_parent (h' x) = nd_parent (h x)"
    "nd_depth (h' x) = nd_depth (h x)" "payload (h' x) = payload (h x)"
    by (auto simp: h')
  show "h' x = h x" if "x \<noteq> p" "x \<noteq> s" "x \<notin> set_tree ?K - set_tree (kids s t)"
    using that zK by (auto simp: h')
  show "ar_cap (detach a s) = ar_cap a" "ar_count (detach a s) = ar_count a"
    "ar_free (detach a s) = ar_free a"
    by (simp_all add: detach_def Let_def)
qed

end
