(* ===== verification/ArenaWf.thy ===== *)
theory ArenaWf
  imports Forest
begin

text \<open>
  Well-formed arenas. \<open>arena_wf a t fs xs\<close> says that the links of \<open>a\<close> represent the forest
  \<open>t\<close> with the parent fields in agreement, that the free list is \<open>fs\<close>, and that these slots
  with the loose ones \<open>xs\<close> (allocated, not linked) are \<open>1..n\<close>, each once. The lemmas show that
  allocation yields a slot in no list, that linking and unlinking move a slot with its
  descendants between \<open>xs\<close> and \<open>t\<close>, and that release moves slots to the free list.
\<close>

fun chain :: "cells \<Rightarrow> nat \<Rightarrow> nat list \<Rightarrow> bool" where
  "chain h c [] \<longleftrightarrow> c = 0"
| "chain h c (x # xs) \<longleftrightarrow> c = x \<and> x \<noteq> 0 \<and> chain h (nd_next (h x)) xs"

lemma chain_cong:
  "(\<And>x. x \<in> set xs \<Longrightarrow> nd_next (h' x) = nd_next (h x)) \<Longrightarrow> chain h' c xs \<longleftrightarrow> chain h c xs"
  by (induction xs arbitrary: c) auto

definition parents_ok :: "cells \<Rightarrow> nat \<Rightarrow> nat tree \<Rightarrow> bool" where
  "parents_ok h p t \<longleftrightarrow> (\<forall>(q, s) \<in> edges p t. nd_parent (h s) = q)"

lemma parents_okD: "parents_ok h p t \<Longrightarrow> (q, s) \<in> edges p t \<Longrightarrow> nd_parent (h s) = q"
  by (auto simp: parents_ok_def)

text \<open>A list of slots is complete when it is a permutation of \<open>1..n\<close>.\<close>

definition slots_ok :: "nat list \<Rightarrow> bool" where
  "slots_ok xs \<longleftrightarrow> distinct xs \<and> set xs = {1..length xs}"

lemma slots_ok_perm: "slots_ok xs \<Longrightarrow> mset ys = mset xs \<Longrightarrow> slots_ok ys"
  unfolding slots_ok_def by (metis mset_eq_imp_distinct_iff mset_eq_length mset_eq_setD)

lemma slots_ok_Suc:
  assumes "slots_ok xs" "mset ys = add_mset (Suc (length xs)) (mset xs)"
  shows "slots_ok ys"
proof -
  have "slots_ok (Suc (length xs) # xs)"
    using assms(1) by (auto simp: slots_ok_def)
  then show ?thesis by (rule slots_ok_perm) (simp add: assms(2))
qed

definition arena_wf :: "arena \<Rightarrow> nat tree \<Rightarrow> nat list \<Rightarrow> nat list \<Rightarrow> bool" where
  "arena_wf a t fs xs \<longleftrightarrow>
     forest (ar_nodes a) t \<and> parents_ok (ar_nodes a) 0 t \<and> chain (ar_nodes a) (ar_free a) fs \<and>
     slots_ok (preorder t @ fs @ xs) \<and> ar_count a = size t + length xs \<and>
     (size t + length fs + length xs < ar_cap a \<or>
      ar_cap a = 0 \<and> size t + length fs + length xs = 0)"

lemma arena_wfD:
  assumes "arena_wf a t fs xs"
  shows "forest (ar_nodes a) t" "parents_ok (ar_nodes a) 0 t" "chain (ar_nodes a) (ar_free a) fs"
    "ar_count a = size t + length xs"
    "distinct (preorder t @ fs @ xs)" "0 \<notin> set_tree t" "0 \<notin> set fs" "0 \<notin> set xs"
    "size t \<le> ar_cap a"
    "s \<in> set_tree t \<or> s \<in> set fs \<or> s \<in> set xs \<Longrightarrow> s < ar_cap a"
    "set_tree t \<union> set fs \<union> set xs = {1..size t + length fs + length xs}"
proof -
  have ok: "slots_ok (preorder t @ fs @ xs)" using assms by (simp add: arena_wf_def)
  then show "distinct (preorder t @ fs @ xs)" by (simp add: slots_ok_def)
  show seq: "set_tree t \<union> set fs \<union> set xs = {1..size t + length fs + length xs}"
    using ok by (simp add: slots_ok_def Un_assoc add.assoc)
  then have "0 \<notin> set_tree t \<union> set fs \<union> set xs" by simp
  then show "0 \<notin> set_tree t" "0 \<notin> set fs" "0 \<notin> set xs" by blast+
  show "forest (ar_nodes a) t" "parents_ok (ar_nodes a) 0 t" "chain (ar_nodes a) (ar_free a) fs"
    "ar_count a = size t + length xs" "size t \<le> ar_cap a"
    using assms by (auto simp: arena_wf_def)
  assume "s \<in> set_tree t \<or> s \<in> set fs \<or> s \<in> set xs"
  then have "s \<in> {1..size t + length fs + length xs}" unfolding seq [symmetric] by blast
  then show "s < ar_cap a" using assms by (auto simp: arena_wf_def)
qed

text \<open>The conditions that depend on the heap only through the links of the slots named.\<close>

lemma arena_wf_cong:
  assumes "arena_wf a t fs xs" "ar_cap b = ar_cap a" "ar_count b = ar_count a" "ar_free b = ar_free a"
    and "nd_first (ar_nodes b 0) = nd_first (ar_nodes a 0)"
    and "\<And>s. s \<in> set_tree t \<Longrightarrow> nd_first (ar_nodes b s) = nd_first (ar_nodes a s) \<and>
           nd_next (ar_nodes b s) = nd_next (ar_nodes a s) \<and> nd_parent (ar_nodes b s) = nd_parent (ar_nodes a s)"
    and "\<And>s. s \<in> set fs \<Longrightarrow> nd_next (ar_nodes b s) = nd_next (ar_nodes a s)"
  shows "arena_wf b t fs xs"
proof -
  have "forest (ar_nodes b) t"
    using assms rep_cong [of t "ar_nodes b" "ar_nodes a"] by (simp add: arena_wf_def)
  moreover have "parents_ok (ar_nodes b) 0 t"
    unfolding parents_ok_def
  proof clarify
    fix q s assume "(q, s) \<in> edges 0 t"
    then show "nd_parent (ar_nodes b s) = q"
      using assms(6) [of s] edges_child [of q s 0 t] parents_okD [of "ar_nodes a" 0 t q s] assms(1)
      by (simp add: arena_wf_def)
  qed
  moreover have "chain (ar_nodes b) (ar_free b) fs"
    using assms chain_cong [of fs "ar_nodes b" "ar_nodes a"] by (simp add: arena_wf_def)
  ultimately show ?thesis using assms by (simp add: arena_wf_def)
qed

subsection \<open>Allocation and release\<close>

lemma arena_alloc_wf:
  assumes wf: "arena_wf a t fs xs"
  defines "s \<equiv> fst (arena_alloc a)" and "b \<equiv> snd (arena_alloc a)"
  shows "\<exists>fs'. arena_wf b t fs' (s # xs)"
    and "s \<noteq> 0" "s \<notin> set_tree t" "s \<notin> set xs" "ar_nodes b = (ar_nodes a)(s := fresh_node)"
proof -
  note d = arena_wfD [OF wf]
  show nodes: "ar_nodes b = (ar_nodes a)(s := fresh_node)"
    by (simp add: s_def b_def arena_alloc_def Let_def)
  have *: "(\<exists>fs'. arena_wf b t fs' (s # xs)) \<and> s \<noteq> 0 \<and> s \<notin> set_tree t \<and> s \<notin> set xs"
  proof (cases fs)
    case Nil
    then have free: "ar_free a = 0" using d(3) by simp
    let ?n = "size t + length xs"
    have s: "s = Suc ?n" using free d(4) by (simp add: s_def arena_alloc_def Let_def)
    have ok: "slots_ok (preorder t @ xs)"
      using wf Nil by (simp add: arena_wf_def)
    have set: "set_tree t \<union> set xs = {1..?n}" using d(11) Nil by simp
    have "s \<notin> set_tree t \<union> set xs" unfolding set s by simp
    then have out: "s \<notin> set_tree t" "s \<notin> set xs" by simp_all
    have slots: "slots_ok (preorder t @ s # xs)"
      by (rule slots_ok_Suc [OF ok]) (simp add: s)
    have "Suc ?n < ar_cap b"
      using wf Nil free d(4) by (auto simp: b_def arena_alloc_def Let_def arena_wf_def)
    moreover have "forest (ar_nodes b) t"
      using d(1,6) out s by (simp add: nodes)
    moreover have "parents_ok (ar_nodes b) 0 t"
      using d(2) out edges_child [of _ s 0 t] by (auto simp: nodes parents_ok_def)
    moreover have "ar_free b = 0" "ar_count b = Suc ?n"
      using free d(4) by (simp_all add: b_def arena_alloc_def Let_def)
    ultimately have "arena_wf b t [] (s # xs)"
      using slots by (simp add: arena_wf_def)
    with out s show ?thesis by auto
  next
    case (Cons f fs')
    then have free: "ar_free a = f" "f \<noteq> 0" "chain (ar_nodes a) (nd_next (ar_nodes a f)) fs'"
      using d(3) by auto
    then have s: "s = f" by (simp add: s_def arena_alloc_def Let_def)
    have out: "s \<notin> set_tree t" "s \<notin> set xs" "s \<notin> set fs'" using d(5) Cons s by auto
    have b: "ar_free b = nd_next (ar_nodes a f)" "ar_count b = ar_count a + 1" "ar_cap b = ar_cap a"
      using free by (simp_all add: b_def arena_alloc_def Let_def)
    have "slots_ok (preorder t @ f # fs' @ xs)" using wf Cons by (simp add: arena_wf_def)
    then have slots: "slots_ok (preorder t @ fs' @ s # xs)"
      by (rule slots_ok_perm) (simp add: s)
    have "forest (ar_nodes b) t"
      using d(1,6) out free s by (simp add: nodes)
    moreover have "parents_ok (ar_nodes b) 0 t"
      using d(2) out edges_child [of _ s 0 t] by (auto simp: nodes parents_ok_def)
    moreover have "chain (ar_nodes b) (ar_free b) fs'"
    proof -
      have "chain (ar_nodes b) c fs' \<longleftrightarrow> chain (ar_nodes a) c fs'" for c
        by (rule chain_cong) (use out in \<open>auto simp: nodes\<close>)
      then show ?thesis using free b by simp
    qed
    ultimately have "arena_wf b t fs' (s # xs)"
      using wf b slots Cons by (simp add: arena_wf_def)
    with out s free show ?thesis by auto
  qed
  then show "\<exists>fs'. arena_wf b t fs' (s # xs)" "s \<noteq> 0" "s \<notin> set_tree t" "s \<notin> set xs" by simp_all
qed

subsection \<open>Linking and unlinking\<close>

lemma attach_loose:
  assumes wf: "arena_wf a t fs xs" and p: "p = 0 \<or> p \<in> set_tree t"
    and xs: "mset xs = add_mset s (slots l) + mset ys"
  shows "s \<noteq> 0" "s \<notin> set_tree t" "s \<notin> set_tree l" "set_tree l \<inter> set_tree t = {}"
      "p \<notin> set_tree l" "distinct (preorder l)"
    and "slots (at p (\<lambda>k. snoc k \<langle>l, s, \<langle>\<rangle>\<rangle>) t) = slots t + add_mset s (slots l)"
    and "edges 0 (at p (\<lambda>k. snoc k \<langle>l, s, \<langle>\<rangle>\<rangle>) t) \<subseteq> edges 0 t \<union> {(p, s)} \<union> edges s l"
    and "set_tree (at p (\<lambda>k. snoc k \<langle>l, s, \<langle>\<rangle>\<rangle>) t) = insert s (set_tree t \<union> set_tree l)"
proof -
  note d = arena_wfD [OF wf]
  have sx: "set xs = insert s (set_tree l \<union> set ys)"
    using arg_cong [OF xs, of set_mset] by simp
  have "mset (s # preorder l @ ys) = mset xs" by (simp add: xs)
  then have "distinct (s # preorder l @ ys)"
    using d(5) by (metis distinct_append mset_eq_imp_distinct_iff)
  then show "s \<noteq> 0" "s \<notin> set_tree t" "s \<notin> set_tree l" "set_tree l \<inter> set_tree t = {}"
      "p \<notin> set_tree l" "distinct (preorder l)"
    using d(5,8) sx p by auto
  have dt: "distinct (preorder t)" using d(5) by simp
  let ?t = "at p (\<lambda>k. snoc k \<langle>l, s, \<langle>\<rangle>\<rangle>) t"
  show slots: "slots ?t = slots t + add_mset s (slots l)"
    using slots_at [OF dt p, of "\<lambda>k. snoc k \<langle>l, s, \<langle>\<rangle>\<rangle>"] by simp
  show "edges 0 ?t \<subseteq> edges 0 t \<union> {(p, s)} \<union> edges s l"
    using edges_at [OF dt p, of "\<lambda>k. snoc k \<langle>l, s, \<langle>\<rangle>\<rangle>"] edges_kids0 [OF p]
    by (auto simp: edges_snoc)
  show "set_tree ?t = insert s (set_tree t \<union> set_tree l)"
    using arg_cong [OF slots, of set_mset] by auto
qed

lemma arena_attach_wf:
  assumes wf: "arena_wf a t fs xs" and p: "p = 0 \<or> p \<in> set_tree t"
    and l: "rep (ar_nodes a) (nd_first (ar_nodes a s)) l" "parents_ok (ar_nodes a) s l"
    and xs: "mset xs = add_mset s (slots l) + mset ys" and n: "nd_next (ar_nodes a s) = 0"
  shows "arena_wf (attach a p s dep) (at p (\<lambda>k. snoc k \<langle>l, s, \<langle>\<rangle>\<rangle>) t) fs ys"
    and "payload (ar_nodes (attach a p s dep) x) = payload (ar_nodes a x)"
    and "nd_depth (ar_nodes (attach a p s dep) s) = dep"
    and "x \<noteq> s \<Longrightarrow> nd_depth (ar_nodes (attach a p s dep) x) = nd_depth (ar_nodes a x)"
proof -
  note d = arena_wfD [OF wf]
  note L = attach_loose [OF wf p xs]
  have dt: "distinct (preorder t)" using d(5) by simp
  note A = attach_forest [where dep = dep, OF d(1) dt p L(1,2) l(1) L(3,4,5) n d(9)]
  let ?t = "at p (\<lambda>k. snoc k \<langle>l, s, \<langle>\<rangle>\<rangle>) t" and ?b = "attach a p s dep"
  have "size (slots ?t) = size (slots t + add_mset s (slots l))" by (simp only: L(7))
  then have "size ?t = size t + Suc (size l)" by simp
  moreover have "length xs = Suc (size l + length ys)"
    using arg_cong [OF xs, of size] by simp
  moreover have "slots_ok (preorder ?t @ fs @ ys)"
  proof (rule slots_ok_perm)
    show "slots_ok (preorder t @ fs @ xs)" using wf by (simp add: arena_wf_def)
  qed (simp add: L(7) xs)
  moreover have "parents_ok (ar_nodes ?b) 0 ?t"
    unfolding parents_ok_def
  proof clarify
    fix q x assume "(q, x) \<in> edges 0 ?t"
    then have "(q, x) \<in> edges 0 t \<or> (q, x) = (p, s) \<or> (q, x) \<in> edges s l"
      using L(8) by blast
    moreover have "(q, x) \<in> edges 0 t \<Longrightarrow> x \<noteq> s" using edges_child [of q x 0 t] L(2) by auto
    moreover have "(q, x) \<in> edges s l \<Longrightarrow> x \<noteq> s" using edges_child [of q x s l] L(3) by auto
    ultimately show "nd_parent (ar_nodes ?b x) = q"
      using A(2) A(4) [of x] parents_okD [OF d(2), of q x] parents_okD [OF l(2), of q x] by auto
  qed
  moreover have "chain (ar_nodes ?b) (ar_free ?b) fs"
  proof -
    have "s \<in> set xs" using arg_cong [OF xs, of set_mset] by auto
    then have "ar_nodes ?b x = ar_nodes a x" if "x \<in> set fs" for x
      using that d(5,7) p by (intro A(6)) auto
    then show ?thesis using d(3) A(9) chain_cong [of fs "ar_nodes ?b" "ar_nodes a"] by simp
  qed
  ultimately show "arena_wf ?b ?t fs ys"
    using wf A(1,7,8) by (simp add: arena_wf_def)
  show "payload (ar_nodes ?b x) = payload (ar_nodes a x)" "nd_depth (ar_nodes ?b s) = dep"
    "x \<noteq> s \<Longrightarrow> nd_depth (ar_nodes ?b x) = nd_depth (ar_nodes a x)"
    using A(3) A(4) [of x] A(5) [of x] by auto
qed

lemma arena_detach_wf:
  assumes wf: "arena_wf a t fs xs" and e: "(p, s) \<in> edges 0 t"
  shows "arena_wf (detach a s) (at p (cut s) t) fs (s # preorder (kids s t) @ xs)"
    and "rep (ar_nodes (detach a s)) (nd_first (ar_nodes (detach a s) s)) (kids s t)"
    and "parents_ok (ar_nodes (detach a s)) s (kids s t)"
    and "nd_next (ar_nodes (detach a s) s) = 0"
    and "payload (ar_nodes (detach a s) x) = payload (ar_nodes a x)"
    and "nd_depth (ar_nodes (detach a s) x) = nd_depth (ar_nodes a x)"
proof -
  note d = arena_wfD [OF wf]
  have dt: "distinct (preorder t)" using d(5) by simp
  have p: "p = 0 \<or> p \<in> set_tree t" using e by (rule edge_parent0)
  have st: "s \<in> set_tree t" using e by (rule edges_child)
  note D = detach_forest [OF d(1) dt e parents_okD [OF d(2) e] refl d(9)]
  have sK: "s \<in> set (spine (kids0 p t))" using edge_spine0 [OF dt d(6) e] .
  have kid: "kids s (kids0 p t) = kids s t"
    using kids_kids0 [OF dt] sK set_spine [of "kids0 p t"] by blast
  have sub: "set_tree (kids s t) \<subseteq> set_tree (kids0 p t)"
    using set_kids [of s "kids0 p t"] by (simp add: kid)
  let ?t = "at p (cut s) t" and ?b = "detach a s"
  have slots: "slots ?t + add_mset s (slots (kids s t)) = slots t"
  proof -
    define X where "X = add_mset s (slots (kids s t))"
    have "slots ?t + slots (kids0 p t) = slots t + slots (cut s (kids0 p t))"
      by (rule slots_at [OF dt p])
    moreover have "slots (kids0 p t) = slots (cut s (kids0 p t)) + X"
      using slots_cut [OF distinct_kids0 [OF dt] sK] by (simp add: kid X_def)
    ultimately have "slots ?t + X + slots (cut s (kids0 p t)) = slots t + slots (cut s (kids0 p t))"
      by (simp add: ac_simps)
    then show ?thesis by (simp add: X_def)
  qed
  then have size: "size ?t + Suc (size (kids s t)) = size t"
  proof -
    have "size (slots ?t + add_mset s (slots (kids s t))) = size (slots t)" by (simp only: slots)
    then show ?thesis by simp
  qed
  have eq: "slots_ok (preorder ?t @ fs @ s # preorder (kids s t) @ xs)"
  proof (rule slots_ok_perm)
    show "slots_ok (preorder t @ fs @ xs)" using wf by (simp add: arena_wf_def)
  qed (simp add: slots [symmetric])
  have sub_edges: "edges 0 ?t \<subseteq> edges 0 t"
    using edges_at [OF dt p, of "cut s"] edges_cut [of p s "kids0 p t"] edges_kids0 [OF p] by blast
  have "s \<notin> set_tree ?t"
  proof -
    have "mset (preorder ?t @ s # preorder (kids s t)) = mset (preorder t)"
      using slots by simp
    then have "distinct (preorder ?t @ s # preorder (kids s t))"
      using dt by (metis mset_eq_imp_distinct_iff)
    then show ?thesis by simp
  qed
  then have "parents_ok (ar_nodes ?b) 0 ?t"
    unfolding parents_ok_def
  proof clarify
    fix q x assume "s \<notin> set_tree ?t" "(q, x) \<in> edges 0 ?t"
    then have "x \<noteq> s" "(q, x) \<in> edges 0 t" using edges_child [of q x 0 ?t] sub_edges by auto
    then show "nd_parent (ar_nodes ?b x) = q"
      using D(5) [of x] parents_okD [OF d(2), of q x] by simp
  qed
  moreover have "chain (ar_nodes ?b) (ar_free ?b) fs"
  proof -
    have "ar_nodes ?b x = ar_nodes a x" if "x \<in> set fs" for x
    proof -
      have "x \<notin> set_tree t" "x \<noteq> 0" using that d(5,7) by auto
      then show ?thesis using p st set_kids0 [of p t] by (intro D(8)) auto
    qed
    then show ?thesis using d(3) D(11) chain_cong [of fs "ar_nodes ?b" "ar_nodes a"] by simp
  qed
  moreover have "ar_count ?b = size ?t + length (s # preorder (kids s t) @ xs)"
    using d(4) D(10) size by simp
  ultimately show "arena_wf ?b ?t fs (s # preorder (kids s t) @ xs)"
    using wf D(1,9) eq size by (auto simp: arena_wf_def)
  have same: "ar_nodes ?b x = ar_nodes a x" if "x \<in> set_tree (kids s t)" for x
  proof (rule D(8))
    show "x \<noteq> s" using that root_notin_kids [OF dt, of s] by blast
    show "x \<notin> set_tree (kids0 p t) - set_tree (kids s t)" using that by blast
    have "p \<notin> set_tree (kids0 p t)"
      using p d(6) root_notin_kids [OF dt, of p] by (auto simp: kids0_def)
    then show "x \<noteq> p" using that sub by blast
  qed
  then have "rep (ar_nodes ?b) c (kids s t) \<longleftrightarrow> rep (ar_nodes a) c (kids s t)" for c
    by (intro rep_cong) simp
  then show "rep (ar_nodes ?b) (nd_first (ar_nodes ?b s)) (kids s t)"
    using rep_kids [OF d(1) st] D(2) by simp
  show "parents_ok (ar_nodes ?b) s (kids s t)"
    unfolding parents_ok_def
  proof clarify
    fix q x assume qx: "(q, x) \<in> edges s (kids s t)"
    then have "(q, x) \<in> edges 0 t" "x \<in> set_tree (kids s t)"
      using edges_kids [OF st, of 0] edges_child [OF qx] by auto
    then show "nd_parent (ar_nodes ?b x) = q"
      using same [of x] parents_okD [OF d(2), of q x] by simp
  qed
  show "nd_next (ar_nodes ?b s) = 0" "payload (ar_nodes ?b x) = payload (ar_nodes a x)"
    "nd_depth (ar_nodes ?b x) = nd_depth (ar_nodes a x)"
    by (rule D(3), rule D(7), rule D(6))
qed

end
