(* ===== verification/SceneInv.thy ===== *)
theory SceneInv
  imports ArenaWf Ops
begin

text \<open>
  The invariant of a scene and the document it represents.

  \<open>scene_wf\<close> joins the well-formed arena with the id table: the table maps the id of each
  node of the forest to its slot, and nothing else. \<open>live_ok\<close> is the rule of crash recovery:
  a node that is not stale hangs under one that is not stale, one level deeper.

  The document of a scene (\<open>doc\<close>) is what the protocol talks about: the forest of node ids,
  the attributes of each id, and the focus. \<open>represents sc d\<close> is the simulation relation that
  the operations are shown to maintain in \<open>OpsCorrect\<close>.
\<close>

subsection \<open>The invariant\<close>

definition ids_ok :: "scene \<Rightarrow> nat tree \<Rightarrow> bool" where
  "ids_ok sc t \<longleftrightarrow>
     idmap_inv (sc_idm sc) \<and>
     (\<forall>k. idmap_get (sc_idm sc) k \<noteq> 0 \<longrightarrow>
          idmap_get (sc_idm sc) k \<in> set_tree t \<and> nd_id (cell sc (idmap_get (sc_idm sc) k)) = k) \<and>
     (\<forall>s \<in> set_tree t. idmap_get (sc_idm sc) (nd_id (cell sc s)) = s \<and>
          nd_id (cell sc s) \<noteq> 0 \<and> nd_id (cell sc s) \<noteq> SCENE_NO_PARENT)"

definition live_ok :: "cells \<Rightarrow> nat tree \<Rightarrow> bool" where
  "live_ok h t \<longleftrightarrow>
     (\<forall>(q, s) \<in> edges 0 t. \<not> nd_stale (h s) \<longrightarrow>
        (if q = 0 then nd_depth (h s) = 0
         else \<not> nd_stale (h q) \<and> nd_depth (h s) = nd_depth (h q) + 1))"

definition scene_wf :: "scene \<Rightarrow> nat tree \<Rightarrow> nat list \<Rightarrow> bool" where
  "scene_wf sc t fs \<longleftrightarrow> arena_wf (sc_arena sc) t fs [] \<and> ids_ok sc t"

definition scene_inv :: "scene \<Rightarrow> bool" where
  "scene_inv sc \<longleftrightarrow> (\<exists>t fs. scene_wf sc t fs \<and> live_ok (ar_nodes (sc_arena sc)) t)"

subsection \<open>Documents\<close>

fun prune :: "'s \<Rightarrow> 's tree \<Rightarrow> 's tree" where
  "prune s \<langle>\<rangle> = \<langle>\<rangle>"
| "prune s \<langle>l, x, r\<rangle> = (if x = s then r else \<langle>prune s l, x, prune s r\<rangle>)"

record doc =
  dc_tree :: "u32 tree"
  dc_attr :: "u32 \<Rightarrow> node option"
  dc_focus :: u32

definition under :: "u32 \<Rightarrow> (u32 tree \<Rightarrow> u32 tree) \<Rightarrow> u32 tree \<Rightarrow> u32 tree" where
  "under parent f T = (if parent = SCENE_NO_PARENT then f T else upd_kids parent f T)"

text \<open>A new last child, the removal of a subtree, its move, and a change of attributes.\<close>

definition doc_insert :: "u32 \<Rightarrow> u32 \<Rightarrow> node \<Rightarrow> doc \<Rightarrow> doc" where
  "doc_insert parent nid n d =
     d\<lparr>dc_tree := under parent (\<lambda>k. snoc k \<langle>\<langle>\<rangle>, nid, \<langle>\<rangle>\<rangle>) (dc_tree d),
       dc_attr := (dc_attr d)(nid \<mapsto> n)\<rparr>"

definition doc_delete :: "u32 \<Rightarrow> doc \<Rightarrow> doc" where
  "doc_delete nid d =
     d\<lparr>dc_tree := prune nid (dc_tree d),
       dc_attr := dc_attr d |` (- insert nid (set_tree (kids nid (dc_tree d)))),
       dc_focus := (if dc_focus d = nid then SCENE_NO_PARENT else dc_focus d)\<rparr>"

definition doc_move :: "u32 \<Rightarrow> u32 \<Rightarrow> doc \<Rightarrow> doc" where
  "doc_move parent nid d =
     d\<lparr>dc_tree := under parent (\<lambda>k. snoc k \<langle>kids nid (dc_tree d), nid, \<langle>\<rangle>\<rangle>) (prune nid (dc_tree d))\<rparr>"

definition doc_update :: "u32 \<Rightarrow> (node \<Rightarrow> node) \<Rightarrow> doc \<Rightarrow> doc" where
  "doc_update nid f d = d\<lparr>dc_attr := (dc_attr d)(nid := map_option f (dc_attr d nid))\<rparr>"

definition doc_of :: "scene \<Rightarrow> nat tree \<Rightarrow> doc" where
  "doc_of sc t =
     \<lparr>dc_tree = map_tree (\<lambda>s. nd_id (cell sc s)) t,
      dc_attr = (\<lambda>k. let s = idmap_get (sc_idm sc) k
                     in if s = 0 then None else Some (payload (cell sc s))),
      dc_focus = sc_focus sc\<rparr>"

definition represents :: "scene \<Rightarrow> doc \<Rightarrow> bool" where
  "represents sc d \<longleftrightarrow>
     (\<exists>t fs. scene_wf sc t fs \<and> live_ok (ar_nodes (sc_arena sc)) t \<and> d = doc_of sc t)"

lemma scene_inv_represents: "scene_inv sc \<longleftrightarrow> (\<exists>d. represents sc d)"
  by (auto simp: scene_inv_def represents_def)

subsection \<open>Lookups\<close>

lemma wfD:
  assumes "scene_wf sc t fs"
  shows "arena_wf (sc_arena sc) t fs []" "idmap_inv (sc_idm sc)"
    and "idmap_get (sc_idm sc) k \<noteq> 0 \<Longrightarrow>
         idmap_get (sc_idm sc) k \<in> set_tree t \<and> nd_id (cell sc (idmap_get (sc_idm sc) k)) = k"
    and "s \<in> set_tree t \<Longrightarrow> idmap_get (sc_idm sc) (nd_id (cell sc s)) = s"
    and "s \<in> set_tree t \<Longrightarrow> nd_id (cell sc s) \<noteq> 0 \<and> nd_id (cell sc s) \<noteq> SCENE_NO_PARENT"
    and "distinct (preorder t)" "0 \<notin> set_tree t"
    and "ar_count (sc_arena sc) = size t"
  using assms arena_wfD(4-6) [of "sc_arena sc" t fs "[]"] by (auto simp: scene_wf_def ids_ok_def)

lemma ids_inj: "scene_wf sc t fs \<Longrightarrow> inj_on (\<lambda>s. nd_id (cell sc s)) (set_tree t)"
  by (rule inj_on_inverseI [where g = "idmap_get (sc_idm sc)"]) (rule wfD(4))

lemma live_okD:
  assumes "live_ok h t" "(q, s) \<in> edges 0 t" "\<not> nd_stale (h s)"
  shows "q = 0 \<Longrightarrow> nd_depth (h s) = 0"
    and "q \<noteq> 0 \<Longrightarrow> \<not> nd_stale (h q) \<and> nd_depth (h s) = nd_depth (h q) + 1"
  using assms by (auto simp: live_ok_def split: if_splits)

text \<open>Below a stale node everything is stale.\<close>

lemma stale_below:
  assumes live: "live_ok h t" and s: "s \<in> set_tree t" "nd_stale (h s)" and zero: "0 \<notin> set_tree t"
  shows "x \<in> set_tree (kids s t) \<Longrightarrow> nd_stale (h x)"
proof -
  have down: "nd_stale (h q) \<Longrightarrow> q \<noteq> 0 \<Longrightarrow> edges q l \<subseteq> edges 0 t \<Longrightarrow> 0 \<notin> set_tree l \<Longrightarrow>
      x \<in> set_tree l \<Longrightarrow> nd_stale (h x)" for q l
  proof (induction l arbitrary: q)
    case (Node l y r)
    have "(q, y) \<in> edges 0 t" using Node.prems(3) by auto
    then have "nd_stale (h y)" using live_okD(2) [OF live] Node.prems(1,2) by blast
    then show ?case using Node.IH(1) [of y] Node.IH(2) [of q] Node.prems by auto
  qed simp
  have "s \<noteq> 0" "0 \<notin> set_tree (kids s t)" using s zero set_kids [of s t] by (metis, blast)
  then show "x \<in> set_tree (kids s t) \<Longrightarrow> nd_stale (h x)"
    using down [of s "kids s t"] edges_kids [OF s(1), of 0] s(2) by blast
qed

subsection \<open>Edits on slots and on ids\<close>

lemma prune_absent [simp]: "s \<notin> set_tree t \<Longrightarrow> prune s t = t"
  by (induction t) auto

lemma prune_spine: "distinct (preorder t) \<Longrightarrow> s \<in> set (spine t) \<Longrightarrow> prune s t = cut s t"
proof (induction t)
  case (Node l x r)
  then have "x \<noteq> s \<Longrightarrow> s \<notin> set_tree l" using set_spine [of r] by auto
  with Node show ?case by auto
qed simp

lemma upd_kids_cong:
  "f (kids q t) = g (kids q t) \<Longrightarrow> distinct (preorder t) \<Longrightarrow> upd_kids q f t = upd_kids q g t"
proof (induction t)
  case (Node l x r)
  moreover have "q \<in> set_tree l \<Longrightarrow> q \<notin> set_tree r" using Node.prems by auto
  ultimately show ?case by (cases "q \<in> set_tree l") (auto split: if_splits)
qed simp

lemma prune_kids:
  "distinct (preorder t) \<Longrightarrow> s \<in> set_tree (kids q t) \<Longrightarrow> prune s t = upd_kids q (prune s) t"
proof (induction t)
  case (Node l x r)
  show ?case
  proof (cases "x = q")
    case True
    with Node.prems have "s \<in> set_tree l" by simp
    with Node.prems True have "x \<noteq> s" "s \<notin> set_tree r" by auto
    with True show ?thesis by simp
  next
    case False
    show ?thesis
    proof (cases "q \<in> set_tree l")
      case True
      then have "s \<in> set_tree l" "s \<in> set_tree (kids q l)"
        using Node.prems False set_kids [of q l] by auto
      moreover have "x \<noteq> s" "s \<notin> set_tree r" "q \<notin> set_tree r"
        using Node.prems \<open>s \<in> set_tree l\<close> True by auto
      ultimately show ?thesis using Node False by simp
    next
      case qr: False
      then have "s \<in> set_tree r" "s \<in> set_tree (kids q r)"
        using Node.prems False set_kids [of q r] by auto
      moreover have "x \<noteq> s" "s \<notin> set_tree l"
        using Node.prems \<open>s \<in> set_tree r\<close> by auto
      ultimately show ?thesis using Node False qr by simp
    qed
  qed
qed simp

lemma at_cut_prune:
  assumes "distinct (preorder t)" "0 \<notin> set_tree t" "(p, s) \<in> edges 0 t"
  shows "at p (cut s) t = prune s t"
proof -
  have s: "s \<in> set (spine (kids0 p t))" using edge_spine0 assms .
  then have cut: "prune s (kids0 p t) = cut s (kids0 p t)"
    using distinct_kids0 [OF assms(1)] by (intro prune_spine)
  show ?thesis
  proof (cases "p = 0")
    case True
    with cut show ?thesis by (simp add: at_def kids0_def)
  next
    case False
    then have "s \<in> set_tree (kids p t)" "prune s (kids p t) = cut s (kids p t)"
      using s cut set_spine [of "kids p t"] by (auto simp: kids0_def)
    with False show ?thesis
      using prune_kids [OF assms(1)] upd_kids_cong [of "cut s" p t "prune s"] assms(1)
      by (simp add: at_def)
  qed
qed

lemma map_snoc: "map_tree f (snoc t x) = snoc (map_tree f t) (map_tree f x)"
  by (induction t) auto

lemma map_kids:
  "inj_on f (set_tree t) \<Longrightarrow> q \<in> set_tree t \<Longrightarrow> kids (f q) (map_tree f t) = map_tree f (kids q t)"
proof (induction t)
  case (Node l x r)
  have inj: "inj_on f (set_tree l)" "inj_on f (set_tree r)"
    using Node.prems(1) by (auto intro: inj_on_subset)
  have x: "f x = f q \<longleftrightarrow> x = q" using Node.prems by (auto dest: inj_onD)
  have l: "f q \<in> f ` set_tree l \<longleftrightarrow> q \<in> set_tree l"
    using Node.prems by (intro inj_on_image_mem_iff [of f "set_tree \<langle>l, x, r\<rangle>"]) auto
  show ?case
    using Node inj x l by (auto simp: tree.set_map)
qed simp

lemma map_prune:
  "inj_on f (set_tree t) \<Longrightarrow> s \<in> S \<Longrightarrow> inj_on f S \<Longrightarrow> set_tree t \<subseteq> S \<Longrightarrow>
   map_tree f (prune s t) = prune (f s) (map_tree f t)"
proof (induction t)
  case (Node l x r)
  have "f x = f s \<longleftrightarrow> x = s" using Node.prems by (auto dest: inj_onD)
  moreover have "inj_on f (set_tree l)" "inj_on f (set_tree r)"
    using Node.prems(1) by (auto intro: inj_on_subset)
  ultimately show ?case using Node by auto
qed simp

lemma map_upd_kids:
  "inj_on f (set_tree t) \<Longrightarrow> q \<in> S \<Longrightarrow> inj_on f S \<Longrightarrow> set_tree t \<subseteq> S \<Longrightarrow>
   (\<And>k. map_tree f (g k) = g' (map_tree f k)) \<Longrightarrow>
   map_tree f (upd_kids q g t) = upd_kids (f q) g' (map_tree f t)"
proof (induction t)
  case (Node l x r)
  have "f x = f q \<longleftrightarrow> x = q" using Node.prems by (auto dest: inj_onD)
  moreover have "inj_on f (set_tree l)" "inj_on f (set_tree r)"
    using Node.prems(1) by (auto intro: inj_on_subset)
  ultimately show ?case using Node by auto
qed simp

subsection \<open>Freeing a subtree\<close>

abbreviation free_nodes :: "scene \<Rightarrow> nat list \<Rightarrow> scene" where
  "free_nodes \<equiv> foldl free_node"

lemma free_node_simps [simp]:
  "x \<noteq> s \<Longrightarrow> cell (free_node sc s) x = cell sc x"
  "nd_id (cell (free_node sc s) x) = nd_id (cell sc x)"
  "nd_first (cell (free_node sc s) x) = nd_first (cell sc x)"
  "nd_parent (cell (free_node sc s) x) = nd_parent (cell sc x)"
  "nd_next (cell (free_node sc s) s) = ar_free (sc_arena sc)"
  "ar_free (sc_arena (free_node sc s)) = s"
  "ar_cap (sc_arena (free_node sc s)) = ar_cap (sc_arena sc)"
  "ar_count (sc_arena (free_node sc s)) = ar_count (sc_arena sc) - 1"
  "sc_idm (free_node sc s) = idmap_del (sc_idm sc) (nd_id (cell sc s))"
  "sc_focus (free_node sc s) = sc_focus sc" "sc_tex (free_node sc s) = sc_tex sc"
  by (simp_all add: free_node_def arena_free_one_def idmap_del_def)

lemma free_nodes_simps:
  "x \<notin> set xs \<Longrightarrow> cell (free_nodes sc xs) x = cell sc x"
  "nd_id (cell (free_nodes sc xs) x) = nd_id (cell sc x)"
  "ar_cap (sc_arena (free_nodes sc xs)) = ar_cap (sc_arena sc)"
  "ar_count (sc_arena (free_nodes sc xs)) = ar_count (sc_arena sc) - length xs"
  "sc_focus (free_nodes sc xs) = sc_focus sc" "sc_tex (free_nodes sc xs) = sc_tex sc"
  by (induction xs arbitrary: sc) simp_all

lemma free_nodes_idm:
  "sc_idm (free_nodes sc xs) = foldl idmap_del (sc_idm sc) (map (\<lambda>s. nd_id (cell sc s)) xs)"
  by (induction xs arbitrary: sc) simp_all

lemma free_nodes_chain:
  "chain (ar_nodes (sc_arena sc)) (ar_free (sc_arena sc)) fs \<Longrightarrow>
   distinct xs \<Longrightarrow> set xs \<inter> set fs = {} \<Longrightarrow> 0 \<notin> set xs \<Longrightarrow>
   chain (ar_nodes (sc_arena (free_nodes sc xs))) (ar_free (sc_arena (free_nodes sc xs))) (rev xs @ fs)"
proof (induction xs arbitrary: sc fs)
  case (Cons x xs)
  have "chain (ar_nodes (sc_arena (free_node sc x))) c fs \<longleftrightarrow> chain (ar_nodes (sc_arena sc)) c fs" for c
  proof (rule chain_cong)
    fix y assume "y \<in> set fs"
    then have "y \<noteq> x" using Cons.prems(3) by auto
    then show "nd_next (cell (free_node sc x) y) = nd_next (cell sc y)" by simp
  qed
  then have "chain (ar_nodes (sc_arena (free_node sc x))) (ar_free (sc_arena (free_node sc x))) (x # fs)"
    using Cons.prems by simp
  from Cons.IH [OF this] show ?case using Cons.prems by simp
qed simp

text \<open>The loop frees the nodes of the subtree, children before their parent.\<close>

lemma destroy_loop_frees:
  "rep (ar_nodes (sc_arena sc)) c t \<Longrightarrow> distinct (preorder t) \<Longrightarrow>
   destroy_loop (2 * size t + fuel) sc c stack = destroy_loop fuel (free_nodes sc (inorder t)) 0 stack"
proof (induction t arbitrary: sc c stack fuel)
  case (Node l s r)
  let ?sc1 = "free_nodes sc (inorder l)"
  have c: "c = s" "s \<noteq> 0" "rep (ar_nodes (sc_arena sc)) (nd_first (cell sc s)) l"
      "rep (ar_nodes (sc_arena sc)) (nd_next (cell sc s)) r"
    using Node.prems(1) by auto
  have dist: "s \<notin> set_tree l" "s \<notin> set_tree r" "set_tree l \<inter> set_tree r = {}"
    using Node.prems(2) by auto
  have "destroy_loop (2 * size \<langle>l, s, r\<rangle> + fuel) sc c stack =
      destroy_loop (2 * size l + Suc (2 * size r + fuel)) sc (nd_first (cell sc s)) (s # stack)"
    using c by (simp add: algebra_simps)
  also have "\<dots> = destroy_loop (Suc (2 * size r + fuel)) ?sc1 0 (s # stack)"
    using c Node.prems by (intro Node.IH(1)) auto
  also have "\<dots> = destroy_loop (2 * size r + fuel) (free_node ?sc1 s) (nd_next (cell ?sc1 s)) stack"
    by simp
  also have "nd_next (cell ?sc1 s) = nd_next (cell sc s)"
    using dist by (simp add: free_nodes_simps(1))
  also have "destroy_loop (2 * size r + fuel) (free_node ?sc1 s) (nd_next (cell sc s)) stack =
      destroy_loop fuel (free_nodes (free_node ?sc1 s) (inorder r)) 0 stack"
  proof (rule Node.IH(2))
    have "cell (free_node ?sc1 s) x = cell sc x" if "x \<in> set_tree r" for x
    proof -
      have "x \<noteq> s" "x \<notin> set (inorder l)" using that dist by auto
      then show ?thesis by (simp add: free_nodes_simps(1))
    qed
    then have "rep (ar_nodes (sc_arena (free_node ?sc1 s))) (nd_next (cell sc s)) r \<longleftrightarrow>
        rep (ar_nodes (sc_arena sc)) (nd_next (cell sc s)) r"
      by (intro rep_cong) simp
    with c show "rep (ar_nodes (sc_arena (free_node ?sc1 s))) (nd_next (cell sc s)) r" by simp
    show "distinct (preorder r)" using Node.prems(2) by simp
  qed
  finally show ?case by simp
qed simp

end
