(* ===== verification/CreateOp.thy ===== *)
theory CreateOp
  imports SceneInv
begin

text \<open>
  CREATE: a new node becomes the last child of its parent, and the re-creation of a stale
  node after a crash moves it with its descendants under the parent and makes it live
  again, its texts kept.
\<close>

subsection \<open>The two effects\<close>

definition depth_under :: "cells \<Rightarrow> nat \<Rightarrow> nat" where
  "depth_under h ps = (if ps \<noteq> 0 then nd_depth (h ps) + 1 else 0)"

definition created :: "scene \<Rightarrow> nat \<Rightarrow> node \<Rightarrow> scene" where
  "created sc ps n =
     (let (slot, ar) = arena_alloc (sc_arena sc);
          ar2 = ar\<lparr>ar_nodes := (ar_nodes ar)(slot := n)\<rparr>
      in sc\<lparr>sc_arena := attach ar2 ps slot (depth_under (ar_nodes ar2) ps),
            sc_idm := idmap_put (sc_idm sc) (nd_id n) slot\<rparr>)"

definition recreated :: "scene \<Rightarrow> nat \<Rightarrow> nat \<Rightarrow> (node \<Rightarrow> node) \<Rightarrow> scene" where
  "recreated sc ps slot f =
     (let ar1 = detach (sc_arena sc) slot;
          ar2 = ar1\<lparr>ar_nodes := (ar_nodes ar1)(slot := f (ar_nodes ar1 slot))\<rparr>
      in sc\<lparr>sc_arena := attach ar2 ps slot (depth_under (ar_nodes ar2) ps)\<rparr>)"

text \<open>The attributes a CREATE sets on a new node and on a re-created one.\<close>

definition create_attrs :: "bytes \<Rightarrow> node \<Rightarrow> node" where
  "create_attrs p n =
     n\<lparr>nd_id := scene_get_u32 p 12, nd_role := scene_get_u16 p 16, nd_flags := rd p 34,
       nd_rect := get_rect p 18, nd_tex := SCENE_NO_TEXTURE, nd_blend := 0, nd_opacity := 255\<rparr>"

definition recreate_attrs :: "bytes \<Rightarrow> node \<Rightarrow> node" where
  "recreate_attrs p n =
     n\<lparr>nd_role := scene_get_u16 p 16, nd_flags := rd p 34, nd_blend := 0, nd_opacity := 255,
       nd_rect := get_rect p 18, nd_stale := False\<rparr>"

lemma op_create_cases:
  defines "parent_id \<equiv> \<lambda>p. scene_get_u32 p 8" and "nid \<equiv> \<lambda>p. scene_get_u32 p 12"
  shows "op_create a p plen =
     (if plen \<noteq> 35 then (OpErr SCENE_ERR_PROTOCOL, a)
      else if scene_get_u16 p 16 > SCENE_ROLE_MAX then (OpErr SCENE_ERR_BAD_ROLE, a)
      else if nid p = SCENE_NO_PARENT then (OpErr SCENE_ERR_PROTOCOL, a)
      else
        let slot = idmap_get (sc_idm (ac_scene a)) (nid p)
        in if slot \<noteq> 0 then
             (if \<not> nd_stale (ac_cell a slot) \<and> \<not> ac_replay a then (OpErr SCENE_ERR_BAD_NODE, a)
              else case parent_slot a (parent_id p) of
                None \<Rightarrow> (OpErr SCENE_ERR_BAD_PARENT, a)
              | Some ps \<Rightarrow>
                  (OpOk, a\<lparr>ac_scene := recreated (ac_scene a) ps slot (recreate_attrs p)\<rparr>))
           else if ar_count (ac_arena a) \<ge> unat (max_nodes_per_session (ac_lim a))
           then (OpErr SCENE_ERR_LIMIT, a)
           else case parent_slot a (parent_id p) of
             None \<Rightarrow> (OpErr SCENE_ERR_BAD_PARENT, a)
           | Some ps \<Rightarrow>
               (OpOk, a\<lparr>ac_scene := created (ac_scene a) ps (create_attrs p fresh_node)\<rparr>))"
proof -
  have fresh: "ar_nodes (snd (arena_alloc ar)) (fst (arena_alloc ar)) = fresh_node" for ar
    by (simp add: arena_alloc_def Let_def)
  show ?thesis
    using fresh [of "ac_arena a"]
    by (simp add: op_create_def assms created_def recreated_def create_attrs_def recreate_attrs_def
        with_arena_def put_cell_def set_cell_def child_depth_def depth_under_def Let_def split_beta
        split: option.splits)
qed

lemma parent_slot_Some:
  assumes wf: "scene_wf (ac_scene a) t fs" and ps: "parent_slot a parent = Some ps"
  shows "ps = 0 \<and> parent = SCENE_NO_PARENT \<or>
         ps \<in> set_tree t \<and> ps \<noteq> 0 \<and> nd_id (ac_cell a ps) = parent \<and> parent \<noteq> SCENE_NO_PARENT \<and>
         \<not> nd_stale (ac_cell a ps)"
  using ps wfD(3) [OF wf, of parent] by (auto simp: parent_slot_def Let_def split: if_splits)

subsection \<open>A new node\<close>

lemma created_represents:
  assumes wf: "scene_wf sc t fs" and live: "live_ok (ar_nodes (sc_arena sc)) t"
    and new: "idmap_get (sc_idm sc) (nd_id n) = 0" "nd_id n \<noteq> 0" "nd_id n \<noteq> SCENE_NO_PARENT"
    and n: "nd_first n = 0" "nd_next n = 0" "\<not> nd_stale n"
    and ps: "ps = 0 \<and> parent = SCENE_NO_PARENT \<or>
             ps \<in> set_tree t \<and> nd_id (cell sc ps) = parent \<and> parent \<noteq> SCENE_NO_PARENT \<and>
             \<not> nd_stale (cell sc ps)"
  shows "represents (created sc ps n) (doc_insert parent (nd_id n) (payload n) (doc_of sc t))"
proof -
  note d = arena_wfD [OF wfD(1) [OF wf]]
  let ?s = "fst (arena_alloc (sc_arena sc))" and ?ar = "snd (arena_alloc (sc_arena sc))"
  let ?ar2 = "?ar\<lparr>ar_nodes := (ar_nodes ?ar)(?s := n)\<rparr>"
  let ?dep = "depth_under (ar_nodes ?ar2) ps"
  let ?sc' = "created sc ps n" and ?id = "\<lambda>x. nd_id (cell sc x)"
  note al = arena_alloc_wf [OF wfD(1) [OF wf]]
  obtain fs' where wf1: "arena_wf ?ar t fs' [?s]" using al(1) by blast
  have sf: "?s \<notin> set fs'" using arena_wfD(5) [OF wf1] by auto
  have cell2: "ar_nodes ?ar2 x = cell sc x" if "x \<noteq> ?s" for x using that al(5) by simp
  have wf2: "arena_wf ?ar2 t fs' [?s]"
    by (rule arena_wf_cong [OF wf1]) (use al(2,3) sf in auto)
  have p: "ps = 0 \<or> ps \<in> set_tree t" using ps by blast
  have l: "rep (ar_nodes ?ar2) (nd_first (ar_nodes ?ar2 ?s)) \<langle>\<rangle>" "parents_ok (ar_nodes ?ar2) ?s \<langle>\<rangle>"
    using n by (simp_all add: parents_ok_def)
  have xs: "mset [?s] = add_mset ?s (slots \<langle>\<rangle>) + mset []" by simp
  have n2: "nd_next (ar_nodes ?ar2 ?s) = 0" using n by simp
  note A = arena_attach_wf [where dep = ?dep, OF wf2 p l xs n2]
  note L = attach_loose [OF wf2 p xs]
  let ?t' = "at ps (\<lambda>k. snoc k \<langle>\<langle>\<rangle>, ?s, \<langle>\<rangle>\<rangle>) t"
  have ar': "sc_arena ?sc' = attach ?ar2 ps ?s ?dep" and
    idm': "sc_idm ?sc' = idmap_put (sc_idm sc) (nd_id n) ?s" and
    foc': "sc_focus ?sc' = sc_focus sc"
    by (simp_all add: created_def Let_def split_beta)
  have st': "set_tree ?t' = insert ?s (set_tree t)"
    using L(9) by simp
  have pay: "payload (cell ?sc' x) = payload (cell sc x)" "nd_depth (cell ?sc' x) = nd_depth (cell sc x)"
    if "x \<in> set_tree t" for x
  proof -
    have "x \<noteq> ?s" using that al(3) by blast
    then show "payload (cell ?sc' x) = payload (cell sc x)" "nd_depth (cell ?sc' x) = nd_depth (cell sc x)"
      using A(2,4) [of x] cell2 [of x] unfolding ar' by simp_all
  qed
  have pays: "payload (cell ?sc' ?s) = payload n" "nd_depth (cell ?sc' ?s) = ?dep"
    unfolding ar' using A(2) [of ?s] A(3) by simp_all
  have dep: "?dep = depth_under (ar_nodes (sc_arena sc)) ps"
    using cell2 [of ps] p al(2,3) by (auto simp: depth_under_def)
  have idn: "nd_id (cell ?sc' x) = nd_id (cell sc x)" if "x \<in> set_tree t" for x
    using payload_eqD(1) [OF pay(1) [OF that]] .
  have ids: "nd_id (cell ?sc' ?s) = nd_id n" using payload_eqD(1) [OF pays(1)] .
  have get: "idmap_get (sc_idm ?sc') k = (if k = nd_id n then ?s else idmap_get (sc_idm sc) k)" for k
    unfolding idm' by (rule idt.get_put [OF wfD(2) [OF wf] new(1,2) al(2)])
  have "ids_ok ?sc' ?t'"
    unfolding ids_ok_def
  proof (intro conjI allI ballI impI)
    show "idmap_inv (sc_idm ?sc')"
      unfolding idm' by (rule idt.invar_put [OF wfD(2) [OF wf] new(1,2) al(2)])
  next
    fix k assume k: "idmap_get (sc_idm ?sc') k \<noteq> 0"
    show "idmap_get (sc_idm ?sc') k \<in> set_tree ?t'"
      "nd_id (cell ?sc' (idmap_get (sc_idm ?sc') k)) = k"
      using k wfD(3) [OF wf, of k] get [of k] ids idn
      unfolding st' by (auto split: if_splits)
  next
    fix x assume "x \<in> set_tree ?t'"
    then consider "x = ?s" | "x \<in> set_tree t" "x \<noteq> ?s" unfolding st' by blast
    then have "idmap_get (sc_idm ?sc') (nd_id (cell ?sc' x)) = x \<and>
        nd_id (cell ?sc' x) \<noteq> 0 \<and> nd_id (cell ?sc' x) \<noteq> SCENE_NO_PARENT"
    proof cases
      case 1
      then show ?thesis using get [of "nd_id n"] new ids by simp
    next
      case 2
      note w = wfD(4,5) [OF wf 2(1)]
      have "nd_id (cell sc x) \<noteq> nd_id n"
        using w(1) new(1) 2 d(6) by metis
      then show ?thesis using w get [of "nd_id (cell sc x)"] idn [OF 2(1)] by simp
    qed
    then show "idmap_get (sc_idm ?sc') (nd_id (cell ?sc' x)) = x"
      "nd_id (cell ?sc' x) \<noteq> 0" "nd_id (cell ?sc' x) \<noteq> SCENE_NO_PARENT" by simp_all
  qed
  with A(1) have wf': "scene_wf ?sc' ?t' fs'" by (simp add: scene_wf_def ar')
  have edges: "edges 0 ?t' \<subseteq> insert (ps, ?s) (edges 0 t)" using L(8) by auto
  have live': "live_ok (ar_nodes (sc_arena ?sc')) ?t'"
    unfolding live_ok_def
  proof clarify
    fix q x assume qx: "(q, x) \<in> edges 0 ?t'" and ns: "\<not> nd_stale (cell ?sc' x)"
    consider "q = ps" "x = ?s" | "(q, x) \<in> edges 0 t" using qx edges by blast
    then show "if q = 0 then nd_depth (cell ?sc' x) = 0
        else \<not> nd_stale (cell ?sc' q) \<and> nd_depth (cell ?sc' x) = nd_depth (cell ?sc' q) + 1"
    proof cases
      case 1
      then show ?thesis
        using pays(2) dep ps pay [of ps] payload_eqD(2) [of "cell ?sc' ps" "cell sc ps"] d(6)
        by (auto simp: depth_under_def)
    next
      case 2
      then have "x \<in> set_tree t" "q \<noteq> 0 \<Longrightarrow> q \<in> set_tree t"
        using edges_child [OF 2] edges_parent [OF 2] by auto
      then show ?thesis
        using pay [of x] pay [of q] ns live_okD [OF live 2] payload_eqD(2) by metis
    qed
  qed
  have tree: "map_tree (\<lambda>x. nd_id (cell ?sc' x)) ?t' =
      under parent (\<lambda>k. snoc k \<langle>\<langle>\<rangle>, nd_id n, \<langle>\<rangle>\<rangle>) (map_tree ?id t)"
  proof -
    have t: "map_tree (\<lambda>x. nd_id (cell ?sc' x)) t = map_tree ?id t"
      using idn by (intro tree.map_cong0) blast
    have inj: "inj_on (\<lambda>x. nd_id (cell ?sc' x)) (set_tree t)"
      using ids_inj [OF wf] idn by (simp add: inj_on_def)
    show ?thesis
    proof (cases "ps = 0")
      case True
      then have "parent = SCENE_NO_PARENT" using ps d(6) by auto
      then show ?thesis using True t ids by (simp add: at_def under_def map_snoc)
    next
      case False
      then have ps': "ps \<in> set_tree t" "nd_id (cell sc ps) = parent" "parent \<noteq> SCENE_NO_PARENT"
        using ps by auto
      have "map_tree (\<lambda>x. nd_id (cell ?sc' x)) (upd_kids ps (\<lambda>k. snoc k \<langle>\<langle>\<rangle>, ?s, \<langle>\<rangle>\<rangle>) t) =
          upd_kids (nd_id (cell ?sc' ps)) (\<lambda>k. snoc k \<langle>\<langle>\<rangle>, nd_id n, \<langle>\<rangle>\<rangle>)
            (map_tree (\<lambda>x. nd_id (cell ?sc' x)) t)"
        by (rule map_upd_kids [OF inj ps'(1) inj order_refl]) (simp add: map_snoc ids)
      then show ?thesis using False ps' idn [OF ps'(1)] t by (simp add: at_def under_def)
    qed
  qed
  have "(let x = idmap_get (sc_idm ?sc') k in if x = 0 then None else Some (payload (cell ?sc' x))) =
      ((\<lambda>k. let x = idmap_get (sc_idm sc) k in if x = 0 then None else Some (payload (cell sc x)))
         (nd_id n \<mapsto> payload n)) k" for k
    using get [of k] al(2) pays(1) pay(1) [of "idmap_get (sc_idm sc) k"] wfD(3) [OF wf, of k]
    by (simp add: Let_def)
  with tree have "doc_of ?sc' ?t' = doc_insert parent (nd_id n) (payload n) (doc_of sc t)"
    unfolding doc_of_def doc_insert_def by (simp add: foc' fun_eq_iff)
  with wf' live' show ?thesis unfolding represents_def by metis
qed

subsection \<open>A node created again\<close>

text \<open>Setting attributes does not touch links, id or texts.\<close>

definition attrs_only :: "(node \<Rightarrow> node) \<Rightarrow> bool" where
  "attrs_only f \<longleftrightarrow>
     (\<forall>n. nd_id (f n) = nd_id n \<and> nd_parent (f n) = nd_parent n \<and> nd_first (f n) = nd_first n \<and>
          nd_next (f n) = nd_next n \<and> nd_depth (f n) = nd_depth n \<and> payload (f n) = f (payload n))"

lemma recreated_represents:
  assumes wf: "scene_wf sc t fs" and live: "live_ok (ar_nodes (sc_arena sc)) t"
    and s: "idmap_get (sc_idm sc) nid = s" "s \<noteq> 0" "nd_stale (cell sc s)"
    and f: "attrs_only f" "\<And>n. \<not> nd_stale (f n)"
    and ps: "ps = 0 \<and> parent = SCENE_NO_PARENT \<or>
             ps \<in> set_tree t \<and> nd_id (cell sc ps) = parent \<and> parent \<noteq> SCENE_NO_PARENT \<and>
             \<not> nd_stale (cell sc ps)"
  shows "represents (recreated sc ps s f) (doc_update nid f (doc_move parent nid (doc_of sc t)))"
proof -
  note d = arena_wfD [OF wfD(1) [OF wf]]
  let ?sc' = "recreated sc ps s f" and ?id = "\<lambda>x. nd_id (cell sc x)" and ?l = "kids s t"
  let ?ar1 = "detach (sc_arena sc) s"
  define h2 where "h2 = (ar_nodes ?ar1)(s := f (ar_nodes ?ar1 s))"
  let ?ar2 = "?ar1\<lparr>ar_nodes := h2\<rparr>"
  let ?dep = "depth_under h2 ps"
  have st: "s \<in> set_tree t" and nid: "nd_id (cell sc s) = nid"
    using wfD(3) [OF wf, of nid] s by simp_all
  obtain p where e: "(p, s) \<in> edges 0 t" using edge_of [OF st] by blast
  have dt: "distinct (preorder t)" using wfD(6) [OF wf] .
  have cut: "at p (cut s) t = prune s t" by (rule at_cut_prune [OF dt d(6) e])
  let ?t1 = "prune s t"
  have xs: "mset (s # preorder ?l) = add_mset s (slots ?l) + mset []" by simp
  note D = arena_detach_wf [OF wfD(1) [OF wf] e, unfolded cut append_Nil2]
  have links: "nd_first (h2 x) = nd_first (ar_nodes ?ar1 x)"
    "nd_next (h2 x) = nd_next (ar_nodes ?ar1 x)"
    "nd_parent (h2 x) = nd_parent (ar_nodes ?ar1 x)" "nd_depth (h2 x) = nd_depth (cell sc x)" for x
    using f(1) D(6) by (auto simp: attrs_only_def h2_def)
  have wf2: "arena_wf ?ar2 ?t1 fs (s # preorder ?l)"
    by (rule arena_wf_cong [OF D(1)]) (simp_all add: links)
  have rep2: "rep (ar_nodes ?ar2) (nd_first (ar_nodes ?ar2 s)) ?l"
    using D(2) rep_cong [of ?l h2 "ar_nodes ?ar1"] links by simp
  have par2: "parents_ok (ar_nodes ?ar2) s ?l"
    using D(3) links(3) by (simp add: parents_ok_def)
  have n2: "nd_next (ar_nodes ?ar2 s) = 0" using D(4) links(2) [of s] by simp
  note w1 = arena_wfD [OF D(1)]
  have set1: "set_tree ?t1 = set_tree t - insert s (set_tree ?l)"
  proof -
    have "mset (preorder ?t1 @ (s # preorder ?l)) = mset (preorder t)"
    proof -
      have sK: "s \<in> set (spine (kids0 p t))" using edge_spine0 [OF dt d(6) e] .
      have kid: "kids s (kids0 p t) = ?l"
        using kids_kids0 [OF dt] sK set_spine [of "kids0 p t"] by blast
      define X where "X = add_mset s (slots ?l)"
      have "slots ?t1 + slots (kids0 p t) = slots t + slots (cut s (kids0 p t))"
        using slots_at [OF dt edge_parent0 [OF e], of "cut s"] by (simp only: cut)
      moreover have "slots (kids0 p t) = slots (cut s (kids0 p t)) + X"
        using slots_cut [OF distinct_kids0 [OF dt] sK] by (simp add: kid X_def)
      ultimately have "slots ?t1 + X + slots (cut s (kids0 p t)) = slots t + slots (cut s (kids0 p t))"
        by (simp add: ac_simps)
      then show ?thesis by (simp add: X_def)
    qed
    from mset_eq_setD [OF this] w1(5) show ?thesis by auto
  qed
  have stale_l: "nd_stale (cell sc x)" if "x \<in> set_tree ?l" for x
    using stale_below [OF live st s(3) d(6) that] .
  have p1: "ps = 0 \<or> ps \<in> set_tree ?t1" and pns: "ps \<noteq> s"
    using ps set1 stale_l s by auto
  note A = arena_attach_wf [where dep = ?dep, OF wf2 p1 rep2 par2 xs n2]
  note L = attach_loose [OF wf2 p1 xs]
  let ?t' = "at ps (\<lambda>k. snoc k \<langle>?l, s, \<langle>\<rangle>\<rangle>) ?t1"
  have ar': "sc_arena ?sc' = attach ?ar2 ps s ?dep" and idm': "sc_idm ?sc' = sc_idm sc" and
    foc': "sc_focus ?sc' = sc_focus sc"
    by (simp_all add: recreated_def Let_def h2_def)
  have st': "set_tree ?t' = set_tree t"
    using L(9) st set_kids [of s t] unfolding set1 by auto
  have pay: "payload (cell ?sc' x) = (if x = s then f (payload (cell sc s)) else payload (cell sc x))" for x
    using A(2) [of x] D(5) [of x] f(1) D(5) [of s] unfolding ar' by (simp add: attrs_only_def h2_def)
  have dep': "x \<noteq> s \<Longrightarrow> nd_depth (cell ?sc' x) = nd_depth (cell sc x)" for x
    using A(4) [of x] links(4) [of x] unfolding ar' by simp
  have deps: "nd_depth (cell ?sc' s) = depth_under (ar_nodes (sc_arena sc)) ps"
    using A(3) links(4) [of ps] pns unfolding ar' by (simp add: depth_under_def)
  have idn: "nd_id (cell ?sc' x) = nd_id (cell sc x)" for x
    using payload_sel(1) [of "cell ?sc' x"] pay [of x] f(1) payload_sel(1) [of "cell sc x"]
    by (auto simp: attrs_only_def split: if_splits)
  have stale: "nd_stale (cell ?sc' x) \<longleftrightarrow> x \<noteq> s \<and> nd_stale (cell sc x)" for x
    using payload_sel(4) [of "cell ?sc' x"] pay [of x] f(2) payload_sel(4) [of "cell sc x"]
    by (auto split: if_splits)
  have wf': "scene_wf ?sc' ?t' fs"
    using A(1) wf by (simp add: scene_wf_def ar' ids_ok_def idm' st' idn [unfolded ar'])
  have live': "live_ok (ar_nodes (sc_arena ?sc')) ?t'"
    unfolding live_ok_def
  proof clarify
    fix q x assume qx: "(q, x) \<in> edges 0 ?t'" and ns: "\<not> nd_stale (cell ?sc' x)"
    have sub: "edges 0 ?t1 \<subseteq> edges 0 t"
      unfolding cut [symmetric]
      using edges_at [OF dt edge_parent0 [OF e], of "cut s"] edges_cut [of p s "kids0 p t"]
        edges_kids0 [OF edge_parent0 [OF e]] by blast
    consider "q = ps" "x = s" | "(q, x) \<in> edges 0 ?t1" | "(q, x) \<in> edges s ?l"
      using qx L(8) by blast
    then show "if q = 0 then nd_depth (cell ?sc' x) = 0
        else \<not> nd_stale (cell ?sc' q) \<and> nd_depth (cell ?sc' x) = nd_depth (cell ?sc' q) + 1"
    proof cases
      case 1
      then show ?thesis
        using deps ps stale [of ps] dep' [OF pns] pns d(6) by (auto simp: depth_under_def)
    next
      case 2
      have "x \<in> set_tree ?t1" "q = 0 \<or> q \<in> set_tree ?t1"
        using edges_child [OF 2] edges_parent [OF 2] by auto
      then have "x \<noteq> s" "q \<noteq> s" using set1 s(2) by auto
      then show ?thesis
        using ns stale dep' live_okD [OF live, of q x] 2 sub by auto
    next
      case 3
      then have "x \<in> set_tree ?l" by (rule edges_child)
      then show ?thesis using stale_l [of x] stale [of x] ns root_notin_kids [OF dt, of s] by auto
    qed
  qed
  have inj: "inj_on ?id (set_tree t)" using ids_inj [OF wf] .
  have t1sub: "set_tree ?t1 \<subseteq> set_tree t" using set1 by blast
  have m1: "map_tree ?id ?t1 = prune nid (map_tree ?id t)"
    using map_prune [OF inj st inj order_refl] nid by simp
  have ml: "map_tree ?id ?l = kids nid (map_tree ?id t)"
    using map_kids [OF inj st] nid by simp
  have "map_tree (\<lambda>x. nd_id (cell ?sc' x)) ?t' = map_tree ?id ?t'"
    by (simp add: idn)
  also have "\<dots> = under parent (\<lambda>k. snoc k \<langle>kids nid (map_tree ?id t), nid, \<langle>\<rangle>\<rangle>) (prune nid (map_tree ?id t))"
  proof (cases "ps = 0")
    case True
    then have "parent = SCENE_NO_PARENT" using ps d(6) by auto
    with True show ?thesis by (simp add: at_def under_def map_snoc m1 ml nid)
  next
    case False
    then have ps': "ps \<in> set_tree t" "nd_id (cell sc ps) = parent" "parent \<noteq> SCENE_NO_PARENT"
      using ps by auto
    have "map_tree ?id (upd_kids ps (\<lambda>k. snoc k \<langle>?l, s, \<langle>\<rangle>\<rangle>) ?t1) =
        upd_kids (?id ps) (\<lambda>k. snoc k \<langle>kids nid (map_tree ?id t), nid, \<langle>\<rangle>\<rangle>) (map_tree ?id ?t1)"
      by (rule map_upd_kids [OF inj_on_subset [OF inj t1sub] ps'(1) inj t1sub])
        (simp add: map_snoc ml nid)
    with False ps' show ?thesis by (simp add: at_def under_def m1)
  qed
  finally have tree: "map_tree (\<lambda>x. nd_id (cell ?sc' x)) ?t' = \<dots>" .
  have "(let x = idmap_get (sc_idm ?sc') k in if x = 0 then None else Some (payload (cell ?sc' x))) =
      ((\<lambda>k. let x = idmap_get (sc_idm sc) k in if x = 0 then None else Some (payload (cell sc x)))
         (nid := Some (f (payload (cell sc s))))) k" for k
    using s(1,2) nid pay [of "idmap_get (sc_idm sc) k"] wfD(3) [OF wf, of k]
    by (auto simp: Let_def idm')
  with tree have "doc_of ?sc' ?t' = doc_update nid f (doc_move parent nid (doc_of sc t))"
    unfolding doc_of_def doc_move_def doc_update_def using s by (simp add: foc' fun_eq_iff)
  with wf' live' show ?thesis unfolding represents_def by metis
qed

end
