(* ===== verification/DocSpec.thy ===== *)
theory DocSpec
  imports SceneInv CreateOp
begin

text \<open>
  The protocol's operations on documents: the abstract specification the scene store is
  shown to implement in \<open>OpsCorrect\<close>. There are no slots, no links, no free list and no id
  table here: a document is a forest of ids with attributes, and an operation yields its
  status, the new document and the records it sends, in order.
\<close>

record env =
  ev_lim :: scene_limits
  ev_styles :: u32
  ev_effects :: u32
  ev_textures :: "u32 list"
  ev_seq :: u64
  ev_events :: bool

type_synonym wire_record = "u16 \<times> bytes"
type_synonym doc_result = "op_status \<times> doc \<times> wire_record list"

definition rejected :: "doc \<Rightarrow> u16 \<Rightarrow> doc_result" where
  "rejected d e = (OpErr e, d, [])"

text \<open>An id that names a live node.\<close>

definition doc_live :: "doc \<Rightarrow> u32 \<Rightarrow> bool" where
  "doc_live d nid = (case dc_attr d nid of None \<Rightarrow> False | Some n \<Rightarrow> \<not> nd_stale n)"

definition doc_create :: "env \<Rightarrow> bytes \<Rightarrow> u32 \<Rightarrow> doc \<Rightarrow> doc_result" where
  "doc_create e p plen d =
     (let parent = scene_get_u32 p 8; nid = scene_get_u32 p 12;
          parent_ok = (parent = SCENE_NO_PARENT \<or> doc_live d parent)
      in if plen \<noteq> 35 then rejected d SCENE_ERR_PROTOCOL
         else if scene_get_u16 p 16 > SCENE_ROLE_MAX then rejected d SCENE_ERR_BAD_ROLE
         else if nid = SCENE_NO_PARENT then rejected d SCENE_ERR_PROTOCOL
         else if doc_live d nid then rejected d SCENE_ERR_BAD_NODE
         else if dc_attr d nid \<noteq> None then
           (if parent_ok then (OpOk, doc_update nid (recreate_attrs p) (doc_move parent nid d), [])
            else rejected d SCENE_ERR_BAD_PARENT)
         else if size (dc_tree d) \<ge> unat (max_nodes_per_session (ev_lim e))
         then rejected d SCENE_ERR_LIMIT
         else if parent_ok
         then (OpOk, doc_insert parent nid (payload (create_attrs p fresh_node)) d, [])
         else rejected d SCENE_ERR_BAD_PARENT)"

definition doc_destroy :: "bytes \<Rightarrow> u32 \<Rightarrow> doc \<Rightarrow> doc_result" where
  "doc_destroy p plen d =
     (let nid = scene_get_u32 p 8
      in if plen \<noteq> 12 then rejected d SCENE_ERR_PROTOCOL
         else if dc_attr d nid = None then rejected d SCENE_ERR_BAD_NODE
         else (OpOk, doc_delete nid d, []))"

text \<open>The text with an id, replaced in place or added at the end.\<close>

definition put_text :: "u32 \<Rightarrow> bytes \<Rightarrow> node \<Rightarrow> node" where
  "put_text tid data n =
     n\<lparr>nd_texts :=
        (if tid \<in> ts_id ` set (nd_texts n)
         then (nd_texts n)[text_index (nd_texts n) tid := \<lparr>ts_id = tid, ts_data = data\<rparr>]
         else nd_texts n @ [\<lparr>ts_id = tid, ts_data = data\<rparr>])\<rparr>"

text \<open>A text that is too long still creates its slot, empty.\<close>

definition doc_set_text :: "env \<Rightarrow> bytes \<Rightarrow> u32 \<Rightarrow> doc \<Rightarrow> doc_result" where
  "doc_set_text e p plen d =
     (let nid = scene_get_u32 p 8; tid = scene_get_u32 p 12; len = scene_get_u32 p 16;
          data = slice p 20 (unat len); texts = (case dc_attr d nid of None \<Rightarrow> [] | Some n \<Rightarrow> nd_texts n)
      in if plen < 20 \<or> plen \<noteq> 20 + len then rejected d SCENE_ERR_PROTOCOL
         else if \<not> doc_live d nid then rejected d SCENE_ERR_BAD_NODE
         else if tid \<notin> ts_id ` set texts \<and>
                 length texts \<ge> unat (max_text_slots_per_node (ev_lim e))
         then rejected d SCENE_ERR_LIMIT
         else if len > max_text_bytes_per_slot (ev_lim e)
         then (OpErr SCENE_ERR_LIMIT,
               if tid \<in> ts_id ` set texts then d else doc_update nid (put_text tid []) d, [])
         else (OpOk, doc_update nid (put_text tid data) d,
               if ev_events e
               then [(SCENE_SRV_TEXT_INDEX,
                      scene_put_u32 1 @ scene_put_u32 tid @ scene_put_u32 nid @
                      scene_put_u32 len @ data)]
               else []))"

text \<open>A change of attributes of a live node, of a payload of a fixed length, under a guard.\<close>

definition doc_set :: "u32 \<Rightarrow> (bytes \<Rightarrow> u16 option) \<Rightarrow> (bytes \<Rightarrow> node \<Rightarrow> node) \<Rightarrow>
    bytes \<Rightarrow> u32 \<Rightarrow> doc \<Rightarrow> doc_result" where
  "doc_set len guard f p plen d =
     (let nid = scene_get_u32 p 8
      in if plen \<noteq> len then rejected d SCENE_ERR_PROTOCOL
         else if \<not> doc_live d nid then rejected d SCENE_ERR_BAD_NODE
         else case guard p of
                Some err \<Rightarrow> rejected d err
              | None \<Rightarrow> (OpOk, doc_update nid (f p) d, []))"

definition focus_record :: "env \<Rightarrow> u32 \<Rightarrow> u8 \<Rightarrow> wire_record" where
  "focus_record e nid state =
     (SCENE_SRV_INPUT_FOCUS, scene_put_u64 (ev_seq e) @ scene_put_u32 nid @ [state])"

text \<open>The focus moves: the old focus is told first, then the new one.\<close>

definition move_focus :: "env \<Rightarrow> u32 \<Rightarrow> doc \<Rightarrow> doc_result" where
  "move_focus e nid d =
     (if dc_focus d = nid then (OpOk, d, [])
      else (OpOk, d\<lparr>dc_focus := nid\<rparr>,
            if ev_events e
            then (if dc_focus d \<noteq> SCENE_NO_PARENT then [focus_record e (dc_focus d) 0] else []) @
                 [focus_record e nid 1]
            else []))"

definition doc_focus_op :: "env \<Rightarrow> bytes \<Rightarrow> u32 \<Rightarrow> doc \<Rightarrow> doc_result" where
  "doc_focus_op e p plen d =
     (let nid = scene_get_u32 p 8
      in if plen \<noteq> 12 then rejected d SCENE_ERR_PROTOCOL
         else if \<not> doc_live d nid then rejected d SCENE_ERR_BAD_NODE
         else move_focus e nid d)"

text \<open>The focus ring: the visible, focusable, live nodes in document order.\<close>

definition in_ring :: "node \<Rightarrow> bool" where
  "in_ring n \<longleftrightarrow>
     nd_flags n AND SCENE_FLAG_VISIBLE \<noteq> 0 \<and> nd_flags n AND SCENE_FLAG_FOCUSABLE \<noteq> 0 \<and>
     \<not> nd_stale n"

definition focus_ring :: "doc \<Rightarrow> u32 list" where
  "focus_ring d = filter (\<lambda>k. in_ring (the (dc_attr d k))) (preorder (dc_tree d))"

definition ring_next :: "u32 list \<Rightarrow> u32 \<Rightarrow> int \<Rightarrow> u32" where
  "ring_next ids cur step =
     ids ! (case index_of ids cur of
              Some i \<Rightarrow> nat ((int i + sgn step) mod int (length ids))
            | None \<Rightarrow> if step > 0 then 0 else length ids - 1)"

definition doc_focus_next :: "env \<Rightarrow> bytes \<Rightarrow> u32 \<Rightarrow> doc \<Rightarrow> doc_result" where
  "doc_focus_next e p plen d =
     (let step = sint (rd p 8)
      in if plen \<noteq> 9 \<or> step = 0 then rejected d SCENE_ERR_PROTOCOL
         else if focus_ring d = [] then (OpOk, d, [])
         else move_focus e (ring_next (focus_ring d) (dc_focus d) step) d)"

definition doc_op :: "env \<Rightarrow> u16 \<Rightarrow> bytes \<Rightarrow> u32 \<Rightarrow> doc \<Rightarrow> doc_result" where
  "doc_op e opcode p plen d =
     (if opcode = SCENE_OP_CREATE_NODE then doc_create e p plen d
      else if opcode = SCENE_OP_DESTROY_NODE then doc_destroy p plen d
      else if opcode = SCENE_OP_SET_TEXT \<or> opcode = SCENE_OP_SET_VALUE then doc_set_text e p plen d
      else if opcode = SCENE_OP_SET_RECT then
        doc_set 28 (\<lambda>p. None) (\<lambda>p n. n\<lparr>nd_rect := get_rect p 12\<rparr>) p plen d
      else if opcode = SCENE_OP_SET_FLAGS then
        doc_set 13 (\<lambda>p. None) (\<lambda>p n. n\<lparr>nd_flags := rd p 12\<rparr>) p plen d
      else if opcode = SCENE_OP_SET_STYLE then
        doc_set 16 (\<lambda>p. if scene_get_u32 p 12 \<ge> ev_styles e then Some SCENE_ERR_BAD_NODE else None)
          (\<lambda>p n. n\<lparr>nd_style := scene_get_u32 p 12\<rparr>) p plen d
      else if opcode = SCENE_OP_SET_TEXTURE then
        doc_set 34 (\<lambda>p. if scene_get_u32 p 12 \<notin> set (ev_textures e) then Some SCENE_ERR_PROTOCOL else None)
          (\<lambda>p n. n\<lparr>nd_tex := scene_get_u32 p 12, nd_tex_src := get_rect p 16,
                  nd_blend := rd p 32, nd_opacity := rd p 33\<rparr>) p plen d
      else if opcode = SCENE_OP_SET_EFFECT then
        doc_set 16 (\<lambda>p. if scene_get_u32 p 12 \<ge> ev_effects e then Some SCENE_ERR_BAD_NODE else None)
          (\<lambda>p n. n\<lparr>nd_effect := scene_get_u32 p 12\<rparr>) p plen d
      else if opcode = SCENE_OP_FOCUS then doc_focus_op e p plen d
      else if opcode = SCENE_OP_FOCUS_NEXT then doc_focus_next e p plen d
      else rejected d SCENE_ERR_PROTOCOL)"

end
