(* ===== verification/DestroyOp.thy ===== *)
theory DestroyOp
  imports SceneInv
begin

text \<open>
  DESTROY: freeing a subtree bottom up and unlinking its root keeps the invariant of the
  scene, and removes exactly that subtree from the document.
\<close>

text \<open>The scene \<open>op_destroy\<close> leaves for the node in slot \<open>s\<close>.\<close>

definition destroyed :: "scene \<Rightarrow> nat \<Rightarrow> u32 \<Rightarrow> scene" where
  "destroyed sc s nid =
     (let sc1 = destroy_loop (2 * ar_count (sc_arena sc) + 1) sc (nd_first (cell sc s)) [];
          sc2 = sc1\<lparr>sc_arena := detach (sc_arena sc1) s\<rparr>;
          sc3 = sc2\<lparr>sc_idm := snd (idmap_remove (sc_idm sc2) nid),
                    sc_arena := (arena_free_one (sc_arena sc2) s)
                      \<lparr>ar_count := ar_count (sc_arena sc2) - 1\<rparr>\<rparr>
      in if sc_focus sc3 = nid then sc3\<lparr>sc_focus := SCENE_NO_PARENT\<rparr> else sc3)"

lemma op_destroy_destroyed:
  "op_destroy a p plen =
     (if plen \<noteq> 12 then (OpErr SCENE_ERR_PROTOCOL, a)
      else if idmap_get (sc_idm (ac_scene a)) (scene_get_u32 p 8) = 0
      then (OpErr SCENE_ERR_BAD_NODE, a)
      else (OpOk, a\<lparr>ac_scene := destroyed (ac_scene a)
               (idmap_get (sc_idm (ac_scene a)) (scene_get_u32 p 8)) (scene_get_u32 p 8)\<rparr>))"
  by (simp add: op_destroy_def destroyed_def Let_def)

lemma arena_free_one_simps [simp]:
  "x \<noteq> s \<Longrightarrow> ar_nodes (arena_free_one a s) x = ar_nodes a x"
  "nd_next (ar_nodes (arena_free_one a s) s) = ar_free a"
  "ar_free (arena_free_one a s) = s" "ar_cap (arena_free_one a s) = ar_cap a"
  "ar_count (arena_free_one a s) = ar_count a"
  by (simp_all add: arena_free_one_def)

text \<open>What the steps leave, cell by cell.\<close>

lemma destroyed_parts:
  assumes wf: "scene_wf sc t fs" and s: "s \<in> set_tree t" and nid: "nd_id (cell sc s) = nid"
  defines "l \<equiv> kids s t" and "sc' \<equiv> destroyed sc s nid"
  defines "sc1 \<equiv> free_nodes sc (inorder l)"
  shows "sc_arena sc' = (arena_free_one (detach (sc_arena sc1) s) s)
           \<lparr>ar_count := ar_count (detach (sc_arena sc1) s) - 1\<rparr>"
    and "sc_idm sc' = foldl idmap_del (sc_idm sc) (map (\<lambda>x. nd_id (cell sc x)) (inorder l @ [s]))"
    and "sc_focus sc' = (if sc_focus sc = nid then SCENE_NO_PARENT else sc_focus sc)"
    and "sc_tex sc' = sc_tex sc"
proof -
  note d = arena_wfD [OF wfD(1) [OF wf]]
  have dl: "distinct (preorder l)" unfolding l_def by (rule distinct_kids [OF wfD(6) [OF wf]])
  have "size l \<le> size t"
  proof -
    have "s \<noteq> 0" using s d(6) by metis
    then show ?thesis using size_kids0 [OF wfD(6) [OF wf], of s] by (simp add: kids0_def l_def)
  qed
  then obtain k where k: "2 * ar_count (sc_arena sc) + 1 = 2 * size l + Suc k"
    using wfD(8) [OF wf] by (metis Suc_eq_plus1 add_Suc_right le_iff_add mult_2 distrib_left)
  have loop: "destroy_loop (2 * ar_count (sc_arena sc) + 1) sc (nd_first (cell sc s)) [] = sc1"
    unfolding k sc1_def
    using destroy_loop_frees [OF rep_kids [OF d(1) s] dl [unfolded l_def], of "Suc k" "[]"]
    by (simp add: l_def)
  show "sc_arena sc' = (arena_free_one (detach (sc_arena sc1) s) s)
           \<lparr>ar_count := ar_count (detach (sc_arena sc1) s) - 1\<rparr>"
    "sc_focus sc' = (if sc_focus sc = nid then SCENE_NO_PARENT else sc_focus sc)"
    "sc_tex sc' = sc_tex sc"
    unfolding sc'_def destroyed_def loop Let_def by (simp_all add: sc1_def free_nodes_simps)
  show "sc_idm sc' = foldl idmap_del (sc_idm sc) (map (\<lambda>x. nd_id (cell sc x)) (inorder l @ [s]))"
    using free_nodes_idm [of sc "inorder l"] nid
    unfolding sc'_def destroyed_def loop Let_def by (simp add: idmap_del_def sc1_def)
qed

lemma destroyed_wf:
  assumes wf: "scene_wf sc t fs" and s: "s \<in> set_tree t" and nid: "nd_id (cell sc s) = nid"
  defines "sc' \<equiv> destroyed sc s nid" and "t' \<equiv> prune s t"
  shows "scene_wf sc' t' (s # rev (inorder (kids s t)) @ fs)"
    and "set_tree t' = set_tree t - insert s (set_tree (kids s t))" "edges 0 t' \<subseteq> edges 0 t"
    and "\<And>x. x \<in> set_tree t' \<Longrightarrow> payload (cell sc' x) = payload (cell sc x) \<and>
           nd_depth (cell sc' x) = nd_depth (cell sc x)"
    and "idmap_get (sc_idm sc') k =
           (if k \<in> (\<lambda>x. nd_id (cell sc x)) ` insert s (set_tree (kids s t)) then 0
            else idmap_get (sc_idm sc) k)"
proof -
  let ?l = "kids s t"
  let ?sc1 = "free_nodes sc (inorder ?l)"
  let ?a1 = "sc_arena ?sc1"
  let ?a2 = "detach ?a1 s"
  note d = arena_wfD [OF wfD(1) [OF wf]]
  note P = destroyed_parts [OF wf s nid, folded sc'_def]
  have dt: "distinct (preorder t)" using wfD(6) [OF wf] .
  have s0: "s \<noteq> 0" using s d(6) by metis
  obtain p where e: "(p, s) \<in> edges 0 t" using edge_of [OF s] by blast
  have p: "p = 0 \<or> p \<in> set_tree t" using e by (rule edge_parent0)
  have t': "at p (cut s) t = t'" unfolding t'_def by (rule at_cut_prune [OF dt d(6) e])
  have h1: "ar_nodes ?a1 x = cell sc x" if "x \<notin> set_tree ?l" for x
    using that by (simp add: free_nodes_simps(1))
  have cap: "size t \<le> ar_cap ?a1" using d(9) by (simp add: free_nodes_simps)
  note D = detach_forest [OF d(1) dt e parents_okD [OF d(2) e] h1 cap]
  have sK: "s \<in> set (spine (kids0 p t))" using edge_spine0 [OF dt d(6) e] .
  have kid: "kids s (kids0 p t) = ?l"
    using kids_kids0 [OF dt] sK set_spine [of "kids0 p t"] by blast
  have slots: "slots t' + add_mset s (slots ?l) = slots t"
  proof -
    define X where "X = add_mset s (slots ?l)"
    have "slots t' + slots (kids0 p t) = slots t + slots (cut s (kids0 p t))"
      using slots_at [OF dt p, of "cut s"] by (simp only: t')
    moreover have "slots (kids0 p t) = slots (cut s (kids0 p t)) + X"
      using slots_cut [OF distinct_kids0 [OF dt] sK] by (simp add: kid X_def)
    ultimately have "slots t' + X + slots (cut s (kids0 p t)) = slots t + slots (cut s (kids0 p t))"
      by (simp add: ac_simps)
    then show ?thesis by (simp add: X_def)
  qed
  have perm: "mset (preorder t' @ s # preorder ?l) = mset (preorder t)" using slots by simp
  then have "distinct (preorder t' @ s # preorder ?l)" using dt by (metis mset_eq_imp_distinct_iff)
  then have out: "s \<notin> set_tree t'" "set_tree t' \<inter> set_tree ?l = {}" "s \<notin> set_tree ?l"
    "distinct (preorder ?l)" by auto
  have "set_tree t' \<union> insert s (set_tree ?l) = set_tree t"
    using mset_eq_setD [OF perm] by simp
  with out show st': "set_tree t' = set_tree t - insert s (set_tree ?l)" by auto
  show sub: "edges 0 t' \<subseteq> edges 0 t"
    using edges_at [OF dt p, of "cut s"] edges_cut [of p s "kids0 p t"] edges_kids0 [OF p]
    unfolding t' by blast
  have cell': "cell sc' x = ar_nodes ?a2 x" if "x \<noteq> s" for x
    using that by (simp add: P(1))
  have in_t': "x \<noteq> s \<and> x \<notin> set_tree ?l" if "x \<in> set_tree t'" for x using that out by auto
  show pay: "payload (cell sc' x) = payload (cell sc x) \<and> nd_depth (cell sc' x) = nd_depth (cell sc x)"
    if "x \<in> set_tree t'" for x
    using in_t' [OF that] cell' [of x] D(6,7) [of x] h1 [of x] by simp
  have idi: "nd_id (cell sc' x) = nd_id (cell sc x)" if "x \<in> set_tree t'" for x
    using pay [OF that] payload_eqD(1) by blast
  have size: "size t' + Suc (size ?l) = size t"
    using arg_cong [OF perm, of size] by simp
  have "forest (ar_nodes (sc_arena sc')) t'"
  proof -
    have "rep (ar_nodes (sc_arena sc')) c t' \<longleftrightarrow> rep (ar_nodes ?a2) c t'" for c
      using cell' out by (intro rep_cong) metis
    moreover have "nd_first (cell sc' 0) = nd_first (ar_nodes ?a2 0)"
      using cell' [of 0] s d(6) by metis
    ultimately show ?thesis using D(1) by (simp add: t')
  qed
  moreover have "parents_ok (ar_nodes (sc_arena sc')) 0 t'"
    unfolding parents_ok_def
  proof clarify
    fix q x assume qx: "(q, x) \<in> edges 0 t'"
    then have x: "x \<noteq> s" "x \<notin> set_tree ?l" "(q, x) \<in> edges 0 t"
      using edges_child [OF qx] in_t' sub by auto
    then show "nd_parent (cell sc' x) = q"
      using cell' D(5) [of x] h1 [of x] parents_okD [OF d(2), of q x] by simp
  qed
  moreover have "chain (ar_nodes (sc_arena sc')) (ar_free (sc_arena sc')) (s # rev (inorder ?l) @ fs)"
  proof -
    let ?fs = "rev (inorder ?l) @ fs"
    have "chain (ar_nodes ?a1) (ar_free ?a1) ?fs"
      using d(3,5,6) out(4) set_kids [of s t]
      by (intro free_nodes_chain) auto
    moreover have "ar_nodes (sc_arena sc') x = ar_nodes ?a1 x" if "x \<in> set ?fs" for x
    proof -
      have x: "x \<notin> set_tree t \<or> x \<in> set_tree ?l" "x \<noteq> 0"
        using that d(5,6,7) set_kids [of s t] by auto
      have "p \<notin> set_tree ?l"
      proof
        assume "p \<in> set_tree ?l"
        then have "p \<in> set_tree (kids0 p t)" using set_kids [of s "kids0 p t"] kid by auto
        then show False
          using p d(6) root_notin_kids [OF dt, of p] by (cases "p = 0") (auto simp: kids0_def)
      qed
      then have "x \<noteq> p" "x \<noteq> s" using x p s out(3) d(6) by auto
      then show ?thesis
        using x cell' [of x] D(8) [of x] set_kids0 [of p t] by auto
    qed
    then have "chain (ar_nodes (sc_arena sc')) c ?fs \<longleftrightarrow> chain (ar_nodes ?a1) c ?fs" for c
      by (intro chain_cong) simp
    ultimately show ?thesis
      using D(11) s0 by (auto simp: P(1) arena_free_one_def)
  qed
  moreover have "slots_ok (preorder t' @ (s # rev (inorder ?l) @ fs) @ [])"
  proof (rule slots_ok_perm)
    show "slots_ok (preorder t @ fs @ [])" using wfD(1) [OF wf] by (simp add: arena_wf_def)
    show "mset (preorder t' @ (s # rev (inorder ?l) @ fs) @ []) = mset (preorder t @ fs @ [])"
      by (simp add: slots [symmetric])
  qed
  moreover have "ar_count (sc_arena sc') = size t' + length []"
    using D(10) d(4) size by (simp add: P(1) free_nodes_simps)
  moreover have "ar_cap (sc_arena sc') = ar_cap (sc_arena sc)"
    using D(9) by (simp add: P(1) free_nodes_simps)
  moreover have "size t + length fs < ar_cap (sc_arena sc)"
    using wfD(1) [OF wf] s by (cases t) (auto simp: arena_wf_def)
  ultimately have "arena_wf (sc_arena sc') t' (s # rev (inorder ?l) @ fs) []"
    using size by (simp add: arena_wf_def)
  have get: "idmap_inv (sc_idm sc') \<and> idmap_get (sc_idm sc') k =
           (if k \<in> (\<lambda>x. nd_id (cell sc x)) ` insert s (set_tree ?l) then 0
            else idmap_get (sc_idm sc) k)" for k
    using idt.del_all [OF wfD(2) [OF wf], of "map (\<lambda>x. nd_id (cell sc x)) (inorder ?l @ [s])" k]
    unfolding P(2) by auto
  then show "idmap_get (sc_idm sc') k =
           (if k \<in> (\<lambda>x. nd_id (cell sc x)) ` insert s (set_tree ?l) then 0
            else idmap_get (sc_idm sc) k)" by blast
  have "ids_ok sc' t'"
    unfolding ids_ok_def
  proof (intro conjI allI ballI impI)
    show "idmap_inv (sc_idm sc')" using get by blast
  next
    fix k assume "idmap_get (sc_idm sc') k \<noteq> 0"
    then have k: "k \<notin> (\<lambda>x. nd_id (cell sc x)) ` insert s (set_tree ?l)"
      and gk: "idmap_get (sc_idm sc') k = idmap_get (sc_idm sc) k" "idmap_get (sc_idm sc) k \<noteq> 0"
      using get by (auto split: if_splits)
    note w = wfD(3) [OF wf gk(2)]
    with k have "idmap_get (sc_idm sc) k \<notin> insert s (set_tree ?l)" by (metis image_eqI)
    with w show "idmap_get (sc_idm sc') k \<in> set_tree t'" by (simp add: gk st')
    then show "nd_id (cell sc' (idmap_get (sc_idm sc') k)) = k"
      using idi w by (simp add: gk)
  next
    fix x assume x: "x \<in> set_tree t'"
    then have xt: "x \<in> set_tree t" by (simp add: st')
    have "nd_id (cell sc x) \<notin> (\<lambda>x. nd_id (cell sc x)) ` insert s (set_tree ?l)"
      using inj_on_image_mem_iff [OF ids_inj [OF wf], of x "insert s (set_tree ?l)"] x xt s
        set_kids [of s t] by (auto simp: st')
    then show "idmap_get (sc_idm sc') (nd_id (cell sc' x)) = x"
      using get wfD(4) [OF wf xt] by (simp add: idi [OF x])
    show "nd_id (cell sc' x) \<noteq> 0" "nd_id (cell sc' x) \<noteq> SCENE_NO_PARENT"
      using wfD(5) [OF wf xt] by (simp_all add: idi [OF x])
  qed
  with \<open>arena_wf _ t' _ []\<close> show "scene_wf sc' t' (s # rev (inorder ?l) @ fs)"
    by (simp add: scene_wf_def)
qed

text \<open>The document loses the subtree.\<close>

lemma destroyed_represents:
  assumes "scene_wf sc t fs" "live_ok (ar_nodes (sc_arena sc)) t"
    and s: "idmap_get (sc_idm sc) nid = s" "s \<noteq> 0"
  shows "represents (destroyed sc s nid) (doc_delete nid (doc_of sc t))"
proof -
  note wf = assms(1) and live = assms(2)
  let ?sc' = "destroyed sc s nid" and ?t' = "prune s t"
  let ?id = "\<lambda>x. nd_id (cell sc x)"
  have st: "s \<in> set_tree t" and nid: "nd_id (cell sc s) = nid"
    using wfD(3) [OF wf, of nid] s by simp_all
  note D = destroyed_wf [OF wf st nid] and P = destroyed_parts [OF wf st nid]
  have sub: "insert s (set_tree (kids s t)) \<subseteq> set_tree t" using st set_kids [of s t] by blast
  have inj: "inj_on ?id (set_tree t)" using ids_inj [OF wf] .
  have live': "live_ok (ar_nodes (sc_arena ?sc')) ?t'"
    unfolding live_ok_def
  proof clarify
    fix q x assume qx: "(q, x) \<in> edges 0 ?t'" and ns: "\<not> nd_stale (cell ?sc' x)"
    have x: "x \<in> set_tree ?t'" using qx by (rule edges_child)
    have qt: "q \<noteq> 0 \<Longrightarrow> q \<in> set_tree ?t'" using edges_parent [OF qx] by blast
    have e: "(q, x) \<in> edges 0 t" using qx D(3) by blast
    have "\<not> nd_stale (cell sc x)" using ns D(4) [OF x] payload_eqD(2) by blast
    note L = live_okD [OF live e this]
    show "if q = 0 then nd_depth (cell ?sc' x) = 0
        else \<not> nd_stale (cell ?sc' q) \<and> nd_depth (cell ?sc' x) = nd_depth (cell ?sc' q) + 1"
      using L D(4) [OF x] D(4) [OF qt] payload_eqD(2) [of "cell ?sc' q" "cell sc q"] by simp
  qed
  have "doc_of ?sc' ?t' = doc_delete nid (doc_of sc t)"
  proof -
    have "map_tree (\<lambda>x. nd_id (cell ?sc' x)) ?t' = map_tree ?id ?t'"
      using D(4) payload_eqD(1) by (intro tree.map_cong0) blast
    also have "\<dots> = prune (?id s) (map_tree ?id t)"
      by (rule map_prune [OF inj st inj]) simp
    finally have tree: "map_tree (\<lambda>x. nd_id (cell ?sc' x)) ?t' = prune nid (map_tree ?id t)"
      by (simp add: nid)
    have gone: "insert nid (set_tree (kids nid (map_tree ?id t))) = ?id ` insert s (set_tree (kids s t))"
      using map_kids [OF inj st] nid by (simp add: tree.set_map)
    have "(let x = idmap_get (sc_idm ?sc') k in if x = 0 then None else Some (payload (cell ?sc' x))) =
        ((\<lambda>k. let x = idmap_get (sc_idm sc) k in if x = 0 then None else Some (payload (cell sc x))) |`
           (- insert nid (set_tree (kids nid (map_tree ?id t))))) k" for k
    proof (cases "k \<in> ?id ` insert s (set_tree (kids s t)) \<or> idmap_get (sc_idm sc) k = 0")
      case True
      then show ?thesis unfolding gone using D(5) [of k] by (auto simp: restrict_map_def Let_def)
    next
      case False
      let ?x = "idmap_get (sc_idm sc) k"
      have x: "?x \<in> set_tree t" "?id ?x = k" using wfD(3) [OF wf, of k] False by simp_all
      with False have "?x \<in> set_tree ?t'" unfolding D(2) by (metis Diff_iff image_eqI)
      then show ?thesis unfolding gone
        using D(5) [of k] D(4) [of ?x] False by (simp add: restrict_map_def Let_def)
    qed
    with tree show ?thesis
      unfolding doc_of_def doc_delete_def by (simp add: P(3))
  qed
  with D(1) live' show ?thesis unfolding represents_def by metis
qed

end
