(* ===== verification/OpsCorrect.thy ===== *)
theory OpsCorrect
  imports DocSpec DestroyOp
begin

text \<open>
  The operations of the store implement the operations on documents: from a scene that
  represents a document, \<open>apply_op\<close> has the status of \<open>doc_op\<close>, leaves a scene that
  represents the new document, and appends exactly the records of \<open>doc_op\<close> to the outbound
  queue. In particular every operation keeps the invariant of the scene.
\<close>

definition env_of :: "apply_ctx \<Rightarrow> env" where
  "env_of a =
     \<lparr>ev_lim = ac_lim a, ev_styles = ac_style_count a, ev_effects = ac_effect_count a,
      ev_textures = map te_ref (sc_tex (ac_scene a)), ev_seq = ac_scene_seq a,
      ev_events = ac_events a\<rparr>"

definition emit_all :: "outq \<Rightarrow> wire_record list \<Rightarrow> outq" where
  "emit_all q rs = foldl (\<lambda>q (opc, b). emit q opc b) q rs"

text \<open>The simulation: what an operation may return for a document result.\<close>

definition implements :: "apply_ctx \<Rightarrow> op_result \<Rightarrow> doc_result \<Rightarrow> bool" where
  "implements a r dr \<longleftrightarrow>
     (case dr of (st, d', rs) \<Rightarrow>
        fst r = st \<and> represents (ac_scene (snd r)) d' \<and>
        ac_out (snd r) = emit_all (ac_out a) rs \<and>
        sc_tex (ac_scene (snd r)) = sc_tex (ac_scene a) \<and>
        snd r = a\<lparr>ac_scene := ac_scene (snd r), ac_out := ac_out (snd r)\<rparr>)"

lemma implements_rejected [simp]:
  "represents (ac_scene a) d \<Longrightarrow> implements a (OpErr e, a) (rejected d e)"
  by (simp add: implements_def rejected_def emit_all_def)

lemma implementsI:
  "represents sc' d' \<Longrightarrow> sc_tex sc' = sc_tex (ac_scene a) \<Longrightarrow>
   implements a (st, a\<lparr>ac_scene := sc'\<rparr>) (st, d', [])"
  by (simp add: implements_def emit_all_def)

subsection \<open>Reading a document off a scene\<close>

lemma doc_attr_slot:
  "dc_attr (doc_of sc t) k =
     (if idmap_get (sc_idm sc) k = 0 then None
      else Some (payload (cell sc (idmap_get (sc_idm sc) k))))"
  by (simp add: doc_of_def Let_def)

lemma doc_live_slot:
  "doc_live (doc_of sc t) k \<longleftrightarrow>
     idmap_get (sc_idm sc) k \<noteq> 0 \<and> \<not> nd_stale (cell sc (idmap_get (sc_idm sc) k))"
  by (simp add: doc_live_def doc_attr_slot)

lemma target_doc:
  "target a k = (if doc_live (doc_of (ac_scene a) t) k then Some (idmap_get (sc_idm (ac_scene a)) k)
                 else None)"
  by (simp add: target_def doc_live_slot Let_def)

lemma parent_slot_doc:
  "(\<exists>ps. parent_slot a parent = Some ps) \<longleftrightarrow>
     parent = SCENE_NO_PARENT \<or> doc_live (doc_of (ac_scene a) t) parent"
  by (auto simp: parent_slot_def doc_live_slot Let_def)

subsection \<open>Attributes\<close>

lemma set_cell_represents:
  assumes wf: "scene_wf sc t fs" and live: "live_ok (ar_nodes (sc_arena sc)) t"
    and s: "idmap_get (sc_idm sc) nid = s" "s \<noteq> 0"
    and f: "attrs_only f" "\<And>n. nd_stale (f n) = nd_stale n"
  shows "represents (set_cell sc s (f (cell sc s))) (doc_update nid f (doc_of sc t))"
proof -
  let ?sc' = "set_cell sc s (f (cell sc s))"
  have st: "s \<in> set_tree t" and nid: "nd_id (cell sc s) = nid"
    using wfD(3) [OF wf, of nid] s by simp_all
  have cell': "cell ?sc' x = (if x = s then f (cell sc s) else cell sc x)" for x
    by (simp add: set_cell_def)
  have same: "nd_id (cell ?sc' x) = nd_id (cell sc x)" "nd_stale (cell ?sc' x) = nd_stale (cell sc x)"
    "nd_parent (cell ?sc' x) = nd_parent (cell sc x)" "nd_first (cell ?sc' x) = nd_first (cell sc x)"
    "nd_next (cell ?sc' x) = nd_next (cell sc x)" "nd_depth (cell ?sc' x) = nd_depth (cell sc x)" for x
    using f by (auto simp: cell' attrs_only_def)
  have parts: "ar_cap (sc_arena ?sc') = ar_cap (sc_arena sc)" "ar_count (sc_arena ?sc') = ar_count (sc_arena sc)"
    "ar_free (sc_arena ?sc') = ar_free (sc_arena sc)" "sc_idm ?sc' = sc_idm sc" "sc_focus ?sc' = sc_focus sc"
    by (simp_all add: set_cell_def)
  have "arena_wf (sc_arena ?sc') t fs []"
    by (rule arena_wf_cong [OF wfD(1) [OF wf]]) (simp_all add: parts same)
  moreover have "ids_ok ?sc' t"
    using wf by (simp add: scene_wf_def ids_ok_def parts same)
  moreover have "live_ok (ar_nodes (sc_arena ?sc')) t"
    using live unfolding live_ok_def same .
  moreover have "doc_of ?sc' t = doc_update nid f (doc_of sc t)"
  proof -
    have "(let x = idmap_get (sc_idm ?sc') k in if x = 0 then None else Some (payload (cell ?sc' x))) =
      ((\<lambda>k. let x = idmap_get (sc_idm sc) k in if x = 0 then None else Some (payload (cell sc x)))
         (nid := Some (f (payload (cell sc s))))) k" for k
      using s nid f(1) wfD(3) [OF wf, of k] by (auto simp: Let_def parts cell' attrs_only_def)
    then show ?thesis
      unfolding doc_of_def doc_update_def using s by (simp add: parts same fun_eq_iff)
  qed
  ultimately show ?thesis unfolding represents_def scene_wf_def by metis
qed

lemma set_cell_tex [simp]: "sc_tex (set_cell sc s n) = sc_tex sc"
  by (simp add: set_cell_def)

lemma focus_represents:
  "represents sc d \<Longrightarrow> represents (sc\<lparr>sc_focus := k\<rparr>) (d\<lparr>dc_focus := k\<rparr>)"
  unfolding represents_def
proof (elim exE conjE)
  fix t fs assume "scene_wf sc t fs" "live_ok (ar_nodes (sc_arena sc)) t" "d = doc_of sc t"
  then show "\<exists>t fs. scene_wf (sc\<lparr>sc_focus := k\<rparr>) t fs \<and>
      live_ok (ar_nodes (sc_arena (sc\<lparr>sc_focus := k\<rparr>))) t \<and>
      d\<lparr>dc_focus := k\<rparr> = doc_of (sc\<lparr>sc_focus := k\<rparr>) t"
    by (intro exI [of _ t] exI [of _ fs]) (simp add: scene_wf_def ids_ok_def doc_of_def Let_def cong: if_cong)
qed

lemma representsE:
  assumes "represents sc d"
  obtains t fs where "scene_wf sc t fs" "live_ok (ar_nodes (sc_arena sc)) t" "d = doc_of sc t"
  using assms by (auto simp: represents_def)

text \<open>The common shape of the attribute operations.\<close>

lemma set_refines:
  assumes rep: "represents (ac_scene a) d" and f: "attrs_only (f p)" "\<And>n. nd_stale (f p n) = nd_stale n"
  shows "implements a
     (if plen \<noteq> len then (OpErr SCENE_ERR_PROTOCOL, a)
      else case target a (scene_get_u32 p 8) of
        None \<Rightarrow> (OpErr SCENE_ERR_BAD_NODE, a)
      | Some slot \<Rightarrow>
          (case guard p of Some err \<Rightarrow> (OpErr err, a)
           | None \<Rightarrow> (OpOk, put_cell a slot (f p (ac_cell a slot)))))
     (doc_set len guard f p plen d)"
proof -
  obtain t fs where t: "scene_wf (ac_scene a) t fs" "live_ok (ar_nodes (ac_arena a)) t"
    "d = doc_of (ac_scene a) t"
    using rep by (rule representsE)
  show ?thesis
  proof (cases "doc_live d (scene_get_u32 p 8)")
    case True
    then have s: "idmap_get (sc_idm (ac_scene a)) (scene_get_u32 p 8) \<noteq> 0"
      by (simp add: t(3) doc_live_slot)
    show ?thesis
      using True rep set_cell_represents [OF t(1,2) refl s f] t(3)
      by (auto simp: doc_set_def target_doc [of a _ t] put_cell_def Let_def
          split: option.splits intro: implementsI)
  next
    case False
    then show ?thesis
      using rep t(3) by (simp add: doc_set_def target_doc [of a _ t])
  qed
qed

subsection \<open>CREATE and DESTROY\<close>

lemma recreate_attrs_only: "attrs_only (recreate_attrs p)" "\<not> nd_stale (recreate_attrs p n)"
  by (auto simp: attrs_only_def recreate_attrs_def payload_def)

lemma created_tex [simp]: "sc_tex (created sc ps n) = sc_tex sc"
  by (simp add: created_def Let_def split_beta)

lemma recreated_tex [simp]: "sc_tex (recreated sc ps s f) = sc_tex sc"
  by (simp add: recreated_def Let_def)

lemma doc_size: "scene_wf sc t fs \<Longrightarrow> size (dc_tree (doc_of sc t)) = ar_count (sc_arena sc)"
  using wfD(8) by (simp add: doc_of_def)

lemma op_create_refines:
  assumes rep: "represents (ac_scene a) d"
    and live: "ac_replay a \<Longrightarrow> \<not> doc_live d (scene_get_u32 p 12)"
    and nz: "scene_get_u32 p 12 \<noteq> 0"
  shows "implements a (op_create a p plen) (doc_create (env_of a) p plen d)"
proof -
  let ?nid = "scene_get_u32 p 12" and ?par = "scene_get_u32 p 8"
  let ?slot = "idmap_get (sc_idm (ac_scene a)) ?nid"
  obtain t fs where t: "scene_wf (ac_scene a) t fs" "live_ok (ar_nodes (ac_arena a)) t"
    "d = doc_of (ac_scene a) t"
    using rep by (rule representsE)
  have lim: "ev_lim (env_of a) = ac_lim a" by (simp add: env_of_def)
  have par: "(?par = SCENE_NO_PARENT \<or> doc_live d ?par) \<longleftrightarrow> parent_slot a ?par \<noteq> None"
    using parent_slot_doc [of a ?par t] t(3) by auto
  have size: "size (dc_tree d) = ar_count (ac_arena a)" using doc_size [OF t(1)] t(3) by simp
  note slot = doc_attr_slot [of "ac_scene a" t ?nid, folded t(3)] doc_live_slot [of "ac_scene a" t ?nid, folded t(3)]
  have attrs: "nd_id (create_attrs p fresh_node) = ?nid" "nd_first (create_attrs p fresh_node) = 0"
    "nd_next (create_attrs p fresh_node) = 0" "\<not> nd_stale (create_attrs p fresh_node)"
    by (simp_all add: create_attrs_def fresh_node_def zero_node_def)
  show ?thesis
  proof (cases "plen \<noteq> 35 \<or> scene_get_u16 p 16 > SCENE_ROLE_MAX \<or> ?nid = SCENE_NO_PARENT")
    case True
    then show ?thesis using rep by (auto simp: op_create_cases doc_create_def)
  next
    case ok: False
    show ?thesis
    proof (cases "parent_slot a ?par")
      case None
      then show ?thesis using ok rep live par slot size
        by (auto simp: op_create_cases doc_create_def Let_def lim)
    next
      case (Some ps)
      note ps = parent_slot_Some [OF t(1) Some]
      show ?thesis
      proof (cases "?slot = 0")
        case True
        have "represents (created (ac_scene a) ps (create_attrs p fresh_node))
            (doc_insert ?par ?nid (payload (create_attrs p fresh_node)) d)"
          using created_represents [OF t(1,2), of "create_attrs p fresh_node" ps ?par] True attrs nz ok ps t(3)
          by auto
        then show ?thesis using True ok rep live par slot size Some
          by (auto simp: op_create_cases doc_create_def Let_def lim intro: implementsI)
      next
        case False
        have "nd_stale (ac_cell a ?slot) \<Longrightarrow>
            represents (recreated (ac_scene a) ps ?slot (recreate_attrs p))
              (doc_update ?nid (recreate_attrs p) (doc_move ?par ?nid d))"
          using recreated_represents [OF t(1,2) refl False _ recreate_attrs_only, of ps ?par] ps t(3)
          by auto
        then show ?thesis using False ok rep live par slot size Some
          by (auto simp: op_create_cases doc_create_def Let_def lim intro: implementsI)
      qed
    qed
  qed
qed

lemma op_destroy_refines:
  assumes rep: "represents (ac_scene a) d"
  shows "implements a (op_destroy a p plen) (doc_destroy p plen d)"
proof -
  let ?nid = "scene_get_u32 p 8"
  obtain t fs where t: "scene_wf (ac_scene a) t fs" "live_ok (ar_nodes (ac_arena a)) t"
    "d = doc_of (ac_scene a) t"
    using rep by (rule representsE)
  show ?thesis
  proof (cases "idmap_get (sc_idm (ac_scene a)) ?nid = 0")
    case True
    then show ?thesis using rep doc_attr_slot [of "ac_scene a" t ?nid] t(3)
      by (simp add: op_destroy_destroyed doc_destroy_def Let_def)
  next
    case False
    note st = wfD(3) [OF t(1) False]
    have "sc_tex (destroyed (ac_scene a) (idmap_get (sc_idm (ac_scene a)) ?nid) ?nid) = sc_tex (ac_scene a)"
      using destroyed_parts(4) [OF t(1), of "idmap_get (sc_idm (ac_scene a)) ?nid" ?nid] st by blast
    then show ?thesis
      using False rep doc_attr_slot [of "ac_scene a" t ?nid] t(3)
        destroyed_represents [OF t(1,2) refl False]
      by (auto simp: op_destroy_destroyed doc_destroy_def Let_def intro: implementsI)
  qed
qed

subsection \<open>Texts\<close>

lemma text_index_less: "text_index ts tid < length ts \<longleftrightarrow> tid \<in> ts_id ` set ts"
  by (induction ts) auto

lemma text_index_bound: "text_index ts tid \<le> length ts"
  by (induction ts) auto

lemma text_index_eq: "text_index ts tid = length ts \<longleftrightarrow> tid \<notin> ts_id ` set ts"
  using text_index_less [of ts tid] text_index_bound [of ts tid] by auto

lemma text_index_id: "text_index ts tid < length ts \<Longrightarrow> ts_id (ts ! text_index ts tid) = tid"
  by (induction ts) auto

lemma put_text_attrs: "attrs_only (put_text tid data)" "nd_stale (put_text tid data n) = nd_stale n"
  by (auto simp: attrs_only_def put_text_def payload_def)

text \<open>Finding or adding the slot and then writing it is \<open>put_text\<close>.\<close>

lemma put_text_index:
  fixes n tid
  defines "i \<equiv> text_index (nd_texts n) tid"
  defines "texts \<equiv> (if i = length (nd_texts n) then nd_texts n @ [\<lparr>ts_id = tid, ts_data = []\<rparr>]
                     else nd_texts n)"
  shows "n\<lparr>nd_texts := texts[i := (texts ! i)\<lparr>ts_data := data\<rparr>]\<rparr> = put_text tid data n"
    and "i = length (nd_texts n) \<Longrightarrow> n\<lparr>nd_texts := texts\<rparr> = put_text tid [] n"
    and "i \<noteq> length (nd_texts n) \<Longrightarrow> n\<lparr>nd_texts := texts\<rparr> = n"
proof -
  have "i \<noteq> length (nd_texts n) \<Longrightarrow>
      (nd_texts n ! i)\<lparr>ts_data := data\<rparr> = \<lparr>ts_id = tid, ts_data = data\<rparr>"
    using text_index_bound [of "nd_texts n" tid] text_index_id [of "nd_texts n" tid]
    by (cases "nd_texts n ! i") (simp add: i_def)
  then show "n\<lparr>nd_texts := texts[i := (texts ! i)\<lparr>ts_data := data\<rparr>]\<rparr> = put_text tid data n"
    using text_index_eq [of "nd_texts n" tid] text_index_less [of "nd_texts n" tid]
    by (cases "i = length (nd_texts n)")
      (simp_all add: texts_def put_text_def i_def [symmetric] list_update_append nth_append)
  show "i = length (nd_texts n) \<Longrightarrow> n\<lparr>nd_texts := texts\<rparr> = put_text tid [] n"
    using text_index_eq [of "nd_texts n" tid] by (simp add: texts_def put_text_def i_def)
  show "i \<noteq> length (nd_texts n) \<Longrightarrow> n\<lparr>nd_texts := texts\<rparr> = n"
    by (simp add: texts_def)
qed

lemma put_cell_twice [simp]: "put_cell (put_cell a s n) s m = put_cell a s m"
  by (simp add: put_cell_def set_cell_def)

lemma put_cell_same [simp]: "put_cell a s (ac_cell a s) = a"
  by (simp add: put_cell_def set_cell_def)

lemma put_cell_sel [simp]:
  "ac_out (put_cell a s n) = ac_out a" "ac_events (put_cell a s n) = ac_events a"
  "(put_cell a s n)\<lparr>ac_out := ac_out a\<rparr> = put_cell a s n"
  by (simp_all add: put_cell_def)

lemma text_set_cases:
  fixes tid :: u32 and p :: bytes and off :: nat and len :: u32
  assumes "target a nid = Some slot"
  defines "n \<equiv> ac_cell a slot"
  defines "old \<equiv> tid \<in> ts_id ` set (nd_texts n)" and "data \<equiv> slice p off (unat len)"
  shows "text_set a nid tid p off len =
     (if \<not> old \<and> length (nd_texts n) \<ge> unat (max_text_slots_per_node (ac_lim a))
      then (OpErr SCENE_ERR_LIMIT, a)
      else if len > max_text_bytes_per_slot (ac_lim a)
      then (OpErr SCENE_ERR_LIMIT, if old then a else put_cell a slot (put_text tid [] n))
      else (OpOk, (put_cell a slot (put_text tid data n))
             \<lparr>ac_out := (if ac_events a then emit_text_index (ac_out a) tid nid data else ac_out a)\<rparr>))"
proof -
  have "old \<longleftrightarrow> text_index (nd_texts n) tid \<noteq> length (nd_texts n)"
    unfolding old_def using text_index_eq [of "nd_texts n" tid] by blast
  moreover have "put_cell a slot n = a" by (simp add: n_def)
  ultimately show ?thesis
    using assms(1) put_text_index(1) [of n tid data] put_text_index(2,3) [of n tid]
    unfolding text_set_def Let_def assms(1) option.case n_def [symmetric] data_def [symmetric]
    by (cases old) simp_all
qed

lemma op_set_text_refines:
  assumes rep: "represents (ac_scene a) d"
  shows "implements a (op_set_text a p plen) (doc_set_text (env_of a) p plen d)"
proof -
  let ?nid = "scene_get_u32 p 8" and ?tid = "scene_get_u32 p 12" and ?len = "scene_get_u32 p 16"
  let ?data = "slice p 20 (unat ?len)" and ?slot = "idmap_get (sc_idm (ac_scene a)) ?nid"
  obtain t fs where t: "scene_wf (ac_scene a) t fs" "live_ok (ar_nodes (ac_arena a)) t"
    "d = doc_of (ac_scene a) t"
    using rep by (rule representsE)
  have env: "ev_lim (env_of a) = ac_lim a" "ev_events (env_of a) = ac_events a"
    by (simp_all add: env_of_def)
  show ?thesis
  proof (cases "doc_live d ?nid \<and> \<not> plen < 20 \<and> plen = 20 + ?len")
    case True
    then have tgt: "target a ?nid = Some ?slot" and s: "?slot \<noteq> 0"
      using target_doc [of a ?nid t] t(3) doc_live_slot [of "ac_scene a" t ?nid] by auto
    have attr: "dc_attr d ?nid = Some (payload (ac_cell a ?slot))"
      using s doc_attr_slot [of "ac_scene a" t ?nid] t(3) by simp
    have len: "of_nat (length ?data) = ?len" by simp
    have upd: "represents (set_cell (ac_scene a) ?slot (put_text ?tid b (ac_cell a ?slot)))
        (doc_update ?nid (put_text ?tid b) d)" for b
      using set_cell_represents [OF t(1,2) refl s put_text_attrs] t(3) by simp
    have op: "op_set_text a p plen = text_set a ?nid ?tid p 20 ?len"
      using True by (auto simp: op_set_text_def Let_def)
    have doc: "doc_set_text (env_of a) p plen d =
      (let old = (?tid \<in> ts_id ` set (nd_texts (ac_cell a ?slot))) in
       if \<not> old \<and> length (nd_texts (ac_cell a ?slot)) \<ge> unat (max_text_slots_per_node (ac_lim a))
       then rejected d SCENE_ERR_LIMIT
       else if ?len > max_text_bytes_per_slot (ac_lim a)
       then (OpErr SCENE_ERR_LIMIT, if old then d else doc_update ?nid (put_text ?tid []) d, [])
       else (OpOk, doc_update ?nid (put_text ?tid ?data) d,
             if ac_events a
             then [(SCENE_SRV_TEXT_INDEX,
                    scene_put_u32 1 @ scene_put_u32 ?tid @ scene_put_u32 ?nid @
                    scene_put_u32 ?len @ ?data)]
             else []))"
    proof -
      have c: "(plen < 20 \<or> plen \<noteq> 20 + ?len) = False" "doc_live d ?nid = True" using True by auto
      show ?thesis unfolding doc_set_text_def Let_def attr env c by simp
    qed
    show ?thesis
      unfolding op doc text_set_cases [OF tgt] Let_def
      using upd rep len
      by (auto simp: implements_def rejected_def emit_all_def put_cell_def emit_text_index_def)
  next
    case False
    then show ?thesis
      using rep t(3) target_doc [of a ?nid t]
      by (auto simp: op_set_text_def doc_set_text_def Let_def text_set_def)
  qed
qed

subsection \<open>The other attributes\<close>

lemma op_set_rect_refines:
  "represents (ac_scene a) d \<Longrightarrow> implements a (op_set_rect a p plen)
     (doc_set 28 (\<lambda>p. None) (\<lambda>p n. n\<lparr>nd_rect := get_rect p 12\<rparr>) p plen d)"
  using set_refines [where f = "\<lambda>p n. n\<lparr>nd_rect := get_rect p 12\<rparr>" and guard = "\<lambda>p. None"
      and len = 28 and p = p and plen = plen]
  by (simp add: op_set_rect_def attrs_only_def payload_def cong: option.case_cong if_cong)

lemma op_set_flags_refines:
  "represents (ac_scene a) d \<Longrightarrow> implements a (op_set_flags a p plen)
     (doc_set 13 (\<lambda>p. None) (\<lambda>p n. n\<lparr>nd_flags := rd p 12\<rparr>) p plen d)"
  using set_refines [where f = "\<lambda>p n. n\<lparr>nd_flags := rd p 12\<rparr>" and guard = "\<lambda>p. None"
      and len = 13 and p = p and plen = plen]
  by (simp add: op_set_flags_def attrs_only_def payload_def cong: option.case_cong if_cong)

lemma op_set_style_refines:
  "represents (ac_scene a) d \<Longrightarrow> implements a (op_set_style a p plen)
     (doc_set 16 (\<lambda>p. if scene_get_u32 p 12 \<ge> ac_style_count a then Some SCENE_ERR_BAD_NODE else None)
       (\<lambda>p n. n\<lparr>nd_style := scene_get_u32 p 12\<rparr>) p plen d)"
  using set_refines [where f = "\<lambda>p n. n\<lparr>nd_style := scene_get_u32 p 12\<rparr>"
      and guard = "\<lambda>p. if scene_get_u32 p 12 \<ge> ac_style_count a then Some SCENE_ERR_BAD_NODE else None"
      and len = 16 and p = p and plen = plen and a = a]
  by (simp add: op_set_style_def attrs_only_def payload_def if_distrib Let_def cong: option.case_cong if_cong)

lemma op_set_effect_refines:
  "represents (ac_scene a) d \<Longrightarrow> implements a (op_set_effect a p plen)
     (doc_set 16 (\<lambda>p. if scene_get_u32 p 12 \<ge> ac_effect_count a then Some SCENE_ERR_BAD_NODE else None)
       (\<lambda>p n. n\<lparr>nd_effect := scene_get_u32 p 12\<rparr>) p plen d)"
  using set_refines [where f = "\<lambda>p n. n\<lparr>nd_effect := scene_get_u32 p 12\<rparr>"
      and guard = "\<lambda>p. if scene_get_u32 p 12 \<ge> ac_effect_count a then Some SCENE_ERR_BAD_NODE else None"
      and len = 16 and p = p and plen = plen and a = a]
  by (simp add: op_set_effect_def attrs_only_def payload_def if_distrib Let_def cong: option.case_cong if_cong)

lemma op_set_texture_refines:
  "represents (ac_scene a) d \<Longrightarrow> implements a (op_set_texture a p plen)
     (doc_set 34 (\<lambda>p. if scene_get_u32 p 12 \<notin> set (map te_ref (sc_tex (ac_scene a)))
                      then Some SCENE_ERR_PROTOCOL else None)
       (\<lambda>p n. n\<lparr>nd_tex := scene_get_u32 p 12, nd_tex_src := get_rect p 16,
               nd_blend := rd p 32, nd_opacity := rd p 33\<rparr>) p plen d)"
proof -
  have reg: "(\<not> list_ex (\<lambda>t. te_ref t = x) (sc_tex (ac_scene a))) \<longleftrightarrow>
      x \<notin> set (map te_ref (sc_tex (ac_scene a)))" for x
    by (auto simp: list_ex_iff)
  show "represents (ac_scene a) d \<Longrightarrow> ?thesis"
    using set_refines [where f = "\<lambda>p n. n\<lparr>nd_tex := scene_get_u32 p 12, nd_tex_src := get_rect p 16,
               nd_blend := rd p 32, nd_opacity := rd p 33\<rparr>"
        and guard = "\<lambda>p. if scene_get_u32 p 12 \<notin> set (map te_ref (sc_tex (ac_scene a)))
                      then Some SCENE_ERR_PROTOCOL else None"
        and len = 34 and p = p and plen = plen and a = a]
    unfolding op_set_texture_def reg
    by (simp add: attrs_only_def payload_def if_distrib Let_def cong: option.case_cong if_cong)
qed

subsection \<open>Focus\<close>

lemma in_ring_payload [simp]: "in_ring (payload n) = in_ring n"
  by (simp add: in_ring_def)

lemma fnext_fold:
  "length ids + length xs \<le> cap \<Longrightarrow>
   fold (fnext_cb h cap) xs ids = ids @ map (\<lambda>s. nd_id (h s)) (filter (\<lambda>s. in_ring (h s)) xs)"
  by (induction xs arbitrary: ids) (auto simp: fnext_cb_def in_ring_def Let_def)

text \<open>The walk collects the focus ring of the document.\<close>

lemma focusables_ring:
  assumes wf: "scene_wf sc t fs"
  shows "focusables (sc_arena sc) = focus_ring (doc_of sc t)"
proof -
  note d = arena_wfD [OF wfD(1) [OF wf]]
  have attr: "dc_attr (doc_of sc t) (nd_id (cell sc s)) = Some (payload (cell sc s))"
    if "s \<in> set_tree t" for s
    using wfD(4) [OF wf that] that d(6) by (metis doc_attr_slot)
  have "focusables (sc_arena sc) = map (\<lambda>s. nd_id (cell sc s)) (filter (\<lambda>s. in_ring (cell sc s)) (preorder t))"
    using d(1) wfD(8) [OF wf]
    by (simp add: focusables_def arena_walk_visit [of "sc_arena sc" t] visit_enter fnext_fold)
  also have "\<dots> = map (\<lambda>s. nd_id (cell sc s))
      (filter (\<lambda>s. in_ring (the (dc_attr (doc_of sc t) (nd_id (cell sc s))))) (preorder t))"
    using attr by (intro arg_cong [of _ _ "map (\<lambda>s. nd_id (cell sc s))"] filter_cong) auto
  also have "\<dots> = focus_ring (doc_of sc t)"
    by (simp add: focus_ring_def doc_of_def preorder_map filter_map o_def)
  finally show ?thesis .
qed

lemma set_focus_refines:
  assumes rep: "represents (ac_scene a) d"
  shows "implements a (if sc_focus (ac_scene a) = k then (OpOk, a) else (OpOk, set_focus a k))
           (move_focus (env_of a) k d)"
proof -
  have f: "dc_focus d = sc_focus (ac_scene a)"
    using rep by (rule representsE) (simp add: doc_of_def)
  show ?thesis
    using focus_represents [OF rep, of k] rep
    by (auto simp: implements_def move_focus_def set_focus_def emit_all_def emit_focus_evt_def
        focus_record_def env_of_def f Let_def)
qed

lemma op_focus_refines:
  assumes rep: "represents (ac_scene a) d"
  shows "implements a (op_focus a p plen) (doc_focus_op (env_of a) p plen d)"
proof -
  obtain t where t: "d = doc_of (ac_scene a) t" using rep by (rule representsE)
  show ?thesis
    using set_focus_refines [OF rep, of "scene_get_u32 p 8"] rep
      target_doc [of a "scene_get_u32 p 8" t, folded t]
    by (auto simp: op_focus_def doc_focus_op_def Let_def)
qed

lemma ring_step:
  assumes "i < n" "n \<noteq> 0"
  shows "s > 0 \<Longrightarrow> (i + 1) mod n = nat ((int i + sgn s) mod int n)"
    and "s < 0 \<Longrightarrow> (i + n - 1) mod n = nat ((int i + sgn s) mod int n)"
proof -
  have 1: "int ((i + 1) mod n) = (int i + 1) mod int n" by (simp add: zmod_int ac_simps)
  have "int ((i + n - 1) mod n) = (int i + int n - 1) mod int n"
    using assms by (simp add: zmod_int of_nat_diff)
  also have "\<dots> = (int i - 1) mod int n"
    using mod_add_self2 [of "int i - 1" "int n"] by (simp add: algebra_simps)
  finally have 2: "int ((i + n - 1) mod n) = (int i - 1) mod int n" .
  show "s > 0 \<Longrightarrow> (i + 1) mod n = nat ((int i + sgn s) mod int n)" using 1 by simp
  show "s < 0 \<Longrightarrow> (i + n - 1) mod n = nat ((int i + sgn s) mod int n)" using 2 by simp
qed

lemma index_of_less: "index_of ids x = Some i \<Longrightarrow> i < length ids"
  by (induction ids arbitrary: i) (auto split: if_splits)

lemma op_focus_next_refines:
  assumes rep: "represents (ac_scene a) d"
  shows "implements a (op_focus_next a p plen) (doc_focus_next (env_of a) p plen d)"
proof -
  obtain t fs where t: "scene_wf (ac_scene a) t fs" "d = doc_of (ac_scene a) t"
    using rep by (rule representsE)
  have f: "dc_focus d = sc_focus (ac_scene a)" by (simp add: t(2) doc_of_def)
  let ?ids = "focus_ring d" and ?cur = "sc_focus (ac_scene a)" and ?s = "sint (rd p 8)"
  have next_ix: "?ids ! (if ?s > 0
         then (case index_of ?ids ?cur of Some i \<Rightarrow> (i + 1) mod length ?ids | None \<Rightarrow> 0)
         else (case index_of ?ids ?cur of Some i \<Rightarrow> (i + length ?ids - 1) mod length ?ids
                                        | None \<Rightarrow> length ?ids - 1)) = ring_next ?ids ?cur ?s"
    if "?ids \<noteq> []" "?s \<noteq> 0"
  proof (cases "?s > 0")
    case True
    then show ?thesis
      using that ring_step(1) [of _ "length ?ids"] index_of_less [of ?ids ?cur]
      by (simp add: ring_next_def split: option.split)
  next
    case False
    then have "?s < 0" using that by simp
    then show ?thesis
      using that ring_step(2) [of _ "length ?ids" ?s] index_of_less [of ?ids ?cur] False
      by (simp add: ring_next_def split: option.split)
  qed
  show ?thesis
  proof (cases "plen = 9 \<and> ?s \<noteq> 0 \<and> ?ids \<noteq> []")
    case True
    then have op: "op_focus_next a p plen =
        (if ring_next ?ids ?cur ?s = ?cur then (OpOk, a) else (OpOk, set_focus a (ring_next ?ids ?cur ?s)))"
      using next_ix focusables_ring [OF t(1), folded t(2)]
      by (simp add: op_focus_next_def Let_def)
    have doc: "doc_focus_next (env_of a) p plen d = move_focus (env_of a) (ring_next ?ids ?cur ?s) d"
      using True by (simp add: doc_focus_next_def Let_def f)
    show ?thesis
      using set_focus_refines [OF rep, of "ring_next ?ids ?cur ?s"]
      unfolding op doc by (simp only: eq_commute)
  next
    case False
    then show ?thesis
      using rep focusables_ring [OF t(1), folded t(2)] implementsI [OF rep, of a OpOk]
      by (auto simp: op_focus_next_def doc_focus_next_def Let_def)
  qed
qed

subsection \<open>Every operation\<close>

lemma implements_if:
  "(c \<Longrightarrow> implements a x x') \<Longrightarrow> (\<not> c \<Longrightarrow> implements a y y') \<Longrightarrow>
   implements a (if c then x else y) (if c then x' else y')"
  by simp

theorem apply_op_refines_replay:
  assumes "represents (ac_scene a) d"
    and "opcode = SCENE_OP_CREATE_NODE \<Longrightarrow> ac_replay a \<Longrightarrow> \<not> doc_live d (scene_get_u32 p 12)"
    and "opcode = SCENE_OP_CREATE_NODE \<Longrightarrow> scene_get_u32 p 12 \<noteq> 0"
  shows "implements a (apply_op a opcode p plen) (doc_op (env_of a) opcode p plen d)"
proof -
  have env: "ev_styles (env_of a) = ac_style_count a" "ev_effects (env_of a) = ac_effect_count a"
    "ev_textures (env_of a) = map te_ref (sc_tex (ac_scene a))"
    by (simp_all add: env_of_def)
  note R = op_create_refines [OF assms(1)] op_destroy_refines [OF assms(1)]
    op_set_text_refines [OF assms(1)] op_set_rect_refines [OF assms(1)]
    op_set_flags_refines [OF assms(1)] op_set_style_refines [OF assms(1)]
    op_set_effect_refines [OF assms(1)] op_set_texture_refines [OF assms(1)]
    op_focus_refines [OF assms(1)] op_focus_next_refines [OF assms(1)]
    implements_rejected [OF assms(1)]
  have either: "(if A \<or> B then x else y) = (if A then x else if B then x else y)"
    for A B and x y :: doc_result
    by simp
  show ?thesis
    unfolding apply_op_def doc_op_def env either
    by (intro implements_if R assms(2,3))
qed

theorem apply_op_refines:
  assumes "represents (ac_scene a) d" "\<not> ac_replay a"
    and "opcode = SCENE_OP_CREATE_NODE \<Longrightarrow> scene_get_u32 p 12 \<noteq> 0"
  shows "implements a (apply_op a opcode p plen) (doc_op (env_of a) opcode p plen d)"
  by (rule apply_op_refines_replay [OF assms(1) _ assms(3)]) (use assms(2) in simp)

end
