(* ===== verification/SnapshotCorrect.thy ===== *)
theory SnapshotCorrect
  imports Snapshot SceneInv
begin

text \<open>
  The section 6 dump of a scene as a function of its document: the header, one entry per
  node in document order with the id of its parent, and the texture registry. On a
  well-formed scene \<open>snapshot_serialize\<close> never fails and yields exactly that dump.
\<close>

subsection \<open>The dump of a document\<close>

text \<open>The nodes of a forest in document order, each with its parent.\<close>

fun rows :: "u32 \<Rightarrow> u32 tree \<Rightarrow> (u32 \<times> u32) list" where
  "rows p \<langle>\<rangle> = []"
| "rows p \<langle>l, k, r\<rangle> = (p, k) # rows k l @ rows p r"

lemma map_snd_rows: "map snd (rows p t) = preorder t"
  by (induction t arbitrary: p) auto

lemma length_rows [simp]: "length (rows p t) = size t"
  by (induction t arbitrary: p) auto

definition dump_entry :: "u32 \<Rightarrow> node \<Rightarrow> bytes" where
  "dump_entry p n =
     scene_put_u32 (nd_id n) @ scene_put_u32 p @ scene_put_u16 (nd_role n) @ [nd_flags n] @
     put_rect (nd_rect n) @ scene_put_u32 (nd_style n) @ scene_put_u32 (nd_effect n) @
     scene_put_u32 (nd_tex n) @ scene_put_u32 (of_nat (length (nd_texts n))) @
     concat (map dump_text (nd_texts n))"

definition dump_header :: "u64 \<Rightarrow> nat \<Rightarrow> tex_ent list \<Rightarrow> bytes" where
  "dump_header seq n texes =
     scene_put_u64 seq @ scene_put_u32 (of_nat n) @ scene_put_u32 (of_nat (length texes))"

definition doc_entries :: "doc \<Rightarrow> (u32 \<times> node) list" where
  "doc_entries d = map (\<lambda>(p, k). (p, the (dc_attr d k))) (rows SCENE_NO_PARENT (dc_tree d))"

definition entries_dump :: "u64 \<Rightarrow> tex_ent list \<Rightarrow> (u32 \<times> node) list \<Rightarrow> bytes" where
  "entries_dump seq texes es =
     dump_header seq (length es) texes @ concat (map (\<lambda>(p, n). dump_entry p n) es) @
     concat (map dump_tex texes)"

definition doc_dump :: "u64 \<Rightarrow> tex_ent list \<Rightarrow> doc \<Rightarrow> bytes" where
  "doc_dump seq texes d = entries_dump seq texes (doc_entries d)"

lemma dump_entry_payload [simp]: "dump_entry p (payload n) = dump_entry p n"
  by (simp add: dump_entry_def)

lemma dump_node_entry:
  "dump_node h n = dump_entry (if nd_parent n \<noteq> 0 then nd_id (h (nd_parent n)) else SCENE_NO_PARENT) n"
  by (simp add: dump_node_def dump_entry_def)

subsection \<open>Serialisation succeeds\<close>

lemma fold_dump:
  "fold (\<lambda>c (d, k). (d @ f c, Suc k)) xs (d, k :: nat) = (d @ concat (map f xs), k + length xs)"
  by (induction xs arbitrary: d k) auto

lemma serialize_wf:
  assumes "arena_wf a t fs []"
  shows "snapshot_serialize a seq texes =
     Some (dump_header seq (size t) texes @
           concat (map (\<lambda>s. dump_node (ar_nodes a) (ar_nodes a s)) (preorder t)) @
           concat (map dump_tex texes))"
  using arena_wfD(1,4) [OF assms]
  by (simp add: snapshot_serialize_def arena_walk_visit [of a t] visit_enter dump_header_def
      fold_dump [of "\<lambda>c. dump_node (ar_nodes a) (ar_nodes a c)"])

text \<open>The parent links give the parents of the rows.\<close>

definition parent_id :: "cells \<Rightarrow> nat \<Rightarrow> u32" where
  "parent_id h q = (if q \<noteq> 0 then nd_id (h q) else SCENE_NO_PARENT)"

lemma rows_map:
  "parents_ok h p t \<Longrightarrow> 0 \<notin> set_tree t \<Longrightarrow>
   rows (parent_id h p) (map_tree (\<lambda>s. nd_id (h s)) t) =
   map (\<lambda>s. (parent_id h (nd_parent (h s)), nd_id (h s))) (preorder t)"
proof (induction t arbitrary: p)
  case (Node l s r)
  have "nd_parent (h s) = p" "parents_ok h s l" "parents_ok h p r" "s \<noteq> 0"
    using Node.prems by (auto simp: parents_ok_def)
  then show ?case
    using Node.IH(1) [of s] Node.IH(2) [of p] Node.prems(2) by (simp add: parent_id_def)
qed simp

lemma doc_attr_of:
  assumes "scene_wf sc t fs" "s \<in> set_tree t"
  shows "dc_attr (doc_of sc t) (nd_id (cell sc s)) = Some (payload (cell sc s))"
proof -
  have "s \<noteq> 0" using wfD(7) [OF assms(1)] assms(2) by metis
  then show ?thesis using wfD(4) [OF assms] by (simp add: doc_of_def Let_def)
qed

lemma doc_entries_of:
  assumes wf: "scene_wf sc t fs"
  shows "doc_entries (doc_of sc t) =
     map (\<lambda>s. (parent_id (ar_nodes (sc_arena sc)) (nd_parent (cell sc s)), payload (cell sc s))) (preorder t)"
proof -
  note d = arena_wfD [OF wfD(1) [OF wf]]
  have "rows SCENE_NO_PARENT (dc_tree (doc_of sc t)) =
      map (\<lambda>s. (parent_id (ar_nodes (sc_arena sc)) (nd_parent (cell sc s)), nd_id (cell sc s))) (preorder t)"
    using rows_map [OF d(2) d(6)] by (simp add: doc_of_def parent_id_def)
  then show ?thesis
    using doc_attr_of [OF wf] by (simp add: doc_entries_def)
qed

theorem serialize_doc:
  assumes "represents sc d"
  shows "snapshot_serialize (sc_arena sc) seq texes = Some (doc_dump seq texes d)"
proof -
  obtain t fs where t: "scene_wf sc t fs" "d = doc_of sc t"
    using assms by (auto simp: represents_def)
  have "map (\<lambda>s. dump_node (ar_nodes (sc_arena sc)) (cell sc s)) (preorder t) =
      map (\<lambda>(p, n). dump_entry p n) (doc_entries d)"
    unfolding t(2) doc_entries_of [OF t(1)]
    by (simp add: dump_node_entry parent_id_def)
  then show ?thesis
    using serialize_wf [OF wfD(1) [OF t(1)]] t(2)
    by (simp only: doc_dump_def entries_dump_def) (simp add: doc_entries_of [OF t(1)])
qed

subsection \<open>The log\<close>

text \<open>Appending to the log of a session with a well-formed scene always succeeds.\<close>

lemma log_append_ok:
  assumes "scene_inv (st_live s)"
  shows "fst (log_append s opcode p plen)"
    and "\<exists>cks. snd (log_append s opcode p plen) =
           s\<lparr>st_log := st_log s @ scene_put_u16 opcode @ scene_put_u32 plen @ slice p 0 (unat plen),
             st_log_records := st_log_records s + 1, st_ckpts := st_ckpts s @ cks\<rparr>"
proof -
  obtain d where d: "represents (st_live s) d" using assms scene_inv_represents by blast
  have "\<exists>cks. log_append s opcode p plen =
      (True, s\<lparr>st_log := st_log s @ scene_put_u16 opcode @ scene_put_u32 plen @ slice p 0 (unat plen),
             st_log_records := st_log_records s + 1, st_ckpts := st_ckpts s @ cks\<rparr>)"
  proof (cases "(st_log_records s + 1) mod SCENE_CKPT_PERIOD = 0")
    case True
    then show ?thesis using serialize_doc [OF d]
      by (intro exI [of _ "[\<lparr>ck_seq = st_scene_seq s,
            ck_dump = doc_dump (st_scene_seq s) (sc_tex (st_live s)) d\<rparr>]"])
        (simp add: log_append_def Let_def)
  next
    case False
    then show ?thesis by (intro exI [of _ "[]"]) (simp add: log_append_def Let_def)
  qed
  then show "fst (log_append s opcode p plen)"
    "\<exists>cks. snd (log_append s opcode p plen) =
           s\<lparr>st_log := st_log s @ scene_put_u16 opcode @ scene_put_u32 plen @ slice p 0 (unat plen),
             st_log_records := st_log_records s + 1, st_ckpts := st_ckpts s @ cks\<rparr>"
    by auto
qed

end
