(* ===== verification/Session.thy ===== *)
theory Session
  imports Frames OpsCorrect SnapshotCorrect
begin

text \<open>
  The invariant of a session and its preservation by every operation of the store, and the
  outcome of ingest: a session that was alive either stays alive and returns 0, or has sent
  an ERROR record as its last record, is dead and returns the negated code.
\<close>

subsection \<open>The invariant\<close>

text \<open>A recorded macro never creates the node with id 0, and the open macro exists.\<close>

definition nonzero_create :: "macro_op \<Rightarrow> bool" where
  "nonzero_create mo \<longleftrightarrow>
     (mo_opcode mo = SCENE_OP_CREATE_NODE \<longrightarrow> scene_get_u32 (mo_payload mo) 12 \<noteq> 0)"

definition macros_ok :: "scene_store \<Rightarrow> bool" where
  "macros_ok s \<longleftrightarrow>
     (\<forall>mr \<in> set (st_macros s). list_all nonzero_create (mr_ops mr)) \<and>
     (\<forall>i. st_open_macro s = Some i \<longrightarrow> i < length (st_macros s))"

definition store_inv :: "scene_store \<Rightarrow> bool" where
  "store_inv s \<longleftrightarrow>
     scene_inv (st_live s) \<and> macros_ok s \<and> distinct (map te_ref (sc_tex (st_live s)))"

lemma store_inv_cong:
  "st_live s' = st_live s \<Longrightarrow> st_macros s' = st_macros s \<Longrightarrow> st_open_macro s' = st_open_macro s \<Longrightarrow>
   store_inv s' \<longleftrightarrow> store_inv s"
  by (simp add: store_inv_def macros_ok_def)

lemma store_inv_upd [simp]:
  "store_inv (s\<lparr>st_out := q\<rparr>) = store_inv s" "store_inv (s\<lparr>st_dead := b\<rparr>) = store_inv s"
  "store_inv (s\<lparr>st_scene_seq := n\<rparr>) = store_inv s" "store_inv (s\<lparr>st_next_seq := n\<rparr>) = store_inv s"
  "store_inv (s\<lparr>st_mode := m\<rparr>) = store_inv s" "store_inv (s\<lparr>st_input_pending := b\<rparr>) = store_inv s"
  "store_inv (s\<lparr>st_replay := r\<rparr>) = store_inv s" "store_inv (s\<lparr>st_rnodes := b\<rparr>) = store_inv s"
  "store_inv (s\<lparr>st_log := l\<rparr>) = store_inv s" "store_inv (s\<lparr>st_log_records := n\<rparr>) = store_inv s"
  "store_inv (s\<lparr>st_ckpts := c\<rparr>) = store_inv s" "store_inv (s\<lparr>st_present_seq := n\<rparr>) = store_inv s"
  "store_inv (s\<lparr>st_last_token := n\<rparr>) = store_inv s"
  "store_inv (s\<lparr>st_budget_violations := v\<rparr>) = store_inv s"
  "store_inv (s\<lparr>st_budget_max_us := n\<rparr>) = store_inv s"
  "store_inv (s\<lparr>st_last_input_seq := n\<rparr>) = store_inv s"
  "store_inv (s\<lparr>st_last_input_us := n\<rparr>) = store_inv s"
  "store_inv (s\<lparr>st_style_count := c'\<rparr>) = store_inv s"
  "store_inv (s\<lparr>st_effect_count := c'\<rparr>) = store_inv s"
  by (rule store_inv_cong; simp)+

lemma store_inv_emit [simp]:
  "store_inv (store_emit s opc b) = store_inv s" "st_dead (store_emit s opc b) = st_dead s"
  by (simp_all add: store_emit_def)

subsection \<open>What a session only adds to\<close>

text \<open>The log and the outbound queue only grow, limits are fixed, death is final.\<close>

definition extends :: "scene_store \<Rightarrow> scene_store \<Rightarrow> bool" where
  "extends s s' \<longleftrightarrow>
     (\<exists>l. st_log s' = st_log s @ l) \<and> (\<exists>rs. st_out s' = emit_all (st_out s) rs) \<and>
     st_lim s' = st_lim s \<and> (st_dead s \<longrightarrow> st_dead s')"

lemma emit_all_Nil [simp]: "emit_all q [] = q"
  by (simp add: emit_all_def)

lemma emit_all_append: "emit_all (emit_all q rs) rs' = emit_all q (rs @ rs')"
  by (simp add: emit_all_def)

lemma emit_emit_all: "emit q opc b = emit_all q [(opc, b)]"
  by (simp add: emit_all_def)

lemma extends_refl [simp]: "extends s s"
  unfolding extends_def by (auto intro: exI [of _ "[]"])

lemma extends_trans: "extends s s' \<Longrightarrow> extends s' s'' \<Longrightarrow> extends s s''"
  unfolding extends_def by (auto simp: emit_all_append)

lemma extends_cong:
  "st_log s' = st_log s \<Longrightarrow> st_out s' = st_out s \<Longrightarrow> st_lim s' = st_lim s \<Longrightarrow> st_dead s' = st_dead s \<Longrightarrow>
   extends s0 s' \<longleftrightarrow> extends s0 s"
  by (simp add: extends_def)

lemma extends_emit [simp]: "extends s0 s \<Longrightarrow> extends s0 (store_emit s opc b)"
  by (auto simp: extends_def store_emit_def emit_emit_all emit_all_append)

lemma extends_log [simp]: "extends s0 s \<Longrightarrow> extends s0 (s\<lparr>st_log := st_log s @ l\<rparr>)"
  by (auto simp: extends_def)

lemma extends_dead [simp]: "extends s0 s \<Longrightarrow> extends s0 (s\<lparr>st_dead := True\<rparr>)"
  by (auto simp: extends_def)

lemma extends_upd [simp]:
  "extends s0 (s\<lparr>st_scene_seq := v0\<rparr>) = extends s0 s"
  "extends s0 (s\<lparr>st_next_seq := v1\<rparr>) = extends s0 s"
  "extends s0 (s\<lparr>st_mode := v2\<rparr>) = extends s0 s"
  "extends s0 (s\<lparr>st_input_pending := v3\<rparr>) = extends s0 s"
  "extends s0 (s\<lparr>st_replay := v4\<rparr>) = extends s0 s"
  "extends s0 (s\<lparr>st_rnodes := v5\<rparr>) = extends s0 s"
  "extends s0 (s\<lparr>st_replay_seq := v6\<rparr>) = extends s0 s"
  "extends s0 (s\<lparr>st_log_records := v7\<rparr>) = extends s0 s"
  "extends s0 (s\<lparr>st_ckpts := v8\<rparr>) = extends s0 s"
  "extends s0 (s\<lparr>st_present_seq := v9\<rparr>) = extends s0 s"
  "extends s0 (s\<lparr>st_last_token := v10\<rparr>) = extends s0 s"
  "extends s0 (s\<lparr>st_budget_violations := v11\<rparr>) = extends s0 s"
  "extends s0 (s\<lparr>st_budget_max_us := v12\<rparr>) = extends s0 s"
  "extends s0 (s\<lparr>st_last_input_seq := v13\<rparr>) = extends s0 s"
  "extends s0 (s\<lparr>st_last_input_us := v14\<rparr>) = extends s0 s"
  "extends s0 (s\<lparr>st_style_count := v15\<rparr>) = extends s0 s"
  "extends s0 (s\<lparr>st_effect_count := v16\<rparr>) = extends s0 s"
  "extends s0 (s\<lparr>st_live := v17\<rparr>) = extends s0 s"
  "extends s0 (s\<lparr>st_macros := v18\<rparr>) = extends s0 s"
  "extends s0 (s\<lparr>st_open_macro := v19\<rparr>) = extends s0 s"
  by (rule extends_cong; simp)+

subsection \<open>Operations on the live scene\<close>

lemma scene_inv_op:
  assumes "scene_inv (ac_scene a)" "\<not> ac_replay a"
    and "opcode = SCENE_OP_CREATE_NODE \<Longrightarrow> scene_get_u32 p 12 \<noteq> 0"
    and "apply_op a opcode p plen = (st, a')"
  shows "scene_inv (ac_scene a')" "sc_tex (ac_scene a') = sc_tex (ac_scene a)"
    "\<exists>rs. ac_out a' = emit_all (ac_out a) rs"
proof -
  obtain d where "represents (ac_scene a) d" using assms(1) scene_inv_represents by blast
  from apply_op_refines [where plen = plen and opcode = opcode and p = p, OF this assms(2,3)]
  show "scene_inv (ac_scene a')" "sc_tex (ac_scene a') = sc_tex (ac_scene a)"
    "\<exists>rs. ac_out a' = emit_all (ac_out a) rs"
    by (auto simp: implements_def assms(4) scene_inv_represents split: prod.splits)
qed

lemma live_op:
  assumes inv: "store_inv s"
    and nz: "opcode = SCENE_OP_CREATE_NODE \<Longrightarrow> scene_get_u32 p 12 \<noteq> 0"
    and op: "apply_op (live_ctx s ev) opcode p plen = (st, a)"
  shows "store_inv (live_back s a)" "st_dead (live_back s a) = st_dead s"
    and "st_macros (live_back s a) = st_macros s" "st_open_macro (live_back s a) = st_open_macro s"
    and "extends s (live_back s a)"
  using scene_inv_op [OF _ _ nz op] inv
  by (simp_all add: live_ctx_def live_back_def store_inv_def macros_ok_def extends_def)

lemma get_slice: "off + 4 \<le> n \<Longrightarrow> scene_get_u32 (slice p 0 n) off = scene_get_u32 p off"
  by (simp add: scene_get_u32_def rd_def slice_def)

lemma macro_capture_inv:
  assumes inv: "store_inv s" "i < length (st_macros s)"
    and nz: "opcode = SCENE_OP_CREATE_NODE \<Longrightarrow> scene_get_u32 p 12 \<noteq> 0"
  shows "store_inv (macro_capture s i opcode p plen)"
    "st_dead (macro_capture s i opcode p plen) = st_dead s"
    "extends s0 (macro_capture s i opcode p plen) = extends s0 s"
proof -
  have "store_inv (macro_capture s i opcode p plen) \<and>
      st_dead (macro_capture s i opcode p plen) = st_dead s"
  proof (cases "capture_target s opcode p plen")
    case None
    with inv show ?thesis by (simp add: macro_capture_def)
  next
    case (Some x)
    obtain nid r where x: "x = (nid, r)" by fastforce
    let ?mr = "st_macros s ! i"
    let ?mo = "\<lparr>mo_opcode = opcode, mo_payload = slice p 0 (unat plen), mo_id = nid, mo_rect = r\<rparr>"
    have "nonzero_create ?mo"
    proof -
      have "opcode = SCENE_OP_CREATE_NODE \<Longrightarrow> \<not> plen < 18"
        using Some by (auto simp: capture_target_def split: if_splits)
      then have "opcode = SCENE_OP_CREATE_NODE \<Longrightarrow> 12 + 4 \<le> unat plen"
        by (simp add: word_less_nat_alt not_less)
      then show ?thesis using nz by (simp add: nonzero_create_def get_slice)
    qed
    moreover have "list_all nonzero_create (mr_ops ?mr)"
      using inv by (simp add: store_inv_def macros_ok_def)
    ultimately show ?thesis
      using inv Some x
      by (auto simp: macro_capture_def store_inv_def macros_ok_def Let_def
          dest!: in_set_conv_nth [THEN iffD1] elim!: allE) (auto simp: nth_list_update)
  qed
  then show "store_inv (macro_capture s i opcode p plen)"
    "st_dead (macro_capture s i opcode p plen) = st_dead s" by blast+
  show "extends s0 (macro_capture s i opcode p plen) = extends s0 s"
    by (auto simp: macro_capture_def Let_def split: option.split)
qed

subsection \<open>Macros\<close>

lemma macro_run_inv:
  "scene_inv (ac_scene a) \<Longrightarrow> \<not> ac_replay a \<Longrightarrow> list_all nonzero_create ops \<Longrightarrow>
   macro_run ops a = (r, a') \<Longrightarrow>
   scene_inv (ac_scene a') \<and> sc_tex (ac_scene a') = sc_tex (ac_scene a) \<and>
   (\<exists>rs. ac_out a' = emit_all (ac_out a) rs) \<and> (r = 0 \<or> (\<exists>e. r = uint (e :: u16) \<and> e \<noteq> 0))"
proof (induction ops arbitrary: a)
  case (Cons mo ops)
  show ?case
  proof (cases "macro_resolve (ac_scene a) mo")
    case None
    with Cons show ?thesis by simp
  next
    case (Some p)
    obtain st b where op: "apply_op a (mo_opcode mo) p (of_nat (length p)) = (st, b)" by fastforce
    have nz: "mo_opcode mo = SCENE_OP_CREATE_NODE \<Longrightarrow> scene_get_u32 p 12 \<noteq> 0"
      using Some Cons.prems(3)
      by (auto simp: macro_resolve_def nonzero_create_def Let_def split: if_splits)
    note b = scene_inv_op [OF Cons.prems(1,2) nz op]
    have live: "\<not> ac_replay b"
      using arg_cong [OF apply_op_frame(1) [OF op], of ac_replay] Cons.prems(2) by simp
    show ?thesis
    proof (cases st)
      case OpOk
      then have "macro_run ops b = (r, a')" using Cons.prems(4) op Some by simp
      with Cons.IH [OF b(1) live _ this] Cons.prems(3) b(2,3) show ?thesis
        by (auto simp: emit_all_append)
    next
      case (OpErr e)
      then have "r = uint e" "a' = b" using Cons.prems(4) op Some by simp_all
      with b apply_op_frame(3) [OF op OpErr] show ?thesis by blast
    qed
  qed
qed (auto intro: exI [of _ "[]"])

lemma macro_find_less: "macro_find ms mid = Some i \<Longrightarrow> i < length ms"
  by (induction ms arbitrary: i) (auto split: if_splits)

lemma macro_exec_inv:
  assumes inv: "store_inv s" and exec: "macro_exec s mid = (r, s')"
  shows "store_inv s' \<and> st_dead s' = st_dead s \<and> extends s s' \<and> (r = 0 \<or> (\<exists>e. r = uint (e :: u16) \<and> e \<noteq> 0))"
proof (cases "macro_find (st_macros s) mid")
  case None
  then have "s' = s" "r = uint (1 :: u16)" using exec by (auto simp: macro_exec_def)
  with inv show ?thesis by (intro conjI disjI2 exI [of _ 1]) simp_all
next
  case (Some i)
  obtain r' a where run: "macro_run (mr_ops (st_macros s ! i)) (live_ctx s True) = (r', a)" by fastforce
  have "list_all nonzero_create (mr_ops (st_macros s ! i))"
    using inv macro_find_less [OF Some] by (simp add: store_inv_def macros_ok_def)
  with macro_run_inv [OF _ _ _ run] inv exec Some run show ?thesis
    by (auto simp: macro_exec_def live_back_def live_ctx_def store_inv_def macros_ok_def extends_def)
qed

end
