(* ===== verification/IngestOk.thy ===== *)
theory IngestOk
  imports Session
begin

text \<open>
  The outcome of \<open>scene_store_ingest\<close>. A result is good when its store satisfies the
  invariant and either the call returned 0 and the session is alive, or it failed the way the
  protocol wants: an ERROR record with the code goes out last, the session is dead, and the
  negated code is returned.
\<close>

definition failed :: "result \<Rightarrow> bool" where
  "failed r \<longleftrightarrow>
     (\<exists>q code msg. code \<noteq> 0 \<and> fst r = neg_err code \<and> st_dead (snd r) \<and>
        st_out (snd r) = emit q SCENE_SRV_ERROR (error_payload code msg))"

definition good :: "scene_store \<Rightarrow> result \<Rightarrow> bool" where
  "good s0 r \<longleftrightarrow>
     store_inv (snd r) \<and> extends s0 (snd r) \<and> (fst r = 0 \<and> \<not> st_dead (snd r) \<or> failed r)"

text \<open>The store a case has reached.\<close>

definition alive :: "scene_store \<Rightarrow> scene_store \<Rightarrow> bool" where
  "alive s0 s \<longleftrightarrow> store_inv s \<and> extends s0 s \<and> \<not> st_dead s"

lemma neg_err_nz: "code \<noteq> 0 \<Longrightarrow> neg_err code < 0"
  using uint_ge_0 [of code] uint_0_iff [of code] by (auto simp: neg_err_def less_le)

lemma good_fatal: "alive s0 s \<Longrightarrow> code \<noteq> 0 \<Longrightarrow> good s0 (fatal s code msg)"
  by (auto simp: good_def alive_def failed_def fatal_error_def emit_error_def)
    (simp add: store_emit_def, blast)

lemma good_ok: "alive s0 s \<Longrightarrow> good s0 (ok s)"
  by (simp add: good_def alive_def)

lemma good_if: "(c \<Longrightarrow> good s0 x) \<Longrightarrow> (\<not> c \<Longrightarrow> good s0 y) \<Longrightarrow> good s0 (if c then x else y)"
  by simp

lemma good_option:
  "(m = None \<Longrightarrow> good s0 x) \<Longrightarrow> (\<And>v. m = Some v \<Longrightarrow> good s0 (f v)) \<Longrightarrow>
   good s0 (case m of None \<Rightarrow> x | Some v \<Rightarrow> f v)"
  by (cases m) simp_all

lemma good_logged:
  assumes "alive s0 s" and k: "\<And>s'. alive s0 s' \<Longrightarrow> st_macros s' = st_macros s \<Longrightarrow> good s0 (k s')"
  shows "good s0 (logged s opcode p plen k)"
proof -
  have inv: "scene_inv (st_live s)" using assms(1) by (simp add: alive_def store_inv_def)
  obtain cks where
    log: "log_append s opcode p plen = (True, s\<lparr>st_log := st_log s @ scene_put_u16 opcode @
      scene_put_u32 plen @ slice p 0 (unat plen), st_log_records := st_log_records s + 1,
      st_ckpts := st_ckpts s @ cks\<rparr>)"
    using log_append_ok [OF inv, of opcode p plen] by (auto simp: prod_eq_iff)
  show ?thesis unfolding logged_def log prod.case bool.case using assms(1)
    by (intro k) (simp_all add: alive_def)
qed

lemmas good_intros = good_if good_option good_logged good_fatal good_ok

lemma alive_upd [simp]:
  "alive s0 (s\<lparr>st_input_pending := b\<rparr>) = alive s0 s" "alive s0 (s\<lparr>st_scene_seq := n\<rparr>) = alive s0 s"
  "alive s0 (s\<lparr>st_next_seq := n\<rparr>) = alive s0 s" "alive s0 (s\<lparr>st_mode := m\<rparr>) = alive s0 s"
  "alive s0 (s\<lparr>st_replay := r\<rparr>) = alive s0 s" "alive s0 (s\<lparr>st_rnodes := b\<rparr>) = alive s0 s"
  "alive s0 (s\<lparr>st_present_seq := n\<rparr>) = alive s0 s" "alive s0 (s\<lparr>st_last_token := n\<rparr>) = alive s0 s"
  "alive s0 (s\<lparr>st_budget_violations := v\<rparr>) = alive s0 s"
  "alive s0 (s\<lparr>st_budget_max_us := n\<rparr>) = alive s0 s"
  by (simp_all add: alive_def)

lemma alive_emit [simp]: "alive s0 s \<Longrightarrow> alive s0 (store_emit s opc b)"
  by (simp add: alive_def)

subsection \<open>The cases\<close>

lemma ingest_ack_good: "alive s0 s \<Longrightarrow> good s0 (ingest_ack s p plen)"
  unfolding ingest_ack_def Let_def by (intro good_intros) simp_all

lemma ingest_mutation_good:
  assumes inv: "alive s0 s" and nz: "opcode = SCENE_OP_CREATE_NODE \<Longrightarrow> scene_get_u32 p 12 \<noteq> 0"
  shows "good s0 (ingest_mutation s seq opcode p plen)"
proof (cases "st_mode s = SCENE_MODE_REPLAY")
  case True
  with inv show ?thesis by (simp add: ingest_mutation_def good_fatal)
next
  case False
  obtain st a where op: "apply_op (live_ctx s True) opcode p plen = (st, a)" by fastforce
  have "store_inv s" using inv by (simp add: alive_def)
  note L = live_op [OF this nz op]
  have L': "alive s0 (live_back s a)"
    using inv L extends_trans unfolding alive_def by blast
  show ?thesis
  proof (cases st)
    case (OpErr e)
    with False op L' apply_op_frame(3) [OF op OpErr] show ?thesis
      by (simp add: ingest_mutation_def good_fatal)
  next
    case OpOk
    let ?s1 = "live_back s a"
    let ?s2 = "case st_open_macro ?s1 of None \<Rightarrow> ?s1 | Some i \<Rightarrow> macro_capture ?s1 i opcode p plen"
    have "alive s0 ?s2"
      using L' macro_capture_inv [OF L(1) _ nz] L(1)
      by (auto simp: alive_def store_inv_def macros_ok_def split: option.split)
    then have "good s0 (logged (?s2\<lparr>st_scene_seq := seq\<rparr>) opcode p plen ok)"
      by (intro good_intros) simp_all
    then show ?thesis using False op OpOk by (simp add: ingest_mutation_def Let_def)
  qed
qed

lemma ingest_present_good: "alive s0 s \<Longrightarrow> good s0 (ingest_present s now p plen)"
  unfolding ingest_present_def Let_def by (intro good_intros) auto

lemma ingest_import_texture_good: "alive s0 s \<Longrightarrow> good s0 (ingest_import_texture s p plen)"
  unfolding ingest_import_texture_def Let_def by (intro good_intros) simp_all

lemma replies_alive:
  "emit_snapshot_reply s req = Some s' \<Longrightarrow> alive s0 s \<Longrightarrow> alive s0 s'"
  "emit_capture_reply s req = Some s' \<Longrightarrow> alive s0 s \<Longrightarrow> alive s0 s'"
  "alive s0 s \<Longrightarrow> alive s0 (emit_search_reply s req t n)"
  by (auto simp: emit_snapshot_reply_def emit_capture_reply_def emit_search_reply_def
      split: prod.splits option.splits)

lemma ingest_request_good:
  assumes "alive s0 s"
  shows "good s0 (ingest_snapshot s p plen)" "good s0 (ingest_capture s p plen)"
    "good s0 (ingest_search s p plen)" "good s0 (ingest_ping s p plen)"
proof -
  show "good s0 (ingest_snapshot s p plen)"
    unfolding ingest_snapshot_def Let_def using assms
    by (intro good_intros) (auto dest: replies_alive(1))
  show "good s0 (ingest_capture s p plen)"
    unfolding ingest_capture_def Let_def using assms
    by (intro good_intros) (auto dest: replies_alive(2))
  show "good s0 (ingest_search s p plen)"
    unfolding ingest_search_def Let_def using assms
    by (intro good_intros) (auto intro: replies_alive(3))
  show "good s0 (ingest_ping s p plen)"
    unfolding ingest_ping_def Let_def using assms
    by (intro good_intros) (auto simp: emit_pong_def)
qed

lemma exec_result_good:
  assumes "alive s0 s1" "macro_exec s1 mid = (r, s2)"
  shows "good s0 (if r = 1 then fatal s2 SCENE_ERR_MACRO ''macro not found''
           else if r < 0 then fatal s2 SCENE_ERR_LIMIT ''macro oom''
           else if r > 1 then fatal s2 (word_of_int r) ''macro op rejected''
           else ok (s2\<lparr>st_scene_seq := seq\<rparr>))"
proof -
  have "alive s0 s2" and r: "r = 0 \<or> (\<exists>e. r = uint (e :: u16) \<and> e \<noteq> 0)"
    using macro_exec_inv [OF _ assms(2)] assms(1) extends_trans unfolding alive_def by blast+
  then show ?thesis by (intro good_intros) auto
qed

lemma ingest_macro_good:
  assumes "alive s0 s"
  shows "good s0 (ingest_macro_begin s p plen)" "good s0 (ingest_macro_end s p plen)"
    "good s0 (ingest_exec_macro s seq p plen)"
proof -
  have "alive s0 (s\<lparr>st_macros := st_macros s @ [\<lparr>mr_id = m, mr_ops = []\<rparr>],
      st_open_macro := Some (length (st_macros s))\<rparr>)" for m
    using assms by (auto simp: alive_def store_inv_def macros_ok_def)
  then show "good s0 (ingest_macro_begin s p plen)"
    unfolding ingest_macro_begin_def Let_def using assms by (intro good_intros) simp_all
  have "alive s0 (s\<lparr>st_open_macro := None\<rparr>)"
    using assms by (auto simp: alive_def store_inv_def macros_ok_def)
  then show "good s0 (ingest_macro_end s p plen)"
    unfolding ingest_macro_end_def Let_def using assms by (intro good_intros) simp_all
  have "good s0 (let (r, s2) = macro_exec s1 mid
        in if r = 1 then fatal s2 SCENE_ERR_MACRO ''macro not found''
           else if r < 0 then fatal s2 SCENE_ERR_LIMIT ''macro oom''
           else if r > 1 then fatal s2 (word_of_int r) ''macro op rejected''
           else ok (s2\<lparr>st_scene_seq := seq\<rparr>))" if "alive s0 s1" for s1 mid
    using exec_result_good [OF that, of mid] by (simp only: Let_def split: prod.split) blast
  then show "good s0 (ingest_exec_macro s seq p plen)"
    unfolding ingest_exec_macro_def Let_def using assms
    by (intro good_intros) simp_all
qed

lemma ingest_mode_good:
  assumes "alive s0 s"
  shows "good s0 (ingest_set_input_mode s p plen)" "good s0 (ingest_seek s p plen)"
proof -
  show "good s0 (ingest_set_input_mode s p plen)"
    unfolding ingest_set_input_mode_def Let_def using assms
    by (intro good_intros) (auto simp: replay_teardown_def)
  have inv: "alive s0 (snd (replay_build s' tgt))" if "alive s0 s'" for s' tgt
  proof -
    note same = same_sessionD [OF replay_build_same [of s' tgt]]
    show ?thesis
      using that store_inv_cong [OF same(1,10,11)] extends_cong [OF same(3,2,12,6)] same(6)
      by (simp add: alive_def)
  qed
  have "good s0 (case replay_build s' tgt of
      (False, s2) \<Rightarrow> fatal s2 SCENE_ERR_STATE ''replay build failed'' | (True, s2) \<Rightarrow> ok s2)"
    if "alive s0 s'" for s' tgt
  proof -
    obtain b s2 where r: "replay_build s' tgt = (b, s2)" by fastforce
    show ?thesis
      using inv [OF that, of tgt] unfolding r by (cases b) (simp_all add: good_ok good_fatal)
  qed
  then show "good s0 (ingest_seek s p plen)"
    unfolding ingest_seek_def Let_def using assms by (intro good_intros) simp_all
qed

subsection \<open>The dispatcher\<close>

lemma ingest_switch_good:
  assumes "alive s0 s" "opcode = SCENE_OP_CREATE_NODE \<Longrightarrow> scene_get_u32 p 12 \<noteq> 0"
  shows "good s0 (ingest_switch s now seq opcode p plen)"
  unfolding ingest_switch_def
  using assms ingest_mutation_good [OF assms] ingest_request_good [OF assms(1)]
    ingest_macro_good [OF assms(1)] ingest_mode_good [OF assms(1)]
    ingest_present_good [OF assms(1)] ingest_import_texture_good [OF assms(1)]
  by (intro good_if) (simp_all add: good_fatal)

theorem ingest_good:
  assumes "store_inv s" "\<not> st_dead s"
    and "opcode = SCENE_OP_CREATE_NODE \<Longrightarrow> scene_get_u32 p 12 \<noteq> 0"
  shows "good s (scene_store_ingest s now opcode p plen)"
proof -
  have a: "alive s s" using assms by (simp add: alive_def)
  then show ?thesis
    unfolding scene_store_ingest_def Let_def
    using assms ingest_ack_good [OF a] ingest_switch_good [OF _ assms(3)]
    by (intro good_if) (simp_all add: good_fatal)
qed

end
