(* ===== verification/Reach.thy ===== *)
theory Reach
  imports IngestOk
begin

text \<open>
  Every way a session can change, as a step relation, and the states a session can reach.
  A step is one call of a function of \<open>include/scene_store.h\<close>. By rule induction every
  reachable session satisfies the invariant, and every step extends the session: log and
  outbound records are never lost, a dead session stays dead.

  The one assumption on the client is that it does not create the node with id 0, which
  the id table of the store cannot hold across a growth.
\<close>

subsection \<open>The new session\<close>

lemma new_arena_wf: "arena_wf (new_arena mem) \<langle>\<rangle> [] []"
  by (simp add: arena_wf_def new_arena_def parents_ok_def slots_ok_def zero_node_def)

definition empty_doc :: doc where
  "empty_doc = \<lparr>dc_tree = \<langle>\<rangle>, dc_attr = (\<lambda>_. None), dc_focus = SCENE_NO_PARENT\<rparr>"

lemma new_represents: "represents (st_live (scene_store_new lim now mem)) empty_doc"
proof -
  let ?sc = "st_live (scene_store_new lim now mem)"
  have get: "idmap_get idmap_init k = 0" for k
    using idt.get_empty by blast
  have "scene_wf ?sc \<langle>\<rangle> []"
    using new_arena_wf [of mem] get
    by (simp add: scene_wf_def ids_ok_def scene_store_new_def idt.invar_empty)
  moreover have "doc_of ?sc \<langle>\<rangle> = empty_doc"
    using get by (simp add: doc_of_def empty_doc_def scene_store_new_def)
  ultimately show ?thesis
    unfolding represents_def by (intro exI [of _ "\<langle>\<rangle>"] exI [of _ "[]"]) (simp add: live_ok_def)
qed

lemma new_inv: "store_inv (scene_store_new lim now mem)"
  using new_represents [of lim now mem] scene_inv_represents
  by (auto simp: store_inv_def macros_ok_def) (simp_all add: scene_store_new_def)

subsection \<open>Crash recovery\<close>

text \<open>A lost session turns its whole document stale.\<close>

definition doc_ghost :: "doc \<Rightarrow> doc" where
  "doc_ghost d = d\<lparr>dc_attr := (\<lambda>k. map_option (\<lambda>n. n\<lparr>nd_stale := True\<rparr>) (dc_attr d k))\<rparr>"

lemma ghost_represents:
  assumes "represents (st_live s) d"
  shows "represents (st_live (scene_store_ghost_mark s)) (doc_ghost d)"
proof -
  let ?sc = "st_live s" and ?sc' = "st_live (scene_store_ghost_mark s)"
  obtain t fs where wf: "scene_wf ?sc t fs" and d: "d = doc_of ?sc t"
    using assms by (rule representsE)
  note w = arena_wfD [OF wfD(1) [OF wf]]
  have links: "nd_id (cell ?sc' x) = nd_id (cell ?sc x)" "nd_parent (cell ?sc' x) = nd_parent (cell ?sc x)"
    "nd_first (cell ?sc' x) = nd_first (cell ?sc x)" "nd_next (cell ?sc' x) = nd_next (cell ?sc x)" for x
    by (simp_all add: scene_store_ghost_mark_def ghost_cells_def)
  have parts: "sc_idm ?sc' = sc_idm ?sc" "sc_focus ?sc' = sc_focus ?sc" "sc_tex ?sc' = sc_tex ?sc"
    "ar_cap (sc_arena ?sc') = ar_cap (sc_arena ?sc)" "ar_count (sc_arena ?sc') = ar_count (sc_arena ?sc)"
    "ar_free (sc_arena ?sc') = ar_free (sc_arena ?sc)"
    by (simp_all add: scene_store_ghost_mark_def)
  have stale: "cell ?sc' x = (cell ?sc x)\<lparr>nd_stale := True\<rparr>" if "x \<in> set_tree t" for x
  proof -
    have "x \<noteq> 0" using that w(6) by metis
    then show ?thesis using that w(10) [of x] wfD(5) [OF wf that]
      by (simp add: scene_store_ghost_mark_def ghost_cells_def)
  qed
  have "arena_wf (sc_arena ?sc') t fs []"
    by (rule arena_wf_cong [OF wfD(1) [OF wf]]) (simp_all add: links parts)
  then have wf': "scene_wf ?sc' t fs"
    using wf by (simp add: scene_wf_def ids_ok_def links parts)
  have "live_ok (ar_nodes (sc_arena ?sc')) t"
    using stale edges_child by (fastforce simp: live_ok_def)
  moreover have "doc_of ?sc' t = doc_ghost d"
  proof -
    have "dc_attr (doc_of ?sc' t) k = dc_attr (doc_ghost d) k" for k
      using stale wfD(3) [OF wf, of k]
      by (auto simp: doc_attr_slot doc_ghost_def parts d payload_def)
    then show ?thesis
      using links by (simp add: doc_ghost_def d doc_of_def parts fun_eq_iff)
  qed
  ultimately show ?thesis using wf' unfolding represents_def by metis
qed

lemma ghost_inv: "store_inv s \<Longrightarrow> store_inv (scene_store_ghost_mark s)"
  using ghost_represents [of s] scene_inv_represents
  by (auto simp: store_inv_def macros_ok_def) (auto simp: scene_store_ghost_mark_def)

subsection \<open>Textures\<close>

lemma tex_release_Some:
  "tex_release ts i ref n = Some ts' \<Longrightarrow> i + n = length ts \<Longrightarrow>
   \<exists>j. i \<le> j \<and> j < length ts \<and> te_ref (ts ! j) = ref \<and> ts' = butlast (ts[j := last ts])"
proof (induction ts i ref n rule: tex_release.induct)
  case (2 ts i ref n)
  show ?case
  proof (cases "te_ref (ts ! i) = ref")
    case False
    with 2 obtain j where "i + 1 \<le> j \<and> j < length ts \<and> te_ref (ts ! j) = ref \<and>
        ts' = butlast (ts[j := last ts])" by auto
    then show ?thesis by (intro exI [of _ j]) simp
  qed (use 2 in auto)
qed simp

lemma tex_release_None:
  "tex_release ts i ref n = None \<Longrightarrow> i + n = length ts \<Longrightarrow> i \<le> j \<Longrightarrow> j < length ts \<Longrightarrow> te_ref (ts ! j) \<noteq> ref"
proof (induction ts i ref n rule: tex_release.induct)
  case (2 ts i ref n)
  then have ne: "te_ref (ts ! i) \<noteq> ref" by auto
  show ?case
  proof (cases "j = i")
    case False
    then show ?thesis using 2 ne by auto
  qed (use ne in simp)
qed simp

lemma mset_swap_last:
  assumes "j < length ts"
  shows "mset (butlast (ts[j := last ts])) = mset ts - {#ts ! j#}"
proof -
  have ne: "ts \<noteq> []" using assms by auto
  then obtain us x where ts: "ts = us @ [x]" by (metis append_butlast_last_id)
  show ?thesis
  proof (cases "j = length us")
    case True
    then show ?thesis by (simp add: ts)
  next
    case False
    then have "j < length us" using assms ts by simp
    then show ?thesis
      by (simp add: ts list_update_append nth_append mset_update)
  qed
qed

text \<open>Releasing removes exactly the entry with the reference.\<close>

lemma tex_release_mset:
  assumes "tex_release ts 0 ref (length ts) = Some ts'"
  shows "\<exists>t \<in> set ts. te_ref t = ref \<and> mset ts' = mset ts - {#t#}"
  using tex_release_Some [OF assms] mset_swap_last by fastforce

lemma tex_release_distinct:
  assumes "tex_release ts 0 ref (length ts) = Some ts'" "distinct (map te_ref ts)"
  shows "distinct (map te_ref ts')"
proof -
  obtain t where t: "t \<in> set ts" "mset ts' = mset ts - {#t#}"
    using tex_release_mset [OF assms(1)] by blast
  then have "mset (t # ts') = mset ts" by simp
  then have "mset (map te_ref (t # ts')) = mset (map te_ref ts)" by (simp only: mset_map)
  then have "distinct (map te_ref (t # ts'))" using assms(2) by (metis mset_eq_imp_distinct_iff)
  then show ?thesis by simp
qed

lemma texture_inv:
  assumes "store_inv s"
  shows "store_inv (snd (scene_store_register_texture s ref w h fmt opq))"
    "store_inv (snd (scene_store_release_texture s ref))"
proof -
  have sc: "scene_inv (sc\<lparr>sc_tex := x\<rparr>) = scene_inv sc" for sc x
    by (simp add: scene_inv_def scene_wf_def ids_ok_def)
  show "store_inv (snd (scene_store_register_texture s ref w h fmt opq))"
    using assms by (auto simp: scene_store_register_texture_def store_inv_def macros_ok_def sc list_ex_iff)
  show "store_inv (snd (scene_store_release_texture s ref))"
    using assms tex_release_distinct
    by (auto simp: scene_store_release_texture_def store_inv_def macros_ok_def sc Let_def
        split: option.split)
qed

subsection \<open>The other calls\<close>

text \<open>What every call promises: the invariant, and a session that only grows.\<close>

definition sound :: "scene_store \<Rightarrow> scene_store \<Rightarrow> bool" where
  "sound s s' \<longleftrightarrow> store_inv s' \<and> extends s s'"

lemma soundI: "store_inv s' \<Longrightarrow> extends s s' \<Longrightarrow> sound s s'"
  by (simp add: sound_def)

lemma sound_refl: "store_inv s \<Longrightarrow> sound s s"
  by (simp add: sound_def)

lemma sound_trans: "sound s s' \<Longrightarrow> sound s' s'' \<Longrightarrow> sound s s''"
  unfolding sound_def using extends_trans by blast

lemma host_mutate_sound:
  assumes inv: "store_inv s" and nz: "opcode = SCENE_OP_CREATE_NODE \<Longrightarrow> scene_get_u32 p 12 \<noteq> 0"
  shows "sound s (snd (host_mutate s opcode p plen))"
proof -
  obtain st a where op: "apply_op (live_ctx s False) opcode p plen = (st, a)" by fastforce
  show ?thesis
    using live_op [OF inv nz op] inv
    by (cases st) (simp_all add: host_mutate_def op sound_def)
qed

lemma host_sound:
  assumes "store_inv s"
  shows "sound s (snd (scene_store_host_focus s nid))"
    "sound s (snd (scene_store_host_set_visible s nid want))"
    "sound s (snd (scene_store_host_set_rect s nid r))"
proof -
  have "opcode \<noteq> SCENE_OP_CREATE_NODE \<Longrightarrow> sound s (snd (host_mutate s opcode p n))" for opcode p n
    using host_mutate_sound [OF assms, of opcode p n] by blast
  then show "sound s (snd (scene_store_host_focus s nid))"
    "sound s (snd (scene_store_host_set_visible s nid want))"
    "sound s (snd (scene_store_host_set_rect s nid r))"
    using sound_refl [OF assms]
    by (simp_all add: scene_store_host_focus_def scene_store_host_set_visible_def
        scene_store_host_set_rect_def Let_def split: option.split)
qed

lemma input_sound:
  assumes "store_inv s"
  shows "sound s (snd (scene_store_input_pointer s now device x y buttons))"
    "sound s (snd (scene_store_input_key s now key_code state modifiers))"
    "sound s (snd (scene_store_input_text s now txt len))"
  using assms
  by (simp_all add: scene_store_input_pointer_def scene_store_input_key_def
      scene_store_input_text_def input_sent_def sound_def Let_def split: option.split)

lemma same_session_sound:
  assumes "store_inv s" "same_session s s'"
  shows "sound s s'" "sound s (s'\<lparr>st_mode := m\<rparr>)"
proof -
  note same = same_sessionD [OF assms(2)]
  have "sound s s'"
    using assms(1) store_inv_cong [OF same(1,10,11)] extends_cong [OF same(3,2,12,6), of s]
    by (simp add: sound_def)
  then show "sound s s'" "sound s (s'\<lparr>st_mode := m\<rparr>)" by (simp_all add: sound_def)
qed

lemma replay_sound:
  assumes inv: "store_inv s"
  shows "sound s (snd (scene_store_begin_replay s))" "sound s (snd (scene_store_end_replay s))"
    "sound s (snd (scene_store_seek_to s tgt))"
proof -
  let ?m = "s\<lparr>st_mode := SCENE_MODE_REPLAY\<rparr>"
  have m: "sound s ?m" "store_inv ?m" using inv by (simp_all add: sound_def)
  obtain b s' where r: "replay_build ?m 0 = (b, s')" by fastforce
  have "same_session ?m s'" using replay_build_same [of ?m 0] r by simp
  then show "sound s (snd (scene_store_begin_replay s))"
    using same_session_sound [OF m(2)] sound_trans [OF m(1)] sound_refl [OF inv]
    by (cases b) (simp_all add: scene_store_begin_replay_def r)
  show "sound s (snd (scene_store_end_replay s))"
    using inv by (simp add: scene_store_end_replay_def replay_teardown_def sound_def)
  have "sound s (snd (replay_build s t))" for t
    using same_session_sound(1) [OF inv replay_build_same] .
  then show "sound s (snd (scene_store_seek_to s tgt))"
    using sound_refl [OF inv]
    by (auto simp: scene_store_seek_to_def Let_def split: prod.split bool.split)
      (metis snd_conv)+
qed

lemma import_macro_sound:
  assumes "store_inv s" "store_inv src"
  shows "sound s (snd (scene_store_import_macro s src from_id to_id))"
proof (cases "macro_find (st_macros src) from_id")
  case (Some i)
  then have "list_all nonzero_create (mr_ops (st_macros src ! i))"
    using assms(2) macro_find_less [OF Some] by (simp add: store_inv_def macros_ok_def)
  then show ?thesis
    using assms Some
    by (auto simp: scene_store_import_macro_def sound_def store_inv_def macros_ok_def split: option.split)
qed (use assms in \<open>simp add: scene_store_import_macro_def sound_refl\<close>)

lemma record_sound:
  assumes "store_inv s"
  shows "sound s (scene_store_welcome s)" "sound s (snd (scene_store_emit_record s opc p n))"
    "sound s (snd (scene_store_fail s code msg))"
  using assms
  by (simp_all add: scene_store_welcome_def scene_store_emit_record_def scene_store_fail_def
      emit_error_def sound_def)

lemma misc_sound:
  assumes "store_inv s"
  shows "sound s (scene_store_ghost_mark s)" "sound s (snd (scene_store_rejoin s seq))"
    "sound s (snd (scene_store_register_texture s ref w h fmt opq))"
    "sound s (snd (scene_store_release_texture s ref))"
    "sound s (scene_store_set_style_count s n)" "sound s (scene_store_set_effect_count s n)"
  using assms ghost_inv [OF assms] texture_inv [OF assms]
  by (simp_all add: sound_def scene_store_ghost_mark_def scene_store_rejoin_def
      scene_store_register_texture_def scene_store_release_texture_def
      scene_store_set_style_count_def scene_store_set_effect_count_def Let_def split: option.split)

lemma ingest_sound:
  assumes "store_inv s" "opcode = SCENE_OP_CREATE_NODE \<Longrightarrow> scene_get_u32 p 12 \<noteq> 0"
  shows "sound s (snd (scene_store_ingest s now opcode p plen))"
proof (cases "st_dead s")
  case True
  then show ?thesis using assms(1) by (simp add: scene_store_ingest_def sound_refl)
next
  case False
  then show ?thesis using ingest_good [OF assms(1) _ assms(2)] by (simp add: good_def sound_def)
qed

subsection \<open>Steps and reachable sessions\<close>

text \<open>A drain takes records off the outbound queue; every other call is a \<open>session_step\<close>. The
  source of an imported macro is another reachable session.\<close>

inductive session_step :: "scene_store \<Rightarrow> scene_store \<Rightarrow> bool"
  and reachable :: "scene_store \<Rightarrow> bool" where
  new: "reachable (scene_store_new lim now mem)"
| step: "reachable s \<Longrightarrow> session_step s s' \<Longrightarrow> reachable s'"
| drain: "reachable s \<Longrightarrow> reachable (snd (scene_store_out_next s))"
| drain_frame: "reachable s \<Longrightarrow> reachable (snd (scene_store_out_next_frame s))"
| ingest: "(opcode = SCENE_OP_CREATE_NODE \<Longrightarrow> scene_get_u32 p 12 \<noteq> 0) \<Longrightarrow>
    session_step s (snd (scene_store_ingest s now opcode p plen))"
| host_focus: "session_step s (snd (scene_store_host_focus s nid))"
| host_visible: "session_step s (snd (scene_store_host_set_visible s nid want))"
| host_rect: "session_step s (snd (scene_store_host_set_rect s nid r))"
| pointer: "session_step s (snd (scene_store_input_pointer s now device x y buttons))"
| key: "session_step s (snd (scene_store_input_key s now key_code state modifiers))"
| typed: "session_step s (snd (scene_store_input_text s now txt len))"
| begin_replay: "session_step s (snd (scene_store_begin_replay s))"
| end_replay: "session_step s (snd (scene_store_end_replay s))"
| seek_to: "session_step s (snd (scene_store_seek_to s tgt))"
| import_macro: "reachable src \<Longrightarrow>
    session_step s (snd (scene_store_import_macro s src from_id to_id))"
| greet: "session_step s (scene_store_welcome s)"
| emit_record: "session_step s (snd (scene_store_emit_record s opcode p plen))"
| give_up: "session_step s (snd (scene_store_fail s code msg))"
| ghost_mark: "session_step s (scene_store_ghost_mark s)"
| rejoin: "session_step s (snd (scene_store_rejoin s seq))"
| register: "session_step s (snd (scene_store_register_texture s ref w h fmt opq))"
| release: "session_step s (snd (scene_store_release_texture s ref))"
| styles: "session_step s (scene_store_set_style_count s n)"
| effects: "session_step s (scene_store_set_effect_count s n)"

lemma drain_inv:
  "store_inv s \<Longrightarrow> store_inv (snd (scene_store_out_next s))"
  "store_inv s \<Longrightarrow> store_inv (snd (scene_store_out_next_frame s))"
  by (simp_all add: scene_store_out_next_def scene_store_out_next_frame_def split: prod.split)

lemma step_sound:
  "session_step s s' \<Longrightarrow> store_inv s \<longrightarrow> sound s s'"
  "reachable s \<Longrightarrow> store_inv s"
proof (induction rule: session_step_reachable.inducts)
  case (step s s')
  then show ?case by (simp add: sound_def)
qed (simp_all add: new_inv drain_inv host_sound input_sound replay_sound import_macro_sound record_sound
    misc_sound ingest_sound)

inductive_cases session_stepE: "session_step s s'"

text \<open>Runs of calls: a session that lives on keeps what it has.\<close>

lemma run_sound:
  assumes "session_step\<^sup>*\<^sup>* s s'" "store_inv s"
  shows "sound s s'"
  using assms(1)
proof (induction rule: rtranclp_induct)
  case base
  show ?case using assms(2) by (rule sound_refl)
next
  case (step y z)
  then have "sound y z" using step_sound(1) by (simp add: sound_def)
  with step.IH show ?case by (rule sound_trans)
qed

subsection \<open>Runs with drains\<close>

text \<open>The bytes of the outbound queue that are still to be handed out.\<close>

definition queued :: "scene_store \<Rightarrow> bytes" where
  "queued s = drop (oq_off (st_out s)) (oq_bytes (st_out s))"

text \<open>Any sequence of calls, with the bytes the drains among them took off the queue.\<close>

inductive session_run :: "scene_store \<Rightarrow> bytes \<Rightarrow> scene_store \<Rightarrow> bool" for s where
  start: "session_run s [] s"
| call: "session_run s t s' \<Longrightarrow> session_step s' s'' \<Longrightarrow> session_run s t s''"
| take_frame: "session_run s t s' \<Longrightarrow> scene_store_out_next_frame s' = (Some f, s'') \<Longrightarrow>
    session_run s (t @ f) s''"
| take_record: "session_run s t s' \<Longrightarrow> scene_store_out_next s' = (Some (opc, p), s'') \<Longrightarrow>
    session_run s (t @ take (16 + length p) (queued s')) s''"
| no_frame: "session_run s t s' \<Longrightarrow> scene_store_out_next_frame s' = (None, s'') \<Longrightarrow> session_run s t s''"
| no_record: "session_run s t s' \<Longrightarrow> scene_store_out_next s' = (None, s'') \<Longrightarrow> session_run s t s''"

definition off_ok :: "scene_store \<Rightarrow> bool" where
  "off_ok s \<longleftrightarrow> oq_off (st_out s) \<le> length (oq_bytes (st_out s))"

lemma emit_all_queue:
  "oq_off q \<le> length (oq_bytes q) \<Longrightarrow>
   oq_off (emit_all q rs) \<le> length (oq_bytes (emit_all q rs)) \<and>
   drop (oq_off (emit_all q rs)) (oq_bytes (emit_all q rs)) =
     drop (oq_off q) (oq_bytes q) @ concat (map (\<lambda>(opc, p). scene_frame opc p) rs)"
proof (induction rs arbitrary: q)
  case Nil
  then show ?case by simp
next
  case (Cons r rs)
  obtain opc p where r: "r = (opc, p)" by fastforce
  have "emit_all q (r # rs) = emit_all (emit q opc p) rs" by (simp add: emit_all_def r)
  then show ?case using Cons.IH [of "emit q opc p"] Cons.prems by (simp add: r) (simp add: emit_def)
qed

lemma drop_split: "drop k xs = take n (drop k xs) @ drop (k + n) xs"
  by (metis append_take_drop_id drop_drop add.commute)

lemma drain_queue:
  assumes "off_ok s"
  shows "scene_store_out_next_frame s = (Some f, s') \<Longrightarrow> off_ok s' \<and> queued s = f @ queued s'"
    and "scene_store_out_next s = (Some (opc, p), s') \<Longrightarrow>
      off_ok s' \<and> queued s = take (16 + length p) (queued s) @ queued s'"
    and "scene_store_out_next_frame s = (None, s') \<Longrightarrow> off_ok s' \<and> queued s' = queued s"
    and "scene_store_out_next s = (None, s') \<Longrightarrow> off_ok s' \<and> queued s' = queued s"
proof -
  let ?q = "st_out s"
  note split = drop_split [of "oq_off ?q" "oq_bytes ?q"]
  show "off_ok s' \<and> queued s = f @ queued s'" if "scene_store_out_next_frame s = (Some f, s')"
    using that split [of "16 + unat (scene_get_u32 (drop (oq_off ?q) (oq_bytes ?q)) 8)"]
    by (auto simp: scene_store_out_next_frame_def out_next_frame_def off_ok_def queued_def Let_def
        simp del: drop_drop split: if_splits)
  show "off_ok s' \<and> queued s = take (16 + length p) (queued s) @ queued s'"
    if "scene_store_out_next s = (Some (opc, p), s')"
  proof -
    let ?n = "unat (scene_get_u32 (drop (oq_off ?q) (oq_bytes ?q)) 8)"
    have d: "oq_off ?q + 16 + ?n \<le> length (oq_bytes ?q)" "s' = s\<lparr>st_out := ?q\<lparr>oq_off := oq_off ?q + 16 + ?n\<rparr>\<rparr>"
      "p = take ?n (drop 16 (drop (oq_off ?q) (oq_bytes ?q)))"
      using that by (auto simp: scene_store_out_next_def out_next_def Let_def simp del: drop_drop split: if_splits)
    then have "length p = ?n" by simp
    with d(1,2) split [of "16 + ?n"] show ?thesis
      by (simp add: off_ok_def queued_def add.assoc del: drop_drop)
  qed
  show "off_ok s' \<and> queued s' = queued s" if "scene_store_out_next_frame s = (None, s')"
    using that assms by (auto simp: scene_store_out_next_frame_def out_next_frame_def off_ok_def
        queued_def oq_empty_def Let_def simp del: drop_drop split: if_splits)
  show "off_ok s' \<and> queued s' = queued s" if "scene_store_out_next s = (None, s')"
    using that assms by (auto simp: scene_store_out_next_def out_next_def off_ok_def
        queued_def oq_empty_def Let_def simp del: drop_drop split: if_splits)
qed

lemma drain_keeps:
  "scene_store_out_next_frame s = (r, s') \<Longrightarrow> \<exists>q. s' = s\<lparr>st_out := q\<rparr>"
  "scene_store_out_next s = (r', s') \<Longrightarrow> \<exists>q. s' = s\<lparr>st_out := q\<rparr>"
  by (auto simp: scene_store_out_next_frame_def scene_store_out_next_def split: prod.splits)

lemma step_queue:
  assumes "session_step s s'" "store_inv s" "off_ok s"
  shows "store_inv s'" "extends s s'" "off_ok s'"
    "\<exists>rs. queued s' = queued s @ concat (map (\<lambda>(opc, p). scene_frame opc p) rs)"
  using step_sound(1) [OF assms(1)] assms(2,3) emit_all_queue [of "st_out s"]
  by (auto simp: sound_def extends_def off_ok_def queued_def)

lemma reachable_off_ok:
  "session_step s s' \<Longrightarrow> True"
  "reachable s \<Longrightarrow> off_ok s"
proof (induction rule: session_step_reachable.inducts)
  case (new lim now mem)
  show ?case by (simp add: off_ok_def scene_store_new_def oq_empty_def)
next
  case (step s s')
  then show ?case using step_queue(3) step_sound(2) by blast
next
  case (drain s)
  then show ?case using drain_queue(2,4) [of s]
    by (metis not_None_eq prod.collapse surj_pair)
next
  case (drain_frame s)
  then show ?case using drain_queue(1,3) [of s]
    by (metis not_None_eq prod.collapse)
qed simp_all

text \<open>Whatever calls and drains are made, the bytes handed out followed by those still queued are
  those queued before followed by whole records, the log is only appended to, the limits stay and
  a dead session stays dead.\<close>

definition fifo :: "scene_store \<Rightarrow> bytes \<Rightarrow> scene_store \<Rightarrow> bool" where
  "fifo s t s' \<longleftrightarrow> store_inv s' \<and> off_ok s' \<and>
     (\<exists>rs. t @ queued s' = queued s @ concat (map (\<lambda>(opc, p). scene_frame opc p) rs)) \<and>
     (\<exists>l. st_log s' = st_log s @ l) \<and> st_lim s' = st_lim s \<and> (st_dead s \<longrightarrow> st_dead s')"

lemma fifo_step:
  assumes "fifo s t s'" "session_step s' s''"
  shows "fifo s t s''"
proof -
  have I: "store_inv s'" "off_ok s'" using assms(1) by (simp_all add: fifo_def)
  note N = step_queue [OF assms(2) I]
  obtain rs where rs: "t @ queued s' = queued s @ concat (map (\<lambda>(opc, p). scene_frame opc p) rs)"
    using assms(1) by (auto simp: fifo_def)
  obtain rs' where "queued s'' = queued s' @ concat (map (\<lambda>(opc, p). scene_frame opc p) rs')"
    using N(4) by blast
  then have "t @ queued s'' = queued s @ concat (map (\<lambda>(opc, p). scene_frame opc p) (rs @ rs'))"
    using arg_cong [OF rs, of "\<lambda>x. x @ concat (map (\<lambda>(opc, p). scene_frame opc p) rs')"] by simp
  then have "\<exists>rs. t @ queued s'' = queued s @ concat (map (\<lambda>(opc, p). scene_frame opc p) rs)" ..
  moreover have "(\<exists>l. st_log s'' = st_log s @ l) \<and> st_lim s'' = st_lim s \<and> (st_dead s \<longrightarrow> st_dead s'')"
    using N(2) assms(1) by (auto simp: fifo_def extends_def)
  ultimately show ?thesis using N(1,3) by (simp add: fifo_def)
qed

lemma fifo_drain:
  assumes "fifo s t s'" "s'' = s'\<lparr>st_out := q\<rparr>" "off_ok s''" "queued s' = u @ queued s''"
  shows "fifo s (t @ u) s''"
  using assms by (simp add: fifo_def)

lemma run_fifo:
  assumes "session_run s t s'" "store_inv s" "off_ok s"
  shows "fifo s t s'"
  using assms(1)
proof (induction rule: session_run.induct)
  case start
  then show ?case using assms(2,3) by (auto simp: fifo_def intro: exI [of _ "[]"])
next
  case call
  then show ?case by (metis fifo_step)
next
  case (take_frame t s' f s'')
  then have "off_ok s'" by (simp add: fifo_def)
  with take_frame show ?case
    using drain_queue(1) [of s' f s''] drain_keeps(1) [of s' "Some f" s''] fifo_drain by blast
next
  case (take_record t s' opc p s'')
  then have "off_ok s'" by (simp add: fifo_def)
  with take_record show ?case
    using drain_queue(2) [of s' opc p s''] drain_keeps(2) [of s' "Some (opc, p)" s''] fifo_drain by blast
next
  case (no_frame t s' s'')
  then have "off_ok s'" by (simp add: fifo_def)
  with no_frame show ?case
    using drain_queue(3) [of s' s''] drain_keeps(1) [of s' None s''] fifo_drain [of s t s' s'' _ "[]"] by auto
next
  case (no_record t s' s'')
  then have "off_ok s'" by (simp add: fifo_def)
  with no_record show ?case
    using drain_queue(4) [of s' s''] drain_keeps(2) [of s' None s''] fifo_drain [of s t s' s'' _ "[]"] by auto
qed

end
