(* ===== verification/Mutation.thy ===== *)
theory Mutation
  imports IngestOk
begin

text \<open>
  Mutations against the specification: one record of a session (\<open>ingest_mutation_refines\<close>),
  and a run of operations in one context, by a locale for simulations that its interpretation
  \<open>op_run\<close> instantiates with \<open>apply_op\<close> and \<open>doc_op\<close>.
\<close>

subsection \<open>Runs that refine runs\<close>

fun run :: "('s \<Rightarrow> 'i \<Rightarrow> 'o \<times> 's) \<Rightarrow> 's \<Rightarrow> 'i list \<Rightarrow> 'o list \<times> 's" where
  "run f s [] = ([], s)"
| "run f s (i # is) = (let (x, s1) = f s i; (xs, s2) = run f s1 is in (x # xs, s2))"

locale simulation =
  fixes cstep :: "'c \<Rightarrow> 'i \<Rightarrow> 'o \<times> 'c"
    and astep :: "'a \<Rightarrow> 'i \<Rightarrow> 'o \<times> 'a"
    and rel :: "'c \<Rightarrow> 'a \<Rightarrow> bool"
    and admissible :: "'i \<Rightarrow> bool"
  assumes same_output: "rel c a \<Longrightarrow> admissible i \<Longrightarrow> fst (cstep c i) = fst (astep a i)"
    and stays_related: "rel c a \<Longrightarrow> admissible i \<Longrightarrow> rel (snd (cstep c i)) (snd (astep a i))"
begin

lemma run_refines:
  "rel c a \<Longrightarrow> list_all admissible is \<Longrightarrow>
   fst (run cstep c is) = fst (run astep a is) \<and> rel (snd (run cstep c is)) (snd (run astep a is))"
proof (induction "is" arbitrary: c a)
  case (Cons i "is")
  have "fst (cstep c i) = fst (astep a i)" "rel (snd (cstep c i)) (snd (astep a i))"
    using Cons.prems same_output stays_related by simp_all
  with Cons.IH [OF this(2)] Cons.prems(2) show ?case
    by (simp add: Let_def split_beta)
qed simp

end

type_synonym operation = "u16 \<times> bytes \<times> u32"

definition op_ok :: "operation \<Rightarrow> bool" where
  "op_ok = (\<lambda>(opcode, p, plen). opcode = SCENE_OP_CREATE_NODE \<longrightarrow> scene_get_u32 p 12 \<noteq> 0)"

definition op_step :: "apply_ctx \<Rightarrow> operation \<Rightarrow> op_status \<times> apply_ctx" where
  "op_step a = (\<lambda>(opcode, p, plen). apply_op a opcode p plen)"

text \<open>A document with its environment and the records sent so far.\<close>

definition doc_step :: "env \<Rightarrow> doc \<times> wire_record list \<Rightarrow> operation \<Rightarrow>
    op_status \<times> doc \<times> wire_record list" where
  "doc_step e = (\<lambda>(d, sent) (opcode, p, plen).
     case doc_op e opcode p plen d of (st, d', rs) \<Rightarrow> (st, d', sent @ rs))"

definition ctx_rel :: "env \<Rightarrow> outq \<Rightarrow> apply_ctx \<Rightarrow> doc \<times> wire_record list \<Rightarrow> bool" where
  "ctx_rel e q a = (\<lambda>(d, sent).
     represents (ac_scene a) d \<and> \<not> ac_replay a \<and> env_of a = e \<and> ac_out a = emit_all q sent)"

lemma ctx_rel_step:
  assumes "ctx_rel e q a x" "op_ok i"
  shows "fst (op_step a i) = fst (doc_step e x i) \<and> ctx_rel e q (snd (op_step a i)) (snd (doc_step e x i))"
proof -
  obtain opcode p plen where i: "i = (opcode, p, plen)" by (cases i)
  obtain d sent where x: "x = (d, sent)" by fastforce
  obtain st a' where op: "apply_op a opcode p plen = (st, a')" by fastforce
  obtain st' d' rs where sp: "doc_op e opcode p plen d = (st', d', rs)" by (cases "doc_op e opcode p plen d")
  have "represents (ac_scene a) d" "\<not> ac_replay a" and e: "env_of a = e"
    and q: "ac_out a = emit_all q sent"
    using assms by (simp_all add: ctx_rel_def x)
  moreover have "opcode = SCENE_OP_CREATE_NODE \<Longrightarrow> scene_get_u32 p 12 \<noteq> 0"
    using assms(2) by (simp add: op_ok_def i)
  ultimately have "implements a (apply_op a opcode p plen) (doc_op (env_of a) opcode p plen d)"
    by (intro apply_op_refines)
  then have I: "st = st'" "represents (ac_scene a') d'" "ac_out a' = emit_all (ac_out a) rs"
    "sc_tex (ac_scene a') = sc_tex (ac_scene a)"
    by (simp_all add: implements_def op sp e)
  note a' = apply_op_frame(1) [OF op]
  have "env_of a' = e" "ac_replay a' = ac_replay a"
    using e I(4) by (subst a', simp add: env_of_def)+
  with I q \<open>\<not> ac_replay a\<close> show ?thesis
    by (simp add: op_step_def doc_step_def ctx_rel_def i x op sp emit_all_append)
qed

interpretation op_run: simulation op_step "doc_step e" "ctx_rel e q" op_ok for e q
  by unfold_locales (simp_all add: ctx_rel_step)

subsection \<open>One mutation record\<close>

text \<open>What ingest of a mutation leaves, given what the specification says about it.\<close>

definition mutation_done :: "scene_store \<Rightarrow> u16 \<Rightarrow> bytes \<Rightarrow> u32 \<Rightarrow> doc_result \<Rightarrow> result \<Rightarrow> bool" where
  "mutation_done s opcode p plen dr r \<longleftrightarrow>
     (case (dr, r) of ((st, d', rs), (rc, s')) \<Rightarrow>
        represents (st_live s') d' \<and> st_next_seq s' = st_next_seq s + 1 \<and> st_mode s' = st_mode s \<and>
        st_input_pending s' = st_input_pending s \<and>
        env_of (live_ctx s' True) = (env_of (live_ctx s True))\<lparr>ev_seq := st_scene_seq s'\<rparr> \<and>
        (case st of
           OpOk \<Rightarrow> rc = 0 \<and> \<not> st_dead s' \<and> st_scene_seq s' = scene_get_u64 p 0 \<and>
             st_out s' = emit_all (st_out s) rs \<and>
             st_log s' = st_log s @ scene_put_u16 opcode @ scene_put_u32 plen @ slice p 0 (unat plen) \<and>
             st_log_records s' = st_log_records s + 1 \<and>
             ((st_log_records s + 1) mod SCENE_CKPT_PERIOD \<noteq> 0 \<longrightarrow> st_ckpts s' = st_ckpts s)
         | OpErr e \<Rightarrow> rc = neg_err e \<and> st_dead s' \<and> st_scene_seq s' = st_scene_seq s \<and>
             st_out s' = emit_all (st_out s) (rs @ [(SCENE_SRV_ERROR, error_payload e ''op rejected'')]) \<and>
             st_log s' = st_log s))"

lemma macro_capture_frame:
  "st_live (macro_capture s i opcode p plen) = st_live s"
  "st_out (macro_capture s i opcode p plen) = st_out s"
  "st_log (macro_capture s i opcode p plen) = st_log s"
  "st_next_seq (macro_capture s i opcode p plen) = st_next_seq s"
  "st_dead (macro_capture s i opcode p plen) = st_dead s"
  "st_log_records (macro_capture s i opcode p plen) = st_log_records s"
  "st_ckpts (macro_capture s i opcode p plen) = st_ckpts s"
  "st_mode (macro_capture s i opcode p plen) = st_mode s"
  "st_input_pending (macro_capture s i opcode p plen) = st_input_pending s"
  "st_lim (macro_capture s i opcode p plen) = st_lim s"
  "st_style_count (macro_capture s i opcode p plen) = st_style_count s"
  "st_effect_count (macro_capture s i opcode p plen) = st_effect_count s"
  by (simp_all add: macro_capture_def Let_def split: option.split)

lemma log_append_no_ckpt:
  "(st_log_records s + 1) mod SCENE_CKPT_PERIOD \<noteq> 0 \<Longrightarrow>
   st_ckpts (snd (log_append s opcode p plen)) = st_ckpts s"
  by (simp add: log_append_def Let_def)

lemma ingest_mutation_refines:
  assumes rep: "represents (st_live s) d" and alive: "\<not> st_dead s" "st_mode s \<noteq> SCENE_MODE_REPLAY"
    and len: "8 \<le> plen" "plen \<le> max_record_length (st_lim s)"
    and seq: "scene_get_u64 p 0 = st_next_seq s" and opc: "op_is_scene_affecting opcode"
    and nz: "opcode = SCENE_OP_CREATE_NODE \<Longrightarrow> scene_get_u32 p 12 \<noteq> 0"
  shows "mutation_done s opcode p plen (doc_op (env_of (live_ctx s True)) opcode p plen d)
           (scene_store_ingest s now opcode p plen)"
proof -
  let ?s = "s\<lparr>st_next_seq := st_next_seq s + 1\<rparr>"
  have ack: "opcode \<noteq> SCENE_OP_ACK" using opc by (auto simp: op_is_scene_affecting_def)
  have ctx: "live_ctx ?s True = live_ctx s True" by (simp add: live_ctx_def)
  obtain st a where op: "apply_op (live_ctx s True) opcode p plen = (st, a)" by fastforce
  obtain st' d' rs where sp: "doc_op (env_of (live_ctx s True)) opcode p plen d = (st', d', rs)"
    by (cases "doc_op (env_of (live_ctx s True)) opcode p plen d")
  have "implements (live_ctx s True) (st, a) (st', d', rs)"
    using apply_op_refines [of "live_ctx s True" d opcode p plen] rep nz
    by (simp add: live_ctx_def op [unfolded live_ctx_def] sp [unfolded live_ctx_def])
  then have I: "st = st'" "represents (ac_scene a) d'" "ac_out a = emit_all (st_out s) rs"
    "sc_tex (ac_scene a) = sc_tex (st_live s)"
    by (simp_all add: implements_def live_ctx_def)
  have ing: "scene_store_ingest s now opcode p plen = ingest_mutation ?s (st_next_seq s) opcode p plen"
    using alive len [folded not_less] seq opc ack
    by (simp add: scene_store_ingest_def ingest_switch_def Let_def)
  show ?thesis
  proof (cases st)
    case (OpErr e)
    then show ?thesis
      using I alive unfolding ing sp mutation_done_def
      by (simp add: ingest_mutation_def ctx op fatal_error_def emit_error_def store_emit_def
          live_back_def emit_all_append [symmetric] emit_emit_all) (simp add: env_of_def live_ctx_def)
  next
    case OpOk
    let ?s1 = "live_back ?s a"
    let ?s2 = "case st_open_macro ?s1 of None \<Rightarrow> ?s1 | Some i \<Rightarrow> macro_capture ?s1 i opcode p plen"
    have s2: "st_live ?s2 = ac_scene a" "st_out ?s2 = emit_all (st_out s) rs" "st_log ?s2 = st_log s"
      "st_next_seq ?s2 = st_next_seq s + 1" "\<not> st_dead ?s2" "st_mode ?s2 = st_mode s"
      "st_input_pending ?s2 = st_input_pending s"
      "st_log_records ?s2 = st_log_records s" "st_ckpts ?s2 = st_ckpts s"
      "st_lim ?s2 = st_lim s" "st_style_count ?s2 = st_style_count s"
      "st_effect_count ?s2 = st_effect_count s"
      using I alive by (simp_all add: macro_capture_frame live_back_def split: option.split)
    have "scene_inv (st_live (?s2\<lparr>st_scene_seq := st_next_seq s\<rparr>))"
      using I(2) s2(1) scene_inv_represents by auto
    from log_append_ok [OF this, of opcode p plen] obtain cks where
      "log_append (?s2\<lparr>st_scene_seq := st_next_seq s\<rparr>) opcode p plen =
        (True, ?s2\<lparr>st_scene_seq := st_next_seq s, st_log := st_log s @ scene_put_u16 opcode @
           scene_put_u32 plen @ slice p 0 (unat plen),
           st_log_records := st_log_records ?s2 + 1, st_ckpts := st_ckpts ?s2 @ cks\<rparr>)"
      using s2(3) by (auto simp: prod_eq_iff)
    moreover have "(st_log_records s + 1) mod SCENE_CKPT_PERIOD \<noteq> 0 \<Longrightarrow>
        st_ckpts (snd (log_append (?s2\<lparr>st_scene_seq := st_next_seq s\<rparr>) opcode p plen)) = st_ckpts s"
      using s2 by (subst log_append_no_ckpt) simp_all
    ultimately show ?thesis
      using I alive OpOk s2 seq unfolding ing sp mutation_done_def
      by (simp add: ingest_mutation_def ctx op logged_def Let_def) (simp add: env_of_def live_ctx_def)
  qed
qed

subsection \<open>A session of mutation records\<close>

text \<open>The records a client sends one after the other; the first rejected one ends the session
  with an ERROR record.\<close>

fun ingest_all :: "scene_store \<Rightarrow> u64 \<Rightarrow> operation list \<Rightarrow> result" where
  "ingest_all s now [] = (0, s)"
| "ingest_all s now ((opcode, p, plen) # ops) =
     (case scene_store_ingest s now opcode p plen of
        (rc, s') \<Rightarrow> if rc \<noteq> 0 then (rc, s') else ingest_all s' now ops)"

fun doc_session :: "env \<Rightarrow> doc \<Rightarrow> operation list \<Rightarrow> doc_result" where
  "doc_session e d [] = (OpOk, d, [])"
| "doc_session e d ((opcode, p, plen) # ops) =
     (case doc_op e opcode p plen d of
        (OpErr x, d', rs) \<Rightarrow> (OpErr x, d', rs @ [(SCENE_SRV_ERROR, error_payload x ''op rejected'')])
      | (OpOk, d', rs) \<Rightarrow>
          (case doc_session (e\<lparr>ev_seq := scene_get_u64 p 0\<rparr>) d' ops of
             (st, d'', rs') \<Rightarrow> (st, d'', rs @ rs')))"

text \<open>The records are numbered from \<open>n\<close> on, are mutations, and fit the limit.\<close>

fun in_sequence :: "scene_limits \<Rightarrow> u64 \<Rightarrow> operation list \<Rightarrow> bool" where
  "in_sequence lim n [] = True"
| "in_sequence lim n ((opcode, p, plen) # ops) \<longleftrightarrow>
     8 \<le> plen \<and> plen \<le> max_record_length lim \<and> scene_get_u64 p 0 = n \<and>
     op_is_scene_affecting opcode \<and> op_ok (opcode, p, plen) \<and> in_sequence lim (n + 1) ops"

definition status_code :: "op_status \<Rightarrow> int" where
  "status_code st = (case st of OpOk \<Rightarrow> 0 | OpErr e \<Rightarrow> neg_err e)"

lemma doc_op_err_nz: "doc_op e opcode p plen d = (OpErr x, d', rs) \<Longrightarrow> x \<noteq> 0"
  by (auto simp: doc_op_def doc_create_def doc_destroy_def doc_set_text_def doc_set_def rejected_def
      doc_focus_op_def doc_focus_next_def move_focus_def Let_def split: if_splits option.splits)

lemma ingest_all_refines:
  assumes "represents (st_live s) d" "\<not> st_dead s" "st_mode s \<noteq> SCENE_MODE_REPLAY"
    and "in_sequence (st_lim s) (st_next_seq s) ops"
    and "doc_session (env_of (live_ctx s True)) d ops = (st, d', rs)"
    and "ingest_all s now ops = (rc, s')"
  shows "rc = status_code st \<and> represents (st_live s') d' \<and> st_out s' = emit_all (st_out s) rs \<and>
         (st_dead s' \<longleftrightarrow> st \<noteq> OpOk) \<and> st_mode s' = st_mode s \<and> st_lim s' = st_lim s \<and>
         st_input_pending s' = st_input_pending s"
  using assms
proof (induction ops arbitrary: s d rs)
  case Nil
  then show ?case by (simp add: status_code_def)
next
  case (Cons i ops)
  obtain opcode p plen where i: "i = (opcode, p, plen)" by (cases i)
  let ?e = "env_of (live_ctx s True)"
  obtain st1 d1 rs1 where sp: "doc_op ?e opcode p plen d = (st1, d1, rs1)"
    by (cases "doc_op ?e opcode p plen d")
  obtain rc1 s1 where ing: "scene_store_ingest s now opcode p plen = (rc1, s1)" by fastforce
  have M: "mutation_done s opcode p plen (st1, d1, rs1) (rc1, s1)"
    using ingest_mutation_refines [of s d plen p opcode now] Cons.prems
    by (simp add: i sp ing op_ok_def)
  show ?case
  proof (cases st1)
    case (OpErr x)
    have lim: "st_lim s1 = st_lim s"
      using M by (simp add: mutation_done_def env_of_def live_ctx_def)
    from OpErr have "rc1 \<noteq> 0" using M doc_op_err_nz [OF sp [unfolded OpErr]] neg_err_nz [of x]
      by (simp add: mutation_done_def)
    then show ?thesis
      using M Cons.prems(5,6) OpErr lim by (auto simp: i ing sp mutation_done_def status_code_def)
  next
    case OpOk
    then have S: "represents (st_live s1) d1" "\<not> st_dead s1" "st_mode s1 = st_mode s"
      "st_input_pending s1 = st_input_pending s"
      "env_of (live_ctx s1 True) = ?e\<lparr>ev_seq := scene_get_u64 p 0\<rparr>" "rc1 = 0"
      "st_out s1 = emit_all (st_out s) rs1" "st_next_seq s1 = st_next_seq s + 1"
      using M by (simp_all add: mutation_done_def)
    have "ev_lim (env_of (live_ctx s1 True)) = ev_lim ?e" using S(5) by simp
    then have lim: "st_lim s1 = st_lim s" by (simp add: env_of_def live_ctx_def)
    obtain st2 d2 rs2 where rest: "doc_session (env_of (live_ctx s1 True)) d1 ops = (st2, d2, rs2)"
      by (cases "doc_session (env_of (live_ctx s1 True)) d1 ops")
    have eq: "rs = rs1 @ rs2" "st2 = st" "d2 = d'"
      using Cons.prems(5) OpOk rest S(5) by (simp_all add: i sp)
    note eq(1)
    moreover have "rc = status_code st \<and> represents (st_live s') d' \<and>
        st_out s' = emit_all (st_out s1) rs2 \<and> (st_dead s' \<longleftrightarrow> st \<noteq> OpOk) \<and>
        st_mode s' = st_mode s1 \<and> st_lim s' = st_lim s1 \<and>
        st_input_pending s' = st_input_pending s1"
      using Cons.prems(3,4,6) S
      by (intro Cons.IH [OF S(1,2) _ _ rest [unfolded eq]]) (simp_all add: i ing lim)
    ultimately show ?thesis using S(3,4,7) lim by (simp add: emit_all_append)
  qed
qed

end
