(* ===== verification/Flow.thy ===== *)
theory Flow
  imports IngestOk
begin

text \<open>
  Order and flow control of a session: the stream sequence, the one outstanding input, and
  what a refused record leaves behind.
\<close>

subsection \<open>Input\<close>

text \<open>The records a pointer event sends, in order.\<close>

definition pointer_records :: "scene_store \<Rightarrow> u8 \<Rightarrow> i32 \<Rightarrow> i32 \<Rightarrow> u8 \<Rightarrow> wire_record list" where
  "pointer_records s device x y buttons =
     (SCENE_SRV_INPUT_POINTER,
      scene_put_u64 (st_scene_seq s) @ [device] @ scene_put_i32 x @ scene_put_i32 y @ [buttons]) #
     (if buttons AND 1 \<noteq> 0 \<and> scene_store_region_at s x y \<noteq> SCENE_NO_PARENT
      then [(SCENE_SRV_INPUT_ACTIVATE,
             scene_put_u64 (st_scene_seq s) @ scene_put_u32 (scene_store_region_at s x y))]
      else [])"

lemma input_sent_sel [simp]:
  "st_live (input_sent s now) = st_live s" "st_scene_seq (input_sent s now) = st_scene_seq s"
  "st_dead (input_sent s now) = st_dead s" "st_mode (input_sent s now) = st_mode s"
  "st_input_pending (input_sent s now)" "st_last_input_seq (input_sent s now) = st_scene_seq s"
  "st_out (input_sent s now) = st_out s" "st_next_seq (input_sent s now) = st_next_seq s"
  by (simp_all add: input_sent_def)

lemma store_emit_sel [simp]:
  "st_live (store_emit s opc b) = st_live s" "st_scene_seq (store_emit s opc b) = st_scene_seq s"
  "st_mode (store_emit s opc b) = st_mode s" "st_next_seq (store_emit s opc b) = st_next_seq s"
  "st_input_pending (store_emit s opc b) = st_input_pending s"
  "st_last_input_seq (store_emit s opc b) = st_last_input_seq s"
  "st_out (store_emit s opc b) = emit (st_out s) opc b"
  by (simp_all add: store_emit_def)

lemma input_gate_None:
  "input_gate s = None \<longleftrightarrow> \<not> st_dead s \<and> st_mode s = SCENE_MODE_LIVE \<and> \<not> st_input_pending s"
  by (simp add: input_gate_def)

lemma gate_closed:
  "st_input_pending s \<Longrightarrow> \<not> st_dead s \<Longrightarrow> st_mode s = SCENE_MODE_LIVE \<Longrightarrow> input_gate s = Some 0"
  by (simp add: input_gate_def)

lemma pointer_delivered:
  assumes "input_gate s = None" "scene_store_input_pointer s now device x y buttons = (r, s')"
  shows "r = 0" "st_out s' = emit_all (st_out s) (pointer_records s device x y buttons)"
    "input_gate s' = Some 0" "st_last_input_seq s' = st_scene_seq s"
    "st_live s' = st_live s" "st_next_seq s' = st_next_seq s"
proof -
  have reg: "scene_store_region_at (input_sent (store_emit s opc b) now) x y = scene_store_region_at s x y"
    for opc b by (simp add: scene_store_region_at_def)
  show "r = 0" "st_out s' = emit_all (st_out s) (pointer_records s device x y buttons)"
    "input_gate s' = Some 0" "st_last_input_seq s' = st_scene_seq s"
    "st_live s' = st_live s" "st_next_seq s' = st_next_seq s"
    using assms(2) assms(1) [unfolded input_gate_None]
    by (auto simp: scene_store_input_pointer_def assms(1) Let_def reg pointer_records_def
        emit_all_def input_gate_def split: if_splits)
qed

text \<open>Until the input is acknowledged, further input is swallowed.\<close>

lemma gate_swallows:
  assumes "input_gate s = Some r"
  shows "scene_store_input_pointer s now device x y buttons = (r, s)"
    "scene_store_input_key s now key_code state modifiers = (r, s)"
    "scene_store_input_text s now txt len = (r, s)"
  using assms by (simp_all add: scene_store_input_pointer_def scene_store_input_key_def
      scene_store_input_text_def)

lemma ack_ingest:
  assumes inv: "store_inv s" and alive: "\<not> st_dead s" and len: "16 \<le> max_record_length (st_lim s)"
    and ack: "scene_store_ingest s now SCENE_OP_ACK p 16 = (r, s')"
  shows "r = 0" "\<not> st_dead s'" "st_mode s' = st_mode s" "st_live s' = st_live s"
    "st_next_seq s' = st_next_seq s" "st_scene_seq s' = st_scene_seq s" "st_out s' = st_out s"
    "st_last_input_seq s' = st_last_input_seq s"
    "st_input_pending s' \<longleftrightarrow> st_input_pending s \<and> scene_get_u64 p 0 < st_last_input_seq s"
proof -
  let ?s1 = "if scene_get_u64 p 0 \<ge> st_last_input_seq s then s\<lparr>st_input_pending := False\<rparr> else s"
  have "scene_inv (st_live ?s1)" using inv by (simp add: store_inv_def)
  from log_append_ok [OF this, of SCENE_OP_ACK p 16] obtain cks where
    log: "log_append ?s1 SCENE_OP_ACK p 16 = (True, ?s1\<lparr>st_log := st_log ?s1 @
      scene_put_u16 SCENE_OP_ACK @ scene_put_u32 16 @ slice p 0 (unat (16 :: u32)),
      st_log_records := st_log_records ?s1 + 1, st_ckpts := st_ckpts ?s1 @ cks\<rparr>)"
    by (auto simp: prod_eq_iff)
  have "scene_store_ingest s now SCENE_OP_ACK p 16 = logged ?s1 SCENE_OP_ACK p 16 ok"
    using alive len [folded not_less] by (simp add: scene_store_ingest_def ingest_ack_def Let_def)
  also have "\<dots> = ok (snd (log_append ?s1 SCENE_OP_ACK p 16))"
    unfolding logged_def log by simp
  finally have "r = 0" "s' = snd (log_append ?s1 SCENE_OP_ACK p 16)" using ack by simp_all
  with log show "r = 0" "\<not> st_dead s'" "st_mode s' = st_mode s" "st_live s' = st_live s"
    "st_next_seq s' = st_next_seq s" "st_scene_seq s' = st_scene_seq s" "st_out s' = st_out s"
    "st_last_input_seq s' = st_last_input_seq s"
    "st_input_pending s' \<longleftrightarrow> st_input_pending s \<and> scene_get_u64 p 0 < st_last_input_seq s"
    using alive by (auto simp: not_less)
qed

subsection \<open>Sequence\<close>

text \<open>A record out of sequence ends the session and changes neither scene nor log.\<close>

lemma out_of_sequence:
  assumes "\<not> st_dead s" "plen \<le> max_record_length (st_lim s)" "opcode \<noteq> SCENE_OP_ACK" "8 \<le> plen"
    "scene_get_u64 p 0 \<noteq> st_next_seq s"
  shows "scene_store_ingest s now opcode p plen =
     (neg_err SCENE_ERR_SEQ,
      s\<lparr>st_out := emit (st_out s) SCENE_SRV_ERROR (error_payload SCENE_ERR_SEQ ''non-monotonic seq''),
        st_dead := True\<rparr>)"
  using assms(1,3,5) assms(2,4) [folded not_less]
  by (simp add: scene_store_ingest_def fatal_error_def emit_error_def store_emit_def Let_def)

lemma macro_exec_next_seq: "st_next_seq (snd (macro_exec s mid)) = st_next_seq s"
  by (simp add: macro_exec_def live_back_def Let_def split: option.split prod.split)

lemma log_append_next_seq: "st_next_seq (snd (log_append s opcode p plen)) = st_next_seq s"
  by (simp add: log_append_def Let_def split: option.split)

lemma logged_next_seq:
  assumes "\<And>s'. st_next_seq s' = st_next_seq s \<Longrightarrow> st_next_seq (snd (k s')) = st_next_seq s"
  shows "st_next_seq (snd (logged s opcode p plen k)) = st_next_seq s"
  using log_append_next_seq [of s opcode p plen] assms
  by (auto simp: logged_def fatal_error_def emit_error_def split: prod.split bool.split)

end
