(* ===== verification/Region.thy ===== *)
theory Region
  imports SnapshotCorrect Requests
begin

text \<open>
  Region resolution on documents: the node under a point is the deepest visible live node
  whose rectangle holds it, and of several equally deep ones the last in the order in which
  the walk leaves the nodes (so the later sibling wins).
\<close>

text \<open>The nodes with their depths, in the order in which the walk leaves them.\<close>

fun levels :: "nat \<Rightarrow> 'k tree \<Rightarrow> (nat \<times> 'k) list" where
  "levels n \<langle>\<rangle> = []"
| "levels n \<langle>l, k, r\<rangle> = levels (Suc n) l @ (n, k) # levels n r"

definition hit_at :: "i32 \<Rightarrow> i32 \<Rightarrow> node \<Rightarrow> bool" where
  "hit_at x y n \<longleftrightarrow> \<not> nd_stale n \<and> nd_flags n AND SCENE_FLAG_VISIBLE \<noteq> 0 \<and> in_rect (nd_rect n) x y"

definition candidates :: "doc \<Rightarrow> i32 \<Rightarrow> i32 \<Rightarrow> (nat \<times> u32) list" where
  "candidates d x y = filter (\<lambda>(n, k). hit_at x y (the (dc_attr d k))) (levels 0 (dc_tree d))"

definition deepest_last :: "(nat \<times> 'k) list \<Rightarrow> 'k \<Rightarrow> 'k" where
  "deepest_last cs none =
     (if cs = [] then none else snd (last (filter (\<lambda>c. fst c = Max (fst ` set cs)) cs)))"

definition doc_region :: "doc \<Rightarrow> i32 \<Rightarrow> i32 \<Rightarrow> u32" where
  "doc_region d x y = deepest_last (candidates d x y) SCENE_NO_PARENT"

text \<open>The fold keeps the deepest candidate so far.\<close>

definition keep_deepest :: "nat \<times> 'k \<Rightarrow> 'k \<times> nat \<Rightarrow> 'k \<times> nat" where
  "keep_deepest = (\<lambda>(n, k) (best, m). if n \<ge> m then (k, n) else (best, m))"

lemma deepest_last_snoc:
  assumes "cs \<noteq> []" and m: "m = Max (fst ` set cs)"
  shows "deepest_last (cs @ [(n, k)]) none = (if n \<ge> m then k else deepest_last cs none)"
    and "Max (fst ` set (cs @ [(n, k)])) = max n m"
proof -
  show max: "Max (fst ` set (cs @ [(n, k)])) = max n m"
    using assms by simp
  have "m \<in> fst ` set cs" unfolding m by (rule Max_in) (use assms(1) in auto)
  then have ne: "filter (\<lambda>c. fst c = m) cs \<noteq> []" by (auto simp: filter_empty_conv)
  show "deepest_last (cs @ [(n, k)]) none = (if n \<ge> m then k else deepest_last cs none)"
  proof (cases "n \<ge> m")
    case True
    then show ?thesis unfolding deepest_last_def max by (simp add: max_def)
  next
    case False
    then have "filter (\<lambda>c. fst c = max n m) (cs @ [(n, k)]) = filter (\<lambda>c. fst c = m) cs"
      by (simp add: max_def)
    then show ?thesis using False assms(1) unfolding deepest_last_def max
      by (simp add: m [symmetric])
  qed
qed

lemma fold_keep_deepest:
  "fold keep_deepest cs (none, 0) =
     (deepest_last cs none, if cs = [] then 0 else Max (fst ` set cs))"
proof (induction cs rule: rev_induct)
  case (snoc c cs)
  obtain n k where c: "c = (n, k)" by fastforce
  show ?case
  proof (cases "cs = []")
    case True
    then show ?thesis by (simp add: c keep_deepest_def deepest_last_def)
  next
    case False
    define m where "m = Max (fst ` set cs)"
    have "fold keep_deepest (cs @ [c]) (none, 0) = keep_deepest c (deepest_last cs none, m)"
      using snoc.IH False by (simp add: m_def)
    also have "\<dots> = (if n \<ge> m then k else deepest_last cs none, max n m)"
      by (simp add: c keep_deepest_def max_def)
    finally show ?thesis
      using deepest_last_snoc(1) [OF False m_def, of n k none] deepest_last_snoc(2) [OF False m_def, of n k]
      by (simp only: c) simp
  qed
qed (simp add: deepest_last_def)

text \<open>The depth the store keeps is the depth in the document, for live nodes.\<close>

lemma levels_inorder: "map snd (levels n t) = inorder t"
  by (induction t arbitrary: n) auto

lemma levels_map: "levels n (map_tree f t) = map (\<lambda>(m, s). (m, f s)) (levels n t)"
  by (induction t arbitrary: n) auto

lemma live_depth:
  assumes "\<forall>(q, s) \<in> edges p t. \<not> nd_stale (h s) \<longrightarrow>
      (if q = 0 then nd_depth (h s) = 0 else \<not> nd_stale (h q) \<and> nd_depth (h s) = nd_depth (h q) + 1)"
    and "p = 0 \<and> n = 0 \<or> p \<noteq> 0 \<and> (\<not> nd_stale (h p) \<longrightarrow> n = nd_depth (h p) + 1)" "0 \<notin> set_tree t"
    and "(m, s) \<in> set (levels n t)" "\<not> nd_stale (h s)"
  shows "nd_depth (h s) = m"
  using assms
proof (induction t arbitrary: p n)
  case (Node l k r)
  have k: "k \<noteq> 0" "\<not> nd_stale (h k) \<longrightarrow> nd_depth (h k) = n"
    using Node.prems(1-3) by auto
  consider "(m, s) \<in> set (levels (Suc n) l)" | "m = n" "s = k" | "(m, s) \<in> set (levels n r)"
    using Node.prems(4) by auto
  then show ?case
  proof cases
    case 1
    then show ?thesis
      using Node.IH(1) [of k "Suc n"] Node.prems k by auto
  next
    case 2
    then show ?thesis using k(2) Node.prems(5) by simp
  next
    case 3
    then show ?thesis using Node.IH(2) [of p n] Node.prems by auto
  qed
qed simp

lemma fold_region:
  "(\<And>m s. (m, s) \<in> set ls \<Longrightarrow> \<not> nd_stale (h s) \<Longrightarrow> nd_depth (h s) = m) \<Longrightarrow>
   fold (region_step h x y) (map snd ls) b =
   fold keep_deepest (map (\<lambda>(m, s). (m, nd_id (h s))) (filter (\<lambda>(m, s). hit_at x y (h s)) ls)) b"
proof (induction ls arbitrary: b)
  case (Cons c ls)
  obtain m s where c: "c = (m, s)" by fastforce
  have "region_step h x y s b = (if hit_at x y (h s) then keep_deepest (m, nd_id (h s)) b else b)"
    using Cons.prems [of m s] by (auto simp: c region_step_def hit_at_def keep_deepest_def Let_def split: prod.split)
  with Cons show ?case by (simp add: c)
qed simp

lemma region_doc:
  assumes "represents sc d"
  shows "scene_region_at sc x y = doc_region d x y"
proof -
  obtain t fs where t: "scene_wf sc t fs" "live_ok (ar_nodes (sc_arena sc)) t" "d = doc_of sc t"
    using assms by (auto simp: represents_def)
  let ?h = "ar_nodes (sc_arena sc)"
  note w = arena_wfD [OF wfD(1) [OF t(1)]]
  have cnt: "ar_count (sc_arena sc) = size t" by (rule wfD(8) [OF t(1)])
  have "arena_walk (sc_arena sc) (\<lambda>_ b. b) (region_step ?h x y) b = fold (region_step ?h x y) (inorder t) b" for b
    by (simp add: arena_walk_visit [OF w(1) cnt] visit_leave)
  also have "fold (region_step ?h x y) (inorder t) b =
      fold keep_deepest (map (\<lambda>(m, s). (m, nd_id (?h s))) (filter (\<lambda>(m, s). hit_at x y (?h s)) (levels 0 t))) b" for b
    unfolding levels_inorder [of 0 t, symmetric]
    by (rule fold_region) (rule live_depth [of 0 t ?h 0], use t(2) w(6) in \<open>simp_all add: live_ok_def\<close>)
  also have "map (\<lambda>(m, s). (m, nd_id (?h s))) (filter (\<lambda>(m, s). hit_at x y (?h s)) (levels 0 t)) =
      candidates d x y"
  proof -
    have "filter (\<lambda>(m, s). hit_at x y (?h s)) (levels 0 t) =
        filter ((\<lambda>(m, k). hit_at x y (the (dc_attr d k))) \<circ> (\<lambda>(m, s). (m, nd_id (?h s)))) (levels 0 t)"
    proof (rule filter_cong [OF refl])
      fix c assume c: "c \<in> set (levels 0 t)"
      then have "snd c \<in> set (map snd (levels 0 t))" by simp
      then have "snd c \<in> set_tree t" unfolding levels_inorder by simp
      from doc_attr_of [OF t(1) this] show "(case c of (m, s) \<Rightarrow> hit_at x y (?h s)) =
          ((\<lambda>(m, k). hit_at x y (the (dc_attr d k))) \<circ> (\<lambda>(m, s). (m, nd_id (?h s)))) c"
        by (cases c) (simp add: t(3) hit_at_def)
    qed
    then show ?thesis
      by (simp add: candidates_def t(3) doc_of_def levels_map filter_map o_def case_prod_beta)
  qed
  finally have walk: "arena_walk (sc_arena sc) (\<lambda>_ b. b) (region_step ?h x y) (SCENE_NO_PARENT, 0) =
      fold keep_deepest (candidates d x y) (SCENE_NO_PARENT, 0)" .
  show ?thesis
  proof (cases "size t = 0")
    case True
    then have "candidates d x y = []" by (cases t) (simp_all add: candidates_def t(3) doc_of_def)
    then show ?thesis using True by (simp add: scene_region_at_def cnt doc_region_def deepest_last_def)
  next
    case False
    then show ?thesis
      by (simp add: scene_region_at_def cnt walk fold_keep_deepest doc_region_def)
  qed
qed

end
