(* ===== verification/Views.thy ===== *)
theory Views
  imports SnapshotCorrect A11y DocSpec
begin

text \<open>
  The read side of a session in terms of the document it shows: node views, the walk, the
  child count, the text search and the accessibility collectors.
\<close>

subsection \<open>The scene a session displays\<close>

definition viewed :: "scene_store \<Rightarrow> scene" where
  "viewed s = (if scene_store_in_replay s then st_replay s else st_live s)"

definition displays :: "scene_store \<Rightarrow> doc \<Rightarrow> bool" where
  "displays s d \<longleftrightarrow> represents (viewed s) d"

lemma view_arena_viewed: "view_arena s = (sc_arena (viewed s), sc_idm (viewed s))"
  by (simp add: view_arena_def viewed_def scene_store_in_replay_def)

lemma req_arena_viewed:
  "req_arena s = (sc_arena (viewed s), scene_store_view_seq s, sc_tex (viewed s))"
  by (simp add: req_arena_def viewed_def scene_store_in_replay_def scene_store_view_seq_def)

abbreviation doc_rows :: "doc \<Rightarrow> (u32 \<times> u32) list" where
  "doc_rows d \<equiv> rows SCENE_NO_PARENT (dc_tree d)"

abbreviation doc_node :: "doc \<Rightarrow> u32 \<Rightarrow> node" where
  "doc_node d k \<equiv> the (dc_attr d k)"

lemma viewedE:
  assumes "displays s d"
  obtains t fs where "scene_wf (viewed s) t fs" "live_ok (ar_nodes (sc_arena (viewed s))) t"
    "d = doc_of (viewed s) t"
  using assms unfolding displays_def represents_def by blast

text \<open>Rows of the document and slots of the scene.\<close>

lemma doc_rows_slots:
  assumes wf: "scene_wf sc t fs"
  shows "doc_rows (doc_of sc t) =
     map (\<lambda>x. (parent_id (ar_nodes (sc_arena sc)) (nd_parent (cell sc x)), nd_id (cell sc x))) (preorder t)"
  using rows_map [OF arena_wfD(2,6) [OF wfD(1) [OF wf]]] by (simp add: doc_of_def parent_id_def)

lemma preorder_slots:
  "preorder (dc_tree (doc_of sc t)) = map (\<lambda>x. nd_id (cell sc x)) (preorder t)"
  by (simp add: doc_of_def preorder_map)

subsection \<open>Walk\<close>

text \<open>A traversal of ids that a callback may stop.\<close>

fun visit_ids :: "(u32 \<Rightarrow> 'o \<Rightarrow> bool \<times> 'o) \<Rightarrow> u32 list \<Rightarrow> 'o \<Rightarrow> 'o" where
  "visit_ids cb [] x = x"
| "visit_ids cb (k # ks) x = (case cb k x of (stop, y) \<Rightarrow> if stop then y else visit_ids cb ks y)"

lemma fold_stopped:
  "fold (\<lambda>c (stop, x). if stop then (stop, x) else cb (f c) x) xs (True, x) = (True, x)"
  by (induction xs) simp_all

lemma fold_visit:
  "snd (fold (\<lambda>c (stop, x). if stop then (stop, x) else cb (f c) x) xs (False, x)) =
   visit_ids cb (map f xs) x"
proof (induction xs arbitrary: x)
  case (Cons c xs)
  obtain stop y where cb: "cb (f c) x = (stop, y)" by fastforce
  show ?case
    using Cons.IH [of y] fold_stopped [of cb f xs y] by (cases stop) (simp_all add: cb)
qed simp

lemma walk_doc:
  assumes "displays s d"
  shows "scene_store_walk s cb x = visit_ids cb (preorder (dc_tree d)) x"
proof -
  obtain t fs where t: "scene_wf (viewed s) t fs" "d = doc_of (viewed s) t"
    using assms by (rule viewedE)
  show ?thesis
    using fold_visit [of cb "\<lambda>c. nd_id (cell (viewed s) c)" "preorder t" x]
      arena_wfD(1) [OF wfD(1) [OF t(1)]] wfD(8) [OF t(1)]
    by (simp add: scene_store_walk_def view_arena_viewed arena_walk_visit [of _ t] visit_enter
        t(2) preorder_slots)
qed

subsection \<open>Nodes\<close>

text \<open>What the view of a node says.\<close>

definition vis_of :: "u32 \<Rightarrow> u32 \<Rightarrow> node \<Rightarrow> scene_node_vis" where
  "vis_of p k n =
     \<lparr>nv_id = k, nv_parent = p, nv_role = nd_role n, nv_flags = nd_flags n, nv_stale = nd_stale n,
      nv_rect = nd_rect n, nv_tex_src = nd_tex_src n, nv_style = nd_style n,
      nv_effect = nd_effect n, nv_tex = nd_tex n, nv_blend = nd_blend n,
      nv_opacity = nd_opacity n, nv_text_count = length (nd_texts n)\<rparr>"

lemma node_vis_unknown:
  assumes "displays s d" "dc_attr d k = None"
  shows "scene_store_node_vis s k = None" "scene_store_node_texts s k cap = None"
    "scene_store_node_child_count s k = 0"
proof -
  obtain t where "d = doc_of (viewed s) t" using assms(1) by (rule viewedE)
  then have "idmap_get (sc_idm (viewed s)) k = 0"
    using assms(2) by (auto simp: doc_of_def Let_def split: if_splits)
  then show "scene_store_node_vis s k = None" "scene_store_node_texts s k cap = None"
    "scene_store_node_child_count s k = 0"
    by (simp_all add: scene_store_node_vis_def scene_store_node_texts_def
        scene_store_node_child_count_def view_arena_viewed)
qed

text \<open>The row of a node names its parent.\<close>

lemma node_vis_row:
  assumes "displays s d" "(p, k) \<in> set (doc_rows d)"
  shows "scene_store_node_vis s k = Some (vis_of p k (doc_node d k))"
    and "scene_store_node_texts s k cap =
           Some (length (nd_texts (doc_node d k)), take cap (nd_texts (doc_node d k)))"
proof -
  obtain t fs where t: "scene_wf (viewed s) t fs" "d = doc_of (viewed s) t"
    using assms(1) by (rule viewedE)
  let ?h = "ar_nodes (sc_arena (viewed s))"
  obtain x where x: "x \<in> set_tree t" "p = parent_id ?h (nd_parent (?h x))" "k = nd_id (?h x)"
    using assms(2) unfolding t(2) doc_rows_slots [OF t(1)] by auto
  have x0: "x \<noteq> 0" using x(1) wfD(7) [OF t(1)] by metis
  have get: "idmap_get (sc_idm (viewed s)) k = x" using wfD(4) [OF t(1) x(1)] x(3) by simp
  have attr: "doc_node d k = payload (?h x)" using doc_attr_of [OF t(1) x(1)] x(3) t(2) by simp
  show "scene_store_node_vis s k = Some (vis_of p k (doc_node d k))"
    using x0 x(2) by (simp add: scene_store_node_vis_def view_arena_viewed get attr vis_of_def
        parent_id_def Let_def)
  have "map ((!) ts) [0..<if length ts < cap then length ts else cap] = take cap ts" for ts :: "text_slot list"
    by (rule nth_equalityI) (auto split: if_splits)
  then show "scene_store_node_texts s k cap =
      Some (length (nd_texts (doc_node d k)), take cap (nd_texts (doc_node d k)))"
    using x0 by (simp add: scene_store_node_texts_def view_arena_viewed get attr Let_def)
qed

lemma sib_count_spine:
  "rep h c t \<Longrightarrow> length (spine t) \<le> fuel \<Longrightarrow> sib_count h fuel c cnt = cnt + length (spine t)"
proof (induction t arbitrary: c cnt fuel)
  case (Node l s r)
  then obtain m where "fuel = Suc m" by (cases fuel) auto
  with Node show ?case by auto
next
  case Leaf
  then show ?case by (cases fuel) simp_all
qed

lemma length_spine: "length (spine t) \<le> size t"
  by (induction t) auto

lemma map_spine: "spine (map_tree f t) = map f (spine t)"
  by (induction t) auto

lemma child_count_doc:
  assumes "displays s d" "dc_attr d k \<noteq> None"
  shows "scene_store_node_child_count s k = length (spine (kids k (dc_tree d)))"
proof -
  obtain t fs where t: "scene_wf (viewed s) t fs" "d = doc_of (viewed s) t"
    using assms(1) by (rule viewedE)
  let ?x = "idmap_get (sc_idm (viewed s)) k" and ?id = "\<lambda>x. nd_id (cell (viewed s) x)"
  have x0: "?x \<noteq> 0" using assms(2) by (auto simp: t(2) doc_of_def Let_def split: if_splits)
  note x = wfD(3) [OF t(1) x0]
  note w = arena_wfD [OF wfD(1) [OF t(1)]]
  have "length (spine (kids ?x t)) \<le> ar_cap (sc_arena (viewed s))"
    using length_spine [of "kids ?x t"] size_kids0 [OF wfD(6) [OF t(1)], of ?x] w(9) x0
    by (simp add: kids0_def)
  then have "sib_count (ar_nodes (sc_arena (viewed s))) (ar_cap (sc_arena (viewed s)))
      (nd_first (cell (viewed s) ?x)) 0 = length (spine (kids ?x t))"
    using sib_count_spine [OF rep_kids [OF w(1)]] x by simp
  moreover have "kids k (dc_tree d) = map_tree ?id (kids ?x t)"
    using map_kids [OF ids_inj [OF t(1)], of ?x] x by (simp add: t(2) doc_of_def)
  ultimately show ?thesis
    using x0 by (simp add: scene_store_node_child_count_def view_arena_viewed map_spine)
qed

subsection \<open>Accessibility\<close>

text \<open>A node in the accessibility tree: visible and live. The collectors select among them.\<close>

definition accessible :: "node \<Rightarrow> bool" where
  "accessible n \<longleftrightarrow> \<not> nd_stale n \<and> nd_flags n AND SCENE_FLAG_VISIBLE \<noteq> 0"

definition a11y_of :: "doc \<Rightarrow> u32 \<Rightarrow> u32 \<Rightarrow> scene_a11y_node" where
  "a11y_of d p k =
     (let n = doc_node d k
      in \<lparr>an_id = k, an_parent = p, an_role = nd_role n, an_flags = nd_flags n, an_rect = nd_rect n,
          an_text_count = length (nd_texts n),
          an_primary_text_id = (case nd_texts n of [] \<Rightarrow> 0 | t # _ \<Rightarrow> ts_id t),
          an_primary_text = (case nd_texts n of [] \<Rightarrow> [] | t # _ \<Rightarrow> ts_data t),
          an_child_count = length (spine (kids k (dc_tree d))), an_depth = 0\<rparr>)"

lemma row_attr:
  assumes "displays s d" "(p, k) \<in> set (doc_rows d)"
  shows "dc_attr d k \<noteq> None"
proof -
  obtain t fs where t: "scene_wf (viewed s) t fs" "d = doc_of (viewed s) t"
    using assms(1) by (rule viewedE)
  then show ?thesis
    using assms(2) doc_attr_of [OF t(1)] unfolding t(2) doc_rows_slots [OF t(1)] by fastforce
qed

lemma a11y_node_row:
  assumes "displays s d" "(p, k) \<in> set (doc_rows d)"
  shows "scene_store_a11y_node s k =
     (if nd_stale (doc_node d k) then None else Some (a11y_of d p k))"
  using node_vis_row [OF assms] child_count_doc [OF assms(1) row_attr [OF assms]]
  by (cases "nd_texts (doc_node d k)")
    (simp_all add: scene_store_a11y_node_def vis_of_def a11y_of_def Let_def)

text \<open>The walk offers the accessible nodes in document order.\<close>

definition a11y_rows :: "doc \<Rightarrow> (u32 \<times> u32) list" where
  "a11y_rows d = filter (\<lambda>(p, k). accessible (doc_node d k)) (doc_rows d)"

lemma visit_ids_filter:
  "\<forall>(p, k) \<in> set ps. walk_cb s f k = (\<lambda>x. if accessible (doc_node d k) then f (a11y_of d p k) x else (False, x)) \<Longrightarrow>
   (\<And>p k x. fst (f (a11y_of d p k) x) = False) \<Longrightarrow>
   visit_ids (walk_cb s f) (map snd ps) x =
   fold (\<lambda>(p, k) x. snd (f (a11y_of d p k) x)) (filter (\<lambda>(p, k). accessible (doc_node d k)) ps) x"
proof (induction ps arbitrary: x)
  case (Cons c ps)
  obtain p k where c: "c = (p, k)" by fastforce
  have "fst (f (a11y_of d p k) x) = False" using Cons.prems(2) by blast
  then have "f (a11y_of d p k) x = (False, snd (f (a11y_of d p k) x))" by (simp add: prod_eq_iff)
  with Cons show ?case by (auto simp: c split: prod.split)
qed simp

lemma a11y_walk_doc:
  assumes "displays s d" "\<And>p k x. fst (f (a11y_of d p k) x) = False"
  shows "scene_store_a11y_walk s f x = fold (\<lambda>(p, k) x. snd (f (a11y_of d p k) x)) (a11y_rows d) x"
proof -
  have "walk_cb s f k = (\<lambda>x. if accessible (doc_node d k) then f (a11y_of d p k) x else (False, x))"
    if "(p, k) \<in> set (doc_rows d)" for p k
    using a11y_node_row [OF assms(1) that]
    by (simp add: walk_cb_def accessible_def fun_eq_iff a11y_of_def Let_def)
  then show ?thesis
    using visit_ids_filter [of "doc_rows d" s f d x] assms(2)
    by (simp add: scene_store_a11y_walk_def walk_doc [OF assms(1)] a11y_rows_def
        map_snd_rows [symmetric, of _ SCENE_NO_PARENT] case_prod_beta)
qed

text \<open>All three collectors have one shape: the ids that fit, and the count of all.\<close>

definition collect :: "(scene_a11y_node \<Rightarrow> bool) \<Rightarrow> nat \<Rightarrow> scene_a11y_node \<Rightarrow> u32 list \<times> nat \<Rightarrow>
    bool \<times> u32 list \<times> nat" where
  "collect P cap an = (\<lambda>(out, count).
     if P an then (False, if count < cap then out @ [an_id an] else out, count + 1)
     else (False, out, count))"

lemma collectors:
  "fc_cb = collect (\<lambda>an. an_flags an AND SCENE_FLAG_VISIBLE \<noteq> 0 \<and> an_flags an AND SCENE_FLAG_FOCUSABLE \<noteq> 0)"
  "rb_cb role = collect (\<lambda>an. an_flags an AND SCENE_FLAG_VISIBLE \<noteq> 0 \<and> an_role an = role)"
  "child_cb pid = collect (\<lambda>an. an_parent an = pid \<and> an_flags an AND SCENE_FLAG_VISIBLE \<noteq> 0)"
  by (simp_all add: fun_eq_iff fc_cb_def rb_cb_def child_cb_def collect_def)

lemma fold_collect:
  "fold (\<lambda>(p, k) x. snd (collect P cap (a11y_of d p k) x)) ps (take cap acc, length acc) =
   (let l = acc @ map snd (filter (\<lambda>(p, k). P (a11y_of d p k)) ps) in (take cap l, length l))"
proof (induction ps arbitrary: acc)
  case (Cons c ps)
  obtain p k where c: "c = (p, k)" by fastforce
  have id: "an_id (a11y_of d p k) = k" by (simp add: a11y_of_def Let_def)
  show ?case
  proof (cases "P (a11y_of d p k)")
    case True
    have "snd (collect P cap (a11y_of d p k) (take cap acc, length acc)) =
        (take cap (acc @ [k]), length (acc @ [k]))"
      using True by (simp add: collect_def id)
    then show ?thesis using Cons.IH [of "acc @ [k]"] True by (simp add: c)
  next
    case False
    then show ?thesis using Cons.IH [of acc] by (simp add: c collect_def)
  qed
qed simp

lemma a11y_collect:
  assumes "displays s d"
  shows "scene_store_a11y_walk s (collect P cap) ([], 0) =
     (let l = map snd (filter (\<lambda>(p, k). P (a11y_of d p k)) (a11y_rows d)) in (take cap l, length l))"
  using a11y_walk_doc [OF assms, of "collect P cap" "([], 0)"] fold_collect [of P cap d "a11y_rows d" "[]"]
  by (simp add: collect_def split: prod.split)

lemma focus_chain_ring:
  assumes "displays s d"
  shows "scene_store_a11y_focus_chain s cap = (take cap (focus_ring d), length (focus_ring d))"
proof -
  have "map snd (filter (\<lambda>(p, k). an_flags (a11y_of d p k) AND SCENE_FLAG_VISIBLE \<noteq> 0 \<and>
          an_flags (a11y_of d p k) AND SCENE_FLAG_FOCUSABLE \<noteq> 0) (a11y_rows d)) =
      map snd (filter (\<lambda>c. in_ring (doc_node d (snd c))) (doc_rows d))"
    unfolding a11y_rows_def filter_filter
    by (rule arg_cong [where f = "map snd"], rule filter_cong)
      (auto simp: accessible_def in_ring_def a11y_of_def Let_def)
  also have "\<dots> = focus_ring d"
    by (simp add: focus_ring_def map_snd_rows [symmetric, of _ SCENE_NO_PARENT] filter_map o_def)
  finally have eq: "map snd (filter (\<lambda>(p, k). an_flags (a11y_of d p k) AND SCENE_FLAG_VISIBLE \<noteq> 0 \<and>
          an_flags (a11y_of d p k) AND SCENE_FLAG_FOCUSABLE \<noteq> 0) (a11y_rows d)) = focus_ring d" .
  show ?thesis
    unfolding scene_store_a11y_focus_chain_def collectors a11y_collect [OF assms] Let_def eq ..
qed

lemma children_doc:
  assumes "displays s d"
  shows "scene_store_a11y_children s pid cap =
     (let l = map snd (filter (\<lambda>(p, k). p = pid \<and> accessible (doc_node d k)) (doc_rows d))
      in (take cap l, length l))"
proof -
  have "filter (\<lambda>(p, k). an_parent (a11y_of d p k) = pid \<and>
          an_flags (a11y_of d p k) AND SCENE_FLAG_VISIBLE \<noteq> 0) (a11y_rows d) =
      filter (\<lambda>(p, k). p = pid \<and> accessible (doc_node d k)) (doc_rows d)"
    unfolding a11y_rows_def filter_filter
    by (rule filter_cong) (auto simp: accessible_def a11y_of_def Let_def)
  then show ?thesis
    using a11y_collect [OF assms] by (simp add: scene_store_a11y_children_def collectors)
qed

lemma by_role_doc:
  assumes "displays s d"
  shows "scene_store_a11y_find_by_role s role cap =
     (let l = filter (\<lambda>k. accessible (doc_node d k) \<and> nd_role (doc_node d k) = role) (preorder (dc_tree d))
      in (take cap l, length l))"
proof -
  have "filter (\<lambda>(p, k). an_flags (a11y_of d p k) AND SCENE_FLAG_VISIBLE \<noteq> 0 \<and>
          an_role (a11y_of d p k) = role) (a11y_rows d) =
      filter (\<lambda>c. accessible (doc_node d (snd c)) \<and> nd_role (doc_node d (snd c)) = role) (doc_rows d)"
    unfolding a11y_rows_def filter_filter
    by (rule filter_cong) (auto simp: accessible_def a11y_of_def Let_def)
  then show ?thesis
    using a11y_collect [OF assms]
    by (simp add: scene_store_a11y_find_by_role_def collectors Let_def
        map_snd_rows [symmetric, of _ SCENE_NO_PARENT] filter_map o_def)
qed

end
