(* ===== verification/Search.thy ===== *)
theory Search
  imports Views "HOL-Library.Sublist"
begin

text \<open>
  Text search. A node is hit by a term when one of its texts contains the term as a sublist,
  upper and lower case of ASCII letters being the same; only visible nodes are searched.
\<close>

subsection \<open>The matcher\<close>

definition fold_case :: "bytes \<Rightarrow> bytes" where
  "fold_case bs = map ascii_lower bs"

definition contains_ci :: "bytes \<Rightarrow> bytes \<Rightarrow> bool" where
  "contains_ci w text \<longleftrightarrow> sublist (fold_case w) (fold_case text)"

lemma sublist_nth:
  "sublist xs ys \<longleftrightarrow> (\<exists>i. i + length xs \<le> length ys \<and> (\<forall>j < length xs. ys ! (i + j) = xs ! j))"
proof
  assume "sublist xs ys"
  then obtain ps ss where "ys = ps @ xs @ ss" by (auto simp: sublist_def)
  then show "\<exists>i. i + length xs \<le> length ys \<and> (\<forall>j < length xs. ys ! (i + j) = xs ! j)"
    by (intro exI [of _ "length ps"]) (simp add: nth_append)
next
  assume "\<exists>i. i + length xs \<le> length ys \<and> (\<forall>j < length xs. ys ! (i + j) = xs ! j)"
  then obtain i where i: "i + length xs \<le> length ys" "\<forall>j < length xs. ys ! (i + j) = xs ! j" by blast
  then have "take (length xs) (drop i ys) = xs" by (intro nth_equalityI) auto
  then have "ys = take i ys @ xs @ drop (length xs) (drop i ys)" by (metis append_take_drop_id)
  then show "sublist xs ys" unfolding sublist_def by blast
qed

lemma ascii_ci_find_sublist:
  "ascii_ci_find h (length h) n nlen \<longleftrightarrow> contains_ci (slice n 0 nlen) h"
proof -
  let ?n = "fold_case (slice n 0 nlen)" and ?h = "fold_case h"
  have len: "length ?n = nlen" "length ?h = length h" by (simp_all add: fold_case_def)
  have nth_n: "?n ! j = ascii_lower (rd n j)" if "j < nlen" for j
    using that by (simp add: fold_case_def slice_def)
  have nth_h: "?h ! i = ascii_lower (rd h i)" if "i < length h" for i
    using that by (simp add: fold_case_def rd_in)
  consider "nlen = 0" | "nlen > length h" | "nlen \<noteq> 0" "nlen \<le> length h" by linarith
  then show ?thesis
  proof cases
    case 1
    then have "?n = []" using len by simp
    then show ?thesis using 1 by (simp add: ascii_ci_find_def contains_ci_def)
  next
    case 2
    then have "\<not> sublist ?n ?h" using len sublist_length_le by fastforce
    then show ?thesis using 2 by (simp add: ascii_ci_find_def contains_ci_def)
  next
    case 3
    have "ascii_ci_find h (length h) n nlen \<longleftrightarrow>
        (\<exists>i \<le> length h - nlen. \<forall>j < nlen. ascii_lower (rd h (i + j)) = ascii_lower (rd n j))"
      using 3 unfolding ascii_ci_find_def list_ex_iff list_all_iff set_upt Bex_def Ball_def atLeastLessThan_iff
      by (simp add: less_Suc_eq_le)
    also have "\<dots> \<longleftrightarrow> (\<exists>i. i + nlen \<le> length h \<and> (\<forall>j < nlen. ?h ! (i + j) = ?n ! j))"
      using 3 nth_n nth_h by (intro ex_cong1 conj_cong) (auto simp: le_diff_conv2)
    also have "\<dots> \<longleftrightarrow> sublist ?n ?h" by (simp add: sublist_nth len)
    finally show ?thesis by (simp add: contains_ci_def)
  qed
qed

lemma text_hits_contains:
  "text_hits nd n nlen = filter (\<lambda>t. contains_ci (slice n 0 nlen) (ts_data t)) (nd_texts nd)"
proof -
  have "contains_ci (slice n 0 nlen) h \<Longrightarrow> \<not> length h < nlen" for h
    using sublist_length_le [of "fold_case (slice n 0 nlen)" "fold_case h"]
    by (simp add: contains_ci_def fold_case_def)
  then show ?thesis
    unfolding text_hits_def ascii_ci_find_sublist by (intro filter_cong) auto
qed

subsection \<open>The hits of a document\<close>

definition node_hits :: "bytes \<Rightarrow> node \<Rightarrow> (node \<times> text_slot) list" where
  "node_hits w n =
     (if nd_flags n AND SCENE_FLAG_VISIBLE = 0 then []
      else map (Pair n) (filter (\<lambda>t. contains_ci w (ts_data t)) (nd_texts n)))"

definition doc_hits :: "doc \<Rightarrow> bytes \<Rightarrow> (node \<times> text_slot) list" where
  "doc_hits d w = concat (map (\<lambda>k. node_hits w (doc_node d k)) (preorder (dc_tree d)))"

lemma fold_hits:
  "(\<And>c x. step c x = foldl f x (g c)) \<Longrightarrow> fold step cs x = foldl f x (concat (map g cs))"
  by (induction cs arbitrary: x) simp_all

text \<open>A step on a slot is a step on what the document says of the node.\<close>

lemma doc_hits_slots:
  assumes wf: "scene_wf sc t fs"
  shows "doc_hits (doc_of sc t) w = concat (map (\<lambda>c. node_hits w (payload (cell sc c))) (preorder t))"
proof -
  have "map (\<lambda>k. node_hits w (doc_node (doc_of sc t) k)) (preorder (dc_tree (doc_of sc t))) =
      map (\<lambda>c. node_hits w (payload (cell sc c))) (preorder t)"
    unfolding preorder_slots map_map o_def using doc_attr_of [OF wf] by (intro map_cong) auto
  then show ?thesis unfolding doc_hits_def by (rule arg_cong)
qed

lemma search_hit_payload [simp]: "search_hit (payload n) t = search_hit n t"
  by (simp add: search_hit_def)

lemma search_step_hits:
  "search_step h w wl c x =
     foldl (\<lambda>(body, hits) (n, t). (body @ search_hit n t, hits + 1)) x
       (node_hits (slice w 0 wl) (payload (h c)))"
proof -
  have "search_step h w wl c x = (if nd_flags (h c) AND SCENE_FLAG_VISIBLE = 0 then x
      else foldl (\<lambda>(body, hits) t. (body @ search_hit (payload (h c)) t, hits + 1)) x
             (text_hits (h c) w wl))"
    by (cases x) (simp add: search_step_def Let_def)
  then show ?thesis
    by (simp add: node_hits_def text_hits_contains foldl_map case_prod_beta')
qed

lemma foldl_body:
  "foldl (\<lambda>(body, hits) (n, t). (body @ f n t, Suc hits)) (b, k) hs =
     (b @ concat (map (\<lambda>(n, t). f n t) hs), k + length hs)"
  by (induction hs arbitrary: b k) auto

lemma search_reply_doc:
  assumes "displays s d"
  shows "emit_search_reply s req w wl =
     store_emit s SCENE_SRV_SEARCH_RESULT
       (let hits = doc_hits d (slice w 0 (unat wl))
        in scene_put_u32 req @ scene_put_u32 (of_nat (length hits)) @
           concat (map (\<lambda>(n, t). search_hit n t) hits))"
proof -
  obtain t fs where t: "scene_wf (viewed s) t fs" "d = doc_of (viewed s) t"
    using assms by (rule viewedE)
  note w = arena_wfD(1) [OF wfD(1) [OF t(1)]]
  have "arena_walk (sc_arena (viewed s)) (search_step (ar_nodes (sc_arena (viewed s))) w (unat wl)) (\<lambda>_ x. x) x =
      foldl (\<lambda>(body, hits) (n, t). (body @ search_hit n t, hits + 1)) x (doc_hits d (slice w 0 (unat wl)))" for x
    unfolding t(2) doc_hits_slots [OF t(1)] arena_walk_visit [OF w wfD(8) [OF t(1)]] visit_enter
    by (intro fold_hits search_step_hits)
  then show ?thesis
    by (simp add: emit_search_reply_def req_arena_viewed foldl_body Let_def)
qed

text \<open>The host search fills its two arrays with the first hits and counts all.\<close>

definition capped :: "('a \<Rightarrow> 'n) \<Rightarrow> ('b \<Rightarrow> 't) \<Rightarrow> nat \<Rightarrow> nat \<Rightarrow> ('a \<times> 'b) list \<Rightarrow> nat \<times> 'n list \<times> 't list" where
  "capped f g nc tc acc = (length acc, take nc (map (f \<circ> fst) acc), take tc (map (g \<circ> snd) acc))"

lemma foldl_capped:
  fixes f g nc tc
  defines "F \<equiv> \<lambda>(k, ns, ts) (n, t). (k + 1, if k < nc then ns @ [f n] else ns, if k < tc then ts @ [g t] else ts)"
  shows "foldl F (capped f g nc tc acc) hs = capped f g nc tc (acc @ hs)"
proof (induction hs arbitrary: acc)
  case (Cons c hs)
  have "F (capped f g nc tc acc) c = capped f g nc tc (acc @ [c])"
    by (cases c) (simp add: F_def capped_def)
  then show ?case using Cons.IH [of "acc @ [c]"] by simp
qed simp

lemma host_search_doc:
  assumes "represents (st_live s) d"
  shows "scene_store_search s w wl out_cap text_cap =
     (let hits = doc_hits d (slice w 0 (unat wl))
      in (length hits, take out_cap (map (nd_id \<circ> fst) hits), take text_cap (map (ts_id \<circ> snd) hits),
          min (length hits) text_cap))"
proof -
  obtain t fs where t: "scene_wf (st_live s) t fs" "d = doc_of (st_live s) t"
    using assms unfolding represents_def by blast
  let ?h = "ar_nodes (sc_arena (st_live s))"
  let ?f = "\<lambda>(k, ns, ts) (n, t). (k + 1, if k < out_cap then ns @ [nd_id n] else ns,
      if k < text_cap then ts @ [ts_id t] else ts)"
  let ?step = "\<lambda>c x. let nd = ?h c
                 in if nd_flags nd AND SCENE_FLAG_VISIBLE = 0 then x
                    else foldl (\<lambda>(hits, nodes, texts) t.
                           (hits + 1, if hits < out_cap then nodes @ [nd_id nd] else nodes,
                            if hits < text_cap then texts @ [ts_id t] else texts))
                         x (text_hits nd w (unat wl))"
  note wf = arena_wfD(1) [OF wfD(1) [OF t(1)]]
  have "?step c x = foldl ?f x (node_hits (slice w 0 (unat wl)) (payload (?h c)))" for c x
    by (simp add: node_hits_def text_hits_contains foldl_map case_prod_beta' Let_def cong: if_cong)
  then have "arena_walk (sc_arena (st_live s)) ?step (\<lambda>_ x. x) x =
      foldl ?f x (doc_hits d (slice w 0 (unat wl)))" for x
    unfolding t(2) doc_hits_slots [OF t(1)] arena_walk_visit [OF wf wfD(8) [OF t(1)]] visit_enter
    by (intro fold_hits)
  then show ?thesis
    using foldl_capped [of out_cap nd_id text_cap ts_id "[]" "doc_hits d (slice w 0 (unat wl))"]
    unfolding capped_def by (simp add: scene_store_search_def Let_def min_def)
qed

end
