(* ===== verification/ClientParse.thy ===== *)
theory ClientParse
  imports SnapshotCorrect Client
begin

text \<open>
  The snapshot decoder of the client (\<open>scene_snapshot_parse\<close>) on a dump the store wrote: it
  yields the nodes of the document in document order with their parents, all their texts
  and the registered textures, truncated to the caller's arrays.
\<close>

subsection \<open>Offsets at 32 bits\<close>

lemma off_add: "(of_nat n :: u32) + numeral k = of_nat (n + numeral k)"
  by simp

lemma unat_off: "n \<le> length (m :: bytes) \<Longrightarrow> length m < 2 ^ 32 \<Longrightarrow> unat (of_nat n :: u32) = n"
  by (rule unat_of_nat_small) simp

lemma left_over:
  assumes "n \<le> length (m :: bytes)" "length m < 2 ^ 32"
  shows "(of_nat (length m) :: u32) - of_nat n = of_nat (length m - n)"
    and "unat ((of_nat (length m) :: u32) - of_nat n) = length m - n"
proof -
  show "(of_nat (length m) :: u32) - of_nat n = of_nat (length m - n)"
    using assms(1) by (simp add: of_nat_diff)
  then show "unat ((of_nat (length m) :: u32) - of_nat n) = length m - n"
    using unat_of_nat_small [of "length m - n", where 'a = 32] assms(2) by simp
qed

subsection \<open>Texts\<close>

definition snap_text :: "text_slot \<Rightarrow> snapshot_text" where
  "snap_text t = \<lparr>st_text_id = ts_id t, st_text_data = ts_data t\<rparr>"

lemma length_dump_text: "length (dump_text t) = 8 + length (ts_data t)"
  by (simp add: dump_text_def)

lemma dump_text_fields:
  fixes pre post t
  defines "m \<equiv> pre @ dump_text t @ post" and "n \<equiv> length pre"
  shows "scene_get_u32 m n = ts_id t" "scene_get_u32 m (n + 4) = of_nat (length (ts_data t))"
    "slice m (n + 8) (length (ts_data t)) = ts_data t"
proof -
  have "m = pre @ scene_put_u32 (ts_id t) @ (scene_put_u32 (of_nat (length (ts_data t))) @ ts_data t @ post)"
    by (simp add: m_def dump_text_def)
  then show "scene_get_u32 m n = ts_id t" by (simp only: n_def wire_simps)
  have "m = (pre @ scene_put_u32 (ts_id t)) @ scene_put_u32 (of_nat (length (ts_data t))) @ ts_data t @ post"
    by (simp add: m_def dump_text_def)
  then show "scene_get_u32 m (n + 4) = of_nat (length (ts_data t))"
    by (simp only: n_def) (rule get_put_at(2), simp)
  have "m = (pre @ scene_put_u32 (ts_id t) @ scene_put_u32 (of_nat (length (ts_data t)))) @ ts_data t @ post"
    by (simp add: m_def dump_text_def)
  then show "slice m (n + 8) (length (ts_data t)) = ts_data t"
    by (simp add: slice_inside n_def)
qed

lemma parse_texts_dump:
  fixes pre post
  assumes "m = pre @ concat (map dump_text ts) @ post" "length m < 2 ^ 32"
  shows "parse_texts m (of_nat (length m)) cap (length ts) (of_nat (length pre)) (take cap acc) (length acc) =
     Some (of_nat (length pre + length (concat (map dump_text ts))),
           take cap (acc @ map snap_text ts), length acc + length ts)"
  using assms(1)
proof (induction ts arbitrary: pre acc)
  case (Cons t ts)
  let ?n = "length pre" and ?tl = "of_nat (length (ts_data t)) :: u32"
  let ?rest = "concat (map dump_text ts) @ post"
  have m: "m = pre @ dump_text t @ ?rest" using Cons.prems by simp
  note F = dump_text_fields [of pre t ?rest, folded m]
  have lens: "?n + 8 + length (ts_data t) \<le> length m" by (simp add: m length_dump_text)
  have u: "unat (of_nat ?n :: u32) = ?n" "unat ((of_nat ?n :: u32) + 4) = ?n + 4"
    "unat ((of_nat ?n :: u32) + 8) = ?n + 8" "unat ?tl = length (ts_data t)"
    using lens assms(2) unat_of_nat_small [of "?n + 4", where 'a = 32]
      unat_of_nat_small [of "?n + 8", where 'a = 32] unat_of_nat_small [of ?n, where 'a = 32]
      unat_of_nat_small [of "length (ts_data t)", where 'a = 32] by simp_all
  have left: "unat ((of_nat (length m) :: u32) - of_nat ?n) = length m - ?n"
    using left_over(2) [of ?n m] lens assms(2) by simp
  have tl8: "unat (8 + ?tl) = 8 + length (ts_data t)"
    using unat_of_nat_small [of "8 + length (ts_data t)", where 'a = 32] lens assms(2) by simp
  have ok: "\<not> (of_nat (length m) :: u32) - of_nat ?n < 8"
    "\<not> (of_nat (length m) :: u32) - of_nat ?n < 8 + ?tl"
    using left tl8 lens by (simp_all add: word_less_nat_alt)
  have buf: "(if length acc < cap then take cap acc @ [snap_text t] else take cap acc) =
      take cap (acc @ [snap_text t])" by simp
  have off: "(of_nat ?n :: u32) + (8 + ?tl) = of_nat (length (pre @ dump_text t))"
    by (simp add: length_dump_text)
  have "parse_texts m (of_nat (length m)) cap (Suc (length ts)) (of_nat ?n) b f =
      parse_texts m (of_nat (length m)) cap (length ts) (of_nat (length (pre @ dump_text t)))
        (if f < cap then b @ [snap_text t] else b) (f + 1)" for b f
    by (simp only: parse_texts.simps Let_def u F ok if_False snap_text_def off)
  then have "parse_texts m (of_nat (length m)) cap (length (t # ts)) (of_nat ?n) (take cap acc) (length acc) =
      parse_texts m (of_nat (length m)) cap (length ts) (of_nat (length (pre @ dump_text t)))
        (take cap (acc @ [snap_text t])) (length (acc @ [snap_text t]))"
    unfolding buf [symmetric] by simp
  also have "\<dots> = Some (of_nat (length (pre @ dump_text t) + length (concat (map dump_text ts))),
      take cap ((acc @ [snap_text t]) @ map snap_text ts), length (acc @ [snap_text t]) + length ts)"
    using m by (intro Cons.IH) simp
  finally show ?case by (simp only: append_assoc map_append length_append list.map concat.simps list.size
        append_Cons append_Nil add.assoc) simp
qed simp

subsection \<open>Nodes\<close>

definition entry_head :: "u32 \<Rightarrow> node \<Rightarrow> bytes" where
  "entry_head p n =
     scene_put_u32 (nd_id n) @ scene_put_u32 p @ scene_put_u16 (nd_role n) @ [nd_flags n] @
     put_rect (nd_rect n) @ scene_put_u32 (nd_style n) @ scene_put_u32 (nd_effect n) @
     scene_put_u32 (nd_tex n) @ scene_put_u32 (of_nat (length (nd_texts n)))"

lemma dump_entry_head: "dump_entry p n = entry_head p n @ concat (map dump_text (nd_texts n))"
  by (simp add: dump_entry_def entry_head_def)

lemma length_put_rect [simp]: "length (put_rect r) = 16"
  by (simp add: put_rect_def)

lemma length_entry_head [simp]: "length (entry_head p n) = 43"
  by (simp add: entry_head_def)

lemma get_put_i32_0: "scene_get_i32 (scene_put_i32 d @ ys) 0 = d"
  using get_put_at(4) [of 0 "[]"] by simp

lemma get_Cons:
  assumes "1 \<le> off"
  shows "scene_get_u32 (x # ys) off = scene_get_u32 ys (off - 1)"
    "scene_get_i32 (x # ys) off = scene_get_i32 ys (off - 1)"
  using get_append_right [of "[x]" off ys] assms by simp_all

lemmas get_puts = get_Cons get_append_right get_put_u16_0 get_put_u32_0 get_put_i32_0 rd_append_right

text \<open>Where the fields of an entry stand.\<close>

lemma entry_fields0:
  fixes p n ys
  defines "m \<equiv> entry_head p n @ ys"
  shows "scene_get_u32 m 0 = nd_id n" "scene_get_u32 m 4 = p" "scene_get_u16 m 8 = nd_role n"
    "rd m 10 = nd_flags n" "scene_get_i32 m 11 = rx (nd_rect n)" "scene_get_i32 m 15 = ry (nd_rect n)"
    "scene_get_i32 m 19 = rw (nd_rect n)" "scene_get_i32 m 23 = rh (nd_rect n)"
    "scene_get_u32 m 27 = nd_style n" "scene_get_u32 m 31 = nd_effect n" "scene_get_u32 m 35 = nd_tex n"
    "scene_get_u32 m 39 = of_nat (length (nd_texts n))"
  by (simp_all add: m_def entry_head_def put_rect_def get_puts)

lemma entry_fields:
  fixes pre p n ys
  defines "m \<equiv> pre @ entry_head p n @ ys" and "st \<equiv> length pre"
  shows "scene_get_u32 m st = nd_id n" "scene_get_u32 m (st + 4) = p" "scene_get_u16 m (st + 8) = nd_role n"
    "rd m (st + 10) = nd_flags n" "scene_get_i32 m (st + 11) = rx (nd_rect n)"
    "scene_get_i32 m (st + 15) = ry (nd_rect n)" "scene_get_i32 m (st + 19) = rw (nd_rect n)"
    "scene_get_i32 m (st + 23) = rh (nd_rect n)" "scene_get_u32 m (st + 27) = nd_style n"
    "scene_get_u32 m (st + 31) = nd_effect n" "scene_get_u32 m (st + 35) = nd_tex n"
    "scene_get_u32 m (st + 39) = of_nat (length (nd_texts n))"
  using entry_fields0 [of p n ys] get_append_shift(2) [of pre "entry_head p n @ ys" 0]
  unfolding m_def st_def by (simp_all only: get_append_shift rd_append_shift add_0_right)

definition parsed_node :: "u32 \<Rightarrow> node \<Rightarrow> nat \<Rightarrow> snapshot_node" where
  "parsed_node p n first =
     \<lparr>sn_id = nd_id n, sn_parent = p, sn_role = nd_role n, sn_flags = nd_flags n,
      sn_rect = nd_rect n, sn_style = nd_style n, sn_effect = nd_effect n, sn_tex = nd_tex n,
      sn_texts = (if nd_texts n \<noteq> [] then Some first else None), sn_text_count = length (nd_texts n)\<rparr>"

text \<open>The nodes, each with the index of its first text in the text buffer.\<close>

fun parsed_nodes :: "nat \<Rightarrow> (u32 \<times> node) list \<Rightarrow> snapshot_node list" where
  "parsed_nodes first [] = []"
| "parsed_nodes first ((p, n) # es) =
     parsed_node p n first # parsed_nodes (first + length (nd_texts n)) es"

definition entry_texts :: "(u32 \<times> node) list \<Rightarrow> snapshot_text list" where
  "entry_texts es = concat (map (\<lambda>(p, n). map snap_text (nd_texts n)) es)"

lemma length_parsed_nodes [simp]: "length (parsed_nodes i es) = length es"
  by (induction i es rule: parsed_nodes.induct) simp_all

abbreviation entry_bytes :: "(u32 \<times> node) list \<Rightarrow> bytes" where
  "entry_bytes es \<equiv> concat (map (\<lambda>(p, n). dump_entry p n) es)"

lemma parse_node_head:
  assumes "m = pre @ entry_head p n @ ys" "length m < 2 ^ 32"
  shows "parse_node m (of_nat (length pre)) (length (nd_texts n)) first = parsed_node p n first"
    and "length (nd_texts n) < 2 ^ 32 \<Longrightarrow>
         unat (scene_get_u32 m (unat ((of_nat (length pre) :: u32) + 39))) = length (nd_texts n)"
proof -
  have lens: "length pre + 43 \<le> length m" by (simp add: assms(1))
  have u0: "unat (of_nat (length pre) :: u32) = length pre"
    using lens assms(2) unat_of_nat_small [of "length pre", where 'a = 32] by simp
  have u: "unat ((of_nat (length pre) :: u32) + numeral k) = length pre + numeral k"
    if "numeral k \<le> (43 :: nat)" for k
    using lens assms(2) unat_of_nat_small [of "length pre + numeral k", where 'a = 32] that by simp
  note F = entry_fields [of pre p n ys, folded assms(1)]
  show "parse_node m (of_nat (length pre)) (length (nd_texts n)) first = parsed_node p n first"
    by (simp add: parse_node_def parsed_node_def read_rect_def u0 u F
        F [unfolded add.commute [of "length pre"]])
  show "length (nd_texts n) < 2 ^ 32 \<Longrightarrow>
         unat (scene_get_u32 m (unat ((of_nat (length pre) :: u32) + 39))) = length (nd_texts n)"
    using unat_of_nat_small [of "length (nd_texts n)", where 'a = 32]
    by (simp add: u F F [unfolded add.commute [of "length pre"]])
qed

lemma length_texts_le: "length ts \<le> length (concat (map dump_text ts))"
  by (induction ts) (simp_all add: length_dump_text)

lemma parse_nodes_dump:
  fixes pre post
  assumes "m = pre @ entry_bytes es @ post" "length m < 2 ^ 32"
  shows "parse_nodes m (of_nat (length m)) cap tcap (length es) (of_nat (length pre))
       (take cap nacc) (take tcap tacc) (length tacc) =
     Some (of_nat (length pre + length (entry_bytes es)), take cap (nacc @ parsed_nodes (length tacc) es),
           take tcap (tacc @ entry_texts es), length tacc + length (entry_texts es))"
  using assms(1)
proof (induction es arbitrary: pre nacc tacc)
  case Nil
  then show ?case by (simp add: entry_texts_def)
next
  case (Cons e es)
  obtain p n where e: "e = (p, n)" by fastforce
  let ?texts = "concat (map dump_text (nd_texts n))" and ?rest = "entry_bytes es @ post"
  have m: "m = pre @ entry_head p n @ ?texts @ ?rest"
    using Cons.prems by (simp add: e dump_entry_head)
  have m2: "m = (pre @ entry_head p n) @ ?texts @ ?rest" by (simp add: m)
  have lens: "length pre + 43 + length ?texts \<le> length m" by (simp add: m)
  then have small: "length (nd_texts n) < 2 ^ 32"
    using length_texts_le [of "nd_texts n"] assms(2) by linarith
  note H = parse_node_head [OF m assms(2)]
  have tc: "unat (scene_get_u32 m (unat ((of_nat (length pre) :: u32) + 39))) = length (nd_texts n)"
    using H(2) small by blast
  have "unat ((of_nat (length m) :: u32) - of_nat (length pre)) = length m - length pre"
    using left_over(2) [of "length pre" m] lens assms(2) by simp
  then have ok: "\<not> (of_nat (length m) :: u32) - of_nat (length pre) < 43"
    using lens by (simp add: word_less_nat_alt)
  have off: "(of_nat (length pre) :: u32) + 43 = of_nat (length (pre @ entry_head p n))" by simp
  note T = parse_texts_dump [OF m2 assms(2), of tcap tacc]
  let ?pre' = "pre @ dump_entry p n" and ?tacc' = "tacc @ map snap_text (nd_texts n)"
  have len': "length (pre @ entry_head p n) + length ?texts = length ?pre'"
    "length tacc + length (nd_texts n) = length ?tacc'"
    by (simp_all add: dump_entry_head)
  have nodes: "(if length (take cap nacc) < cap
      then take cap nacc @ [parsed_node p n (length tacc)] else take cap nacc) =
      take cap (nacc @ [parsed_node p n (length tacc)])" by simp
  have "parse_nodes m (of_nat (length m)) cap tcap (Suc (length es)) (of_nat (length pre))
       (take cap nacc) (take tcap tacc) (length tacc) =
     parse_nodes m (of_nat (length m)) cap tcap (length es) (of_nat (length ?pre'))
       (take cap (nacc @ [parsed_node p n (length tacc)])) (take tcap ?tacc') (length ?tacc')"
    by (simp only: parse_nodes.simps Let_def ok if_False tc off T option.case prod.case H(1) nodes len')
  also have "\<dots> = Some (of_nat (length ?pre' + length (entry_bytes es)),
       take cap ((nacc @ [parsed_node p n (length tacc)]) @ parsed_nodes (length ?tacc') es),
       take tcap (?tacc' @ entry_texts es), length ?tacc' + length (entry_texts es))"
    using Cons.prems by (intro Cons.IH) (simp add: e)
  finally show ?case by (simp add: e entry_texts_def add.assoc)
qed

subsection \<open>The whole dump\<close>

lemma length_dump_tex [simp]: "length (dump_tex t) = 15"
  by (simp add: dump_tex_def)

lemma length_texes: "length (concat (map dump_tex ts)) = 15 * length ts"
  by (induction ts) simp_all

lemma length_dump_header [simp]: "length (dump_header seq n texes) = 16"
  by (simp add: dump_header_def)

lemma header_fields:
  "scene_get_u64 (dump_header seq n texes @ ys) 0 = seq"
  "scene_get_u32 (dump_header seq n texes @ ys) 8 = of_nat n"
  "scene_get_u32 (dump_header seq n texes @ ys) 12 = of_nat (length texes)"
  by (simp_all add: dump_header_def get_append_right get_put_u64_0 get_put_u32_0)

lemma tex_ref_at:
  "j < length ts \<Longrightarrow> scene_get_u32 (concat (map dump_tex ts) @ ys) (15 * j) = te_ref (ts ! j)"
proof (induction ts arbitrary: j)
  case (Cons t ts)
  show ?case
  proof (cases j)
    case 0
    then show ?thesis by (simp add: dump_tex_def get_put_u32_0)
  next
    case (Suc i)
    then show ?thesis using Cons by (simp add: get_append_right)
  qed
qed simp

lemma entries_le: "length es \<le> length (entry_bytes es)"
  by (induction es) (auto simp: dump_entry_head)

lemma parse_entries:
  fixes seq texes es
  defines "m \<equiv> entries_dump seq texes es"
  assumes len: "length m < 2 ^ 32"
  shows "scene_snapshot_parse m (of_nat (length m)) cap tcap xcap =
     Some \<lparr>ps_seq = seq, ps_tex_count = of_nat (length texes), ps_texts_used = length (entry_texts es),
           ps_count = of_nat (length es), ps_nodes = take cap (parsed_nodes 0 es),
           ps_texts = take tcap (entry_texts es), ps_texes = take xcap (map te_ref texes)\<rparr>"
proof -
  let ?hd = "dump_header seq (length es) texes" and ?tx = "concat (map dump_tex texes)"
  have m: "m = ?hd @ entry_bytes es @ ?tx" by (simp add: m_def entries_dump_def)
  define n where "n = 16 + length (entry_bytes es)"
  have lm: "length m = n + 15 * length texes" by (simp add: m n_def length_texes)
  have small: "length es < 2 ^ 32" "15 * length texes < 2 ^ 32" "length texes < 2 ^ 32"
    using entries_le [of es] len lm by (simp_all add: n_def)
  have u: "unat (of_nat (length es) :: u32) = length es" "unat (of_nat (length texes) :: u32) = length texes"
    using small unat_of_nat_small [of "length es", where 'a = 32]
      unat_of_nat_small [of "length texes", where 'a = 32] by simp_all
  have big: "\<not> (of_nat (length m) :: u32) < 16"
    using unat_off [of "length m" m] len lm by (simp add: word_less_nat_alt n_def)
  note H = header_fields [of seq "length es" texes "entry_bytes es @ ?tx", folded m]
  note P = parse_nodes_dump [OF m len, of cap tcap "[]" "[]"]
  have left: "(of_nat (length m) :: u32) - of_nat n = of_nat (15 * length texes)"
    using left_over(1) [of n m] len lm by simp
  have mul: "(of_nat (length texes) :: u32) * 15 = of_nat (15 * length texes)" by simp
  have refs: "map (\<lambda>j. scene_get_u32 m (unat ((of_nat n :: u32) + of_nat j * 15))) [0..<min xcap (length texes)] =
      take xcap (map te_ref texes)"
  proof (rule nth_equalityI)
    fix j assume "j < length (map (\<lambda>j. scene_get_u32 m (unat ((of_nat n :: u32) + of_nat j * 15)))
        [0..<min xcap (length texes)])"
    then have j: "j < xcap" "j < length texes" by simp_all
    have "unat (of_nat (n + j * 15) :: u32) = n + j * 15"
      using unat_of_nat_small [of "n + j * 15", where 'a = 32] j lm len by simp
    moreover have "scene_get_u32 m (n + j * 15) = te_ref (texes ! j)"
      using tex_ref_at [OF j(2), of "[]"] get_append_right(2) [of "?hd @ entry_bytes es" "n + j * 15" ?tx]
      by (simp add: m n_def mult.commute)
    ultimately show "map (\<lambda>j. scene_get_u32 m (unat ((of_nat n :: u32) + of_nat j * 15)))
        [0..<min xcap (length texes)] ! j = take xcap (map te_ref texes) ! j"
      using j by simp
  qed simp
  have nodes: "parse_nodes m (of_nat (length m)) cap tcap (length es) 16 [] [] 0 =
      Some (of_nat n, take cap (parsed_nodes 0 es), take tcap (entry_texts es), length (entry_texts es))"
    using P by (simp add: n_def)
  have e: "(of_nat n :: u32) + of_nat (15 * length texes) = of_nat (length m)" by (simp add: lm)
  show ?thesis
    unfolding scene_snapshot_parse_def Let_def H u nodes option.case prod.case mul left e refs
    using big by simp
qed

end
