(* ===== verification/Bounds.thy ===== *)
theory Bounds
  imports Frames
begin

text \<open>
  No read past the payload: the handlers of the store depend only on the first \<open>plen\<close> bytes
  of the memory the payload pointer leads to. The one exception is SEARCH with a payload of
  12 to 15 bytes, which is excluded by hypothesis.
\<close>

subsection \<open>Memories that agree\<close>

definition agree :: "nat \<Rightarrow> bytes \<Rightarrow> bytes \<Rightarrow> bool" where
  "agree n p q \<longleftrightarrow> (\<forall>i < n. rd p i = rd q i)"

lemma agree_sym: "agree n p q \<Longrightarrow> agree n q p"
  by (simp add: agree_def)

lemma agree_mono: "agree n p q \<Longrightarrow> m \<le> n \<Longrightarrow> agree m p q"
  by (simp add: agree_def)

lemma agree_append: "agree (length p) p (p @ ys)"
  by (simp add: agree_def)

lemma agree_drop: "agree (k + n) p q \<Longrightarrow> agree n (drop k p) (drop k q)"
  by (simp add: agree_def)

lemma agree_rd: "agree n p q \<Longrightarrow> i < n \<Longrightarrow> rd p i = rd q i"
  by (simp add: agree_def)

lemma agree_u16: "agree n p q \<Longrightarrow> off + 2 \<le> n \<Longrightarrow> scene_get_u16 p off = scene_get_u16 q off"
  by (simp add: scene_get_u16_def agree_def)

lemma agree_u32: "agree n p q \<Longrightarrow> off + 4 \<le> n \<Longrightarrow> scene_get_u32 p off = scene_get_u32 q off"
  by (simp add: scene_get_u32_def agree_def)

lemma agree_i32: "agree n p q \<Longrightarrow> off + 4 \<le> n \<Longrightarrow> scene_get_i32 p off = scene_get_i32 q off"
  by (simp add: scene_get_i32_def agree_u32)

lemma agree_u64: "agree n p q \<Longrightarrow> off + 8 \<le> n \<Longrightarrow> scene_get_u64 p off = scene_get_u64 q off"
  by (simp add: scene_get_u64_def agree_def upt_rec)

lemma agree_rect: "agree n p q \<Longrightarrow> off + 16 \<le> n \<Longrightarrow> get_rect p off = get_rect q off"
  using agree_i32 [of n p q] by (simp add: get_rect_def)

lemma agree_slice: "agree n p q \<Longrightarrow> off + k \<le> n \<Longrightarrow> slice p off k = slice q off k"
  by (simp add: slice_def agree_def)

lemmas agree_reads = agree_rd agree_u16 agree_u32 agree_i32 agree_u64 agree_rect

subsection \<open>Operations\<close>

lemma op_create_local: "agree (unat plen) p q \<Longrightarrow> op_create a p plen = op_create a q plen"
  using agree_reads(1,3) [of 35 p q] agree_u16 [of 35 p q 16] agree_rect [of 35 p q 18]
  by (cases "plen = 35") (simp_all add: op_create_def)

lemma op_destroy_local: "agree (unat plen) p q \<Longrightarrow> op_destroy a p plen = op_destroy a q plen"
  using agree_u32 [of 12 p q 8] by (cases "plen = 12") (simp_all add: op_destroy_def)

lemma split_length:
  assumes "\<not> plen < k" "plen = k + (n :: u32)"
  shows "unat plen = unat k + unat n"
proof -
  have "k \<le> plen" using assms(1) by simp
  moreover have "n = plen - k" using assms(2) by simp
  ultimately have "unat n = unat plen - unat k" by (simp add: unat_sub)
  with \<open>k \<le> plen\<close> show ?thesis by (simp add: word_le_nat_alt)
qed

lemma text_set_local:
  assumes "slice p off (unat len) = slice q off (unat len)"
  shows "text_set a nid tid p off len = text_set a nid tid q off len"
  unfolding text_set_def assms ..

lemma op_set_text_local: "agree (unat plen) p q \<Longrightarrow> op_set_text a p plen = op_set_text a q plen"
proof (cases "plen < 20")
  case False
  assume pq: "agree (unat plen) p q"
  have "20 \<le> unat plen" using False by (simp add: word_less_nat_alt)
  then have eq: "scene_get_u32 p 8 = scene_get_u32 q 8" "scene_get_u32 p 12 = scene_get_u32 q 12"
    "scene_get_u32 p 16 = scene_get_u32 q 16"
    using agree_u32 [OF pq] by simp_all
  have "plen = 20 + n \<Longrightarrow> slice p 20 (unat n) = slice q 20 (unat n)" for n
    using split_length [OF False, of n] agree_slice [OF pq, of 20 "unat n"] by simp
  then have "plen = 20 + n \<Longrightarrow> text_set a nid tid p 20 n = text_set a nid tid q 20 n" for nid tid n
    by (intro text_set_local)
  then show ?thesis
    by (cases "plen = 20 + scene_get_u32 q 16") (simp_all add: op_set_text_def eq Let_def)
qed (simp add: op_set_text_def)

lemma op_set_local:
  assumes "agree (unat plen) p q"
  shows "op_set_rect a p plen = op_set_rect a q plen" "op_set_flags a p plen = op_set_flags a q plen"
    "op_set_style a p plen = op_set_style a q plen" "op_set_effect a p plen = op_set_effect a q plen"
    "op_set_texture a p plen = op_set_texture a q plen"
proof -
  show "op_set_rect a p plen = op_set_rect a q plen"
    using assms agree_u32 [of 28 p q 8] agree_rect [of 28 p q 12]
    by (cases "plen = 28") (simp_all add: op_set_rect_def cong: option.case_cong)
  show "op_set_flags a p plen = op_set_flags a q plen"
    using assms agree_u32 [of 13 p q 8] agree_rd [of 13 p q 12]
    by (cases "plen = 13") (simp_all add: op_set_flags_def cong: option.case_cong)
  show "op_set_style a p plen = op_set_style a q plen" "op_set_effect a p plen = op_set_effect a q plen"
    using assms agree_u32 [of 16 p q 8] agree_u32 [of 16 p q 12]
    by (cases "plen = 16"; simp add: op_set_style_def op_set_effect_def cong: option.case_cong)+
  show "op_set_texture a p plen = op_set_texture a q plen"
  proof (cases "plen = 34")
    case True
    then have pq: "agree 34 p q" using assms by simp
    have eq: "scene_get_u32 p 8 = scene_get_u32 q 8" "scene_get_u32 p 12 = scene_get_u32 q 12"
      "get_rect p 16 = get_rect q 16" "rd p 32 = rd q 32" "rd p 33 = rd q 33"
      using agree_u32 [OF pq] agree_rect [OF pq] agree_rd [OF pq] by simp_all
    show ?thesis unfolding op_set_texture_def eq ..
  qed (simp add: op_set_texture_def)
qed

lemma op_focus_local:
  assumes "agree (unat plen) p q"
  shows "op_focus a p plen = op_focus a q plen" "op_focus_next a p plen = op_focus_next a q plen"
proof -
  show "op_focus a p plen = op_focus a q plen"
    using assms agree_u32 [of 12 p q 8] by (cases "plen = 12") (simp_all add: op_focus_def)
  have "plen = 9 \<Longrightarrow> rd p 8 = rd q 8" using assms agree_rd [of 9 p q 8] by simp
  then show "op_focus_next a p plen = op_focus_next a q plen"
    by (cases "plen = 9") (simp_all add: op_focus_next_def)
qed

lemma apply_op_local:
  assumes "agree (unat plen) p q"
  shows "apply_op a opcode p plen = apply_op a opcode q plen"
  using op_create_local [OF assms] op_destroy_local [OF assms] op_set_text_local [OF assms]
    op_set_local [OF assms] op_focus_local [OF assms]
  by (simp add: apply_op_def)

subsection \<open>Ingest\<close>

lemma log_append_local:
  "agree (unat plen) p q \<Longrightarrow> log_append s opcode p plen = log_append s opcode q plen"
  using agree_slice [of "unat plen" p q 0 "unat plen"] by (simp add: log_append_def)

lemma logged_local:
  assumes "agree (unat plen) p q" "\<And>s'. k s' = k' s'"
  shows "logged s opcode p plen k = logged s opcode q plen k'"
  unfolding logged_def log_append_local [OF assms(1)] assms(2) ..

lemma macro_capture_local:
  assumes "agree (unat plen) p q" "opcode = SCENE_OP_CREATE_NODE \<Longrightarrow> plen = 35"
  shows "macro_capture s i opcode p plen = macro_capture s i opcode q plen"
proof -
  have "capture_target s opcode p plen = capture_target s opcode q plen"
  proof (cases "opcode = SCENE_OP_CREATE_NODE")
    case True
    then show ?thesis
      using assms agree_u32 [of 35 p q 12] agree_rect [of 35 p q 18]
      by (simp add: capture_target_def)
  next
    case False
    have "\<not> plen < 12 \<Longrightarrow> 12 \<le> unat plen" by (simp add: word_less_nat_alt)
    then show ?thesis
      using False agree_u32 [OF assms(1), of 8] by (simp add: capture_target_def)
  qed
  note target = this
  have sl: "slice p 0 (unat plen) = slice q 0 (unat plen)"
    using agree_slice [OF assms(1), of 0 "unat plen"] by simp
  show ?thesis unfolding macro_capture_def target sl ..
qed

lemma op_create_length: "op_create a p plen = (OpOk, a') \<Longrightarrow> plen = 35"
  by (auto simp: op_create_def split: if_splits)

lemma ingest_mutation_local:
  assumes "agree (unat plen) p q"
  shows "ingest_mutation s seq opcode p plen = ingest_mutation s seq opcode q plen"
proof (cases "st_mode s = SCENE_MODE_REPLAY")
  case False
  obtain st a where op: "apply_op (live_ctx s True) opcode p plen = (st, a)" by fastforce
  then have op': "apply_op (live_ctx s True) opcode q plen = (st, a)"
    by (simp add: apply_op_local [OF assms, symmetric])
  show ?thesis
  proof (cases st)
    case OpOk
    have "opcode = SCENE_OP_CREATE_NODE \<Longrightarrow> plen = 35"
      using op OpOk op_create_length by (simp add: apply_op_def)
    then have capture: "macro_capture s' i opcode p plen = macro_capture s' i opcode q plen" for s' i
      using macro_capture_local [OF assms] by blast
    show ?thesis
      unfolding ingest_mutation_def op op' OpOk capture
        logged_local [OF assms, where k = ok and k' = ok, OF refl] ..
  qed (use False op op' in \<open>simp add: ingest_mutation_def\<close>)
qed (simp add: ingest_mutation_def)

lemma ingest_fixed_local:
  assumes "agree (unat plen) p q"
  shows "ingest_ack s p plen = ingest_ack s q plen" "ingest_present s now p plen = ingest_present s now q plen"
    "ingest_ping s p plen = ingest_ping s q plen" "ingest_seek s p plen = ingest_seek s q plen"
    "ingest_snapshot s p plen = ingest_snapshot s q plen" "ingest_capture s p plen = ingest_capture s q plen"
    "ingest_macro_begin s p plen = ingest_macro_begin s q plen"
    "ingest_macro_end s p plen = ingest_macro_end s q plen"
    "ingest_exec_macro s seq p plen = ingest_exec_macro s seq q plen"
    "ingest_set_input_mode s p plen = ingest_set_input_mode s q plen"
proof -
  note L = logged_local [OF assms, OF refl]
  have len16: "ingest_ack s p plen = ingest_ack s q plen" "ingest_present s now p plen = ingest_present s now q plen"
    "ingest_ping s p plen = ingest_ping s q plen" "ingest_seek s p plen = ingest_seek s q plen"
    if "plen = 16"
  proof -
    have eq: "scene_get_u64 p 0 = scene_get_u64 q 0" "scene_get_u64 p 8 = scene_get_u64 q 8"
      using assms agree_u64 [of 16 p q] that by simp_all
    show "ingest_ack s p plen = ingest_ack s q plen" unfolding ingest_ack_def eq L ..
    show "ingest_present s now p plen = ingest_present s now q plen" unfolding ingest_present_def eq L ..
    show "ingest_ping s p plen = ingest_ping s q plen" unfolding ingest_ping_def eq L ..
    show "ingest_seek s p plen = ingest_seek s q plen" unfolding ingest_seek_def eq L ..
  qed
  have len12: "ingest_snapshot s p plen = ingest_snapshot s q plen" "ingest_capture s p plen = ingest_capture s q plen"
    "ingest_macro_begin s p plen = ingest_macro_begin s q plen"
    "ingest_macro_end s p plen = ingest_macro_end s q plen"
    "ingest_exec_macro s seq p plen = ingest_exec_macro s seq q plen" if "plen = 12"
  proof -
    have eq: "scene_get_u32 p 8 = scene_get_u32 q 8" using assms agree_u32 [of 12 p q 8] that by simp
    show "ingest_snapshot s p plen = ingest_snapshot s q plen" unfolding ingest_snapshot_def eq L ..
    show "ingest_capture s p plen = ingest_capture s q plen" unfolding ingest_capture_def eq L ..
    show "ingest_macro_begin s p plen = ingest_macro_begin s q plen" unfolding ingest_macro_begin_def eq L ..
    show "ingest_macro_end s p plen = ingest_macro_end s q plen" unfolding ingest_macro_end_def eq L ..
    show "ingest_exec_macro s seq p plen = ingest_exec_macro s seq q plen" unfolding ingest_exec_macro_def eq L ..
  qed
  show "ingest_set_input_mode s p plen = ingest_set_input_mode s q plen"
  proof (cases "plen = 9")
    case True
    then have eq: "rd p 8 = rd q 8" using assms agree_rd [of 9 p q 8] by simp
    show ?thesis unfolding ingest_set_input_mode_def eq L ..
  qed (simp add: ingest_set_input_mode_def)
  show "ingest_ack s p plen = ingest_ack s q plen"
    by (cases "plen = 16") (rule len16(1), assumption, simp add: ingest_ack_def)
  show "ingest_present s now p plen = ingest_present s now q plen"
    by (cases "plen = 16") (rule len16(2), assumption, simp add: ingest_present_def)
  show "ingest_ping s p plen = ingest_ping s q plen"
    by (cases "plen = 16") (rule len16(3), assumption, simp add: ingest_ping_def)
  show "ingest_seek s p plen = ingest_seek s q plen"
    by (cases "plen = 16") (rule len16(4), assumption, simp add: ingest_seek_def)
  show "ingest_snapshot s p plen = ingest_snapshot s q plen"
    by (cases "plen = 12") (rule len12(1), assumption, simp add: ingest_snapshot_def)
  show "ingest_capture s p plen = ingest_capture s q plen"
    by (cases "plen = 12") (rule len12(2), assumption, simp add: ingest_capture_def)
  show "ingest_macro_begin s p plen = ingest_macro_begin s q plen"
    by (cases "plen = 12") (rule len12(3), assumption, simp add: ingest_macro_begin_def)
  show "ingest_macro_end s p plen = ingest_macro_end s q plen"
    by (cases "plen = 12") (rule len12(4), assumption, simp add: ingest_macro_end_def)
  show "ingest_exec_macro s seq p plen = ingest_exec_macro s seq q plen"
    by (cases "plen = 12") (rule len12(5), assumption, simp add: ingest_exec_macro_def)
qed

lemma ingest_import_local:
  assumes "agree (unat plen) p q"
  shows "ingest_import_texture s p plen = ingest_import_texture s q plen"
proof (cases "plen < 16")
  case False
  then have "16 \<le> unat plen" by (simp add: word_less_nat_alt)
  then show ?thesis using agree_u32 [OF assms, of 12] by (simp add: ingest_import_texture_def)
qed (simp add: ingest_import_texture_def)

lemma search_reply_local:
  assumes "agree n p q" "unat tlen \<le> n"
  shows "emit_search_reply s req p tlen = emit_search_reply s req q tlen"
proof -
  have find: "ascii_ci_find h hl p (unat tlen) = ascii_ci_find h hl q (unat tlen)" for h hl
    using assms by (auto simp: ascii_ci_find_def agree_def list_all_iff intro!: list.pred_cong)
  have hits: "text_hits nd p (unat tlen) = text_hits nd q (unat tlen)" for nd
    unfolding text_hits_def find ..
  have step: "search_step h p (unat tlen) = search_step h q (unat tlen)" for h
    unfolding search_step_def hits ..
  show ?thesis unfolding emit_search_reply_def step ..
qed

lemma ingest_search_local:
  assumes pq: "agree (unat plen) p q" and len: "plen < 12 \<or> 16 \<le> plen"
  shows "ingest_search s p plen = ingest_search s q plen"
proof (cases "plen < 12")
  case False
  then have "16 \<le> plen" using len by blast
  then have ge: "\<not> plen < 16" "16 \<le> unat plen" by (rule leD, simp add: word_le_nat_alt)
  let ?t = "scene_get_u32 p 12"
  have eq: "scene_get_u32 q 8 = scene_get_u32 p 8" "scene_get_u32 q 12 = ?t"
    using agree_u32 [OF pq] ge(2) by simp_all
  show ?thesis
  proof (cases "plen = 16 + ?t")
    case True
    have t: "unat plen = 16 + unat ?t" using split_length [OF ge(1) True] by simp
    have "agree (unat ?t) (drop 16 p) (drop 16 q)" by (rule agree_drop) (use pq t in simp)
    then have rep: "emit_search_reply s' r (drop 16 p) ?t = emit_search_reply s' r (drop 16 q) ?t" for s' r
      by (rule search_reply_local) simp
    show ?thesis
      unfolding ingest_search_def Let_def eq rep logged_local [OF pq, OF refl] ..
  next
    case False
    then show ?thesis by (simp add: ingest_search_def eq)
  qed
qed (simp add: ingest_search_def)

theorem ingest_local:
  assumes pq: "agree (unat plen) p q" and srch: "opcode = SCENE_OP_SEARCH \<Longrightarrow> plen < 12 \<or> 16 \<le> plen"
  shows "scene_store_ingest s now opcode p plen = scene_store_ingest s now opcode q plen"
proof -
  have seq: "\<not> plen < 8 \<Longrightarrow> scene_get_u64 p 0 = scene_get_u64 q 0"
    using agree_u64 [OF pq, of 0] by (simp add: word_less_nat_alt)
  have switch: "ingest_switch s' now sq opcode p plen = ingest_switch s' now sq opcode q plen" for s' sq
    unfolding ingest_switch_def
    using ingest_mutation_local [OF pq] ingest_fixed_local [OF pq] ingest_import_local [OF pq]
      ingest_search_local [OF pq srch] by simp
  note ack = ingest_fixed_local(1) [OF pq]
  show ?thesis
  proof (cases "plen < 8")
    case True
    then show ?thesis by (simp add: scene_store_ingest_def ack)
  next
    case False
    show ?thesis unfolding scene_store_ingest_def switch ack seq [OF False] ..
  qed
qed

end
