(* ===== verification/FeedChunks.thy ===== *)
theory FeedChunks
  imports Server Bounds
begin

text \<open>
  Reassembly: the outcome of feeding a stream to the server does not depend on how the
  transport cuts it. \<open>serve\<close> is the loop of \<open>scene_server_feed\<close> on the list of the bytes not
  consumed yet, without the offset; the feed of the code is shown to be \<open>serve\<close> on what was
  left over followed by what came in.
\<close>

subsection \<open>The loop on the pending bytes\<close>

definition clear_in :: "scene_server \<Rightarrow> scene_server" where
  "clear_in sv = sv\<lparr>sv_in := [], sv_off := 0\<rparr>"

function serve :: "importer option \<Rightarrow> (u64 \<Rightarrow> u64) \<Rightarrow> bytes \<Rightarrow> scene_server \<Rightarrow> int \<times> scene_server" where
  "serve import_cb clk m sv =
     (if length m < SCENE_HEADER_SIZE then (0, sv\<lparr>sv_in := m, sv_off := 0\<rparr>)
      else
        let plen = scene_get_u32 m 8
        in if plen > max_record_length (st_lim (sv_store sv))
           then server_fail (clear_in sv) SCENE_ERR_LIMIT ''record exceeds limit''
           else if length m < 16 + unat plen then (0, sv\<lparr>sv_in := m, sv_off := 0\<rparr>)
           else case feed_frame import_cb clk (clear_in sv) m plen of
             Inl r \<Rightarrow> r
           | Inr sv1 \<Rightarrow> serve import_cb clk (drop (16 + unat plen) m) sv1)"
  by pat_completeness auto

termination
  by (relation "measure (\<lambda>(_, _, m, _). length m)") auto

declare serve.simps [simp del]

text \<open>Two results are the same when they agree up to the buffer of a dead server and the
  representation of the pending bytes.\<close>

definition pending_in :: "scene_server \<Rightarrow> bytes" where
  "pending_in sv = drop (sv_off sv) (sv_in sv)"

definition norm_result :: "int \<times> scene_server \<Rightarrow> int \<times> scene_server \<times> bytes" where
  "norm_result = (\<lambda>(r, sv). (r, clear_in sv, if r = 0 then pending_in sv else []))"

subsection \<open>One frame\<close>

definition with_in :: "bytes \<Rightarrow> nat \<Rightarrow> scene_server \<Rightarrow> scene_server" where
  "with_in b off sv = sv\<lparr>sv_in := b, sv_off := off\<rparr>"

lemma with_in_sel [simp]:
  "sv_store (with_in b off sv) = sv_store sv" "sv_ghosted (with_in b off sv) = sv_ghosted sv"
  "sv_dead (with_in b off sv) = sv_dead sv"
  "with_in b off (sv\<lparr>sv_store := s\<rparr>) = (with_in b off sv)\<lparr>sv_store := s\<rparr>"
  "with_in b off (sv\<lparr>sv_dead := x\<rparr>) = (with_in b off sv)\<lparr>sv_dead := x\<rparr>"
  "with_in b off (sv\<lparr>sv_ghosted := x\<rparr>) = (with_in b off sv)\<lparr>sv_ghosted := x\<rparr>"
  "with_in b off (with_in b' off' sv) = with_in b off sv"
  "clear_in (with_in b off sv) = clear_in sv" "with_in b off (clear_in sv) = with_in b off sv"
  "sv_in (with_in b off sv) = b" "sv_off (with_in b off sv) = off"
  by (simp_all add: with_in_def clear_in_def)

definition lift_in :: "bytes \<Rightarrow> nat \<Rightarrow> (int \<times> scene_server) + scene_server \<Rightarrow> (int \<times> scene_server) + scene_server" where
  "lift_in b off x = (case x of Inl (r, sv) \<Rightarrow> Inl (r, with_in b off sv) | Inr sv \<Rightarrow> Inr (with_in b off sv))"

lemma lift_in_simps [simp]:
  "lift_in b off (Inl (r, sv)) = Inl (r, with_in b off sv)" "lift_in b off (Inr sv) = Inr (with_in b off sv)"
  by (simp_all add: lift_in_def)

lemma server_fail_in: "server_fail (with_in b off sv) code msg =
    (-1, with_in b off (snd (server_fail sv code msg)))"
  by (simp add: server_fail_def)

lemma feed_rejoin_in: "feed_rejoin (with_in b off sv) f opc = lift_in b off (feed_rejoin sv f opc)"
  by (simp add: feed_rejoin_def server_fail_def split: prod.split)

lemma feed_import_in:
  "feed_import cb (with_in b off sv) f opc plen = lift_in b off (feed_import cb sv f opc plen)"
  by (simp add: feed_import_def server_fail_def scene_server_import_result_def Let_def
      split: prod.split option.split)

lemma feed_ingest_in:
  "feed_ingest clk (with_in b off sv) f opc plen = lift_in b off (feed_ingest clk sv f opc plen)"
  by (simp add: feed_ingest_def Let_def split: prod.split)

lemma bind_lift_in:
  "(\<And>sv. k (with_in b off sv) = lift_in b off (k sv)) \<Longrightarrow>
   bind_sum (lift_in b off m) k = lift_in b off (bind_sum m k)"
  by (auto simp: bind_sum_def lift_in_def split: sum.split)

lemma feed_frame_in:
  "feed_frame cb clk (with_in b off sv) f plen = lift_in b off (feed_frame cb clk sv f plen)"
  unfolding feed_frame_def Let_def server_fail_in feed_rejoin_in
  by (simp add: bind_lift_in feed_import_in feed_ingest_in server_fail_def)

text \<open>A frame that does not make a handler look past it.\<close>

definition frame_ok :: "bytes \<Rightarrow> bool" where
  "frame_ok f \<longleftrightarrow>
     (scene_get_u16 f 6 = SCENE_OP_SEARCH \<longrightarrow> scene_get_u32 f 8 < 12 \<or> 16 \<le> scene_get_u32 f 8)"

lemma unat_16_plus: "unat (16 + plen :: u32) \<le> 16 + unat plen"
  using unat_plus_if' [of "16 :: u32" plen] by (auto split: if_splits)

lemma frame_hash_local: "agree n f g \<Longrightarrow> m \<le> n \<Longrightarrow> frame_hash f m = frame_hash g m"
  unfolding frame_hash_def by (intro foldl_cong) (auto simp: agree_def)

lemma frame_check_local:
  assumes "agree (16 + unat plen) f g" "fh_length h = plen"
  shows "scene_frame_check h f (16 + plen) = scene_frame_check h g (16 + plen)"
  using frame_hash_local [OF assms(1) unat_16_plus] assms(2)
  by (simp add: scene_frame_check_def Let_def)

lemma feed_import_local:
  assumes fg: "agree (16 + unat plen) f g"
  shows "feed_import cb sv f opc plen = feed_import cb sv g opc plen"
proof (cases "plen < 16")
  case False
  then have ge: "16 \<le> unat plen" by (simp add: word_less_nat_alt)
  have eq: "scene_get_u32 f (16 + 12) = scene_get_u32 g (16 + 12)"
    "scene_get_u32 f (16 + 8) = scene_get_u32 g (16 + 8)"
    by (rule agree_u32 [OF fg]; use ge in simp)+
  have sl: "slice f 32 (unat t) = slice g 32 (unat t)" if "plen = 16 + t" for t
    using split_length [OF False that] by (intro agree_slice [OF fg]) simp
  show ?thesis
  proof (cases "plen = 16 + scene_get_u32 g (16 + 12)")
    case True
    show ?thesis unfolding feed_import_def Let_def eq sl [OF True] ..
  next
    case False
    then show ?thesis by (simp add: feed_import_def eq [simplified])
  qed
qed (simp add: feed_import_def)

lemma feed_frame_local:
  assumes fg: "agree (16 + unat plen) f g" and ghost: "\<not> sv_ghosted sv"
    and plen: "plen = scene_get_u32 f 8" and ok: "frame_ok f"
  shows "feed_frame cb clk sv f plen = feed_frame cb clk sv g plen"
proof -
  have hd: "scene_get_u32 f 0 = scene_get_u32 g 0" "scene_get_u16 f 4 = scene_get_u16 g 4"
    "scene_get_u16 f 6 = scene_get_u16 g 6" "scene_get_u32 f 12 = scene_get_u32 g 12"
    using agree_u32 [OF fg] agree_u16 [OF fg] by simp_all
  have re: "feed_rejoin sv f opc = Inr sv" "feed_rejoin sv g opc = Inr sv" for opc
    using ghost by (simp_all add: feed_rejoin_def)
  have pl: "agree (unat plen) (drop 16 f) (drop 16 g)" by (rule agree_drop [OF fg])
  have "scene_get_u16 g 6 = SCENE_OP_SEARCH \<Longrightarrow> plen < 12 \<or> 16 \<le> plen"
    using ok plen hd(3) by (simp add: frame_ok_def)
  then have ing: "scene_store_ingest st now (scene_get_u16 g 6) (drop 16 f) plen =
      scene_store_ingest st now (scene_get_u16 g 6) (drop 16 g) plen" for st now
    by (intro ingest_local [OF pl]) blast
  let ?h = "\<lparr>fh_magic = scene_get_u32 g 0, fh_version = scene_get_u16 g 4,
             fh_opcode = scene_get_u16 g 6, fh_length = plen, fh_checksum = scene_get_u32 g 12\<rparr>"
  have chk: "scene_frame_check ?h f (16 + plen) = scene_frame_check ?h g (16 + plen)"
    by (rule frame_check_local [OF fg]) simp
  show ?thesis
    unfolding feed_frame_def Let_def hd re bind_sum_def sum.case scene_frame_header.simps
      feed_import_local [OF fg] feed_ingest_def ing chk ..
qed

lemma feed_frame_ghost:
  assumes "feed_frame cb clk sv f plen = Inr sv1" "\<not> sv_ghosted sv"
  shows "\<not> sv_ghosted sv1"
  using assms
  by (auto simp: feed_frame_def feed_rejoin_def bind_sum_def feed_import_def feed_ingest_def
      scene_server_import_result_def Let_def split: if_splits sum.splits prod.splits option.splits)

lemma feed_frame_fails:
  assumes "feed_frame cb clk sv f plen = Inl (r, sv1)"
  shows "r \<noteq> 0" "sv_dead sv1"
  using assms
  by (auto simp: feed_frame_def feed_rejoin_def bind_sum_def feed_import_def feed_ingest_def server_fail_def
      scene_server_import_result_def Let_def split: if_splits sum.splits prod.splits option.splits)

subsection \<open>The loop of the code\<close>

lemma pending_with_in [simp]: "pending_in (with_in b off sv) = drop off b"
  by (simp add: pending_in_def)

lemma norm_result_in [simp]: "r \<noteq> 0 \<Longrightarrow> norm_result (r, with_in b off sv) = norm_result (r, sv)"
  by (simp add: norm_result_def)

lemma with_in_eq: "sv\<lparr>sv_in := b, sv_off := off\<rparr> = with_in b off sv"
  by (simp add: with_in_def)

lemma serve_in: "serve cb clk m (with_in b off sv) = serve cb clk m sv"
proof -
  have "clear_in (with_in b off sv) = clear_in sv" by simp
  then show ?thesis by (subst (1 2) serve.simps) (simp add: with_in_eq Let_def)
qed

lemma feed_loop_serve:
  "off \<le> length buf \<Longrightarrow>
   norm_result (feed_loop cb clk buf off sv) = norm_result (serve cb clk (drop off buf) sv)"
proof (induction cb clk buf off sv rule: feed_loop.induct)
  case (1 cb clk buf off sv)
  note [simp del] = get_drop
  let ?m = "drop off buf"
  let ?plen = "scene_get_u32 ?m 8"
  consider "length ?m < 16" | "\<not> length ?m < 16" "?plen > max_record_length (st_lim (sv_store sv))"
    | "\<not> length ?m < 16" "\<not> ?plen > max_record_length (st_lim (sv_store sv))" "length ?m < 16 + unat ?plen"
    | "\<not> length ?m < 16" "\<not> ?plen > max_record_length (st_lim (sv_store sv))" "\<not> length ?m < 16 + unat ?plen"
    by blast
  then show ?case
  proof cases
    case 1
    then show ?thesis
      by (subst feed_loop.simps, subst serve.simps)
        (simp add: with_in_eq norm_result_def pending_in_def)
  next
    case 2
    then show ?thesis
      by (subst feed_loop.simps, subst serve.simps)
        (simp add: with_in_eq server_fail_in Let_def, simp add: server_fail_def norm_result_def clear_in_def with_in_def)
  next
    case 3
    then show ?thesis
      by (subst feed_loop.simps, subst serve.simps)
        (simp add: with_in_eq norm_result_def pending_in_def Let_def)
  next
    case 4
    let ?tot = "16 + unat ?plen"
    have tot: "off + ?tot \<le> length buf" using 4 "1.prems" by simp
    show ?thesis
    proof (cases "feed_frame cb clk sv ?m ?plen")
      case (Inl e)
      obtain r sv1 where e: "e = (r, sv1)" by fastforce
      have f: "feed_frame cb clk (with_in b o' sv) ?m ?plen = Inl (r, with_in b o' sv1)" for b o'
        by (simp add: feed_frame_in Inl e)
      have c: "clear_in sv = with_in [] 0 sv" by (simp add: clear_in_def with_in_def)
      have "feed_loop cb clk buf off sv = (r, with_in buf off sv1)"
        using 4 by (subst feed_loop.simps) (simp add: with_in_eq f Let_def)
      moreover have "serve cb clk ?m sv = (r, with_in [] 0 sv1)"
        using 4 by (subst serve.simps) (simp add: f c Let_def)
      ultimately show ?thesis using feed_frame_fails(1) [OF Inl [unfolded e]] by simp
    next
      case (Inr sv1)
      have f: "feed_frame cb clk (with_in b o' sv) ?m ?plen = Inr (with_in b o' sv1)" for b o'
        by (simp add: feed_frame_in Inr)
      have c: "clear_in sv = with_in [] 0 sv" by (simp add: clear_in_def with_in_def)
      have srv: "serve cb clk ?m sv = serve cb clk (drop (off + ?tot) buf) sv1"
        using 4 by (subst serve.simps) (simp add: f c serve_in Let_def add.commute)
      show ?thesis
      proof (cases "off + ?tot = length buf")
        case True
        have "feed_loop cb clk buf off sv = feed_loop cb clk [] 0 (with_in buf off sv1)"
          using 4 True by (subst feed_loop.simps) (simp add: with_in_eq f Let_def)
        moreover have "norm_result (feed_loop cb clk [] 0 (with_in buf off sv1)) =
            norm_result (serve cb clk [] sv1)"
          by (subst feed_loop.simps, subst serve.simps) (simp add: with_in_eq norm_result_def)
        ultimately show ?thesis using srv True by simp
      next
        case False
        have "feed_loop cb clk buf off sv = feed_loop cb clk buf (off + ?tot) (with_in buf off sv1)"
          using 4 False by (subst feed_loop.simps) (simp add: with_in_eq f Let_def)
        moreover have "norm_result (feed_loop cb clk buf (off + ?tot) (with_in buf off sv1)) =
            norm_result (serve cb clk (drop (off + ?tot) buf) (with_in buf off sv1))"
        proof (rule "1.IH"(2))
          show "\<not> length buf - off < 16" using 4 by simp
          show "feed_frame cb clk (sv\<lparr>sv_in := buf, sv_off := off\<rparr>) ?m ?plen = Inr (with_in buf off sv1)"
            by (simp add: with_in_eq f)
        qed (use 4 False tot in simp_all)
        ultimately show ?thesis using srv by (simp add: serve_in)
      qed
    qed
  qed
qed

subsection \<open>More input\<close>

text \<open>Every complete frame at the head of the stream is fine; what follows the frames is free.\<close>

function well_framed :: "bytes \<Rightarrow> bool" where
  "well_framed m =
     (if length m < 16 \<or> length m < 16 + unat (scene_get_u32 m 8) then True
      else frame_ok m \<and> well_framed (drop (16 + unat (scene_get_u32 m 8)) m))"
  by pat_completeness auto

termination
  by (relation "measure length") auto

declare well_framed.simps [simp del]

lemma head_append:
  "\<not> length m < 16 \<Longrightarrow> scene_get_u32 (m @ b) 8 = scene_get_u32 m 8 \<and> frame_ok (m @ b) = frame_ok m"
  using get_u32_append_left [of 8 m b] get_u16_append_left [of 6 m b] by (simp add: frame_ok_def)

lemma well_framed_step:
  "\<not> length m < 16 \<Longrightarrow> \<not> length m < 16 + unat (scene_get_u32 m 8) \<Longrightarrow> well_framed (m @ b) \<Longrightarrow>
   frame_ok m \<and> well_framed (drop (16 + unat (scene_get_u32 m 8)) m @ b)"
  using head_append [of m b] by (subst (asm) well_framed.simps) simp

lemma well_framed_prefix: "well_framed (m @ b) \<Longrightarrow> well_framed m"
proof (induction m rule: well_framed.induct)
  case (1 m)
  show ?case
  proof (cases "length m < 16 \<or> length m < 16 + unat (scene_get_u32 m 8)")
    case True
    then show ?thesis by (subst well_framed.simps) simp
  next
    case False
    with "1.prems" well_framed_step [of m b]
    have "frame_ok m" "well_framed (drop (16 + unat (scene_get_u32 m 8)) m @ b)"
      by blast+
    with "1.IH" False show ?thesis by (subst well_framed.simps) auto
  qed
qed

lemma serve_append:
  "\<not> sv_ghosted sv \<Longrightarrow> well_framed (m @ b) \<Longrightarrow> serve cb clk m sv = (r, sv1) \<Longrightarrow>
   (r \<noteq> 0 \<longrightarrow> serve cb clk (m @ b) sv = (r, sv1)) \<and>
   (r = 0 \<longrightarrow> serve cb clk (m @ b) sv = serve cb clk (sv_in sv1 @ b) sv1 \<and> sv_off sv1 = 0 \<and>
      \<not> sv_ghosted sv1 \<and> sv_dead sv1 = sv_dead sv \<and> well_framed (sv_in sv1 @ b))"
proof (induction cb clk m sv rule: serve.induct)
  case (1 cb clk m sv)
  note [simp del] = get_drop
  let ?plen = "scene_get_u32 m 8"
  let ?max = "max_record_length (st_lim (sv_store sv))"
  consider "length m < 16 \<or> \<not> ?plen > ?max \<and> length m < 16 + unat ?plen"
    | "\<not> length m < 16" "?plen > ?max"
    | "\<not> length m < 16" "\<not> ?plen > ?max" "\<not> length m < 16 + unat ?plen"
    by blast
  then show ?case
  proof cases
    case 1
    then have "serve cb clk m sv = (0, with_in m 0 sv)"
      by (subst serve.simps) (auto simp: with_in_eq Let_def)
    then have eq: "r = 0" "sv1 = with_in m 0 sv" using "1.prems"(3) by simp_all
    show ?thesis unfolding eq serve_in using "1.prems"(1,2) by simp
  next
    case 2
    then have "serve cb clk m sv = server_fail (clear_in sv) SCENE_ERR_LIMIT ''record exceeds limit''"
      "serve cb clk (m @ b) sv = server_fail (clear_in sv) SCENE_ERR_LIMIT ''record exceeds limit''"
      using head_append [of m b]
      by (subst serve.simps, simp add: Let_def)+
    with "1.prems" show ?thesis by (auto simp: server_fail_def)
  next
    case 3
    let ?tot = "16 + unat ?plen"
    have ok: "frame_ok m" "well_framed (drop ?tot m @ b)"
      using well_framed_step [OF 3(1,3) "1.prems"(2)] by simp_all
    have "agree ?tot m (m @ b)"
      by (rule agree_mono [OF agree_append]) (use 3(3) in linarith)
    then have fr: "feed_frame cb clk (clear_in sv) (m @ b) ?plen = feed_frame cb clk (clear_in sv) m ?plen"
      using feed_frame_local [of ?plen m "m @ b" "clear_in sv"] "1.prems"(1) ok(1)
      by (simp add: clear_in_def)
    have srv: "serve cb clk m sv = (case feed_frame cb clk (clear_in sv) m ?plen of
        Inl r \<Rightarrow> r | Inr sv1 \<Rightarrow> serve cb clk (drop ?tot m) sv1)"
      using 3 by (subst serve.simps) (simp add: Let_def)
    have srv2: "serve cb clk (m @ b) sv = (case feed_frame cb clk (clear_in sv) m ?plen of
        Inl r \<Rightarrow> r | Inr sv1 \<Rightarrow> serve cb clk (drop ?tot m @ b) sv1)"
      using 3 head_append [of m b]
      by (subst serve.simps) (simp add: Let_def fr split: sum.split)
    show ?thesis
    proof (cases "feed_frame cb clk (clear_in sv) m ?plen")
      case (Inl e)
      then show ?thesis
        using "1.prems"(3) feed_frame_fails(1) [of cb clk "clear_in sv" m ?plen r sv1] srv srv2 by simp
    next
      case (Inr sv2)
      have g: "\<not> sv_ghosted sv2"
        using feed_frame_ghost [OF Inr] "1.prems"(1) by (simp add: clear_in_def)
      have d: "sv_dead sv2 = sv_dead sv"
        using Inr by (auto simp: clear_in_def feed_frame_def feed_rejoin_def bind_sum_def feed_import_def
            feed_ingest_def scene_server_import_result_def Let_def
            split: if_splits sum.splits prod.splits option.splits)
      have "serve cb clk (drop ?tot m) sv2 = (r, sv1)" using srv "1.prems"(3) Inr by simp
      from "1.IH" [OF 3(1) refl 3(2,3) Inr g ok(2) this] show ?thesis
        using srv2 Inr d by simp
    qed
  qed
qed

subsection \<open>Feeding\<close>

definition feed :: "importer option \<Rightarrow> (u64 \<Rightarrow> u64) \<Rightarrow> scene_server \<Rightarrow> bytes \<Rightarrow> int \<times> scene_server" where
  "feed cb clk sv inp = scene_server_feed cb clk sv inp (of_nat (length inp))"

definition in_ok :: "scene_server \<Rightarrow> bool" where
  "in_ok sv \<longleftrightarrow> sv_off sv \<le> length (sv_in sv)"

lemma feed_loop_in_ok:
  "off \<le> length buf \<Longrightarrow> feed_loop cb clk buf off sv = (0, sv1) \<Longrightarrow> in_ok sv1"
proof (induction cb clk buf off sv rule: feed_loop.induct)
  case (1 cb clk buf off sv)
  note [simp del] = get_drop
  let ?m = "drop off buf"
  let ?plen = "scene_get_u32 ?m 8"
  let ?tot = "16 + unat ?plen"
  consider "length ?m < 16 \<or> \<not> ?plen > max_record_length (st_lim (sv_store sv)) \<and> length ?m < ?tot"
    | "\<not> length ?m < 16" "?plen > max_record_length (st_lim (sv_store sv))"
    | "\<not> length ?m < 16" "\<not> ?plen > max_record_length (st_lim (sv_store sv))" "\<not> length ?m < ?tot"
    by blast
  then show ?case
  proof cases
    case 1
    then have "feed_loop cb clk buf off sv = (0, with_in buf off sv)"
      by (subst feed_loop.simps) (auto simp: with_in_eq Let_def)
    then show ?thesis using "1.prems" by (simp add: in_ok_def)
  next
    case 2
    then show ?thesis
      using "1.prems"(2) by (subst (asm) feed_loop.simps) (simp add: Let_def server_fail_def)
  next
    case 3
    have tot: "off + ?tot \<le> length buf" using 3 "1.prems"(1) by simp
    show ?thesis
    proof (cases "feed_frame cb clk (sv\<lparr>sv_in := buf, sv_off := off\<rparr>) ?m ?plen")
      case (Inl e)
      then have "e = (0, sv1)"
        using 3 "1.prems"(2) by (subst (asm) feed_loop.simps) (simp add: Let_def)
      then show ?thesis using feed_frame_fails(1) Inl by blast
    next
      case (Inr sv2)
      have l: "feed_loop cb clk buf off sv = (if off + ?tot = length buf then feed_loop cb clk [] 0 sv2
          else feed_loop cb clk buf (off + ?tot) sv2)"
        using 3 Inr by (subst feed_loop.simps) (simp add: Let_def)
      show ?thesis
      proof (cases "off + ?tot = length buf")
        case True
        then have "sv1 = with_in [] 0 sv2"
          using l "1.prems"(2) by (simp add: feed_loop.simps [of cb clk "[]"] with_in_eq)
        then show ?thesis by (simp add: in_ok_def)
      next
        case False
        show ?thesis
        proof (rule "1.IH"(2))
          show "\<not> length buf - off < 16" using 3 by simp
          show "feed_frame cb clk (sv\<lparr>sv_in := buf, sv_off := off\<rparr>) ?m ?plen = Inr sv2" by (rule Inr)
          show "feed_loop cb clk buf (off + ?tot) sv2 = (0, sv1)" using l "1.prems"(2) False by simp
        qed (use 3 False tot in simp_all)
      qed
    qed
  qed
qed

lemma feed_serve:
  assumes "\<not> sv_dead sv" "in_ok sv" "inp \<noteq> []" "length inp < 2 ^ 32"
  shows "norm_result (feed cb clk sv inp) = norm_result (serve cb clk (pending_in sv @ inp) sv)"
    and "feed cb clk sv inp = (0, sv1) \<Longrightarrow> in_ok sv1"
proof -
  have len: "unat (of_nat (length inp) :: u32) = length inp"
    using assms(4) by (intro unat_of_nat_small) simp
  then have nz: "(of_nat (length inp) :: u32) \<noteq> 0" using assms(3) by (metis length_0_conv unat_0)
  obtain r sv2 where l: "feed_loop cb clk (sv_in sv @ inp) (sv_off sv) sv = (r, sv2)" by fastforce
  have f: "feed cb clk sv inp =
      (if r = 0 \<and> sv_off sv2 > 4096 then (r, with_in (drop (sv_off sv2) (sv_in sv2)) 0 sv2) else (r, sv2))"
    using assms(1) nz by (simp add: feed_def scene_server_feed_def len l with_in_eq)
  have off: "sv_off sv \<le> length (sv_in sv @ inp)" using assms(2) by (simp add: in_ok_def)
  have "norm_result (feed cb clk sv inp) = norm_result (r, sv2)"
    unfolding f by (simp add: norm_result_def pending_in_def)
  also have "\<dots> = norm_result (serve cb clk (drop (sv_off sv) (sv_in sv @ inp)) sv)"
    using feed_loop_serve [OF off, of cb clk sv] by (simp add: l)
  also have "drop (sv_off sv) (sv_in sv @ inp) = pending_in sv @ inp"
    using assms(2) by (simp add: in_ok_def pending_in_def)
  finally show "norm_result (feed cb clk sv inp) = norm_result (serve cb clk (pending_in sv @ inp) sv)" .
  show "feed cb clk sv inp = (0, sv1) \<Longrightarrow> in_ok sv1"
    using feed_loop_in_ok [OF off, of cb clk sv] l f by (auto simp: in_ok_def split: if_splits)
qed

definition accepting :: "scene_server \<Rightarrow> bool" where
  "accepting sv \<longleftrightarrow> \<not> sv_ghosted sv \<and> \<not> sv_dead sv \<and> in_ok sv"

lemma clear_in_eqD: "clear_in sv = clear_in sv' \<Longrightarrow> serve cb clk m sv = serve cb clk m sv'"
  using serve_in [of cb clk m "[]" 0] by (simp add: clear_in_def with_in_def) metis

lemma clear_in_fields:
  "clear_in sv = clear_in sv' \<Longrightarrow> sv_ghosted sv = sv_ghosted sv' \<and> sv_dead sv = sv_dead sv'"
  by (cases sv; cases sv') (simp add: clear_in_def)

text \<open>Feeding two pieces is feeding their concatenation.\<close>

lemma feed_split:
  assumes acc: "accepting sv" and wf: "well_framed (pending_in sv @ x @ y)"
    and ne: "x \<noteq> []" "y \<noteq> []" and len: "length x + length y < 2 ^ 32"
    and fx: "feed cb clk sv x = (r1, sv1)"
  shows "norm_result (feed cb clk sv (x @ y)) = norm_result (if r1 = 0 then feed cb clk sv1 y else (r1, sv1))"
    and "r1 = 0 \<Longrightarrow> accepting sv1 \<and> well_framed (pending_in sv1 @ y)"
proof -
  let ?m = "pending_in sv @ x"
  have sv: "\<not> sv_dead sv" "in_ok sv" "\<not> sv_ghosted sv" using acc by (simp_all add: accepting_def)
  obtain r s2 where s: "serve cb clk ?m sv = (r, s2)" by fastforce
  have "norm_result (r1, sv1) = norm_result (r, s2)"
    using feed_serve(1) [OF sv(1,2) ne(1), of cb clk] len fx s by simp
  then have r: "r1 = r" and c: "clear_in sv1 = clear_in s2"
    and p: "r = 0 \<Longrightarrow> pending_in sv1 = pending_in s2"
    by (auto simp: norm_result_def)
  have xy: "norm_result (feed cb clk sv (x @ y)) = norm_result (serve cb clk (?m @ y) sv)"
    using feed_serve(1) [OF sv(1,2), of "x @ y" cb clk] ne len by simp
  note sa = serve_append [OF sv(3) wf [folded append_assoc] s]
  have ok: "accepting sv1 \<and> well_framed (pending_in sv1 @ y)" if "r1 = 0"
    using sa that r p clear_in_fields [OF c] sv feed_serve(2) [OF sv(1,2) ne(1), of cb clk sv1] len fx
    by (simp add: accepting_def pending_in_def)
  then show "r1 = 0 \<Longrightarrow> accepting sv1 \<and> well_framed (pending_in sv1 @ y)" .
  show "norm_result (feed cb clk sv (x @ y)) = norm_result (if r1 = 0 then feed cb clk sv1 y else (r1, sv1))"
  proof (cases "r1 = 0")
    case True
    then have "accepting sv1" using ok by simp
    then have "norm_result (feed cb clk sv1 y) = norm_result (serve cb clk (pending_in sv1 @ y) sv1)"
      using ne(2) len by (intro feed_serve(1)) (simp_all add: accepting_def)
    also have "serve cb clk (pending_in sv1 @ y) sv1 = serve cb clk (pending_in s2 @ y) s2"
      using clear_in_eqD [OF c] p r True by simp
    also have "\<dots> = serve cb clk (?m @ y) sv"
      using sa r True by (simp add: pending_in_def)
    finally show ?thesis using xy True by simp
  next
    case False
    then show ?thesis using xy sa r c by (simp add: norm_result_def)
  qed
qed

text \<open>The reads of a connection, one after the other, up to the first failure.\<close>

fun feed_all :: "importer option \<Rightarrow> (u64 \<Rightarrow> u64) \<Rightarrow> scene_server \<Rightarrow> bytes list \<Rightarrow> int \<times> scene_server" where
  "feed_all cb clk sv [] = (0, sv)"
| "feed_all cb clk sv (c # cs) =
     (case feed cb clk sv c of (r, sv1) \<Rightarrow> if r \<noteq> 0 then (r, sv1) else feed_all cb clk sv1 cs)"

lemma feed_chunks:
  assumes "accepting sv" "well_framed (pending_in sv @ concat cs)"
    and "[] \<notin> set cs" "cs \<noteq> []" "length (concat cs) < 2 ^ 32"
  shows "norm_result (feed_all cb clk sv cs) = norm_result (feed cb clk sv (concat cs))"
  using assms
proof (induction cs arbitrary: sv)
  case (Cons c cs)
  obtain r sv1 where f: "feed cb clk sv c = (r, sv1)" by fastforce
  show ?case
  proof (cases "cs = []")
    case True
    then show ?thesis using f by (simp add: norm_result_def)
  next
    case False
    then have y: "concat cs \<noteq> []" using Cons.prems(3) by (cases cs) auto
    have c: "c \<noteq> []" using Cons.prems(3) by auto
    have wf: "well_framed (pending_in sv @ c @ concat cs)" using Cons.prems(2) by simp
    have len: "length c + length (concat cs) < 2 ^ 32" using Cons.prems(5) by simp
    note sp = feed_split [OF Cons.prems(1) wf c y len f]
    show ?thesis
    proof (cases "r = 0")
      case True
      then have "norm_result (feed_all cb clk sv1 cs) = norm_result (feed cb clk sv1 (concat cs))"
        using sp(2) Cons.prems(3) False len by (intro Cons.IH) auto
      then show ?thesis using sp(1) f True by simp
    next
      case r: False
      then show ?thesis using sp(1) f by simp
    qed
  qed
qed simp

end
