(* ===== verification/Commands.thy ===== *)
theory Commands
  imports Client OpsCorrect ClientParse
begin

text \<open>
  From the typed calls of the client to operations on documents. A \<open>command\<close> is a call of one
  of the client's builders of scene-affecting operations; \<open>issue\<close> is the call. What the
  server makes of the bytes the client wrote is the operation that was asked for, on the
  arguments it was asked with.
\<close>

subsection \<open>Commands\<close>

datatype command =
    Create u32 u32 u16 rect u8
  | Destroy u32
  | SetText u32 u32 bytes
  | SetValue u32 u32 bytes
  | SetRect u32 rect
  | SetFlags u32 u8
  | SetStyle u32 u32
  | SetTexture u32 u32 rect u8 u8
  | SetEffect u32 u32
  | Focus u32
  | FocusNext u8

fun issue :: "command \<Rightarrow> scene_client \<Rightarrow> int \<times> scene_client" where
  "issue (Create parent nid role r flags) c = scene_client_create_node c parent nid role r flags"
| "issue (Destroy nid) c = scene_client_destroy_node c nid"
| "issue (SetText nid tid t) c = scene_client_set_text c nid tid (Some t) (of_nat (length t))"
| "issue (SetValue nid tid t) c = scene_client_set_value c nid tid (Some t) (of_nat (length t))"
| "issue (SetRect nid r) c = scene_client_set_rect c nid r"
| "issue (SetFlags nid flags) c = scene_client_set_flags c nid flags"
| "issue (SetStyle nid st) c = scene_client_set_style c nid st"
| "issue (SetTexture nid tex src blend opacity) c = scene_client_set_texture c nid tex src blend opacity"
| "issue (SetEffect nid ef) c = scene_client_set_effect c nid ef"
| "issue (Focus nid) c = scene_client_focus c nid"
| "issue (FocusNext step) c = scene_client_focus_next c step"

subsection \<open>On the wire\<close>

fun opcode_of :: "command \<Rightarrow> u16" where
  "opcode_of (Create _ _ _ _ _) = SCENE_OP_CREATE_NODE"
| "opcode_of (Destroy _) = SCENE_OP_DESTROY_NODE"
| "opcode_of (SetText _ _ _) = SCENE_OP_SET_TEXT"
| "opcode_of (SetValue _ _ _) = SCENE_OP_SET_VALUE"
| "opcode_of (SetRect _ _) = SCENE_OP_SET_RECT"
| "opcode_of (SetFlags _ _) = SCENE_OP_SET_FLAGS"
| "opcode_of (SetStyle _ _) = SCENE_OP_SET_STYLE"
| "opcode_of (SetTexture _ _ _ _ _) = SCENE_OP_SET_TEXTURE"
| "opcode_of (SetEffect _ _) = SCENE_OP_SET_EFFECT"
| "opcode_of (Focus _) = SCENE_OP_FOCUS"
| "opcode_of (FocusNext _) = SCENE_OP_FOCUS_NEXT"

fun body_of :: "command \<Rightarrow> bytes" where
  "body_of (Create parent nid role r flags) =
     scene_put_u32 parent @ scene_put_u32 nid @ scene_put_u16 role @ put_rect r @ [flags]"
| "body_of (Destroy nid) = scene_put_u32 nid"
| "body_of (SetText nid tid t) =
     scene_put_u32 nid @ scene_put_u32 tid @ scene_put_u32 (of_nat (length t)) @ t"
| "body_of (SetValue nid tid t) =
     scene_put_u32 nid @ scene_put_u32 tid @ scene_put_u32 (of_nat (length t)) @ t"
| "body_of (SetRect nid r) = scene_put_u32 nid @ put_rect r"
| "body_of (SetFlags nid flags) = scene_put_u32 nid @ [flags]"
| "body_of (SetStyle nid st) = scene_put_u32 nid @ scene_put_u32 st"
| "body_of (SetTexture nid tex src blend opacity) =
     scene_put_u32 nid @ scene_put_u32 tex @ put_rect src @ [blend, opacity]"
| "body_of (SetEffect nid ef) = scene_put_u32 nid @ scene_put_u32 ef"
| "body_of (Focus nid) = scene_put_u32 nid"
| "body_of (FocusNext step) = [step]"

text \<open>What the client itself refuses, and the node id the store cannot hold.\<close>

fun sendable :: "scene_client \<Rightarrow> command \<Rightarrow> bool" where
  "sendable c (Create parent nid role r flags) \<longleftrightarrow>
     role \<le> SCENE_ROLE_MAX \<and> nid \<noteq> SCENE_NO_PARENT \<and> nid \<noteq> 0"
| "sendable c (SetText nid tid t) \<longleftrightarrow>
     length t < 2 ^ 31 \<and> of_nat (length t) \<le> max_text_bytes_per_slot (cl_lim c)"
| "sendable c (SetValue nid tid t) \<longleftrightarrow>
     length t < 2 ^ 31 \<and> of_nat (length t) \<le> max_text_bytes_per_slot (cl_lim c)"
| "sendable c (SetTexture nid tex src blend opacity) \<longleftrightarrow> tex \<noteq> SCENE_NO_TEXTURE"
| "sendable c (FocusNext step) \<longleftrightarrow> step \<noteq> 0"
| "sendable c _ \<longleftrightarrow> True"

lemma unat_len_31: "length t < 2 ^ 31 \<Longrightarrow> unat (of_nat (length t) :: u32) = length t"
  by (intro unat_of_nat_small) simp

text \<open>Each call emits its record and logs it for the reconnect.\<close>

lemma issue_emits:
  assumes "sendable c cmd"
  shows "issue cmd c = cli_emit c (opcode_of cmd) (body_of cmd) False True"
  using assms
  by (cases cmd) (auto dest: leD simp: scene_client_create_node_def scene_client_destroy_node_def
      scene_client_set_text_def scene_client_set_value_def cli_set_text_like_def scene_client_set_rect_def
      scene_client_set_flags_def scene_client_set_style_def scene_client_set_texture_def
      scene_client_set_effect_def scene_client_focus_def scene_client_focus_next_def unat_len_31)

subsection \<open>What a command means\<close>

definition set_attr :: "u32 \<Rightarrow> u16 option \<Rightarrow> (node \<Rightarrow> node) \<Rightarrow> doc \<Rightarrow> doc_result" where
  "set_attr nid refusal f d =
     (if \<not> doc_live d nid then rejected d SCENE_ERR_BAD_NODE
      else case refusal of Some x \<Rightarrow> rejected d x | None \<Rightarrow> (OpOk, doc_update nid f d, []))"

definition create_command :: "env \<Rightarrow> u32 \<Rightarrow> u32 \<Rightarrow> u16 \<Rightarrow> rect \<Rightarrow> u8 \<Rightarrow> doc \<Rightarrow> doc_result" where
  "create_command e parent nid role r flags d =
     (let parent_ok = (parent = SCENE_NO_PARENT \<or> doc_live d parent);
          again = (\<lambda>n. n\<lparr>nd_role := role, nd_flags := flags, nd_blend := 0, nd_opacity := 255,
                         nd_rect := r, nd_stale := False\<rparr>)
      in if doc_live d nid then rejected d SCENE_ERR_BAD_NODE
         else if dc_attr d nid \<noteq> None then
           (if parent_ok then (OpOk, doc_update nid again (doc_move parent nid d), [])
            else rejected d SCENE_ERR_BAD_PARENT)
         else if size (dc_tree d) \<ge> unat (max_nodes_per_session (ev_lim e))
         then rejected d SCENE_ERR_LIMIT
         else if parent_ok
         then (OpOk, doc_insert parent nid
                (payload (fresh_node\<lparr>nd_id := nid, nd_role := role, nd_flags := flags, nd_rect := r,
                   nd_tex := SCENE_NO_TEXTURE, nd_blend := 0, nd_opacity := 255\<rparr>)) d, [])
         else rejected d SCENE_ERR_BAD_PARENT)"

definition text_command :: "env \<Rightarrow> u32 \<Rightarrow> u32 \<Rightarrow> bytes \<Rightarrow> doc \<Rightarrow> doc_result" where
  "text_command e nid tid t d =
     (let texts = (case dc_attr d nid of None \<Rightarrow> [] | Some n \<Rightarrow> nd_texts n)
      in if \<not> doc_live d nid then rejected d SCENE_ERR_BAD_NODE
         else if tid \<notin> ts_id ` set texts \<and> length texts \<ge> unat (max_text_slots_per_node (ev_lim e))
         then rejected d SCENE_ERR_LIMIT
         else if of_nat (length t) > max_text_bytes_per_slot (ev_lim e)
         then (OpErr SCENE_ERR_LIMIT,
               if tid \<in> ts_id ` set texts then d else doc_update nid (put_text tid []) d, [])
         else (OpOk, doc_update nid (put_text tid t) d,
               if ev_events e
               then [(SCENE_SRV_TEXT_INDEX,
                      scene_put_u32 1 @ scene_put_u32 tid @ scene_put_u32 nid @
                      scene_put_u32 (of_nat (length t)) @ t)]
               else []))"

fun doc_command :: "env \<Rightarrow> command \<Rightarrow> doc \<Rightarrow> doc_result" where
  "doc_command e (Create parent nid role r flags) d = create_command e parent nid role r flags d"
| "doc_command e (Destroy nid) d =
     (if dc_attr d nid = None then rejected d SCENE_ERR_BAD_NODE else (OpOk, doc_delete nid d, []))"
| "doc_command e (SetText nid tid t) d = text_command e nid tid t d"
| "doc_command e (SetValue nid tid t) d = text_command e nid tid t d"
| "doc_command e (SetRect nid r) d = set_attr nid None (\<lambda>n. n\<lparr>nd_rect := r\<rparr>) d"
| "doc_command e (SetFlags nid flags) d = set_attr nid None (\<lambda>n. n\<lparr>nd_flags := flags\<rparr>) d"
| "doc_command e (SetStyle nid st) d =
     set_attr nid (if st \<ge> ev_styles e then Some SCENE_ERR_BAD_NODE else None) (\<lambda>n. n\<lparr>nd_style := st\<rparr>) d"
| "doc_command e (SetTexture nid tex src blend opacity) d =
     set_attr nid (if tex \<notin> set (ev_textures e) then Some SCENE_ERR_PROTOCOL else None)
       (\<lambda>n. n\<lparr>nd_tex := tex, nd_tex_src := src, nd_blend := blend, nd_opacity := opacity\<rparr>) d"
| "doc_command e (SetEffect nid ef) d =
     set_attr nid (if ef \<ge> ev_effects e then Some SCENE_ERR_BAD_NODE else None) (\<lambda>n. n\<lparr>nd_effect := ef\<rparr>) d"
| "doc_command e (Focus nid) d =
     (if \<not> doc_live d nid then rejected d SCENE_ERR_BAD_NODE else move_focus e nid d)"
| "doc_command e (FocusNext step) d =
     (if focus_ring d = [] then (OpOk, d, [])
      else move_focus e (ring_next (focus_ring d) (dc_focus d) (sint step)) d)"

subsection \<open>Decoding what was encoded\<close>

definition wire_op :: "u64 \<Rightarrow> command \<Rightarrow> u16 \<times> bytes \<times> u32" where
  "wire_op seq cmd = (let p = scene_put_u64 seq @ body_of cmd in (opcode_of cmd, p, of_nat (length p)))"

lemmas get_put_0 = get_put_u16_0 get_put_u32_0 get_put_u64_0

lemma get_rect_put: "get_rect (put_rect r @ ys) 0 = r"
  by (cases r) (simp add: get_rect_def put_rect_def get_append_right get_put_i32_0)

lemma get_rect_right: "length xs \<le> off \<Longrightarrow> get_rect (xs @ ys) off = get_rect ys (off - length xs)"
  by (simp add: get_rect_def get_append_right)

lemmas decode = get_append_right get_put_0 get_put_whole get_rect_right get_rect_put
  get_rect_put [of _ "[]", simplified] rd_append_right slice_append_right

lemma doc_set_text_command:
  assumes "length t < 2 ^ 31"
  shows "doc_set_text e (scene_put_u64 seq @ scene_put_u32 nid @ scene_put_u32 tid @
       scene_put_u32 (of_nat (length t)) @ t) (20 + of_nat (length t)) d = text_command e nid tid t d"
proof -
  have u: "unat (of_nat (length t) :: u32) = length t" using assms by (rule unat_len_31)
  have "unat (20 + of_nat (length t) :: u32) = 20 + length t"
    using assms by (simp add: unat_word_ariths(1) u)
  then have "\<not> (20 + of_nat (length t) :: u32) < 20" by (simp add: word_less_nat_alt)
  then show ?thesis
    by (simp add: doc_set_text_def text_command_def decode u Let_def cong: if_cong)
qed

lemma doc_op_command:
  assumes "sendable c cmd" "wire_op seq cmd = (opcode, p, plen)"
  shows "doc_op e opcode p plen d = doc_command e cmd d"
proof -
  have w: "opcode = opcode_of cmd" "p = scene_put_u64 seq @ body_of cmd" "plen = of_nat (length p)"
    using assms(2) by (auto simp: wire_op_def Let_def)
  show ?thesis
  proof (cases cmd)
    case (Create parent nid role r flags)
    have "\<not> role > SCENE_ROLE_MAX" "nid \<noteq> SCENE_NO_PARENT"
      using assms(1) Create by (auto dest: leD)
    then show ?thesis
      unfolding w Create
      by (simp add: doc_op_def doc_create_def decode create_command_def Let_def create_attrs_def
          recreate_attrs_def [abs_def])
  next
    case (FocusNext step)
    have "step \<noteq> 0" using assms(1) FocusNext by simp
    then have "sint step \<noteq> 0" using signed_eq_0_iff by blast
    then show ?thesis unfolding w FocusNext
      by (simp add: doc_op_def doc_focus_next_def decode Let_def)
  qed (use assms(1) doc_set_text_command in \<open>simp_all add: w doc_op_def decode doc_destroy_def doc_set_def
      doc_focus_op_def set_attr_def Let_def\<close>)
qed

end
