(* ===== verification/EndToEnd.thy ===== *)
theory EndToEnd
  imports Commands FeedChunks Mutation
begin

text \<open>
  The whole path of an operation: a call of the client, the frame on the wire, reassembly and
  validation in the server, ingest, and the document.
\<close>

subsection \<open>A frame in the server\<close>

text \<open>A frame the client wrote passes the check, whatever follows it, and reaches ingest.\<close>

lemma client_frame_fed:
  assumes len: "length p < 2 ^ 32 - 16" and sv: "\<not> sv_ghosted sv"
    and opc: "opcode \<noteq> SCENE_OP_IMPORT_TEXTURE"
    and srch: "opcode = SCENE_OP_SEARCH \<Longrightarrow> length p < 12 \<or> 16 \<le> length p"
    and ing: "scene_store_ingest (sv_store sv) (clk (st_next_seq (sv_store sv))) opcode p (of_nat (length p)) = (r, s)"
  shows "feed_frame cb clk sv (scene_frame opcode p @ rest) (of_nat (length p)) =
    (if r \<noteq> 0 then Inl (r, sv\<lparr>sv_store := s, sv_dead := True\<rparr>) else Inr (sv\<lparr>sv_store := s\<rparr>))"
proof -
  let ?f = "scene_frame opcode p" and ?n = "of_nat (length p) :: u32"
  let ?g = "?f @ rest"
  have n: "unat ?n = length p" using len by (intro unat_of_nat_small) simp
  have ag: "agree (16 + unat ?n) ?f ?g" using agree_append [of ?f rest] by (simp add: n)
  have hd: "scene_get_u32 ?g 0 = scene_get_u32 ?f 0" "scene_get_u16 ?g 4 = scene_get_u16 ?f 4"
    "scene_get_u16 ?g 6 = opcode" "scene_get_u16 ?f 6 = opcode" "scene_get_u32 ?f 8 = ?n"
    "scene_get_u32 ?g 12 = scene_get_u32 ?f 12"
    using agree_u32 [OF ag] agree_u16 [OF ag] frame_payload_get [of opcode p rest]
      frame_payload_get [of opcode p "[]"] by simp_all
  let ?h = "\<lparr>fh_magic = scene_get_u32 ?f 0, fh_version = scene_get_u16 ?f 4, fh_opcode = opcode,
      fh_length = ?n, fh_checksum = scene_get_u32 ?f 12\<rparr>"
  have h: "read_header ?f = ?h" by (simp add: read_header_def hd)
  have chk: "scene_frame_check ?h ?g (16 + ?n) = 0"
    using frame_check_local [OF ag, of ?h] frame_check_emitted [OF len, of opcode] h by simp
  have "agree (unat ?n) p (p @ rest)" using agree_append by (simp add: n)
  moreover have "opcode = SCENE_OP_SEARCH \<Longrightarrow> ?n < 12 \<or> 16 \<le> ?n"
    using srch by (auto simp: word_less_nat_alt word_le_nat_alt n)
  ultimately have "scene_store_ingest (sv_store sv) (clk (st_next_seq (sv_store sv))) opcode (p @ rest) ?n = (r, s)"
    using ingest_local ing by metis
  then show ?thesis
    unfolding feed_frame_def Let_def hd scene_frame_header.simps chk feed_rejoin_def feed_import_def
      feed_ingest_def bind_sum_def
    using sv opc by simp
qed

text \<open>A mutation record does not look at the clock.\<close>

lemma ingest_clock:
  "op_is_scene_affecting opcode \<Longrightarrow>
   scene_store_ingest s now opcode p plen = scene_store_ingest s now' opcode p plen"
  by (auto simp: scene_store_ingest_def ingest_switch_def op_is_scene_affecting_def Let_def)

lemma ingest_lim:
  assumes "op_is_scene_affecting opcode"
  shows "st_lim (snd (scene_store_ingest s now opcode p plen)) = st_lim s"
proof -
  have [simp]: "st_lim (snd (fatal_error s c m)) = st_lim s" for s c m
    by (simp add: fatal_error_def emit_error_def store_emit_def)
  have lg: "st_lim (snd (log_append s opc p n)) = st_lim s" for s opc p n
    by (simp add: log_append_def Let_def split: option.split)
  have [simp]: "st_lim (snd (logged s opc p n ok)) = st_lim s" for s opc p n
    using lg [of s opc p n] by (auto simp: logged_def split: prod.split bool.split)
  have "st_lim (snd (ingest_mutation s seq opcode p plen)) = st_lim s" for s seq
    by (simp add: ingest_mutation_def live_back_def macro_capture_frame Let_def
        split: prod.split op_status.split option.split)
  moreover have "opcode \<noteq> SCENE_OP_ACK" using assms by (auto simp: op_is_scene_affecting_def)
  ultimately show ?thesis
    using assms by (simp add: scene_store_ingest_def ingest_switch_def Let_def)
qed

lemma affecting_opcodes:
  "op_is_scene_affecting opcode \<Longrightarrow> opcode \<noteq> SCENE_OP_IMPORT_TEXTURE \<and> opcode \<noteq> SCENE_OP_SEARCH"
  by (auto simp: op_is_scene_affecting_def)

subsection \<open>A stream of frames\<close>

definition frames_of :: "operation list \<Rightarrow> bytes" where
  "frames_of ops = concat (map (\<lambda>(opcode, p, plen). scene_frame opcode p) ops)"

definition exact_length :: "operation list \<Rightarrow> bool" where
  "exact_length ops \<longleftrightarrow> list_all (\<lambda>(opcode, p, plen). length p < 2 ^ 32 - 16 \<and> plen = of_nat (length p)) ops"

lemma frames_simps [simp]:
  "frames_of [] = []" "frames_of ((opcode, p, plen) # ops) = scene_frame opcode p @ frames_of ops"
  "exact_length []" "exact_length ((opcode, p, plen) # ops) \<longleftrightarrow>
     length p < 2 ^ 32 - 16 \<and> plen = of_nat (length p) \<and> exact_length ops"
  by (simp_all add: frames_of_def exact_length_def)

lemma serve_nil: "serve cb clk [] sv = (0, with_in [] 0 sv)"
  by (subst serve.simps) (simp add: with_in_eq)

lemma serve_ingest_all:
  assumes "exact_length ops" "in_sequence (st_lim (sv_store sv)) n ops" "\<not> sv_ghosted sv"
    and "ingest_all (sv_store sv) now ops = (rc, s')"
  shows "fst (serve cb clk (frames_of ops) sv) = rc \<and>
     sv_store (snd (serve cb clk (frames_of ops) sv)) = s'"
  using assms
proof (induction ops arbitrary: sv n)
  case Nil
  then show ?case by (simp add: serve_nil)
next
  case (Cons i ops)
  obtain opcode p plen where i: "i = (opcode, p, plen)" by (cases i)
  have rec: "length p < 2 ^ 32 - 16" "plen = of_nat (length p)" "exact_length ops"
    "plen \<le> max_record_length (st_lim (sv_store sv))" "op_is_scene_affecting opcode"
    "in_sequence (st_lim (sv_store sv)) (n + 1) ops"
    using Cons.prems(1,2) by (simp_all add: i)
  let ?n = "of_nat (length p) :: u32" and ?g = "scene_frame opcode p @ frames_of ops"
  let ?sv = "clear_in sv"
  have n: "unat ?n = length p" using rec(1) by (intro unat_of_nat_small) simp
  obtain r s1 where ing: "scene_store_ingest (sv_store sv) now opcode p plen = (r, s1)" by fastforce
  have "scene_store_ingest (sv_store ?sv) (clk (st_next_seq (sv_store ?sv))) opcode p ?n = (r, s1)"
    using ing ingest_clock [OF rec(5), of "sv_store sv" now p plen "clk (st_next_seq (sv_store sv))"] rec(2)
    by (simp add: clear_in_def)
  then have f: "feed_frame cb clk ?sv ?g ?n =
      (if r \<noteq> 0 then Inl (r, ?sv\<lparr>sv_store := s1, sv_dead := True\<rparr>) else Inr (?sv\<lparr>sv_store := s1\<rparr>))"
    using Cons.prems(3) affecting_opcodes [OF rec(5)] rec(1)
    by (intro client_frame_fed) (simp_all add: clear_in_def)
  have srv: "serve cb clk ?g sv =
      (if r \<noteq> 0 then (r, ?sv\<lparr>sv_store := s1, sv_dead := True\<rparr>)
       else serve cb clk (frames_of ops) (?sv\<lparr>sv_store := s1\<rparr>))"
    using frame_payload_get(1) [of opcode p "frames_of ops"] rec(2,4) f
    by (subst serve.simps) (simp add: n not_less [symmetric] Let_def)
  show ?case
  proof (cases "r = 0")
    case True
    have "st_lim s1 = st_lim (sv_store sv)" using ingest_lim [OF rec(5), of "sv_store sv" now p plen] ing by simp
    then have "fst (serve cb clk (frames_of ops) (?sv\<lparr>sv_store := s1\<rparr>)) = rc \<and>
        sv_store (snd (serve cb clk (frames_of ops) (?sv\<lparr>sv_store := s1\<rparr>))) = s'"
      using rec Cons.prems(3,4) ing True
      by (intro Cons.IH [of _ "n + 1"]) (auto simp: i clear_in_def)
    then show ?thesis using srv True by (simp add: i)
  next
    case False
    then show ?thesis using srv Cons.prems(4) ing by (simp add: i)
  qed
qed

subsection \<open>The client's stream\<close>

definition ready :: "scene_client \<Rightarrow> bool" where
  "ready c \<longleftrightarrow> cl_conn_open c \<and> cl_welcomed c \<and> \<not> cl_fatal c"

fun issue_all :: "command list \<Rightarrow> scene_client \<Rightarrow> int \<times> scene_client" where
  "issue_all [] c = (0, c)"
| "issue_all (cmd # cmds) c = (case issue cmd c of (r, c') \<Rightarrow> if r \<noteq> 0 then (r, c') else issue_all cmds c')"

text \<open>The records of a list of commands, numbered from \<open>n\<close> on.\<close>

fun wire_ops :: "u64 \<Rightarrow> command list \<Rightarrow> operation list" where
  "wire_ops n [] = []"
| "wire_ops n (cmd # cmds) = wire_op n cmd # wire_ops (n + 1) cmds"

lemma sendable_lim: "cl_lim c' = cl_lim c \<Longrightarrow> sendable c' cmd = sendable c cmd"
  by (cases cmd) simp_all

text \<open>Issuing commands on a ready client appends their frames, in order and numbered on.\<close>

lemma issue_all_frames:
  assumes "ready c" "list_all (sendable c) cmds"
  shows "\<exists>c'. issue_all cmds c = (0, c') \<and> ready c' \<and> cl_lim c' = cl_lim c \<and>
    cl_out c' = cl_out c @ frames_of (wire_ops (cl_next_seq c) cmds) \<and>
    cl_next_seq c' = cl_next_seq c + of_nat (length cmds) \<and>
    cl_log c' = cl_log c @ map (\<lambda>cmd. \<lparr>ce_opcode = opcode_of cmd, ce_body = body_of cmd\<rparr>) cmds"
  using assms
proof (induction cmds arbitrary: c)
  case (Cons cmd cmds)
  obtain c1 where c1: "issue cmd c = (0, c1)" "ready c1" "cl_lim c1 = cl_lim c"
    "cl_out c1 = cl_out c @ scene_frame (opcode_of cmd) (scene_put_u64 (cl_next_seq c) @ body_of cmd)"
    "cl_next_seq c1 = cl_next_seq c + 1"
    "cl_log c1 = cl_log c @ [\<lparr>ce_opcode = opcode_of cmd, ce_body = body_of cmd\<rparr>]"
    using issue_emits [of c cmd] Cons.prems
    by (simp add: cli_emit_def ready_def clog_append_def Let_def)
  have "list_all (sendable c1) cmds"
    using Cons.prems(2) sendable_lim [OF c1(3)] by (simp add: list_all_iff)
  from Cons.IH [OF c1(2) this] show ?case
    using c1 by (auto simp: wire_op_def Let_def)
qed (simp add: frames_of_def)

subsection \<open>What the server makes of it\<close>

text \<open>The specification of a session of commands.\<close>

fun command_session :: "env \<Rightarrow> u64 \<Rightarrow> doc \<Rightarrow> command list \<Rightarrow> doc_result" where
  "command_session e n d [] = (OpOk, d, [])"
| "command_session e n d (cmd # cmds) =
     (case doc_command e cmd d of
        (OpErr x, d', rs) \<Rightarrow> (OpErr x, d', rs @ [(SCENE_SRV_ERROR, error_payload x ''op rejected'')])
      | (OpOk, d', rs) \<Rightarrow>
          (case command_session (e\<lparr>ev_seq := n\<rparr>) (n + 1) d' cmds of
             (st, d'', rs') \<Rightarrow> (st, d'', rs @ rs')))"

lemma doc_session_commands:
  "list_all (sendable c) cmds \<Longrightarrow> doc_session e d (wire_ops n cmds) = command_session e n d cmds"
proof (induction cmds arbitrary: e n d)
  case (Cons cmd cmds)
  obtain opcode p plen where w: "wire_op n cmd = (opcode, p, plen)" by (cases "wire_op n cmd")
  have "p = scene_put_u64 n @ body_of cmd" using w by (auto simp: wire_op_def Let_def)
  then have "scene_get_u64 p 0 = n" by (simp add: get_put_0)
  then show ?case
    using Cons doc_op_command [OF _ w, of c e d]
    by (simp add: w split: prod.split op_status.split)
qed simp

text \<open>A command whose record fits the server's limit.\<close>

definition fits :: "scene_limits \<Rightarrow> command \<Rightarrow> bool" where
  "fits lim cmd \<longleftrightarrow> length (body_of cmd) < 2 ^ 32 - 24 \<and>
     8 + of_nat (length (body_of cmd)) \<le> max_record_length lim"

lemma fits_length: "fits lim cmd \<Longrightarrow> unat (8 + of_nat (length (body_of cmd)) :: u32) = 8 + length (body_of cmd)"
  using unat_of_nat_small [of "8 + length (body_of cmd)", where 'a = 32] by (simp add: fits_def)

lemma wire_ops_ok:
  "list_all (sendable c) cmds \<Longrightarrow> list_all (fits lim) cmds \<Longrightarrow>
   exact_length (wire_ops n cmds) \<and> in_sequence lim n (wire_ops n cmds)"
proof (induction cmds arbitrary: n)
  case (Cons cmd cmds)
  have "fits lim cmd" "sendable c cmd" using Cons.prems by simp_all
  moreover have "op_is_scene_affecting (opcode_of cmd)"
    by (cases cmd) (simp_all add: op_is_scene_affecting_def)
  moreover have "scene_get_u32 (scene_put_u64 n @ body_of cmd) 12 \<noteq> 0"
    if "opcode_of cmd = SCENE_OP_CREATE_NODE"
    using that \<open>sendable c cmd\<close> by (cases cmd) (simp_all add: decode)
  ultimately show ?case
    using Cons fits_length [of lim cmd]
    by (simp add: wire_op_def Let_def op_ok_def fits_def get_put_0 word_le_nat_alt)
qed simp

text \<open>From the calls of the client to the document of the server.\<close>

lemma client_to_document:
  assumes c: "ready c" "cl_out c = []" "list_all (sendable c) cmds" "cmds \<noteq> []"
    and sv: "accepting sv" "pending_in sv = []" "cl_next_seq c = st_next_seq (sv_store sv)"
    and st: "represents (st_live (sv_store sv)) d" "\<not> st_dead (sv_store sv)"
      "st_mode (sv_store sv) \<noteq> SCENE_MODE_REPLAY"
    and fit: "list_all (fits (st_lim (sv_store sv))) cmds"
    and spec: "command_session (env_of (live_ctx (sv_store sv) True)) (cl_next_seq c) d cmds = (res, d', rs)"
    and run: "issue_all cmds c = (r, c')" "length (cl_out c') < 2 ^ 32"
    and fed: "feed cb clk sv (cl_out c') = (r', sv')"
  shows "r = 0 \<and> r' = status_code res \<and> represents (st_live (sv_store sv')) d' \<and>
    st_out (sv_store sv') = emit_all (st_out (sv_store sv)) rs"
proof -
  let ?ops = "wire_ops (cl_next_seq c) cmds"
  note ok = wire_ops_ok [OF c(3) fit, of "cl_next_seq c"]
  have out: "r = 0" "cl_out c' = frames_of ?ops"
    using issue_all_frames [OF c(1,3)] run(1) c(2) by auto
  obtain rc s' where ing: "ingest_all (sv_store sv) 0 ?ops = (rc, s')" by fastforce
  have R: "rc = status_code res" "represents (st_live s') d'" "st_out s' = emit_all (st_out (sv_store sv)) rs"
    using ingest_all_refines [OF st _ _ ing] ok spec sv(3) doc_session_commands [OF c(3)] by simp_all
  have "length (frames_of ?ops) > 0"
    using c(4) by (cases cmds) (simp_all add: wire_op_def Let_def)
  then have "norm_result (r', sv') = norm_result (serve cb clk (frames_of ?ops) sv)"
    using feed_serve(1) [of sv "frames_of ?ops" cb clk] sv(1,2) out(2) run(2) fed
    by (simp add: accepting_def)
  moreover have "fst (serve cb clk (frames_of ?ops) sv) = rc \<and>
      sv_store (snd (serve cb clk (frames_of ?ops) sv)) = s'"
    using ok sv(1,3) by (intro serve_ingest_all [OF _ _ _ ing]) (auto simp: accepting_def)
  ultimately have "r' = rc" "sv_store sv' = s'"
    by (auto simp: norm_result_def clear_in_def split: prod.splits)
      (metis scene_server.select_convs(1) scene_server.surjective scene_server.update_convs(2,3))+
  then show ?thesis using R out(1) by simp
qed

subsection \<open>Reconnecting\<close>

definition logged_command :: "command \<Rightarrow> clog_ent" where
  "logged_command cmd = \<lparr>ce_opcode = opcode_of cmd, ce_body = body_of cmd\<rparr>"

lemma reissue_frames:
  assumes "ready c"
  shows "ready (reissue (map logged_command cmds) c) \<and>
    cl_out (reissue (map logged_command cmds) c) = cl_out c @ frames_of (wire_ops (cl_next_seq c) cmds) \<and>
    cl_next_seq (reissue (map logged_command cmds) c) = cl_next_seq c + of_nat (length cmds) \<and>
    cl_log (reissue (map logged_command cmds) c) = cl_log c \<and>
    cl_wire (reissue (map logged_command cmds) c) = cl_wire c"
  using assms
proof (induction cmds arbitrary: c)
  case (Cons cmd cmds)
  let ?c = "c\<lparr>cl_next_seq := cl_next_seq c + 1, cl_sent_seq := cl_next_seq c,
      cl_out := cl_out c @ scene_frame (opcode_of cmd) (scene_put_u64 (cl_next_seq c) @ body_of cmd)\<rparr>"
  have "cli_emit c (opcode_of cmd) (body_of cmd) False False = (0, ?c)"
    using Cons.prems by (simp add: cli_emit_def ready_def Let_def)
  moreover have "ready ?c" using Cons.prems by (simp add: ready_def)
  ultimately show ?case
    using Cons.IH [of ?c] by (simp add: logged_command_def wire_op_def Let_def)
qed (simp add: frames_of_def)

text \<open>A WELCOME of the session the client was in: the whole log goes out again, numbered on from
  the last record sent, and is not logged twice.\<close>

lemma reconnect_resends:
  assumes c: "cl_conn_open c" "\<not> cl_welcomed c" "cl_had_session c" "cl_out c = []"
    and log: "cl_log c = map logged_command cmds" "cmds \<noteq> []"
    and p: "scene_get_u32 p 0 = cl_prev_scene_id c" "scene_get_u16 p 4 = SCENE_PROTOCOL_V0"
    and send: "\<And>m. send m"
  shows "ready (dispatch_welcome send c p 30) \<and>
    cl_wire (dispatch_welcome send c p 30) = cl_wire c @ frames_of (wire_ops (cl_sent_seq c + 1) cmds) \<and>
    cl_out (dispatch_welcome send c p 30) = [] \<and>
    cl_log (dispatch_welcome send c p 30) = cl_log c"
proof -
  define lim where "lim = \<lparr>max_nodes_per_session = scene_get_u32 p 6, max_text_bytes_per_slot = scene_get_u32 p 10,
     max_text_slots_per_node = scene_get_u32 p 14, max_record_length = scene_get_u32 p 18,
     input_latency_budget_us = scene_get_u64 p 22\<rparr>"
  define c1 where "c1 = c\<lparr>cl_next_seq := cl_sent_seq c + 1, cl_prev_scene_id := cl_prev_scene_id c,
     cl_had_session := True, cl_welcomed := True, cl_fatal := False, cl_scene_id := cl_prev_scene_id c,
     cl_lim := lim\<rparr>"
  define c2 where "c2 = reissue (map logged_command cmds) c1"
  have "ready c1" using c by (simp add: ready_def c1_def)
  note R = reissue_frames [OF this, of cmds, folded c2_def]
  have out: "cl_out c2 = frames_of (wire_ops (cl_sent_seq c + 1) cmds)" "cl_wire c2 = cl_wire c" "cl_log c2 = cl_log c"
    using R c(4) by (simp_all add: c1_def)
  have "cl_out c2 \<noteq> []" using out(1) log(2) by (cases cmds) (auto simp: wire_op_def Let_def dest: arg_cong [of _ _ length])
  then have flush: "snd (scene_client_flush send c2) = c2\<lparr>cl_wire := cl_wire c2 @ cl_out c2, cl_out := []\<rparr>"
    using R send by (simp add: scene_client_flush_def ready_def)
  have "dispatch_welcome send c p 30 =
      deliver (snd (scene_client_flush send c2)) (EvWelcome (cl_prev_scene_id c) SCENE_PROTOCOL_V0 lim)"
    using c p log by (simp add: dispatch_welcome_def Let_def lim_def [symmetric] c2_def c1_def)
  then show ?thesis
    using R out flush by (simp add: deliver_def ready_def)
qed

end
