(* ===== verification/ReplayOk.thy ===== *)
theory ReplayOk
  imports Mutation Views Bounds Reach
begin

text \<open>
  Time travel: rebuilding the scene at a position of the log gives the document the session
  had there. The log holds the accepted records, one after the other, as \<open>log_entry\<close> writes
  them; replay parses them back and applies those up to the target to an empty scene.
\<close>

subsection \<open>An operation under replay\<close>

definition replaying :: "apply_ctx \<Rightarrow> apply_ctx" where
  "replaying a = a\<lparr>ac_replay := True\<rparr>"

lemma replaying_sel [simp]:
  "ac_lim (replaying a) = ac_lim a" "ac_style_count (replaying a) = ac_style_count a"
  "ac_effect_count (replaying a) = ac_effect_count a" "ac_scene_seq (replaying a) = ac_scene_seq a"
  "ac_out (replaying a) = ac_out a" "ac_scene (replaying a) = ac_scene a"
  "ac_events (replaying a) = ac_events a" "ac_replay (replaying a)"
  "with_arena (replaying a) ar = replaying (with_arena a ar)"
  "put_cell (replaying a) s n = replaying (put_cell a s n)"
  "parent_slot (replaying a) pid = parent_slot a pid"
  "child_depth (replaying a) ps = child_depth a ps" "target (replaying a) nid = target a nid"
  "(replaying a)\<lparr>ac_scene := sc\<rparr> = replaying (a\<lparr>ac_scene := sc\<rparr>)"
  "(replaying a)\<lparr>ac_out := q\<rparr> = replaying (a\<lparr>ac_out := q\<rparr>)"
  by (simp_all add: replaying_def with_arena_def put_cell_def parent_slot_def child_depth_def target_def Let_def)

definition lifted :: "op_result \<Rightarrow> op_result \<Rightarrow> bool" where
  "lifted r r' \<longleftrightarrow> (\<forall>b. r = (OpOk, b) \<longrightarrow> r' = (OpOk, replaying b))"

lemma lifted_same [simp]: "lifted (OpOk, b) (OpOk, replaying b)" "lifted (OpErr e, b) r'"
  by (simp_all add: lifted_def)

lemma lifted_if: "(c \<Longrightarrow> lifted x x') \<Longrightarrow> (\<not> c \<Longrightarrow> lifted y y') \<Longrightarrow>
    lifted (if c then x else y) (if c then x' else y')"
  by simp

lemma lifted_option:
  "lifted x x' \<Longrightarrow> (\<And>v. lifted (f v) (f' v)) \<Longrightarrow>
   lifted (case m of None \<Rightarrow> x | Some v \<Rightarrow> f v) (case m of None \<Rightarrow> x' | Some v \<Rightarrow> f' v)"
  by (cases m) simp_all

lemma set_focus_replaying: "set_focus (replaying a) nid = replaying (set_focus a nid)"
  by (simp add: set_focus_def Let_def)

lemma op_create_lifted: "lifted (op_create a p plen) (op_create (replaying a) p plen)"
  unfolding op_create_def Let_def
  by (auto simp: lifted_def split: if_splits option.splits prod.splits)

lemma op_rest_lifted:
  "lifted (op_destroy a p plen) (op_destroy (replaying a) p plen)"
  "lifted (op_set_text a p plen) (op_set_text (replaying a) p plen)"
  "lifted (op_set_rect a p plen) (op_set_rect (replaying a) p plen)"
  "lifted (op_set_flags a p plen) (op_set_flags (replaying a) p plen)"
  "lifted (op_set_style a p plen) (op_set_style (replaying a) p plen)"
  "lifted (op_set_effect a p plen) (op_set_effect (replaying a) p plen)"
  "lifted (op_set_texture a p plen) (op_set_texture (replaying a) p plen)"
  "lifted (op_focus a p plen) (op_focus (replaying a) p plen)"
  "lifted (op_focus_next a p plen) (op_focus_next (replaying a) p plen)"
  by (auto simp: lifted_def op_destroy_def op_set_text_def text_set_def op_set_rect_def op_set_flags_def
      op_set_style_def op_set_effect_def op_set_texture_def op_focus_def op_focus_next_def
      set_focus_replaying Let_def split: if_splits option.splits)

lemma apply_op_lifted: "lifted (apply_op a opcode p plen) (apply_op (replaying a) opcode p plen)"
  unfolding apply_op_def by (intro lifted_if op_create_lifted op_rest_lifted) simp

lemma apply_op_replaying:
  "apply_op a opcode p plen = (OpOk, b) \<Longrightarrow>
   apply_op (replaying a) opcode p plen = (OpOk, replaying b)"
  using apply_op_lifted unfolding lifted_def by blast

subsection \<open>The arena stays allocated\<close>

lemma cap_simps [simp]:
  "ar_cap (attach a ps s k) = ar_cap a" "ar_cap (detach a s) = ar_cap a"
  "ar_cap (arena_free_one a s) = ar_cap a" "ar_cap (sc_arena (free_node sc s)) = ar_cap (sc_arena sc)"
  "ar_cap (ac_arena (put_cell c s n)) = ar_cap (ac_arena c)"
  "ac_arena (with_arena c ar) = ar" "ac_arena (set_focus c nid) = ac_arena c"
  by (simp_all add: attach_def detach_def arena_free_one_def free_node_def put_cell_def set_cell_def
      with_arena_def set_focus_def Let_def)

lemma destroy_loop_cap [simp]: "ar_cap (sc_arena (destroy_loop n sc c st)) = ar_cap (sc_arena sc)"
  by (induction n sc c st rule: destroy_loop.induct) (auto split: list.split)

lemma arena_alloc_cap: "arena_alloc a = (s, a') \<Longrightarrow> ar_cap a \<noteq> 0 \<Longrightarrow> ar_cap a' \<noteq> 0"
  by (auto simp: arena_alloc_def Let_def split: if_splits)

definition kept :: "apply_ctx \<Rightarrow> op_result \<Rightarrow> bool" where
  "kept a r \<longleftrightarrow> (ar_cap (ac_arena a) \<noteq> 0 \<longrightarrow> ar_cap (ac_arena (snd r)) \<noteq> 0)"

lemma kept_simps [simp]:
  "kept a (st, a)" "kept a (st, put_cell a s n)" "kept a (st, set_focus a nid)"
  by (simp_all add: kept_def)

lemma op_create_kept: "kept a (op_create a p plen)"
  unfolding op_create_def Let_def
  using arena_alloc_cap by (fastforce simp: kept_def split: prod.split option.split)

lemma op_rest_kept:
  "kept a (op_destroy a p plen)" "kept a (op_set_text a p plen)" "kept a (op_set_rect a p plen)"
  "kept a (op_set_flags a p plen)" "kept a (op_set_style a p plen)" "kept a (op_set_effect a p plen)"
  "kept a (op_set_texture a p plen)" "kept a (op_focus a p plen)" "kept a (op_focus_next a p plen)"
  by (simp_all add: kept_def op_destroy_def op_set_text_def text_set_def op_set_rect_def op_set_flags_def
      op_set_style_def op_set_effect_def op_set_texture_def op_focus_def op_focus_next_def Let_def
      split: option.split)

lemma apply_op_kept: "kept a (apply_op a opcode p plen)"
  unfolding apply_op_def using op_create_kept op_rest_kept by simp

subsection \<open>What the specification depends on\<close>

text \<open>Without SET_TEXTURE, the nodes an operation leaves depend on the nodes, the limits and the
  counts only: not on the focus, which replay does not rebuild from a known value.\<close>

definition unfocused :: "doc \<Rightarrow> doc" where
  "unfocused d = d\<lparr>dc_focus := 0\<rparr>"

definition same_env :: "env \<Rightarrow> env \<Rightarrow> bool" where
  "same_env e e' \<longleftrightarrow>
     ev_lim e = ev_lim e' \<and> ev_styles e = ev_styles e' \<and> ev_effects e = ev_effects e'"

definition outcome :: "doc_result \<Rightarrow> op_status \<times> doc" where
  "outcome = (\<lambda>(st, d, rs). (st, unfocused d))"

lemma unfocused_upd [simp]:
  "unfocused (d\<lparr>dc_focus := f\<rparr>) = unfocused d" "unfocused (unfocused d) = unfocused d"
  "unfocused (doc_update k g (d\<lparr>dc_focus := f\<rparr>)) = unfocused (doc_update k g d)"
  "unfocused (doc_insert q k n (d\<lparr>dc_focus := f\<rparr>)) = unfocused (doc_insert q k n d)"
  "unfocused (doc_move q k (d\<lparr>dc_focus := f\<rparr>)) = unfocused (doc_move q k d)"
  "unfocused (doc_update k g (doc_move q k (d\<lparr>dc_focus := f\<rparr>))) = unfocused (doc_update k g (doc_move q k d))"
  "unfocused (doc_delete k (d\<lparr>dc_focus := f\<rparr>)) = unfocused (doc_delete k d)"
  "doc_live (d\<lparr>dc_focus := f\<rparr>) = doc_live d" "focus_ring (d\<lparr>dc_focus := f\<rparr>) = focus_ring d"
  by (simp_all add: unfocused_def doc_update_def doc_insert_def doc_move_def doc_delete_def
      doc_live_def fun_eq_iff focus_ring_def)

lemma outcome_simp [simp]: "outcome (st, d, rs) = (st, unfocused d)"
  by (simp add: outcome_def)

lemma unfocusedE:
  assumes "unfocused d' = unfocused d"
  obtains f where "d' = d\<lparr>dc_focus := f\<rparr>"
  using assms by (cases d; cases d') (simp add: unfocused_def)

lemma outcome_unfocused: "outcome r = (st, d) \<Longrightarrow> unfocused d = d"
  by (cases r) auto

lemma rejected_focus [simp]: "outcome (rejected (d\<lparr>dc_focus := f\<rparr>) x) = outcome (rejected d x)"
  by (simp add: rejected_def)

lemma doc_ops_same:
  assumes "same_env e e'"
  shows "outcome (doc_create e p plen (d\<lparr>dc_focus := f\<rparr>)) = outcome (doc_create e' p plen d)"
    "outcome (doc_destroy p plen (d\<lparr>dc_focus := f\<rparr>)) = outcome (doc_destroy p plen d)"
    "outcome (doc_set_text e p plen (d\<lparr>dc_focus := f\<rparr>)) = outcome (doc_set_text e' p plen d)"
    "outcome (doc_set len guard g p plen (d\<lparr>dc_focus := f\<rparr>)) = outcome (doc_set len guard g p plen d)"
    "outcome (doc_focus_op e p plen (d\<lparr>dc_focus := f\<rparr>)) = outcome (doc_focus_op e' p plen d)"
    "outcome (doc_focus_next e p plen (d\<lparr>dc_focus := f\<rparr>)) = outcome (doc_focus_next e' p plen d)"
proof -
  note lim = assms [unfolded same_env_def, THEN conjunct1]
  show "outcome (doc_create e p plen (d\<lparr>dc_focus := f\<rparr>)) = outcome (doc_create e' p plen d)"
    unfolding doc_create_def lim Let_def if_distrib [of outcome] by (intro if_cong refl) simp_all
  show "outcome (doc_destroy p plen (d\<lparr>dc_focus := f\<rparr>)) = outcome (doc_destroy p plen d)"
    unfolding doc_destroy_def Let_def if_distrib [of outcome] by (intro if_cong refl) simp_all
  show "outcome (doc_set_text e p plen (d\<lparr>dc_focus := f\<rparr>)) = outcome (doc_set_text e' p plen d)"
    unfolding doc_set_text_def lim Let_def if_distrib [of outcome]
    by (intro if_cong refl) simp_all
  show "outcome (doc_set len guard g p plen (d\<lparr>dc_focus := f\<rparr>)) = outcome (doc_set len guard g p plen d)"
    unfolding doc_set_def Let_def if_distrib [of outcome]
    by (intro if_cong refl) (simp_all split: option.split)
  have foc: "outcome (move_focus e nid (d\<lparr>dc_focus := f\<rparr>)) = (OpOk, unfocused d)"
    "outcome (move_focus e nid d) = (OpOk, unfocused d)" for e nid f d
    by (simp_all add: move_focus_def)
  show "outcome (doc_focus_op e p plen (d\<lparr>dc_focus := f\<rparr>)) = outcome (doc_focus_op e' p plen d)"
    unfolding doc_focus_op_def Let_def if_distrib [of outcome] foc by (intro if_cong refl) simp_all
  show "outcome (doc_focus_next e p plen (d\<lparr>dc_focus := f\<rparr>)) = outcome (doc_focus_next e' p plen d)"
    unfolding doc_focus_next_def Let_def if_distrib [of outcome] foc by (intro if_cong refl) simp_all
qed

lemma doc_op_same:
  assumes "same_env e e'" "opcode \<noteq> SCENE_OP_SET_TEXTURE" "unfocused d' = unfocused d"
  shows "outcome (doc_op e opcode p plen d') = outcome (doc_op e' opcode p plen d)"
proof -
  obtain f where d': "d' = d\<lparr>dc_focus := f\<rparr>" using assms(3) by (rule unfocusedE)
  have guards: "ev_styles e = ev_styles e'" "ev_effects e = ev_effects e'"
    using assms(1) by (simp_all add: same_env_def)
  show ?thesis
    using assms(2) unfolding d' doc_op_def if_distrib [of outcome] doc_ops_same [OF assms(1)] guards
    by (intro if_cong refl) simp_all
qed

subsection \<open>The log\<close>

definition log_entry :: "operation \<Rightarrow> bytes" where
  "log_entry = (\<lambda>(opcode, p, plen). scene_put_u16 opcode @ scene_put_u32 plen @ slice p 0 (unat plen))"

abbreviation log_of :: "operation list \<Rightarrow> bytes" where
  "log_of ops \<equiv> concat (map log_entry ops)"

text \<open>One record of the log, at the head of the rest of it.\<close>

lemma log_entry_fields:
  assumes "i = (opcode, p, plen)"
  shows "scene_get_u16 (log_entry i @ rest) 0 = opcode" "scene_get_u32 (log_entry i @ rest) 2 = plen"
    "length (log_entry i) = 6 + unat plen" "drop 6 (log_entry i @ rest) = slice p 0 (unat plen) @ rest"
  using get_put_at [of 2 "scene_put_u16 opcode"] get_put_at(1) [of 0 "[]"]
  by (simp_all add: assms log_entry_def wire_simps)

lemma agree_slice_append: "agree n p (slice p 0 n @ rest)"
  by (simp add: agree_def rd_append_left) (simp add: slice_def rd_def)

lemma replay_ctx_env: "same_env (env_of (replay_ctx s)) (env_of (live_ctx s' ev)) \<longleftrightarrow>
    st_lim s = st_lim s' \<and> st_style_count s = st_style_count s' \<and> st_effect_count s = st_effect_count s'"
  by (simp add: same_env_def env_of_def replay_ctx_def live_ctx_def)

text \<open>An accepted record is accepted again under replay, with the same nodes.\<close>

lemma replay_step:
  assumes rep: "represents (st_replay s) d" and op: "outcome (doc_op (env_of (replay_ctx s)) opcode p plen d) = (OpOk, d1)"
    and nz: "opcode = SCENE_OP_CREATE_NODE \<Longrightarrow> scene_get_u32 p 12 \<noteq> 0"
    and q: "agree (unat plen) p q"
  shows "\<exists>a d'. apply_op (replay_ctx s) opcode q plen = (OpOk, a) \<and> represents (ac_scene a) d' \<and>
    unfocused d' = d1 \<and> same_session s (replay_back s a) \<and> sc_tex (ac_scene a) = sc_tex (st_replay s)"
proof -
  let ?a = "(replay_ctx s)\<lparr>ac_replay := False\<rparr>"
  have a: "replaying ?a = replay_ctx s" "env_of ?a = env_of (replay_ctx s)"
    by (simp_all add: replaying_def replay_ctx_def env_of_def)
  obtain st b where b: "apply_op ?a opcode p plen = (st, b)" by fastforce
  obtain d' rs where rs: "doc_op (env_of ?a) opcode p plen d = (OpOk, d', rs)" "unfocused d' = d1"
    using op by (cases "doc_op (env_of ?a) opcode p plen d") (auto simp: a)
  have "implements ?a (st, b) (OpOk, d', rs)"
    using apply_op_refines [of ?a d opcode p plen] rep nz b rs by (simp add: replay_ctx_def)
  then have I: "st = OpOk" "represents (ac_scene b) d'" "sc_tex (ac_scene b) = sc_tex (st_replay s)"
    by (simp_all add: implements_def replay_ctx_def)
  have "apply_op (replay_ctx s) opcode p plen = (OpOk, replaying b)"
    using apply_op_replaying [OF b [unfolded I(1)]] a(1) by simp
  then have "apply_op (replay_ctx s) opcode q plen = (OpOk, replaying b)"
    using apply_op_local [OF q] by simp
  with I(2,3) rs(2) replay_back_same [OF this] show ?thesis by auto
qed

subsection \<open>Runs of operations\<close>

fun doc_run :: "env \<Rightarrow> doc \<Rightarrow> operation list \<Rightarrow> op_status \<times> doc" where
  "doc_run e d [] = (OpOk, unfocused d)"
| "doc_run e d ((opcode, p, plen) # ops) =
     (case outcome (doc_op e opcode p plen d) of
        (OpErr x, d') \<Rightarrow> (OpErr x, d')
      | (OpOk, d') \<Rightarrow> doc_run e d' ops)"

definition no_texture :: "operation list \<Rightarrow> bool" where
  "no_texture ops \<longleftrightarrow> list_all (\<lambda>(opcode, p, plen). opcode \<noteq> SCENE_OP_SET_TEXTURE) ops"

lemma no_texture_simps [simp]:
  "no_texture []" "no_texture ((opcode, p, plen) # ops) \<longleftrightarrow> opcode \<noteq> SCENE_OP_SET_TEXTURE \<and> no_texture ops"
  by (simp_all add: no_texture_def)

lemma no_texture_take: "no_texture ops \<Longrightarrow> no_texture (take k ops)"
  unfolding no_texture_def list_all_iff by (auto dest: in_set_takeD)

lemma same_env_refl [simp]: "same_env e e"
  by (simp add: same_env_def)

lemma doc_run_same:
  "same_env e e' \<Longrightarrow> no_texture ops \<Longrightarrow> unfocused d' = unfocused d \<Longrightarrow>
   doc_run e d' ops = doc_run e' d ops"
proof (induction ops arbitrary: d d')
  case (Cons i ops)
  obtain opcode p plen where i: "i = (opcode, p, plen)" by (cases i)
  then show ?case
    using Cons doc_op_same [OF Cons.prems(1), of opcode d' d p plen]
    by (simp add: split: prod.split op_status.split)
qed simp

lemma doc_session_run:
  "no_texture ops \<Longrightarrow> outcome (doc_session e d ops) = doc_run e d ops"
proof (induction ops arbitrary: e d)
  case (Cons i ops)
  obtain opcode p plen where i: "i = (opcode, p, plen)" by (cases i)
  obtain st d1 rs where op: "doc_op e opcode p plen d = (st, d1, rs)" by (cases "doc_op e opcode p plen d")
  let ?e = "e\<lparr>ev_seq := scene_get_u64 p 0\<rparr>"
  have "outcome (doc_session ?e d1 ops) = doc_run ?e d1 ops"
    using Cons by (simp add: i)
  also have "\<dots> = doc_run e (unfocused d1) ops"
    using Cons.prems by (intro doc_run_same) (simp_all add: same_env_def i)
  finally show ?case
    by (simp add: i op split: op_status.split prod.split) (metis outcome_simp prod.collapse)
qed simp

subsection \<open>The loop over the log\<close>

definition has_arena :: "scene_store \<Rightarrow> bool" where
  "has_arena s \<longleftrightarrow> st_rnodes s \<and> ar_cap (sc_arena (st_replay s)) \<noteq> 0"

text \<open>The number of records up to the target, of records numbered from \<open>n\<close> on.\<close>

lemma replay_loop_prefix:
  assumes "in_sequence lim n ops" "no_texture ops" "base < n" "unat n + length ops < 2 ^ 64"
    and "represents (st_replay s) d" "same_env e (env_of (replay_ctx s))"
    and "doc_run e d (take (Suc (unat tgt) - unat n) ops) = (OpOk, d')"
  shows "\<exists>s' d''. replay_loop (log_of ops @ after) base tgt s = replay_loop after base tgt s' \<and>
    represents (st_replay s') d'' \<and> unfocused d'' = d' \<and> (st_rnodes s' \<or> \<not> has_arena s) \<and>
    sc_tex (st_replay s') = sc_tex (st_replay s)"
  using assms
proof (induction ops arbitrary: n s d)
  case Nil
  then show ?case by (auto simp: has_arena_def)
next
  case (Cons i ops)
  obtain opcode p plen where i: "i = (opcode, p, plen)" by (cases i)
  have rec: "8 \<le> plen" "scene_get_u64 p 0 = n" "op_is_scene_affecting opcode"
    "opcode = SCENE_OP_CREATE_NODE \<Longrightarrow> scene_get_u32 p 12 \<noteq> 0" "in_sequence lim (n + 1) ops"
    "opcode \<noteq> SCENE_OP_SET_TEXTURE" "no_texture ops"
    using Cons.prems(1,2) by (simp_all add: i op_ok_def)
  note F = log_entry_fields [OF i]
  let ?rest = "log_of ops @ after"
  let ?q = "slice p 0 (unat plen) @ ?rest"
  have q: "agree (unat plen) p ?q" by (rule agree_slice_append)
  have seq: "scene_get_u64 ?q 0 = n"
    using agree_u64 [OF q, of 0] rec(1,2) by (simp add: word_le_nat_alt)
  have "unat n + 1 < 2 ^ 64" using Cons.prems(4) by simp
  then have "unat (n + 1) = unat n + 1" by (simp add: unat_word_ariths(1))
  then have n1: "unat (n + 1) = unat n + 1" "base < n + 1"
    using Cons.prems(3) by (simp_all add: word_less_nat_alt)
  have loop: "replay_loop (log_entry i @ ?rest) base tgt s =
      (if n > tgt then replay_loop ?rest base tgt s
       else case apply_op (replay_ctx s) opcode ?q plen of
          (OpErr _, a) \<Rightarrow> (False, replay_back s a)
        | (OpOk, a) \<Rightarrow> replay_loop ?rest base tgt ((replay_back s a)\<lparr>st_replay_seq := n\<rparr>))"
    using rec(1,3) Cons.prems(3) F
    by (subst replay_loop.simps) (simp add: Let_def seq not_less [symmetric])
  show ?case
  proof (cases "n > tgt")
    case True
    then have "Suc (unat tgt) - unat n = 0" "Suc (unat tgt) - unat (n + 1) = 0"
      using n1 by (simp_all add: word_less_nat_alt)
    then have "\<exists>s' d''. replay_loop ?rest base tgt s = replay_loop after base tgt s' \<and>
        represents (st_replay s') d'' \<and> unfocused d'' = d' \<and> (st_rnodes s' \<or> \<not> has_arena s) \<and>
        sc_tex (st_replay s') = sc_tex (st_replay s)"
      using Cons.prems n1 by (intro Cons.IH [OF rec(5,7) n1(2) _ Cons.prems(5,6)]) simp_all
    then show ?thesis using loop True by simp
  next
    case False
    then have k: "Suc (unat tgt) - unat n = Suc (Suc (unat tgt) - unat (n + 1))"
      using n1 by (simp add: word_less_nat_alt)
    obtain d1 where d1: "outcome (doc_op e opcode p plen d) = (OpOk, d1)"
      "doc_run e d1 (take (Suc (unat tgt) - unat (n + 1)) ops) = (OpOk, d')"
      using Cons.prems(7) unfolding k
      by (simp add: i split: prod.splits op_status.splits)
    have "outcome (doc_op (env_of (replay_ctx s)) opcode p plen d) = (OpOk, d1)"
      using doc_op_same [OF Cons.prems(6) rec(6) refl] d1(1) by simp
    from replay_step [OF Cons.prems(5) this rec(4) q] obtain a d2 where
      a: "apply_op (replay_ctx s) opcode ?q plen = (OpOk, a)" "represents (ac_scene a) d2"
      "unfocused d2 = d1" "same_session s (replay_back s a)" "sc_tex (ac_scene a) = sc_tex (st_replay s)"
      by blast
    let ?s1 = "(replay_back s a)\<lparr>st_replay_seq := n\<rparr>"
    have s1: "same_session s ?s1" using a(4) same_session_upd same_session_trans by blast
    have e1: "same_env e (env_of (replay_ctx ?s1))"
      using Cons.prems(6) same_sessionD [OF s1] by (simp add: same_env_def env_of_def replay_ctx_def)
    have "doc_run e d2 (take (Suc (unat tgt) - unat (n + 1)) ops) = (OpOk, d')"
      using d1 doc_run_same [of e e "take (Suc (unat tgt) - unat (n + 1)) ops" d2 d1] a(3)
        no_texture_take [OF rec(7)] outcome_unfocused [OF d1(1)] by simp
    then have "\<exists>s' d''. replay_loop ?rest base tgt ?s1 = replay_loop after base tgt s' \<and>
        represents (st_replay s') d'' \<and> unfocused d'' = d' \<and> (st_rnodes s' \<or> \<not> has_arena ?s1) \<and>
        sc_tex (st_replay s') = sc_tex (st_replay ?s1)"
      using Cons.prems(4) n1 a(2) e1 by (intro Cons.IH [OF rec(5,7) n1(2)]) (simp_all add: replay_back_def)
    moreover have "has_arena s \<Longrightarrow> has_arena ?s1"
      using apply_op_kept [of "replay_ctx s" opcode ?q plen] a(1)
      by (simp add: kept_def has_arena_def replay_back_def) (simp add: replay_ctx_def)
    moreover have "sc_tex (st_replay ?s1) = sc_tex (st_replay s)" using a(5) by (simp add: replay_back_def)
    ultimately show ?thesis using loop False a(1) by auto
  qed
qed

lemma replay_loop_nil: "replay_loop [] base tgt s = (True, s)"
  by (subst replay_loop.simps) simp

lemma replay_loop_run:
  assumes "in_sequence lim n ops" "no_texture ops" "base < n" "unat n + length ops < 2 ^ 64"
    and "represents (st_replay s) d" "same_env e (env_of (replay_ctx s))"
    and "doc_run e d (take (Suc (unat tgt) - unat n) ops) = (OpOk, d')"
  shows "\<exists>s' d''. replay_loop (log_of ops) base tgt s = (True, s') \<and> represents (st_replay s') d'' \<and>
    unfocused d'' = d' \<and> (st_rnodes s' \<or> \<not> has_arena s)"
  using replay_loop_prefix [OF assms, of "[]"] by (auto simp: replay_loop_nil)

subsection \<open>Seeking in a session\<close>

text \<open>What a run of accepted records leaves in the log: their entries, and no checkpoint while
  there are fewer than the period.\<close>

lemma ingest_all_log:
  assumes "represents (st_live s) d" "\<not> st_dead s" "st_mode s \<noteq> SCENE_MODE_REPLAY"
    and "in_sequence (st_lim s) (st_next_seq s) ops"
    and "doc_session (env_of (live_ctx s True)) d ops = (OpOk, d', rs)"
    and "unat (st_log_records s) + length ops < 4096"
  shows "let s' = snd (ingest_all s now ops) in
     st_log s' = st_log s @ log_of ops \<and> st_ckpts s' = st_ckpts s \<and>
     st_next_seq s' = st_next_seq s + of_nat (length ops) \<and>
     (ops \<noteq> [] \<longrightarrow> st_scene_seq s' = st_next_seq s + of_nat (length ops) - 1) \<and>
     same_env (env_of (live_ctx s' True)) (env_of (live_ctx s True))"
  using assms
proof (induction ops arbitrary: s d rs)
  case (Cons i ops)
  obtain opcode p plen where i: "i = (opcode, p, plen)" by (cases i)
  let ?e = "env_of (live_ctx s True)"
  obtain st1 d1 rs1 where sp: "doc_op ?e opcode p plen d = (st1, d1, rs1)"
    by (cases "doc_op ?e opcode p plen d")
  have st1: "st1 = OpOk" using Cons.prems(5) by (cases st1) (simp_all add: i sp)
  obtain rc1 s1 where ing: "scene_store_ingest s now opcode p plen = (rc1, s1)" by fastforce
  have "mutation_done s opcode p plen (st1, d1, rs1) (rc1, s1)"
    using ingest_mutation_refines [of s d plen p opcode now] Cons.prems
    by (simp add: i sp ing op_ok_def)
  then have S: "represents (st_live s1) d1" "\<not> st_dead s1" "st_mode s1 = st_mode s"
    "env_of (live_ctx s1 True) = ?e\<lparr>ev_seq := scene_get_u64 p 0\<rparr>" "rc1 = 0"
    "st_next_seq s1 = st_next_seq s + 1" "st_log s1 = st_log s @ log_entry i"
    "st_log_records s1 = st_log_records s + 1"
    "(st_log_records s + 1) mod SCENE_CKPT_PERIOD \<noteq> 0 \<Longrightarrow> st_ckpts s1 = st_ckpts s"
    "st_scene_seq s1 = scene_get_u64 p 0"
    by (simp_all add: mutation_done_def st1 log_entry_def i)
  have "ev_lim (env_of (live_ctx s1 True)) = ev_lim ?e" using S(4) by simp
  then have lim: "st_lim s1 = st_lim s" by (simp add: env_of_def live_ctx_def)
  have "unat (st_log_records s + 1) = unat (st_log_records s) + 1"
    using Cons.prems(6) by (simp add: unat_word_ariths(1))
  then have r: "unat (st_log_records s1) = unat (st_log_records s) + 1"
    and "unat ((st_log_records s + 1) mod SCENE_CKPT_PERIOD) = unat (st_log_records s) + 1"
    using S(8) Cons.prems(6) by (simp_all add: unat_mod)
  then have "(st_log_records s + 1) mod SCENE_CKPT_PERIOD \<noteq> 0" by (metis Suc_eq_plus1 nat.distinct(1) unat_0)
  note ck = S(9) [OF this]
  obtain rs2 where rest: "doc_session (env_of (live_ctx s1 True)) d1 ops = (OpOk, d', rs2)"
    using Cons.prems(5) st1 S(4) by (cases "doc_session (env_of (live_ctx s1 True)) d1 ops") (simp add: i sp)
  have "let s' = snd (ingest_all s1 now ops) in
     st_log s' = st_log s1 @ log_of ops \<and> st_ckpts s' = st_ckpts s1 \<and>
     st_next_seq s' = st_next_seq s1 + of_nat (length ops) \<and>
     (ops \<noteq> [] \<longrightarrow> st_scene_seq s' = st_next_seq s1 + of_nat (length ops) - 1) \<and>
     same_env (env_of (live_ctx s' True)) (env_of (live_ctx s1 True))"
    using Cons.prems(3,4,6) S lim r by (intro Cons.IH [OF S(1,2) _ _ rest]) (simp_all add: i)
  moreover have "scene_get_u64 p 0 = st_next_seq s" using Cons.prems(4) by (simp add: i)
  ultimately show ?case
    using S ck by (cases ops) (simp_all add: i ing Let_def same_env_def)
qed (simp add: same_env_def)

lemma new_scene_represents:
  "represents \<lparr>sc_arena = new_arena mem, sc_idm = idmap_init, sc_focus = f, sc_tex = []\<rparr>
     (empty_doc\<lparr>dc_focus := f\<rparr>)"
proof -
  let ?sc = "\<lparr>sc_arena = new_arena mem, sc_idm = idmap_init, sc_focus = f, sc_tex = []\<rparr>"
  have get: "idmap_get idmap_init k = 0" for k
    using idt.get_empty by blast
  have "scene_wf ?sc \<langle>\<rangle> []"
    using new_arena_wf [of mem] get by (simp add: scene_wf_def ids_ok_def idt.invar_empty)
  moreover have "doc_of ?sc \<langle>\<rangle> = empty_doc\<lparr>dc_focus := f\<rparr>"
    using get by (simp add: doc_of_def empty_doc_def)
  ultimately show ?thesis
    unfolding represents_def by (intro exI [of _ "\<langle>\<rangle>"] exI [of _ "[]"]) (simp add: live_ok_def)
qed

lemma build_run:
  assumes "st_log s = log_of ops" "st_ckpts s = []" "in_sequence lim 1 ops" "no_texture ops"
    and "length ops < 2 ^ 63" "same_env e (env_of (live_ctx s True))"
    and "doc_run e empty_doc (take (unat tgt) ops) = (OpOk, d)"
  shows "\<exists>s' d'. replay_build s tgt = (True, s') \<and> represents (st_replay s') d' \<and> unfocused d' = d \<and>
    st_rnodes s'"
proof -
  let ?f = "sc_focus (st_replay s)"
  let ?sc = "\<lparr>sc_arena = new_arena (st_heap s), sc_idm = idmap_init, sc_focus = ?f, sc_tex = []\<rparr>"
  let ?s = "s\<lparr>st_replay := ?sc, st_rnodes := True, st_replay_seq := 0\<rparr>"
  have build: "replay_build s tgt = replay_loop (log_of ops) 0 tgt ?s"
    using assms(1,2) by (cases "st_replay s")
      (simp add: replay_build_def replay_teardown_def replay_apply_log_def Let_def)
  have "same_env e (env_of (replay_ctx ?s))"
    using assms(6) by (simp add: same_env_def env_of_def replay_ctx_def live_ctx_def)
  moreover have "doc_run e (empty_doc\<lparr>dc_focus := ?f\<rparr>) (take (Suc (unat tgt) - unat (1 :: u64)) ops) = (OpOk, d)"
    using assms(7) doc_run_same [of e e "take (unat tgt) ops" "empty_doc\<lparr>dc_focus := ?f\<rparr>" empty_doc]
      no_texture_take [OF assms(4)] by simp
  ultimately have "\<exists>s' d'. replay_loop (log_of ops) 0 tgt ?s = (True, s') \<and> represents (st_replay s') d' \<and>
      unfocused d' = d \<and> (st_rnodes s' \<or> \<not> has_arena ?s)"
    using assms(5) new_scene_represents by (intro replay_loop_run [OF assms(3,4)]) simp_all
  moreover have "has_arena ?s" by (simp add: has_arena_def new_arena_def)
  ultimately show ?thesis using build by metis
qed

text \<open>A session that has not received anything yet.\<close>

definition fresh :: "scene_store \<Rightarrow> bool" where
  "fresh s \<longleftrightarrow> represents (st_live s) empty_doc \<and> st_log s = [] \<and> st_ckpts s = [] \<and> st_log_records s = 0 \<and>
     st_next_seq s = 1 \<and> st_mode s = SCENE_MODE_LIVE \<and> \<not> st_dead s"

lemma same_session_mode: "same_session s s' \<Longrightarrow> st_mode s' = st_mode s \<and> st_dead s' = st_dead s"
  using same_sessionD [of s s'] by simp

text \<open>A session of accepted records: what it ended with, and what it was at a record.\<close>

definition session_of :: "scene_store \<Rightarrow> operation list \<Rightarrow> doc \<Rightarrow> bool" where
  "session_of s ops d \<longleftrightarrow>
     fresh s \<and> in_sequence (st_lim s) 1 ops \<and> no_texture ops \<and> length ops < 4096 \<and>
     outcome (doc_session (env_of (live_ctx s True)) empty_doc ops) = (OpOk, unfocused d)"

definition document_at :: "scene_store \<Rightarrow> operation list \<Rightarrow> nat \<Rightarrow> doc \<Rightarrow> bool" where
  "document_at s ops k d \<longleftrightarrow>
     1 \<le> k \<and> k \<le> length ops \<and>
     outcome (doc_session (env_of (live_ctx s True)) empty_doc (take k ops)) = (OpOk, unfocused d)"

abbreviation replay_of :: "scene_store \<Rightarrow> u64 \<Rightarrow> operation list \<Rightarrow> scene_store" where
  "replay_of s now ops \<equiv> (snd (ingest_all s now ops))\<lparr>st_mode := SCENE_MODE_REPLAY\<rparr>"

lemma session_end:
  assumes "session_of s ops d"
  shows "\<not> st_dead (replay_of s now ops)" "st_mode (snd (ingest_all s now ops)) = SCENE_MODE_LIVE"
    and "\<exists>d'. represents (st_live (replay_of s now ops)) d' \<and> unfocused d' = unfocused d"
    and "st_log (replay_of s now ops) = log_of ops" "st_ckpts (replay_of s now ops) = []"
    "st_next_seq (replay_of s now ops) = of_nat (length ops) + 1"
    "ops \<noteq> [] \<Longrightarrow> st_scene_seq (replay_of s now ops) = of_nat (length ops)"
    "same_env (env_of (live_ctx s True)) (env_of (live_ctx (replay_of s now ops) True))"
proof -
  let ?s0 = "snd (ingest_all s now ops)"
  obtain rc where ing: "ingest_all s now ops = (rc, ?s0)" by (metis surjective_pairing)
  have fr: "represents (st_live s) empty_doc" "\<not> st_dead s" "st_mode s \<noteq> SCENE_MODE_REPLAY"
    "in_sequence (st_lim s) (st_next_seq s) ops" "unat (st_log_records s) + length ops < 4096"
    using assms by (simp_all add: session_of_def fresh_def)
  obtain d' rs where d': "doc_session (env_of (live_ctx s True)) empty_doc ops = (OpOk, d', rs)"
    "unfocused d' = unfocused d"
    using assms by (cases "doc_session (env_of (live_ctx s True)) empty_doc ops") (auto simp: session_of_def)
  note R = ingest_all_refines [OF fr(1-4) d'(1) ing]
  note L = ingest_all_log [OF fr(1-4) d'(1) fr(5), of now]
  show "\<not> st_dead (replay_of s now ops)" "st_mode ?s0 = SCENE_MODE_LIVE"
    using R assms by (auto simp: session_of_def fresh_def)
  show "\<exists>d'. represents (st_live (replay_of s now ops)) d' \<and> unfocused d' = unfocused d"
    using R d'(2) by auto
  show "st_log (replay_of s now ops) = log_of ops" "st_ckpts (replay_of s now ops) = []"
    "st_next_seq (replay_of s now ops) = of_nat (length ops) + 1"
    "ops \<noteq> [] \<Longrightarrow> st_scene_seq (replay_of s now ops) = of_nat (length ops)"
    "same_env (env_of (live_ctx s True)) (env_of (live_ctx (replay_of s now ops) True))"
    using L assms by (simp_all add: Let_def session_of_def fresh_def same_env_def env_of_def live_ctx_def)
qed

text \<open>Entering replay, and seeking any number of times.\<close>

lemma begin_replay_session:
  assumes "session_of s ops d_end"
  shows "\<exists>s1. scene_store_begin_replay (snd (ingest_all s now ops)) = (0, s1) \<and>
     same_session (replay_of s now ops) s1"
proof -
  let ?s = "replay_of s now ops"
  note E = session_end [OF assms, of now]
  have S: "in_sequence (st_lim s) 1 ops" "no_texture ops" "length ops < 2 ^ 63"
    using assms by (simp_all add: session_of_def)
  obtain s1 where b: "replay_build ?s 0 = (True, s1)"
    using build_run [OF E(4,5) S E(8), of 0 "unfocused empty_doc"] by auto
  then have "same_session ?s s1" using replay_build_same [of ?s 0] by simp
  then show ?thesis using b E(1,2) by (simp add: scene_store_begin_replay_def)
qed

lemma seek_session:
  assumes sess: "session_of s ops d_end" and at: "document_at s ops k d"
    and s1: "same_session (replay_of s now ops) s1"
  shows "\<exists>s2 d'. scene_store_seek_to s1 (of_nat k) = (0, s2) \<and> displays s2 d' \<and>
     unfocused d' = unfocused d \<and> same_session (replay_of s now ops) s2"
proof -
  let ?s = "replay_of s now ops" and ?e = "env_of (live_ctx s True)"
  note E = session_end [OF sess, of now]
  note D = same_sessionD [OF s1] same_session_mode [OF s1]
  have S: "in_sequence (st_lim s) 1 ops" "no_texture ops" "length ops < 2 ^ 63"
    using sess by (simp_all add: session_of_def)
  have k: "unat (of_nat k :: u64) = k" "unat (of_nat (length ops) :: u64) = length ops"
    using at S(3) by (simp_all add: unat_of_nat_small document_at_def)
  have run: "doc_run ?e empty_doc (take k ops) = (OpOk, unfocused d)"
    using doc_session_run [OF no_texture_take [OF S(2)], of ?e empty_doc k] at
    by (simp add: document_at_def)
  have e1: "same_env ?e (env_of (live_ctx s1 True))"
    using D E(8) by (simp add: env_of_def live_ctx_def)
  have log: "st_log s1 = log_of ops" "st_ckpts s1 = []" using D E(4,5) by simp_all
  obtain s2 d' where s2: "replay_build s1 (of_nat k) = (True, s2)" "represents (st_replay s2) d'"
    "unfocused d' = unfocused d" "st_rnodes s2"
    using build_run [OF log S e1, of "of_nat k" "unfocused d"] run k by auto
  have clamp: "\<not> (of_nat k :: u64) < 1" "\<not> (of_nat k :: u64) > of_nat (length ops)"
    using at by (simp_all add: word_less_nat_alt k document_at_def)
  have seek: "scene_store_seek_to s1 (of_nat k) = (0, s2)"
    using D E(1,6) s2(1) clamp by (simp add: scene_store_seek_to_def Let_def)
  have ss: "same_session s1 s2" using replay_build_same [of s1 "of_nat k"] s2(1) by simp
  then have "st_mode s2 = SCENE_MODE_REPLAY" using same_session_mode [OF ss] D by simp
  then have "displays s2 d'" using s2(2,4) by (simp add: displays_def viewed_def scene_store_in_replay_def)
  then show ?thesis using seek s2(3) same_session_trans [OF s1 ss] by blast
qed

subsection \<open>Textures\<close>

text \<open>Replay rebuilds the scene with an empty texture registry, so a SET_TEXTURE that was accepted
  is refused, and every seek to it or beyond it fails.\<close>

lemma set_texture_refused:
  assumes "sc_tex (ac_scene a) = []"
  shows "\<exists>x. apply_op a SCENE_OP_SET_TEXTURE q plen = (OpErr x, a)"
  using assms by (auto simp: apply_op_def op_set_texture_def Let_def split: option.split)

lemma replay_loop_texture:
  assumes i: "i = (SCENE_OP_SET_TEXTURE, p, plen)" and len: "8 \<le> plen" and seq: "scene_get_u64 p 0 = n"
    and "base < n" "sc_tex (st_replay s) = []"
  shows "if n > tgt then replay_loop (log_entry i) base tgt s = (True, s)
         else fst (replay_loop (log_entry i) base tgt s) = False"
proof -
  note F = log_entry_fields(1,2,4) [OF i, of "[]"] log_entry_fields(3) [OF i]
  have q: "agree (unat plen) p (slice p 0 (unat plen))"
    using agree_slice_append [of "unat plen" p "[]"] by simp
  have s: "scene_get_u64 (slice p 0 (unat plen)) 0 = n"
    using agree_u64 [OF q, of 0] seq len by (simp add: word_le_nat_alt)
  obtain x where x: "apply_op (replay_ctx s) SCENE_OP_SET_TEXTURE (slice p 0 (unat plen)) plen = (OpErr x, replay_ctx s)"
    using set_texture_refused [of "replay_ctx s"] assms(5) by (auto simp: replay_ctx_def)
  have "op_is_scene_affecting SCENE_OP_SET_TEXTURE" by (simp add: op_is_scene_affecting_def)
  then have "replay_loop (log_entry i) base tgt s =
      (if n > tgt then (True, s) else (False, replay_back s (replay_ctx s)))"
    using F len assms(4) x
    by (subst replay_loop.simps) (simp add: Let_def s replay_loop_nil not_less [symmetric])
  then show ?thesis by simp
qed

text \<open>The log of a session that ends with the first SET_TEXTURE.\<close>

lemma build_texture:
  assumes "st_log s = log_of (ops @ [(SCENE_OP_SET_TEXTURE, p, plen)])" "st_ckpts s = []"
    and "in_sequence lim 1 ops" "no_texture ops" "length ops < 2 ^ 62"
    and "8 \<le> plen" "scene_get_u64 p 0 = of_nat (Suc (length ops))"
    and "same_env e (env_of (live_ctx s True))" "fst (doc_run e empty_doc ops) = OpOk"
    and tgt: "tgt = 0 \<or> tgt = of_nat (Suc (length ops))"
  shows "fst (replay_build s tgt) \<longleftrightarrow> tgt = 0"
proof -
  let ?i = "(SCENE_OP_SET_TEXTURE, p, plen)" and ?n = "of_nat (Suc (length ops)) :: u64"
  let ?f = "sc_focus (st_replay s)"
  let ?sc = "\<lparr>sc_arena = new_arena (st_heap s), sc_idm = idmap_init, sc_focus = ?f, sc_tex = []\<rparr>"
  let ?s = "s\<lparr>st_replay := ?sc, st_rnodes := True, st_replay_seq := 0\<rparr>"
  have build: "replay_build s tgt = replay_loop (log_of ops @ log_entry ?i) 0 tgt ?s"
    using assms(1,2) by (cases "st_replay s")
      (simp add: replay_build_def replay_teardown_def replay_apply_log_def Let_def)
  have n: "unat ?n = Suc (length ops)" using assms(5) by (intro unat_of_nat_small) simp
  have e: "same_env e (env_of (replay_ctx ?s))"
    using assms(8) by (simp add: same_env_def env_of_def replay_ctx_def live_ctx_def)
  have "fst (doc_run e empty_doc (take (unat tgt) ops)) = OpOk"
    using tgt n assms(9) by auto
  then obtain d where "doc_run e (empty_doc\<lparr>dc_focus := ?f\<rparr>) (take (Suc (unat tgt) - unat (1 :: u64)) ops) = (OpOk, d)"
    using doc_run_same [of e e "take (unat tgt) ops" "empty_doc\<lparr>dc_focus := ?f\<rparr>" empty_doc]
      no_texture_take [OF assms(4)] by (cases "doc_run e empty_doc (take (unat tgt) ops)") simp
  then have "\<exists>s' d'. replay_loop (log_of ops @ log_entry ?i) 0 tgt ?s = replay_loop (log_entry ?i) 0 tgt s' \<and>
      represents (st_replay s') d' \<and> unfocused d' = d \<and> (st_rnodes s' \<or> \<not> has_arena ?s) \<and>
      sc_tex (st_replay s') = sc_tex (st_replay ?s)"
    using assms(5) new_scene_represents e by (intro replay_loop_prefix [OF assms(3,4)]) simp_all
  then obtain s' where s': "replay_build s tgt = replay_loop (log_entry ?i) 0 tgt s'" "sc_tex (st_replay s') = []"
    using build by auto
  have "0 < ?n" using n by (simp add: word_less_nat_alt)
  then show ?thesis
    using replay_loop_texture [OF refl assms(6,7) _ s'(2), of 0 tgt] s'(1) tgt by auto
qed

lemma in_sequence_append:
  "in_sequence lim n (ops @ ops') \<longleftrightarrow> in_sequence lim n ops \<and> in_sequence lim (n + of_nat (length ops)) ops'"
  by (induction ops arbitrary: n) (auto simp: add.assoc)

lemma doc_session_prefix:
  "fst (doc_session e d (ops @ ops')) = OpOk \<Longrightarrow> fst (doc_session e d ops) = OpOk"
proof (induction ops arbitrary: e d)
  case (Cons i ops)
  obtain opcode p plen where i: "i = (opcode, p, plen)" by (cases i)
  obtain st d1 rs where op: "doc_op e opcode p plen d = (st, d1, rs)" by (cases "doc_op e opcode p plen d")
  show ?case
    using Cons.prems Cons.IH [of "e\<lparr>ev_seq := scene_get_u64 p 0\<rparr>" d1]
    by (cases st) (simp_all add: i op split_beta)
qed simp

lemma texture_session_not_replayable:
  assumes fr: "fresh s" and seq: "in_sequence (st_lim s) 1 (ops @ [(SCENE_OP_SET_TEXTURE, p, plen)])"
    and no: "no_texture ops" and len: "length ops < 4095"
    and acc: "doc_session (env_of (live_ctx s True)) empty_doc (ops @ [(SCENE_OP_SET_TEXTURE, p, plen)]) = (OpOk, d, rs)"
    and beg: "scene_store_begin_replay (snd (ingest_all s now (ops @ [(SCENE_OP_SET_TEXTURE, p, plen)]))) = (r1, s1)"
  shows "r1 = 0 \<and> fst (scene_store_seek_to s1 (of_nat (Suc (length ops)))) = -1"
proof -
  let ?ops = "ops @ [(SCENE_OP_SET_TEXTURE, p, plen)]" and ?e = "env_of (live_ctx s True)"
  let ?s0 = "snd (ingest_all s now ?ops)" and ?n = "of_nat (Suc (length ops)) :: u64"
  obtain rc where ing: "ingest_all s now ?ops = (rc, ?s0)" by (metis surjective_pairing)
  have F: "represents (st_live s) empty_doc" "\<not> st_dead s" "st_mode s \<noteq> SCENE_MODE_REPLAY"
    "in_sequence (st_lim s) (st_next_seq s) ?ops" "unat (st_log_records s) + length ?ops < 4096"
    using fr seq len by (simp_all add: fresh_def)
  have R: "\<not> st_dead ?s0" "st_mode ?s0 = SCENE_MODE_LIVE"
    using ingest_all_refines [OF F(1-4) acc ing] fr by (auto simp: fresh_def)
  have L: "st_log ?s0 = log_of ?ops" "st_ckpts ?s0 = []" "st_next_seq ?s0 = ?n + 1"
    "same_env ?e (env_of (live_ctx ?s0 True))"
    using ingest_all_log [OF F(1-4) acc F(5), of now] fr by (simp_all add: Let_def fresh_def same_env_def)
  have I: "in_sequence (st_lim s) 1 ops" "8 \<le> plen" "scene_get_u64 p 0 = ?n"
    using seq by (simp_all add: in_sequence_append)
  have "fst (doc_session ?e empty_doc ops) = OpOk"
    using doc_session_prefix [of ?e empty_doc ops "[(SCENE_OP_SET_TEXTURE, p, plen)]"] acc by simp
  then have run: "fst (doc_run ?e empty_doc ops) = OpOk"
    using doc_session_run [OF no, of ?e empty_doc] by (cases "doc_session ?e empty_doc ops") (metis fst_conv outcome_simp)
  have small: "length ops < 2 ^ 62" using len by simp
  have n: "unat ?n = Suc (length ops)" using len by (intro unat_of_nat_small) simp
  let ?s0r = "?s0\<lparr>st_mode := SCENE_MODE_REPLAY\<rparr>"
  have e0: "same_env ?e (env_of (live_ctx ?s0r True))" using L(4) by (simp add: env_of_def live_ctx_def)
  have "fst (replay_build ?s0r 0)"
    using build_texture [of ?s0r ops p plen "st_lim s" ?e 0] L(1,2) I no small e0 run by simp
  then have b: "r1 = 0" "s1 = snd (replay_build ?s0r 0)"
    using beg R by (auto simp: scene_store_begin_replay_def split: prod.splits bool.splits)
  have ss: "same_session ?s0r s1" using replay_build_same b(2) by simp
  note D = same_sessionD [OF ss] same_session_mode [OF ss]
  have e1: "same_env ?e (env_of (live_ctx s1 True))" using D L(4) by (simp add: env_of_def live_ctx_def)
  have "?n \<noteq> 0" using n by auto
  then have "\<not> fst (replay_build s1 ?n)"
    using build_texture [of s1 ops p plen "st_lim s" ?e ?n] D L(1,2) I no small e1 run by simp
  then obtain s2 where "replay_build s1 ?n = (False, s2)" by (metis prod.collapse)
  moreover have "\<not> ?n < 1" using n by (simp add: word_less_nat_alt)
  ultimately have "fst (scene_store_seek_to s1 ?n) = -1"
    using D R L(3) by (simp add: scene_store_seek_to_def Let_def)
  then show ?thesis using b(1) by simp
qed

end
