(* ===== verification/DiffOk.thy ===== *)
theory DiffOk
  imports Rewind Views
begin

text \<open>
  The difference of two scenes (\<open>scene_rewind_diff\<close>): the merge of the sorted arrays yields
  exactly the nodes that only one side has and the nodes that differ, and applying it to
  the current nodes gives the other ones. The arrays are what the accessibility walk
  collects of the displayed documents.
\<close>

subsection \<open>The merge\<close>

text \<open>A difference, by sets of nodes.\<close>

definition is_diff :: "delta list \<Rightarrow> delta list \<Rightarrow> diff_result \<Rightarrow> bool" where
  "is_diff cur other d \<longleftrightarrow>
     set (df_created d) = {x \<in> set other. dl_id x \<notin> dl_id ` set cur} \<and>
     set (df_destroyed d) = {x \<in> set cur. dl_id x \<notin> dl_id ` set other} \<and>
     set (df_modified d) = {x \<in> set other. \<exists>c \<in> set cur. dl_id c = dl_id x \<and> c \<noteq> x}"

lemma delta_eq_iff:
  "(dl_role c \<noteq> dl_role x \<or> dl_flags c \<noteq> dl_flags x \<or> dl_text_hash c \<noteq> dl_text_hash x \<or>
    dl_rect c \<noteq> dl_rect x) \<longleftrightarrow> c \<noteq> (x :: delta)" if "dl_id c = dl_id x"
  using that by (cases c; cases x) auto

lemma diff_merge_sets:
  "sorted_wrt (<) (map dl_id cs) \<Longrightarrow> sorted_wrt (<) (map dl_id os) \<Longrightarrow>
   set (df_created (diff_merge cs os d)) =
     set (df_created d) \<union> {x \<in> set os. dl_id x \<notin> dl_id ` set cs} \<and>
   set (df_destroyed (diff_merge cs os d)) =
     set (df_destroyed d) \<union> {x \<in> set cs. dl_id x \<notin> dl_id ` set os} \<and>
   set (df_modified (diff_merge cs os d)) =
     set (df_modified d) \<union> {x \<in> set os. \<exists>c \<in> set cs. dl_id c = dl_id x \<and> c \<noteq> x}"
proof (induction cs os d rule: diff_merge.induct)
  case (3 c cs x os d)
  consider "dl_id c = dl_id x" | "dl_id c < dl_id x" | "dl_id c > dl_id x" by fastforce
  then show ?case
  proof cases
    case 1
    then have notin: "dl_id x \<notin> dl_id ` set cs" "dl_id c \<notin> dl_id ` set os"
      using "3.prems" by auto
    have x: "x\<lparr>dl_id := dl_id c\<rparr> = x" using 1 by simp
    show ?thesis
      using "3.IH"(1) [OF 1] "3.prems" 1 notin x delta_eq_iff [OF 1]
      by (auto simp: image_iff)
  next
    case 2
    then have "dl_id c \<notin> dl_id ` set (x # os)"
      using "3.prems" by (fastforce simp: image_iff)
    then show ?thesis using "3.IH"(2) "3.prems" 2 by (auto simp: image_iff)
  next
    case 3
    then have "dl_id x \<notin> dl_id ` set (c # cs)"
      using "3.prems" by (fastforce simp: image_iff)
    then show ?thesis using "3.IH"(3) "3.prems" 3 by (auto simp: image_iff)
  qed
qed auto

lemma sort_key_strict:
  assumes "distinct (map dl_id xs)"
  shows "sorted_wrt (<) (map dl_id (sort_key dl_id xs))"
proof -
  have "distinct (map dl_id (sort_key dl_id xs))"
    using assms by (simp add: distinct_map)
  then show ?thesis by (simp add: strict_sorted_iff)
qed

lemma snap_diff_is_diff:
  assumes "distinct (map dl_id cur)" "distinct (map dl_id other)"
  shows "is_diff cur other (snap_diff cur other)"
  using diff_merge_sets [OF sort_key_strict [OF assms(1)] sort_key_strict [OF assms(2)]]
  by (simp add: is_diff_def snap_diff_def)

text \<open>Applying a difference.\<close>

definition patch :: "diff_result \<Rightarrow> delta set \<Rightarrow> delta set" where
  "patch d cur =
     {x \<in> cur. x \<notin> set (df_destroyed d) \<and> dl_id x \<notin> dl_id ` set (df_modified d)} \<union>
     set (df_modified d) \<union> set (df_created d)"

lemma patch_diff:
  assumes "is_diff cur other d" "distinct (map dl_id cur)" "distinct (map dl_id other)"
  shows "patch d (set cur) = set other"
proof -
  have inj: "\<And>x y. x \<in> set other \<Longrightarrow> y \<in> set other \<Longrightarrow> dl_id x = dl_id y \<Longrightarrow> x = y"
    "\<And>x y. x \<in> set cur \<Longrightarrow> y \<in> set cur \<Longrightarrow> dl_id x = dl_id y \<Longrightarrow> x = y"
    using assms(2,3) by (auto simp: distinct_map inj_on_def)
  show ?thesis
  proof (intro set_eqI iffI)
    fix x assume "x \<in> patch d (set cur)"
    then consider "x \<in> set cur" "x \<notin> set (df_destroyed d)" "dl_id x \<notin> dl_id ` set (df_modified d)"
      | "x \<in> set (df_modified d) \<union> set (df_created d)"
      by (auto simp: patch_def)
    then show "x \<in> set other"
    proof cases
      case 1
      then obtain y where y: "y \<in> set other" "dl_id y = dl_id x"
        using assms(1) by (auto simp: is_diff_def)
      have "y = x"
      proof (rule ccontr)
        assume "y \<noteq> x"
        then have "y \<in> set (df_modified d)" using assms(1) y 1(1) by (auto simp: is_diff_def)
        with y(2) 1(3) show False by (metis image_eqI)
      qed
      then show ?thesis using y by simp
    qed (use assms(1) in \<open>auto simp: is_diff_def\<close>)
  next
    fix x assume x: "x \<in> set other"
    show "x \<in> patch d (set cur)"
    proof (cases "\<exists>c \<in> set cur. dl_id c = dl_id x")
      case True
      then obtain c where c: "c \<in> set cur" "dl_id c = dl_id x" by blast
      show ?thesis
      proof (cases "c = x")
        case True
        then have "dl_id x \<notin> dl_id ` set (df_modified d)" "x \<notin> set (df_destroyed d)"
          using assms(1) inj x c by (auto simp: is_diff_def) 
        then show ?thesis using c True by (simp add: patch_def)
      next
        case False
        then have "x \<in> set (df_modified d)" using assms(1) x c by (auto simp: is_diff_def)
        then show ?thesis by (simp add: patch_def)
      qed
    next
      case False
      then have "x \<in> set (df_created d)" using assms(1) x by (auto simp: is_diff_def)
      then show ?thesis by (simp add: patch_def)
    qed
  qed
qed

subsection \<open>The collected nodes\<close>

text \<open>What the service records of a document.\<close>

definition doc_snaps :: "doc \<Rightarrow> delta list" where
  "doc_snaps d = map (\<lambda>(p, k). snap_of (a11y_of d p k)) (a11y_rows d)"

lemma fold_snaps:
  "fold (\<lambda>(p, k) x. snd (snap_cb cap (a11y_of d p k) x)) ps (take cap acc) =
   take cap (acc @ map (\<lambda>(p, k). snap_of (a11y_of d p k)) ps)"
proof (induction ps arbitrary: acc)
  case (Cons c ps)
  obtain p k where c: "c = (p, k)" by fastforce
  have "snd (snap_cb cap (a11y_of d p k) (take cap acc)) = take cap (acc @ [snap_of (a11y_of d p k)])"
    by (auto simp: snap_cb_def)
  then show ?case using Cons [of "acc @ [snap_of (a11y_of d p k)]"] by (simp add: c)
qed simp

lemma collect_doc:
  assumes "displays s d"
  shows "collect_arena_snaps s = take (ar_count (sc_arena (st_live s)) + 16) (doc_snaps d)"
  using a11y_walk_doc [OF assms, of "snap_cb (ar_count (sc_arena (st_live s)) + 16)" "[]"]
    fold_snaps [of "ar_count (sc_arena (st_live s)) + 16" d "a11y_rows d" "[]"]
  by (simp add: collect_arena_snaps_def doc_snaps_def snap_cb_def Let_def)

text \<open>The ids of a displayed document are distinct.\<close>

lemma displayed_distinct:
  assumes "displays s d"
  shows "distinct (map dl_id (doc_snaps d))"
proof -
  obtain t fs where t: "scene_wf (viewed s) t fs" "d = doc_of (viewed s) t"
    using assms by (rule viewedE)
  have "distinct (map (\<lambda>c. nd_id (cell (viewed s) c)) (preorder t))"
    using wfD(6) [OF t(1)] ids_inj [OF t(1)] by (simp add: distinct_map)
  then have "distinct (preorder (dc_tree d))" unfolding t(2) preorder_slots .
  then have "distinct (map snd (doc_rows d))" by (simp add: map_snd_rows)
  then have "distinct (map snd (a11y_rows d))"
    by (simp add: a11y_rows_def distinct_map_filter)
  moreover have "map dl_id (doc_snaps d) = map snd (a11y_rows d)"
    by (auto simp: doc_snaps_def snap_of_def a11y_of_def Let_def)
  ultimately show ?thesis by simp
qed

lemma rewind_diff_doc:
  assumes "displays (rwd_store rwd) d1" "rwd_in_replay rwd" "other \<le> st_scene_seq (rwd_store rwd)"
    and "scene_rewind_seek rwd other = (0, rwd1)" "displays (rwd_store rwd1) d2"
    and "length (doc_snaps d1) \<le> ar_count (sc_arena (st_live (rwd_store rwd))) + 16"
    and "length (doc_snaps d2) \<le> ar_count (sc_arena (st_live (rwd_store rwd1))) + 16"
  shows "\<exists>df. fst (scene_rewind_diff rwd other) = Some df \<and> is_diff (doc_snaps d1) (doc_snaps d2) df \<and>
    patch df (set (doc_snaps d1)) = set (doc_snaps d2)"
proof -
  let ?df = "snap_diff (doc_snaps d1) (doc_snaps d2)"
  have "fst (scene_rewind_diff rwd other) = Some ?df"
    using assms(2,3,4,6,7) collect_doc [OF assms(1)] collect_doc [OF assms(5)]
    by (simp add: scene_rewind_diff_def Let_def not_less [symmetric] split: prod.split)
  moreover have "is_diff (doc_snaps d1) (doc_snaps d2) ?df"
    using displayed_distinct [OF assms(1)] displayed_distinct [OF assms(5)] by (rule snap_diff_is_diff)
  ultimately show ?thesis
    using patch_diff displayed_distinct [OF assms(1)] displayed_distinct [OF assms(5)] by blast
qed

end
