(* ===== verification/RewindOk.thy ===== *)
theory RewindOk
  imports ReplayOk DiffOk
begin

text \<open>
  The replay service over a session: stepping to any record shows the document of that
  record, and the difference of two positions is the difference of their documents.
\<close>

lemma doc_snaps_unfocused:
  assumes "unfocused d' = unfocused d"
  shows "doc_snaps d' = doc_snaps d"
proof -
  obtain f where "d' = d\<lparr>dc_focus := f\<rparr>" using assms by (rule unfocusedE)
  then show ?thesis by (simp add: doc_snaps_def a11y_rows_def a11y_of_def)
qed

lemma live_count:
  assumes "represents sc d"
  shows "ar_count (sc_arena sc) = size (dc_tree d)"
  using assms wfD(8) by (fastforce simp: represents_def doc_of_def)

text \<open>The rewind state of a session in replay.\<close>

definition rewinding :: "scene_store \<Rightarrow> u64 \<Rightarrow> operation list \<Rightarrow> scene_rewind \<Rightarrow> bool" where
  "rewinding s now ops rwd \<longleftrightarrow>
     rwd_in_replay rwd \<and> same_session (replay_of s now ops) (rwd_store rwd)"

lemma rewind_enter:
  assumes "session_of s ops d_end"
  shows "\<exists>rwd. scene_rewind_enter_replay (scene_rewind_new (snd (ingest_all s now ops))) = (0, rwd) \<and>
     rewinding s now ops rwd"
  using begin_replay_session [OF assms, of now]
  by (auto simp: scene_rewind_enter_replay_def scene_rewind_new_def rewinding_def)

lemma rewind_seek:
  assumes "session_of s ops d_end" "document_at s ops k d" "rewinding s now ops rwd"
  shows "\<exists>rwd' d'. scene_rewind_seek rwd (of_nat k) = (0, rwd') \<and> rewinding s now ops rwd' \<and>
     rwd_pos rwd' = of_nat k \<and> displays (rwd_store rwd') d' \<and> unfocused d' = unfocused d"
  using seek_session [OF assms(1,2), of now "rwd_store rwd"] assms(3)
  by (auto simp: scene_rewind_seek_def rewinding_def)

text \<open>Enter replay, seek to record \<open>j\<close>, ask for the difference to record \<open>k\<close>.\<close>

lemma rewind_history:
  assumes sess: "session_of s ops d_end"
    and j: "document_at s ops j dj" and k: "document_at s ops k dk"
    and enter: "scene_rewind_enter_replay (scene_rewind_new (snd (ingest_all s now ops))) = (r0, w0)"
    and seek: "scene_rewind_seek w0 (of_nat j) = (r1, w1)"
    and fits: "length (doc_snaps dj) \<le> size (dc_tree d_end) + 16"
      "length (doc_snaps dk) \<le> size (dc_tree d_end) + 16"
  shows "\<exists>df. fst (scene_rewind_diff w1 (of_nat k)) = Some df \<and> is_diff (doc_snaps dj) (doc_snaps dk) df \<and>
     patch df (set (doc_snaps dj)) = set (doc_snaps dk)"
proof -
  let ?s = "replay_of s now ops"
  have w0: "rewinding s now ops w0" using rewind_enter [OF sess, of now] enter by auto
  obtain dj' where w1: "rewinding s now ops w1" "displays (rwd_store w1) dj'" "unfocused dj' = unfocused dj"
    using rewind_seek [OF sess j w0] seek by auto
  obtain w2 dk' where w2: "scene_rewind_seek w1 (of_nat k) = (0, w2)" "rewinding s now ops w2"
    "displays (rwd_store w2) dk'" "unfocused dk' = unfocused dk"
    using rewind_seek [OF sess k w1(1)] by blast
  have kk: "k \<le> length ops" "ops \<noteq> []" "unat (of_nat k :: u64) = k" "unat (of_nat (length ops) :: u64) = length ops"
    using k sess by (auto simp: document_at_def session_of_def unat_of_nat_small)
  then have "of_nat k \<le> st_scene_seq (rwd_store w1)"
    using session_end(7) [OF sess kk(2), of now] same_sessionD [of ?s "rwd_store w1"] w1(1)
    by (simp add: rewinding_def word_le_nat_alt)
  moreover have "ar_count (sc_arena (st_live (rwd_store w))) = size (dc_tree d_end)"
    if "rewinding s now ops w" for w
  proof -
    obtain d' where d': "represents (st_live ?s) d'" "unfocused d' = unfocused d_end"
      using session_end(3) [OF sess] by blast
    then have "dc_tree d' = dc_tree d_end" by (auto elim: unfocusedE)
    then show ?thesis
      using live_count [OF d'(1)] same_sessionD [of ?s "rwd_store w"] that by (simp add: rewinding_def)
  qed
  ultimately show ?thesis
    using rewind_diff_doc [OF w1(2) _ _ w2(1,3)] w1(1) w2(2) fits
      doc_snaps_unfocused [OF w1(3)] doc_snaps_unfocused [OF w2(4)]
    by (simp add: rewinding_def)
qed

end
