(* ===== verification/Lock.thy ===== *)
theory Lock
  imports Client "HOL-Library.Signed_Division"
begin

text \<open>
  The desktop lock of \<open>src/scene_shell.c\<close>: the lock screen built through the client, the keyboard
  of a locked desktop, and unlocking.

  The state is the part of \<open>struct scene_shell\<close> the lock reads and writes. The password checker
  is a parameter (\<open>None\<close> is no checker), as is the idle clock. The calls of
  \<open>scene_compositor_set_locked\<close> are collected in order; without a compositor there are none.

  The specification is the text typed so far. The lemmas show that the lock is this text: a key
  edits it, and the desktop is unlocked only by Enter on a text the checker accepts.
\<close>

subsection \<open>State\<close>

abbreviation LOCK_PWD_MAX :: nat where
  "LOCK_PWD_MAX \<equiv> 64"

abbreviation ID_LOCK_BG :: u32 where "ID_LOCK_BG \<equiv> 61000"
abbreviation ID_LOCK_TITLE :: u32 where "ID_LOCK_TITLE \<equiv> 61001"
abbreviation ID_LOCK_PWD :: u32 where "ID_LOCK_PWD \<equiv> 61002"
abbreviation ID_LOCK_HINT :: u32 where "ID_LOCK_HINT \<equiv> 61003"
abbreviation ROLE_CODE_WINDOW :: u16 where "ROLE_CODE_WINDOW \<equiv> 1"
abbreviation ROLE_CODE_LABEL :: u16 where "ROLE_CODE_LABEL \<equiv> 6"
abbreviation SHELL_STYLE_LABEL :: u32 where "SHELL_STYLE_LABEL \<equiv> 6"
abbreviation SHELL_STYLE_LOCK :: u32 where "SHELL_STYLE_LOCK \<equiv> 8"

record scene_shell =
  sl_client :: scene_client
  sl_has_cp :: bool
  sl_cp_locks :: "bool list"   \<comment> \<open>the calls of \<open>scene_compositor_set_locked\<close>\<close>
  sl_width :: i32
  sl_height :: i32
  sl_built :: bool
  sl_locked :: bool
  sl_lock_built :: bool
  sl_lock_pwd :: bytes   \<comment> \<open>\<open>LOCK_PWD_MAX\<close> bytes\<close>
  sl_lock_pwd_len :: u32
  sl_last_activity :: int

subsection \<open>Building through the client\<close>

definition emit_create :: "scene_shell \<Rightarrow> u32 \<Rightarrow> u32 \<Rightarrow> u16 \<Rightarrow> rect \<Rightarrow> u8 \<Rightarrow> int \<times> scene_shell" where
  "emit_create sh parent nid role r flags =
     (let (rc, c) = scene_client_create_node (sl_client sh) parent nid role r flags
      in (rc, sh\<lparr>sl_client := c\<rparr>))"

definition emit_text :: "scene_shell \<Rightarrow> u32 \<Rightarrow> u32 \<Rightarrow> bytes \<Rightarrow> scene_shell" where
  "emit_text sh nid slot text =
     sh\<lparr>sl_client := snd (scene_client_set_text (sl_client sh) nid slot (Some text) (of_nat (length text)))\<rparr>"

definition emit_rect :: "scene_shell \<Rightarrow> u32 \<Rightarrow> rect \<Rightarrow> scene_shell" where
  "emit_rect sh nid r = sh\<lparr>sl_client := snd (scene_client_set_rect (sl_client sh) nid r)\<rparr>"

definition emit_destroy :: "scene_shell \<Rightarrow> u32 \<Rightarrow> scene_shell" where
  "emit_destroy sh nid = sh\<lparr>sl_client := snd (scene_client_destroy_node (sl_client sh) nid)\<rparr>"

definition emit_style :: "scene_shell \<Rightarrow> u32 \<Rightarrow> u32 \<Rightarrow> scene_shell" where
  "emit_style sh nid style = sh\<lparr>sl_client := snd (scene_client_set_style (sl_client sh) nid style)\<rparr>"

text \<open>Where a box of a size is centred; the division is the signed one of C.\<close>

definition centred :: "i32 \<Rightarrow> int \<Rightarrow> i32" where
  "centred extent n = word_of_int (sint (extent - word_of_int n) sdiv 2)"

definition lock_row :: "scene_shell \<Rightarrow> int \<Rightarrow> int \<Rightarrow> rect" where
  "lock_row sh dy h =
     \<lparr>rx = centred (sl_width sh) 420, ry = centred (sl_height sh) 150 + word_of_int dy,
      rw = 420, rh = word_of_int h\<rparr>"

definition lock_screen :: "scene_shell \<Rightarrow> rect" where
  "lock_screen sh = \<lparr>rx = 0, ry = 0, rw = sl_width sh, rh = sl_height sh\<rparr>"

definition lock_layout :: "scene_shell \<Rightarrow> scene_shell" where
  "lock_layout sh =
     (let s1 = emit_rect sh ID_LOCK_BG (lock_screen sh);
          s2 = emit_rect s1 ID_LOCK_TITLE (lock_row sh 22 26);
          s3 = emit_rect s2 ID_LOCK_PWD (lock_row sh 66 26)
      in emit_rect s3 ID_LOCK_HINT (lock_row sh 104 20))"

text \<open>One dot per character typed.\<close>

definition lock_show_pwd :: "scene_shell \<Rightarrow> scene_shell" where
  "lock_show_pwd sh = emit_text sh ID_LOCK_PWD 1 (replicate (unat (sl_lock_pwd_len sh)) 0x7F)"

definition lock_build :: "scene_shell \<Rightarrow> int \<times> scene_shell" where
  "lock_build sh =
     (case emit_create sh SCENE_NO_PARENT ID_LOCK_BG ROLE_CODE_WINDOW (lock_screen sh) SCENE_FLAG_VISIBLE of
        (r1, s1) \<Rightarrow> if r1 \<noteq> 0 then (-1, s1) else
      (case emit_create (emit_style s1 ID_LOCK_BG SHELL_STYLE_LOCK) ID_LOCK_BG ID_LOCK_TITLE ROLE_CODE_LABEL
              (lock_row sh 22 26) SCENE_FLAG_VISIBLE of
        (r2, s2) \<Rightarrow> if r2 \<noteq> 0 then (-1, s2) else
      (case emit_create (emit_style s2 ID_LOCK_TITLE SHELL_STYLE_LABEL) ID_LOCK_BG ID_LOCK_PWD ROLE_CODE_LABEL
              (lock_row sh 66 26) SCENE_FLAG_VISIBLE of
        (r3, s3) \<Rightarrow> if r3 \<noteq> 0 then (-1, s3) else
      (case emit_create (emit_style s3 ID_LOCK_PWD SHELL_STYLE_LABEL) ID_LOCK_BG ID_LOCK_HINT ROLE_CODE_LABEL
              (lock_row sh 104 20) SCENE_FLAG_VISIBLE of
        (r4, s4) \<Rightarrow> if r4 \<noteq> 0 then (-1, s4) else
          (let s5 = emit_style s4 ID_LOCK_HINT SHELL_STYLE_LABEL;
               s6 = emit_text s5 ID_LOCK_TITLE 1 (ascii ''screen locked'');
               s7 = emit_text s6 ID_LOCK_HINT 1 (ascii ''enter password'')
           in (0, lock_show_pwd s7))))))"

definition cp_set_locked :: "bool \<Rightarrow> scene_shell \<Rightarrow> scene_shell" where
  "cp_set_locked on sh = (if sl_has_cp sh then sh\<lparr>sl_cp_locks := sl_cp_locks sh @ [on]\<rparr> else sh)"

subsection \<open>Locking and unlocking\<close>

definition scene_shell_lock :: "scene_shell \<Rightarrow> int \<Rightarrow> scene_shell" where
  "scene_shell_lock sh now =
     (if \<not> sl_built sh \<or> sl_locked sh then sh
      else
        let (r, s1) = lock_build (sh\<lparr>sl_locked := True, sl_lock_pwd_len := 0\<rparr>);
            s2 = s1\<lparr>sl_lock_built := (r = 0)\<rparr>
        in (cp_set_locked True s2)\<lparr>sl_last_activity := now\<rparr>)"

definition scene_shell_locked :: "scene_shell \<Rightarrow> bool" where
  "scene_shell_locked sh = sl_locked sh"

definition lock_unlock :: "scene_shell \<Rightarrow> scene_shell" where
  "lock_unlock sh =
     (if \<not> sl_locked sh then sh
      else
        let s1 = sh\<lparr>sl_locked := False\<rparr>;
            s2 = (if sl_lock_built s1 then (emit_destroy s1 ID_LOCK_BG)\<lparr>sl_lock_built := False\<rparr> else s1)
        in (cp_set_locked False s2)\<lparr>sl_lock_pwd_len := 0\<rparr>)"

subsection \<open>Keys\<close>

definition ovl_letter :: "u32 \<Rightarrow> u8" where
  "ovl_letter code =
     (case map_of
        [(30, CHR ''a''), (48, CHR ''b''), (46, CHR ''c''), (32, CHR ''d''), (18, CHR ''e''),
         (33, CHR ''f''), (34, CHR ''g''), (35, CHR ''h''), (23, CHR ''i''), (36, CHR ''j''),
         (37, CHR ''k''), (38, CHR ''l''), (50, CHR ''m''), (49, CHR ''n''), (24, CHR ''o''),
         (25, CHR ''p''), (16, CHR ''q''), (19, CHR ''r''), (31, CHR ''s''), (20, CHR ''t''),
         (22, CHR ''u''), (47, CHR ''v''), (17, CHR ''w''), (45, CHR ''x''), (21, CHR ''y''),
         (44, CHR ''z'')] code of
        Some c \<Rightarrow> of_char c
      | None \<Rightarrow> 0)"

definition ovl_printable_char :: "u32 \<Rightarrow> u8 \<Rightarrow> u8" where
  "ovl_printable_char code mods =
     (if 2 \<le> code \<and> code \<le> 10 then 49 + ucast (code - 2)
      else if code = 11 then 48
      else if code = 57 then 32
      else if code = 52 then 46
      else
        let c = ovl_letter code
        in if c = 0 then 0 else if mods AND 1 \<noteq> 0 then c - 97 + 65 else c)"

text \<open>The hint and the dots, on a lock screen that was built.\<close>

definition lock_prompt :: "scene_shell \<Rightarrow> scene_shell" where
  "lock_prompt sh =
     (if sl_lock_built sh then lock_show_pwd (emit_text sh ID_LOCK_HINT 1 (ascii ''enter password'')) else sh)"

definition lock_enter :: "(bytes \<Rightarrow> bool) option \<Rightarrow> scene_shell \<Rightarrow> scene_shell" where
  "lock_enter check sh =
     (let n0 = sl_lock_pwd_len sh;
          n = (if n0 \<ge> 64 then 63 else n0);
          pwd = slice (sl_lock_pwd sh) 0 (unat n);
          ok = (case check of Some f \<Rightarrow> f pwd | None \<Rightarrow> False)
      in if ok then lock_unlock sh
         else lock_show_pwd ((emit_text sh ID_LOCK_HINT 1 (ascii ''wrong password''))\<lparr>sl_lock_pwd_len := 0\<rparr>))"

definition lock_key :: "(bytes \<Rightarrow> bool) option \<Rightarrow> int \<Rightarrow> scene_shell \<Rightarrow> u32 \<Rightarrow> u8 \<Rightarrow> u8 \<Rightarrow> scene_shell" where
  "lock_key check now sh0 key_code state modifiers =
     (if state = 0 then sh0
      else
        let sh = sh0\<lparr>sl_last_activity := now\<rparr>
        in if key_code = 28 then lock_enter check sh
           else if key_code = 14 then
             lock_prompt (if sl_lock_pwd_len sh > 0 then sh\<lparr>sl_lock_pwd_len := sl_lock_pwd_len sh - 1\<rparr> else sh)
           else if sl_lock_pwd_len sh < 63 then
             (let c = ovl_printable_char key_code modifiers; n = unat (sl_lock_pwd_len sh)
              in if c \<noteq> 0 then
                   lock_prompt (sh\<lparr>sl_lock_pwd := (sl_lock_pwd sh)[n := c, Suc n := 0],
                                   sl_lock_pwd_len := sl_lock_pwd_len sh + 1\<rparr>)
                 else sh)
           else sh)"

text \<open>Keys reach \<open>lock_key\<close> as long as the desktop is locked.\<close>

type_synonym key_event = "int \<times> u32 \<times> u8 \<times> u8"   \<comment> \<open>time, key code, state, modifiers\<close>

fun lock_keys :: "(bytes \<Rightarrow> bool) option \<Rightarrow> scene_shell \<Rightarrow> key_event list \<Rightarrow> scene_shell" where
  "lock_keys check sh [] = sh"
| "lock_keys check sh ((now, key_code, state, modifiers) # ks) =
     (if sl_locked sh then lock_keys check (lock_key check now sh key_code state modifiers) ks else sh)"

subsection \<open>The text typed\<close>

definition type_key :: "(bytes \<Rightarrow> bool) option \<Rightarrow> bytes \<Rightarrow> u32 \<Rightarrow> u8 \<Rightarrow> u8 \<Rightarrow> bytes option" where
  "type_key check typed key_code state modifiers =
     (if state = 0 then Some typed
      else if key_code = 28 then
        (case check of Some f \<Rightarrow> if f typed then None else Some [] | None \<Rightarrow> Some [])
      else if key_code = 14 then Some (butlast typed)
      else
        let c = ovl_printable_char key_code modifiers
        in Some (if c \<noteq> 0 \<and> length typed < 63 then typed @ [c] else typed))"

fun type_keys :: "(bytes \<Rightarrow> bool) option \<Rightarrow> bytes \<Rightarrow> key_event list \<Rightarrow> bytes option" where
  "type_keys check typed [] = Some typed"
| "type_keys check typed ((now, key_code, state, modifiers) # ks) =
     (case type_key check typed key_code state modifiers of
        None \<Rightarrow> None
      | Some typed' \<Rightarrow> type_keys check typed' ks)"

definition lock_typed :: "scene_shell \<Rightarrow> bytes" where
  "lock_typed sh = take (unat (sl_lock_pwd_len sh)) (sl_lock_pwd sh)"

definition lock_ok :: "scene_shell \<Rightarrow> bool" where
  "lock_ok sh \<longleftrightarrow> length (sl_lock_pwd sh) = LOCK_PWD_MAX \<and> sl_lock_pwd_len sh < 64"

subsection \<open>The lock is the text typed\<close>

lemma lock_fields [simp]:
  "sl_locked (emit_text sh nid slot m) = sl_locked sh" "sl_lock_pwd (emit_text sh nid slot m) = sl_lock_pwd sh"
  "sl_lock_pwd_len (emit_text sh nid slot m) = sl_lock_pwd_len sh"
  "sl_locked (lock_show_pwd sh) = sl_locked sh" "sl_lock_pwd (lock_show_pwd sh) = sl_lock_pwd sh"
  "sl_lock_pwd_len (lock_show_pwd sh) = sl_lock_pwd_len sh"
  "sl_locked (lock_prompt sh) = sl_locked sh" "sl_lock_pwd (lock_prompt sh) = sl_lock_pwd sh"
  "sl_lock_pwd_len (lock_prompt sh) = sl_lock_pwd_len sh"
  "sl_locked (cp_set_locked b sh) = sl_locked sh" "sl_lock_pwd (cp_set_locked b sh) = sl_lock_pwd sh"
  "sl_lock_pwd_len (cp_set_locked b sh) = sl_lock_pwd_len sh"
  "sl_locked (emit_style sh nid style) = sl_locked sh" "sl_lock_pwd (emit_style sh nid style) = sl_lock_pwd sh"
  "sl_lock_pwd_len (emit_style sh nid style) = sl_lock_pwd_len sh"
  "sl_locked (snd (emit_create sh parent nid role r flags)) = sl_locked sh"
  "sl_lock_pwd (snd (emit_create sh parent nid role r flags)) = sl_lock_pwd sh"
  "sl_lock_pwd_len (snd (emit_create sh parent nid role r flags)) = sl_lock_pwd_len sh"
  by (simp_all add: emit_text_def lock_show_pwd_def lock_prompt_def cp_set_locked_def emit_style_def
      emit_create_def split_def Let_def)

lemma lock_unlocked: "sl_locked sh \<Longrightarrow> \<not> sl_locked (lock_unlock sh) \<and> sl_lock_pwd_len (lock_unlock sh) = 0"
  by (simp add: lock_unlock_def emit_destroy_def Let_def)

lemma lock_key_type:
  assumes ok: "lock_ok sh" "sl_locked sh"
  shows "case type_key check (lock_typed sh) key_code state modifiers of
      Some typed \<Rightarrow> sl_locked (lock_key check now sh key_code state modifiers) \<and>
        lock_ok (lock_key check now sh key_code state modifiers) \<and>
        lock_typed (lock_key check now sh key_code state modifiers) = typed
    | None \<Rightarrow> \<not> sl_locked (lock_key check now sh key_code state modifiers) \<and>
        sl_lock_pwd_len (lock_key check now sh key_code state modifiers) = 0"
proof -
  let ?n = "unat (sl_lock_pwd_len sh)"
  have n: "?n < 64" "length (sl_lock_pwd sh) = 64" using ok(1) by (simp_all add: lock_ok_def word_less_nat_alt)
  have len: "length (lock_typed sh) = ?n" using n by (simp add: lock_typed_def)
  consider (up) "state = 0" | (enter) "state \<noteq> 0" "key_code = 28" | (bksp) "state \<noteq> 0" "key_code = 14"
    | (full) "state \<noteq> 0" "key_code \<notin> {14, 28}" "\<not> sl_lock_pwd_len sh < 63"
    | (char) "state \<noteq> 0" "key_code \<notin> {14, 28}" "sl_lock_pwd_len sh < 63"
    by blast
  then show ?thesis
  proof cases
    case up
    then show ?thesis using ok by (simp add: type_key_def lock_key_def)
  next
    case enter
    have "slice (sl_lock_pwd sh) 0 ?n = lock_typed sh"
      using n by (auto simp: slice_def rd_def lock_typed_def intro!: nth_equalityI)
    moreover have "\<not> 64 \<le> sl_lock_pwd_len sh" using ok(1) by (simp add: lock_ok_def not_le)
    ultimately have e: "lock_enter check (sh\<lparr>sl_last_activity := now\<rparr>) =
        (if (case check of Some f \<Rightarrow> f (lock_typed sh) | None \<Rightarrow> False) then lock_unlock (sh\<lparr>sl_last_activity := now\<rparr>)
         else lock_show_pwd ((emit_text (sh\<lparr>sl_last_activity := now\<rparr>) ID_LOCK_HINT 1 (ascii ''wrong password''))
                \<lparr>sl_lock_pwd_len := 0\<rparr>))"
      by (cases check) (simp_all add: lock_enter_def Let_def)
    show ?thesis
      using enter ok n lock_unlocked [of "sh\<lparr>sl_last_activity := now\<rparr>"]
      by (auto simp: type_key_def lock_key_def e lock_ok_def lock_typed_def split: option.split)
  next
    case bksp
    have "unat (sl_lock_pwd_len sh - 1) = ?n - 1" if "sl_lock_pwd_len sh \<noteq> 0"
      using that by (intro unat_minus_one)
    moreover have "sl_lock_pwd_len sh - 1 < 64" if "sl_lock_pwd_len sh \<noteq> 0"
      using calculation that n(1) by (simp add: word_less_nat_alt)
    ultimately show ?thesis
      using bksp ok n len
      by (auto simp: type_key_def lock_key_def Let_def lock_ok_def lock_typed_def butlast_take word_gt_0)
  next
    case full
    then have "?n = 63" using n(1) by (simp add: word_less_nat_alt)
    then show ?thesis using full ok len by (simp add: type_key_def lock_key_def Let_def lock_ok_def lock_typed_def)
  next
    case char
    then have l: "?n < 63" by (simp add: word_less_nat_alt)
    let ?c = "ovl_printable_char key_code modifiers"
    have u: "unat (sl_lock_pwd_len sh + 1) = Suc ?n" using l by (simp add: unat_word_ariths(1))
    have "take (Suc ?n) ((sl_lock_pwd sh)[?n := ?c, Suc ?n := 0]) = lock_typed sh @ [?c]"
      using l n by (simp add: lock_typed_def take_update_swap take_Suc_conv_app_nth list_update_append)
    moreover have "sl_lock_pwd_len sh + 1 < 64" using u l by (simp add: word_less_nat_alt)
    ultimately show ?thesis
      using char ok n len l u
      by (auto simp: type_key_def lock_key_def Let_def lock_ok_def lock_typed_def)
  qed
qed

lemma lock_keys_unlocked: "\<not> sl_locked sh \<Longrightarrow> lock_keys check sh ks = sh"
  by (cases ks) auto

lemma lock_keys_type:
  "lock_ok sh \<Longrightarrow> sl_locked sh \<Longrightarrow>
   (case type_keys check (lock_typed sh) ks of
      Some typed \<Rightarrow> sl_locked (lock_keys check sh ks) \<and> lock_typed (lock_keys check sh ks) = typed
    | None \<Rightarrow> \<not> sl_locked (lock_keys check sh ks) \<and> sl_lock_pwd_len (lock_keys check sh ks) = 0)"
proof (induction ks arbitrary: sh)
  case (Cons k ks)
  obtain now key_code state modifiers where k: "k = (now, key_code, state, modifiers)" by (cases k)
  note K = lock_key_type [OF Cons.prems, where check = check and key_code = key_code and state = state
      and modifiers = modifiers and now = now]
  show ?case
  proof (cases "type_key check (lock_typed sh) key_code state modifiers")
    case None
    then show ?thesis using K Cons.prems(2) by (simp add: k lock_keys_unlocked)
  next
    case (Some typed)
    let ?sh = "lock_key check now sh key_code state modifiers"
    have "lock_keys check sh (k # ks) = lock_keys check ?sh ks"
      "type_keys check (lock_typed sh) (k # ks) = type_keys check (lock_typed ?sh) ks"
      using K Some Cons.prems(2) by (simp_all add: k)
    then show ?thesis using Cons.IH [of ?sh] K Some by (simp split: option.splits)
  qed
qed simp

text \<open>What locking leaves: a locked desktop with nothing typed.\<close>

lemma lock_build_fields:
  "sl_locked (snd (lock_build sh)) = sl_locked sh \<and> sl_lock_pwd (snd (lock_build sh)) = sl_lock_pwd sh \<and>
   sl_lock_pwd_len (snd (lock_build sh)) = sl_lock_pwd_len sh"
  by (simp add: lock_build_def split_def Let_def)

lemma locked_fresh:
  assumes "sl_built sh" "\<not> sl_locked sh" "length (sl_lock_pwd sh) = LOCK_PWD_MAX"
  shows "sl_locked (scene_shell_lock sh now) \<and> lock_ok (scene_shell_lock sh now) \<and>
    lock_typed (scene_shell_lock sh now) = []"
  using assms lock_build_fields [of "sh\<lparr>sl_locked := True, sl_lock_pwd_len := 0\<rparr>"]
  by (simp add: scene_shell_lock_def lock_ok_def lock_typed_def split_def Let_def)

end
