(* ===== verification/Samples.thy ===== *)
theory Samples
  imports Mutation Reach Views EndToEnd ReplayOk RewindOk Lock
begin

text \<open>
  A small concrete session, for evaluating the theorems on: a panel with one focusable
  child, which carries a text and has the focus. The state of the store is what ingest
  makes of the client's records; what it represents is computed on documents.
\<close>

definition demo_new :: scene_store where
  "demo_new = scene_store_new None 0 (\<lambda>_. zero_node)"

definition demo_env :: env where
  "demo_env =
     \<lparr>ev_lim = scene_default_limits, ev_styles = 0, ev_effects = 0, ev_textures = [],
      ev_seq = 0, ev_events = True\<rparr>"

definition demo_panel :: bytes where
  "demo_panel = [1,0,0,0,0,0,0,0, 255,255,255,255, 5,0,0,0, 1,0, 0,0,0,0, 0,0,0,0, 20,0,0,0, 20,0,0,0, 5]"

definition demo_button :: bytes where
  "demo_button = [2,0,0,0,0,0,0,0, 5,0,0,0, 6,0,0,0, 2,0, 4,0,0,0, 4,0,0,0, 8,0,0,0, 8,0,0,0, 7]"

definition demo_label :: bytes where
  "demo_label = [3,0,0,0,0,0,0,0, 6,0,0,0, 9,0,0,0, 2,0,0,0, 72,105]"

definition demo_focus :: bytes where
  "demo_focus = [4,0,0,0,0,0,0,0, 6,0,0,0]"

definition demo_ops :: "operation list" where
  "demo_ops =
     [(SCENE_OP_CREATE_NODE, demo_panel, 35), (SCENE_OP_CREATE_NODE, demo_button, 35),
      (SCENE_OP_SET_TEXT, demo_label, 22), (SCENE_OP_FOCUS, demo_focus, 12)]"

definition demo_store :: scene_store where
  "demo_store = snd (ingest_all demo_new 0 demo_ops)"

subsection \<open>What it represents\<close>

definition panel_node :: node where
  "panel_node = fresh_node\<lparr>nd_opacity := 255, nd_id := 5, nd_role := 1, nd_flags := 5,
     nd_rect := \<lparr>rx = 0, ry = 0, rw = 20, rh = 20\<rparr>\<rparr>"

definition button_node :: node where
  "button_node = fresh_node\<lparr>nd_opacity := 255, nd_id := 6, nd_role := 2, nd_flags := 7,
     nd_rect := \<lparr>rx = 4, ry = 4, rw = 8, rh = 8\<rparr>,
     nd_texts := [\<lparr>ts_id = 9, ts_data = [72, 105]\<rparr>]\<rparr>"

definition demo_doc :: doc where
  "demo_doc =
     \<lparr>dc_tree = \<langle>\<langle>\<langle>\<rangle>, 6, \<langle>\<rangle>\<rangle>, 5, \<langle>\<rangle>\<rangle>,
      dc_attr = (\<lambda>_. None)(5 \<mapsto> payload panel_node, 6 \<mapsto> payload button_node), dc_focus = 6\<rparr>"

lemmas demo_bytes = demo_panel_def demo_button_def demo_label_def demo_focus_def

lemma demo_env: "env_of (live_ctx demo_new True) = demo_env"
  by (simp add: env_of_def live_ctx_def demo_new_def demo_env_def scene_store_new_def)

lemma demo_new_sel:
  "st_lim demo_new = scene_default_limits" "st_next_seq demo_new = 1" "\<not> st_dead demo_new"
  "st_mode demo_new = SCENE_MODE_LIVE" "\<not> st_input_pending demo_new" "st_out demo_new = oq_empty" "represents (st_live demo_new) empty_doc"
  using new_represents by (simp_all add: demo_new_def scene_store_new_def)

definition demo_records :: "wire_record list" where
  "demo_records =
     [(SCENE_SRV_TEXT_INDEX, [1,0,0,0, 9,0,0,0, 6,0,0,0, 2,0,0,0, 72,105]),
      (SCENE_SRV_INPUT_FOCUS, [3,0,0,0,0,0,0,0, 6,0,0,0, 1])]"

lemma length_demo_panel: "length demo_panel = 35"
  by (simp add: demo_panel_def)

lemma demo_fields:
  "scene_get_u64 demo_panel 0 = 1" "scene_get_u32 demo_panel 8 = SCENE_NO_PARENT"
  "scene_get_u32 demo_panel 12 = 5" "scene_get_u16 demo_panel 16 = 1" "rd demo_panel 34 = 5"
  "get_rect demo_panel 18 = \<lparr>rx = 0, ry = 0, rw = 20, rh = 20\<rparr>"
  "scene_get_u64 demo_button 0 = 2" "scene_get_u32 demo_button 8 = 5"
  "scene_get_u32 demo_button 12 = 6" "scene_get_u16 demo_button 16 = 2" "rd demo_button 34 = 7"
  "get_rect demo_button 18 = \<lparr>rx = 4, ry = 4, rw = 8, rh = 8\<rparr>"
  "scene_get_u64 demo_label 0 = 3" "scene_get_u32 demo_label 8 = 6" "scene_get_u32 demo_label 12 = 9"
  "scene_get_u32 demo_label 16 = 2" "slice demo_label 20 2 = [72, 105]"
  "scene_get_u64 demo_focus 0 = 4" "scene_get_u32 demo_focus 8 = 6"
  by code_simp+

lemmas demo_nodes = panel_node_def button_node_def fresh_node_def zero_node_def payload_def
lemmas doc_steps = doc_op_def doc_create_def doc_set_text_def doc_focus_op_def move_focus_def focus_record_def

definition panel_doc :: doc where
  "panel_doc =
     \<lparr>dc_tree = \<langle>\<langle>\<rangle>, 5, \<langle>\<rangle>\<rangle>, dc_attr = (\<lambda>_. None)(5 \<mapsto> payload panel_node),
      dc_focus = SCENE_NO_PARENT\<rparr>"

definition button_doc :: doc where
  "button_doc =
     \<lparr>dc_tree = \<langle>\<langle>\<langle>\<rangle>, 6, \<langle>\<rangle>\<rangle>, 5, \<langle>\<rangle>\<rangle>,
      dc_attr = (\<lambda>_. None)(5 \<mapsto> payload panel_node, 6 \<mapsto> payload (button_node\<lparr>nd_texts := []\<rparr>)),
      dc_focus = SCENE_NO_PARENT\<rparr>"

lemma demo_create_panel:
  "doc_op demo_env SCENE_OP_CREATE_NODE demo_panel 35 empty_doc = (OpOk, panel_doc, [])"
  by (simp add: doc_steps demo_fields empty_doc_def demo_env_def doc_live_def Let_def
      scene_default_limits_def create_attrs_def demo_nodes panel_doc_def doc_insert_def under_def)

lemma demo_create_button:
  "doc_op (demo_env\<lparr>ev_seq := 1\<rparr>) SCENE_OP_CREATE_NODE demo_button 35 panel_doc = (OpOk, button_doc, [])"
  by (simp add: doc_steps demo_fields demo_env_def doc_live_def Let_def button_doc_def
      scene_default_limits_def create_attrs_def demo_nodes panel_doc_def doc_insert_def under_def)

lemma demo_set_label:
  "doc_op (demo_env\<lparr>ev_seq := 2\<rparr>) SCENE_OP_SET_TEXT demo_label 22 button_doc =
     (OpOk, demo_doc\<lparr>dc_focus := SCENE_NO_PARENT\<rparr>, take 1 demo_records)"
  by (simp add: doc_steps demo_fields demo_env_def doc_live_def Let_def button_doc_def demo_doc_def
      scene_default_limits_def demo_nodes doc_update_def put_text_def demo_records_def) code_simp

lemma demo_set_focus:
  "doc_op (demo_env\<lparr>ev_seq := 3\<rparr>) SCENE_OP_FOCUS demo_focus 12 (demo_doc\<lparr>dc_focus := SCENE_NO_PARENT\<rparr>) =
     (OpOk, demo_doc, drop 1 demo_records)"
  by (simp add: doc_steps demo_fields demo_env_def doc_live_def Let_def demo_doc_def
      scene_default_limits_def demo_nodes demo_records_def) code_simp

lemma demo_session: "doc_session demo_env empty_doc demo_ops = (OpOk, demo_doc, demo_records)"
proof -
  note steps = demo_create_panel demo_create_button demo_set_label demo_set_focus
  show ?thesis
    using append_take_drop_id [of 1 demo_records]
    by (simp add: demo_ops_def steps demo_fields del: append_take_drop_id)
qed

lemma demo_in_sequence: "in_sequence scene_default_limits 1 demo_ops"
  by (simp add: demo_ops_def demo_fields scene_default_limits_def op_ok_def op_is_scene_affecting_def)

lemma demo_store:
  "represents (st_live demo_store) demo_doc" "\<not> st_dead demo_store"
  "st_out demo_store = emit_all oq_empty demo_records" "st_mode demo_store = SCENE_MODE_LIVE"
  "st_lim demo_store = scene_default_limits" "\<not> st_input_pending demo_store"
  using ingest_all_refines [of demo_new empty_doc demo_ops OpOk demo_doc demo_records 0
      "fst (ingest_all demo_new 0 demo_ops)" demo_store]
  by (simp_all add: demo_new_sel demo_env demo_session demo_in_sequence demo_store_def)

lemma reachable_ingest_all:
  "reachable s \<Longrightarrow> list_all op_ok ops \<Longrightarrow> reachable (snd (ingest_all s now ops))"
proof (induction ops arbitrary: s)
  case (Cons i ops)
  obtain opcode p plen where i: "i = (opcode, p, plen)" by (cases i)
  have "reachable (snd (scene_store_ingest s now opcode p plen))"
    using Cons.prems by (intro step [OF _ ingest]) (simp_all add: i op_ok_def)
  then show ?case using Cons by (auto simp: i split: prod.split)
qed simp

lemma demo_reachable: "reachable demo_store"
  unfolding demo_store_def demo_new_def
  by (rule reachable_ingest_all [OF new]) (simp add: demo_ops_def op_ok_def demo_fields)

lemma demo_inv: "store_inv demo_store"
  using demo_reachable by (rule step_sound(2))

lemma pending_emit_all:
  "pending q rs \<Longrightarrow> list_all (\<lambda>(opc, p). length p < 2 ^ 32) rs' \<Longrightarrow> pending (emit_all q rs') (rs @ rs')"
proof (induction rs' arbitrary: q rs)
  case (Cons r rs')
  obtain opc p where r: "r = (opc, p)" by fastforce
  have "pending (emit q opc p) (rs @ [r])" using Cons.prems pending_emit by (simp add: r)
  from Cons.IH [OF this] Cons.prems(2) show ?case by (simp add: emit_all_def r)
qed simp

lemma demo_greeted: "\<exists>f s'. scene_store_out_next_frame (scene_store_welcome demo_store) = (Some f, s')"
proof -
  obtain opc p rs where r: "demo_records = (opc, p) # rs" "list_all (\<lambda>(opc, p). length p < 2 ^ 32) demo_records"
    by (simp add: demo_records_def)
  have q: "pending (st_out demo_store) demo_records"
    using pending_emit_all [OF pending_empty r(2)] by (simp add: demo_store)
  have "\<exists>b. st_out (scene_store_welcome demo_store) = emit (st_out demo_store) SCENE_SRV_WELCOME b \<and> length b < 2 ^ 32"
    unfolding scene_store_welcome_def store_emit_def by (rule exI, rule conjI, simp, simp)
  then obtain b where b: "st_out (scene_store_welcome demo_store) = emit (st_out demo_store) SCENE_SRV_WELCOME b"
    "length b < 2 ^ 32" by blast
  have "pending (st_out (scene_store_welcome demo_store)) ((opc, p) # rs @ [(SCENE_SRV_WELCOME, b)])"
    using pending_emit [OF q b(2)] by (simp add: r(1) b(1))
  from out_next_frame_Cons [OF this] show ?thesis
    by (auto simp: scene_store_out_next_frame_def)
qed

lemma demo_displays: "displays demo_store demo_doc"
  using demo_store by (simp add: displays_def viewed_def scene_store_in_replay_def)

subsection \<open>A client\<close>

definition demo_client :: scene_client where
  "demo_client = scene_client_new\<lparr>cl_conn_open := True, cl_welcomed := True, cl_next_seq := 1,
     cl_lim := scene_default_limits\<rparr>"

definition demo_command :: command where
  "demo_command = Create SCENE_NO_PARENT 5 1 \<lparr>rx = 0, ry = 0, rw = 20, rh = 20\<rparr> 5"

lemma demo_client:
  "ready demo_client" "cl_out demo_client = []" "cl_next_seq demo_client = 1"
  "list_all (sendable demo_client) [demo_command]"
  by (simp_all add: ready_def demo_client_def scene_client_new_def demo_command_def)

lemma demo_command_session:
  "command_session demo_env 1 empty_doc [demo_command] = (OpOk, panel_doc, [])"
  by (simp add: demo_command_def create_command_def demo_env_def doc_live_def empty_doc_def
      scene_default_limits_def doc_insert_def under_def panel_doc_def demo_nodes Let_def)

subsection \<open>Its history\<close>

lemma demo_past:
  "session_of demo_new demo_ops demo_doc" "document_at demo_new demo_ops 2 button_doc"
  "document_at demo_new demo_ops 4 demo_doc"
proof -
  have fr: "fresh demo_new"
    using demo_new_sel by (simp add: fresh_def) (simp add: demo_new_def scene_store_new_def)
  have len: "length demo_ops = 4" by (simp add: demo_ops_def)
  have two: "doc_session demo_env empty_doc (take 2 demo_ops) = (OpOk, button_doc, [])"
    by (simp add: demo_ops_def demo_create_panel demo_create_button demo_fields)
  show "session_of demo_new demo_ops demo_doc"
    using fr len demo_in_sequence
    by (simp add: session_of_def demo_session demo_env demo_new_sel) (simp add: demo_ops_def)
  show "document_at demo_new demo_ops 2 button_doc" "document_at demo_new demo_ops 4 demo_doc"
    using len by (simp_all add: document_at_def demo_env two demo_session)
qed

subsection \<open>A session with a texture\<close>

definition demo_textured :: scene_store where
  "demo_textured = demo_new\<lparr>st_live := (st_live demo_new)\<lparr>sc_tex :=
     [\<lparr>te_ref = 3, te_w = 8, te_h = 8, te_fmt = 0, te_opaque = 1\<rparr>]\<rparr>\<rparr>"

definition demo_image :: bytes where
  "demo_image = [2,0,0,0,0,0,0,0, 5,0,0,0, 3,0,0,0, 0,0,0,0, 0,0,0,0, 8,0,0,0, 8,0,0,0, 0, 255]"

lemma represents_tex: "represents (sc\<lparr>sc_tex := ts\<rparr>) d = represents sc d"
proof -
  have "doc_of (sc\<lparr>sc_tex := ts\<rparr>) t = doc_of sc t" for t
    by (simp add: doc_of_def Let_def cong: if_cong)
  then show ?thesis by (simp add: represents_def scene_wf_def ids_ok_def)
qed

lemma demo_image_fields:
  "scene_get_u64 demo_image 0 = 2" "scene_get_u32 demo_image 8 = 5" "scene_get_u32 demo_image 12 = 3"
  by code_simp+

lemma demo_textured:
  "fresh demo_textured"
  "in_sequence (st_lim demo_textured) 1 [(SCENE_OP_CREATE_NODE, demo_panel, 35), (SCENE_OP_SET_TEXTURE, demo_image, 34)]"
  "doc_session (env_of (live_ctx demo_textured True)) empty_doc
     ([(SCENE_OP_CREATE_NODE, demo_panel, 35)] @ [(SCENE_OP_SET_TEXTURE, demo_image, 34)]) =
   (OpOk, doc_update 5 (\<lambda>n. n\<lparr>nd_tex := 3, nd_tex_src := get_rect demo_image 16,
      nd_blend := rd demo_image 32, nd_opacity := rd demo_image 33\<rparr>) panel_doc, [])"
proof -
  have fr: "fresh demo_new"
    using demo_past(1) by (simp add: session_of_def)
  then show "fresh demo_textured"
    by (simp add: fresh_def demo_textured_def represents_tex)
  show "in_sequence (st_lim demo_textured) 1
      [(SCENE_OP_CREATE_NODE, demo_panel, 35), (SCENE_OP_SET_TEXTURE, demo_image, 34)]"
    by (simp add: demo_textured_def demo_new_sel demo_fields demo_image_fields op_ok_def
        op_is_scene_affecting_def scene_default_limits_def)
  have "env_of (live_ctx demo_textured True) = demo_env\<lparr>ev_textures := [3]\<rparr>"
    using demo_env by (simp add: env_of_def live_ctx_def demo_textured_def demo_env_def)
  moreover have "doc_op (demo_env\<lparr>ev_textures := [3]\<rparr>) SCENE_OP_CREATE_NODE demo_panel 35 empty_doc = (OpOk, panel_doc, [])"
    by (simp add: doc_steps demo_fields empty_doc_def demo_env_def doc_live_def Let_def
        scene_default_limits_def create_attrs_def demo_nodes panel_doc_def doc_insert_def under_def)
  moreover have "doc_op (demo_env\<lparr>ev_textures := [3], ev_seq := 1\<rparr>) SCENE_OP_SET_TEXTURE demo_image 34 panel_doc =
     (OpOk, doc_update 5 (\<lambda>n. n\<lparr>nd_tex := 3, nd_tex_src := get_rect demo_image 16,
      nd_blend := rd demo_image 32, nd_opacity := rd demo_image 33\<rparr>) panel_doc, [])"
    by (simp add: doc_op_def doc_set_def demo_image_fields doc_live_def panel_doc_def demo_nodes Let_def)
  ultimately show "doc_session (env_of (live_ctx demo_textured True)) empty_doc
     ([(SCENE_OP_CREATE_NODE, demo_panel, 35)] @ [(SCENE_OP_SET_TEXTURE, demo_image, 34)]) =
   (OpOk, doc_update 5 (\<lambda>n. n\<lparr>nd_tex := 3, nd_tex_src := get_rect demo_image 16,
      nd_blend := rd demo_image 32, nd_opacity := rd demo_image 33\<rparr>) panel_doc, [])"
    by (simp add: demo_fields)
qed

subsection \<open>A shell\<close>

definition demo_shell :: scene_shell where
  "demo_shell =
     \<lparr>sl_client = demo_client, sl_has_cp = True, sl_cp_locks = [], sl_width = 1024, sl_height = 768,
      sl_built = True, sl_locked = False, sl_lock_built = False, sl_lock_pwd = replicate 64 0,
      sl_lock_pwd_len = 0, sl_last_activity = 0\<rparr>"

end
