(* ===== verification/Loopback.thy ===== *)
theory Loopback
  imports DynBuf
begin

text \<open>
  The in-process link of \<open>src/scene_transport.c\<close>: a pair of growable byte FIFOs at the width of
  the code's \<open>uint32_t\<close> lengths, and the two ends that read one and write the other. Allocation
  is taken to succeed, a reallocation to 0 bytes yields no memory. Not returning is \<open>None\<close>.

  The locale \<open>byte_channel\<close> is what the users of a transport rely on: bytes come out in the
  order they went in, in pieces as large as the reader asks for. The FIFO is shown to provide it
  as long as fewer than \<open>2^31\<close> bytes are in its buffer.
\<close>

subsection \<open>Byte FIFO\<close>

record fifo =
  fi_data :: bytes   \<comment> \<open>the first \<open>len\<close> bytes of the allocation\<close>
  fi_len :: u32
  fi_cap :: u32
  fi_off :: u32

definition fifo_empty :: fifo where
  "fifo_empty = \<lparr>fi_data = [], fi_len = 0, fi_cap = 0, fi_off = 0\<rparr>"

partial_function (option) fifo_grow :: "u32 \<Rightarrow> u32 \<Rightarrow> u32 \<Rightarrow> u32 option" where
  "fifo_grow nc len n = (if nc - len < n then fifo_grow (push_bit 1 nc) len n else Some nc)"

definition fifo_compact :: "fifo \<Rightarrow> fifo" where
  "fifo_compact f =
     (if fi_off f \<noteq> 0 \<and> (fi_off f > 4096 \<or> fi_off f = fi_len f)
      then f\<lparr>fi_data := drop (unat (fi_off f)) (fi_data f), fi_len := fi_len f - fi_off f, fi_off := 0\<rparr>
      else f)"

definition fifo_put :: "fifo \<Rightarrow> bytes \<Rightarrow> fifo" where
  "fifo_put f d = f\<lparr>fi_data := fi_data f @ d, fi_len := fi_len f + of_nat (length d)\<rparr>"

definition fifo_push :: "fifo \<Rightarrow> bytes \<Rightarrow> (int \<times> fifo) option" where
  "fifo_push f0 d =
     (let f = fifo_compact f0; n = of_nat (length d)
      in if fi_cap f - fi_len f < n then
           (case fifo_grow (if fi_cap f \<noteq> 0 then fi_cap f else 256) (fi_len f) n of
              None \<Rightarrow> None
            | Some nc \<Rightarrow> if nc = 0 then Some (-1, f) else Some (0, fifo_put (f\<lparr>fi_cap := nc\<rparr>) d))
         else Some (0, fifo_put f d))"

text \<open>\<open>None\<close> is would-block.\<close>

definition fifo_pop :: "fifo \<Rightarrow> u32 \<Rightarrow> bytes option \<times> fifo" where
  "fifo_pop f cap =
     (let avail = fi_len f - fi_off f
      in if avail = 0 then (None, f\<lparr>fi_data := [], fi_off := 0, fi_len := 0\<rparr>)
         else
           let n = (if avail < cap then avail else cap);
               d = slice (fi_data f) (unat (fi_off f)) (unat n);
               f1 = f\<lparr>fi_off := fi_off f + n\<rparr>
           in (Some d, if fi_off f1 = fi_len f1 then f1\<lparr>fi_data := [], fi_off := 0, fi_len := 0\<rparr> else f1))"

definition fifo_free :: "fifo \<Rightarrow> fifo" where
  "fifo_free f = f\<lparr>fi_data := [], fi_len := 0, fi_cap := 0, fi_off := 0\<rparr>"

subsection \<open>Loopback\<close>

record scene_loopback =
  lb_a2b :: fifo
  lb_b2a :: fifo

text \<open>Which end of the link a transport is: the client end reads \<open>b2a\<close> and writes \<open>a2b\<close>.\<close>

datatype loop_end = ClientEnd | ServerEnd

definition scene_loopback_new :: scene_loopback where
  "scene_loopback_new = \<lparr>lb_a2b = fifo_empty, lb_b2a = fifo_empty\<rparr>"

definition scene_loopback_free :: "scene_loopback \<Rightarrow> scene_loopback" where
  "scene_loopback_free lb = lb\<lparr>lb_a2b := fifo_free (lb_a2b lb), lb_b2a := fifo_free (lb_b2a lb)\<rparr>"

fun loop_tx :: "loop_end \<Rightarrow> scene_loopback \<Rightarrow> fifo" where
  "loop_tx ClientEnd lb = lb_a2b lb"
| "loop_tx ServerEnd lb = lb_b2a lb"

fun loop_rx :: "loop_end \<Rightarrow> scene_loopback \<Rightarrow> fifo" where
  "loop_rx ClientEnd lb = lb_b2a lb"
| "loop_rx ServerEnd lb = lb_a2b lb"

fun set_tx :: "loop_end \<Rightarrow> fifo \<Rightarrow> scene_loopback \<Rightarrow> scene_loopback" where
  "set_tx ClientEnd f lb = lb\<lparr>lb_a2b := f\<rparr>"
| "set_tx ServerEnd f lb = lb\<lparr>lb_b2a := f\<rparr>"

fun set_rx :: "loop_end \<Rightarrow> fifo \<Rightarrow> scene_loopback \<Rightarrow> scene_loopback" where
  "set_rx ClientEnd f lb = lb\<lparr>lb_b2a := f\<rparr>"
| "set_rx ServerEnd f lb = lb\<lparr>lb_a2b := f\<rparr>"

definition loop_send :: "loop_end \<Rightarrow> scene_loopback \<Rightarrow> bytes \<Rightarrow> (int \<times> scene_loopback) option" where
  "loop_send e lb d = map_option (\<lambda>(r, f). (r, set_tx e f lb)) (fifo_push (loop_tx e lb) d)"

definition loop_recv :: "loop_end \<Rightarrow> scene_loopback \<Rightarrow> u32 \<Rightarrow> bytes option \<times> scene_loopback" where
  "loop_recv e lb cap = (let (d, f) = fifo_pop (loop_rx e lb) cap in (d, set_rx e f lb))"

subsection \<open>The contract of a byte channel\<close>

locale byte_channel =
  fixes push :: "'f \<Rightarrow> bytes \<Rightarrow> (int \<times> 'f) option"
    and pop :: "'f \<Rightarrow> u32 \<Rightarrow> bytes option \<times> 'f"
    and ok :: "nat \<Rightarrow> 'f \<Rightarrow> bool"   \<comment> \<open>sound, with room for so many more bytes\<close>
    and content :: "'f \<Rightarrow> bytes"
  assumes push: "ok n f \<Longrightarrow> length d \<le> n \<Longrightarrow>
      \<exists>f'. push f d = Some (0, f') \<and> ok (n - length d) f' \<and> content f' = content f @ d"
    and pop_none: "ok n f \<Longrightarrow> content f = [] \<Longrightarrow>
      \<exists>f'. pop f cap = (None, f') \<and> ok n f' \<and> content f' = []"
    and pop_some: "ok n f \<Longrightarrow> content f \<noteq> [] \<Longrightarrow>
      \<exists>f'. pop f cap = (Some (take (unat cap) (content f)), f') \<and> ok n f' \<and>
           content f' = drop (unat cap) (content f)"
begin

text \<open>Reads of one size until nothing is left.\<close>

fun reads :: "nat \<Rightarrow> u32 \<Rightarrow> 'f \<Rightarrow> bytes list \<times> 'f" where
  "reads 0 cap f = ([], f)"
| "reads (Suc k) cap f =
     (case pop f cap of (None, f') \<Rightarrow> ([], f')
      | (Some d, f') \<Rightarrow> (case reads k cap f' of (ds, f'') \<Rightarrow> (d # ds, f'')))"

lemma reads_all:
  "ok n f \<Longrightarrow> cap \<noteq> 0 \<Longrightarrow> length (content f) < k \<Longrightarrow>
   \<exists>ds f'. reads k cap f = (ds, f') \<and> concat ds = content f \<and> [] \<notin> set ds \<and> ok n f' \<and> content f' = []"
proof (induction k arbitrary: f)
  case (Suc k)
  show ?case
  proof (cases "content f = []")
    case True
    then show ?thesis using pop_none [OF Suc.prems(1), of cap] by auto
  next
    case False
    obtain f' where f': "pop f cap = (Some (take (unat cap) (content f)), f')" "ok n f'"
        "content f' = drop (unat cap) (content f)"
      using pop_some [OF Suc.prems(1) False, of cap] by blast
    have cap: "unat cap > 0" using Suc.prems(2) by (simp add: unat_gt_0)
    then have "length (content f') < k" using Suc.prems(3) False f'(3) by (cases "content f") auto
    then obtain ds f'' where "reads k cap f' = (ds, f'')" "concat ds = content f'" "[] \<notin> set ds"
        "ok n f''" "content f'' = []"
      using Suc.IH [OF f'(2) Suc.prems(2)] by blast
    then show ?thesis using f' cap False by auto
  qed
qed simp

text \<open>What is pushed piece by piece is read back whole, in pieces of the reader's size.\<close>

lemma push_then_read:
  assumes "ok n f" "length d \<le> n" "cap \<noteq> 0" "content f = []" "length d < k"
  shows "\<exists>f' ds f''. push f d = Some (0, f') \<and> reads k cap f' = (ds, f'') \<and> concat ds = d \<and> content f'' = []"
proof -
  obtain f' where f': "push f d = Some (0, f')" "ok (n - length d) f'" "content f' = d"
    using push [OF assms(1,2)] assms(4) by auto
  then show ?thesis using reads_all [OF f'(2) assms(3), of k] assms(5) by auto
qed

end

subsection \<open>The FIFO is a byte channel\<close>

definition fifo_content :: "fifo \<Rightarrow> bytes" where
  "fifo_content f = drop (unat (fi_off f)) (fi_data f)"

definition fifo_ok :: "nat \<Rightarrow> fifo \<Rightarrow> bool" where
  "fifo_ok n f \<longleftrightarrow>
     unat (fi_len f) = length (fi_data f) \<and> fi_off f \<le> fi_len f \<and> fi_len f \<le> fi_cap f \<and>
     (fi_cap f = 0 \<or> (\<exists>k. unat (fi_cap f) = 256 * 2 ^ k \<and> k \<le> 23)) \<and>
     length (fi_data f) + n \<le> 2 ^ 31"

lemma fifo_ok_empty: "n \<le> 2 ^ 31 \<Longrightarrow> fifo_ok n fifo_empty"
  by (simp add: fifo_ok_def fifo_empty_def)

lemma fifo_grow_Some:
  assumes "unat nc = 256 * 2 ^ k" "k \<le> 23" "len \<le> nc" "unat len + unat n \<le> 2 ^ 31"
  shows "\<exists>nc' k'. fifo_grow nc len n = Some nc' \<and> unat nc' = 256 * 2 ^ k' \<and> k' \<le> 23 \<and>
    unat len + unat n \<le> unat nc'"
  using assms(1-3)
proof (induction "23 - k" arbitrary: nc k)
  case 0
  then have nc: "unat nc = 2 ^ 31" by simp
  then have "\<not> nc - len < n" using 0(4) assms(4) by (simp add: word_less_nat_alt unat_sub)
  then have "fifo_grow nc len n = Some nc" by (subst fifo_grow.simps) simp
  then show ?case using nc assms(4) 0(2) by (intro exI [of _ nc] exI [of _ 23]) simp
next
  case (Suc d)
  show ?case
  proof (cases "nc - len < n")
    case False
    with Suc.prems show ?thesis
      by (subst fifo_grow.simps) (auto simp: word_less_nat_alt unat_sub word_le_nat_alt)
  next
    case True
    have "unat nc < unat len + unat n" using True Suc.prems(3) by (simp add: word_less_nat_alt unat_sub word_le_nat_alt)
    then have lt: "unat nc < 2 ^ 31" using assms(4) by simp
    have u: "unat (push_bit 1 nc) = 2 * unat nc" by (rule unat_shift1 [OF lt])
    have "unat (push_bit 1 nc) = 256 * 2 ^ Suc k" by (simp only: u Suc.prems(1)) simp
    moreover have "Suc k \<le> 23" "d = 23 - Suc k" using Suc.hyps(2) by auto
    moreover have "len \<le> push_bit 1 nc" unfolding word_le_nat_alt u using Suc.prems(3) by (simp add: word_le_nat_alt)
    ultimately show ?thesis
      using Suc.hyps(1) [of "Suc k" "push_bit 1 nc"] True by (subst fifo_grow.simps) simp
  qed
qed

lemma fifo_compact_ok:
  "fifo_ok n f \<Longrightarrow> fifo_ok n (fifo_compact f) \<and> fifo_content (fifo_compact f) = fifo_content f"
  by (auto simp: fifo_compact_def fifo_ok_def fifo_content_def unat_sub word_le_nat_alt)

lemma fifo_put_ok:
  assumes "fifo_ok n f" "length d \<le> n" "length (fi_data f) + length d \<le> unat c"
    and "\<exists>k. unat c = 256 * 2 ^ k \<and> k \<le> 23"
  shows "fifo_ok (n - length d) (fifo_put (f\<lparr>fi_cap := c\<rparr>) d) \<and>
    fifo_content (fifo_put (f\<lparr>fi_cap := c\<rparr>) d) = fifo_content f @ d"
proof -
  have n: "unat (of_nat (length d) :: u32) = length d"
    using assms(1,2) by (intro unat_of_nat_small) (simp add: fifo_ok_def)
  have len: "unat (fi_len f + of_nat (length d)) = length (fi_data f) + length d"
    using assms(1,2) by (simp add: unat_word_ariths(1) n fifo_ok_def)
  have "unat (fi_off f) \<le> length (fi_data f)" using assms(1) by (simp add: fifo_ok_def word_le_nat_alt)
  then show ?thesis
    using assms len by (simp add: fifo_put_def fifo_ok_def fifo_content_def word_le_nat_alt)
qed

lemma fifo_push_ok:
  assumes "fifo_ok n f" "length d \<le> n"
  shows "\<exists>f'. fifo_push f d = Some (0, f') \<and> fifo_ok (n - length d) f' \<and>
    fifo_content f' = fifo_content f @ d"
proof -
  let ?f = "fifo_compact f" and ?n = "of_nat (length d) :: u32"
  note C = fifo_compact_ok [OF assms(1)]
  then have ok: "fifo_ok n ?f" by blast
  have n: "unat ?n = length d"
    using assms by (intro unat_of_nat_small) (simp add: fifo_ok_def)
  show ?thesis
  proof (cases "fi_cap ?f - fi_len ?f < ?n")
    case True
    let ?c = "if fi_cap ?f \<noteq> 0 then fi_cap ?f else 256"
    have "\<exists>k. unat ?c = 256 * 2 ^ k \<and> k \<le> 23" using ok by (auto simp: fifo_ok_def intro: exI [of _ 0])
    moreover have "fi_len ?f \<le> ?c" using ok by (auto simp: fifo_ok_def)
    moreover have "unat (fi_len ?f) + unat ?n \<le> 2 ^ 31" using ok assms(2) n by (simp add: fifo_ok_def)
    ultimately obtain nc k where nc: "fifo_grow ?c (fi_len ?f) ?n = Some nc" "unat nc = 256 * 2 ^ k" "k \<le> 23"
        "unat (fi_len ?f) + unat ?n \<le> unat nc"
      using fifo_grow_Some by blast
    have "nc \<noteq> 0" using nc(2) by auto
    then have "fifo_push f d = Some (0, fifo_put (?f\<lparr>fi_cap := nc\<rparr>) d)"
      using True nc(1) by (simp add: fifo_push_def Let_def)
    then show ?thesis
      using fifo_put_ok [OF ok assms(2), of nc] nc n ok C by (auto simp: fifo_ok_def)
  next
    case False
    then have p: "fifo_push f d = Some (0, fifo_put ?f d)" by (simp add: fifo_push_def Let_def)
    have le: "length (fi_data ?f) + length d \<le> unat (fi_cap ?f)"
      using False ok n by (auto simp: fifo_ok_def word_less_nat_alt unat_sub word_le_nat_alt)
    show ?thesis
    proof (cases "fi_cap ?f = 0")
      case True
      then have "d = []" "fi_data ?f = []" using le by simp_all
      moreover have "fifo_put ?f [] = ?f" by (cases ?f) (simp add: fifo_put_def)
      ultimately show ?thesis using p ok C by simp
    next
      case cap: False
      then have "\<exists>k. unat (fi_cap ?f) = 256 * 2 ^ k \<and> k \<le> 23" using ok by (auto simp: fifo_ok_def)
      then show ?thesis using fifo_put_ok [OF ok assms(2) le] p C by simp
    qed
  qed
qed

lemma fifo_pop_ok:
  assumes "fifo_ok n f" "fifo_content f \<noteq> []"
  shows "\<exists>f'. fifo_pop f cap = (Some (take (unat cap) (fifo_content f)), f') \<and> fifo_ok n f' \<and>
    fifo_content f' = drop (unat cap) (fifo_content f)"
proof -
  let ?a = "fi_len f - fi_off f"
  let ?n = "if ?a < cap then ?a else cap"
  have len: "unat (fi_len f) = length (fi_data f)" and off: "unat (fi_off f) \<le> unat (fi_len f)"
    using assms(1) by (simp_all add: fifo_ok_def word_le_nat_alt)
  have a: "unat ?a = length (fi_data f) - unat (fi_off f)"
    using assms(1) len by (simp add: unat_sub fifo_ok_def)
  have nz: "?a \<noteq> 0"
  proof
    assume "?a = 0"
    then have "unat ?a = 0" by simp
    then show False using a assms(2) by (simp add: fifo_content_def)
  qed
  have n: "unat ?n = min (unat cap) (length (fifo_content f))"
    by (auto simp: word_less_nat_alt a fifo_content_def)
  have d: "slice (fi_data f) (unat (fi_off f)) (unat ?n) = take (unat cap) (fifo_content f)"
    using off len by (auto simp: n slice_def rd_def fifo_content_def min_def intro!: nth_equalityI)
  have le: "unat (fi_off f) + unat ?n \<le> length (fi_data f)" using n off len by (simp add: fifo_content_def)
  then have "unat (fi_off f) + unat ?n < 2 ^ 32" using assms(1) by (simp add: fifo_ok_def)
  then have o': "unat (fi_off f + ?n) = unat (fi_off f) + unat ?n" by (simp add: unat_word_ariths(1))
  show ?thesis
  proof (cases "fi_off f + ?n = fi_len f")
    case True
    then have "unat (fi_off f) + unat ?n = length (fi_data f)" using o' len by simp
    then have "length (fifo_content f) \<le> unat cap" using n off len by (simp add: fifo_content_def)
    then show ?thesis
      using True nz d assms(1) by (simp add: fifo_pop_def Let_def fifo_ok_def fifo_content_def)
  next
    case False
    have ne: "unat (fi_off f) + unat ?n \<noteq> length (fi_data f)" using False o' len by (metis word_unat_eq_iff)
    then have "unat ?n = unat cap" using n off len by (simp add: fifo_content_def min_def split: if_splits)
    then show ?thesis
      using False nz d assms(1) o' ne le off len
      by (simp add: add.commute fifo_pop_def Let_def fifo_ok_def fifo_content_def word_le_nat_alt)
  qed
qed

lemma fifo_pop_empty:
  assumes "fifo_ok n f" "fifo_content f = []"
  shows "\<exists>f'. fifo_pop f cap = (None, f') \<and> fifo_ok n f' \<and> fifo_content f' = []"
proof -
  have "fi_off f = fi_len f"
    using assms by (intro word_unat_eq_iff [THEN iffD2]) (simp add: fifo_ok_def fifo_content_def word_le_nat_alt)
  then show ?thesis using assms by (simp add: fifo_pop_def fifo_ok_def fifo_content_def)
qed

interpretation fifo_channel: byte_channel fifo_push fifo_pop fifo_ok fifo_content
  by unfold_locales (rule fifo_push_ok fifo_pop_empty fifo_pop_ok; assumption)+

end
