(* ===== verification/ShellPump.thy ===== *)
theory ShellPump
  imports EndToEnd Loopback
begin

text \<open>
  One turn of the desktop loop, \<open>pump_shell\<close> of \<open>src/iso_drm.c\<close>: the client's output goes over
  the loopback into the server in reads of 16384 bytes, the server's frames come back, and the
  client dispatches a batch. The transports of the client and of the server are the two ends of
  one loopback. \<open>None\<close> is a push that does not return.
\<close>

subsection \<open>The turn\<close>

text \<open>The client's flush: the send happens only on an open connection with bytes to send.\<close>

definition loop_flush :: "scene_loopback \<Rightarrow> scene_client \<Rightarrow> (scene_loopback \<times> scene_client) option" where
  "loop_flush lb c =
     (if cl_conn_open c \<and> cl_out c \<noteq> [] then
        (case loop_send ClientEnd lb (cl_out c) of
           None \<Rightarrow> None
         | Some (r, lb') \<Rightarrow> Some (lb', snd (scene_client_flush (\<lambda>_. r = 0) c)))
      else Some (lb, snd (scene_client_flush (\<lambda>_. True) c)))"

lemma loop_recv_less:
  assumes "loop_recv ServerEnd lb cap = (Some d, lb')" "d \<noteq> []"
  shows "unat (fi_len (lb_a2b lb') - fi_off (lb_a2b lb')) < unat (fi_len (lb_a2b lb) - fi_off (lb_a2b lb))"
proof -
  let ?f = "lb_a2b lb"
  let ?a = "fi_len ?f - fi_off ?f"
  let ?n = "if ?a < cap then ?a else cap"
  have nz: "?a \<noteq> 0" using assms(1) by (auto simp: loop_recv_def fifo_pop_def Let_def)
  then have "d = slice (fi_data ?f) (unat (fi_off ?f)) (unat ?n)"
    using assms(1) by (simp add: loop_recv_def fifo_pop_def Let_def)
  then have n: "?n \<noteq> 0" "?n \<le> ?a" using assms(2) by (auto simp: slice_def not_less)
  have "fi_len (lb_a2b lb') - fi_off (lb_a2b lb') = (if fi_off ?f + ?n = fi_len ?f then 0 else ?a - ?n)"
    using assms(1) nz by (auto simp: loop_recv_def fifo_pop_def Let_def algebra_simps)
  moreover have "unat (?a - ?n) = unat ?a - unat ?n" "unat ?n > 0" "unat ?n \<le> unat ?a"
    using n by (simp_all only: unat_sub unat_gt_0 word_le_nat_alt) simp
  ultimately show ?thesis using nz by (simp add: unat_gt_0)
qed

text \<open>Read and feed until there is nothing to read; the result of the feed is not looked at.\<close>

function pump_feed :: "importer option \<Rightarrow> (u64 \<Rightarrow> u64) \<Rightarrow> scene_loopback \<Rightarrow> scene_server \<Rightarrow>
    scene_loopback \<times> scene_server" where
  "pump_feed cb clk lb sv =
     (case loop_recv ServerEnd lb 16384 of
        (None, lb') \<Rightarrow> (lb', sv)
      | (Some d, lb') \<Rightarrow>
          if d = [] then (lb', sv)
          else pump_feed cb clk lb' (snd (scene_server_feed cb clk sv d (of_nat (length d)))))"
  by pat_completeness auto

termination
  by (relation "measure (\<lambda>(_, _, lb, _). unat (fi_len (lb_a2b lb) - fi_off (lb_a2b lb)))")
    (auto dest: loop_recv_less sym)

declare pump_feed.simps [simp del]

lemma out_next_frame_less:
  "scene_server_out_next_frame sv = (Some f, sv') \<Longrightarrow>
   length (oq_bytes (st_out (sv_store sv'))) - oq_off (st_out (sv_store sv')) <
   length (oq_bytes (st_out (sv_store sv))) - oq_off (st_out (sv_store sv))"
  by (auto simp: scene_server_out_next_frame_def scene_store_out_next_frame_def out_next_frame_def
      Let_def split: if_splits)

text \<open>The server's frames, one send each; the result of the send is not looked at.\<close>

function pump_out :: "scene_loopback \<Rightarrow> scene_server \<Rightarrow> (scene_loopback \<times> scene_server) option" where
  "pump_out lb sv =
     (case scene_server_out_next_frame sv of
        (None, sv') \<Rightarrow> Some (lb, sv')
      | (Some f, sv') \<Rightarrow>
          (case loop_send ServerEnd lb f of
             None \<Rightarrow> None
           | Some (r, lb') \<Rightarrow> pump_out lb' sv'))"
  by pat_completeness auto

termination
  by (relation "measure (\<lambda>(_, sv). length (oq_bytes (st_out (sv_store sv))) - oq_off (st_out (sv_store sv)))")
    (auto dest: out_next_frame_less sym)

declare pump_out.simps [simp del]

text \<open>The client's pump: one read of 4096 bytes, then what dispatching it sends.\<close>

definition loop_pump :: "scene_loopback \<Rightarrow> scene_client \<Rightarrow> (scene_loopback \<times> scene_client) option" where
  "loop_pump lb c =
     (if \<not> cl_conn_open c then Some (lb, c)
      else
        let (got, lb1) = loop_recv ClientEnd lb 4096;
            batch = (case got of None \<Rightarrow> RecvNone | Some d \<Rightarrow> RecvData d);
            c1 = snd (scene_client_pump (\<lambda>_. True) batch c);
            sent = drop (length (cl_wire c)) (cl_wire c1)
        in if sent = [] then Some (lb1, c1)
           else map_option (\<lambda>(r, lb2). (lb2, c1)) (loop_send ClientEnd lb1 sent))"

definition pump_shell :: "importer option \<Rightarrow> (u64 \<Rightarrow> u64) \<Rightarrow> scene_loopback \<Rightarrow> scene_client \<Rightarrow>
    scene_server \<Rightarrow> (scene_loopback \<times> scene_client \<times> scene_server) option" where
  "pump_shell cb clk lb c sv =
     (case loop_flush lb c of
        None \<Rightarrow> None
      | Some (lb1, c1) \<Rightarrow>
          (case pump_feed cb clk lb1 sv of (lb2, sv2) \<Rightarrow>
            (case pump_out lb2 sv2 of
               None \<Rightarrow> None
             | Some (lb3, sv3) \<Rightarrow>
                 (case loop_pump lb3 c1 of
                    None \<Rightarrow> None
                  | Some (lb4, c4) \<Rightarrow> Some (lb4, c4, sv3)))))"

subsection \<open>From the client to the server\<close>

definition feed_each :: "importer option \<Rightarrow> (u64 \<Rightarrow> u64) \<Rightarrow> scene_server \<Rightarrow> bytes list \<Rightarrow> scene_server" where
  "feed_each cb clk sv ds = foldl (\<lambda>sv d. snd (feed cb clk sv d)) sv ds"

lemma pump_feed_reads:
  "fifo_channel.reads k 16384 (lb_a2b lb) = (ds, f') \<Longrightarrow> [] \<notin> set ds \<Longrightarrow> length ds < k \<Longrightarrow>
   pump_feed cb clk lb sv = (lb\<lparr>lb_a2b := f'\<rparr>, feed_each cb clk sv ds)"
proof (induction k arbitrary: lb sv ds)
  case (Suc k)
  obtain d f1 where p: "fifo_pop (lb_a2b lb) 16384 = (d, f1)" by fastforce
  then have r: "loop_recv ServerEnd lb 16384 = (d, lb\<lparr>lb_a2b := f1\<rparr>)" by (simp add: loop_recv_def)
  show ?case
  proof (cases d)
    case None
    then show ?thesis using Suc.prems p r by (subst pump_feed.simps) (simp add: feed_each_def)
  next
    case (Some x)
    then obtain ds' where ds': "fifo_channel.reads k 16384 f1 = (ds', f')" "ds = x # ds'"
      using Suc.prems(1) p by (auto split: prod.splits)
    have "pump_feed cb clk (lb\<lparr>lb_a2b := f1\<rparr>) (snd (feed cb clk sv x)) =
        (lb\<lparr>lb_a2b := f'\<rparr>, feed_each cb clk (snd (feed cb clk sv x)) ds')"
      using Suc.IH [of "lb\<lparr>lb_a2b := f1\<rparr>"] Suc.prems ds' by simp
    then show ?thesis
      using Suc.prems Some r ds' by (subst pump_feed.simps) (auto simp: feed_each_def feed_def)
  qed
qed simp

lemma feed_all_each: "feed_all cb clk sv ds = (0, sv') \<Longrightarrow> feed_each cb clk sv ds = sv'"
  by (induction ds arbitrary: sv) (auto simp: feed_each_def split: prod.splits if_splits)

lemma sequence_not_search:
  "in_sequence lim n ops \<Longrightarrow> i \<in> set ops \<Longrightarrow> fst i \<noteq> SCENE_OP_SEARCH"
proof (induction ops arbitrary: n)
  case (Cons j ops)
  then show ?case using affecting_opcodes by (cases j) auto
qed simp

lemma frames_well_framed: "exact_length ops \<Longrightarrow> (\<And>i. i \<in> set ops \<Longrightarrow> fst i \<noteq> SCENE_OP_SEARCH) \<Longrightarrow>
  well_framed (frames_of ops)"
proof (induction ops)
  case Nil
  then show ?case by (subst well_framed.simps) simp
next
  case (Cons i ops)
  obtain opcode p plen where i: "i = (opcode, p, plen)" by (cases i)
  have len: "length p < 2 ^ 32 - 16" "exact_length ops" using Cons.prems(1) by (simp_all add: i)
  then have n: "unat (of_nat (length p) :: u32) = length p" by (intro unat_of_nat_small) simp
  have opc: "opcode \<noteq> SCENE_OP_SEARCH" using Cons.prems(2) [of i] by (simp add: i)
  have "well_framed (frames_of ops)" using Cons.IH len(2) Cons.prems(2) by simp
  then show ?case
    using frame_payload_get [of opcode p "frames_of ops"] len(1) opc
    by (subst well_framed.simps) (simp add: i n frame_ok_def)
qed

subsection \<open>From the server to the client\<close>

definition record_bytes :: "wire_record list \<Rightarrow> bytes" where
  "record_bytes rs = concat (map (\<lambda>(opc, p). scene_frame opc p) rs)"

lemma pump_out_all:
  "pending (st_out (sv_store sv)) rs \<Longrightarrow> fifo_ok n (lb_b2a lb) \<Longrightarrow> length (record_bytes rs) \<le> n \<Longrightarrow>
   \<exists>f'. pump_out lb sv = Some (lb\<lparr>lb_b2a := f'\<rparr>, sv\<lparr>sv_store := (sv_store sv)\<lparr>st_out := oq_empty\<rparr>\<rparr>) \<and>
     fifo_ok (n - length (record_bytes rs)) f' \<and> fifo_content f' = fifo_content (lb_b2a lb) @ record_bytes rs"
proof (induction rs arbitrary: sv lb n)
  case Nil
  have "scene_server_out_next_frame sv = (None, sv\<lparr>sv_store := (sv_store sv)\<lparr>st_out := oq_empty\<rparr>\<rparr>)"
    using out_next_Nil(2) [OF Nil.prems(1)]
    by (simp add: scene_server_out_next_frame_def scene_store_out_next_frame_def)
  moreover have "lb\<lparr>lb_b2a := lb_b2a lb\<rparr> = lb" by simp
  ultimately show ?case
    using Nil.prems by (subst pump_out.simps) (auto simp: record_bytes_def intro!: exI [of _ "lb_b2a lb"])
next
  case (Cons r rs)
  obtain opc p where r: "r = (opc, p)" by (cases r)
  obtain q' where q': "out_next_frame (st_out (sv_store sv)) = (Some (scene_frame opc p), q')" "pending q' rs"
    using out_next_frame_Cons Cons.prems(1) r by blast
  let ?f = "scene_frame opc p" and ?sv = "sv\<lparr>sv_store := (sv_store sv)\<lparr>st_out := q'\<rparr>\<rparr>"
  have o: "scene_server_out_next_frame sv = (Some ?f, ?sv)"
    using q'(1) by (simp add: scene_server_out_next_frame_def scene_store_out_next_frame_def)
  have len: "length ?f \<le> n" "length (record_bytes rs) \<le> n - length ?f"
    "length (record_bytes (r # rs)) = length ?f + length (record_bytes rs)"
    using Cons.prems(3) by (simp_all add: record_bytes_def r)
  obtain f1 where f1: "fifo_push (lb_b2a lb) ?f = Some (0, f1)" "fifo_ok (n - length ?f) f1"
      "fifo_content f1 = fifo_content (lb_b2a lb) @ ?f"
    using fifo_channel.push [OF Cons.prems(2) len(1)] by blast
  then have "loop_send ServerEnd lb ?f = Some (0, lb\<lparr>lb_b2a := f1\<rparr>)" by (simp add: loop_send_def)
  then show ?case
    using Cons.IH [of ?sv "n - length ?f" "lb\<lparr>lb_b2a := f1\<rparr>"] q'(2) f1(2,3) len o
    by (subst pump_out.simps) (simp add: record_bytes_def r)
qed

text \<open>A client that has its WELCOME sends nothing while it dispatches.\<close>

lemma quiet_basics [simp]:
  "cl_wire (deliver c e) = cl_wire c" "cl_welcomed (deliver c e) = cl_welcomed c"
  "cl_wire (cli_violation c w) = cl_wire c" "cl_welcomed (cli_violation c w) = cl_welcomed c"
  by (simp_all add: deliver_def cli_violation_def)

lemma quiet_records [simp]:
  "cl_wire (dispatch_error c p plen) = cl_wire c" "cl_welcomed (dispatch_error c p plen) = cl_welcomed c"
  "cl_wire (dispatch_search c p plen) = cl_wire c" "cl_welcomed (dispatch_search c p plen) = cl_welcomed c"
  "cl_wire (dispatch_input c opc p plen) = cl_wire c" "cl_welcomed (dispatch_input c opc p plen) = cl_welcomed c"
  "cl_wire (dispatch_input_text c p plen) = cl_wire c" "cl_welcomed (dispatch_input_text c p plen) = cl_welcomed c"
  "cl_wire (dispatch_text_index c p plen) = cl_wire c" "cl_welcomed (dispatch_text_index c p plen) = cl_welcomed c"
  by (simp_all add: dispatch_error_def dispatch_search_def dispatch_input_def dispatch_input_text_def
      dispatch_text_index_def Let_def split: option.split)

lemma quiet_welcome:
  "cl_welcomed c \<Longrightarrow> cl_wire (dispatch_welcome send c p plen) = cl_wire c \<and>
     cl_welcomed (dispatch_welcome send c p plen)"
  by (simp add: dispatch_welcome_def Let_def)

lemma dispatch_quiet:
  assumes "cl_welcomed c"
  shows "cl_wire (dispatch send c opcode p plen) = cl_wire c" "cl_welcomed (dispatch send c opcode p plen)"
  using assms quiet_welcome [OF assms] by (simp_all add: dispatch_def)

lemma pump_loop_quiet: "cl_welcomed c \<Longrightarrow> cl_wire (snd (pump_loop send buf off c)) = cl_wire c"
proof (induction send buf off c rule: pump_loop.induct)
  case (1 send buf off c)
  let ?f = "drop off buf"
  let ?plen = "scene_get_u32 ?f 8"
  let ?c = "dispatch send c (scene_get_u16 ?f 6) (drop 16 ?f) ?plen"
  note IH = "1.IH" [OF refl _ refl refl refl _ refl _ refl _ refl]
  note q = dispatch_quiet [OF "1.prems", of send "scene_get_u16 ?f 6" "drop 16 ?f" ?plen]
  show ?case
    using IH q by (subst pump_loop.simps) (simp add: Let_def cli_violation_def deliver_def)
qed

lemma client_pump_quiet: "cl_welcomed c \<Longrightarrow> cl_wire (snd (scene_client_pump send r c)) = cl_wire c"
  using pump_loop_quiet [of c send]
  by (auto simp: scene_client_pump_def deliver_def Let_def split: prod.split) (metis snd_conv)+

text \<open>The batch a read of 4096 bytes yields.\<close>

definition batch_of :: "bytes \<Rightarrow> recv_result" where
  "batch_of m = (if m = [] then RecvNone else RecvData (take 4096 m))"

lemma loop_pump_welcomed:
  assumes "cl_welcomed c" "cl_conn_open c" "fifo_ok n (lb_b2a lb)"
  defines "inp \<equiv> fifo_content (lb_b2a lb)"
  shows "\<exists>f'. loop_pump lb c = Some (lb\<lparr>lb_b2a := f'\<rparr>,
      snd (scene_client_pump (\<lambda>_. True) (batch_of inp) c)) \<and>
    fifo_content f' = drop 4096 inp"
proof (cases "inp = []")
  case True
  then obtain f' where "fifo_pop (lb_b2a lb) 4096 = (None, f')" "fifo_content f' = []"
    using fifo_channel.pop_none [OF assms(3), of 4096] by (auto simp: inp_def)
  then show ?thesis
    using assms True client_pump_quiet [OF assms(1)]
    by (auto simp: loop_pump_def loop_recv_def batch_of_def Let_def)
next
  case False
  then obtain f' where "fifo_pop (lb_b2a lb) 4096 = (Some (take 4096 inp), f')" "fifo_content f' = drop 4096 inp"
    using fifo_channel.pop_some [OF assms(3), of 4096] by (auto simp: inp_def)
  then show ?thesis
    using assms False client_pump_quiet [OF assms(1)]
    by (auto simp: loop_pump_def loop_recv_def batch_of_def Let_def)
qed

lemma length_pieces: "[] \<notin> set ds \<Longrightarrow> length ds \<le> length (concat ds)"
proof (induction ds)
  case (Cons d ds)
  then have "d \<noteq> []" "length ds \<le> length (concat ds)" by auto
  then show ?case by (cases d) simp_all
qed simp

lemma clear_in_store: "clear_in sv = clear_in sv' \<Longrightarrow> sv_store sv = sv_store sv'"
  by (cases sv; cases sv') (simp add: clear_in_def)

subsection \<open>A whole turn\<close>

lemma pump_shell_delivers:
  assumes c: "ready c" "cl_out c = []" "list_all (sendable c) cmds" "cmds \<noteq> []"
    and sv: "accepting sv" "pending_in sv = []" "cl_next_seq c = st_next_seq (sv_store sv)"
    and st: "represents (st_live (sv_store sv)) d" "\<not> st_dead (sv_store sv)"
      "st_mode (sv_store sv) \<noteq> SCENE_MODE_REPLAY"
    and fit: "list_all (fits (st_lim (sv_store sv))) cmds"
    and spec: "command_session (env_of (live_ctx (sv_store sv) True)) (cl_next_seq c) d cmds = (OpOk, d', rs)"
    and run: "issue_all cmds c = (r, c')"
    and a2b: "fifo_ok n (lb_a2b lb)" "fifo_content (lb_a2b lb) = []" "length (cl_out c') \<le> n"
    and q: "pending (st_out (sv_store sv)) rs0" "list_all record_ok rs"
    and b2a: "fifo_ok m (lb_b2a lb)" "length (record_bytes (rs0 @ rs)) \<le> m"
    and inp: "inp = fifo_content (lb_b2a lb) @ record_bytes (rs0 @ rs)"
  shows "\<exists>lb' sv'. pump_shell cb clk lb c' sv = Some (lb', snd (scene_client_pump (\<lambda>_. True)
        (batch_of inp)
        (c'\<lparr>cl_wire := cl_wire c' @ cl_out c', cl_out := []\<rparr>)), sv') \<and>
      represents (st_live (sv_store sv')) d' \<and> st_out (sv_store sv') = oq_empty \<and>
      fifo_content (lb_a2b lb') = [] \<and> fifo_content (lb_b2a lb') = drop 4096 inp"
proof -
  let ?ops = "wire_ops (cl_next_seq c) cmds" and ?m = "cl_out c'"
  let ?c1 = "c'\<lparr>cl_wire := cl_wire c' @ ?m, cl_out := []\<rparr>"
  have ops: "exact_length ?ops" "in_sequence (st_lim (sv_store sv)) (cl_next_seq c) ?ops"
    using wire_ops_ok [OF c(3) fit, of "cl_next_seq c"] by simp_all
  have out: "ready c'" "?m = frames_of ?ops"
    using issue_all_frames [OF c(1,3)] run c(2) by auto
  have ne: "?m \<noteq> []" using out(2) c(4) by (cases cmds) (auto simp: wire_op_def Let_def dest: arg_cong [of _ _ length])
  have small: "length ?m < 2 ^ 32" using a2b(1,3) by (simp add: fifo_ok_def)
  \<comment> \<open>the client's bytes are in the loopback\<close>
  obtain f1 where f1: "fifo_push (lb_a2b lb) ?m = Some (0, f1)" "fifo_ok (n - length ?m) f1" "fifo_content f1 = ?m"
    using fifo_channel.push [OF a2b(1,3)] a2b(2) by auto
  have flush: "loop_flush lb c' = Some (lb\<lparr>lb_a2b := f1\<rparr>, ?c1)"
    using f1(1) ne out(1) by (simp add: loop_flush_def loop_send_def scene_client_flush_def ready_def)
  \<comment> \<open>the server reads them in pieces\<close>
  obtain ds f2 where ds: "fifo_channel.reads (Suc (length ?m)) 16384 f1 = (ds, f2)" "concat ds = ?m"
      "[] \<notin> set ds" "fifo_content f2 = []"
    using fifo_channel.reads_all [OF f1(2), of 16384 "Suc (length ?m)"] f1(3) by auto
  then have pf: "pump_feed cb clk (lb\<lparr>lb_a2b := f1\<rparr>) sv = (lb\<lparr>lb_a2b := f2\<rparr>, feed_each cb clk sv ds)"
    using pump_feed_reads [of "Suc (length ?m)" "lb\<lparr>lb_a2b := f1\<rparr>" ds f2] length_pieces [OF ds(3)] by simp
  obtain r1 sv1 where whole: "feed cb clk sv ?m = (r1, sv1)" by fastforce
  have doc: "r1 = 0" "represents (st_live (sv_store sv1)) d'" "st_out (sv_store sv1) = emit_all (st_out (sv_store sv)) rs"
    using client_to_document [OF c sv st fit spec run small whole]
    by (simp_all add: status_code_def)
  have "well_framed ?m"
    unfolding out(2) using ops by (intro frames_well_framed) (auto simp: sequence_not_search)
  moreover have "ds \<noteq> []" using ds(2) ne by auto
  ultimately have N: "norm_result (feed_all cb clk sv ds) = norm_result (r1, sv1)"
    using feed_chunks [OF sv(1) _ ds(3), of cb clk] whole small by (simp add: ds(2) sv(2))
  obtain rc sv2 where all: "feed_all cb clk sv ds = (rc, sv2)" by fastforce
  then have sv2: "feed_all cb clk sv ds = (0, sv2)" "sv_store sv2 = sv_store sv1"
    using N doc(1) clear_in_store [of sv2 sv1] by (simp_all add: norm_result_def)
  have fed: "pump_feed cb clk (lb\<lparr>lb_a2b := f1\<rparr>) sv = (lb\<lparr>lb_a2b := f2\<rparr>, sv2)"
    using pf feed_all_each [OF sv2(1)] by simp
  \<comment> \<open>the answers come back\<close>
  have "pending (st_out (sv_store sv2)) (rs0 @ rs)"
    using frame_queue.fold_put [OF q] doc(3) sv2(2) by (simp add: emit_all_def)
  then obtain f3 where f3: "pump_out (lb\<lparr>lb_a2b := f2\<rparr>) sv2 = Some (lb\<lparr>lb_a2b := f2, lb_b2a := f3\<rparr>,
        sv2\<lparr>sv_store := (sv_store sv2)\<lparr>st_out := oq_empty\<rparr>\<rparr>)"
      "fifo_ok (m - length (record_bytes (rs0 @ rs))) f3" "fifo_content f3 = inp"
    using pump_out_all [of sv2 "rs0 @ rs" m "lb\<lparr>lb_a2b := f2\<rparr>"] b2a inp by auto
  have "cl_welcomed ?c1" "cl_conn_open ?c1" using out(1) by (simp_all add: ready_def)
  then have "\<exists>f'. loop_pump (lb\<lparr>lb_a2b := f2, lb_b2a := f3\<rparr>) ?c1 =
        Some (lb\<lparr>lb_a2b := f2, lb_b2a := f'\<rparr>, snd (scene_client_pump (\<lambda>_. True)
          (batch_of inp) ?c1)) \<and> fifo_content f' = drop 4096 inp"
    using loop_pump_welcomed [of ?c1 _ "lb\<lparr>lb_a2b := f2, lb_b2a := f3\<rparr>"] f3(2,3) by simp
  then obtain f4 where f4: "loop_pump (lb\<lparr>lb_a2b := f2, lb_b2a := f3\<rparr>) ?c1 =
        Some (lb\<lparr>lb_a2b := f2, lb_b2a := f4\<rparr>, snd (scene_client_pump (\<lambda>_. True)
          (batch_of inp) ?c1))" "fifo_content f4 = drop 4096 inp"
    by blast
  show ?thesis
    by (intro exI [of _ "lb\<lparr>lb_a2b := f2, lb_b2a := f4\<rparr>"]
        exI [of _ "sv2\<lparr>sv_store := (sv_store sv2)\<lparr>st_out := oq_empty\<rparr>\<rparr>"])
      (simp add: pump_shell_def flush fed f3(1) f4 ds(4) doc(2) sv2(2))
qed

end
