(* ===== verification/FontCache.thy ===== *)
theory FontCache
  imports Prelude
begin

text \<open>
  The glyph cache \<open>src/scene_fontcache.c\<close>: an open-addressing table of 1024 entries keyed by
  code point, with the least recently used entry evicted when the table is full, and the check of
  a font's header before it is parsed. What the rasteriser (\<open>stb_truetype.h\<close>, and the scaling in
  floating point) yields for a code point is a parameter.

  The lemmas show that the cache is transparent: whatever was looked up before, a lookup yields
  the glyph the rasteriser makes of the code point, in a table whose count is the number of its
  used entries.
\<close>

subsection \<open>State\<close>

text \<open>A glyph as it is rasterised: the bitmap, its size, its offset and the advance.\<close>

record glyph =
  gl_pixels :: bytes
  gl_w :: i32
  gl_h :: i32
  gl_x0 :: i32
  gl_y0 :: i32
  gl_advance :: i32

record fc_entry =
  fe_codepoint :: u32
  fe_lru :: u32
  fe_glyph :: glyph   \<comment> \<open>\<open>pixels\<close>, \<open>w\<close>, \<open>h\<close>, \<open>x0\<close>, \<open>y0\<close>, \<open>advance\<close>\<close>
  fe_used :: bool

definition no_glyph :: glyph where
  "no_glyph = \<lparr>gl_pixels = [], gl_w = 0, gl_h = 0, gl_x0 = 0, gl_y0 = 0, gl_advance = 0\<rparr>"

definition fc_blank :: fc_entry where
  "fc_blank = \<lparr>fe_codepoint = 0, fe_lru = 0, fe_glyph = no_glyph, fe_used = False\<rparr>"

record scene_fontcache =
  fc_entries :: "fc_entry list"
  fc_lru_clock :: u32
  fc_count :: u32

text \<open>What a lookup returns.\<close>

record scene_cached_glyph =
  cg_x0 :: i32
  cg_y0 :: i32
  cg_x1 :: i32
  cg_y1 :: i32
  cg_w :: i32
  cg_h :: i32
  cg_advance :: i32
  cg_pixels :: bytes

abbreviation FC_CAP :: nat where
  "FC_CAP \<equiv> 1024"

definition fc_new :: scene_fontcache where
  "fc_new = \<lparr>fc_entries = replicate FC_CAP fc_blank, fc_lru_clock = 1, fc_count = 0\<rparr>"

subsection \<open>Table\<close>

definition fc_hash :: "u32 \<Rightarrow> u32" where
  "fc_hash cp = (2166136261 XOR cp) * 16777619"

definition fc_slot :: "u32 \<Rightarrow> nat \<Rightarrow> nat" where
  "fc_slot cp i = (unat (drop_bit 22 (fc_hash cp)) + i) mod FC_CAP"

text \<open>The probe from step \<open>i\<close> on: \<open>for (; i < FC_CAP; i++)\<close>.\<close>

function fc_find_from :: "scene_fontcache \<Rightarrow> u32 \<Rightarrow> nat \<Rightarrow> nat option" where
  "fc_find_from fc cp i =
     (if i < FC_CAP then
        let e = fc_entries fc ! fc_slot cp i
        in if \<not> fe_used e then None
           else if fe_codepoint e = cp then Some (fc_slot cp i)
           else fc_find_from fc cp (i + 1)
      else None)"
  by pat_completeness auto

termination
  by (relation "measure (\<lambda>(_, _, i). FC_CAP - i)") auto

declare fc_find_from.simps [simp del]

definition fc_find :: "scene_fontcache \<Rightarrow> u32 \<Rightarrow> nat option" where
  "fc_find fc cp = fc_find_from fc cp 0"

text \<open>The scan for the oldest used entry: the index and the time found so far.\<close>

definition oldest_step :: "scene_fontcache \<Rightarrow> nat \<times> u32 \<Rightarrow> nat \<Rightarrow> nat \<times> u32" where
  "oldest_step fc best i =
     (let e = fc_entries fc ! i
      in if fe_used e \<and> fe_lru e < snd best then (i, fe_lru e) else best)"

definition fc_evict_lru :: "scene_fontcache \<Rightarrow> scene_fontcache" where
  "fc_evict_lru fc =
     (let (i, _) = foldl (oldest_step fc) (0, 0xFFFFFFFF) [0..<FC_CAP]
      in fc\<lparr>fc_entries := (fc_entries fc)[i := fc_blank], fc_count := fc_count fc - 1\<rparr>)"

text \<open>The first free slot on the probe path.\<close>

definition fc_free :: "scene_fontcache \<Rightarrow> u32 \<Rightarrow> nat option" where
  "fc_free fc cp =
     map_option (fc_slot cp) (find (\<lambda>i. \<not> fe_used (fc_entries fc ! fc_slot cp i)) [0..<FC_CAP])"

definition fc_used :: "scene_fontcache \<Rightarrow> nat" where
  "fc_used fc = length (filter fe_used (fc_entries fc))"

definition fc_occupy :: "scene_fontcache \<Rightarrow> u32 \<Rightarrow> nat \<Rightarrow> scene_fontcache" where
  "fc_occupy fc cp j =
     fc\<lparr>fc_entries := (fc_entries fc)[j := fc_blank\<lparr>fe_codepoint := cp, fe_used := True\<rparr>],
        fc_count := fc_count fc + 1\<rparr>"

text \<open>Out of fuel is the recursion that does not end; one eviction is enough.\<close>

fun fc_insert :: "nat \<Rightarrow> scene_fontcache \<Rightarrow> u32 \<Rightarrow> (nat \<times> scene_fontcache) option" where
  "fc_insert 0 fc cp = None"
| "fc_insert (Suc k) fc cp =
     (case fc_free fc cp of
        Some j \<Rightarrow> Some (j, fc_occupy fc cp j)
      | None \<Rightarrow> fc_insert k (fc_evict_lru fc) cp)"

subsection \<open>Lookup\<close>

definition cached :: "glyph \<Rightarrow> scene_cached_glyph" where
  "cached g =
     \<lparr>cg_x0 = gl_x0 g, cg_y0 = gl_y0 g, cg_x1 = gl_x0 g + gl_w g, cg_y1 = gl_y0 g + gl_h g,
      cg_w = gl_w g, cg_h = gl_h g, cg_advance = gl_advance g, cg_pixels = gl_pixels g\<rparr>"

text \<open>Stamp the entry with the next time; the glyph is kept or set.\<close>

definition fc_touch :: "scene_fontcache \<Rightarrow> nat \<Rightarrow> (glyph \<Rightarrow> glyph) \<Rightarrow> scene_cached_glyph \<times> scene_fontcache" where
  "fc_touch fc j g =
     (let t = fc_lru_clock fc + 1;
          e = (fc_entries fc ! j)\<lparr>fe_glyph := g (fe_glyph (fc_entries fc ! j)), fe_lru := t\<rparr>
      in (cached (fe_glyph e), fc\<lparr>fc_entries := (fc_entries fc)[j := e], fc_lru_clock := t\<rparr>))"

definition scene_fontcache_glyph ::
    "(u32 \<Rightarrow> glyph) \<Rightarrow> scene_fontcache \<Rightarrow> u32 \<Rightarrow> (scene_cached_glyph \<times> scene_fontcache) option" where
  "scene_fontcache_glyph raster fc cp =
     (case fc_find fc cp of
        Some j \<Rightarrow> Some (fc_touch fc j (\<lambda>g. g))
      | None \<Rightarrow>
          (case fc_insert 2 (if fc_count fc \<ge> 1024 then fc_evict_lru fc else fc) cp of
             None \<Rightarrow> None
           | Some (j, fc1) \<Rightarrow> Some (fc_touch fc1 j (\<lambda>_. raster cp))))"

text \<open>A run of lookups.\<close>

fun glyph_run :: "(u32 \<Rightarrow> glyph) \<Rightarrow> scene_fontcache \<Rightarrow> u32 list \<Rightarrow>
    (scene_cached_glyph list \<times> scene_fontcache) option" where
  "glyph_run raster fc [] = Some ([], fc)"
| "glyph_run raster fc (cp # cps) =
     (case scene_fontcache_glyph raster fc cp of
        None \<Rightarrow> None
      | Some (g, fc1) \<Rightarrow> map_option (\<lambda>(gs, fc2). (g # gs, fc2)) (glyph_run raster fc1 cps))"

subsection \<open>The header check\<close>

definition be32 :: "bytes \<Rightarrow> nat \<Rightarrow> u32" where
  "be32 d i = push_bit 24 (ucast (rd d i)) OR push_bit 16 (ucast (rd d (i + 1))) OR
     push_bit 8 (ucast (rd d (i + 2))) OR ucast (rd d (i + 3))"

definition fc_sfnt_ok :: "bytes \<Rightarrow> u32 \<Rightarrow> bool" where
  "fc_sfnt_ok d n =
     (if n < 12 then False
      else
        let tag = be32 d 0
        in if tag \<in> {0x00010000, 0x4F54544F, 0x74727565, 0x74797031} then
             let num = push_bit 8 (ucast (rd d 4)) OR ucast (rd d 5) :: u32
             in num \<noteq> 0 \<and> 12 + 16 * num \<le> n
           else if tag = 0x74746366 then
             \<not> n < 16 \<and> be32 d 8 \<le> (n - 12) div 4
           else False)"

subsection \<open>Soundness\<close>

definition fc_sound :: "(u32 \<Rightarrow> glyph) \<Rightarrow> scene_fontcache \<Rightarrow> bool" where
  "fc_sound raster fc \<longleftrightarrow>
     length (fc_entries fc) = FC_CAP \<and>
     (\<forall>e \<in> set (fc_entries fc). fe_used e \<longrightarrow> fe_glyph e = raster (fe_codepoint e)) \<and>
     unat (fc_count fc) = fc_used fc"

lemma fc_sound_new: "fc_sound raster fc_new"
  by (simp add: fc_sound_def fc_new_def fc_used_def fc_blank_def)

lemma fc_slot_less [simp]: "fc_slot cp i < FC_CAP"
  by (simp add: fc_slot_def)

text \<open>The probe path visits every slot.\<close>

lemma fc_slot_onto: "j < FC_CAP \<Longrightarrow> \<exists>i < FC_CAP. fc_slot cp i = j"
proof -
  assume j: "j < FC_CAP"
  let ?u = "unat (drop_bit 22 (fc_hash cp))"
  let ?i = "j + FC_CAP - ?u mod FC_CAP"
  have "fc_slot cp (?i mod FC_CAP) = (?u mod FC_CAP + ?i) mod FC_CAP"
    unfolding fc_slot_def by (simp only: mod_add_right_eq mod_add_left_eq)
  also have "?u mod FC_CAP + ?i = j + FC_CAP"
    using mod_less_divisor [of FC_CAP ?u] by simp
  also have "(j + FC_CAP) mod FC_CAP = j" using j by simp
  finally show ?thesis by (intro exI [of _ "?i mod FC_CAP"]) simp
qed

lemma filter_update:
  "j < length xs \<Longrightarrow> P y \<Longrightarrow> \<not> P (xs ! j) \<Longrightarrow> length (filter P (xs[j := y])) = Suc (length (filter P xs))"
  "j < length xs \<Longrightarrow> \<not> P y \<Longrightarrow> P (xs ! j) \<Longrightarrow> Suc (length (filter P (xs[j := y]))) = length (filter P xs)"
  "j < length xs \<Longrightarrow> P y = P (xs ! j) \<Longrightarrow> length (filter P (xs[j := y])) = length (filter P xs)"
  by (induction xs arbitrary: j) (auto split: nat.split simp: nth_Cons')

lemma used_full: "length (fc_entries fc) = FC_CAP \<Longrightarrow> fc_used fc \<ge> FC_CAP \<Longrightarrow> j < FC_CAP \<Longrightarrow> fe_used (fc_entries fc ! j)"
  using length_filter_less [of "fc_entries fc ! j" "fc_entries fc" fe_used] by (fastforce simp: fc_used_def)

lemma used_less: "length (fc_entries fc) = FC_CAP \<Longrightarrow> j < FC_CAP \<Longrightarrow> \<not> fe_used (fc_entries fc ! j) \<Longrightarrow> fc_used fc < FC_CAP"
  using used_full by (meson not_less)

lemma fc_find_from_Some: "fc_find_from fc cp i = Some j \<Longrightarrow>
   j < FC_CAP \<and> fe_used (fc_entries fc ! j) \<and> fe_codepoint (fc_entries fc ! j) = cp"
proof (induction fc cp i rule: fc_find_from.induct)
  case (1 fc cp i)
  then show ?case
    using fc_slot_less [of cp i]
    by (subst (asm) (2) fc_find_from.simps) (auto simp: Let_def simp del: fc_slot_less split: if_splits)
qed

subsection \<open>Eviction and insertion\<close>

definition fc_oldest :: "scene_fontcache \<Rightarrow> nat" where
  "fc_oldest fc = fst (foldl (oldest_step fc) (0, 0xFFFFFFFF) [0..<FC_CAP])"

lemma fc_oldest_less: "fc_oldest fc < FC_CAP"
proof -
  have "fst (foldl (oldest_step fc) best xs) \<in> insert (fst best) (set xs)" for best xs
  proof (induction xs arbitrary: best)
    case (Cons x xs)
    have "fst (oldest_step fc best x) \<in> {fst best, x}" by (simp add: oldest_step_def Let_def)
    then show ?case using Cons [of "oldest_step fc best x"] by auto
  qed simp
  from this [of "(0, 0xFFFFFFFF)" "[0..<FC_CAP]"] show ?thesis unfolding fc_oldest_def by auto
qed

lemma fc_evict_eq: "fc_evict_lru fc = fc\<lparr>fc_entries := (fc_entries fc)[fc_oldest fc := fc_blank], fc_count := fc_count fc - 1\<rparr>"
  unfolding fc_evict_lru_def fc_oldest_def by (simp only: split_def Let_def)

lemma fc_evict_sound:
  assumes "fc_sound raster fc" "fc_used fc \<ge> FC_CAP"
  shows "fc_sound raster (fc_evict_lru fc)" "fc_used (fc_evict_lru fc) < FC_CAP"
proof -
  let ?j = "fc_oldest fc"
  have len: "length (fc_entries fc) = FC_CAP" using assms(1) by (simp add: fc_sound_def)
  note j = fc_oldest_less [of fc]
  have "fe_used (fc_entries fc ! ?j)" using used_full [OF len assms(2) j] .
  then have u: "Suc (fc_used (fc_evict_lru fc)) = fc_used fc"
    using filter_update(2) [of ?j "fc_entries fc" fe_used fc_blank] j len
    by (simp add: fc_used_def fc_evict_eq fc_blank_def)
  have "fc_used fc \<le> FC_CAP" using length_filter_le [of fe_used "fc_entries fc"] len by (simp add: fc_used_def)
  then show "fc_used (fc_evict_lru fc) < FC_CAP" using u by simp
  have c: "unat (fc_count fc) = fc_used fc" using assms(1) by (simp add: fc_sound_def)
  have "1 \<le> fc_count fc" using c u by (simp add: word_le_nat_alt)
  then have "unat (fc_count fc - 1) = fc_used fc - 1" using c by (simp add: unat_sub)
  then show "fc_sound raster (fc_evict_lru fc)"
    using assms(1) u by (auto simp: fc_sound_def fc_evict_eq fc_blank_def fc_used_def dest!: subsetD [OF set_update_subset_insert])
qed

lemma fc_free_Some: "fc_free fc cp = Some j \<Longrightarrow> j < FC_CAP \<and> \<not> fe_used (fc_entries fc ! j)"
  by (auto simp: fc_free_def find_Some_iff)

lemma fc_free_None: "length (fc_entries fc) = FC_CAP \<Longrightarrow> fc_free fc cp = None \<Longrightarrow> fc_used fc \<ge> FC_CAP"
proof -
  assume len: "length (fc_entries fc) = FC_CAP" and none: "fc_free fc cp = None"
  have "fe_used (fc_entries fc ! j)" if j: "j < FC_CAP" for j
    using none fc_slot_onto [OF j, of cp] by (auto simp: fc_free_def find_None_iff)
  then have "filter fe_used (fc_entries fc) = fc_entries fc"
    using len by (intro filter_True) (auto simp: in_set_conv_nth)
  then show ?thesis using len by (simp add: fc_used_def)
qed

text \<open>Inserting a code point and storing its glyph keeps the cache sound.\<close>

lemma fc_insert_free:
  assumes "fc_sound raster fc" "fc_free fc cp = Some j"
  shows "fst (fc_touch (fc_occupy fc cp j) j (\<lambda>_. raster cp)) = cached (raster cp)"
    and "fc_sound raster (snd (fc_touch (fc_occupy fc cp j) j (\<lambda>_. raster cp)))"
proof -
  have len: "length (fc_entries fc) = FC_CAP" using assms(1) by (simp add: fc_sound_def)
  have j: "j < FC_CAP" "\<not> fe_used (fc_entries fc ! j)" using fc_free_Some [OF assms(2)] by simp_all
  show "fst (fc_touch (fc_occupy fc cp j) j (\<lambda>_. raster cp)) = cached (raster cp)"
    by (simp add: fc_touch_def fc_occupy_def Let_def)
  have "fc_used fc < FC_CAP" using used_less [OF len j] .
  then have "unat (fc_count fc + 1) = Suc (fc_used fc)"
    using assms(1) by (simp add: fc_sound_def unat_word_ariths(1))
  then show "fc_sound raster (snd (fc_touch (fc_occupy fc cp j) j (\<lambda>_. raster cp)))"
    using assms(1) j len
    by (auto simp: fc_sound_def fc_touch_def fc_occupy_def fc_used_def Let_def filter_update(1)
        dest!: subsetD [OF set_update_subset_insert])
qed

lemma fc_insert_sound:
  assumes "fc_sound raster fc"
  shows "\<exists>j fc1. fc_insert 2 fc cp = Some (j, fc1) \<and>
    fst (fc_touch fc1 j (\<lambda>_. raster cp)) = cached (raster cp) \<and>
    fc_sound raster (snd (fc_touch fc1 j (\<lambda>_. raster cp)))"
proof (cases "fc_free fc cp")
  case (Some j)
  then show ?thesis using fc_insert_free [OF assms Some] by (simp add: numeral_2_eq_2)
next
  case None
  have "fc_used fc \<ge> FC_CAP" using fc_free_None None assms by (simp add: fc_sound_def)
  note E = fc_evict_sound [OF assms this]
  then obtain j where "fc_free (fc_evict_lru fc) cp = Some j"
    using fc_free_None [of "fc_evict_lru fc" cp] by (cases "fc_free (fc_evict_lru fc) cp") (auto simp: fc_sound_def)
  then show ?thesis using fc_insert_free [OF E(1)] None by (simp add: numeral_2_eq_2)
qed

lemma glyph_sound:
  assumes "fc_sound raster fc"
  shows "\<exists>fc'. scene_fontcache_glyph raster fc cp = Some (cached (raster cp), fc') \<and> fc_sound raster fc'"
proof (cases "fc_find fc cp")
  case (Some j)
  have j: "j < FC_CAP" "fe_used (fc_entries fc ! j)" "fe_codepoint (fc_entries fc ! j) = cp"
    using fc_find_from_Some Some by (auto simp: fc_find_def)
  have len: "length (fc_entries fc) = FC_CAP" using assms by (simp add: fc_sound_def)
  then have g: "fe_glyph (fc_entries fc ! j) = raster cp"
    using assms j nth_mem [of j "fc_entries fc"] by (auto simp: fc_sound_def)
  then show ?thesis
    using assms j len Some
    by (auto simp: scene_fontcache_glyph_def fc_touch_def fc_sound_def fc_used_def Let_def filter_update(3)
        dest!: subsetD [OF set_update_subset_insert])
next
  case None
  let ?fc = "if fc_count fc \<ge> 1024 then fc_evict_lru fc else fc"
  have "fc_sound raster ?fc"
    using assms fc_evict_sound(1) [OF assms] by (auto simp: fc_sound_def word_le_nat_alt)
  then obtain j fc1 where "fc_insert 2 ?fc cp = Some (j, fc1)"
      "fst (fc_touch fc1 j (\<lambda>_. raster cp)) = cached (raster cp)"
      "fc_sound raster (snd (fc_touch fc1 j (\<lambda>_. raster cp)))"
    using fc_insert_sound by blast
  then show ?thesis
    using None by (auto simp: scene_fontcache_glyph_def prod_eq_iff)
qed

lemma glyph_run_sound:
  "fc_sound raster fc \<Longrightarrow>
   \<exists>fc'. glyph_run raster fc cps = Some (map (\<lambda>cp. cached (raster cp)) cps, fc') \<and> fc_sound raster fc'"
proof (induction cps arbitrary: fc)
  case (Cons cp cps)
  then obtain fc1 where "scene_fontcache_glyph raster fc cp = Some (cached (raster cp), fc1)" "fc_sound raster fc1"
    using glyph_sound by blast
  then show ?case using Cons.IH [of fc1] by auto
qed simp

lemma fc_used_le: "fc_sound raster fc \<Longrightarrow> fc_used fc \<le> FC_CAP"
  using length_filter_le [of fe_used "fc_entries fc"] by (simp add: fc_sound_def fc_used_def)

end
