(* ===== verification/Terminal.thy ===== *)
theory Terminal
  imports Prelude
begin

text \<open>
  The text buffer of \<open>src/scene_terminal.c\<close>: what a byte of output does to the lines and the
  cursor, the scrolling of the view, and the bytes a key sends to the shell.

  Rows, columns and the scroll origin are the code's \<open>int32_t\<close>: integers, with every sum cut to
  32 bits and read with its sign (\<open>wrap32\<close>; the standard leaves the overflow undefined, the machine wraps). A
  \<open>char\<close> is signed, so that only the bytes 32 to 127 print. A character that would go to a negative line
  makes \<open>process_output_byte\<close> give \<open>None\<close>: the code reads a pointer before the array of lines.

  The specification is a tape of lines without a window on it: \<open>terminal_run\<close> shows that
  the terminal is this tape, as long as the lines are numbered below \<open>2 ^ 31\<close>, and that it fails exactly
  when a character has to go beyond line 1024: the loop that makes the cursor's line exist then counts up
  to the overflow (\<open>rows_loop_full\<close>) and leaves with a negative line.
\<close>

subsection \<open>State\<close>

definition wrap32 :: "int \<Rightarrow> int" where
  "wrap32 n = signed_take_bit 31 n"

record scene_terminal_config =
  tc_cols :: int
  tc_rows :: int
  tc_bg_color :: u32
  tc_fg_color :: u32
  tc_cursor_color :: u32
  tc_block_cursor :: int
  tc_cursor_blink_ms :: u32

record scene_terminal =
  tm_cfg :: scene_terminal_config
  tm_lines :: "bytes list"   \<comment> \<open>\<open>line_count\<close> lines of \<open>cols + 1\<close> bytes\<close>
  tm_view_top :: int
  tm_row :: int
  tm_col :: int
  tm_exited :: bool
  tm_exit_status :: int

abbreviation MAX_LINES :: nat where
  "MAX_LINES \<equiv> 1024"

abbreviation TAB_STOP :: int where
  "TAB_STOP \<equiv> 8"

definition scene_terminal_config_defaults :: scene_terminal_config where
  "scene_terminal_config_defaults =
     \<lparr>tc_cols = 80, tc_rows = 24, tc_bg_color = 0xFF0C0C0C, tc_fg_color = 0xFFCCCCCC,
      tc_cursor_color = 0xFFCCCCCC, tc_block_cursor = 1, tc_cursor_blink_ms = 800\<rparr>"

definition blank_line :: "scene_terminal \<Rightarrow> bytes" where
  "blank_line t = replicate (nat (tc_cols (tm_cfg t) + 1)) 0"

text \<open>The buffer of a new terminal: one line.\<close>

definition terminal_new :: "scene_terminal_config option \<Rightarrow> scene_terminal" where
  "terminal_new cfg =
     (let t = \<lparr>tm_cfg = (case cfg of Some c \<Rightarrow> c | None \<Rightarrow> scene_terminal_config_defaults),
               tm_lines = [], tm_view_top = 0, tm_row = 0, tm_col = 0,
               tm_exited = False, tm_exit_status = 0\<rparr>
      in t\<lparr>tm_lines := [blank_line t]\<rparr>)"

subsection \<open>Output\<close>

definition line_feed :: "scene_terminal \<Rightarrow> scene_terminal" where
  "line_feed t0 =
     (let t = t0\<lparr>tm_row := wrap32 (tm_row t0 + 1), tm_col := 0\<rparr>
      in if tm_row t \<ge> tc_rows (tm_cfg t)
         then t\<lparr>tm_row := tc_rows (tm_cfg t) - 1, tm_view_top := wrap32 (tm_view_top t + 1)\<rparr>
         else t)"

definition tab_stop :: "scene_terminal \<Rightarrow> scene_terminal" where
  "tab_stop t0 =
     (let t = t0\<lparr>tm_col := wrap32 (tm_col t0 + TAB_STOP) AND NOT (TAB_STOP - 1)\<rparr>
      in if tm_col t \<ge> tc_cols (tm_cfg t) then t\<lparr>tm_col := tc_cols (tm_cfg t) - 1\<rparr> else t)"

text \<open>\<open>while (abs_row >= term->line_count)\<close>\<close>

partial_function (option) rows_loop :: "scene_terminal \<Rightarrow> int \<Rightarrow> (scene_terminal \<times> int) option" where
  "rows_loop t abs_row =
     (if abs_row \<ge> int (length (tm_lines t)) then
        (if length (tm_lines t) < MAX_LINES
         then rows_loop (t\<lparr>tm_lines := tm_lines t @ [blank_line t]\<rparr>) abs_row
         else let top = wrap32 (tm_view_top t + 1)
              in rows_loop (t\<lparr>tm_view_top := top\<rparr>) (wrap32 (top + tm_row t)))
      else Some (t, abs_row))"

definition put_char :: "scene_terminal \<Rightarrow> int \<Rightarrow> u8 \<Rightarrow> scene_terminal" where
  "put_char t abs_row c =
     (let t1 = (if tm_col t < tc_cols (tm_cfg t)
                then t\<lparr>tm_lines := (tm_lines t)[nat abs_row :=
                           (tm_lines t ! nat abs_row)[nat (tm_col t) := c]],
                       tm_col := tm_col t + 1\<rparr>
                else t)
      in if tm_col t1 \<ge> tc_cols (tm_cfg t1) then line_feed t1 else t1)"

definition process_output_byte :: "scene_terminal \<Rightarrow> u8 \<Rightarrow> scene_terminal option" where
  "process_output_byte t c =
     (if c = 10 then Some (line_feed t)
      else if c = 13 then Some (t\<lparr>tm_col := 0\<rparr>)
      else if c = 9 then Some (tab_stop t)
      else if c = 8 then Some (if tm_col t > 0 then t\<lparr>tm_col := tm_col t - 1\<rparr> else t)
      else if 32 \<le> sint c then
        (case rows_loop t (wrap32 (tm_view_top t + tm_row t)) of
           None \<Rightarrow> None
         | Some (t1, abs_row) \<Rightarrow> if abs_row < 0 then None else Some (put_char t1 abs_row c))
      else Some t)"

text \<open>One read of the child's output.\<close>

fun drain_posix :: "scene_terminal \<Rightarrow> bytes \<Rightarrow> scene_terminal option" where
  "drain_posix t [] = Some t"
| "drain_posix t (c # cs) =
     (case process_output_byte t c of None \<Rightarrow> None | Some t1 \<Rightarrow> drain_posix t1 cs)"

subsection \<open>View\<close>

definition scene_terminal_line_count :: "scene_terminal \<Rightarrow> int" where
  "scene_terminal_line_count t = int (length (tm_lines t))"

definition scene_terminal_view_top :: "scene_terminal \<Rightarrow> int" where
  "scene_terminal_view_top t =
     (let top = (if wrap32 (tm_view_top t + tc_rows (tm_cfg t)) > int (length (tm_lines t))
                 then wrap32 (int (length (tm_lines t)) - tc_rows (tm_cfg t)) else tm_view_top t)
      in if top < 0 then 0 else top)"

definition scene_terminal_scroll_up :: "scene_terminal \<Rightarrow> int \<Rightarrow> scene_terminal" where
  "scene_terminal_scroll_up t rows =
     (let top = wrap32 (tm_view_top t - rows) in t\<lparr>tm_view_top := (if top < 0 then 0 else top)\<rparr>)"

definition max_top :: "scene_terminal \<Rightarrow> int" where
  "max_top t = (let m = wrap32 (int (length (tm_lines t)) - tc_rows (tm_cfg t)) in if m < 0 then 0 else m)"

definition scene_terminal_scroll_down :: "scene_terminal \<Rightarrow> int \<Rightarrow> scene_terminal" where
  "scene_terminal_scroll_down t rows =
     (let top = wrap32 (tm_view_top t + rows) in t\<lparr>tm_view_top := (if top > max_top t then max_top t else top)\<rparr>)"

definition scene_terminal_scroll_to_top :: "scene_terminal \<Rightarrow> scene_terminal" where
  "scene_terminal_scroll_to_top t = t\<lparr>tm_view_top := 0\<rparr>"

definition scene_terminal_scroll_to_bottom :: "scene_terminal \<Rightarrow> scene_terminal" where
  "scene_terminal_scroll_to_bottom t = t\<lparr>tm_view_top := max_top t\<rparr>"

text \<open>A copy of a line, up to its first 0.\<close>

definition scene_terminal_line :: "scene_terminal \<Rightarrow> int \<Rightarrow> bytes option" where
  "scene_terminal_line t row =
     (if row < 0 \<or> row \<ge> int (length (tm_lines t)) then None
      else Some (takeWhile (\<lambda>c. c \<noteq> 0) (tm_lines t ! nat row)))"

definition scene_terminal_exited :: "scene_terminal option \<Rightarrow> int" where
  "scene_terminal_exited t = (case t of Some t \<Rightarrow> (if tm_exited t then 1 else 0) | None \<Rightarrow> 1)"

definition scene_terminal_exit_status :: "scene_terminal option \<Rightarrow> int" where
  "scene_terminal_exit_status t = (case t of Some t \<Rightarrow> tm_exit_status t | None \<Rightarrow> -1)"

subsection \<open>Keys\<close>

definition layout_char :: "u32 \<Rightarrow> u8 \<Rightarrow> u8" where
  "layout_char key_code modifiers =
     (let at = (\<lambda>(row :: string) base. of_char (row ! unat (key_code - base)) :: u8);
          shifted = (\<lambda>ch. if modifiers AND 1 \<noteq> 0 then ch - 32 else ch)
      in if 2 \<le> key_code \<and> key_code \<le> 11 then at ''1234567890'' 2
         else if 16 \<le> key_code \<and> key_code \<le> 25 then shifted (at ''qwertyuiop'' 16)
         else if 30 \<le> key_code \<and> key_code \<le> 38 then shifted (at ''asdfghjkl'' 30)
         else if 44 \<le> key_code \<and> key_code \<le> 50 then shifted (at ''zxcvbnm'' 44)
         else if key_code = 12 then 45 else if key_code = 13 then 61
         else if key_code = 26 then 91 else if key_code = 27 then 93
         else if key_code = 43 then 92 else if key_code = 39 then 59
         else if key_code = 40 then 39 else if key_code = 41 then 96
         else if key_code = 51 then 44 else if key_code = 52 then 46
         else if key_code = 53 then 47 else if key_code = 57 then 32
         else 0)"

definition control_char :: "u8 \<Rightarrow> u8" where
  "control_char ch =
     (if 97 \<le> ch \<and> ch \<le> 122 then ch - 97 + 1
      else if 65 \<le> ch \<and> ch \<le> 90 then ch - 65 + 1
      else ch)"

text \<open>The bytes written to the shell; \<open>[]\<close> is no write.\<close>

definition scene_terminal_input_key :: "scene_terminal \<Rightarrow> u32 \<Rightarrow> u8 \<Rightarrow> u8 \<Rightarrow> bytes" where
  "scene_terminal_input_key t key_code state modifiers =
     (if tm_exited t \<or> state = 0 then []
      else if key_code = 28 then [13]
      else if key_code = 14 then [8]
      else if key_code = 15 then [9]
      else if key_code = 103 then [27, 91, 65]
      else if key_code = 108 then [27, 91, 66]
      else if key_code = 106 then [27, 91, 67]
      else if key_code = 105 then [27, 91, 68]
      else if key_code = 107 then [27, 91, 70]
      else if key_code = 199 then [27, 91, 72]
      else if key_code = 207 then [27, 91, 70]
      else
        let ch = layout_char key_code modifiers
        in if ch = 0 then []
           else [if modifiers AND 2 \<noteq> 0 then control_char ch else ch])"

subsection \<open>The tape\<close>

text \<open>Lines without end, a character in each cell, and the cell the next character goes to.\<close>

record tape =
  tp_cells :: "nat \<Rightarrow> nat \<Rightarrow> u8"
  tp_line :: nat
  tp_pos :: nat

definition tape_byte :: "nat \<Rightarrow> tape \<Rightarrow> u8 \<Rightarrow> tape option" where
  "tape_byte cols g c =
     (if c = 10 then Some (g\<lparr>tp_line := tp_line g + 1, tp_pos := 0\<rparr>)
      else if c = 13 then Some (g\<lparr>tp_pos := 0\<rparr>)
      else if c = 9 then Some (g\<lparr>tp_pos := min (cols - 1) ((tp_pos g div 8 + 1) * 8)\<rparr>)
      else if c = 8 then Some (g\<lparr>tp_pos := tp_pos g - 1\<rparr>)
      else if c < 32 \<or> 128 \<le> c then Some g
      else if tp_line g < MAX_LINES then
        (let cells = (tp_cells g)(tp_line g := (tp_cells g (tp_line g))(tp_pos g := c))
         in Some (if tp_pos g + 1 < cols then g\<lparr>tp_cells := cells, tp_pos := tp_pos g + 1\<rparr>
                  else g\<lparr>tp_cells := cells, tp_line := tp_line g + 1, tp_pos := 0\<rparr>))
      else None)"

fun tape_run :: "nat \<Rightarrow> tape \<Rightarrow> bytes \<Rightarrow> tape option" where
  "tape_run cols g [] = Some g"
| "tape_run cols g (c # cs) = (case tape_byte cols g c of None \<Rightarrow> None | Some g1 \<Rightarrow> tape_run cols g1 cs)"

text \<open>The tape a terminal shows.\<close>

definition term_cols :: "scene_terminal \<Rightarrow> nat" where
  "term_cols t = nat (tc_cols (tm_cfg t))"

definition tape_of :: "scene_terminal \<Rightarrow> tape" where
  "tape_of t =
     \<lparr>tp_cells = (\<lambda>i j. if i < length (tm_lines t) \<and> j < term_cols t then tm_lines t ! i ! j else 0),
      tp_line = nat (tm_view_top t + tm_row t), tp_pos = nat (tm_col t)\<rparr>"

text \<open>The cursor is on the screen, and the lines are as the code allocates them.\<close>

definition term_ok :: "scene_terminal \<Rightarrow> bool" where
  "term_ok t \<longleftrightarrow>
     0 < tc_cols (tm_cfg t) \<and> tc_cols (tm_cfg t) < 2 ^ 30 \<and>
     0 < tc_rows (tm_cfg t) \<and> tc_rows (tm_cfg t) < 2 ^ 31 \<and>
     0 \<le> tm_view_top t \<and> 0 \<le> tm_row t \<and> tm_row t < tc_rows (tm_cfg t) \<and>
     0 \<le> tm_col t \<and> tm_col t < tc_cols (tm_cfg t) \<and>
     length (tm_lines t) \<le> MAX_LINES \<and>
     (\<forall>l \<in> set (tm_lines t). length l = term_cols t + 1)"

lemma term_ok_new:
  "0 < tc_cols cfg \<Longrightarrow> tc_cols cfg < 2 ^ 30 \<Longrightarrow> 0 < tc_rows cfg \<Longrightarrow> tc_rows cfg < 2 ^ 31 \<Longrightarrow> term_ok (terminal_new (Some cfg))"
  by (simp add: term_ok_def terminal_new_def blank_line_def term_cols_def nat_add_distrib)

subsection \<open>The loop\<close>

lemma wrap32_id: "- (2 ^ 31) \<le> n \<Longrightarrow> n < 2 ^ 31 \<Longrightarrow> wrap32 n = n"
  by (simp add: wrap32_def signed_take_bit_int_eq_self)

lemma wrap32_over: "wrap32 (2 ^ 31) = - (2 ^ 31)"
  by (simp add: wrap32_def)

lemma rows_loop_Some:
  assumes "abs_row < int MAX_LINES" "length (tm_lines t) \<le> MAX_LINES"
  shows "\<exists>k. rows_loop t abs_row = Some (t\<lparr>tm_lines := tm_lines t @ replicate k (blank_line t)\<rparr>, abs_row) \<and>
    abs_row < int (length (tm_lines t) + k) \<and> length (tm_lines t) + k \<le> MAX_LINES"
  using assms
proof (induction "nat (abs_row + 1 - int (length (tm_lines t)))" arbitrary: t)
  case 0
  then show ?case by (subst rows_loop.simps) (auto intro!: exI [of _ 0])
next
  case (Suc n)
  let ?t = "t\<lparr>tm_lines := tm_lines t @ [blank_line t]\<rparr>"
  have ge: "int (length (tm_lines t)) \<le> abs_row" "length (tm_lines t) < MAX_LINES"
    using Suc.hyps(2) Suc.prems by auto
  have b: "blank_line ?t = blank_line t" by (simp add: blank_line_def)
  have "n = nat (abs_row + 1 - int (length (tm_lines ?t)))" using Suc.hyps(2) by simp
  then obtain k where k: "rows_loop ?t abs_row = Some (?t\<lparr>tm_lines := tm_lines ?t @ replicate k (blank_line ?t)\<rparr>, abs_row)"
      "abs_row < int (length (tm_lines ?t) + k)" "length (tm_lines ?t) + k \<le> MAX_LINES"
    using Suc.hyps(1) [of ?t] Suc.prems(1) ge(2) by auto
  then show ?case
    using ge by (subst rows_loop.simps) (auto simp: b intro!: exI [of _ "Suc k"])
qed

text \<open>With all lines in use the loop moves the origin and the row together, up to the overflow, and leaves
  with a negative row.\<close>

lemma rows_loop_full:
  assumes "length (tm_lines t) = MAX_LINES" "int MAX_LINES \<le> tm_view_top t + tm_row t"
    and "tm_view_top t + tm_row t < 2 ^ 31" "0 \<le> tm_row t" "tm_row t < 2 ^ 31" "0 \<le> tm_view_top t"
  shows "\<exists>t1. rows_loop t (tm_view_top t + tm_row t) = Some (t1, - (2 ^ 31))"
  using assms
proof (induction "nat (2 ^ 31 - (tm_view_top t + tm_row t))" arbitrary: t rule: less_induct)
  case less
  let ?top = "wrap32 (tm_view_top t + 1)"
  let ?t = "t\<lparr>tm_view_top := ?top\<rparr>"
  have turn: "rows_loop t (tm_view_top t + tm_row t) = rows_loop ?t (wrap32 (?top + tm_row t))"
    using less.prems by (subst rows_loop.simps) (simp add: Let_def)
  show ?case
  proof (cases "tm_view_top t + tm_row t + 1 < 2 ^ 31")
    case True
    then have top: "?top = tm_view_top t + 1" using less.prems by (intro wrap32_id) auto
    then have "wrap32 (?top + tm_row t) = tm_view_top ?t + tm_row ?t"
      using True less.prems by (simp add: wrap32_id)
    moreover have "\<exists>t1. rows_loop ?t (tm_view_top ?t + tm_row ?t) = Some (t1, - (2 ^ 31))"
      by (rule less.hyps) (use True top less.prems in auto)
    ultimately show ?thesis using turn by simp
  next
    case False
    then have a: "tm_view_top t + tm_row t + 1 = 2 ^ 31" using less.prems by simp
    have "wrap32 (?top + tm_row t) = - (2 ^ 31)"
    proof (cases "tm_row t = 0")
      case True
      then have "?top = - (2 ^ 31)" using a wrap32_over by simp
      then show ?thesis using True by (simp add: wrap32_id)
    next
      case False
      then have "?top = tm_view_top t + 1" using a less.prems by (intro wrap32_id) auto
      then show ?thesis using a wrap32_over by (simp add: algebra_simps)
    qed
    then show ?thesis using turn less.prems(1) by (simp add: rows_loop.simps)
  qed
qed

text \<open>Before that the loop allocates the lines that are left.\<close>

lemma rows_loop_fills:
  assumes "length (tm_lines t) \<le> MAX_LINES" "int MAX_LINES \<le> a"
  shows "\<exists>k. rows_loop t a = rows_loop (t\<lparr>tm_lines := tm_lines t @ replicate k (blank_line t)\<rparr>) a \<and>
    length (tm_lines t) + k = MAX_LINES"
  using assms
proof (induction "MAX_LINES - length (tm_lines t)" arbitrary: t)
  case 0
  then show ?case by (intro exI [of _ 0]) simp
next
  case (Suc n)
  let ?t = "t\<lparr>tm_lines := tm_lines t @ [blank_line t]\<rparr>"
  have b: "blank_line ?t = blank_line t" by (simp add: blank_line_def)
  have "n = MAX_LINES - length (tm_lines ?t)" "length (tm_lines ?t) \<le> MAX_LINES" using Suc.hyps(2) by auto
  from Suc.hyps(1) [OF this Suc.prems(2)] obtain k where
    k: "rows_loop ?t a = rows_loop (?t\<lparr>tm_lines := tm_lines ?t @ replicate k (blank_line ?t)\<rparr>) a"
      "length (tm_lines ?t) + k = MAX_LINES" by blast
  have "rows_loop t a = rows_loop ?t a"
    using Suc.hyps(2) Suc.prems by (subst rows_loop.simps) auto
  then show ?case using k by (intro exI [of _ "Suc k"]) (simp add: b)
qed

lemma rows_loop_overflow:
  assumes "length (tm_lines t) \<le> MAX_LINES" "int MAX_LINES \<le> tm_view_top t + tm_row t"
    and "tm_view_top t + tm_row t < 2 ^ 31" "0 \<le> tm_row t" "tm_row t < 2 ^ 31" "0 \<le> tm_view_top t"
  shows "\<exists>t1. rows_loop t (tm_view_top t + tm_row t) = Some (t1, - (2 ^ 31))"
proof -
  obtain k where "rows_loop t (tm_view_top t + tm_row t) =
      rows_loop (t\<lparr>tm_lines := tm_lines t @ replicate k (blank_line t)\<rparr>) (tm_view_top t + tm_row t)"
    and "length (tm_lines t) + k = MAX_LINES"
    using rows_loop_fills [OF assms(1,2)] by blast
  with assms rows_loop_full [of "t\<lparr>tm_lines := tm_lines t @ replicate k (blank_line t)\<rparr>"]
  show ?thesis by simp
qed

subsection \<open>The terminal is the tape\<close>

lemma line_feed_tape:
  assumes "0 < tc_rows (tm_cfg t)" "0 \<le> tm_view_top t" "0 \<le> tm_row t" "tm_row t < tc_rows (tm_cfg t)"
    and "tc_rows (tm_cfg t) < 2 ^ 31" "tm_view_top t + tm_row t + 1 < 2 ^ 31"
  shows "tape_of (line_feed t) = (tape_of t)\<lparr>tp_line := tp_line (tape_of t) + 1, tp_pos := 0\<rparr>"
    and "term_ok (t\<lparr>tm_col := 0\<rparr>) \<Longrightarrow> term_ok (line_feed t)"
    and "tm_view_top (line_feed t) + tm_row (line_feed t) = tm_view_top t + tm_row t + 1"
proof -
  have "wrap32 (tm_row t + 1) = tm_row t + 1" "wrap32 (tm_view_top t + 1) = tm_view_top t + 1"
    using assms by (auto intro!: wrap32_id)
  then have l: "line_feed t = (if tm_row t + 1 \<ge> tc_rows (tm_cfg t)
      then t\<lparr>tm_row := tc_rows (tm_cfg t) - 1, tm_col := 0, tm_view_top := tm_view_top t + 1\<rparr>
      else t\<lparr>tm_row := tm_row t + 1, tm_col := 0\<rparr>)"
    by (simp add: line_feed_def Let_def)
  show "tape_of (line_feed t) = (tape_of t)\<lparr>tp_line := tp_line (tape_of t) + 1, tp_pos := 0\<rparr>"
    "term_ok (t\<lparr>tm_col := 0\<rparr>) \<Longrightarrow> term_ok (line_feed t)"
    "tm_view_top (line_feed t) + tm_row (line_feed t) = tm_view_top t + tm_row t + 1"
    using assms by (auto simp: l tape_of_def term_ok_def term_cols_def nat_add_distrib fun_eq_iff)
qed

lemma line_feed_cfg [simp]: "tm_cfg (line_feed t) = tm_cfg t" "tm_cfg (tab_stop t) = tm_cfg t"
  by (simp_all add: line_feed_def tab_stop_def Let_def)

lemma and_not_7: "(x :: int) AND NOT (TAB_STOP - 1) = x div 8 * 8"
proof -
  have "x AND NOT (mask 3) = push_bit 3 (drop_bit 3 x)" by (rule bit_eqI) (auto simp: bit_simps)
  then show ?thesis by (simp add: mask_eq_exp_minus_1 push_bit_eq_mult drop_bit_eq_div)
qed

lemma tab_stop_tape:
  assumes "term_ok t"
  shows "tape_of (tab_stop t) = (tape_of t)\<lparr>tp_pos := min (term_cols t - 1) ((tp_pos (tape_of t) div 8 + 1) * 8)\<rparr>"
    and "term_ok (tab_stop t)"
proof -
  let ?c = "(tm_col t + TAB_STOP) div 8 * 8"
  have c: "0 \<le> tm_col t" "0 < tc_cols (tm_cfg t)" using assms by (simp_all add: term_ok_def)
  have "wrap32 (tm_col t + TAB_STOP) = tm_col t + TAB_STOP"
    using assms by (intro wrap32_id) (auto simp: term_ok_def)
  note tab_stop_def [of t, unfolded this and_not_7]
  then have t: "tab_stop t = t\<lparr>tm_col := min (tc_cols (tm_cfg t) - 1) ?c\<rparr>"
    by (cases t) (auto simp: Let_def min_def)
  have "nat ?c = (nat (tm_col t) div 8 + 1) * 8"
    using c(1) div_add_self2 [of 8 "nat (tm_col t)"]
    by (simp add: nat_mult_distrib nat_div_distrib nat_add_distrib distrib_right del: div_add_self2)
  moreover have "nat (min (tc_cols (tm_cfg t) - 1) ?c) = min (term_cols t - 1) (nat ?c)"
    using c by (auto simp: min_def term_cols_def)
  ultimately show "tape_of (tab_stop t) = (tape_of t)\<lparr>tp_pos := min (term_cols t - 1) ((tp_pos (tape_of t) div 8 + 1) * 8)\<rparr>"
    by (simp add: t tape_of_def term_cols_def fun_eq_iff)
  show "term_ok (tab_stop t)"
    using assms c by (auto simp: t term_ok_def term_cols_def)
qed

text \<open>A character in a line that exists.\<close>

lemma put_char_tape:
  assumes ok: "term_ok t" and line: "tm_view_top t + tm_row t < int (length (tm_lines t))"
    and low: "tm_view_top t + tm_row t + 1 < 2 ^ 31"
  shows "let g = tape_of t; cells = (tp_cells g)(tp_line g := (tp_cells g (tp_line g))(tp_pos g := c))
    in tape_of (put_char t (tm_view_top t + tm_row t) c) =
      (if tp_pos g + 1 < term_cols t then g\<lparr>tp_cells := cells, tp_pos := tp_pos g + 1\<rparr>
       else g\<lparr>tp_cells := cells, tp_line := tp_line g + 1, tp_pos := 0\<rparr>)"
    and "term_ok (put_char t (tm_view_top t + tm_row t) c)"
    and "tm_view_top (put_char t (tm_view_top t + tm_row t) c) + tm_row (put_char t (tm_view_top t + tm_row t) c)
      \<le> tm_view_top t + tm_row t + 1"
proof -
  let ?i = "nat (tm_view_top t + tm_row t)" and ?j = "nat (tm_col t)"
  let ?t = "t\<lparr>tm_lines := (tm_lines t)[?i := (tm_lines t ! ?i)[?j := c]], tm_col := tm_col t + 1\<rparr>"
  have b: "0 \<le> tm_view_top t" "0 \<le> tm_row t" "0 \<le> tm_col t" "tm_col t < tc_cols (tm_cfg t)"
    using ok by (simp_all add: term_ok_def)
  have i: "?i < length (tm_lines t)" using line b by simp
  then have l: "length (tm_lines t ! ?i) = term_cols t + 1" using ok by (simp add: term_ok_def)
  have j: "?j < term_cols t" using b by (simp add: term_cols_def)
  have p: "put_char t (tm_view_top t + tm_row t) c =
      (if tm_col t + 1 < tc_cols (tm_cfg t) then ?t else line_feed ?t)"
    using b(4) by (simp add: put_char_def Let_def not_le [symmetric])
  have w: "tm_col t + 1 < tc_cols (tm_cfg t) \<longleftrightarrow> ?j + 1 < term_cols t"
    using b by (auto simp: term_cols_def)
  have cells: "tp_cells (tape_of ?t) =
      (tp_cells (tape_of t))(?i := (tp_cells (tape_of t) ?i)(?j := c))"
    using i j l by (auto simp: tape_of_def fun_eq_iff nth_list_update term_cols_def)
  have rest: "tape_of ?t = (tape_of t)\<lparr>tp_cells := tp_cells (tape_of ?t), tp_pos := ?j + 1\<rparr>"
    using b by (simp add: tape_of_def nat_add_distrib)
  have t0: "term_ok (?t\<lparr>tm_col := 0\<rparr>)" and t1: "tm_col t + 1 < tc_cols (tm_cfg t) \<Longrightarrow> term_ok ?t"
    using ok i l by (auto simp: term_ok_def term_cols_def dest!: subsetD [OF set_update_subset_insert])
  note F = line_feed_tape [of ?t]
  show "let g = tape_of t; cells = (tp_cells g)(tp_line g := (tp_cells g (tp_line g))(tp_pos g := c))
    in tape_of (put_char t (tm_view_top t + tm_row t) c) =
      (if tp_pos g + 1 < term_cols t then g\<lparr>tp_cells := cells, tp_pos := tp_pos g + 1\<rparr>
       else g\<lparr>tp_cells := cells, tp_line := tp_line g + 1, tp_pos := 0\<rparr>)"
  proof (cases "?j + 1 < term_cols t")
    case True
    then have "tape_of (put_char t (tm_view_top t + tm_row t) c) = tape_of ?t" using p w by simp
    then show ?thesis using True rest cells by (simp add: Let_def) (simp add: tape_of_def)
  next
    case False
    then have "tape_of (put_char t (tm_view_top t + tm_row t) c) = tape_of (line_feed ?t)" using p w by simp
    also have "\<dots> = (tape_of ?t)\<lparr>tp_line := tp_line (tape_of ?t) + 1, tp_pos := 0\<rparr>"
      using F(1) ok low by (simp add: term_ok_def)
    finally show ?thesis using False rest cells by (simp add: Let_def) (simp add: tape_of_def)
  qed
  show "term_ok (put_char t (tm_view_top t + tm_row t) c)"
    using p t0 t1 F(2) ok low by (auto simp: term_ok_def)
  show "tm_view_top (put_char t (tm_view_top t + tm_row t) c) + tm_row (put_char t (tm_view_top t + tm_row t) c)
      \<le> tm_view_top t + tm_row t + 1"
    using p F(3) ok low by (auto simp: term_ok_def)
qed

lemma sint_printable: "32 \<le> sint (c :: u8) \<longleftrightarrow> \<not> (c < 32 \<or> 128 \<le> c)"
proof -
  have u: "0 \<le> uint c" "uint c < 256" using unsigned_less [of c, where 'a = int] by simp_all
  have "sint c = (uint c + 128) mod 256 - 128"
    by (simp add: sint_uint signed_take_bit_eq_take_bit_shift take_bit_eq_mod)
  also have "\<dots> = (if uint c < 128 then uint c else uint c - 256)"
  proof (cases "uint c < 128")
    case False
    have "uint c + 128 = uint c - 128 + 256" by linarith
    then have "(uint c + 128) mod 256 = (uint c - 128 + 256) mod 256" by (rule arg_cong)
    also have "\<dots> = uint c - 128"
      unfolding mod_add_self2 using False u by (intro mod_pos_pos_trivial) auto
    finally show ?thesis using False by simp
  qed (use u in simp)
  finally show ?thesis using u by (auto simp: word_less_def word_le_def)
qed

text \<open>Where a terminal is after a byte: the tape of the specification, and at most one line further.\<close>

definition next_ok :: "scene_terminal \<Rightarrow> scene_terminal \<Rightarrow> bool" where
  "next_ok t t' \<longleftrightarrow> term_ok t' \<and> tm_cfg t' = tm_cfg t \<and>
     tm_view_top t' + tm_row t' \<le> tm_view_top t + tm_row t + 1"

lemma byte_tape:
  assumes "term_ok t" and low: "tm_view_top t + tm_row t + 1 < 2 ^ 31"
  shows "map_option tape_of (process_output_byte t c) = tape_byte (term_cols t) (tape_of t) c"
    and "process_output_byte t c = Some t' \<Longrightarrow> next_ok t t'"
proof -
  let ?a = "tm_view_top t + tm_row t"
  have b: "0 \<le> tm_view_top t" "0 \<le> tm_row t" "length (tm_lines t) \<le> MAX_LINES" "tm_row t < 2 ^ 31"
    using assms by (simp_all add: term_ok_def)
  have wa: "wrap32 ?a = ?a" using b low by (intro wrap32_id) auto
  have cols: "term_cols t1 = term_cols t" if "tm_cfg t1 = tm_cfg t" for t1 using that by (simp add: term_cols_def)
  consider (lf) "c = 10" | (cr) "c = 13" | (tab) "c = 9" | (bs) "c = 8" | (none) "c < 32 \<or> 128 \<le> c" "c \<notin> {8, 9, 10, 13}"
    | (full) "\<not> (c < 32 \<or> 128 \<le> c)" "int MAX_LINES \<le> ?a" | (room) "\<not> (c < 32 \<or> 128 \<le> c)" "?a < int MAX_LINES"
    by fastforce
  then have "map_option tape_of (process_output_byte t c) = tape_byte (term_cols t) (tape_of t) c \<and>
    (\<forall>t'. process_output_byte t c = Some t' \<longrightarrow> next_ok t t')"
  proof cases
    case lf
    have "term_ok (t\<lparr>tm_col := 0\<rparr>)" using assms by (simp add: term_ok_def term_cols_def)
    moreover have "tm_row t < tc_rows (tm_cfg t)" "0 < tc_rows (tm_cfg t)" "tc_rows (tm_cfg t) < 2 ^ 31"
      using assms by (simp_all add: term_ok_def)
    ultimately show ?thesis
      using lf line_feed_tape [of t] b low by (simp add: process_output_byte_def tape_byte_def next_ok_def)
  next
    case cr
    then show ?thesis
      using assms by (auto simp: process_output_byte_def tape_byte_def term_ok_def tape_of_def term_cols_def fun_eq_iff next_ok_def)
  next
    case tab
    moreover have "tm_view_top (tab_stop t) = tm_view_top t" "tm_row (tab_stop t) = tm_row t"
      by (simp_all add: tab_stop_def Let_def)
    ultimately show ?thesis
      using tab_stop_tape [OF assms(1)] by (simp add: process_output_byte_def tape_byte_def next_ok_def)
  next
    case bs
    then show ?thesis
      using assms by (auto simp: process_output_byte_def tape_byte_def term_ok_def tape_of_def term_cols_def fun_eq_iff
          nat_diff_distrib next_ok_def)
  next
    case none
    then show ?thesis using assms sint_printable [of c]
      by (simp add: process_output_byte_def tape_byte_def next_ok_def)
  next
    case full
    then have "c \<notin> {8, 9, 10, 13}" by auto
    moreover obtain t1 where "rows_loop t ?a = Some (t1, - (2 ^ 31))"
      using rows_loop_overflow [OF b(3) full(2)] b low by auto
    ultimately have "process_output_byte t c = None"
      using full(1) sint_printable [of c] by (simp add: process_output_byte_def wa)
    then show ?thesis
      using full \<open>c \<notin> {8, 9, 10, 13}\<close> b(1,2) by (simp add: tape_byte_def tape_of_def nat_less_iff)
  next
    case room
    then have nc: "c \<notin> {8, 9, 10, 13}" by auto
    obtain k where k: "rows_loop t ?a = Some (t\<lparr>tm_lines := tm_lines t @ replicate k (blank_line t)\<rparr>, ?a)"
        "?a < int (length (tm_lines t) + k)" "length (tm_lines t) + k \<le> MAX_LINES"
      using rows_loop_Some [OF room(2) b(3)] by blast
    let ?t = "t\<lparr>tm_lines := tm_lines t @ replicate k (blank_line t)\<rparr>"
    have ok: "term_ok ?t"
      using assms k(3) by (auto simp: term_ok_def term_cols_def blank_line_def nat_add_distrib)
    have same: "tape_of ?t = tape_of t"
      using assms by (auto simp: tape_of_def term_cols_def fun_eq_iff nth_append blank_line_def term_ok_def)
    have p: "process_output_byte t c = Some (put_char ?t ?a c)"
      using room nc sint_printable [of c] k(1) b by (simp add: process_output_byte_def wa)
    have l: "tp_line (tape_of t) < MAX_LINES" using room(2) b by (simp add: tape_of_def nat_less_iff)
    have "tm_cfg (put_char ?t ?a c) = tm_cfg t" by (simp add: put_char_def Let_def)
    then show ?thesis
      using put_char_tape [OF ok, of c] k(2) low p room(1) nc l same cols [of ?t]
      by (simp add: tape_byte_def Let_def next_ok_def)
  qed
  then show "map_option tape_of (process_output_byte t c) = tape_byte (term_cols t) (tape_of t) c"
    "process_output_byte t c = Some t' \<Longrightarrow> next_ok t t'" by blast+
qed

lemma terminal_run:
  "term_ok t \<Longrightarrow> tm_view_top t + tm_row t + int (length bs) < 2 ^ 31 \<Longrightarrow>
     map_option tape_of (drain_posix t bs) = tape_run (term_cols t) (tape_of t) bs \<and>
     (\<forall>t'. drain_posix t bs = Some t' \<longrightarrow> term_ok t' \<and> tm_cfg t' = tm_cfg t)"
proof (induction bs arbitrary: t)
  case (Cons c bs)
  have "tm_view_top t + tm_row t + 1 < 2 ^ 31" using Cons.prems(2) by simp
  note B = byte_tape [OF Cons.prems(1) this, of c]
  show ?case
  proof (cases "process_output_byte t c")
    case (Some t1)
    have "tape_byte (term_cols t) (tape_of t) c = Some (tape_of t1)" using B(1) by (simp only: Some option.map)
    moreover have t1: "term_cols t1 = term_cols t" "term_ok t1" "tm_cfg t1 = tm_cfg t"
      using B(2) [OF Some] by (simp_all add: term_cols_def next_ok_def)
    moreover have "tm_view_top t1 + tm_row t1 + int (length bs) < 2 ^ 31"
      using B(2) [OF Some] Cons.prems(2) by (simp add: next_ok_def)
    ultimately show ?thesis
      using Cons.IH [OF t1(2)] unfolding drain_posix.simps tape_run.simps Some t1 by (simp only: option.case) blast
  next
    case None
    have "tape_byte (term_cols t) (tape_of t) c = None" using B(1) by (simp only: None option.map)
    then show ?thesis using None by simp
  qed
qed simp

end
