(* ===== verification/Framebuffer.thy ===== *)
theory Framebuffer
  imports SceneFmt
begin

unbundle bit_operations_syntax

text \<open>
  The framebuffer and its rasteriser, \<open>src/scene_fb.c\<close>: premultiplied ARGB pixels, clipped fills,
  strokes, rounded shapes and texture copies, in integer arithmetic.

  The pixels are a list, row after row; a framebuffer without memory has the empty list. Colours and
  channels are 32-bit words, so a channel that grows beyond eight bits spills into the next one as in
  the code. Coordinates that the code keeps in \<open>int64_t\<close> are integers: sums of two 32-bit values do not
  overflow there. The loops over rows and columns run over natural numbers.
\<close>

subsection \<open>State\<close>

record scene_fb =
  fb_w :: u32
  fb_h :: u32
  fb_pitch :: u32
  fb_px :: "u32 list"

definition scene_fb_init :: "u32 \<Rightarrow> u32 \<Rightarrow> scene_fb option" where
  "scene_fb_init w h =
     (if w = 0 \<or> h = 0 then None
      else if uint w * uint h > (2 ^ 64 - 1) div 4 then None
      else Some \<lparr>fb_w = w, fb_h = h, fb_pitch = w, fb_px = replicate (unat w * unat h) 0\<rparr>)"

definition scene_fb_free :: "scene_fb \<Rightarrow> scene_fb" where
  "scene_fb_free fb = \<lparr>fb_w = 0, fb_h = 0, fb_pitch = 0, fb_px = []\<rparr>"

definition px_index :: "scene_fb \<Rightarrow> nat \<Rightarrow> nat \<Rightarrow> nat" where
  "px_index fb x y = y * unat (fb_pitch fb) + x"

definition px_at :: "scene_fb \<Rightarrow> nat \<Rightarrow> nat \<Rightarrow> u32" where
  "px_at fb x y = fb_px fb ! px_index fb x y"

definition put_px :: "nat \<Rightarrow> nat \<Rightarrow> u32 \<Rightarrow> scene_fb \<Rightarrow> scene_fb" where
  "put_px x y c fb = fb\<lparr>fb_px := (fb_px fb)[px_index fb x y := c]\<rparr>"

definition scene_fb_get :: "scene_fb \<Rightarrow> i32 \<Rightarrow> i32 \<Rightarrow> u32" where
  "scene_fb_get fb x y =
     (if fb_px fb = [] \<or> sint x < 0 \<or> sint y < 0 then 0
      else if x \<ge> fb_w fb \<or> y \<ge> fb_h fb then 0
      else px_at fb (unat x) (unat y))"

text \<open>Rows from \<open>y0\<close> up to \<open>y1\<close>, in each the columns from \<open>x0\<close> up to \<open>x1\<close>: a pixel becomes \<open>f\<close> of its
  place and its old colour.\<close>

definition each_col :: "nat \<Rightarrow> nat \<Rightarrow> (nat \<Rightarrow> nat \<Rightarrow> u32 \<Rightarrow> u32) \<Rightarrow> nat \<Rightarrow> scene_fb \<Rightarrow> scene_fb" where
  "each_col x0 x1 f y = fold (\<lambda>x fb. put_px x y (f x y (px_at fb x y)) fb) [x0..<x1]"

definition each_px :: "nat \<Rightarrow> nat \<Rightarrow> nat \<Rightarrow> nat \<Rightarrow> (nat \<Rightarrow> nat \<Rightarrow> u32 \<Rightarrow> u32) \<Rightarrow> scene_fb \<Rightarrow> scene_fb" where
  "each_px x0 x1 y0 y1 f = fold (each_col x0 x1 f) [y0..<y1]"

definition scene_fb_clear :: "scene_fb \<Rightarrow> u32 \<Rightarrow> scene_fb" where
  "scene_fb_clear fb color =
     (if fb_px fb = [] then fb
      else each_px 0 (unat (fb_w fb)) 0 (unat (fb_h fb)) (\<lambda>_ _ _. color) fb)"

subsection \<open>Clipping\<close>

text \<open>One axis: a span of the shape, the size of the framebuffer, and a span of the clip.\<close>

definition clip_span :: "i32 \<Rightarrow> i32 \<Rightarrow> u32 \<Rightarrow> (i32 \<times> i32) option \<Rightarrow> (int \<times> int) option" where
  "clip_span pos len bound clip =
     (let lo = max 0 (sint pos);
          hi = min (uint bound) (sint pos + sint len);
          (lo, hi) = (case clip of None \<Rightarrow> (lo, hi)
                      | Some (cpos, clen) \<Rightarrow> (max (sint cpos) lo, min (sint cpos + sint clen) hi))
      in if lo \<ge> hi then None else Some (lo, hi))"

definition fb_clip_rect :: "rect \<Rightarrow> rect option \<Rightarrow> u32 \<Rightarrow> u32 \<Rightarrow> (int \<times> int \<times> int \<times> int) option" where
  "fb_clip_rect r clip fbw fbh =
     (if sint (rw r) \<le> 0 \<or> sint (rh r) \<le> 0 then None
      else if (case clip of None \<Rightarrow> False | Some c \<Rightarrow> sint (rw c) \<le> 0 \<or> sint (rh c) \<le> 0) then None
      else
        case clip_span (rx r) (rw r) fbw (map_option (\<lambda>c. (rx c, rw c)) clip) of
          None \<Rightarrow> None
        | Some (x0, x1) \<Rightarrow>
            (case clip_span (ry r) (rh r) fbh (map_option (\<lambda>c. (ry c, rh c)) clip) of
               None \<Rightarrow> None
             | Some (y0, y1) \<Rightarrow> Some (x0, y0, x1, y1)))"

definition each_in_rect :: "rect \<Rightarrow> rect option \<Rightarrow> (nat \<Rightarrow> nat \<Rightarrow> u32 \<Rightarrow> u32) \<Rightarrow> scene_fb \<Rightarrow> scene_fb" where
  "each_in_rect r clip f fb =
     (case fb_clip_rect r clip (fb_w fb) (fb_h fb) of
        None \<Rightarrow> fb
      | Some (x0, y0, x1, y1) \<Rightarrow> each_px (nat x0) (nat x1) (nat y0) (nat y1) f fb)"

subsection \<open>Blending\<close>

definition chan :: "nat \<Rightarrow> u32 \<Rightarrow> u32" where
  "chan n c = drop_bit n c AND 0xFF"

definition argb :: "u32 \<Rightarrow> u32 \<Rightarrow> u32 \<Rightarrow> u32 \<Rightarrow> u32" where
  "argb a r g b = push_bit 24 a OR push_bit 16 r OR push_bit 8 g OR b"

definition mix :: "u32 \<Rightarrow> u32 \<Rightarrow> u32 \<Rightarrow> u32" where
  "mix alpha s d = (s * alpha + d * (255 - alpha)) div 255"

definition blend_a :: "u32 \<Rightarrow> u32 \<Rightarrow> u32 \<Rightarrow> u32" where
  "blend_a color alpha dc =
     argb (mix alpha (chan 24 color) (chan 24 dc)) (mix alpha (chan 16 color) (chan 16 dc))
       (mix alpha (chan 8 color) (chan 8 dc)) (mix alpha (chan 0 color) (chan 0 dc))"

text \<open>Opaque source: the alpha channel of the result is full.\<close>

definition blend_x :: "u32 \<Rightarrow> u32 \<Rightarrow> u32 \<Rightarrow> u32" where
  "blend_x sc opacity dc =
     (if opacity = 255 then (sc AND 0x00FFFFFF) OR 0xFF000000
      else 0xFF000000 OR push_bit 16 (mix opacity (chan 16 sc) (chan 16 dc)) OR
        push_bit 8 (mix opacity (chan 8 sc) (chan 8 dc)) OR mix opacity (chan 0 sc) (chan 0 dc))"

definition over :: "u32 \<Rightarrow> u32 \<Rightarrow> u32 \<Rightarrow> u32 \<Rightarrow> u32" where
  "over opacity invt s d = s * opacity div 255 + d * invt div 255"

definition blend_over :: "u32 \<Rightarrow> u32 \<Rightarrow> u32 \<Rightarrow> u32" where
  "blend_over sc opacity dc =
     (let invt = 255 - chan 24 sc * opacity div 255
      in argb (over opacity invt (chan 24 sc) (chan 24 dc)) (over opacity invt (chan 16 sc) (chan 16 dc))
           (over opacity invt (chan 8 sc) (chan 8 dc)) (over opacity invt (chan 0 sc) (chan 0 dc)))"

subsection \<open>Fills and strokes\<close>

definition scene_fb_fill :: "scene_fb \<Rightarrow> rect \<Rightarrow> u32 \<Rightarrow> rect option \<Rightarrow> scene_fb" where
  "scene_fb_fill fb r color clip =
     (if fb_px fb = [] then fb else each_in_rect r clip (\<lambda>_ _ _. color) fb)"

definition scene_fb_fill_a :: "scene_fb \<Rightarrow> rect \<Rightarrow> u32 \<Rightarrow> u32 \<Rightarrow> rect option \<Rightarrow> scene_fb" where
  "scene_fb_fill_a fb r color alpha clip =
     (if fb_px fb = [] then fb
      else if alpha \<ge> 255 then scene_fb_fill fb r color clip
      else if alpha = 0 then fb
      else each_in_rect r clip (\<lambda>_ _. blend_a color alpha) fb)"

text \<open>The four bars of a stroke: top, bottom, left, right.\<close>

definition stroke_bars :: "rect \<Rightarrow> u8 \<Rightarrow> rect list" where
  "stroke_bars r bw =
     (let b = ucast bw
      in [r\<lparr>rh := b\<rparr>, r\<lparr>ry := ry r + rh r - b, rh := b\<rparr>, r\<lparr>rw := b\<rparr>, r\<lparr>rx := rx r + rw r - b, rw := b\<rparr>])"

definition scene_fb_stroke :: "scene_fb \<Rightarrow> rect \<Rightarrow> u32 \<Rightarrow> u8 \<Rightarrow> rect option \<Rightarrow> scene_fb" where
  "scene_fb_stroke fb r color bw clip =
     (if bw = 0 then fb else fold (\<lambda>s fb. scene_fb_fill fb s color clip) (stroke_bars r bw) fb)"

definition scene_fb_stroke_a :: "scene_fb \<Rightarrow> rect \<Rightarrow> u32 \<Rightarrow> u8 \<Rightarrow> u32 \<Rightarrow> rect option \<Rightarrow> scene_fb" where
  "scene_fb_stroke_a fb r color bw alpha clip =
     (if bw = 0 then fb else fold (\<lambda>s fb. scene_fb_fill_a fb s color alpha clip) (stroke_bars r bw) fb)"

subsection \<open>Rounded shapes\<close>

function sqrt_loop :: "int \<Rightarrow> int \<Rightarrow> int" where
  "sqrt_loop inside s = (if (s + 1) * (s + 1) \<le> inside then sqrt_loop inside (s + 1) else s)"
  by pat_completeness auto

termination
proof (relation "measure (\<lambda>(inside, s). nat (inside - s))")
  fix inside s :: int
  assume h: "(s + 1) * (s + 1) \<le> inside"
  have "s + 1 \<le> (s + 1) * (s + 1)"
    by (cases "s + 1 \<le> 0") (auto simp: mult_le_cancel_left1 intro: order_trans [of _ 0])
  with h show "((inside, s + 1), (inside, s)) \<in> measure (\<lambda>(inside, s). nat (inside - s))" by simp
qed simp

declare sqrt_loop.simps [simp del]

definition rcorner_inset :: "u32 \<Rightarrow> u32 \<Rightarrow> int" where
  "rcorner_inset r dy =
     (if dy \<ge> r then 0
      else uint r - sqrt_loop (2 * uint r * uint dy - uint dy * uint dy) 0)"

definition cap_radius :: "rect \<Rightarrow> u8 \<Rightarrow> u32" where
  "cap_radius r radius =
     (let r1 = min (ucast radius) (rw r div 2) in min r1 (rh r div 2))"

text \<open>Distance of row \<open>d\<close> of a shape of height \<open>h\<close> to its nearer horizontal edge.\<close>

definition edge_dist :: "u32 \<Rightarrow> u32 \<Rightarrow> u32" where
  "edge_dist h d = (if h - 1 - d < d then h - 1 - d else d)"

definition round_run :: "rect \<Rightarrow> u32 \<Rightarrow> u32 \<Rightarrow> rect" where
  "round_run r rr y =
     (let inset = of_int (rcorner_inset rr (edge_dist (rh r) y))
      in \<lparr>rx = rx r + inset, ry = ry r + y, rw = rw r - 2 * inset, rh = 1\<rparr>)"

definition scene_fb_fill_round :: "scene_fb \<Rightarrow> rect \<Rightarrow> u32 \<Rightarrow> u8 \<Rightarrow> u32 \<Rightarrow> rect option \<Rightarrow> scene_fb" where
  "scene_fb_fill_round fb r color radius alpha clip =
     (if fb_px fb = [] \<or> sint (rw r) \<le> 0 \<or> sint (rh r) \<le> 0 then fb
      else
        let rr = cap_radius r radius
        in if rr = 0 then scene_fb_fill_a fb r color alpha clip
           else fold (\<lambda>y fb. let run = round_run r rr (of_nat y)
                             in if sint (rw run) > 0 then scene_fb_fill_a fb run color alpha clip else fb)
                  [0..<unat (rh r)] fb)"

text \<open>The columns of a row that get the fill, if any, and those that get the border or the fill.\<close>

definition chrome_inner :: "rect \<Rightarrow> u32 \<Rightarrow> u32 \<Rightarrow> u32 \<Rightarrow> u32 \<Rightarrow> i32 \<Rightarrow> bool" where
  "chrome_inner r rr bw fill y xx \<longleftrightarrow>
     (let ix0 = rx r + bw; iy0 = ry r + bw; iw = rw r - 2 * bw; ih = rh r - 2 * bw;
          ir = (if rr > bw then rr - bw else 0)
      in if fill \<noteq> 0 \<and> sint iw > 0 \<and> sint ih > 0 \<and> y \<ge> iy0 \<and> y < iy0 + ih then
           let icut = of_int (rcorner_inset ir (edge_dist ih (y - iy0)))
           in sint xx \<ge> sint (ix0 + icut) \<and> sint xx < sint (ix0 + iw - icut)
         else False)"

definition chrome_outer :: "rect \<Rightarrow> u32 \<Rightarrow> u32 \<Rightarrow> i32 \<Rightarrow> bool" where
  "chrome_outer r rr y xx \<longleftrightarrow>
     (let ocut = of_int (rcorner_inset rr (edge_dist (rh r) (y - ry r)))
      in sint xx \<ge> sint (rx r + ocut) \<and> sint xx < sint (rx r + rw r - ocut))"

definition blend_to :: "u32 \<Rightarrow> u32 \<Rightarrow> u32 \<Rightarrow> u32" where
  "blend_to color alpha dc = (if alpha \<ge> 255 then color else blend_a color alpha dc)"

definition chrome_px :: "rect \<Rightarrow> u32 \<Rightarrow> u32 \<Rightarrow> u32 \<Rightarrow> u32 \<Rightarrow> u32 \<Rightarrow> nat \<Rightarrow> nat \<Rightarrow> u32 \<Rightarrow> u32" where
  "chrome_px r rr bw fill border alpha x y dc =
     (if chrome_inner r rr bw fill (of_nat y) (of_nat x) then blend_to fill alpha dc
      else if chrome_outer r rr (of_nat y) (of_nat x) then blend_to border alpha dc
      else dc)"

definition scene_fb_chrome_round :: "scene_fb \<Rightarrow> rect \<Rightarrow> u8 \<Rightarrow> u8 \<Rightarrow> u32 \<Rightarrow> u32 \<Rightarrow> u32 \<Rightarrow> rect option \<Rightarrow> scene_fb" where
  "scene_fb_chrome_round fb r radius bw fill border alpha clip =
     (if fb_px fb = [] \<or> sint (rw r) \<le> 0 \<or> sint (rh r) \<le> 0 then fb
      else if radius = 0 then
        let fb1 = scene_fb_fill_a fb r fill alpha clip
        in if bw \<noteq> 0 then scene_fb_stroke_a fb1 r border bw alpha clip else fb1
      else
        let rr = cap_radius r radius
        in if rr = 0 \<or> bw = 0 then scene_fb_fill_round fb r fill (ucast rr) alpha clip
           else each_in_rect r clip (chrome_px r rr (ucast bw) fill border alpha) fb)"

subsection \<open>Texture copies\<close>

text \<open>The part of the source that exists, on one axis.\<close>

definition src_span :: "i32 \<Rightarrow> i32 \<Rightarrow> u32 \<Rightarrow> int \<times> int" where
  "src_span pos len bound = (max 0 (sint pos), min (uint bound) (sint pos + sint len))"

definition dst_span :: "int \<Rightarrow> int \<Rightarrow> u32 \<Rightarrow> (i32 \<times> i32) option \<Rightarrow> int \<times> int" where
  "dst_span lo hi bound clip =
     (let lo = max 0 lo; hi = min (uint bound) hi
      in case clip of None \<Rightarrow> (lo, hi)
         | Some (cpos, clen) \<Rightarrow> (max (sint cpos) lo, min (sint cpos + sint clen) hi))"

definition scene_fb_blit :: "scene_fb \<Rightarrow> i32 \<Rightarrow> i32 \<Rightarrow> u32 list \<Rightarrow> u32 \<Rightarrow> u32 \<Rightarrow> rect \<Rightarrow> u8 \<Rightarrow> u8 \<Rightarrow>
    rect option \<Rightarrow> scene_fb" where
  "scene_fb_blit fb dx dy src src_w src_h src_rc opacity fmt clip =
     (if fb_px fb = [] \<or> src_w = 0 \<or> src_h = 0 \<or> sint (rw src_rc) \<le> 0 \<or> sint (rh src_rc) \<le> 0 \<or> opacity = 0 then fb
      else
        let (sx0, sx1) = src_span (rx src_rc) (rw src_rc) src_w;
            (sy0, sy1) = src_span (ry src_rc) (rh src_rc) src_h
        in if sx0 \<ge> sx1 \<or> sy0 \<ge> sy1 then fb
           else
             let dox = sint dx + sx0 - sint (rx src_rc);
                 doy = sint dy + sy0 - sint (ry src_rc);
                 (x0, x1) = dst_span dox (sint dx + sx1 - sint (rx src_rc)) (fb_w fb)
                              (map_option (\<lambda>c. (rx c, rw c)) clip);
                 (y0, y1) = dst_span doy (sint dy + sy1 - sint (ry src_rc)) (fb_h fb)
                              (map_option (\<lambda>c. (ry c, rh c)) clip);
                 texel = (\<lambda>x y. src ! (nat (sy0 + int y - doy) * unat src_w + nat (sx0 + int x - dox)))
             in if x0 \<ge> x1 \<or> y0 \<ge> y1 then fb
                else if fmt = 0 then
                  each_px (nat x0) (nat x1) (nat y0) (nat y1) (\<lambda>x y. blend_x (texel x y) (ucast opacity)) fb
                else if fmt = 1 then
                  each_px (nat x0) (nat x1) (nat y0) (nat y1) (\<lambda>x y. blend_over (texel x y) (ucast opacity)) fb
                else fb)"

end
