(* ===== verification/Font.thy ===== *)
theory Font
  imports Framebuffer
begin

unbundle bit_operations_syntax

text \<open>
  The bitmap font, \<open>src/scene_font_data.c\<close>, and text drawing, \<open>src/scene_font.c\<close>. A text is the list of
  its bytes. The lookup of TrueType glyphs is an argument, as in the code.
\<close>

subsection \<open>The font\<close>

text \<open>The table has 97 rows of which the code gives 96: the last is zero.\<close>

definition font8x8 :: "u8 list list" where
  "font8x8 =
     [
      [0, 0, 0, 0, 0, 0, 0, 0],
      [24, 24, 24, 24, 24, 0, 24, 0],
      [102, 102, 102, 0, 0, 0, 0, 0],
      [54, 54, 127, 54, 127, 54, 54, 0],
      [24, 62, 96, 60, 6, 124, 24, 0],
      [99, 102, 12, 24, 48, 102, 198, 0],
      [56, 108, 108, 56, 118, 220, 204, 118],
      [24, 24, 48, 0, 0, 0, 0, 0],
      [12, 24, 48, 48, 48, 24, 12, 0],
      [48, 24, 12, 12, 12, 24, 48, 0],
      [0, 102, 60, 255, 60, 102, 0, 0],
      [0, 24, 24, 126, 24, 24, 0, 0],
      [0, 0, 0, 0, 0, 24, 24, 48],
      [0, 0, 0, 126, 0, 0, 0, 0],
      [0, 0, 0, 0, 0, 24, 24, 0],
      [3, 6, 12, 24, 48, 96, 192, 0],
      [60, 102, 102, 110, 118, 102, 102, 60],
      [24, 56, 24, 24, 24, 24, 24, 60],
      [60, 102, 6, 12, 24, 48, 96, 126],
      [60, 102, 6, 28, 6, 6, 102, 60],
      [12, 28, 60, 108, 204, 254, 12, 12],
      [126, 96, 96, 124, 6, 6, 102, 60],
      [28, 48, 96, 124, 102, 102, 102, 60],
      [126, 6, 12, 24, 48, 48, 48, 48],
      [60, 102, 102, 60, 102, 102, 102, 60],
      [60, 102, 102, 102, 62, 6, 12, 56],
      [0, 24, 24, 0, 0, 24, 24, 0],
      [0, 24, 24, 0, 0, 24, 24, 48],
      [6, 12, 24, 48, 24, 12, 6, 0],
      [0, 0, 126, 0, 126, 0, 0, 0],
      [96, 48, 24, 12, 24, 48, 96, 0],
      [60, 102, 6, 12, 24, 0, 24, 0],
      [60, 102, 110, 110, 110, 96, 98, 60],
      [24, 60, 102, 102, 126, 102, 102, 0],
      [124, 102, 102, 124, 102, 102, 124, 0],
      [60, 102, 96, 96, 96, 102, 60, 0],
      [120, 108, 102, 102, 102, 108, 120, 0],
      [126, 96, 96, 124, 96, 96, 126, 0],
      [126, 96, 96, 124, 96, 96, 96, 0],
      [60, 102, 96, 110, 102, 102, 62, 0],
      [102, 102, 102, 126, 102, 102, 102, 0],
      [126, 24, 24, 24, 24, 24, 126, 0],
      [30, 12, 12, 12, 12, 108, 56, 0],
      [102, 108, 120, 112, 120, 108, 102, 0],
      [96, 96, 96, 96, 96, 96, 126, 0],
      [99, 119, 127, 107, 99, 99, 99, 0],
      [102, 118, 126, 110, 102, 102, 102, 0],
      [60, 102, 102, 102, 102, 102, 60, 0],
      [124, 102, 102, 124, 96, 96, 96, 0],
      [60, 102, 102, 102, 102, 108, 54, 0],
      [124, 102, 102, 124, 120, 108, 102, 0],
      [60, 102, 96, 60, 6, 102, 60, 0],
      [126, 24, 24, 24, 24, 24, 24, 0],
      [102, 102, 102, 102, 102, 102, 60, 0],
      [102, 102, 102, 102, 102, 60, 24, 0],
      [99, 99, 99, 99, 107, 127, 54, 0],
      [102, 102, 60, 24, 60, 102, 102, 0],
      [102, 102, 60, 24, 24, 24, 24, 0],
      [126, 6, 12, 24, 48, 96, 126, 0],
      [60, 48, 48, 48, 48, 48, 60, 0],
      [192, 96, 48, 24, 12, 6, 3, 0],
      [60, 12, 12, 12, 12, 12, 60, 0],
      [24, 60, 102, 0, 0, 0, 0, 0],
      [0, 0, 0, 0, 0, 0, 0, 255],
      [24, 12, 0, 0, 0, 0, 0, 0],
      [0, 0, 60, 6, 62, 102, 62, 0],
      [96, 96, 124, 102, 102, 102, 124, 0],
      [0, 0, 60, 102, 96, 102, 60, 0],
      [6, 6, 62, 102, 102, 102, 62, 0],
      [0, 0, 60, 102, 126, 96, 60, 0],
      [28, 54, 48, 120, 48, 48, 48, 0],
      [0, 0, 62, 102, 102, 62, 6, 60],
      [96, 96, 124, 102, 102, 102, 102, 0],
      [24, 0, 56, 24, 24, 24, 60, 0],
      [6, 0, 14, 6, 6, 6, 102, 60],
      [96, 96, 108, 120, 112, 120, 108, 0],
      [56, 24, 24, 24, 24, 24, 60, 0],
      [0, 0, 118, 127, 107, 99, 99, 0],
      [0, 0, 124, 102, 102, 102, 102, 0],
      [0, 0, 60, 102, 102, 102, 60, 0],
      [0, 0, 124, 102, 102, 124, 96, 96],
      [0, 0, 62, 102, 102, 62, 6, 6],
      [0, 0, 108, 118, 96, 96, 96, 0],
      [0, 0, 62, 96, 60, 6, 124, 0],
      [48, 48, 126, 48, 48, 54, 28, 0],
      [0, 0, 102, 102, 102, 102, 62, 0],
      [0, 0, 102, 102, 102, 60, 24, 0],
      [0, 0, 99, 99, 107, 127, 54, 0],
      [0, 0, 102, 60, 24, 60, 102, 0],
      [0, 0, 102, 102, 102, 62, 6, 60],
      [0, 0, 126, 12, 24, 48, 126, 0],
      [14, 24, 24, 112, 24, 24, 14, 0],
      [24, 24, 24, 24, 24, 24, 24, 0],
      [112, 24, 24, 14, 24, 24, 112, 0],
      [0, 0, 99, 119, 94, 0, 0, 0],
      [255, 129, 129, 129, 129, 129, 129, 255],
      [0, 0, 0, 0, 0, 0, 0, 0]]"

definition scene_font_glyph :: "u8 \<Rightarrow> u8 list" where
  "scene_font_glyph c = (if 32 \<le> c \<and> c \<le> 126 then font8x8 ! unat (c - 32) else font8x8 ! 96)"

definition scene_font_advance :: "u32 \<Rightarrow> int" where
  "scene_font_advance len = (if uint len > (2 ^ 31 - 1) div 8 then 2 ^ 31 - 1 else uint len * 8)"

subsection \<open>Bitmap text\<close>

text \<open>The set bits of a glyph at a place, where the place is allowed; the highest bit is the left one.\<close>

definition plot :: "(i32 \<Rightarrow> i32 \<Rightarrow> bool) \<Rightarrow> (u32 \<Rightarrow> u32) \<Rightarrow> u8 list \<Rightarrow> i32 \<Rightarrow> i32 \<Rightarrow> nat \<Rightarrow> nat \<Rightarrow> scene_fb \<Rightarrow> scene_fb" where
  "plot ok f g cx y row col fb =
     (let yy = y + of_nat row; px = cx + of_nat col
      in if ok px yy \<and> g ! row AND drop_bit col 0x80 \<noteq> 0
         then put_px (unat px) (unat yy) (f (px_at fb (unat px) (unat yy))) fb else fb)"

definition plot_glyph :: "(i32 \<Rightarrow> i32 \<Rightarrow> bool) \<Rightarrow> (u32 \<Rightarrow> u32) \<Rightarrow> u8 list \<Rightarrow> i32 \<Rightarrow> i32 \<Rightarrow> scene_fb \<Rightarrow> scene_fb" where
  "plot_glyph ok f g cx y = fold (\<lambda>row. fold (plot ok f g cx y row) [0..<8]) [0..<8]"

definition scene_font_draw_a ::
    "scene_fb \<Rightarrow> i32 \<Rightarrow> i32 \<Rightarrow> bytes \<Rightarrow> u32 \<Rightarrow> u32 \<Rightarrow> rect option \<Rightarrow> scene_fb" where
  "scene_font_draw_a fb x y s color alpha clip =
     (if fb_px fb = [] \<or> s = [] \<or> alpha = 0 then fb
      else
        let (x0, x1) = dst_span (sint x) (sint x + int (length s) * 8) (fb_w fb)
                         (map_option (\<lambda>c. (rx c, rw c)) clip);
            (y0, y1) = dst_span (sint y) (sint y + 8) (fb_h fb) (map_option (\<lambda>c. (ry c, rh c)) clip);
            ok = (\<lambda>px yy. x0 \<le> sint px \<and> sint px < x1 \<and> y0 \<le> sint yy \<and> sint yy < y1)
        in if x0 \<ge> x1 \<or> y0 \<ge> y1 then fb
           else fold (\<lambda>i fb.
                   let cx = of_int (sint x + int i * 8)
                   in if sint cx \<ge> x1 \<or> sint (cx + 8) \<le> x0 then fb
                      else plot_glyph ok (blend_to color alpha) (scene_font_glyph (s ! i)) cx y fb)
                  [0..<length s] fb)"

definition scene_font_draw :: "scene_fb \<Rightarrow> i32 \<Rightarrow> i32 \<Rightarrow> bytes \<Rightarrow> u32 \<Rightarrow> rect option \<Rightarrow> scene_fb" where
  "scene_font_draw fb x y s color clip = scene_font_draw_a fb x y s color 255 clip"

subsection \<open>UTF-8 text\<close>

fun utf8_rest :: "nat \<Rightarrow> u32 \<Rightarrow> bytes \<Rightarrow> u32 \<times> bytes" where
  "utf8_rest 0 cp p = (cp, p)"
| "utf8_rest (Suc n) cp [] = (cp, [])"
| "utf8_rest (Suc n) cp (b # p) =
     (if b AND 0xC0 = 0x80 then utf8_rest n (push_bit 6 cp OR (ucast b AND 0x3F)) p else (cp, b # p))"

fun utf8_decode :: "bytes \<Rightarrow> u32 \<times> bytes" where
  "utf8_decode [] = (0xFFFD, [])"
| "utf8_decode (b # p) =
     (if b < 0x80 then (ucast b, p)
      else if b AND 0xE0 = 0xC0 then utf8_rest 1 (ucast b AND 0x1F) p
      else if b AND 0xF0 = 0xE0 then utf8_rest 2 (ucast b AND 0x0F) p
      else if b AND 0xF8 = 0xF0 then utf8_rest 3 (ucast b AND 0x07) p
      else (0xFFFD, p))"

lemma utf8_rest_length: "length (snd (utf8_rest n cp p)) \<le> length p"
  by (induction n cp p rule: utf8_rest.induct) auto

lemma utf8_decode_length: "p \<noteq> [] \<Longrightarrow> length (snd (utf8_decode p)) < length p"
  by (cases p) (auto simp: less_Suc_eq_le utf8_rest_length)

lemma utf8_decode_shorter: "(cp, p') = utf8_decode p \<Longrightarrow> p \<noteq> [] \<Longrightarrow> length p' < length p"
  using utf8_decode_length [of p] by (metis snd_conv)

record utf8_glyph =
  gl_pixels :: "u8 list option"
  gl_w :: i32
  gl_h :: i32
  gl_x0 :: i32
  gl_y0 :: i32
  gl_advance :: i32

text \<open>A pixel inside the framebuffer, and inside the clip when that is looked at.\<close>

definition on_axis :: "u32 \<Rightarrow> (i32 \<times> i32) option \<Rightarrow> i32 \<Rightarrow> bool" where
  "on_axis bound clip v \<longleftrightarrow> 0 \<le> sint v \<and> sint v < sint bound \<and>
     (case clip of None \<Rightarrow> True | Some (cpos, clen) \<Rightarrow> sint cpos \<le> sint v \<and> sint v < sint (cpos + clen))"

definition on_screen :: "scene_fb \<Rightarrow> rect option \<Rightarrow> i32 \<Rightarrow> i32 \<Rightarrow> bool" where
  "on_screen fb clip px yy \<longleftrightarrow>
     on_axis (fb_w fb) (map_option (\<lambda>c. (rx c, rw c)) clip) px \<and>
     on_axis (fb_h fb) (map_option (\<lambda>c. (ry c, rh c)) clip) yy"

text \<open>Text pixels of the UTF-8 path: the alpha channel of the result is zero.\<close>

definition ink :: "u32 \<Rightarrow> u32 \<Rightarrow> u32 \<Rightarrow> u32" where
  "ink color a dc =
     argb 0 (mix a (chan 16 color) (chan 16 dc)) (mix a (chan 8 color) (chan 8 dc)) (mix a (chan 0 color) (chan 0 dc))"

definition solid_ink :: "u32 \<Rightarrow> u32" where
  "solid_ink color = argb 0 (chan 16 color) (chan 8 color) (chan 0 color)"

definition ascii_ink :: "u32 \<Rightarrow> u32 \<Rightarrow> u32 \<Rightarrow> u32" where
  "ascii_ink color alpha dc = (if alpha \<ge> 255 then solid_ink color else ink color alpha dc)"

definition blit_alpha ::
    "i32 \<Rightarrow> i32 \<Rightarrow> i32 \<Rightarrow> i32 \<Rightarrow> u8 list \<Rightarrow> u32 \<Rightarrow> u32 \<Rightarrow> rect option \<Rightarrow> scene_fb \<Rightarrow> scene_fb" where
  "blit_alpha dx dy gw gh bmp color alpha clip =
     fold (\<lambda>gy. fold (\<lambda>gx fb.
         let yy = dy + of_nat gy; xx = dx + of_nat gx;
             a = ucast (bmp ! (gy * nat (sint gw) + gx)) * alpha div 255
         in if on_screen fb clip xx yy \<and> a > 0
            then put_px (unat xx) (unat yy) (ink color a (px_at fb (unat xx) (unat yy))) fb else fb)
       [0..<nat (sint gw)]) [0..<nat (sint gh)]"

text \<open>One character: what it draws, and how far it moves on.\<close>

definition draw_char :: "(u32 \<Rightarrow> utf8_glyph) option \<Rightarrow> u32 \<Rightarrow> u32 \<Rightarrow> rect option \<Rightarrow> i32 \<Rightarrow> i32 \<Rightarrow> u32 \<Rightarrow>
    scene_fb \<Rightarrow> scene_fb \<times> i32" where
  "draw_char lookup color alpha clip cx y cp fb =
     (if cp < 128 then (plot_glyph (on_screen fb clip) (ascii_ink color alpha) (scene_font_glyph (ucast cp)) cx y fb, 8)
      else case lookup of
             Some look \<Rightarrow>
               let g = look cp
               in ((case gl_pixels g of
                      Some bmp \<Rightarrow> blit_alpha (cx + gl_x0 g) (y + gl_y0 g) (gl_w g) (gl_h g) bmp color alpha clip fb
                    | None \<Rightarrow> fb),
                   if gl_advance g \<noteq> 0 then gl_advance g else 8)
           | None \<Rightarrow> (plot_glyph (on_screen fb None) (\<lambda>_. solid_ink color) (scene_font_glyph 96) cx y fb, 8))"

function draw_chars :: "(u32 \<Rightarrow> utf8_glyph) option \<Rightarrow> u32 \<Rightarrow> u32 \<Rightarrow> rect option \<Rightarrow> i32 \<Rightarrow> bytes \<Rightarrow> i32 \<Rightarrow>
    scene_fb \<Rightarrow> scene_fb \<times> i32" where
  "draw_chars lookup color alpha clip y p cx fb =
     (if p = [] then (fb, cx)
      else
        let (cp, p1) = utf8_decode p;
            (fb1, adv) = draw_char lookup color alpha clip cx y cp fb
        in draw_chars lookup color alpha clip y p1 (cx + adv) fb1)"
  by pat_completeness auto

termination
  by (relation "measure (\<lambda>(_, _, _, _, _, p, _, _). length p)")
    (auto intro: utf8_decode_shorter simp del: utf8_decode.simps)

declare draw_chars.simps [simp del]

definition scene_font_draw_utf8 ::
    "scene_fb \<Rightarrow> i32 \<Rightarrow> i32 \<Rightarrow> bytes \<Rightarrow> u32 \<Rightarrow> u32 \<Rightarrow> (u32 \<Rightarrow> utf8_glyph) option \<Rightarrow> rect option \<Rightarrow> scene_fb \<times> i32" where
  "scene_font_draw_utf8 fb x y s color alpha lookup clip =
     (if fb_px fb = [] \<or> s = [] \<or> alpha = 0 then (fb, 0)
      else case draw_chars lookup color alpha clip y s x fb of (fb1, cx) \<Rightarrow> (fb1, cx - x))"

end
