(* ===== verification/RenderModel.thy ===== *)
theory RenderModel
  imports Server Font
begin

text \<open>
  The compositor of \<open>src/scene_compositor.c\<close>, first part: its state, the damage list, the render
  model of a layer (what each node looked like when it was last painted), the transitions, and
  the walk that compares a session with its model.

  A layer holds its session's server; \<open>ly_ref\<close> is the address that identifies it. The render model
  is the open-addressing table as it is: an array of entries with a \<open>used\<close> mark. An unused entry
  keeps what the code leaves in it. A text blob is \<open>None\<close> for a null pointer. The lookup of cached
  glyphs is a function in \<open>cp_fc_glyph\<close>, or none. The toast callback's calls are recorded in
  \<open>cp_toasts\<close>.

  A loop over the entries of an array is a fold over its indices.
\<close>

subsection \<open>State\<close>

abbreviation (input) COMPOSITOR_MAX_DAMAGE :: nat where "COMPOSITOR_MAX_DAMAGE \<equiv> 32"
abbreviation (input) COMPOSITOR_TEXT_CAP :: nat where "COMPOSITOR_TEXT_CAP \<equiv> 48"
abbreviation (input) COMPOSITOR_ANIM_TICKS :: nat where "COMPOSITOR_ANIM_TICKS \<equiv> 8"
abbreviation (input) COMPOSITOR_ANIM_SLIDE :: nat where "COMPOSITOR_ANIM_SLIDE \<equiv> 6"
abbreviation (input) COMPOSITOR_ANIM_CAP :: nat where "COMPOSITOR_ANIM_CAP \<equiv> 64"
abbreviation (input) COMPOSITOR_KEY_GRABS :: nat where "COMPOSITOR_KEY_GRABS \<equiv> 8"
abbreviation (input) ROLE_CODE_NOTIFICATION :: u16 where "ROLE_CODE_NOTIFICATION \<equiv> 0x20"

record scene_style =
  sy_fill :: u32
  sy_border :: u32
  sy_text :: u32
  sy_border_w :: u8
  sy_pad_x :: u8
  sy_pad_y :: u8
  sy_radius :: u8

record scene_tex_ent =
  cx_ref :: u32
  cx_w :: u32
  cx_h :: u32
  cx_fmt :: u16
  cx_opaque :: u8
  cx_used :: bool
  cx_store_registered :: bool
  cx_px :: "u32 list option"

record scene_rnode =
  rn_id :: u32
  rn_sig :: u32
  rn_style :: u32
  rn_tex :: u32
  rn_role :: u16
  rn_flags :: u8
  rn_used :: bool
  rn_seen :: bool
  rn_rect :: rect
  rn_blend :: u8
  rn_opacity :: u8
  rn_tx_data :: "bytes option"
  rn_tx_count :: nat
  rn_tx_len :: nat
  rn_tx_lens :: "nat list"

datatype anim_kind = ANIM_NONE | ANIM_ENTER | ANIM_EXIT

record anim_ent =
  an_id :: u32
  an_active :: bool
  an_kind :: anim_kind
  an_t :: nat   \<comment> \<open>elapsed ticks, at most \<open>COMPOSITOR_ANIM_TICKS\<close>\<close>
  an_base :: rect
  an_fill :: u32
  an_border :: u32
  an_text :: u32
  an_border_w :: u8
  an_radius :: u8
  an_opacity :: u8
  an_tex :: u32
  an_text_count :: nat
  an_snap :: "bytes list"   \<comment> \<open>the texts of the phantom\<close>

record scene_layer =
  ly_ref :: nat
  ly_sv :: scene_server
  ly_map :: "scene_rnode list"
  ly_map_shift :: nat
  ly_map_used :: nat
  ly_anims :: "anim_ent list"
  ly_anim_used :: nat
  ly_tex_ents :: "scene_tex_ent list"
  ly_rendered_seq :: u64
  ly_dead :: bool

abbreviation ly_store :: "scene_layer \<Rightarrow> scene_store" where
  "ly_store ly \<equiv> sv_store (ly_sv ly)"

record scene_key_grab =
  kg_code :: u32
  kg_mods :: u8
  kg_used :: bool

record toast =
  to_layer :: nat
  to_node :: u32
  to_text :: "bytes option"

record scene_compositor =
  cp_ly :: "scene_layer list"   \<comment> \<open>layer 0 is the shell session\<close>
  cp_focus_layer :: nat
  cp_grabs :: "scene_key_grab list"   \<comment> \<open>\<open>COMPOSITOR_KEY_GRABS\<close> entries\<close>
  cp_clip :: "bytes option"
  cp_notify_on :: bool
  cp_toasts :: "toast list"
  cp_fb :: scene_fb
  cp_clear :: u32
  cp_force :: bool
  cp_tick :: u64
  cp_effects_on :: bool
  cp_locked :: bool
  cp_styles :: "scene_style list"
  cp_pending :: "rect list"
  cp_damage :: "rect list"
  cp_fc_line_h :: i32
  cp_fc_glyph :: "(u32 \<Rightarrow> utf8_glyph) option"

subsection \<open>Damage list\<close>

text \<open>At the cap the last rectangle is widened to hold the new one.\<close>

definition rect_join :: "rect \<Rightarrow> rect \<Rightarrow> rect" where
  "rect_join l r =
     (let x0 = (if sint (rx l) < sint (rx r) then rx l else rx r);
          y0 = (if sint (ry l) < sint (ry r) then ry l else ry r);
          x1 = (if sint (rx l + rw l) > sint (rx r + rw r) then rx l + rw l else rx r + rw r);
          y1 = (if sint (ry l + rh l) > sint (ry r + rh r) then ry l + rh l else ry r + rh r)
      in \<lparr>rx = x0, ry = y0, rw = x1 - x0, rh = y1 - y0\<rparr>)"

definition has_area :: "rect \<Rightarrow> bool" where
  "has_area r \<longleftrightarrow> sint (rw r) > 0 \<and> sint (rh r) > 0"

definition rectlist_add :: "nat \<Rightarrow> rect list \<Rightarrow> rect \<Rightarrow> rect list" where
  "rectlist_add cap rs r =
     (if \<not> has_area r then rs
      else if length rs < cap then rs @ [r]
      else rs[cap - 1 := rect_join (rs ! (cap - 1)) r])"

definition damage_add :: "rect \<Rightarrow> scene_compositor \<Rightarrow> scene_compositor" where
  "damage_add r cp = cp\<lparr>cp_damage := rectlist_add COMPOSITOR_MAX_DAMAGE (cp_damage cp) r\<rparr>"

definition pending_add :: "rect \<Rightarrow> scene_compositor \<Rightarrow> scene_compositor" where
  "pending_add r cp = cp\<lparr>cp_pending := rectlist_add COMPOSITOR_MAX_DAMAGE (cp_pending cp) r\<rparr>"

subsection \<open>Render model\<close>

definition map_slot :: "nat \<Rightarrow> u32 \<Rightarrow> nat" where
  "map_slot shift nid = unat (drop_bit (32 - shift) (nid * 2654435761))"

text \<open>The indices a probe visits, in order.\<close>

definition probe_path :: "nat \<Rightarrow> nat \<Rightarrow> u32 \<Rightarrow> nat list" where
  "probe_path shift cap nid = map (\<lambda>i. (map_slot shift nid + i) AND (cap - 1)) [0..<cap]"

definition map_probe :: "scene_rnode list \<Rightarrow> nat \<Rightarrow> u32 \<Rightarrow> nat option" where
  "map_probe m shift nid =
     find (\<lambda>j. \<not> rn_used (m ! j) \<or> rn_id (m ! j) = nid) (probe_path shift (length m) nid)"

definition map_find :: "scene_layer \<Rightarrow> u32 \<Rightarrow> nat option" where
  "map_find ly nid =
     (case map_probe (ly_map ly) (ly_map_shift ly) nid of
        None \<Rightarrow> None
      | Some j \<Rightarrow> if rn_used (ly_map ly ! j) then Some j else None)"

definition zero_rect :: rect where
  "zero_rect = \<lparr>rx = 0, ry = 0, rw = 0, rh = 0\<rparr>"

definition zero_rnode :: scene_rnode where
  "zero_rnode = \<lparr>rn_id = 0, rn_sig = 0, rn_style = 0, rn_tex = 0, rn_role = 0, rn_flags = 0,
     rn_used = False, rn_seen = False, rn_rect = zero_rect, rn_blend = 0, rn_opacity = 0,
     rn_tx_data = None, rn_tx_count = 0, rn_tx_len = 0, rn_tx_lens = []\<rparr>"

definition grow_put :: "nat \<Rightarrow> scene_rnode list \<Rightarrow> scene_rnode \<Rightarrow> scene_rnode list" where
  "grow_put shift nm rn =
     (if \<not> rn_used rn then nm
      else case find (\<lambda>j. \<not> rn_used (nm ! j)) (probe_path shift (length nm) (rn_id rn)) of
             None \<Rightarrow> nm
           | Some j \<Rightarrow> nm[j := rn])"

definition map_grow :: "scene_layer \<Rightarrow> scene_layer" where
  "map_grow ly =
     (let ncap = length (ly_map ly) * 2; shift = ly_map_shift ly + 1
      in ly\<lparr>ly_map := foldl (grow_put shift) (replicate ncap zero_rnode) (ly_map ly),
            ly_map_shift := shift\<rparr>)"

definition map_insert :: "scene_layer \<Rightarrow> u32 \<Rightarrow> nat option \<times> scene_layer" where
  "map_insert ly0 nid =
     (let ly = (if ly_map_used ly0 * 10 \<ge> length (ly_map ly0) * 7 then map_grow ly0 else ly0)
      in case map_probe (ly_map ly) (ly_map_shift ly) nid of
           None \<Rightarrow> (None, ly)
         | Some j \<Rightarrow>
             if rn_used (ly_map ly ! j) then (Some j, ly)
             else (Some j, ly\<lparr>ly_map := (ly_map ly)[j := zero_rnode\<lparr>rn_id := nid, rn_used := True\<rparr>],
                              ly_map_used := ly_map_used ly + 1\<rparr>))"

subsection \<open>Texts\<close>

definition vis_texts :: "scene_store \<Rightarrow> u32 \<Rightarrow> (nat \<times> text_slot list) option" where
  "vis_texts s nid = scene_store_node_texts s nid COMPOSITOR_TEXT_CAP"

text \<open>The signature of a node's texts: ids, lengths and the first 32 bytes. A node with more texts
  than the cap makes the loop read beyond the array; those reads are left out.\<close>

definition sig_step :: "u32 \<Rightarrow> text_slot \<Rightarrow> u32" where
  "sig_step h t =
     (let len = length (ts_data t); tk = (if len < 32 then len else 32);
          buf = scene_put_u32 (ts_id t) @ scene_put_u32 (of_nat len) @ take tk (ts_data t)
      in (h XOR scene_fnv1a32 buf (8 + tk)) * 16777619)"

definition text_sig :: "scene_store \<Rightarrow> u32 \<Rightarrow> u32" where
  "text_sig s nid =
     (case vis_texts s nid of
        None \<Rightarrow> 0x811C9DC5
      | Some (n, ts) \<Rightarrow> foldl sig_step 0x811C9DC5 ts XOR of_nat n)"

definition rn_text_capture :: "scene_store \<Rightarrow> u32 \<Rightarrow> scene_rnode \<Rightarrow> scene_rnode" where
  "rn_text_capture s nid rn =
     (let ts = (case vis_texts s nid of None \<Rightarrow> [] | Some (n, ts) \<Rightarrow> ts);
          n = length ts;
          lens = map (\<lambda>t. length (ts_data t)) ts;
          total = sum_list lens;
          kept = (if rn_tx_data rn \<noteq> None \<and> (rn_tx_count rn \<noteq> n \<or> rn_tx_len rn \<noteq> total)
                  then None else rn_tx_data rn)
      in rn\<lparr>rn_tx_data := (if total \<noteq> 0 then Some (concat (map ts_data ts)) else kept),
            rn_tx_lens := lens, rn_tx_count := n, rn_tx_len := total\<rparr>)"

subsection \<open>Transitions\<close>

definition zero_anim :: anim_ent where
  "zero_anim = \<lparr>an_id = 0, an_active = False, an_kind = ANIM_NONE, an_t = 0, an_base = zero_rect,
     an_fill = 0, an_border = 0, an_text = 0, an_border_w = 0, an_radius = 0, an_opacity = 0, an_tex = 0,
     an_text_count = 0, an_snap = []\<rparr>"

definition anim_replaying :: "scene_layer \<Rightarrow> bool" where
  "anim_replaying ly = scene_store_in_replay (ly_store ly)"

definition anim_find :: "scene_layer \<Rightarrow> u32 \<Rightarrow> nat option" where
  "anim_find ly nid =
     find (\<lambda>i. an_active (ly_anims ly ! i) \<and> an_id (ly_anims ly ! i) = nid) [0..<COMPOSITOR_ANIM_CAP]"

definition anim_free :: "nat \<Rightarrow> scene_layer \<Rightarrow> scene_layer" where
  "anim_free i ly =
     ly\<lparr>ly_anim_used := (if an_active (ly_anims ly ! i) then ly_anim_used ly - 1 else ly_anim_used ly),
        ly_anims := (ly_anims ly)[i := zero_anim]\<rparr>"

text \<open>A rectangle with the tail of a slide below it.\<close>

definition slide_band :: "rect \<Rightarrow> rect" where
  "slide_band r = r\<lparr>rh := rh r + 6\<rparr>"

definition anim_alloc :: "scene_compositor \<Rightarrow> scene_layer \<Rightarrow> u32 \<Rightarrow> anim_kind \<Rightarrow>
    nat option \<times> scene_compositor \<times> scene_layer" where
  "anim_alloc cp ly nid kind =
     (let (cp1, ly1) =
            (case anim_find ly nid of
               None \<Rightarrow> (cp, ly)
             | Some i \<Rightarrow>
                 let an = ly_anims ly ! i
                 in (if an_kind an = ANIM_ENTER \<and> an_t an < COMPOSITOR_ANIM_TICKS
                     then damage_add (slide_band (an_base an)) cp else cp, anim_free i ly))
      in case find (\<lambda>i. \<not> an_active (ly_anims ly1 ! i)) [0..<COMPOSITOR_ANIM_CAP] of
           None \<Rightarrow> (None, cp1, ly1)
         | Some i \<Rightarrow>
             (Some i, cp1,
              ly1\<lparr>ly_anims := (ly_anims ly1)[i := zero_anim\<lparr>an_id := nid, an_kind := kind, an_active := True\<rparr>],
                  ly_anim_used := ly_anim_used ly1 + 1\<rparr>))"

definition set_base :: "nat \<Rightarrow> rect \<Rightarrow> scene_layer \<Rightarrow> scene_layer" where
  "set_base i r ly = ly\<lparr>ly_anims := (ly_anims ly)[i := (ly_anims ly ! i)\<lparr>an_base := r\<rparr>]\<rparr>"

definition anim_clear_all :: "scene_compositor \<Rightarrow> scene_layer \<Rightarrow> scene_compositor \<times> scene_layer" where
  "anim_clear_all cp0 ly0 =
     foldl (\<lambda>(cp, ly) i.
        if an_active (ly_anims ly ! i)
        then (damage_add (an_base (ly_anims ly ! i)) cp, anim_free i ly) else (cp, ly))
       (cp0, ly0) [0..<COMPOSITOR_ANIM_CAP]"

text \<open>The phantom's texts are read from the model's blob at the offsets of the copy, which has a
  terminator after each text where the blob has none.\<close>

fun snap_texts :: "bytes \<Rightarrow> nat \<Rightarrow> nat list \<Rightarrow> bytes list" where
  "snap_texts blob off [] = []"
| "snap_texts blob off (len # lens) = slice blob off len # snap_texts blob (off + (len + 1)) lens"

definition anim_snapshot_from_rn :: "anim_ent \<Rightarrow> scene_rnode \<Rightarrow> anim_ent" where
  "anim_snapshot_from_rn an rn =
     (case rn_tx_data rn of
        None \<Rightarrow> an\<lparr>an_text_count := 0\<rparr>
      | Some blob \<Rightarrow>
          if rn_tx_count rn = 0 then an\<lparr>an_text_count := 0\<rparr>
          else an\<lparr>an_text_count := rn_tx_count rn, an_snap := snap_texts blob 0 (rn_tx_lens rn)\<rparr>)"

definition slide_off :: "nat \<Rightarrow> nat" where
  "slide_off t = (COMPOSITOR_ANIM_TICKS - t) * COMPOSITOR_ANIM_SLIDE div COMPOSITOR_ANIM_TICKS"

definition advance_damage :: "anim_ent \<Rightarrow> scene_compositor \<Rightarrow> scene_compositor" where
  "advance_damage an cp =
     (if an_kind an = ANIM_ENTER then
        (if an_t an \<ge> COMPOSITOR_ANIM_TICKS then damage_add (slide_band (an_base an)) cp
         else
           let off = slide_off (an_t an); base = an_base an
           in if off = 0 then damage_add base cp
              else damage_add (base\<lparr>ry := ry base + of_nat off\<rparr>) (damage_add base cp))
      else damage_add (an_base an) cp)"

definition anim_tick :: "scene_compositor \<times> scene_layer \<Rightarrow> nat \<Rightarrow> scene_compositor \<times> scene_layer" where
  "anim_tick = (\<lambda>(cp, ly) i.
     let an0 = ly_anims ly ! i
     in if \<not> an_active an0 then (cp, ly)
        else
          let an = an0\<lparr>an_t := an_t an0 + 1\<rparr>;
              ly1 = ly\<lparr>ly_anims := (ly_anims ly)[i := an]\<rparr>
          in (advance_damage an cp, if an_t an \<ge> COMPOSITOR_ANIM_TICKS then anim_free i ly1 else ly1))"

definition anim_advance :: "scene_compositor \<Rightarrow> scene_layer \<Rightarrow> scene_compositor \<times> scene_layer" where
  "anim_advance cp ly = foldl anim_tick (cp, ly) [0..<COMPOSITOR_ANIM_CAP]"

subsection \<open>Diff\<close>

definition notify_fire :: "nat \<Rightarrow> scene_store \<Rightarrow> u32 \<Rightarrow> scene_compositor \<Rightarrow> scene_compositor" where
  "notify_fire i s nid cp =
     (if \<not> cp_notify_on cp \<or> i = 0 then cp
      else
        let text = (case scene_store_node_texts s nid 1 of
                      Some (n, t # ts) \<Rightarrow> Some (ts_data t)
                    | _ \<Rightarrow> None)
        in cp\<lparr>cp_toasts := cp_toasts cp @ [\<lparr>to_layer = i, to_node = nid, to_text = text\<rparr>]\<rparr>)"

definition shown :: "u8 \<Rightarrow> rect \<Rightarrow> bool" where
  "shown flags r \<longleftrightarrow> flags AND SCENE_FLAG_VISIBLE \<noteq> 0 \<and> has_area r"

definition visible :: "u8 \<Rightarrow> bool" where
  "visible flags \<longleftrightarrow> flags AND SCENE_FLAG_VISIBLE \<noteq> 0"

definition put_rnode :: "nat \<Rightarrow> scene_rnode \<Rightarrow> scene_layer \<Rightarrow> scene_layer" where
  "put_rnode j rn ly = ly\<lparr>ly_map := (ly_map ly)[j := rn]\<rparr>"

text \<open>A node the model does not have. \<open>i\<close> is the index of the layer.\<close>

definition diff_new :: "nat \<Rightarrow> u32 \<Rightarrow> scene_node_vis \<Rightarrow> scene_compositor \<times> scene_layer \<Rightarrow>
    scene_compositor \<times> scene_layer" where
  "diff_new i nid v = (\<lambda>(cp, ly0).
     case map_insert ly0 nid of
       (None, ly) \<Rightarrow> (cp, ly)
     | (Some j, ly) \<Rightarrow>
         let s = ly_store ly;
             rn = rn_text_capture s nid ((ly_map ly ! j)\<lparr>rn_seen := True, rn_role := nv_role v,
                    rn_flags := nv_flags v, rn_style := nv_style v, rn_tex := nv_tex v,
                    rn_blend := nv_blend v, rn_opacity := nv_opacity v, rn_sig := text_sig s nid,
                    rn_rect := nv_rect v\<rparr>);
             ly1 = put_rnode j rn ly;
             cp1 = (if nv_role v = ROLE_CODE_NOTIFICATION then notify_fire i s nid cp else cp)
         in if cp_effects_on cp1 \<and> \<not> anim_replaying ly1 \<and> shown (nv_flags v) (nv_rect v) then
              (case anim_alloc cp1 ly1 nid ANIM_ENTER of
                 (None, cp2, ly2) \<Rightarrow> (cp2, ly2)
               | (Some k, cp2, ly2) \<Rightarrow> (cp2, set_base k (nv_rect v) ly2))
            else if visible (nv_flags v) then (damage_add (nv_rect v) cp1, ly1)
            else (cp1, ly1))"

text \<open>A changed node that is in transition: an exit is revived as an enter, an enter follows the node.\<close>

definition diff_anim :: "u32 \<Rightarrow> scene_node_vis \<Rightarrow> scene_compositor \<times> scene_layer \<Rightarrow> scene_compositor \<times> scene_layer" where
  "diff_anim nid v = (\<lambda>(cp, ly).
     if \<not> cp_effects_on cp then (cp, ly)
     else case anim_find ly nid of
            None \<Rightarrow> (cp, ly)
          | Some k \<Rightarrow>
              if an_kind (ly_anims ly ! k) = ANIM_EXIT then
                let ly1 = anim_free k ly
                in if \<not> anim_replaying ly1 \<and> shown (nv_flags v) (nv_rect v) then
                     (case anim_alloc cp ly1 nid ANIM_ENTER of
                        (None, cp2, ly2) \<Rightarrow> (cp2, ly2)
                      | (Some k', cp2, ly2) \<Rightarrow> (cp2, set_base k' (nv_rect v) ly2))
                   else (cp, ly1)
              else (cp, set_base k (nv_rect v) ly))"

text \<open>The old and the new rectangle of a changed node, as far as they show.\<close>

definition diff_damage :: "scene_rnode \<Rightarrow> scene_node_vis \<Rightarrow> scene_compositor \<Rightarrow> scene_compositor" where
  "diff_damage rn v cp =
     (let had_old = shown (rn_flags rn) (rn_rect rn); has_new = shown (nv_flags v) (nv_rect v)
      in if had_old then
           (if has_new \<and> rn_rect rn = nv_rect v then damage_add (nv_rect v) cp
            else
              let cp1 = damage_add (rn_rect rn) cp
              in if has_new then damage_add (nv_rect v) cp1 else cp1)
         else if has_new then damage_add (nv_rect v) cp else cp)"

definition diff_old :: "nat \<Rightarrow> u32 \<Rightarrow> scene_node_vis \<Rightarrow> nat \<Rightarrow> scene_compositor \<times> scene_layer \<Rightarrow>
    scene_compositor \<times> scene_layer" where
  "diff_old i nid v j = (\<lambda>(cp, ly0).
     let s = ly_store ly0; sig = text_sig s nid; rn0 = ly_map ly0 ! j;
         changed = (rn_role rn0 \<noteq> nv_role v \<or> rn_style rn0 \<noteq> nv_style v \<or> rn_tex rn0 \<noteq> nv_tex v \<or>
                    rn_flags rn0 \<noteq> nv_flags v \<or> rn_sig rn0 \<noteq> sig \<or> rn_rect rn0 \<noteq> nv_rect v);
         rn1 = rn0\<lparr>rn_seen := True, rn_blend := nv_blend v, rn_opacity := nv_opacity v\<rparr>;
         ly1 = put_rnode j rn1 ly0
     in if \<not> changed then (cp, ly1)
        else
          let (cp2, ly2) = diff_anim nid v (cp, ly1);
              rn2 = (if rn_sig rn1 \<noteq> sig then rn_text_capture s nid rn1 else rn1);
              cp3 = (if rn_sig rn1 \<noteq> sig \<and> rn_role rn1 = ROLE_CODE_NOTIFICATION
                     then notify_fire i s nid cp2 else cp2);
              cp4 = diff_damage rn1 v cp3
          in (cp4, put_rnode j (rn2\<lparr>rn_role := nv_role v, rn_flags := nv_flags v, rn_style := nv_style v,
                     rn_tex := nv_tex v, rn_sig := sig, rn_rect := nv_rect v\<rparr>) ly2))"

definition diff_cb :: "nat \<Rightarrow> u32 \<Rightarrow> scene_compositor \<times> scene_layer \<Rightarrow> bool \<times> scene_compositor \<times> scene_layer" where
  "diff_cb i nid = (\<lambda>(cp, ly).
     (False,
      case scene_store_node_vis (ly_store ly) nid of
        None \<Rightarrow> (cp, ly)
      | Some v \<Rightarrow>
          (case map_find ly nid of
             None \<Rightarrow> diff_new i nid v (cp, ly)
           | Some j \<Rightarrow> diff_old i nid v j (cp, ly))))"

subsection \<open>Styles\<close>

definition mk_style :: "u32 \<Rightarrow> u32 \<Rightarrow> u32 \<Rightarrow> u8 \<Rightarrow> u8 \<Rightarrow> scene_style" where
  "mk_style fill border text border_w radius =
     \<lparr>sy_fill = fill, sy_border = border, sy_text = text, sy_border_w = border_w, sy_pad_x = 0, sy_pad_y = 0,
      sy_radius = radius\<rparr>"

definition role_defaults :: "scene_style list" where
  "role_defaults =
     [mk_style 0x00000000 0x00000000 0xFFFFFFFF 0 0, mk_style 0xFF202020 0x00000000 0xFFFFFFFF 0 8,
      mk_style 0xFF2A2A2A 0x00000000 0xFFFFFFFF 0 4, mk_style 0xFF3C3C3C 0xFF555555 0xFFFFFFFF 1 4,
      mk_style 0x00000000 0xFF666666 0xFFFFFFFF 1 2, mk_style 0xFF1E1E1E 0xFF4A4A4A 0xFFFFFFFF 1 4,
      mk_style 0x00000000 0x00000000 0xFFFFFFFF 0 0, mk_style 0xFF2A2A2A 0xFF333333 0xFFFFFFFF 1 2,
      mk_style 0xFF2A2A2A 0xFF333333 0xFFFFFFFF 1 2, mk_style 0xFF2A2A2A 0xFF333333 0xFFFFFFFF 1 2,
      mk_style 0xFF2A2A2A 0xFF444444 0xFFFFFFFF 1 2, mk_style 0xFF262626 0xFF444444 0xFFFFFFFF 1 8,
      mk_style 0xFF2E2E2E 0xFF3F3F3F 0xFFFFFFFF 1 0, mk_style 0xFF222222 0x00000000 0xFFFFFFFF 0 0,
      mk_style 0xFF2E2E2E 0xFF3F3F3F 0xFFFFFFFF 1 0, mk_style 0xFF1E1E1E 0x00000000 0xFFFFFFFF 0 0,
      mk_style 0xFF2E2E2E 0xFF3F3F3F 0xFFFFFFFF 1 0, mk_style 0xFF222222 0x00000000 0xFFFFFFFF 0 0,
      mk_style 0xFF222222 0x00000000 0xFFFFFFFF 0 0, mk_style 0xFF1A1A1A 0x00000000 0xFFFFFFFF 0 0,
      mk_style 0xFF0C0C0C 0x00000000 0xFFDDDDDD 0 0, mk_style 0xFF141414 0x00000000 0xFFDDDDDD 0 0,
      mk_style 0xFF2A2A2A 0xFF4A4A4A 0xFFFFFFFF 1 2, mk_style 0xFF2E2E2E 0xFF3F3F3F 0xFFFFFFFF 1 0,
      mk_style 0xFF3A3A2A 0xFF555540 0xFFFFFFFF 1 4, mk_style 0xFF2A2A2A 0xFF444444 0xFFFFFFFF 1 2,
      mk_style 0x00000000 0x00000000 0xFFFFFFFF 0 0, mk_style 0xFF101010 0x00000000 0xFFFFFFFF 0 0,
      mk_style 0x00000000 0x00000000 0xFFFFFFFF 0 0, mk_style 0x00000000 0x00000000 0xFFFFFFFF 0 0,
      mk_style 0xFFCCCCCC 0x00000000 0xFF0C0C0C 0 0, mk_style 0x00000000 0x00000000 0xFF66B2FF 0 0,
      mk_style 0xFF1E2740 0xFF3B5B8C 0xFFFFFFFF 1 4]"

definition resolve_style :: "scene_compositor \<Rightarrow> u16 \<Rightarrow> u32 \<Rightarrow> scene_style" where
  "resolve_style cp role style =
     (if style \<ge> 1 \<and> unat style < length (cp_styles cp) then cp_styles cp ! unat style
      else if role \<le> SCENE_ROLE_MAX then role_defaults ! unat role
      else role_defaults ! 0)"

subsection \<open>Sweep\<close>

text \<open>The transition of a node that is gone.\<close>

definition exit_anim :: "scene_compositor \<Rightarrow> scene_rnode \<Rightarrow> anim_ent \<Rightarrow> anim_ent" where
  "exit_anim cp rn an =
     (let st = resolve_style cp (rn_role rn) (rn_style rn)
      in anim_snapshot_from_rn
           (an\<lparr>an_base := rn_rect rn, an_fill := sy_fill st, an_border := sy_border st, an_text := sy_text st,
              an_border_w := sy_border_w st, an_radius := sy_radius st, an_opacity := rn_opacity rn,
              an_tex := rn_tex rn\<rparr>) rn)"

definition sweep_gone :: "bool \<Rightarrow> scene_rnode \<Rightarrow> scene_compositor \<times> scene_layer \<Rightarrow> scene_compositor \<times> scene_layer" where
  "sweep_gone replaying rn = (\<lambda>(cp, ly).
     let was_vis = shown (rn_flags rn) (rn_rect rn)
     in if was_vis \<and> cp_effects_on cp \<and> \<not> replaying then
          (case anim_alloc cp ly (rn_id rn) ANIM_EXIT of
             (None, cp1, ly1) \<Rightarrow> (damage_add (rn_rect rn) cp1, ly1)
           | (Some k, cp1, ly1) \<Rightarrow>
               (cp1, ly1\<lparr>ly_anims := (ly_anims ly1)[k := exit_anim cp1 rn (ly_anims ly1 ! k)]\<rparr>))
        else if was_vis then (damage_add (rn_rect rn) cp, ly)
        else (cp, ly))"

definition sweep_step :: "bool \<Rightarrow> scene_compositor \<times> scene_layer \<Rightarrow> nat \<Rightarrow> scene_compositor \<times> scene_layer" where
  "sweep_step replaying = (\<lambda>(cp, ly) j.
     let rn = ly_map ly ! j
     in if \<not> rn_used rn then (cp, ly)
        else if \<not> rn_seen rn then
          (case sweep_gone replaying rn (cp, ly) of
             (cp1, ly1) \<Rightarrow>
               (cp1, (put_rnode j (rn\<lparr>rn_tx_data := None, rn_tx_count := 0, rn_tx_len := 0, rn_used := False\<rparr>) ly1)
                       \<lparr>ly_map_used := ly_map_used ly1 - 1\<rparr>))
        else (cp, put_rnode j (rn\<lparr>rn_seen := False\<rparr>) ly))"

definition map_sweep :: "scene_compositor \<Rightarrow> scene_layer \<Rightarrow> scene_compositor \<times> scene_layer" where
  "map_sweep cp ly = foldl (sweep_step (anim_replaying ly)) (cp, ly) [0..<length (ly_map ly)]"

text \<open>Walk and sweep: what a frame does with a layer whose session has moved on.\<close>

definition diff_layer :: "nat \<Rightarrow> scene_compositor \<times> scene_layer \<Rightarrow> scene_compositor \<times> scene_layer" where
  "diff_layer i = (\<lambda>(cp, ly).
     case scene_store_walk (ly_store ly) (diff_cb i) (cp, ly) of (cp1, ly1) \<Rightarrow> map_sweep cp1 ly1)"

end
