(* ===== verification/Painting.thy ===== *)
theory Painting
  imports RenderModel
begin

unbundle bit_operations_syntax

text \<open>
  The painter of \<open>src/scene_compositor.c\<close>: a node with its transition, style, texture and texts, the
  fading picture of a node that is gone, the layers from the shell upwards. It draws on the framebuffer
  \<open>fb\<close>, which the code keeps in the compositor; the compositor argument is only read.
\<close>

subsection \<open>Geometry\<close>

definition rects_intersect :: "rect \<Rightarrow> rect \<Rightarrow> bool" where
  "rects_intersect a b \<longleftrightarrow> has_area a \<and> has_area b \<and>
     (let x0 = (if sint (rx a) > sint (rx b) then rx a else rx b);
          y0 = (if sint (ry a) > sint (ry b) then ry a else ry b);
          x1 = (if sint (rx a + rw a) < sint (rx b + rw b) then rx a + rw a else rx b + rw b);
          y1 = (if sint (ry a + rh a) < sint (ry b + rh b) then ry a + rh a else ry b + rh b)
      in sint x0 < sint x1 \<and> sint y0 < sint y1)"

definition clip_intersect :: "rect \<Rightarrow> rect \<Rightarrow> rect" where
  "clip_intersect a b =
     (let x0 = max (sint (rx a)) (sint (rx b));
          y0 = max (sint (ry a)) (sint (ry b));
          x1 = min (sint (rx a) + sint (rw a)) (sint (rx b) + sint (rw b));
          y1 = min (sint (ry a) + sint (rh a)) (sint (ry b) + sint (rh b))
      in \<lparr>rx = of_int x0, ry = of_int y0, rw = of_int (x1 - x0), rh = of_int (y1 - y0)\<rparr>)"

definition tex_find :: "scene_layer \<Rightarrow> u32 \<Rightarrow> nat option" where
  "tex_find ly ref =
     find (\<lambda>i. cx_used (ly_tex_ents ly ! i) \<and> cx_ref (ly_tex_ents ly ! i) = ref) [0..<length (ly_tex_ents ly)]"

definition anim_live_geom :: "scene_compositor \<Rightarrow> scene_layer \<Rightarrow> u32 \<Rightarrow> rect \<Rightarrow> rect \<times> u32" where
  "anim_live_geom cp ly nid base =
     (if \<not> cp_effects_on cp then (base, 255)
      else case anim_find ly nid of
             None \<Rightarrow> (base, 255)
           | Some k \<Rightarrow>
               let an = ly_anims ly ! k; b = an_base an
               in if an_kind an \<noteq> ANIM_ENTER then (base, 255)
                  else (b\<lparr>ry := ry b + of_nat (slide_off (an_t an))\<rparr>,
                        of_nat (min 255 (an_t an * 255 div COMPOSITOR_ANIM_TICKS))))"

subsection \<open>Nodes\<close>

definition border_of :: "scene_style \<Rightarrow> u8" where
  "border_of st = (if sy_border_w st \<noteq> 0 \<and> sy_border st \<noteq> 0 then sy_border_w st else 0)"

definition style_chrome :: "rect \<Rightarrow> scene_style \<Rightarrow> u32 \<Rightarrow> rect option \<Rightarrow> scene_fb \<Rightarrow> scene_fb" where
  "style_chrome rc st alpha clip fb =
     (let bw = border_of st
      in if sy_radius st > 0 then
           scene_fb_chrome_round fb rc (sy_radius st) bw (sy_fill st)
             (if bw \<noteq> 0 then sy_border st else sy_fill st) alpha clip
         else
           let fb1 = (if sy_fill st \<noteq> 0 then scene_fb_fill_a fb rc (sy_fill st) alpha clip else fb)
           in if bw \<noteq> 0 then scene_fb_stroke_a fb1 rc (sy_border st) bw alpha clip else fb1)"

definition paint_chrome :: "rect \<Rightarrow> scene_style \<Rightarrow> u32 \<Rightarrow> rect option \<Rightarrow> scene_fb \<Rightarrow> scene_fb" where
  "paint_chrome rc st alpha clip fb =
     (if sy_fill st \<noteq> 0 \<or> sy_border_w st \<noteq> 0 \<and> sy_border st \<noteq> 0 then style_chrome rc st alpha clip fb else fb)"

text \<open>The texture \<open>tex\<close> of the layer; no source rectangle stands for the whole texture.\<close>

definition paint_texture :: "scene_layer \<Rightarrow> u32 \<Rightarrow> rect option \<Rightarrow> rect \<Rightarrow> u8 \<Rightarrow> u32 \<Rightarrow> rect option \<Rightarrow>
    scene_fb \<Rightarrow> scene_fb" where
  "paint_texture ly tex src rc opacity eff clip fb =
     (if tex = SCENE_NO_TEXTURE then fb
      else case tex_find ly tex of
             None \<Rightarrow> fb
           | Some k \<Rightarrow>
               let te = ly_tex_ents ly ! k
               in scene_fb_blit fb (rx rc) (ry rc) (case cx_px te of None \<Rightarrow> [] | Some px \<Rightarrow> px) (cx_w te) (cx_h te)
                    (case src of Some r \<Rightarrow> r | None \<Rightarrow> \<lparr>rx = 0, ry = 0, rw = cx_w te, rh = cx_h te\<rparr>)
                    (ucast (ucast opacity * eff div 255)) (ucast (cx_fmt te)) clip)"

definition paint_bitmap_texts :: "bytes list \<Rightarrow> i32 \<Rightarrow> i32 \<Rightarrow> u32 \<Rightarrow> u32 \<Rightarrow> rect option \<Rightarrow> scene_fb \<Rightarrow> scene_fb" where
  "paint_bitmap_texts ts x y color eff clip =
     fold (\<lambda>i fb. if ts ! i = [] then fb else scene_font_draw_a fb x (y + of_nat i * 8) (ts ! i) color eff clip)
       [0..<length ts]"

definition paint_glyph_texts :: "(u32 \<Rightarrow> utf8_glyph) \<Rightarrow> i32 \<Rightarrow> bytes list \<Rightarrow> i32 \<Rightarrow> i32 \<Rightarrow> u32 \<Rightarrow> u32 \<Rightarrow>
    rect option \<Rightarrow> scene_fb \<Rightarrow> scene_fb" where
  "paint_glyph_texts look line_h ts x y color eff clip =
     fold (\<lambda>i fb. if ts ! i = [] then fb
                  else fst (scene_font_draw_utf8 fb x (y + of_nat i * line_h) (ts ! i) color eff (Some look) clip))
       [0..<length ts]"

definition paint_texts :: "scene_compositor \<Rightarrow> bytes list \<Rightarrow> i32 \<Rightarrow> i32 \<Rightarrow> u32 \<Rightarrow> u32 \<Rightarrow> rect option \<Rightarrow>
    scene_fb \<Rightarrow> scene_fb" where
  "paint_texts cp ts x y color eff =
     (case cp_fc_glyph cp of
        Some look \<Rightarrow> paint_glyph_texts look (cp_fc_line_h cp) ts x y color eff
      | None \<Rightarrow> paint_bitmap_texts ts x y color eff)"

definition node_texts :: "scene_store \<Rightarrow> u32 \<Rightarrow> bytes list" where
  "node_texts s nid = (case vis_texts s nid of None \<Rightarrow> [] | Some (n, ts) \<Rightarrow> map ts_data ts)"

definition paint_node :: "scene_compositor \<Rightarrow> scene_layer \<Rightarrow> scene_node_vis \<Rightarrow> rect \<Rightarrow> scene_fb \<Rightarrow> scene_fb" where
  "paint_node cp ly v clip fb =
     (if \<not> visible (nv_flags v) \<or> nv_opacity v = 0 \<or> \<not> has_area (nv_rect v) then fb
      else
        let (rc, eff) = anim_live_geom cp ly (nv_id v) (nv_rect v); c = clip_intersect rc clip
        in if eff = 0 \<or> \<not> has_area c then fb
           else
             let st = resolve_style cp (nv_role v) (nv_style v);
                 fb1 = paint_chrome rc st eff (Some c) fb;
                 fb2 = paint_texture ly (nv_tex v) (Some (nv_tex_src v)) rc (nv_opacity v) eff (Some c) fb1
             in paint_texts cp (node_texts (ly_store ly) (nv_id v)) (rx rc + ucast (sy_pad_x st)) (ry rc + ucast (sy_pad_y st))
                  (sy_text st) eff (Some c) fb2)"

definition paint_cb :: "scene_compositor \<Rightarrow> scene_layer \<Rightarrow> rect \<Rightarrow> u32 \<Rightarrow> scene_fb \<Rightarrow> bool \<times> scene_fb" where
  "paint_cb cp ly clip nid fb =
     (False,
      case scene_store_node_vis (ly_store ly) nid of
        None \<Rightarrow> fb
      | Some v \<Rightarrow>
          if \<not> visible (nv_flags v) \<or> nv_opacity v = 0 \<or> \<not> has_area (nv_rect v) then fb
          else
            let (rc, eff) = anim_live_geom cp ly nid (nv_rect v)
            in if eff = 0 \<or> \<not> rects_intersect rc clip then fb else paint_node cp ly v clip fb)"

subsection \<open>Phantoms\<close>

definition paint_phantom :: "scene_layer \<Rightarrow> anim_ent \<Rightarrow> rect \<Rightarrow> scene_fb \<Rightarrow> scene_fb" where
  "paint_phantom ly an clip fb =
     (let rc = an_base an; c = clip_intersect rc clip;
          alpha = of_nat (min 255 ((COMPOSITOR_ANIM_TICKS - an_t an) * 255 div COMPOSITOR_ANIM_TICKS));
          st = \<lparr>sy_fill = an_fill an, sy_border = an_border an, sy_text = an_text an, sy_border_w = an_border_w an,
                sy_pad_x = 0, sy_pad_y = 0, sy_radius = an_radius an\<rparr>
      in if \<not> has_area rc \<or> \<not> has_area c \<or> alpha = 0 then fb
         else
           let fb1 = paint_chrome rc st alpha (Some c) fb;
               fb2 = paint_texture ly (an_tex an) None rc (an_opacity an) alpha (Some c) fb1
           in paint_bitmap_texts (take (an_text_count an) (an_snap an)) (rx rc) (ry rc) (an_text an) alpha (Some c) fb2)"

definition anim_paint_exits :: "scene_compositor \<Rightarrow> scene_layer \<Rightarrow> rect \<Rightarrow> scene_fb \<Rightarrow> scene_fb" where
  "anim_paint_exits cp ly clip fb =
     (if \<not> cp_effects_on cp then fb
      else fold (\<lambda>i fb. let an = ly_anims ly ! i
                        in if an_active an \<and> an_kind an = ANIM_EXIT then paint_phantom ly an clip fb else fb)
             [0..<COMPOSITOR_ANIM_CAP] fb)"

subsection \<open>Repainting\<close>

text \<open>One turn of the loop over the layers, inside \<open>clip\<close>.\<close>

definition repaint_layer :: "scene_compositor \<Rightarrow> rect \<Rightarrow> nat \<Rightarrow> scene_fb \<Rightarrow> scene_fb" where
  "repaint_layer cp clip i fb =
     (let ly = cp_ly cp ! i
      in if cp_locked cp \<and> i > 0 \<or> ly_dead ly then fb
         else anim_paint_exits cp ly clip (scene_store_walk (ly_store ly) (paint_cb cp ly clip) fb))"

definition repaint_rect :: "scene_compositor \<Rightarrow> rect \<Rightarrow> scene_fb \<Rightarrow> scene_fb" where
  "repaint_rect cp r fb =
     fold (repaint_layer cp r) [0..<length (cp_ly cp)] (scene_fb_fill fb r (cp_clear cp) None)"

definition repaint_all :: "scene_compositor \<Rightarrow> scene_fb \<Rightarrow> scene_fb" where
  "repaint_all cp fb =
     fold (repaint_layer cp \<lparr>rx = 0, ry = 0, rw = fb_w fb, rh = fb_h fb\<rparr>) [0..<length (cp_ly cp)]
       (scene_fb_clear fb (cp_clear cp))"

end
