(* ===== verification/Compositor.thy ===== *)
theory Compositor
  imports Painting
begin

text \<open>
  The compositor, second part: sessions, keyboard focus and grabs, the clipboard, input, textures
  and styles, the desktop lock and the frame. A session is a server with its address; an operation
  on a null pointer, which only returns an error, is not modelled. \<open>now\<close> is the clock.
\<close>

subsection \<open>Sessions\<close>

definition layer_init :: "nat \<Rightarrow> scene_server \<Rightarrow> scene_layer" where
  "layer_init ref sv =
     \<lparr>ly_ref = ref, ly_sv = sv, ly_map = replicate 64 zero_rnode, ly_map_shift = 6, ly_map_used = 0,
      ly_anims = replicate 64 zero_anim, ly_anim_used = 0, ly_tex_ents = [], ly_rendered_seq = 0,
      ly_dead = False\<rparr>"

definition scene_compositor_new :: "nat \<Rightarrow> scene_server \<Rightarrow> u32 \<Rightarrow> u32 \<Rightarrow> scene_compositor option" where
  "scene_compositor_new ref shell w h =
     (case scene_fb_init w h of
        None \<Rightarrow> None
      | Some fb \<Rightarrow>
          Some \<lparr>cp_ly = [layer_init ref shell], cp_focus_layer = 0,
            cp_grabs = replicate 8 \<lparr>kg_code = 0, kg_mods = 0, kg_used = False\<rparr>, cp_clip = None,
            cp_notify_on = False, cp_toasts = [], cp_fb = fb, cp_clear = 0xFF101010,
            cp_force = False, cp_tick = 0, cp_effects_on = False, cp_locked = False, cp_styles = [],
            cp_pending = [], cp_damage = [], cp_fc_line_h = 0, cp_fc_glyph = None\<rparr>)"

definition scene_compositor_add_session :: "scene_compositor \<Rightarrow> nat \<Rightarrow> scene_server \<Rightarrow> nat \<times> scene_compositor" where
  "scene_compositor_add_session cp ref sv =
     (length (cp_ly cp), cp\<lparr>cp_ly := cp_ly cp @ [layer_init ref sv]\<rparr>)"

definition scene_compositor_remove_session :: "scene_compositor \<Rightarrow> nat \<Rightarrow> int \<times> scene_compositor" where
  "scene_compositor_remove_session cp ref =
     (case find (\<lambda>i. ly_ref (cp_ly cp ! i) = ref) [1..<length (cp_ly cp)] of
        None \<Rightarrow> (-1, cp)
      | Some i \<Rightarrow>
          let ls = take i (cp_ly cp) @ drop (i + 1) (cp_ly cp)
          in (int i, cp\<lparr>cp_ly := ls,
                        cp_focus_layer := (if cp_focus_layer cp \<ge> length ls then 0 else cp_focus_layer cp),
                        cp_force := True\<rparr>))"

definition scene_compositor_layer_count :: "scene_compositor \<Rightarrow> nat" where
  "scene_compositor_layer_count cp = length (cp_ly cp)"

definition scene_compositor_focus_is_shell :: "scene_compositor \<Rightarrow> bool" where
  "scene_compositor_focus_is_shell cp \<longleftrightarrow> cp_focus_layer cp = 0"

definition scene_compositor_set_focus_layer :: "scene_compositor \<Rightarrow> int \<Rightarrow> int \<times> scene_compositor" where
  "scene_compositor_set_focus_layer cp layer =
     (if layer < 0 \<or> nat layer \<ge> length (cp_ly cp) then (-1, cp)
      else (0, cp\<lparr>cp_focus_layer := nat layer\<rparr>))"

subsection \<open>Key grabs\<close>

definition scene_compositor_key_grab :: "scene_compositor \<Rightarrow> u32 \<Rightarrow> u8 \<Rightarrow> int \<times> scene_compositor" where
  "scene_compositor_key_grab cp key_code mods =
     (let gs = cp_grabs cp
      in case find (\<lambda>i. kg_used (gs ! i) \<and> kg_code (gs ! i) = key_code) [0..<COMPOSITOR_KEY_GRABS] of
           Some i \<Rightarrow> (0, cp\<lparr>cp_grabs := gs[i := (gs ! i)\<lparr>kg_mods := mods\<rparr>]\<rparr>)
         | None \<Rightarrow>
             (case find (\<lambda>i. \<not> kg_used (gs ! i)) [0..<COMPOSITOR_KEY_GRABS] of
                None \<Rightarrow> (-1, cp)
              | Some i \<Rightarrow> (0, cp\<lparr>cp_grabs := gs[i := \<lparr>kg_code = key_code, kg_mods = mods, kg_used = True\<rparr>]\<rparr>)))"

definition grab_index :: "scene_compositor \<Rightarrow> u32 \<Rightarrow> u8 \<Rightarrow> nat option" where
  "grab_index cp key_code mods =
     find (\<lambda>i. kg_used (cp_grabs cp ! i) \<and> kg_code (cp_grabs cp ! i) = key_code \<and> kg_mods (cp_grabs cp ! i) = mods)
       [0..<COMPOSITOR_KEY_GRABS]"

definition scene_compositor_ungrab :: "scene_compositor \<Rightarrow> u32 \<Rightarrow> u8 \<Rightarrow> int \<times> scene_compositor" where
  "scene_compositor_ungrab cp key_code mods =
     (case grab_index cp key_code mods of
        None \<Rightarrow> (-1, cp)
      | Some i \<Rightarrow> (0, cp\<lparr>cp_grabs := (cp_grabs cp)[i := (cp_grabs cp ! i)\<lparr>kg_used := False\<rparr>]\<rparr>))"

subsection \<open>Input\<close>

text \<open>Run an operation of the server of a layer.\<close>

definition on_server :: "nat \<Rightarrow> (scene_server \<Rightarrow> int \<times> scene_server) \<Rightarrow> scene_compositor \<Rightarrow> int \<times> scene_compositor" where
  "on_server i f cp =
     (case f (ly_sv (cp_ly cp ! i)) of
        (r, sv) \<Rightarrow> (r, cp\<lparr>cp_ly := (cp_ly cp)[i := (cp_ly cp ! i)\<lparr>ly_sv := sv\<rparr>]\<rparr>))"

definition layer_gone :: "scene_layer \<Rightarrow> bool" where
  "layer_gone ly \<longleftrightarrow> ly_dead ly \<or> sv_dead (ly_sv ly)"

text \<open>The node whose text is copied: the focus or its nearest ancestor with texts. The walk towards
  the root has the size of the arena as fuel.\<close>

fun copy_text :: "scene_store \<Rightarrow> nat \<Rightarrow> u32 \<Rightarrow> bytes option" where
  "copy_text s 0 nid = None"
| "copy_text s (Suc fuel) nid =
     (if nid = SCENE_NO_PARENT then None
      else case scene_store_node_vis s nid of
             None \<Rightarrow> None
           | Some v \<Rightarrow>
               if nv_text_count v > 0 then
                 (case scene_store_node_texts s nid 1 of
                    Some (n, t # ts) \<Rightarrow> if ts_data t \<noteq> [] then Some (ts_data t) else None
                  | _ \<Rightarrow> None)
               else if nv_parent v = nid \<or> nv_parent v = SCENE_NO_PARENT then None
               else copy_text s fuel (nv_parent v))"

definition scene_compositor_copy :: "scene_compositor \<Rightarrow> int \<times> scene_compositor" where
  "scene_compositor_copy cp =
     (if cp_focus_layer cp \<ge> length (cp_ly cp) then (0, cp)
      else
        let ly = cp_ly cp ! cp_focus_layer cp; s = ly_store ly
        in if layer_gone ly then (0, cp)
           else case copy_text s (ar_cap (fst (view_arena s))) (sc_focus (st_live s)) of
                  None \<Rightarrow> (0, cp)
                | Some t \<Rightarrow> (1, cp\<lparr>cp_clip := Some t\<rparr>))"

definition scene_compositor_paste :: "u64 \<Rightarrow> scene_compositor \<Rightarrow> int \<times> scene_compositor" where
  "scene_compositor_paste now cp =
     (case cp_clip cp of
        None \<Rightarrow> (0, cp)
      | Some t \<Rightarrow>
          if t = [] \<or> cp_focus_layer cp \<ge> length (cp_ly cp) then (0, cp)
          else if layer_gone (cp_ly cp ! cp_focus_layer cp) then (0, cp)
          else on_server (cp_focus_layer cp)
                 (\<lambda>sv. scene_server_input_text sv now (Some t) (of_nat (length t))) cp)"

definition scene_compositor_clipboard_set :: "bytes option \<Rightarrow> scene_compositor \<Rightarrow> scene_compositor" where
  "scene_compositor_clipboard_set text cp =
     cp\<lparr>cp_clip := (case text of None \<Rightarrow> None | Some t \<Rightarrow> if t = [] then None else Some t)\<rparr>"

definition layer_hit :: "i32 \<Rightarrow> i32 \<Rightarrow> scene_layer \<Rightarrow> bool" where
  "layer_hit x y ly \<longleftrightarrow> \<not> layer_gone ly \<and> scene_store_region_at (ly_store ly) x y \<noteq> SCENE_NO_PARENT"

definition pointer_layer :: "scene_compositor \<Rightarrow> i32 \<Rightarrow> i32 \<Rightarrow> nat" where
  "pointer_layer cp x y =
     (if cp_locked cp then 0
      else case find (\<lambda>i. layer_hit x y (cp_ly cp ! i)) (rev [1..<length (cp_ly cp)]) of
             Some i \<Rightarrow> i
           | None \<Rightarrow> 0)"

definition scene_compositor_input_pointer ::
    "u64 \<Rightarrow> scene_compositor \<Rightarrow> u8 \<Rightarrow> i32 \<Rightarrow> i32 \<Rightarrow> u8 \<Rightarrow> int \<times> scene_compositor" where
  "scene_compositor_input_pointer now cp device x y buttons =
     (let i = pointer_layer cp x y
      in on_server i (\<lambda>sv. scene_server_input_pointer sv now device x y buttons) (cp\<lparr>cp_focus_layer := i\<rparr>))"

abbreviation (input) SCENE_MOD_SUPER :: u8 where "SCENE_MOD_SUPER \<equiv> 8"
abbreviation (input) SCENE_KEY_C :: u32 where "SCENE_KEY_C \<equiv> 46"
abbreviation (input) SCENE_KEY_V :: u32 where "SCENE_KEY_V \<equiv> 47"

text \<open>The layer a key that is neither a clipboard chord nor grabbed goes to.\<close>

definition key_layer :: "scene_compositor \<Rightarrow> nat" where
  "key_layer cp =
     (if \<not> cp_locked cp \<and> cp_focus_layer cp < length (cp_ly cp) \<and>
         \<not> layer_gone (cp_ly cp ! cp_focus_layer cp)
      then cp_focus_layer cp else 0)"

definition scene_compositor_input_key ::
    "u64 \<Rightarrow> scene_compositor \<Rightarrow> u32 \<Rightarrow> u8 \<Rightarrow> u8 \<Rightarrow> int \<times> scene_compositor" where
  "scene_compositor_input_key now cp key_code state modifiers =
     (let to = (\<lambda>i. on_server i (\<lambda>sv. scene_server_input_key sv now key_code state modifiers) cp);
          chord = (state \<noteq> 0 \<and> modifiers AND SCENE_MOD_SUPER \<noteq> 0)
      in if chord \<and> key_code = SCENE_KEY_C then (0, snd (scene_compositor_copy cp))
         else if chord \<and> key_code = SCENE_KEY_V then (0, snd (scene_compositor_paste now cp))
         else if grab_index cp key_code modifiers \<noteq> None then
           (if \<not> layer_gone (cp_ly cp ! 0) then to 0 else (0, cp))
         else to (key_layer cp))"

subsection \<open>Textures\<close>

definition zero_tex :: scene_tex_ent where
  "zero_tex = \<lparr>cx_ref = 0, cx_w = 0, cx_h = 0, cx_fmt = 0, cx_opaque = 0, cx_used = False,
     cx_store_registered = False, cx_px = None\<rparr>"

text \<open>The entry for a texture: its own, a free one, or one of a larger array, which is used from its
  end.\<close>

definition tex_slot :: "scene_layer \<Rightarrow> u32 \<Rightarrow> nat \<times> scene_layer" where
  "tex_slot ly ref =
     (let es = ly_tex_ents ly; cap = length es
      in case tex_find ly ref of
           Some i \<Rightarrow> (i, ly)
         | None \<Rightarrow>
             if cap = 0 then (0, ly\<lparr>ly_tex_ents := replicate 8 zero_tex\<rparr>)
             else case find (\<lambda>i. \<not> cx_used (es ! i)) [0..<cap] of
                    Some i \<Rightarrow> (i, ly)
                  | None \<Rightarrow> (cap * 2 - 1, ly\<lparr>ly_tex_ents := es @ replicate cap zero_tex\<rparr>))"

definition pending_if :: "(scene_rnode \<Rightarrow> bool) \<Rightarrow> scene_layer \<Rightarrow> scene_compositor \<Rightarrow> scene_compositor" where
  "pending_if p ly cp =
     foldl (\<lambda>cp rn. if rn_used rn \<and> p rn \<and> shown (rn_flags rn) (rn_rect rn) then pending_add (rn_rect rn) cp else cp)
       cp (ly_map ly)"

definition put_layer :: "nat \<Rightarrow> scene_layer \<Rightarrow> scene_compositor \<Rightarrow> scene_compositor" where
  "put_layer i ly cp = cp\<lparr>cp_ly := (cp_ly cp)[i := ly]\<rparr>"

definition with_store :: "scene_store \<Rightarrow> scene_layer \<Rightarrow> scene_layer" where
  "with_store s ly = ly\<lparr>ly_sv := (ly_sv ly)\<lparr>sv_store := s\<rparr>\<rparr>"

definition register_tex_at :: "nat \<Rightarrow> u32 \<Rightarrow> u32 \<Rightarrow> u32 \<Rightarrow> u16 \<Rightarrow> u8 \<Rightarrow> u32 list \<Rightarrow> scene_compositor \<Rightarrow>
    int \<times> scene_compositor" where
  "register_tex_at i ref w h fmt opq pixels cp =
     (let ly = cp_ly cp ! i;
          n = (if uint w * uint h > (2 ^ 64 - 1) div 4 then 0 else w * h)
      in if n = 0 then (-1, cp)
         else
           let (k, ly1) = tex_slot ly ref;
               te = ly_tex_ents ly1 ! k;
               te1 = te\<lparr>cx_px := Some (take (unat n) pixels), cx_ref := ref, cx_w := w, cx_h := h,
                        cx_fmt := fmt, cx_opaque := opq, cx_used := True\<rparr>;
               ly2 = ly1\<lparr>ly_tex_ents := (ly_tex_ents ly1)[k := te1]\<rparr>;
               seeded = cx_store_registered te1 \<or> scene_store_texture_registered (ly_store ly2) ref;
               (r, s) = (if seeded then (0, ly_store ly2)
                         else scene_store_register_texture (ly_store ly2) ref w h fmt opq);
               ly3 = with_store s ly2
           in if r \<noteq> 0 then (-1, put_layer i ly3 cp)
              else
                let ly4 = ly3\<lparr>ly_tex_ents := (ly_tex_ents ly3)[k := te1\<lparr>cx_store_registered := True\<rparr>]\<rparr>
                in (0, pending_if (\<lambda>rn. rn_tex rn = ref) ly4 (put_layer i ly4 cp)))"

definition scene_compositor_register_texture_layer ::
    "int \<Rightarrow> u32 \<Rightarrow> u32 \<Rightarrow> u32 \<Rightarrow> u16 \<Rightarrow> u8 \<Rightarrow> u32 list \<Rightarrow> scene_compositor \<Rightarrow> int \<times> scene_compositor" where
  "scene_compositor_register_texture_layer layer ref w h fmt opq pixels cp =
     (if w = 0 \<or> h = 0 \<or> fmt > 1 \<or> layer < 0 \<or> nat layer \<ge> length (cp_ly cp) then (-1, cp)
      else register_tex_at (nat layer) ref w h fmt opq pixels cp)"

definition scene_compositor_register_texture ::
    "u32 \<Rightarrow> u32 \<Rightarrow> u32 \<Rightarrow> u16 \<Rightarrow> u8 \<Rightarrow> u32 list \<Rightarrow> scene_compositor \<Rightarrow> int \<times> scene_compositor" where
  "scene_compositor_register_texture ref w h fmt opq pixels cp =
     (if w = 0 \<or> h = 0 then (-1, cp) else register_tex_at 0 ref w h fmt opq pixels cp)"

definition release_tex_at :: "nat \<Rightarrow> u32 \<Rightarrow> scene_compositor \<Rightarrow> int \<times> scene_compositor" where
  "release_tex_at i ref cp =
     (let ly = cp_ly cp ! i
      in case tex_find ly ref of
           None \<Rightarrow> (-1, cp)
         | Some k \<Rightarrow>
             let cp1 = pending_if (\<lambda>rn. rn_tex rn = ref) ly cp;
                 s = (if cx_store_registered (ly_tex_ents ly ! k)
                      then snd (scene_store_release_texture (ly_store ly) ref) else ly_store ly)
             in (0, put_layer i (with_store s (ly\<lparr>ly_tex_ents := (ly_tex_ents ly)[k := zero_tex]\<rparr>)) cp1))"

definition scene_compositor_release_texture_layer :: "int \<Rightarrow> u32 \<Rightarrow> scene_compositor \<Rightarrow> int \<times> scene_compositor" where
  "scene_compositor_release_texture_layer layer ref cp =
     (if layer < 0 \<or> nat layer \<ge> length (cp_ly cp) then (-1, cp) else release_tex_at (nat layer) ref cp)"

definition scene_compositor_release_texture :: "u32 \<Rightarrow> scene_compositor \<Rightarrow> int \<times> scene_compositor" where
  "scene_compositor_release_texture ref cp = release_tex_at 0 ref cp"

subsection \<open>Styles\<close>

definition zero_style :: scene_style where
  "zero_style = mk_style 0 0 0 0 0"

definition scene_compositor_set_style_count :: "u32 \<Rightarrow> scene_compositor \<Rightarrow> scene_compositor" where
  "scene_compositor_set_style_count n cp =
     (let ly0 = cp_ly cp ! 0;
          cp1 = put_layer 0 (with_store (scene_store_set_style_count (ly_store ly0) n) ly0) cp;
          old = cp_styles cp
      in cp1\<lparr>cp_styles := take (unat n) old @ replicate (unat n - length old) zero_style\<rparr>)"

definition scene_compositor_set_style :: "u32 \<Rightarrow> scene_style \<Rightarrow> scene_compositor \<Rightarrow> int \<times> scene_compositor" where
  "scene_compositor_set_style ref st cp =
     (if ref = 0 \<or> unat ref \<ge> length (cp_styles cp) then (-1, cp)
      else if cp_styles cp ! unat ref = st then (0, cp)
      else (0, foldl (\<lambda>cp ly. pending_if (\<lambda>rn. rn_style rn = ref) ly cp)
                 (cp\<lparr>cp_styles := (cp_styles cp)[unat ref := st]\<rparr>) (cp_ly cp)))"

definition setup_style :: "u32 \<Rightarrow> u32 \<Rightarrow> u32 \<Rightarrow> scene_compositor \<Rightarrow> u32 \<times> scene_compositor" where
  "setup_style ref fill text cp =
     (let cp1 = (if length (cp_styles cp) < unat (ref + 1) then scene_compositor_set_style_count (ref + 1) cp else cp);
          (r, cp2) = scene_compositor_set_style ref (mk_style fill 0 text 0 0) cp1
      in (if r \<noteq> 0 then 0 else ref, cp2))"

definition scene_compositor_setup_hover_style :: "u32 \<Rightarrow> u32 \<Rightarrow> scene_compositor \<Rightarrow> u32 \<times> scene_compositor" where
  "scene_compositor_setup_hover_style = setup_style 1"

definition scene_compositor_setup_active_style :: "u32 \<Rightarrow> u32 \<Rightarrow> scene_compositor \<Rightarrow> u32 \<times> scene_compositor" where
  "scene_compositor_setup_active_style = setup_style 2"

subsection \<open>Framebuffer, effects and lock\<close>

definition scene_compositor_resize :: "u32 \<Rightarrow> u32 \<Rightarrow> scene_compositor \<Rightarrow> scene_compositor" where
  "scene_compositor_resize w h cp =
     (if fb_w (cp_fb cp) = w \<and> fb_h (cp_fb cp) = h then cp
      else case scene_fb_init w h of
             None \<Rightarrow> cp\<lparr>cp_fb := scene_fb_free (cp_fb cp)\<rparr>
           | Some fb \<Rightarrow> cp\<lparr>cp_fb := fb, cp_force := True\<rparr>)"

definition scene_compositor_set_clear :: "u32 \<Rightarrow> scene_compositor \<Rightarrow> scene_compositor" where
  "scene_compositor_set_clear color cp =
     (if cp_clear cp = color then cp else cp\<lparr>cp_clear := color, cp_force := True\<rparr>)"

definition scene_compositor_force_repaint :: "scene_compositor \<Rightarrow> scene_compositor" where
  "scene_compositor_force_repaint cp = cp\<lparr>cp_force := True\<rparr>"

definition scene_compositor_set_notify_cb :: "bool \<Rightarrow> scene_compositor \<Rightarrow> scene_compositor" where
  "scene_compositor_set_notify_cb on cp = cp\<lparr>cp_notify_on := on\<rparr>"

text \<open>Run a step on a layer; it may add damage.\<close>

definition on_layer :: "(nat \<Rightarrow> scene_compositor \<times> scene_layer \<Rightarrow> scene_compositor \<times> scene_layer) \<Rightarrow>
    scene_compositor \<Rightarrow> nat \<Rightarrow> scene_compositor" where
  "on_layer f cp i = (case f i (cp, cp_ly cp ! i) of (cp1, ly) \<Rightarrow> put_layer i ly cp1)"

definition clear_layer :: "nat \<Rightarrow> scene_compositor \<times> scene_layer \<Rightarrow> scene_compositor \<times> scene_layer" where
  "clear_layer i = (\<lambda>(cp, ly). anim_clear_all cp ly)"

definition scene_compositor_set_effects :: "bool \<Rightarrow> scene_compositor \<Rightarrow> scene_compositor" where
  "scene_compositor_set_effects on cp =
     (if cp_effects_on cp \<and> \<not> on then foldl (on_layer clear_layer) cp [0..<length (cp_ly cp)] else cp)
       \<lparr>cp_effects_on := on\<rparr>"

definition scene_compositor_set_locked :: "bool \<Rightarrow> scene_compositor \<Rightarrow> scene_compositor" where
  "scene_compositor_set_locked on cp =
     (if cp_locked cp = on then cp
      else
        let cp1 = cp\<lparr>cp_locked := on, cp_focus_layer := 0\<rparr>
        in if on \<and> cp_effects_on cp1 then foldl (on_layer clear_layer) cp1 [1..<length (cp_ly cp1)] else cp1)"

subsection \<open>Frame\<close>

text \<open>An application that died is repainted as the desktop.\<close>

definition bury :: "scene_compositor \<Rightarrow> nat \<Rightarrow> scene_compositor" where
  "bury cp i =
     (let ly = cp_ly cp ! i
      in if \<not> ly_dead ly \<and> sv_dead (ly_sv ly)
         then (put_layer i (ly\<lparr>ly_dead := True\<rparr>) cp)\<lparr>cp_force := True\<rparr> else cp)"

definition hidden :: "scene_compositor \<Rightarrow> nat \<Rightarrow> bool" where
  "hidden cp i \<longleftrightarrow> cp_locked cp \<and> i > 0"

definition layer_seq :: "scene_compositor \<Rightarrow> nat \<Rightarrow> u64" where
  "layer_seq cp i = scene_store_view_seq (ly_store (cp_ly cp ! i))"

definition mark_rendered :: "scene_compositor \<Rightarrow> nat \<Rightarrow> scene_compositor" where
  "mark_rendered cp i =
     (if hidden cp i then cp
      else put_layer i ((cp_ly cp ! i)\<lparr>ly_rendered_seq := layer_seq cp i\<rparr>) cp)"

definition layers :: "scene_compositor \<Rightarrow> nat list" where
  "layers cp = [0..<length (cp_ly cp)]"

definition frame_full :: "scene_compositor \<Rightarrow> scene_compositor" where
  "frame_full cp =
     (let cp1 = cp\<lparr>cp_force := False, cp_pending := [], cp_fb := repaint_all cp (cp_fb cp),
                   cp_damage := [\<lparr>rx = 0, ry = 0, rw = fb_w (cp_fb cp), rh = fb_h (cp_fb cp)\<rparr>]\<rparr>
      in foldl mark_rendered cp1 (layers cp1))"

definition frame_diff :: "scene_compositor \<Rightarrow> nat \<Rightarrow> scene_compositor" where
  "frame_diff cp i =
     (let ly = cp_ly cp ! i
      in if hidden cp i \<or> ly_dead ly \<or> layer_seq cp i = ly_rendered_seq ly then cp
         else on_layer diff_layer cp i)"

definition anim_layer :: "nat \<Rightarrow> scene_compositor \<times> scene_layer \<Rightarrow> scene_compositor \<times> scene_layer" where
  "anim_layer i = (\<lambda>(cp, ly). if anim_replaying ly then anim_clear_all cp ly else anim_advance cp ly)"

definition frame_anim :: "scene_compositor \<Rightarrow> nat \<Rightarrow> scene_compositor" where
  "frame_anim cp i = (if hidden cp i \<or> ly_dead (cp_ly cp ! i) then cp else on_layer anim_layer cp i)"

definition frame_idle :: "scene_compositor \<Rightarrow> bool" where
  "frame_idle cp \<longleftrightarrow> cp_pending cp = [] \<and>
     list_all (\<lambda>i. hidden cp i \<or> ly_dead (cp_ly cp ! i) \<or>
        layer_seq cp i = ly_rendered_seq (cp_ly cp ! i) \<and>
        \<not> (cp_effects_on cp \<and> ly_anim_used (cp_ly cp ! i) > 0)) (layers cp)"

text \<open>At the shell's first content the desktop is cleared; then each damaged rectangle is repainted.\<close>

definition frame_paint :: "scene_compositor \<Rightarrow> scene_compositor" where
  "frame_paint cp =
     (let first = layer_seq cp 0 > 0 \<and> ly_rendered_seq (cp_ly cp ! 0) = 0;
          fb = (if first then scene_fb_clear (cp_fb cp) (cp_clear cp) else cp_fb cp)
      in cp\<lparr>cp_fb := fold (repaint_rect cp) (cp_damage cp) fb\<rparr>)"

definition scene_compositor_frame :: "scene_compositor \<Rightarrow> int \<times> scene_compositor" where
  "scene_compositor_frame cp0 =
     (if sv_dead (ly_sv (cp_ly cp0 ! 0)) then (-1, cp0)
      else
        let cp = foldl bury (cp0\<lparr>cp_tick := cp_tick cp0 + 1\<rparr>) [1..<length (cp_ly cp0)]
        in if cp_force cp then (0, frame_full cp)
           else if frame_idle cp then (0, cp\<lparr>cp_damage := []\<rparr>)
           else
             let cp1 = foldl frame_diff (cp\<lparr>cp_damage := []\<rparr>) (layers cp);
                 cp2 = (if cp_effects_on cp1 then foldl frame_anim cp1 (layers cp) else cp1);
                 cp3 = (foldl (\<lambda>cp r. damage_add r cp) cp2 (cp_pending cp2))\<lparr>cp_pending := []\<rparr>;
                 cp4 = frame_paint cp3
             in (0, foldl mark_rendered cp4 (layers cp4)))"

definition scene_compositor_damage :: "nat \<Rightarrow> scene_compositor \<Rightarrow> nat \<times> rect list" where
  "scene_compositor_damage cap cp =
     (if cap = 0 then (0, []) else (length (cp_damage cp), take cap (cp_damage cp)))"

definition scene_compositor_anim_count :: "scene_compositor \<Rightarrow> nat" where
  "scene_compositor_anim_count cp = sum_list (map ly_anim_used (cp_ly cp))"

definition scene_compositor_set_fontcache_with_metrics :: "i32 \<Rightarrow> scene_compositor \<Rightarrow> scene_compositor" where
  "scene_compositor_set_fontcache_with_metrics line_h cp = cp\<lparr>cp_fc_line_h := line_h\<rparr>"

definition scene_compositor_set_font_lookup :: "(u32 \<Rightarrow> utf8_glyph) option \<Rightarrow> scene_compositor \<Rightarrow> scene_compositor" where
  "scene_compositor_set_font_lookup look cp = cp\<lparr>cp_fc_glyph := look\<rparr>"

end
