(* ===== verification/FramebufferOk.thy ===== *)
theory FramebufferOk
  imports Framebuffer
begin

unbundle bit_operations_syntax

text \<open>
  What the drawing operations do, pixel by pixel. An operation is a shader: it changes each pixel of the
  clip independently of all others, and no pixel outside the clip. Shaders compose, so the picture that
  any sequence of operations paints is known at each pixel.
\<close>

subsection \<open>Pixels\<close>

definition fb_ok :: "scene_fb \<Rightarrow> bool" where
  "fb_ok fb \<longleftrightarrow> fb_pitch fb = fb_w fb \<and> length (fb_px fb) = unat (fb_w fb) * unat (fb_h fb) \<and>
     unat (fb_w fb) < 2 ^ 30 \<and> unat (fb_h fb) < 2 ^ 30"

definition in_fb :: "scene_fb \<Rightarrow> nat \<Rightarrow> nat \<Rightarrow> bool" where
  "in_fb fb x y \<longleftrightarrow> x < unat (fb_w fb) \<and> y < unat (fb_h fb)"

definition same_size :: "scene_fb \<Rightarrow> scene_fb \<Rightarrow> bool" where
  "same_size fb fb' \<longleftrightarrow> fb_w fb' = fb_w fb \<and> fb_h fb' = fb_h fb \<and> fb_pitch fb' = fb_pitch fb"

text \<open>\<open>fb'\<close> is \<open>fb\<close> with \<open>g\<close> applied to each pixel.\<close>

definition drawn :: "scene_fb \<Rightarrow> scene_fb \<Rightarrow> (nat \<Rightarrow> nat \<Rightarrow> u32 \<Rightarrow> u32) \<Rightarrow> bool" where
  "drawn fb fb' g \<longleftrightarrow> fb_ok fb' \<and> same_size fb fb' \<and>
     (\<forall>x y. in_fb fb x y \<longrightarrow> px_at fb' x y = g x y (px_at fb x y))"

lemma drawn_ok: "drawn fb fb' g \<Longrightarrow> fb_ok fb' \<and> same_size fb fb'"
  by (simp add: drawn_def)

lemma same_size_refl: "same_size fb fb"
  by (simp add: same_size_def)

lemma same_size_trans: "same_size a b \<Longrightarrow> same_size b c \<Longrightarrow> same_size a c"
  by (simp add: same_size_def)

lemma drawn_same: "fb_ok fb \<Longrightarrow> drawn fb fb (\<lambda>_ _ c. c)"
  by (simp add: drawn_def same_size_def)

lemma drawn_trans: "drawn fb fb1 g \<Longrightarrow> drawn fb1 fb2 h \<Longrightarrow> drawn fb fb2 (\<lambda>x y c. h x y (g x y c))"
  by (simp add: drawn_def same_size_def in_fb_def)

lemma drawn_cong:
  "drawn fb fb' g \<Longrightarrow> (\<And>x y c. in_fb fb x y \<Longrightarrow> g x y c = h x y c) \<Longrightarrow> drawn fb fb' h"
  by (simp add: drawn_def)

lemma index_bound:
  assumes "fb_ok fb" "in_fb fb x y"
  shows "px_index fb x y < length (fb_px fb)"
proof -
  have "y * unat (fb_w fb) + x < (y + 1) * unat (fb_w fb)" using assms by (simp add: in_fb_def)
  also have "\<dots> \<le> unat (fb_h fb) * unat (fb_w fb)" using assms by (intro mult_le_mono1) (simp add: in_fb_def)
  finally show ?thesis using assms(1) by (simp add: px_index_def fb_ok_def mult.commute)
qed

lemma index_inj:
  assumes "in_fb fb x y" "in_fb fb x' y'" "fb_ok fb" "px_index fb x y = px_index fb x' y'"
  shows "x = x' \<and> y = y'"
proof -
  let ?w = "unat (fb_w fb)"
  have w: "x < ?w" "x' < ?w" using assms by (simp_all add: in_fb_def)
  have "(y * ?w + x) div ?w = (y' * ?w + x') div ?w" "(y * ?w + x) mod ?w = (y' * ?w + x') mod ?w"
    using assms(3,4) by (simp_all add: px_index_def fb_ok_def)
  then show ?thesis using w by simp
qed

lemma put_px_drawn:
  assumes "fb_ok fb" "in_fb fb x y"
  shows "drawn fb (put_px x y (f (px_at fb x y)) fb) (\<lambda>x' y' c. if x' = x \<and> y' = y then f c else c)"
proof -
  have "px_at (put_px x y v fb) x' y' = (if x' = x \<and> y' = y then v else px_at fb x' y')" if "in_fb fb x' y'" for x' y' v
    using index_inj [OF that assms(2,1)] index_bound [OF assms] index_bound [OF assms(1) that]
    by (auto simp: px_at_def put_px_def px_index_def nth_list_update)
  then show ?thesis
    using assms by (simp add: drawn_def fb_ok_def same_size_def put_px_def [of _ _ _ fb])
qed

text \<open>A loop whose steps touch different pixels, or the same pixels one after the other.\<close>

lemma drawn_fold:
  assumes "fb_ok fb" "\<And>a fb. a \<in> set as \<Longrightarrow> fb_ok fb \<Longrightarrow> same_size fb0 fb \<Longrightarrow> drawn fb (f a fb) (g a)" "same_size fb0 fb"
  shows "drawn fb (fold f as fb) (\<lambda>x y c. fold (\<lambda>a. g a x y) as c)"
  using assms
proof (induction as arbitrary: fb)
  case (Cons a as)
  have d: "drawn fb (f a fb) (g a)" using Cons.prems by simp
  then have "drawn (f a fb) (fold f as (f a fb)) (\<lambda>x y c. fold (\<lambda>a. g a x y) as c)"
    using Cons.prems by (intro Cons.IH) (auto simp: drawn_def same_size_def)
  from drawn_trans [OF d this] show ?case by simp
qed (simp add: drawn_def same_size_def)

lemma fold_if_one: "distinct as \<Longrightarrow> fold (\<lambda>a c. if k = a then f a c else c) as c = (if k \<in> set as then f k c else c)"
  by (induction as arbitrary: c) auto

lemma fold_if_off: "k \<notin> set as \<Longrightarrow> fold (\<lambda>a c. if k = a then f a c else c) as c = c"
  by (induction as arbitrary: c) auto

lemma each_col_drawn:
  assumes "fb_ok fb" "x1 \<le> unat (fb_w fb)" "y < unat (fb_h fb)"
  shows "drawn fb (each_col x0 x1 f y fb) (\<lambda>x y' c. if y' = y \<and> x0 \<le> x \<and> x < x1 then f x y c else c)"
proof -
  have "drawn fb (each_col x0 x1 f y fb) (\<lambda>x y' c. fold (\<lambda>a c. if x = a \<and> y' = y then f a y c else c) [x0..<x1] c)"
    unfolding each_col_def
  proof (rule drawn_fold [OF assms(1)])
    fix a fb' assume a: "a \<in> set [x0..<x1]" "fb_ok fb'" "same_size fb fb'"
    then have "in_fb fb' a y" using assms by (auto simp: in_fb_def same_size_def)
    from put_px_drawn [OF a(2) this, of "f a y"]
    show "drawn fb' (put_px a y (f a y (px_at fb' a y)) fb') (\<lambda>x y' c. if x = a \<and> y' = y then f a y c else c)" .
  qed (simp add: same_size_def)
  then show ?thesis
  proof (rule drawn_cong)
    fix x y' c
    show "fold (\<lambda>a c. if x = a \<and> y' = y then f a y c else c) [x0..<x1] c =
        (if y' = y \<and> x0 \<le> x \<and> x < x1 then f x y c else c)"
      using fold_if_one [of "[x0..<x1]" x "\<lambda>a. f a y" c] by (cases "y' = y") (auto simp: fold_invariant [of _ "\<lambda>_. True" "\<lambda>d. d = c"])
  qed
qed

lemma each_px_drawn:
  assumes "fb_ok fb" "x1 \<le> unat (fb_w fb)" "y1 \<le> unat (fb_h fb)"
  shows "drawn fb (each_px x0 x1 y0 y1 f fb) (\<lambda>x y c. if x0 \<le> x \<and> x < x1 \<and> y0 \<le> y \<and> y < y1 then f x y c else c)"
proof -
  have "drawn fb (each_px x0 x1 y0 y1 f fb)
      (\<lambda>x y c. fold (\<lambda>a c. if y = a \<and> x0 \<le> x \<and> x < x1 then f x a c else c) [y0..<y1] c)"
    unfolding each_px_def
  proof (rule drawn_fold [OF assms(1)])
    fix a fb' assume "a \<in> set [y0..<y1]" "fb_ok fb'" "same_size fb fb'"
    then show "drawn fb' (each_col x0 x1 f a fb') (\<lambda>x y c. if y = a \<and> x0 \<le> x \<and> x < x1 then f x a c else c)"
      using assms by (intro each_col_drawn) (auto simp: same_size_def)
  qed (simp add: same_size_def)
  then show ?thesis
  proof (rule drawn_cong)
    fix x y c
    show "fold (\<lambda>a c. if y = a \<and> x0 \<le> x \<and> x < x1 then f x a c else c) [y0..<y1] c =
        (if x0 \<le> x \<and> x < x1 \<and> y0 \<le> y \<and> y < y1 then f x y c else c)"
      using fold_if_one [of "[y0..<y1]" y "\<lambda>a. f x a" c]
      by (cases "x0 \<le> x \<and> x < x1") (auto simp: fold_invariant [of _ "\<lambda>_. True" "\<lambda>d. d = c"])
  qed
qed

subsection \<open>Clipping\<close>

text \<open>A rectangle and a clip as sets of pixels, without wrap-around.\<close>

definition within :: "rect \<Rightarrow> nat \<Rightarrow> nat \<Rightarrow> bool" where
  "within r x y \<longleftrightarrow> sint (rx r) \<le> int x \<and> int x < sint (rx r) + sint (rw r) \<and>
     sint (ry r) \<le> int y \<and> int y < sint (ry r) + sint (rh r)"

definition clip_has :: "rect option \<Rightarrow> nat \<Rightarrow> nat \<Rightarrow> bool" where
  "clip_has clip x y \<longleftrightarrow> (case clip of None \<Rightarrow> True | Some c \<Rightarrow> within c x y)"

definition clip_ok :: "rect option \<Rightarrow> bool" where
  "clip_ok clip \<longleftrightarrow> (case clip of None \<Rightarrow> True | Some c \<Rightarrow>
     sint (rx c) + sint (rw c) < 2 ^ 31 \<and> sint (ry c) + sint (rh c) < 2 ^ 31 \<and> 0 < sint (rw c) \<and> 0 < sint (rh c))"

definition on_span :: "i32 \<Rightarrow> i32 \<Rightarrow> nat \<Rightarrow> bool" where
  "on_span pos len v \<longleftrightarrow> sint pos \<le> int v \<and> int v < sint pos + sint len"

definition on_spans :: "(i32 \<times> i32) option \<Rightarrow> nat \<Rightarrow> bool" where
  "on_spans clip v \<longleftrightarrow> (case clip of None \<Rightarrow> True | Some (p, l) \<Rightarrow> on_span p l v)"

lemma within_spans: "within r x y \<longleftrightarrow> on_span (rx r) (rw r) x \<and> on_span (ry r) (rh r) y"
  by (auto simp: within_def on_span_def)

lemma clip_has_spans: "clip_has clip x y \<longleftrightarrow>
    on_spans (map_option (\<lambda>c. (rx c, rw c)) clip) x \<and> on_spans (map_option (\<lambda>c. (ry c, rh c)) clip) y"
  by (cases clip) (auto simp: clip_has_def on_spans_def within_spans)

lemma range_nat: "nat lo \<le> v \<longleftrightarrow> lo \<le> int v" "v < nat hi \<longleftrightarrow> int v < hi"
  by linarith+

lemma span_axis:
  assumes "v < unat bound"
  shows "(\<exists>lo hi. clip_span pos len bound clip = Some (lo, hi) \<and> nat lo \<le> v \<and> v < nat hi) \<longleftrightarrow>
    on_span pos len v \<and> on_spans clip v"
proof -
  have v: "0 \<le> int v" "int v < uint bound" using assms by (simp_all only: uint_nat of_nat_less_iff of_nat_0_le_iff)
  show ?thesis
  proof (cases clip)
    case None
    show ?thesis using v unfolding None clip_span_def Let_def range_nat on_span_def on_spans_def
      by (auto simp: min_le_iff_disj le_max_iff_disj)
  next
    case (Some c)
    obtain p l where c: "c = (p, l)" by (cases c)
    show ?thesis using v unfolding Some c clip_span_def Let_def range_nat on_span_def on_spans_def
      by (auto simp: min_le_iff_disj le_max_iff_disj)
  qed
qed

lemma span_bound: "clip_span pos len bound clip = Some (lo, hi) \<Longrightarrow> nat hi \<le> unat bound"
proof -
  assume "clip_span pos len bound clip = Some (lo, hi)"
  then have "hi \<le> uint bound" unfolding clip_span_def Let_def
    by (auto simp: min_le_iff_disj split: option.splits if_splits)
  then have "hi \<le> int (unat bound)" by (simp only: uint_nat)
  then show ?thesis by (simp only: nat_le_iff)
qed

lemma each_in_rect_drawn:
  assumes "fb_ok fb"
  shows "drawn fb (each_in_rect r clip f fb) (\<lambda>x y c. if within r x y \<and> clip_has clip x y then f x y c else c)"
proof -
  let ?X = "clip_span (rx r) (rw r) (fb_w fb) (map_option (\<lambda>c. (rx c, rw c)) clip)"
  let ?Y = "clip_span (ry r) (rh r) (fb_h fb) (map_option (\<lambda>c. (ry c, rh c)) clip)"
  note S = span_axis [of _ "fb_w fb" "rx r" "rw r"] span_axis [of _ "fb_h fb" "ry r" "rh r"]
  have hit: "within r x y \<and> clip_has clip x y \<longleftrightarrow>
      (\<exists>x0 x1. ?X = Some (x0, x1) \<and> nat x0 \<le> x \<and> x < nat x1) \<and> (\<exists>y0 y1. ?Y = Some (y0, y1) \<and> nat y0 \<le> y \<and> y < nat y1)"
    if "in_fb fb x y" for x y
    using that S unfolding within_spans clip_has_spans in_fb_def by blast
  have same: "drawn fb fb (\<lambda>x y c. if within r x y \<and> clip_has clip x y then f x y c else c)"
    if "\<And>x y. in_fb fb x y \<Longrightarrow> \<not> (within r x y \<and> clip_has clip x y)"
    by (rule drawn_cong [OF drawn_same [OF assms]]) (use that in auto)
  show ?thesis
  proof (cases "fb_clip_rect r clip (fb_w fb) (fb_h fb)")
    case None
    have "\<not> (within r x y \<and> clip_has clip x y)" if "in_fb fb x y" for x y
    proof
      assume h: "within r x y \<and> clip_has clip x y"
      then have "sint (rw r) > 0" "sint (rh r) > 0"
        "case clip of None \<Rightarrow> True | Some c \<Rightarrow> sint (rw c) > 0 \<and> sint (rh c) > 0"
        by (auto simp: within_def clip_has_def split: option.splits)
      then show False using None hit [OF that] h
        by (auto simp: fb_clip_rect_def split: if_splits option.splits)
    qed
    then show ?thesis using same None by (simp add: each_in_rect_def)
  next
    case (Some b)
    obtain x0 y0 x1 y1 where b: "b = (x0, y0, x1, y1)" by (cases b)
    have XY: "?X = Some (x0, x1)" "?Y = Some (y0, y1)"
      using Some b by (auto simp: fb_clip_rect_def split: if_splits option.splits)
    have "drawn fb (each_in_rect r clip f fb)
        (\<lambda>x y c. if nat x0 \<le> x \<and> x < nat x1 \<and> nat y0 \<le> y \<and> y < nat y1 then f x y c else c)"
      using each_px_drawn [OF assms span_bound [OF XY(1)] span_bound [OF XY(2)]] Some b by (simp add: each_in_rect_def)
    then show ?thesis
    proof (rule drawn_cong)
      fix x y c assume "in_fb fb x y"
      from hit [OF this] show "(if nat x0 \<le> x \<and> x < nat x1 \<and> nat y0 \<le> y \<and> y < nat y1 then f x y c else c) =
          (if within r x y \<and> clip_has clip x y then f x y c else c)"
        unfolding XY by simp
    qed
  qed
qed

subsection \<open>Shaders\<close>

text \<open>Under a clip, on framebuffers of one size.\<close>

definition shaded :: "rect option \<Rightarrow> scene_fb \<Rightarrow> (scene_fb \<Rightarrow> scene_fb) \<Rightarrow> (nat \<Rightarrow> nat \<Rightarrow> u32 \<Rightarrow> u32) \<Rightarrow> bool" where
  "shaded clip fb0 F g \<longleftrightarrow> (\<forall>fb. fb_ok fb \<longrightarrow> same_size fb0 fb \<longrightarrow>
     drawn fb (F fb) (\<lambda>x y c. if clip_has clip x y then g x y c else c))"

definition shader :: "(rect option \<Rightarrow> scene_fb \<Rightarrow> scene_fb) \<Rightarrow> (nat \<Rightarrow> nat \<Rightarrow> u32 \<Rightarrow> u32) \<Rightarrow> bool" where
  "shader F g \<longleftrightarrow> (\<forall>clip fb. clip_ok clip \<longrightarrow> shaded clip fb (F clip) g)"

lemma shadedI:
  "(\<And>fb. fb_ok fb \<Longrightarrow> same_size fb0 fb \<Longrightarrow> drawn fb (F fb) (\<lambda>x y c. if clip_has clip x y then g x y c else c)) \<Longrightarrow> shaded clip fb0 F g"
  by (simp add: shaded_def)

lemma shaderI: "(\<And>clip fb. clip_ok clip \<Longrightarrow> shaded clip fb (F clip) g) \<Longrightarrow> shader F g"
  by (simp add: shader_def)

lemma shaderD: "shader F g \<Longrightarrow> clip_ok clip \<Longrightarrow> shaded clip fb (F clip) g"
  by (simp add: shader_def)

lemma shader_drawn:
  assumes "shader F g" "clip_ok clip" "fb_ok fb"
  shows "drawn fb (F clip fb) (\<lambda>x y c. if clip_has clip x y then g x y c else c)"
  using assms by (simp add: shader_def shaded_def same_size_def)

lemma shaded_cong:
  assumes "shaded clip fb0 F g" "\<And>x y c. in_fb fb0 x y \<Longrightarrow> clip_has clip x y \<Longrightarrow> g x y c = h x y c"
  shows "shaded clip fb0 F h"
proof (rule shadedI)
  fix fb assume fb: "fb_ok fb" "same_size fb0 fb"
  have D: "drawn fb (F fb) (\<lambda>x y c. if clip_has clip x y then g x y c else c)" using assms(1) fb by (simp add: shaded_def)
  show "drawn fb (F fb) (\<lambda>x y c. if clip_has clip x y then h x y c else c)"
  proof (rule drawn_cong [OF D])
    fix x y c assume "in_fb fb x y"
    then have "in_fb fb0 x y" using fb(2) by (simp add: in_fb_def same_size_def)
    then show "(if clip_has clip x y then g x y c else c) = (if clip_has clip x y then h x y c else c)" using assms(2) by simp
  qed
qed

lemma shaded_id: "shaded clip fb0 (\<lambda>fb. fb) (\<lambda>_ _ c. c)"
  using drawn_same by (auto simp: shaded_def)

lemma shaded_comp:
  assumes "shaded clip fb0 F g" "shaded clip fb0 G h"
  shows "shaded clip fb0 (\<lambda>fb. G (F fb)) (\<lambda>x y c. h x y (g x y c))"
proof (rule shadedI)
  fix fb assume fb: "fb_ok fb" "same_size fb0 fb"
  have F: "drawn fb (F fb) (\<lambda>x y c. if clip_has clip x y then g x y c else c)" using assms(1) fb by (simp add: shaded_def)
  then have "fb_ok (F fb)" "same_size fb0 (F fb)" using drawn_ok [OF F] same_size_trans [OF fb(2)] by blast+
  then have "drawn (F fb) (G (F fb)) (\<lambda>x y c. if clip_has clip x y then h x y c else c)" using assms(2) by (simp add: shaded_def)
  from drawn_trans [OF F this]
  show "drawn fb (G (F fb)) (\<lambda>x y c. if clip_has clip x y then h x y (g x y c) else c)"
    by (rule drawn_cong) simp
qed

lemma shaded_fold:
  "(\<And>a. a \<in> set as \<Longrightarrow> shaded clip fb0 (F a) (g a)) \<Longrightarrow> shaded clip fb0 (fold F as) (\<lambda>x y c. fold (\<lambda>a. g a x y) as c)"
proof (induction as)
  case Nil
  then show ?case using shaded_id by (simp add: id_def)
next
  case (Cons a as)
  have "shaded clip fb0 (\<lambda>fb. fold F as (F a fb)) (\<lambda>x y c. fold (\<lambda>a. g a x y) as (g a x y c))"
    by (rule shaded_comp [OF _ Cons.IH]) (use Cons.prems in simp_all)
  then show ?case by (simp add: comp_def)
qed

text \<open>A framebuffer without pixels is drawn on by doing nothing.\<close>

lemma no_pixels: "fb_px fb = [] \<Longrightarrow> fb_ok fb \<Longrightarrow> \<not> in_fb fb x y"
  by (auto simp: fb_ok_def in_fb_def)

lemma drawn_empty: "fb_px fb = [] \<Longrightarrow> fb_ok fb \<Longrightarrow> drawn fb fb g"
  using no_pixels same_size_refl unfolding drawn_def by blast

lemma shader_rect:
  assumes "\<And>clip fb. fb_px fb \<noteq> [] \<Longrightarrow> F clip fb = each_in_rect r clip f fb" "\<And>clip fb. fb_px fb = [] \<Longrightarrow> F clip fb = fb"
  shows "shader F (\<lambda>x y c. if within r x y then f x y c else c)"
proof (intro shaderI shadedI)
  fix clip fb0 fb assume fb: "fb_ok fb"
  have "drawn fb (each_in_rect r clip f fb) (\<lambda>x y c. if clip_has clip x y then if within r x y then f x y c else c else c)"
    by (rule drawn_cong [OF each_in_rect_drawn [OF fb]]) simp
  then show "drawn fb (F clip fb) (\<lambda>x y c. if clip_has clip x y then if within r x y then f x y c else c else c)"
    using assms drawn_empty [OF _ fb] by (cases "fb_px fb = []") simp_all
qed

subsection \<open>Fills and strokes\<close>

text \<open>The colour that a fill with an alpha leaves.\<close>

definition tint :: "u32 \<Rightarrow> u32 \<Rightarrow> u32 \<Rightarrow> u32" where
  "tint color alpha c = (if alpha = 0 then c else blend_to color alpha c)"

lemma fill_shader: "shader (\<lambda>clip fb. scene_fb_fill fb r color clip) (\<lambda>x y c. if within r x y then color else c)"
  by (rule shader_rect) (simp_all add: scene_fb_fill_def)

lemma fill_a_shader:
  "shader (\<lambda>clip fb. scene_fb_fill_a fb r color alpha clip) (\<lambda>x y c. if within r x y then tint color alpha c else c)"
proof -
  consider "alpha = 0" | "alpha \<ge> 255" "alpha \<noteq> 0" | "\<not> alpha \<ge> 255" "alpha \<noteq> 0" by blast
  then show ?thesis
  proof cases
    case 1
    then show ?thesis
      using shaded_id by (auto simp: scene_fb_fill_a_def tint_def shader_def cong: if_cong)
  next
    case 2
    then have "(\<lambda>clip fb. scene_fb_fill_a fb r color alpha clip) = (\<lambda>clip fb. scene_fb_fill fb r color clip)"
      by (auto simp: scene_fb_fill_a_def scene_fb_fill_def fun_eq_iff)
    then show ?thesis using fill_shader [of r color] 2 by (simp add: tint_def blend_to_def cong: if_cong)
  next
    case 3
    have "tint color alpha = blend_a color alpha" using 3 by (auto simp: tint_def blend_to_def fun_eq_iff)
    show ?thesis
      unfolding \<open>tint color alpha = blend_a color alpha\<close>
      by (rule shader_rect) (use 3 in \<open>simp_all add: scene_fb_fill_a_def\<close>)
  qed
qed

definition stroke_px :: "rect \<Rightarrow> u32 \<Rightarrow> u8 \<Rightarrow> u32 \<Rightarrow> nat \<Rightarrow> nat \<Rightarrow> u32 \<Rightarrow> u32" where
  "stroke_px r color bw alpha x y =
     (if bw = 0 then id else fold (\<lambda>s c. if within s x y then tint color alpha c else c) (stroke_bars r bw))"

lemma stroke_a_shader: "shader (\<lambda>clip fb. scene_fb_stroke_a fb r color bw alpha clip) (stroke_px r color bw alpha)"
proof (rule shaderI)
  fix clip fb assume "clip_ok clip"
  then have "shaded clip fb (fold (\<lambda>s fb. scene_fb_fill_a fb s color alpha clip) (stroke_bars r bw))
      (\<lambda>x y c. fold (\<lambda>s c. if within s x y then tint color alpha c else c) (stroke_bars r bw) c)"
    by (intro shaded_fold) (rule shaderD [OF fill_a_shader])
  moreover have "shaded clip fb (\<lambda>fb. fb) (\<lambda>_ _. id)" using shaded_id by (simp add: id_def)
  ultimately show "shaded clip fb (\<lambda>fb. scene_fb_stroke_a fb r color bw alpha clip) (stroke_px r color bw alpha)"
    by (cases "bw = 0") (simp_all add: scene_fb_stroke_a_def stroke_px_def [abs_def])
qed

subsection \<open>Rounded shapes\<close>

definition round_px :: "rect \<Rightarrow> u32 \<Rightarrow> u8 \<Rightarrow> u32 \<Rightarrow> nat \<Rightarrow> nat \<Rightarrow> u32 \<Rightarrow> u32" where
  "round_px r color radius alpha x y =
     (let rr = cap_radius r radius
      in if sint (rw r) \<le> 0 \<or> sint (rh r) \<le> 0 then id
         else if rr = 0 then (\<lambda>c. if within r x y then tint color alpha c else c)
         else fold (\<lambda>row c. let run = round_run r rr (of_nat row)
                             in if sint (rw run) > 0 \<and> within run x y then tint color alpha c else c) [0..<unat (rh r)])"

lemma shaded_const_if: "(P \<Longrightarrow> shaded clip fb0 F g) \<Longrightarrow> shaded clip fb0 (\<lambda>fb. if P then F fb else fb) (\<lambda>x y c. if P then g x y c else c)"
  using shaded_id by (cases P) simp_all

lemma shader_nonempty:
  assumes "shader F g" "\<And>clip fb. fb_px fb \<noteq> [] \<Longrightarrow> G clip fb = F clip fb" "\<And>clip fb. fb_px fb = [] \<Longrightarrow> G clip fb = fb"
  shows "shader G g"
proof (intro shaderI shadedI)
  fix clip fb0 fb assume c: "clip_ok clip" and fb: "fb_ok fb"
  show "drawn fb (G clip fb) (\<lambda>x y c. if clip_has clip x y then g x y c else c)"
    using shader_drawn [OF assms(1) c fb] assms(2,3) drawn_empty [OF _ fb] by (cases "fb_px fb = []") simp_all
qed

lemma shader_ident: "shader (\<lambda>clip fb. fb) (\<lambda>_ _. id)"
  using shaded_id by (simp add: shader_def id_def)

lemma fill_round_shader: "shader (\<lambda>clip fb. scene_fb_fill_round fb r color radius alpha clip) (round_px r color radius alpha)"
proof -
  let ?rr = "cap_radius r radius"
  consider "sint (rw r) \<le> 0 \<or> sint (rh r) \<le> 0" | "\<not> (sint (rw r) \<le> 0 \<or> sint (rh r) \<le> 0)" "?rr = 0"
    | "\<not> (sint (rw r) \<le> 0 \<or> sint (rh r) \<le> 0)" "?rr \<noteq> 0" by blast
  then show ?thesis
  proof cases
    case 1
    show ?thesis by (rule shader_nonempty [of "\<lambda>clip fb. fb"])
      (use 1 shader_ident in \<open>simp_all add: scene_fb_fill_round_def round_px_def [abs_def] Let_def\<close>)
  next
    case 2
    show ?thesis by (rule shader_nonempty [of "\<lambda>clip fb. scene_fb_fill_a fb r color alpha clip"])
      (use 2 fill_a_shader in \<open>simp_all add: scene_fb_fill_round_def round_px_def [abs_def] Let_def\<close>)
  next
    case 3
    let ?run = "\<lambda>row. round_run r ?rr (of_nat row)"
    let ?F = "\<lambda>clip. fold (\<lambda>row fb. if sint (rw (?run row)) > 0 then scene_fb_fill_a fb (?run row) color alpha clip else fb) [0..<unat (rh r)]"
    have "shader ?F (round_px r color radius alpha)"
    proof (rule shaderI)
      fix clip fb assume c: "clip_ok clip"
      have "shaded clip fb (?F clip) (\<lambda>x y c. fold (\<lambda>row c. if sint (rw (?run row)) > 0
          then if within (?run row) x y then tint color alpha c else c else c) [0..<unat (rh r)] c)"
        by (intro shaded_fold shaded_const_if shaderD [OF fill_a_shader c])
      then show "shaded clip fb (?F clip) (round_px r color radius alpha)"
        by (rule shaded_cong) (use 3 in \<open>simp add: round_px_def Let_def if_distrib [of "\<lambda>b. b \<and> _"] cong: if_cong\<close>,
            auto intro!: fold_cong)
    qed
    then show ?thesis
      by (rule shader_nonempty) (use 3 in \<open>simp_all add: scene_fb_fill_round_def Let_def\<close>)
  qed
qed

definition chrome_round_px :: "rect \<Rightarrow> u8 \<Rightarrow> u8 \<Rightarrow> u32 \<Rightarrow> u32 \<Rightarrow> u32 \<Rightarrow> nat \<Rightarrow> nat \<Rightarrow> u32 \<Rightarrow> u32" where
  "chrome_round_px r radius bw fill border alpha x y c =
     (if sint (rw r) \<le> 0 \<or> sint (rh r) \<le> 0 then c
      else if radius = 0 then
        let c1 = (if within r x y then tint fill alpha c else c)
        in if bw \<noteq> 0 then stroke_px r border bw alpha x y c1 else c1
      else
        let rr = cap_radius r radius
        in if rr = 0 \<or> bw = 0 then round_px r fill (ucast rr) alpha x y c
           else if within r x y then chrome_px r rr (ucast bw) fill border alpha x y c else c)"

lemma chrome_round_shader:
  "shader (\<lambda>clip fb. scene_fb_chrome_round fb r radius bw fill border alpha clip) (chrome_round_px r radius bw fill border alpha)"
proof -
  let ?rr = "cap_radius r radius"
  consider "sint (rw r) \<le> 0 \<or> sint (rh r) \<le> 0" | "\<not> (sint (rw r) \<le> 0 \<or> sint (rh r) \<le> 0)" "radius = 0"
    | "\<not> (sint (rw r) \<le> 0 \<or> sint (rh r) \<le> 0)" "radius \<noteq> 0" "?rr = 0 \<or> bw = 0"
    | "\<not> (sint (rw r) \<le> 0 \<or> sint (rh r) \<le> 0)" "radius \<noteq> 0" "\<not> (?rr = 0 \<or> bw = 0)" by blast
  then show ?thesis
  proof cases
    case 1
    then have g: "chrome_round_px r radius bw fill border alpha = (\<lambda>_ _. id)" by (auto simp: chrome_round_px_def fun_eq_iff)
    show ?thesis unfolding g by (rule shader_nonempty [OF shader_ident]) (use 1 in \<open>simp_all add: scene_fb_chrome_round_def\<close>)
  next
    case 2
    have "shader (\<lambda>clip fb. if bw \<noteq> 0 then scene_fb_stroke_a (scene_fb_fill_a fb r fill alpha clip) r border bw alpha clip
        else scene_fb_fill_a fb r fill alpha clip) (chrome_round_px r radius bw fill border alpha)"
    proof (rule shaderI)
      fix clip fb assume c: "clip_ok clip"
      note F = shaderD [OF fill_a_shader c, of fb r fill alpha]
      note S = shaded_comp [OF F shaderD [OF stroke_a_shader c]]
      show "shaded clip fb (\<lambda>fb. if bw \<noteq> 0 then scene_fb_stroke_a (scene_fb_fill_a fb r fill alpha clip) r border bw alpha clip
          else scene_fb_fill_a fb r fill alpha clip) (chrome_round_px r radius bw fill border alpha)"
      proof (cases "bw = 0")
        case True
        show ?thesis using shaded_cong [OF F, where h = "chrome_round_px r radius bw fill border alpha"] 2 True by (simp add: chrome_round_px_def Let_def)
      next
        case False
        show ?thesis using shaded_cong [OF S, where h = "chrome_round_px r radius bw fill border alpha"] 2 False by (simp add: chrome_round_px_def Let_def)
      qed
    qed
    then show ?thesis by (rule shader_nonempty) (use 2 in \<open>simp_all add: scene_fb_chrome_round_def Let_def\<close>)
  next
    case 3
    have g: "chrome_round_px r radius bw fill border alpha = round_px r fill (ucast ?rr) alpha"
      using 3 by (auto simp: chrome_round_px_def Let_def fun_eq_iff)
    show ?thesis unfolding g
      by (rule shader_nonempty [OF fill_round_shader]) (use 3 in \<open>auto simp: scene_fb_chrome_round_def Let_def\<close>)
  next
    case 4
    have g: "chrome_round_px r radius bw fill border alpha =
        (\<lambda>x y c. if within r x y then chrome_px r ?rr (ucast bw) fill border alpha x y c else c)"
      using 4 by (auto simp: chrome_round_px_def Let_def fun_eq_iff)
    show ?thesis unfolding g
      by (rule shader_rect) (use 4 in \<open>simp_all add: scene_fb_chrome_round_def Let_def\<close>)
  qed
qed

text \<open>A shape whose inner part starts above the screen has no inner part on it: the test of the row is
  unsigned.\<close>

lemma chrome_inner_above:
  assumes "sint (ry r + bw) < 0" "y < 2 ^ 30"
  shows "\<not> chrome_inner r rr bw fill (of_nat y) xx"
proof -
  have "\<not> unat (ry r + bw) < 2 ^ 31"
  proof
    assume h: "unat (ry r + bw) < 2 ^ 31"
    have "int (unat (ry r + bw)) < int (2 ^ 31)" using h by (simp only: of_nat_less_iff)
    then have i: "int (unat (ry r + bw)) < 2 ^ 31" by (simp only: of_nat_power of_nat_numeral)
    have "sint (ry r + bw) = signed_take_bit 31 (int (unat (ry r + bw)))" by (simp add: sint_uint)
    also have "\<dots> = int (unat (ry r + bw))"
    proof (rule signed_take_bit_int_eq_self)
      show "- (2 ^ 31) \<le> int (unat (ry r + bw))" by (rule order_trans [OF _ of_nat_0_le_iff]) simp
      show "int (unat (ry r + bw)) < 2 ^ 31" by (rule i)
    qed
    finally have "0 \<le> sint (ry r + bw)" by (simp only: of_nat_0_le_iff)
    then show False using assms(1) by simp
  qed
  moreover have "unat (of_nat y :: u32) = y" using assms(2) by (simp add: unat_of_nat take_bit_nat_eq_self)
  ultimately have "\<not> (of_nat y :: u32) \<ge> ry r + bw" using assms(2) by (simp add: word_le_nat_alt)
  then show ?thesis by (simp add: chrome_inner_def Let_def)
qed

lemma chrome_above:
  assumes "clip_ok clip" "fb_ok fb" "0 < sint (rw r)" "0 < sint (rh r)" "radius \<noteq> 0" "bw \<noteq> 0" "cap_radius r radius \<noteq> 0"
    and "sint (ry r + ucast bw) < 0"
  shows "drawn fb (scene_fb_chrome_round fb r radius bw fill border alpha clip)
    (\<lambda>x y c. if clip_has clip x y \<and> within r x y \<and> chrome_outer r (cap_radius r radius) (of_nat y) (of_nat x)
              then blend_to border alpha c else c)"
proof (rule drawn_cong [OF shader_drawn [OF chrome_round_shader assms(1,2)]])
  fix x y c assume "in_fb fb x y"
  then have "y < 2 ^ 30" using assms(2) by (simp add: in_fb_def fb_ok_def)
  from chrome_inner_above [OF assms(8) this]
  show "(if clip_has clip x y then chrome_round_px r radius bw fill border alpha x y c else c) =
      (if clip_has clip x y \<and> within r x y \<and> chrome_outer r (cap_radius r radius) (of_nat y) (of_nat x)
       then blend_to border alpha c else c)"
    using assms(3-7) by (simp add: chrome_round_px_def chrome_px_def Let_def)
qed

subsection \<open>Texture copies\<close>

lemma dst_span_axis:
  assumes "dst_span lo hi bound clip = (a, b)" "v < unat bound"
  shows "(nat a \<le> v \<and> v < nat b) \<longleftrightarrow> lo \<le> int v \<and> int v < hi \<and> on_spans clip v"
proof -
  have v: "0 \<le> int v" "int v < uint bound" using assms(2) by (simp_all only: uint_nat of_nat_less_iff of_nat_0_le_iff)
  show ?thesis
    using v assms(1) unfolding dst_span_def Let_def range_nat on_spans_def on_span_def
    by (cases clip) auto
qed

lemma dst_span_bound:
  assumes "dst_span lo hi bound clip = (a, b)"
  shows "nat b \<le> unat bound"
proof -
  have "b \<le> uint bound" using assms unfolding dst_span_def Let_def by (cases clip) (auto simp: min_le_iff_disj)
  then have "b \<le> int (unat bound)" by (simp only: uint_nat)
  then show ?thesis by (simp only: nat_le_iff)
qed

text \<open>The texel over a pixel, if there is one: the place of the pixel in the source rectangle.\<close>

definition src_x :: "i32 \<Rightarrow> i32 \<Rightarrow> nat \<Rightarrow> int" where
  "src_x dx pos x = int x - sint dx + sint pos"

definition has_texel :: "i32 \<Rightarrow> i32 \<Rightarrow> i32 \<Rightarrow> u32 \<Rightarrow> nat \<Rightarrow> bool" where
  "has_texel dx pos len bound x \<longleftrightarrow> 0 \<le> src_x dx pos x \<and> src_x dx pos x < uint bound \<and>
     sint pos \<le> src_x dx pos x \<and> src_x dx pos x < sint pos + sint len"

definition blit_px :: "i32 \<Rightarrow> i32 \<Rightarrow> u32 list \<Rightarrow> u32 \<Rightarrow> u32 \<Rightarrow> rect \<Rightarrow> u8 \<Rightarrow> u8 \<Rightarrow> nat \<Rightarrow> nat \<Rightarrow> u32 \<Rightarrow> u32" where
  "blit_px dx dy src src_w src_h rc opacity fmt x y c =
     (if opacity \<noteq> 0 \<and> fmt \<le> 1 \<and> has_texel dx (rx rc) (rw rc) src_w x \<and> has_texel dy (ry rc) (rh rc) src_h y
      then (if fmt = 0 then blend_x else blend_over)
             (src ! (nat (src_x dy (ry rc) y) * unat src_w + nat (src_x dx (rx rc) x))) (ucast opacity) c
      else c)"

lemma src_span_axis:
  assumes "src_span pos len bound = (s0, s1)"
  shows "(sint d + s0 - sint pos \<le> int v \<and> int v < sint d + s1 - sint pos) \<longleftrightarrow> has_texel d pos len bound v"
    "s0 + int v - (sint d + s0 - sint pos) = src_x d pos v"
  using assms by (auto simp: src_span_def has_texel_def src_x_def)

lemma blit_shader:
  "shader (\<lambda>clip fb. scene_fb_blit fb dx dy src src_w src_h rc opacity fmt clip) (blit_px dx dy src src_w src_h rc opacity fmt)"
proof (intro shaderI shadedI)
  fix clip fb0 fb assume fb: "fb_ok fb"
  let ?g = "blit_px dx dy src src_w src_h rc opacity fmt"
  let ?G = "\<lambda>x y c. if clip_has clip x y then ?g x y c else c"
  let ?cx = "map_option (\<lambda>c. (rx c, rw c)) clip" and ?cy = "map_option (\<lambda>c. (ry c, rh c)) clip"
  obtain sx0 sx1 where sx: "src_span (rx rc) (rw rc) src_w = (sx0, sx1)" by fastforce
  obtain sy0 sy1 where sy: "src_span (ry rc) (rh rc) src_h = (sy0, sy1)" by fastforce
  let ?dox = "sint dx + sx0 - sint (rx rc)" and ?doy = "sint dy + sy0 - sint (ry rc)"
  obtain x0 x1 where X: "dst_span ?dox (sint dx + sx1 - sint (rx rc)) (fb_w fb) ?cx = (x0, x1)" by fastforce
  obtain y0 y1 where Y: "dst_span ?doy (sint dy + sy1 - sint (ry rc)) (fb_h fb) ?cy = (y0, y1)" by fastforce
  note TX = src_span_axis [OF sx, where d = dx] and TY = src_span_axis [OF sy, where d = dy]
  have hit: "(nat x0 \<le> x \<and> x < nat x1 \<and> nat y0 \<le> y \<and> y < nat y1) \<longleftrightarrow>
      clip_has clip x y \<and> has_texel dx (rx rc) (rw rc) src_w x \<and> has_texel dy (ry rc) (rh rc) src_h y"
    if "in_fb fb x y" for x y
    using dst_span_axis [OF X, of x] dst_span_axis [OF Y, of y] that TX(1) [where v = x] TY(1) [where v = y]
    unfolding clip_has_spans in_fb_def by blast
  have none: "drawn fb fb ?G" if "\<And>x y. in_fb fb x y \<Longrightarrow> clip_has clip x y \<Longrightarrow> \<not> (opacity \<noteq> 0 \<and> fmt \<le> 1 \<and>
      has_texel dx (rx rc) (rw rc) src_w x \<and> has_texel dy (ry rc) (rh rc) src_h y)"
    by (rule drawn_cong [OF drawn_same [OF fb]]) (use that in \<open>auto simp: blit_px_def\<close>)
  let ?texel = "\<lambda>x y. src ! (nat (sy0 + int y - ?doy) * unat src_w + nat (sx0 + int x - ?dox))"
  have copy: "drawn fb (each_px (nat x0) (nat x1) (nat y0) (nat y1) (\<lambda>x y. bl (?texel x y) (ucast opacity)) fb) ?G"
    if "opacity \<noteq> 0" "fmt \<le> 1" "bl = (if fmt = 0 then blend_x else blend_over)" for bl
  proof (rule drawn_cong [OF each_px_drawn [OF fb dst_span_bound [OF X] dst_span_bound [OF Y]]])
    fix x y c assume "in_fb fb x y"
    from hit [OF this] show "(if nat x0 \<le> x \<and> x < nat x1 \<and> nat y0 \<le> y \<and> y < nat y1
        then bl (?texel x y) (ucast opacity) c else c) = ?G x y c"
      using that by (simp add: blit_px_def TX(2) TY(2))
  qed
  have texel_none: "\<not> has_texel d p l b v" if "b = 0 \<or> sint l \<le> 0" for d p l b v
    using that by (auto simp: has_texel_def)
  consider "opacity = 0 \<or> fmt > 1" | "src_w = 0 \<or> sint (rw rc) \<le> 0" | "src_h = 0 \<or> sint (rh rc) \<le> 0" | "sx0 \<ge> sx1 \<or> sy0 \<ge> sy1"
    | "x0 \<ge> x1 \<or> y0 \<ge> y1"
    | "opacity \<noteq> 0" "\<not> fmt > 1" "\<not> (src_w = 0 \<or> sint (rw rc) \<le> 0)" "\<not> (src_h = 0 \<or> sint (rh rc) \<le> 0)"
      "\<not> (sx0 \<ge> sx1 \<or> sy0 \<ge> sy1)" "\<not> (x0 \<ge> x1 \<or> y0 \<ge> y1)" by blast
  then show "drawn fb (scene_fb_blit fb dx dy src src_w src_h rc opacity fmt clip) ?G"
  proof cases
    case 1
    then have "scene_fb_blit fb dx dy src src_w src_h rc opacity fmt clip = fb"
      by (auto simp: scene_fb_blit_def Let_def word_less_nat_alt split: prod.splits)
    moreover have "\<not> (opacity \<noteq> 0 \<and> fmt \<le> 1)" using 1 by (auto simp: not_le)
    ultimately show ?thesis using none by metis
  next
    case 2
    then show ?thesis using none texel_none by (simp add: scene_fb_blit_def) blast
  next
    case 3
    then show ?thesis using none texel_none by (simp add: scene_fb_blit_def) blast
  next
    case 4
    then have "scene_fb_blit fb dx dy src src_w src_h rc opacity fmt clip = fb"
      by (simp add: scene_fb_blit_def sx sy)
    moreover have "\<not> (has_texel dx (rx rc) (rw rc) src_w x \<and> has_texel dy (ry rc) (rh rc) src_h y)" for x y
      using TX(1) [where v = x, symmetric] TY(1) [where v = y, symmetric] 4 by auto
    ultimately show ?thesis using none by metis
  next
    case 5
    then have "scene_fb_blit fb dx dy src src_w src_h rc opacity fmt clip = fb"
      by (simp add: scene_fb_blit_def sx sy X Y)
    moreover have "\<not> (nat x0 \<le> x \<and> x < nat x1 \<and> nat y0 \<le> y \<and> y < nat y1)" for x y using 5 by auto
    ultimately show ?thesis using none hit by metis
  next
    case 6
    then have "fmt \<le> 1" by (simp add: not_less)
    then have f: "fmt = 0 \<or> fmt = 1" by (metis order_le_less word_less_1)
    show ?thesis
    proof (cases "fb_px fb = []")
      case True
      then show ?thesis using drawn_empty [OF True fb] by (simp add: scene_fb_blit_def)
    next
      case False
      note C = copy [OF 6(1) \<open>fmt \<le> 1\<close> refl]
      show ?thesis
        using f C 6 False by (auto simp: scene_fb_blit_def sx sy X Y Let_def)
    qed
  qed
qed

end
