(* ===== verification/FontOk.thy ===== *)
theory FontOk
  imports Font FramebufferOk
begin

unbundle bit_operations_syntax

text \<open>
  What text drawing does, pixel by pixel: bitmap text is a shader for every clip, text with cached
  glyphs for clips whose ends do not wrap.
\<close>

subsection \<open>Bitmap text\<close>

lemma sint_nonneg:
  fixes p :: i32
  assumes "0 \<le> sint p"
  shows "int (unat p) = sint p"
proof -
  have "uint p = take_bit 32 (sint p)" by (simp add: uint_sint)
  moreover have "sint p < 2 ^ 31" using sint_less [of p] by simp
  ultimately show ?thesis using assms by (simp add: take_bit_int_eq_self)
qed

lemma below_uint:
  fixes p b :: u32
  assumes "0 \<le> sint p"
  shows "sint p < uint b \<longleftrightarrow> unat p < unat b"
  unfolding sint_nonneg [OF assms, symmetric] by (simp only: uint_nat of_nat_less_iff)

lemma dst_span_point:
  fixes p :: i32 and bound :: u32
  assumes "dst_span lo hi bound clip = (a, b)"
  shows "a \<le> sint p \<and> sint p < b \<longleftrightarrow>
    0 \<le> sint p \<and> unat p < unat bound \<and> lo \<le> sint p \<and> sint p < hi \<and> on_spans clip (unat p)"
proof (cases "0 \<le> sint p")
  case True
  have ab: "a = (case clip of None \<Rightarrow> max 0 lo | Some (cpos, clen) \<Rightarrow> max (sint cpos) (max 0 lo))"
    "b = (case clip of None \<Rightarrow> min (uint bound) hi | Some (cpos, clen) \<Rightarrow> min (sint cpos + sint clen) (min (uint bound) hi))"
    using assms by (auto simp: dst_span_def Let_def split: option.splits)
  show ?thesis
    unfolding ab on_spans_def on_span_def sint_nonneg [OF True] below_uint [OF True, symmetric]
    using True by (cases clip) auto
next
  case False
  have "0 \<le> a" using assms by (auto simp: dst_span_def Let_def split: option.splits)
  then show ?thesis using False by auto
qed

lemma on_axis_point:
  fixes p :: i32 and bound :: u32
  assumes "unat bound < 2 ^ 30" "case clip of None \<Rightarrow> True | Some (p, l) \<Rightarrow> sint p + sint l < 2 ^ 31 \<and> 0 < sint l"
  shows "on_axis bound clip p \<longleftrightarrow> 0 \<le> sint p \<and> unat p < unat bound \<and> on_spans clip (unat p)"
proof (cases "0 \<le> sint p")
  case True
  have "uint bound < 2 ^ 30" using assms(1) by (metis of_nat_less_iff of_nat_numeral of_nat_power uint_nat)
  moreover have "- (2 ^ 31) \<le> uint bound" by (rule order_trans [OF _ uint_ge_0]) simp
  ultimately have "signed_take_bit 31 (uint bound) = uint bound"
    by (intro signed_take_bit_int_eq_self) simp_all
  then have b: "sint bound = uint bound" by (simp add: sint_uint)
  have "sint (q + l) = sint q + sint l" if "sint q + sint l < 2 ^ 31" "0 < sint l" for q l :: i32
  proof -
    have "- (2 ^ 31) \<le> sint q" using sint_ge [of q] by simp
    then show ?thesis using that by (simp add: sint_word_ariths signed_take_bit_int_eq_self)
  qed
  then show ?thesis
    using True assms(2) unfolding on_axis_def b on_spans_def on_span_def sint_nonneg [OF True] below_uint [OF True, symmetric]
    by (cases clip) auto
qed (simp add: on_axis_def)

text \<open>A set of places to plot at, as far as the framebuffer and the clip allow.\<close>

definition allows :: "scene_fb \<Rightarrow> rect option \<Rightarrow> (i32 \<Rightarrow> i32 \<Rightarrow> bool) \<Rightarrow> (i32 \<Rightarrow> i32 \<Rightarrow> bool) \<Rightarrow> bool" where
  "allows fb clip K ok \<longleftrightarrow> (\<forall>px yy. ok px yy \<longleftrightarrow> 0 \<le> sint px \<and> 0 \<le> sint yy \<and> in_fb fb (unat px) (unat yy) \<and>
     clip_has clip (unat px) (unat yy) \<and> K px yy)"

definition point_px :: "(i32 \<Rightarrow> i32 \<Rightarrow> bool) \<Rightarrow> (u32 \<Rightarrow> u32) \<Rightarrow> i32 \<Rightarrow> i32 \<Rightarrow> nat \<Rightarrow> nat \<Rightarrow> u32 \<Rightarrow> u32" where
  "point_px K f px yy x y c = (if K px yy \<and> sint px = int x \<and> sint yy = int y then f c else c)"

lemma point_shaded:
  assumes "allows fb0 clip K ok"
  shows "shaded clip fb0 (\<lambda>fb. if ok px yy then put_px (unat px) (unat yy) (f (px_at fb (unat px) (unat yy))) fb else fb)
     (point_px K f px yy)"
proof (rule shadedI)
  fix fb assume fb: "fb_ok fb" "same_size fb0 fb"
  have size: "in_fb fb x y = in_fb fb0 x y" for x y using fb(2) by (simp add: in_fb_def same_size_def)
  show "drawn fb (if ok px yy then put_px (unat px) (unat yy) (f (px_at fb (unat px) (unat yy))) fb else fb)
      (\<lambda>x y c. if clip_has clip x y then point_px K f px yy x y c else c)"
  proof (cases "ok px yy")
    case True
    then have h: "0 \<le> sint px" "0 \<le> sint yy" "in_fb fb (unat px) (unat yy)" "clip_has clip (unat px) (unat yy)" "K px yy"
      using assms size by (auto simp: allows_def)
    have eq: "(x = unat px \<and> y = unat yy) \<longleftrightarrow> (sint px = int x \<and> sint yy = int y)" for x y
      unfolding sint_nonneg [OF h(1), symmetric] sint_nonneg [OF h(2), symmetric] by (simp only: of_nat_eq_iff) blast
    have "drawn fb (put_px (unat px) (unat yy) (f (px_at fb (unat px) (unat yy))) fb)
        (\<lambda>x y c. if clip_has clip x y then point_px K f px yy x y c else c)"
    proof (rule drawn_cong [OF put_px_drawn [OF fb(1) h(3), of f]])
      fix x y c
      have "point_px K f px yy x y c = (if x = unat px \<and> y = unat yy then f c else c)"
        unfolding point_px_def eq using h(5) by simp
      then show "(if x = unat px \<and> y = unat yy then f c else c) = (if clip_has clip x y then point_px K f px yy x y c else c)"
        using h(4) by simp
    qed
    then show ?thesis using True by simp
  next
    case False
    have "\<not> (clip_has clip x y \<and> K px yy \<and> sint px = int x \<and> sint yy = int y)" if "in_fb fb x y" for x y
    proof
      assume h: "clip_has clip x y \<and> K px yy \<and> sint px = int x \<and> sint yy = int y"
      then have "int (unat px) = int x" "int (unat yy) = int y" using sint_nonneg [of px] sint_nonneg [of yy] by auto
      then have "unat px = x" "unat yy = y" by (simp_all only: of_nat_eq_iff)
      then show False using False h that size assms unfolding allows_def by auto
    qed
    then have "drawn fb fb (\<lambda>x y c. if clip_has clip x y then point_px K f px yy x y c else c)"
      by (intro drawn_cong [OF drawn_same [OF fb(1)]]) (auto simp: point_px_def)
    then show ?thesis using False by simp
  qed
qed

definition glyph_px :: "(i32 \<Rightarrow> i32 \<Rightarrow> bool) \<Rightarrow> (u32 \<Rightarrow> u32) \<Rightarrow> u8 list \<Rightarrow> i32 \<Rightarrow> i32 \<Rightarrow> nat \<Rightarrow> nat \<Rightarrow> u32 \<Rightarrow> u32" where
  "glyph_px K f g cx y x' y' = fold (\<lambda>row. fold (\<lambda>col.
     point_px (\<lambda>px yy. K px yy \<and> g ! row AND drop_bit col 0x80 \<noteq> 0) f (cx + of_nat col) (y + of_nat row) x' y') [0..<8]) [0..<8]"

lemma glyph_shaded:
  assumes "allows fb0 clip K ok"
  shows "shaded clip fb0 (plot_glyph ok f g cx y) (glyph_px K f g cx y)"
  unfolding plot_glyph_def glyph_px_def
proof (intro shaded_fold)
  fix row col
  have "allows fb0 clip (\<lambda>px yy. K px yy \<and> g ! row AND drop_bit col 0x80 \<noteq> 0) (\<lambda>px yy. ok px yy \<and> g ! row AND drop_bit col 0x80 \<noteq> 0)"
    using assms by (auto simp: allows_def)
  from point_shaded [OF this, of "cx + of_nat col" "y + of_nat row" f]
  show "shaded clip fb0 (plot ok f g cx y row col) (point_px (\<lambda>px yy. K px yy \<and> g ! row AND drop_bit col 0x80 \<noteq> 0) f
      (cx + of_nat col) (y + of_nat row))"
    by (simp add: plot_def [abs_def] Let_def)
qed

text \<open>A line of bitmap text. The code skips characters that lie outside the visible span; they would
  draw nothing.\<close>

definition text_px :: "i32 \<Rightarrow> i32 \<Rightarrow> bytes \<Rightarrow> u32 \<Rightarrow> u32 \<Rightarrow> nat \<Rightarrow> nat \<Rightarrow> u32 \<Rightarrow> u32" where
  "text_px x y s color alpha x' y' =
     fold (\<lambda>i. glyph_px (\<lambda>px yy. sint x \<le> sint px \<and> sint px < sint x + int (length s) * 8 \<and> sint y \<le> sint yy \<and> sint yy < sint y + 8)
       (tint color alpha) (scene_font_glyph (s ! i)) (of_int (sint x + int i * 8)) y x' y') [0..<length s]"

lemma point_px_off: "(\<And>px yy. \<not> K px yy) \<Longrightarrow> point_px K f px yy x y c = c"
  by (simp add: point_px_def)

lemma fold_id: "(\<And>a c. a \<in> set as \<Longrightarrow> f a c = c) \<Longrightarrow> fold f as c = c"
  by (induction as) auto

lemma tint_zero: "tint color 0 c = c"
  by (simp add: tint_def)

lemma point_px_zero: "point_px K (tint color 0) px yy x y c = c"
  by (simp add: point_px_def tint_zero)

lemma text_px_zero: "text_px x y s color 0 x' y' c = c"
  unfolding text_px_def glyph_px_def by (intro fold_id point_px_zero)

text \<open>A glyph no place of which is allowed.\<close>

lemma plot_glyph_none:
  assumes "\<And>col yy. col < 8 \<Longrightarrow> \<not> ok (cx + of_nat col) yy"
  shows "plot_glyph ok f g cx y fb = fb"
  unfolding plot_glyph_def using assms by (intro fold_id) (auto simp: plot_def)

lemma sint_add_wrap:
  fixes a b :: i32
  assumes "0 \<le> sint b" "sint b \<le> 8"
  shows "sint (a + b) = (if sint a + sint b < 2 ^ 31 then sint a + sint b else sint a + sint b - 2 ^ 32)"
proof -
  have r: "- (2 ^ 31) \<le> sint a" "sint a < 2 ^ 31" using sint_ge [of a] sint_less [of a] by simp_all
  have s: "sint (a + b) = signed_take_bit 31 (sint a + sint b)" by (simp add: sint_word_ariths)
  show ?thesis
  proof (cases "sint a + sint b < 2 ^ 31")
    case True
    then show ?thesis unfolding s using r assms by (simp add: signed_take_bit_int_eq_self)
  next
    case False
    have "take_bit 32 (sint a + sint b) = take_bit 32 (sint a + sint b - 2 ^ 32)"
      unfolding take_bit_eq_mod by (rule minus_mod_self2 [symmetric])
    then have "signed_take_bit 31 (sint a + sint b) = signed_take_bit 31 (sint a + sint b - 2 ^ 32)"
      by (simp add: signed_take_bit_eq_iff_take_bit_eq)
    also have "\<dots> = sint a + sint b - 2 ^ 32" using r assms False by (intro signed_take_bit_int_eq_self) simp_all
    finally show ?thesis using False s by simp
  qed
qed

lemma skipped_glyph:
  fixes cx :: i32
  assumes "0 \<le> x0" "x1 < 2 ^ 30" "sint cx \<ge> x1 \<or> sint (cx + 8) \<le> x0" "col < 8"
  shows "\<not> (x0 \<le> sint (cx + of_nat col) \<and> sint (cx + of_nat col) < x1)"
proof -
  have r: "- (2 ^ 31) \<le> sint cx" "sint cx < 2 ^ 31" using sint_ge [of cx] sint_less [of cx] by simp_all
  have col: "sint (of_nat col :: i32) = int col"
    using assms(4) by (simp add: sint_uint uint_nat unat_of_nat signed_take_bit_int_eq_self take_bit_nat_eq_self)
  have w: "sint (cx + of_nat col) = (if sint cx + int col < 2 ^ 31 then sint cx + int col else sint cx + int col - 2 ^ 32)"
    using sint_add_wrap [of "of_nat col" cx] assms(4) unfolding col by simp
  have w8: "sint (cx + 8) = (if sint cx + 8 < 2 ^ 31 then sint cx + 8 else sint cx + 8 - 2 ^ 32)"
    using sint_add_wrap [of 8 cx] by simp
  show ?thesis using assms r unfolding w w8 by (auto split: if_splits)
qed

lemma fold_same: "(\<And>a c. a \<in> set as \<Longrightarrow> f a c = g a c) \<Longrightarrow> fold f as c = fold g as c"
  by (induction as arbitrary: c) auto

lemma uint_below: "unat (b :: u32) < 2 ^ 30 \<Longrightarrow> uint b < 2 ^ 30"
  by (metis of_nat_less_iff of_nat_numeral of_nat_power uint_nat)

lemma dst_span_range:
  assumes "dst_span lo hi bound clip = (a, b)" "unat bound < 2 ^ 30"
  shows "0 \<le> a" "b < 2 ^ 30"
  using assms(1) uint_below [OF assms(2)] unfolding dst_span_def Let_def by (auto split: option.splits)

lemma draw_a_shader:
  "shader (\<lambda>clip fb. scene_font_draw_a fb x y s color alpha clip) (text_px x y s color alpha)"
proof (intro shaderI shadedI)
  fix clip fb0 fb assume fb: "fb_ok fb"
  let ?g = "text_px x y s color alpha"
  let ?G = "\<lambda>x' y' c. if clip_has clip x' y' then ?g x' y' c else c"
  show "drawn fb (scene_font_draw_a fb x y s color alpha clip) ?G"
  proof (cases "fb_px fb = [] \<or> s = [] \<or> alpha = 0")
    case True
    then consider "fb_px fb = []" | "?g = (\<lambda>_ _ c. c)"
      by (auto simp: text_px_zero fun_eq_iff) (auto simp: text_px_def)
    then show ?thesis
    proof cases
      case 1
      then show ?thesis using drawn_empty [OF 1 fb] by (simp add: scene_font_draw_a_def)
    next
      case 2
      have "scene_font_draw_a fb x y s color alpha clip = fb" using True by (auto simp: scene_font_draw_a_def)
      then show ?thesis using drawn_cong [OF drawn_same [OF fb], of ?G] 2 by simp
    qed
  next
    case False
    have w: "unat (fb_w fb) < 2 ^ 30" using fb by (simp add: fb_ok_def)
    obtain x0 x1 where X: "dst_span (sint x) (sint x + int (length s) * 8) (fb_w fb) (map_option (\<lambda>c. (rx c, rw c)) clip) = (x0, x1)"
      by fastforce
    obtain y0 y1 where Y: "dst_span (sint y) (sint y + 8) (fb_h fb) (map_option (\<lambda>c. (ry c, rh c)) clip) = (y0, y1)"
      by fastforce
    define ok where "ok = (\<lambda>(px :: i32) (yy :: i32). x0 \<le> sint px \<and> sint px < x1 \<and> y0 \<le> sint yy \<and> sint yy < y1)"
    define cx where "cx = (\<lambda>i. of_int (sint x + int i * 8) :: i32)"
    let ?K = "\<lambda>px yy. sint x \<le> sint px \<and> sint px < sint x + int (length s) * 8 \<and> sint y \<le> sint yy \<and> sint yy < sint y + 8"
    let ?draw = "\<lambda>i. plot_glyph ok (tint color alpha) (scene_font_glyph (s ! i)) (cx i) y"
    have "allows fb clip ?K ok"
      unfolding allows_def clip_has_spans in_fb_def ok_def using dst_span_point [OF X] dst_span_point [OF Y] by auto
    then have S: "shaded clip fb (fold ?draw [0..<length s]) ?g"
      unfolding text_px_def cx_def by (intro shaded_fold) (rule glyph_shaded)
    have tint: "blend_to color alpha = tint color alpha" using False by (simp add: tint_def fun_eq_iff)
    have skip: "?draw i fb' = fb'" if "sint (cx i) \<ge> x1 \<or> sint (cx i + 8) \<le> x0" for i fb'
      using skipped_glyph [OF dst_span_range [OF X w] that] by (intro plot_glyph_none) (auto simp: ok_def)
    have none: "?draw i fb' = fb'" if "x0 \<ge> x1 \<or> y0 \<ge> y1" for i fb'
      using that by (intro plot_glyph_none) (auto simp: ok_def)
    have "scene_font_draw_a fb x y s color alpha clip = fold ?draw [0..<length s] fb"
    proof (cases "x0 \<ge> x1 \<or> y0 \<ge> y1")
      case True
      have "fold ?draw [0..<length s] fb = fb" using none [OF True] by (intro fold_id)
      then show ?thesis using True False by (simp add: scene_font_draw_a_def X Y)
    next
      case no: False
      have "scene_font_draw_a fb x y s color alpha clip =
          fold (\<lambda>i fb. if sint (cx i) \<ge> x1 \<or> sint (cx i + 8) \<le> x0 then fb else ?draw i fb) [0..<length s] fb"
        using no False unfolding scene_font_draw_a_def X Y Let_def cx_def ok_def tint by simp
      also have "\<dots> = fold ?draw [0..<length s] fb" by (rule fold_same) (simp add: skip)
      finally show ?thesis .
    qed
    then show ?thesis using S fb same_size_refl unfolding shaded_def by simp
  qed
qed

subsection \<open>UTF-8 text\<close>

lemma on_screen_allows:
  assumes "fb_ok fb" "clip_ok clip"
  shows "allows fb clip (\<lambda>_ _. True) (on_screen fb clip)"
proof -
  have w: "unat (fb_w fb) < 2 ^ 30" "unat (fb_h fb) < 2 ^ 30" using assms(1) by (simp_all add: fb_ok_def)
  have "on_axis (fb_w fb) (map_option (\<lambda>c. (rx c, rw c)) clip) px \<longleftrightarrow>
      0 \<le> sint px \<and> unat px < unat (fb_w fb) \<and> on_spans (map_option (\<lambda>c. (rx c, rw c)) clip) (unat px)" for px
    by (rule on_axis_point [OF w(1)]) (use assms(2) in \<open>auto simp: clip_ok_def split: option.splits\<close>)
  moreover have "on_axis (fb_h fb) (map_option (\<lambda>c. (ry c, rh c)) clip) yy \<longleftrightarrow>
      0 \<le> sint yy \<and> unat yy < unat (fb_h fb) \<and> on_spans (map_option (\<lambda>c. (ry c, rh c)) clip) (unat yy)" for yy
    by (rule on_axis_point [OF w(2)]) (use assms(2) in \<open>auto simp: clip_ok_def split: option.splits\<close>)
  ultimately show ?thesis unfolding allows_def on_screen_def clip_has_spans in_fb_def by auto
qed

lemma on_screen_size: "same_size fb fb' \<Longrightarrow> on_screen fb' clip = on_screen fb clip"
  by (simp add: on_screen_def [abs_def] same_size_def)

definition bmp_px :: "i32 \<Rightarrow> i32 \<Rightarrow> i32 \<Rightarrow> i32 \<Rightarrow> u8 list \<Rightarrow> u32 \<Rightarrow> u32 \<Rightarrow> nat \<Rightarrow> nat \<Rightarrow> u32 \<Rightarrow> u32" where
  "bmp_px dx dy gw gh bmp color alpha x y =
     fold (\<lambda>gy. fold (\<lambda>gx.
       let a = ucast (bmp ! (gy * nat (sint gw) + gx)) * alpha div 255
       in point_px (\<lambda>_ _. a > 0) (ink color a) (dx + of_nat gx) (dy + of_nat gy) x y)
     [0..<nat (sint gw)]) [0..<nat (sint gh)]"

lemma shaded_fb_cong:
  assumes "shaded clip fb0 F g" "\<And>fb. fb_ok fb \<Longrightarrow> same_size fb0 fb \<Longrightarrow> G fb = F fb"
  shows "shaded clip fb0 G g"
  using assms unfolding shaded_def by simp

lemma blit_alpha_shaded:
  assumes "fb_ok fb0" "clip_ok clip"
  shows "shaded clip fb0 (blit_alpha dx dy gw gh bmp color alpha clip) (bmp_px dx dy gw gh bmp color alpha)"
  unfolding blit_alpha_def bmp_px_def
proof (intro shaded_fold)
  fix gy gx
  let ?a = "ucast (bmp ! (gy * nat (sint gw) + gx)) * alpha div 255 :: u32"
  have "allows fb0 clip (\<lambda>_ _. ?a > 0) (\<lambda>px yy. on_screen fb0 clip px yy \<and> ?a > 0)"
    using on_screen_allows [OF assms] by (simp add: allows_def)
  from point_shaded [OF this, of "dx + of_nat gx" "dy + of_nat gy" "ink color ?a"]
  show "shaded clip fb0 (\<lambda>fb. let yy = dy + of_nat gy; xx = dx + of_nat gx; a = ?a
      in if on_screen fb clip xx yy \<and> a > 0
         then put_px (unat xx) (unat yy) (ink color a (px_at fb (unat xx) (unat yy))) fb else fb)
    (\<lambda>x y. let a = ?a in point_px (\<lambda>_ _. a > 0) (ink color a) (dx + of_nat gx) (dy + of_nat gy) x y)"
    unfolding Let_def by (rule shaded_fb_cong) (simp add: on_screen_size)
qed

text \<open>A character, and a text, with a lookup of glyphs.\<close>

definition char_px :: "(u32 \<Rightarrow> utf8_glyph) \<Rightarrow> u32 \<Rightarrow> u32 \<Rightarrow> i32 \<Rightarrow> i32 \<Rightarrow> u32 \<Rightarrow> nat \<Rightarrow> nat \<Rightarrow> u32 \<Rightarrow> u32" where
  "char_px look color alpha cx y cp =
     (if cp < 128 then glyph_px (\<lambda>_ _. True) (ascii_ink color alpha) (scene_font_glyph (ucast cp)) cx y
      else let g = look cp
           in case gl_pixels g of
                Some bmp \<Rightarrow> bmp_px (cx + gl_x0 g) (y + gl_y0 g) (gl_w g) (gl_h g) bmp color alpha
              | None \<Rightarrow> (\<lambda>_ _ c. c))"

definition char_advance :: "(u32 \<Rightarrow> utf8_glyph) \<Rightarrow> u32 \<Rightarrow> i32" where
  "char_advance look cp = (if cp < 128 \<or> gl_advance (look cp) = 0 then 8 else gl_advance (look cp))"

lemma draw_char_advance: "snd (draw_char (Some look) color alpha clip cx y cp fb) = char_advance look cp"
  by (simp add: draw_char_def char_advance_def Let_def)

lemma draw_char_shaded:
  assumes "fb_ok fb0" "clip_ok clip"
  shows "shaded clip fb0 (\<lambda>fb. fst (draw_char (Some look) color alpha clip cx y cp fb)) (char_px look color alpha cx y cp)"
proof (cases "cp < 128")
  case True
  have "shaded clip fb0 (plot_glyph (on_screen fb0 clip) (ascii_ink color alpha) (scene_font_glyph (ucast cp)) cx y)
      (glyph_px (\<lambda>_ _. True) (ascii_ink color alpha) (scene_font_glyph (ucast cp)) cx y)"
    by (rule glyph_shaded [OF on_screen_allows [OF assms]])
  then show ?thesis unfolding char_px_def if_P [OF True]
    by (rule shaded_fb_cong) (simp add: draw_char_def on_screen_size True)
next
  case False
  have "shaded clip fb0 (\<lambda>fb. case gl_pixels (look cp) of
      Some bmp \<Rightarrow> blit_alpha (cx + gl_x0 (look cp)) (y + gl_y0 (look cp)) (gl_w (look cp)) (gl_h (look cp)) bmp color alpha clip fb
    | None \<Rightarrow> fb) (char_px look color alpha cx y cp)"
    using False blit_alpha_shaded [OF assms] shaded_id by (cases "gl_pixels (look cp)") (simp_all add: char_px_def Let_def)
  then show ?thesis by (rule shaded_fb_cong) (simp add: draw_char_def Let_def False)
qed

function chars_px :: "(u32 \<Rightarrow> utf8_glyph) \<Rightarrow> u32 \<Rightarrow> u32 \<Rightarrow> i32 \<Rightarrow> bytes \<Rightarrow> i32 \<Rightarrow> nat \<Rightarrow> nat \<Rightarrow> u32 \<Rightarrow> u32" where
  "chars_px look color alpha y p cx x' y' c =
     (if p = [] then c
      else case utf8_decode p of
             (cp, p1) \<Rightarrow> chars_px look color alpha y p1 (cx + char_advance look cp) x' y' (char_px look color alpha cx y cp x' y' c))"
  by pat_completeness auto

termination
  by (relation "measure (\<lambda>(_, _, _, _, p, _). length p)")
    (auto intro: utf8_decode_shorter simp del: utf8_decode.simps)

declare chars_px.simps [simp del]

lemma draw_chars_shaded:
  assumes "fb_ok fb0" "clip_ok clip"
  shows "shaded clip fb0 (\<lambda>fb. fst (draw_chars (Some look) color alpha clip y p cx fb)) (chars_px look color alpha y p cx)"
proof (induction p arbitrary: cx rule: length_induct)
  case (1 p)
  show ?case
  proof (cases "p = []")
    case True
    then show ?thesis using shaded_id by (simp add: draw_chars.simps chars_px.simps [abs_def])
  next
    case False
    obtain cp p1 where d: "utf8_decode p = (cp, p1)" by fastforce
    let ?draw = "draw_char (Some look) color alpha clip cx y cp"
    have "length p1 < length p" using utf8_decode_length [OF False] d by simp
    then have "shaded clip fb0 (\<lambda>fb. fst (draw_chars (Some look) color alpha clip y p1 (cx + char_advance look cp) fb))
        (chars_px look color alpha y p1 (cx + char_advance look cp))"
      using 1 by blast
    from shaded_comp [OF draw_char_shaded [OF assms] this]
    have "shaded clip fb0 (\<lambda>fb. fst (draw_chars (Some look) color alpha clip y p1 (cx + char_advance look cp) (fst (?draw fb))))
        (\<lambda>x' y' c. chars_px look color alpha y p1 (cx + char_advance look cp) x' y' (char_px look color alpha cx y cp x' y' c))" .
    moreover have "chars_px look color alpha y p cx = (\<lambda>x' y' c. chars_px look color alpha y p1 (cx + char_advance look cp) x' y'
        (char_px look color alpha cx y cp x' y' c))"
      using False by (subst chars_px.simps [abs_def]) (simp add: d)
    moreover have "draw_chars (Some look) color alpha clip y p cx fb =
        draw_chars (Some look) color alpha clip y p1 (cx + char_advance look cp) (fst (?draw fb))" for fb
      using False draw_char_advance [of look color alpha clip cx y cp fb]
      by (subst draw_chars.simps) (auto simp: d split: prod.splits)
    ultimately show ?thesis by simp
  qed
qed

definition utf8_px :: "(u32 \<Rightarrow> utf8_glyph) \<Rightarrow> i32 \<Rightarrow> i32 \<Rightarrow> bytes \<Rightarrow> u32 \<Rightarrow> u32 \<Rightarrow> nat \<Rightarrow> nat \<Rightarrow> u32 \<Rightarrow> u32" where
  "utf8_px look x y s color alpha x' y' c = (if alpha = 0 then c else chars_px look color alpha y s x x' y' c)"

text \<open>Text with glyphs of a cache needs a framebuffer of a bounded size, and a clip that does not wrap.\<close>

lemma draw_utf8_shaded:
  assumes "fb_ok fb0" "clip_ok clip"
  shows "shaded clip fb0 (\<lambda>fb. fst (scene_font_draw_utf8 fb x y s color alpha (Some look) clip)) (utf8_px look x y s color alpha)"
proof (rule shadedI)
  fix fb assume fb: "fb_ok fb" "same_size fb0 fb"
  let ?G = "\<lambda>x' y' c. if clip_has clip x' y' then utf8_px look x y s color alpha x' y' c else c"
  show "drawn fb (fst (scene_font_draw_utf8 fb x y s color alpha (Some look) clip)) ?G"
  proof (cases "fb_px fb = []")
    case True
    then show ?thesis using drawn_empty [OF True fb(1)] by (simp add: scene_font_draw_utf8_def)
  next
    case False
    show ?thesis
    proof (cases "s = [] \<or> alpha = 0")
      case True
      then have "utf8_px look x y s color alpha x' y' c = c" for x' y' c by (auto simp: utf8_px_def chars_px.simps)
      then show ?thesis using True drawn_cong [OF drawn_same [OF fb(1)], of ?G] by (simp add: scene_font_draw_utf8_def)
    next
      case go: False
      have "drawn fb (fst (draw_chars (Some look) color alpha clip y s x fb))
          (\<lambda>x' y' c. if clip_has clip x' y' then chars_px look color alpha y s x x' y' c else c)"
        using draw_chars_shaded [OF assms] fb unfolding shaded_def by blast
      then show ?thesis using go False
        by (auto simp: scene_font_draw_utf8_def utf8_px_def split: prod.splits cong: if_cong)
    qed
  qed
qed

end
