(* ===== verification/RenderOk.thy ===== *)
theory RenderOk
  imports RenderModel Views Reach IdMap
begin

text \<open>
  What the diff of a layer achieves. The render model is seen as the multiset of its used entries,
  whatever their places in the table; the \<open>face\<close> of an entry or of a node is what the diff compares.
  A model is \<open>synced\<close> with a document when its faces are those of the document's nodes.

  The walk over a session that displays \<open>d2\<close>, from a model synced with \<open>d1\<close>, ends synced with \<open>d2\<close>,
  and the damage list covers every pixel where a node that changed was or is shown. The sweep
  frees entries of a linearly probed table without repair, so an entry may become unreachable; this
  is harmless as long as the table does not grow (\<open>roomy\<close>) or no chain is broken (\<open>chained\<close>).
\<close>

subsection \<open>Rectangles\<close>

definition tame :: "rect \<Rightarrow> bool" where
  "tame r \<longleftrightarrow> - (2 ^ 30) \<le> sint (rx r) \<and> sint (rx r) + sint (rw r) < 2 ^ 30 \<and>
     - (2 ^ 30) \<le> sint (ry r) \<and> sint (ry r) + sint (rh r) < 2 ^ 30"

lemma sint_add_small:
  fixes a b :: i32
  assumes "- (2 ^ 31) \<le> sint a + sint b" "sint a + sint b < 2 ^ 31"
  shows "sint (a + b) = sint a + sint b"
  using assms by (simp add: sint_word_ariths signed_take_bit_int_eq_self)

lemma sint_diff_small:
  fixes a b :: i32
  assumes "- (2 ^ 31) \<le> sint a - sint b" "sint a - sint b < 2 ^ 31"
  shows "sint (a - b) = sint a - sint b"
  using assms by (simp add: sint_word_ariths signed_take_bit_int_eq_self)

lemma tame_ends:
  assumes "tame r" "has_area r"
  shows "sint (rx r + rw r) = sint (rx r) + sint (rw r)" "sint (ry r + rh r) = sint (ry r) + sint (rh r)"
  using assms by (auto simp: tame_def has_area_def intro!: sint_add_small)

lemma rect_join_covers:
  assumes "tame a" "has_area a" "tame b" "has_area b"
  shows "tame (rect_join a b) \<and> has_area (rect_join a b) \<and>
    (in_rect a x y \<or> in_rect b x y \<longrightarrow> in_rect (rect_join a b) x y)"
proof -
  let ?j = "rect_join a b"
  note A = tame_ends [OF assms(1,2)] and B = tame_ends [OF assms(3,4)]
  define x0 y0 x1 y1 where "x0 = min (sint (rx a)) (sint (rx b))" and "y0 = min (sint (ry a)) (sint (ry b))"
    and "x1 = max (sint (rx a) + sint (rw a)) (sint (rx b) + sint (rw b))"
    and "y1 = max (sint (ry a) + sint (rh a)) (sint (ry b) + sint (rh b))"
  note E = x0_def y0_def x1_def y1_def
  have bnd: "- 1073741824 \<le> x0" "x1 < 1073741824" "x0 < x1" "- 1073741824 \<le> y0" "y1 < 1073741824" "y0 < y1"
    using assms by (auto simp: tame_def has_area_def E)
  define ex ey where "ex = (if sint (rx a + rw a) > sint (rx b + rw b) then rx a + rw a else rx b + rw b)"
    and "ey = (if sint (ry a + rh a) > sint (ry b + rh b) then ry a + rh a else ry b + rh b)"
  have e: "sint ex = x1" "sint ey = y1" using A B by (auto simp: ex_def ey_def E)
  have o: "sint (rx ?j) = x0" "sint (ry ?j) = y0"
    by (auto simp: rect_join_def Let_def E)
  have "rw ?j = ex - rx ?j" "rh ?j = ey - ry ?j" by (simp_all add: rect_join_def Let_def ex_def ey_def)
  moreover have "sint (ex - rx ?j) = x1 - x0"
    by (rule trans [OF sint_diff_small]) (use bnd e o in simp_all)
  moreover have "sint (ey - ry ?j) = y1 - y0"
    by (rule trans [OF sint_diff_small]) (use bnd e o in simp_all)
  ultimately have wh: "sint (rw ?j) = x1 - x0" "sint (rh ?j) = y1 - y0" by simp_all
  have t: "tame ?j" "has_area ?j" using bnd o wh by (simp_all add: tame_def has_area_def)
  note J = tame_ends [OF t]
  show ?thesis using t unfolding in_rect_def A B J wh o E by linarith
qed

text \<open>The pixels of a list of rectangles, and lists on which the coordinates do not wrap.\<close>

definition covered :: "rect list \<Rightarrow> i32 \<Rightarrow> i32 \<Rightarrow> bool" where
  "covered rs x y \<longleftrightarrow> (\<exists>r \<in> set rs. in_rect r x y)"

definition tame_list :: "rect list \<Rightarrow> bool" where
  "tame_list rs \<longleftrightarrow> (\<forall>r \<in> set rs. tame r \<and> has_area r) \<and> length rs \<le> 32"

lemma rectlist_add_ok:
  assumes "tame_list rs" "tame r"
  shows "tame_list (rectlist_add 32 rs r)"
    and "covered rs x y \<Longrightarrow> covered (rectlist_add 32 rs r) x y"
    and "has_area r \<Longrightarrow> in_rect r x y \<Longrightarrow> covered (rectlist_add 32 rs r) x y"
proof -
  show t: "tame_list (rectlist_add 32 rs r)"
  proof (cases "has_area r \<and> \<not> length rs < 32")
    case True
    then have l: "31 < length rs" "length rs = 32" using assms(1) by (auto simp: tame_list_def)
    then have "tame (rs ! 31) \<and> has_area (rs ! 31)" using assms(1) by (simp add: tame_list_def)
    then have "tame (rect_join (rs ! 31) r) \<and> has_area (rect_join (rs ! 31) r)"
      using rect_join_covers assms(2) True by blast
    moreover have "set (rs[31 := rect_join (rs ! 31) r]) \<subseteq> insert (rect_join (rs ! 31) r) (set rs)"
      by (rule set_update_subset_insert)
    ultimately show ?thesis using assms(1) True l unfolding tame_list_def rectlist_add_def by auto
  qed (use assms in \<open>auto simp: tame_list_def rectlist_add_def\<close>)
  have j: "covered (rs[31 := rect_join (rs ! 31) r]) x y"
    if h: "has_area r" "length rs = 32" "covered rs x y \<or> in_rect r x y"
  proof -
    have o: "tame (rs ! 31) \<and> has_area (rs ! 31)" using assms(1) h(2) by (simp add: tame_list_def)
    have last: "rect_join (rs ! 31) r \<in> set (rs[31 := rect_join (rs ! 31) r])"
      using h(2) by (intro set_update_memI) simp
    have "\<exists>i. in_rect r x y \<or> i < 32 \<and> in_rect (rs ! i) x y"
      using h by (auto simp: covered_def in_set_conv_nth)
    then obtain i where "in_rect r x y \<or> i < 32 \<and> in_rect (rs ! i) x y" by blast
    then consider "in_rect r x y \<or> in_rect (rs ! 31) x y" | i where "i < 32" "i \<noteq> 31" "in_rect (rs ! i) x y"
      by (cases "i = 31") auto
    then show ?thesis
    proof cases
      case 1
      then have "in_rect (rect_join (rs ! 31) r) x y"
        using rect_join_covers [of "rs ! 31" r x y] o assms(2) h(1) by blast
      then show ?thesis using last by (auto simp: covered_def)
    next
      case 2
      then have "rs ! i \<in> set (rs[31 := rect_join (rs ! 31) r])"
        using h(2) nth_mem [of i "rs[31 := rect_join (rs ! 31) r]"] by simp
      then show ?thesis using 2(3) by (auto simp: covered_def)
    qed
  qed
  have l: "length rs = 32" if "\<not> length rs < 32" using that assms(1) by (simp add: tame_list_def)
  show "covered rs x y \<Longrightarrow> covered (rectlist_add 32 rs r) x y"
    using j l by (auto simp: rectlist_add_def covered_def)
  show "has_area r \<Longrightarrow> in_rect r x y \<Longrightarrow> covered (rectlist_add 32 rs r) x y"
    using j l by (auto simp: rectlist_add_def covered_def)
qed

subsection \<open>The table as a multiset\<close>

definition used_entries :: "scene_layer \<Rightarrow> scene_rnode multiset" where
  "used_entries ly = mset (filter rn_used (ly_map ly))"

definition chained :: "nat \<Rightarrow> scene_rnode list \<Rightarrow> bool" where
  "chained shift m \<longleftrightarrow> (\<forall>j < length m. rn_used (m ! j) \<longrightarrow> map_probe m shift (rn_id (m ! j)) = Some j)"

definition table_ok :: "scene_layer \<Rightarrow> bool" where
  "table_ok ly \<longleftrightarrow> (\<exists>b. length (ly_map ly) = 2 ^ b) \<and> ly_map_used ly = size (used_entries ly)"

lemma mset_filter_update:
  assumes "j < length xs"
  shows "\<exists>R. mset (filter p xs) = (if p (xs ! j) then {#xs ! j#} else {#}) + R \<and>
    (\<forall>y. mset (filter p (xs[j := y])) = (if p y then {#y#} else {#}) + R)"
proof -
  have "mset (filter p (take j xs @ xs ! j # drop (Suc j) xs)) =
      (if p (xs ! j) then {#xs ! j#} else {#}) + mset (filter p (take j xs @ drop (Suc j) xs))"
    by simp
  then have "mset (filter p xs) = (if p (xs ! j) then {#xs ! j#} else {#}) + mset (filter p (take j xs @ drop (Suc j) xs))"
    by (simp only: id_take_nth_drop [OF assms, symmetric])
  moreover have "mset (filter p (xs[j := y])) = (if p y then {#y#} else {#}) + mset (filter p (take j xs @ drop (Suc j) xs))" for y
    using assms by (simp add: upd_conv_take_nth_drop)
  ultimately show ?thesis by blast
qed

lemma set_probe_path:
  assumes cap: "cap = 2 ^ b"
  shows "set (probe_path shift cap k) = {0..<cap}"
proof -
  let ?f = "\<lambda>i. (map_slot shift k + i) mod cap"
  have "0 < cap" using cap by simp
  have "inj_on ?f {0..<cap}"
    by (rule inj_onI, erule turn_inj) simp_all
  moreover have "?f ` {0..<cap} \<subseteq> {0..<cap}" using \<open>0 < cap\<close> by auto
  ultimately have "?f ` {0..<cap} = {0..<cap}" by (intro endo_inj_surj) simp_all
  moreover have "(i AND (cap - 1)) = i mod cap" for i
    using and_mask_mod [of i b] unfolding cap One_nat_def .
  ultimately show ?thesis unfolding probe_path_def set_map set_upt by (simp only:)
qed

lemma map_probe_Some:
  assumes "map_probe m shift k = Some j" "length m = 2 ^ b"
  shows "j < length m \<and> (\<not> rn_used (m ! j) \<or> rn_id (m ! j) = k)"
  using assms set_probe_path [OF assms(2), of shift k] nth_mem [of _ "probe_path shift (length m) k"]
  by (auto simp: map_probe_def find_Some_iff)

lemma map_probe_free:
  assumes "j < length m" "\<not> rn_used (m ! j)" "length m = 2 ^ b"
  shows "\<exists>j'. map_probe m shift k = Some j'"
proof -
  have "j \<in> set (probe_path shift (length m) k)" using set_probe_path [OF assms(3)] assms(1) by simp
  then show ?thesis using assms(2) by (auto simp: map_probe_def find_None_iff simp flip: not_None_eq)
qed

lemma map_probe_Some_iff:
  "map_probe m shift k = Some j \<longleftrightarrow>
   (\<exists>n < length m. probe_path shift (length m) k ! n = j \<and> (\<not> rn_used (m ! j) \<or> rn_id (m ! j) = k) \<and>
      (\<forall>n' < n. rn_used (m ! (probe_path shift (length m) k ! n')) \<and> rn_id (m ! (probe_path shift (length m) k ! n')) \<noteq> k))"
proof -
  have "length (probe_path shift (length m) k) = length m" by (simp add: probe_path_def)
  then show ?thesis unfolding map_probe_def find_Some_iff by auto
qed

text \<open>An entry put where the probe for its id stops can be found, and hides no other.\<close>

lemma chained_insert:
  assumes "chained shift m" "map_probe m shift k = Some j" "\<not> rn_used (m ! j)" "rn_id y = k" "length m = 2 ^ b"
  shows "chained shift (m[j := y])"
  unfolding chained_def
proof (intro allI impI)
  fix i assume i: "i < length (m[j := y])" "rn_used (m[j := y] ! i)"
  have jlen: "j < length m" using map_probe_Some [OF assms(2,5)] by simp
  show "map_probe (m[j := y]) shift (rn_id (m[j := y] ! i)) = Some i"
  proof (cases "i = j")
    case True
    let ?p = "probe_path shift (length m) k"
    obtain n where n: "n < length m" "?p ! n = j" "\<forall>n' < n. rn_used (m ! (?p ! n')) \<and> rn_id (m ! (?p ! n')) \<noteq> k"
      using assms(2) unfolding map_probe_Some_iff by blast
    have "\<forall>n' < n. j \<noteq> ?p ! n'" using n(3) assms(3) by blast
    then show ?thesis using n True jlen assms(4) unfolding map_probe_Some_iff by (intro exI [of _ n]) simp
  next
    case False
    let ?k = "rn_id (m ! i)" and ?p = "probe_path shift (length m) (rn_id (m ! i))"
    have "map_probe m shift ?k = Some i" using assms(1) i False by (simp add: chained_def)
    then obtain n where n: "n < length m" "?p ! n = i" "\<forall>n' < n. rn_used (m ! (?p ! n')) \<and> rn_id (m ! (?p ! n')) \<noteq> ?k"
      unfolding map_probe_Some_iff by blast
    have "\<forall>n' < n. j \<noteq> ?p ! n'" using n(3) assms(3) by blast
    then show ?thesis using n False i unfolding map_probe_Some_iff by (intro exI [of _ n]) simp
  qed
qed

lemma chained_absent:
  assumes "chained shift m" "map_probe m shift k = Some j" "\<not> rn_used (m ! j)" "rn \<in> set m" "rn_used rn"
  shows "rn_id rn \<noteq> k"
  using assms by (auto simp: chained_def in_set_conv_nth)

lemma distinct_filterI:
  "(\<And>i j. i < j \<Longrightarrow> j < length xs \<Longrightarrow> p (xs ! i) \<Longrightarrow> p (xs ! j) \<Longrightarrow> f (xs ! i) \<noteq> f (xs ! j)) \<Longrightarrow>
   distinct (map f (filter p xs))"
proof (induction xs)
  case (Cons x xs)
  have "distinct (map f (filter p xs))"
    using Cons.prems [of "Suc _" "Suc _"] by (intro Cons.IH) auto
  moreover have "p x \<Longrightarrow> f x \<notin> f ` set (filter p xs)"
    using Cons.prems [of 0 "Suc _"] by (fastforce simp: in_set_conv_nth)
  ultimately show ?case by simp
qed simp

lemma chained_distinct: "chained shift m \<Longrightarrow> distinct (map rn_id (filter rn_used m))"
  by (rule distinct_filterI) (metis chained_def less_trans nat_neq_iff option.inject)

lemma free_entry: "length (filter p xs) < length xs \<Longrightarrow> \<exists>j < length xs. \<not> p (xs ! j)"
  using filter_id_conv [of p xs] by (metis in_set_conv_nth nat_less_le)

lemma grow_put_ok:
  assumes len: "length nm = 2 ^ b" and ch: "chained shift nm" and room: "length (filter rn_used nm) < length nm"
    and new: "\<And>e. e \<in> set nm \<Longrightarrow> rn_used e \<Longrightarrow> rn_used rn \<Longrightarrow> rn_id e \<noteq> rn_id rn"
  shows "length (grow_put shift nm rn) = length nm \<and> chained shift (grow_put shift nm rn) \<and>
    mset (filter rn_used (grow_put shift nm rn)) = mset (filter rn_used [rn]) + mset (filter rn_used nm)"
proof (cases "rn_used rn")
  case False
  then show ?thesis using ch by (simp add: grow_put_def)
next
  case True
  let ?p = "probe_path shift (length nm) (rn_id rn)"
  have in_nm: "j \<in> set ?p \<Longrightarrow> nm ! j \<in> set nm" for j using set_probe_path [OF len] len by simp
  have "find (\<lambda>j. \<not> rn_used (nm ! j)) ?p = map_probe nm shift (rn_id rn)"
    unfolding map_probe_def by (rule find_cong) (use new in_nm True in auto)
  moreover obtain j where j: "map_probe nm shift (rn_id rn) = Some j"
    using map_probe_free [OF _ _ len] free_entry [OF room] by blast
  ultimately have g: "grow_put shift nm rn = nm[j := rn]" using True by (simp add: grow_put_def)
  have jl: "j < length nm" "\<not> rn_used (nm ! j) \<or> rn_id (nm ! j) = rn_id rn" using map_probe_Some [OF j len] by simp_all
  then have free: "\<not> rn_used (nm ! j)" using new True nth_mem by blast
  then show ?thesis
    using chained_insert [OF ch j free _ len, of rn] mset_filter_update [OF jl(1), of rn_used] True
    by (auto simp: g)
qed

lemma grow_fold:
  assumes "length nm = 2 ^ b" "chained shift nm" "length (filter rn_used nm) + length m \<le> length nm"
    and "distinct (map rn_id (filter rn_used nm @ filter rn_used m))"
  shows "length (foldl (grow_put shift) nm m) = length nm \<and> chained shift (foldl (grow_put shift) nm m) \<and>
    mset (filter rn_used (foldl (grow_put shift) nm m)) = mset (filter rn_used nm) + mset (filter rn_used m)"
  using assms
proof (induction m arbitrary: nm)
  case (Cons rn m)
  let ?g = "grow_put shift nm rn"
  have g: "length ?g = length nm \<and> chained shift ?g \<and>
      mset (filter rn_used ?g) = mset (filter rn_used [rn]) + mset (filter rn_used nm)"
    using Cons.prems by (intro grow_put_ok) (auto simp: rev_image_eqI split: if_splits)
  then have sz: "length (filter rn_used ?g) = length (filter rn_used [rn]) + length (filter rn_used nm)"
    by (metis size_mset size_union)
  have "mset (map rn_id (filter rn_used ?g @ filter rn_used m)) =
      mset (map rn_id (filter rn_used nm @ filter rn_used (rn # m)))"
    using g by (simp add: mset_map)
  then have "distinct (map rn_id (filter rn_used ?g @ filter rn_used m))"
    using Cons.prems(4) mset_eq_imp_distinct_iff by blast
  then have "length (foldl (grow_put shift) ?g m) = length ?g \<and> chained shift (foldl (grow_put shift) ?g m) \<and>
      mset (filter rn_used (foldl (grow_put shift) ?g m)) = mset (filter rn_used ?g) + mset (filter rn_used m)"
    using g sz Cons.prems by (intro Cons.IH) (auto split: if_splits)
  then show ?case using g by (simp add: ac_simps)
qed simp

lemma map_grow_ok:
  assumes ly: "table_ok ly" and ch: "chained (ly_map_shift ly) (ly_map ly)"
  shows "table_ok (map_grow ly) \<and> chained (ly_map_shift (map_grow ly)) (ly_map (map_grow ly)) \<and>
    used_entries (map_grow ly) = used_entries ly \<and> length (ly_map (map_grow ly)) = 2 * length (ly_map ly)"
proof -
  obtain b where b: "length (ly_map ly) = 2 ^ b" using ly by (auto simp: table_ok_def)
  let ?nm = "replicate (length (ly_map ly) * 2) zero_rnode" and ?s = "ly_map_shift ly + 1"
  have none: "filter rn_used ?nm = []" by (simp add: zero_rnode_def)
  have "chained ?s ?nm" by (simp add: chained_def zero_rnode_def)
  then have G: "length (foldl (grow_put ?s) ?nm (ly_map ly)) = length ?nm \<and> chained ?s (foldl (grow_put ?s) ?nm (ly_map ly)) \<and>
      mset (filter rn_used (foldl (grow_put ?s) ?nm (ly_map ly))) = mset (filter rn_used ?nm) + mset (filter rn_used (ly_map ly))"
    using b chained_distinct [OF ch] none by (intro grow_fold [where b = "Suc b"]) simp_all
  have m: "ly_map (map_grow ly) = foldl (grow_put ?s) ?nm (ly_map ly)" "ly_map_shift (map_grow ly) = ?s"
    "ly_map_used (map_grow ly) = ly_map_used ly"
    by (simp_all add: map_grow_def Let_def)
  have u: "used_entries (map_grow ly) = used_entries ly" using G none by (simp add: used_entries_def m)
  moreover have "length (ly_map (map_grow ly)) = 2 ^ Suc b" using G b by (simp add: m)
  moreover from calculation have "table_ok (map_grow ly)" using ly m(3) unfolding table_ok_def by metis
  ultimately show ?thesis using G b by (simp add: m)
qed

lemma size_used: "size (used_entries ly) = length (filter rn_used (ly_map ly))"
  unfolding used_entries_def by (rule size_mset)

text \<open>Whether the table can take \<open>n\<close> more nodes without growing, or has all its entries in reach.\<close>

definition ready_for :: "nat \<Rightarrow> scene_layer \<Rightarrow> bool" where
  "ready_for n ly \<longleftrightarrow> (ly_map_used ly + n) * 10 < length (ly_map ly) * 7 + 10 \<or>
     chained (ly_map_shift ly) (ly_map ly)"

definition same_layer :: "scene_layer \<Rightarrow> scene_layer \<Rightarrow> bool" where
  "same_layer ly ly' \<longleftrightarrow> ly_sv ly' = ly_sv ly \<and> ly_ref ly' = ly_ref ly \<and> ly_dead ly' = ly_dead ly \<and>
     ly_tex_ents ly' = ly_tex_ents ly \<and> ly_rendered_seq ly' = ly_rendered_seq ly"

lemma map_insert_ok:
  assumes ly: "table_ok ly" and r: "ready_for (Suc n) ly" and f: "map_find ly k = None"
  shows "\<exists>j ly'. map_insert ly k = (Some j, ly') \<and> j < length (ly_map ly') \<and>
    ly_map ly' ! j = zero_rnode\<lparr>rn_id := k, rn_used := True\<rparr> \<and>
    used_entries ly' = add_mset (ly_map ly' ! j) (used_entries ly) \<and> table_ok ly' \<and> ready_for n ly' \<and>
    same_layer ly ly' \<and> ly_anims ly' = ly_anims ly \<and> ly_anim_used ly' = ly_anim_used ly"
proof -
  define l where "l = (if ly_map_used ly * 10 \<ge> length (ly_map ly) * 7 then map_grow ly else ly)"
  let ?e = "zero_rnode\<lparr>rn_id := k, rn_used := True\<rparr>"
  have ch: "chained (ly_map_shift ly) (ly_map ly)" if "ly_map_used ly * 10 \<ge> length (ly_map ly) * 7"
    using r that by (simp add: ready_for_def)
  have l: "table_ok l" "used_entries l = used_entries ly" "ly_map_used l = ly_map_used ly"
    "same_layer ly l" "ly_anims l = ly_anims ly" "ly_anim_used l = ly_anim_used ly"
    using map_grow_ok [OF ly ch] ly by (auto simp: l_def same_layer_def map_grow_def Let_def)
  obtain b where b: "length (ly_map l) = 2 ^ b" using l(1) by (auto simp: table_ok_def)
  have size: "length (filter rn_used (ly_map ly)) = ly_map_used ly"
    using ly by (simp add: table_ok_def size_used)
  have "ly_map_used l < length (ly_map l)"
  proof (cases "ly_map_used ly * 10 \<ge> length (ly_map ly) * 7")
    case True
    then have "length (ly_map l) = 2 * length (ly_map ly)" using map_grow_ok [OF ly ch] by (simp add: l_def)
    moreover have "length (ly_map ly) > 0" using ly by (auto simp: table_ok_def)
    ultimately show ?thesis using size length_filter_le [of rn_used "ly_map ly"] l(3) by linarith
  next
    case False
    then show ?thesis using l(3) by (simp add: l_def)
  qed
  then have "length (filter rn_used (ly_map l)) < length (ly_map l)"
    using l(1) by (simp add: table_ok_def size_used)
  then obtain j where j: "map_probe (ly_map l) (ly_map_shift l) k = Some j"
    using free_entry map_probe_free [OF _ _ b] by blast
  note J = map_probe_Some [OF j b]
  have free: "\<not> rn_used (ly_map l ! j)"
  proof (cases "ly_map_used ly * 10 \<ge> length (ly_map ly) * 7")
    case False
    then show ?thesis using f j by (auto simp: l_def map_find_def split: if_splits)
  next
    case True
    obtain b' where b': "length (ly_map ly) = 2 ^ b'" using ly by (auto simp: table_ok_def)
    have absent: "rn_id e \<noteq> k" if mem: "e \<in># used_entries ly" for e
    proof
      assume "rn_id e = k"
      obtain i where i: "i < length (ly_map ly)" "ly_map ly ! i = e" "rn_used e"
        using mem by (auto simp: used_entries_def in_set_conv_nth)
      then have "map_probe (ly_map ly) (ly_map_shift ly) k = Some i"
        using ch [OF True] \<open>rn_id e = k\<close> by (auto simp: chained_def)
      then show False using f i by (simp add: map_find_def)
    qed
    show ?thesis
    proof
      assume u: "rn_used (ly_map l ! j)"
      then have "rn_id (ly_map l ! j) = k" using J by simp
      moreover have "ly_map l ! j \<in># used_entries l" using u J by (simp add: used_entries_def)
      ultimately show False using absent l(2) by simp
    qed
  qed
  let ?ly = "l\<lparr>ly_map := (ly_map l)[j := ?e], ly_map_used := ly_map_used l + 1\<rparr>"
  have ins: "map_insert ly k = (Some j, ?ly)"
    using j free by (simp add: map_insert_def l_def [symmetric] Let_def)
  have u: "used_entries ?ly = add_mset ?e (used_entries ly)"
    using mset_filter_update [of j "ly_map l" rn_used] J free l(2) by (auto simp: used_entries_def)
  have ok: "table_ok ?ly" using l(1) u l(2) b by (auto simp: table_ok_def l(3))
  have "ready_for n ?ly"
  proof (cases "ly_map_used ly * 10 \<ge> length (ly_map ly) * 7 \<or> chained (ly_map_shift ly) (ly_map ly)")
    case True
    then have "chained (ly_map_shift l) (ly_map l)" using map_grow_ok [OF ly ch] ch by (auto simp: l_def)
    then have "chained (ly_map_shift l) ((ly_map l)[j := ?e])"
      using j free b by (intro chained_insert) simp_all
    then show ?thesis by (simp add: ready_for_def)
  next
    case False
    then have "l = ly" by (simp add: l_def)
    then show ?thesis using r False by (simp add: ready_for_def)
  qed
  then show ?thesis using ins J u ok l(4-6) by (intro exI [of _ j] exI [of _ ?ly]) (auto simp: same_layer_def)
qed

subsection \<open>Faces\<close>

record face =
  fc_id :: u32
  fc_role :: u16
  fc_flags :: u8
  fc_style :: u32
  fc_tex :: u32
  fc_sig :: u32
  fc_rect :: rect

definition rn_face :: "scene_rnode \<Rightarrow> face" where
  "rn_face e = \<lparr>fc_id = rn_id e, fc_role = rn_role e, fc_flags = rn_flags e, fc_style = rn_style e,
     fc_tex = rn_tex e, fc_sig = rn_sig e, fc_rect = rn_rect e\<rparr>"

definition sig_of :: "text_slot list \<Rightarrow> u32" where
  "sig_of ts = foldl sig_step 0x811C9DC5 (take 48 ts) XOR of_nat (length ts)"

definition doc_face :: "doc \<Rightarrow> u32 \<Rightarrow> face" where
  "doc_face d k =
     (let n = doc_node d k
      in \<lparr>fc_id = k, fc_role = nd_role n, fc_flags = nd_flags n, fc_style = nd_style n, fc_tex = nd_tex n,
          fc_sig = sig_of (nd_texts n), fc_rect = nd_rect n\<rparr>)"

definition faces :: "doc \<Rightarrow> face list" where
  "faces d = map (doc_face d) (preorder (dc_tree d))"

definition face_shown :: "face \<Rightarrow> bool" where
  "face_shown f = shown (fc_flags f) (fc_rect f)"

text \<open>The model of a layer is that of a document, between frames.\<close>

definition synced :: "scene_layer \<Rightarrow> doc \<Rightarrow> bool" where
  "synced ly d \<longleftrightarrow> table_ok ly \<and> image_mset rn_face (used_entries ly) = mset (faces d) \<and>
     (\<forall>e \<in># used_entries ly. \<not> rn_seen e)"

lemma face_sel [simp]: "fc_id (rn_face e) = rn_id e" "fc_id (doc_face d k) = k" "face_shown (rn_face e) = shown (rn_flags e) (rn_rect e)"
  "fc_rect (rn_face e) = rn_rect e" "fc_flags (rn_face e) = rn_flags e"
  by (simp_all add: rn_face_def doc_face_def Let_def face_shown_def)

lemma map_find_Some:
  assumes "table_ok ly" "map_find ly k = Some j"
  shows "j < length (ly_map ly) \<and> rn_used (ly_map ly ! j) \<and> rn_id (ly_map ly ! j) = k"
proof -
  obtain b where b: "length (ly_map ly) = 2 ^ b" using assms(1) by (auto simp: table_ok_def)
  have "map_probe (ly_map ly) (ly_map_shift ly) k = Some j" "rn_used (ly_map ly ! j)"
    using assms(2) by (auto simp: map_find_def split: option.splits if_splits)
  then show ?thesis using map_probe_Some [OF _ b] by blast
qed

text \<open>Replacing a used entry by a used entry of the same id changes no probe.\<close>

lemma map_probe_update:
  assumes "j < length m" "rn_used (m ! j)" "rn_used y" "rn_id y = rn_id (m ! j)"
  shows "map_probe (m[j := y]) shift k = map_probe m shift k"
proof -
  have "(\<lambda>i. \<not> rn_used (m[j := y] ! i) \<or> rn_id (m[j := y] ! i) = k) = (\<lambda>i. \<not> rn_used (m ! i) \<or> rn_id (m ! i) = k)"
    using assms by (auto simp: fun_eq_iff nth_list_update)
  then show ?thesis by (simp add: map_probe_def)
qed

lemma put_rnode_ok:
  assumes ly: "table_ok ly" and j: "j < length (ly_map ly)" "rn_used (ly_map ly ! j)"
    and y: "rn_used y" "rn_id y = rn_id (ly_map ly ! j)"
  shows "table_ok (put_rnode j y ly) \<and> (ready_for n ly \<longrightarrow> ready_for n (put_rnode j y ly)) \<and>
    (\<exists>R. used_entries ly = add_mset (ly_map ly ! j) R \<and> used_entries (put_rnode j y ly) = add_mset y R)"
proof -
  obtain R where R: "used_entries ly = add_mset (ly_map ly ! j) R" "used_entries (put_rnode j y ly) = add_mset y R"
    using mset_filter_update [OF j(1), of rn_used] j(2) y(1) by (auto simp: used_entries_def put_rnode_def)
  have "table_ok (put_rnode j y ly)"
    using ly R unfolding table_ok_def by (simp add: put_rnode_def)
  moreover have "chained (ly_map_shift ly) ((ly_map ly)[j := y])" if "chained (ly_map_shift ly) (ly_map ly)"
    using that map_probe_update [OF j y] j y unfolding chained_def by (auto simp: nth_list_update)
  ultimately show ?thesis using R by (auto simp: ready_for_def put_rnode_def)
qed

lemma capture_keeps [simp]:
  "rn_face (rn_text_capture s k e) = rn_face e" "rn_used (rn_text_capture s k e) = rn_used e"
  "rn_seen (rn_text_capture s k e) = rn_seen e" "rn_id (rn_text_capture s k e) = rn_id e"
  by (simp_all add: rn_text_capture_def rn_face_def Let_def)

subsection \<open>One node\<close>

text \<open>Transitions do not touch the model.\<close>

definition same_model :: "scene_layer \<Rightarrow> scene_layer \<Rightarrow> bool" where
  "same_model ly ly' \<longleftrightarrow> ly_map ly' = ly_map ly \<and> ly_map_shift ly' = ly_map_shift ly \<and>
     ly_map_used ly' = ly_map_used ly \<and> same_layer ly ly'"

lemma same_layer_refl [simp]: "same_layer ly ly"
  by (simp add: same_layer_def)

lemma same_layer_trans: "same_layer a b \<Longrightarrow> same_layer b c \<Longrightarrow> same_layer a c"
  by (simp add: same_layer_def)

lemma same_model_refl [simp]: "same_model ly ly"
  by (simp add: same_model_def)

lemma same_model_trans: "same_model a b \<Longrightarrow> same_model b c \<Longrightarrow> same_model a c"
  by (simp add: same_model_def same_layer_def)

lemma same_model_facts:
  assumes "same_model ly ly'"
  shows "table_ok ly' = table_ok ly" "ready_for n ly' = ready_for n ly" "used_entries ly' = used_entries ly"
  using assms by (simp_all add: same_model_def table_ok_def ready_for_def used_entries_def)

lemma anim_free_model [simp]:
  "same_model ly (anim_free i ly') = same_model ly ly'" "same_model (anim_free i ly) ly' = same_model ly ly'"
  "same_model ly (set_base i r ly') = same_model ly ly'"
  by (simp_all add: same_model_def same_layer_def anim_free_def set_base_def)

lemma anim_alloc_model:
  "anim_alloc cp ly k kind = (x, cp', ly') \<Longrightarrow> same_model ly ly' \<and> cp_effects_on cp' = cp_effects_on cp"
  by (auto simp: anim_alloc_def Let_def same_model_def same_layer_def anim_free_def damage_add_def
      split: option.splits if_splits)

lemma diff_anim_model:
  "diff_anim k v (cp, ly) = (cp', ly') \<Longrightarrow> same_model ly ly' \<and> cp_effects_on cp' = cp_effects_on cp \<and>
     (\<not> cp_effects_on cp \<longrightarrow> cp' = cp)"
proof -
  assume d: "diff_anim k v (cp, ly) = (cp', ly')"
  show ?thesis using d
    by (auto simp: diff_anim_def Let_def split: option.splits if_splits prod.splits
        dest!: anim_alloc_model)
qed

definition vis_face :: "scene_store \<Rightarrow> u32 \<Rightarrow> scene_node_vis \<Rightarrow> face" where
  "vis_face s k v = \<lparr>fc_id = k, fc_role = nv_role v, fc_flags = nv_flags v, fc_style = nv_style v,
     fc_tex = nv_tex v, fc_sig = text_sig s k, fc_rect = nv_rect v\<rparr>"

text \<open>The damage of a new face and of a changed one.\<close>

definition new_damage :: "face \<Rightarrow> rect list \<Rightarrow> rect list" where
  "new_damage f rs = (if visible (fc_flags f) then rectlist_add 32 rs (fc_rect f) else rs)"

definition change_damage :: "face \<Rightarrow> face \<Rightarrow> rect list \<Rightarrow> rect list" where
  "change_damage f g rs =
     (if f = g then rs
      else if face_shown f then
        (if face_shown g \<and> fc_rect f = fc_rect g then rectlist_add 32 rs (fc_rect g)
         else
           let rs1 = rectlist_add 32 rs (fc_rect f)
           in if face_shown g then rectlist_add 32 rs1 (fc_rect g) else rs1)
      else if face_shown g then rectlist_add 32 rs (fc_rect g) else rs)"

lemma notify_fields [simp]:
  "cp_effects_on (notify_fire i s k cp) = cp_effects_on cp" "cp_damage (notify_fire i s k cp) = cp_damage cp"
  by (simp_all add: notify_fire_def Let_def)

lemma damage_add_fields [simp]:
  "cp_effects_on (damage_add r cp) = cp_effects_on cp" "cp_damage (damage_add r cp) = rectlist_add 32 (cp_damage cp) r"
  by (simp_all add: damage_add_def)

lemma diff_new_step:
  assumes ly: "table_ok ly" and r: "ready_for (Suc n) ly" and f: "map_find ly k = None"
    and d: "diff_new i k v (cp, ly) = (cp', ly')"
  shows "table_ok ly' \<and> ready_for n ly' \<and> same_layer ly ly' \<and> cp_effects_on cp' = cp_effects_on cp \<and>
    (\<exists>y. rn_face y = vis_face (ly_store ly) k v \<and> rn_seen y \<and> used_entries ly' = add_mset y (used_entries ly)) \<and>
    (\<not> cp_effects_on cp \<longrightarrow> cp_damage cp' = new_damage (vis_face (ly_store ly) k v) (cp_damage cp))"
proof -
  obtain j l where I: "map_insert ly k = (Some j, l)" "j < length (ly_map l)"
    "ly_map l ! j = zero_rnode\<lparr>rn_id := k, rn_used := True\<rparr>"
    "used_entries l = add_mset (ly_map l ! j) (used_entries ly)" "table_ok l" "ready_for n l" "same_layer ly l"
    using map_insert_ok [OF ly r f] by blast
  let ?s = "ly_store l"
  define y where "y = rn_text_capture ?s k ((ly_map l ! j)\<lparr>rn_seen := True, rn_role := nv_role v,
      rn_flags := nv_flags v, rn_style := nv_style v, rn_tex := nv_tex v, rn_blend := nv_blend v,
      rn_opacity := nv_opacity v, rn_sig := text_sig ?s k, rn_rect := nv_rect v\<rparr>)"
  define l1 where "l1 = put_rnode j y l"
  define cp1 where "cp1 = (if nv_role v = ROLE_CODE_NOTIFICATION then notify_fire i ?s k cp else cp)"
  have s: "?s = ly_store ly" using I(7) by (simp add: same_layer_def)
  have y: "rn_face y = vis_face (ly_store ly) k v" "rn_seen y" "rn_used y" "rn_id y = rn_id (ly_map l ! j)"
    using I(3) by (simp_all add: y_def s vis_face_def) (simp add: rn_face_def)
  have P: "table_ok l1" "ready_for n l1" "used_entries l1 = add_mset y (used_entries ly)"
    using put_rnode_ok [OF I(5,2) _ y(3,4), of n] I(3,4,6) unfolding l1_def by auto
  have sl: "same_layer ly l1" using I(7) by (simp add: l1_def put_rnode_def same_layer_def)
  have cp1: "cp_effects_on cp1 = cp_effects_on cp" "cp_damage cp1 = cp_damage cp" by (simp_all add: cp1_def)
  have D: "diff_new i k v (cp, ly) =
      (if cp_effects_on cp1 \<and> \<not> anim_replaying l1 \<and> shown (nv_flags v) (nv_rect v) then
         (case anim_alloc cp1 l1 k ANIM_ENTER of
            (None, cp2, ly2) \<Rightarrow> (cp2, ly2) | (Some x, cp2, ly2) \<Rightarrow> (cp2, set_base x (nv_rect v) ly2))
       else if visible (nv_flags v) then (damage_add (nv_rect v) cp1, l1) else (cp1, l1))"
    by (simp only: diff_new_def I(1) prod.case option.case Let_def y_def [symmetric] l1_def [symmetric] cp1_def [symmetric])
  obtain x c2 l2 where al: "anim_alloc cp1 l1 k ANIM_ENTER = (x, c2, l2)" by (metis prod_cases3)
  have "same_model l1 ly' \<and> cp_effects_on cp' = cp_effects_on cp1"
    using d anim_alloc_model [OF al] unfolding D al
    by (auto split: if_splits option.splits)
  moreover have "\<not> cp_effects_on cp \<longrightarrow> cp_damage cp' = new_damage (vis_face (ly_store ly) k v) (cp_damage cp)"
    using d cp1 unfolding D by (auto simp: new_damage_def vis_face_def split: if_splits)
  ultimately show ?thesis
    using same_model_facts [where ly = l1 and ly' = ly'] P y sl cp1 same_layer_trans
    unfolding same_model_def by metis
qed

lemma diff_damage_face:
  "cp_damage (diff_damage rn v cp) =
     (if shown (rn_flags rn) (rn_rect rn) then
        (if shown (nv_flags v) (nv_rect v) \<and> rn_rect rn = nv_rect v then rectlist_add 32 (cp_damage cp) (nv_rect v)
         else
           let rs1 = rectlist_add 32 (cp_damage cp) (rn_rect rn)
           in if shown (nv_flags v) (nv_rect v) then rectlist_add 32 rs1 (nv_rect v) else rs1)
      else if shown (nv_flags v) (nv_rect v) then rectlist_add 32 (cp_damage cp) (nv_rect v) else cp_damage cp)"
  "cp_effects_on (diff_damage rn v cp) = cp_effects_on cp"
  by (simp_all add: diff_damage_def Let_def)

lemma diff_old_step:
  assumes ly: "table_ok ly" and r: "ready_for n ly" and f: "map_find ly k = Some j"
    and d: "diff_old i k v j (cp, ly) = (cp', ly')"
  shows "table_ok ly' \<and> ready_for n ly' \<and> same_layer ly ly' \<and> cp_effects_on cp' = cp_effects_on cp \<and>
    (\<exists>y e R. rn_face y = vis_face (ly_store ly) k v \<and> rn_seen y \<and> rn_id e = k \<and>
       used_entries ly = add_mset e R \<and> used_entries ly' = add_mset y R \<and>
       (\<not> cp_effects_on cp \<longrightarrow> cp_damage cp' = change_damage (rn_face e) (vis_face (ly_store ly) k v) (cp_damage cp)))"
proof -
  let ?s = "ly_store ly" and ?e = "ly_map ly ! j" and ?g = "vis_face (ly_store ly) k v"
  have j: "j < length (ly_map ly)" "rn_used ?e" "rn_id ?e = k" using map_find_Some [OF ly f] by simp_all
  define y1 where "y1 = ?e\<lparr>rn_seen := True, rn_blend := nv_blend v, rn_opacity := nv_opacity v\<rparr>"
  define l1 where "l1 = put_rnode j y1 ly"
  have y1: "rn_used y1" "rn_id y1 = rn_id ?e" "rn_face y1 = rn_face ?e" "rn_seen y1"
    using j by (simp_all add: y1_def) (simp add: rn_face_def)
  have ch: "(rn_role ?e \<noteq> nv_role v \<or> rn_style ?e \<noteq> nv_style v \<or> rn_tex ?e \<noteq> nv_tex v \<or>
      rn_flags ?e \<noteq> nv_flags v \<or> rn_sig ?e \<noteq> text_sig ?s k \<or> rn_rect ?e \<noteq> nv_rect v) \<longleftrightarrow> rn_face ?e \<noteq> ?g"
    using j(3) by (auto simp: rn_face_def vis_face_def)
  note P1 = put_rnode_ok [OF ly j(1,2) y1(1,2), of n, folded l1_def]
  have sl1: "same_layer ly l1" by (simp add: l1_def put_rnode_def same_layer_def)
  show ?thesis
  proof (cases "rn_face ?e = ?g")
    case True
    then have "cp' = cp" "ly' = l1"
      using d ch unfolding diff_old_def by (simp_all add: Let_def y1_def l1_def)
    then show ?thesis
      using P1 r sl1 y1 True j(3) by (auto simp: change_damage_def)
  next
    case False
    obtain c2 l2 where a: "diff_anim k v (cp, l1) = (c2, l2)" by fastforce
    define y2 where "y2 = (if rn_sig y1 \<noteq> text_sig ?s k then rn_text_capture ?s k y1 else y1)"
    define c3 where "c3 = (if rn_sig y1 \<noteq> text_sig ?s k \<and> rn_role y1 = ROLE_CODE_NOTIFICATION then notify_fire i ?s k c2 else c2)"
    define y where "y = y2\<lparr>rn_role := nv_role v, rn_flags := nv_flags v, rn_style := nv_style v,
        rn_tex := nv_tex v, rn_sig := text_sig ?s k, rn_rect := nv_rect v\<rparr>"
    have changed: "\<not> \<not> (rn_role ?e \<noteq> nv_role v \<or> rn_style ?e \<noteq> nv_style v \<or> rn_tex ?e \<noteq> nv_tex v \<or>
        rn_flags ?e \<noteq> nv_flags v \<or> rn_sig ?e \<noteq> text_sig ?s k \<or> rn_rect ?e \<noteq> nv_rect v)"
      using False ch by blast
    have "diff_old i k v j (cp, ly) = (diff_damage y1 v c3, put_rnode j y l2)"
      by (simp only: diff_old_def prod.case Let_def y1_def [symmetric] l1_def [symmetric] if_not_P [OF changed] a
          y2_def [symmetric] c3_def [symmetric] y_def [symmetric])
    then have D: "cp' = diff_damage y1 v c3" "ly' = put_rnode j y l2" using d by simp_all
    have A: "same_model l1 l2" "cp_effects_on c2 = cp_effects_on cp" "\<not> cp_effects_on cp \<longrightarrow> c2 = cp"
      using diff_anim_model [OF a] by blast+
    note S = same_model_facts [OF A(1)]
    have y2: "rn_used y2" "rn_seen y2" "rn_id y2 = k" using y1 j(3) by (simp_all add: y2_def)
    then have y: "rn_used y" "rn_seen y" "rn_id y = k" "rn_face y = ?g"
      by (simp_all add: y_def) (simp add: rn_face_def vis_face_def)
    have l2j: "ly_map l2 ! j = y1" "j < length (ly_map l2)"
      using A(1) j(1) by (simp_all add: same_model_def l1_def put_rnode_def)
    have "table_ok l2" "ready_for n l2" using S P1 r by simp_all
    then have P2: "table_ok ly' \<and> ready_for n ly' \<and>
        (\<exists>R. used_entries l2 = add_mset y1 R \<and> used_entries ly' = add_mset y R)"
      using put_rnode_ok [of l2 j y n] l2j y y1 j(3) unfolding D(2) by simp
    obtain R where R: "used_entries ly = add_mset ?e R" "used_entries l1 = add_mset y1 R" using P1 by blast
    then have "used_entries ly' = add_mset y R" using P2 S(3) by auto
    moreover have "\<not> cp_effects_on cp \<longrightarrow> cp_damage cp' = change_damage (rn_face ?e) ?g (cp_damage cp)"
    proof
      assume "\<not> cp_effects_on cp"
      then have "cp_damage c3 = cp_damage cp" using A(3) by (simp add: c3_def)
      then show "cp_damage cp' = change_damage (rn_face ?e) ?g (cp_damage cp)"
        unfolding D(1) diff_damage_face change_damage_def if_not_P [OF False]
        by (simp add: face_shown_def rn_face_def vis_face_def y1_def)
    qed
    moreover have "cp_effects_on cp' = cp_effects_on cp" using A(2) by (simp add: D(1) diff_damage_face c3_def)
    moreover have "same_layer ly ly'"
      using sl1 A(1) unfolding D(2) by (simp add: same_model_def same_layer_def put_rnode_def)
    ultimately show ?thesis using P2 R(1) y j(3) by blast
  qed
qed

lemma vis_face_doc:
  assumes "displays s d" "k \<in> set_tree (dc_tree d)"
  shows "\<exists>v. scene_store_node_vis s k = Some v \<and> vis_face s k v = doc_face d k"
proof -
  have "set (map snd (rows p t)) = set_tree t" for p :: u32 and t
    by (induction t arbitrary: p) auto
  then have "k \<in> snd ` set (doc_rows d)" using assms(2) by simp
  then obtain p where p: "(p, k) \<in> set (doc_rows d)" by force
  note R = node_vis_row [OF assms(1) p]
  have "text_sig s k = sig_of (nd_texts (doc_node d k))"
    by (simp add: text_sig_def vis_texts_def R(2) sig_of_def)
  then show ?thesis using R(1) by (simp add: vis_face_def vis_of_def doc_face_def Let_def)
qed

subsection \<open>The walk\<close>

lemma ready_Suc: "ready_for (Suc n) ly \<Longrightarrow> ready_for n ly"
  by (auto simp: ready_for_def)

text \<open>One call of the walk's callback: the node's entry is new, or takes the place of one with its id.\<close>

lemma diff_cb_step:
  assumes ly: "table_ok ly" and r: "ready_for (Suc n) ly"
    and d: "displays (ly_store ly) d" "k \<in> set_tree (dc_tree d)"
    and run: "diff_cb i k (cp, ly) = (stop, cp', ly')"
  shows "\<not> stop \<and> table_ok ly' \<and> ready_for n ly' \<and> same_layer ly ly' \<and> cp_effects_on cp' = cp_effects_on cp \<and>
    (\<exists>y. rn_face y = doc_face d k \<and> rn_seen y \<and>
       (used_entries ly' = add_mset y (used_entries ly) \<and>
          (\<not> cp_effects_on cp \<longrightarrow> cp_damage cp' = new_damage (doc_face d k) (cp_damage cp)) \<or>
        (\<exists>e R. rn_id e = k \<and> used_entries ly = add_mset e R \<and> used_entries ly' = add_mset y R \<and>
          (\<not> cp_effects_on cp \<longrightarrow> cp_damage cp' = change_damage (rn_face e) (doc_face d k) (cp_damage cp)))))"
proof -
  obtain v where v: "scene_store_node_vis (ly_store ly) k = Some v" "vis_face (ly_store ly) k v = doc_face d k"
    using vis_face_doc [OF d] by blast
  show ?thesis
  proof (cases "map_find ly k")
    case None
    then have "\<not> stop" "diff_new i k v (cp, ly) = (cp', ly')" using run v(1) by (simp_all add: diff_cb_def)
    then show ?thesis using diff_new_step [OF ly r None, of i v cp cp' ly'] v(2) by auto
  next
    case (Some j)
    then have "\<not> stop" "diff_old i k v j (cp, ly) = (cp', ly')" using run v(1) by (simp_all add: diff_cb_def)
    then show ?thesis using diff_old_step [OF ly ready_Suc [OF r] Some, of i v cp cp' ly'] v(2) by auto
  qed
qed

text \<open>What is known in the middle of a walk that has visited \<open>ks\<close>, from the entries \<open>M\<close>: those not yet
  met are as they were, the others are the visited nodes.\<close>

definition walked :: "doc \<Rightarrow> scene_rnode multiset \<Rightarrow> u32 list \<Rightarrow> scene_layer \<Rightarrow> bool" where
  "walked d M ks ly \<longleftrightarrow>
     (\<exists>L S. used_entries ly = L + S \<and> L \<subseteq># M \<and> (\<forall>e \<in># S. rn_seen e) \<and>
        image_mset rn_face S = mset (map (doc_face d) ks))"

text \<open>And the damage: entries already met and changed, and nodes that are new or changed.\<close>

definition marked :: "doc \<Rightarrow> scene_rnode multiset \<Rightarrow> rect list \<Rightarrow> u32 list \<Rightarrow> scene_layer \<Rightarrow> rect list \<Rightarrow> bool" where
  "marked d M rs0 ks ly rs \<longleftrightarrow> tame_list rs \<and> (\<forall>x y. covered rs0 x y \<longrightarrow> covered rs x y) \<and>
     (\<forall>e x y. e \<in># M - used_entries ly \<longrightarrow> rn_id e \<in> set ks \<and>
        (rn_face e \<noteq> doc_face d (rn_id e) \<longrightarrow> face_shown (rn_face e) \<longrightarrow> in_rect (rn_rect e) x y \<longrightarrow> covered rs x y)) \<and>
     (\<forall>k x y. k \<in> set ks \<longrightarrow> doc_face d k \<notin># image_mset rn_face M \<longrightarrow> face_shown (doc_face d k) \<longrightarrow>
        in_rect (fc_rect (doc_face d k)) x y \<longrightarrow> covered rs x y)"

lemma new_damage_ok:
  assumes "tame_list rs" "tame (fc_rect f)"
  shows "tame_list (new_damage f rs) \<and> (covered rs x y \<longrightarrow> covered (new_damage f rs) x y) \<and>
    (face_shown f \<longrightarrow> in_rect (fc_rect f) x y \<longrightarrow> covered (new_damage f rs) x y)"
  using rectlist_add_ok [OF assms] assms(1)
  by (auto simp: new_damage_def face_shown_def shown_def visible_def)

lemma change_damage_ok:
  assumes "tame_list rs" "tame (fc_rect f)" "tame (fc_rect g)"
  shows "tame_list (change_damage f g rs) \<and> (covered rs x y \<longrightarrow> covered (change_damage f g rs) x y) \<and>
    (f \<noteq> g \<longrightarrow> (face_shown f \<and> in_rect (fc_rect f) x y \<or> face_shown g \<and> in_rect (fc_rect g) x y) \<longrightarrow>
       covered (change_damage f g rs) x y)"
proof -
  note F = rectlist_add_ok [OF assms(1,2)] and G = rectlist_add_ok [OF assms(1,3)]
  note FG = rectlist_add_ok [OF F(1) assms(3)]
  show ?thesis
    using F G FG assms(1)
    by (auto simp: change_damage_def Let_def face_shown_def shown_def)
qed

lemma walk_step:
  assumes ly: "table_ok ly" "ready_for (Suc n) ly"
    and d: "displays (ly_store ly) d" "k \<in> set_tree (dc_tree d)" "k \<notin> set ks"
    and M: "\<forall>e \<in># M. \<not> rn_seen e" and w: "walked d M ks ly"
    and run: "diff_cb i k (cp, ly) = (stop, cp', ly')"
  shows "\<not> stop \<and> table_ok ly' \<and> ready_for n ly' \<and> same_layer ly ly' \<and> cp_effects_on cp' = cp_effects_on cp \<and>
    walked d M (ks @ [k]) ly' \<and>
    (\<not> cp_effects_on cp \<longrightarrow> (\<forall>e \<in># M. tame (rn_rect e)) \<longrightarrow> tame (fc_rect (doc_face d k)) \<longrightarrow>
       marked d M rs0 ks ly (cp_damage cp) \<longrightarrow> marked d M rs0 (ks @ [k]) ly' (cp_damage cp'))"
proof -
  let ?f = "doc_face d k" and ?U = "used_entries ly" and ?U' = "used_entries ly'"
  obtain y where st: "\<not> stop" "table_ok ly'" "ready_for n ly'" "same_layer ly ly'" "cp_effects_on cp' = cp_effects_on cp"
    and y: "rn_face y = ?f" "rn_seen y"
    and step: "?U' = add_mset y ?U \<and> (\<not> cp_effects_on cp \<longrightarrow> cp_damage cp' = new_damage ?f (cp_damage cp)) \<or>
      (\<exists>e R. rn_id e = k \<and> ?U = add_mset e R \<and> ?U' = add_mset y R \<and>
        (\<not> cp_effects_on cp \<longrightarrow> cp_damage cp' = change_damage (rn_face e) ?f (cp_damage cp)))"
    using diff_cb_step [OF ly d(1,2) run] by blast
  obtain L S where W: "?U = L + S" "L \<subseteq># M" "\<forall>e \<in># S. rn_seen e" "image_mset rn_face S = mset (map (doc_face d) ks)"
    using w unfolding walked_def by blast
  have yM: "y \<notin># M" using M y(2) by blast
  have MS: "M - (L' + S') = M - L'" if "\<forall>e \<in># S'. rn_seen e" for L' S'
  proof -
    have "e \<notin># M" if "e \<in># S'" for e using M \<open>\<forall>e \<in># S'. rn_seen e\<close> that by blast
    then have "count (M - (L' + S')) e = count (M - L') e" for e
      by (cases "e \<in># S'") (auto simp: not_in_iff)
    then show ?thesis by (rule multiset_eqI)
  qed
  have Sy: "\<forall>e \<in># add_mset y S. rn_seen e" using W(3) y(2) by simp
  have img: "image_mset rn_face (add_mset y S) = mset (map (doc_face d) (ks @ [k]))" using W(4) y(1) by simp
  from step show ?thesis
  proof
    assume A: "?U' = add_mset y ?U \<and> (\<not> cp_effects_on cp \<longrightarrow> cp_damage cp' = new_damage ?f (cp_damage cp))"
    then have U': "?U' = L + add_mset y S" using W(1) by simp
    have "walked d M (ks @ [k]) ly'" unfolding walked_def using U' W(2) Sy img by blast
    moreover have "M - ?U' = M - ?U" using MS [OF Sy] MS [OF W(3)] U' W(1) by simp
    moreover have "marked d M rs0 (ks @ [k]) ly' (cp_damage cp')"
      if "\<not> cp_effects_on cp" "tame (fc_rect ?f)" "marked d M rs0 ks ly (cp_damage cp)"
      using that A new_damage_ok [of "cp_damage cp" ?f] \<open>M - ?U' = M - ?U\<close> unfolding marked_def by fastforce
    ultimately show ?thesis using st by blast
  next
    assume "\<exists>e R. rn_id e = k \<and> ?U = add_mset e R \<and> ?U' = add_mset y R \<and>
        (\<not> cp_effects_on cp \<longrightarrow> cp_damage cp' = change_damage (rn_face e) ?f (cp_damage cp))"
    then obtain e R where B: "rn_id e = k" "?U = add_mset e R" "?U' = add_mset y R"
      "\<not> cp_effects_on cp \<longrightarrow> cp_damage cp' = change_damage (rn_face e) ?f (cp_damage cp)" by blast
    have "e \<notin># S"
    proof
      assume "e \<in># S"
      then have "rn_face e \<in># mset (map (doc_face d) ks)" using W(4) [symmetric] by simp
      then obtain k' where "k' \<in> set ks" "rn_face e = doc_face d k'" by auto
      then have "rn_id e = k'" by (metis face_sel(1,2))
      then show False using B(1) d(3) \<open>k' \<in> set ks\<close> by simp
    qed
    then have "e \<in># L" using B(2) W(1) by (metis union_iff union_single_eq_member)
    then obtain L1 where L1: "L = add_mset e L1" by (metis insert_DiffM)
    have U': "?U' = L1 + add_mset y S" using B(2,3) W(1) L1 by simp
    have sub: "L1 \<subseteq># M" using W(2) L1 by (metis mset_subset_eq_insertD subset_mset.less_imp_le)
    have "walked d M (ks @ [k]) ly'" unfolding walked_def using U' sub Sy img by blast
    moreover have eM: "e \<in># M" using W(2) \<open>e \<in># L\<close> by (rule mset_subset_eqD)
    moreover have diff: "M - ?U' = add_mset e (M - ?U)"
    proof -
      have "M - ?U' = M - L1" using MS [OF Sy, of L1] unfolding U' .
      moreover have "M - ?U = M - add_mset e L1" using MS [OF W(3), of L] unfolding W(1) by (simp only: L1)
      moreover have "M - L1 = add_mset e (M - add_mset e L1)"
      proof (rule multiset_eqI)
        fix z
        have "count (add_mset e L1) z \<le> count M z" using mset_subset_eq_count [OF W(2), of z] unfolding L1 .
        then show "count (M - L1) z = count (add_mset e (M - add_mset e L1)) z" by (auto split: if_splits)
      qed
      ultimately show ?thesis by simp
    qed
    have "marked d M rs0 (ks @ [k]) ly' (cp_damage cp')"
      if h: "\<not> cp_effects_on cp" "\<forall>e \<in># M. tame (rn_rect e)" "tame (fc_rect ?f)" "marked d M rs0 ks ly (cp_damage cp)"
    proof -
      have te: "tame (fc_rect (rn_face e))" using h(2) eM by simp
      have D: "cp_damage cp' = change_damage (rn_face e) ?f (cp_damage cp)" using B(4) h(1) by simp
      have tl: "tame_list (cp_damage cp)" using h(4) by (simp add: marked_def)
      note C = change_damage_ok [OF tl te h(3), folded D]
      have new: "doc_face d k \<notin># image_mset rn_face M \<Longrightarrow> rn_face e \<noteq> ?f" using eM by (metis image_eqI set_image_mset)
      show ?thesis
        unfolding marked_def diff
        using h(4) C new B(1) unfolding marked_def by (auto simp: face_sel)
    qed
    ultimately show ?thesis using st by blast
  qed
qed

lemma walk_ok:
  assumes "table_ok ly" "ready_for (length ks' + n) ly" "displays (ly_store ly) d"
    and "set ks' \<subseteq> set_tree (dc_tree d)" "distinct (ks @ ks')" "\<forall>e \<in># M. \<not> rn_seen e" "walked d M ks ly"
    and "visit_ids (diff_cb i) ks' (cp, ly) = (cp', ly')"
  shows "table_ok ly' \<and> ready_for n ly' \<and> same_layer ly ly' \<and> cp_effects_on cp' = cp_effects_on cp \<and>
    walked d M (ks @ ks') ly' \<and>
    (\<not> cp_effects_on cp \<longrightarrow> (\<forall>e \<in># M. tame (rn_rect e)) \<longrightarrow> (\<forall>k \<in> set ks'. tame (fc_rect (doc_face d k))) \<longrightarrow>
       marked d M rs0 ks ly (cp_damage cp) \<longrightarrow> marked d M rs0 (ks @ ks') ly' (cp_damage cp'))"
  using assms
proof (induction ks' arbitrary: ks cp ly)
  case (Cons k ks')
  obtain stop c l where run: "diff_cb i k (cp, ly) = (stop, c, l)" by (metis prod_cases3)
  have r: "ready_for (Suc (length ks' + n)) ly" using Cons.prems(2) by simp
  have kd: "k \<in> set_tree (dc_tree d)" "k \<notin> set ks" using Cons.prems(4,5) by auto
  note S = walk_step [OF Cons.prems(1) r Cons.prems(3) kd Cons.prems(6,7) run]
  have rest: "visit_ids (diff_cb i) ks' (c, l) = (cp', ly')" using Cons.prems(8) run S by simp
  have disp: "displays (ly_store l) d" using Cons.prems(3) S by (simp add: same_layer_def)
  have "table_ok ly' \<and> ready_for n ly' \<and> same_layer l ly' \<and> cp_effects_on cp' = cp_effects_on c \<and>
    walked d M ((ks @ [k]) @ ks') ly' \<and>
    (\<not> cp_effects_on c \<longrightarrow> (\<forall>e \<in># M. tame (rn_rect e)) \<longrightarrow> (\<forall>k \<in> set ks'. tame (fc_rect (doc_face d k))) \<longrightarrow>
       marked d M rs0 (ks @ [k]) l (cp_damage c) \<longrightarrow> marked d M rs0 ((ks @ [k]) @ ks') ly' (cp_damage cp'))"
    using S Cons.prems(4-6) disp rest by (intro Cons.IH) auto
  then show ?case using S same_layer_trans [of ly l ly'] by simp
qed simp

subsection \<open>The sweep\<close>

definition swept :: "scene_rnode \<Rightarrow> scene_rnode" where
  "swept e = (if \<not> rn_used e then e
     else if \<not> rn_seen e then e\<lparr>rn_tx_data := None, rn_tx_count := 0, rn_tx_len := 0, rn_used := False\<rparr>
     else e\<lparr>rn_seen := False\<rparr>)"

definition doomed :: "scene_rnode \<Rightarrow> bool" where
  "doomed e \<longleftrightarrow> rn_used e \<and> \<not> rn_seen e"

definition doom_damage :: "scene_rnode \<Rightarrow> rect list \<Rightarrow> rect list" where
  "doom_damage e rs = (if doomed e \<and> shown (rn_flags e) (rn_rect e) then rectlist_add 32 rs (rn_rect e) else rs)"

lemma sweep_gone_ok:
  "sweep_gone rp e (cp, ly) = (cp', ly') \<Longrightarrow> same_model ly ly' \<and> cp_effects_on cp' = cp_effects_on cp \<and>
   (\<not> cp_effects_on cp \<longrightarrow>
      cp_damage cp' = (if shown (rn_flags e) (rn_rect e) then rectlist_add 32 (cp_damage cp) (rn_rect e) else cp_damage cp))"
proof -
  assume s: "sweep_gone rp e (cp, ly) = (cp', ly')"
  obtain x c l where al: "anim_alloc cp ly (rn_id e) ANIM_EXIT = (x, c, l)" by (metis prod_cases3)
  have up: "same_model ly (l\<lparr>ly_anims := as\<rparr>) = same_model ly l" for as by (simp add: same_model_def same_layer_def)
  show ?thesis using s anim_alloc_model [OF al] unfolding sweep_gone_def Let_def prod.case al
    by (auto split: if_splits option.splits simp: up)
qed

lemma sweep_step_ok:
  assumes run: "sweep_step rp (cp, ly) j = (cp', ly')"
  shows "ly_map ly' = (ly_map ly)[j := swept (ly_map ly ! j)] \<and> ly_map_shift ly' = ly_map_shift ly \<and>
    ly_map_used ly' = ly_map_used ly - (if doomed (ly_map ly ! j) then 1 else 0) \<and> same_layer ly ly' \<and>
    cp_effects_on cp' = cp_effects_on cp \<and>
    (\<not> cp_effects_on cp \<longrightarrow> cp_damage cp' = doom_damage (ly_map ly ! j) (cp_damage cp))"
proof -
  obtain c l where g: "sweep_gone rp (ly_map ly ! j) (cp, ly) = (c, l)" by fastforce
  note G = sweep_gone_ok [OF g]
  show ?thesis
    using run G unfolding sweep_step_def Let_def prod.case g swept_def doomed_def doom_damage_def
    by (auto simp: put_rnode_def same_model_def same_layer_def list_update_id split: if_splits)
qed

lemma sweep_fold:
  assumes "n \<le> length (ly_map ly)" "foldl (sweep_step rp) (cp, ly) [0..<n] = (cp', ly')"
  shows "ly_map ly' = map swept (take n (ly_map ly)) @ drop n (ly_map ly) \<and> ly_map_shift ly' = ly_map_shift ly \<and>
    ly_map_used ly' = ly_map_used ly - length (filter doomed (take n (ly_map ly))) \<and> same_layer ly ly' \<and>
    cp_effects_on cp' = cp_effects_on cp \<and>
    (\<not> cp_effects_on cp \<longrightarrow> cp_damage cp' = fold doom_damage (take n (ly_map ly)) (cp_damage cp))"
  using assms
proof (induction n arbitrary: cp' ly')
  case (Suc n)
  obtain c l where run: "foldl (sweep_step rp) (cp, ly) [0..<n] = (c, l)" by fastforce
  note IH = Suc.IH [OF _ run]
  have n: "n < length (ly_map ly)" using Suc.prems(1) by simp
  have step: "sweep_step rp (c, l) n = (cp', ly')" using Suc.prems(2) run by simp
  have m: "ly_map l = map swept (take n (ly_map ly)) @ drop n (ly_map ly)" using IH n by simp
  have at: "ly_map l ! n = ly_map ly ! n" "drop n (ly_map ly) = ly_map ly ! n # drop (Suc n) (ly_map ly)"
    using n m by (simp_all add: nth_append Cons_nth_drop_Suc)
  have up: "(ly_map l)[n := swept (ly_map ly ! n)] = map swept (take (Suc n) (ly_map ly)) @ drop (Suc n) (ly_map ly)"
    using n m at(2) by (simp add: list_update_append take_Suc_conv_app_nth)
  note T = sweep_step_ok [OF step, unfolded at(1)]
  show ?case
    using T IH n up same_layer_trans [of ly l ly'] by (auto simp: take_Suc_conv_app_nth)
qed simp

lemma doom_fold:
  assumes "tame_list rs" "\<forall>e \<in> set es. doomed e \<longrightarrow> tame (rn_rect e)"
  shows "tame_list (fold doom_damage es rs) \<and> (covered rs x y \<longrightarrow> covered (fold doom_damage es rs) x y) \<and>
    (\<forall>e \<in> set es. doomed e \<longrightarrow> shown (rn_flags e) (rn_rect e) \<longrightarrow> in_rect (rn_rect e) x y \<longrightarrow> covered (fold doom_damage es rs) x y)"
  using assms
proof (induction es arbitrary: rs)
  case (Cons e es)
  have e: "tame_list (doom_damage e rs)" "covered rs x y \<longrightarrow> covered (doom_damage e rs) x y"
    "doomed e \<longrightarrow> shown (rn_flags e) (rn_rect e) \<longrightarrow> in_rect (rn_rect e) x y \<longrightarrow> covered (doom_damage e rs) x y"
    using rectlist_add_ok [OF Cons.prems(1), of "rn_rect e"] Cons.prems by (auto simp: doom_damage_def shown_def)
  show ?case using Cons.IH [OF e(1)] Cons.prems(2) e by auto
qed simp

subsection \<open>A layer\<close>

definition tame_faces :: "doc \<Rightarrow> bool" where
  "tame_faces d \<longleftrightarrow> (\<forall>f \<in> set (faces d). tame (fc_rect f))"

text \<open>Every pixel where a face of one document that is not in the other is shown.\<close>

definition shows_change :: "doc \<Rightarrow> doc \<Rightarrow> i32 \<Rightarrow> i32 \<Rightarrow> bool" where
  "shows_change d1 d2 x y \<longleftrightarrow>
     (\<exists>f \<in> (set (faces d1) - set (faces d2)) \<union> (set (faces d2) - set (faces d1)).
        face_shown f \<and> in_rect (fc_rect f) x y)"

lemma displays_distinct: "displays s d \<Longrightarrow> distinct (preorder (dc_tree d))"
proof -
  assume "displays s d"
  then obtain t fs where t: "scene_wf (viewed s) t fs" "d = doc_of (viewed s) t" by (rule viewedE)
  have "distinct (map (\<lambda>c. nd_id (cell (viewed s) c)) (preorder t))"
    using wfD(6) [OF t(1)] ids_inj [OF t(1)] by (simp add: distinct_map)
  then show ?thesis unfolding t(2) preorder_slots .
qed

lemma doomed_used: "mset (filter doomed m) = filter_mset doomed (mset (filter rn_used m))"
  by (induction m) (auto simp: doomed_def)

lemma swept_used: "mset (filter rn_used (map swept m)) = image_mset swept (filter_mset (\<lambda>e. \<not> doomed e) (mset (filter rn_used m)))"
  by (induction m) (auto simp: swept_def doomed_def)

lemma diff_layer_ok:
  assumes sy: "synced ly d1" and disp: "displays (ly_store ly) d2" and r: "ready_for (size (dc_tree d2)) ly"
    and run: "diff_layer i (cp, ly) = (cp', ly')"
  shows "synced ly' d2 \<and> same_layer ly ly' \<and> cp_effects_on cp' = cp_effects_on cp \<and>
    (\<not> cp_effects_on cp \<longrightarrow> tame_list (cp_damage cp) \<longrightarrow> tame_faces d1 \<longrightarrow> tame_faces d2 \<longrightarrow>
       tame_list (cp_damage cp') \<and> (\<forall>x y. covered (cp_damage cp) x y \<or> shows_change d1 d2 x y \<longrightarrow> covered (cp_damage cp') x y))"
proof -
  let ?M = "used_entries ly" and ?ks = "preorder (dc_tree d2)"
  obtain c l where w: "visit_ids (diff_cb i) ?ks (cp, ly) = (c, l)" by fastforce
  have sweep: "map_sweep c l = (cp', ly')" using run w by (simp add: diff_layer_def walk_doc [OF disp])
  have ly: "table_ok ly" "\<forall>e \<in># ?M. \<not> rn_seen e" "image_mset rn_face ?M = mset (faces d1)"
    using sy by (simp_all add: synced_def)
  have start: "walked d2 ?M [] ly" unfolding walked_def by (intro exI [of _ ?M] exI [of _ "{#}"]) simp
  have r': "ready_for (length ?ks + 0) ly" using r by simp
  note W = walk_ok [OF ly(1) r' disp _ _ ly(2) start w, where ?rs0.0 = "cp_damage cp"]
  have W1: "table_ok l" "same_layer ly l" "cp_effects_on c = cp_effects_on cp" "walked d2 ?M ?ks l"
    using W displays_distinct [OF disp] by simp_all
  obtain L S where LS: "used_entries l = L + S" "L \<subseteq># ?M" "\<forall>e \<in># S. rn_seen e" "image_mset rn_face S = mset (faces d2)"
    using W1(4) unfolding walked_def faces_def by blast
  have Lu: "\<forall>e \<in># L. \<not> rn_seen e" using LS(2) ly(2) by (meson mset_subset_eqD)
  have used: "\<forall>e \<in># used_entries l. rn_used e" by (simp add: used_entries_def)
  have fold: "foldl (sweep_step (anim_replaying l)) (c, l) [0..<length (ly_map l)] = (cp', ly')"
    using sweep by (simp add: map_sweep_def)
  note F = sweep_fold [OF le_refl fold, simplified]
  have keep: "filter_mset (\<lambda>e. \<not> doomed e) (used_entries l) = S"
  proof -
    have "filter_mset (\<lambda>e. \<not> doomed e) L = {#}" using Lu used LS(1) by (auto simp: doomed_def filter_mset_eq_conv)
    moreover have "filter_mset (\<lambda>e. \<not> doomed e) S = S" using LS(3) by (auto simp: doomed_def filter_mset_eq_conv)
    ultimately show ?thesis using LS(1) by simp
  qed
  have u': "used_entries ly' = image_mset swept S"
    using F swept_used [of "ly_map l"] keep by (simp add: used_entries_def)
  have S: "rn_face (swept e) = rn_face e \<and> \<not> rn_seen (swept e)" if "e \<in># S" for e
    using that LS(1,3) used by (auto simp: swept_def rn_face_def)
  have "synced ly' d2"
  proof -
    have "image_mset rn_face (used_entries ly') = image_mset rn_face S"
      unfolding u' by (simp add: S image_mset.compositionality cong: image_mset_cong)
    moreover have "\<forall>e \<in># used_entries ly'. \<not> rn_seen e" unfolding u' using S by auto
    moreover have "table_ok ly'"
    proof -
      have "size (filter_mset doomed (used_entries l)) = size (used_entries l) - size S"
        using multiset_partition [of "used_entries l" doomed] keep by (metis add_diff_cancel_right' size_union)
      moreover have "filter_mset doomed (used_entries l) = mset (filter doomed (ly_map l))"
        unfolding used_entries_def by (rule doomed_used [symmetric])
      ultimately have x: "length (filter doomed (ly_map l)) = size (used_entries l) - size S"
        by (metis size_mset)
      have "ly_map_used ly' = ly_map_used l - length (filter doomed (ly_map l))" using F by simp
      then have "ly_map_used ly' = size (used_entries l) - (size (used_entries l) - size S)"
        using W1(1) x by (simp add: table_ok_def)
      moreover have "size S \<le> size (used_entries l)" unfolding LS(1) by simp
      ultimately have "ly_map_used ly' = size (used_entries ly')" unfolding u' size_image_mset by linarith
      then show ?thesis using F W1(1) by (simp add: table_ok_def)
    qed
    ultimately show ?thesis using LS(4) by (simp add: synced_def)
  qed
  moreover have "tame_list (cp_damage cp') \<and> (\<forall>x y. covered (cp_damage cp) x y \<or> shows_change d1 d2 x y \<longrightarrow> covered (cp_damage cp') x y)"
    if h: "\<not> cp_effects_on cp" "tame_list (cp_damage cp)" "tame_faces d1" "tame_faces d2"
  proof -
    have tM: "\<forall>e \<in># ?M. tame (rn_rect e)"
      using h(3) ly(3) unfolding tame_faces_def by (metis face_sel(4) image_eqI set_image_mset set_mset_mset)
    have "marked d2 ?M (cp_damage cp) [] ly (cp_damage cp)" using h(2) by (simp add: marked_def)
    moreover have "\<forall>k \<in> set ?ks. tame (fc_rect (doc_face d2 k))" using h(4) by (simp add: tame_faces_def faces_def)
    ultimately have mk: "marked d2 ?M (cp_damage cp) ?ks l (cp_damage c)"
      using W h(1) tM displays_distinct [OF disp] by simp
    have dmg: "cp_damage cp' = fold doom_damage (ly_map l) (cp_damage c)" using F h(1) W1(3) by simp
    have doomedL: "e \<in># L" if "doomed e" "e \<in> set (ly_map l)" for e
    proof -
      have "e \<in># used_entries l" using that by (simp add: used_entries_def doomed_def)
      then show ?thesis using LS(1,3) that(1) by (auto simp: doomed_def)
    qed
    have "\<forall>e \<in> set (ly_map l). doomed e \<longrightarrow> tame (rn_rect e)" using doomedL tM LS(2) by (meson mset_subset_eqD)
    note D = doom_fold [OF _ this, of "cp_damage c", folded dmg]
    have tl: "tame_list (cp_damage c)" using mk by (simp add: marked_def)
    have old: "covered (cp_damage cp') x y"
      if f: "f \<in> set (faces d1)" "f \<notin> set (faces d2)" "face_shown f" "in_rect (fc_rect f) x y" for f x y
    proof -
      obtain e where e: "e \<in># ?M" "rn_face e = f" using f(1) ly(3) by (metis imageE set_image_mset set_mset_mset)
      show ?thesis
      proof (cases "e \<in># L")
        case True
        then have "e \<in># used_entries l" using LS(1) by simp
        then have "e \<in> set (ly_map l)" "doomed e" using True Lu by (simp_all add: used_entries_def doomed_def)
        then show ?thesis using D [OF tl] f(3,4) e(2) by auto
      next
        case False
        have "e \<notin># S" using ly(2) LS(3) e(1) by blast
        then have "e \<in># ?M - used_entries l" using False e(1) LS(1) by (simp add: in_diff_count not_in_iff)
        then have c: "rn_id e \<in> set ?ks"
          "rn_face e \<noteq> doc_face d2 (rn_id e) \<longrightarrow> face_shown (rn_face e) \<longrightarrow> in_rect (rn_rect e) x y \<longrightarrow> covered (cp_damage c) x y"
          using mk unfolding marked_def by blast+
        have "rn_face e \<noteq> doc_face d2 (rn_id e)" using c(1) f(2) e(2) by (auto simp: faces_def)
        then have "covered (cp_damage c) x y" using c(2) f(3,4) e(2) by (metis face_sel(4))
        then show ?thesis using D [OF tl] by blast
      qed
    qed
    have new: "covered (cp_damage cp') x y"
      if f: "f \<in> set (faces d2)" "f \<notin> set (faces d1)" "face_shown f" "in_rect (fc_rect f) x y" for f x y
    proof -
      obtain k where k: "k \<in> set ?ks" "f = doc_face d2 k" using f(1) by (auto simp: faces_def)
      have "doc_face d2 k \<notin># image_mset rn_face ?M" using f(2) k(2) ly(3) by simp
      then have "covered (cp_damage c) x y" using mk k f(3,4) unfolding marked_def by blast
      then show ?thesis using D [OF tl] by blast
    qed
    have "covered (cp_damage cp) x y \<Longrightarrow> covered (cp_damage cp') x y" for x y
      using mk D [OF tl] unfolding marked_def by blast
    then show ?thesis using D [OF tl] old new unfolding shows_change_def by blast
  qed
  moreover have "same_layer ly ly'" using W1(2) F same_layer_trans by blast
  moreover have "cp_effects_on cp' = cp_effects_on cp" using F W1(3) by simp
  ultimately show ?thesis by blast
qed

end
