(* ===== verification/PaintOk.thy ===== *)
theory PaintOk
  imports Compositor FontOk RenderOk
begin

text \<open>
  What the painter paints, pixel by pixel, without transitions: \<open>picture\<close> gives the colour of a pixel
  from the documents of the layers. Repainting a rectangle gives each of its pixels the colour of the
  picture and leaves all others; repainting everything gives the whole picture.
\<close>

subsection \<open>Clips\<close>

lemma sint_of_int_small:
  assumes "- (2 ^ 31) \<le> k" "k < 2 ^ 31"
  shows "sint (of_int k :: i32) = k"
  using assms by (simp add: sint_sbintrunc' signed_take_bit_int_eq_self)

lemma within_area: "within r x y \<Longrightarrow> has_area r"
  by (simp add: within_def has_area_def)

lemma clip_intersect_within:
  assumes "tame a" "has_area a" "tame b" "has_area b"
  shows "within (clip_intersect a b) x y \<longleftrightarrow> within a x y \<and> within b x y"
    and "has_area (clip_intersect a b) \<Longrightarrow> clip_ok (Some (clip_intersect a b))"
proof -
  define x0 y0 x1 y1 where "x0 = max (sint (rx a)) (sint (rx b))" and "y0 = max (sint (ry a)) (sint (ry b))"
    and "x1 = min (sint (rx a) + sint (rw a)) (sint (rx b) + sint (rw b))"
    and "y1 = min (sint (ry a) + sint (rh a)) (sint (ry b) + sint (rh b))"
  note E = x0_def y0_def x1_def y1_def
  have bnd: "- 1073741824 \<le> x0" "x0 < 1073741824" "- 1073741824 \<le> x1" "x1 < 1073741824"
    "- 1073741824 \<le> y0" "y0 < 1073741824" "- 1073741824 \<le> y1" "y1 < 1073741824"
    using assms by (auto simp: tame_def has_area_def E)
  let ?c = "clip_intersect a b"
  have c: "?c = \<lparr>rx = of_int x0, ry = of_int y0, rw = of_int (x1 - x0), rh = of_int (y1 - y0)\<rparr>"
    by (simp add: clip_intersect_def Let_def E)
  have s: "sint (rx ?c) = x0" "sint (ry ?c) = y0" "sint (rw ?c) = x1 - x0" "sint (rh ?c) = y1 - y0"
    unfolding c rect.select_convs by (rule sint_of_int_small; use bnd in simp)+
  show "within ?c x y \<longleftrightarrow> within a x y \<and> within b x y"
    unfolding within_def s E by auto
  show "has_area ?c \<Longrightarrow> clip_ok (Some ?c)"
    using bnd by (simp add: clip_ok_def has_area_def s)
qed

lemma rects_intersect_pixel:
  assumes "tame a" "has_area a" "tame b" "has_area b" "within a x y" "within b x y"
  shows "rects_intersect a b"
  using assms(2,4-6) tame_ends [OF assms(1,2)] tame_ends [OF assms(3,4)]
  by (auto simp: rects_intersect_def within_def Let_def)

lemma within_rect:
  assumes "tame r" "has_area r" "x < 2 ^ 30" "y < 2 ^ 30"
  shows "in_rect r (of_nat x) (of_nat y) \<longleftrightarrow> within r x y"
proof -
  have "sint (of_int (int n) :: i32) = int n" if "n < 2 ^ 30" for n
    by (rule sint_of_int_small) (use that in simp_all)
  then show ?thesis using assms tame_ends [OF assms(1,2)] by (auto simp: in_rect_def within_def)
qed

text \<open>A shader under a narrower clip.\<close>

lemma shaded_narrow:
  assumes "shaded (Some c) fb0 F g" "\<And>x y. within c x y \<longleftrightarrow> within a x y \<and> clip_has clip x y"
  shows "shaded clip fb0 F (\<lambda>x y k. if within a x y then g x y k else k)"
proof (rule shadedI)
  fix fb assume fb: "fb_ok fb" "same_size fb0 fb"
  have "drawn fb (F fb) (\<lambda>x y k. if clip_has (Some c) x y then g x y k else k)" using assms(1) fb by (simp add: shaded_def)
  then show "drawn fb (F fb) (\<lambda>x y k. if clip_has clip x y then if within a x y then g x y k else k else k)"
    by (rule drawn_cong) (simp add: clip_has_def [of "Some c"] assms(2))
qed

subsection \<open>Nodes\<close>

definition style_px :: "rect \<Rightarrow> scene_style \<Rightarrow> u32 \<Rightarrow> nat \<Rightarrow> nat \<Rightarrow> u32 \<Rightarrow> u32" where
  "style_px rc st alpha x y c =
     (let bw = border_of st
      in if sy_radius st > 0 then
           chrome_round_px rc (sy_radius st) bw (sy_fill st) (if bw \<noteq> 0 then sy_border st else sy_fill st) alpha x y c
         else
           let c1 = (if sy_fill st \<noteq> 0 \<and> within rc x y then tint (sy_fill st) alpha c else c)
           in if bw \<noteq> 0 then stroke_px rc (sy_border st) bw alpha x y c1 else c1)"

definition chrome_node_px :: "rect \<Rightarrow> scene_style \<Rightarrow> u32 \<Rightarrow> nat \<Rightarrow> nat \<Rightarrow> u32 \<Rightarrow> u32" where
  "chrome_node_px rc st alpha x y c =
     (if sy_fill st \<noteq> 0 \<or> sy_border_w st \<noteq> 0 \<and> sy_border st \<noteq> 0 then style_px rc st alpha x y c else c)"

lemma shaded_unless:
  "(\<not> P \<Longrightarrow> shaded clip fb0 F g) \<Longrightarrow> shaded clip fb0 (\<lambda>fb. if P then fb else F fb) (\<lambda>x y c. if P then c else g x y c)"
  using shaded_id by (cases P) simp_all

lemma style_chrome_shaded:
  assumes "clip_ok clip"
  shows "shaded clip fb0 (style_chrome rc st alpha clip) (style_px rc st alpha)"
proof (cases "sy_radius st > 0")
  case True
  then show ?thesis
    using shaderD [OF chrome_round_shader assms] by (simp add: style_chrome_def [abs_def] style_px_def [abs_def] Let_def)
next
  case False
  let ?fill = "\<lambda>fb. if sy_fill st \<noteq> 0 then scene_fb_fill_a fb rc (sy_fill st) alpha clip else fb"
  let ?c1 = "\<lambda>x y c. if sy_fill st \<noteq> 0 then if within rc x y then tint (sy_fill st) alpha c else c else c"
  let ?stroke = "\<lambda>fb. if border_of st \<noteq> 0 then scene_fb_stroke_a fb rc (sy_border st) (border_of st) alpha clip else fb"
  have "shaded clip fb0 ?fill ?c1"
    by (rule shaded_const_if) (rule shaderD [OF fill_a_shader assms])
  moreover have "shaded clip fb0 ?stroke (\<lambda>x y c. if border_of st \<noteq> 0 then stroke_px rc (sy_border st) (border_of st) alpha x y c else c)"
    by (rule shaded_const_if) (rule shaderD [OF stroke_a_shader assms])
  ultimately have "shaded clip fb0 (\<lambda>fb. ?stroke (?fill fb))
      (\<lambda>x y c. if border_of st \<noteq> 0 then stroke_px rc (sy_border st) (border_of st) alpha x y (?c1 x y c) else ?c1 x y c)"
    by (rule shaded_comp)
  moreover have "style_chrome rc st alpha clip = (\<lambda>fb. ?stroke (?fill fb))"
    using False by (simp add: style_chrome_def Let_def fun_eq_iff)
  moreover have "style_px rc st alpha =
      (\<lambda>x y c. if border_of st \<noteq> 0 then stroke_px rc (sy_border st) (border_of st) alpha x y (?c1 x y c) else ?c1 x y c)"
    using False by (auto simp: style_px_def Let_def fun_eq_iff)
  ultimately show ?thesis by simp
qed

lemma paint_chrome_shaded:
  assumes "clip_ok clip"
  shows "shaded clip fb0 (paint_chrome rc st alpha clip) (chrome_node_px rc st alpha)"
  unfolding paint_chrome_def chrome_node_px_def
  by (rule shaded_const_if) (rule style_chrome_shaded [OF assms])

definition texture_px :: "scene_layer \<Rightarrow> u32 \<Rightarrow> rect \<Rightarrow> rect \<Rightarrow> u8 \<Rightarrow> u32 \<Rightarrow> nat \<Rightarrow> nat \<Rightarrow> u32 \<Rightarrow> u32" where
  "texture_px ly tex src rc opacity eff =
     (if tex = SCENE_NO_TEXTURE then (\<lambda>_ _ c. c)
      else case tex_find ly tex of
             None \<Rightarrow> (\<lambda>_ _ c. c)
           | Some k \<Rightarrow>
               let te = ly_tex_ents ly ! k
               in blit_px (rx rc) (ry rc) (case cx_px te of None \<Rightarrow> [] | Some px \<Rightarrow> px) (cx_w te) (cx_h te) src
                    (ucast (ucast opacity * eff div 255)) (ucast (cx_fmt te)))"

lemma paint_texture_shaded:
  assumes "clip_ok clip"
  shows "shaded clip fb0 (paint_texture ly tex (Some src) rc opacity eff clip) (texture_px ly tex src rc opacity eff)"
proof (cases "tex = SCENE_NO_TEXTURE \<or> tex_find ly tex = None")
  case True
  then show ?thesis using shaded_id by (auto simp: paint_texture_def [abs_def] texture_px_def)
next
  case False
  then obtain k where "tex_find ly tex = Some k" by auto
  then show ?thesis using False shaderD [OF blit_shader assms]
    by (simp add: paint_texture_def [abs_def] texture_px_def Let_def)
qed

definition texts_px :: "scene_compositor \<Rightarrow> bytes list \<Rightarrow> i32 \<Rightarrow> i32 \<Rightarrow> u32 \<Rightarrow> u32 \<Rightarrow> nat \<Rightarrow> nat \<Rightarrow> u32 \<Rightarrow> u32" where
  "texts_px cp ts x y color eff x' y' =
     fold (\<lambda>i c. if ts ! i = [] then c
        else case cp_fc_glyph cp of
               Some look \<Rightarrow> utf8_px look x (y + of_nat i * cp_fc_line_h cp) (ts ! i) color eff x' y' c
             | None \<Rightarrow> text_px x (y + of_nat i * 8) (ts ! i) color eff x' y' c) [0..<length ts]"

lemma paint_texts_shaded:
  assumes "fb_ok fb0" "clip_ok clip"
  shows "shaded clip fb0 (paint_texts cp ts x y color eff clip) (texts_px cp ts x y color eff)"
proof (cases "cp_fc_glyph cp")
  case None
  show ?thesis
    unfolding paint_texts_def paint_bitmap_texts_def texts_px_def None option.case
    by (intro shaded_fold shaded_unless shaderD [OF draw_a_shader assms(2)])
next
  case (Some look)
  show ?thesis
    unfolding paint_texts_def paint_glyph_texts_def texts_px_def Some option.case
    by (intro shaded_fold shaded_unless draw_utf8_shaded assms)
qed

text \<open>A node without a transition: its chrome, its texture, its texts, inside its rectangle. What a node
  looks like depends on its \<open>look\<close>.\<close>

definition look_texts :: "node \<Rightarrow> bytes list" where
  "look_texts n = map ts_data (take 48 (nd_texts n))"

definition node_px :: "scene_compositor \<Rightarrow> scene_layer \<Rightarrow> node \<Rightarrow> nat \<Rightarrow> nat \<Rightarrow> u32 \<Rightarrow> u32" where
  "node_px cp ly n x y c =
     (if visible (nd_flags n) \<and> nd_opacity n \<noteq> 0 \<and> has_area (nd_rect n) \<and> within (nd_rect n) x y then
        let rc = nd_rect n; st = resolve_style cp (nd_role n) (nd_style n)
        in texts_px cp (look_texts n) (rx rc + ucast (sy_pad_x st)) (ry rc + ucast (sy_pad_y st)) (sy_text st) 255 x y
             (texture_px ly (nd_tex n) (nd_tex_src n) rc (nd_opacity n) 255 x y (chrome_node_px rc st 255 x y c))
      else c)"

lemma paint_node_shaded:
  assumes "\<not> cp_effects_on cp" "fb_ok fb0" "tame r" "has_area r" "tame (nd_rect n)"
    and "node_texts (ly_store ly) k = look_texts n"
  shows "shaded (Some r) fb0 (paint_node cp ly (vis_of p k n) r) (node_px cp ly n)"
proof -
  let ?rc = "nd_rect n" and ?st = "resolve_style cp (nd_role n) (nd_style n)"
  let ?c = "clip_intersect ?rc r" and ?F = "paint_node cp ly (vis_of p k n) r"
  have none: "shaded (Some r) fb0 ?F (node_px cp ly n)"
    if "?F = (\<lambda>fb. fb)" "\<And>x y c. within r x y \<Longrightarrow> node_px cp ly n x y c = c"
    unfolding that(1) by (rule shaded_cong [OF shaded_id]) (simp add: that(2) clip_has_def)
  show ?thesis
  proof (cases "visible (nd_flags n) \<and> nd_opacity n \<noteq> 0 \<and> has_area ?rc")
    case False
    then show ?thesis by (intro none) (auto simp: paint_node_def vis_of_def node_px_def fun_eq_iff)
  next
    case vis: True
    note C = clip_intersect_within [OF assms(5) _ assms(3,4)]
    have F: "?F = (\<lambda>fb. if \<not> has_area ?c then fb else
        paint_texts cp (look_texts n) (rx ?rc + ucast (sy_pad_x ?st)) (ry ?rc + ucast (sy_pad_y ?st)) (sy_text ?st) 255 (Some ?c)
          (paint_texture ly (nd_tex n) (Some (nd_tex_src n)) ?rc (nd_opacity n) 255 (Some ?c) (paint_chrome ?rc ?st 255 (Some ?c) fb)))"
      using vis assms(1,6) by (simp add: paint_node_def vis_of_def anim_live_geom_def Let_def fun_eq_iff)
    show ?thesis
    proof (cases "has_area ?c")
      case False
      have "\<not> (within ?rc x y \<and> within r x y)" for x y
        using C(1) [of x y] vis False within_area by blast
      then show ?thesis using False by (intro none) (auto simp: F node_px_def)
    next
      case True
      then have ok: "clip_ok (Some ?c)" using C(2) vis by blast
      let ?g = "\<lambda>x y c. texts_px cp (look_texts n) (rx ?rc + ucast (sy_pad_x ?st)) (ry ?rc + ucast (sy_pad_y ?st)) (sy_text ?st) 255 x y
          (texture_px ly (nd_tex n) (nd_tex_src n) ?rc (nd_opacity n) 255 x y (chrome_node_px ?rc ?st 255 x y c))"
      have "shaded (Some ?c) fb0 ?F ?g"
        unfolding F using True
        by (simp, intro shaded_comp [OF shaded_comp [OF paint_chrome_shaded paint_texture_shaded] paint_texts_shaded])
          (use ok assms(2) in simp_all)
      then have "shaded (Some r) fb0 ?F (\<lambda>x y c. if within ?rc x y then ?g x y c else c)"
        by (rule shaded_narrow) (use C(1) vis in \<open>simp add: clip_has_def\<close>)
      moreover have "(\<lambda>x y c. if within ?rc x y then ?g x y c else c) = node_px cp ly n"
        using vis by (simp add: node_px_def Let_def fun_eq_iff)
      ultimately show ?thesis by simp
    qed
  qed
qed

text \<open>The callback of the walk.\<close>

lemma paint_cb_shaded:
  assumes "\<not> cp_effects_on cp" "fb_ok fb0" "tame r" "has_area r" "tame_faces d"
    and "displays (ly_store ly) d" "k \<in> set (preorder (dc_tree d))"
  shows "shaded (Some r) fb0 (\<lambda>fb. snd (paint_cb cp ly r k fb)) (node_px cp ly (doc_node d k))"
proof -
  let ?n = "doc_node d k"
  have "k \<in> snd ` set (doc_rows d)"
    using assms(7) by (metis map_snd_rows set_map)
  then obtain p where p: "(p, k) \<in> set (doc_rows d)" by force
  note R = node_vis_row [OF assms(6) p]
  have tame: "tame (nd_rect ?n)"
    using assms(5,7) by (auto simp: tame_faces_def faces_def doc_face_def Let_def)
  have texts: "node_texts (ly_store ly) k = look_texts ?n"
    by (simp add: node_texts_def vis_texts_def R(2) look_texts_def)
  let ?go = "visible (nd_flags ?n) \<and> nd_opacity ?n \<noteq> 0 \<and> has_area (nd_rect ?n) \<and> rects_intersect (nd_rect ?n) r"
  have F: "(\<lambda>fb. snd (paint_cb cp ly r k fb)) = (\<lambda>fb. if \<not> ?go then fb else paint_node cp ly (vis_of p k ?n) r fb)"
    using assms(1) by (auto simp: paint_cb_def R(1) anim_live_geom_def fun_eq_iff) (auto simp: vis_of_def)
  show ?thesis
  proof (cases ?go)
    case True
    then show ?thesis using paint_node_shaded [OF assms(1-4) tame texts, of p] by (simp add: F)
  next
    case False
    have "node_px cp ly ?n x y c = c" if "within r x y" for x y c
      using False rects_intersect_pixel [OF tame _ assms(3,4) _ that] by (auto simp: node_px_def)
    then have "shaded (Some r) fb0 (\<lambda>fb. fb) (node_px cp ly ?n)"
      by (intro shaded_cong [OF shaded_id]) (simp add: clip_has_def)
    then show ?thesis using False by (simp add: F)
  qed
qed

subsection \<open>Documents\<close>

definition doc_px :: "scene_compositor \<Rightarrow> scene_layer \<Rightarrow> doc \<Rightarrow> nat \<Rightarrow> nat \<Rightarrow> u32 \<Rightarrow> u32" where
  "doc_px cp ly d x y = fold (\<lambda>k. node_px cp ly (doc_node d k) x y) (preorder (dc_tree d))"

lemma visit_all: "(\<And>k x. fst (cb k x) = False) \<Longrightarrow> visit_ids cb ks x = fold (\<lambda>k x. snd (cb k x)) ks x"
  by (induction ks arbitrary: x) (simp_all add: split_beta)

lemma repaint_layer_shaded:
  assumes "\<not> cp_effects_on cp" "fb_ok fb0" "tame r" "has_area r"
    and "\<not> (cp_locked cp \<and> i > 0 \<or> ly_dead (cp_ly cp ! i)) \<Longrightarrow> tame_faces d \<and> displays (ly_store (cp_ly cp ! i)) d"
  shows "shaded (Some r) fb0 (repaint_layer cp r i)
    (\<lambda>x y c. if cp_locked cp \<and> i > 0 \<or> ly_dead (cp_ly cp ! i) then c else doc_px cp (cp_ly cp ! i) d x y c)"
  unfolding repaint_layer_def Let_def
proof (rule shaded_unless)
  assume "\<not> (cp_locked cp \<and> i > 0 \<or> ly_dead (cp_ly cp ! i))"
  then have d: "tame_faces d" "displays (ly_store (cp_ly cp ! i)) d" using assms(5) by blast+
  have "shaded (Some r) fb0 (fold (\<lambda>k fb. snd (paint_cb cp (cp_ly cp ! i) r k fb)) (preorder (dc_tree d)))
      (\<lambda>x y c. fold (\<lambda>k. node_px cp (cp_ly cp ! i) (doc_node d k) x y) (preorder (dc_tree d)) c)"
    by (rule shaded_fold) (rule paint_cb_shaded [OF assms(1-4) d])
  moreover have "visit_ids (paint_cb cp (cp_ly cp ! i) r) ks fb = fold (\<lambda>k fb. snd (paint_cb cp (cp_ly cp ! i) r k fb)) ks fb" for ks fb
    by (rule visit_all) (simp add: paint_cb_def)
  ultimately show "shaded (Some r) fb0
      (\<lambda>fb. anim_paint_exits cp (cp_ly cp ! i) r (scene_store_walk (ly_store (cp_ly cp ! i)) (paint_cb cp (cp_ly cp ! i) r) fb))
      (doc_px cp (cp_ly cp ! i) d)"
    using assms(1) by (simp add: anim_paint_exits_def walk_doc [OF d(2)] doc_px_def [abs_def])
qed

subsection \<open>The picture\<close>

definition veiled :: "scene_compositor \<Rightarrow> nat \<Rightarrow> bool" where
  "veiled cp i \<longleftrightarrow> cp_locked cp \<and> i > 0 \<or> ly_dead (cp_ly cp ! i)"

definition picture :: "scene_compositor \<Rightarrow> (nat \<Rightarrow> doc) \<Rightarrow> nat \<Rightarrow> nat \<Rightarrow> u32" where
  "picture cp ds x y =
     fold (\<lambda>i c. if veiled cp i then c else doc_px cp (cp_ly cp ! i) (ds i) x y c) [0..<length (cp_ly cp)] (cp_clear cp)"

definition showing :: "scene_compositor \<Rightarrow> (nat \<Rightarrow> doc) \<Rightarrow> bool" where
  "showing cp ds \<longleftrightarrow> \<not> cp_effects_on cp \<and>
     (\<forall>i < length (cp_ly cp). \<not> veiled cp i \<longrightarrow> tame_faces (ds i) \<and> displays (ly_store (cp_ly cp ! i)) (ds i))"

lemma layers_shaded:
  assumes "showing cp ds" "fb_ok fb0" "tame r" "has_area r"
  shows "shaded (Some r) fb0 (fold (repaint_layer cp r) [0..<length (cp_ly cp)])
    (\<lambda>x y c. fold (\<lambda>i c. if veiled cp i then c else doc_px cp (cp_ly cp ! i) (ds i) x y c) [0..<length (cp_ly cp)] c)"
  by (rule shaded_fold, unfold veiled_def, rule repaint_layer_shaded)
    (use assms in \<open>auto simp: showing_def veiled_def\<close>)

lemma repaint_rect_drawn:
  assumes "showing cp ds" "fb_ok fb" "tame r" "has_area r"
  shows "drawn fb (repaint_rect cp r fb) (\<lambda>x y c. if within r x y then picture cp ds x y else c)"
proof -
  let ?fill = "scene_fb_fill fb r (cp_clear cp) None"
  have F: "drawn fb ?fill (\<lambda>x y c. if clip_has None x y then if within r x y then cp_clear cp else c else c)"
    by (rule shader_drawn [OF fill_shader]) (use assms(2) in \<open>simp_all add: clip_ok_def\<close>)
  have "fb_ok ?fill" using drawn_ok [OF F] by blast
  then have "drawn ?fill (repaint_rect cp r fb)
      (\<lambda>x y c. if clip_has (Some r) x y then fold (\<lambda>i c. if veiled cp i then c else doc_px cp (cp_ly cp ! i) (ds i) x y c)
         [0..<length (cp_ly cp)] c else c)"
    using layers_shaded [OF assms(1) _ assms(3,4)] same_size_refl unfolding shaded_def repaint_rect_def by blast
  from drawn_cong [OF drawn_trans [OF F this]] show ?thesis
    by (simp add: clip_has_def picture_def)
qed

lemma repaint_rects_drawn:
  assumes "showing cp ds" "fb_ok fb" "\<forall>r \<in> set rs. tame r \<and> has_area r"
  shows "drawn fb (fold (repaint_rect cp) rs fb) (\<lambda>x y c. if \<exists>r \<in> set rs. within r x y then picture cp ds x y else c)"
proof -
  have "drawn fb (fold (repaint_rect cp) rs fb) (\<lambda>x y c. fold (\<lambda>r c. if within r x y then picture cp ds x y else c) rs c)"
    by (rule drawn_fold [OF assms(2) _ same_size_refl]) (use assms in \<open>auto intro: repaint_rect_drawn\<close>)
  moreover have "fold (\<lambda>r c. if within r x y then p else c) rs c = (if \<exists>r \<in> set rs. within r x y then p else c)" for x y p and c :: u32
    by (induction rs arbitrary: c) auto
  ultimately show ?thesis by simp
qed

lemma clear_drawn:
  assumes "fb_ok fb"
  shows "drawn fb (scene_fb_clear fb color) (\<lambda>_ _ _. color)"
proof (cases "fb_px fb = []")
  case True
  then show ?thesis using drawn_empty [OF True assms] by (simp add: scene_fb_clear_def)
next
  case False
  then have "scene_fb_clear fb color = each_px 0 (unat (fb_w fb)) 0 (unat (fb_h fb)) (\<lambda>_ _ _. color) fb"
    by (simp add: scene_fb_clear_def)
  then show ?thesis
    using drawn_cong [OF each_px_drawn [OF assms order_refl order_refl, of 0 0 "\<lambda>_ _ _. color"], of "\<lambda>_ _ _. color"]
    by (simp add: in_fb_def)
qed

text \<open>A framebuffer with pixels.\<close>

definition fb_real :: "scene_fb \<Rightarrow> bool" where
  "fb_real fb \<longleftrightarrow> fb_ok fb \<and> 0 < unat (fb_w fb) \<and> 0 < unat (fb_h fb)"

definition full_rect :: "scene_fb \<Rightarrow> rect" where
  "full_rect fb = \<lparr>rx = 0, ry = 0, rw = fb_w fb, rh = fb_h fb\<rparr>"

lemma sint_small: "n = unat (w :: u32) \<Longrightarrow> n < 2 ^ 30 \<Longrightarrow> sint w = int n"
proof -
  assume n: "n = unat w" "n < 2 ^ 30"
  have "sint (of_int (int n) :: i32) = int n" by (rule sint_of_int_small) (use n(2) in simp_all)
  moreover have "w = of_int (int n)" by (simp add: n(1))
  ultimately show ?thesis by simp
qed

lemma full_rect:
  assumes "fb_real fb"
  shows "tame (full_rect fb)" "has_area (full_rect fb)" "within (full_rect fb) x y \<longleftrightarrow> in_fb fb x y"
proof -
  define W H where "W = unat (fb_w fb)" and "H = unat (fb_h fb)"
  have b: "W < 2 ^ 30" "H < 2 ^ 30" "0 < W" "0 < H" using assms by (simp_all add: fb_real_def fb_ok_def W_def H_def)
  have s: "sint (fb_w fb) = int W" "sint (fb_h fb) = int H" using sint_small W_def H_def b by blast+
  show "tame (full_rect fb)" "has_area (full_rect fb)" using b by (simp_all add: tame_def has_area_def full_rect_def s)
  show "within (full_rect fb) x y \<longleftrightarrow> in_fb fb x y"
    by (simp add: within_def full_rect_def s in_fb_def W_def [symmetric] H_def [symmetric])
qed

lemma repaint_all_drawn:
  assumes "showing cp ds" "fb_real fb"
  shows "drawn fb (repaint_all cp fb) (\<lambda>x y c. picture cp ds x y)"
proof -
  have ok: "fb_ok fb" using assms(2) by (simp add: fb_real_def)
  note C = clear_drawn [OF ok, of "cp_clear cp"]
  have "fb_ok (scene_fb_clear fb (cp_clear cp))" using drawn_ok [OF C] by blast
  then have "drawn (scene_fb_clear fb (cp_clear cp)) (repaint_all cp fb)
      (\<lambda>x y c. if clip_has (Some (full_rect fb)) x y then fold (\<lambda>i c. if veiled cp i then c else doc_px cp (cp_ly cp ! i) (ds i) x y c)
         [0..<length (cp_ly cp)] c else c)"
    using layers_shaded [OF assms(1) _ full_rect(1,2) [OF assms(2)]] same_size_refl
    unfolding shaded_def repaint_all_def full_rect_def by blast
  from drawn_trans [OF C this] show ?thesis
    by (rule drawn_cong) (simp add: clip_has_def full_rect(3) [OF assms(2)] picture_def)
qed

subsection \<open>Where nothing changes\<close>

text \<open>What the diff does not look at: the opacity, the source rectangle, the texts beyond their signature,
  and the order in which the nodes that stay are painted.\<close>

definition stays :: "doc \<Rightarrow> doc \<Rightarrow> u32 \<Rightarrow> bool" where
  "stays d d' k \<longleftrightarrow> k \<in> set_tree (dc_tree d) \<and> k \<in> set_tree (dc_tree d') \<and> doc_face d k = doc_face d' k"

definition look_of :: "doc \<Rightarrow> u32 \<Rightarrow> u8 \<times> rect \<times> bytes list" where
  "look_of d k = (let n = doc_node d k in (nd_opacity n, nd_tex_src n, look_texts n))"

definition faithful :: "doc \<Rightarrow> doc \<Rightarrow> bool" where
  "faithful d1 d2 \<longleftrightarrow>
     filter (stays d1 d2) (preorder (dc_tree d1)) = filter (stays d1 d2) (preorder (dc_tree d2)) \<and>
     (\<forall>k. stays d1 d2 k \<longrightarrow> look_of d1 k = look_of d2 k)"

lemma fold_filter_id: "(\<And>k c. k \<in> set ks \<Longrightarrow> \<not> P k \<Longrightarrow> f k c = c) \<Longrightarrow> fold f ks c = fold f (filter P ks) c"
  by (induction ks arbitrary: c) simp_all

lemma node_px_hidden:
  assumes "\<not> (face_shown (doc_face d k) \<and> within (fc_rect (doc_face d k)) x y)"
  shows "node_px cp ly (doc_node d k) x y c = c"
  using assms by (auto simp: node_px_def face_shown_def shown_def doc_face_def Let_def visible_def)

lemma node_px_look:
  assumes "doc_face d1 k = doc_face d2 k" "look_of d1 k = look_of d2 k"
  shows "node_px cp ly (doc_node d1 k) = node_px cp ly (doc_node d2 k)"
  using assms by (simp add: node_px_def [abs_def] doc_face_def look_of_def Let_def cong: if_cong)

lemma unchanged_px:
  assumes "faithful d1 d2" "tame_faces d1" "tame_faces d2" "x < 2 ^ 30" "y < 2 ^ 30"
    and "\<not> shows_change d1 d2 (of_nat x) (of_nat y)"
  shows "doc_px cp ly d1 x y c = doc_px cp ly d2 x y c"
proof -
  have off: "node_px cp ly (doc_node d k) x y c = c"
    if d: "(d = d1 \<and> d' = d2) \<or> (d = d2 \<and> d' = d1)" and k: "k \<in> set (preorder (dc_tree d))" "\<not> stays d d' k" for d d' k c
  proof (rule node_px_hidden)
    have "doc_face d k \<notin> set (faces d')"
    proof
      assume "doc_face d k \<in> set (faces d')"
      then obtain k' where k': "k' \<in> set (preorder (dc_tree d'))" "doc_face d k = doc_face d' k'" by (auto simp: faces_def)
      then have "k = k'" by (metis face_sel(2))
      then show False using k k' by (simp add: stays_def)
    qed
    moreover have f: "doc_face d k \<in> set (faces d)" using k by (simp add: faces_def)
    ultimately have "\<not> (face_shown (doc_face d k) \<and> in_rect (fc_rect (doc_face d k)) (of_nat x) (of_nat y))"
      using assms(6) d unfolding shows_change_def by blast
    moreover have "tame (fc_rect (doc_face d k))" using f assms(2,3) d by (auto simp: tame_faces_def)
    ultimately show "\<not> (face_shown (doc_face d k) \<and> within (fc_rect (doc_face d k)) x y)"
      using within_rect [OF _ _ assms(4,5)] within_area by blast
  qed
  have sym: "stays d2 d1 = stays d1 d2" by (auto simp: stays_def fun_eq_iff)
  have "doc_px cp ly d1 x y c = fold (\<lambda>k. node_px cp ly (doc_node d1 k) x y) (filter (stays d1 d2) (preorder (dc_tree d1))) c"
    unfolding doc_px_def by (rule fold_filter_id) (use off [of d1 d2] in blast)
  also have "\<dots> = fold (\<lambda>k. node_px cp ly (doc_node d2 k) x y) (filter (stays d1 d2) (preorder (dc_tree d1))) c"
  proof (rule fold_same)
    fix k c assume "k \<in> set (filter (stays d1 d2) (preorder (dc_tree d1)))"
    then have k: "stays d1 d2 k" by simp
    then have "doc_face d1 k = doc_face d2 k" by (simp add: stays_def)
    moreover have "look_of d1 k = look_of d2 k" using k assms(1) by (simp add: faithful_def)
    ultimately have "node_px cp ly (doc_node d1 k) = node_px cp ly (doc_node d2 k)" by (rule node_px_look)
    then show "node_px cp ly (doc_node d1 k) x y c = node_px cp ly (doc_node d2 k) x y c" by (rule arg_cong)
  qed
  also have "\<dots> = fold (\<lambda>k. node_px cp ly (doc_node d2 k) x y) (filter (stays d1 d2) (preorder (dc_tree d2))) c"
    using assms(1) by (simp add: faithful_def)
  also have "\<dots> = doc_px cp ly d2 x y c"
    unfolding doc_px_def by (rule fold_filter_id [symmetric]) (use off [of d2 d1] sym in auto)
  finally show ?thesis .
qed

subsection \<open>What a picture depends on\<close>

definition painter :: "scene_compositor \<Rightarrow> u32 \<times> scene_style list \<times> i32 \<times> (u32 \<Rightarrow> utf8_glyph) option" where
  "painter cp = (cp_clear cp, cp_styles cp, cp_fc_line_h cp, cp_fc_glyph cp)"

lemma painter_update [simp]:
  "painter (cp\<lparr>cp_damage := D\<rparr>) = painter cp" "painter (cp\<lparr>cp_pending := D\<rparr>) = painter cp"
  "painter (cp\<lparr>cp_tick := t\<rparr>) = painter cp" "painter (cp\<lparr>cp_fb := fb\<rparr>) = painter cp" "painter (cp\<lparr>cp_ly := ls\<rparr>) = painter cp"
  by (simp_all add: painter_def)

definition alike :: "scene_compositor \<Rightarrow> scene_compositor \<Rightarrow> bool" where
  "alike cp cp' \<longleftrightarrow> painter cp' = painter cp \<and> cp_locked cp' = cp_locked cp \<and> cp_effects_on cp' = cp_effects_on cp \<and>
     length (cp_ly cp') = length (cp_ly cp) \<and>
     (\<forall>i < length (cp_ly cp). ly_dead (cp_ly cp' ! i) = ly_dead (cp_ly cp ! i) \<and>
        ly_tex_ents (cp_ly cp' ! i) = ly_tex_ents (cp_ly cp ! i) \<and> ly_sv (cp_ly cp' ! i) = ly_sv (cp_ly cp ! i))"

lemma alike_trans: "alike a b \<Longrightarrow> alike b c \<Longrightarrow> alike a c"
  by (simp add: alike_def)

lemma doc_px_alike:
  assumes "painter cp' = painter cp" "ly_tex_ents ly' = ly_tex_ents ly"
  shows "doc_px cp' ly' d x y c = doc_px cp ly d x y c"
proof -
  have f: "cp_fc_glyph cp' = cp_fc_glyph cp" "cp_fc_line_h cp' = cp_fc_line_h cp" "cp_styles cp' = cp_styles cp"
    using assms(1) by (simp_all add: painter_def)
  have "texts_px cp' = texts_px cp" unfolding texts_px_def [abs_def] f by (rule refl)
  moreover have "texture_px ly' = texture_px ly" unfolding texture_px_def [abs_def] tex_find_def assms(2) by (rule refl)
  moreover have "resolve_style cp' = resolve_style cp" unfolding resolve_style_def [abs_def] f by (rule refl)
  ultimately have "node_px cp' ly' n x y c = node_px cp ly n x y c" for n c
    by (simp only: node_px_def)
  then show ?thesis unfolding doc_px_def by (intro fold_same)
qed

lemma veiled_alike: "alike cp cp' \<Longrightarrow> i < length (cp_ly cp) \<Longrightarrow> veiled cp' i = veiled cp i"
  by (simp add: alike_def veiled_def)

lemma picture_alike:
  assumes "alike cp cp'"
  shows "picture cp' ds x y = picture cp ds x y"
proof -
  have p: "painter cp' = painter cp" "cp_clear cp' = cp_clear cp" "length (cp_ly cp') = length (cp_ly cp)"
    using assms by (simp_all add: alike_def painter_def)
  show ?thesis unfolding picture_def p(2,3)
  proof (rule fold_same)
    fix i c assume "i \<in> set [0..<length (cp_ly cp)]"
    then have i: "i < length (cp_ly cp)" by simp
    then have "ly_tex_ents (cp_ly cp' ! i) = ly_tex_ents (cp_ly cp ! i)" using assms by (simp add: alike_def)
    from doc_px_alike [OF p(1) this] veiled_alike [OF assms i]
    show "(if veiled cp' i then c else doc_px cp' (cp_ly cp' ! i) (ds i) x y c) =
        (if veiled cp i then c else doc_px cp (cp_ly cp ! i) (ds i) x y c)" by simp
  qed
qed

lemma showing_alike: "alike cp cp' \<Longrightarrow> showing cp' ds = showing cp ds"
  using veiled_alike [of cp cp'] by (auto simp: showing_def alike_def)

lemma unchanged_picture:
  assumes "\<And>i. i < length (cp_ly cp) \<Longrightarrow> \<not> veiled cp i \<Longrightarrow> faithful (d1 i) (d2 i) \<and> tame_faces (d1 i) \<and> tame_faces (d2 i) \<and>
      \<not> shows_change (d1 i) (d2 i) (of_nat x) (of_nat y)"
    and "x < 2 ^ 30" "y < 2 ^ 30"
  shows "picture cp d1 x y = picture cp d2 x y"
  unfolding picture_def
proof (rule fold_same)
  fix i c assume "i \<in> set [0..<length (cp_ly cp)]"
  then show "(if veiled cp i then c else doc_px cp (cp_ly cp ! i) (d1 i) x y c) =
      (if veiled cp i then c else doc_px cp (cp_ly cp ! i) (d2 i) x y c)"
    using unchanged_px [OF _ _ _ assms(2,3)] assms(1) [of i] by simp
qed

text \<open>Documents that show nothing leave the background.\<close>

lemma blank_picture:
  assumes "\<And>i f. i < length (cp_ly cp) \<Longrightarrow> \<not> veiled cp i \<Longrightarrow> f \<in> set (faces (ds i)) \<Longrightarrow> \<not> face_shown f"
  shows "picture cp ds x y = cp_clear cp"
proof -
  have "doc_px cp (cp_ly cp ! i) (ds i) x y c = c" if "i < length (cp_ly cp)" "\<not> veiled cp i" for i c
    unfolding doc_px_def
  proof (rule fold_id)
    fix k c assume "k \<in> set (preorder (dc_tree (ds i)))"
    then have "doc_face (ds i) k \<in> set (faces (ds i))" by (simp add: faces_def)
    then show "node_px cp (cp_ly cp ! i) (doc_node (ds i) k) x y c = c"
      using assms that by (intro node_px_hidden) blast
  qed
  then show ?thesis unfolding picture_def by (intro fold_id) auto
qed

end
