(* ===== verification/CompositorOk.thy ===== *)
theory CompositorOk
  imports PaintOk Region
begin

text \<open>
  The compositor as a whole: a frame paints every pixel that changed since the last one, input goes
  to the topmost session that has a node at the point, the keyboard follows it, and a locked desktop
  keeps all input from the applications.
\<close>

subsection \<open>What the diff of a layer does to the compositor\<close>

definition same_cp :: "scene_compositor \<Rightarrow> scene_compositor \<Rightarrow> bool" where
  "same_cp cp cp' \<longleftrightarrow> cp' = cp\<lparr>cp_damage := cp_damage cp', cp_toasts := cp_toasts cp'\<rparr>"

lemma same_cp_refl [simp]: "same_cp cp cp"
  by (simp add: same_cp_def)

lemma same_cp_trans: "same_cp a b \<Longrightarrow> same_cp b c \<Longrightarrow> same_cp a c"
  unfolding same_cp_def by (cases a, cases b, cases c) simp

lemma same_cp_fields:
  assumes "same_cp cp cp'"
  shows "cp_ly cp' = cp_ly cp" "cp_locked cp' = cp_locked cp" "cp_pending cp' = cp_pending cp"
    "painter cp' = painter cp" "cp_fb cp' = cp_fb cp" "cp_force cp' = cp_force cp" "cp_effects_on cp' = cp_effects_on cp" "cp_focus_layer cp' = cp_focus_layer cp"
proof -
  have e: "cp' = cp\<lparr>cp_damage := cp_damage cp', cp_toasts := cp_toasts cp'\<rparr>" using assms by (simp add: same_cp_def)
  show "cp_ly cp' = cp_ly cp" "cp_locked cp' = cp_locked cp" "cp_pending cp' = cp_pending cp"
    "painter cp' = painter cp" "cp_fb cp' = cp_fb cp" "cp_force cp' = cp_force cp" "cp_effects_on cp' = cp_effects_on cp" "cp_focus_layer cp' = cp_focus_layer cp"
    by (subst e, simp add: painter_def)+
qed

lemma same_cp_damage [simp]: "same_cp cp (damage_add r cp') = same_cp cp cp'" "same_cp cp (notify_fire i s k cp') = same_cp cp cp'"
  unfolding same_cp_def damage_add_def notify_fire_def Let_def
  by (cases cp, cases cp', auto)+

lemma anim_alloc_cp: "anim_alloc cp ly k kind = (x, cp', ly') \<Longrightarrow> same_cp cp cp'"
  by (auto simp: anim_alloc_def Let_def split: option.splits if_splits prod.splits)

lemma diff_new_cp: "diff_new i k v (cp, ly) = (cp', ly') \<Longrightarrow> same_cp cp cp'"
proof -
  assume d: "diff_new i k v (cp, ly) = (cp', ly')"
  have a: "same_cp cp c'" if "anim_alloc c l k' kd = (x, c', l')" "same_cp cp c" for c l k' kd x c' l'
    using anim_alloc_cp [OF that(1)] that(2) same_cp_trans by blast
  show ?thesis using d by (auto simp: diff_new_def Let_def split: option.splits prod.splits if_splits intro: a)
qed

lemma diff_anim_cp: "diff_anim k v (cp, ly) = (cp', ly') \<Longrightarrow> same_cp cp cp'"
  by (auto simp: diff_anim_def Let_def split: option.splits prod.splits if_splits dest: anim_alloc_cp)

lemma diff_damage_cp [simp]: "same_cp cp (diff_damage rn v cp') = same_cp cp cp'"
  by (simp add: diff_damage_def Let_def)

lemma diff_old_cp: "diff_old i k v j (cp, ly) = (cp', ly') \<Longrightarrow> same_cp cp cp'"
  by (auto simp: diff_old_def Let_def split: prod.splits if_splits dest: diff_anim_cp)

lemma diff_cb_cp: "diff_cb i k (cp, ly) = (stop, cp', ly') \<Longrightarrow> same_cp cp cp'"
  by (auto simp: diff_cb_def split: option.splits dest: diff_new_cp diff_old_cp)

lemma visit_cp: "visit_ids (diff_cb i) ks (cp, ly) = (cp', ly') \<Longrightarrow> same_cp cp cp'"
proof (induction ks arbitrary: cp ly)
  case (Cons k ks)
  obtain stop c l where s: "diff_cb i k (cp, ly) = (stop, c, l)" by (metis prod_cases3)
  show ?case using Cons.prems Cons.IH [of c l] diff_cb_cp [OF s] s same_cp_trans by (auto split: if_splits)
qed simp

lemma sweep_step_cp: "sweep_step rp (cp, ly) j = (cp', ly') \<Longrightarrow> same_cp cp cp'"
  by (auto simp: sweep_step_def sweep_gone_def Let_def split: option.splits prod.splits if_splits dest: anim_alloc_cp)

lemma sweep_cp: "foldl (sweep_step rp) (cp, ly) js = (cp', ly') \<Longrightarrow> same_cp cp cp'"
proof (induction js arbitrary: cp ly)
  case (Cons j js)
  obtain c l where s: "sweep_step rp (cp, ly) j = (c, l)" by fastforce
  show ?case using Cons.prems Cons.IH [of c l] sweep_step_cp [OF s] s same_cp_trans by auto
qed simp

lemma diff_layer_cp:
  assumes "displays (ly_store ly) d" "diff_layer i (cp, ly) = (cp', ly')"
  shows "same_cp cp cp'"
proof -
  obtain c l where w: "visit_ids (diff_cb i) (preorder (dc_tree d)) (cp, ly) = (c, l)" by fastforce
  then have "map_sweep c l = (cp', ly')" using assms by (simp add: diff_layer_def walk_doc)
  then show ?thesis using visit_cp [OF w] sweep_cp same_cp_trans unfolding map_sweep_def by blast
qed

subsection \<open>A frame\<close>

definition live_layer :: "scene_compositor \<Rightarrow> nat \<Rightarrow> bool" where
  "live_layer cp i \<longleftrightarrow> i < length (cp_ly cp) \<and> \<not> hidden cp i \<and> \<not> ly_dead (cp_ly cp ! i)"

text \<open>A compositor whose models are in step with \<open>d1\<close>, before a frame at which the sessions show \<open>d2\<close>:
  no transitions, no repaint of everything, and no session that died since the last frame.\<close>

definition frame_ready :: "scene_compositor \<Rightarrow> (nat \<Rightarrow> doc) \<Rightarrow> (nat \<Rightarrow> doc) \<Rightarrow> bool" where
  "frame_ready cp d1 d2 \<longleftrightarrow>
     \<not> cp_effects_on cp \<and> \<not> cp_force cp \<and> tame_list (cp_pending cp) \<and>
     (\<forall>i < length (cp_ly cp). sv_dead (ly_sv (cp_ly cp ! i)) \<longrightarrow> ly_dead (cp_ly cp ! i)) \<and>
     live_layer cp 0 \<and>
     (\<forall>i. live_layer cp i \<longrightarrow>
        synced (cp_ly cp ! i) (d1 i) \<and> displays (ly_store (cp_ly cp ! i)) (d2 i) \<and>
        ready_for (size (dc_tree (d2 i))) (cp_ly cp ! i) \<and> tame_faces (d1 i) \<and> tame_faces (d2 i) \<and>
        (layer_seq cp i = ly_rendered_seq (cp_ly cp ! i) \<longrightarrow> faces (d1 i) = faces (d2 i)))"

definition diffed :: "scene_compositor \<Rightarrow> (nat \<Rightarrow> doc) \<Rightarrow> (nat \<Rightarrow> doc) \<Rightarrow> nat \<Rightarrow> scene_compositor \<Rightarrow> bool" where
  "diffed cp d1 d2 n c \<longleftrightarrow>
     cp_locked c = cp_locked cp \<and> cp_pending c = cp_pending cp \<and> painter c = painter cp \<and> cp_fb c = cp_fb cp \<and> cp_force c = cp_force cp \<and>
     cp_effects_on c = cp_effects_on cp \<and> length (cp_ly c) = length (cp_ly cp) \<and> tame_list (cp_damage c) \<and>
     (\<forall>j. n \<le> j \<or> \<not> live_layer cp j \<longrightarrow> cp_ly c ! j = cp_ly cp ! j) \<and>
     (\<forall>i < n. live_layer cp i \<longrightarrow> synced (cp_ly c ! i) (d2 i) \<and> same_layer (cp_ly cp ! i) (cp_ly c ! i) \<and>
        (\<forall>x y. shows_change (d1 i) (d2 i) x y \<longrightarrow> covered (cp_damage c) x y))"

lemma synced_faces: "faces d = faces d' \<Longrightarrow> synced ly d = synced ly d'"
  by (simp add: synced_def)

lemma no_change: "faces d = faces d' \<Longrightarrow> \<not> shows_change d d' x y"
  by (simp add: shows_change_def)

lemma frame_diff_step:
  assumes rd: "frame_ready cp d1 d2" and inv: "diffed cp d1 d2 n c" and n: "n < length (cp_ly cp)"
  shows "diffed cp d1 d2 (Suc n) (frame_diff c n)"
proof -
  have I: "cp_locked c = cp_locked cp" "length (cp_ly c) = length (cp_ly cp)" "cp_ly c ! n = cp_ly cp ! n"
    using inv by (simp_all add: diffed_def)
  have h: "hidden c n = hidden cp n" "layer_seq c n = layer_seq cp n" using I by (simp_all add: hidden_def layer_seq_def)
  show ?thesis
  proof (cases "live_layer cp n")
    case False
    then have "hidden c n \<or> ly_dead (cp_ly c ! n)" using n h(1) I(3) by (auto simp: live_layer_def)
    then have "frame_diff c n = c" by (auto simp: frame_diff_def Let_def)
    then show ?thesis using inv False by (auto simp: diffed_def less_Suc_eq)
  next
    case True
    have R: "synced (cp_ly cp ! n) (d1 n)" "displays (ly_store (cp_ly cp ! n)) (d2 n)"
      "ready_for (size (dc_tree (d2 n))) (cp_ly cp ! n)" "tame_faces (d1 n)" "tame_faces (d2 n)"
      "layer_seq cp n = ly_rendered_seq (cp_ly cp ! n) \<longrightarrow> faces (d1 n) = faces (d2 n)"
      using rd True by (simp_all add: frame_ready_def)
    show ?thesis
    proof (cases "layer_seq cp n = ly_rendered_seq (cp_ly cp ! n)")
      case same: True
      then have "frame_diff c n = c" using I h by (simp add: frame_diff_def Let_def)
      moreover have "faces (d1 n) = faces (d2 n)" using R(6) same by blast
      ultimately show ?thesis
        using inv R(1) I(3) synced_faces [of "d1 n" "d2 n"] no_change [of "d1 n" "d2 n"]
        by (auto simp: diffed_def less_Suc_eq)
    next
      case False
      obtain c1 l where run: "diff_layer n (c, cp_ly c ! n) = (c1, l)" by fastforce
      have "\<not> (hidden c n \<or> ly_dead (cp_ly c ! n) \<or> layer_seq c n = ly_rendered_seq (cp_ly c ! n))"
        using True False h I(3) by (simp add: live_layer_def)
      then have f: "frame_diff c n = put_layer n l c1" using run by (simp add: frame_diff_def on_layer_def Let_def)
      note D = diff_layer_ok [OF R(1-3) run [unfolded I(3)]]
      note same = same_cp_fields [OF diff_layer_cp [OF R(2) run [unfolded I(3)]]]
      have off: "\<not> cp_effects_on c" "tame_list (cp_damage c)" using rd inv by (simp_all add: frame_ready_def diffed_def)
      then have cov: "tame_list (cp_damage c1)"
        "\<forall>x y. covered (cp_damage c) x y \<or> shows_change (d1 n) (d2 n) x y \<longrightarrow> covered (cp_damage c1) x y"
        using D R(4,5) by blast+
      have ly: "cp_ly (frame_diff c n) = (cp_ly c)[n := l]" "cp_damage (frame_diff c n) = cp_damage c1"
        using same by (simp_all add: f put_layer_def)
      have other: "cp_locked (frame_diff c n) = cp_locked c" "cp_pending (frame_diff c n) = cp_pending c"
        "painter (frame_diff c n) = painter c" "cp_fb (frame_diff c n) = cp_fb c" "cp_force (frame_diff c n) = cp_force c" "cp_effects_on (frame_diff c n) = cp_effects_on c"
        using same by (simp_all add: f put_layer_def painter_def)
      show ?thesis
        unfolding diffed_def
      proof (intro conjI allI impI)
        fix j assume "Suc n \<le> j \<or> \<not> live_layer cp j"
        then show "cp_ly (frame_diff c n) ! j = cp_ly cp ! j"
          using inv True by (cases "j = n") (auto simp: ly diffed_def)
      next
        fix i assume i: "i < Suc n" "live_layer cp i"
        show "synced (cp_ly (frame_diff c n) ! i) (d2 i)" "same_layer (cp_ly cp ! i) (cp_ly (frame_diff c n) ! i)"
          using inv i D I n by (cases "i = n"; simp add: ly diffed_def)+
        show "covered (cp_damage (frame_diff c n)) x y" if "shows_change (d1 i) (d2 i) x y" for x y
          using that inv i cov(2) unfolding ly by (cases "i = n") (auto simp: diffed_def less_Suc_eq)
      qed (use inv cov(1) in \<open>simp_all add: ly other diffed_def\<close>)
    qed
  qed
qed

lemma frame_diff_fold:
  assumes "frame_ready cp d1 d2" "n \<le> length (cp_ly cp)"
  shows "diffed cp d1 d2 n (foldl frame_diff (cp\<lparr>cp_damage := []\<rparr>) [0..<n])"
  using assms(2)
proof (induction n)
  case 0
  then show ?case by (simp add: diffed_def tame_list_def)
next
  case (Suc n)
  then show ?case using frame_diff_step [OF assms(1)] by simp
qed

lemma pending_fold:
  assumes "tame_list (cp_damage c)" "\<forall>r \<in> set rs. tame r \<and> has_area r"
  shows "\<exists>D. foldl (\<lambda>cp r. damage_add r cp) c rs = c\<lparr>cp_damage := D\<rparr> \<and> tame_list D \<and>
    (\<forall>x y. covered (cp_damage c) x y \<or> covered rs x y \<longrightarrow> covered D x y)"
  using assms
proof (induction rs arbitrary: c)
  case Nil
  then show ?case by (intro exI [of _ "cp_damage c"]) (simp add: covered_def)
next
  case (Cons r rs)
  note A = rectlist_add_ok [OF Cons.prems(1), of r]
  let ?c = "damage_add r c"
  have c: "?c = c\<lparr>cp_damage := rectlist_add 32 (cp_damage c) r\<rparr>" by (simp add: damage_add_def)
  have "tame_list (cp_damage ?c)" using Cons.prems A(1) by (simp add: c)
  from Cons.IH [OF this] obtain D where D: "foldl (\<lambda>cp r. damage_add r cp) ?c rs = ?c\<lparr>cp_damage := D\<rparr>" "tame_list D"
    "\<forall>x y. covered (cp_damage ?c) x y \<or> covered rs x y \<longrightarrow> covered D x y" using Cons.prems(2) by auto
  have "covered (r # rs) x y \<longleftrightarrow> in_rect r x y \<or> covered rs x y" for x y by (auto simp: covered_def)
  then show ?case using D A(2,3) Cons.prems(2) by (intro exI [of _ D]) (auto simp: c)
qed

lemma mark_rendered_fold:
  "alike c (foldl mark_rendered c is) \<and> cp_fb (foldl mark_rendered c is) = cp_fb c \<and>
   cp_damage (foldl mark_rendered c is) = cp_damage c \<and> cp_pending (foldl mark_rendered c is) = cp_pending c \<and>
   cp_force (foldl mark_rendered c is) = cp_force c \<and>
   (\<forall>i. ly_map (cp_ly (foldl mark_rendered c is) ! i) = ly_map (cp_ly c ! i) \<and>
   ly_map_shift (cp_ly (foldl mark_rendered c is) ! i) = ly_map_shift (cp_ly c ! i) \<and>
   ly_map_used (cp_ly (foldl mark_rendered c is) ! i) = ly_map_used (cp_ly c ! i))"
proof (induction "is" arbitrary: c)
  case (Cons j js)
  have "alike c (mark_rendered c j)"
    by (cases "j < length (cp_ly c)")
      (auto simp: alike_def mark_rendered_def put_layer_def painter_def list_update_beyond nth_list_update)
  moreover have "cp_fb (mark_rendered c j) = cp_fb c \<and> cp_damage (mark_rendered c j) = cp_damage c \<and>
     cp_pending (mark_rendered c j) = cp_pending c \<and> cp_force (mark_rendered c j) = cp_force c"
    by (simp add: mark_rendered_def put_layer_def)
  moreover have "ly_map (cp_ly (mark_rendered c j) ! i) = ly_map (cp_ly c ! i) \<and>
     ly_map_shift (cp_ly (mark_rendered c j) ! i) = ly_map_shift (cp_ly c ! i) \<and>
     ly_map_used (cp_ly (mark_rendered c j) ! i) = ly_map_used (cp_ly c ! i)" for i
    by (cases "j < length (cp_ly c)"; cases "i = j")
      (auto simp: mark_rendered_def put_layer_def list_update_beyond)
  ultimately show ?case using Cons.IH [of "mark_rendered c j"] alike_trans by (metis foldl_Cons)
qed (simp add: alike_def)

lemma synced_layers:
  assumes "ly_map ly' = ly_map ly" "ly_map_shift ly' = ly_map_shift ly" "ly_map_used ly' = ly_map_used ly"
  shows "synced ly' d = synced ly d"
  using assms by (simp add: synced_def table_ok_def used_entries_def)

lemma bury_alive:
  "\<forall>i \<in> set is. sv_dead (ly_sv (cp_ly cp ! i)) \<longrightarrow> ly_dead (cp_ly cp ! i) \<Longrightarrow> foldl bury cp is = cp"
  by (induction "is") (auto simp: bury_def Let_def)

text \<open>The frame before it paints: a compositor \<open>c\<close> with the same layers, its models in step with what the
  sessions show, and a damage list that covers every change and every pending pixel.\<close>

definition first_content :: "scene_compositor \<Rightarrow> bool" where
  "first_content cp \<longleftrightarrow> layer_seq cp 0 > 0 \<and> ly_rendered_seq (cp_ly cp ! 0) = 0"

definition before_paint :: "scene_compositor \<Rightarrow> (nat \<Rightarrow> doc) \<Rightarrow> (nat \<Rightarrow> doc) \<Rightarrow> scene_compositor \<Rightarrow> bool" where
  "before_paint cp d1 d2 c \<longleftrightarrow> alike cp c \<and> cp_fb c = cp_fb cp \<and> tame_list (cp_damage c) \<and>
     (\<forall>i. live_layer cp i \<longrightarrow> synced (cp_ly c ! i) (d2 i) \<and>
        (\<forall>x y. shows_change (d1 i) (d2 i) x y \<longrightarrow> covered (cp_damage c) x y)) \<and>
     (\<forall>x y. covered (cp_pending cp) x y \<longrightarrow> covered (cp_damage c) x y)"

lemma frame_parts:
  assumes rd: "frame_ready cp d1 d2" and run: "scene_compositor_frame cp = (r, cp')"
  shows "r = 0 \<and> (\<exists>c fb. before_paint cp d1 d2 c \<and> alike c cp' \<and> cp_damage cp' = cp_damage c \<and>
    cp_pending cp' = [] \<and> \<not> cp_force cp' \<and>
    (\<forall>i. live_layer cp i \<longrightarrow> synced (cp_ly cp' ! i) (d2 i)) \<and>
    cp_fb cp' = fold (repaint_rect c) (cp_damage c) fb \<and>
    fb = (if first_content cp then scene_fb_clear (cp_fb cp) (cp_clear cp) else cp_fb cp))"
proof -
  let ?cp = "cp\<lparr>cp_tick := cp_tick cp + 1\<rparr>"
  have alive: "\<forall>i < length (cp_ly cp). sv_dead (ly_sv (cp_ly cp ! i)) \<longrightarrow> ly_dead (cp_ly cp ! i)"
    "\<not> ly_dead (cp_ly cp ! 0)" "0 < length (cp_ly cp)" "\<not> cp_force cp" "\<not> cp_effects_on cp" "tame_list (cp_pending cp)"
    "live_layer cp 0"
    using rd by (simp_all add: frame_ready_def live_layer_def)
  have b: "foldl bury ?cp [1..<length (cp_ly cp)] = ?cp" using alive(1) by (intro bury_alive) auto
  have ok0: "\<not> sv_dead (ly_sv (cp_ly cp ! 0))" using alive by blast
  have rd': "frame_ready ?cp d1 d2"
    using rd by (simp add: frame_ready_def live_layer_def hidden_def layer_seq_def)
  have ll: "live_layer ?cp i = live_layer cp i" for i by (simp add: live_layer_def hidden_def)
  show ?thesis
  proof (cases "frame_idle ?cp")
    case True
    let ?c = "?cp\<lparr>cp_damage := []\<rparr>"
    have cp': "r = 0" "cp' = ?c"
      using True run b ok0 alive(4) by (simp_all add: scene_compositor_frame_def Let_def)
    have seq: "layer_seq cp i = ly_rendered_seq (cp_ly cp ! i)" if "live_layer cp i" for i
    proof -
      have "i \<in> set (layers ?cp)" using that by (simp add: layers_def live_layer_def)
      then show ?thesis using True that by (auto simp: frame_idle_def list_all_iff live_layer_def hidden_def layer_seq_def)
    qed
    have same: "faces (d1 i) = faces (d2 i)" "synced (cp_ly cp ! i) (d1 i)" if "live_layer cp i" for i
      using rd that seq [OF that] by (simp_all add: frame_ready_def)
    have pend: "cp_pending cp = []" using True by (simp add: frame_idle_def)
    have al: "alike cp ?c" by (simp add: alike_def)
    have sy: "\<forall>i. live_layer cp i \<longrightarrow> synced (cp_ly cp ! i) (d2 i)"
      using same synced_faces by blast
    have "\<forall>i x y. live_layer cp i \<longrightarrow> \<not> shows_change (d1 i) (d2 i) x y" using same(1) no_change by blast
    then have bp: "before_paint cp d1 d2 ?c"
      using sy pend al by (simp add: before_paint_def tame_list_def covered_def)
    have "\<not> first_content cp" using seq [OF alive(7)] by (auto simp: first_content_def)
    then show ?thesis
      unfolding cp'(2) using bp cp'(1) pend alive(4) sy
      by (intro conjI exI [of _ ?c] exI [of _ "cp_fb cp"]) (simp_all add: alike_def)
  next
    case False
    define c1 where "c1 = foldl frame_diff (?cp\<lparr>cp_damage := []\<rparr>) (layers ?cp)"
    define c3 where "c3 = (foldl (\<lambda>cp r. damage_add r cp) c1 (cp_pending c1))\<lparr>cp_pending := []\<rparr>"
    define c4 where "c4 = frame_paint c3"
    have D: "diffed ?cp d1 d2 (length (cp_ly cp)) c1"
      using frame_diff_fold [OF rd', of "length (cp_ly cp)"] by (simp add: c1_def layers_def)
    then have "\<forall>i < length (cp_ly cp). live_layer cp i \<longrightarrow> synced (cp_ly c1 ! i) (d2 i) \<and> same_layer (cp_ly cp ! i) (cp_ly c1 ! i) \<and>
        (\<forall>x y. shows_change (d1 i) (d2 i) x y \<longrightarrow> covered (cp_damage c1) x y)"
      by (simp add: diffed_def ll)
    then have each: "live_layer cp i \<Longrightarrow> synced (cp_ly c1 ! i) (d2 i) \<and> same_layer (cp_ly cp ! i) (cp_ly c1 ! i) \<and>
        (\<forall>x y. shows_change (d1 i) (d2 i) x y \<longrightarrow> covered (cp_damage c1) x y)" for i
      unfolding live_layer_def by blast
    have off: "\<not> cp_effects_on c1" using D alive(5) by (simp add: diffed_def)
    have cp': "r = 0" "cp' = foldl mark_rendered c4 (layers c4)"
      using run b ok0 alive(4) False off
      by (simp_all add: scene_compositor_frame_def Let_def c1_def [symmetric] c3_def [symmetric] c4_def [symmetric])
    have D1: "cp_pending c1 = cp_pending cp" "painter c1 = painter cp" "cp_fb c1 = cp_fb cp" "tame_list (cp_damage c1)"
      "cp_locked c1 = cp_locked cp" "cp_effects_on c1 = cp_effects_on cp" "length (cp_ly c1) = length (cp_ly cp)" "cp_force c1 = cp_force cp"
      using D by (simp_all add: diffed_def painter_def)
    have a1: "alike cp c1"
      unfolding alike_def
    proof (intro conjI allI impI)
      fix i assume i: "i < length (cp_ly cp)"
      have "cp_ly c1 ! i = cp_ly cp ! i \<or> same_layer (cp_ly cp ! i) (cp_ly c1 ! i)"
        using each [of i] D ll [of i] unfolding diffed_def by auto
      then show "ly_dead (cp_ly c1 ! i) = ly_dead (cp_ly cp ! i)" "ly_tex_ents (cp_ly c1 ! i) = ly_tex_ents (cp_ly cp ! i)"
        "ly_sv (cp_ly c1 ! i) = ly_sv (cp_ly cp ! i)"
        by (auto simp: same_layer_def)
    qed (use D1 in simp_all)
    have "\<forall>rc \<in> set (cp_pending c1). tame rc \<and> has_area rc" using alive(6) D1(1) by (simp add: tame_list_def)
    from pending_fold [OF D1(4) this] obtain DL where P: "foldl (\<lambda>cp r. damage_add r cp) c1 (cp_pending c1) = c1\<lparr>cp_damage := DL\<rparr>"
      "tame_list DL" "\<forall>x y. covered (cp_damage c1) x y \<or> covered (cp_pending c1) x y \<longrightarrow> covered DL x y" by blast
    have c3: "c3 = c1\<lparr>cp_damage := DL, cp_pending := []\<rparr>" by (simp add: c3_def P(1))
    have a3: "alike cp c3" using a1 by (simp add: c3 alike_def painter_def)
    have bp: "before_paint cp d1 d2 c3"
      using a3 each P(2,3) D1(1,3) by (auto simp: before_paint_def c3)
    have a34: "alike c3 c4" "cp_ly c4 = cp_ly c3" by (simp_all add: c4_def frame_paint_def alike_def painter_def Let_def)
    note M = mark_rendered_fold [of c4 "layers c4"]
    have "alike c3 cp'" using alike_trans [OF a34(1)] M cp'(2) by blast
    moreover have "first_content c3 = first_content cp"
      using each [OF alive(7)] by (simp add: first_content_def layer_seq_def c3 same_layer_def)
    moreover have "cp_fb c4 = fold (repaint_rect c3) (cp_damage c3) (if first_content c3 then scene_fb_clear (cp_fb c3) (cp_clear c3) else cp_fb c3)"
      by (simp add: c4_def frame_paint_def first_content_def Let_def)
    moreover have "cp_fb c3 = cp_fb cp" "cp_clear c3 = cp_clear cp" using D1(2,3) by (simp_all add: c3 painter_def)
    moreover have "cp_damage c4 = cp_damage c3" "cp_pending c4 = []" "\<not> cp_force c4"
      using D1(8) alive(4) by (simp_all add: c4_def frame_paint_def c3 Let_def)
    moreover have "synced (cp_ly cp' ! i) (d2 i)" if "live_layer cp i" for i
      using each [OF that] M cp'(2) synced_layers [of "cp_ly cp' ! i" "cp_ly c4 ! i"] by (simp add: a34(2) c3)
    ultimately show ?thesis using bp cp' M by (intro conjI exI [of _ c3]) auto
  qed
qed

lemma frame_ok:
  assumes "frame_ready cp d1 d2" "scene_compositor_frame cp = (r, cp')"
  shows "r = 0 \<and>
    (\<forall>i. live_layer cp i \<longrightarrow> synced (cp_ly cp' ! i) (d2 i) \<and>
       (\<forall>x y. shows_change (d1 i) (d2 i) x y \<or> covered (cp_pending cp) x y \<longrightarrow> covered (cp_damage cp') x y))"
  using frame_parts [OF assms] unfolding before_paint_def by metis

subsection \<open>The screen\<close>

text \<open>The framebuffer shows the documents, except where a repaint is pending.\<close>

definition matches :: "scene_compositor \<Rightarrow> (nat \<Rightarrow> doc) \<Rightarrow> bool" where
  "matches cp ds \<longleftrightarrow> (\<forall>x y. in_fb (cp_fb cp) x y \<longrightarrow> \<not> covered (cp_pending cp) (of_nat x) (of_nat y) \<longrightarrow>
     px_at (cp_fb cp) x y = picture cp ds x y)"

definition screen_ready :: "scene_compositor \<Rightarrow> (nat \<Rightarrow> doc) \<Rightarrow> (nat \<Rightarrow> doc) \<Rightarrow> bool" where
  "screen_ready cp d1 d2 \<longleftrightarrow> frame_ready cp d1 d2 \<and> fb_real (cp_fb cp) \<and>
     (\<forall>i. live_layer cp i \<longrightarrow> faithful (d1 i) (d2 i)) \<and>
     (if first_content cp then \<forall>i. live_layer cp i \<longrightarrow> (\<forall>f \<in> set (faces (d1 i)). \<not> face_shown f)
      else matches cp d1)"

lemma live_veiled: "live_layer cp i \<longleftrightarrow> i < length (cp_ly cp) \<and> \<not> veiled cp i"
  by (auto simp: live_layer_def veiled_def hidden_def)

lemma fb_eqI:
  assumes "fb_ok fb" "fb_ok fb'" "same_size fb fb'" "\<And>x y. in_fb fb x y \<Longrightarrow> px_at fb' x y = px_at fb x y"
  shows "fb' = fb"
proof -
  have l: "length (fb_px fb') = length (fb_px fb)" using assms(1-3) by (simp add: fb_ok_def same_size_def)
  have "fb_px fb' ! n = fb_px fb ! n" if n: "n < length (fb_px fb)" for n
  proof -
    let ?w = "unat (fb_w fb)"
    have nb: "n < unat (fb_h fb) * ?w" using n assms(1) by (simp add: fb_ok_def mult.commute)
    then have w: "0 < ?w" by (cases "?w = 0") simp_all
    have "in_fb fb (n mod ?w) (n div ?w)"
      using w nb by (simp add: in_fb_def less_mult_imp_div_less)
    from assms(4) [OF this] show ?thesis
      using assms(1,3) by (simp add: px_at_def px_index_def fb_ok_def same_size_def)
  qed
  with l have "fb_px fb' = fb_px fb" by (simp add: nth_equalityI)
  then show ?thesis using assms(3) by (simp add: same_size_def)
qed

text \<open>A framebuffer that shows the picture is what a repaint of everything leaves.\<close>

lemma picture_repaint:
  assumes "showing cp ds" "fb_real fb" "\<And>x y. in_fb fb x y \<Longrightarrow> px_at fb x y = picture cp ds x y"
  shows "repaint_all cp fb = fb"
proof (rule fb_eqI)
  note D = repaint_all_drawn [OF assms(1,2)]
  show "fb_ok (repaint_all cp fb)" "same_size fb (repaint_all cp fb)" using drawn_ok [OF D] by blast+
  show "px_at (repaint_all cp fb) x y = px_at fb x y" if "in_fb fb x y" for x y
    using D assms(3) [OF that] that by (simp add: drawn_def)
qed (use assms(2) in \<open>simp add: fb_real_def\<close>)

lemma in_fb_small: "fb_ok fb \<Longrightarrow> in_fb fb x y \<Longrightarrow> x < 2 ^ 30 \<and> y < 2 ^ 30"
  by (simp add: fb_ok_def in_fb_def)

lemma covered_within:
  assumes "tame_list rs" "x < 2 ^ 30" "y < 2 ^ 30"
  shows "covered rs (of_nat x) (of_nat y) \<longleftrightarrow> (\<exists>r \<in> set rs. within r x y)"
  using assms within_rect unfolding covered_def tame_list_def by blast

lemma frame_picture:
  assumes rd: "screen_ready cp d1 d2" and run: "scene_compositor_frame cp = (r, cp')"
  shows "matches cp' d2 \<and> fb_real (cp_fb cp') \<and> showing cp' d2 \<and> repaint_all cp' (cp_fb cp') = cp_fb cp'"
proof -
  have fr: "frame_ready cp d1 d2" and real: "fb_real (cp_fb cp)" using rd by (simp_all add: screen_ready_def)
  from frame_parts [OF fr run] obtain c fb where C: "before_paint cp d1 d2 c" "alike c cp'" "cp_pending cp' = []"
    "cp_fb cp' = fold (repaint_rect c) (cp_damage c) fb"
    "fb = (if first_content cp then scene_fb_clear (cp_fb cp) (cp_clear cp) else cp_fb cp)" by blast
  have ac: "alike cp c" and dam: "tame_list (cp_damage c)" using C(1) by (simp_all add: before_paint_def)
  have live: "faithful (d1 i) (d2 i)" "tame_faces (d1 i)" "tame_faces (d2 i)" "displays (ly_store (cp_ly cp ! i)) (d2 i)"
    if "live_layer cp i" for i
    using that rd fr by (simp_all add: screen_ready_def frame_ready_def)
  have "showing cp d2" using live fr by (auto simp: showing_def frame_ready_def live_veiled)
  then have sc: "showing c d2" "showing cp' d2" using showing_alike [OF ac] showing_alike [OF C(2)] by simp_all
  have pic: "picture cp' d2 x y = picture c d2 x y" "picture c d2 x y = picture cp d2 x y" for x y
    using picture_alike [OF ac] picture_alike [OF C(2)] by simp_all
  have ok: "fb_ok (cp_fb cp)" using real by (simp add: fb_real_def)
  have fb: "fb_ok fb" "same_size (cp_fb cp) fb"
    using drawn_ok [OF clear_drawn [OF ok]] ok same_size_refl by (simp_all add: C(5))
  have D: "drawn fb (cp_fb cp') (\<lambda>x y c'. if \<exists>r \<in> set (cp_damage c). within r x y then picture c d2 x y else c')"
    unfolding C(4) by (rule repaint_rects_drawn [OF sc(1) fb(1)]) (use dam in \<open>simp add: tame_list_def\<close>)
  have size: "in_fb fb x y = in_fb (cp_fb cp) x y" "in_fb (cp_fb cp') x y = in_fb (cp_fb cp) x y" for x y
    using fb(2) drawn_ok [OF D] by (simp_all add: in_fb_def same_size_def)
  have px: "px_at (cp_fb cp') x y = picture cp' d2 x y" if xy: "in_fb (cp_fb cp') x y" for x y
  proof -
    have s: "x < 2 ^ 30" "y < 2 ^ 30" using in_fb_small [OF ok] xy size by blast+
    have d: "px_at (cp_fb cp') x y = (if \<exists>r \<in> set (cp_damage c). within r x y then picture c d2 x y else px_at fb x y)"
      using D xy size unfolding drawn_def by blast
    show ?thesis
    proof (cases "covered (cp_damage c) (of_nat x) (of_nat y)")
      case True
      then show ?thesis using d pic by (simp add: covered_within [OF dam s])
    next
      case False
      then have q: "\<And>i. live_layer cp i \<Longrightarrow> \<not> shows_change (d1 i) (d2 i) (of_nat x) (of_nat y)"
        "\<not> covered (cp_pending cp) (of_nat x) (of_nat y)"
        using C(1) unfolding before_paint_def by blast+
      have same: "picture cp d1 x y = picture cp d2 x y"
        by (rule unchanged_picture) (use live q(1) s live_veiled in blast)+
      have "px_at fb x y = picture cp d1 x y"
      proof (cases "first_content cp")
        case True
        then have "picture cp d1 x y = cp_clear cp"
          using rd live_veiled by (intro blank_picture) (auto simp: screen_ready_def)
        moreover have "px_at fb x y = cp_clear cp"
          using clear_drawn [OF ok] True xy size by (simp add: drawn_def C(5))
        ultimately show ?thesis by simp
      next
        case no: False
        then show ?thesis using rd q(2) xy size by (simp add: screen_ready_def matches_def C(5))
      qed
      then show ?thesis using d False same pic by (simp add: covered_within [OF dam s])
    qed
  qed
  moreover have "fb_real (cp_fb cp')"
    using real fb(2) drawn_ok [OF D] by (simp add: fb_real_def same_size_def)
  ultimately show ?thesis using sc(2) picture_repaint [OF sc(2)] by (simp add: matches_def)
qed

lemma sweep_unused: "\<forall>j \<in> set js. \<not> rn_used (ly_map ly ! j) \<Longrightarrow> foldl (sweep_step rp) (cp, ly) js = (cp, ly)"
  by (induction js) (simp_all add: sweep_step_def)

subsection \<open>Input\<close>

datatype input_ev =
    PointerEv u64 u8 i32 i32 u8
  | KeyEv u64 u32 u8 u8

fun input_step :: "scene_compositor \<Rightarrow> input_ev \<Rightarrow> scene_compositor" where
  "input_step cp (PointerEv now dev x y buttons) = snd (scene_compositor_input_pointer now cp dev x y buttons)"
| "input_step cp (KeyEv now code state mods) = snd (scene_compositor_input_key now cp code state mods)"

lemma on_server_fields [simp]:
  "cp_locked (snd (on_server i f cp)) = cp_locked cp" "cp_focus_layer (snd (on_server i f cp)) = cp_focus_layer cp"
  "cp_grabs (snd (on_server i f cp)) = cp_grabs cp" "length (cp_ly (snd (on_server i f cp))) = length (cp_ly cp)"
  "fst (on_server i f cp) = fst (f (ly_sv (cp_ly cp ! i)))"
  "j \<noteq> i \<Longrightarrow> cp_ly (snd (on_server i f cp)) ! j = cp_ly cp ! j"
  "i < length (cp_ly cp) \<Longrightarrow>
     cp_ly (snd (on_server i f cp)) ! i = (cp_ly cp ! i)\<lparr>ly_sv := snd (f (ly_sv (cp_ly cp ! i)))\<rparr>"
  by (simp_all add: on_server_def split: prod.split)

lemma copy_fields [simp]:
  "cp_locked (snd (scene_compositor_copy cp)) = cp_locked cp"
  "cp_focus_layer (snd (scene_compositor_copy cp)) = cp_focus_layer cp"
  "cp_ly (snd (scene_compositor_copy cp)) = cp_ly cp"
  by (simp_all add: scene_compositor_copy_def Let_def split: option.split)

lemma paste_fields:
  "cp_locked (snd (scene_compositor_paste now cp)) = cp_locked cp"
  "cp_focus_layer (snd (scene_compositor_paste now cp)) = cp_focus_layer cp"
  "j \<noteq> cp_focus_layer cp \<Longrightarrow> cp_ly (snd (scene_compositor_paste now cp)) ! j = cp_ly cp ! j"
  by (simp_all add: scene_compositor_paste_def split: option.split)

lemma locked_step:
  assumes "cp_locked cp" "cp_focus_layer cp = 0"
  shows "cp_locked (input_step cp e) \<and> cp_focus_layer (input_step cp e) = 0 \<and>
    (i > 0 \<longrightarrow> cp_ly (input_step cp e) ! i = cp_ly cp ! i)"
proof (cases e)
  case (PointerEv now dev x y buttons)
  then show ?thesis using assms
    by (simp add: scene_compositor_input_pointer_def pointer_layer_def Let_def)
next
  case (KeyEv now code state mods)
  then show ?thesis using assms
    by (simp add: scene_compositor_input_key_def key_layer_def paste_fields Let_def)
qed

lemma locked_steps:
  assumes "cp_locked cp" "cp_focus_layer cp = 0"
  shows "cp_locked (foldl input_step cp es) \<and> cp_focus_layer (foldl input_step cp es) = 0 \<and>
    (i > 0 \<longrightarrow> cp_ly (foldl input_step cp es) ! i = cp_ly cp ! i)"
  using assms
proof (induction es arbitrary: cp)
  case (Cons e es)
  then show ?case using locked_step [of cp e i] by simp
qed simp

lemma clear_all_cp: "anim_clear_all cp ly = (cp', ly') \<Longrightarrow> same_cp cp cp' \<and> ly_sv ly' = ly_sv ly"
proof -
  let ?f = "\<lambda>(cp, ly) i. if an_active (ly_anims ly ! i)
      then (damage_add (an_base (ly_anims ly ! i)) cp, anim_free i ly) else (cp, ly)"
  have "same_cp cp c \<and> ly_sv l = ly_sv ly" if "foldl ?f (cp, ly) is = (c, l)" for "is" c l
    using that by (induction "is" arbitrary: c l rule: rev_induct)
      (auto simp: anim_free_def split: prod.splits if_splits)
  then show "anim_clear_all cp ly = (cp', ly') \<Longrightarrow> same_cp cp cp' \<and> ly_sv ly' = ly_sv ly"
    unfolding anim_clear_all_def .
qed

lemma clear_fold_sv:
  "map ly_sv (cp_ly (foldl (on_layer clear_layer) cp is)) = map ly_sv (cp_ly cp) \<and>
   cp_locked (foldl (on_layer clear_layer) cp is) = cp_locked cp \<and>
   cp_focus_layer (foldl (on_layer clear_layer) cp is) = cp_focus_layer cp"
proof (induction "is" arbitrary: cp)
  case (Cons i js)
  obtain c l where cl: "anim_clear_all cp (cp_ly cp ! i) = (c, l)" by fastforce
  note cl' = clear_all_cp [OF cl]
  note f = same_cp_fields [OF conjunct1 [OF cl']]
  have "map ly_sv ((cp_ly cp)[i := l]) = map ly_sv (cp_ly cp)"
    using cl' by (cases "i < length (cp_ly cp)") (simp_all add: map_update list_update_same_conv list_update_beyond)
  then have "map ly_sv (cp_ly (on_layer clear_layer cp i)) = map ly_sv (cp_ly cp) \<and>
      cp_locked (on_layer clear_layer cp i) = cp_locked cp \<and>
      cp_focus_layer (on_layer clear_layer cp i) = cp_focus_layer cp"
    using f by (simp add: on_layer_def clear_layer_def cl put_layer_def)
  then show ?case using Cons.IH [of "on_layer clear_layer cp i"] by simp
qed simp

lemma locked_input:
  assumes "\<not> cp_locked cp" "0 < i" "i < length (cp_ly cp)"
    and "cp' = foldl input_step (scene_compositor_set_locked True cp) es"
  shows "ly_sv (cp_ly cp' ! i) = ly_sv (cp_ly cp ! i) \<and> cp_locked cp' \<and> cp_focus_layer cp' = 0"
proof -
  let ?l = "scene_compositor_set_locked True cp"
  have L: "cp_locked ?l" "cp_focus_layer ?l = 0" "map ly_sv (cp_ly ?l) = map ly_sv (cp_ly cp)"
    using assms(1) clear_fold_sv by (simp_all add: scene_compositor_set_locked_def Let_def)
  then have "length (cp_ly ?l) = length (cp_ly cp)" by (metis length_map)
  then have "ly_sv (cp_ly ?l ! i) = ly_sv (cp_ly cp ! i)" using L(3) assms(3) by (metis nth_map)
  then show ?thesis using locked_steps [OF L(1,2), of es i] assms(2) by (simp add: assms(4))
qed

text \<open>The topmost session of several that has a node at a point.\<close>

definition on_top :: "scene_compositor \<Rightarrow> (nat \<Rightarrow> doc) \<Rightarrow> i32 \<Rightarrow> i32 \<Rightarrow> nat \<Rightarrow> bool" where
  "on_top cp d x y i \<longleftrightarrow>
     (\<forall>j < length (cp_ly cp). represents (st_live (ly_store (cp_ly cp ! j))) (d j)) \<and>
     0 < i \<and> i < length (cp_ly cp) \<and> \<not> layer_gone (cp_ly cp ! i) \<and> doc_region (d i) x y \<noteq> SCENE_NO_PARENT \<and>
     (\<forall>j. i < j \<and> j < length (cp_ly cp) \<longrightarrow> layer_gone (cp_ly cp ! j) \<or> doc_region (d j) x y = SCENE_NO_PARENT)"

lemma find_rev:
  "0 < i \<Longrightarrow> i < n \<Longrightarrow> P i \<Longrightarrow> (\<And>j. i < j \<Longrightarrow> j < n \<Longrightarrow> \<not> P j) \<Longrightarrow> find P (rev [1..<n]) = Some i"
proof (induction n)
  case (Suc n)
  then show ?case by (cases "i = n") (auto simp: less_Suc_eq)
qed simp

lemma region_viewed:
  assumes "represents (st_live s) d"
  shows "scene_store_region_at s x y = doc_region d x y"
  using region_doc [OF assms] by (simp add: scene_store_region_at_def)

lemma on_top_layer:
  assumes "on_top cp d x y i" "\<not> cp_locked cp"
  shows "pointer_layer cp x y = i"
proof -
  have "find (\<lambda>i. layer_hit x y (cp_ly cp ! i)) (rev [1..<length (cp_ly cp)]) = Some i"
  proof (intro find_rev)
    have reg: "scene_store_region_at (ly_store (cp_ly cp ! j)) x y = doc_region (d j) x y" if "j < length (cp_ly cp)" for j
      using assms(1) that by (intro region_viewed) (simp add: on_top_def)
    show "0 < i" "i < length (cp_ly cp)" using assms(1) by (simp_all add: on_top_def)
    then show "layer_hit x y (cp_ly cp ! i)" using assms(1) reg by (simp add: on_top_def layer_hit_def)
    show "\<not> layer_hit x y (cp_ly cp ! j)" if "i < j" "j < length (cp_ly cp)" for j
      using assms(1) reg that by (auto simp: on_top_def layer_hit_def)
  qed
  then show ?thesis using assms(2) by (simp add: pointer_layer_def)
qed

definition plain_key :: "scene_compositor \<Rightarrow> u32 \<Rightarrow> u8 \<Rightarrow> u8 \<Rightarrow> bool" where
  "plain_key cp code state mods \<longleftrightarrow>
     (state = 0 \<or> mods AND SCENE_MOD_SUPER = 0 \<or> code \<noteq> SCENE_KEY_C \<and> code \<noteq> SCENE_KEY_V) \<and>
     grab_index cp code mods = None"

lemma pointer_then_key:
  assumes top: "on_top cp d x y i" "\<not> cp_locked cp" and key: "plain_key cp code state mods"
    and p: "scene_compositor_input_pointer now cp dev x y buttons = (r, cp1)"
    and k: "scene_compositor_input_key now' cp1 code state mods = (r', cp2)"
  shows "cp_focus_layer cp2 = i \<and>
    (r, ly_sv (cp_ly cp1 ! i)) = scene_server_input_pointer (ly_sv (cp_ly cp ! i)) now dev x y buttons \<and>
    (r', ly_sv (cp_ly cp2 ! i)) = scene_server_input_key (ly_sv (cp_ly cp1 ! i)) now' code state mods \<and>
    (\<forall>j. j \<noteq> i \<longrightarrow> cp_ly cp2 ! j = cp_ly cp ! j)"
proof -
  have i: "i < length (cp_ly cp)" "\<not> layer_gone (cp_ly cp ! i)" using top(1) by (simp_all add: on_top_def)
  let ?P = "\<lambda>sv. scene_server_input_pointer sv now dev x y buttons"
  have cp1: "(r, cp1) = on_server i ?P (cp\<lparr>cp_focus_layer := i\<rparr>)"
    using p on_top_layer [OF top] by (simp add: scene_compositor_input_pointer_def Let_def)
  then have e1: "cp1 = snd (on_server i ?P (cp\<lparr>cp_focus_layer := i\<rparr>))" "r = fst (on_server i ?P (cp\<lparr>cp_focus_layer := i\<rparr>))"
    by (metis fst_conv snd_conv)+
  have ly1: "cp_ly cp1 ! i = (cp_ly cp ! i)\<lparr>ly_sv := snd (?P (ly_sv (cp_ly cp ! i)))\<rparr>"
    "length (cp_ly cp1) = length (cp_ly cp)" "cp_focus_layer cp1 = i" "cp_locked cp1 = cp_locked cp"
    "cp_grabs cp1 = cp_grabs cp" "r = fst (?P (ly_sv (cp_ly cp ! i)))" "\<And>j. j \<noteq> i \<Longrightarrow> cp_ly cp1 ! j = cp_ly cp ! j"
    using i(1) by (simp_all add: e1)
  have "layer_gone (cp_ly cp1 ! i) = layer_gone (cp_ly cp ! i)"
    by (simp add: ly1(1) layer_gone_def scene_server_input_pointer_def split: prod.split)
  then have kl: "key_layer cp1 = i" using i top(2) ly1 by (simp add: key_layer_def)
  have g: "grab_index cp1 code mods = None" using key ly1(5) by (simp add: plain_key_def grab_index_def)
  let ?K = "\<lambda>sv. scene_server_input_key sv now' code state mods"
  have "(r', cp2) = on_server i ?K cp1"
    using k kl g key by (auto simp: scene_compositor_input_key_def plain_key_def Let_def split: if_splits)
  then have e2: "cp2 = snd (on_server i ?K cp1)" "r' = fst (on_server i ?K cp1)" by (metis fst_conv snd_conv)+
  have "cp_ly cp2 ! i = (cp_ly cp1 ! i)\<lparr>ly_sv := snd (?K (ly_sv (cp_ly cp1 ! i)))\<rparr>" "cp_focus_layer cp2 = i"
    "r' = fst (?K (ly_sv (cp_ly cp1 ! i)))" "\<And>j. j \<noteq> i \<Longrightarrow> cp_ly cp2 ! j = cp_ly cp1 ! j"
    using i(1) ly1(2,3) by (simp_all add: e2)
  then show ?thesis using ly1 by simp
qed

end
