(* ===== verification/ScreenOk.thy ===== *)
theory ScreenOk
  imports CompositorOk
begin

text \<open>
  The screen between frames: a frame that repaints everything, also after the death of an application,
  and changes of styles and textures, which leave every pixel they touch pending.
\<close>

subsection \<open>Full repaints\<close>

definition buried :: "scene_compositor \<Rightarrow> scene_compositor" where
  "buried cp = foldl bury cp [1..<length (cp_ly cp)]"

text \<open>A frame that repaints everything: it is asked to, or an application has died since the last one.\<close>

definition repaint_ready :: "scene_compositor \<Rightarrow> (nat \<Rightarrow> doc) \<Rightarrow> bool" where
  "repaint_ready cp ds \<longleftrightarrow> \<not> sv_dead (ly_sv (cp_ly cp ! 0)) \<and> 0 < length (cp_ly cp) \<and> cp_force (buried cp) \<and> fb_real (cp_fb cp) \<and>
     showing (buried cp) ds"

lemma bury_fields:
  "cp_fb (bury cp i) = cp_fb cp" "length (cp_ly (bury cp i)) = length (cp_ly cp)" "bury (cp\<lparr>cp_tick := t\<rparr>) i = (bury cp i)\<lparr>cp_tick := t\<rparr>"
  by (simp_all add: bury_def Let_def put_layer_def)

lemma bury_fold:
  "cp_fb (foldl bury cp is) = cp_fb cp" "length (cp_ly (foldl bury cp is)) = length (cp_ly cp)"
  "foldl bury (cp\<lparr>cp_tick := t\<rparr>) is = (foldl bury cp is)\<lparr>cp_tick := t\<rparr>"
  by (induction "is" arbitrary: cp) (simp_all add: bury_fields)

lemma full_frame_picture:
  assumes rd: "repaint_ready cp ds" and run: "scene_compositor_frame cp = (r, cp')"
  shows "r = 0 \<and> matches cp' ds \<and> fb_real (cp_fb cp') \<and> showing cp' ds \<and> repaint_all cp' (cp_fb cp') = cp_fb cp'"
proof -
  define b where "b = (buried cp)\<lparr>cp_tick := cp_tick cp + 1\<rparr>"
  have b: "foldl bury (cp\<lparr>cp_tick := cp_tick cp + 1\<rparr>) [1..<length (cp_ly cp)] = b"
    by (simp add: bury_fold buried_def b_def)
  have ab: "alike (buried cp) b" by (simp add: b_def alike_def)
  have B: "cp_force b" "showing b ds" "cp_fb b = cp_fb cp" "fb_real (cp_fb b)"
    using rd showing_alike [OF ab] by (simp_all add: repaint_ready_def b_def buried_def bury_fold)
  define c where "c = b\<lparr>cp_force := False, cp_pending := [], cp_fb := repaint_all b (cp_fb b),
      cp_damage := [\<lparr>rx = 0, ry = 0, rw = fb_w (cp_fb b), rh = fb_h (cp_fb b)\<rparr>]\<rparr>"
  have cp': "r = 0" "cp' = foldl mark_rendered c (layers c)"
    using run rd B(1) unfolding scene_compositor_frame_def Let_def b
    by (simp_all add: frame_full_def Let_def repaint_ready_def c_def)
  note M = mark_rendered_fold [of c "layers c", folded cp'(2)]
  have "alike b c" by (simp add: c_def alike_def painter_def)
  then have a: "alike b cp'" using M alike_trans by blast
  have fb: "cp_fb cp' = repaint_all b (cp_fb b)" "cp_pending cp' = []" using M by (simp_all add: c_def)
  note D = repaint_all_drawn [OF B(2,4)]
  have px: "px_at (cp_fb cp') x y = picture cp' ds x y" if "in_fb (cp_fb cp') x y" for x y
    using D that picture_alike [OF a] drawn_ok [OF D] unfolding fb by (simp add: drawn_def in_fb_def same_size_def)
  moreover have "fb_real (cp_fb cp')" "showing cp' ds"
    using B(2,4) drawn_ok [OF D] showing_alike [OF a] by (simp_all add: fb fb_real_def same_size_def)
  ultimately show ?thesis using cp'(1) fb(2) picture_repaint by (simp add: matches_def)
qed

subsection \<open>Pending repaints\<close>

definition marks :: "(scene_rnode \<Rightarrow> bool) \<Rightarrow> scene_layer \<Rightarrow> rect list \<Rightarrow> rect list \<Rightarrow> bool" where
  "marks p ly P P' \<longleftrightarrow> tame_list P' \<and> (\<forall>x y. covered P x y \<longrightarrow> covered P' x y) \<and>
     (\<forall>e x y. e \<in># used_entries ly \<longrightarrow> p e \<longrightarrow> shown (rn_flags e) (rn_rect e) \<longrightarrow> in_rect (rn_rect e) x y \<longrightarrow> covered P' x y)"

lemma pending_fold_ok:
  assumes "tame_list (cp_pending cp)" "\<forall>e \<in> set es. rn_used e \<longrightarrow> tame (rn_rect e)"
  shows "\<exists>P. foldl (\<lambda>cp rn. if rn_used rn \<and> p rn \<and> shown (rn_flags rn) (rn_rect rn) then pending_add (rn_rect rn) cp else cp) cp es
      = cp\<lparr>cp_pending := P\<rparr> \<and> tame_list P \<and> (\<forall>x y. covered (cp_pending cp) x y \<longrightarrow> covered P x y) \<and>
    (\<forall>e x y. e \<in> set es \<longrightarrow> rn_used e \<longrightarrow> p e \<longrightarrow> shown (rn_flags e) (rn_rect e) \<longrightarrow> in_rect (rn_rect e) x y \<longrightarrow> covered P x y)"
  using assms
proof (induction es arbitrary: cp)
  case Nil
  then show ?case by (intro exI [of _ "cp_pending cp"]) simp
next
  case (Cons e es)
  let ?hit = "rn_used e \<and> p e \<and> shown (rn_flags e) (rn_rect e)"
  let ?cp = "if ?hit then pending_add (rn_rect e) cp else cp"
  note A = rectlist_add_ok [OF Cons.prems(1), of "rn_rect e"]
  have t: "?hit \<Longrightarrow> tame (rn_rect e) \<and> has_area (rn_rect e)" using Cons.prems(2) by (auto simp: shown_def)
  have step: "?cp = cp\<lparr>cp_pending := cp_pending ?cp\<rparr>" "tame_list (cp_pending ?cp)"
    "\<And>x y. covered (cp_pending cp) x y \<Longrightarrow> covered (cp_pending ?cp) x y"
    "\<And>x y. ?hit \<Longrightarrow> in_rect (rn_rect e) x y \<Longrightarrow> covered (cp_pending ?cp) x y"
    using Cons.prems(1) A t by (auto simp: pending_add_def)
  from Cons.IH [OF step(2)] Cons.prems(2) obtain P where
    P: "foldl (\<lambda>cp rn. if rn_used rn \<and> p rn \<and> shown (rn_flags rn) (rn_rect rn) then pending_add (rn_rect rn) cp else cp) ?cp es
      = ?cp\<lparr>cp_pending := P\<rparr>" "tame_list P" "\<And>x y. covered (cp_pending ?cp) x y \<Longrightarrow> covered P x y"
    "\<And>e x y. e \<in> set es \<Longrightarrow> rn_used e \<Longrightarrow> p e \<Longrightarrow> shown (rn_flags e) (rn_rect e) \<Longrightarrow> in_rect (rn_rect e) x y \<Longrightarrow> covered P x y"
    by auto
  have "?cp\<lparr>cp_pending := P\<rparr> = cp\<lparr>cp_pending := P\<rparr>" by (subst step(1)) simp
  then show ?case using P step(3,4) by (intro exI [of _ P]) auto
qed

lemma pending_if_marks:
  assumes "tame_list (cp_pending cp)" "\<forall>e \<in># used_entries ly. tame (rn_rect e)"
  shows "\<exists>P. pending_if p ly cp = cp\<lparr>cp_pending := P\<rparr> \<and> marks p ly (cp_pending cp) P"
  using pending_fold_ok [OF assms(1), of "ly_map ly" p] assms(2)
  unfolding pending_if_def marks_def used_entries_def by auto

lemma pending_layers_mark:
  assumes "tame_list (cp_pending cp)" "\<forall>ly \<in> set lys. \<forall>e \<in># used_entries ly. tame (rn_rect e)"
  shows "\<exists>P. foldl (\<lambda>cp ly. pending_if p ly cp) cp lys = cp\<lparr>cp_pending := P\<rparr> \<and> tame_list P \<and>
    (\<forall>x y. covered (cp_pending cp) x y \<longrightarrow> covered P x y) \<and> (\<forall>ly \<in> set lys. marks p ly (cp_pending cp) P)"
  using assms
proof (induction lys arbitrary: cp)
  case Nil
  then show ?case by (intro exI [of _ "cp_pending cp"]) simp
next
  case (Cons ly lys)
  from pending_if_marks [OF Cons.prems(1), of ly p] Cons.prems(2) obtain P1 where
    P1: "pending_if p ly cp = cp\<lparr>cp_pending := P1\<rparr>" "marks p ly (cp_pending cp) P1" by auto
  from Cons.IH [of "cp\<lparr>cp_pending := P1\<rparr>"] Cons.prems(2) P1(2) obtain P where
    P: "foldl (\<lambda>cp ly. pending_if p ly cp) (cp\<lparr>cp_pending := P1\<rparr>) lys = cp\<lparr>cp_pending := P\<rparr>" "tame_list P"
    "\<forall>x y. covered P1 x y \<longrightarrow> covered P x y" "\<forall>ly \<in> set lys. marks p ly P1 P" by (auto simp: marks_def)
  have "\<forall>l \<in> set (ly # lys). marks p l (cp_pending cp) P"
    using P P1(2) by (auto simp: marks_def)
  then show ?case using P P1 by (intro exI [of _ P]) (auto simp: marks_def)
qed

text \<open>A change that touches only nodes whose entries are marked leaves every other pixel as it was.\<close>

definition models :: "scene_compositor \<Rightarrow> (nat \<Rightarrow> doc) \<Rightarrow> bool" where
  "models cp ds \<longleftrightarrow> tame_list (cp_pending cp) \<and> fb_real (cp_fb cp) \<and> matches cp ds \<and>
     (\<forall>i < length (cp_ly cp). synced (cp_ly cp ! i) (ds i) \<and> tame_faces (ds i))"

lemma synced_entry:
  assumes "synced ly d" "k \<in> set (preorder (dc_tree d))"
  obtains e where "e \<in># used_entries ly" "rn_face e = doc_face d k"
proof -
  have "doc_face d k \<in># image_mset rn_face (used_entries ly)" using assms by (simp add: synced_def faces_def)
  then show ?thesis using that by auto
qed

lemma synced_tame: "synced ly d \<Longrightarrow> tame_faces d \<Longrightarrow> \<forall>e \<in># used_entries ly. tame (rn_rect e)"
proof
  fix e assume s: "synced ly d" "tame_faces d" and e: "e \<in># used_entries ly"
  have "rn_face e \<in># image_mset rn_face (used_entries ly)" using e by simp
  moreover have "image_mset rn_face (used_entries ly) = mset (faces d)" using s(1) by (simp add: synced_def)
  ultimately have "rn_face e \<in> set (faces d)" by (metis set_mset_mset)
  then show "tame (rn_rect e)" using s(2) by (metis face_sel(4) tame_faces_def)
qed

lemma marked_px:
  assumes sy: "synced ly d" "tame_faces d" and m: "marks p ly P P'" and xy: "x < 2 ^ 30" "y < 2 ^ 30"
    and off: "\<not> covered P' (of_nat x) (of_nat y)"
    and same: "\<And>k e. k \<in> set (preorder (dc_tree d)) \<Longrightarrow> rn_face e = doc_face d k \<Longrightarrow> \<not> p e \<Longrightarrow>
        node_px cp' ly' (doc_node d k) = node_px cp ly (doc_node d k)"
  shows "doc_px cp' ly' d x y c = doc_px cp ly d x y c"
  unfolding doc_px_def
proof (rule fold_same)
  fix k c assume k: "k \<in> set (preorder (dc_tree d))"
  obtain e where e: "e \<in># used_entries ly" "rn_face e = doc_face d k" using synced_entry [OF sy(1) k] .
  show "node_px cp' ly' (doc_node d k) x y c = node_px cp ly (doc_node d k) x y c"
  proof (cases "p e")
    case False
    then show ?thesis using same [OF k e(2)] by simp
  next
    case True
    have f: "fc_rect (doc_face d k) = rn_rect e" "face_shown (doc_face d k) = shown (rn_flags e) (rn_rect e)"
      using e(2) by (metis face_sel(4), metis face_sel(3))
    have "\<not> (face_shown (doc_face d k) \<and> in_rect (rn_rect e) (of_nat x) (of_nat y))"
      using m True e(1) off unfolding marks_def f(2) by blast
    moreover have "tame (rn_rect e)" using synced_tame [OF sy] e(1) by blast
    ultimately have "\<not> (face_shown (doc_face d k) \<and> within (fc_rect (doc_face d k)) x y)"
      unfolding f(1) using within_rect [OF _ _ xy] within_area by blast
    then show ?thesis by (metis node_px_hidden)
  qed
qed

lemma picture_marked:
  assumes "length (cp_ly cp') = length (cp_ly cp)" "cp_clear cp' = cp_clear cp"
    and "\<And>i. i < length (cp_ly cp) \<Longrightarrow> veiled cp' i = veiled cp i \<and>
       (\<not> veiled cp i \<longrightarrow> (\<forall>c. doc_px cp' (cp_ly cp' ! i) (ds i) x y c = doc_px cp (cp_ly cp ! i) (ds i) x y c))"
  shows "picture cp' ds x y = picture cp ds x y"
  unfolding picture_def assms(1,2) by (rule fold_same) (use assms(3) in auto)

subsection \<open>Styles\<close>

lemma style_px_other:
  assumes "nd_style n \<noteq> ref" "cp_styles cp' = (cp_styles cp)[unat ref := st]" "cp_fc_glyph cp' = cp_fc_glyph cp"
    "cp_fc_line_h cp' = cp_fc_line_h cp"
  shows "node_px cp' ly n = node_px cp ly n"
proof -
  have "unat ref \<noteq> unat (nd_style n)" using assms(1) unsigned_word_eqI by metis
  then have "resolve_style cp' (nd_role n) (nd_style n) = resolve_style cp (nd_role n) (nd_style n)"
    by (simp add: resolve_style_def assms(2))
  moreover have "texts_px cp' = texts_px cp" unfolding texts_px_def [abs_def] assms(3,4) by (rule refl)
  ultimately show ?thesis by (simp only: node_px_def [abs_def])
qed

lemma style_change_pending:
  assumes m: "models cp ds" and run: "scene_compositor_set_style ref st cp = (r, cp')"
  shows "models cp' ds"
proof (cases "ref = 0 \<or> unat ref \<ge> length (cp_styles cp) \<or> cp_styles cp ! unat ref = st")
  case True
  then have "cp' = cp" using run by (auto simp: scene_compositor_set_style_def split: if_splits)
  then show ?thesis using m by simp
next
  case False
  let ?c = "cp\<lparr>cp_styles := (cp_styles cp)[unat ref := st]\<rparr>"
  have tame: "\<forall>ly \<in> set (cp_ly cp). \<forall>e \<in># used_entries ly. tame (rn_rect e)"
  proof
    fix ly assume "ly \<in> set (cp_ly cp)"
    then obtain i where "i < length (cp_ly cp)" "ly = cp_ly cp ! i" by (metis in_set_conv_nth)
    then show "\<forall>e \<in># used_entries ly. tame (rn_rect e)" using m synced_tame unfolding models_def by blast
  qed
  have "tame_list (cp_pending ?c)" using m by (simp add: models_def)
  from pending_layers_mark [OF this, of "cp_ly cp" "\<lambda>rn. rn_style rn = ref"] tame obtain P where
    P: "foldl (\<lambda>cp ly. pending_if (\<lambda>rn. rn_style rn = ref) ly cp) ?c (cp_ly cp) = ?c\<lparr>cp_pending := P\<rparr>" "tame_list P"
    "\<forall>x y. covered (cp_pending cp) x y \<longrightarrow> covered P x y"
    "\<forall>ly \<in> set (cp_ly cp). marks (\<lambda>rn. rn_style rn = ref) ly (cp_pending cp) P" by auto
  have cp': "cp' = ?c\<lparr>cp_pending := P\<rparr>" using run False P(1) by (simp add: scene_compositor_set_style_def)
  have "matches cp' ds"
    unfolding matches_def
  proof (intro allI impI)
    fix x y assume xy: "in_fb (cp_fb cp') x y" "\<not> covered (cp_pending cp') (of_nat x) (of_nat y)"
    have s: "x < 2 ^ 30" "y < 2 ^ 30" using in_fb_small [of "cp_fb cp" x y] xy(1) m by (simp_all add: cp' models_def fb_real_def)
    have off: "\<not> covered P (of_nat x) (of_nat y)" using xy(2) by (simp add: cp')
    have "picture cp' ds x y = picture cp ds x y"
    proof (rule picture_marked)
      fix i assume i: "i < length (cp_ly cp)"
      have "doc_px cp' (cp_ly cp ! i) (ds i) x y c = doc_px cp (cp_ly cp ! i) (ds i) x y c" for c
      proof (rule marked_px [where p = "\<lambda>rn. rn_style rn = ref" and P = "cp_pending cp", OF _ _ _ s off])
        fix k e assume e: "rn_face e = doc_face (ds i) k" "\<not> rn_style e = ref"
        then have "nd_style (doc_node (ds i) k) \<noteq> ref" by (auto simp: rn_face_def doc_face_def Let_def)
        then show "node_px cp' (cp_ly cp ! i) (doc_node (ds i) k) = node_px cp (cp_ly cp ! i) (doc_node (ds i) k)"
          by (rule style_px_other) (simp_all add: cp')
      qed (use m P(4) i in \<open>simp_all add: models_def\<close>)
      then show "veiled cp' i = veiled cp i \<and> (\<not> veiled cp i \<longrightarrow> (\<forall>c. doc_px cp' (cp_ly cp' ! i) (ds i) x y c = doc_px cp (cp_ly cp ! i) (ds i) x y c))"
        by (simp add: cp' veiled_def)
    qed (simp_all add: cp')
    moreover have "px_at (cp_fb cp) x y = picture cp ds x y"
      using m xy P(3) by (simp add: models_def matches_def cp') blast
    ultimately show "px_at (cp_fb cp') x y = picture cp' ds x y" by (simp add: cp')
  qed
  then show ?thesis using m P(2) by (simp add: models_def cp')
qed

subsection \<open>Textures\<close>

lemma find_map: "find P (map f xs) = map_option f (find (\<lambda>x. P (f x)) xs)"
  by (induction xs) simp_all

lemma find_nth: "find P xs = map_option (\<lambda>i. xs ! i) (find (\<lambda>i. P (xs ! i)) [0..<length xs])"
  using find_map [of P "\<lambda>i. xs ! i" "[0..<length xs]"] by (simp add: map_nth)

lemma find_append_none: "\<forall>y \<in> set ys. \<not> P y \<Longrightarrow> find P (xs @ ys) = find P xs"
  by (induction xs) (simp_all add: find_None_iff)

lemma find_update: "k < length xs \<Longrightarrow> \<not> P (xs ! k) \<Longrightarrow> \<not> P y \<Longrightarrow> find P (xs[k := y]) = find P xs"
proof (induction xs arbitrary: k)
  case (Cons x xs)
  then show ?case by (cases k) auto
qed simp

definition tex_of :: "scene_layer \<Rightarrow> u32 \<Rightarrow> scene_tex_ent option" where
  "tex_of ly tex = find (\<lambda>te. cx_used te \<and> cx_ref te = tex) (ly_tex_ents ly)"

lemma tex_find_of: "map_option (\<lambda>k. ly_tex_ents ly ! k) (tex_find ly tex) = tex_of ly tex"
  by (simp add: tex_of_def tex_find_def find_nth [of _ "ly_tex_ents ly"])

lemma texture_px_of:
  assumes "tex_of ly' tex = tex_of ly tex"
  shows "texture_px ly' tex = texture_px ly tex"
proof (cases "tex_find ly tex")
  case None
  then have n: "tex_find ly' tex = None" using assms tex_find_of [of ly' tex] tex_find_of [of ly tex] by simp
  show ?thesis unfolding texture_px_def [abs_def] None n option.case by (rule refl)
next
  case (Some k)
  then have "map_option (\<lambda>k. ly_tex_ents ly' ! k) (tex_find ly' tex) = Some (ly_tex_ents ly ! k)"
    using assms tex_find_of by (metis option.map(2))
  then obtain k' where k': "tex_find ly' tex = Some k'" "ly_tex_ents ly' ! k' = ly_tex_ents ly ! k" by auto
  show ?thesis unfolding texture_px_def [abs_def] Some k' option.case Let_def by (rule refl)
qed

lemma layer_change_pending:
  assumes m: "models cp ds" and i: "i < length (cp_ly cp)"
    and ly: "ly_map ly = ly_map (cp_ly cp ! i)" "ly_map_shift ly = ly_map_shift (cp_ly cp ! i)"
      "ly_map_used ly = ly_map_used (cp_ly cp ! i)" "ly_dead ly = ly_dead (cp_ly cp ! i)"
    and tex: "\<And>tex. tex \<noteq> ref \<Longrightarrow> tex_of ly tex = tex_of (cp_ly cp ! i) tex"
    and P: "marks (\<lambda>rn. rn_tex rn = ref) (cp_ly cp ! i) (cp_pending cp) P"
  shows "models (put_layer i ly (cp\<lparr>cp_pending := P\<rparr>)) ds"
proof -
  let ?cp = "put_layer i ly (cp\<lparr>cp_pending := P\<rparr>)"
  have f: "cp_ly ?cp = (cp_ly cp)[i := ly]" "cp_fb ?cp = cp_fb cp" "cp_pending ?cp = P" "cp_clear ?cp = cp_clear cp"
    "painter ?cp = painter cp"
    by (simp_all add: put_layer_def)
  have cov: "\<forall>x y. covered (cp_pending cp) x y \<longrightarrow> covered P x y" "tame_list P" using P by (simp_all add: marks_def)
  have "matches ?cp ds"
    unfolding matches_def f(2,3)
  proof (intro allI impI)
    fix x y assume xy: "in_fb (cp_fb cp) x y" "\<not> covered P (of_nat x) (of_nat y)"
    have s: "x < 2 ^ 30" "y < 2 ^ 30" using in_fb_small [of "cp_fb cp" x y] xy(1) m by (simp_all add: models_def fb_real_def)
    have "picture ?cp ds x y = picture cp ds x y"
    proof (rule picture_marked)
      fix j assume j: "j < length (cp_ly cp)"
      have "doc_px ?cp (cp_ly ?cp ! j) (ds j) x y c = doc_px cp (cp_ly cp ! j) (ds j) x y c" for c
      proof (cases "j = i")
        case False
        then show ?thesis using doc_px_alike [OF f(5) refl] by (simp add: f(1))
      next
        case True
        have "doc_px ?cp ly (ds i) x y c = doc_px cp (cp_ly cp ! i) (ds i) x y c"
        proof (rule marked_px [OF _ _ P s xy(2)])
          fix k e assume e: "rn_face e = doc_face (ds i) k" "\<not> rn_tex e = ref"
          then have "nd_tex (doc_node (ds i) k) \<noteq> ref" by (auto simp: rn_face_def doc_face_def Let_def)
          then have "texture_px ly (nd_tex (doc_node (ds i) k)) = texture_px (cp_ly cp ! i) (nd_tex (doc_node (ds i) k))"
            using tex texture_px_of by blast
          moreover have p: "cp_fc_glyph ?cp = cp_fc_glyph cp" "cp_fc_line_h ?cp = cp_fc_line_h cp" "cp_styles ?cp = cp_styles cp"
            by (simp_all add: put_layer_def)
          moreover have "resolve_style ?cp = resolve_style cp" "texts_px ?cp = texts_px cp"
            unfolding resolve_style_def [abs_def] texts_px_def [abs_def] p by (rule refl)+
          ultimately show "node_px ?cp ly (doc_node (ds i) k) = node_px cp (cp_ly cp ! i) (doc_node (ds i) k)"
            by (simp only: node_px_def [abs_def])
        qed (use m i in \<open>simp_all add: models_def\<close>)
        then show ?thesis using True i by (simp add: f(1))
      qed
      moreover have "veiled ?cp j = veiled cp j"
        using j i ly(4) by (simp add: veiled_def f(1) nth_list_update) (simp add: put_layer_def)
      ultimately show "veiled ?cp j = veiled cp j \<and>
          (\<not> veiled cp j \<longrightarrow> (\<forall>c. doc_px ?cp (cp_ly ?cp ! j) (ds j) x y c = doc_px cp (cp_ly cp ! j) (ds j) x y c))"
        by blast
    qed (simp_all add: f)
    then show "px_at (cp_fb cp) x y = picture ?cp ds x y"
      using m xy cov(1) unfolding models_def matches_def by metis
  qed
  moreover have "synced ((cp_ly cp)[i := ly] ! j) (ds j)" if "j < length (cp_ly cp)" for j
    using m that i synced_layers [OF ly(1-3), of "ds i"] by (cases "j = i") (simp_all add: models_def)
  ultimately show ?thesis using m cov(2) by (simp add: models_def f)
qed

lemma marks_tex:
  assumes "models cp ds" "i < length (cp_ly cp)" "ly_map ly = ly_map (cp_ly cp ! i)" "cp_pending c = cp_pending cp"
  shows "\<exists>P. pending_if (\<lambda>rn. rn_tex rn = ref) ly c = c\<lparr>cp_pending := P\<rparr> \<and>
    marks (\<lambda>rn. rn_tex rn = ref) (cp_ly cp ! i) (cp_pending cp) P"
proof -
  have u: "used_entries ly = used_entries (cp_ly cp ! i)" using assms(3) by (simp add: used_entries_def)
  have "\<forall>e \<in># used_entries ly. tame (rn_rect e)"
    unfolding u using assms(1,2) synced_tame unfolding models_def by blast
  moreover have "tame_list (cp_pending c)" using assms(1,4) by (simp add: models_def)
  ultimately show ?thesis using pending_if_marks [of c ly] assms(4) u by (simp add: marks_def)
qed

lemma release_texture_pending:
  assumes m: "models cp ds" and run: "scene_compositor_release_texture_layer layer ref cp = (r, cp')"
  shows "models cp' ds"
proof (cases "layer < 0 \<or> nat layer \<ge> length (cp_ly cp) \<or> tex_find (cp_ly cp ! nat layer) ref = None")
  case True
  then have "cp' = cp" using run
    by (auto simp: scene_compositor_release_texture_layer_def release_tex_at_def split: if_splits)
  then show ?thesis using m by simp
next
  case False
  let ?i = "nat layer" and ?ly = "cp_ly cp ! nat layer"
  obtain k where k: "tex_find ?ly ref = Some k" using False by auto
  have kk: "k < length (ly_tex_ents ?ly)" "cx_ref (ly_tex_ents ?ly ! k) = ref"
    using k by (auto simp: tex_find_def find_Some_iff)
  from marks_tex [OF m _ refl refl, of ?i ref] False obtain P where
    P: "pending_if (\<lambda>rn. rn_tex rn = ref) ?ly cp = cp\<lparr>cp_pending := P\<rparr>"
    "marks (\<lambda>rn. rn_tex rn = ref) ?ly (cp_pending cp) P" by auto
  let ?new = "\<lambda>s. with_store s (?ly\<lparr>ly_tex_ents := (ly_tex_ents ?ly)[k := zero_tex]\<rparr>)"
  obtain s where "cp' = put_layer ?i (?new s) (cp\<lparr>cp_pending := P\<rparr>)"
    using run False k P(1) by (auto simp: scene_compositor_release_texture_layer_def release_tex_at_def Let_def)
  moreover have "tex_of (?new s) tex = tex_of ?ly tex" if "tex \<noteq> ref" for tex s
    unfolding tex_of_def with_store_def using kk that
    by (simp, intro find_update) (simp_all add: zero_tex_def)
  ultimately show ?thesis
    using layer_change_pending [OF m _ _ _ _ _ _ P(2)] False by (simp add: with_store_def)
qed

lemma put_layer_pending: "(put_layer i ly cp)\<lparr>cp_pending := P\<rparr> = put_layer i ly (cp\<lparr>cp_pending := P\<rparr>)"
  by (cases cp) (simp add: put_layer_def)

lemma tex_slot_ok:
  assumes "tex_slot ly ref = (k, ly1)"
  shows "k < length (ly_tex_ents ly1) \<and> (\<exists>es. ly1 = ly\<lparr>ly_tex_ents := es\<rparr>) \<and>
    (\<forall>tex. tex \<noteq> ref \<longrightarrow> tex_of ly1 tex = tex_of ly tex) \<and>
    (cx_used (ly_tex_ents ly1 ! k) \<longrightarrow> cx_ref (ly_tex_ents ly1 ! k) = ref)"
proof (cases "tex_find ly ref")
  case (Some j)
  then have "ly1 = ly" "k = j" using assms by (simp_all add: tex_slot_def)
  then show ?thesis using Some by (auto simp: tex_find_def find_Some_iff intro: exI [of _ "ly_tex_ents ly"])
next
  case None
  let ?es = "ly_tex_ents ly"
  have z: "\<not> cx_used zero_tex" by (simp add: zero_tex_def)
  consider "?es = []" | j where "?es \<noteq> []" "find (\<lambda>i. \<not> cx_used (?es ! i)) [0..<length ?es] = Some j"
    | "?es \<noteq> []" "find (\<lambda>i. \<not> cx_used (?es ! i)) [0..<length ?es] = None" by fastforce
  then show ?thesis
  proof cases
    case 1
    then have "k = 0" "ly1 = ly\<lparr>ly_tex_ents := replicate 8 zero_tex\<rparr>" using assms None by (auto simp: tex_slot_def Let_def)
    then show ?thesis using 1 z by (auto simp: tex_of_def find_None_iff)
  next
    case 2
    then have "k = j" "ly1 = ly" using assms None by (auto simp: tex_slot_def Let_def)
    then show ?thesis using 2 by (auto simp: find_Some_iff intro: exI [of _ ?es])
  next
    case 3
    then have s: "k = length ?es * 2 - 1" "ly1 = ly\<lparr>ly_tex_ents := ?es @ replicate (length ?es) zero_tex\<rparr>"
      using assms None by (auto simp: tex_slot_def Let_def)
    have "length ?es \<le> k" "k - length ?es < length ?es" using 3(1) by (cases ?es; simp add: s(1))+
    then have "(?es @ replicate (length ?es) zero_tex) ! k = zero_tex" by (simp add: nth_append)
    moreover have "tex_of ly1 tex = tex_of ly tex" for tex
      unfolding tex_of_def s(2) by (simp, rule find_append_none) (simp add: z)
    ultimately show ?thesis using z \<open>k - length ?es < length ?es\<close> by (auto simp: s(2))
  qed
qed

lemma register_texture_pending:
  assumes m: "models cp ds" and run: "scene_compositor_register_texture_layer layer ref w h fmt opq pixels cp = (0, cp')"
  shows "models cp' ds"
proof -
  let ?i = "nat layer" and ?ly = "cp_ly cp ! nat layer"
  have i: "?i < length (cp_ly cp)" and reg: "register_tex_at ?i ref w h fmt opq pixels cp = (0, cp')"
    using run by (auto simp: scene_compositor_register_texture_layer_def split: if_splits)
  have wh: "w * h \<noteq> 0" using reg by (auto simp: register_tex_at_def Let_def split: if_splits)
  obtain k ly1 where sl: "tex_slot ?ly ref = (k, ly1)" by fastforce
  note T = tex_slot_ok [OF sl]
  obtain es where ly1: "ly1 = ?ly\<lparr>ly_tex_ents := es\<rparr>" using T by blast
  define te where "te = (es ! k)\<lparr>cx_px := Some (take (unat (w * h)) pixels), cx_ref := ref, cx_w := w, cx_h := h,
      cx_fmt := fmt, cx_opaque := opq, cx_used := True\<rparr>"
  define new where "new = (\<lambda>s. (with_store s ?ly)\<lparr>ly_tex_ents := es[k := te\<lparr>cx_store_registered := True\<rparr>]\<rparr>)"
  have same: "ly_map (new s) = ly_map ?ly" "ly_map_shift (new s) = ly_map_shift ?ly" "ly_map_used (new s) = ly_map_used ?ly"
    "ly_dead (new s) = ly_dead ?ly" for s
    by (simp_all add: new_def with_store_def)
  define F where "F = (\<lambda>s. pending_if (\<lambda>rn. rn_tex rn = ref) (new s) (put_layer ?i (new s) cp))"
  have "cp' = F (ly_store ?ly) \<or> cp' = F (snd (scene_store_register_texture (ly_store ?ly) ref w h fmt opq))"
    using reg wh by (auto simp: register_tex_at_def sl ly1 Let_def te_def new_def with_store_def F_def split: if_splits prod.splits)
  then obtain s where cp': "cp' = pending_if (\<lambda>rn. rn_tex rn = ref) (new s) (put_layer ?i (new s) cp)"
    unfolding F_def by blast
  from marks_tex [OF m i, of "new s" "put_layer ?i (new s) cp" ref] obtain P where
    P: "cp' = (put_layer ?i (new s) cp)\<lparr>cp_pending := P\<rparr>" "marks (\<lambda>rn. rn_tex rn = ref) ?ly (cp_pending cp) P"
    by (auto simp: same put_layer_def cp')
  have "tex_of (new s) tex = tex_of ?ly tex" if t: "tex \<noteq> ref" for tex
  proof -
    have "tex_of (new s) tex = find (\<lambda>te. cx_used te \<and> cx_ref te = tex) (es[k := te\<lparr>cx_store_registered := True\<rparr>])"
      by (simp add: tex_of_def new_def with_store_def)
    also have "\<dots> = find (\<lambda>te. cx_used te \<and> cx_ref te = tex) es"
      by (rule find_update) (use T t ly1 in \<open>auto simp: te_def\<close>)
    also have "\<dots> = tex_of ly1 tex" by (simp add: tex_of_def ly1)
    also have "\<dots> = tex_of ?ly tex" using T t by blast
    finally show ?thesis .
  qed
  from layer_change_pending [OF m i same this P(2)]
  show ?thesis unfolding P(1) put_layer_pending .
qed

end
