(* ===== verification/App.thy ===== *)
theory App
  imports Client
begin

text \<open>
  The application toolkit \<open>src/scene_app.c\<close>: windows made of seven nodes, their layout, the window
  manager's drag state machine, the chrome buttons, and the pump that runs the handlers on the
  records the client receives.

  The state is \<open>struct scene_app\<close>: the client, the array of 64 windows with the count of those in
  use, the next node id, the drag and the screen geometry. Whether the application registered a
  callback does not matter to the toolkit, so a call of one is recorded as an event in
  \<open>ap_events\<close>. Coordinates are \<open>int32_t\<close>: sums wrap, comparisons are signed. A title is a C
  string, a byte list without its terminator.
\<close>

subsection \<open>State\<close>

abbreviation (input) APP_ID_BASE :: u32 where "APP_ID_BASE \<equiv> 40000"
abbreviation (input) MAX_WINDOWS :: nat where "MAX_WINDOWS \<equiv> 64"
abbreviation (input) WM_TB_H :: i32 where "WM_TB_H \<equiv> 32"
abbreviation (input) WM_EDGE :: i32 where "WM_EDGE \<equiv> 4"
abbreviation (input) WM_MIN_W :: i32 where "WM_MIN_W \<equiv> 96"
abbreviation (input) WM_MIN_H :: i32 where "WM_MIN_H \<equiv> 64"
abbreviation (input) WM_CLOSE_W :: i32 where "WM_CLOSE_W \<equiv> 24"
abbreviation (input) WM_CLOSE_H :: i32 where "WM_CLOSE_H \<equiv> 24"
abbreviation (input) WM_CLOSE_OFF :: i32 where "WM_CLOSE_OFF \<equiv> 28"
abbreviation (input) WM_CLOSE_Y :: i32 where "WM_CLOSE_Y \<equiv> 4"

abbreviation (input) SCENE_ROLE_GENERIC :: u16 where "SCENE_ROLE_GENERIC \<equiv> 0x00"
abbreviation (input) SCENE_ROLE_WINDOW :: u16 where "SCENE_ROLE_WINDOW \<equiv> 0x01"
abbreviation (input) SCENE_ROLE_BUTTON :: u16 where "SCENE_ROLE_BUTTON \<equiv> 0x03"
abbreviation (input) SCENE_ROLE_LABEL :: u16 where "SCENE_ROLE_LABEL \<equiv> 0x06"
abbreviation (input) SCENE_ROLE_TITLEBAR :: u16 where "SCENE_ROLE_TITLEBAR \<equiv> 0x13"

datatype wm_mode = WM_NONE | WM_MOVE | WM_RSIZE_W | WM_RSIZE_H | WM_RSIZE_WH

record app_window =
  aw_window :: u32
  aw_titlebar :: u32
  aw_label :: u32
  aw_close :: u32
  aw_min :: u32
  aw_max :: u32
  aw_content :: u32
  aw_x :: i32
  aw_y :: i32
  aw_w :: i32
  aw_h :: i32
  aw_title :: bytes

record scene_app =
  ap_cl :: scene_client
  ap_next_id :: u32
  ap_slots :: "app_window list"   \<comment> \<open>\<open>MAX_WINDOWS\<close> entries\<close>
  ap_win_count :: nat
  ap_wm_on :: bool
  ap_wm_drag :: bool
  ap_wm_content :: u32
  ap_wm_mode :: wm_mode
  ap_wm_x0 :: i32
  ap_wm_y0 :: i32
  ap_wm_wx :: i32
  ap_wm_wy :: i32
  ap_wm_ww :: i32
  ap_wm_wh :: i32
  ap_scr_w :: i32
  ap_scr_h :: i32
  ap_scr_panel :: i32
  ap_events :: "client_event list"

abbreviation app_wins :: "scene_app \<Rightarrow> app_window list" where
  "app_wins a \<equiv> take (ap_win_count a) (ap_slots a)"

definition no_window :: app_window where
  "no_window = \<lparr>aw_window = 0, aw_titlebar = 0, aw_label = 0, aw_close = 0, aw_min = 0, aw_max = 0,
     aw_content = 0, aw_x = 0, aw_y = 0, aw_w = 0, aw_h = 0, aw_title = []\<rparr>"

text \<open>\<open>opened\<close> is whether the transport connects; without a connection there is no application.\<close>

definition scene_app_new_on :: "bool \<Rightarrow> scene_app option" where
  "scene_app_new_on opened =
     (case scene_client_connect opened scene_client_new of
        (r, c) \<Rightarrow>
          if r \<noteq> 0 then None
          else Some \<lparr>ap_cl = c, ap_next_id = APP_ID_BASE, ap_slots = replicate MAX_WINDOWS no_window,
                     ap_win_count = 0, ap_wm_on = False, ap_wm_drag = False, ap_wm_content = 0,
                     ap_wm_mode = WM_NONE, ap_wm_x0 = 0, ap_wm_y0 = 0, ap_wm_wx = 0, ap_wm_wy = 0,
                     ap_wm_ww = 0, ap_wm_wh = 0, ap_scr_w = 1280, ap_scr_h = 800, ap_scr_panel = 32,
                     ap_events = []\<rparr>)"

subsection \<open>Nodes\<close>

text \<open>A call of the client whose result the toolkit drops.\<close>

definition with_client :: "(scene_client \<Rightarrow> int \<times> scene_client) \<Rightarrow> scene_app \<Rightarrow> scene_app" where
  "with_client f a = a\<lparr>ap_cl := snd (f (ap_cl a))\<rparr>"

text \<open>A call of the client whose result is the result of the operation.\<close>

definition via_client :: "(scene_client \<Rightarrow> int \<times> scene_client) \<Rightarrow> scene_app \<Rightarrow> int \<times> scene_app" where
  "via_client f a = (case f (ap_cl a) of (r, c) \<Rightarrow> (r, a\<lparr>ap_cl := c\<rparr>))"

definition mk_rect :: "i32 \<Rightarrow> i32 \<Rightarrow> i32 \<Rightarrow> i32 \<Rightarrow> rect" where
  "mk_rect x y w h = \<lparr>rx = x, ry = y, rw = w, rh = h\<rparr>"

definition app_node :: "u32 \<Rightarrow> u32 \<Rightarrow> u16 \<Rightarrow> rect \<Rightarrow> scene_app \<Rightarrow> scene_app" where
  "app_node parent nid role r =
     with_client (\<lambda>c. scene_client_create_node c parent nid role r (SCENE_FLAG_VISIBLE OR SCENE_FLAG_FOCUSABLE))"

definition app_text :: "u32 \<Rightarrow> bytes \<Rightarrow> scene_app \<Rightarrow> scene_app" where
  "app_text nid t = with_client (\<lambda>c. scene_client_set_text c nid 0 (Some t) (of_nat (length t)))"

definition app_rect :: "u32 \<Rightarrow> rect \<Rightarrow> scene_app \<Rightarrow> scene_app" where
  "app_rect nid r = with_client (\<lambda>c. scene_client_set_rect c nid r)"

definition scene_app_set_text :: "scene_app \<Rightarrow> u32 \<Rightarrow> u32 \<Rightarrow> bytes option \<Rightarrow> int \<times> scene_app" where
  "scene_app_set_text a nid slot text =
     (case text of None \<Rightarrow> (-1, a)
      | Some t \<Rightarrow> via_client (\<lambda>c. scene_client_set_text c nid slot (Some t) (of_nat (length t))) a)"

definition scene_app_set_rect :: "scene_app \<Rightarrow> u32 \<Rightarrow> i32 \<Rightarrow> i32 \<Rightarrow> i32 \<Rightarrow> i32 \<Rightarrow> int \<times> scene_app" where
  "scene_app_set_rect a nid x y w h = via_client (\<lambda>c. scene_client_set_rect c nid (mk_rect x y w h)) a"

definition scene_app_set_flags :: "scene_app \<Rightarrow> u32 \<Rightarrow> u8 \<Rightarrow> int \<times> scene_app" where
  "scene_app_set_flags a nid flags = via_client (\<lambda>c. scene_client_set_flags c nid flags) a"

definition scene_app_set_texture ::
    "scene_app \<Rightarrow> u32 \<Rightarrow> u32 \<Rightarrow> rect \<Rightarrow> u8 \<Rightarrow> u8 \<Rightarrow> int \<times> scene_app" where
  "scene_app_set_texture a nid ref src blend opacity =
     via_client (\<lambda>c. scene_client_set_texture c nid ref src blend opacity) a"

definition scene_app_import_texture :: "scene_app \<Rightarrow> u32 \<Rightarrow> bytes option \<Rightarrow> int \<times> scene_app" where
  "scene_app_import_texture a ref path =
     (case path of None \<Rightarrow> (-1, a) | Some p \<Rightarrow> via_client (\<lambda>c. scene_client_import_texture c ref p) a)"

definition scene_app_present :: "scene_app \<Rightarrow> int \<times> scene_app" where
  "scene_app_present = via_client (\<lambda>c. scene_client_present c 0)"

definition scene_app_ack :: "scene_app \<Rightarrow> u64 \<Rightarrow> int \<times> scene_app" where
  "scene_app_ack a seq = via_client (\<lambda>c. scene_client_ack c seq) a"

definition scene_app_flush :: "(bytes \<Rightarrow> bool) \<Rightarrow> scene_app \<Rightarrow> int \<times> scene_app" where
  "scene_app_flush send = via_client (scene_client_flush send)"

subsection \<open>Windows\<close>

definition create_nodes :: "u32 \<Rightarrow> i32 \<Rightarrow> i32 \<Rightarrow> i32 \<Rightarrow> i32 \<Rightarrow> bytes option \<Rightarrow> u16 \<Rightarrow> scene_app \<Rightarrow> scene_app" where
  "create_nodes base x y w h title content_role a0 =
     (let a1 = app_node SCENE_NO_PARENT base SCENE_ROLE_WINDOW (mk_rect x y w h) a0;
          a2 = app_node base (base + 1) SCENE_ROLE_TITLEBAR (mk_rect x y w 32) a1;
          a3 = app_node (base + 1) (base + 2) SCENE_ROLE_LABEL (mk_rect (x + 4) (y + 4) (w - 100) (32 - 8)) a2;
          a4 = (case title of Some t \<Rightarrow> if t \<noteq> [] then app_text (base + 2) t a3 else a3 | None \<Rightarrow> a3);
          a5 = app_node (base + 1) (base + 3) SCENE_ROLE_BUTTON (mk_rect (x + w - 28) (y + 4) 24 24) a4;
          a6 = app_text (base + 3) (ascii ''X'') a5;
          a7 = app_node (base + 1) (base + 5) SCENE_ROLE_BUTTON (mk_rect (x + w - 84) (y + 4) 24 24) a6;
          a8 = app_text (base + 5) (ascii ''_'') a7;
          a9 = app_node (base + 1) (base + 6) SCENE_ROLE_BUTTON (mk_rect (x + w - 56) (y + 4) 24 24) a8;
          a10 = app_text (base + 6) [0x7F] a9
      in app_node base (base + 4) content_role (mk_rect x (y + 32) w (h - 32)) a10)"

text \<open>A window's title is cut at 63 bytes; without one the array entry keeps the title of the window
  it held before.\<close>

definition scene_app_create_window_role ::
    "scene_app \<Rightarrow> i32 \<Rightarrow> i32 \<Rightarrow> i32 \<Rightarrow> i32 \<Rightarrow> bytes option \<Rightarrow> u16 \<Rightarrow> u32 \<times> scene_app" where
  "scene_app_create_window_role a x y w h title content_role =
     (if ap_win_count a \<ge> MAX_WINDOWS then (SCENE_NO_PARENT, a)
      else
        let base = ap_next_id a;
            n = ap_win_count a;
            a1 = create_nodes base x y w h title content_role (a\<lparr>ap_next_id := base + 7\<rparr>);
            win = \<lparr>aw_window = base, aw_titlebar = base + 1, aw_label = base + 2, aw_close = base + 3,
                   aw_min = base + 5, aw_max = base + 6, aw_content = base + 4,
                   aw_x = x, aw_y = y, aw_w = w, aw_h = h,
                   aw_title = (case title of Some t \<Rightarrow> take 63 t | None \<Rightarrow> aw_title (ap_slots a ! n))\<rparr>
        in (base + 4, a1\<lparr>ap_win_count := n + 1, ap_slots := (ap_slots a1)[n := win]\<rparr>))"

definition scene_app_create_window ::
    "scene_app \<Rightarrow> i32 \<Rightarrow> i32 \<Rightarrow> i32 \<Rightarrow> i32 \<Rightarrow> bytes option \<Rightarrow> u32 \<times> scene_app" where
  "scene_app_create_window a x y w h title =
     scene_app_create_window_role a x y w h title SCENE_ROLE_GENERIC"

text \<open>The array index of the window with a content node.\<close>

definition find_window :: "scene_app \<Rightarrow> u32 \<Rightarrow> nat option" where
  "find_window a content_id = find (\<lambda>i. aw_content (ap_slots a ! i) = content_id) [0..<ap_win_count a]"

text \<open>Removing an entry moves the later ones down by one; the last entry stays behind, unused.\<close>

definition compact :: "nat \<Rightarrow> scene_app \<Rightarrow> scene_app" where
  "compact i a =
     (let n = ap_win_count a; ws = ap_slots a
      in a\<lparr>ap_slots := take i ws @ drop (Suc i) (take n ws) @ drop (n - 1) ws, ap_win_count := n - 1\<rparr>)"

definition scene_app_destroy_window :: "scene_app \<Rightarrow> u32 \<Rightarrow> int \<times> scene_app" where
  "scene_app_destroy_window a content_id =
     (case find_window a content_id of
        None \<Rightarrow> (-1, a)
      | Some i \<Rightarrow>
          (0, compact i (with_client (\<lambda>c. scene_client_destroy_node c (aw_window (ap_slots a ! i))) a)))"

definition scene_app_content_to_window :: "scene_app \<Rightarrow> u32 \<Rightarrow> u32" where
  "scene_app_content_to_window a content_id =
     (case find_window a content_id of None \<Rightarrow> SCENE_NO_PARENT | Some i \<Rightarrow> aw_window (ap_slots a ! i))"

definition content_rect :: "app_window \<Rightarrow> rect" where
  "content_rect win = mk_rect (aw_x win) (aw_y win + WM_TB_H) (aw_w win) (aw_h win - WM_TB_H)"

definition scene_app_window_rect :: "scene_app \<Rightarrow> u32 \<Rightarrow> rect option" where
  "scene_app_window_rect a content_id =
     map_option (\<lambda>i. content_rect (ap_slots a ! i)) (find_window a content_id)"

definition set_geometry :: "nat \<Rightarrow> i32 \<Rightarrow> i32 \<Rightarrow> i32 \<Rightarrow> i32 \<Rightarrow> scene_app \<Rightarrow> scene_app" where
  "set_geometry i x y w h a =
     a\<lparr>ap_slots := (ap_slots a)[i := (ap_slots a ! i)\<lparr>aw_x := x, aw_y := y, aw_w := w, aw_h := h\<rparr>]\<rparr>"

definition layout_window :: "nat \<Rightarrow> i32 \<Rightarrow> i32 \<Rightarrow> i32 \<Rightarrow> i32 \<Rightarrow> scene_app \<Rightarrow> scene_app" where
  "layout_window i x y w h a0 =
     (let win = ap_slots a0 ! i;
          a1 = app_rect (aw_window win) (mk_rect x y w h) a0;
          a2 = app_rect (aw_titlebar win) (mk_rect x y w WM_TB_H) a1;
          a3 = app_rect (aw_label win) (mk_rect (x + 4) (y + 4) (w - 100) (WM_TB_H - 8)) a2;
          a4 = app_rect (aw_close win) (mk_rect (x + w - WM_CLOSE_OFF) (y + WM_CLOSE_Y) WM_CLOSE_W WM_CLOSE_H) a3;
          a5 = app_rect (aw_max win) (mk_rect (x + w - WM_CLOSE_OFF - 28) (y + WM_CLOSE_Y) WM_CLOSE_W WM_CLOSE_H) a4;
          a6 = app_rect (aw_min win) (mk_rect (x + w - WM_CLOSE_OFF - 56) (y + WM_CLOSE_Y) WM_CLOSE_W WM_CLOSE_H) a5;
          a7 = app_rect (aw_content win) (mk_rect x (y + WM_TB_H) w (h - WM_TB_H)) a6
      in set_geometry i x y w h a7)"

definition scene_app_set_title :: "scene_app \<Rightarrow> u32 \<Rightarrow> bytes option \<Rightarrow> int \<times> scene_app" where
  "scene_app_set_title a content_id title =
     (case title of None \<Rightarrow> (-1, a)
      | Some t \<Rightarrow>
          case find_window a content_id of None \<Rightarrow> (-1, a)
          | Some i \<Rightarrow>
              let win = ap_slots a ! i
              in via_client (\<lambda>c. scene_client_set_text c (aw_label win) 0 (Some t) (of_nat (length t)))
                   (a\<lparr>ap_slots := (ap_slots a)[i := win\<lparr>aw_title := take 63 t\<rparr>]\<rparr>))"

definition scene_app_resize_window :: "scene_app \<Rightarrow> u32 \<Rightarrow> i32 \<Rightarrow> i32 \<Rightarrow> int \<times> scene_app" where
  "scene_app_resize_window a content_id w h =
     (case find_window a content_id of
        None \<Rightarrow> (-1, a)
      | Some i \<Rightarrow> (0, layout_window i (aw_x (ap_slots a ! i)) (aw_y (ap_slots a ! i)) w h a))"

definition scene_app_minimize :: "scene_app \<Rightarrow> u32 \<Rightarrow> int \<times> scene_app" where
  "scene_app_minimize a content_id =
     (case find_window a content_id of
        None \<Rightarrow> (-1, a)
      | Some i \<Rightarrow> via_client (\<lambda>c. scene_client_set_flags c (aw_window (ap_slots a ! i)) 0) a)"

definition scene_app_maximize :: "scene_app \<Rightarrow> u32 \<Rightarrow> i32 \<Rightarrow> i32 \<Rightarrow> i32 \<Rightarrow> int \<times> scene_app" where
  "scene_app_maximize a content_id screen_w screen_h panel_h =
     (case find_window a content_id of
        None \<Rightarrow> (-1, a)
      | Some i \<Rightarrow>
          let win = ap_slots a ! i; win_w = screen_w; win_h = screen_h - panel_h;
              a1 = app_rect (aw_window win) (mk_rect 0 0 win_w win_h) a;
              a2 = set_geometry i 0 0 win_w win_h a1;
              a3 = app_rect (aw_titlebar win) (mk_rect 0 0 win_w 32) a2;
              a4 = app_rect (aw_label win) (mk_rect 4 4 (win_w - 100) (32 - 8)) a3;
              a5 = app_rect (aw_close win) (mk_rect (win_w - 28) 4 24 24) a4;
              a6 = app_rect (aw_max win) (mk_rect (win_w - 56) 4 24 24) a5;
              a7 = app_rect (aw_min win) (mk_rect (win_w - 84) 4 24 24) a6;
              a8 = app_rect (aw_content win) (mk_rect 0 32 win_w (win_h - 32)) a7
          in via_client (\<lambda>c. scene_client_set_flags c (aw_window win)
                               (SCENE_FLAG_VISIBLE OR SCENE_FLAG_FOCUSABLE)) a8)"

definition scene_app_set_wm :: "scene_app \<Rightarrow> bool \<Rightarrow> scene_app" where
  "scene_app_set_wm a on = (if on then a else a\<lparr>ap_wm_drag := False\<rparr>)\<lparr>ap_wm_on := on\<rparr>"

definition scene_app_set_screen :: "scene_app \<Rightarrow> i32 \<Rightarrow> i32 \<Rightarrow> i32 \<Rightarrow> int \<times> scene_app" where
  "scene_app_set_screen a w h panel_h =
     (if sint w \<le> 0 \<or> sint h \<le> 0 \<or> sint panel_h < 0 then (-1, a)
      else (0, a\<lparr>ap_scr_w := w, ap_scr_h := h, ap_scr_panel := panel_h\<rparr>))"

subsection \<open>The drag state machine\<close>

definition in_span :: "i32 \<Rightarrow> i32 \<Rightarrow> i32 \<Rightarrow> bool" where
  "in_span lo len v \<longleftrightarrow> sint lo \<le> sint v \<and> sint v < sint (lo + len)"

definition win_holds :: "i32 \<Rightarrow> i32 \<Rightarrow> app_window \<Rightarrow> bool" where
  "win_holds x y win \<longleftrightarrow> in_span (aw_x win) (aw_w win) x \<and> in_span (aw_y win) (aw_h win) y"

definition grab_mode :: "app_window \<Rightarrow> i32 \<Rightarrow> i32 \<Rightarrow> wm_mode" where
  "grab_mode win x y =
     (let right = (sint x \<ge> sint (aw_x win + aw_w win - WM_EDGE));
          bottom = (sint y \<ge> sint (aw_y win + aw_h win - WM_EDGE));
          bx = aw_x win + aw_w win - WM_CLOSE_OFF - 56;
          by' = aw_y win + WM_CLOSE_Y
      in if right \<and> bottom then WM_RSIZE_WH
         else if right then WM_RSIZE_W
         else if bottom then WM_RSIZE_H
         else if sint y < sint (aw_y win + WM_TB_H) \<and> \<not> (in_span bx 80 x \<and> in_span by' WM_CLOSE_H y)
         then WM_MOVE
         else WM_NONE)"

definition drag_size :: "i32 \<Rightarrow> i32 \<Rightarrow> i32" where
  "drag_size v least = (if sint v < sint least then least else v)"

definition wm_motion :: "scene_app \<Rightarrow> i32 \<Rightarrow> i32 \<Rightarrow> scene_app" where
  "wm_motion a x y =
     (case find_window a (ap_wm_content a) of
        None \<Rightarrow> a\<lparr>ap_wm_drag := False\<rparr>
      | Some i \<Rightarrow>
          let win = ap_slots a ! i; dx = x - ap_wm_x0 a; dy = y - ap_wm_y0 a
          in if ap_wm_mode a = WM_MOVE
             then layout_window i (ap_wm_wx a + dx) (ap_wm_wy a + dy) (aw_w win) (aw_h win) a
             else
               let nw = (if ap_wm_mode a \<in> {WM_RSIZE_W, WM_RSIZE_WH}
                         then drag_size (ap_wm_ww a + dx) WM_MIN_W else ap_wm_ww a);
                   nh = (if ap_wm_mode a \<in> {WM_RSIZE_H, WM_RSIZE_WH}
                         then drag_size (ap_wm_wh a + dy) WM_MIN_H else ap_wm_wh a)
               in layout_window i (ap_wm_wx a) (ap_wm_wy a) nw nh a)"

text \<open>The topmost window at the point is the last one of the array that holds it.\<close>

definition wm_grab :: "scene_app \<Rightarrow> i32 \<Rightarrow> i32 \<Rightarrow> scene_app" where
  "wm_grab a x y =
     (case find (win_holds x y) (rev (app_wins a)) of
        None \<Rightarrow> a
      | Some win \<Rightarrow>
          let mode = grab_mode win x y
          in if mode = WM_NONE then a
             else a\<lparr>ap_wm_drag := True, ap_wm_content := aw_content win, ap_wm_mode := mode,
                    ap_wm_x0 := x, ap_wm_y0 := y, ap_wm_wx := aw_x win, ap_wm_wy := aw_y win,
                    ap_wm_ww := aw_w win, ap_wm_wh := aw_h win\<rparr>)"

definition wm_input_pointer :: "scene_app \<Rightarrow> i32 \<Rightarrow> i32 \<Rightarrow> u8 \<Rightarrow> scene_app" where
  "wm_input_pointer a x y btns =
     (if btns AND 1 = 0 then a\<lparr>ap_wm_drag := False\<rparr>
      else if ap_wm_drag a then wm_motion a x y
      else wm_grab a x y)"

subsection \<open>Handlers and pump\<close>

definition app_callback :: "client_event \<Rightarrow> scene_app \<Rightarrow> scene_app" where
  "app_callback ev a = a\<lparr>ap_events := ap_events a @ [ev]\<rparr>"

definition on_input_pointer :: "scene_app \<Rightarrow> u64 \<Rightarrow> u8 \<Rightarrow> i32 \<Rightarrow> i32 \<Rightarrow> u8 \<Rightarrow> scene_app" where
  "on_input_pointer a seq dev x y btns =
     app_callback (EvInputPointer seq dev x y btns)
       (if ap_wm_on a then snd (scene_app_ack (wm_input_pointer a x y btns) seq) else a)"

definition on_input_activate :: "scene_app \<Rightarrow> u64 \<Rightarrow> u32 \<Rightarrow> scene_app" where
  "on_input_activate a seq nid =
     (case find (\<lambda>win. aw_min win = nid \<or> aw_max win = nid) (app_wins a) of
        None \<Rightarrow> app_callback (EvInputActivate seq nid) a
      | Some win \<Rightarrow>
          let a1 = (if aw_min win = nid then snd (scene_app_minimize a (aw_content win))
                    else snd (scene_app_maximize a (aw_content win) (ap_scr_w a) (ap_scr_h a) (ap_scr_panel a)))
          in snd (scene_app_ack a1 seq))"

text \<open>The table of client callbacks; the others do nothing.\<close>

fun handle_event :: "client_event \<Rightarrow> scene_app \<Rightarrow> scene_app" where
  "handle_event (EvInputPointer seq dev x y btns) a = on_input_pointer a seq dev x y btns"
| "handle_event (EvInputActivate seq nid) a = on_input_activate a seq nid"
| "handle_event (EvInputFocus seq nid state) a = app_callback (EvInputFocus seq nid state) a"
| "handle_event (EvInputKey seq key state mods) a = app_callback (EvInputKey seq key state mods) a"
| "handle_event (EvInputText seq t) a = app_callback (EvInputText seq t) a"
| "handle_event (EvImportResult ref ok) a = app_callback (EvImportResult ref ok) a"
| "handle_event _ a = a"

text \<open>A record is dispatched by the client, and the callbacks it makes run at once.\<close>

definition with_events :: "(scene_client \<Rightarrow> scene_client) \<Rightarrow> scene_app \<Rightarrow> scene_app" where
  "with_events f a =
     (let c = ap_cl a; c' = f c
      in fold handle_event (drop (length (cl_events c)) (cl_events c')) (a\<lparr>ap_cl := c'\<rparr>))"

function app_pump_loop :: "(bytes \<Rightarrow> bool) \<Rightarrow> bytes \<Rightarrow> nat \<Rightarrow> scene_app \<Rightarrow> bool \<times> scene_app" where
  "app_pump_loop send buf off a =
     (let c = ap_cl a; avail = length buf - off; keep = (\<lambda>c. c\<lparr>cl_in := buf, cl_in_off := off\<rparr>)
      in if avail < SCENE_HEADER_SIZE then (True, a\<lparr>ap_cl := keep c\<rparr>)
         else
           let f = drop off buf;
               plen = scene_get_u32 f 8;
               maxr = (if cl_welcomed c then max_record_length (cl_lim c) else 16 * 1024 * 1024)
           in if plen > maxr
              then (False, with_events (\<lambda>c. cli_violation (keep c) ''oversized record'') a)
              else
                let tot = 16 + unat plen
                in if avail < tot then (True, a\<lparr>ap_cl := keep c\<rparr>)
                   else
                     let h = \<lparr>fh_magic = scene_get_u32 f 0, fh_version = scene_get_u16 f 4,
                              fh_opcode = scene_get_u16 f 6, fh_length = plen,
                              fh_checksum = scene_get_u32 f 12\<rparr>
                     in if scene_frame_check h f (16 + plen) \<noteq> 0
                        then (False, with_events (\<lambda>c. cli_violation (keep c) ''bad frame'') a)
                        else
                          let a1 = with_events (\<lambda>c. dispatch send c (fh_opcode h) (drop 16 f) plen) a
                          in if off + tot = length buf then app_pump_loop send [] 0 a1
                             else app_pump_loop send buf (off + tot) a1)"
  by pat_completeness auto

termination
  by (relation "measure (\<lambda>(_, buf, off, _). length buf - off)") auto

declare app_pump_loop.simps [simp del]

definition scene_app_pump :: "(bytes \<Rightarrow> bool) \<Rightarrow> recv_result \<Rightarrow> scene_app \<Rightarrow> int \<times> scene_app" where
  "scene_app_pump send recv a =
     (if \<not> cl_conn_open (ap_cl a) then (-1, a)
      else if recv = RecvClosed
      then (-1, with_events (\<lambda>c. deliver (c\<lparr>cl_conn_open := False\<rparr>) EvClosed) a)
      else
        let batch = (case recv of RecvData bs \<Rightarrow> bs | _ \<Rightarrow> []); c = ap_cl a;
            (more, a1) = app_pump_loop send (cl_in c @ batch) (cl_in_off c) a; c1 = ap_cl a1
        in if more \<and> cl_in_off c1 > 4096
           then (0, a1\<lparr>ap_cl := c1\<lparr>cl_in := drop (cl_in_off c1) (cl_in c1), cl_in_off := 0\<rparr>\<rparr>)
           else (0, a1))"

end
