(* ===== verification/AppOk.thy ===== *)
theory AppOk
  imports App EndToEnd Reach
begin

text \<open>
  What an application built on the toolkit shows. The specification of the screen is a list of
  windows: \<open>desk_tree\<close> and \<open>desk_rects\<close> are the nodes and the rectangles of these windows.
  Every operation of the toolkit, and every event its handlers see, is shown to send commands
  that turn a document that shows the windows into one that shows the windows after it; so what
  the toolkit has sent, run on an empty document, succeeds and yields exactly its windows.
\<close>

subsection \<open>Windows as a document\<close>

abbreviation leaf :: "u32 \<Rightarrow> u32 tree" where "leaf k \<equiv> \<langle>\<langle>\<rangle>, k, \<langle>\<rangle>\<rangle>"

definition frame_tree :: "app_window \<Rightarrow> u32 tree" where
  "frame_tree w =
     \<langle>\<langle>\<langle>\<rangle>, aw_label w, \<langle>\<langle>\<rangle>, aw_close w, \<langle>\<langle>\<rangle>, aw_min w, leaf (aw_max w)\<rangle>\<rangle>\<rangle>, aw_titlebar w, leaf (aw_content w)\<rangle>"

fun desk_tree :: "app_window list \<Rightarrow> u32 tree" where
  "desk_tree [] = \<langle>\<rangle>"
| "desk_tree (w # ws) = \<langle>frame_tree w, aw_window w, desk_tree ws\<rangle>"

definition win_parts :: "app_window \<Rightarrow> (u32 \<times> rect) list" where
  "win_parts w =
     (let x = aw_x w; y = aw_y w; ww = aw_w w; hh = aw_h w
      in [(aw_window w, mk_rect x y ww hh),
          (aw_titlebar w, mk_rect x y ww 32),
          (aw_label w, mk_rect (x + 4) (y + 4) (ww - 100) 24),
          (aw_close w, mk_rect (x + ww - 28) (y + 4) 24 24),
          (aw_max w, mk_rect (x + ww - 56) (y + 4) 24 24),
          (aw_min w, mk_rect (x + ww - 84) (y + 4) 24 24),
          (aw_content w, content_rect w)])"

definition desk_parts :: "app_window list \<Rightarrow> (u32 \<times> rect) list" where
  "desk_parts ws = concat (map win_parts ws)"

definition desk_ids :: "app_window list \<Rightarrow> u32 list" where
  "desk_ids ws = map fst (desk_parts ws)"

lemma desk_ids_simps [simp]:
  "desk_ids [] = []"
  "desk_ids (w # ws) = aw_window w # aw_titlebar w # aw_label w # aw_close w # aw_max w # aw_min w #
     aw_content w # desk_ids ws"
  "desk_ids (ws @ ws') = desk_ids ws @ desk_ids ws'"
  by (simp_all add: desk_ids_def desk_parts_def win_parts_def Let_def)

text \<open>The rectangles of a document, and a document all of whose nodes are live.\<close>

definition rects :: "doc \<Rightarrow> u32 \<Rightarrow> rect option" where
  "rects d k = map_option nd_rect (dc_attr d k)"

definition plain_node :: "node \<Rightarrow> bool" where
  "plain_node n \<longleftrightarrow> \<not> nd_stale n \<and> ts_id ` set (nd_texts n) \<subseteq> {0}"

definition fresh_doc :: "doc \<Rightarrow> bool" where
  "fresh_doc d \<longleftrightarrow> dom (dc_attr d) = set_tree (dc_tree d) \<and>
     (\<forall>k n. dc_attr d k = Some n \<longrightarrow> plain_node n)"

definition pictures :: "doc \<Rightarrow> u32 tree \<Rightarrow> (u32 \<Rightarrow> rect option) \<Rightarrow> bool" where
  "pictures d t m \<longleftrightarrow> fresh_doc d \<and> dc_tree d = t \<and> rects d = m"

definition desk_rects :: "app_window list \<Rightarrow> u32 \<Rightarrow> rect option" where
  "desk_rects ws = map_of (desk_parts ws)"

definition shows_windows :: "app_window list \<Rightarrow> doc \<Rightarrow> bool" where
  "shows_windows ws d \<longleftrightarrow> pictures d (desk_tree ws) (desk_rects ws)"

lemma pictures_attr: "pictures d t m \<Longrightarrow> k \<in> set_tree t \<Longrightarrow> \<exists>n. dc_attr d k = Some n \<and> plain_node n"
  using domD [of k "dc_attr d"] by (auto simp: pictures_def fresh_doc_def)

lemma pictures_live: "pictures d t m \<Longrightarrow> k \<in> set_tree t \<Longrightarrow> doc_live d k"
  by (fastforce simp: pictures_def fresh_doc_def doc_live_def plain_node_def split: option.split)

lemma pictures_absent: "pictures d t m \<Longrightarrow> k \<notin> set_tree t \<Longrightarrow> \<not> doc_live d k \<and> dc_attr d k = None"
  by (auto simp: pictures_def fresh_doc_def doc_live_def split: option.split)

subsection \<open>One command\<close>

definition desk_limits :: "scene_limits \<Rightarrow> bool" where
  "desk_limits lim \<longleftrightarrow> 448 \<le> max_nodes_per_session lim \<and> 0 < max_text_slots_per_node lim \<and>
     0 < max_text_bytes_per_slot lim"

lemma fresh_doc_update:
  assumes "fresh_doc d" "\<And>n. plain_node n \<Longrightarrow> plain_node (f n)"
  shows "fresh_doc (doc_update k f d)"
  using assms by (auto simp: fresh_doc_def doc_update_def dom_def split: if_splits)

lemma pictures_update:
  assumes "pictures d t m" "\<And>n. plain_node n \<Longrightarrow> plain_node (f n)" "\<And>n. nd_rect (f n) = nd_rect n"
  shows "pictures (doc_update k f d) t m"
  using assms fresh_doc_update [of d f k]
  by (auto simp: pictures_def rects_def doc_update_def fun_eq_iff option.map_comp o_def split: option.split)

lemma pictures_rect:
  assumes "pictures d t m" "k \<in> set_tree t"
  shows "pictures (doc_update k (\<lambda>n. n\<lparr>nd_rect := r\<rparr>) d) t (m(k \<mapsto> r))"
proof -
  have "\<exists>n. dc_attr d k = Some n" using assms by (auto simp: pictures_def fresh_doc_def)
  moreover have "fresh_doc (doc_update k (\<lambda>n. n\<lparr>nd_rect := r\<rparr>) d)"
    using assms(1) by (intro fresh_doc_update) (simp_all add: pictures_def plain_node_def)
  ultimately show ?thesis using assms(1)
    by (auto simp: pictures_def rects_def doc_update_def fun_eq_iff)
qed

lemma set_upd_kids_snoc:
  "q \<in> set_tree t \<Longrightarrow> distinct (preorder t) \<Longrightarrow>
   set_tree (upd_kids q (\<lambda>k. snoc k (leaf nid)) t) = insert nid (set_tree t)"
proof (induction t)
  case (Node l x r)
  then consider "q = x" | "q \<in> set_tree l" "q \<notin> set_tree r" "q \<noteq> x" | "q \<in> set_tree r" "q \<notin> set_tree l" "q \<noteq> x"
    by auto
  then show ?case using Node by cases auto
qed simp

lemma set_under:
  "parent = SCENE_NO_PARENT \<or> parent \<in> set_tree t \<Longrightarrow> distinct (preorder t) \<Longrightarrow>
   set_tree (under parent (\<lambda>k. snoc k (leaf nid)) t) = insert nid (set_tree t)"
  using set_upd_kids_snoc [of parent t nid] by (auto simp: under_def)

lemma pictures_insert:
  assumes "pictures d t m" "parent = SCENE_NO_PARENT \<or> parent \<in> set_tree t" "distinct (preorder t)"
    and "nd_rect n = r" "plain_node n"
  shows "pictures (doc_insert parent nid n d) (under parent (\<lambda>k. snoc k (leaf nid)) t) (m(nid \<mapsto> r))"
  using assms set_under [OF assms(2,3), of nid]
  by (auto simp: pictures_def fresh_doc_def doc_insert_def rects_def fun_eq_iff)

text \<open>A list of commands that succeeds, whatever the sequence numbers.\<close>

definition runs :: "scene_limits \<Rightarrow> doc \<Rightarrow> command list \<Rightarrow> doc \<Rightarrow> bool" where
  "runs lim d cmds d' \<longleftrightarrow>
     (\<forall>e n. ev_lim e = lim \<longrightarrow> (\<exists>rs. command_session e n d cmds = (OpOk, d', rs)))"

lemma runs_nil: "runs lim d [] d"
  by (simp add: runs_def)

lemma runs_one:
  assumes "\<And>e. ev_lim e = lim \<Longrightarrow> \<exists>rs. doc_command e cmd d = (OpOk, d', rs)"
  shows "runs lim d [cmd] d'"
  unfolding runs_def
proof (intro allI impI)
  fix e :: env and n :: u64
  assume "ev_lim e = lim"
  with assms obtain rs where "doc_command e cmd d = (OpOk, d', rs)" by blast
  then show "\<exists>rs. command_session e n d [cmd] = (OpOk, d', rs)" by simp
qed

lemma runs_append:
  assumes "runs lim d cmds d'" "runs lim d' cmds' d''"
  shows "runs lim d (cmds @ cmds') d''"
  unfolding runs_def
proof (intro allI impI)
  fix e :: env and n :: u64
  assume "ev_lim e = lim"
  moreover have "\<exists>rs. command_session e n d (cmds @ cmds') = (OpOk, d'', rs)"
    if "ev_lim e = lim" "\<exists>rs. command_session e n d cmds = (OpOk, d', rs)" for e n d
    using that
  proof (induction cmds arbitrary: e n d)
    case Nil
    then show ?case using assms(2) by (simp add: runs_def)
  next
    case (Cons cmd cmds)
    obtain d1 rs1 where "doc_command e cmd d = (OpOk, d1, rs1)"
      using Cons.prems(2) by (auto split: prod.splits op_status.splits)
    then show ?case
      using Cons.IH [of "e\<lparr>ev_seq := n\<rparr>" "n + 1" d1] Cons.prems by (auto split: prod.splits)
  qed
  ultimately show "\<exists>rs. command_session e n d (cmds @ cmds') = (OpOk, d'', rs)"
    using assms(1) by (auto simp: runs_def)
qed

lemma runs_rect:
  "pictures d t m \<Longrightarrow> k \<in> set_tree t \<Longrightarrow>
   runs lim d [SetRect k r] (doc_update k (\<lambda>n. n\<lparr>nd_rect := r\<rparr>) d)"
  by (intro runs_one) (simp add: set_attr_def pictures_live)

lemma runs_flags:
  "pictures d t m \<Longrightarrow> k \<in> set_tree t \<Longrightarrow>
   runs lim d [SetFlags k f] (doc_update k (\<lambda>n. n\<lparr>nd_flags := f\<rparr>) d)"
  by (intro runs_one) (simp add: set_attr_def pictures_live)

lemma runs_text:
  assumes "pictures d t m" "k \<in> set_tree t" "of_nat (length s) \<le> max_text_bytes_per_slot lim"
    "0 < max_text_slots_per_node lim"
  shows "runs lim d [SetText k 0 s] (doc_update k (put_text 0 s) d)"
proof (rule runs_one)
  fix e :: env assume lim: "ev_lim e = lim"
  obtain n where n: "dc_attr d k = Some n" "ts_id ` set (nd_texts n) \<subseteq> {0}"
    using pictures_attr [OF assms(1,2)] by (auto simp: plain_node_def)
  have "length (nd_texts n) = 0" if "0 \<notin> ts_id ` set (nd_texts n)"
    using that n(2) by (cases "nd_texts n") auto
  then have fits: "\<not> (0 \<notin> ts_id ` set (nd_texts n) \<and> length (nd_texts n) \<ge> unat (max_text_slots_per_node (ev_lim e)))"
  proof -
    have "0 < unat (max_text_slots_per_node (ev_lim e))" using assms(4) lim by (simp add: word_less_nat_alt)
    with \<open>0 \<notin> ts_id ` set (nd_texts n) \<Longrightarrow> length (nd_texts n) = 0\<close> show ?thesis by linarith
  qed
  have live: "doc_live d k" using pictures_live [OF assms(1,2)] .
  have short: "\<not> of_nat (length s) > max_text_bytes_per_slot (ev_lim e)" using assms(3) lim by (simp add: not_less)
  show "\<exists>rs. doc_command e (SetText k 0 s) d = (OpOk, doc_update k (put_text 0 s) d, rs)"
    unfolding doc_command.simps text_command_def Let_def n(1) option.case if_not_P [OF fits] if_not_P [OF short]
    using live by (simp only: not_True_eq_False if_False) blast
qed

lemma plain_put_text:
  assumes "plain_node n"
  shows "plain_node (put_text 0 s n)"
proof -
  have "set (nd_texts (put_text 0 s n)) \<subseteq> insert \<lparr>ts_id = 0, ts_data = s\<rparr> (set (nd_texts n))"
    using set_update_subset_insert [of "nd_texts n" "text_index (nd_texts n) 0"] by (simp add: put_text_def)
  moreover have "nd_stale (put_text 0 s n) = nd_stale n" by (simp add: put_text_def)
  ultimately show ?thesis using assms unfolding plain_node_def by fastforce
qed

lemma runs_create:
  assumes d: "pictures d t m" and p: "parent = SCENE_NO_PARENT \<or> parent \<in> set_tree t"
    and k: "nid \<notin> set_tree t" and sz: "size t < unat (max_nodes_per_session lim)"
  shows "\<exists>n. nd_rect n = r \<and> plain_node n \<and> runs lim d [Create parent nid role r flags] (doc_insert parent nid n d)"
proof -
  let ?n = "payload (fresh_node\<lparr>nd_id := nid, nd_role := role, nd_flags := flags, nd_rect := r,
      nd_tex := SCENE_NO_TEXTURE, nd_blend := 0, nd_opacity := 255\<rparr>)"
  have "parent = SCENE_NO_PARENT \<or> doc_live d parent" using p pictures_live [OF d] by blast
  then have "runs lim d [Create parent nid role r flags] (doc_insert parent nid ?n d)"
    using pictures_absent [OF d k] sz d
    by (intro runs_one) (simp add: create_command_def Let_def pictures_def)
  moreover have "nd_rect ?n = r" "plain_node ?n"
    by (simp_all add: payload_def fresh_node_def zero_node_def plain_node_def)
  ultimately show ?thesis by blast
qed

lemma runs_destroy:
  "pictures d t m \<Longrightarrow> k \<in> set_tree t \<Longrightarrow> runs lim d [Destroy k] (doc_delete k d)"
  by (intro runs_one) (auto simp: pictures_def fresh_doc_def)

subsection \<open>What a client's calls draw\<close>

text \<open>From one state of the client to a later one: the log grows by commands, and these commands,
  run on any document that pictures the first state, yield one that pictures the second.\<close>

definition paints ::
    "scene_client \<Rightarrow> u32 tree \<Rightarrow> (u32 \<Rightarrow> rect option) \<Rightarrow> scene_client \<Rightarrow> u32 tree \<Rightarrow> (u32 \<Rightarrow> rect option) \<Rightarrow> bool" where
  "paints c t m c' t' m' \<longleftrightarrow>
     (ready c \<and> desk_limits (cl_lim c) \<longrightarrow>
        ready c' \<and> cl_lim c' = cl_lim c \<and>
        (\<forall>d. pictures d t m \<longrightarrow> (\<exists>d' cmds. pictures d' t' m' \<and> list_all (sendable c) cmds \<and>
           cl_log c' = cl_log c @ map logged_command cmds \<and> runs (cl_lim c) d cmds d')))"

lemma paints_refl: "paints c t m c t m"
  by (auto simp: paints_def intro!: exI [of _ "[]"] runs_nil)

lemma paints_trans:
  assumes "paints c t m c1 t1 m1" "paints c1 t1 m1 c2 t2 m2"
  shows "paints c t m c2 t2 m2"
  unfolding paints_def
proof (intro impI conjI allI)
  assume c: "ready c \<and> desk_limits (cl_lim c)"
  have c1: "ready c1 \<and> desk_limits (cl_lim c1)" "cl_lim c1 = cl_lim c"
    using assms(1) c by (auto simp: paints_def)
  show "ready c2" "cl_lim c2 = cl_lim c"
    using assms(2) c1 by (auto simp: paints_def)
  fix d assume "pictures d t m"
  then obtain d1 cmds1 where 1: "pictures d1 t1 m1" "list_all (sendable c) cmds1"
    "cl_log c1 = cl_log c @ map logged_command cmds1" "runs (cl_lim c) d cmds1 d1"
    using assms(1) c unfolding paints_def by blast
  then obtain d2 cmds2 where 2: "pictures d2 t2 m2" "list_all (sendable c1) cmds2"
    "cl_log c2 = cl_log c1 @ map logged_command cmds2" "runs (cl_lim c) d1 cmds2 d2"
    using assms(2) c1 unfolding paints_def by metis
  moreover have "list_all (sendable c) cmds2"
    using 2(2) sendable_lim [OF c1(2)] by (simp add: list_all_iff)
  ultimately show "\<exists>d' cmds. pictures d' t2 m2 \<and> list_all (sendable c) cmds \<and>
      cl_log c2 = cl_log c @ map logged_command cmds \<and> runs (cl_lim c) d cmds d'"
    using 1 runs_append by (intro exI [of _ d2] exI [of _ "cmds1 @ cmds2"]) auto
qed

lemma issue_paints:
  assumes "sendable c cmd"
    and "\<And>d. pictures d t m \<Longrightarrow> desk_limits (cl_lim c) \<Longrightarrow> \<exists>d'. pictures d' t' m' \<and> runs (cl_lim c) d [cmd] d'"
  shows "paints c t m (snd (issue cmd c)) t' m'"
  unfolding paints_def
proof (intro impI conjI allI)
  assume c: "ready c \<and> desk_limits (cl_lim c)"
  have i: "issue cmd c = cli_emit c (opcode_of cmd) (body_of cmd) False True"
    using assms(1) by (rule issue_emits)
  show "ready (snd (issue cmd c))" "cl_lim (snd (issue cmd c)) = cl_lim c"
    using c unfolding i by (auto simp: ready_def cli_emit_def clog_append_def Let_def)
  fix d assume "pictures d t m"
  then obtain d' where "pictures d' t' m'" "runs (cl_lim c) d [cmd] d'" using assms(2) c by blast
  moreover have "cl_log (snd (issue cmd c)) = cl_log c @ map logged_command [cmd]"
    using c unfolding i by (auto simp: ready_def cli_emit_def clog_append_def Let_def logged_command_def)
  ultimately show "\<exists>d' cmds. pictures d' t' m' \<and> list_all (sendable c) cmds \<and>
      cl_log (snd (issue cmd c)) = cl_log c @ map logged_command cmds \<and> runs (cl_lim c) d cmds d'"
    using assms(1) by (intro exI [of _ d'] exI [of _ "[cmd]"]) simp
qed

lemma paints_rect:
  assumes "k \<in> set_tree t"
  shows "paints c t m (snd (scene_client_set_rect c k r)) t (m(k \<mapsto> r))"
proof -
  have "paints c t m (snd (issue (SetRect k r) c)) t (m(k \<mapsto> r))"
    using pictures_rect [OF _ assms] runs_rect [OF _ assms] by (intro issue_paints) (simp, blast)
  then show ?thesis by simp
qed

lemma paints_flags:
  assumes "k \<in> set_tree t"
  shows "paints c t m (snd (scene_client_set_flags c k f)) t m"
proof -
  have "\<exists>d'. pictures d' t m \<and> runs (cl_lim c) d [SetFlags k f] d'" if "pictures d t m" for d
    using runs_flags [OF that assms, of "cl_lim c" f] pictures_update [OF that, of "\<lambda>n. n\<lparr>nd_flags := f\<rparr>" k]
    by (auto simp: plain_node_def)
  then have "paints c t m (snd (issue (SetFlags k f) c)) t m" by (intro issue_paints) simp_all
  then show ?thesis by simp
qed

text \<open>A text beyond the limit is refused by the client, and nothing is sent.\<close>

lemma paints_text:
  assumes "k \<in> set_tree t" "length s < 2 ^ 31"
  shows "paints c t m (snd (scene_client_set_text c k 0 (Some s) (of_nat (length s)))) t m"
proof (cases "of_nat (length s) > max_text_bytes_per_slot (cl_lim c)")
  case True
  then show ?thesis by (simp add: scene_client_set_text_def cli_set_text_like_def paints_refl)
next
  case False
  have "\<exists>d'. pictures d' t m \<and> runs (cl_lim c) d [SetText k 0 s] d'"
    if "pictures d t m" "desk_limits (cl_lim c)" for d
    using that runs_text [OF that(1) assms(1), of s "cl_lim c"] False
      pictures_update [OF that(1), of "put_text 0 s" k] plain_put_text
    by (auto simp: desk_limits_def not_less put_text_def)
  then have "paints c t m (snd (issue (SetText k 0 s) c)) t m"
    using False assms(2) by (intro issue_paints) (simp_all add: not_less)
  then show ?thesis by simp
qed

lemma paints_node:
  assumes "parent = SCENE_NO_PARENT \<or> parent \<in> set_tree t" "distinct (preorder t)"
    and "nid \<notin> set_tree t" "nid \<noteq> 0" "nid \<noteq> SCENE_NO_PARENT" "size t < 448" "role \<le> SCENE_ROLE_MAX"
  shows "paints c t m (snd (scene_client_create_node c parent nid role r flags))
    (under parent (\<lambda>k. snoc k (leaf nid)) t) (m(nid \<mapsto> r))"
proof -
  have "\<exists>d'. pictures d' (under parent (\<lambda>k. snoc k (leaf nid)) t) (m(nid \<mapsto> r)) \<and>
      runs (cl_lim c) d [Create parent nid role r flags] d'"
    if "pictures d t m" "desk_limits (cl_lim c)" for d
  proof -
    have "size t < unat (max_nodes_per_session (cl_lim c))"
      using that(2) assms(6) by (simp add: desk_limits_def word_le_nat_alt)
    from runs_create [OF that(1) assms(1,3) this, of r role flags] show ?thesis
      using pictures_insert [OF that(1) assms(1,2)] by blast
  qed
  then have "paints c t m (snd (issue (Create parent nid role r flags) c))
      (under parent (\<lambda>k. snoc k (leaf nid)) t) (m(nid \<mapsto> r))"
    using assms by (intro issue_paints) simp_all
  then show ?thesis by simp
qed

lemma paints_destroy:
  assumes "k \<in> set_tree t" "distinct (preorder t)" "set_tree (prune k t) = set_tree t - insert k (set_tree (kids k t))"
  shows "paints c t m (snd (scene_client_destroy_node c k)) (prune k t) (m |` (- insert k (set_tree (kids k t))))"
proof -
  have "pictures (doc_delete k d) (prune k t) (m |` (- insert k (set_tree (kids k t))))" if "pictures d t m" for d
    using that assms(3)
    by (auto simp: pictures_def fresh_doc_def doc_delete_def rects_def fun_eq_iff restrict_map_def dom_def)
  then have "paints c t m (snd (issue (Destroy k) c)) (prune k t) (m |` (- insert k (set_tree (kids k t))))"
    using runs_destroy [OF _ assms(1)] by (intro issue_paints) (simp, blast)
  then show ?thesis by simp
qed

lemma paints_unlogged:
  "ready c \<longrightarrow> ready c' \<and> cl_lim c' = cl_lim c \<and> cl_log c' = cl_log c \<Longrightarrow> paints c t m c' t m"
  by (auto simp: paints_def intro!: exI [of _ "[]"] runs_nil)

lemma paints_ack: "paints c t m (snd (scene_client_ack c seq)) t m"
  by (rule paints_unlogged) (auto simp: ready_def scene_client_ack_def cli_emit_def Let_def)

lemma paints_present: "paints c t m (snd (scene_client_present c token)) t m"
  by (rule paints_unlogged) (auto simp: ready_def scene_client_present_def cli_emit_def Let_def)

text \<open>A run of rectangles.\<close>

definition send_rects :: "(u32 \<times> rect) list \<Rightarrow> scene_client \<Rightarrow> scene_client" where
  "send_rects = fold (\<lambda>(k, r) c. snd (scene_client_set_rect c k r))"

lemma paints_rects:
  "fst ` set krs \<subseteq> set_tree t \<Longrightarrow> paints c t m (send_rects krs c) t (m ++ map_of (rev krs))"
proof (induction krs arbitrary: c m)
  case Nil
  then show ?case by (simp add: send_rects_def paints_refl)
next
  case (Cons kr krs)
  obtain k r where kr: "kr = (k, r)" by (cases kr)
  have "paints c t m (snd (scene_client_set_rect c k r)) t (m(k \<mapsto> r))"
    using Cons.prems by (intro paints_rect) (simp add: kr)
  moreover have "paints (snd (scene_client_set_rect c k r)) t (m(k \<mapsto> r))
      (send_rects krs (snd (scene_client_set_rect c k r))) t (m(k \<mapsto> r) ++ map_of (rev krs))"
    using Cons by simp
  ultimately show ?case using paints_trans by (fastforce simp: kr send_rects_def)
qed

subsection \<open>Windows\<close>

lemma set_desk_tree [simp]: "set_tree (desk_tree ws) = set (desk_ids ws)"
  by (induction ws) (auto simp: frame_tree_def)

lemma distinct_desk_tree [simp]: "distinct (preorder (desk_tree ws)) \<longleftrightarrow> distinct (desk_ids ws)"
  by (induction ws) (auto simp: frame_tree_def)

lemma size_desk_tree [simp]: "size (desk_tree ws) = 7 * length ws"
  by (induction ws) (auto simp: frame_tree_def)

lemma desk_tree_append: "desk_tree (ws @ ws') = snoc (desk_tree ws) (desk_tree ws')"
  by (induction ws) auto

lemma win_parts_ids [simp]: "map fst (win_parts w) = [aw_window w, aw_titlebar w, aw_label w, aw_close w, aw_max w,
    aw_min w, aw_content w]"
  by (simp add: win_parts_def Let_def)

lemma desk_rects_append: "desk_rects (ws @ ws') = desk_rects ws' ++ desk_rects ws"
  by (simp add: desk_rects_def desk_parts_def)

lemma dom_desk_rects: "dom (desk_rects ws) = set (desk_ids ws)"
  by (simp add: desk_rects_def dom_map_of_conv_image_fst desk_ids_def)

lemma map_add_rev:
  "distinct (map fst xs) \<Longrightarrow> map_of (rev xs) = map_of xs"
  by (rule map_of_inject_set [THEN iffD2]) (simp_all add: rev_map [symmetric])

lemma map_add_replace:
  assumes "dom q = dom p" "dom a \<inter> dom p = {}"
  shows "b ++ p ++ a = b ++ q ++ a ++ p"
proof (rule ext)
  fix x
  show "(b ++ p ++ a) x = (b ++ q ++ a ++ p) x"
  proof (cases "x \<in> dom p")
    case True
    then have "x \<notin> dom a" using assms(2) by blast
    with True show ?thesis by (simp add: map_add_dom_app_simps)
  next
    case False
    then have "x \<notin> dom q" using assms(1) by blast
    with False show ?thesis by (cases "x \<in> dom a") (simp_all add: map_add_dom_app_simps)
  qed
qed

text \<open>A window that keeps its nodes: only their rectangles change.\<close>

lemma desk_update:
  assumes "i < length ws" "map fst (win_parts w) = map fst (win_parts (ws ! i))" "distinct (desk_ids ws)"
  shows "desk_ids (ws[i := w]) = desk_ids ws" "desk_tree (ws[i := w]) = desk_tree ws"
    and "desk_rects (ws[i := w]) = desk_rects ws ++ map_of (rev (win_parts w))"
proof -
  obtain A v B where ws: "ws = A @ v # B" "ws[i := w] = A @ w # B" "v = ws ! i"
    using assms(1) by (metis id_take_nth_drop upd_conv_take_nth_drop)
  have ids: "map fst (win_parts w) = map fst (win_parts v)" using assms(2) ws(3) by simp
  then show "desk_ids (ws[i := w]) = desk_ids ws" unfolding ws(2) unfolding ws(1) by simp
  show "desk_tree (ws[i := w]) = desk_tree ws"
    using ids unfolding ws(2) unfolding ws(1) by (simp add: desk_tree_append frame_tree_def)
  let ?p = "map_of (win_parts w)" and ?q = "map_of (win_parts v)"
  have dst: "distinct (desk_ids A @ map fst (win_parts v) @ desk_ids B)"
    using assms(3) unfolding ws(1) by simp
  have "map_of (rev (win_parts w)) = ?p" using dst ids by (intro map_add_rev) simp
  moreover have "dom ?q = dom ?p" using ids by (metis dom_map_of_conv_image_fst list.set_map)
  moreover have "dom (desk_rects A) \<inter> dom ?p = {}"
    using dst ids set_map [of fst "win_parts w"] unfolding dom_desk_rects dom_map_of_conv_image_fst
    by (simp only: list.set_map [symmetric] distinct_append set_append) blast
  moreover have "desk_rects [u] = map_of (win_parts u)" for u by (simp add: desk_rects_def desk_parts_def)
  ultimately have "desk_rects B ++ ?p ++ desk_rects A = (desk_rects B ++ ?q ++ desk_rects A) ++ map_of (rev (win_parts w))"
    using map_add_replace by simp
  then show "desk_rects (ws[i := w]) = desk_rects ws ++ map_of (rev (win_parts w))"
    using desk_rects_append [of A "[w] @ B"] desk_rects_append [of A "[v] @ B"]
      desk_rects_append [of "[w]" B] desk_rects_append [of "[v]" B]
      \<open>\<And>u. desk_rects [u] = map_of (win_parts u)\<close>
    unfolding ws(2) unfolding ws(1) by (simp add: map_add_assoc)
qed

definition wins_ok :: "scene_app \<Rightarrow> bool" where
  "wins_ok a \<longleftrightarrow> length (ap_slots a) = MAX_WINDOWS \<and> ap_win_count a \<le> MAX_WINDOWS \<and>
     distinct (desk_ids (app_wins a)) \<and> 40000 \<le> unat (ap_next_id a) \<and>
     (\<forall>k \<in> set (desk_ids (app_wins a)). unat k < unat (ap_next_id a))"

definition draws :: "scene_app \<Rightarrow> scene_app \<Rightarrow> bool" where
  "draws a a' \<longleftrightarrow>
     paints (ap_cl a) (desk_tree (app_wins a)) (desk_rects (app_wins a))
       (ap_cl a') (desk_tree (app_wins a')) (desk_rects (app_wins a'))"

lemma draws_refl: "ap_cl a' = ap_cl a \<Longrightarrow> app_wins a' = app_wins a \<Longrightarrow> draws a a'"
  by (simp add: draws_def paints_refl)

lemma draws_trans: "draws a a1 \<Longrightarrow> draws a1 a2 \<Longrightarrow> draws a a2"
  unfolding draws_def by (rule paints_trans)

lemma find_window_Some:
  "find_window a k = Some i \<Longrightarrow> i < ap_win_count a \<and> aw_content (ap_slots a ! i) = k"
  by (auto simp: find_window_def find_Some_iff)

lemma win_ids_in:
  assumes "i < ap_win_count a" "wins_ok a"
  shows "fst ` set (win_parts (ap_slots a ! i)) \<subseteq> set (desk_ids (app_wins a))"
proof -
  have "ap_slots a ! i \<in> set (app_wins a)"
    using assms in_set_conv_nth [of _ "app_wins a"] by (auto simp: wins_ok_def)
  then show ?thesis by (auto simp: desk_ids_def desk_parts_def rev_image_eqI)
qed

text \<open>A change of the array entry of a window that keeps its nodes.\<close>

lemma wins_ok_entry:
  assumes a: "wins_ok a" "i < ap_win_count a" and ids: "map fst (win_parts w) = map fst (win_parts (ap_slots a ! i))"
    and a': "ap_slots a' = (ap_slots a)[i := w]" "ap_win_count a' = ap_win_count a" "ap_next_id a' = ap_next_id a"
  shows "wins_ok a'" "desk_tree (app_wins a') = desk_tree (app_wins a)"
    "desk_rects (app_wins a') = desk_rects (app_wins a) ++ map_of (rev (win_parts w))"
proof -
  have i: "i < length (app_wins a)" "app_wins a ! i = ap_slots a ! i" "app_wins a' = (app_wins a)[i := w]"
    using a a' by (simp_all add: wins_ok_def take_update_swap)
  note U = desk_update [OF i(1), unfolded i(2), OF ids, folded i(3)]
  show "wins_ok a'" using a(1) a' U(1) by (simp add: wins_ok_def)
  show "desk_tree (app_wins a') = desk_tree (app_wins a)"
    "desk_rects (app_wins a') = desk_rects (app_wins a) ++ map_of (rev (win_parts w))"
    using U(2,3) a(1) by (simp_all add: wins_ok_def)
qed

lemmas app_ops = with_client_def via_client_def app_rect_def app_text_def app_node_def set_geometry_def

definition placed :: "i32 \<Rightarrow> i32 \<Rightarrow> i32 \<Rightarrow> i32 \<Rightarrow> app_window \<Rightarrow> app_window" where
  "placed x y w h win = win\<lparr>aw_x := x, aw_y := y, aw_w := w, aw_h := h\<rparr>"

lemma layout_window_client:
  "layout_window i x y w h a =
     a\<lparr>ap_cl := send_rects (win_parts (placed x y w h (ap_slots a ! i))) (ap_cl a),
       ap_slots := (ap_slots a)[i := placed x y w h (ap_slots a ! i)]\<rparr>"
  by (simp add: layout_window_def app_ops Let_def win_parts_def send_rects_def placed_def content_rect_def)

lemma layout_draws:
  assumes "wins_ok a" "i < ap_win_count a"
  shows "draws a (layout_window i x y w h a) \<and> wins_ok (layout_window i x y w h a)"
proof -
  let ?w = "placed x y w h (ap_slots a ! i)" and ?a = "layout_window i x y w h a"
  have ids: "map fst (win_parts ?w) = map fst (win_parts (ap_slots a ! i))" by (simp add: placed_def)
  note U = wins_ok_entry [OF assms ids, of ?a]
  have "fst ` set (win_parts ?w) \<subseteq> set_tree (desk_tree (app_wins a))"
    using win_ids_in [OF assms(2,1)] ids by (metis list.set_map set_desk_tree)
  from paints_rects [OF this] have "draws a ?a"
    unfolding draws_def using U(2,3) by (simp add: layout_window_client)
  then show ?thesis using U(1) by (simp add: layout_window_client)
qed

text \<open>A call of the client that changes no rectangle.\<close>

lemma client_draws:
  assumes "\<And>t m. t = desk_tree (app_wins a) \<Longrightarrow> paints (ap_cl a) t m (snd (f (ap_cl a))) t m" "wins_ok a"
  shows "draws a (with_client f a) \<and> wins_ok (with_client f a)"
    "draws a (snd (via_client f a)) \<and> wins_ok (snd (via_client f a))"
  using assms by (simp_all add: draws_def wins_ok_def with_client_def via_client_def split_def)

subsection \<open>Destroying a window\<close>

lemma desk_ids_mid:
  assumes "distinct (desk_ids (A @ w # B))"
  shows "set (desk_ids [w]) \<inter> set (desk_ids (A @ B)) = {}" "distinct (desk_ids (A @ B))"
    "set (desk_ids (A @ B)) = set (desk_ids (A @ w # B)) - set (desk_ids [w])"
    "aw_window w \<notin> set (desk_ids A)"
proof -
  have e: "desk_ids (A @ w # B) = desk_ids A @ desk_ids [w] @ desk_ids B" by simp
  note D = assms [unfolded e distinct_append set_append]
  show "set (desk_ids [w]) \<inter> set (desk_ids (A @ B)) = {}"
    "set (desk_ids (A @ B)) = set (desk_ids (A @ w # B)) - set (desk_ids [w])"
    unfolding e desk_ids_simps(3) [of A B] set_append using D by blast+
  show "distinct (desk_ids (A @ B))" unfolding desk_ids_simps(3) distinct_append using D by blast
  have "aw_window w \<in> set (desk_ids [w])" by simp
  then show "aw_window w \<notin> set (desk_ids A)" using D by blast
qed

lemma desk_cut:
  assumes "distinct (desk_ids (A @ w # B))"
  shows "kids (aw_window w) (desk_tree (A @ w # B)) = frame_tree w"
    "prune (aw_window w) (desk_tree (A @ w # B)) = desk_tree (A @ B)"
proof -
  have "aw_window w \<notin> set (desk_ids A)" using assms by (rule desk_ids_mid)
  then have "kids (aw_window w) (desk_tree (A @ w # B)) = frame_tree w \<and>
      prune (aw_window w) (desk_tree (A @ w # B)) = desk_tree (A @ B)"
  proof (induction A)
    case (Cons v A)
    then have v: "aw_window w \<notin> set_tree (frame_tree v)" "aw_window w \<noteq> aw_window v" "aw_window w \<notin> set (desk_ids A)"
      by (simp_all add: frame_tree_def)
    then show ?case using Cons.IH by simp
  qed simp
  then show "kids (aw_window w) (desk_tree (A @ w # B)) = frame_tree w"
    "prune (aw_window w) (desk_tree (A @ w # B)) = desk_tree (A @ B)" by simp_all
qed

lemma set_frame_tree: "insert (aw_window w) (set_tree (frame_tree w)) = set (desk_ids [w])"
  by (auto simp: frame_tree_def)

lemma desk_rects_remove:
  assumes "distinct (desk_ids (A @ w # B))"
  shows "desk_rects (A @ w # B) |` (- set (desk_ids [w])) = desk_rects (A @ B)"
proof (rule ext)
  fix k
  have dst: "set (desk_ids [w]) \<inter> set (desk_ids (A @ B)) = {}"
    using assms by (rule desk_ids_mid)
  have e: "desk_rects (A @ w # B) = desk_rects B ++ desk_rects [w] ++ desk_rects A"
    "desk_rects (A @ B) = desk_rects B ++ desk_rects A"
    using desk_rects_append [of A "[w] @ B"] desk_rects_append [of "[w]" B] desk_rects_append [of A B]
    by (simp_all add: map_add_assoc)
  show "(desk_rects (A @ w # B) |` (- set (desk_ids [w]))) k = desk_rects (A @ B) k"
  proof (cases "k \<in> set (desk_ids [w])")
    case True
    then have "k \<notin> dom (desk_rects (A @ B))" using dst unfolding dom_desk_rects by blast
    then show ?thesis using True by (simp only: restrict_map_def domIff Compl_iff not_True_eq_False if_False not_not)
  next
    case False
    then have "k \<notin> dom (desk_rects [w])" unfolding dom_desk_rects .
    then show ?thesis using False unfolding e
      by (cases "k \<in> dom (desk_rects A)") (simp_all add: map_add_dom_app_simps restrict_map_def)
  qed
qed

lemma compact_wins:
  assumes "i < ap_win_count a" "length (ap_slots a) = MAX_WINDOWS" "ap_win_count a \<le> MAX_WINDOWS"
  shows "app_wins (compact i a) = take i (app_wins a) @ drop (Suc i) (app_wins a)"
    "length (ap_slots (compact i a)) = MAX_WINDOWS"
proof -
  have "min (ap_win_count a - 1) i = i" using assms(1) by simp
  then show "app_wins (compact i a) = take i (app_wins a) @ drop (Suc i) (app_wins a)"
    "length (ap_slots (compact i a)) = MAX_WINDOWS"
    using assms by (auto simp: compact_def Let_def min_def)
qed

lemma destroy_draws:
  assumes a: "wins_ok a" and f: "find_window a k = Some i"
  defines "a' \<equiv> snd (scene_app_destroy_window a k)"
  shows "draws a a' \<and> wins_ok a'"
proof -
  let ?w = "ap_slots a ! i" and ?A = "take i (app_wins a)" and ?B = "drop (Suc i) (app_wins a)"
  have i: "i < ap_win_count a" "i < length (app_wins a)" "app_wins a ! i = ?w"
    using find_window_Some [OF f] a by (simp_all add: wins_ok_def)
  have split: "app_wins a = ?A @ ?w # ?B" using id_take_nth_drop [OF i(2)] i(3) by simp
  have dst: "distinct (desk_ids (?A @ ?w # ?B))" using a split by (simp add: wins_ok_def)
  have a': "a' = compact i (with_client (\<lambda>c. scene_client_destroy_node c (aw_window ?w)) a)"
    by (simp add: a'_def scene_app_destroy_window_def f)
  have wins: "app_wins a' = ?A @ ?B" "length (ap_slots a') = MAX_WINDOWS"
    using compact_wins [of i "with_client (\<lambda>c. scene_client_destroy_node c (aw_window ?w)) a"] i(1) a
    unfolding a' by (simp_all add: wins_ok_def with_client_def)
  have cl: "ap_cl a' = snd (scene_client_destroy_node (ap_cl a) (aw_window ?w))"
    "ap_win_count a' = ap_win_count a - 1" "ap_next_id a' = ap_next_id a"
    by (simp_all add: a' compact_def with_client_def Let_def)
  note C = desk_cut [OF dst] desk_rects_remove [OF dst]
  have "set_tree (prune (aw_window ?w) (desk_tree (?A @ ?w # ?B))) =
      set_tree (desk_tree (?A @ ?w # ?B)) - insert (aw_window ?w) (set_tree (kids (aw_window ?w) (desk_tree (?A @ ?w # ?B))))"
    unfolding C(1,2) set_frame_tree set_desk_tree by (rule desk_ids_mid(3) [OF dst])
  from paints_destroy [OF _ _ this, of "ap_cl a" "desk_rects (?A @ ?w # ?B)"]
  have "paints (ap_cl a) (desk_tree (?A @ ?w # ?B)) (desk_rects (?A @ ?w # ?B)) (ap_cl a')
      (desk_tree (?A @ ?B)) (desk_rects (?A @ ?B))"
    using dst unfolding C(1,2) set_frame_tree C(3) cl by simp
  then have "draws a a'" unfolding draws_def wins(1) using split by simp
  have "set (desk_ids (?A @ ?B)) \<subseteq> set (desk_ids (app_wins a))"
    using desk_ids_mid(3) [OF dst] split by (metis Diff_subset)
  moreover have "ap_win_count a' \<le> MAX_WINDOWS" using a cl(2) unfolding wins_ok_def by linarith
  ultimately have "wins_ok a'"
    using a wins(2) desk_ids_mid(2) [OF dst] unfolding wins_ok_def wins(1) cl(3) by blast
  with \<open>draws a a'\<close> show ?thesis ..
qed

subsection \<open>Creating a window\<close>

lemma upd_kids_snoc_right: "q \<notin> set_tree t \<Longrightarrow> upd_kids q f (snoc t x) = snoc t (upd_kids q f x)"
  by (induction t) auto

lemma slots_under:
  "distinct (preorder (snoc t x)) \<longleftrightarrow> distinct (preorder t) \<and> distinct (preorder x) \<and> set_tree t \<inter> set_tree x = {}"
proof -
  have "distinct (preorder (snoc t x)) \<longleftrightarrow> distinct (preorder t @ preorder x)"
    by (rule mset_eq_imp_distinct_iff) simp
  then show ?thesis by simp
qed

text \<open>The growing subtree \<open>x\<close> of a new window, to the right of the windows there are.\<close>

lemma paints_child:
  assumes t: "distinct (preorder t)" "set_tree t \<inter> insert nid (set_tree x) = {}" "size t + size x < 448"
    and x: "distinct (preorder x)" "nid \<notin> set_tree x" "parent \<in> set_tree x" "parent \<noteq> SCENE_NO_PARENT"
    and nid: "nid \<noteq> 0" "nid \<noteq> SCENE_NO_PARENT" "role \<le> SCENE_ROLE_MAX"
    and x': "x' = upd_kids parent (\<lambda>k. snoc k (leaf nid)) x"
  shows "paints c (snoc t x) m (snd (scene_client_create_node c parent nid role r flags)) (snoc t x') (m(nid \<mapsto> r))"
proof -
  have sz: "size (snoc t x) = size t + size x" by (induction t) auto
  have "under parent (\<lambda>k. snoc k (leaf nid)) (snoc t x) = snoc t x'"
    using x t(2) by (auto simp: under_def x' intro!: upd_kids_snoc_right)
  moreover have "distinct (preorder (snoc t x))" using t x by (simp add: slots_under)
  ultimately show ?thesis
    using paints_node [of parent "snoc t x" nid role c m r flags] t x nid sz by auto
qed

definition window_frame :: "u32 \<Rightarrow> u32 tree" where
  "window_frame b =
     \<langle>\<langle>\<langle>\<langle>\<rangle>, b + 2, \<langle>\<langle>\<rangle>, b + 3, \<langle>\<langle>\<rangle>, b + 5, leaf (b + 6)\<rangle>\<rangle>\<rangle>, b + 1, leaf (b + 4)\<rangle>, b, \<langle>\<rangle>\<rangle>"

definition node_step :: "u32 \<Rightarrow> u32 \<Rightarrow> u16 \<Rightarrow> rect \<Rightarrow> scene_client \<Rightarrow> scene_client" where
  "node_step parent nid role r c =
     snd (scene_client_create_node c parent nid role r (SCENE_FLAG_VISIBLE OR SCENE_FLAG_FOCUSABLE))"

definition text_step :: "u32 \<Rightarrow> bytes \<Rightarrow> scene_client \<Rightarrow> scene_client" where
  "text_step nid s c = snd (scene_client_set_text c nid 0 (Some s) (of_nat (length s)))"

definition title_step :: "u32 \<Rightarrow> bytes option \<Rightarrow> scene_client \<Rightarrow> scene_client" where
  "title_step nid title c = (case title of Some s \<Rightarrow> if s \<noteq> [] then text_step nid s c else c | None \<Rightarrow> c)"

lemma create_nodes_client:
  "create_nodes b x y w h title role a = a\<lparr>ap_cl :=
     (let c1 = node_step SCENE_NO_PARENT b SCENE_ROLE_WINDOW (mk_rect x y w h) (ap_cl a);
          c2 = node_step b (b + 1) SCENE_ROLE_TITLEBAR (mk_rect x y w 32) c1;
          c3 = node_step (b + 1) (b + 2) SCENE_ROLE_LABEL (mk_rect (x + 4) (y + 4) (w - 100) (32 - 8)) c2;
          c4 = title_step (b + 2) title c3;
          c5 = node_step (b + 1) (b + 3) SCENE_ROLE_BUTTON (mk_rect (x + w - 28) (y + 4) 24 24) c4;
          c6 = text_step (b + 3) (ascii ''X'') c5;
          c7 = node_step (b + 1) (b + 5) SCENE_ROLE_BUTTON (mk_rect (x + w - 84) (y + 4) 24 24) c6;
          c8 = text_step (b + 5) (ascii ''_'') c7;
          c9 = node_step (b + 1) (b + 6) SCENE_ROLE_BUTTON (mk_rect (x + w - 56) (y + 4) 24 24) c8;
          c10 = text_step (b + 6) [0x7F] c9
      in node_step b (b + 4) role (mk_rect x (y + 32) w (h - 32)) c10)\<rparr>"
  by (simp add: create_nodes_def app_ops node_step_def text_step_def title_step_def Let_def split: option.split)

lemma paints_text_step:
  "k \<in> set_tree t \<Longrightarrow> length s < 2 ^ 31 \<Longrightarrow> paints c t m (text_step k s c) t m"
  unfolding text_step_def by (rule paints_text)

text \<open>Seven fresh ids.\<close>

lemma fresh_ids:
  assumes "40000 \<le> unat b" "unat b < 2 ^ 32 - 10"
  shows "b + 1 \<noteq> 0 \<and> b + 2 \<noteq> 0 \<and> b + 3 \<noteq> 0 \<and> b + 4 \<noteq> 0 \<and> b + 5 \<noteq> 0 \<and> b + 6 \<noteq> 0 \<and> b \<noteq> (0 :: u32)"
    and "b \<noteq> SCENE_NO_PARENT \<and> b + 1 \<noteq> SCENE_NO_PARENT \<and> b + 2 \<noteq> SCENE_NO_PARENT \<and> b + 3 \<noteq> SCENE_NO_PARENT \<and>
      b + 4 \<noteq> SCENE_NO_PARENT \<and> b + 5 \<noteq> SCENE_NO_PARENT \<and> b + 6 \<noteq> SCENE_NO_PARENT"
    and "unat (b + 1) = unat b + 1 \<and> unat (b + 2) = unat b + 2 \<and> unat (b + 3) = unat b + 3 \<and>
      unat (b + 4) = unat b + 4 \<and> unat (b + 5) = unat b + 5 \<and> unat (b + 6) = unat b + 6 \<and> unat (b + 7) = unat b + 7"
proof -
  have u: "unat (b + k) = unat b + unat k" if "unat k \<le> 7" for k
    using that assms(2) by (intro unat_add_lem [THEN iffD1]) simp
  show U: "unat (b + 1) = unat b + 1 \<and> unat (b + 2) = unat b + 2 \<and> unat (b + 3) = unat b + 3 \<and>
      unat (b + 4) = unat b + 4 \<and> unat (b + 5) = unat b + 5 \<and> unat (b + 6) = unat b + 6 \<and> unat (b + 7) = unat b + 7"
    using u [of 1] u [of 2] u [of 3] u [of 4] u [of 5] u [of 6] u [of 7] by simp
  have z: "k \<noteq> 0 \<and> k \<noteq> SCENE_NO_PARENT" if "40000 \<le> unat k" "unat k < 2 ^ 32 - 2" for k :: u32
    using that by auto
  show "b + 1 \<noteq> 0 \<and> b + 2 \<noteq> 0 \<and> b + 3 \<noteq> 0 \<and> b + 4 \<noteq> 0 \<and> b + 5 \<noteq> 0 \<and> b + 6 \<noteq> 0 \<and> b \<noteq> 0"
    "b \<noteq> SCENE_NO_PARENT \<and> b + 1 \<noteq> SCENE_NO_PARENT \<and> b + 2 \<noteq> SCENE_NO_PARENT \<and> b + 3 \<noteq> SCENE_NO_PARENT \<and>
      b + 4 \<noteq> SCENE_NO_PARENT \<and> b + 5 \<noteq> SCENE_NO_PARENT \<and> b + 6 \<noteq> SCENE_NO_PARENT"
    using z [of b] z [of "b + 1"] z [of "b + 2"] z [of "b + 3"] z [of "b + 4"] z [of "b + 5"] z [of "b + 6"] U assms
    by (simp_all only:) auto
qed

lemma create_paints:
  assumes t: "distinct (preorder t)" "size t + 7 \<le> 448" "\<And>k. k \<in> set_tree t \<Longrightarrow> unat k < unat b"
    and b: "40000 \<le> unat b" "unat b < 2 ^ 32 - 10" and role: "role \<le> SCENE_ROLE_MAX"
    and title: "case title of Some s \<Rightarrow> length s < 2 ^ 31 | None \<Rightarrow> True" and cl: "ap_cl a = c"
  shows "paints c t m (ap_cl (create_nodes b x y w h title role a)) (snoc t (window_frame b))
    (m(b \<mapsto> mk_rect x y w h, b + 1 \<mapsto> mk_rect x y w 32, b + 2 \<mapsto> mk_rect (x + 4) (y + 4) (w - 100) (32 - 8),
       b + 3 \<mapsto> mk_rect (x + w - 28) (y + 4) 24 24, b + 5 \<mapsto> mk_rect (x + w - 84) (y + 4) 24 24,
       b + 6 \<mapsto> mk_rect (x + w - 56) (y + 4) 24 24, b + 4 \<mapsto> mk_rect x (y + 32) w (h - 32)))"
proof -
  note F = fresh_ids [OF b]
  have out: "b \<notin> set_tree t" "b + 1 \<notin> set_tree t" "b + 2 \<notin> set_tree t" "b + 3 \<notin> set_tree t"
    "b + 4 \<notin> set_tree t" "b + 5 \<notin> set_tree t" "b + 6 \<notin> set_tree t"
    using t(3) [of b] t(3) [of "b + 1"] t(3) [of "b + 2"] t(3) [of "b + 3"] t(3) [of "b + 4"] t(3) [of "b + 5"]
      t(3) [of "b + 6"] F(3) by auto
  define x2 where "x2 = \<langle>leaf (b + 1), b, \<langle>\<rangle>\<rangle>"
  define x3 where "x3 = \<langle>\<langle>leaf (b + 2), b + 1, \<langle>\<rangle>\<rangle>, b, \<langle>\<rangle>\<rangle>"
  define x5 where "x5 = \<langle>\<langle>\<langle>\<langle>\<rangle>, b + 2, leaf (b + 3)\<rangle>, b + 1, \<langle>\<rangle>\<rangle>, b, \<langle>\<rangle>\<rangle>"
  define x7 where "x7 = \<langle>\<langle>\<langle>\<langle>\<rangle>, b + 2, \<langle>\<langle>\<rangle>, b + 3, leaf (b + 5)\<rangle>\<rangle>, b + 1, \<langle>\<rangle>\<rangle>, b, \<langle>\<rangle>\<rangle>"
  define x9 where "x9 = \<langle>\<langle>\<langle>\<langle>\<rangle>, b + 2, \<langle>\<langle>\<rangle>, b + 3, \<langle>\<langle>\<rangle>, b + 5, leaf (b + 6)\<rangle>\<rangle>\<rangle>, b + 1, \<langle>\<rangle>\<rangle>, b, \<langle>\<rangle>\<rangle>"
  note X = x2_def x3_def x5_def x7_def x9_def window_frame_def
  have 1: "paints c t m (node_step SCENE_NO_PARENT b SCENE_ROLE_WINDOW r c) (snoc t (leaf b)) (m(b \<mapsto> r))" for c m r
    using paints_node [of SCENE_NO_PARENT t b SCENE_ROLE_WINDOW c m r] t(1,2) out F(1,2)
    by (simp add: node_step_def under_def)
  have step: "paints c (snoc t xa) m (node_step parent nid role r c) (snoc t xb) (m(nid \<mapsto> r))"
    if "nid \<notin> set_tree t" "set_tree t \<inter> set_tree xa = {}" "size xa < 7" "distinct (preorder xa)" "nid \<notin> set_tree xa"
      "parent \<in> set_tree xa" "parent \<noteq> SCENE_NO_PARENT" "nid \<noteq> 0" "nid \<noteq> SCENE_NO_PARENT" "role \<le> SCENE_ROLE_MAX"
      "xb = upd_kids parent (\<lambda>k. snoc k (leaf nid)) xa" for c xa m parent nid role r xb
    unfolding node_step_def using that t(1,2) by (intro paints_child) auto
  have 2: "paints c (snoc t (leaf b)) m (node_step b (b + 1) SCENE_ROLE_TITLEBAR r c) (snoc t x2) (m(b + 1 \<mapsto> r))" for c m r
    using out F(1,2) by (intro step) (simp_all add: X)
  have 3: "paints c (snoc t x2) m (node_step (b + 1) (b + 2) SCENE_ROLE_LABEL r c) (snoc t x3) (m(b + 2 \<mapsto> r))" for c m r
    using out F(1,2) by (intro step) (simp_all add: X)
  have 5: "paints c (snoc t x3) m (node_step (b + 1) (b + 3) SCENE_ROLE_BUTTON r c) (snoc t x5) (m(b + 3 \<mapsto> r))" for c m r
    using out F(1,2) by (intro step) (simp_all add: X)
  have 7: "paints c (snoc t x5) m (node_step (b + 1) (b + 5) SCENE_ROLE_BUTTON r c) (snoc t x7) (m(b + 5 \<mapsto> r))" for c m r
    using out F(1,2) by (intro step) (simp_all add: X)
  have 9: "paints c (snoc t x7) m (node_step (b + 1) (b + 6) SCENE_ROLE_BUTTON r c) (snoc t x9) (m(b + 6 \<mapsto> r))" for c m r
    using out F(1,2) by (intro step) (simp_all add: X)
  have 11: "paints c (snoc t x9) m (node_step b (b + 4) role r c) (snoc t (window_frame b)) (m(b + 4 \<mapsto> r))" for c m r
    using out F(1,2) role by (intro step) (simp_all add: X)
  have 4: "paints c (snoc t x3) m (title_step (b + 2) title c) (snoc t x3) m" for c m
    using title by (auto simp: X title_step_def paints_refl intro!: paints_text_step split: option.splits)
  have 6: "paints c (snoc t x5) m (text_step (b + 3) (ascii ''X'') c) (snoc t x5) m" for c m
    by (intro paints_text_step) (simp_all add: X ascii_def)
  have 8: "paints c (snoc t x7) m (text_step (b + 5) (ascii ''_'') c) (snoc t x7) m" for c m
    by (intro paints_text_step) (simp_all add: X ascii_def)
  have 10: "paints c (snoc t x9) m (text_step (b + 6) [0x7F] c) (snoc t x9) m" for c m
    by (intro paints_text_step) (simp_all add: X)
  have sel: "ap_cl (a\<lparr>ap_cl := c'\<rparr>) = c'" for c' by simp
  show ?thesis
    unfolding create_nodes_client Let_def cl sel
    by (rule paints_trans [OF paints_trans [OF paints_trans [OF paints_trans [OF paints_trans [OF paints_trans
          [OF paints_trans [OF paints_trans [OF paints_trans [OF paints_trans [OF 1 2] 3] 4] 5] 6] 7] 8] 9] 10] 11])
qed

lemma map_upds_window:
  assumes "distinct [b, b + 1, b + 2, b + 3, b + 5, b + 6, b + (4 :: u32)]"
  shows "m(b \<mapsto> r0, b + 1 \<mapsto> r1, b + 2 \<mapsto> r2, b + 3 \<mapsto> r3, b + 5 \<mapsto> r5, b + 6 \<mapsto> r6, b + 4 \<mapsto> r4) =
    m ++ map_of [(b, r0), (b + 1, r1), (b + 2, r2), (b + 3, r3), (b + 6, r6), (b + 5, r5), (b + 4, r4)]"
  using assms by (auto simp: fun_eq_iff map_add_def)

lemma create_draws:
  fixes x y w h :: i32
  assumes a: "wins_ok a" and n: "unat (ap_next_id a) < 2 ^ 32 - 10" and role: "role \<le> SCENE_ROLE_MAX"
    and title: "case title of Some s \<Rightarrow> length s < 2 ^ 31 | None \<Rightarrow> True"
  defines "a' \<equiv> snd (scene_app_create_window_role a x y w h title role)"
  shows "draws a a' \<and> wins_ok a' \<and> unat (ap_next_id a') \<le> unat (ap_next_id a) + 7"
proof (cases "ap_win_count a \<ge> MAX_WINDOWS")
  case True
  then show ?thesis using a by (simp add: a'_def scene_app_create_window_role_def draws_refl)
next
  case False
  let ?b = "ap_next_id a" and ?n = "ap_win_count a"
  have b: "40000 \<le> unat ?b" using a by (simp add: wins_ok_def)
  note F = fresh_ids [OF b n]
  define a1 where "a1 = create_nodes ?b x y w h title role (a\<lparr>ap_next_id := ?b + 7\<rparr>)"
  define win where "win = \<lparr>aw_window = ?b, aw_titlebar = ?b + 1, aw_label = ?b + 2, aw_close = ?b + 3,
      aw_min = ?b + 5, aw_max = ?b + 6, aw_content = ?b + 4, aw_x = x, aw_y = y, aw_w = w, aw_h = h,
      aw_title = (case title of Some t \<Rightarrow> take 63 t | None \<Rightarrow> aw_title (ap_slots a ! ?n))\<rparr>"
  have slots: "ap_slots a1 = ap_slots a" "ap_win_count a1 = ?n" "ap_next_id a1 = ?b + 7"
    by (simp_all add: a1_def create_nodes_client)
  have a': "a' = a1\<lparr>ap_win_count := ?n + 1, ap_slots := (ap_slots a1)[?n := win]\<rparr>"
    using False by (simp add: a'_def scene_app_create_window_role_def Let_def a1_def win_def)
  have len: "?n < length (ap_slots a)" using a False by (simp add: wins_ok_def)
  have wins: "app_wins a' = app_wins a @ [win]"
    using len by (simp add: a' slots take_Suc_conv_app_nth)
  have out: "k \<in> set (desk_ids (app_wins a)) \<Longrightarrow> unat k < unat ?b" for k
    using a unfolding wins_ok_def by blast
  have dst: "distinct (desk_ids (app_wins a))" using a unfolding wins_ok_def by blast
  have parts: "win_parts win = [(?b, mk_rect x y w h), (?b + 1, mk_rect x y w 32),
      (?b + 2, mk_rect (x + 4) (y + 4) (w - 100) (32 - 8)), (?b + 3, mk_rect (x + w - 28) (y + 4) 24 24),
      (?b + 6, mk_rect (x + w - 56) (y + 4) 24 24), (?b + 5, mk_rect (x + w - 84) (y + 4) 24 24),
      (?b + 4, mk_rect x (y + 32) w (h - 32))]"
    by (simp add: win_parts_def win_def content_rect_def Let_def)
  have fresh: "set (desk_ids [win]) \<inter> set (desk_ids (app_wins a)) = {}"
    using out [of ?b] out [of "?b + 1"] out [of "?b + 2"] out [of "?b + 3"] out [of "?b + 4"] out [of "?b + 5"]
      out [of "?b + 6"] F(3) by (auto simp: win_def)
  have rects: "desk_rects (app_wins a @ [win]) = desk_rects (app_wins a) ++ map_of (win_parts win)"
  proof -
    have "desk_rects [win] = map_of (win_parts win)" by (simp add: desk_rects_def desk_parts_def)
    moreover have "desk_rects [win] ++ desk_rects (app_wins a) = desk_rects (app_wins a) ++ desk_rects [win]"
      using fresh dom_desk_rects by (intro map_add_comm) metis
    ultimately show ?thesis by (simp only: desk_rects_append)
  qed
  have tree: "desk_tree (app_wins a @ [win]) = snoc (desk_tree (app_wins a)) (window_frame ?b)"
    unfolding desk_tree_append by (simp add: window_frame_def frame_tree_def win_def)
  have cl: "ap_cl a' = ap_cl a1" by (simp add: a')
  have "distinct (preorder (desk_tree (app_wins a)))" "size (desk_tree (app_wins a)) + 7 \<le> 448"
    using dst False by simp_all
  then have "draws a a'"
    unfolding draws_def wins tree rects parts cl a1_def
    by (subst map_upds_window [symmetric]) (simp, rule create_paints, use out b n role title in \<open>simp_all\<close>)
  moreover have "wins_ok a'"
  proof -
    have "set (desk_ids [win]) = {?b, ?b + 1, ?b + 2, ?b + 3, ?b + 4, ?b + 5, ?b + 6}" by (auto simp: win_def)
    then have "unat k < unat (?b + 7)" if "k \<in> set (desk_ids [win])" for k
      using that F(3) by auto
    moreover have "distinct (desk_ids [win])" by (simp add: win_def)
    moreover have "unat k < unat (?b + 7)" if "k \<in> set (desk_ids (app_wins a))" for k
      using out [OF that] F(3) by simp
    ultimately have "distinct (desk_ids (app_wins a @ [win]))" "\<forall>k \<in> set (desk_ids (app_wins a @ [win])). unat k < unat (?b + 7)"
      unfolding desk_ids_simps(3) set_append using dst fresh by auto
    moreover have "length (ap_slots a') = MAX_WINDOWS" "ap_win_count a' \<le> MAX_WINDOWS" "ap_next_id a' = ?b + 7"
      "40000 \<le> unat (?b + 7)"
      using a False b F(3) by (simp_all add: a' slots wins_ok_def)
    ultimately show ?thesis unfolding wins_ok_def wins by simp
  qed
  moreover have "unat (ap_next_id a') \<le> unat ?b + 7" using F(3) by (simp add: a' slots)
  ultimately show ?thesis by blast
qed

subsection \<open>Every operation and every event\<close>

definition keeps :: "scene_app \<Rightarrow> scene_app \<Rightarrow> bool" where
  "keeps a a' \<longleftrightarrow> draws a a' \<and> wins_ok a' \<and> ap_next_id a' = ap_next_id a"

lemma keeps_trans: "keeps a a1 \<Longrightarrow> keeps a1 a2 \<Longrightarrow> keeps a a2"
  by (auto simp: keeps_def intro: draws_trans)

lemma keeps_same:
  "wins_ok a \<Longrightarrow> ap_cl a' = ap_cl a \<Longrightarrow> ap_slots a' = ap_slots a \<Longrightarrow> ap_win_count a' = ap_win_count a \<Longrightarrow>
   ap_next_id a' = ap_next_id a \<Longrightarrow> keeps a a'"
  by (simp add: keeps_def draws_refl wins_ok_def)

lemma keeps_layout: "wins_ok a \<Longrightarrow> i < ap_win_count a \<Longrightarrow> keeps a (layout_window i x y w h a)"
  using layout_draws by (simp add: keeps_def layout_window_client)

lemma keeps_client:
  assumes "\<And>t m. t = desk_tree (app_wins a) \<Longrightarrow> paints (ap_cl a) t m (snd (f (ap_cl a))) t m" "wins_ok a"
  shows "keeps a (snd (via_client f a))"
proof -
  have "draws a (snd (via_client f a)) \<and> wins_ok (snd (via_client f a))"
    using assms by (intro client_draws(2)) simp_all
  then show ?thesis by (simp add: keeps_def via_client_def split_def)
qed

lemma keeps_ack: "wins_ok a \<Longrightarrow> keeps a (snd (scene_app_ack a seq))"
  unfolding scene_app_ack_def by (intro keeps_client paints_ack)

lemma keeps_flags:
  assumes "wins_ok a" "i < ap_win_count a"
  shows "keeps a (snd (via_client (\<lambda>c. scene_client_set_flags c (aw_window (ap_slots a ! i)) f) a))"
proof -
  have "aw_window (ap_slots a ! i) \<in> set (desk_ids (app_wins a))"
    using win_ids_in [OF assms(2,1)] by (auto simp: win_parts_def Let_def)
  then show ?thesis using assms(1) by (intro keeps_client paints_flags) simp_all
qed

lemma keeps_minimize: "wins_ok a \<Longrightarrow> keeps a (snd (scene_app_minimize a k))"
  using keeps_flags find_window_Some
  by (auto simp: scene_app_minimize_def keeps_same split: option.split)

lemma maximize_layout:
  "scene_app_maximize a k sw sh ph =
     (case find_window a k of None \<Rightarrow> (-1, a)
      | Some i \<Rightarrow> via_client (\<lambda>c. scene_client_set_flags c (aw_window (ap_slots a ! i))
                    (SCENE_FLAG_VISIBLE OR SCENE_FLAG_FOCUSABLE)) (layout_window i 0 0 sw (sh - ph) a))"
  by (simp add: scene_app_maximize_def layout_window_def app_ops Let_def split: option.split)

lemma keeps_maximize:
  assumes "wins_ok a"
  shows "keeps a (snd (scene_app_maximize a k sw sh ph))"
proof (cases "find_window a k")
  case None
  then show ?thesis using assms by (simp add: maximize_layout keeps_same)
next
  case (Some i)
  let ?a = "layout_window i 0 0 sw (sh - ph) a"
  have i: "i < ap_win_count a" using find_window_Some [OF Some] ..
  have 1: "keeps a ?a" using assms i by (rule keeps_layout)
  moreover have e: "ap_win_count ?a = ap_win_count a" "aw_window (ap_slots ?a ! i) = aw_window (ap_slots a ! i)"
    using i assms by (simp_all add: layout_window_client placed_def wins_ok_def)
  have "keeps ?a (snd (via_client (\<lambda>c. scene_client_set_flags c (aw_window (ap_slots ?a ! i))
      (SCENE_FLAG_VISIBLE OR SCENE_FLAG_FOCUSABLE)) ?a))"
    using 1 i e(1) by (intro keeps_flags) (simp_all add: keeps_def)
  ultimately show ?thesis using keeps_trans by (simp add: maximize_layout Some e(2))
qed

lemma keeps_title:
  assumes a: "wins_ok a" and t: "length t < 2 ^ 31"
  shows "keeps a (snd (scene_app_set_title a k (Some t)))"
proof (cases "find_window a k")
  case None
  then show ?thesis using assms by (simp add: scene_app_set_title_def keeps_same)
next
  case (Some i)
  let ?w = "ap_slots a ! i" and ?w' = "(ap_slots a ! i)\<lparr>aw_title := take 63 t\<rparr>"
  let ?a = "a\<lparr>ap_slots := (ap_slots a)[i := ?w']\<rparr>"
  have i: "i < ap_win_count a" using find_window_Some [OF Some] ..
  have parts: "win_parts ?w' = win_parts ?w" by (simp add: win_parts_def content_rect_def)
  note U = wins_ok_entry [OF a i, of ?w' ?a]
  have "desk_rects (app_wins a) = desk_rects (app_wins a) ++ map_of (rev (win_parts ?w))"
    using wins_ok_entry(3) [OF a i, of ?w a] by simp
  then have k1: "keeps a ?a"
    using U parts by (simp add: keeps_def draws_def paints_refl)
  have "aw_label ?w \<in> set (desk_ids (app_wins ?a))"
    using win_ids_in [of i ?a] i k1 a by (auto simp: keeps_def win_parts_def Let_def wins_ok_def)
  then have "keeps ?a (snd (via_client (\<lambda>c. scene_client_set_text c (aw_label ?w) 0 (Some t) (of_nat (length t))) ?a))"
    using k1 t by (intro keeps_client paints_text) (simp_all add: keeps_def)
  then show ?thesis using keeps_trans [OF k1] by (simp add: scene_app_set_title_def Some Let_def)
qed

lemma keeps_motion:
  assumes "wins_ok a"
  shows "keeps a (wm_motion a x y)"
proof (cases "find_window a (ap_wm_content a)")
  case None
  then show ?thesis using assms by (simp add: wm_motion_def keeps_same)
next
  case (Some i)
  then show ?thesis using assms find_window_Some [OF Some]
    by (simp add: wm_motion_def Let_def keeps_layout)
qed

lemma keeps_pointer:
  assumes "wins_ok a"
  shows "keeps a (wm_input_pointer a x y btns)"
  using assms keeps_motion [OF assms]
  by (auto simp: wm_input_pointer_def wm_grab_def Let_def keeps_same split: option.split)

lemma keeps_event:
  assumes "wins_ok a"
  shows "keeps a (handle_event ev a)"
proof (cases ev)
  case (EvInputPointer seq dev x y btns)
  let ?a = "wm_input_pointer a x y btns"
  have k: "keeps a ?a" using assms by (rule keeps_pointer)
  have ack: "keeps a (if ap_wm_on a then snd (scene_app_ack ?a seq) else a)"
    using keeps_trans [OF k keeps_ack] k assms by (simp add: keeps_def keeps_same draws_refl)
  have cb: "keeps a' (app_callback ev a')" if "wins_ok a'" for a' ev
    using that by (simp add: app_callback_def keeps_same)
  have "wins_ok (if ap_wm_on a then snd (scene_app_ack ?a seq) else a)" using ack by (simp only: keeps_def)
  from keeps_trans [OF ack cb [OF this]] show ?thesis
    unfolding EvInputPointer handle_event.simps on_input_pointer_def .
next
  case (EvInputActivate seq nid)
  have m: "keeps a (snd (scene_app_ack (snd (scene_app_minimize a k)) seq))"
    "keeps a (snd (scene_app_ack (snd (scene_app_maximize a k sw sh ph)) seq))" for k sw sh ph
    using keeps_trans [OF keeps_minimize [OF assms] keeps_ack] keeps_minimize [OF assms, of k]
      keeps_trans [OF keeps_maximize [OF assms] keeps_ack] keeps_maximize [OF assms, of k sw sh ph]
    unfolding keeps_def by blast+
  show ?thesis
    using m assms unfolding EvInputActivate handle_event.simps on_input_activate_def Let_def
    by (auto simp: app_callback_def keeps_same split: option.split)
qed (use assms in \<open>simp_all add: app_callback_def keeps_same\<close>)

subsection \<open>A run of an application\<close>

text \<open>What an application does with its windows, and what its client delivers to it.\<close>

datatype app_op =
    AppCreate i32 i32 i32 i32 "bytes option" u16
  | AppDestroy u32
  | AppTitle u32 bytes
  | AppResize u32 i32 i32
  | AppMinimize u32
  | AppMaximize u32 i32 i32 i32
  | AppWm bool
  | AppScreen i32 i32 i32
  | AppPresent
  | AppAck u64
  | AppEvent client_event

fun app_step :: "app_op \<Rightarrow> scene_app \<Rightarrow> scene_app" where
  "app_step (AppCreate x y w h title role) a = snd (scene_app_create_window_role a x y w h title role)"
| "app_step (AppDestroy k) a = snd (scene_app_destroy_window a k)"
| "app_step (AppTitle k t) a = snd (scene_app_set_title a k (Some t))"
| "app_step (AppResize k w h) a = snd (scene_app_resize_window a k w h)"
| "app_step (AppMinimize k) a = snd (scene_app_minimize a k)"
| "app_step (AppMaximize k sw sh ph) a = snd (scene_app_maximize a k sw sh ph)"
| "app_step (AppWm on) a = scene_app_set_wm a on"
| "app_step (AppScreen w h ph) a = snd (scene_app_set_screen a w h ph)"
| "app_step AppPresent a = snd (scene_app_present a)"
| "app_step (AppAck seq) a = snd (scene_app_ack a seq)"
| "app_step (AppEvent ev) a = handle_event ev a"

definition app_run :: "app_op list \<Rightarrow> scene_app \<Rightarrow> scene_app" where
  "app_run = fold app_step"

text \<open>Roles are those of the protocol and strings are shorter than 2 GiB.\<close>

fun app_op_ok :: "app_op \<Rightarrow> bool" where
  "app_op_ok (AppCreate x y w h title role) \<longleftrightarrow>
     role \<le> SCENE_ROLE_MAX \<and> (case title of Some t \<Rightarrow> length t < 2 ^ 31 | None \<Rightarrow> True)"
| "app_op_ok (AppTitle k t) \<longleftrightarrow> length t < 2 ^ 31"
| "app_op_ok _ \<longleftrightarrow> True"

lemma app_step_draws:
  assumes a: "wins_ok a" and n: "unat (ap_next_id a) < 2 ^ 32 - 10" and ok: "app_op_ok x"
  shows "draws a (app_step x a) \<and> wins_ok (app_step x a) \<and> unat (ap_next_id (app_step x a)) \<le> unat (ap_next_id a) + 7"
proof -
  have k: ?thesis if "keeps a (app_step x a)" using that by (simp add: keeps_def)
  show ?thesis
  proof (cases x)
    case (AppCreate x y w h title role)
    then show ?thesis using create_draws [OF a n] ok by simp
  next
    case (AppDestroy c)
    show ?thesis
    proof (cases "find_window a c")
      case None
      then show ?thesis using a by (simp add: AppDestroy scene_app_destroy_window_def draws_refl)
    next
      case (Some i)
      have "ap_next_id (app_step x a) = ap_next_id a"
        by (simp add: AppDestroy scene_app_destroy_window_def Some compact_def with_client_def Let_def)
      then show ?thesis using destroy_draws [OF a Some] by (simp add: AppDestroy)
    qed
  next
    case (AppTitle c t)
    then show ?thesis using k keeps_title [OF a] ok by simp
  next
    case (AppResize c w h)
    have "keeps a (snd (scene_app_resize_window a c w h))"
      using a find_window_Some by (auto simp: scene_app_resize_window_def keeps_same keeps_layout split: option.split)
    then show ?thesis using k AppResize by simp
  next
    case (AppPresent)
    have "keeps a (snd (scene_app_present a))"
      unfolding scene_app_present_def using a by (intro keeps_client paints_present)
    then show ?thesis using k AppPresent by simp
  next
    case (AppWm on)
    then show ?thesis using a by (intro k) (simp add: scene_app_set_wm_def keeps_same)
  next
    case (AppScreen w h ph)
    then show ?thesis using a by (intro k) (simp add: scene_app_set_screen_def keeps_same)
  qed (use a k keeps_minimize keeps_maximize keeps_ack keeps_event in simp_all)
qed

lemma app_run_draws:
  assumes "wins_ok a" "list_all app_op_ok ops" "unat (ap_next_id a) + 7 * length ops < 2 ^ 32 - 10"
  shows "draws a (app_run ops a) \<and> wins_ok (app_run ops a)"
  using assms
proof (induction ops arbitrary: a)
  case Nil
  then show ?case by (simp add: app_run_def draws_refl)
next
  case (Cons x ops)
  have s: "draws a (app_step x a)" "wins_ok (app_step x a)" "unat (ap_next_id (app_step x a)) \<le> unat (ap_next_id a) + 7"
    using app_step_draws [OF Cons.prems(1), of x] Cons.prems by simp_all
  then have "draws (app_step x a) (app_run ops (app_step x a)) \<and> wins_ok (app_run ops (app_step x a))"
    using Cons.prems by (intro Cons.IH) simp_all
  then show ?case using draws_trans [OF s(1)] by (simp add: app_run_def)
qed

lemma shows_nothing: "shows_windows [] empty_doc"
  by (simp add: shows_windows_def pictures_def fresh_doc_def empty_doc_def rects_def desk_rects_def desk_parts_def fun_eq_iff)

lemma new_app_ok:
  assumes "scene_app_new_on True = Some a"
  shows "wins_ok (a\<lparr>ap_cl := c\<rparr>) \<and> app_wins a = [] \<and> ap_next_id a = APP_ID_BASE"
  using assms by (auto simp: scene_app_new_on_def scene_client_connect_def Let_def wins_ok_def)

text \<open>What an application has sent is its windows.\<close>

lemma app_run_shows:
  assumes new: "scene_app_new_on True = Some a0"
    and c: "ready c" "cl_log c = []" "desk_limits (cl_lim c)" "ev_lim e = cl_lim c"
    and ops: "list_all app_op_ok ops" "length ops < 2 ^ 28"
    and run: "app_run ops (a0\<lparr>ap_cl := c\<rparr>) = a"
  shows "ready (ap_cl a) \<and> (\<exists>cmds d rs. cl_log (ap_cl a) = map logged_command cmds \<and> list_all (sendable c) cmds \<and>
    command_session e n empty_doc cmds = (OpOk, d, rs) \<and> shows_windows (app_wins a) d)"
proof -
  let ?a = "a0\<lparr>ap_cl := c\<rparr>"
  note N = new_app_ok [OF new]
  have "draws ?a (app_run ops ?a)" using N ops by (intro app_run_draws [THEN conjunct1]) simp_all
  moreover have "ap_cl ?a = c" "app_wins ?a = []" using N by simp_all
  ultimately have P: "paints c (desk_tree []) (desk_rects []) (ap_cl a) (desk_tree (app_wins a)) (desk_rects (app_wins a))"
    unfolding draws_def run by (simp only:)
  have "pictures empty_doc (desk_tree []) (desk_rects [])" using shows_nothing unfolding shows_windows_def .
  then obtain d cmds where "pictures d (desk_tree (app_wins a)) (desk_rects (app_wins a))" "list_all (sendable c) cmds"
    "cl_log (ap_cl a) = cl_log c @ map logged_command cmds" "runs (cl_lim c) empty_doc cmds d"
    using P c(1,3) unfolding paints_def by blast
  moreover from this(4) obtain rs where "command_session e n empty_doc cmds = (OpOk, d, rs)"
    using c(4) unfolding runs_def by blast
  moreover have "ready (ap_cl a)" using P c(1,3) unfolding paints_def by blast
  ultimately show ?thesis using c(2) unfolding shows_windows_def by auto
qed

subsection \<open>Drags\<close>

definition drag_motions :: "(i32 \<times> i32) list \<Rightarrow> scene_app \<Rightarrow> scene_app" where
  "drag_motions = fold (\<lambda>(x, y) a. wm_input_pointer a x y 1)"

lemma placed_placed [simp]: "placed x y w h (placed x' y' w' h' win) = placed x y w h win"
  by (simp add: placed_def)

lemma find_window_placed:
  "find_window (layout_window i x y w h a) k = find_window a k"
proof -
  have "aw_content ((ap_slots a)[i := placed x y w h (ap_slots a ! i)] ! j) = aw_content (ap_slots a ! j)" for j
    by (cases "i < length (ap_slots a)") (auto simp: nth_list_update placed_def list_update_beyond)
  then show ?thesis by (simp add: find_window_def layout_window_client)
qed

lemma motion_again:
  fixes x1 y1 :: i32
  assumes drag: "ap_wm_drag a" and f: "find_window a (ap_wm_content a) = Some i" and i: "i < length (ap_slots a)"
  defines "a1 \<equiv> wm_input_pointer a x1 y1 1"
  shows "ap_slots (wm_input_pointer a1 x2 y2 1) = ap_slots (wm_input_pointer a x2 y2 1) \<and>
    ap_wm_drag a1 \<and> find_window a1 (ap_wm_content a1) = Some i \<and> length (ap_slots a1) = length (ap_slots a)"
proof -
  have "\<exists>x y w h. a1 = layout_window i x y w h a \<and> (ap_wm_mode a = WM_MOVE \<longrightarrow>
      w = aw_w (ap_slots a ! i) \<and> h = aw_h (ap_slots a ! i))"
    using drag f by (cases "ap_wm_mode a = WM_MOVE") (auto simp: a1_def wm_input_pointer_def wm_motion_def Let_def)
  then obtain x y w h where a1: "a1 = layout_window i x y w h a"
    "ap_wm_mode a = WM_MOVE \<longrightarrow> w = aw_w (ap_slots a ! i) \<and> h = aw_h (ap_slots a ! i)" by blast
  have same: "ap_wm_content a1 = ap_wm_content a" "ap_wm_drag a1" "ap_wm_mode a1 = ap_wm_mode a"
    "ap_wm_x0 a1 = ap_wm_x0 a" "ap_wm_y0 a1 = ap_wm_y0 a" "ap_wm_wx a1 = ap_wm_wx a" "ap_wm_wy a1 = ap_wm_wy a"
    "ap_wm_ww a1 = ap_wm_ww a" "ap_wm_wh a1 = ap_wm_wh a"
    "ap_slots a1 = (ap_slots a)[i := placed x y w h (ap_slots a ! i)]"
    using drag by (simp_all add: a1(1) layout_window_client)
  have fw: "find_window a1 (ap_wm_content a) = Some i" using f by (simp add: a1(1) find_window_placed)
  have win: "ap_slots a1 ! i = placed x y w h (ap_slots a ! i)" using i by (simp add: same)
  have "ap_slots (wm_input_pointer a1 x2 y2 1) = ap_slots (wm_input_pointer a x2 y2 1)"
  proof (cases "ap_wm_mode a = WM_MOVE")
    case True
    have wh: "w = aw_w (ap_slots a ! i)" "h = aw_h (ap_slots a ! i)" using a1(2) True by blast+
    have sz: "aw_w (ap_slots a1 ! i) = aw_w (ap_slots a ! i)" "aw_h (ap_slots a1 ! i) = aw_h (ap_slots a ! i)"
      unfolding win wh by (simp_all add: placed_def)
    show ?thesis
      using True drag f fw same(1-9) sz win
      by (simp add: wm_input_pointer_def wm_motion_def Let_def layout_window_client) (simp add: same(10))
  next
    case False
    then show ?thesis
      using drag f fw same(1-9) win
      by (simp add: wm_input_pointer_def wm_motion_def Let_def layout_window_client) (simp add: same(10))
  qed
  then show ?thesis using fw same by simp
qed

lemma drag_last:
  assumes "ap_wm_drag a" "find_window a (ap_wm_content a) = Some i" "i < length (ap_slots a)" "ms \<noteq> []"
  shows "ap_slots (drag_motions ms a) = ap_slots (wm_input_pointer a (fst (last ms)) (snd (last ms)) 1) \<and>
    ap_wm_drag (drag_motions ms a)"
  using assms
proof (induction ms arbitrary: a)
  case (Cons m ms)
  obtain x y where m: "m = (x, y)" by (cases m)
  note M = motion_again [OF Cons.prems(1-3), of x y]
  show ?case
  proof (cases "ms = []")
    case True
    then show ?thesis using M by (simp add: drag_motions_def m)
  next
    case False
    let ?a = "wm_input_pointer a x y 1"
    have "ap_slots (drag_motions ms ?a) = ap_slots (wm_input_pointer ?a (fst (last ms)) (snd (last ms)) 1) \<and>
        ap_wm_drag (drag_motions ms ?a)"
      using M Cons.prems False by (intro Cons.IH) simp_all
    then show ?thesis using M False by (simp add: drag_motions_def m)
  qed
qed simp

text \<open>Where a drag puts its window: relative to where the window and the pointer were when it began.\<close>

definition dragged :: "scene_app \<Rightarrow> app_window \<Rightarrow> i32 \<Rightarrow> i32 \<Rightarrow> app_window" where
  "dragged a win x y =
     (if ap_wm_mode a = WM_MOVE
      then placed (ap_wm_wx a + (x - ap_wm_x0 a)) (ap_wm_wy a + (y - ap_wm_y0 a)) (aw_w win) (aw_h win) win
      else placed (ap_wm_wx a) (ap_wm_wy a)
             (if ap_wm_mode a \<in> {WM_RSIZE_W, WM_RSIZE_WH} then drag_size (ap_wm_ww a + (x - ap_wm_x0 a)) WM_MIN_W else ap_wm_ww a)
             (if ap_wm_mode a \<in> {WM_RSIZE_H, WM_RSIZE_WH} then drag_size (ap_wm_wh a + (y - ap_wm_y0 a)) WM_MIN_H else ap_wm_wh a) win)"

lemma motion_slots:
  assumes "ap_wm_drag a" "find_window a (ap_wm_content a) = Some i"
  shows "ap_slots (wm_input_pointer a x y 1) = (ap_slots a)[i := dragged a (ap_slots a ! i) x y]"
  using assms by (simp add: wm_input_pointer_def wm_motion_def layout_window_client dragged_def Let_def)

lemma drag_ends_at:
  assumes "wins_ok a" "ap_wm_drag a" "find_window a (ap_wm_content a) = Some i" "ms \<noteq> []"
  shows "ap_slots (drag_motions ms a) = (ap_slots a)[i := dragged a (ap_slots a ! i) (fst (last ms)) (snd (last ms))]"
proof -
  have "i < length (ap_slots a)" using find_window_Some [OF assms(3)] assms(1) by (simp add: wins_ok_def)
  then show ?thesis using drag_last [OF assms(2,3) _ assms(4)] motion_slots [OF assms(2,3)] by simp
qed

end
