(* ===== verification/DeskSamples.thy ===== *)
theory DeskSamples
  imports ScreenOk Samples AppOk CompositorOk
begin

text \<open>
  Concrete states of the toolkit and of the compositor, for evaluating the theorems on: an
  application with a window that is being dragged, and a desktop whose sessions show the document
  of Samples.
\<close>

subsection \<open>An application\<close>

definition demo_app0 :: scene_app where
  "demo_app0 = the (scene_app_new_on True)"

definition demo_calls :: "app_op list" where
  "demo_calls = [AppCreate 10 20 300 200 (Some [65]) 0, AppCreate 40 40 300 200 None 0, AppWm True, AppResize 40011 320 240,
     AppDestroy 40004]"

definition demo_app :: scene_app where
  "demo_app = app_run demo_calls (demo_app0\<lparr>ap_cl := demo_client\<rparr>)"

lemma demo_app0: "scene_app_new_on True = Some demo_app0"
  by (simp add: demo_app0_def scene_app_new_on_def scene_client_connect_def split: prod.split)

lemma demo_calls: "list_all app_op_ok demo_calls" "length demo_calls < 2 ^ 28"
  by (simp_all add: demo_calls_def)

lemma demo_client_more: "cl_log demo_client = []" "desk_limits (cl_lim demo_client)" "ev_lim demo_env = cl_lim demo_client"
  by (simp_all add: demo_client_def scene_client_new_def desk_limits_def scene_default_limits_def demo_env_def)

definition demo_win :: app_window where
  "demo_win = \<lparr>aw_window = 40007, aw_titlebar = 40008, aw_label = 40009, aw_close = 40010, aw_min = 40012,
     aw_max = 40013, aw_content = 40011, aw_x = 40, aw_y = 40, aw_w = 320, aw_h = 240, aw_title = []\<rparr>"

lemma slots_head: "replicate 64 w = w # w # replicate 62 w"
  using replicate_add [of 2 62 w] by (simp add: numeral_2_eq_2)

definition demo_win0 :: app_window where
  "demo_win0 = \<lparr>aw_window = 40000, aw_titlebar = 40001, aw_label = 40002, aw_close = 40003, aw_min = 40005,
     aw_max = 40006, aw_content = 40004, aw_x = 10, aw_y = 20, aw_w = 300, aw_h = 200, aw_title = [65]\<rparr>"

lemma demo_steps:
  assumes "ap_slots a = demo_win0 # w # ws" "ap_win_count a = 1" "ap_next_id a = 40007" "aw_title w = []"
  defines "b \<equiv> app_run [AppCreate 40 40 300 200 None 0, AppWm True, AppResize 40011 320 240] a"
  shows "ap_slots b = demo_win0 # demo_win # ws" "ap_win_count b = 2" "ap_wm_on b" "ap_wm_drag b = ap_wm_drag a"
  using assms(1-4)
  by (simp_all add: b_def app_run_def scene_app_create_window_role_def create_nodes_client Let_def scene_app_set_wm_def
      scene_app_resize_window_def find_window_def upt_rec layout_window_client placed_def demo_win_def demo_win0_def)

lemma demo_app:
  "app_wins demo_app = [demo_win]" "length (ap_slots demo_app) = 64" "ap_wm_on demo_app" "ap_win_count demo_app = 1"
  "hd (ap_slots demo_app) = demo_win" "\<not> ap_wm_drag demo_app"
proof -
  let ?a0 = "demo_app0\<lparr>ap_cl := demo_client\<rparr>"
  let ?a = "app_step (AppCreate 10 20 300 200 (Some [65]) 0) ?a0"
  let ?b = "app_run [AppCreate 40 40 300 200 None 0, AppWm True, AppResize 40011 320 240] ?a"
  have a: "ap_slots ?a = demo_win0 # no_window # replicate 62 no_window" "ap_win_count ?a = 1" "ap_next_id ?a = 40007"
    "\<not> ap_wm_drag ?a"
    by (simp_all add: demo_app0_def scene_app_new_on_def scene_client_connect_def Let_def slots_head demo_win0_def
        scene_app_create_window_role_def create_nodes_client split: prod.split)
  have b: "ap_slots ?b = demo_win0 # demo_win # replicate 62 no_window" "ap_win_count ?b = 2" "ap_wm_on ?b"
    "\<not> ap_wm_drag ?b"
    using demo_steps [OF a(1-3)] a(4) by (simp_all add: no_window_def)
  have d: "demo_app = app_step (AppDestroy 40004) ?b" by (simp add: demo_app_def demo_calls_def app_run_def)
  have f: "find_window ?b 40004 = Some 0" using b by (simp add: find_window_def upt_rec demo_win0_def)
  have s: "ap_slots demo_app = demo_win # demo_win # replicate 62 no_window" "ap_win_count demo_app = 1" "ap_wm_on demo_app"
    "\<not> ap_wm_drag demo_app"
    using b f by (simp_all add: d scene_app_destroy_window_def compact_def with_client_def Let_def)
  show "app_wins demo_app = [demo_win]" "length (ap_slots demo_app) = 64" "ap_wm_on demo_app" "ap_win_count demo_app = 1"
    "hd (ap_slots demo_app) = demo_win" "\<not> ap_wm_drag demo_app"
    using s by simp_all
qed

text \<open>The title bar of its window, pressed at (100, 50).\<close>

definition demo_drag :: scene_app where
  "demo_drag = wm_input_pointer demo_app 100 50 1"

lemma demo_drag:
  "wins_ok demo_drag" "ap_wm_drag demo_drag" "find_window demo_drag (ap_wm_content demo_drag) = Some 0"
  "ap_slots demo_drag = ap_slots demo_app" "ap_slots demo_app ! 0 = demo_win" "length (ap_slots demo_app) = 64"
  "ap_wm_mode demo_drag = WM_MOVE" "ap_wm_x0 demo_drag = 100" "ap_wm_y0 demo_drag = 50" "ap_wm_wx demo_drag = 40" "ap_wm_wy demo_drag = 40"
proof -
  have wf: "wins_ok demo_app"
    unfolding demo_app_def using new_app_ok [OF demo_app0] demo_calls by (intro app_run_draws [THEN conjunct2]) simp_all
  show slot: "ap_slots demo_app ! 0 = demo_win" "length (ap_slots demo_app) = 64" using demo_app by (cases "ap_slots demo_app"; simp)+
  have mode: "grab_mode demo_win 100 50 = WM_MOVE" "win_holds 100 50 demo_win"
    by (simp_all add: grab_mode_def win_holds_def in_span_def demo_win_def Let_def)
  have d: "demo_drag = demo_app\<lparr>ap_wm_drag := True, ap_wm_content := 40011, ap_wm_mode := WM_MOVE,
      ap_wm_x0 := 100, ap_wm_y0 := 50, ap_wm_wx := 40, ap_wm_wy := 40, ap_wm_ww := 320, ap_wm_wh := 240\<rparr>"
    using demo_app(6) mode by (simp add: demo_drag_def wm_input_pointer_def wm_grab_def demo_app(1) Let_def) (simp add: demo_win_def)
  show "wins_ok demo_drag" using wf by (simp add: d wins_ok_def)
  show "find_window demo_drag (ap_wm_content demo_drag) = Some 0"
    using slot by (simp add: d find_window_def demo_app(4) demo_win_def)
  show "ap_wm_drag demo_drag" "ap_slots demo_drag = ap_slots demo_app" "ap_wm_mode demo_drag = WM_MOVE"
    "ap_wm_x0 demo_drag = 100" "ap_wm_y0 demo_drag = 50" "ap_wm_wx demo_drag = 40" "ap_wm_wy demo_drag = 40"
    by (simp_all add: d)
qed

subsection \<open>A desktop\<close>

definition demo_server :: scene_server where
  "demo_server = (scene_server_new None 0 (\<lambda>_. zero_node))\<lparr>sv_store := demo_store\<rparr>"

definition demo_desk :: scene_compositor where
  "demo_desk = the (scene_compositor_new 0 demo_server 640 480)"

definition demo_desk2 :: scene_compositor where
  "demo_desk2 = snd (scene_compositor_add_session demo_desk 1 demo_server)"

lemma demo_server: "sv_store demo_server = demo_store" "\<not> sv_dead demo_server"
  by (simp_all add: demo_server_def scene_server_new_def)

lemma demo_seq: "scene_store_view_seq demo_store = 4"
proof -
  have "demo_ops \<noteq> []" "length demo_ops = 4" by (simp_all add: demo_ops_def)
  then have "st_scene_seq (replay_of demo_new 0 demo_ops) = 4" using session_end(7) [OF demo_past(1), of 0] by simp
  then have "st_scene_seq demo_store = 4" by (simp add: demo_store_def)
  then show ?thesis using demo_store(4) by (simp add: scene_store_view_seq_def)
qed

lemma demo_fb_init: "\<exists>fb. scene_fb_init 640 480 = Some fb \<and> fb_real fb"
  by (auto simp: scene_fb_init_def fb_real_def fb_ok_def)

lemma demo_size: "in_fb (cp_fb demo_desk) x y \<longleftrightarrow> x < 640 \<and> y < 480"
proof -
  obtain fb where "scene_fb_init 640 480 = Some fb" using demo_fb_init by blast
  moreover from this have "fb_w fb = 640" "fb_h fb = 480" by (auto simp: scene_fb_init_def)
  ultimately show ?thesis by (simp add: demo_desk_def scene_compositor_new_def in_fb_def)
qed

lemma demo_fb_size: "fb_w (cp_fb demo_desk) = 640" "fb_h (cp_fb demo_desk) = 480"
proof -
  obtain fb where "scene_fb_init 640 480 = Some fb" using demo_fb_init by blast
  moreover from this have "fb_w fb = 640" "fb_h fb = 480" by (auto simp: scene_fb_init_def)
  ultimately show "fb_w (cp_fb demo_desk) = 640" "fb_h (cp_fb demo_desk) = 480" by (simp_all add: demo_desk_def scene_compositor_new_def)
qed

lemma demo_desk_fields: "cp_ly demo_desk = [layer_init 0 demo_server]" "\<not> cp_effects_on demo_desk" "\<not> cp_force demo_desk"
  "cp_pending demo_desk = []" "\<not> cp_locked demo_desk" "cp_styles demo_desk = []" "fb_real (cp_fb demo_desk)"
  "cp_grabs demo_desk = replicate 8 \<lparr>kg_code = 0, kg_mods = 0, kg_used = False\<rparr>"
proof -
  obtain fb where "scene_fb_init 640 480 = Some fb" "fb_real fb" using demo_fb_init by blast
  then show "cp_ly demo_desk = [layer_init 0 demo_server]" "\<not> cp_effects_on demo_desk" "\<not> cp_force demo_desk"
    "cp_pending demo_desk = []" "\<not> cp_locked demo_desk" "cp_styles demo_desk = []" "fb_real (cp_fb demo_desk)"
    "cp_grabs demo_desk = replicate 8 \<lparr>kg_code = 0, kg_mods = 0, kg_used = False\<rparr>"
    by (simp_all add: demo_desk_def scene_compositor_new_def)
qed

lemma demo_layer: "cp_ly demo_desk = [layer_init 0 demo_server]" "cp_ly demo_desk2 = [layer_init 0 demo_server, layer_init 1 demo_server]"
  by (simp_all add: demo_desk_fields demo_desk2_def scene_compositor_add_session_def)

lemma demo_flags: "\<not> cp_locked demo_desk2" "cp_grabs demo_desk2 = replicate 8 \<lparr>kg_code = 0, kg_mods = 0, kg_used = False\<rparr>"
  by (simp_all add: demo_desk_fields demo_desk2_def scene_compositor_add_session_def)

lemma demo_layer_synced: "synced (layer_init i demo_server) empty_doc"
proof -
  have "filter rn_used (replicate 64 zero_rnode) = []" by (simp add: filter_empty_conv zero_rnode_def)
  moreover have "\<exists>b. (64::nat) = 2 ^ b" by (rule exI [of _ 6]) simp
  ultimately show ?thesis
    by (simp add: synced_def table_ok_def used_entries_def layer_init_def faces_def empty_doc_def)
qed

lemma demo_tame: "tame_faces demo_doc" "tame_faces empty_doc"
  by (simp_all add: tame_faces_def faces_def demo_doc_def empty_doc_def doc_face_def tame_def demo_nodes Let_def)

lemma demo_layer_diff:
  "displays (ly_store (layer_init i demo_server)) demo_doc" "ready_for (size (dc_tree demo_doc)) (layer_init i demo_server)"
  using demo_displays by (simp_all add: layer_init_def demo_server ready_for_def demo_doc_def)

lemma demo_frame_ready: "frame_ready demo_desk (\<lambda>_. empty_doc) (\<lambda>_. demo_doc)"
proof -
  have "live_layer demo_desk i \<longleftrightarrow> i = 0" for i
    by (auto simp: live_layer_def demo_layer demo_server layer_init_def hidden_def)
  moreover have "layer_seq demo_desk 0 = 4" by (simp add: layer_seq_def demo_layer layer_init_def demo_server demo_seq)
  ultimately show ?thesis
    using demo_layer_synced [of 0] demo_layer_diff [of 0] demo_tame
    by (simp add: frame_ready_def demo_layer demo_server)
      (simp add: demo_desk_fields tame_list_def layer_init_def demo_server)
qed

lemma demo_screen_ready: "screen_ready demo_desk (\<lambda>_. empty_doc) (\<lambda>_. demo_doc)"
proof -
  have "first_content demo_desk"
    by (simp add: first_content_def layer_seq_def demo_layer layer_init_def demo_server demo_seq)
  moreover have "\<not> stays empty_doc demo_doc k" for k by (simp add: stays_def empty_doc_def)
  then have "faithful empty_doc demo_doc" by (simp add: faithful_def empty_doc_def filter_empty_conv)
  ultimately show ?thesis using demo_frame_ready demo_desk_fields(7) by (simp add: screen_ready_def faces_def empty_doc_def)
qed

lemma demo_change: "shows_change empty_doc demo_doc 5 5"
  by (simp add: shows_change_def faces_def demo_doc_def empty_doc_def doc_face_def demo_nodes Let_def face_shown_def
      shown_def has_area_def in_rect_def)

lemma demo_on_top: "on_top demo_desk2 (\<lambda>_. demo_doc) 5 5 1"
proof -
  have "doc_region demo_doc 5 5 = 6"
    by (simp add: doc_region_def candidates_def deepest_last_def hit_at_def in_rect_def demo_doc_def demo_nodes)
  then show ?thesis
    using demo_store(1) by (auto simp: on_top_def demo_layer layer_init_def demo_server layer_gone_def less_Suc_eq)
qed

text \<open>The desktop after its first frame, with two styles.\<close>

definition demo_styled :: scene_compositor where
  "demo_styled = demo_desk\<lparr>cp_styles := [zero_style, zero_style]\<rparr>"

definition demo_shown :: scene_compositor where
  "demo_shown = snd (scene_compositor_frame demo_styled)"

lemma demo_styled_ready: "screen_ready demo_styled (\<lambda>_. empty_doc) (\<lambda>_. demo_doc)"
proof -
  have "live_layer demo_styled = live_layer demo_desk" "layer_seq demo_styled = layer_seq demo_desk"
    by (simp_all add: demo_styled_def live_layer_def hidden_def layer_seq_def fun_eq_iff)
  moreover have "first_content demo_desk"
    by (simp add: first_content_def layer_seq_def demo_layer layer_init_def demo_server demo_seq)
  ultimately show ?thesis
    using demo_screen_ready
    by (simp add: screen_ready_def frame_ready_def first_content_def) (simp add: demo_styled_def)
qed

lemma demo_shown: "models demo_shown (\<lambda>_. demo_doc)" "cp_styles demo_shown = [zero_style, zero_style]" "length (cp_ly demo_shown) = 1"
proof -
  obtain r where run: "scene_compositor_frame demo_styled = (r, demo_shown)" by (simp add: demo_shown_def prod_eq_iff)
  have fr: "frame_ready demo_styled (\<lambda>_. empty_doc) (\<lambda>_. demo_doc)" using demo_styled_ready by (simp add: screen_ready_def)
  note F = frame_picture [OF demo_styled_ready run]
  from frame_parts [OF fr run] obtain c where c: "before_paint demo_styled (\<lambda>_. empty_doc) (\<lambda>_. demo_doc) c" "alike c demo_shown"
    "cp_pending demo_shown = []" "\<forall>i. live_layer demo_styled i \<longrightarrow> synced (cp_ly demo_shown ! i) demo_doc" by blast
  have "alike demo_styled demo_shown" using c(1,2) alike_trans by (auto simp: before_paint_def)
  then show s: "cp_styles demo_shown = [zero_style, zero_style]" "length (cp_ly demo_shown) = 1"
    by (simp_all add: alike_def painter_def demo_styled_def demo_desk_fields)
  have "live_layer demo_styled 0" using fr by (simp add: frame_ready_def)
  then show "models demo_shown (\<lambda>_. demo_doc)"
    using F c(3,4) s(2) demo_tame by (auto simp: models_def tame_list_def)
qed

lemma demo_forced_ready: "repaint_ready (demo_desk\<lparr>cp_force := True\<rparr>) (\<lambda>_. demo_doc)"
  using demo_layer_diff(1) [of 0] demo_tame(1)
  by (simp add: repaint_ready_def buried_def showing_def veiled_def demo_desk_fields demo_server layer_init_def)

end
