(* ===== verification/BlendOk.thy ===== *)
theory BlendOk
  imports Framebuffer
begin

unbundle bit_operations_syntax

text \<open>
  Blending, channel by channel: for an alpha of at most 255 each channel lies between those of the two
  colours, and no channel spills into its neighbour; composing premultiplied colours gives a
  premultiplied colour.
\<close>

lemma high_bits:
  fixes a :: u32
  assumes "a < 256" "8 \<le> i"
  shows "\<not> bit a i"
proof -
  have "unat (drop_bit 8 a) = 0" using assms(1) by (simp add: unat_div drop_bit_eq_div word_less_nat_alt)
  then have "\<not> bit (drop_bit 8 a) (i - 8)" by (simp add: unat_eq_zero)
  then show ?thesis using assms(2) by (simp add: bit_drop_bit_eq)
qed

lemma mask8: "(0xFF :: u32) = mask 8"
  by (simp add: mask_eq_exp_minus_1)

lemma bit_chan: "bit (chan n c) i \<longleftrightarrow> i < 8 \<and> bit c (n + i)"
  by (auto simp: chan_def mask8 bit_simps)

lemma bit_argb: "bit (argb a r g b) i \<longleftrightarrow> i < 32 \<and>
    (24 \<le> i \<and> bit a (i - 24) \<or> 16 \<le> i \<and> bit r (i - 16) \<or> 8 \<le> i \<and> bit g (i - 8) \<or> bit b i)"
  using bit_imp_le_length [of b i] by (auto simp: argb_def bit_simps)

lemma chan_argb:
  assumes "a < 256" "r < 256" "g < 256" "b < 256"
  shows "chan 24 (argb a r g b) = a" "chan 16 (argb a r g b) = r" "chan 8 (argb a r g b) = g" "chan 0 (argb a r g b) = b"
proof -
  have h: "8 \<le> i \<Longrightarrow> bit a i = False" "8 \<le> i \<Longrightarrow> bit r i = False" "8 \<le> i \<Longrightarrow> bit g i = False" "8 \<le> i \<Longrightarrow> bit b i = False" for i
    using high_bits assms by blast+
  have low: "bit c i \<Longrightarrow> c < 256 \<Longrightarrow> i < 8 \<and> i < 16 \<and> i < 24" for c :: u32 and i
    using high_bits [of c i] by (cases "i < 8") simp_all
  show "chan 24 (argb a r g b) = a" "chan 16 (argb a r g b) = r" "chan 8 (argb a r g b) = g" "chan 0 (argb a r g b) = b"
    by (rule bit_word_eqI; use h low assms in \<open>auto simp: bit_chan bit_argb dest: low\<close>)+
qed

lemma chan_less: "chan n c < 256"
proof -
  have "chan n c = take_bit 8 (drop_bit n c)" by (simp add: chan_def mask8 take_bit_eq_mask)
  then have "unat (chan n c) < 2 ^ 8" by (simp add: take_bit_eq_mod unat_mod)
  then show ?thesis by (simp add: word_less_nat_alt)
qed

lemma unat_small: "x < 256 \<Longrightarrow> unat (x :: u32) < 256"
  by (simp add: word_less_nat_alt)

lemma unat_times: "unat (x :: u32) < 256 \<Longrightarrow> unat (y :: u32) < 256 \<Longrightarrow> unat (x * y) = unat x * unat y"
proof -
  assume "unat x < 256" "unat y < 256"
  then have "unat x * unat y \<le> 255 * 255" by (intro mult_le_mono) simp_all
  then show ?thesis by (simp add: unat_word_ariths)
qed

lemma unat_rest: "unat (x :: u32) \<le> 255 \<Longrightarrow> unat (255 - x) = 255 - unat x"
  by (simp add: unat_sub word_le_nat_alt)

lemma mix_nat:
  assumes "alpha \<le> 255" "s < 256" "d < 256"
  shows "unat (mix alpha s d) = (unat s * unat alpha + unat d * (255 - unat alpha)) div 255"
proof -
  have a: "unat alpha \<le> 255" using assms(1) by (simp add: word_le_nat_alt)
  note s = unat_small [OF assms(2)] and d = unat_small [OF assms(3)]
  have "unat s * unat alpha \<le> 255 * 255" "unat d * (255 - unat alpha) \<le> 255 * 255" using a s d by (intro mult_le_mono; simp)+
  then show ?thesis using a s d
    by (simp add: mix_def unat_div unat_word_ariths unat_times unat_rest)
qed

lemma mix_between:
  assumes "alpha \<le> 255" "s < 256" "d < 256"
  shows "min s d \<le> mix alpha s d \<and> mix alpha s d \<le> max s d"
proof -
  define A S D where "A = unat alpha" and "S = unat s" and "D = unat d"
  have a: "A \<le> 255" using assms(1) by (simp add: word_le_nat_alt A_def)
  have m: "unat (mix alpha s d) = (S * A + D * (255 - A)) div 255" using mix_nat [OF assms] by (simp add: A_def S_def D_def)
  have sum: "k * A + k * (255 - A) = 255 * k" for k :: nat using a by (simp flip: distrib_left add_mult_distrib2)
  have "min S D * A + min S D * (255 - A) \<le> S * A + D * (255 - A)" by (intro add_mono mult_le_mono1) simp_all
  then have "min S D * 255 \<le> S * A + D * (255 - A)" unfolding sum by simp
  then have lo: "min S D \<le> (S * A + D * (255 - A)) div 255" by (simp add: less_eq_div_iff_mult_less_eq)
  have "S * A + D * (255 - A) \<le> max S D * A + max S D * (255 - A)" by (intro add_mono mult_le_mono1) simp_all
  then have "S * A + D * (255 - A) \<le> 255 * max S D" unfolding sum .
  then have hi: "(S * A + D * (255 - A)) div 255 \<le> max S D" by (metis div_le_mono nonzero_mult_div_cancel_left zero_neq_numeral)
  show ?thesis using lo hi m unfolding S_def D_def by (auto simp: word_le_nat_alt min_def max_def split: if_splits)
qed

lemma blend_a_channels:
  assumes "alpha \<le> 255" "n \<in> {0, 8, 16, 24}"
  shows "chan n (blend_a color alpha dc) = mix alpha (chan n color) (chan n dc)"
proof -
  have "mix alpha (chan m color) (chan m dc) < 256" for m
    using mix_between [OF assms(1) chan_less chan_less, of m color m dc] chan_less [of m color] chan_less [of m dc]
    by (metis max_def order_le_less_trans)
  then show ?thesis using assms(2) by (auto simp: blend_a_def chan_argb)
qed

subsection \<open>Premultiplied colours\<close>

definition premul :: "u32 \<Rightarrow> bool" where
  "premul c \<longleftrightarrow> chan 16 c \<le> chan 24 c \<and> chan 8 c \<le> chan 24 c \<and> chan 0 c \<le> chan 24 c"

lemma over_nat:
  assumes "opacity \<le> 255" "invt \<le> 255" "s < 256" "d < 256"
  shows "unat (over opacity invt s d) = unat s * unat opacity div 255 + unat d * unat invt div 255"
proof -
  have a: "unat opacity < 256" "unat invt < 256" using assms(1,2) by (simp_all add: word_le_nat_alt)
  note s = unat_small [OF assms(3)] and d = unat_small [OF assms(4)]
  have "unat s * unat opacity \<le> 255 * 255" "unat d * unat invt \<le> 255 * 255" using a s d by (intro mult_le_mono; simp)+
  then have "unat s * unat opacity div 255 \<le> 255" "unat d * unat invt div 255 \<le> 255" by (simp_all add: div_le_mono)
  then show ?thesis using a s d by (simp add: over_def unat_div unat_times unat_word_ariths)
qed

lemma blend_over_channels:
  assumes "opacity \<le> 255" "premul sc" "premul dc"
  defines "invt \<equiv> 255 - chan 24 sc * opacity div 255"
  shows "premul (blend_over sc opacity dc) \<and>
    (\<forall>n \<in> {0, 8, 16, 24}. chan n (blend_over sc opacity dc) = over opacity invt (chan n sc) (chan n dc))"
proof -
  define Q SA where "Q = unat opacity" and "SA = unat (chan 24 sc)"
  have o: "Q \<le> 255" using assms(1) by (simp add: Q_def word_le_nat_alt)
  have sa: "SA \<le> 255" using unat_small [OF chan_less, of 24 sc] by (simp add: SA_def)
  define A where "A = SA * Q div 255"
  have "SA * Q \<le> 255 * 255" using o sa by (intro mult_le_mono) simp_all
  then have A: "A \<le> 255" by (simp add: A_def div_le_mono)
  have u: "unat (chan 24 sc * opacity div 255) = A"
    using o sa by (simp add: A_def Q_def SA_def unat_div unat_times)
  then have i: "unat invt = 255 - A" using A by (simp add: invt_def unat_rest)
  then have i255: "invt \<le> 255" by (simp add: word_le_nat_alt)
  have ov: "unat (over opacity invt (chan n sc) (chan m dc)) = unat (chan n sc) * Q div 255 + unat (chan m dc) * (255 - A) div 255" for n m
    using over_nat [OF assms(1) i255 chan_less chan_less, of n sc m dc] i by (simp add: Q_def)
  have le: "chan n sc \<le> chan 24 sc" "chan n dc \<le> chan 24 dc" if "n \<in> {0, 8, 16, 24}" for n
    using assms(2,3) that by (auto simp: premul_def)
  have mono: "over opacity invt (chan n sc) (chan n dc) \<le> over opacity invt (chan 24 sc) (chan 24 dc)"
    if "n \<in> {0, 8, 16, 24}" for n
    using le [OF that] by (simp add: word_le_nat_alt ov add_mono div_le_mono mult_le_mono1)
  have "unat (chan 24 dc) * (255 - A) div 255 \<le> 255 * (255 - A) div 255"
    using unat_small [OF chan_less, of 24 dc] by (intro div_le_mono mult_le_mono1) simp
  then have "unat (over opacity invt (chan 24 sc) (chan 24 dc)) \<le> A + (255 - A)"
    unfolding ov by (simp add: A_def SA_def)
  then have top: "over opacity invt (chan 24 sc) (chan 24 dc) < 256" using A by (simp add: word_less_nat_alt)
  have b: "over opacity invt (chan n sc) (chan n dc) < 256" if "n \<in> {0, 8, 16, 24}" for n
    using mono [OF that] top by (rule order_le_less_trans)
  have C: "chan n (blend_over sc opacity dc) = over opacity invt (chan n sc) (chan n dc)" if "n \<in> {0, 8, 16, 24}" for n
  proof -
    have e: "blend_over sc opacity dc = argb (over opacity invt (chan 24 sc) (chan 24 dc)) (over opacity invt (chan 16 sc) (chan 16 dc))
        (over opacity invt (chan 8 sc) (chan 8 dc)) (over opacity invt (chan 0 sc) (chan 0 dc))"
      unfolding blend_over_def Let_def invt_def by (rule refl)
    note c = chan_argb [OF b b b b, of 24 16 8 0, folded e]
    show ?thesis using that c by auto
  qed
  then show ?thesis using mono [of 16] mono [of 8] mono [of 0] by (simp add: premul_def)
qed

end
