(* ===== verification/ShapesOk.thy ===== *)
theory ShapesOk
  imports FontOk BlendOk RenderOk
begin

unbundle bit_operations_syntax

text \<open>
  The shapes, in integers: which pixels an operation covers, as inequalities between distances, and the
  colour it leaves, as bytes of integers. Nothing here refers to the bars, runs, insets and blends of the
  code; the lemmas show that the code draws these shapes.
\<close>

subsection \<open>Colours\<close>

definition byte :: "nat \<Rightarrow> u32 \<Rightarrow> int" where
  "byte n c = uint c div 2 ^ n mod 256"

definition weighted :: "int \<Rightarrow> u32 \<Rightarrow> u32 \<Rightarrow> nat \<Rightarrow> int" where
  "weighted a s d n = (byte n s * a + byte n d * (255 - a)) div 255"

text \<open>A colour blended over another with an alpha of 0 to 255.\<close>

definition mixed :: "u32 \<Rightarrow> u32 \<Rightarrow> u32 \<Rightarrow> u32" where
  "mixed color alpha c =
     (if alpha \<ge> 255 then color
      else of_int (\<Sum>n \<leftarrow> [24, 16, 8, 0]. 2 ^ n * weighted (uint alpha) color c n))"

lemma uint_chan: "uint (chan n c) = uint c div 2 ^ n mod 256"
proof -
  have "chan n c = take_bit 8 (drop_bit n c)" by (simp add: chan_def mask8 take_bit_eq_mask)
  then have "unat (chan n c) = take_bit 8 (drop_bit n (unat c))"
    by (simp add: unsigned_take_bit_eq unat_drop_bit_eq)
  then have "unat (chan n c) = unat c div 2 ^ n mod 2 ^ 8"
    by (simp only: take_bit_eq_mod drop_bit_eq_div)
  then have "int (unat (chan n c)) = int (unat c div 2 ^ n mod 2 ^ 8)" by (rule arg_cong)
  then show ?thesis by (simp add: zmod_int zdiv_int)
qed

lemma byte_chan: "byte n c = uint (chan n c)"
  by (simp add: byte_def uint_chan)

lemma weighted_mix:
  assumes "alpha \<le> 255"
  shows "weighted (uint alpha) s d n = uint (mix alpha (chan n s) (chan n d))"
proof -
  have a: "unat alpha \<le> 255" using assms by (simp add: word_le_nat_alt)
  have "int (unat (mix alpha (chan n s) (chan n d))) =
      int ((unat (chan n s) * unat alpha + unat (chan n d) * (255 - unat alpha)) div 255)"
    using mix_nat [OF assms chan_less chan_less, of n s n d] by (rule arg_cong)
  also have "\<dots> = (uint (chan n s) * uint alpha + uint (chan n d) * (255 - uint alpha)) div 255"
    using a by (simp add: zdiv_int of_nat_diff)
  finally show ?thesis by (simp add: weighted_def byte_chan)
qed

lemma low_bit: "x < 256 \<Longrightarrow> 8 \<le> i \<Longrightarrow> bit (x :: u32) i = False"
  using high_bits by blast

lemma add_disjoint: "(\<And>n. \<not> bit (a :: u32) n \<or> \<not> bit b n) \<Longrightarrow> a OR b = a + b"
  by (rule disjunctive_add [symmetric])

lemma argb_sum:
  assumes "a < 256" "r < 256" "g < 256" "b < 256"
  shows "argb a r g b = 2 ^ 24 * a + 2 ^ 16 * r + 2 ^ 8 * g + b"
proof -
  note L = low_bit [OF assms(2)] low_bit [OF assms(3)] low_bit [OF assms(4)]
  have 1: "push_bit 24 a OR push_bit 16 r = push_bit 24 a + push_bit 16 r"
    by (rule add_disjoint) (auto simp: bit_push_bit_iff L)
  have 2: "(push_bit 24 a OR push_bit 16 r) OR push_bit 8 g = (push_bit 24 a OR push_bit 16 r) + push_bit 8 g"
    by (rule add_disjoint) (auto simp: bit_push_bit_iff bit_or_iff L)
  have 3: "((push_bit 24 a OR push_bit 16 r) OR push_bit 8 g) OR b = ((push_bit 24 a OR push_bit 16 r) OR push_bit 8 g) + b"
    by (rule add_disjoint) (auto simp: bit_push_bit_iff bit_or_iff L)
  have "argb a r g b = ((push_bit 24 a OR push_bit 16 r) OR push_bit 8 g) OR b"
    by (simp only: argb_def or.assoc)
  also have "\<dots> = ((push_bit 24 a OR push_bit 16 r) OR push_bit 8 g) + b" by (rule 3)
  also have "\<dots> = ((push_bit 24 a OR push_bit 16 r) + push_bit 8 g) + b" unfolding 2 ..
  also have "\<dots> = push_bit 24 a + push_bit 16 r + push_bit 8 g + b" unfolding 1 ..
  finally show ?thesis by (simp add: push_bit_eq_mult mult.commute)
qed

lemma of_int_byte: "of_int (uint (x :: u32)) = x"
  by simp

lemma blend_zero: "blend_a color 0 c = c"
proof -
  have "chan n (blend_a color 0 c) = chan n c" if "n \<in> {0, 8, 16, 24}" for n
    using mix_nat [of 0 "chan n color" "chan n c"] chan_less [of n] blend_a_channels [of 0 n color c] that
    by (simp add: word_unat_eq_iff)
  then have "chan 0 (blend_a color 0 c) = chan 0 c" "chan 8 (blend_a color 0 c) = chan 8 c"
    "chan 16 (blend_a color 0 c) = chan 16 c" "chan 24 (blend_a color 0 c) = chan 24 c" by simp_all
  moreover have "d = argb (chan 24 d) (chan 16 d) (chan 8 d) (chan 0 d)" for d
  proof (rule bit_word_eqI)
    fix i :: nat assume "i < LENGTH(32)"
    then consider "i < 8" | "8 \<le> i" "i < 16" | "16 \<le> i" "i < 24" | "24 \<le> i" "i < 32" by force
    then show "bit d i \<longleftrightarrow> bit (argb (chan 24 d) (chan 16 d) (chan 8 d) (chan 0 d)) i"
      by cases (simp_all add: bit_argb bit_chan, linarith+)
  qed
  ultimately show ?thesis by metis
qed

lemma mixed_tint: "mixed color alpha c = tint color alpha c"
proof (cases "alpha \<ge> 255")
  case True
  then show ?thesis by (auto simp: mixed_def tint_def blend_to_def)
next
  case False
  then have a: "alpha \<le> 255" by simp
  have lt: "mix alpha (chan n color) (chan n c) < 256" for n
    using mix_between [OF a chan_less chan_less, of n color n c] chan_less [of n color] chan_less [of n c]
    by (metis max_def order_le_less_trans)
  have "mixed color alpha c = blend_a color alpha c"
    using False by (simp add: mixed_def weighted_mix [OF a] blend_a_def argb_sum [OF lt lt lt lt])
  then show ?thesis using False blend_zero by (auto simp: tint_def blend_to_def)
qed

subsection \<open>Fills and strokes\<close>

text \<open>Distances of a pixel to the edges of a rectangle; a pixel of the rectangle has none below 0.\<close>

definition edges :: "rect \<Rightarrow> nat \<Rightarrow> nat \<Rightarrow> int list" where
  "edges r x y =
     [int y - sint (ry r), sint (ry r) + sint (rh r) - 1 - int y,
      int x - sint (rx r), sint (rx r) + sint (rw r) - 1 - int x]"

definition fill_shape :: "rect \<Rightarrow> u32 \<Rightarrow> u32 \<Rightarrow> nat \<Rightarrow> nat \<Rightarrow> u32 \<Rightarrow> u32" where
  "fill_shape r color alpha x y c = (if \<forall>d \<in> set (edges r x y). 0 \<le> d then mixed color alpha c else c)"

text \<open>A pixel is blended once for each edge closer than the width of the border: a corner twice.\<close>

definition stroke_shape :: "rect \<Rightarrow> u32 \<Rightarrow> int \<Rightarrow> u32 \<Rightarrow> nat \<Rightarrow> nat \<Rightarrow> u32 \<Rightarrow> u32" where
  "stroke_shape r color b alpha x y c =
     (if \<forall>d \<in> set (edges r x y). 0 \<le> d
      then (mixed color alpha ^^ length (filter (\<lambda>d. d < b) (edges r x y))) c else c)"

lemma within_edges: "within r x y \<longleftrightarrow> (\<forall>d \<in> set (edges r x y). 0 \<le> d)"
  by (auto simp: within_def edges_def)

lemma fill_shape_px: "fill_shape r color alpha x y c = (if within r x y then tint color alpha c else c)"
  by (simp add: fill_shape_def within_edges mixed_tint)

lemma sint_u8: "sint (ucast (b :: u8) :: i32) = uint b"
proof -
  have b: "uint b < 2 ^ 31" using unsigned_less [of b, where 'a = int] by simp
  have "sint (ucast b :: i32) = signed_take_bit 31 (uint b)"
    by (simp add: sint_uint unsigned_ucast_eq signed_take_bit_take_bit)
  also have "\<dots> = uint b"
    by (rule signed_take_bit_int_eq_self [OF order_trans [OF _ uint_ge_0] b]) simp
  finally show ?thesis .
qed

lemma tame_bounds:
  assumes "tame r" "0 \<le> sint (rw r)" "0 \<le> sint (rh r)"
  shows "- (2 ^ 30) \<le> sint (rx r)" "sint (rx r) + sint (rw r) < 2 ^ 30" "- (2 ^ 30) \<le> sint (ry r)" "sint (ry r) + sint (rh r) < 2 ^ 30"
    "sint (rx r) < 2 ^ 30" "sint (ry r) < 2 ^ 30" "sint (rw r) < 2 ^ 31" "sint (rh r) < 2 ^ 31"
  using assms by (auto simp: tame_def)

lemma bar_start:
  fixes p l b :: i32
  assumes "- (2 ^ 30) \<le> sint p" "sint p + sint l < 2 ^ 30" "0 \<le> sint b" "sint b \<le> sint l"
  shows "sint (p + l - b) = sint p + sint l - sint b"
proof -
  have "sint (p + l) = sint p + sint l" by (rule sint_add_small) (use assms in auto)
  then show ?thesis by (subst sint_diff_small) (use assms in auto)
qed

lemma stroke_shape_px:
  assumes "tame r" "uint bw \<le> sint (rw r)" "uint bw \<le> sint (rh r)"
  shows "stroke_px r color bw alpha x y c = stroke_shape r color (uint bw) alpha x y c"
proof (cases "bw = 0")
  case True
  have "filter (\<lambda>d. d < uint bw) (edges r x y) = []" if "\<forall>d \<in> set (edges r x y). 0 \<le> d"
    using that True by (auto simp: filter_empty_conv)
  then show ?thesis using True by (simp add: stroke_px_def stroke_shape_def)
next
  case False
  let ?b = "ucast bw :: i32"
  have b: "sint ?b = uint bw" "0 \<le> uint bw" by (simp_all add: sint_u8)
  have wh: "0 \<le> sint (rw r)" "0 \<le> sint (rh r)" using assms(2,3) b(2) by linarith+
  note T = tame_bounds [OF assms(1) wh]
  have ends: "sint (ry r + rh r - ?b) = sint (ry r) + sint (rh r) - uint bw" "sint (rx r + rw r - ?b) = sint (rx r) + sint (rw r) - uint bw"
    using bar_start [of "ry r" "rh r" ?b] bar_start [of "rx r" "rw r" ?b] T(1-4) assms(2,3) b by simp_all
  define D where "D = (\<forall>d \<in> set (edges r x y). 0 \<le> d)"
  have W: "within (r\<lparr>rh := ?b\<rparr>) x y \<longleftrightarrow> D \<and> int y - sint (ry r) < uint bw"
    "within (r\<lparr>ry := ry r + rh r - ?b, rh := ?b\<rparr>) x y \<longleftrightarrow> D \<and> sint (ry r) + sint (rh r) - 1 - int y < uint bw"
    "within (r\<lparr>rw := ?b\<rparr>) x y \<longleftrightarrow> D \<and> int x - sint (rx r) < uint bw"
    "within (r\<lparr>rx := rx r + rw r - ?b, rw := ?b\<rparr>) x y \<longleftrightarrow> D \<and> sint (rx r) + sint (rw r) - 1 - int x < uint bw"
    using assms(2,3) b unfolding D_def by (auto simp: within_def edges_def ends)
  show ?thesis
    unfolding stroke_px_def if_not_P [OF False] stroke_shape_def D_def [symmetric] stroke_bars_def Let_def
    by (simp add: W mixed_tint edges_def)
qed

subsection \<open>Rounded shapes\<close>

text \<open>A place at depth \<open>d\<close> and \<open>e\<close> below the nearer horizontal and vertical edge of a shape whose corners are
  quarters of a circle of radius \<open>q\<close>: in the square of a corner it is inside the circle.\<close>

definition rounded :: "int \<Rightarrow> int \<Rightarrow> int \<Rightarrow> bool" where
  "rounded q d e \<longleftrightarrow> 0 \<le> d \<and> 0 \<le> e \<and> (d < q \<and> e < q \<longrightarrow> (q - d)\<^sup>2 + (q - e)\<^sup>2 \<le> q\<^sup>2)"

definition depth :: "i32 \<Rightarrow> i32 \<Rightarrow> nat \<Rightarrow> int" where
  "depth p l v = min (int v - sint p) (sint p + sint l - 1 - int v)"

definition corner :: "rect \<Rightarrow> u8 \<Rightarrow> int" where
  "corner r radius = min (uint radius) (min (sint (rw r) div 2) (sint (rh r) div 2))"

definition round_shape :: "rect \<Rightarrow> u32 \<Rightarrow> u8 \<Rightarrow> u32 \<Rightarrow> nat \<Rightarrow> nat \<Rightarrow> u32 \<Rightarrow> u32" where
  "round_shape r color radius alpha x y c =
     (if rounded (corner r radius) (depth (ry r) (rh r) y) (depth (rx r) (rw r) x) then mixed color alpha c else c)"

lemma sqrt_loop_root:
  "0 \<le> s \<Longrightarrow> s * s \<le> n \<Longrightarrow> s \<le> sqrt_loop n s \<and> sqrt_loop n s * sqrt_loop n s \<le> n \<and>
     n < (sqrt_loop n s + 1) * (sqrt_loop n s + 1)"
proof (induction n s rule: sqrt_loop.induct)
  case (1 n s)
  show ?case
  proof (cases "(s + 1) * (s + 1) \<le> n")
    case True
    then have "sqrt_loop n s = sqrt_loop n (s + 1)" by (subst sqrt_loop.simps) simp
    then show ?thesis using 1(1) [OF True] 1(2) True by simp
  next
    case False
    then have "sqrt_loop n s = s" by (subst sqrt_loop.simps) simp
    then show ?thesis using False 1(3) by simp
  qed
qed

lemma inset_rounded:
  assumes "0 \<le> e"
  shows "rcorner_inset q d \<le> e \<longleftrightarrow> rounded (uint q) (uint d) e" "0 \<le> rcorner_inset q d" "rcorner_inset q d \<le> uint q"
proof -
  define Q D where "Q = uint q" and "D = uint d"
  have pos: "0 \<le> Q" "0 \<le> D" by (simp_all add: Q_def D_def)
  have "(rcorner_inset q d \<le> e \<longleftrightarrow> rounded Q D e) \<and> 0 \<le> rcorner_inset q d \<and> rcorner_inset q d \<le> Q"
  proof (cases "d \<ge> q")
    case True
    then have "Q \<le> D" by (simp add: word_le_def Q_def D_def)
    then show ?thesis using True assms pos by (simp add: rcorner_inset_def rounded_def)
  next
    case False
    then have lt: "D < Q" by (simp add: word_le_def Q_def D_def)
    define s where "s = sqrt_loop (2 * Q * D - D * D) 0"
    have "D * D \<le> 2 * Q * D" using lt pos by (intro mult_right_mono) simp_all
    then have S: "0 \<le> s" "s * s \<le> 2 * Q * D - D * D" "2 * Q * D - D * D < (s + 1) * (s + 1)"
      using sqrt_loop_root [of 0 "2 * Q * D - D * D"] by (simp_all add: s_def)
    have i: "rcorner_inset q d = Q - s" using False by (simp add: rcorner_inset_def s_def Q_def D_def)
    have sq: "2 * Q * D - D * D = Q\<^sup>2 - (Q - D)\<^sup>2" by (simp add: power2_eq_square algebra_simps)
    have "s * s \<le> Q * Q" using S(2) sq by (simp add: power2_eq_square) (smt (verit) zero_le_square)
    then have sQ: "s \<le> Q" using pos by (meson mult_strict_mono' not_le order_less_imp_le S(1))
    have "Q - s \<le> e \<longleftrightarrow> rounded Q D e"
    proof (cases "e < Q")
      case True
      have "Q - s \<le> e \<longleftrightarrow> (Q - e) * (Q - e) \<le> 2 * Q * D - D * D"
      proof
        assume "Q - s \<le> e"
        then have "(Q - e) * (Q - e) \<le> s * s" using True by (intro mult_mono) simp_all
        then show "(Q - e) * (Q - e) \<le> 2 * Q * D - D * D" using S(2) by linarith
      next
        assume h: "(Q - e) * (Q - e) \<le> 2 * Q * D - D * D"
        show "Q - s \<le> e"
        proof (rule ccontr)
          assume "\<not> Q - s \<le> e"
          then have "(s + 1) * (s + 1) \<le> (Q - e) * (Q - e)" using S(1) by (intro mult_mono) simp_all
          then show False using h S(3) by linarith
        qed
      qed
      then show ?thesis using True lt assms pos sq by (auto simp: rounded_def power2_eq_square)
    qed (use S(1) pos assms in \<open>simp add: rounded_def\<close>)
    then show ?thesis using i S(1) sQ by simp
  qed
  then show "rcorner_inset q d \<le> e \<longleftrightarrow> rounded (uint q) (uint d) e" "0 \<le> rcorner_inset q d" "rcorner_inset q d \<le> uint q"
    by (simp_all add: Q_def D_def)
qed

lemma uint_sint: "0 \<le> sint (p :: i32) \<Longrightarrow> uint p = sint p"
  using sint_nonneg [of p] by (simp only: uint_nat)

lemma sint_plus_int:
  assumes "- (2 ^ 31) \<le> sint (a :: i32) + k" "sint a + k < 2 ^ 31"
  shows "sint (a + of_int k) = sint a + k"
proof -
  have "a + of_int k = of_int (sint a + k)" by simp
  then have "sint (a + of_int k) = signed_take_bit 31 (sint a + k)" by (simp only: signed_of_int) simp
  then show ?thesis using assms by (simp add: signed_take_bit_int_eq_self)
qed

lemma uint_min: "uint (min a b) = min (uint a) (uint (b :: u32))"
  by (simp add: min_def word_le_def)

lemma corner_cap:
  assumes "0 \<le> sint (rw r)" "0 \<le> sint (rh r)"
  shows "uint (cap_radius r radius) = corner r radius"
proof -
  have "uint (ucast radius :: u32) = uint radius"
    by (simp add: unsigned_ucast_eq take_bit_int_eq_self order_less_trans [OF unsigned_less])
  moreover have "uint (rw r div 2) = sint (rw r) div 2" "uint (rh r div 2) = sint (rh r) div 2"
    using uint_sint [OF assms(1)] uint_sint [OF assms(2)] by (simp_all add: uint_div)
  ultimately show ?thesis unfolding cap_radius_def Let_def corner_def uint_min by (simp add: min.assoc)
qed

lemma edge_dist_depth:
  assumes "uint d < uint h"
  shows "uint (edge_dist h d) = min (uint d) (uint h - 1 - uint d)"
proof -
  have "1 \<le> uint h" using assms uint_ge_0 [of d] by linarith
  then have "1 \<le> h" by (simp add: word_le_def)
  then have "uint (h - 1) = uint h - 1" by (simp add: uint_minus_simple_alt [THEN iffD1])
  moreover from this have "uint (h - 1 - d) = uint (h - 1) - uint d"
    using assms by (intro uint_minus_simple_alt [THEN iffD1]) (simp add: word_le_def)
  ultimately show ?thesis by (simp add: edge_dist_def word_less_def)
qed

lemma row_word:
  assumes "row < unat (h :: u32)"
  shows "uint (of_nat row :: u32) = int row"
proof -
  have "row < 2 ^ 32" using assms unsigned_less [of h, where 'a = nat] by simp
  then have "unat (of_nat row :: u32) = row" by (simp add: unat_of_nat take_bit_nat_eq_self)
  then show ?thesis by (simp only: uint_nat)
qed

text \<open>The run of a row is the part of the shape in that row.\<close>

lemma run_within:
  assumes "tame r" "0 < sint (rw r)" "0 < sint (rh r)" "row < unat (rh r)"
  shows "within (round_run r (cap_radius r radius) (of_nat row)) x y \<longleftrightarrow>
    int y - sint (ry r) = int row \<and> rounded (corner r radius) (depth (ry r) (rh r) y) (depth (rx r) (rw r) x)"
proof -
  note T = tame_bounds [OF assms(1) less_imp_le [OF assms(2)] less_imp_le [OF assms(3)]]
  let ?q = "cap_radius r radius" and ?e = "edge_dist (rh r) (of_nat row)"
  define i where "i = rcorner_inset ?q ?e"
  have h: "uint (rh r) = sint (rh r)" using uint_sint assms(3) by simp
  have q: "uint ?q = corner r radius" using corner_cap assms(2,3) by simp
  have row: "int row < sint (rh r)" using assms(4) h by (simp only: uint_nat of_nat_less_iff flip: h)
  note rw = row_word [OF assms(4)]
  have e: "uint ?e = min (int row) (sint (rh r) - 1 - int row)"
    using edge_dist_depth [of "of_nat row" "rh r"] row h rw by simp
  have i0: "0 \<le> i" "i \<le> corner r radius" using inset_rounded(2,3) [of 0 ?q ?e] q by (simp_all add: i_def)
  then have "i \<le> sint (rw r) div 2" by (simp add: corner_def)
  then have i1: "2 * i \<le> sint (rw r)" by linarith
  have X: "sint (rx r + of_int i) = sint (rx r) + i" by (rule sint_plus_int) (use T i0 i1 in auto)
  have "sint (rw r + of_int (- 2 * i)) = sint (rw r) + (- 2 * i)" by (rule sint_plus_int) (use T i0 i1 in auto)
  then have W: "sint (rw r - 2 * of_int i) = sint (rw r) - 2 * i" by simp
  have "sint (ry r + of_int (int row)) = sint (ry r) + int row" by (rule sint_plus_int) (use T row in auto)
  then have Y: "sint (ry r + of_nat row) = sint (ry r) + int row" by simp
  have "within (round_run r ?q (of_nat row)) x y \<longleftrightarrow> int y - sint (ry r) = int row \<and> i \<le> depth (rx r) (rw r) x"
    by (auto simp: within_def round_run_def Let_def i_def [symmetric] X Y W depth_def)
  also have "\<dots> \<longleftrightarrow> int y - sint (ry r) = int row \<and> 0 \<le> depth (rx r) (rw r) x \<and> i \<le> depth (rx r) (rw r) x"
    using i0(1) by auto
  also have "\<dots> \<longleftrightarrow> int y - sint (ry r) = int row \<and>
      rounded (corner r radius) (depth (ry r) (rh r) y) (depth (rx r) (rw r) x)"
  proof (cases "int y - sint (ry r) = int row \<and> 0 \<le> depth (rx r) (rw r) x")
    case True
    then have p: "int y - sint (ry r) = int row" "sint (ry r) + sint (rh r) - 1 - int y = sint (rh r) - 1 - int row" by linarith+
    have "depth (ry r) (rh r) y = uint ?e" unfolding e depth_def p ..
    then show ?thesis using inset_rounded(1) [of "depth (rx r) (rw r) x" ?q ?e] True by (simp add: i_def q)
  qed (auto simp: rounded_def)
  finally show ?thesis .
qed

lemma fold_at:
  "fold (\<lambda>j c. if k = int j then F j c else c) [0..<n] c = (if 0 \<le> k \<and> k < int n then F (nat k) c else c)"
proof (cases "0 \<le> k")
  case True
  then obtain j where j: "k = int j" using nonneg_int_cases by blast
  show ?thesis using fold_if_one [of "[0..<n]" j F c] by (simp add: j)
next
  case False
  then have "fold (\<lambda>j c. if k = int j then F j c else c) [0..<n] c = c" by (intro fold_id) auto
  then show ?thesis using False by auto
qed

lemma fold_one_row: "fold (\<lambda>row c. if k = int row \<and> P then f c else c) [0..<n] c = (if 0 \<le> k \<and> k < int n \<and> P then f c else c)"
  using fold_at [of k "\<lambda>_. f" n c] by (cases P) (simp_all add: fold_id)

lemma round_shape_px:
  assumes "tame r" "0 < sint (rw r)" "0 < sint (rh r)"
  shows "round_px r color radius alpha x y c = round_shape r color radius alpha x y c"
proof -
  let ?in = "rounded (corner r radius) (depth (ry r) (rh r) y) (depth (rx r) (rw r) x)"
  have q: "uint (cap_radius r radius) = corner r radius" using corner_cap assms(2,3) by simp
  show ?thesis
  proof (cases "cap_radius r radius = 0")
    case True
    then have "corner r radius = 0" using q by simp
    then have "?in \<longleftrightarrow> within r x y" by (auto simp: rounded_def depth_def within_def)
    then show ?thesis using assms True by (simp add: round_px_def round_shape_def mixed_tint)
  next
    case False
    note R = run_within [OF assms, of _ radius x y]
    have "0 < sint (rw (round_run r (cap_radius r radius) (of_nat row)))"
      if "within (round_run r (cap_radius r radius) (of_nat row)) x y" for row
      using that by (auto simp: within_def)
    then have b: "(0 < sint (rw (round_run r (cap_radius r radius) (of_nat row))) \<and>
        within (round_run r (cap_radius r radius) (of_nat row)) x y) = (int y - sint (ry r) = int row \<and> ?in)"
      if "row < unat (rh r)" for row
      using R [OF that] by blast
    have "round_px r color radius alpha x y c =
        fold (\<lambda>row c. if int y - sint (ry r) = int row \<and> ?in then tint color alpha c else c) [0..<unat (rh r)] c"
      using assms(2,3) False b by (simp add: round_px_def Let_def) (rule fold_same, simp)
    also have "\<dots> = (if 0 \<le> int y - sint (ry r) \<and> int y - sint (ry r) < int (unat (rh r)) \<and> ?in then tint color alpha c else c)"
      by (rule fold_one_row)
    also have "\<dots> = (if ?in then tint color alpha c else c)"
      using sint_nonneg [of "rh r"] assms(3) by (auto simp: rounded_def depth_def)
    finally show ?thesis by (simp add: round_shape_def mixed_tint)
  qed
qed

subsection \<open>Chrome\<close>

text \<open>The border follows the corners: the inner shape lies \<open>b\<close> deeper and its corners have a radius smaller by \<open>b\<close>. A
  fill of 0 draws nothing inside, so that the border covers the whole shape. Without rounding the border is
  blended over the fill.\<close>

definition chrome_shape :: "rect \<Rightarrow> u8 \<Rightarrow> u8 \<Rightarrow> u32 \<Rightarrow> u32 \<Rightarrow> u32 \<Rightarrow> nat \<Rightarrow> nat \<Rightarrow> u32 \<Rightarrow> u32" where
  "chrome_shape r radius bw fill border alpha x y c =
     (let q = corner r radius; b = uint bw; d = depth (ry r) (rh r) y; e = depth (rx r) (rw r) x
      in if radius = 0 then stroke_shape r border b alpha x y (fill_shape r fill alpha x y c)
         else if q = 0 \<or> b = 0 then (if rounded q d e then mixed fill alpha c else c)
         else if fill \<noteq> 0 \<and> rounded (max 0 (q - b)) (d - b) (e - b) then mixed fill alpha c
         else if rounded q d e then mixed border alpha c
         else c)"

lemma blend_to_mixed: "blend_to color alpha c = mixed color alpha c"
proof (cases "alpha \<ge> 255 \<or> alpha \<noteq> 0")
  case True
  then show ?thesis by (auto simp: mixed_tint tint_def blend_to_def)
next
  case False
  then show ?thesis by (simp add: blend_to_def mixed_tint tint_def blend_zero)
qed

lemma corner_byte:
  assumes "0 \<le> sint (rw r)" "0 \<le> sint (rh r)"
  shows "corner r (ucast (cap_radius r radius)) = corner r radius"
proof -
  have "0 \<le> corner r radius" "corner r radius < 256"
    using unsigned_less [of radius, where 'a = int] assms by (auto simp: corner_def)
  then have "uint (ucast (cap_radius r radius) :: u8) = corner r radius"
    using corner_cap [OF assms, of radius] by (simp add: unsigned_ucast_eq take_bit_int_eq_self)
  then show ?thesis by (auto simp: corner_def)
qed

lemma sint_nat: "v < 2 ^ 31 \<Longrightarrow> sint (of_nat v :: i32) = int v"
proof -
  assume "v < 2 ^ 31"
  then have v: "int v < 2 ^ 31" by (metis of_nat_less_iff of_nat_numeral of_nat_power)
  then show ?thesis using sint_plus_int [of 0 "int v"] by simp
qed

text \<open>A row of a box and the columns that an inset leaves of it, in words and as depths.\<close>

definition small_span :: "i32 \<Rightarrow> i32 \<Rightarrow> bool" where
  "small_span p l \<longleftrightarrow> - (2 ^ 30) \<le> sint p \<and> 0 < sint l \<and> sint p + sint l < 2 ^ 30"

lemma depth_row:
  assumes "small_span p l" "y < 2 ^ 30" "0 \<le> depth p l y"
  shows "uint (edge_dist l (of_nat y - p)) = depth p l y"
proof -
  have d: "0 \<le> int y - sint p" "int y - sint p < sint l" using assms(3) by (auto simp: depth_def)
  have y: "sint (of_nat y :: i32) = int y" by (rule sint_nat) (use assms(2) in simp)
  have "sint (of_nat y - p) = int y - sint p"
    by (subst sint_diff_small; unfold y) (use d assms(1) in \<open>auto simp: small_span_def\<close>)
  then have u: "uint (of_nat y - p) = int y - sint p" using uint_sint [of "of_nat y - p"] d(1) by simp
  have l: "uint l = sint l" using uint_sint [of l] assms(1) by (simp add: small_span_def)
  have "sint l - 1 - (int y - sint p) = sint p + sint l - 1 - int y" by linarith
  then show ?thesis using edge_dist_depth [of "of_nat y - p" l] d(2) unfolding u l depth_def by simp
qed

lemma depth_cols:
  assumes "small_span p l" "x < 2 ^ 30" "0 \<le> i" "i < 2 ^ 16"
  shows "sint (p + of_int i) \<le> sint (of_nat x :: i32) \<and> sint (of_nat x :: i32) < sint (p + l - of_int i) \<longleftrightarrow> i \<le> depth p l x"
proof -
  have S: "- (2 ^ 30) \<le> sint p" "0 < sint l" "sint p + sint l < 2 ^ 30" using assms(1) by (simp_all add: small_span_def)
  have x: "sint (of_nat x :: i32) = int x" by (rule sint_nat) (use assms(2) in simp)
  have a: "sint (p + of_int i) = sint p + i" by (rule sint_plus_int) (use S assms(3,4) in auto)
  have pl: "sint (p + l) = sint p + sint l" by (rule sint_add_small) (use S in auto)
  have "sint (p + l + of_int (- i)) = sint (p + l) + - i" by (rule sint_plus_int; unfold pl) (use S assms(3,4) in auto)
  then have b: "sint (p + l - of_int i) = sint p + sint l - i" unfolding pl by simp
  show ?thesis unfolding a b x depth_def by auto
qed

lemma corner_range:
  assumes "0 \<le> sint (rw r)" "0 \<le> sint (rh r)"
  shows "0 \<le> corner r radius" "corner r radius < 256"
  using unsigned_less [of radius, where 'a = int] assms by (auto simp: corner_def)

lemma cut_small:
  assumes "uint q < 256"
  shows "0 \<le> rcorner_inset q d" "rcorner_inset q d < 2 ^ 16"
  using inset_rounded(2,3) [of 0 q d] assms by auto

lemma chrome_outer_shape:
  assumes "tame r" "0 < sint (rw r)" "0 < sint (rh r)" "x < 2 ^ 30" "y < 2 ^ 30" "within r x y"
  shows "chrome_outer r (cap_radius r radius) (of_nat y) (of_nat x) \<longleftrightarrow>
    rounded (corner r radius) (depth (ry r) (rh r) y) (depth (rx r) (rw r) x)"
proof -
  let ?q = "cap_radius r radius"
  have S: "small_span (rx r) (rw r)" "small_span (ry r) (rh r)" using assms(1-3) by (simp_all add: small_span_def tame_def)
  have D: "0 \<le> depth (ry r) (rh r) y" "0 \<le> depth (rx r) (rw r) x" using assms(6) by (auto simp: within_def depth_def)
  have q: "uint ?q = corner r radius" "uint ?q < 256"
    using corner_cap [of r radius] corner_range [of r radius] assms(2,3) by simp_all
  show ?thesis
    unfolding chrome_outer_def Let_def depth_cols [OF S(1) assms(4) cut_small [OF q(2)]]
      inset_rounded(1) [OF D(2)] depth_row [OF S(2) assms(5) D(1)] q(1) ..
qed

lemma inner_span:
  assumes "- (2 ^ 30) \<le> sint p" "0 < sint l" "sint p + sint l < 2 ^ 30" "0 \<le> sint b" "sint b < 256"
  shows "sint (p + b) = sint p + sint b" "sint (l - 2 * b) = sint l - 2 * sint b"
    "depth (p + b) (l - 2 * b) v = depth p l v - sint b"
proof -
  show p: "sint (p + b) = sint p + sint b" by (rule sint_add_small) (use assms in auto)
  have "sint (l + of_int (- 2 * sint b)) = sint l + - 2 * sint b" by (rule sint_plus_int) (use assms in auto)
  then show l: "sint (l - 2 * b) = sint l - 2 * sint b" by simp
  show "depth (p + b) (l - 2 * b) v = depth p l v - sint b" unfolding depth_def p l by (simp add: min_def)
qed

lemma chrome_inner_shape:
  assumes "tame r" "0 < sint (rw r)" "0 < sint (rh r)" "x < 2 ^ 30" "y < 2 ^ 30" "within r x y"
    and b: "0 \<le> sint b" "sint b < 256" and top: "0 \<le> sint (ry r) + sint b"
  shows "chrome_inner r (cap_radius r radius) b fill (of_nat y) (of_nat x) \<longleftrightarrow> fill \<noteq> 0 \<and>
    rounded (max 0 (corner r radius - sint b)) (depth (ry r) (rh r) y - sint b) (depth (rx r) (rw r) x - sint b)"
proof -
  let ?q = "cap_radius r radius" and ?iy = "ry r + b" and ?ih = "rh r - 2 * b" and ?ix = "rx r + b" and ?iw = "rw r - 2 * b"
  let ?d = "depth (ry r) (rh r) y - sint b" and ?e = "depth (rx r) (rw r) x - sint b"
  let ?ir = "if ?q > b then ?q - b else 0"
  have T: "- (2 ^ 30) \<le> sint (rx r)" "sint (rx r) + sint (rw r) < 2 ^ 30" "- (2 ^ 30) \<le> sint (ry r)" "sint (ry r) + sint (rh r) < 2 ^ 30"
    using assms(1) by (simp_all add: tame_def)
  note X = inner_span [OF T(1) assms(2) T(2) b] and Y = inner_span [OF T(3) assms(3) T(4) b]
  have q: "uint ?q = corner r radius" "uint ?q < 256" and ub: "uint b = sint b"
    using corner_cap [of r radius] corner_range [of r radius] assms(2,3) uint_sint [OF b(1)] by simp_all
  have ir: "uint ?ir = max 0 (corner r radius - sint b)"
  proof (cases "?q > b")
    case True
    then have "uint (?q - b) = uint ?q - uint b" by (intro uint_minus_simple_alt [THEN iffD1]) simp
    then show ?thesis using True q(1) ub by (simp add: word_less_def)
  qed (use q(1) ub in \<open>simp add: word_less_def\<close>)
  then have ir2: "uint ?ir < 256" using q corner_range [of r radius] assms(2,3) b by auto
  have uy: "uint (of_nat y :: u32) = int y" using sint_nat [of y] uint_sint [of "of_nat y"] assms(5) by simp
  have iy: "uint ?iy = sint (ry r) + sint b" using uint_sint [of ?iy] Y(1) top by simp
  have rows: "sint ?iw > 0 \<and> sint ?ih > 0 \<and> of_nat y \<ge> ?iy \<and> of_nat y < ?iy + ?ih \<longleftrightarrow> 0 < sint ?iw \<and> 0 \<le> ?d"
  proof (cases "0 < sint ?ih")
    case True
    have "sint (?iy + ?ih) = sint ?iy + sint ?ih" by (rule sint_add_small) (use True T Y(1,2) top b in auto)
    then have "uint (?iy + ?ih) = sint (ry r) + sint (rh r) - sint b"
      using uint_sint [of "?iy + ?ih"] True Y(1,2) top by simp
    then show ?thesis using True unfolding word_le_def word_less_def uy iy by (auto simp: depth_def)
  next
    case False
    then have "\<not> 0 \<le> ?d" using Y(2) by (auto simp: depth_def)
    then show ?thesis using False by blast
  qed
  show ?thesis
  proof (cases "0 < sint ?iw \<and> 0 \<le> ?d")
    case True
    then have "0 < sint ?ih" using rows by blast
    then have S: "small_span ?ix ?iw" "small_span ?iy ?ih"
      using True T X(1,2) Y(1,2) b by (auto simp: small_span_def)
    have d: "0 \<le> depth ?iy ?ih y" using True Y(3) by simp
    have e: "uint (edge_dist ?ih (of_nat y - ?iy)) = ?d" using depth_row [OF S(2) assms(5) d] Y(3) by simp
    have "chrome_inner r ?q b fill (of_nat y) (of_nat x) \<longleftrightarrow>
        fill \<noteq> 0 \<and> rcorner_inset ?ir (edge_dist ?ih (of_nat y - ?iy)) \<le> ?e"
      using True rows depth_cols [OF S(1) assms(4) cut_small [OF ir2], of "edge_dist ?ih (of_nat y - ?iy)"]
      unfolding X(3) by (auto simp: chrome_inner_def Let_def)
    also have "\<dots> \<longleftrightarrow> fill \<noteq> 0 \<and> rounded (max 0 (corner r radius - sint b)) ?d ?e"
    proof (cases "0 \<le> ?e")
      case True
      then show ?thesis using inset_rounded(1) [of ?e ?ir] ir e by simp
    next
      case False
      then show ?thesis using cut_small(1) [OF ir2, of "edge_dist ?ih (of_nat y - ?iy)"] by (auto simp: rounded_def)
    qed
    finally show ?thesis .
  next
    case False
    have "\<not> rounded (max 0 (corner r radius - sint b)) ?d ?e"
    proof
      assume "rounded (max 0 (corner r radius - sint b)) ?d ?e"
      then have "0 \<le> ?d" "0 \<le> ?e" by (simp_all add: rounded_def)
      then show False using False X(2) by (auto simp: depth_def)
    qed
    moreover have "\<not> chrome_inner r ?q b fill (of_nat y) (of_nat x)"
      using False rows by (auto simp: chrome_inner_def Let_def)
    ultimately show ?thesis by blast
  qed
qed

lemma chrome_shape_px:
  assumes "tame r" "0 < sint (rw r)" "0 < sint (rh r)" "x < 2 ^ 30" "y < 2 ^ 30"
    and flat: "radius = 0 \<Longrightarrow> uint bw \<le> sint (rw r) \<and> uint bw \<le> sint (rh r)"
    and top: "radius \<noteq> 0 \<Longrightarrow> 0 \<le> sint (ry r) + uint bw"
  shows "chrome_round_px r radius bw fill border alpha x y c = chrome_shape r radius bw fill border alpha x y c"
proof -
  let ?q = "cap_radius r radius" and ?d = "depth (ry r) (rh r) y" and ?e = "depth (rx r) (rw r) x"
  have wh: "0 \<le> sint (rw r)" "0 \<le> sint (rh r)" using assms(2,3) by simp_all
  have q: "uint ?q = corner r radius" using corner_cap [OF wh] .
  have b: "sint (ucast bw :: i32) = uint bw" "0 \<le> sint (ucast bw :: i32)" "sint (ucast bw :: i32) < 256"
    using unsigned_less [of bw, where 'a = int] by (simp_all add: sint_u8)
  have z: "?q = 0 \<longleftrightarrow> corner r radius = 0" "bw = 0 \<longleftrightarrow> uint bw = 0" using q by (simp_all add: word_uint_eq_iff)
  consider "radius = 0" | "radius \<noteq> 0" "?q = 0 \<or> bw = 0" | "radius \<noteq> 0" "\<not> (?q = 0 \<or> bw = 0)" by blast
  then show ?thesis
  proof cases
    case 1
    have "stroke_px r border bw alpha x y c1 = stroke_shape r border (uint bw) alpha x y c1" for c1
      using stroke_shape_px [OF assms(1)] flat [OF 1] by blast
    moreover have "stroke_px r border 0 alpha x y c1 = c1" for c1 by (simp add: stroke_px_def)
    ultimately have "stroke_shape r border (uint bw) alpha x y c1 =
        (if bw \<noteq> 0 then stroke_px r border bw alpha x y c1 else c1)" for c1 by metis
    then show ?thesis using 1 wh assms(2,3)
      by (simp add: chrome_round_px_def chrome_shape_def Let_def fill_shape_px)
  next
    case 2
    then have "chrome_round_px r radius bw fill border alpha x y c = round_px r fill (ucast ?q) alpha x y c"
      using assms(2,3) by (simp add: chrome_round_px_def Let_def)
    also have "\<dots> = (if rounded (corner r radius) ?d ?e then mixed fill alpha c else c)"
      unfolding round_shape_px [OF assms(1-3)] round_shape_def corner_byte [OF wh] ..
    finally show ?thesis using 2 z by (simp add: chrome_shape_def Let_def)
  next
    case 3
    show ?thesis
    proof (cases "within r x y")
      case True
      note I = chrome_inner_shape [OF assms(1-5) True b(2,3), where fill = fill and radius = radius, unfolded b(1), OF top [OF 3(1)]]
      note O = chrome_outer_shape [OF assms(1-5) True, of radius]
      show ?thesis using 3 z True assms(2,3)
        by (simp add: chrome_round_px_def chrome_px_def chrome_shape_def Let_def I O blend_to_mixed)
    next
      case False
      then have n: "\<not> (0 \<le> ?d \<and> 0 \<le> ?e)" by (auto simp: within_def depth_def)
      then have "\<not> (0 \<le> ?d - uint bw \<and> 0 \<le> ?e - uint bw)" using uint_ge_0 [of bw] by linarith
      with n have "\<not> rounded (corner r radius) ?d ?e" "\<not> rounded k (?d - uint bw) (?e - uint bw)" for k
        unfolding rounded_def by blast+
      then show ?thesis using 3 z False assms(2,3) by (simp add: chrome_round_px_def chrome_shape_def Let_def)
    qed
  qed
qed

subsection \<open>Texture copies\<close>

text \<open>A texel over a pixel: an opaque one, and a premultiplied one with its own alpha.\<close>

definition opaque_over :: "u32 \<Rightarrow> int \<Rightarrow> u32 \<Rightarrow> u32" where
  "opaque_over s a c = of_int (2 ^ 24 * 255 + (\<Sum>n \<leftarrow> [16, 8, 0]. 2 ^ n * weighted a s c n))"

definition premul_over :: "u32 \<Rightarrow> int \<Rightarrow> u32 \<Rightarrow> u32" where
  "premul_over s a c =
     (let rest = 255 - byte 24 s * a div 255;
          part = (\<lambda>n. 2 ^ n * (byte n s * a div 255 + byte n c * rest div 255))
      in of_int (part 24 OR part 16 OR part 8 OR part 0))"

definition blit_shape :: "i32 \<Rightarrow> i32 \<Rightarrow> u32 list \<Rightarrow> u32 \<Rightarrow> u32 \<Rightarrow> rect \<Rightarrow> u8 \<Rightarrow> u8 \<Rightarrow> nat \<Rightarrow> nat \<Rightarrow> u32 \<Rightarrow> u32" where
  "blit_shape dx dy src src_w src_h rc opacity fmt x y c =
     (let u = int x - sint dx + sint (rx rc); v = int y - sint dy + sint (ry rc);
          s = src ! (nat v * unat src_w + nat u)
      in if 0 \<le> u \<and> u < uint src_w \<and> sint (rx rc) \<le> u \<and> u < sint (rx rc) + sint (rw rc) \<and>
            0 \<le> v \<and> v < uint src_h \<and> sint (ry rc) \<le> v \<and> v < sint (ry rc) + sint (rh rc) \<and> opacity \<noteq> 0
         then (if fmt = 0 then opaque_over s (uint opacity) c
               else if fmt = 1 then premul_over s (uint opacity) c else c)
         else c)"

lemma opacity_word: "uint (ucast (op :: u8) :: u32) = uint op" "(ucast op :: u32) \<le> 255"
proof -
  have "uint op < 2 ^ 8" using unsigned_less [of op, where 'a = int] by simp
  then show u: "uint (ucast op :: u32) = uint op"
    by (simp add: unsigned_ucast_eq take_bit_int_eq_self)
  show "(ucast op :: u32) \<le> 255" using \<open>uint op < 2 ^ 8\<close> by (simp add: word_le_def u)
qed

lemma opaque_over_px:
  assumes "opacity \<le> 255"
  shows "blend_x s opacity c = opaque_over s (uint opacity) c"
proof -
  let ?m = "\<lambda>n. mix opacity (chan n s) (chan n c)"
  have lt: "?m n < 256" for n
    using mix_between [OF assms chan_less chan_less, of n s n c] chan_less [of n s] chan_less [of n c]
    by (metis max_def order_le_less_trans)
  have "opaque_over s (uint opacity) c = argb 255 (?m 16) (?m 8) (?m 0)"
    using argb_sum [OF _ lt lt lt, of 255] by (simp add: opaque_over_def weighted_mix [OF assms])
  moreover have "blend_x s opacity c = argb 255 (?m 16) (?m 8) (?m 0)"
  proof (cases "opacity = 255")
    case True
    have m: "?m n = chan n s" for n
      using mix_nat [of 255 "chan n s" "chan n c", OF _ chan_less chan_less] by (simp add: True word_unat_eq_iff)
    have k: "(0xFF000000 :: u32) = push_bit 24 (mask 8)" "(0x00FFFFFF :: u32) = mask 24" "(255 :: u32) = mask 8"
      by (simp_all add: mask_eq_exp_minus_1 push_bit_eq_mult)
    have "(s AND mask 24) OR push_bit 24 (mask 8) = argb (mask 8) (chan 16 s) (chan 8 s) (chan 0 s)"
    proof (rule bit_word_eqI)
      fix i :: nat assume "i < LENGTH(32)"
      then consider "i < 8" | "8 \<le> i" "i < 16" | "16 \<le> i" "i < 24" | "24 \<le> i" "i < 32" by force
      then show "bit ((s AND mask 24) OR push_bit 24 (mask 8)) i \<longleftrightarrow> bit (argb (mask 8) (chan 16 s) (chan 8 s) (chan 0 s)) i"
        by cases (simp_all add: bit_argb bit_chan bit_and_iff bit_or_iff bit_push_bit_iff bit_mask_iff, linarith+)
    qed
    then show ?thesis unfolding blend_x_def m using True by (simp only: k simp_thms if_True)
  next
    case False
    then show ?thesis by (simp add: blend_x_def argb_def or.assoc)
  qed
  ultimately show ?thesis by simp
qed

lemma premul_over_px:
  assumes "opacity \<le> 255"
  shows "blend_over s opacity c = premul_over s (uint opacity) c"
proof -
  let ?t = "chan 24 s * opacity div 255"
  have o: "uint opacity \<le> 255" "0 \<le> uint opacity" using assms by (simp_all add: word_le_def)
  have b: "0 \<le> byte n d" "byte n d \<le> 255" for n d by (simp_all add: byte_def)
  have mul: "uint (x * y) = uint x * uint y" if "uint x \<le> 255" "uint y \<le> 255" for x y :: u32
  proof -
    have "uint x * uint y \<le> 255 * 255" using that by (intro mult_mono) simp_all
    then show ?thesis by (simp add: uint_word_ariths take_bit_int_eq_self)
  qed
  have le: "x * y div 255 \<le> 255" "0 \<le> x * y div 255" if "0 \<le> x" "x \<le> 255" "0 \<le> y" "y \<le> 255" for x y :: int
  proof -
    have "x * y \<le> 255 * 255" using that by (intro mult_mono) simp_all
    then show "x * y div 255 \<le> 255" by simp
    show "0 \<le> x * y div 255" using that by (simp add: pos_imp_zdiv_nonneg_iff)
  qed
  have t: "uint ?t = byte 24 s * uint opacity div 255"
    using mul [of "chan 24 s" opacity] b [of 24 s] o by (simp add: byte_chan uint_div)
  have r: "uint (255 - ?t) = 255 - byte 24 s * uint opacity div 255"
  proof -
    have "?t \<le> 255" using t le(1) [of "byte 24 s" "uint opacity"] b [of 24 s] o by (simp add: word_le_def)
    then have "uint (255 - ?t) = uint (255 :: u32) - uint ?t" by (intro uint_minus_simple_alt [THEN iffD1])
    then show ?thesis unfolding t by simp
  qed
  have part: "uint (over opacity (255 - ?t) (chan n s) (chan n c)) =
      byte n s * uint opacity div 255 + byte n c * (255 - byte 24 s * uint opacity div 255) div 255" for n
  proof -
    note T = le [OF b o(2,1), of 24 s]
    have "uint (chan n s * opacity div 255) = byte n s * uint opacity div 255"
      using mul [of "chan n s" opacity] b [of n s] o by (simp add: byte_chan uint_div)
    moreover have "uint (chan n c * (255 - ?t) div 255) = byte n c * (255 - byte 24 s * uint opacity div 255) div 255"
      using mul [of "chan n c" "255 - ?t"] b [of n c] T r by (simp add: byte_chan uint_div)
    moreover have "byte n s * uint opacity div 255 \<le> 255" "byte n c * (255 - byte 24 s * uint opacity div 255) div 255 \<le> 255"
      using le(1) [OF b o(2,1), of n s] le(1) [OF b, of "255 - byte 24 s * uint opacity div 255" n c] T by simp_all
    moreover have "0 \<le> byte n s * uint opacity div 255" "0 \<le> byte n c * (255 - byte 24 s * uint opacity div 255) div 255"
      using le(2) [OF b o(2,1), of n s] le(2) [OF b, of "255 - byte 24 s * uint opacity div 255" n c] T by simp_all
    ultimately show ?thesis by (simp add: over_def uint_word_ariths take_bit_int_eq_self)
  qed
  have push: "push_bit n x = of_int (2 ^ n * uint x)" for n and x :: u32
    by (simp add: push_bit_eq_mult mult.commute)
  have zero: "x = of_int (2 ^ 0 * uint x)" for x :: u32 by simp
  show ?thesis
    unfolding blend_over_def Let_def argb_def push
    by (subst (5) zero) (simp only: part premul_over_def Let_def of_int_or_eq)
qed

lemma blit_shape_px:
  "blit_px dx dy src src_w src_h rc opacity fmt x y c = blit_shape dx dy src src_w src_h rc opacity fmt x y c"
proof -
  have f: "fmt \<le> 1 \<longleftrightarrow> fmt = 0 \<or> fmt = 1" for fmt :: u8
    by (metis order_le_less word_less_1 order_refl word_coorder.extremum)
  show ?thesis
    unfolding blit_px_def blit_shape_def has_texel_def src_x_def Let_def f
      opaque_over_px [OF opacity_word(2)] premul_over_px [OF opacity_word(2)] opacity_word(1)
    by (auto simp: opaque_over_px [OF opacity_word(2)] premul_over_px [OF opacity_word(2)] opacity_word(1))
qed

subsection \<open>Bitmap text\<close>

text \<open>Cells of 8 by 8 pixels side by side; the highest bit of a row of a glyph is its left pixel.\<close>

definition text_shape :: "i32 \<Rightarrow> i32 \<Rightarrow> bytes \<Rightarrow> u32 \<Rightarrow> u32 \<Rightarrow> nat \<Rightarrow> nat \<Rightarrow> u32 \<Rightarrow> u32" where
  "text_shape x y s color alpha x' y' c =
     (let u = int x' - sint x; v = int y' - sint y
      in if 0 \<le> u \<and> u < 8 * int (length s) \<and> 0 \<le> v \<and> v < 8 \<and>
            bit (scene_font_glyph (s ! nat (u div 8)) ! nat v) (7 - nat (u mod 8))
         then mixed color alpha c else c)"

lemma glyph_bit:
  assumes "col < 8"
  shows "(g :: u8) AND drop_bit col 0x80 \<noteq> 0 \<longleftrightarrow> bit g (7 - col)"
proof -
  have "drop_bit col (push_bit 7 (1 :: u8)) = push_bit (7 - col) 1"
    by (rule bit_word_eqI, unfold bit_drop_bit_eq comp_def bit_push_bit_iff bit_1_iff possible_bit_word) (use assms in auto)
  moreover have "(0x80 :: u8) = push_bit 7 1" by (simp add: push_bit_eq_mult)
  ultimately have "drop_bit col (0x80 :: u8) = push_bit (7 - col) 1" by (simp only:)
  then have "g AND drop_bit col 0x80 = (if bit g (7 - col) then push_bit (7 - col) 1 else 0)"
    by (auto intro!: bit_word_eqI simp: bit_and_iff bit_push_bit_iff bit_1_iff bit_exp_iff)
  moreover have "push_bit (7 - col) (1 :: u8) \<noteq> 0" using assms by (auto simp: push_bit_eq_0_iff)
  ultimately show ?thesis by simp
qed

lemma glyph_shape:
  assumes "- (2 ^ 30) \<le> sint cx" "sint cx + 8 < 2 ^ 30" "- (2 ^ 30) \<le> sint y" "sint y + 8 < 2 ^ 30"
    and K: "\<And>px yy. sint cx \<le> sint px \<Longrightarrow> sint px < sint cx + 8 \<Longrightarrow> sint y \<le> sint yy \<Longrightarrow> sint yy < sint y + 8 \<Longrightarrow> K px yy"
  defines "u \<equiv> \<lambda>x'. int x' - sint cx" and "v \<equiv> \<lambda>y'. int y' - sint y"
  shows "glyph_px K f g cx y x' y' c =
    (if 0 \<le> u x' \<and> u x' < 8 \<and> 0 \<le> v y' \<and> v y' < 8 \<and> bit (g ! nat (v y')) (7 - nat (u x')) then f c else c)"
proof -
  have X: "sint (cx + of_nat col) = sint cx + int col" if "col < 8" for col
    using sint_plus_int [of cx "int col"] that assms(1,2) by simp
  have Y: "sint (y + of_nat row) = sint y + int row" if "row < 8" for row
    using sint_plus_int [of y "int row"] that assms(3,4) by simp
  have cell: "point_px (\<lambda>px yy. K px yy \<and> g ! row AND drop_bit col 0x80 \<noteq> 0) f (cx + of_nat col) (y + of_nat row) x' y' c =
      (if u x' = int col then if v y' = int row then if bit (g ! row) (7 - col) then f c else c else c else c)"
    if "row < 8" "col < 8" for row col c
  proof -
    have "K (cx + of_nat col) (y + of_nat row)" using X [OF that(2)] Y [OF that(1)] that by (intro K) simp_all
    moreover have "sint cx + int col = int x' \<longleftrightarrow> u x' = int col" "sint y + int row = int y' \<longleftrightarrow> v y' = int row"
      by (auto simp: u_def v_def)
    ultimately show ?thesis using that by (simp add: point_px_def X Y glyph_bit)
  qed
  define P where "P = (\<lambda>row c. if bit (g ! row) (7 - nat (u x')) then f c else c)"
  have line: "fold (\<lambda>col. point_px (\<lambda>px yy. K px yy \<and> g ! row AND drop_bit col 0x80 \<noteq> 0) f (cx + of_nat col) (y + of_nat row) x' y') [0..<8] c =
      (if v y' = int row then if 0 \<le> u x' \<and> u x' < 8 then P row c else c else c)" if "row < 8" for row c
  proof -
    have "fold (\<lambda>col. point_px (\<lambda>px yy. K px yy \<and> g ! row AND drop_bit col 0x80 \<noteq> 0) f (cx + of_nat col) (y + of_nat row) x' y') [0..<8] c =
        fold (\<lambda>col c. if u x' = int col then if v y' = int row then if bit (g ! row) (7 - col) then f c else c else c else c) [0..<8] c"
      by (rule fold_same) (use cell that in auto)
    then show ?thesis unfolding fold_at by (simp add: P_def)
  qed
  have "glyph_px K f g cx y x' y' c =
      fold (\<lambda>row c. if v y' = int row then if 0 \<le> u x' \<and> u x' < 8 then P row c else c else c) [0..<8] c"
    unfolding glyph_px_def by (rule fold_same) (use line in auto)
  then show ?thesis unfolding fold_at by (simp add: P_def)
qed

lemma text_shape_px:
  assumes "- (2 ^ 30) \<le> sint x" "sint x + 8 * int (length s) < 2 ^ 30" "- (2 ^ 30) \<le> sint y" "sint y + 8 < 2 ^ 30"
  shows "text_px x y s color alpha x' y' c = text_shape x y s color alpha x' y' c"
proof -
  let ?u = "int x' - sint x" and ?v = "int y' - sint y"
  let ?K = "\<lambda>px yy. sint x \<le> sint px \<and> sint px < sint x + int (length s) * 8 \<and> sint y \<le> sint yy \<and> sint yy < sint y + 8"
  define P where "P = (\<lambda>i c. if 0 \<le> ?v \<and> ?v < 8 \<and> bit (scene_font_glyph (s ! i) ! nat ?v) (7 - nat (?u mod 8))
      then tint color alpha c else c)"
  have cell: "glyph_px ?K (tint color alpha) (scene_font_glyph (s ! i)) (of_int (sint x + int i * 8)) y x' y' c =
      (if ?u div 8 = int i then P i c else c)" if "i < length s" for i c
  proof -
    have i: "int i + 1 \<le> int (length s)" using that by linarith
    have cx: "sint (of_int (sint x + int i * 8) :: i32) = sint x + int i * 8"
      using sint_plus_int [of x "int i * 8"] i assms(1,2) by simp
    have G: "glyph_px ?K (tint color alpha) (scene_font_glyph (s ! i)) (of_int (sint x + int i * 8)) y x' y' c =
      (if 0 \<le> int x' - (sint x + int i * 8) \<and> int x' - (sint x + int i * 8) < 8 \<and> 0 \<le> ?v \<and> ?v < 8 \<and>
          bit (scene_font_glyph (s ! i) ! nat ?v) (7 - nat (int x' - (sint x + int i * 8))) then tint color alpha c else c)"
      by (rule glyph_shape [of "of_int (sint x + int i * 8)" y ?K, unfolded cx]) (use i assms in auto)
    have "0 \<le> int x' - (sint x + int i * 8) \<and> int x' - (sint x + int i * 8) < 8 \<longleftrightarrow> ?u div 8 = int i" by linarith
    moreover have "int x' - (sint x + int i * 8) = ?u mod 8" if "?u div 8 = int i"
      using div_mult_mod_eq [of ?u 8] that by linarith
    ultimately show ?thesis unfolding G P_def by auto
  qed
  have "text_px x y s color alpha x' y' c = fold (\<lambda>i c. if ?u div 8 = int i then P i c else c) [0..<length s] c"
    unfolding text_px_def by (rule fold_same) (use cell in auto)
  also have "\<dots> = (if 0 \<le> ?u div 8 \<and> ?u div 8 < int (length s) then P (nat (?u div 8)) c else c)" by (rule fold_at)
  also have "\<dots> = text_shape x y s color alpha x' y' c"
  proof -
    have "0 \<le> ?u div 8 \<and> ?u div 8 < int (length s) \<longleftrightarrow> 0 \<le> ?u \<and> ?u < 8 * int (length s)" by linarith
    then show ?thesis unfolding text_shape_def Let_def mixed_tint P_def by auto
  qed
  finally show ?thesis .
qed

subsection \<open>The drawing operations\<close>

text \<open>A shape under a clip.\<close>

definition clipped :: "rect option \<Rightarrow> (nat \<Rightarrow> nat \<Rightarrow> u32 \<Rightarrow> u32) \<Rightarrow> nat \<Rightarrow> nat \<Rightarrow> u32 \<Rightarrow> u32" where
  "clipped clip g x y c = (if clip_has clip x y then g x y c else c)"

lemma shape_drawn:
  assumes "shader F g" "fb_ok fb" "clip_ok clip" "\<And>x y c. x < 2 ^ 30 \<Longrightarrow> y < 2 ^ 30 \<Longrightarrow> g x y c = h x y c"
  shows "drawn fb (F clip fb) (clipped clip h)"
proof (rule drawn_cong [OF shader_drawn [OF assms(1,3,2)]])
  fix x y c assume "in_fb fb x y"
  then have "x < 2 ^ 30" "y < 2 ^ 30" using assms(2) by (simp_all add: in_fb_def fb_ok_def)
  from assms(4) [OF this] show "(if clip_has clip x y then g x y c else c) = clipped clip h x y c"
    by (simp add: clipped_def)
qed

end
