(* ===== verification/Image.thy ===== *)
theory Image
  imports Requests Framebuffer
begin

text \<open>
  The image loader \<open>src/scene_image.c\<close>. A file is the list of its bytes, the position of the stream
  an argument; the file system is a function from paths to files, and the vendored decoder
  (\<open>stbi_load\<close>) a function from paths to dimensions and RGBA bytes. The text the code leaves in
  \<open>err_buf\<close> is a constructor of \<open>img_error\<close>. Storage for pixels is available unless its size does not
  fit: a negative number of pixels becomes a huge \<open>size_t\<close>, and \<open>calloc\<close> returns \<open>NULL\<close>. A store beyond
  the pixels allocated, undefined in C, changes nothing here.
\<close>

datatype img_error =
    Img_cannot_open | Img_cannot_read
  | Bmp_cannot_open | Bmp_file_header | Bmp_magic | Bmp_info_header | Bmp_compressed | Bmp_bpp
  | Bmp_dimensions | Bmp_memory | Bmp_read
  | Tga_cannot_open | Tga_header | Tga_color_map | Tga_type | Tga_bpp | Tga_dimensions | Tga_memory
  | Tga_read | Tga_rle_read
  | Stb_failed | Stb_dimensions

type_synonym image = "i32 \<times> i32 \<times> u32 list"

subsection \<open>Streams\<close>

text \<open>A read of \<open>n\<close> bytes at \<open>at\<close>; an incomplete one is an error wherever the code looks.\<close>

definition fread :: "bytes \<Rightarrow> nat \<Rightarrow> nat \<Rightarrow> bytes option" where
  "fread f at n = (if at + n \<le> length f then Some (take n (drop at f)) else None)"

text \<open>The \<open>size_t\<close> an \<open>int\<close> is converted to.\<close>

definition csize :: "i32 \<Rightarrow> nat" where
  "csize n = nat (sint n mod 2 ^ 64)"

text \<open>A pixel of a file: blue, green, red, and alpha where there are four bytes.\<close>

definition file_px :: "bytes \<Rightarrow> nat \<Rightarrow> nat \<Rightarrow> u32" where
  "file_px buf bpp i =
     argb (if bpp = 4 then ucast (rd buf (i + 3)) else 0xFF) (ucast (rd buf (i + 2))) (ucast (rd buf (i + 1)))
       (ucast (rd buf i))"

subsection \<open>BMP\<close>

text \<open>The bytes of a row and the position of the next one. A row wider than the buffer of 4096 bytes is read
  with its padding, a narrower one without, and the padding skipped.\<close>

definition bmp_row :: "bytes \<Rightarrow> i32 \<Rightarrow> i32 \<Rightarrow> nat \<Rightarrow> (bytes \<times> nat) option" where
  "bmp_row f wide stride at =
     (if 4096 < sint wide then
        case fread f at (csize stride) of
          None \<Rightarrow> None
        | Some buf \<Rightarrow> Some (buf, at + csize stride)
      else
        case fread f at (csize wide) of
          None \<Rightarrow> None
        | Some buf \<Rightarrow> Some (buf, at + csize wide + nat (sint (stride - wide))))"

text \<open>The columns of a row are stored from \<open>base\<close> on.\<close>

definition bmp_store :: "bytes \<Rightarrow> nat \<Rightarrow> i32 \<Rightarrow> i32 \<Rightarrow> u32 list \<Rightarrow> u32 list" where
  "bmp_store buf bpp w base =
     fold (\<lambda>col px. px[unat (base + of_nat col) := file_px buf bpp (col * bpp)]) [0..<unat w]"

fun bmp_rows :: "bytes \<Rightarrow> nat \<Rightarrow> i32 \<Rightarrow> (nat \<Rightarrow> i32) \<Rightarrow> nat list \<Rightarrow> nat \<Rightarrow> u32 list \<Rightarrow> u32 list option" where
  "bmp_rows f bpp w dst [] at px = Some px"
| "bmp_rows f bpp w dst (row # rows) at px =
     (let wide = w * of_nat bpp; stride = (wide + 3) AND NOT 3
      in case bmp_row f wide stride at of
           None \<Rightarrow> None
         | Some (buf, at1) \<Rightarrow> bmp_rows f bpp w dst rows at1 (bmp_store buf bpp w (dst row * w) px))"

definition load_bmp :: "bytes option \<Rightarrow> img_error + image" where
  "load_bmp file =
     (case file of None \<Rightarrow> Inl Bmp_cannot_open | Some f \<Rightarrow>
      case fread f 0 14 of None \<Rightarrow> Inl Bmp_file_header | Some fh \<Rightarrow>
      if rd fh 0 \<noteq> 0x42 \<or> rd fh 1 \<noteq> 0x4D then Inl Bmp_magic else
      case fread f 14 40 of None \<Rightarrow> Inl Bmp_info_header | Some ih \<Rightarrow>
      let offset = scene_get_u32 fh 10; w = scene_get_i32 ih 4; h_raw = scene_get_i32 ih 8;
          bottom_up = (sint h_raw > 0); abs_h = (if sint h_raw < 0 then - h_raw else h_raw);
          bpp = scene_get_u16 ih 14
      in if scene_get_u32 ih 16 \<noteq> 0 then Inl Bmp_compressed
         else if bpp \<noteq> 24 \<and> bpp \<noteq> 32 then Inl Bmp_bpp
         else if sint w \<le> 0 \<or> sint abs_h \<le> 0 then Inl Bmp_dimensions
         else if sint (w * abs_h) < 0 then Inl Bmp_memory
         else case bmp_rows f (unat bpp div 8) w (\<lambda>row. if bottom_up then abs_h - 1 - of_nat row else of_nat row)
                     [0..<unat abs_h] (unat offset) (replicate (unat (w * abs_h)) 0) of
                None \<Rightarrow> Inl Bmp_read
              | Some px \<Rightarrow> Inr (w, abs_h, px))"

subsection \<open>TGA\<close>

text \<open>\<open>n\<close> pixels stored one by one, and the position behind them.\<close>

fun tga_raw :: "bytes \<Rightarrow> nat \<Rightarrow> nat \<Rightarrow> nat \<Rightarrow> (u32 list \<times> nat) option" where
  "tga_raw f bpp at 0 = Some ([], at)"
| "tga_raw f bpp at (Suc n) =
     (case fread f at bpp of
        None \<Rightarrow> None
      | Some px \<Rightarrow> map_option (\<lambda>(ps, p). (file_px px bpp 0 # ps, p)) (tga_raw f bpp (at + bpp) n))"

text \<open>Packets until \<open>n\<close> pixels are there: a run of one pixel or a sequence of pixels, cut at \<open>n\<close>.\<close>

function tga_rle :: "bytes \<Rightarrow> nat \<Rightarrow> nat \<Rightarrow> nat \<Rightarrow> img_error + u32 list" where
  "tga_rle f bpp at n =
     (if n = 0 then Inr []
      else case fread f at 1 of
        None \<Rightarrow> Inl Tga_rle_read
      | Some hb \<Rightarrow>
          let k = min (unat (rd hb 0 AND 0x7F) + 1) n
          in if rd hb 0 AND 0x80 \<noteq> 0 then
               case fread f (at + 1) bpp of
                 None \<Rightarrow> Inl Tga_rle_read
               | Some px \<Rightarrow> map_sum id (append (replicate k (file_px px bpp 0))) (tga_rle f bpp (at + 1 + bpp) (n - k))
             else
               case tga_raw f bpp (at + 1) k of
                 None \<Rightarrow> Inl Tga_read
               | Some (ps, at1) \<Rightarrow> map_sum id (append ps) (tga_rle f bpp at1 (n - k)))"
  by pat_completeness auto

termination
  by (relation "measure (\<lambda>(_, _, _, n). n)") auto

declare tga_rle.simps [simp del]

definition swap_px :: "nat \<Rightarrow> nat \<Rightarrow> u32 list \<Rightarrow> u32 list" where
  "swap_px i j px = px[i := px ! j, j := px ! i]"

definition tga_flip :: "nat \<Rightarrow> nat \<Rightarrow> u32 list \<Rightarrow> u32 list" where
  "tga_flip w h =
     fold (\<lambda>row. fold (\<lambda>col. swap_px (row * w + col) ((h - 1 - row) * w + col)) [0..<w]) [0..<h div 2]"

definition load_tga :: "bytes option \<Rightarrow> img_error + image" where
  "load_tga file =
     (case file of None \<Rightarrow> Inl Tga_cannot_open | Some f \<Rightarrow>
      case fread f 0 18 of None \<Rightarrow> Inl Tga_header | Some th \<Rightarrow>
      let image_type = rd th 2; w = scene_get_u16 th 12; h = scene_get_u16 th 14; bits = rd th 16;
          bpp = unat bits div 8; at = 18 + unat (rd th 0); total = ucast w * ucast h :: i32
      in if rd th 1 \<noteq> 0 then Inl Tga_color_map
         else if image_type \<noteq> 2 \<and> image_type \<noteq> 10 then Inl Tga_type
         else if bits \<noteq> 24 \<and> bits \<noteq> 32 then Inl Tga_bpp
         else if w = 0 \<or> h = 0 then Inl Tga_dimensions
         else if sint total < 0 then Inl Tga_memory
         else case (if image_type = 2 then
                      case tga_raw f bpp at (unat total) of None \<Rightarrow> Inl Tga_read | Some (ps, _) \<Rightarrow> Inr ps
                    else tga_rle f bpp at (unat total)) of
                Inl e \<Rightarrow> Inl e
              | Inr px \<Rightarrow> Inr (ucast w, ucast h, if rd th 17 AND 0x20 \<noteq> 0 then px else tga_flip (unat w) (unat h) px))"

subsection \<open>The vendored decoder and the dispatch\<close>

definition stb_px :: "bytes \<Rightarrow> nat \<Rightarrow> u32" where
  "stb_px rgba i =
     (let a = ucast (rd rgba (4 * i + 3)); scaled = (\<lambda>k. ucast (rd rgba (4 * i + k)) * a div 255 AND 0xFF)
      in argb a (scaled 0) (scaled 1) (scaled 2))"

definition load_stb :: "(i32 \<times> i32 \<times> bytes) option \<Rightarrow> img_error + image" where
  "load_stb decoded =
     (case decoded of
        None \<Rightarrow> Inl Stb_failed
      | Some (w, h, rgba) \<Rightarrow>
          if sint w \<le> 0 \<or> sint h \<le> 0 then Inl Stb_dimensions
          else Inr (w, h, map (stb_px rgba) [0..<unat w * unat h]))"

text \<open>The path ends in \<open>ext\<close>, up to the case of letters.\<close>

definition has_ext :: "bytes \<Rightarrow> string \<Rightarrow> bool" where
  "has_ext path ext \<longleftrightarrow> length path \<ge> length ext \<and>
     map ascii_lower (drop (length path - length ext) path) = ascii ext"

definition scene_image_load ::
    "(bytes \<Rightarrow> (i32 \<times> i32 \<times> bytes) option) \<Rightarrow> (bytes \<Rightarrow> bytes option) \<Rightarrow> bytes \<Rightarrow> img_error + image" where
  "scene_image_load stb fs path =
     (if has_ext path ''.bmp'' then load_bmp (fs path)
      else if has_ext path ''.tga'' then load_tga (fs path)
      else if has_ext path ''.png'' then load_stb (stb path)
      else if has_ext path ''.jpg'' then load_stb (stb path)
      else if has_ext path ''.jpeg'' then load_stb (stb path)
      else if has_ext path ''.gif'' then load_stb (stb path)
      else case fs path of
             None \<Rightarrow> Inl Img_cannot_open
           | Some f \<Rightarrow>
               if length f < 2 then Inl Img_cannot_read
               else if rd f 0 = 0x42 \<and> rd f 1 = 0x4D then load_bmp (Some f)
               else load_stb (stb path))"

end
