(* ===== verification/Screenshot.thy ===== *)
theory Screenshot
  imports Compositor Image
begin

text \<open>
  The screenshot of \<open>src/scene_compositor.c\<close>: the last committed frame as a BMP file of 24 bits, the rows
  from the bottom up, each filled with zero bytes to a multiple of four. Writing to an open file
  succeeds; \<open>fopen\<close> may fail (\<open>opened\<close>).
\<close>

definition bmp_row_bytes :: "u32 \<Rightarrow> u32" where
  "bmp_row_bytes w = ((w * 3 + 3) div 4) * 4"

definition bmp_header :: "u32 \<Rightarrow> u32 \<Rightarrow> bytes" where
  "bmp_header w h =
     [0x42, 0x4D] @ scene_put_u32 (54 + bmp_row_bytes w * h) @ scene_put_u16 0 @ scene_put_u16 0 @
     scene_put_u32 54 @ scene_put_u32 40 @ scene_put_u32 w @ scene_put_u32 h @ scene_put_u16 1 @
     scene_put_u16 24 @ scene_put_u32 0 @ scene_put_u32 (bmp_row_bytes w * h) @ replicate 16 0"

definition bmp_out_px :: "u32 \<Rightarrow> bytes" where
  "bmp_out_px px = [ucast px, ucast (drop_bit 8 px), ucast (drop_bit 16 px)]"

definition bmp_out_row :: "scene_fb \<Rightarrow> nat \<Rightarrow> bytes" where
  "bmp_out_row fb y =
     (let w = fb_w fb; base = unat ((fb_h fb - 1 - of_nat y) * fb_pitch fb)
      in concat (map (\<lambda>x. bmp_out_px (fb_px fb ! (base + x))) [0..<unat w]) @
           replicate (unat (bmp_row_bytes w - w * 3)) 0)"

definition scene_compositor_capture_bmp :: "bool \<Rightarrow> scene_compositor \<Rightarrow> int \<times> bytes option" where
  "scene_compositor_capture_bmp opened cp =
     (let fb = cp_fb cp
      in if fb_w fb = 0 \<or> fb_h fb = 0 \<or> \<not> opened then (-1, None)
         else (0, Some (bmp_header (fb_w fb) (fb_h fb) @ concat (map (bmp_out_row fb) [0..<unat (fb_h fb)]))))"

end
