(* ===== verification/ImageOk.thy ===== *)
theory ImageOk
  imports Screenshot PaintOk
begin

text \<open>
  Images: what the BMP loader puts where, the screenshot read back, and TGA packets decoded to the pixels
  they stand for, the picture turned over where the file stores it from the bottom.
\<close>

subsection \<open>Loops that store\<close>

lemma fold_store:
  assumes "\<And>i. i < n \<Longrightarrow> g i = b + i"
  shows "length (fold (\<lambda>i xs. xs[g i := h i]) [0..<n] xs) = length xs"
    and "k < length xs \<Longrightarrow> fold (\<lambda>i xs. xs[g i := h i]) [0..<n] xs ! k =
      (if b \<le> k \<and> k < b + n then h (k - b) else xs ! k)"
  using assms by (induction n) (auto simp: nth_list_update less_Suc_eq)

lemma concat_nth_rows:
  assumes "\<And>i. i < n \<Longrightarrow> length (row i) = s" "i < n" "k < s"
  shows "concat (map row [0..<n]) ! (i * s + k) = row i ! k" "length (concat (map row [0..<n])) = n * s"
proof -
  have *: "length (concat (map row [0..<m])) = m * s" if "m \<le> n" for m
    using that assms(1) by (induction m) simp_all
  then show "length (concat (map row [0..<n])) = n * s" by simp
  have "i < m \<Longrightarrow> m \<le> n \<Longrightarrow> concat (map row [0..<m]) ! (i * s + k) = row i ! k" for m
  proof (induction m)
    case (Suc m)
    have "i * s + k < m * s" if "i < m" using that assms(3) by (metis add.commute add_less_cancel_left less_le_trans mult_Suc mult_le_mono1 Suc_leI)
    then show ?case using Suc * [of m] by (cases "i = m") (simp_all add: nth_append)
  qed simp
  then show "concat (map row [0..<n]) ! (i * s + k) = row i ! k" using assms(2) by simp
qed

lemma cell_less: "y < h \<Longrightarrow> x < w \<Longrightarrow> y * w + x < w * (h :: nat)"
  by (metis add.commute add_less_cancel_left less_le_trans mult.commute mult_Suc mult_le_mono1 Suc_leI)

lemma cell_eq: "x < w \<Longrightarrow> x' < w \<Longrightarrow> y * w + x = y' * w + x' \<longleftrightarrow> y = y' \<and> x = (x' :: nat)"
  by (metis add.commute div_mult_self1 div_less add_cancel_right_left add_left_cancel less_nat_zero_code add_0)

lemma rd_file: "i < n \<Longrightarrow> rd (take n (drop p f)) i = rd f (p + i)"
  by (simp add: rd_take)

lemma file_px_cong:
  assumes "\<And>k. k < bpp \<Longrightarrow> rd a (i + k) = rd b (j + k)" "bpp = 3 \<or> bpp = 4"
  shows "file_px a bpp i = file_px b bpp j"
  using assms(1) [of 0] assms(1) [of 1] assms(1) [of 2] assms(1) [of 3] assms(2) by (auto simp: file_px_def)

lemma file_px_read:
  "i + bpp \<le> n \<Longrightarrow> bpp = 3 \<or> bpp = 4 \<Longrightarrow> file_px (take n (drop p f)) bpp i = file_px f bpp (p + i)"
  by (rule file_px_cong) (simp_all add: rd_file add.assoc)

subsection \<open>BMP\<close>

lemma bmp_store:
  assumes "unat base + unat w < 2 ^ 32"
  shows "length (bmp_store buf bpp w base px) = length px"
    and "k < length px \<Longrightarrow> bmp_store buf bpp w base px ! k =
      (if unat base \<le> k \<and> k < unat base + unat w then file_px buf bpp ((k - unat base) * bpp) else px ! k)"
proof -
  have "unat (base + of_nat i) = unat base + i" if "i < unat w" for i
    using that assms by (simp add: unat_word_ariths unat_of_nat)
  note F = fold_store [of "unat w" "\<lambda>i. unat (base + of_nat i)", OF this]
  show "length (bmp_store buf bpp w base px) = length px" by (simp add: bmp_store_def F)
  show "k < length px \<Longrightarrow> bmp_store buf bpp w base px ! k =
      (if unat base \<le> k \<and> k < unat base + unat w then file_px buf bpp ((k - unat base) * bpp) else px ! k)"
    by (simp add: bmp_store_def F)
qed


lemma clear_low_bits: "unat ((x :: u32) AND NOT 3) = unat x div 4 * 4"
proof -
  have "x AND NOT (mask 2) = push_bit 2 (drop_bit 2 x)"
  proof (rule bit_word_eqI)
    fix n assume "n < LENGTH(32)"
    then show "bit (x AND NOT (mask 2)) n = bit (push_bit 2 (drop_bit 2 x)) n"
      using le_add_diff_inverse [of 2 n] by (auto simp: bit_simps simp del: le_add_diff_inverse)
  qed
  moreover have "mask 2 = (3 :: u32)" by (simp add: mask_eq_exp_minus_1)
  ultimately have "x AND NOT 3 = push_bit 2 (drop_bit 2 x)" by metis
  then have "x AND NOT 3 = x div 4 * 4" by (simp add: push_bit_eq_mult drop_bit_eq_div)
  moreover have "unat x div 4 * 4 < 2 ^ 32" using unsigned_less [of x, where ?'a = nat] div_times_less_eq_dividend [of "unat x" 4] by simp 
  ultimately show ?thesis by (simp add: unat_word_ariths unat_div)
qed

lemma sint_unat_small:
  assumes "unat (n :: i32) < 2 ^ 31"
  shows "sint n = int (unat n)"
proof -
  have "int (unat n) < int (2 ^ 31)" using assms by (simp only: of_nat_less_iff)
  then have "signed_take_bit 31 (uint n) = uint n"
    by (intro signed_take_bit_int_eq_self) (simp_all add: order_trans [OF _ uint_ge_0])
  then show ?thesis by (simp add: sint_uint)
qed

lemma csize_small:
  assumes "unat n < 2 ^ 31"
  shows "csize n = unat n"
proof -
  have "int (unat n) < int (2 ^ 31)" using assms by (simp only: of_nat_less_iff)
  then show ?thesis using assms by (simp add: csize_def sint_unat_small)
qed

text \<open>A row of \<open>s\<close> bytes of the file, with its padding.\<close>

lemma bmp_row_reads:
  assumes "unat wide < 2 ^ 31" "unat stride < 2 ^ 31" "unat wide \<le> unat stride" "p + unat stride \<le> length f"
  obtains n where "bmp_row f wide stride p = Some (take n (drop p f), p + unat stride)" "unat wide \<le> n"
proof -
  have s: "sint wide = int (unat wide)" using assms(1) by (simp add: sint_unat_small)
  have d: "nat (sint (stride - wide)) = unat stride - unat wide"
  proof -
    have "unat (stride - wide) = unat stride - unat wide" using assms(3) by (simp add: unat_sub word_le_nat_alt)
    then show ?thesis using assms(2) by (simp add: sint_unat_small)
  qed
  show ?thesis
    using that [of "unat stride"] that [of "unat wide"] assms
    by (cases "4096 < sint wide") (simp_all add: bmp_row_def fread_def csize_small d)
qed


text \<open>Rows read one after the other: row \<open>i\<close> of the file lands in row \<open>D i\<close> of the picture.\<close>

lemma bmp_rows_decode:
  assumes w: "W = unat w" "bpp = 3 \<or> bpp = 4" "W * bpp + 3 < 2 ^ 31" "s = (W * bpp + 3) div 4 * 4"
    and px: "length px = W * h" "W * h < 2 ^ 31"
    and dst: "\<And>i. i \<in> set is \<Longrightarrow> D i < h \<and> unat (dst i * w) = D i * W"
    and f: "p + length is * s \<le> length f"
    and dist: "distinct (map D is)"
  shows "\<exists>px'. bmp_rows f bpp w dst is p px = Some px' \<and> length px' = W * h \<and>
    (\<forall>k < length is. \<forall>x < W. px' ! (D (is ! k) * W + x) = file_px f bpp (p + k * s + x * bpp)) \<and>
    (\<forall>y < h. \<forall>x < W. y \<notin> D ` set is \<longrightarrow> px' ! (y * W + x) = px ! (y * W + x))"
  using px(1) dst f dist
proof (induction "is" arbitrary: p px)
  case Nil
  then show ?case by simp
next
  case (Cons i "is")
  let ?wide = "w * of_nat bpp" and ?stride = "(w * of_nat bpp + 3) AND NOT 3"
  have wide: "unat ?wide = W * bpp" using w by (auto simp: unat_word_ariths)
  have "unat (?wide + 3) = W * bpp + 3" using w(3) by (simp add: unat_word_ariths(1) wide)
  then have stride: "unat ?stride = s" using w(4) by (simp only: clear_low_bits)
  obtain n where n: "bmp_row f ?wide ?stride p = Some (take n (drop p f), p + s)" "W * bpp \<le> n"
    by (rule bmp_row_reads [of ?wide ?stride p f]) (use w(3,4) wide stride Cons.prems(3) in auto)
  let ?px = "bmp_store (take n (drop p f)) bpp w (dst i * w) px"
  have D: "D i < h" "unat (dst i * w) = D i * W" using Cons.prems(2) [of i] by simp_all
  have cell: "D i * W + W \<le> W * h" using D(1) by (metis Suc_leI add.commute mult.commute mult_Suc mult_le_mono1)
  have st: "length ?px = W * h" "k < W * h \<Longrightarrow> ?px ! k = (if D i * W \<le> k \<and> k < D i * W + W
      then file_px (take n (drop p f)) bpp ((k - D i * W) * bpp) else px ! k)" for k
    using bmp_store [where base = "dst i * w" and w = w and buf = "take n (drop p f)" and bpp = bpp and px = px] D(2) w(1) px(2) cell Cons.prems(1) by simp_all
  obtain px' where px': "bmp_rows f bpp w dst is (p + s) ?px = Some px'" "length px' = W * h"
      "\<forall>k < length is. \<forall>x < W. px' ! (D (is ! k) * W + x) = file_px f bpp (p + s + k * s + x * bpp)"
      "\<forall>y < h. \<forall>x < W. y \<notin> D ` set is \<longrightarrow> px' ! (y * W + x) = ?px ! (y * W + x)"
    using Cons.IH [of ?px "p + s"] st(1) Cons.prems by (auto simp: add.assoc)
  have here: "px' ! (D i * W + x) = file_px f bpp (p + x * bpp)" if "x < W" for x
  proof -
    have "px' ! (D i * W + x) = ?px ! (D i * W + x)" using px'(4) D(1) that Cons.prems(4) by (auto simp: image_iff)
    also have "\<dots> = file_px (take n (drop p f)) bpp (x * bpp)" using st(2) [of "D i * W + x"] that cell by simp
    also have "\<dots> = file_px f bpp (p + x * bpp)"
    proof (rule file_px_read)
      show "x * bpp + bpp \<le> n" using that n(2) by (metis Suc_leI add.commute dual_order.trans mult_Suc mult_le_mono1)
    qed (rule w(2))
    finally show ?thesis .
  qed
  have old: "?px ! (y * W + x) = px ! (y * W + x)" if "y < h" "x < W" "y \<noteq> D i" for x y
  proof -
    have "\<not> (D i * W \<le> y * W + x \<and> y * W + x < D i * W + W)"
      using that(2,3) cell_less [of y "D i" x W] mult_le_mono1 [of "Suc (D i)" y W]
      by (cases "y < D i") (simp_all add: mult.commute)
    then show ?thesis using st(2) [of "y * W + x"] cell_less [OF that(1,2)] by auto
  qed
  have "bmp_rows f bpp w dst (i # is) p px = Some px'" using n(1) px'(1) by simp
  moreover have "px' ! (D ((i # is) ! k) * W + x) = file_px f bpp (p + k * s + x * bpp)" if "k < length (i # is)" "x < W" for k x
    using that here px'(3) by (cases k) (auto simp: add.assoc)
  moreover have "px' ! (y * W + x) = px ! (y * W + x)" if "y < h" "x < W" "y \<notin> D ` set (i # is)" for x y
    using that px'(4) old by simp
  ultimately show ?case using px'(2) by blast
qed


text \<open>A valid header, and all rows there: the picture, whatever the order of the rows.\<close>

definition bmp_file :: "bytes \<Rightarrow> nat \<Rightarrow> nat \<Rightarrow> bool \<Rightarrow> nat \<Rightarrow> nat \<Rightarrow> bool" where
  "bmp_file f w h up bpp off \<longleftrightarrow> 54 \<le> length f \<and> rd f 0 = 0x42 \<and> rd f 1 = 0x4D \<and> unat (scene_get_u32 f 10) = off \<and>
     scene_get_i32 f 18 = of_nat w \<and> scene_get_i32 f 22 = (if up then of_nat h else - of_nat h) \<and>
     scene_get_u16 f 28 = of_nat (8 * bpp) \<and> scene_get_u32 f 30 = 0 \<and> (bpp = 3 \<or> bpp = 4) \<and> 0 < w \<and> 0 < h \<and>
     w * bpp + 3 < 2 ^ 31 \<and> h < 2 ^ 31 \<and> w * h < 2 ^ 31 \<and> off + h * ((w * bpp + 3) div 4 * 4) \<le> length f"

lemma get_read:
  "i + 4 \<le> n \<Longrightarrow> scene_get_u32 (take n (drop p f)) i = scene_get_u32 f (p + i)"
  "i + 2 \<le> n \<Longrightarrow> scene_get_u16 (take n (drop p f)) i = scene_get_u16 f (p + i)"
  by (simp_all add: scene_get_u32_def scene_get_u16_def rd_file add.assoc)

lemma sint_neg_small: "0 < n \<Longrightarrow> n < 2 ^ 31 \<Longrightarrow> sint (- of_nat n :: i32) = - int n"
proof -
  assume n: "0 < n" "n < 2 ^ 31"
  show ?thesis using sint_of_int_small [of "- int n"] n by simp
qed

lemma unat_mult_small: "j * w < 2 ^ 32 \<Longrightarrow> unat (of_nat j * of_nat w :: u32) = j * w"
  by (simp add: unat_of_nat flip: of_nat_mult)

lemma load_bmp_decodes:
  assumes "bmp_file f w h up bpp off"
  obtains px where "load_bmp (Some f) = Inr (of_nat w, of_nat h, px)" "length px = w * h"
    "\<And>x y. x < w \<Longrightarrow> y < h \<Longrightarrow> px ! (y * w + x) =
      file_px f bpp (off + (if up then h - 1 - y else y) * ((w * bpp + 3) div 4 * 4) + x * bpp)"
proof -
  note F = assms [unfolded bmp_file_def]
  let ?w = "of_nat w :: i32" and ?h = "of_nat h :: i32" and ?D = "\<lambda>i. if up then h - 1 - i else i"
  let ?dst = "\<lambda>row. if up then ?h - 1 - of_nat row else of_nat row" and ?px = "replicate (w * h) (0 :: u32)"
  have bpp: "unat (of_nat (8 * bpp) :: u16) div 8 = bpp" "(of_nat (8 * bpp) :: u16) = 24 \<or> (of_nat (8 * bpp) :: u16) = 32"
    using F by auto
  have small: "w < 2 ^ 31" using F by (cases bpp) auto
  have W: "unat ?w = w" "unat ?h = h" "unat (?w * ?h) = w * h"
    using F small by (simp_all add: unat_of_nat unat_word_ariths)
  have S: "sint ?w = int w" "sint ?h = int h" "sint (?w * ?h) = int (w * h)"
    using F small by (simp_all add: sint_unat_small W)
  have D: "?D i < h \<and> unat (?dst i * ?w) = ?D i * w" if "i < h" for i
  proof -
    define j where "j = ?D i"
    have j: "?dst i = of_nat j" "j < h" using that by (auto simp: j_def of_nat_diff)
    have "j * w \<le> h * w" by (intro mult_le_mono1 less_imp_le j(2))
    also have "h * w < 2 ^ 32" using F by (simp add: mult.commute)
    finally have "unat (?dst i * ?w) = j * w" unfolding j(1) by (rule unat_mult_small)
    then show ?thesis using j(2) by (simp only: j_def)
  qed
  have "inj_on ?D {0..<h}" by (auto simp: inj_on_def)
  then have dist: "distinct (map ?D [0..<h])" by (simp add: distinct_map)
  let ?s = "(w * bpp + 3) div 4 * 4"
  have "\<exists>px. bmp_rows f bpp ?w ?dst [0..<h] off ?px = Some px \<and> length px = w * h \<and>
      (\<forall>k < length [0..<h]. \<forall>x < w. px ! (?D ([0..<h] ! k) * w + x) = file_px f bpp (off + k * ?s + x * bpp)) \<and>
      (\<forall>y < h. \<forall>x < w. y \<notin> ?D ` set [0..<h] \<longrightarrow> px ! (y * w + x) = ?px ! (y * w + x))"
    by (rule bmp_rows_decode [OF W(1) [symmetric]]) (use F D dist in auto)
  then obtain px where px: "bmp_rows f bpp ?w ?dst [0..<h] off ?px = Some px" "length px = w * h"
      "\<forall>k < h. \<forall>x < w. px ! (?D ([0..<h] ! k) * w + x) = file_px f bpp (off + k * ?s + x * bpp)"
    by auto
  show ?thesis
  proof (rule that)
    show "load_bmp (Some f) = Inr (?w, ?h, px)"
      using F bpp S W(2,3) px(1) sint_neg_small [of h]
      by (cases up) (simp_all add: load_bmp_def fread_def Let_def get_read get_read [of _ _ 0, simplified]
          scene_get_i32_def rd_take mult_less_0_iff)
    show "length px = w * h" by (rule px(2))
    show "px ! (y * w + x) = file_px f bpp (off + ?D y * ((w * bpp + 3) div 4 * 4) + x * bpp)" if "x < w" "y < h" for x y
      using px(3) [rule_format, of "?D y" x] that by (cases up) simp_all
  qed
qed


subsection \<open>Screenshots\<close>

text \<open>A pixel without its alpha.\<close>

definition opaque_px :: "u32 \<Rightarrow> u32" where
  "opaque_px px = (px AND 0x00FFFFFF) OR 0xFF000000"

lemma opaque_px_argb: "opaque_px p = argb 0xFF (ucast (ucast (drop_bit 16 p) :: u8)) (ucast (ucast (drop_bit 8 p) :: u8)) (ucast (ucast p :: u8))"
proof -
  have m: "0xFF = (mask 8 :: u32)" "0x00FFFFFF = (mask 24 :: u32)" "0xFF000000 = push_bit 24 (mask 8 :: u32)"
    by (simp_all add: mask_eq_exp_minus_1 push_bit_eq_mult)
  show ?thesis unfolding opaque_px_def argb_def m
  proof (rule bit_word_eqI)
    fix n assume "n < LENGTH(32)"
    then consider "n < 8" | "8 \<le> n" "n < 16" | "16 \<le> n" "n < 24" | "24 \<le> n" "n < 32" by force
    then show "bit (p AND mask 24 OR push_bit 24 (mask 8)) n = bit (push_bit 24 (mask 8) OR push_bit 16 (ucast (ucast (drop_bit 16 p) :: u8)) OR
        push_bit 8 (ucast (ucast (drop_bit 8 p) :: u8)) OR ucast (ucast p :: u8) :: u32) n"
      by cases (auto simp: bit_simps)
  qed
qed

lemma unat_row_bytes: "unat w * 3 + 3 < 2 ^ 32 \<Longrightarrow> unat (bmp_row_bytes w) = (unat w * 3 + 3) div 4 * 4"
proof -
  assume w: "unat w * 3 + 3 < 2 ^ 32"
  have "unat (w * 3 + 3) = unat w * 3 + 3" using w by (simp add: unat_word_ariths)
  then have "unat ((w * 3 + 3) div 4) = (unat w * 3 + 3) div 4" by (simp add: unat_div)
  moreover have "(unat w * 3 + 3) div 4 * 4 < 2 ^ 32" using w div_times_less_eq_dividend [of "unat w * 3 + 3" 4] by linarith
  ultimately show ?thesis by (simp add: bmp_row_bytes_def unat_word_ariths)
qed

lemma bmp_out_row:
  assumes fb: "fb_ok fb" and w: "unat (fb_w fb) * 3 + 3 < 2 ^ 31" "unat (fb_w fb) * unat (fb_h fb) < 2 ^ 31"
    and y: "y < unat (fb_h fb)"
  shows "length (bmp_out_row fb y) = (unat (fb_w fb) * 3 + 3) div 4 * 4"
    and "x < unat (fb_w fb) \<Longrightarrow> k < 3 \<Longrightarrow> bmp_out_row fb y ! (x * 3 + k) =
      bmp_out_px (fb_px fb ! ((unat (fb_h fb) - 1 - y) * unat (fb_w fb) + x)) ! k"
proof -
  let ?W = "unat (fb_w fb)" and ?H = "unat (fb_h fb)"
  have base: "unat ((fb_h fb - 1 - of_nat y) * fb_pitch fb) = (?H - 1 - y) * ?W"
  proof -
    have "fb_h fb - 1 - of_nat y = of_nat (?H - 1 - y)" using y by (simp add: of_nat_diff)
    moreover have "(?H - 1 - y) * ?W \<le> ?H * ?W" by (intro mult_le_mono1) simp
    then have "(?H - 1 - y) * ?W < 2 ^ 32" by (rule le_less_trans) (use w(2) in \<open>simp add: mult.commute\<close>)
    ultimately show ?thesis using fb unat_mult_small [of "?H - 1 - y" ?W] by (simp add: fb_ok_def)
  qed
  define out where "out = (\<lambda>x. bmp_out_px (fb_px fb ! ((?H - 1 - y) * ?W + x)))"
  have row: "bmp_out_row fb y = concat (map out [0..<?W]) @ replicate (unat (bmp_row_bytes (fb_w fb) - fb_w fb * 3)) 0"
    unfolding bmp_out_row_def Let_def base out_def ..
  have three: "length (out x) = 3" for x by (simp add: out_def bmp_out_px_def)
  have len: "length (concat (map out [0..<?W])) = ?W * 3"
    using concat_nth_rows(2) [of ?W out 3 0 0] three by (cases "?W") auto
  have "unat (fb_w fb * 3) = ?W * 3" using w(1) by (simp add: unat_word_ariths)
  moreover have "?W * 3 \<le> (?W * 3 + 3) div 4 * 4" by simp
  ultimately have pad: "unat (bmp_row_bytes (fb_w fb) - fb_w fb * 3) = (?W * 3 + 3) div 4 * 4 - ?W * 3"
    using unat_row_bytes [of "fb_w fb"] w(1) by (simp add: unat_sub word_le_nat_alt)
  show "length (bmp_out_row fb y) = (?W * 3 + 3) div 4 * 4" by (simp add: row len pad)
  show "bmp_out_row fb y ! (x * 3 + k) = bmp_out_px (fb_px fb ! ((?H - 1 - y) * ?W + x)) ! k" if "x < ?W" "k < 3"
  proof -
    have "x * 3 + k < ?W * 3" using that by linarith
    then have "bmp_out_row fb y ! (x * 3 + k) = out x ! k"
      using concat_nth_rows(1) [of ?W out 3 x k] three that by (simp add: row nth_append len)
    then show ?thesis by (simp only: out_def)
  qed
qed


lemma length_bmp_header [simp]: "length (bmp_header w h) = 54"
  by (simp add: bmp_header_def scene_put_u32_def scene_put_u16_def)

lemma bmp_header_fields:
  "rd (bmp_header w h) 0 = 0x42" "rd (bmp_header w h) 1 = 0x4D" "scene_get_u32 (bmp_header w h) 10 = 54"
  "scene_get_u32 (bmp_header w h) 18 = w" "scene_get_u32 (bmp_header w h) 22 = h"
  "scene_get_u16 (bmp_header w h) 28 = 24" "scene_get_u32 (bmp_header w h) 30 = 0"
proof -
  have at: "scene_get_u32 (xs @ scene_put_u32 v @ ys) (length xs) = v" "scene_get_u16 (xs @ scene_put_u16 u @ ys) (length xs) = u"
    for xs v u ys by (simp_all add: get_put_at)
  let ?a = "[0x42, 0x4D] @ scene_put_u32 (54 + bmp_row_bytes w * h) @ scene_put_u16 0 @ scene_put_u16 0"
  have len: "length ?a = 10" "length (scene_put_u32 v) = 4" "length (scene_put_u16 u) = 2" for v u
    by (simp_all add: scene_put_u32_def scene_put_u16_def)
  note D = bmp_header_def [of w h]
  show "rd (bmp_header w h) 0 = 0x42" "rd (bmp_header w h) 1 = 0x4D" by (simp_all add: bmp_header_def)
  show "scene_get_u32 (bmp_header w h) 10 = 54" using at(1) [of ?a 54] by (simp add: D len)
  show "scene_get_u32 (bmp_header w h) 18 = w" using at(1) [of "?a @ scene_put_u32 54 @ scene_put_u32 40" w] by (simp add: D len)
  show "scene_get_u32 (bmp_header w h) 22 = h" using at(1) [of "?a @ scene_put_u32 54 @ scene_put_u32 40 @ scene_put_u32 w" h] by (simp add: D len)
  show "scene_get_u16 (bmp_header w h) 28 = 24"
    using at(2) [of "?a @ scene_put_u32 54 @ scene_put_u32 40 @ scene_put_u32 w @ scene_put_u32 h @ scene_put_u16 1" 24] by (simp add: D len)
  show "scene_get_u32 (bmp_header w h) 30 = 0"
    using at(1) [of "?a @ scene_put_u32 54 @ scene_put_u32 40 @ scene_put_u32 w @ scene_put_u32 h @ scene_put_u16 1 @ scene_put_u16 24" 0]
    by (simp add: D len)
qed

lemma get_append: "i + 4 \<le> length a \<Longrightarrow> scene_get_u32 (a @ b) i = scene_get_u32 a i" "i + 2 \<le> length a \<Longrightarrow> scene_get_u16 (a @ b) i = scene_get_u16 a i"
  by (simp_all add: scene_get_u32_def scene_get_u16_def)

lemma screenshot_read_back:
  assumes fb: "fb_ok (cp_fb cp)" "0 < unat (fb_w (cp_fb cp))" "0 < unat (fb_h (cp_fb cp))"
    and w: "unat (fb_w (cp_fb cp)) * 3 + 3 < 2 ^ 31" "unat (fb_w (cp_fb cp)) * unat (fb_h (cp_fb cp)) < 2 ^ 31"
    and f: "scene_compositor_capture_bmp True cp = (r, Some f)"
  shows "load_bmp (Some f) = Inr (fb_w (cp_fb cp), fb_h (cp_fb cp), map opaque_px (fb_px (cp_fb cp)))"
proof -
  let ?fb = "cp_fb cp"
  define W H s where d: "W = unat (fb_w ?fb)" "H = unat (fb_h ?fb)" "s = (W * 3 + 3) div 4 * 4"
  have nz: "fb_w ?fb \<noteq> 0" "fb_h ?fb \<noteq> 0" using fb(2,3) by auto
  define rows where "rows = concat (map (bmp_out_row ?fb) [0..<H])"
  have f': "f = bmp_header (fb_w ?fb) (fb_h ?fb) @ rows"
    using f nz by (simp add: scene_compositor_capture_bmp_def Let_def rows_def d)
  have row: "length (bmp_out_row ?fb y) = s" if "y < H" for y
    using bmp_out_row(1) [OF fb(1) w] that by (simp add: d)
  have len: "length rows = H * s" using concat_nth_rows(2) [of H "bmp_out_row ?fb" s 0 0] row fb(3) w
    by (cases "0 < s") (auto simp: rows_def d length_concat comp_def sum_list_triv)
  have ok: "bmp_file f W H True 3 54"
    using bmp_header_fields [of "fb_w ?fb" "fb_h ?fb"] w fb(2,3) len fb(1)
    by (simp add: bmp_file_def f' get_append scene_get_i32_def d fb_ok_def)
  obtain px where px: "load_bmp (Some f) = Inr (of_nat W, of_nat H, px)" "length px = W * H"
      "\<And>x y. x < W \<Longrightarrow> y < H \<Longrightarrow> px ! (y * W + x) = file_px f 3 (54 + (if True then H - 1 - y else y) * ((W * 3 + 3) div 4 * 4) + x * 3)"
    by (rule load_bmp_decodes [OF ok], rule that) blast+
  have "px = map opaque_px (fb_px ?fb)"
  proof (rule nth_equalityI)
    show l: "length px = length (map opaque_px (fb_px ?fb))" using px(2) fb(1) by (simp add: d fb_ok_def)
    fix i assume i: "i < length px"
    define y x where yx: "y = i div W" "x = i mod W"
    have "0 < W" using fb(2) by (simp add: d)
    then have at: "i = y * W + x" "x < W" "y < H" using i px(2) by (simp_all add: yx less_mult_imp_div_less mult.commute)
    let ?c = "bmp_out_px (fb_px ?fb ! (y * W + x))"
    have byte: "rd f (54 + (H - 1 - y) * s + x * 3 + k) = ?c ! k" if k: "k < 3" for k
    proof -
      have b: "x * 3 + k < s" using at(2) k by (simp add: d(3))
      have y': "H - 1 - y < H" "H - 1 - (H - 1 - y) = y" using at(3) by auto
      have "rd f (54 + (H - 1 - y) * s + x * 3 + k) = rd rows ((H - 1 - y) * s + (x * 3 + k))"
        using rd_append_shift [of "bmp_header (fb_w ?fb) (fb_h ?fb)" rows] by (simp add: f' add.assoc)
      also have "\<dots> = rows ! ((H - 1 - y) * s + (x * 3 + k))" using cell_less [OF y'(1) b] len by (simp add: rd_def mult.commute)
      also have "\<dots> = bmp_out_row ?fb (H - 1 - y) ! (x * 3 + k)" unfolding rows_def using row y'(1) b by (intro concat_nth_rows(1))
      also have "\<dots> = ?c ! k" using bmp_out_row(2) [OF fb(1) w, of "H - 1 - y" x k] at(2,3) k y' by (simp add: d)
      finally show ?thesis .
    qed
    have "px ! i = opaque_px (fb_px ?fb ! i)"
      using px(3) [OF at(2,3)] byte [of 0] byte [of 1] byte [of 2]
      by (simp add: at(1) [symmetric] file_px_def opaque_px_argb bmp_out_px_def d(3) numeral_2_eq_2)
    then show "px ! i = map opaque_px (fb_px ?fb) ! i" using i l by simp
  qed
  then show ?thesis using px(1) by (simp add: d)
qed


subsection \<open>TGA packets\<close>

text \<open>What a packet stands for, and how it is stored; a pixel is the list of its bytes.\<close>

datatype tga_packet = Tga_run nat bytes | Tga_raw "bytes list"

fun packet_ok :: "nat \<Rightarrow> tga_packet \<Rightarrow> bool" where
  "packet_ok bpp (Tga_run n p) \<longleftrightarrow> 0 < n \<and> n \<le> 128 \<and> length p = bpp"
| "packet_ok bpp (Tga_raw ps) \<longleftrightarrow> ps \<noteq> [] \<and> length ps \<le> 128 \<and> (\<forall>p \<in> set ps. length p = bpp)"

fun packet_bytes :: "tga_packet \<Rightarrow> bytes" where
  "packet_bytes (Tga_run n p) = of_nat (127 + n) # p"
| "packet_bytes (Tga_raw ps) = of_nat (length ps - 1) # concat ps"

fun packet_px :: "nat \<Rightarrow> tga_packet \<Rightarrow> u32 list" where
  "packet_px bpp (Tga_run n p) = replicate n (file_px p bpp 0)"
| "packet_px bpp (Tga_raw ps) = map (\<lambda>p. file_px p bpp 0) ps"

abbreviation packets_bytes :: "tga_packet list \<Rightarrow> bytes" where
  "packets_bytes pks \<equiv> concat (map packet_bytes pks)"

abbreviation packets_px :: "nat \<Rightarrow> tga_packet list \<Rightarrow> u32 list" where
  "packets_px bpp pks \<equiv> concat (map (packet_px bpp) pks)"

lemma head_count: "n < 128 \<Longrightarrow> unat ((of_nat n :: u8) AND 0x7F) = n" "n < 128 \<Longrightarrow> unat ((of_nat (128 + n) :: u8) AND 0x7F) = n"
proof -
  have m: "(0x7F :: u8) = mask 7" by (simp add: mask_eq_exp_minus_1)
  have *: "unat ((w :: u8) AND 0x7F) = unat w mod 128" for w
    unfolding m take_bit_eq_mask [symmetric] unsigned_take_bit_eq by (simp add: take_bit_eq_mod)
  show "n < 128 \<Longrightarrow> unat ((of_nat n :: u8) AND 0x7F) = n" "n < 128 \<Longrightarrow> unat ((of_nat (128 + n) :: u8) AND 0x7F) = n"
    unfolding * by (simp_all add: unat_of_nat del: of_nat_add)
qed

lemma head_kind: "n < 128 \<Longrightarrow> (of_nat n :: u8) AND 0x80 = 0" "n < 128 \<Longrightarrow> (of_nat (128 + n) :: u8) AND 0x80 \<noteq> 0"
proof -
  have m: "(0x80 :: u8) = 2 ^ 7" by simp
  have *: "(of_nat k :: u8) AND 0x80 = 0 \<longleftrightarrow> even (k div 128)" for k
    unfolding m and_exp_eq_0_iff_not_bit by (simp add: bit_simps) (simp add: bit_iff_odd)
  have "(128 + n) div 128 = 1" if "n < 128" using that div_add_self1 [of 128 n] by simp
  then show "n < 128 \<Longrightarrow> (of_nat n :: u8) AND 0x80 = 0" "n < 128 \<Longrightarrow> (of_nat (128 + n) :: u8) AND 0x80 \<noteq> 0"
    unfolding * by simp_all
qed

lemma fread_here: "length m = n \<Longrightarrow> fread (pre @ m @ post) (length pre) n = Some m"
  by (simp add: fread_def)

lemma tga_raw_reads:
  assumes "\<forall>p \<in> set ps. length p = bpp" "k \<le> length ps"
  shows "tga_raw (pre @ concat ps @ post) bpp (length pre) k = Some (map (\<lambda>p. file_px p bpp 0) (take k ps), length pre + k * bpp)"
  using assms
proof (induction ps arbitrary: pre k)
  case (Cons p ps)
  then show ?case
  proof (cases k)
    case (Suc n)
    have "tga_raw ((pre @ p) @ concat ps @ post) bpp (length (pre @ p)) n =
        Some (map (\<lambda>p. file_px p bpp 0) (take n ps), length (pre @ p) + n * bpp)"
      by (rule Cons.IH) (use Cons.prems Suc in auto)
    then show ?thesis using Cons.prems Suc fread_here [of p bpp pre "concat ps @ post"] by (simp add: add.assoc)
  qed simp
qed simp

lemma tga_rle_decodes:
  assumes "list_all (packet_ok bpp) pks" "n \<le> length (packets_px bpp pks)"
  shows "tga_rle (pre @ packets_bytes pks @ post) bpp (length pre) n = Inr (take n (packets_px bpp pks))"
  using assms
proof (induction pks arbitrary: pre n)
  case Nil
  then show ?case by (simp add: tga_rle.simps)
next
  case (Cons pk pks)
  let ?f = "pre @ packets_bytes (pk # pks) @ post"
  show ?case
  proof (cases "n = 0")
    case False
    have IH: "tga_rle ((pre @ packet_bytes pk) @ packets_bytes pks @ post) bpp (length (pre @ packet_bytes pk)) (n - length (packet_px bpp pk))
        = Inr (take (n - length (packet_px bpp pk)) (packets_px bpp pks))" (is "tga_rle _ _ ?at ?rest = _")
      by (rule Cons.IH) (use Cons.prems in auto)
    show ?thesis
    proof (cases pk)
      case (Tga_run m p)
      then have m: "127 + m = 128 + (m - 1)" "m - 1 < 128" "0 < m" "length p = bpp" using Cons.prems(1) by auto
      have "fread ?f (length pre) 1 = Some [of_nat (127 + m)]" using fread_here [of "[of_nat (127 + m)]" 1 pre] Tga_run by simp
      moreover have "fread ?f (length pre + 1) bpp = Some p"
        using fread_here [of p bpp "pre @ [of_nat (127 + m)]"] Tga_run m(4) by simp
      moreover have "unat ((of_nat (127 + m) :: u8) AND 0x7F) = m - 1" "(of_nat (127 + m) :: u8) AND 0x80 \<noteq> 0"
        unfolding m(1) using head_count(2) head_kind(2) m(2) by blast+
      ultimately have "tga_rle ?f bpp (length pre) n = map_sum id (append (replicate (min m n) (file_px p bpp 0)))
          (tga_rle ?f bpp (length pre + 1 + bpp) (n - min m n))"
        using False m(3) by (subst tga_rle.simps) (simp add: Let_def del: of_nat_add)
      moreover have "tga_rle ?f bpp (length pre + 1 + bpp) (n - min m n) = Inr (take (n - m) (packets_px bpp pks))"
      proof (cases "n \<le> m")
        case True
        then show ?thesis by (simp add: tga_rle.simps)
      next
        case False
        then show ?thesis using IH m(4) Tga_run by simp
      qed
      ultimately show ?thesis using Tga_run by (simp add: min_def)
    next
      case (Tga_raw ps)
      then have ps: "0 < length ps" "length ps - 1 < 128" "\<forall>p \<in> set ps. length p = bpp" using Cons.prems(1) by auto
      have "length (concat ps) = length ps * bpp" using ps(3) by (induction ps) auto
      then have at: "length pre + 1 + length ps * bpp = ?at" using Tga_raw by simp
      let ?k = "min (length ps) n"
      have "fread ?f (length pre) 1 = Some [of_nat (length ps - 1)]" using fread_here [of "[of_nat (length ps - 1)]" 1 pre] Tga_raw by simp
      moreover have "tga_raw ?f bpp (length pre + 1) ?k = Some (map (\<lambda>p. file_px p bpp 0) (take ?k ps), length pre + 1 + ?k * bpp)"
        using tga_raw_reads [of ps bpp ?k "pre @ [of_nat (length ps - 1)]"] ps(3) Tga_raw by simp
      moreover have "unat ((of_nat (length ps - 1) :: u8) AND 0x7F) = length ps - 1" "(of_nat (length ps - 1) :: u8) AND 0x80 = 0"
        using head_count(1) head_kind(1) ps(2) by blast+
      ultimately have "tga_rle ?f bpp (length pre) n = map_sum id (append (map (\<lambda>p. file_px p bpp 0) (take ?k ps)))
          (tga_rle ?f bpp (length pre + 1 + ?k * bpp) (n - ?k))"
        using False ps(1) by (subst tga_rle.simps) (simp add: Let_def)
      moreover have "tga_rle ?f bpp (length pre + 1 + ?k * bpp) (n - ?k) = Inr (take (n - length ps) (packets_px bpp pks))"
      proof (cases "n \<le> length ps")
        case True
        then show ?thesis by (simp add: tga_rle.simps)
      next
        case False
        then show ?thesis using IH at Tga_raw by simp
      qed
      ultimately show ?thesis using Tga_raw by (simp add: min_def take_map)
    qed
  qed (simp add: tga_rle.simps)
qed


text \<open>The swap of rows turns the picture over.\<close>

lemma length_swap_px [simp]: "length (swap_px i j px) = length px"
  by (simp add: swap_px_def)

lemma nth_swap_px:
  "i < length px \<Longrightarrow> j < length px \<Longrightarrow> k < length px \<Longrightarrow>
    swap_px i j px ! k = (if k = j then px ! i else if k = i then px ! j else px ! k)"
  by (auto simp: swap_px_def nth_list_update)

lemma swap_row:
  assumes "length px = w * h" "r < h" "r' < h" "r \<noteq> r'" "c \<le> w"
  defines "px' \<equiv> fold (\<lambda>col. swap_px (r * w + col) (r' * w + col)) [0..<c] px"
  shows "length px' = w * h \<and> (\<forall>y < h. \<forall>x < w. px' ! (y * w + x) =
    (if x < c \<and> y = r then px ! (r' * w + x) else if x < c \<and> y = r' then px ! (r * w + x) else px ! (y * w + x)))"
  unfolding px'_def using assms(5)
proof (induction c)
  case (Suc c)
  let ?q = "fold (\<lambda>col. swap_px (r * w + col) (r' * w + col)) [0..<c] px"
  have IH: "length ?q = w * h" "y < h \<Longrightarrow> x < w \<Longrightarrow> ?q ! (y * w + x) =
    (if x < c \<and> y = r then px ! (r' * w + x) else if x < c \<and> y = r' then px ! (r * w + x) else px ! (y * w + x))" for x y
    using Suc by auto
  have c: "c < w" using Suc.prems by simp
  have in_range: "r * w + c < w * h" "r' * w + c < w * h" using cell_less assms(2,3) c by blast+
  have at: "?q ! (r * w + c) = px ! (r * w + c)" "?q ! (r' * w + c) = px ! (r' * w + c)"
    using IH(2) [OF assms(2) c] IH(2) [OF assms(3) c] by simp_all
  have "swap_px (r * w + c) (r' * w + c) ?q ! (y * w + x) =
    (if x < Suc c \<and> y = r then px ! (r' * w + x) else if x < Suc c \<and> y = r' then px ! (r * w + x) else px ! (y * w + x))"
    if "y < h" "x < w" for x y
  proof -
    have e: "y * w + x = z * w + c \<longleftrightarrow> y = z \<and> x = c" for z using cell_eq that(2) c by blast
    have "swap_px (r * w + c) (r' * w + c) ?q ! (y * w + x) =
      (if y = r' \<and> x = c then px ! (r * w + c) else if y = r \<and> x = c then px ! (r' * w + c) else ?q ! (y * w + x))"
      using nth_swap_px [of "r * w + c" ?q "r' * w + c" "y * w + x"] in_range cell_less [OF that] by (simp only: IH(1) e at)
    then show ?thesis using IH(2) [OF that] assms(4) by (auto simp: less_Suc_eq)
  qed
  moreover have "fold (\<lambda>col. swap_px (r * w + col) (r' * w + col)) [0..<Suc c] px = swap_px (r * w + c) (r' * w + c) ?q" by simp
  ultimately show ?case by (simp only: length_swap_px IH(1) simp_thms) blast
qed (use assms(1) in simp)

lemma tga_flip:
  assumes "length px = w * h"
  shows "tga_flip w h px = map (\<lambda>i. px ! ((h - 1 - i div w) * w + i mod w)) [0..<w * h]"
proof -
  let ?rows = "\<lambda>n. fold (\<lambda>row. fold (\<lambda>col. swap_px (row * w + col) ((h - 1 - row) * w + col)) [0..<w]) [0..<n] px"
  have rows: "length (?rows n) = w * h \<and> (\<forall>y < h. \<forall>x < w. ?rows n ! (y * w + x) =
      (if y < n \<or> h - 1 - y < n then px ! ((h - 1 - y) * w + x) else px ! (y * w + x)))" if "n \<le> h div 2" for n
    using that
  proof (induction n)
    case (Suc n)
    then have n: "n < h div 2" by simp
    have IH: "length (?rows n) = w * h" "\<And>x y. y < h \<Longrightarrow> x < w \<Longrightarrow> ?rows n ! (y * w + x) =
        (if y < n \<or> h - 1 - y < n then px ! ((h - 1 - y) * w + x) else px ! (y * w + x))"
      using Suc by auto
    have "n < h" "h - 1 - n < h" "n \<noteq> h - 1 - n" using n by auto
    note S = swap_row [OF IH(1) this order_refl]
    have "?rows (Suc n) ! (y * w + x) = (if y < Suc n \<or> h - 1 - y < Suc n then px ! ((h - 1 - y) * w + x) else px ! (y * w + x))"
      if "y < h" "x < w" for x y
    proof -
      have y: "h - 1 - y < h" "h - 1 - (h - 1 - y) = y" "y = h - 1 - n \<longleftrightarrow> h - 1 - y = n" using that(1) n by auto
      have "?rows (Suc n) ! (y * w + x) = (if y = n then ?rows n ! ((h - 1 - n) * w + x) else if y = h - 1 - n then ?rows n ! (n * w + x)
          else ?rows n ! (y * w + x))"
        using S that by simp
      then have "?rows (Suc n) ! (y * w + x) = (if y = n \<or> y = h - 1 - n then ?rows n ! ((h - 1 - y) * w + x) else ?rows n ! (y * w + x))"
        using y(2,3) by (auto split: if_splits)
      then show ?thesis using IH(2) [OF that] IH(2) [OF y(1) that(2)] y n by (auto simp: less_Suc_eq)
    qed
    then show ?case using S by simp
  qed (use assms in simp)
  show ?thesis
  proof (rule nth_equalityI)
    show "length (tga_flip w h px) = length (map (\<lambda>i. px ! ((h - 1 - i div w) * w + i mod w)) [0..<w * h])"
      using rows [of "h div 2"] by (simp add: tga_flip_def)
    fix i assume "i < length (tga_flip w h px)"
    then have i: "i < w * h" using rows [of "h div 2"] by (simp add: tga_flip_def)
    then have "0 < w" by (cases w) auto
    then have yx: "i div w < h" "i mod w < w" "i div w * w + i mod w = i" using i by (simp_all add: less_mult_imp_div_less mult.commute)
    have "?rows (h div 2) ! i = (if i div w < h div 2 \<or> h - 1 - i div w < h div 2 then px ! ((h - 1 - i div w) * w + i mod w) else px ! i)"
      using rows [of "h div 2", OF order_refl, THEN conjunct2, rule_format, OF yx(1,2)] by (simp only: yx(3))
    moreover have "h - 1 - i div w = i div w" if "\<not> i div w < h div 2" "\<not> h - 1 - i div w < h div 2" using that yx(1) by linarith
    ultimately have "?rows (h div 2) ! i = px ! ((h - 1 - i div w) * w + i mod w)" using yx(3) by (auto split: if_splits)
    then show "tga_flip w h px ! i = map (\<lambda>i. px ! ((h - 1 - i div w) * w + i mod w)) [0..<w * h] ! i"
      using i by (simp add: tga_flip_def)
  qed
qed


text \<open>A file: the header, an identification, and the pixels as packets (type 10) or one by one (type 2).\<close>

definition tga_head :: "bytes \<Rightarrow> u8 \<Rightarrow> nat \<Rightarrow> nat \<Rightarrow> nat \<Rightarrow> nat \<Rightarrow> bool" where
  "tga_head th kind w h bpp idlen \<longleftrightarrow> length th = 18 \<and> rd th 0 = of_nat idlen \<and> idlen < 256 \<and> rd th 1 = 0 \<and> rd th 2 = kind \<and>
     scene_get_u16 th 12 = of_nat w \<and> scene_get_u16 th 14 = of_nat h \<and> rd th 16 = of_nat (8 * bpp) \<and> (bpp = 3 \<or> bpp = 4) \<and>
     0 < w \<and> w < 2 ^ 16 \<and> 0 < h \<and> h < 2 ^ 16 \<and> w * h < 2 ^ 31"

text \<open>The picture, top row first, when the rows are stored from the top, or from the bottom.\<close>

definition upright :: "bool \<Rightarrow> nat \<Rightarrow> nat \<Rightarrow> u32 list \<Rightarrow> u32 list" where
  "upright down w h px = (if down then px else map (\<lambda>i. px ! ((h - 1 - i div w) * w + i mod w)) [0..<w * h])"

lemma load_tga_body:
  assumes h: "tga_head th kind w h bpp (length ident)" "kind = 2 \<or> kind = 10"
    and f: "f = th @ ident @ body"
    and px: "(if kind = 2 then (case tga_raw f bpp (length (th @ ident)) (w * h) of None \<Rightarrow> Inl Tga_read | Some (ps, _) \<Rightarrow> Inr ps)
      else tga_rle f bpp (length (th @ ident)) (w * h)) = Inr px" "length px = w * h"
  shows "load_tga (Some f) = Inr (of_nat w, of_nat h, upright (rd th 17 AND 0x20 \<noteq> 0) w h px)"
proof -
  note H = h(1) [unfolded tga_head_def]
  have read: "fread f 0 18 = Some th" using H f by (simp add: fread_def)
  have w: "unat (of_nat w :: u16) = w" "unat (of_nat h :: u16) = h" using H by (simp_all add: unat_of_nat)
  have W: "ucast (of_nat w :: u16) = (of_nat w :: i32)" "ucast (of_nat h :: u16) = (of_nat h :: i32)"
    using H by (simp_all add: unsigned_of_nat take_bit_nat_eq_self)
  have total: "unat (of_nat w * of_nat h :: i32) = w * h" using H by (intro unat_mult_small) simp
  have sint: "\<not> sint (of_nat w * of_nat h :: i32) < 0" using sint_unat_small [of "of_nat w * of_nat h"] total H by (simp add: mult_less_0_iff)
  have nz: "(of_nat w :: u16) \<noteq> 0" "(of_nat h :: u16) \<noteq> 0" using w H by auto
  have at: "18 + unat (of_nat (length ident) :: u8) = length (th @ ident)" using H by (simp add: unat_of_nat)
  have bits: "(of_nat (8 * bpp) :: u8) = 24 \<or> (of_nat (8 * bpp) :: u8) = 32" "unat (of_nat (8 * bpp) :: u8) div 8 = bpp" using H by auto
  have kind: "\<not> (kind \<noteq> 2 \<and> kind \<noteq> 10)" using h(2) by blast
  have fields: "rd th 0 = of_nat (length ident)" "rd th 1 = 0" "rd th 2 = kind" "scene_get_u16 th 12 = of_nat w" "scene_get_u16 th 14 = of_nat h"
    "rd th 16 = of_nat (8 * bpp)" using H by blast+
  show ?thesis
    unfolding load_tga_def option.case read fields Let_def W at bits(2) total w
    using px sint nz bits(1) kind tga_flip [OF px(2)] by (auto simp: upright_def simp del: of_nat_mult)
qed

lemma load_tga_packets:
  assumes "tga_head th 10 w h bpp (length ident)" "list_all (packet_ok bpp) pks" "w * h \<le> length (packets_px bpp pks)"
  shows "load_tga (Some (th @ ident @ packets_bytes pks @ rest)) =
    Inr (of_nat w, of_nat h, upright (rd th 17 AND 0x20 \<noteq> 0) w h (take (w * h) (packets_px bpp pks)))"
  by (rule load_tga_body [OF assms(1) _ refl]) (use tga_rle_decodes [OF assms(2,3), of "th @ ident" rest] assms(3) in auto)

lemma load_tga_plain:
  assumes "tga_head th 2 w h bpp (length ident)" "\<forall>p \<in> set ps. length p = bpp" "w * h \<le> length ps"
  shows "load_tga (Some (th @ ident @ concat ps @ rest)) =
    Inr (of_nat w, of_nat h, upright (rd th 17 AND 0x20 \<noteq> 0) w h (take (w * h) (map (\<lambda>p. file_px p bpp 0) ps)))"
  by (rule load_tga_body [OF assms(1) _ refl]) (use tga_raw_reads [OF assms(2,3), of "th @ ident" rest] assms(3) in \<open>auto simp: take_map\<close>)

end
