(* ===== verification/Config.thy ===== *)
theory Config
  imports StoreState
begin

text \<open>
  The configuration of the shell (\<open>scene_shell_config\<close>, its defaults and its parser in
  \<open>src/scene_shell.c\<close>) and the theme files of \<open>src/scene_theme.c\<close>: writing, reading and the four built-in
  themes. A file is the list of its bytes; a C string the bytes before its NUL. A \<open>float\<close> is its bit
  pattern, and the conversion of a text to a \<open>float\<close> (\<open>atof\<close>) an argument.
\<close>

abbreviation SHELL_MAX_APPS :: nat where "SHELL_MAX_APPS \<equiv> 32"

record scene_shell_config =
  cfg_bg_color :: u32
  cfg_panel_height :: u32
  cfg_panel_color :: u32
  cfg_panel_border :: u32
  cfg_panel_border_w :: u8
  cfg_panel_radius :: u8
  cfg_button_color :: u32
  cfg_button_border :: u32
  cfg_button_text :: u32
  cfg_hover_color :: u32
  cfg_label_text :: u32
  cfg_menu_color :: u32
  cfg_menu_border :: u32
  cfg_menu_item_color :: u32
  cfg_menu_item_text :: u32
  cfg_clock_12h :: u8
  cfg_autolock_sec :: u32
  cfg_apps :: "bytes list"
  cfg_app_count :: u32
  cfg_wp_path :: bytes
  cfg_wp_mode :: u8
  cfg_wp_dir :: bytes
  cfg_wp_sec :: u32
  cfg_wp_fade :: u32
  cfg_wp_speed :: u32

definition scene_shell_config_defaults :: scene_shell_config where
  "scene_shell_config_defaults =
     \<lparr>cfg_bg_color = 0xFF1A1A2E, cfg_panel_height = 32, cfg_panel_color = 0xFF16213E, cfg_panel_border = 0xFF0F3460,
      cfg_panel_border_w = 1, cfg_panel_radius = 4, cfg_button_color = 0xFF1A1A2E, cfg_button_border = 0xFF533483,
      cfg_button_text = 0xFFFFFFFF, cfg_hover_color = 0xFF2A2A4E, cfg_label_text = 0xFFE0E0E0, cfg_menu_color = 0xFF16213E,
      cfg_menu_border = 0xFF0F3460, cfg_menu_item_color = 0xFF1A1A2E, cfg_menu_item_text = 0xFFFFFFFF, cfg_clock_12h = 0,
      cfg_autolock_sec = 300, cfg_apps = replicate SHELL_MAX_APPS [], cfg_app_count = 0, cfg_wp_path = [], cfg_wp_mode = 0,
      cfg_wp_dir = [], cfg_wp_sec = 0x41700000, cfg_wp_fade = 0x3F800000, cfg_wp_speed = 0x3F800000\<rparr>"

subsection \<open>The C library on texts\<close>

definition is_space :: "u8 \<Rightarrow> bool" where
  "is_space c \<longleftrightarrow> c = 32 \<or> 9 \<le> c \<and> c \<le> 13"

definition digit_val :: "u8 \<Rightarrow> nat" where
  "digit_val c =
     (if 48 \<le> c \<and> c \<le> 57 then unat c - 48 else if 65 \<le> c \<and> c \<le> 70 then unat c - 55
      else if 97 \<le> c \<and> c \<le> 102 then unat c - 87 else 36)"

definition strtoul :: "nat \<Rightarrow> bytes \<Rightarrow> u64" where
  "strtoul base s =
     (let s1 = dropWhile is_space s;
          neg = (s1 \<noteq> [] \<and> hd s1 = 45);
          s2 = (if s1 \<noteq> [] \<and> (hd s1 = 45 \<or> hd s1 = 43) then tl s1 else s1);
          s3 = (if base = 16 \<and> length s2 \<ge> 3 \<and> s2 ! 0 = 48 \<and> (s2 ! 1 = 120 \<or> s2 ! 1 = 88) \<and> digit_val (s2 ! 2) < 16
                then drop 2 s2 else s2);
          v = foldl (\<lambda>v c. v * base + digit_val c) 0 (takeWhile (\<lambda>c. digit_val c < base) s3)
      in if v \<ge> 2 ^ 64 then - 1 else if neg then - of_nat v else of_nat v)"

definition digit_char :: "nat \<Rightarrow> u8" where
  "digit_char d = (if d < 10 then of_nat (48 + d) else of_nat (55 + d))"

text \<open>\<open>%u\<close> and \<open>%08X\<close>.\<close>

fun dec_digits :: "nat \<Rightarrow> bytes" where
  "dec_digits n = (if n < 10 then [digit_char n] else dec_digits (n div 10) @ [digit_char (n mod 10)])"

declare dec_digits.simps [simp del]

primrec hex_digits :: "nat \<Rightarrow> nat \<Rightarrow> bytes" where
  "hex_digits 0 n = []"
| "hex_digits (Suc k) n = hex_digits k (n div 16) @ [digit_char (n mod 16)]"

text \<open>\<open>fgets\<close> with a buffer of 256 bytes, until the end of the file: lines with their newline, longer ones cut
  after 255 bytes.\<close>

function fgets_lines :: "bytes \<Rightarrow> bytes list" where
  "fgets_lines f =
     (if f = [] then []
      else
        let l = takeWhile (\<lambda>c. c \<noteq> 10) f; n = (if length l < 255 then min (Suc (length l)) (length f) else 255)
        in take n f # fgets_lines (drop n f))"
  by pat_completeness auto

termination by (relation "measure length") (auto simp: Let_def)

declare fgets_lines.simps [simp del]

text \<open>\<open>strtok\<close> with a comma: the segments that are not empty.\<close>

fun strtok_all :: "bytes \<Rightarrow> bytes \<Rightarrow> bytes list" where
  "strtok_all tok [] = (if tok = [] then [] else [tok])"
| "strtok_all tok (c # s) =
     (if c = 44 then (if tok = [] then strtok_all [] s else tok # strtok_all [] s) else strtok_all (tok @ [c]) s)"

subsection \<open>Loading\<close>

definition parse_hex :: "bytes \<Rightarrow> u32" where
  "parse_hex s = ucast (strtoul 16 s)"

definition load_apps :: "bytes \<Rightarrow> scene_shell_config \<Rightarrow> scene_shell_config" where
  "load_apps val cfg =
     foldl (\<lambda>cfg tok. cfg\<lparr>cfg_apps := (cfg_apps cfg)[unat (cfg_app_count cfg) := take 63 (dropWhile (\<lambda>c. c = 32) tok)],
                         cfg_app_count := cfg_app_count cfg + 1\<rparr>)
       (cfg\<lparr>cfg_app_count := 0\<rparr>) (take SHELL_MAX_APPS (strtok_all [] val))"

definition wp_mode_of :: "bytes \<Rightarrow> u8 \<Rightarrow> u8" where
  "wp_mode_of val old =
     (if val = ascii ''static'' then 0 else if val = ascii ''ken_burns'' then 1 else if val = ascii ''slideshow'' then 2
      else if val = ascii ''plasma'' then 3 else if val = ascii ''aurora'' then 4
      else if val = ascii ''gradient_mesh'' then 5 else old)"

text \<open>One option.\<close>

definition config_set :: "(bytes \<Rightarrow> u32) \<Rightarrow> bytes \<Rightarrow> bytes \<Rightarrow> scene_shell_config \<Rightarrow> scene_shell_config" where
  "config_set atof key val cfg =
     (if key = ascii ''background_color'' \<or> key = ascii ''bg_color'' then cfg\<lparr>cfg_bg_color := parse_hex val\<rparr>
      else if key = ascii ''panel_height'' then cfg\<lparr>cfg_panel_height := ucast (strtoul 10 val)\<rparr>
      else if key = ascii ''panel_color'' then cfg\<lparr>cfg_panel_color := parse_hex val\<rparr>
      else if key = ascii ''panel_border'' then cfg\<lparr>cfg_panel_border := parse_hex val\<rparr>
      else if key = ascii ''panel_border_w'' then cfg\<lparr>cfg_panel_border_w := ucast (strtoul 10 val)\<rparr>
      else if key = ascii ''panel_radius'' then cfg\<lparr>cfg_panel_radius := ucast (strtoul 10 val)\<rparr>
      else if key = ascii ''button_color'' then cfg\<lparr>cfg_button_color := parse_hex val\<rparr>
      else if key = ascii ''button_border'' then cfg\<lparr>cfg_button_border := parse_hex val\<rparr>
      else if key = ascii ''button_text'' then cfg\<lparr>cfg_button_text := parse_hex val\<rparr>
      else if key = ascii ''hover_color'' then cfg\<lparr>cfg_hover_color := parse_hex val\<rparr>
      else if key = ascii ''label_text'' then cfg\<lparr>cfg_label_text := parse_hex val\<rparr>
      else if key = ascii ''clock_12h'' then cfg\<lparr>cfg_clock_12h := ucast (strtoul 10 val) AND 1\<rparr>
      else if key = ascii ''autolock_sec'' then cfg\<lparr>cfg_autolock_sec := ucast (strtoul 10 val)\<rparr>
      else if key = ascii ''menu_color'' then cfg\<lparr>cfg_menu_color := parse_hex val\<rparr>
      else if key = ascii ''menu_border'' then cfg\<lparr>cfg_menu_border := parse_hex val\<rparr>
      else if key = ascii ''menu_item_color'' then cfg\<lparr>cfg_menu_item_color := parse_hex val\<rparr>
      else if key = ascii ''menu_item_text'' then cfg\<lparr>cfg_menu_item_text := parse_hex val\<rparr>
      else if key = ascii ''launcher_apps'' then load_apps val cfg
      else if key = ascii ''wallpaper_path'' then cfg\<lparr>cfg_wp_path := take 255 val\<rparr>
      else if key = ascii ''wallpaper_mode'' then cfg\<lparr>cfg_wp_mode := wp_mode_of val (cfg_wp_mode cfg)\<rparr>
      else if key = ascii ''wallpaper_slideshow_dir'' then cfg\<lparr>cfg_wp_dir := take 255 val\<rparr>
      else if key = ascii ''wallpaper_slideshow_sec'' then cfg\<lparr>cfg_wp_sec := atof val\<rparr>
      else if key = ascii ''wallpaper_slideshow_fade'' then cfg\<lparr>cfg_wp_fade := atof val\<rparr>
      else if key = ascii ''wallpaper_speed'' then cfg\<lparr>cfg_wp_speed := atof val\<rparr>
      else cfg)"

definition config_line :: "(bytes \<Rightarrow> u32) \<Rightarrow> bytes \<Rightarrow> scene_shell_config \<Rightarrow> scene_shell_config" where
  "config_line atof line cfg =
     (let p = dropWhile (\<lambda>c. c = 32 \<or> c = 9) (takeWhile (\<lambda>c. c \<noteq> 0) line); key = takeWhile (\<lambda>c. c \<noteq> 61) p
      in if p = [] \<or> hd p = 35 \<or> hd p = 10 then cfg
         else if 61 \<notin> set p then cfg
         else config_set atof key (takeWhile (\<lambda>c. c \<noteq> 10) (drop (Suc (length key)) p)) cfg)"

definition scene_shell_config_load ::
    "(bytes \<Rightarrow> u32) \<Rightarrow> bytes option \<Rightarrow> scene_shell_config \<Rightarrow> int \<times> scene_shell_config" where
  "scene_shell_config_load atof file cfg =
     (case file of None \<Rightarrow> (-1, cfg) | Some f \<Rightarrow> (0, fold (config_line atof) (fgets_lines f) cfg))"

subsection \<open>Themes\<close>

definition put_hex :: "string \<Rightarrow> u32 \<Rightarrow> bytes" where
  "put_hex name v = ascii name @ ascii ''=0x'' @ hex_digits 8 (unat v) @ [10]"

definition put_dec :: "string \<Rightarrow> nat \<Rightarrow> bytes" where
  "put_dec name n = ascii name @ ascii ''='' @ dec_digits n @ [10]"

definition put_apps :: "scene_shell_config \<Rightarrow> bytes" where
  "put_apps cfg =
     (if cfg_app_count cfg > 0 then
        ascii ''launcher_apps='' @
        concat (map (\<lambda>i. (if i > 0 then [44] else []) @ cfg_apps cfg ! i) [0..<unat (cfg_app_count cfg)]) @ [10]
      else [])"

definition scene_theme_save :: "scene_shell_config \<Rightarrow> bytes" where
  "scene_theme_save cfg =
     ascii ''# Scene OS theme file'' @ [10] @ ascii ''[Theme]'' @ [10] @
     put_hex ''background_color'' (cfg_bg_color cfg) @
     put_dec ''panel_height'' (unat (cfg_panel_height cfg)) @
     put_hex ''panel_color'' (cfg_panel_color cfg) @
     put_hex ''panel_border'' (cfg_panel_border cfg) @
     put_dec ''panel_border_w'' (unat (cfg_panel_border_w cfg)) @
     put_dec ''panel_radius'' (unat (cfg_panel_radius cfg)) @
     put_hex ''button_color'' (cfg_button_color cfg) @
     put_hex ''button_border'' (cfg_button_border cfg) @
     put_hex ''button_text'' (cfg_button_text cfg) @
     put_hex ''hover_color'' (cfg_hover_color cfg) @
     put_hex ''label_text'' (cfg_label_text cfg) @
     put_hex ''menu_color'' (cfg_menu_color cfg) @
     put_hex ''menu_border'' (cfg_menu_border cfg) @
     put_hex ''menu_item_color'' (cfg_menu_item_color cfg) @
     put_hex ''menu_item_text'' (cfg_menu_item_text cfg) @
     put_dec ''clock_12h'' (unat (cfg_clock_12h cfg)) @
     put_dec ''autolock_sec'' (unat (cfg_autolock_sec cfg)) @
     put_apps cfg"

definition scene_theme_load ::
    "(bytes \<Rightarrow> u32) \<Rightarrow> bytes option \<Rightarrow> scene_shell_config \<Rightarrow> int \<times> scene_shell_config" where
  "scene_theme_load atof file cfg = scene_shell_config_load atof file cfg"

text \<open>The built-in themes; what an entry does not name is zero.\<close>

definition builtin_theme :: "u32 \<Rightarrow> u32 \<Rightarrow> u32 \<Rightarrow> u32 \<Rightarrow> u8 \<Rightarrow> u8 \<Rightarrow> u32 \<Rightarrow> u32 \<Rightarrow> u32 \<Rightarrow> u32 \<Rightarrow> u32 \<Rightarrow> u32 \<Rightarrow> u32 \<Rightarrow> u32 \<Rightarrow> u32 \<Rightarrow>
    u8 \<Rightarrow> scene_shell_config" where
  "builtin_theme bg ph pc pb pbw pr bc bb bt hc lt mc mb mic mit clk =
     \<lparr>cfg_bg_color = bg, cfg_panel_height = ph, cfg_panel_color = pc, cfg_panel_border = pb, cfg_panel_border_w = pbw,
      cfg_panel_radius = pr, cfg_button_color = bc, cfg_button_border = bb, cfg_button_text = bt, cfg_hover_color = hc,
      cfg_label_text = lt, cfg_menu_color = mc, cfg_menu_border = mb, cfg_menu_item_color = mic, cfg_menu_item_text = mit,
      cfg_clock_12h = clk, cfg_autolock_sec = 0,
      cfg_apps = map ascii [''Terminal'', ''Editor'', ''Files''] @ replicate 29 [], cfg_app_count = 3, cfg_wp_path = [],
      cfg_wp_mode = 0, cfg_wp_dir = [], cfg_wp_sec = 0, cfg_wp_fade = 0, cfg_wp_speed = 0\<rparr>"

definition builtins :: "(string \<times> scene_shell_config) list" where
  "builtins =
    [(''dark'', builtin_theme 0xFF1A1A2E 32 0xFF16213E 0 0 0 0xFF0F3460 0 0xFFE0E0E0 0xFF1A1A4E 0xFFE0E0E0 0xFF16213E 0
        0xFF0F3460 0xFFE0E0E0 0),
     (''light'', builtin_theme 0xFFF0F0F0 32 0xFFE0E0E0 0xFFCCCCCC 1 0 0xFFD0D0D0 0xFFBBBBBB 0xFF222222 0xFFC0C0C0 0xFF333333
        0xFFE8E8E8 0xFFCCCCCC 0xFFD8D8D8 0xFF222222 0),
     (''midnight'', builtin_theme 0xFF0D1117 36 0xFF161B22 0xFF30363D 1 4 0xFF21262D 0xFF30363D 0xFFC9D1D9 0xFF30363D 0xFFC9D1D9
        0xFF161B22 0xFF30363D 0xFF21262D 0xFFC9D1D9 1),
     (''solarized'', builtin_theme 0xFF002B36 32 0xFF073642 0 0 4 0xFF586E75 0 0xFFFDF6E3 0xFF657B83 0xFF93A1A1 0xFF073642
        0xFF586E75 0xFF586E75 0xFFFDF6E3 0)]"

definition scene_theme_builtin_count :: int where
  "scene_theme_builtin_count = int (length builtins)"

definition scene_theme_builtin_name :: "int \<Rightarrow> string option" where
  "scene_theme_builtin_name i = (if i < 0 \<or> i \<ge> int (length builtins) then None else Some (fst (builtins ! nat i)))"

definition scene_theme_apply_builtin :: "string \<Rightarrow> scene_shell_config \<Rightarrow> int \<times> scene_shell_config" where
  "scene_theme_apply_builtin name cfg =
     (case map_of builtins name of None \<Rightarrow> (-1, cfg) | Some c \<Rightarrow> (0, c))"

end
