(* ===== verification/ConfigOk.thy ===== *)
theory ConfigOk
  imports Config
begin

text \<open>
  Theme files: numbers, lines and lists written by the theme writer are read back by the parser of the
  shell.
\<close>

subsection \<open>Texts\<close>

lemma unat_ascii_char: "unat (of_nat (of_char c) :: u8) = of_char c"
  using nat_of_char_less_256 [of c] by (simp add: unat_of_nat del: nat_of_char_less_256)

lemma ascii_eq_iff: "ascii x = ascii y \<longleftrightarrow> x = y"
proof -
  have "inj (\<lambda>c :: char. of_nat (of_char c) :: u8)"
    by (rule injI) (metis of_char_eq_iff unat_ascii_char)
  then show ?thesis by (simp add: ascii_def inj_map_eq_map)
qed

lemma ascii_simps: "ascii [] = []" "ascii (c # s) = of_nat (of_char c) # ascii s"
  by (simp_all add: ascii_def)

subsection \<open>Numbers\<close>

lemma digit_char_val: "d < 16 \<Longrightarrow> digit_val (digit_char d) = d"
proof -
  assume d: "d < 16"
  have "unat (digit_char d) = (if d < 10 then 48 + d else 55 + d)" using d by (auto simp: digit_char_def unat_word_ariths unat_of_nat)
  then show ?thesis using d by (auto simp: digit_val_def word_le_nat_alt)
qed

lemma digit_char_cases:
  "d < 16 \<Longrightarrow> \<not> is_space (digit_char d) \<and> digit_char d \<noteq> 45 \<and> digit_char d \<noteq> 43 \<and> digit_char d \<noteq> 0 \<and> digit_char d \<noteq> 10"
proof -
  assume d: "d < 16"
  have u: "unat (digit_char d) = (if d < 10 then 48 + d else 55 + d)" using d by (auto simp: digit_char_def unat_word_ariths unat_of_nat)
  then have "48 \<le> unat (digit_char d)" by simp
  then show ?thesis by (auto simp: is_space_def word_le_nat_alt)
qed

abbreviation read_digits :: "nat \<Rightarrow> nat \<Rightarrow> bytes \<Rightarrow> nat" where
  "read_digits base v s \<equiv> foldl (\<lambda>v c. v * base + digit_val c) v s"

lemma set_hex_digits: "c \<in> set (hex_digits k n) \<Longrightarrow> \<exists>d < 16. c = digit_char d"
proof (induction k arbitrary: n)
  case (Suc k)
  then show ?case by (auto intro: exI [of _ "n mod 16"])
qed simp

lemma length_hex_digits [simp]: "length (hex_digits k n) = k"
  by (induction k arbitrary: n) simp_all

lemma read_hex_digits: "read_digits 16 v (hex_digits k n) = v * 16 ^ k + n mod 16 ^ k"
proof (induction k arbitrary: n v)
  case (Suc k)
  have "n mod 16 ^ Suc k = n div 16 mod 16 ^ k * 16 + n mod 16" using mod_mult2_eq [of n 16 "16 ^ k"] by simp
  then show ?case using Suc by (simp add: digit_char_val algebra_simps)
qed simp

lemma set_dec_digits: "c \<in> set (dec_digits n) \<Longrightarrow> \<exists>d < 10. c = digit_char d"
proof (induction n rule: dec_digits.induct)
  case (1 n)
  then show ?case using dec_digits.simps [of n] by (cases "n < 10") (auto intro: exI [of _ "n mod 10"])
qed

lemma dec_digits_not_nil: "dec_digits n \<noteq> []"
  by (subst dec_digits.simps) simp

lemma read_dec_digits: "read_digits 10 0 (dec_digits n) = n"
proof (induction n rule: dec_digits.induct)
  case (1 n)
  then show ?case by (subst dec_digits.simps) (simp add: digit_char_val)
qed

lemma all_digits: "(\<And>c. c \<in> set s \<Longrightarrow> \<exists>d < base. c = digit_char d) \<Longrightarrow> base \<le> 16 \<Longrightarrow> takeWhile (\<lambda>c. digit_val c < base) s = s"
  unfolding takeWhile_eq_all_conv using digit_char_val by (metis less_le_trans)

lemma strtoul_dec: "n < 2 ^ 64 \<Longrightarrow> strtoul 10 (dec_digits n) = of_nat n"
proof -
  assume n: "n < 2 ^ 64"
  let ?s = "dec_digits n"
  obtain d where "d < 10" "hd ?s = digit_char d" using set_dec_digits [of "hd ?s" n] dec_digits_not_nil by auto
  then have hd: "\<not> is_space (hd ?s)" "hd ?s \<noteq> 45" "hd ?s \<noteq> 43" using digit_char_cases [of d] by simp_all
  have s: "dropWhile is_space ?s = ?s" using hd(1) dec_digits_not_nil [of n] by (cases ?s) simp_all
  have tw: "takeWhile (\<lambda>c. digit_val c < 10) ?s = ?s" by (rule all_digits) (use set_dec_digits in auto)
  have "strtoul 10 ?s = (if 2 ^ 64 \<le> read_digits 10 0 (takeWhile (\<lambda>c. digit_val c < 10) ?s) then - 1
      else of_nat (read_digits 10 0 (takeWhile (\<lambda>c. digit_val c < 10) ?s)))"
    unfolding strtoul_def Let_def s using hd by simp
  then show ?thesis unfolding tw read_dec_digits using n by simp
qed

lemma strtoul_hex: "strtoul 16 (ascii ''0x'' @ hex_digits 8 n) = of_nat (n mod 16 ^ 8)"
proof -
  let ?s = "hex_digits 8 n"
  have dig: "\<exists>d < 16. c = digit_char d" if "c \<in> set ?s" for c using that set_hex_digits by blast
  have tw: "takeWhile (\<lambda>c. digit_val c < 16) ?s = ?s" by (rule all_digits) (use dig in auto)
  have "?s ! 0 \<in> set ?s" by simp
  then have x: "digit_val (?s ! 0) < 16" using dig digit_char_val by fastforce
  have s: "dropWhile is_space (ascii ''0x'' @ ?s) = 48 # 120 # ?s" by (simp add: is_space_def ascii_simps)
  have "n mod 16 ^ 8 < 16 ^ 8" by simp
  then have small: "\<not> 2 ^ 64 \<le> n mod 16 ^ 8" by simp
  have "strtoul 16 (ascii ''0x'' @ ?s) = (if 2 ^ 64 \<le> read_digits 16 0 (takeWhile (\<lambda>c. digit_val c < 16) ?s) then - 1
      else of_nat (read_digits 16 0 (takeWhile (\<lambda>c. digit_val c < 16) ?s)))"
    unfolding strtoul_def Let_def s using x by simp
  then show ?thesis unfolding tw read_hex_digits using small by simp
qed


subsection \<open>Lines\<close>

lemma takeWhile_stop: "x \<notin> set l \<Longrightarrow> takeWhile (\<lambda>c. c \<noteq> x) (l @ x # rest) = l"
  by (induction l) auto

lemma fgets_line:
  assumes "10 \<notin> set l" "length l < 255"
  shows "fgets_lines ((l @ [10]) @ rest) = (l @ [10]) # fgets_lines rest"
proof -
  have "takeWhile (\<lambda>c. c \<noteq> 10) (l @ 10 # rest) = l" using assms(1) takeWhile_stop [of 10 l rest] by simp
  then show ?thesis using assms(2) by (subst fgets_lines.simps) (simp add: Let_def)
qed

text \<open>A line of the writer: a key of plain characters, the value.\<close>

definition opt_key :: "bytes \<Rightarrow> bool" where
  "opt_key key \<longleftrightarrow> key \<noteq> [] \<and> list_all (\<lambda>c. c \<noteq> 0 \<and> c \<noteq> 9 \<and> c \<noteq> 10 \<and> c \<noteq> 32 \<and> c \<noteq> 35 \<and> c \<noteq> 61) key"

definition opt_val :: "bytes \<Rightarrow> bool" where
  "opt_val val \<longleftrightarrow> list_all (\<lambda>c. c \<noteq> 0 \<and> c \<noteq> 10) val"

lemma config_option:
  assumes "opt_key key" "opt_val val"
  shows "config_line atof (key @ [61] @ val @ [10]) cfg = config_set atof key val cfg"
proof -
  have nul: "takeWhile (\<lambda>c. c \<noteq> 0) (key @ [61] @ val @ [10]) = key @ [61] @ val @ [10]"
    using assms by (auto simp: takeWhile_eq_all_conv opt_key_def opt_val_def list_all_iff)
  obtain c k where k: "key = c # k" "c \<noteq> 32" "c \<noteq> 9" "c \<noteq> 35" "c \<noteq> 10" using assms(1) by (cases key) (auto simp: opt_key_def)
  have ws: "dropWhile (\<lambda>c. c = 32 \<or> c = 9) (key @ [61] @ val @ [10]) = key @ [61] @ val @ [10]" using k by simp
  have ky: "takeWhile (\<lambda>c. c \<noteq> 61) (key @ [61] @ val @ [10]) = key"
    using takeWhile_stop [of 61 key "val @ [10]"] assms(1) by (auto simp: opt_key_def list_all_iff)
  have vl: "takeWhile (\<lambda>c. c \<noteq> 10) (drop (Suc (length key)) (key @ [61] @ val @ [10])) = val"
    using takeWhile_stop [of 10 val "[]"] assms(2) by (auto simp: opt_val_def list_all_iff)
  have "hd (key @ [61] @ val @ [10]) = c" using k(1) by simp
  then show ?thesis unfolding config_line_def Let_def nul ws ky vl using k(4,5) by simp
qed

lemma plain_hex: "opt_val (ascii ''0x'' @ hex_digits k n)"
  using set_hex_digits [of _ k n] digit_char_cases by (fastforce simp: opt_val_def list_all_iff ascii_simps)

lemma plain_dec: "opt_val (dec_digits n)"
  using set_dec_digits [of _ n] digit_char_cases by (fastforce simp: opt_val_def list_all_iff)


subsection \<open>Options\<close>

lemma config_keys:
  "config_set atof (ascii ''background_color'') v c = c\<lparr>cfg_bg_color := parse_hex v\<rparr>"
  "config_set atof (ascii ''panel_height'') v c = c\<lparr>cfg_panel_height := ucast (strtoul 10 v)\<rparr>"
  "config_set atof (ascii ''panel_color'') v c = c\<lparr>cfg_panel_color := parse_hex v\<rparr>"
  "config_set atof (ascii ''panel_border'') v c = c\<lparr>cfg_panel_border := parse_hex v\<rparr>"
  "config_set atof (ascii ''panel_border_w'') v c = c\<lparr>cfg_panel_border_w := ucast (strtoul 10 v)\<rparr>"
  "config_set atof (ascii ''panel_radius'') v c = c\<lparr>cfg_panel_radius := ucast (strtoul 10 v)\<rparr>"
  "config_set atof (ascii ''button_color'') v c = c\<lparr>cfg_button_color := parse_hex v\<rparr>"
  "config_set atof (ascii ''button_border'') v c = c\<lparr>cfg_button_border := parse_hex v\<rparr>"
  "config_set atof (ascii ''button_text'') v c = c\<lparr>cfg_button_text := parse_hex v\<rparr>"
  "config_set atof (ascii ''hover_color'') v c = c\<lparr>cfg_hover_color := parse_hex v\<rparr>"
  "config_set atof (ascii ''label_text'') v c = c\<lparr>cfg_label_text := parse_hex v\<rparr>"
  "config_set atof (ascii ''menu_color'') v c = c\<lparr>cfg_menu_color := parse_hex v\<rparr>"
  "config_set atof (ascii ''menu_border'') v c = c\<lparr>cfg_menu_border := parse_hex v\<rparr>"
  "config_set atof (ascii ''menu_item_color'') v c = c\<lparr>cfg_menu_item_color := parse_hex v\<rparr>"
  "config_set atof (ascii ''menu_item_text'') v c = c\<lparr>cfg_menu_item_text := parse_hex v\<rparr>"
  "config_set atof (ascii ''clock_12h'') v c = c\<lparr>cfg_clock_12h := ucast (strtoul 10 v) AND 1\<rparr>"
  "config_set atof (ascii ''autolock_sec'') v c = c\<lparr>cfg_autolock_sec := ucast (strtoul 10 v)\<rparr>"
  "config_set atof (ascii ''launcher_apps'') v c = load_apps v c"
  by (simp_all add: config_set_def ascii_eq_iff)

lemma length_ascii [simp]: "length (ascii s) = length s"
  by (simp add: ascii_def)

lemma put_hex_line:
  "opt_key (ascii name) \<Longrightarrow> config_line atof (put_hex name v) c = config_set atof (ascii name) (ascii ''0x'' @ hex_digits 8 (unat v)) c"
  using config_option [of "ascii name", OF _ plain_hex] by (simp add: put_hex_def ascii_simps)

lemma put_dec_line:
  "opt_key (ascii name) \<Longrightarrow> config_line atof (put_dec name n) c = config_set atof (ascii name) (dec_digits n) c"
  using config_option [of "ascii name", OF _ plain_dec] by (simp add: put_dec_def ascii_simps)

lemma ucast_back: "ucast (ucast (v :: u32) :: u64) = v" "ucast (ucast (b :: u8) :: u64) = b"
  by (rule bit_word_eqI, auto simp: bit_simps)+

lemma parse_hex_put: "parse_hex (ascii ''0x'' @ hex_digits 8 (unat v)) = v"
proof -
  have "unat v < 16 ^ 8" using unsigned_less [of v, where ?'a = nat] by simp
  then show ?thesis unfolding parse_hex_def strtoul_hex by (simp add: ucast_back)
qed

lemma strtoul_put: "ucast (strtoul 10 (dec_digits (unat v))) = (v :: u32)" "ucast (strtoul 10 (dec_digits (unat b))) = (b :: u8)"
proof -
  have "unat v < 2 ^ 64" "unat b < 2 ^ 64" using unsigned_less [of v, where ?'a = nat] unsigned_less [of b, where ?'a = nat] by simp_all
  then show "ucast (strtoul 10 (dec_digits (unat v))) = v" "ucast (strtoul 10 (dec_digits (unat b))) = b"
    by (simp_all add: strtoul_dec ucast_back)
qed

lemma length_dec_digits: "n < 10 ^ k \<Longrightarrow> 0 < k \<Longrightarrow> length (dec_digits n) \<le> k"
proof (induction n arbitrary: k rule: dec_digits.induct)
  case (1 n)
  show ?case
  proof (cases "n < 10")
    case False
    then obtain j where j: "k = Suc j" "0 < j" using "1.prems" by (cases k; cases "k - 1") auto
    then have "length (dec_digits (n div 10)) \<le> j" using 1 False by auto
    then show ?thesis using False j by (subst dec_digits.simps) simp
  qed (use "1.prems" in \<open>subst dec_digits.simps, simp\<close>)
qed

lemma fgets_hex:
  assumes "10 \<notin> set (ascii name)" "length name < 200"
  shows "fgets_lines (put_hex name v @ rest) = put_hex name v # fgets_lines rest"
  using fgets_line [of "ascii name @ ascii ''=0x'' @ hex_digits 8 (unat v)" rest] assms plain_hex [of 8 "unat v"]
  by (auto simp: put_hex_def ascii_simps opt_val_def list_all_iff)

lemma fgets_dec:
  assumes "10 \<notin> set (ascii name)" "length name < 200" "n < 10 ^ 20"
  shows "fgets_lines (put_dec name n @ rest) = put_dec name n # fgets_lines rest"
  using fgets_line [of "ascii name @ ascii ''='' @ dec_digits n" rest] assms plain_dec [of n] length_dec_digits [of n 20]
  by (auto simp: put_dec_def ascii_simps opt_val_def list_all_iff)


subsection \<open>The list of applications\<close>

lemma strtok_skip: "44 \<notin> set w \<Longrightarrow> strtok_all tok (w @ s) = strtok_all (tok @ w) s"
  by (induction w arbitrary: tok) auto

lemma strtok_list:
  assumes "w \<noteq> []" "\<forall>n \<in> set ns. n \<noteq> [] \<and> 44 \<notin> set n"
  shows "strtok_all w (concat (map (\<lambda>n. 44 # n) ns)) = w # ns"
  using assms
proof (induction ns arbitrary: w)
  case (Cons n ns)
  then have "strtok_all [] (n @ concat (map (\<lambda>n. 44 # n) ns)) = n # ns" using strtok_skip [of n "[]"] by simp
  then show ?case using Cons.prems by simp
qed simp

lemma joined_apps:
  fixes f :: "nat \<Rightarrow> bytes"
  shows "0 < n \<Longrightarrow> concat (map (\<lambda>i. (if i > 0 then [44] else []) @ f i) [0..<n]) =
    f 0 @ concat (map (\<lambda>n. 44 # n) (map f [Suc 0..<n]))"
proof -
  assume n: "0 < n"
  have "map (\<lambda>i. (if i > 0 then [44] else []) @ f i) [Suc 0..<n] = map (\<lambda>i. 44 # f i) [Suc 0..<n]" by (rule map_cong) auto
  then have "concat (map (\<lambda>i. (if i > 0 then [44] else []) @ f i) [Suc 0..<n]) = concat (map (\<lambda>i. 44 # f i) [Suc 0..<n])" by (rule arg_cong)
  then show ?thesis using n by (simp add: upt_conv_Cons comp_def)
qed

abbreviation store_app :: "scene_shell_config \<Rightarrow> bytes \<Rightarrow> scene_shell_config" where
  "store_app \<equiv> (\<lambda>cfg tok. cfg\<lparr>cfg_apps := (cfg_apps cfg)[unat (cfg_app_count cfg) := take 63 (dropWhile (\<lambda>c. c = 32) tok)],
                         cfg_app_count := cfg_app_count cfg + 1\<rparr>)"

lemma store_apps:
  assumes "unat (cfg_app_count c) = k" "k + length toks \<le> length (cfg_apps c)" "length (cfg_apps c) \<le> 32"
    and "\<forall>t \<in> set toks. take 63 (dropWhile (\<lambda>c. c = 32) t) = t"
  shows "foldl store_app c toks = c\<lparr>cfg_apps := take k (cfg_apps c) @ toks @ drop (k + length toks) (cfg_apps c),
    cfg_app_count := of_nat (k + length toks)\<rparr>"
  using assms
proof (induction toks arbitrary: c k)
  case Nil
  then have "cfg_app_count c = of_nat k" by auto
  then show ?case by simp
next
  case (Cons t toks)
  have "k < 32" using Cons.prems(2,3) by simp
  then have "unat (cfg_app_count c + 1) = Suc k" using Cons.prems(1) by (simp add: unat_word_ariths)
  moreover have "take (Suc k) ((cfg_apps c)[k := t]) = take k (cfg_apps c) @ [t]" using Cons.prems(2) by (simp add: take_Suc_conv_app_nth)
  ultimately show ?case using Cons.IH [of "store_app c t" "Suc k"] Cons.prems by simp
qed

text \<open>A configuration a theme file can hold: the names of the applications fit into one line and are what the
  parser makes of them.\<close>

definition app_name :: "bytes \<Rightarrow> bool" where
  "app_name n \<longleftrightarrow> n \<noteq> [] \<and> length n \<le> 63 \<and> hd n \<noteq> 32 \<and> list_all (\<lambda>c. c \<noteq> 0 \<and> c \<noteq> 10 \<and> c \<noteq> 44) n"

definition theme_ok :: "scene_shell_config \<Rightarrow> bool" where
  "theme_ok c \<longleftrightarrow> length (cfg_apps c) = 32 \<and> unat (cfg_app_count c) \<le> 32 \<and> cfg_clock_12h c \<le> 1 \<and>
     list_all app_name (take (unat (cfg_app_count c)) (cfg_apps c)) \<and> length (put_apps c) \<le> 255"


lemma app_names_read:
  assumes ok: "theme_ok c" "0 < cfg_app_count c" and d: "length (cfg_apps d) = 32"
  defines "n \<equiv> unat (cfg_app_count c)"
  defines "names \<equiv> take n (cfg_apps c)"
  obtains val where "put_apps c = (ascii ''launcher_apps'' @ [61] @ val) @ [10]" "opt_val val"
    "load_apps val d = d\<lparr>cfg_apps := names @ drop n (cfg_apps d), cfg_app_count := cfg_app_count c\<rparr>"
proof -
  have n: "0 < n" "n \<le> 32" "length names = n" "list_all app_name names"
    using ok by (auto simp: n_def names_def theme_ok_def word_neq_0_conv [symmetric] unat_gt_0)
  then obtain w ws where ws: "names = w # ws" by (cases names) auto
  let ?val = "w @ concat (map (\<lambda>n. 44 # n) ws)"
  have len: "length (cfg_apps c) = 32" using ok(1) by (simp add: theme_ok_def)
  have nth: "names = map (\<lambda>i. cfg_apps c ! i) [0..<n]" using n(2) len by (simp add: names_def list_eq_iff_nth_eq)
  have "names = cfg_apps c ! 0 # map (\<lambda>i. cfg_apps c ! i) [Suc 0..<n]" using n(1) unfolding nth by (simp add: upt_conv_Cons)
  then have "concat (map (\<lambda>i. (if i > 0 then [44] else []) @ cfg_apps c ! i) [0..<n]) = ?val"
    using joined_apps [OF n(1), of "\<lambda>i. cfg_apps c ! i"] ws by simp
  then have put: "put_apps c = (ascii ''launcher_apps'' @ [61] @ ?val) @ [10]"
    using ok(2) by (simp add: put_apps_def n_def ascii_simps)
  have names: "\<forall>t \<in> set names. t \<noteq> [] \<and> 44 \<notin> set t \<and> take 63 (dropWhile (\<lambda>c. c = 32) t) = t \<and> list_all (\<lambda>c. c \<noteq> 0 \<and> c \<noteq> 10) t"
  proof
    fix t assume "t \<in> set names"
    then have "app_name t" using n(4) by (simp add: list_all_iff)
    then show "t \<noteq> [] \<and> 44 \<notin> set t \<and> take 63 (dropWhile (\<lambda>c. c = 32) t) = t \<and> list_all (\<lambda>c. c \<noteq> 0 \<and> c \<noteq> 10) t"
      by (cases t) (auto simp: app_name_def list_all_iff)
  qed
  have "opt_val ?val" using names by (auto simp: ws opt_val_def list_all_iff)
  moreover have toks: "strtok_all [] ?val = names"
    using strtok_skip [of w "[]"] strtok_list [of w ws] names by (simp add: ws)
  have "foldl store_app (d\<lparr>cfg_app_count := 0\<rparr>) names =
      d\<lparr>cfg_apps := names @ drop n (cfg_apps d), cfg_app_count := of_nat n\<rparr>"
    using store_apps [of "d\<lparr>cfg_app_count := 0\<rparr>" 0 names] n(2,3) d names by simp
  then have "load_apps ?val d = d\<lparr>cfg_apps := names @ drop n (cfg_apps d), cfg_app_count := cfg_app_count c\<rparr>"
    using n(2,3) by (simp only: load_apps_def toks take_all) (simp add: n_def)
  ultimately show ?thesis using that put by blast
qed

lemma fgets_text:
  "10 \<notin> set (ascii s) \<Longrightarrow> length s < 255 \<Longrightarrow> fgets_lines (ascii s @ 10 # rest) = (ascii s @ [10]) # fgets_lines rest"
  using fgets_line [of "ascii s" rest] by simp

lemma fgets_words:
  fixes v :: u32 and b :: u8
  assumes "10 \<notin> set (ascii name)" "length name < 200"
  shows "fgets_lines (put_dec name (unat v) @ rest) = put_dec name (unat v) # fgets_lines rest"
    and "fgets_lines (put_dec name (unat b) @ rest) = put_dec name (unat b) # fgets_lines rest"
  using unsigned_less [of v, where ?'a = nat] unsigned_less [of b, where ?'a = nat] by (simp_all add: fgets_dec [OF assms])

lemma fgets_apps:
  assumes "theme_ok c"
  shows "fgets_lines (put_apps c) = (if cfg_app_count c > 0 then [put_apps c] else [])"
proof (cases "cfg_app_count c > 0")
  case True
  obtain val where val: "put_apps c = (ascii ''launcher_apps'' @ [61] @ val) @ [10]" "opt_val val"
    using app_names_read [OF assms True, of c] assms by (auto simp: theme_ok_def)
  have "length (ascii ''launcher_apps'' @ [61] @ val) < 255" using assms val(1) by (simp add: theme_ok_def)
  moreover have "10 \<notin> set (ascii ''launcher_apps'' @ [61] @ val)" using val(2) by (auto simp: ascii_simps opt_val_def list_all_iff)
  ultimately show ?thesis using fgets_line [of "ascii ''launcher_apps'' @ [61] @ val" "[]"] True val(1) by (simp add: fgets_lines.simps)
qed (simp add: put_apps_def fgets_lines.simps)

lemma opt_keys:
  "opt_key (ascii ''background_color'')" "opt_key (ascii ''panel_height'')" "opt_key (ascii ''panel_color'')"
  "opt_key (ascii ''panel_border'')" "opt_key (ascii ''panel_border_w'')" "opt_key (ascii ''panel_radius'')"
  "opt_key (ascii ''button_color'')" "opt_key (ascii ''button_border'')" "opt_key (ascii ''button_text'')"
  "opt_key (ascii ''hover_color'')" "opt_key (ascii ''label_text'')" "opt_key (ascii ''menu_color'')"
  "opt_key (ascii ''menu_border'')" "opt_key (ascii ''menu_item_color'')" "opt_key (ascii ''menu_item_text'')"
  "opt_key (ascii ''clock_12h'')" "opt_key (ascii ''autolock_sec'')" "opt_key (ascii ''launcher_apps'')"
  by (simp_all add: opt_key_def ascii_simps)

lemma opt_key_line: "opt_key k \<Longrightarrow> 10 \<notin> set k"
  by (auto simp: opt_key_def list_all_iff)


text \<open>What a theme leaves as it was: the wallpaper, and the applications when the theme names none.\<close>

definition themed :: "scene_shell_config \<Rightarrow> scene_shell_config \<Rightarrow> scene_shell_config" where
  "themed c d =
     (let n = unat (cfg_app_count c)
      in c\<lparr>cfg_apps := take n (cfg_apps c) @ drop n (cfg_apps d),
           cfg_app_count := (if n = 0 then cfg_app_count d else cfg_app_count c),
           cfg_wp_path := cfg_wp_path d, cfg_wp_mode := cfg_wp_mode d, cfg_wp_dir := cfg_wp_dir d,
           cfg_wp_sec := cfg_wp_sec d, cfg_wp_fade := cfg_wp_fade d, cfg_wp_speed := cfg_wp_speed d\<rparr>)"

lemma load_apps_line:
  assumes "theme_ok c" "length (cfg_apps d) = 32"
  shows "fold (config_line atof) (fgets_lines (put_apps c)) d =
    d\<lparr>cfg_apps := take (unat (cfg_app_count c)) (cfg_apps c) @ drop (unat (cfg_app_count c)) (cfg_apps d),
      cfg_app_count := (if unat (cfg_app_count c) = 0 then cfg_app_count d else cfg_app_count c)\<rparr>"
proof (cases "cfg_app_count c > 0")
  case True
  obtain val where val: "put_apps c = (ascii ''launcher_apps'' @ [61] @ val) @ [10]" "opt_val val"
    "load_apps val d = d\<lparr>cfg_apps := take (unat (cfg_app_count c)) (cfg_apps c) @ drop (unat (cfg_app_count c)) (cfg_apps d),
      cfg_app_count := cfg_app_count c\<rparr>"
    using app_names_read [OF assms(1) True assms(2)] by blast
  have "config_line atof (put_apps c) d = load_apps val d"
    using config_option [OF opt_keys(18) val(2), of atof d] by (simp add: val(1) config_keys)
  then show ?thesis using True val(3) fgets_apps [OF assms(1)] by (auto simp: unat_eq_zero)
next
  case False
  then have "cfg_app_count c = 0" by (simp add: word_gt_0)
  then show ?thesis using fgets_apps [OF assms(1)] by simp
qed

lemma theme_saved_loads:
  assumes "theme_ok c" "length (cfg_apps d) = 32"
  shows "scene_theme_load atof (Some (scene_theme_save c)) d = (0, themed c d)"
proof -
  have skip: "config_line atof (ascii ''# Scene OS theme file'' @ [10]) e = e" "config_line atof (ascii ''[Theme]'' @ [10]) e = e" for e
    by (simp_all add: config_line_def ascii_simps)
  have nl: "10 \<notin> set (ascii ''# Scene OS theme file'')" "10 \<notin> set (ascii ''[Theme]'')" by (simp_all add: ascii_simps)
  have clk: "cfg_clock_12h c AND 1 = cfg_clock_12h c"
  proof -
    have "unat (cfg_clock_12h c) \<le> 1" using assms(1) by (simp add: theme_ok_def word_le_nat_alt)
    then have "unat (cfg_clock_12h c) = unat (0 :: u8) \<or> unat (cfg_clock_12h c) = unat (1 :: u8)" by auto
    then have "cfg_clock_12h c = 0 \<or> cfg_clock_12h c = 1" by (metis word_unat_eq_iff)
    then show ?thesis by auto
  qed
  have lines: "fgets_lines (scene_theme_save c) =
      [ascii ''# Scene OS theme file'' @ [10], ascii ''[Theme]'' @ [10],
       put_hex ''background_color'' (cfg_bg_color c), put_dec ''panel_height'' (unat (cfg_panel_height c)),
       put_hex ''panel_color'' (cfg_panel_color c), put_hex ''panel_border'' (cfg_panel_border c),
       put_dec ''panel_border_w'' (unat (cfg_panel_border_w c)), put_dec ''panel_radius'' (unat (cfg_panel_radius c)),
       put_hex ''button_color'' (cfg_button_color c), put_hex ''button_border'' (cfg_button_border c),
       put_hex ''button_text'' (cfg_button_text c), put_hex ''hover_color'' (cfg_hover_color c),
       put_hex ''label_text'' (cfg_label_text c), put_hex ''menu_color'' (cfg_menu_color c),
       put_hex ''menu_border'' (cfg_menu_border c), put_hex ''menu_item_color'' (cfg_menu_item_color c),
       put_hex ''menu_item_text'' (cfg_menu_item_text c), put_dec ''clock_12h'' (unat (cfg_clock_12h c)),
       put_dec ''autolock_sec'' (unat (cfg_autolock_sec c))] @ fgets_lines (put_apps c)"
    unfolding scene_theme_save_def
    using nl by (simp add: fgets_text fgets_hex [OF opt_key_line] fgets_words [OF opt_key_line] opt_keys)
  show ?thesis
    unfolding scene_theme_load_def scene_shell_config_load_def option.case lines fold_append o_apply
    using assms by (simp add: skip put_hex_line put_dec_line opt_keys config_keys parse_hex_put strtoul_put clk load_apps_line themed_def Let_def
      del: ascii_simps)
qed

end
