(* ===== verification/Launcher.thy ===== *)
theory Launcher
  imports Compositor ShellPump
begin

text \<open>
  The launcher \<open>src/scene_launcher.c\<close>: applications as processes that connect back over TCP and become
  sessions of the compositor. Sockets are those of \<open>src/scene_transport.c\<close>.

  What the operating system answers is data: a socket holds the results of the coming calls of
  \<open>recv\<close> and \<open>send\<close>, a listener the connections waiting at it, and the environment \<open>host_env\<close> the clock,
  the importer, the memory of new servers and the callbacks, which work on the compositor. Handles and
  addresses are numbers, a fresh one for every new object.
\<close>

subsection \<open>Sockets\<close>

datatype sys_recv = Got bytes | WouldBlock | RecvError

record tcp_transport =
  tk_in :: "sys_recv list"   \<comment> \<open>results of the coming calls of \<open>recv\<close>; after them it would block\<close>
  tk_room :: "int list"      \<comment> \<open>results of the coming calls of \<open>send\<close>; after them it takes everything\<close>
  tk_wire :: bytes           \<comment> \<open>what \<open>send\<close> has taken\<close>
  tk_nonblock :: bool
  tk_open :: bool

datatype tcp_got = TcpData bytes | TcpWouldBlock | TcpClosed

definition tcp_recv :: "tcp_transport \<Rightarrow> nat \<Rightarrow> tcp_got \<times> tcp_transport" where
  "tcp_recv t cap =
     (if \<not> tk_open t then (TcpClosed, t)
      else case tk_in t of
        [] \<Rightarrow> (TcpWouldBlock, t)
      | Got d # rs \<Rightarrow>
          if d = [] then (TcpClosed, t\<lparr>tk_in := rs\<rparr>)
          else if length d \<le> cap then (TcpData d, t\<lparr>tk_in := rs\<rparr>)
          else (TcpData (take cap d), t\<lparr>tk_in := Got (drop cap d) # rs\<rparr>)
      | WouldBlock # rs \<Rightarrow> (TcpWouldBlock, t\<lparr>tk_in := rs\<rparr>)
      | RecvError # rs \<Rightarrow> (TcpClosed, t\<lparr>tk_in := rs\<rparr>))"

text \<open>The loop of \<open>tcp_send\<close> on what is left of the data. A call that takes nothing ends it.\<close>

fun tcp_send_loop :: "int list \<Rightarrow> bytes \<Rightarrow> bytes \<Rightarrow> int \<times> int list \<times> bytes" where
  "tcp_send_loop room [] wire = (0, room, wire)"
| "tcp_send_loop [] data wire = (0, [], wire @ data)"
| "tcp_send_loop (n # room) data wire =
     (if n \<le> 0 then (-1, room, wire)
      else tcp_send_loop room (drop (nat n) data) (wire @ take (nat n) data))"

definition tcp_send :: "tcp_transport \<Rightarrow> bytes \<Rightarrow> int \<times> tcp_transport" where
  "tcp_send t data =
     (if \<not> tk_open t then (-1, t)
      else case tcp_send_loop (tk_room t) data (tk_wire t) of
        (r, room, wire) \<Rightarrow> (r, t\<lparr>tk_room := room, tk_wire := wire\<rparr>))"

definition scene_tcp_set_nonblock :: "tcp_transport \<Rightarrow> bool \<Rightarrow> int \<times> tcp_transport" where
  "scene_tcp_set_nonblock t nb = (if \<not> tk_open t then (-1, t) else (0, t\<lparr>tk_nonblock := nb\<rparr>))"

definition tcp_close :: "tcp_transport \<Rightarrow> tcp_transport" where
  "tcp_close t = t\<lparr>tk_open := False\<rparr>"

text \<open>A connection that waits at a listener, with what its peer will do.\<close>

record net =
  nt_waiting :: "nat \<Rightarrow> (sys_recv list \<times> int list) list"
  nt_sock :: "nat \<Rightarrow> tcp_transport"
  nt_next :: nat
  nt_killed :: "u32 list"

definition scene_tcp_listen_accept :: "net \<Rightarrow> nat option \<Rightarrow> nat option \<times> net" where
  "scene_tcp_listen_accept nt l =
     (case l of
        None \<Rightarrow> (None, nt)
      | Some k \<Rightarrow>
          (case nt_waiting nt k of
             [] \<Rightarrow> (None, nt)
           | (inp, room) # ws \<Rightarrow>
               (Some (nt_next nt),
                nt\<lparr>nt_waiting := (nt_waiting nt)(k := ws),
                   nt_sock := (nt_sock nt)(nt_next nt :=
                     \<lparr>tk_in = inp, tk_room = room, tk_wire = [], tk_nonblock = False, tk_open = True\<rparr>),
                   nt_next := nt_next nt + 1\<rparr>)))"

definition on_sock :: "nat \<Rightarrow> (tcp_transport \<Rightarrow> tcp_transport) \<Rightarrow> net \<Rightarrow> net" where
  "on_sock p f nt = nt\<lparr>nt_sock := (nt_sock nt)(p := f (nt_sock nt p))\<rparr>"

subsection \<open>The state\<close>

definition MAX_SESSIONS :: nat where "MAX_SESSIONS = 16"
definition DEFAULT_SPAWN_TIMEOUT :: int where "DEFAULT_SPAWN_TIMEOUT = 10"

record session =
  se_peer :: "nat option"
  se_sv :: "nat option"
  se_listener :: "nat option"
  se_hproc :: u32
  se_pid :: u32
  se_layer :: u32
  se_spawned_at :: int
  se_dead :: bool

datatype session_call = SessionAdded int u32 | SessionExited int u32

record host_env =
  he_import :: "importer option"
  he_clk :: "nat \<Rightarrow> u64 \<Rightarrow> u64"      \<comment> \<open>per server: the clock at the ingest of a record\<close>
  he_born :: "nat \<Rightarrow> u64"             \<comment> \<open>per server: the clock at its creation\<close>
  he_mem :: "nat \<Rightarrow> cells"            \<comment> \<open>per server: what the memory of its arena holds\<close>
  he_added :: "int \<Rightarrow> u32 \<Rightarrow> scene_compositor \<Rightarrow> scene_compositor"
  he_exited :: "int \<Rightarrow> u32 \<Rightarrow> scene_compositor \<Rightarrow> scene_compositor"

record scene_launcher =
  ln_cp :: scene_compositor
  ln_limits :: "scene_limits option"
  ln_sessions :: "session list"       \<comment> \<open>the slots in use\<close>
  ln_spawn_timeout :: int
  ln_net :: net
  ln_next :: nat                      \<comment> \<open>the next address of a server\<close>
  ln_calls :: "session_call list"     \<comment> \<open>the callbacks made\<close>

definition scene_launcher_new :: "scene_compositor \<Rightarrow> scene_limits option \<Rightarrow> net \<Rightarrow> nat \<Rightarrow> scene_launcher" where
  "scene_launcher_new cp limits nt next_addr =
     \<lparr>ln_cp = cp, ln_limits = limits, ln_sessions = [], ln_spawn_timeout = DEFAULT_SPAWN_TIMEOUT,
      ln_net = nt, ln_next = next_addr, ln_calls = []\<rparr>"

definition scene_launcher_spawn_timeout :: "scene_launcher \<Rightarrow> int \<Rightarrow> scene_launcher" where
  "scene_launcher_spawn_timeout sl seconds =
     (if seconds > 0 then sl\<lparr>ln_spawn_timeout := seconds\<rparr> else sl)"

definition scene_launcher_session_count :: "scene_launcher \<Rightarrow> int" where
  "scene_launcher_session_count sl = int (length (ln_sessions sl))"

definition scene_launcher_layer_at :: "scene_launcher \<Rightarrow> int \<Rightarrow> int" where
  "scene_launcher_layer_at sl i =
     (if i < 0 \<or> i \<ge> int (length (ln_sessions sl)) then 0 else sint (se_layer (ln_sessions sl ! nat i)))"

definition scene_launcher_pid_at :: "scene_launcher \<Rightarrow> int \<Rightarrow> u32" where
  "scene_launcher_pid_at sl i =
     (if i < 0 \<or> i \<ge> int (length (ln_sessions sl)) then 0 else se_pid (ln_sessions sl ! nat i))"

subsection \<open>Spawn and kill\<close>

text \<open>One call of \<open>strtok_r\<close> on what is left of the text: leading delimiters are skipped.\<close>

definition strtok :: "char \<Rightarrow> string \<Rightarrow> (string \<times> string) option" where
  "strtok d s =
     (let t = dropWhile (\<lambda>c. c = d) s
      in if t = [] then None
         else Some (takeWhile (\<lambda>c. c \<noteq> d) t, drop 1 (dropWhile (\<lambda>c. c \<noteq> d) t)))"

lemma strtok_less: "strtok d s = Some (t, rest) \<Longrightarrow> length rest < length s"
proof -
  assume a: "strtok d s = Some (t, rest)"
  define u where "u = dropWhile (\<lambda>c. c = d) s"
  from a have u: "u \<noteq> []" "rest = drop 1 (dropWhile (\<lambda>c. c \<noteq> d) u)"
    by (auto simp: strtok_def u_def Let_def split: if_splits)
  then have "length rest < length u"
    using length_dropWhile_le [of "\<lambda>c. c \<noteq> d" u] by (cases u) (auto simp: less_Suc_eq_le)
  then show ?thesis using length_dropWhile_le [of "\<lambda>c. c = d" s] by (simp add: u_def)
qed

function path_loop :: "(string \<Rightarrow> bool) \<Rightarrow> nat \<Rightarrow> string \<Rightarrow> string \<Rightarrow> string option" where
  "path_loop access cap exe rest =
     (case strtok (CHR '':'') rest of
        None \<Rightarrow> None
      | Some (d, rest') \<Rightarrow>
          let dir = (if d = [] then ''.'' else d);
              out = take (cap - 1) (dir @ ''/'' @ exe)
          in if access out then Some out else path_loop access cap exe rest')"
  by pat_completeness auto

termination
  by (relation "measure (\<lambda>(_, _, _, rest). length rest)") (auto dest: strtok_less)

declare path_loop.simps [simp del]

definition resolve_exe :: "(string \<Rightarrow> bool) \<Rightarrow> string option \<Rightarrow> string \<Rightarrow> nat \<Rightarrow> string option" where
  "resolve_exe access path exe cap =
     (let direct = (if access (take (cap - 1) exe) then Some (take (cap - 1) exe) else None)
      in if CHR ''/'' \<in> set exe then direct
         else case path of
           None \<Rightarrow> direct
         | Some p \<Rightarrow> if p = [] then direct else path_loop access cap exe p)"

text \<open>What a spawn asks of the system: the path of the environment, \<open>access\<close>, a new listener with its port,
  and \<open>fork\<close> with \<open>execl\<close>, which gets the file, the name, the argument and the port for the environment
  of the process, and yields the process id, or \<open>None\<close> when it fails.\<close>

record spawn_host =
  sh_path :: "string option"
  sh_access :: "string \<Rightarrow> bool"
  sh_listen :: "(nat \<times> u16) option"
  sh_exec :: "string \<Rightarrow> string \<Rightarrow> string option \<Rightarrow> u16 \<Rightarrow> u32 option"

definition spawn_proc :: "spawn_host \<Rightarrow> string \<Rightarrow> string option \<Rightarrow> u16 \<Rightarrow> u32 option" where
  "spawn_proc sh exe arg port =
     (case resolve_exe (sh_access sh) (sh_path sh) exe 512 of
        None \<Rightarrow> None
      | Some resolved \<Rightarrow> sh_exec sh resolved exe (if arg = Some [] then None else arg) port)"

definition scene_launcher_spawn :: "spawn_host \<Rightarrow> string \<Rightarrow> string option \<Rightarrow> int \<Rightarrow> scene_launcher \<Rightarrow>
    u32 option \<times> scene_launcher" where
  "scene_launcher_spawn sh exe arg now sl =
     (if length (ln_sessions sl) \<ge> MAX_SESSIONS then (None, sl)
      else case sh_listen sh of
        None \<Rightarrow> (None, sl)
      | Some (l, port) \<Rightarrow>
          (case spawn_proc sh exe arg port of
             None \<Rightarrow> (None, sl)
           | Some pid \<Rightarrow>
               (Some pid, sl\<lparr>ln_sessions := ln_sessions sl @
                  [\<lparr>se_peer = None, se_sv = None, se_listener = Some l, se_hproc = pid, se_pid = pid,
                    se_layer = 0, se_spawned_at = now, se_dead = False\<rparr>]\<rparr>)))"

definition scene_launcher_kill :: "scene_launcher \<Rightarrow> u32 \<Rightarrow> int \<times> scene_launcher" where
  "scene_launcher_kill sl pid =
     (if \<exists>s\<in>set (ln_sessions sl). se_pid s = pid \<and> \<not> se_dead s
      then (0, sl\<lparr>ln_net := (ln_net sl)\<lparr>nt_killed := nt_killed (ln_net sl) @ [pid]\<rparr>\<rparr>)
      else (-1, sl))"

subsection \<open>The pump\<close>

text \<open>A server is known by its address: the layer of the compositor that holds it.\<close>

definition server_at :: "scene_compositor \<Rightarrow> nat \<Rightarrow> scene_server option" where
  "server_at cp ref = map_option ly_sv (find (\<lambda>ly. ly_ref ly = ref) (cp_ly cp))"

definition put_server :: "scene_compositor \<Rightarrow> nat \<Rightarrow> scene_server \<Rightarrow> scene_compositor" where
  "put_server cp ref sv =
     cp\<lparr>cp_ly := map (\<lambda>ly. if ly_ref ly = ref then ly\<lparr>ly_sv := sv\<rparr> else ly) (cp_ly cp)\<rparr>"

text \<open>\<open>join_session\<close>: the first connection at the listener becomes the session; the listener is gone
  then, and the loop ends at its next \<open>accept\<close>. The case of a compositor that takes no session is kept.\<close>

function join_session :: "host_env \<Rightarrow> session \<Rightarrow> scene_launcher \<Rightarrow> session \<times> scene_launcher" where
  "join_session env s sl =
     (case scene_tcp_listen_accept (ln_net sl) (se_listener s) of
        (None, nt) \<Rightarrow> (s, sl\<lparr>ln_net := nt\<rparr>)
      | (Some peer, nt0) \<Rightarrow>
          let nt = on_sock peer (\<lambda>t. snd (scene_tcp_set_nonblock t True)) nt0;
              ref = ln_next sl;
              sv = scene_server_new (ln_limits sl) (he_born env ref) (he_mem env ref)
          in case scene_compositor_add_session (ln_cp sl) ref sv of
               (layer, cp1) \<Rightarrow>
                 if layer = 0 then (s, sl\<lparr>ln_net := on_sock peer tcp_close nt\<rparr>)
                 else
                   let cp2 = put_server cp1 ref (scene_server_attach sv);
                       s' = s\<lparr>se_listener := None, se_peer := Some peer, se_sv := Some ref,
                              se_layer := of_nat layer\<rparr>;
                       cp3 = he_added env (int layer) (se_pid s) cp2
                   in join_session env s'
                        (sl\<lparr>ln_cp := cp3, ln_net := nt, ln_next := ref + 1,
                            ln_calls := ln_calls sl @ [SessionAdded (int layer) (se_pid s)]\<rparr>))"
  by pat_completeness auto

termination
  by (relation "measure (\<lambda>(_, s, _). if se_listener s = None then 0 else 1)")
    (auto simp: scene_tcp_listen_accept_def split: option.splits)

declare join_session.simps [simp del]

definition pump_pending :: "host_env \<Rightarrow> int \<Rightarrow> session \<Rightarrow> scene_launcher \<Rightarrow> session \<times> scene_launcher" where
  "pump_pending env now s sl =
     (if se_listener s = None \<or> se_dead s then (s, sl)
      else if now - se_spawned_at s \<ge> ln_spawn_timeout sl
      then (s\<lparr>se_listener := None, se_dead := True\<rparr>, sl)
      else join_session env s sl)"

definition sys_size :: "sys_recv \<Rightarrow> nat" where
  "sys_size r = (case r of Got d \<Rightarrow> Suc (length d) | _ \<Rightarrow> 1)"

lemma tcp_recv_less:
  "tcp_recv t cap = (TcpData d, t1) \<Longrightarrow> cap > 0 \<Longrightarrow>
   sum_list (map sys_size (tk_in t1)) < sum_list (map sys_size (tk_in t))"
  by (auto simp: tcp_recv_def sys_size_def split: if_splits list.splits sys_recv.splits)

text \<open>Reading from the connection until it would block; \<open>True\<close> means the session is dead.\<close>

function session_recv :: "importer option \<Rightarrow> (u64 \<Rightarrow> u64) \<Rightarrow> tcp_transport \<Rightarrow> scene_server \<Rightarrow>
    bool \<times> tcp_transport \<times> scene_server" where
  "session_recv cb clk t sv =
     (case tcp_recv t 4096 of
        (TcpData d, t1) \<Rightarrow>
          (case scene_server_feed cb clk sv d (of_nat (length d)) of
             (r, sv1) \<Rightarrow> if r \<noteq> 0 then (True, t1, sv1) else session_recv cb clk t1 sv1)
      | (TcpWouldBlock, t1) \<Rightarrow> (False, t1, sv)
      | (TcpClosed, t1) \<Rightarrow> (True, t1, sv))"
  by pat_completeness auto

termination
  by (relation "measure (\<lambda>(_, _, t, _). sum_list (map sys_size (tk_in t)))")
    (auto dest: tcp_recv_less [OF sym])

declare session_recv.simps [simp del]

function session_send :: "tcp_transport \<Rightarrow> scene_server \<Rightarrow> tcp_transport \<times> scene_server" where
  "session_send t sv =
     (case scene_server_out_next_frame sv of
        (None, sv1) \<Rightarrow> (t, sv1)
      | (Some f, sv1) \<Rightarrow> session_send (snd (tcp_send t f)) sv1)"
  by pat_completeness auto

termination
  by (relation "measure (\<lambda>(_, sv). length (oq_bytes (st_out (sv_store sv))) - oq_off (st_out (sv_store sv)))")
    (auto dest: out_next_frame_less sym)

declare session_send.simps [simp del]

text \<open>One turn of a live session: a dead one keeps what it has read and sends nothing.\<close>

definition session_turn :: "host_env \<Rightarrow> nat \<Rightarrow> tcp_transport \<Rightarrow> scene_server \<Rightarrow>
    bool \<times> tcp_transport \<times> scene_server" where
  "session_turn env ref t sv =
     (case session_recv (he_import env) (he_clk env ref) t sv of
        (True, t1, sv1) \<Rightarrow> (True, t1, sv1)
      | (False, t1, sv1) \<Rightarrow> (False, session_send t1 sv1))"

definition pump_live :: "host_env \<Rightarrow> session \<Rightarrow> scene_launcher \<Rightarrow> session \<times> scene_launcher" where
  "pump_live env s sl =
     (case (se_peer s, se_sv s) of
        (Some p, Some ref) \<Rightarrow>
          if se_dead s then (s, sl)
          else (case server_at (ln_cp sl) ref of
             None \<Rightarrow> (s, sl)
           | Some sv \<Rightarrow>
               (case session_turn env ref (nt_sock (ln_net sl) p) sv of
                  (dead, t1, sv1) \<Rightarrow>
                    (s\<lparr>se_dead := dead\<rparr>,
                     sl\<lparr>ln_cp := put_server (ln_cp sl) ref sv1, ln_net := on_sock p (\<lambda>_. t1) (ln_net sl)\<rparr>)))
      | _ \<Rightarrow> (s, sl))"

fun over_sessions :: "(session \<Rightarrow> scene_launcher \<Rightarrow> session \<times> scene_launcher) \<Rightarrow> session list \<Rightarrow>
    scene_launcher \<Rightarrow> session list \<times> scene_launcher" where
  "over_sessions f [] sl = ([], sl)"
| "over_sessions f (s # ss) sl =
     (case f s sl of (s', sl1) \<Rightarrow> case over_sessions f ss sl1 of (ss', sl2) \<Rightarrow> (s' # ss', sl2))"

fun pump_reap :: "host_env \<Rightarrow> session list \<Rightarrow> scene_launcher \<Rightarrow> session list \<times> scene_launcher" where
  "pump_reap env [] sl = ([], sl)"
| "pump_reap env (s # ss) sl =
     (if \<not> se_dead s then (case pump_reap env ss sl of (ss', sl') \<Rightarrow> (s # ss', sl'))
      else case (se_peer s, se_sv s) of
        (Some p, Some ref) \<Rightarrow>
          (case scene_compositor_remove_session (ln_cp sl) ref of
             (layer, cp1) \<Rightarrow>
               pump_reap env ss
                 (sl\<lparr>ln_net := on_sock p tcp_close (ln_net sl), ln_cp := he_exited env layer (se_pid s) cp1,
                     ln_calls := ln_calls sl @ [SessionExited layer (se_pid s)]\<rparr>))
      | _ \<Rightarrow> pump_reap env ss sl)"

definition scene_launcher_pump :: "host_env \<Rightarrow> int \<Rightarrow> scene_launcher \<Rightarrow> scene_launcher" where
  "scene_launcher_pump env now sl =
     (case over_sessions (pump_pending env now) (ln_sessions sl) sl of
        (ss1, sl1) \<Rightarrow> case over_sessions (pump_live env) ss1 sl1 of
          (ss2, sl2) \<Rightarrow> case pump_reap env ss2 sl2 of
            (ss3, sl3) \<Rightarrow> sl3\<lparr>ln_sessions := ss3\<rparr>)"

text \<open>\<open>scene_launcher_free\<close>: every joined session leaves the compositor, without a callback.\<close>

fun free_sessions :: "session list \<Rightarrow> scene_launcher \<Rightarrow> scene_launcher" where
  "free_sessions [] sl = sl"
| "free_sessions (s # ss) sl =
     (case (se_peer s, se_sv s) of
        (Some p, Some ref) \<Rightarrow>
          free_sessions ss
            (sl\<lparr>ln_cp := snd (scene_compositor_remove_session (ln_cp sl) ref),
                ln_net := on_sock p tcp_close (ln_net sl)\<rparr>)
      | _ \<Rightarrow> free_sessions ss sl)"

definition scene_launcher_free :: "scene_launcher \<Rightarrow> scene_compositor \<times> net" where
  "scene_launcher_free sl = (let sl' = free_sessions (ln_sessions sl) sl in (ln_cp sl', ln_net sl'))"

end
