(* ===== verification/LauncherOk.thy ===== *)
theory LauncherOk
  imports Launcher "HOL-Library.Sublist"
begin

text \<open>
  The launcher keeps its sessions and the layers of the compositor in step: every joined session has
  the layer with its server, and every layer above the shell belongs to one session. Each session is
  served from its own connection.
\<close>

subsection \<open>Layers and servers\<close>

abbreviation refs :: "scene_compositor \<Rightarrow> nat list" where
  "refs cp \<equiv> map ly_ref (cp_ly cp)"

lemma find_map_put:
  "find (\<lambda>ly. ly_ref ly = r') (map (\<lambda>ly. if ly_ref ly = r then ly\<lparr>ly_sv := sv\<rparr> else ly) xs) =
   map_option (\<lambda>ly. if ly_ref ly = r then ly\<lparr>ly_sv := sv\<rparr> else ly) (find (\<lambda>ly. ly_ref ly = r') xs)"
  by (induction xs) auto

lemma find_ref: "find (\<lambda>ly. ly_ref ly = r) xs = Some ly \<Longrightarrow> ly_ref ly = r"
  by (auto simp: find_Some_iff)

lemma server_at_put:
  "server_at (put_server cp r sv) r' =
   (if r = r' then map_option (\<lambda>_. sv) (server_at cp r) else server_at cp r')"
  by (auto simp: server_at_def put_server_def find_map_put option.map_comp o_def dest: find_ref
      intro!: option.map_cong0 map_option_cong)

lemma refs_put [simp]: "refs (put_server cp r sv) = refs cp"
  by (auto simp: put_server_def)

lemma find_append: "find P (xs @ ys) = (case find P xs of None \<Rightarrow> find P ys | Some x \<Rightarrow> Some x)"
  by (induction xs) auto

lemma put_server_nil [simp]: "cp_ly (put_server cp r sv) = [] \<longleftrightarrow> cp_ly cp = []"
  by (simp add: put_server_def)

lemma put_server_ref: "x \<in> set (cp_ly (put_server cp r sv)) \<Longrightarrow> \<exists>y\<in>set (cp_ly cp). ly_ref x = ly_ref y"
  by (auto simp: put_server_def split: if_splits)

lemma server_at_None: "server_at cp r = None \<longleftrightarrow> r \<notin> set (refs cp)"
  by (auto simp: server_at_def find_None_iff)

lemma server_at_add:
  "r \<notin> set (refs cp) \<Longrightarrow> scene_compositor_add_session cp r sv = (n, cp1) \<Longrightarrow>
   server_at cp1 r' = (if r' = r then Some sv else server_at cp r') \<and> refs cp1 = refs cp @ [r] \<and>
   n = length (cp_ly cp)"
  by (auto simp: scene_compositor_add_session_def server_at_def layer_init_def find_append
      find_None_iff dest: find_ref split: option.splits) (metis find_ref find_Some_iff image_eqI nth_mem)

text \<open>Removing a session takes its layer out and keeps the order of the others.\<close>

lemma remove_session_layers:
  assumes "distinct (refs cp)" "r \<in> set (tl (refs cp))"
    and "scene_compositor_remove_session cp r = (n, cp1)"
  shows "cp_ly cp1 = filter (\<lambda>ly. ly_ref ly \<noteq> r) (cp_ly cp)" and "n \<ge> 1"
proof -
  let ?ls = "cp_ly cp" and ?P = "\<lambda>i. ly_ref (cp_ly cp ! i) = r"
  obtain j where j: "j < length (tl (refs cp))" "tl (refs cp) ! j = r"
    using assms(2) by (auto simp: in_set_conv_nth)
  then have j': "Suc j < length ?ls" "?P (Suc j)" by (auto simp: nth_tl nth_map)
  then obtain i where f: "find ?P [1..<length ?ls] = Some i"
    by (cases "find ?P [1..<length ?ls]") (auto simp: find_None_iff)
  then have i: "1 \<le> i" "i < length ?ls" "?P i" by (auto simp: find_Some_iff)
  then have only: "\<not> ?P k" if "k < length ?ls" "k \<noteq> i" for k
    using assms(1) that by (auto simp: distinct_conv_nth)
  have split: "?ls = take i ?ls @ ?ls ! i # drop (i + 1) ?ls"
    using i(2) by (simp add: id_take_nth_drop)
  have t: "\<forall>ly\<in>set (take i ?ls). ly_ref ly \<noteq> r"
  proof
    fix ly assume "ly \<in> set (take i ?ls)"
    then obtain k where "k < i" "ly = ?ls ! k" by (auto simp: in_set_conv_nth)
    then show "ly_ref ly \<noteq> r" using only [of k] i(2) by simp
  qed
  have d: "\<forall>ly\<in>set (drop (i + 1) ?ls). ly_ref ly \<noteq> r"
  proof
    fix ly assume "ly \<in> set (drop (i + 1) ?ls)"
    then obtain k where "k < length ?ls - (i + 1)" "ly = ?ls ! (i + 1 + k)" by (auto simp: in_set_conv_nth)
    then have "i + 1 + k < length ?ls" "ly = ?ls ! (i + 1 + k)" by simp_all
    then show "ly_ref ly \<noteq> r" using only [of "i + 1 + k"] by simp
  qed
  have "filter (\<lambda>ly. ly_ref ly \<noteq> r) ?ls = take i ?ls @ drop (i + 1) ?ls"
    using i(3) t d by (subst split) (simp add: filter_id_conv)
  then show "cp_ly cp1 = filter (\<lambda>ly. ly_ref ly \<noteq> r) ?ls" "n \<ge> 1"
    using assms(3) f i(1) by (auto simp: scene_compositor_remove_session_def Let_def)
qed

lemma server_at_filter:
  "cp_ly cp1 = filter (\<lambda>ly. ly_ref ly \<noteq> r) (cp_ly cp) \<Longrightarrow>
   server_at cp1 r' = (if r' = r then None else server_at cp r')"
proof -
  assume a: "cp_ly cp1 = filter (\<lambda>ly. ly_ref ly \<noteq> r) (cp_ly cp)"
  have "find (\<lambda>ly. ly_ref ly = r') (filter (\<lambda>ly. ly_ref ly \<noteq> r) xs) =
      (if r' = r then None else find (\<lambda>ly. ly_ref ly = r') xs)" for xs :: "scene_layer list"
    by (induction xs) auto
  then show ?thesis using a by (simp add: server_at_def)
qed

lemma server_at_update:
  assumes "cp_ly cp1 = (cp_ly cp)[l := (cp_ly cp ! l)\<lparr>ly_sv := sv\<rparr>]" "l < length (cp_ly cp)"
  shows "r \<noteq> ly_ref (cp_ly cp ! l) \<Longrightarrow> server_at cp1 r = server_at cp r" and "refs cp1 = refs cp"
proof -
  have "r \<noteq> ly_ref (xs ! l) \<Longrightarrow> l < length xs \<Longrightarrow>
      find (\<lambda>ly. ly_ref ly = r) (xs[l := (xs ! l)\<lparr>ly_sv := sv\<rparr>]) = find (\<lambda>ly. ly_ref ly = r) xs"
    for xs :: "scene_layer list"
    by (induction xs arbitrary: l) (auto split: nat.splits)
  then show "r \<noteq> ly_ref (cp_ly cp ! l) \<Longrightarrow> server_at cp1 r = server_at cp r"
    using assms by (simp add: server_at_def)
  show "refs cp1 = refs cp"
    using assms by (simp add: map_update) (metis list_update_id map_update nth_map)
qed

lemma refs_filter:
  "cp_ly cp1 = filter (\<lambda>ly. ly_ref ly \<noteq> r) (cp_ly cp) \<Longrightarrow> refs cp1 = filter (\<lambda>x. x \<noteq> r) (refs cp)"
  by (simp add: filter_map o_def)

subsection \<open>The contract of the callbacks\<close>

text \<open>\<open>session_added\<close> may work on the server of the new layer, \<open>session_exited\<close> on none.\<close>

locale launcher_host =
  fixes env :: host_env
  assumes added: "l < length (cp_ly cp) \<Longrightarrow>
      \<exists>sv. cp_ly (he_added env (int l) pid cp) = (cp_ly cp)[l := (cp_ly cp ! l)\<lparr>ly_sv := sv\<rparr>]"
    and exited: "cp_ly (he_exited env n pid cp) = cp_ly cp"

subsection \<open>Sessions in step with layers\<close>

definition session_shape :: "session \<Rightarrow> bool" where
  "session_shape s \<longleftrightarrow>
     (if se_peer s = None then se_sv s = None \<and> (se_listener s = None \<longrightarrow> se_dead s)
      else se_sv s \<noteq> None \<and> se_listener s = None)"

abbreviation svs :: "session list \<Rightarrow> nat list" where
  "svs ss \<equiv> List.map_filter se_sv ss"

abbreviation peers :: "session list \<Rightarrow> nat list" where
  "peers ss \<equiv> List.map_filter se_peer ss"

definition linked :: "session list \<Rightarrow> scene_launcher \<Rightarrow> bool" where
  "linked ss sl \<longleftrightarrow>
     cp_ly (ln_cp sl) \<noteq> [] \<and> distinct (refs (ln_cp sl)) \<and> (\<forall>r\<in>set (refs (ln_cp sl)). r < ln_next sl) \<and>
     (\<forall>s\<in>set ss. session_shape s) \<and> distinct (peers ss) \<and> (\<forall>p\<in>set (peers ss). p < nt_next (ln_net sl)) \<and>
     mset (svs ss) = mset (tl (refs (ln_cp sl)))"

definition launcher_ok :: "scene_launcher \<Rightarrow> bool" where
  "launcher_ok sl \<longleftrightarrow> linked (ln_sessions sl) sl \<and> length (ln_sessions sl) \<le> MAX_SESSIONS \<and>
     (\<forall>s\<in>set (ln_sessions sl). \<not> se_dead s)"

lemma map_filter_append: "List.map_filter f (xs @ ys) = List.map_filter f xs @ List.map_filter f ys"
  by (simp add: List.map_filter_def)

lemma map_filter_Cons:
  "List.map_filter f (x # xs) = (case f x of None \<Rightarrow> List.map_filter f xs | Some y \<Rightarrow> y # List.map_filter f xs)"
  by (simp add: List.map_filter_def split: option.splits)

lemma map_filter_nil [simp]: "List.map_filter f [] = []"
  by (simp add: List.map_filter_def)

lemmas filters = map_filter_append map_filter_Cons

lemma in_map_filter: "y \<in> set (List.map_filter f xs) \<longleftrightarrow> (\<exists>x\<in>set xs. f x = Some y)"
  by (induction xs) (auto simp: map_filter_Cons split: option.splits)

lemma filter_remove1: "distinct xs \<Longrightarrow> filter (\<lambda>x. x \<noteq> r) xs = remove1 r xs"
  by (induction xs) (auto simp: filter_id_conv)

lemma upt_join: "i \<le> j \<Longrightarrow> j \<le> k \<Longrightarrow> [i..<j] @ [j..<k] = [i..<k]" for i j k :: nat
  by (metis le_Suc_ex upt_add_eq_append)

lemma over_sessions_linked:
  assumes "\<And>xs s ys sl s' sl'. linked (xs @ s # ys) sl \<Longrightarrow> f s sl = (s', sl') \<Longrightarrow> linked (xs @ s' # ys) sl'"
  shows "linked (xs @ ss) sl \<Longrightarrow> over_sessions f ss sl = (ss', sl') \<Longrightarrow> linked (xs @ ss') sl'"
proof (induction ss arbitrary: xs sl ss')
  case (Cons s ss)
  obtain s1 sl1 where 1: "f s sl = (s1, sl1)" by fastforce
  obtain ss2 where 2: "over_sessions f ss sl1 = (ss2, sl')" "ss' = s1 # ss2"
    using Cons.prems(2) 1 by (auto split: prod.splits)
  have "linked ((xs @ [s1]) @ ss) sl1" using assms [OF Cons.prems(1) 1] by simp
  from Cons.IH [OF this 2(1)] show ?case using 2(2) by simp
qed simp

lemma over_sessions_length: "length (fst (over_sessions f ss sl)) = length ss"
  proof (induction ss arbitrary: sl)
  case (Cons s ss)
  show ?case using Cons.IH by (simp split: prod.splits) (metis fst_conv)
qed simp

text \<open>What the other sessions leave alone: the server and the connection of one session.\<close>

definition other :: "nat \<Rightarrow> nat \<Rightarrow> session \<Rightarrow> bool" where
  "other p r s \<longleftrightarrow> se_peer s \<noteq> Some p \<and> se_sv s \<noteq> Some r"

definition keeps :: "nat \<Rightarrow> nat \<Rightarrow> scene_launcher \<Rightarrow> scene_launcher \<Rightarrow> bool" where
  "keeps p r sl sl' \<longleftrightarrow> server_at (ln_cp sl') r = server_at (ln_cp sl) r \<and>
     nt_sock (ln_net sl') p = nt_sock (ln_net sl) p \<and> prefix (ln_calls sl) (ln_calls sl')"

definition known :: "nat \<Rightarrow> nat \<Rightarrow> scene_launcher \<Rightarrow> bool" where
  "known p r sl \<longleftrightarrow> cp_ly (ln_cp sl) \<noteq> [] \<and> (\<forall>x\<in>set (refs (ln_cp sl)). x < ln_next sl) \<and> r < ln_next sl \<and>
     p < nt_next (ln_net sl)"

lemma session_keeps_refl [simp]: "keeps p r sl sl"
  by (simp add: keeps_def)

lemma session_keeps_trans: "keeps p r sl sl1 \<Longrightarrow> keeps p r sl1 sl2 \<Longrightarrow> keeps p r sl sl2"
  by (auto simp: keeps_def intro: prefix_order.trans)

lemma over_sessions_append:
  "over_sessions f (xs @ ys) sl =
   (case over_sessions f xs sl of (xs', sl1) \<Rightarrow> case over_sessions f ys sl1 of (ys', sl2) \<Rightarrow> (xs' @ ys', sl2))"
  by (induction xs arbitrary: sl) (auto split: prod.splits)

context launcher_host
begin

text \<open>What \<open>join_session\<close> comes to: without a connection nothing, else one step, as the listener is gone.\<close>

lemma no_listener: "se_listener s = None \<Longrightarrow> join_session env s sl = (s, sl)"
  by (subst join_session.simps) (simp add: scene_tcp_listen_accept_def)

lemma join_cases:
  assumes "join_session env s sl = (s', sl')" "cp_ly (ln_cp sl) \<noteq> []" "ln_next sl \<notin> set (refs (ln_cp sl))"
  obtains (idle) "s' = s" "sl' = sl"
  | (join) n where "s' = s\<lparr>se_listener := None, se_peer := Some (nt_next (ln_net sl)), se_sv := Some (ln_next sl), se_layer := of_nat n\<rparr>"
      "refs (ln_cp sl') = refs (ln_cp sl) @ [ln_next sl]" "ln_next sl' = ln_next sl + 1"
      "\<And>r. r \<noteq> ln_next sl \<Longrightarrow> server_at (ln_cp sl') r = server_at (ln_cp sl) r"
      "nt_next (ln_net sl') = nt_next (ln_net sl) + 1" 
      "\<And>p. p \<noteq> nt_next (ln_net sl) \<Longrightarrow> nt_sock (ln_net sl') p = nt_sock (ln_net sl) p"
      "n = length (cp_ly (ln_cp sl))" "ln_sessions sl' = ln_sessions sl"
      "ln_calls sl' = ln_calls sl @ [SessionAdded (int n) (se_pid s)]"
proof (cases "scene_tcp_listen_accept (ln_net sl) (se_listener s)")
  case (Pair a nt0)
  show thesis
  proof (cases a)
    case None
    then have "nt0 = ln_net sl"
      using Pair by (auto simp: scene_tcp_listen_accept_def split: option.splits list.splits prod.splits)
    then show thesis
      using assms(1) Pair None by (intro idle) (auto simp: join_session.simps [of env s])
  next
    case (Some peer)
    let ?r = "ln_next sl" and ?n = "length (cp_ly (ln_cp sl))"
    have nt: "peer = nt_next (ln_net sl)" "nt_next nt0 = nt_next (ln_net sl) + 1"
      "p \<noteq> peer \<Longrightarrow> nt_sock nt0 p = nt_sock (ln_net sl) p" for p
      using Pair Some by (auto simp: scene_tcp_listen_accept_def split: option.splits list.splits prod.splits)
    define sv where "sv = scene_server_new (ln_limits sl) (he_born env ?r) (he_mem env ?r)"
    obtain cp1 where cp1: "scene_compositor_add_session (ln_cp sl) ?r sv = (?n, cp1)"
      by (simp add: scene_compositor_add_session_def)
    note ad = server_at_add [OF assms(3) cp1]
    define cp2 where "cp2 = put_server cp1 ?r (scene_server_attach sv)"
    have "length (refs cp2) = ?n + 1" using ad by (simp add: cp2_def del: length_map) simp
    then have l: "?n < length (cp_ly cp2)" by simp
    obtain sv' where sv': "cp_ly (he_added env (int ?n) (se_pid s) cp2) = (cp_ly cp2)[?n := (cp_ly cp2 ! ?n)\<lparr>ly_sv := sv'\<rparr>]"
      using added [OF l] by blast
    define cp3 where "cp3 = he_added env (int ?n) (se_pid s) cp2"
    have r2: "refs cp2 = refs (ln_cp sl) @ [?r]" using ad by (simp add: cp2_def)
    then have "ly_ref (cp_ly cp2 ! ?n) = ?r" using l by (metis length_map nth_append_length nth_map)
    note up = server_at_update [OF sv' [folded cp3_def] l, unfolded this]
    have same: "server_at cp3 r = server_at (ln_cp sl) r" if "r \<noteq> ?r" for r
      using up(1) [OF that] ad that by (simp add: cp2_def server_at_put)
    let ?s = "s\<lparr>se_listener := None, se_peer := Some peer, se_sv := Some ?r, se_layer := of_nat ?n\<rparr>"
    let ?sl = "sl\<lparr>ln_cp := cp3, ln_net := on_sock peer (\<lambda>t. snd (scene_tcp_set_nonblock t True)) nt0,
      ln_next := ?r + 1, ln_calls := ln_calls sl @ [SessionAdded (int ?n) (se_pid s)]\<rparr>"
    have "join_session env s sl = join_session env ?s ?sl"
      using assms(2) Pair Some cp1 by (subst join_session.simps) (simp add: cp3_def cp2_def sv_def Let_def)
    also have "\<dots> = (?s, ?sl)" by (rule no_listener) simp
    finally have "s' = ?s" "sl' = ?sl" using assms(1) by simp_all
    then show thesis using nt r2 up(2) same by (intro join [of ?n]) (simp_all add: on_sock_def)
  qed
qed

lemma next_fresh: "linked ss sl \<Longrightarrow> ln_next sl \<notin> set (refs (ln_cp sl))"
  by (auto simp: linked_def)

lemma linked_mid:
  assumes "linked (xs @ s # ys) sl" "se_sv s' = se_sv s" "se_peer s' = se_peer s" "session_shape s'"
    and "refs (ln_cp sl') = refs (ln_cp sl)" "ln_next sl' = ln_next sl" "nt_next (ln_net sl') = nt_next (ln_net sl)"
  shows "linked (xs @ s' # ys) sl'"
  using assms unfolding linked_def by (simp add: filters) (metis length_map list.size(3) length_0_conv)

lemma pump_pending_linked:
  assumes l: "linked (xs @ s # ys) sl" and p: "pump_pending env now s sl = (s', sl')"
  shows "linked (xs @ s' # ys) sl'"
proof -
  have shape: "session_shape s" and ne: "cp_ly (ln_cp sl) \<noteq> []" using l by (auto simp: linked_def)
  show ?thesis
  proof (cases "se_listener s = None \<or> se_dead s \<or> now - se_spawned_at s \<ge> ln_spawn_timeout sl")
    case True
    then show ?thesis
      using p shape by (intro linked_mid [OF l]) (auto simp: pump_pending_def session_shape_def split: if_splits)
  next
    case False
    then have j: "join_session env s sl = (s', sl')" using p by (auto simp: pump_pending_def)
    show ?thesis
    proof (cases rule: join_cases [OF j ne next_fresh [OF l]])
      case (2 n)
      have none: "se_peer s = None" "se_sv s = None"
        using shape False by (auto simp: session_shape_def split: if_splits)
      show ?thesis
        using l ne none 2(1-3,5) unfolding linked_def
        by (auto simp: filters session_shape_def less_Suc_eq)
    qed (use l in simp)
  qed
qed

lemma pump_live_linked:
  assumes l: "linked (xs @ s # ys) sl" and p: "pump_live env s sl = (s', sl')"
  shows "linked (xs @ s' # ys) sl'"
proof (rule linked_mid [OF l])
  have "session_shape s" using l by (simp add: linked_def)
  then show "session_shape s'"
    using p by (auto simp: pump_live_def session_shape_def split: option.splits if_splits prod.splits)
qed (use p in \<open>auto simp: pump_live_def on_sock_def split: option.splits if_splits prod.splits\<close>)

lemma reap_linked:
  assumes l: "linked (xs @ s # ys) sl" and s: "se_peer s = Some p" "se_sv s = Some r"
    and rm: "scene_compositor_remove_session (ln_cp sl) r = (n, cp1)"
    and sl': "sl' = sl\<lparr>ln_net := on_sock p tcp_close (ln_net sl), ln_cp := he_exited env n (se_pid s) cp1,
        ln_calls := calls\<rparr>"
  shows "linked (xs @ ys) sl'"
    and "cp_ly (ln_cp sl') = filter (\<lambda>ly. ly_ref ly \<noteq> r) (cp_ly (ln_cp sl))"
proof -
  let ?R = "refs (ln_cp sl)"
  have lk: "distinct ?R" "?R \<noteq> []" "mset (svs (xs @ s # ys)) = mset (tl ?R)"
    using l by (auto simp: linked_def)
  have "r \<in># mset (svs (xs @ s # ys))" using s by (simp add: filters)
  then have r: "r \<in> set (tl ?R)" using lk(3) by simp
  have ly: "cp_ly (ln_cp sl') = filter (\<lambda>ly. ly_ref ly \<noteq> r) (cp_ly (ln_cp sl))"
    using remove_session_layers(1) [OF lk(1) r rm] by (simp add: sl' exited)
  then show "cp_ly (ln_cp sl') = filter (\<lambda>ly. ly_ref ly \<noteq> r) (cp_ly (ln_cp sl))" .
  obtain h T where R: "?R = h # T" using lk(2) by (cases ?R) auto
  have hr: "h \<noteq> r" "r \<in> set T" "distinct T" using lk(1) r R by auto
  then have R': "refs (ln_cp sl') = h # filter (\<lambda>x. x \<noteq> r) T" using refs_filter [OF ly] R by simp
  have "mset (filter (\<lambda>x. x \<noteq> r) T) = mset T - {#r#}"
    using hr by (simp add: filter_remove1)
  then have m: "mset (svs (xs @ ys)) = mset (tl (refs (ln_cp sl')))"
    using lk(3) s R R' by (simp add: filters) (metis add_mset_remove_trivial union_mset_add_mset_right)
  have other: "distinct (refs (ln_cp sl'))" "\<forall>x\<in>set (refs (ln_cp sl')). x < ln_next sl'" "cp_ly (ln_cp sl') \<noteq> []"
    using l R R' lk(1) unfolding linked_def by (auto simp: sl')
  have "nt_next (ln_net sl') = nt_next (ln_net sl)" by (simp add: sl' on_sock_def)
  then have "\<forall>s\<in>set (xs @ ys). session_shape s" "distinct (peers (xs @ ys))"
    "\<forall>p\<in>set (peers (xs @ ys)). p < nt_next (ln_net sl')"
    using l s unfolding linked_def by (auto simp: filters)
  then show "linked (xs @ ys) sl'" using m other unfolding linked_def by blast
qed

lemma pump_reap_linked:
  "linked (xs @ ss) sl \<Longrightarrow> pump_reap env ss sl = (ss', sl') \<Longrightarrow>
   linked (xs @ ss') sl' \<and> (\<forall>s\<in>set ss'. \<not> se_dead s) \<and> length ss' \<le> length ss"
proof (induction ss arbitrary: xs sl ss')
  case (Cons s ss)
  show ?case
  proof (cases "se_dead s")
    case False
    obtain ss2 where 2: "pump_reap env ss sl = (ss2, sl')" "ss' = s # ss2"
      using Cons.prems(2) False by (auto split: prod.splits)
    have "linked ((xs @ [s]) @ ss) sl" using Cons.prems(1) by simp
    from Cons.IH [OF this 2(1)] show ?thesis using 2(2) False by simp
  next
    case dead: True
    have shape: "session_shape s" using Cons.prems(1) by (simp add: linked_def)
    show ?thesis
    proof (cases "se_peer s")
      case None
      then have "se_sv s = None" using shape by (simp add: session_shape_def)
      then have "linked (xs @ ss) sl" using Cons.prems(1) None by (simp add: linked_def filters)
      from Cons.IH [OF this] show ?thesis using Cons.prems(2) dead None by simp
    next
      case (Some p)
      then obtain r where r: "se_sv s = Some r" using shape by (auto simp: session_shape_def)
      obtain n cp1 where rm: "scene_compositor_remove_session (ln_cp sl) r = (n, cp1)" by fastforce
      note reap_linked(1) [OF Cons.prems(1) Some r rm refl]
      from Cons.IH [OF this] show ?thesis using Cons.prems(2) dead Some r rm by (simp add: le_SucI)
    qed
  qed
qed simp

lemma pump_ok:
  assumes "launcher_ok sl"
  shows "launcher_ok (scene_launcher_pump env now sl)"
proof -
  obtain ss1 sl1 where 1: "over_sessions (pump_pending env now) (ln_sessions sl) sl = (ss1, sl1)" by fastforce
  obtain ss2 sl2 where 2: "over_sessions (pump_live env) ss1 sl1 = (ss2, sl2)" by fastforce
  obtain ss3 sl3 where 3: "pump_reap env ss2 sl2 = (ss3, sl3)" by fastforce
  have "linked ([] @ ss1) sl1"
    by (rule over_sessions_linked [OF _ _ 1], rule pump_pending_linked, assumption+)
      (use assms in \<open>simp add: launcher_ok_def\<close>)
  then have "linked ([] @ ss2) sl2"
    by (intro over_sessions_linked [OF _ _ 2]) (rule pump_live_linked)
  note r = pump_reap_linked [OF this 3]
  have "length ss2 = length (ln_sessions sl)"
    using over_sessions_length [of "pump_live env" ss1 sl1] over_sessions_length [of "pump_pending env now" "ln_sessions sl" sl] 1 2
    by simp
  then show ?thesis using r assms 1 2 3 by (simp add: launcher_ok_def scene_launcher_pump_def linked_def)
qed

subsection \<open>Each session from its own connection\<close>

lemma over_sessions_keeps:
  assumes "\<And>s sl s' sl'. other p r s \<Longrightarrow> known p r sl \<Longrightarrow> f s sl = (s', sl') \<Longrightarrow> known p r sl' \<and> keeps p r sl sl'"
  shows "\<forall>s\<in>set ss. other p r s \<Longrightarrow> known p r sl \<Longrightarrow> over_sessions f ss sl = (ss', sl') \<Longrightarrow>
    known p r sl' \<and> keeps p r sl sl'"
proof (induction ss arbitrary: sl ss')
  case (Cons s ss)
  obtain s1 sl1 where 1: "f s sl = (s1, sl1)" by fastforce
  obtain ss2 where 2: "over_sessions f ss sl1 = (ss2, sl')" using Cons.prems(3) 1 by (auto split: prod.splits)
  have k: "known p r sl1 \<and> keeps p r sl sl1" using assms [OF _ _ 1] Cons.prems by simp
  then show ?case using Cons.IH [of sl1 ss2] Cons.prems(1) 2 session_keeps_trans by auto
qed simp

lemma pump_pending_keeps:
  "other p r s \<Longrightarrow> known p r sl \<Longrightarrow> pump_pending env now s sl = (s', sl') \<Longrightarrow> known p r sl' \<and> keeps p r sl sl'"
proof -
  assume o: "other p r s" and k: "known p r sl" and f: "pump_pending env now s sl = (s', sl')"
  consider "sl' = sl" | "join_session env s sl = (s', sl')"
    using f by (auto simp: pump_pending_def split: if_splits)
  then show ?thesis
  proof cases
    case 2
    have ne: "cp_ly (ln_cp sl) \<noteq> []" "ln_next sl \<notin> set (refs (ln_cp sl))" using k by (auto simp: known_def)
    show ?thesis
      by (rule join_cases [OF 2 ne]) (use k in \<open>auto simp: known_def keeps_def\<close>)
  qed (use k in simp)
qed

lemma pump_live_keeps:
  "other p r s \<Longrightarrow> known p r sl \<Longrightarrow> pump_live env s sl = (s', sl') \<Longrightarrow> known p r sl' \<and> keeps p r sl sl'"
  unfolding pump_live_def other_def known_def keeps_def on_sock_def
  by (auto simp: server_at_put dest!: put_server_ref split: option.splits if_splits prod.splits)

lemma linked_others:
  assumes "linked (xs @ s # ys) sl" "se_peer s = Some p" "se_sv s = Some r"
  shows "\<forall>s\<in>set (xs @ ys). other p r s" and "known p r sl" and "r \<in> set (tl (refs (ln_cp sl)))"
proof -
  have m: "mset (svs (xs @ s # ys)) = mset (tl (refs (ln_cp sl)))" "distinct (refs (ln_cp sl))"
    using assms(1) by (auto simp: linked_def)
  then have "distinct (svs (xs @ s # ys))" by (metis distinct_tl mset_eq_imp_distinct_iff)
  moreover have "distinct (peers (xs @ s # ys))" using assms(1) by (simp add: linked_def)
  ultimately show "\<forall>s\<in>set (xs @ ys). other p r s"
    using assms(2,3) by (auto simp: other_def filters in_map_filter)
  have "r \<in> set (svs (xs @ s # ys))" using assms(3) by (simp add: filters)
  then show "r \<in> set (tl (refs (ln_cp sl)))" using m(1) by (metis set_mset_mset)
  then have "r \<in> set (refs (ln_cp sl))" by (metis list.set_sel(2) tl_Nil)
  then show "known p r sl" using assms unfolding known_def linked_def by (auto simp: filters)
qed

lemma remove_keeps:
  assumes "distinct (refs cp)" "scene_compositor_remove_session cp r' = (n, cp1)" "r \<noteq> r'"
  shows "server_at cp1 r = server_at cp r"
proof (cases "r' \<in> set (tl (refs cp))")
  case True
  then show ?thesis using server_at_filter [OF remove_session_layers(1) [OF assms(1) True assms(2)]] assms(3) by simp
next
  case False
  have "ly_ref (cp_ly cp ! i) \<noteq> r'" if "i \<in> set [1..<length (cp_ly cp)]" for i
  proof -
    have "tl (refs cp) ! (i - 1) = ly_ref (cp_ly cp ! i)" "i - 1 < length (tl (refs cp))"
      using that by (auto simp: nth_tl)
    then show ?thesis using False nth_mem by metis
  qed
  then have "find (\<lambda>i. ly_ref (cp_ly cp ! i) = r') [1..<length (cp_ly cp)] = None"
    by (simp add: find_None_iff)
  then show ?thesis using assms(2) by (simp add: scene_compositor_remove_session_def)
qed

text \<open>The reaping of a list with the session in it, and of one without.\<close>

lemma pump_reap_step:
  assumes "linked (xs @ s # ss) sl" "se_dead s" "pump_reap env (s # ss) sl = (ss', sl')" "other p r s"
  obtains sl1 where "linked (xs @ ss) sl1" "pump_reap env ss sl1 = (ss', sl')" "keeps p r sl sl1"
proof (cases "se_peer s")
  case None
  then have "se_sv s = None" using assms(1) by (simp add: linked_def session_shape_def)
  then show thesis using assms None by (intro that [of sl]) (simp_all add: linked_def filters)
next
  case (Some p')
  then obtain r' where r': "se_sv s = Some r'" using assms(1) by (auto simp: linked_def session_shape_def)
  obtain n cp1 where rm: "scene_compositor_remove_session (ln_cp sl) r' = (n, cp1)" by fastforce
  let ?sl = "sl\<lparr>ln_net := on_sock p' tcp_close (ln_net sl), ln_cp := he_exited env n (se_pid s) cp1,
     ln_calls := ln_calls sl @ [SessionExited n (se_pid s)]\<rparr>"
  have ne: "r \<noteq> r'" "p \<noteq> p'" using assms(4) Some r' by (auto simp: other_def)
  have "distinct (refs (ln_cp sl))" using assms(1) by (simp add: linked_def)
  from remove_keeps [OF this rm ne(1)] have "keeps p r sl ?sl"
    using ne by (simp add: keeps_def on_sock_def server_at_def exited)
  then show thesis
    using assms(2,3) Some r' rm reap_linked(1) [OF assms(1) Some r' rm refl]
    by (intro that [of ?sl]) simp_all
qed

lemma pump_reap_keeps:
  "linked (xs @ ss) sl \<Longrightarrow> \<forall>s\<in>set ss. other p r s \<Longrightarrow> pump_reap env ss sl = (ss', sl') \<Longrightarrow> keeps p r sl sl'"
proof (induction ss arbitrary: xs sl ss')
  case (Cons s ss)
  show ?case
  proof (cases "se_dead s")
    case False
    obtain ss2 where "pump_reap env ss sl = (ss2, sl')" using Cons.prems(3) False by (auto split: prod.splits)
    then show ?thesis using Cons.IH [of "xs @ [s]"] Cons.prems(1,2) by simp
  next
    case True
    obtain sl1 where "linked (xs @ ss) sl1" "pump_reap env ss sl1 = (ss', sl')" "keeps p r sl sl1"
      by (rule pump_reap_step [OF Cons.prems(1) True Cons.prems(3)]) (use Cons.prems(2) in auto)
    then show ?thesis using Cons.IH Cons.prems(2) session_keeps_trans by (metis list.set_intros(2))
  qed
qed simp

lemma pump_reap_split:
  assumes "linked (xs @ ys @ s # zs) sl" "se_peer s = Some p" "se_sv s = Some r"
    and "pump_reap env (ys @ s # zs) sl = (ss', sl')"
  obtains vs sl1 ss2 where "linked (vs @ s # zs) sl1" "keeps p r sl sl1" "pump_reap env (s # zs) sl1 = (ss2, sl')"
      "set ss2 \<subseteq> set ss'"
  using assms
proof (induction ys arbitrary: xs sl ss' thesis)
  case Nil
  then show thesis by (intro Nil.prems(1) [of xs sl ss']) simp_all
next
  case (Cons y ys)
  have o: "other p r y"
    using linked_others(1) [of "xs @ y # ys" s zs sl p r] Cons.prems(2-4) by simp
  show thesis
  proof (cases "se_dead y")
    case False
    then obtain ss2 where 2: "pump_reap env (ys @ s # zs) sl = (ss2, sl')" "ss' = y # ss2"
      using Cons.prems(5) by (auto split: prod.splits)
    have l: "linked ((xs @ [y]) @ ys @ s # zs) sl" using Cons.prems(2) by simp
    show thesis
    proof (rule Cons.IH [OF _ l Cons.prems(3,4) 2(1)])
      fix vs sl1 ss3
      assume "linked (vs @ s # zs) sl1" "keeps p r sl sl1" "pump_reap env (s # zs) sl1 = (ss3, sl')" "set ss3 \<subseteq> set ss2"
      then show thesis using 2(2) by (intro Cons.prems(1)) auto
    qed
  next
    case True
    obtain sl0 where 0: "linked (xs @ ys @ s # zs) sl0" "pump_reap env (ys @ s # zs) sl0 = (ss', sl')" "keeps p r sl sl0"
      by (rule pump_reap_step [OF _ True _ o, of xs "ys @ s # zs" sl ss' sl']) (use Cons.prems(2,5) in auto)
    show thesis
      by (rule Cons.IH [OF _ 0(1) Cons.prems(3,4) 0(2)]) (rule Cons.prems(1), use session_keeps_trans [OF 0(3)] in \<open>auto simp del: pump_reap.simps\<close>)
  qed
qed

lemma pump_reap_serves:
  assumes l: "linked (xs @ s # zs) sl" and s: "se_peer s = Some p" "se_sv s = Some r"
    and rp: "pump_reap env (s # zs) sl = (ss', sl')"
  shows "se_dead s \<Longrightarrow> server_at (ln_cp sl') r = None \<and>
      nt_sock (ln_net sl') p = tcp_close (nt_sock (ln_net sl) p) \<and>
      (\<exists>n\<ge>1. prefix (ln_calls sl @ [SessionExited n (se_pid s)]) (ln_calls sl'))"
    and "\<not> se_dead s \<Longrightarrow> s \<in> set ss' \<and> keeps p r sl sl'"
proof -
  note o = linked_others [OF l s]
  {
    assume "se_dead s"
    obtain n cp1 where rm: "scene_compositor_remove_session (ln_cp sl) r = (n, cp1)" by fastforce
    let ?sl = "sl\<lparr>ln_net := on_sock p tcp_close (ln_net sl), ln_cp := he_exited env n (se_pid s) cp1,
       ln_calls := ln_calls sl @ [SessionExited n (se_pid s)]\<rparr>"
    have r: "pump_reap env zs ?sl = (ss', sl')" using rp \<open>se_dead s\<close> s rm by simp
    note rl = reap_linked [OF l s rm refl, of "ln_calls sl @ [SessionExited n (se_pid s)]"]
    have "keeps p r ?sl sl'" by (rule pump_reap_keeps [OF rl(1) _ r]) (use o(1) in simp)
    moreover have "n \<ge> 1"
      using remove_session_layers(2) [OF _ o(3) rm] l by (simp add: linked_def)
    moreover have "server_at (ln_cp ?sl) r = None" using server_at_filter [OF rl(2), where r' = r] by simp
    ultimately show "server_at (ln_cp sl') r = None \<and>
      nt_sock (ln_net sl') p = tcp_close (nt_sock (ln_net sl) p) \<and>
      (\<exists>n\<ge>1. prefix (ln_calls sl @ [SessionExited n (se_pid s)]) (ln_calls sl'))"
      by (auto simp: keeps_def on_sock_def)
  }
  {
    assume "\<not> se_dead s"
    then obtain ss2 where r: "pump_reap env zs sl = (ss2, sl')" "ss' = s # ss2"
      using rp by (auto split: prod.splits)
    have "keeps p r sl sl'"
      by (rule pump_reap_keeps [of "xs @ [s]", OF _ _ r(1)]) (use l o(1) in simp_all)
    then show "s \<in> set ss' \<and> keeps p r sl sl'" using r(2) by simp
  }
qed

text \<open>The pump on one joined session.\<close>

lemma pump_serves:
  assumes ok: "launcher_ok sl" and s: "s \<in> set (ln_sessions sl)" "se_peer s = Some p" "se_sv s = Some r"
    and sl': "sl' = scene_launcher_pump env now sl"
  shows "\<exists>sv. server_at (ln_cp sl) r = Some sv \<and>
    (case session_turn env r (nt_sock (ln_net sl) p) sv of (dead, t', sv') \<Rightarrow>
       if dead then server_at (ln_cp sl') r = None \<and> nt_sock (ln_net sl') p = tcp_close t' \<and>
         (\<exists>n\<ge>1. SessionExited n (se_pid s) \<in> set (drop (length (ln_calls sl)) (ln_calls sl')))
       else s \<in> set (ln_sessions sl') \<and> server_at (ln_cp sl') r = Some sv' \<and> nt_sock (ln_net sl') p = t')"
proof -
  obtain xs ys where ss: "ln_sessions sl = xs @ s # ys" using s(1) by (meson split_list)
  have l: "linked (xs @ s # ys) sl" and alive: "\<not> se_dead s" using ok ss by (auto simp: launcher_ok_def)
  then have shape: "se_listener s = None" using s by (auto simp: linked_def session_shape_def)
  note o = linked_others [OF l s(2,3)]
  obtain sv where sv: "server_at (ln_cp sl) r = Some sv"
    using o(3) by (metis server_at_None not_None_eq list.set_sel(2) tl_Nil)
  obtain dead t' sv' where turn: "session_turn env r (nt_sock (ln_net sl) p) sv = (dead, t', sv')"
    by (metis prod_cases3)
  obtain xs1 sl1 where 1: "over_sessions (pump_pending env now) xs sl = (xs1, sl1)" by fastforce
  obtain ys1 sl2 where 2: "over_sessions (pump_pending env now) ys sl1 = (ys1, sl2)" by fastforce
  have p: "over_sessions (pump_pending env now) (ln_sessions sl) sl = (xs1 @ s # ys1, sl2)"
    using 1 2 shape by (simp add: ss over_sessions_append pump_pending_def)
  have lp: "linked (xs1 @ s # ys1) sl2"
    using over_sessions_linked [of "pump_pending env now" "[]", OF pump_pending_linked _ p] l ss by simp
  have k1: "known p r sl1 \<and> keeps p r sl sl1"
    by (rule over_sessions_keeps [OF pump_pending_keeps _ o(2) 1]) (use o(1) in simp_all)
  have k2: "known p r sl2 \<and> keeps p r sl1 sl2"
    by (rule over_sessions_keeps [OF pump_pending_keeps _ _ 2]) (use o(1) k1 in simp_all)
  note k = session_keeps_trans [OF conjunct2 [OF k1] conjunct2 [OF k2]]
  have sv2: "server_at (ln_cp sl2) r = Some sv" "nt_sock (ln_net sl2) p = nt_sock (ln_net sl) p"
    using k sv by (simp_all add: keeps_def)
  obtain xs2 sl3 where 3: "over_sessions (pump_live env) xs1 sl2 = (xs2, sl3)" by fastforce
  note o2 = linked_others [OF lp s(2,3)]
  have k3: "known p r sl3 \<and> keeps p r sl2 sl3"
    by (rule over_sessions_keeps [OF pump_live_keeps _ o2(2) 3]) (use o2(1) in simp_all)
  let ?s = "s\<lparr>se_dead := dead\<rparr>"
  let ?sl = "sl3\<lparr>ln_cp := put_server (ln_cp sl3) r sv', ln_net := on_sock p (\<lambda>_. t') (ln_net sl3)\<rparr>"
  have at: "pump_live env s sl3 = (?s, ?sl)"
    using k3 sv2 s alive turn by (simp add: pump_live_def keeps_def)
  obtain ys2 sl4 where 4: "over_sessions (pump_live env) ys1 ?sl = (ys2, sl4)" by fastforce
  have lv: "over_sessions (pump_live env) (xs1 @ s # ys1) sl2 = (xs2 @ ?s # ys2, sl4)"
    using 3 4 at by (simp add: over_sessions_append)
  have ll: "linked (xs2 @ ?s # ys2) sl4"
    using over_sessions_linked [of "pump_live env" "[]", OF pump_live_linked _ lv] lp by simp
  have "known p r ?sl" using k3 by (auto simp: known_def on_sock_def dest!: put_server_ref)
  then have k4: "known p r sl4 \<and> keeps p r ?sl sl4"
    by (intro over_sessions_keeps [OF pump_live_keeps _ _ 4]) (use o2(1) in simp_all)
  obtain ss5 sl5 where 5: "pump_reap env (xs2 @ ?s # ys2) sl4 = (ss5, sl5)" by fastforce
  have pump: "scene_launcher_pump env now sl = sl5\<lparr>ln_sessions := ss5\<rparr>"
    using p lv 5 by (simp add: scene_launcher_pump_def)
  have s': "se_peer ?s = Some p" "se_sv ?s = Some r" using s by simp_all
  obtain vs sl6 ss6 where 6: "linked (vs @ ?s # ys2) sl6" "keeps p r sl4 sl6"
      "pump_reap env (?s # ys2) sl6 = (ss6, sl5)" "set ss6 \<subseteq> set ss5"
    by (rule pump_reap_split [of "[]", OF _ s' 5]) (use ll in \<open>auto simp del: pump_reap.simps\<close>)
  note serve = pump_reap_serves [OF 6(1) s' 6(3)]
  have state: "server_at (ln_cp sl6) r = Some sv'" "nt_sock (ln_net sl6) p = t'"
    using k4 6(2) k3 sv2 by (auto simp: keeps_def server_at_put on_sock_def)
  have "prefix (ln_calls sl) (ln_calls sl6)"
    using k k3 k4 6(2) by (auto simp: keeps_def intro: prefix_order.trans)
  then have ev: "e \<in> set (drop (length (ln_calls sl)) (ln_calls sl5))"
    if "prefix (ln_calls sl6 @ [e]) (ln_calls sl5)" for e
    using that by (auto simp: prefix_def)
  have live: "s\<lparr>se_dead := False\<rparr> = s" using alive by (cases s) simp
  show ?thesis
  proof (rule exI [of _ sv], unfold sl' turn pump, simp add: sv, intro conjI impI)
  qed (use serve state ev live alive 6(4) in \<open>auto simp: keeps_def\<close>)
qed

subsection \<open>The order of the layers\<close>

text \<open>New sessions come on top, sessions that end leave, the others keep their order.\<close>

lemma pending_order:
  "linked (xs @ ss) sl \<Longrightarrow> over_sessions (pump_pending env now) ss sl = (ss', sl') \<Longrightarrow>
   refs (ln_cp sl') = refs (ln_cp sl) @ [ln_next sl..<ln_next sl'] \<and> ln_next sl \<le> ln_next sl'"
proof (induction ss arbitrary: xs sl ss')
  case (Cons s ss)
  obtain s1 sl1 where 1: "pump_pending env now s sl = (s1, sl1)" by fastforce
  obtain ss2 where 2: "over_sessions (pump_pending env now) ss sl1 = (ss2, sl')"
    using Cons.prems(2) 1 by (auto split: prod.splits)
  have l: "linked ((xs @ [s1]) @ ss) sl1" using pump_pending_linked [OF Cons.prems(1) 1] by simp
  have one: "refs (ln_cp sl1) = refs (ln_cp sl) @ [ln_next sl..<ln_next sl1] \<and> ln_next sl \<le> ln_next sl1"
  proof -
    consider "sl1 = sl" | "join_session env s sl = (s1, sl1)"
      using 1 by (auto simp: pump_pending_def split: if_splits)
    then show ?thesis
    proof cases
      case 2
      have "cp_ly (ln_cp sl) \<noteq> []" using Cons.prems(1) by (simp add: linked_def)
      from join_cases [OF 2 this next_fresh [OF Cons.prems(1)]] show ?thesis by cases simp_all
    qed simp
  qed
  from Cons.IH [OF l 2] one show ?case using upt_join [of "ln_next sl" "ln_next sl1" "ln_next sl'"] by simp
qed simp

lemma live_order: "over_sessions (pump_live env) ss sl = (ss', sl') \<Longrightarrow>
  refs (ln_cp sl') = refs (ln_cp sl) \<and> ln_next sl' = ln_next sl"
proof (induction ss arbitrary: sl ss')
  case (Cons s ss)
  obtain s1 sl1 where 1: "pump_live env s sl = (s1, sl1)" by fastforce
  then have "refs (ln_cp sl1) = refs (ln_cp sl) \<and> ln_next sl1 = ln_next sl"
    by (auto simp: pump_live_def split: option.splits if_splits prod.splits)
  then show ?case using Cons 1 by (auto split: prod.splits)
qed simp

lemma reap_order: "linked (xs @ ss) sl \<Longrightarrow> pump_reap env ss sl = (ss', sl') \<Longrightarrow>
  (\<exists>Q. refs (ln_cp sl') = filter Q (refs (ln_cp sl))) \<and> ln_next sl' = ln_next sl"
proof (induction ss arbitrary: xs sl ss')
  case Nil
  then show ?case by (auto intro!: exI [of _ "\<lambda>_. True"])
next
  case (Cons s ss)
  show ?case
  proof (cases "se_dead s")
    case False
    then show ?thesis using Cons.IH [of "xs @ [s]"] Cons.prems by (auto split: prod.splits)
  next
    case dead: True
    show ?thesis
    proof (cases "se_peer s")
      case None
      then have "se_sv s = None" using Cons.prems(1) by (simp add: linked_def session_shape_def)
      then have "linked (xs @ ss) sl" using Cons.prems(1) None by (simp add: linked_def filters)
      from Cons.IH [OF this] show ?thesis using Cons.prems(2) dead None by simp
    next
      case (Some p)
      then obtain r where r: "se_sv s = Some r" using Cons.prems(1) by (auto simp: linked_def session_shape_def)
      obtain n cp1 where rm: "scene_compositor_remove_session (ln_cp sl) r = (n, cp1)" by fastforce
      note rl = reap_linked [OF Cons.prems(1) Some r rm refl, of "ln_calls sl @ [SessionExited n (se_pid s)]"]
      obtain Q where "refs (ln_cp sl') = filter Q (filter (\<lambda>x. x \<noteq> r) (refs (ln_cp sl))) \<and> ln_next sl' = ln_next sl"
        using Cons.IH [OF rl(1)] refs_filter [OF rl(2)] Cons.prems(2) dead Some r rm by auto
      then show ?thesis by auto
    qed
  qed
qed

lemma pump_order:
  assumes "launcher_ok sl" and pump: "sl' = scene_launcher_pump env now sl"
  shows "refs (ln_cp sl') = filter (\<lambda>r. r \<in> set (refs (ln_cp sl'))) (refs (ln_cp sl) @ [ln_next sl..<ln_next sl'])"
proof -
  obtain ss1 sl1 where 1: "over_sessions (pump_pending env now) (ln_sessions sl) sl = (ss1, sl1)" by fastforce
  obtain ss2 sl2 where 2: "over_sessions (pump_live env) ss1 sl1 = (ss2, sl2)" by fastforce
  obtain ss3 sl3 where 3: "pump_reap env ss2 sl2 = (ss3, sl3)" by fastforce
  have l: "linked ([] @ ln_sessions sl) sl" using assms(1) by (simp add: launcher_ok_def)
  have l1: "linked ([] @ ss1) sl1" by (rule over_sessions_linked [OF pump_pending_linked l 1])
  have l2: "linked ([] @ ss2) sl2" by (rule over_sessions_linked [OF pump_live_linked l1 2])
  obtain Q where Q: "refs (ln_cp sl3) = filter Q (refs (ln_cp sl2))" "ln_next sl3 = ln_next sl2"
    using reap_order [OF l2 3] by blast
  have "refs (ln_cp sl2) = refs (ln_cp sl) @ [ln_next sl..<ln_next sl2]"
    using pending_order [OF l 1] live_order [OF 2] by simp
  then have "refs (ln_cp sl3) = filter Q (refs (ln_cp sl) @ [ln_next sl..<ln_next sl3])" using Q by simp
  moreover have sl': "sl' = sl3\<lparr>ln_sessions := ss3\<rparr>" using 1 2 3 by (simp add: pump scene_launcher_pump_def)
  moreover have "refs (ln_cp sl') = refs (ln_cp sl3)" by (simp add: sl')
  moreover have "filter P xs = filter (\<lambda>x. x \<in> set (filter P xs)) xs" for P and xs :: "nat list"
    by (rule filter_cong) auto
  ultimately have "refs (ln_cp sl') = filter (\<lambda>r. r \<in> set (refs (ln_cp sl'))) (refs (ln_cp sl) @ [ln_next sl..<ln_next sl3])"
    by metis
  moreover have "ln_next sl' = ln_next sl3" by (simp add: sl')
  ultimately show ?thesis by metis
qed

end

end
