(* ===== verification/LauncherHost.thy ===== *)
theory LauncherHost
  imports LauncherOk
begin

text \<open>
  The launcher in its host: the callbacks of \<open>src/iso_drm.c\<close>, the runs of calls and outside events, what
  a connection gets to see, and the search for an executable.
\<close>

subsection \<open>The callbacks of the desktop\<close>

definition IMP_REF :: u32 where "IMP_REF = 1"
definition IMP_W :: u32 where "IMP_W = 240"
definition IMP_H :: u32 where "IMP_H = 128"

text \<open>\<open>cb_session_added\<close> registers the texture of the clip player in the store of the new layer; what it
  shows on the desktop and the state of the player are not modelled. \<open>cb_session_exited\<close> only does that.\<close>

definition cb_session_added :: "int \<Rightarrow> u32 \<Rightarrow> scene_compositor \<Rightarrow> scene_compositor" where
  "cb_session_added layer pid cp =
     (let l = nat layer; sv = ly_sv (cp_ly cp ! l);
          sv' = sv\<lparr>sv_store := snd (scene_store_register_texture (sv_store sv) IMP_REF IMP_W IMP_H 0 1)\<rparr>
      in cp\<lparr>cp_ly := (cp_ly cp)[l := (cp_ly cp ! l)\<lparr>ly_sv := sv'\<rparr>]\<rparr>)"

definition cb_session_exited :: "int \<Rightarrow> u32 \<Rightarrow> scene_compositor \<Rightarrow> scene_compositor" where
  "cb_session_exited layer pid cp = cp"

definition launcher_cbs :: "importer option \<Rightarrow> (nat \<Rightarrow> u64 \<Rightarrow> u64) \<Rightarrow> (nat \<Rightarrow> u64) \<Rightarrow> (nat \<Rightarrow> cells) \<Rightarrow> host_env" where
  "launcher_cbs import_cb clk born mem =
     \<lparr>he_import = import_cb, he_clk = clk, he_born = born, he_mem = mem,
      he_added = cb_session_added, he_exited = cb_session_exited\<rparr>"

interpretation desk: launcher_host "launcher_cbs import_cb clk born mem" for import_cb clk born mem
  by unfold_locales (auto simp: launcher_cbs_def cb_session_added_def cb_session_exited_def Let_def)

subsection \<open>Runs\<close>

text \<open>The calls of the launcher, and what happens around it: connections and bytes arrive, and the other
  operations of the compositor work on its layers without adding or removing one.\<close>

inductive launcher_reach :: "host_env \<Rightarrow> scene_launcher \<Rightarrow> bool" for env where
  start: "launcher_reach env (scene_launcher_new cp limits nt a)"
    if "refs cp = [shell]" "shell < a"
| timeout: "launcher_reach env (scene_launcher_spawn_timeout sl seconds)" if "launcher_reach env sl"
| spawn: "launcher_reach env (snd (scene_launcher_spawn sh exe arg now sl))" if "launcher_reach env sl"
| kill: "launcher_reach env (snd (scene_launcher_kill sl pid))" if "launcher_reach env sl"
| pump: "launcher_reach env (scene_launcher_pump env now sl)" if "launcher_reach env sl"
| arrive: "launcher_reach env (sl\<lparr>ln_net := nt\<rparr>)" if "launcher_reach env sl" "nt_next (ln_net sl) \<le> nt_next nt"
| compose: "launcher_reach env (sl\<lparr>ln_cp := cp\<rparr>)" if "launcher_reach env sl" "refs cp = refs (ln_cp sl)"

lemma linked_states:
  "linked ss sl \<Longrightarrow> refs (ln_cp sl') = refs (ln_cp sl) \<Longrightarrow> ln_next sl' = ln_next sl \<Longrightarrow>
   nt_next (ln_net sl) \<le> nt_next (ln_net sl') \<Longrightarrow> linked ss sl'"
  unfolding linked_def by (metis length_0_conv length_map less_le_trans)

lemma spawn_ok: "launcher_ok sl \<Longrightarrow> launcher_ok (snd (scene_launcher_spawn sh exe arg now sl))"
  by (auto simp: launcher_ok_def scene_launcher_spawn_def linked_def filters session_shape_def MAX_SESSIONS_def
      split: option.splits prod.splits)

lemma kill_ok: "launcher_ok sl \<Longrightarrow> launcher_ok (snd (scene_launcher_kill sl pid))"
  by (auto simp: launcher_ok_def scene_launcher_kill_def linked_def)

context launcher_host
begin

lemma launcher_reach_ok: "launcher_reach env sl \<Longrightarrow> launcher_ok sl"
proof (induction rule: launcher_reach.induct)
  case (start cp shell a limits nt)
  then have "cp_ly cp \<noteq> []" by auto
  then show ?case using start
    by (simp add: launcher_ok_def linked_def scene_launcher_new_def MAX_SESSIONS_def)
next
  case (timeout sl seconds)
  then show ?case by (simp add: launcher_ok_def scene_launcher_spawn_timeout_def linked_def)
next
  case (arrive sl nt)
  then show ?case using linked_states [of "ln_sessions sl" sl "sl\<lparr>ln_net := nt\<rparr>"] by (simp add: launcher_ok_def)
next
  case (compose sl cp)
  then show ?case using linked_states [of "ln_sessions sl" sl "sl\<lparr>ln_cp := cp\<rparr>"] by (simp add: launcher_ok_def)
qed (simp_all add: spawn_ok kill_ok pump_ok)

end

subsection \<open>What a connection gets\<close>

lemma tcp_recv_keeps:
  "tcp_recv t cap = (g, t1) \<Longrightarrow> tk_wire t1 = tk_wire t \<and> tk_room t1 = tk_room t \<and> tk_open t1 = tk_open t"
  by (auto simp: tcp_recv_def split: if_splits list.splits sys_recv.splits)

lemma session_recv_keeps:
  "session_recv cb clk t sv = (dead, t1, sv1) \<Longrightarrow>
   tk_wire t1 = tk_wire t \<and> tk_room t1 = tk_room t \<and> tk_open t1 = tk_open t"
proof (induction cb clk t sv rule: session_recv.induct)
  case (1 cb clk t sv)
  obtain g t2 where g: "tcp_recv t 4096 = (g, t2)" by fastforce
  note k = tcp_recv_keeps [OF g]
  show ?case
  proof (cases g)
    case (TcpData d)
    obtain r sv2 where f: "scene_server_feed cb clk sv d (of_nat (length d)) = (r, sv2)" by fastforce
    show ?thesis
    proof (cases "r = 0")
      case True
      have "session_recv cb clk t2 sv2 = (dead, t1, sv1)"
        using "1.prems" g TcpData f True by (subst (asm) session_recv.simps) simp
      then show ?thesis using "1.IH" [OF g [symmetric] TcpData f [symmetric]] True k by simp
    next
      case False
      then show ?thesis using "1.prems" g TcpData f k by (subst (asm) session_recv.simps) simp
    qed
  qed (use "1.prems" g k in \<open>subst (asm) session_recv.simps, simp\<close>)+
qed

text \<open>A session that dies in its turn has been sent nothing in it.\<close>

lemma dead_turn_silent:
  "session_turn env r t sv = (True, t1, sv1) \<Longrightarrow> tk_wire t1 = tk_wire t \<and> tk_open t1 = tk_open t"
  by (auto simp: session_turn_def dest: session_recv_keeps split: prod.splits bool.splits)

lemma violation_kills:
  assumes "tcp_recv t 4096 = (TcpData d, t1)"
    and "scene_server_feed (he_import env) (he_clk env r) sv d (of_nat (length d)) = (rc, sv1)" "rc \<noteq> 0"
  shows "session_turn env r t sv = (True, t1, sv1)"
  using assms unfolding session_turn_def by (subst session_recv.simps) simp

text \<open>The frames of the queue go out one by one, whatever becomes of each.\<close>

definition drained :: "scene_server \<Rightarrow> scene_server" where
  "drained sv = sv\<lparr>sv_store := (sv_store sv)\<lparr>st_out := oq_empty\<rparr>\<rparr>"

lemma session_send_frames:
  "pending (st_out (sv_store sv)) rs \<Longrightarrow>
   session_send t sv = (foldl (\<lambda>t (opc, p). snd (tcp_send t (scene_frame opc p))) t rs, drained sv)"
proof (induction rs arbitrary: t sv)
  case Nil
  have "scene_server_out_next_frame sv = (None, drained sv)"
    using out_next_Nil(2) [OF Nil]
    by (simp add: scene_server_out_next_frame_def scene_store_out_next_frame_def drained_def)
  then show ?case by (subst session_send.simps) simp
next
  case (Cons r rs)
  obtain opc p where r: "r = (opc, p)" by (cases r)
  obtain q' where q': "out_next_frame (st_out (sv_store sv)) = (Some (scene_frame opc p), q')" "pending q' rs"
    using out_next_frame_Cons Cons.prems r by blast
  let ?sv = "sv\<lparr>sv_store := (sv_store sv)\<lparr>st_out := q'\<rparr>\<rparr>"
  have "scene_server_out_next_frame sv = (Some (scene_frame opc p), ?sv)"
    using q'(1) by (simp add: scene_server_out_next_frame_def scene_store_out_next_frame_def)
  then have "session_send t sv = session_send (snd (tcp_send t (scene_frame opc p))) ?sv"
    by (subst session_send.simps) simp
  moreover have "drained ?sv = drained sv" by (simp add: drained_def)
  ultimately show ?case using Cons.IH [of ?sv] q'(2) r by simp
qed

lemma tcp_send_all:
  "tk_open t \<Longrightarrow> tk_room t = [] \<Longrightarrow> tcp_send t data = (0, t\<lparr>tk_wire := tk_wire t @ data\<rparr>)"
  by (cases data) (simp_all add: tcp_send_def)

lemma send_all_frames:
  "tk_open t \<Longrightarrow> tk_room t = [] \<Longrightarrow>
   foldl (\<lambda>t (opc, p). snd (tcp_send t (scene_frame opc p))) t rs = t\<lparr>tk_wire := tk_wire t @ record_bytes rs\<rparr>"
proof (induction rs arbitrary: t)
  case (Cons r rs)
  then show ?case by (cases r) (simp add: tcp_send_all record_bytes_def)
qed (simp add: record_bytes_def)

lemma tcp_send_short:
  assumes "tk_open t" "tk_room t = [int k, n]" "n \<le> 0" "0 < k" "k < length data"
  shows "tcp_send t data = (-1, t\<lparr>tk_room := [], tk_wire := tk_wire t @ take k data\<rparr>)"
proof -
  have "data \<noteq> []" "drop k data \<noteq> []" using assms(4,5) by auto
  then have "tcp_send_loop [int k, n] data (tk_wire t) = (-1, [], tk_wire t @ take k data)"
    using assms(3,4) by (cases data; cases "drop k data") auto
  then show ?thesis using assms(1,2) by (simp add: tcp_send_def)
qed

subsection \<open>The search for an executable\<close>

lemma strtok_token: "strtok d s = Some (t, rest) \<Longrightarrow> t \<noteq> [] \<and> d \<notin> set t"
proof -
  assume a: "strtok d s = Some (t, rest)"
  define u where "u = dropWhile (\<lambda>c. c = d) s"
  have u: "u \<noteq> []" "t = takeWhile (\<lambda>c. c \<noteq> d) u"
    using a by (auto simp: strtok_def u_def Let_def split: if_splits)
  then have "hd u \<noteq> d" using hd_dropWhile [of "\<lambda>c. c = d" s] by (simp add: u_def)
  then have "t \<noteq> []" using u by (cases u) simp_all
  moreover have "d \<notin> set t" using u(2) by (auto dest: set_takeWhileD)
  ultimately show ?thesis by simp
qed

text \<open>No element of the path is empty when it is looked at: the current directory that an empty element
  stands for is never searched.\<close>

lemma path_loop_step:
  "path_loop access cap exe rest =
     (case strtok (CHR '':'') rest of
        None \<Rightarrow> None
      | Some (dir, rest') \<Rightarrow>
          let out = take (cap - 1) (dir @ ''/'' @ exe)
          in if access out then Some out else path_loop access cap exe rest')"
proof (cases "strtok (CHR '':'') rest")
  case (Some x)
  obtain dir rest' where x: "x = (dir, rest')" by (cases x)
  with Some have "dir \<noteq> []" using strtok_token by simp
  then show ?thesis using Some x by (subst path_loop.simps) simp
qed (subst path_loop.simps, simp)

lemma path_loop_found:
  "path_loop access cap exe rest = Some out \<Longrightarrow>
   access out \<and> (\<exists>dir. dir \<noteq> [] \<and> CHR '':'' \<notin> set dir \<and> out = take (cap - 1) (dir @ ''/'' @ exe))"
proof (induction access cap exe rest rule: path_loop.induct)
  case (1 access cap exe rest)
  show ?case
  proof (cases "strtok (CHR '':'') rest")
    case None
    then show ?thesis using "1.prems" by (subst (asm) path_loop_step) simp
  next
    case (Some x)
    obtain dir rest' where x: "x = (dir, rest')" by (cases x)
    note s = Some [unfolded x]
    show ?thesis
    proof (cases "access (take (cap - 1) (dir @ ''/'' @ exe))")
      case True
      then have "out = take (cap - 1) (dir @ ''/'' @ exe)"
        using "1.prems" s by (subst (asm) path_loop_step) (simp add: Let_def)
      then show ?thesis using True strtok_token [OF s] by blast
    next
      case False
      have "path_loop access cap exe rest' = Some out"
        using "1.prems" s False by (subst (asm) path_loop_step) (simp add: Let_def)
      then show ?thesis using "1.IH" [OF s refl refl refl] False strtok_token [OF s] by simp
    qed
  qed
qed

end
