(* ===== verification/LauncherSamples.thy ===== *)
theory LauncherSamples
  imports LauncherHost DeskSamples
begin

text \<open>
  A desktop with a launcher for the witnesses: an application that has just been spawned and connects,
  and one that has joined, with what its connection will do.
\<close>

definition demo_sock :: "sys_recv list \<Rightarrow> int list \<Rightarrow> tcp_transport" where
  "demo_sock inp room = \<lparr>tk_in = inp, tk_room = room, tk_wire = [], tk_nonblock = True, tk_open = True\<rparr>"

definition demo_spawned :: scene_launcher where
  "demo_spawned = snd (scene_launcher_spawn
     \<lparr>sh_path = Some ''/bin'', sh_access = (\<lambda>_. True), sh_listen = Some (0, 5000), sh_exec = (\<lambda>_ _ _ _. Some 42)\<rparr>
     ''iso-demo'' None 0
     (scene_launcher_new demo_desk None
       \<lparr>nt_waiting = (\<lambda>k. if k = 0 then [([], [])] else []), nt_sock = (\<lambda>_. demo_sock [] []), nt_next = 0,
        nt_killed = []\<rparr> 1))"

definition demo_fresh :: scene_server where
  "demo_fresh = scene_server_new None 0 (\<lambda>_. zero_node)"

definition demo_session :: session where
  "demo_session = \<lparr>se_peer = Some 0, se_sv = Some 1, se_listener = None, se_hproc = 42, se_pid = 42,
     se_layer = 1, se_spawned_at = 0, se_dead = False\<rparr>"

definition demo_joined :: "sys_recv list \<Rightarrow> scene_launcher" where
  "demo_joined inp =
     \<lparr>ln_cp = snd (scene_compositor_add_session demo_desk 1 demo_fresh), ln_limits = None,
      ln_sessions = [demo_session], ln_spawn_timeout = 10,
      ln_net = \<lparr>nt_waiting = (\<lambda>_. []), nt_sock = (\<lambda>_. demo_sock inp []), nt_next = 1, nt_killed = []\<rparr>,
      ln_next = 2, ln_calls = [SessionAdded 1 42]\<rparr>"

text \<open>A header that announces more than any record may hold.\<close>

definition demo_huge :: bytes where
  "demo_huge = [0, 0, 0, 0, 0, 0, 0, 0, 255, 255, 255, 255, 0, 0, 0, 0]"

lemma demo_spawned_reach: "launcher_reach (launcher_cbs None (\<lambda>_ _. 0) (\<lambda>_. 0) (\<lambda>_ _. zero_node)) demo_spawned"
  unfolding demo_spawned_def
  by (intro launcher_reach.spawn launcher_reach.start [of _ 0]) (simp_all add: demo_desk_fields layer_init_def)

lemma demo_joined:
  "launcher_ok (demo_joined inp)" "demo_session \<in> set (ln_sessions (demo_joined inp))"
  "se_peer demo_session = Some 0" "se_sv demo_session = Some 1" "se_pid demo_session = 42"
  "server_at (ln_cp (demo_joined inp)) 1 = Some demo_fresh" "nt_sock (ln_net (demo_joined inp)) 0 = demo_sock inp []"
  by (simp_all add: demo_joined_def launcher_ok_def linked_def MAX_SESSIONS_def demo_session_def session_shape_def
      filters demo_desk_fields layer_init_def scene_compositor_add_session_def server_at_def)

lemma demo_refused: "fst (scene_server_feed None clk demo_fresh demo_huge 16) = -1"
proof -
  have plen: "scene_get_u32 demo_huge 8 = 0xFFFFFFFF" by (simp add: demo_huge_def scene_get_u32_def)
  have "st_lim (sv_store demo_fresh) = scene_default_limits"
    by (simp add: demo_fresh_def scene_server_new_def scene_store_new_def Let_def)
  then have "scene_get_u32 demo_huge 8 > max_record_length (st_lim (sv_store demo_fresh))"
    by (simp add: plen scene_default_limits_def)
  moreover have "slice demo_huge 0 16 = demo_huge" "length demo_huge = 16" by (simp_all add: demo_huge_def slice_inside)
  moreover have "sv_in demo_fresh = []" "sv_off demo_fresh = 0" "\<not> sv_dead demo_fresh"
    by (simp_all add: demo_fresh_def scene_server_new_def)
  ultimately show ?thesis
    by (simp add: scene_server_feed_def feed_loop.simps [of None clk demo_huge] server_fail_def Let_def)
qed

end
