(* ===== verification/Spec2Isabelle.thy ===== *)
theory Spec2Isabelle
  imports Server Rewind Client Session Reach Mutation Flow Region Search Views ClientParse
    FeedChunks Samples ReplayOk RewindOk EndToEnd ShellPump FontCache Terminal Lock
    DeskSamples ScreenOk ShapesOk ImageOk ConfigOk LauncherSamples
begin

text \<open>
  Scene-store: verification of the retained scene of \<open>src/scene-store\<close>.

  1. The program.

  A client builds a user interface as a tree of nodes and changes it by commands; the server
  keeps the tree, draws it, lets the user point, type, search and rewind, and answers with
  records. The parts modelled are
    - the wire format (\<open>include/scene_fmt.h\<close>, \<open>src/scene_fmt.c\<close>): a 16 byte frame header with
      length, opcode, version and FNV-1a hash, little-endian fields, UTF-8 texts;
    - the store (\<open>src/scene_store.c\<close>): one session. It holds the live arena of nodes with its
      hash table of ids, the texture registry, the operation log with its checkpoints, the
      replay arena, the macros, the ghost of a lost connection, and the queue of outbound
      records. \<open>scene_store_ingest\<close> is the only way in for the records of the client;
    - the server (\<open>src/scene_server.c\<close>): turns the bytes of the transport into frames,
      validates them, and calls the store; it also rejoins a returning client;
    - the client (\<open>src/scene_client.c\<close>): numbers and frames the commands, keeps its own log, parses
      the records of the server into callbacks, and resends the log after a reconnection;
    - the readers of a store: accessibility (\<open>src/scene_a11y.c\<close>), which walks a scene and
      collects nodes for a reader, and rewind (\<open>src/scene_rewind.c\<close>), a cursor over the log with
      a difference of two moments;
    - the application toolkit (\<open>src/scene_app.c\<close>): windows made of seven nodes each, their layout,
      the drags of the window manager and the chrome buttons, over a client;
    - the compositor (\<open>src/scene_compositor.c\<close>): several sessions as layers, each with a table of what
      was painted last, which a frame compares with the scene to find what to repaint; it routes
      pointer and keys, keeps the clipboard, the textures, the styles and the desktop lock, and paints
      the damaged rectangles into a framebuffer;
    - the pixels: the framebuffer with its clipped and blended shapes and texture copies
      (\<open>src/scene_fb.c\<close>), the bitmap font and the two ways to draw text (\<open>src/scene_font.c\<close>,
      \<open>src/scene_font_data.c\<close>), and the image files it reads and writes (\<open>src/scene_image.c\<close>);
    - the configuration of the shell and its theme files (\<open>src/scene_shell.c\<close>, \<open>src/scene_theme.c\<close>);
    - around the store: the loopback link between client and server (\<open>src/scene_transport.c\<close>) and
      the turn of the desktop loop over it (\<open>pump_shell\<close> of \<open>src/iso_drm.c\<close>), the desktop lock of
      the shell (\<open>src/scene_shell.c\<close>), the text buffer of the terminal (\<open>src/scene_terminal.c\<close>)
      and the glyph cache of the compositor (\<open>src/scene_fontcache.c\<close>).
  Client, server and store meet at four interfaces: the bytes on the wire (client to server and back), the calls of
  the server and the host into the store, the store's callback per node (walks), and the
  outbound queue that the server drains. The toolkit calls the client and is called back by it, the
  compositor reads the stores (walk, views, node at a point) and calls the servers with input.

  2. The theories, and how they correspond to the code.

  Every C function named below is a definition of the same name; a static helper keeps its
  name, a loop body or a branch that needed one has a name of its own, and the manifest gives
  the lines of each.
    - Prelude: widths (\<open>u8\<close>, \<open>u16\<close>, \<open>u32\<close>, \<open>u64\<close> are words, so arithmetic wraps as in C), memory as
      byte lists, the collections of rewrite rules. SceneFmt: the wire format and limits.
    - DynBuf: \<open>dynbuf\<close>, \<open>db_reserve\<close>, \<open>db_put\<close>. Emit: \<open>emit\<close> and the outbound queue, with
      the locale \<open>record_queue\<close>. IdMap: the hash table, with the locale \<open>id_table\<close>. Arena: nodes,
      slots, free list, links and the stackless walk. StoreState: \<open>struct scene_store\<close>.
    - Ops: \<open>op_create\<close> to \<open>op_focus_next\<close> and \<open>apply_op\<close>. Snapshot: \<open>snapshot_serialize\<close>
      and \<open>snapshot_restore\<close>. Replay: \<open>log_append\<close>, \<open>replay_build\<close>, \<open>scene_store_seek_to\<close>. Requests:
      snapshot, capture, search, region and node queries. Macros: recording, import, execution.
      Ingest: \<open>scene_store_ingest\<close>, a definition per opcode. Flow: input records and the
      one-outstanding gate.
    - Server, A11y, Rewind, Client: the files of the same names.
    - App: the toolkit; a window of the table is \<open>app_window\<close>, a record dispatched by the client runs
      the handlers at once (\<open>with_events\<close>). RenderModel: the state of the compositor, the render table,
      transitions and the diff of a layer (\<open>diff_cb\<close>, \<open>map_sweep\<close>). Framebuffer, Font: pixels and text;
      the pixels are a list, empty for \<open>NULL\<close>. Painting: a node, a phantom, a layer, the whole screen.
      Compositor: the operations and the frame. Image, Screenshot: the BMP and TGA loaders and the
      screenshot. Config: the configuration, its parser and the themes.
    - Launcher: \<open>src/scene_launcher.c\<close>, applications as processes that connect over TCP and become
      sessions, with the sockets of \<open>src/scene_transport.c\<close>; the callbacks are parameters, in LauncherHost
      those of \<open>src/iso_drm.c\<close>.
    - Forest (trees of ids and rows, written as lists), ArenaWf (when an arena is the memory of
      a forest: \<open>arena_rep\<close>), SceneInv (\<open>represents\<close>: a scene stands for a document),
      DestroyOp, CreateOp (the two operations that change the shape), DocSpec (the document and
      \<open>doc_op\<close>, the specification of every operation), OpsCorrect (each operation refines it).
    - SnapshotCorrect, Views, Search, Region (what the readers show, in terms of the document),
      Frames (a frame built is a frame accepted), Session (the state between two records),
      IngestOk, Reach (the step relation of a session and its reachable states), Mutation
      (\<open>ingest_all\<close>, \<open>doc_session\<close>, the locale \<open>simulation\<close>), FeedChunks (reassembly).
    - ReplayOk, DiffOk, RewindOk (history), Commands, ClientParse, EndToEnd (the client against
      the server), Bounds, Loopback (the link, with the locale \<open>byte_channel\<close>), ShellPump (the turn
      of the desktop loop), Lock, Terminal, FontCache, AppOk (what an application has sent builds
      its window table), RenderOk (the render table and the document), CompositorOk (frame, input and
      lock), FramebufferOk and FontOk (every drawing operation is a shader: a function from place and
      old colour to new colour, applied inside the clip), BlendOk (channels of a blend), ShapesOk (the shapes as
      distances in integers, and that the shaders draw them), PaintOk (the
      picture of a list of documents, and which part of it a repaint establishes), ScreenOk (the
      framebuffer shows the documents outside what is pending), ImageOk (the loaders on the files they
      accept, and on screenshots), ConfigOk (themes written are read back), LauncherOk (sessions and layers in step, under the contract
      of the callbacks, the locale \<open>launcher_host\<close>), LauncherHost (the runs, and what a connection gets), and
      Samples, DeskSamples and LauncherSamples (small concrete states on which the witnesses of the
      properties are computed).

  3. What is proved.

    - Functional refinement. A scene \<open>represents\<close> a document: an ordered forest of rows, a focus and
      the textures. \<open>operation_refines\<close> shows every scene-affecting opcode, on every
      branch, live and under replay, to be \<open>doc_op\<close> on the document, with the same records sent and the same
      error, except for a CREATE of id 0 and, under replay, of a live node;
      \<open>session_refines\<close> lifts it to sequences of records; \<open>end_to_end\<close> carries it from the calls
      of the client through the bytes and the reassembly to the document of the server, and
      \<open>desktop_turn\<close> through one turn of the loop that runs both over the loopback.
    - Invariants. \<open>reachable_invariant\<close>: every state a session reaches by records, host calls and
      queue reads, without a CREATE of the node id 0, is well formed (the arena is a forest, the id table agrees
      with it, the free list holds the rest). \<open>session_only_grows\<close>: the queue is first in, first out along
      all such runs, and the log is only appended to.
    - Errors and guards: the outcome of a record by its verdict, out-of-order records, the
      independence of a record from the memory after its payload, the acknowledgement gate.
    - Reading: dumps, parsing of a dump, the walk, node views, hits of a search, the node under a
      point, the accessibility queries, the ring of focusable nodes.
    - History: replay leaves the live scene alone; in a fresh session of fewer than 4096 accepted records
      without textures, seeking to a moment shows the document of that moment, and the difference of two
      moments is the difference of the documents.
    - Desktop. \<open>app_shows_its_windows\<close>: the commands in an application's log are accepted and build
      the window table of the toolkit, after any calls on windows (\<open>app_op\<close>) and any input
      (\<open>window_table_typed\<close> is its
      invariant). \<open>diff_tracks_document\<close>: the diff brings the render table from one document to the
      next, if the nodes fit without growth or the probe chains are unbroken. \<open>frame_shows_documents\<close> lifts it
      to the pixels, with effects off and no change the diff does not look at: a
      frame that repaints only what is damaged leaves what repainting everything would.
      \<open>full_frame_shows_documents\<close> is the same for a frame that repaints everything, with effects off, and \<open>look_changes_pending\<close> keeps
      the framebuffer right outside the pending rectangles when styles and textures change.
      \<open>shapes_exact\<close> and \<open>blending_stays_in_channels\<close> are the drawing operations under it, against
      shapes and blends defined in integers.
      \<open>locked_input_to_shell\<close> and \<open>pointer_to_topmost\<close>: where input goes.
    - Around the store: a locked desktop opens only to an accepted password, the terminal is a
      tape of lines up to line 1024, the glyph cache is transparent.
    - Launched applications. \<open>launcher_keeps_sessions\<close>: the layers above the shell are the servers of the
      joined sessions in every reachable state; \<open>each_session_served\<close>: each from its own connection only;
      \<open>violating_session_dropped\<close> and \<open>short_send_tears_stream\<close>: what a connection does not get.
    - Files. \<open>screenshot_round_trip\<close>, \<open>tga_packets_decode\<close> and \<open>theme_round_trip\<close>: what is written is
      read back, whatever the padding of rows and the division into packets; a theme if its list of
      applications fits into a line.
    - Bytes: framing, chunking, corruption of a byte, the queue as a FIFO, the id table as
      a map, the buffer.

  4. Bounds and fuel.

    - \<open>dfs_loop\<close> runs with fuel \<open>2 * n + 1\<close> for \<open>n\<close> slots: every node of a forest is entered once
      and left once. \<open>destroy_loop\<close> and the sibling loops have the capacity of the arena as fuel: a
      chain of siblings repeats no slot. The lemmas of Forest and ArenaWf prove that on a well
      formed arena the fuel does not run out.
    - Probing in the id table has the capacity as fuel: the load bound leaves a free cell,
      so the probe ends (IdMap). \<open>db_grow\<close> takes fuel too, and \<open>buffer_append_diverges\<close> shows that
      no fuel is enough above \<open>2 ^ 31\<close>, as the code does not end there.
    - \<open>fifo_grow\<close> is a partial function: where the code's loop does not end it is \<open>None\<close>. So is the
      terminal's \<open>rows_loop\<close>, which always ends, if need be by the overflow of \<open>int32_t\<close>
      (\<open>wrap32\<close>); \<open>terminal_is_tape\<close> holds for lines numbered below \<open>2 ^ 31\<close>. \<open>fc_insert\<close> recurses at most once in the code, and has fuel 2.
    - \<open>copy_text\<close>, the walk from the focus towards the root, has the capacity of the arena as fuel.
      The damage theorems hold for rectangles within \<open>2 ^ 30\<close> of the origin (\<open>tame\<close>), where no sum wraps,
      and the pixel theorems for a framebuffer with sides below \<open>2 ^ 30\<close> (\<open>fb_ok\<close>) and such a clip
      (\<open>clip_ok\<close>). \<open>sqrt_loop\<close>, the integer root of the corner inset, ends by its measure.
    - A limit of \<open>2 ^ 32 - 16\<close> bytes or more for a record, at which the total of a frame wraps in the
      code, is outside the model of the two receiving loops.
    - The loops over texts, log records and frames recurse on what is left of their input.

  5. Modelling decisions.

    - Memory allocation succeeds. A buffer of the store is the list of its bytes; DynBuf models the
      growth itself at 32 bits and shows when the list is right.
    - A record reaches an operation as a memory (a byte list) with a length word: reads beyond the
      length are visible in the model. Uninitialised cells are the argument \<open>st_heap\<close>.
    - A socket holds the results of the coming calls of \<open>recv\<close> and \<open>send\<close>, so a theorem about all sockets is
      one about all behaviours of the network in which a pump meets finitely many bytes.
    - The clock is an argument. The transport's send and receive, the importer of textures and the
      visitors are function arguments; the callbacks of the client are events in a list.
    - The framebuffer is the field \<open>cp_fb\<close> of the compositor, toasts go to the list \<open>cp_toasts\<close>, and
      the glyph lookup is the function \<open>cp_fc_glyph\<close>; a session is known by its address \<open>ly_ref\<close>.
    - \<open>qsort\<close> is \<open>sort_key\<close>: the keys compared are distinct ids.

  6. Findings.

  \<open>texture_blocks_replay\<close> (a session that sets a texture cannot be replayed from its start),
  \<open>destroy_leaves_focus\<close> (a destroyed subtree keeps the focus), \<open>buffer_append_diverges\<close> (the
  doubling loop does not end), \<open>id_zero_lost_in_growth\<close> (id 0 can vanish when the table grows),
  \<open>terminal_is_tape\<close> (on the first character beyond line 1024 a terminal counts to the overflow and reads outside its lines);
  \<open>sweep_breaks_chain\<close> (removing a node hides another one of the render table),
  \<open>chrome_above_screen_unfilled\<close> (a rounded window reaching above the screen loses its fill),
  \<open>violating_session_dropped\<close> (the ERROR record never reaches an application that is dropped) and
  \<open>short_send_tears_stream\<close> (a full socket tears the stream); others are in the manifest.

  7. Not modelled.

  The blocking listener and the opening of TCP connections, starting processes, the display and Wayland glue, the glyph rasteriser, video,
  wallpaper, the vendored image decoder and the applications of the live image are input and output or drawing, with no
  contract of the store's own. Of the terminal, the child process and the cursor node are left out, of
  the desktop loop everything but \<open>pump_shell\<close>, of the shell
  everything but the lock and the configuration. The browser and the settings window are
  not modelled. What an importer puts into the compositor while a session is served is not modelled, nor
  that a session may send without end, which keeps the pump reading.
\<close>

section \<open>The whole path\<close>

text \<open>C1. From the calls of a client to the document of the server. Commands issued on a ready
  client, written to the wire and fed to the server, leave the server's store representing the
  document the commands specify, with the verdict and the records of the specification: the
  frames are built, reassembled, validated, decoded and applied as they were meant.\<close>

theorem end_to_end:
  assumes "ready c" "cl_out c = []" "list_all (sendable c) cmds" "cmds \<noteq> []"
    and "accepting sv" "pending_in sv = []" "cl_next_seq c = st_next_seq (sv_store sv)"
    and "represents (st_live (sv_store sv)) d" "\<not> st_dead (sv_store sv)"
      "st_mode (sv_store sv) \<noteq> SCENE_MODE_REPLAY"
    and "list_all (fits (st_lim (sv_store sv))) cmds"
    and "command_session (env_of (live_ctx (sv_store sv) True)) (cl_next_seq c) d cmds = (res, d', rs)"
    and "issue_all cmds c = (r, c')" "length (cl_out c') < 2 ^ 32"
    and "feed cb clk sv (cl_out c') = (r', sv')"
  shows "r = 0 \<and> r' = status_code res \<and> represents (st_live (sv_store sv')) d' \<and>
    st_out (sv_store sv') = emit_all (st_out (sv_store sv)) rs"
  using assms by (rule client_to_document)

theorem end_to_end_witness:
  "represents (st_live (sv_store (snd (feed None (\<lambda>_. 0) (scene_server_new None 0 (\<lambda>_. zero_node))
      (cl_out (snd (issue_all [demo_command] demo_client))))))) panel_doc"
proof -
  let ?sv = "scene_server_new None 0 (\<lambda>_. zero_node)"
  have store: "sv_store ?sv = demo_new" by (simp add: scene_server_new_def demo_new_def)
  have fits: "list_all (fits scene_default_limits) [demo_command]"
    by (simp add: fits_def demo_command_def scene_default_limits_def)
  have out: "length (cl_out (snd (issue_all [demo_command] demo_client))) < 2 ^ 32"
    using issue_all_frames [of demo_client "[demo_command]"] demo_client
    by (auto simp: wire_op_def demo_command_def)
  show ?thesis
    using end_to_end [of demo_client "[demo_command]" ?sv empty_doc OpOk panel_doc "[]",
        OF _ _ _ _ _ _ _ _ _ _ _ _ surjective_pairing _ surjective_pairing, of None "\<lambda>_. 0"]
      demo_client fits out demo_command_session
    by (simp add: store demo_new_sel demo_env)
      (simp add: accepting_def in_ok_def pending_in_def scene_server_new_def)
qed

text \<open>C2. One turn of the desktop loop. With commands issued on the client and an idle loopback, the turn
  returns: the commands go through the link in reads of 16384 bytes, the server ends up with the
  document they specify and an empty queue, and every record of the server, those it still
  had and those of the commands, is in the link behind what was there, of which the client
  takes one batch of 4096 bytes.\<close>

theorem desktop_turn:
  assumes "ready c" "cl_out c = []" "list_all (sendable c) cmds" "cmds \<noteq> []"
    and "accepting sv" "pending_in sv = []" "cl_next_seq c = st_next_seq (sv_store sv)"
    and "represents (st_live (sv_store sv)) d" "\<not> st_dead (sv_store sv)"
      "st_mode (sv_store sv) \<noteq> SCENE_MODE_REPLAY"
    and "list_all (fits (st_lim (sv_store sv))) cmds"
    and "command_session (env_of (live_ctx (sv_store sv) True)) (cl_next_seq c) d cmds = (OpOk, d', rs)"
    and "issue_all cmds c = (r, c')"
    and "fifo_ok n (lb_a2b lb)" "fifo_content (lb_a2b lb) = []" "length (cl_out c') \<le> n"
    and "pending (st_out (sv_store sv)) rs0" "list_all record_ok rs"
    and "fifo_ok m (lb_b2a lb)" "length (record_bytes (rs0 @ rs)) \<le> m"
    and "inp = fifo_content (lb_b2a lb) @ record_bytes (rs0 @ rs)"
  shows "\<exists>lb' sv'. pump_shell cb clk lb c' sv = Some (lb', snd (scene_client_pump (\<lambda>_. True) (batch_of inp)
        (c'\<lparr>cl_wire := cl_wire c' @ cl_out c', cl_out := []\<rparr>)), sv') \<and>
      represents (st_live (sv_store sv')) d' \<and> st_out (sv_store sv') = oq_empty \<and>
      fifo_content (lb_a2b lb') = [] \<and> fifo_content (lb_b2a lb') = drop 4096 inp"
  using assms by (rule pump_shell_delivers)

theorem desktop_turn_witness:
  "\<exists>lb' c' sv'. pump_shell None (\<lambda>_. 0) scene_loopback_new (snd (issue_all [demo_command] demo_client))
      (scene_server_new None 0 (\<lambda>_. zero_node)) = Some (lb', c', sv') \<and>
    represents (st_live (sv_store sv')) panel_doc"
proof -
  let ?sv = "scene_server_new None 0 (\<lambda>_. zero_node)" and ?c = "snd (issue_all [demo_command] demo_client)"
  have store: "sv_store ?sv = demo_new" by (simp add: scene_server_new_def demo_new_def)
  have fits: "list_all (fits scene_default_limits) [demo_command]"
    by (simp add: fits_def demo_command_def scene_default_limits_def)
  have out: "length (cl_out ?c) \<le> 2 ^ 31"
    using issue_all_frames [of demo_client "[demo_command]"] demo_client
    by (auto simp: wire_op_def demo_command_def)
  have lb: "fifo_ok (2 ^ 31) (lb_a2b scene_loopback_new)" "fifo_ok (2 ^ 31) (lb_b2a scene_loopback_new)"
    "fifo_content (lb_a2b scene_loopback_new) = []"
    by (simp_all add: scene_loopback_new_def fifo_ok_empty) (simp add: fifo_content_def fifo_empty_def)
  show ?thesis
    using desktop_turn [of demo_client "[demo_command]" ?sv empty_doc panel_doc "[]",
        OF _ _ _ _ _ _ _ _ _ _ _ _ surjective_pairing lb(1,3) out _ _ lb(2) _ refl, of "[]"]
      demo_client fits demo_command_session
    by (simp add: store demo_new_sel demo_env pending_empty record_bytes_def)
      (simp add: accepting_def in_ok_def pending_in_def scene_server_new_def, blast)
qed

text \<open>C3. Reconnecting. When the server still holds the session, the WELCOME makes the client send
  every scene-affecting command of its log again, in order, numbered on from the last record it
  sent, and the log itself stays as it is.\<close>

theorem reconnect_replays_log:
  assumes "cl_conn_open c" "\<not> cl_welcomed c" "cl_had_session c" "cl_out c = []"
    and "cl_log c = map logged_command cmds" "cmds \<noteq> []"
    and "scene_get_u32 p 0 = cl_prev_scene_id c" "scene_get_u16 p 4 = SCENE_PROTOCOL_V0"
    and "\<And>m. send m"
  shows "ready (dispatch_welcome send c p 30) \<and>
    cl_wire (dispatch_welcome send c p 30) = cl_wire c @ frames_of (wire_ops (cl_sent_seq c + 1) cmds) \<and>
    cl_out (dispatch_welcome send c p 30) = [] \<and>
    cl_log (dispatch_welcome send c p 30) = cl_log c"
  using assms by (rule reconnect_resends)

theorem reconnect_replays_log_witness:
  "cl_wire (dispatch_welcome (\<lambda>_. True) (scene_client_new\<lparr>cl_conn_open := True, cl_had_session := True,
       cl_sent_seq := 9, cl_log := [logged_command demo_command]\<rparr>) (replicate 30 0) 30) =
     frames_of (wire_ops 10 [demo_command])"
proof -
  let ?c = "scene_client_new\<lparr>cl_conn_open := True, cl_had_session := True, cl_sent_seq := 9,
      cl_log := [logged_command demo_command]\<rparr>"
  have "scene_get_u32 (replicate 30 0) 0 = 0" "scene_get_u16 (replicate 30 0) 4 = 0" by code_simp+
  then show ?thesis
    using reconnect_replays_log [of ?c "[demo_command]" "replicate 30 0" "\<lambda>_. True"]
    by (simp add: scene_client_new_def)
qed

section \<open>Applications and the desktop\<close>

text \<open>C4. An application's windows are what it has sent. Whatever windows an application creates, destroys,
  retitles, resizes, minimises and maximises, presents and acknowledgements between, with window
  management on or off (\<open>app_op\<close>), and whatever input comes to it in between, the commands in its log
  are accepted one after the other by a session that starts empty, and leave it showing the window
  table of the toolkit: one frame of seven nodes per window in the order of the table, every node at the
  place the table gives. The calls by which an application changes nodes itself
  (\<open>scene_app_set_rect\<close>, \<open>scene_app_set_text\<close>, \<open>scene_app_set_flags\<close>, \<open>scene_app_set_texture\<close>) are
  not among them: they can move a node of a window away from its place.\<close>

theorem app_shows_its_windows:
  assumes "scene_app_new_on True = Some a0"
    and "ready c" "cl_log c = []" "desk_limits (cl_lim c)" "ev_lim e = cl_lim c"
    and "list_all app_op_ok ops" "length ops < 2 ^ 28"
    and "app_run ops (a0\<lparr>ap_cl := c\<rparr>) = a"
  shows "ready (ap_cl a) \<and> (\<exists>cmds d rs. cl_log (ap_cl a) = map logged_command cmds \<and> list_all (sendable c) cmds \<and>
    command_session e n empty_doc cmds = (OpOk, d, rs) \<and> shows_windows (app_wins a) d)"
  using assms by (rule app_run_shows)

theorem app_shows_its_windows_witness:
  "\<exists>cmds d rs. cl_log (ap_cl demo_app) = map logged_command cmds \<and>
     command_session demo_env 1 empty_doc cmds = (OpOk, d, rs) \<and> shows_windows [demo_win] d"
  using app_shows_its_windows [OF demo_app0 demo_client(1) demo_client_more demo_calls demo_app_def [symmetric], of 1]
  unfolding demo_app(1) by blast

text \<open>C5. Every state an application reaches has a well-formed window table: at most 64 windows, the
  ids of their nodes all different, from 40000 up, and below the next id to be given out.\<close>

theorem window_table_typed:
  assumes "scene_app_new_on True = Some a0" "list_all app_op_ok ops" "length ops < 2 ^ 28"
  shows "wins_ok (app_run ops (a0\<lparr>ap_cl := c\<rparr>))"
  using new_app_ok [OF assms(1), of c] assms(2,3) by (intro app_run_draws [THEN conjunct2]) simp_all

theorem window_table_typed_witness: "wins_ok demo_app"
  unfolding demo_app_def using demo_app0 demo_calls by (rule window_table_typed)

text \<open>C6. A drag depends on its last motion only: after any number of pointer motions with the button
  down, the dragged window is where the last one puts it relative to the start of the drag, or has
  the size the last one gives it with the least size as bound, and no other window has changed.\<close>

theorem drag_depends_on_last_motion:
  assumes "wins_ok a" "ap_wm_drag a" "find_window a (ap_wm_content a) = Some i" "ms \<noteq> []"
  shows "ap_slots (drag_motions ms a) = (ap_slots a)[i := dragged a (ap_slots a ! i) (fst (last ms)) (snd (last ms))]"
  using assms by (rule drag_ends_at)

theorem drag_depends_on_last_motion_witness:
  "ap_slots (drag_motions [(500, 600), (120, 45)] demo_drag) ! 0 = demo_win\<lparr>aw_x := 60, aw_y := 35\<rparr>"
  using drag_depends_on_last_motion [OF demo_drag(1-3), of "[(500, 600), (120, 45)]"] demo_drag
  by (simp add: dragged_def placed_def demo_win_def)



text \<open>C8. With effects switched off (\<open>showing\<close>), a frame that repaints everything, because it was asked to or
  because an application died, shows the documents of the layers that are left, whatever the
  framebuffer held before and whatever changed since the last frame. With effects on, as the shipped
  desktops have them, a frame also shows nodes that are leaving, and entering ones off their place.\<close>

theorem full_frame_shows_documents:
  assumes "repaint_ready cp ds" "scene_compositor_frame cp = (r, cp')"
  shows "r = 0 \<and> matches cp' ds \<and> fb_real (cp_fb cp') \<and> showing cp' ds \<and> repaint_all cp' (cp_fb cp') = cp_fb cp'"
  using assms by (rule full_frame_picture)

theorem full_frame_shows_documents_witness:
  "fst (scene_compositor_frame (demo_desk\<lparr>cp_force := True\<rparr>)) = 0 \<and>
    matches (snd (scene_compositor_frame (demo_desk\<lparr>cp_force := True\<rparr>))) (\<lambda>_. demo_doc)"
  using full_frame_shows_documents [OF demo_forced_ready surjective_pairing] by simp



text \<open>C10. Each drawing operation draws its shape, given by distances in integers: inside the clip each pixel of
  the shape becomes the blend of the colour with its own old colour, byte by byte the sum weighted by alpha and
  divided by 255, and every other pixel stays. A fill covers the rectangle. A stroke covers the pixels closer than the
  width of the border to an edge, once for each such edge. A rounded fill covers the depths inside the quarter circles
  of its corners. Chrome covers with the fill the shape that lies deeper by the width of the border, its corners
  smaller by as much, and with the border the rest of the rounded shape. A texture copy puts the texel over the pixel, opaque or
  premultiplied; bitmap text covers the set bits of the cells. The conditions: the rectangle is not empty, within \<open>2 ^ 30\<close>
  of the origin and not narrower than the border, and rounded chrome does not begin further above the screen than the
  width of the border; the line of text is within \<open>2 ^ 30\<close> too.\<close>

theorem shapes_exact:
  assumes "fb_ok fb" "clip_ok clip" "tame r" "0 < sint (rw r)" "0 < sint (rh r)"
    and "uint bw \<le> sint (rw r)" "uint bw \<le> sint (rh r)" "radius = 0 \<or> 0 \<le> sint (ry r) + uint bw"
    and "- (2 ^ 30) \<le> sint tx" "sint tx + 8 * int (length s) < 2 ^ 30" "- (2 ^ 30) \<le> sint ty" "sint ty + 8 < 2 ^ 30"
  shows "drawn fb (scene_fb_fill_a fb r color alpha clip) (clipped clip (fill_shape r color alpha)) \<and>
    drawn fb (scene_fb_stroke_a fb r color bw alpha clip) (clipped clip (stroke_shape r color (uint bw) alpha)) \<and>
    drawn fb (scene_fb_fill_round fb r color radius alpha clip) (clipped clip (round_shape r color radius alpha)) \<and>
    drawn fb (scene_fb_chrome_round fb r radius bw color border alpha clip) (clipped clip (chrome_shape r radius bw color border alpha)) \<and>
    drawn fb (scene_fb_blit fb dx dy src sw sh rc opacity fmt clip) (clipped clip (blit_shape dx dy src sw sh rc opacity fmt)) \<and>
    drawn fb (scene_font_draw_a fb tx ty s color alpha clip) (clipped clip (text_shape tx ty s color alpha))"
proof (intro conjI)
  note D = shape_drawn [OF _ assms(1,2)]
  show "drawn fb (scene_fb_fill_a fb r color alpha clip) (clipped clip (fill_shape r color alpha))"
    by (rule D [OF fill_a_shader]) (simp add: fill_shape_px)
  show "drawn fb (scene_fb_stroke_a fb r color bw alpha clip) (clipped clip (stroke_shape r color (uint bw) alpha))"
    by (rule D [OF stroke_a_shader]) (rule stroke_shape_px [OF assms(3,6,7)])
  show "drawn fb (scene_fb_fill_round fb r color radius alpha clip) (clipped clip (round_shape r color radius alpha))"
    by (rule D [OF fill_round_shader]) (rule round_shape_px [OF assms(3,4,5)])
  show "drawn fb (scene_fb_chrome_round fb r radius bw color border alpha clip) (clipped clip (chrome_shape r radius bw color border alpha))"
    by (rule D [OF chrome_round_shader]) (rule chrome_shape_px [OF assms(3,4,5)], use assms(6,7,8) in auto)
  show "drawn fb (scene_fb_blit fb dx dy src sw sh rc opacity fmt clip) (clipped clip (blit_shape dx dy src sw sh rc opacity fmt))"
    by (rule D [OF blit_shader]) (rule blit_shape_px)
  show "drawn fb (scene_font_draw_a fb tx ty s color alpha clip) (clipped clip (text_shape tx ty s color alpha))"
    by (rule D [OF draw_a_shader]) (rule text_shape_px [OF assms(9-12)])
qed

theorem shapes_exact_witness:
  "let fb = scene_fb_chrome_round (cp_fb demo_desk) \<lparr>rx = 10, ry = 10, rw = 20, rh = 20\<rparr> 6 2 0xFF202020 0xFF404040 255 None
   in px_at fb 10 10 = px_at (cp_fb demo_desk) 10 10 \<and> px_at fb 20 11 = 0xFF404040 \<and> px_at fb 20 12 = 0xFF202020"
proof -
  let ?r = "\<lparr>rx = 10, ry = 10, rw = 20, rh = 20\<rparr>" and ?fb = "cp_fb demo_desk"
  have fb: "fb_ok ?fb" "clip_ok None" "in_fb ?fb 10 10" "in_fb ?fb 20 11" "in_fb ?fb 20 12"
    using demo_desk_fields(7) demo_size by (simp_all add: fb_real_def clip_ok_def in_fb_def)
  have "drawn ?fb (scene_fb_chrome_round ?fb ?r 6 2 0xFF202020 0xFF404040 255 None)
      (clipped None (chrome_shape ?r 6 2 0xFF202020 0xFF404040 255))"
    using shapes_exact [OF fb(1,2), of ?r 2 6 0 "[65]" 0] by (simp add: tame_def)
  then show ?thesis using fb(3-5)
    by (simp add: drawn_def clipped_def clip_has_def chrome_shape_def corner_def depth_def rounded_def mixed_def Let_def)
qed

text \<open>C11. Blending stays in the channels: with an alpha of at most 255 each channel of a blend lies between
  those of the two colours, and composing a premultiplied colour over a premultiplied one gives a
  premultiplied colour whose channels are the sums of the weighted ones, without a carry into the next
  channel.\<close>

theorem blending_stays_in_channels:
  assumes "alpha \<le> 255"
  shows "(\<forall>n \<in> {0, 8, 16, 24}. min (chan n color) (chan n dc) \<le> chan n (blend_a color alpha dc) \<and>
       chan n (blend_a color alpha dc) \<le> max (chan n color) (chan n dc)) \<and>
    (premul color \<and> premul dc \<longrightarrow> premul (blend_over color alpha dc) \<and>
       (\<forall>n \<in> {0, 8, 16, 24}. chan n (blend_over color alpha dc) =
          over alpha (255 - chan 24 color * alpha div 255) (chan n color) (chan n dc)))"
  using mix_between [OF assms chan_less chan_less] blend_a_channels [OF assms] blend_over_channels [OF assms]
  by (metis (no_types, lifting))

theorem blending_stays_in_channels_witness:
  "premul (blend_over 0x80402010 200 0xFF336699)"
proof -
  have "premul 0x80402010" "premul 0xFF336699" by (simp_all add: premul_def chan_def)
  then show ?thesis using blending_stays_in_channels [of 200 "0x80402010" "0xFF336699"] by simp
qed

text \<open>A rounded shape whose inner part begins above the screen loses its fill: the comparison of the row
  with the top of the inner part is unsigned, so a negative top lies below every row, and every visible
  pixel of the shape gets the colour of the border.\<close>

theorem chrome_above_screen_unfilled:
  assumes "clip_ok clip" "fb_ok fb" "0 < sint (rw r)" "0 < sint (rh r)" "radius \<noteq> 0" "bw \<noteq> 0" "cap_radius r radius \<noteq> 0"
    and "sint (ry r + ucast bw) < 0"
  shows "drawn fb (scene_fb_chrome_round fb r radius bw fill border alpha clip)
    (\<lambda>x y c. if clip_has clip x y \<and> within r x y \<and> chrome_outer r (cap_radius r radius) (of_nat y) (of_nat x)
              then blend_to border alpha c else c)"
  using assms by (rule chrome_above)

theorem chrome_above_screen_unfilled_witness:
  "px_at (scene_fb_chrome_round (cp_fb demo_desk) \<lparr>rx = 10, ry = - 20, rw = 100, rh = 60\<rparr> 8 1 0xFF202020 0xFF404040 255 None) 50 10 = 0xFF404040"
proof -
  let ?r = "\<lparr>rx = 10, ry = - 20, rw = 100, rh = 60\<rparr>" and ?fb = "cp_fb demo_desk"
  have fb: "fb_ok ?fb" "clip_ok None" "in_fb ?fb 50 10" using demo_desk_fields(7) demo_size by (simp_all add: fb_real_def clip_ok_def)
  have "drawn ?fb (scene_fb_chrome_round ?fb ?r 8 1 0xFF202020 0xFF404040 255 None)
      (\<lambda>x y c. if clip_has None x y \<and> within ?r x y \<and> chrome_outer ?r (cap_radius ?r 8) (of_nat y) (of_nat x)
              then blend_to 0xFF404040 255 c else c)"
    by (rule chrome_above_screen_unfilled [OF fb(2,1)]) (simp_all add: cap_radius_def)
  moreover have "within ?r 50 10" by (simp add: within_def)
  moreover have "chrome_outer ?r (cap_radius ?r 8) (of_nat 10) (of_nat 50)"
    by (simp add: chrome_outer_def cap_radius_def rcorner_inset_def edge_dist_def)
  ultimately show ?thesis using fb(3) by (simp add: drawn_def clip_has_def blend_to_def)
qed

text \<open>A frame repaints what changed. At a frame of a compositor whose render models are those of the
  documents \<open>d1\<close>, every pixel at which a node of a visible layer appeared, disappeared or changed, and
  every pixel pending, is in a rectangle of the damage list, which is painted and reported to the display;
  and the models become those of what the sessions show now.\<close>

theorem frame_repaints_changes:
  assumes "frame_ready cp d1 d2" "scene_compositor_frame cp = (r, cp')"
  shows "r = 0 \<and>
    (\<forall>i. live_layer cp i \<longrightarrow> synced (cp_ly cp' ! i) (d2 i) \<and>
       (\<forall>x y. shows_change (d1 i) (d2 i) x y \<or> covered (cp_pending cp) x y \<longrightarrow> covered (cp_damage cp') x y))"
  using assms by (rule frame_ok)

theorem frame_repaints_changes_witness:
  "covered (cp_damage (snd (scene_compositor_frame demo_desk))) 5 5"
proof -
  have "live_layer demo_desk 0" using demo_frame_ready by (simp add: frame_ready_def)
  then show ?thesis
    using frame_repaints_changes [OF demo_frame_ready surjective_pairing] demo_change by blast
qed



text \<open>C13. A locked desktop keeps its input to itself: from the moment it is locked, whatever the pointer
  and the keyboard do, chords of the clipboard and grabbed keys included, no application's session
  changes, the desktop stays locked and the shell keeps the focus.\<close>

theorem locked_input_to_shell:
  assumes "\<not> cp_locked cp" "0 < i" "i < length (cp_ly cp)"
    and "cp' = foldl input_step (scene_compositor_set_locked True cp) es"
  shows "ly_sv (cp_ly cp' ! i) = ly_sv (cp_ly cp ! i) \<and> cp_locked cp' \<and> cp_focus_layer cp' = 0"
  using assms by (rule locked_input)

theorem locked_input_to_shell_witness:
  "ly_sv (cp_ly (foldl input_step (scene_compositor_set_locked True demo_desk2)
      [PointerEv 1 0 5 5 1, KeyEv 2 30 1 0, KeyEv 3 47 1 8]) ! 1) = demo_server"
  using locked_input_to_shell [OF demo_flags(1) _ _ refl, where i = 1 and
      es = "[PointerEv 1 0 5 5 1, KeyEv 2 30 1 0, KeyEv 3 47 1 8]"]
  by (simp add: demo_layer layer_init_def del: input_step.simps)

text \<open>C14. A pointer event goes to the topmost live session that has a node at the point, and to no
  other; that session gets the keyboard, so a key that is neither a clipboard chord nor grabbed goes to
  it as well.\<close>

theorem pointer_to_topmost:
  assumes "on_top cp d x y i" "\<not> cp_locked cp" "plain_key cp code state mods"
    and "scene_compositor_input_pointer now cp dev x y buttons = (r, cp1)"
    and "scene_compositor_input_key now' cp1 code state mods = (r', cp2)"
  shows "cp_focus_layer cp2 = i \<and>
    (r, ly_sv (cp_ly cp1 ! i)) = scene_server_input_pointer (ly_sv (cp_ly cp ! i)) now dev x y buttons \<and>
    (r', ly_sv (cp_ly cp2 ! i)) = scene_server_input_key (ly_sv (cp_ly cp1 ! i)) now' code state mods \<and>
    (\<forall>j. j \<noteq> i \<longrightarrow> cp_ly cp2 ! j = cp_ly cp ! j)"
  using assms by (rule pointer_then_key)

theorem pointer_to_topmost_witness:
  "let cp1 = snd (scene_compositor_input_pointer 1 demo_desk2 0 5 5 1);
       cp2 = snd (scene_compositor_input_key 2 cp1 30 1 0)
   in cp_focus_layer cp2 = 1 \<and> cp_ly cp2 ! 0 = layer_init 0 demo_server"
proof -
  have "plain_key demo_desk2 30 1 0" by (simp add: plain_key_def grab_index_def demo_flags upt_rec)
  from pointer_to_topmost [OF demo_on_top demo_flags(1) this surjective_pairing surjective_pairing,
      where now = 1 and dev = 0 and buttons = 1 and now' = 2]
  show ?thesis by (simp add: Let_def demo_layer)
qed

section \<open>Sessions\<close>

text \<open>C15. The scene store implements the protocol. A client's mutation records, one after the
  other in sequence, leave the store in a state that represents the document the
  specification computes from them, with the same verdict, and with exactly the records of
  the specification, in order, on the outbound queue; the first rejected record ends the
  session with an ERROR record.\<close>

theorem session_refines:
  assumes "represents (st_live s) d" "\<not> st_dead s" "st_mode s \<noteq> SCENE_MODE_REPLAY"
    and "in_sequence (st_lim s) (st_next_seq s) ops"
    and "doc_session (env_of (live_ctx s True)) d ops = (st, d', rs)"
    and "ingest_all s now ops = (rc, s')"
  shows "rc = status_code st \<and> represents (st_live s') d' \<and> st_out s' = emit_all (st_out s) rs \<and>
         (st_dead s' \<longleftrightarrow> st \<noteq> OpOk)"
  using ingest_all_refines [OF assms] by blast

theorem session_refines_witness:
  "fst (ingest_all demo_new 0 demo_ops) = 0 \<and> represents (st_live demo_store) demo_doc \<and>
   st_out demo_store = emit_all oq_empty demo_records \<and> \<not> st_dead demo_store"
  using session_refines [of demo_new empty_doc demo_ops OpOk demo_doc demo_records 0
      "fst (ingest_all demo_new 0 demo_ops)" demo_store]
  by (simp add: demo_new_sel demo_env demo_session demo_in_sequence demo_store_def status_code_def)

text \<open>C16. Every operation on the arena of nodes implements the operation on documents, for
  every payload: the same verdict, a scene that represents the new document, the same
  records, and nothing else of the session changed; live as well as under replay. Two cases of CREATE are left
  out: the id 0, which the id table of the code can lose, and under replay the id of a node that is
  alive, which is refused live, so that no log holds it.\<close>

theorem operation_refines:
  assumes "represents (ac_scene a) d"
    and "opcode = SCENE_OP_CREATE_NODE \<Longrightarrow> ac_replay a \<Longrightarrow> \<not> doc_live d (scene_get_u32 p 12)"
    and "opcode = SCENE_OP_CREATE_NODE \<Longrightarrow> scene_get_u32 p 12 \<noteq> 0"
  shows "implements a (apply_op a opcode p plen) (doc_op (env_of a) opcode p plen d)"
  using assms by (rule apply_op_refines_replay)

theorem operation_refines_witness:
  "implements (live_ctx demo_new True) (apply_op (live_ctx demo_new True) SCENE_OP_CREATE_NODE demo_panel 35)
     (OpOk, panel_doc, [])"
  using operation_refines [of "live_ctx demo_new True" empty_doc SCENE_OP_CREATE_NODE demo_panel 35]
  by (simp add: demo_env demo_create_panel demo_fields) (simp add: live_ctx_def demo_new_sel)

text \<open>C17. Every state a session can reach, by any sequence of calls of the interface of the
  store among which no CREATE names the node id 0, satisfies the invariant: the nodes form a forest linked through the arena, the
  free list is disjoint from it, the id table holds exactly the nodes of the forest, live
  nodes have live parents, and recorded macros are well formed.\<close>

theorem reachable_invariant:
  assumes "reachable s"
  shows "store_inv s"
  using assms by (rule step_sound(2))

theorem reachable_invariant_witness: "store_inv demo_store"
  by (rule reachable_invariant [OF demo_reachable])

text \<open>C18. What was sent and what was logged is never taken back. Along any run of calls of the
  interface, drains of the outbound queue among them and no CREATE of the node id 0, the bytes handed
  out followed by those still queued are the bytes queued at the start followed by whole frames; the log
  is only appended to, the limits do not change and a dead session stays dead.\<close>

theorem session_only_grows:
  assumes "reachable s" "session_run s taken s'"
  shows "(\<exists>rs. taken @ queued s' = queued s @ concat (map (\<lambda>(opc, p). scene_frame opc p) rs)) \<and>
         (\<exists>l. st_log s' = st_log s @ l) \<and> st_lim s' = st_lim s \<and> (st_dead s \<longrightarrow> st_dead s')"
  using run_fifo [OF assms(2) step_sound(2) [OF assms(1)] reachable_off_ok(2) [OF assms(1)]]
  by (simp add: fifo_def)

theorem session_only_grows_witness:
  "\<exists>f s' rs. scene_store_out_next_frame (scene_store_welcome demo_store) = (Some f, s') \<and>
     f @ queued s' = queued demo_store @ concat (map (\<lambda>(opc, p). scene_frame opc p) rs)"
proof -
  let ?w = "scene_store_welcome demo_store"
  obtain f s' where f: "scene_store_out_next_frame ?w = (Some f, s')"
    using demo_greeted by blast
  have "session_run demo_store ([] @ f) s'"
    by (rule session_run.take_frame [OF session_run.call [OF session_run.start greet] f])
  from session_only_grows [OF demo_reachable this] f show ?thesis by auto
qed



text \<open>A record out of sequence ends the session with one ERROR record, and changes neither the
  scene nor the log nor the sequence.\<close>

theorem out_of_sequence_rejected:
  assumes "\<not> st_dead s" "plen \<le> max_record_length (st_lim s)" "opcode \<noteq> SCENE_OP_ACK" "8 \<le> plen"
    "scene_get_u64 p 0 \<noteq> st_next_seq s"
  shows "scene_store_ingest s now opcode p plen =
     (neg_err SCENE_ERR_SEQ,
      s\<lparr>st_out := emit (st_out s) SCENE_SRV_ERROR (error_payload SCENE_ERR_SEQ ''non-monotonic seq''),
        st_dead := True\<rparr>)"
  using assms by (rule out_of_sequence)

theorem out_of_sequence_rejected_witness:
  "scene_store_ingest demo_new 0 SCENE_OP_CREATE_NODE demo_button 35 =
     (neg_err SCENE_ERR_SEQ,
      demo_new\<lparr>st_out := emit (st_out demo_new) SCENE_SRV_ERROR
          (error_payload SCENE_ERR_SEQ ''non-monotonic seq''), st_dead := True\<rparr>)"
  by (rule out_of_sequence_rejected) (simp_all add: demo_new_sel demo_fields scene_default_limits_def)

text \<open>Ingest reads nothing beyond the payload it was given: two memories that agree on the
  first \<open>plen\<close> bytes have the same outcome. The one exception is a SEARCH of 12 to 15 bytes.\<close>

theorem ingest_reads_payload_only:
  assumes "agree (unat plen) p q" "opcode = SCENE_OP_SEARCH \<Longrightarrow> plen < 12 \<or> 16 \<le> plen"
  shows "scene_store_ingest s now opcode p plen = scene_store_ingest s now opcode q plen"
  using assms by (rule ingest_local)

theorem ingest_reads_payload_only_witness:
  "scene_store_ingest demo_new 0 SCENE_OP_CREATE_NODE (demo_panel @ [1, 2]) 35 =
   scene_store_ingest demo_new 0 SCENE_OP_CREATE_NODE (demo_panel @ [3]) 35"
  by (rule ingest_reads_payload_only)
    (simp_all add: agree_def length_demo_panel rd_def nth_append)

section \<open>Snapshots and replay\<close>

text \<open>C20. The dump of a scene is the document, written out: the header, every node in document
  order with the id of its parent, its attributes and its texts, and the textures.\<close>

theorem snapshot_is_document:
  assumes "represents sc d"
  shows "snapshot_serialize (sc_arena sc) seq texes = Some (doc_dump seq texes d)"
  using assms by (rule serialize_doc)

theorem snapshot_is_document_witness:
  "snapshot_serialize (sc_arena (st_live demo_store)) 4 [] = Some (doc_dump 4 [] demo_doc)"
  by (rule snapshot_is_document [OF demo_store(1)])

text \<open>C21. The client's parser reads from the dump of the server what the server put in: all
  nodes with their parents, attributes and text ranges, all texts, all texture references and
  the sequence number, each up to the capacity of the caller's array.\<close>

theorem snapshot_round_trip:
  assumes "represents sc d" "snapshot_serialize (sc_arena sc) seq texes = Some m" "length m < 2 ^ 32"
  shows "scene_snapshot_parse m (of_nat (length m)) cap tcap xcap =
     Some \<lparr>ps_seq = seq, ps_tex_count = of_nat (length texes),
           ps_texts_used = length (entry_texts (doc_entries d)),
           ps_count = of_nat (length (doc_entries d)),
           ps_nodes = take cap (parsed_nodes 0 (doc_entries d)),
           ps_texts = take tcap (entry_texts (doc_entries d)),
           ps_texes = take xcap (map te_ref texes)\<rparr>"
proof -
  have m: "m = entries_dump seq texes (doc_entries d)"
    using serialize_doc [OF assms(1)] assms(2) by (simp add: doc_dump_def)
  show ?thesis unfolding m by (rule parse_entries) (use assms(3) m in simp)
qed

theorem snapshot_round_trip_witness:
  "\<exists>m. snapshot_serialize (sc_arena (st_live demo_store)) 4 [] = Some m \<and>
     map_option ps_nodes (scene_snapshot_parse m (of_nat (length m)) 8 8 8) =
       Some [parsed_node SCENE_NO_PARENT panel_node 0, parsed_node 5 button_node 0]"
proof -
  let ?m = "doc_dump 4 [] demo_doc"
  have es: "doc_entries demo_doc = [(SCENE_NO_PARENT, payload panel_node), (5, payload button_node)]"
    by (simp add: doc_entries_def demo_doc_def)
  have m: "snapshot_serialize (sc_arena (st_live demo_store)) 4 [] = Some ?m"
    by (rule serialize_doc [OF demo_store(1)])
  have "length ?m < 2 ^ 32"
    by (simp add: doc_dump_def entries_dump_def es dump_entry_def dump_header_def dump_text_def
        put_rect_def demo_nodes)
  from snapshot_round_trip [OF demo_store(1) m this, of 8 8 8] m show ?thesis
    by (simp add: es parsed_node_def demo_nodes)
qed

text \<open>C22. Building the replay view does not touch the session: whatever the target, only the
  replayed scene, its validity and its sequence number change.\<close>

theorem replay_isolated:
  "st_live (snd (replay_build s tgt)) = st_live s \<and> st_log (snd (replay_build s tgt)) = st_log s \<and>
   st_out (snd (replay_build s tgt)) = st_out s \<and>
   st_next_seq (snd (replay_build s tgt)) = st_next_seq s \<and>
   st_scene_seq (snd (replay_build s tgt)) = st_scene_seq s \<and>
   st_mode (snd (replay_build s tgt)) = st_mode s \<and> st_dead (snd (replay_build s tgt)) = st_dead s \<and>
   st_macros (snd (replay_build s tgt)) = st_macros s \<and> st_ckpts (snd (replay_build s tgt)) = st_ckpts s"
  using same_sessionD [OF replay_build_same [of s tgt]] by simp

text \<open>C23. Time travel. In a fresh session of fewer than 4096 accepted records without textures, entering
  replay and seeking to any record shows the document the session had after that record: the
  same tree, the same attributes of every node.\<close>

theorem seek_shows_past:
  assumes "session_of s ops d_end" "document_at s ops k d"
    and "scene_store_begin_replay (snd (ingest_all s now ops)) = (r1, s1)"
    and "scene_store_seek_to s1 (of_nat k) = (r2, s2)"
  shows "r1 = 0 \<and> r2 = 0 \<and> (\<exists>d'. displays s2 d' \<and> dc_tree d' = dc_tree d \<and> dc_attr d' = dc_attr d)"
proof -
  have s1: "r1 = 0" "same_session (replay_of s now ops) s1"
    using begin_replay_session [OF assms(1), of now] assms(3) by auto
  obtain d' where "r2 = 0" "displays s2 d'" "unfocused d' = unfocused d"
    using seek_session [OF assms(1,2) s1(2)] assms(4) by auto
  then show ?thesis using s1(1) by (auto elim!: unfocusedE)
qed

theorem seek_shows_past_witness:
  "\<exists>d. displays (snd (scene_store_seek_to (snd (scene_store_begin_replay demo_store)) 2)) d \<and>
     dc_tree d = dc_tree button_doc \<and> dc_attr d = dc_attr button_doc"
  using seek_shows_past [OF demo_past(1,2) surjective_pairing surjective_pairing, of 0]
  by (simp add: demo_store_def)

text \<open>C24. The difference the replay service reports between two positions of such a session is the
  difference of their documents: exactly the accessible nodes only one of them has, and those
  that differ; applied to the nodes of the one it gives the nodes of the other. The arrays of
  the service have room for 16 nodes more than the live scene.\<close>

theorem rewind_difference:
  assumes "session_of s ops d_end" "document_at s ops j dj" "document_at s ops k dk"
    and "scene_rewind_enter_replay (scene_rewind_new (snd (ingest_all s now ops))) = (r0, w0)"
    and "scene_rewind_seek w0 (of_nat j) = (r1, w1)"
    and "length (doc_snaps dj) \<le> size (dc_tree d_end) + 16"
      "length (doc_snaps dk) \<le> size (dc_tree d_end) + 16"
  shows "\<exists>df. fst (scene_rewind_diff w1 (of_nat k)) = Some df \<and> is_diff (doc_snaps dj) (doc_snaps dk) df \<and>
     patch df (set (doc_snaps dj)) = set (doc_snaps dk)"
  using assms by (rule rewind_history)

theorem rewind_difference_witness:
  "\<exists>df. fst (scene_rewind_diff (snd (scene_rewind_seek (snd (scene_rewind_enter_replay
       (scene_rewind_new demo_store))) 2)) 4) = Some df \<and>
     patch df (set (doc_snaps button_doc)) = set (doc_snaps demo_doc)"
proof -
  have "length (doc_snaps button_doc) \<le> 2" "length (doc_snaps demo_doc) \<le> 2" "size (dc_tree demo_doc) = 2"
    by (simp_all add: doc_snaps_def a11y_rows_def button_doc_def demo_doc_def)
  then show ?thesis
    using rewind_difference [OF demo_past(1,2,3) surjective_pairing surjective_pairing, of 0]
    by (auto simp: demo_store_def)
qed

text \<open>Losing the client turns every node of the document stale, and keeps everything else.\<close>

theorem ghost_mark_document:
  assumes "represents (st_live s) d"
  shows "represents (st_live (scene_store_ghost_mark s)) (doc_ghost d)"
  using assms by (rule ghost_represents)

theorem ghost_mark_document_witness:
  "represents (st_live (scene_store_ghost_mark demo_store)) (doc_ghost demo_doc)"
  by (rule ghost_mark_document [OF demo_store(1)])

section \<open>Queries\<close>

text \<open>C25. The node at a point is the deepest visible live node whose rectangle holds it, the
  last in document order among the deepest.\<close>

theorem region_at_point:
  assumes "represents sc d"
  shows "scene_region_at sc x y = doc_region d x y"
  using assms by (rule region_doc)

theorem region_at_point_witness: "scene_region_at (st_live demo_store) 5 5 = 6"
proof -
  have "doc_region demo_doc 5 5 = 6"
    by (simp add: doc_region_def candidates_def deepest_last_def hit_at_def in_rect_def demo_doc_def
        demo_nodes)
  then show ?thesis using region_at_point [OF demo_store(1), of 5 5] by simp
qed

text \<open>A search of the host finds every text slot of a visible node that contains the word up
  to ASCII case, in document order, and reports the number of all hits beside those that fit.\<close>

theorem host_search_hits:
  assumes "represents (st_live s) d"
  shows "scene_store_search s w wl out_cap text_cap =
     (let hits = doc_hits d (slice w 0 (unat wl))
      in (length hits, take out_cap (map (nd_id \<circ> fst) hits), take text_cap (map (ts_id \<circ> snd) hits),
          min (length hits) text_cap))"
  using assms by (rule host_search_doc)

theorem host_search_hits_witness:
  "scene_store_search demo_store [104, 73] 2 8 8 = (1, [6], [9], 1)"
proof -
  have "contains_ci [104, 73] [72, 105]"
    by (simp add: contains_ci_def fold_case_def ascii_lower_def)
  then have "doc_hits demo_doc [104, 73] = [(payload button_node, \<lparr>ts_id = 9, ts_data = [72, 105]\<rparr>)]"
    by (simp add: doc_hits_def node_hits_def demo_doc_def demo_nodes)
  then show ?thesis
    using host_search_hits [OF demo_store(1), of "[104, 73]" 2 8 8] by (simp add: slice_def demo_nodes)
qed

text \<open>C26. The reply to a client's SEARCH record carries the number of hits and every hit, over
  the view the client looks at.\<close>

theorem search_reply_hits:
  assumes "displays s d"
  shows "emit_search_reply s req w wl =
     store_emit s SCENE_SRV_SEARCH_RESULT
       (let hits = doc_hits d (slice w 0 (unat wl))
        in scene_put_u32 req @ scene_put_u32 (of_nat (length hits)) @
           concat (map (\<lambda>(n, t). search_hit n t) hits))"
  using assms by (rule search_reply_doc)

theorem search_reply_hits_witness:
  "emit_search_reply demo_store 7 [122] 1 =
     store_emit demo_store SCENE_SRV_SEARCH_RESULT [7,0,0,0, 0,0,0,0]"
proof -
  have "\<not> contains_ci [122] [72, 105]"
    using set_mono_sublist [of "[122]" "[104, 105 :: u8]"]
    by (auto simp: contains_ci_def fold_case_def ascii_lower_def)
  then have "doc_hits demo_doc [122] = []"
    by (simp add: doc_hits_def node_hits_def demo_doc_def demo_nodes)
  moreover have "scene_put_u32 7 @ scene_put_u32 0 = [7,0,0,0, 0,0,0,0]" by code_simp
  ultimately show ?thesis
    using search_reply_hits [OF demo_displays, of 7 "[122]" 1] by (simp add: slice_def)
qed

text \<open>The focus chain of the accessibility interface is the focus ring in which FOCUS_NEXT
  moves: the visible, focusable, live nodes in document order.\<close>

theorem focus_chain_is_ring:
  assumes "displays s d"
  shows "scene_store_a11y_focus_chain s cap = (take cap (focus_ring d), length (focus_ring d))"
  using assms by (rule focus_chain_ring)

theorem focus_chain_is_ring_witness: "scene_store_a11y_focus_chain demo_store 4 = ([6], 1)"
  using focus_chain_is_ring [OF demo_displays, of 4]
  by (simp add: focus_ring_def in_ring_def demo_doc_def demo_nodes)

text \<open>The accessible children of a node are its visible live children, in document order;
  the count is of all, the ids those that fit.\<close>

theorem accessible_children:
  assumes "displays s d"
  shows "scene_store_a11y_children s pid cap =
     (let l = map snd (filter (\<lambda>(p, k). p = pid \<and> accessible (doc_node d k)) (doc_rows d))
      in (take cap l, length l))"
  using assms by (rule children_doc)

theorem accessible_children_witness: "scene_store_a11y_children demo_store 5 4 = ([6], 1)"
  using accessible_children [OF demo_displays, of 5 4]
  by (simp add: accessible_def demo_doc_def demo_nodes)

text \<open>The nodes with a role, likewise.\<close>

theorem accessible_by_role:
  assumes "displays s d"
  shows "scene_store_a11y_find_by_role s role cap =
     (let l = filter (\<lambda>k. accessible (doc_node d k) \<and> nd_role (doc_node d k) = role) (preorder (dc_tree d))
      in (take cap l, length l))"
  using assms by (rule by_role_doc)

theorem accessible_by_role_witness: "scene_store_a11y_find_by_role demo_store 1 4 = ([5], 1)"
  using accessible_by_role [OF demo_displays, of 1 4]
  by (simp add: accessible_def demo_doc_def demo_nodes)

text \<open>A walk calls the visitor on the ids of the document in preorder, until it stops.\<close>

theorem walk_is_preorder:
  assumes "displays s d"
  shows "scene_store_walk s cb x = visit_ids cb (preorder (dc_tree d)) x"
  using assms by (rule walk_doc)

theorem walk_is_preorder_witness:
  "scene_store_walk demo_store (\<lambda>k ks. (k = 6, ks @ [k])) [] = [5, 6]"
  using walk_is_preorder [OF demo_displays, of "\<lambda>k ks. (k = 6, ks @ [k])" "[]"]
  by (simp add: demo_doc_def)

text \<open>What a renderer reads of a node is the node's attributes in the document, with its
  parent's id.\<close>

theorem node_view_is_row:
  assumes "displays s d" "(p, k) \<in> set (doc_rows d)"
  shows "scene_store_node_vis s k = Some (vis_of p k (doc_node d k)) \<and>
         scene_store_node_texts s k cap =
           Some (length (nd_texts (doc_node d k)), take cap (nd_texts (doc_node d k)))"
  using node_vis_row [OF assms] by blast

theorem node_view_is_row_witness:
  "scene_store_node_texts demo_store 6 4 = Some (1, [\<lparr>ts_id = 9, ts_data = [72, 105]\<rparr>])"
  using node_view_is_row [OF demo_displays, of 5 6 4]
  by (simp add: demo_doc_def demo_nodes)

section \<open>Input and flow control\<close>

text \<open>A pointer event reaches the client as a POINTER record, followed by an ACTIVATE record
  when the primary button hits a node; from then on input is swallowed until the client
  acknowledges, and the scene and the sequence stay as they are.\<close>

theorem pointer_sends:
  assumes "input_gate s = None" "scene_store_input_pointer s now device x y buttons = (r, s')"
  shows "r = 0 \<and> st_out s' = emit_all (st_out s) (pointer_records s device x y buttons) \<and>
         input_gate s' = Some 0 \<and> st_live s' = st_live s \<and> st_next_seq s' = st_next_seq s \<and>
         scene_store_input_key s' now2 key_code state modifiers = (0, s')"
  using pointer_delivered [OF assms] gate_swallows(2) by simp

theorem pointer_sends_witness:
  "scene_store_input_key (snd (scene_store_input_pointer demo_store 0 0 5 5 1)) 0 30 1 0 =
     (0, snd (scene_store_input_pointer demo_store 0 0 5 5 1))"
  using pointer_sends [where s = demo_store, OF _ surjective_pairing, of 0 0 5 5 1 0 30 1 0] demo_store
  by (simp add: input_gate_None)

text \<open>An acknowledgement opens the gate exactly when it covers the sequence of the last
  input; it is logged, and changes neither the scene nor the stream sequence.\<close>

theorem ack_opens_gate:
  assumes "store_inv s" "\<not> st_dead s" "16 \<le> max_record_length (st_lim s)"
    and "scene_store_ingest s now SCENE_OP_ACK p 16 = (r, s')"
  shows "r = 0 \<and> \<not> st_dead s' \<and> st_live s' = st_live s \<and> st_next_seq s' = st_next_seq s \<and>
         st_out s' = st_out s \<and>
         (st_input_pending s' \<longleftrightarrow> st_input_pending s \<and> scene_get_u64 p 0 < st_last_input_seq s)"
  using ack_ingest [OF assms] by blast

theorem ack_opens_gate_witness:
  "\<not> st_input_pending (snd (scene_store_ingest demo_store 0 SCENE_OP_ACK (replicate 16 255) 16))"
  using ack_opens_gate [OF demo_inv demo_store(2) _ surjective_pairing, of 0 "replicate 16 255"]
    demo_store(5,6)
  by (simp add: scene_default_limits_def)

section \<open>Transport\<close>



text \<open>Every frame the store emits with a payload below \<open>2^32 - 16\<close> bytes passes the
  whole-frame validation a peer runs on it.\<close>

theorem emitted_frame_accepted:
  assumes "length p < 2 ^ 32 - 16"
  shows "scene_frame_check (read_header (scene_frame opcode p)) (scene_frame opcode p)
           (of_nat (16 + length p)) = 0"
  using assms by (rule frame_check_emitted)

theorem emitted_frame_accepted_witness:
  "scene_frame_check (read_header (scene_frame SCENE_SRV_PONG [1, 2, 3]))
     (scene_frame SCENE_SRV_PONG [1, 2, 3]) (of_nat (16 + length [1, 2, 3 :: u8])) = 0"
  by (rule emitted_frame_accepted) simp

text \<open>C28. The checksum detects every corruption of a single byte: a frame that passes the check
  no longer passes it after one byte, of the header, the checksum or the payload, has been
  changed.\<close>

theorem single_byte_corruption_detected:
  assumes "scene_frame_check (read_header f) f (of_nat (length f)) = 0"
    and "length f < 2 ^ 32" "i < length f" "b \<noteq> f ! i"
  shows "scene_frame_check (read_header (f[i := b])) (f[i := b]) (of_nat (length f)) \<noteq> 0"
  using assms by (rule frame_check_one_byte)

theorem single_byte_corruption_detected_witness:
  "scene_frame_check (read_header ((scene_frame SCENE_SRV_PONG [1, 2, 3])[17 := 9]))
     ((scene_frame SCENE_SRV_PONG [1, 2, 3])[17 := 9]) 19 \<noteq> 0"
proof -
  let ?f = "scene_frame SCENE_SRV_PONG [1, 2, 3]"
  have "scene_frame_check (read_header ?f) ?f (of_nat (length ?f)) = 0"
    using frame_check_emitted [of "[1, 2, 3]" SCENE_SRV_PONG] by simp
  moreover have "?f ! 17 = 2"
    by (simp add: scene_frame_def frame_head_def scene_put_u16_def scene_put_u32_def Let_def nth_append)
  ultimately show ?thesis
    using single_byte_corruption_detected [of ?f 17 9] by simp
qed

text \<open>The outbound queue is first in, first out: whatever records the store emitted, taking
  frames off an empty queue they were put on yields exactly their frames, in order.\<close>

theorem outbound_fifo:
  assumes "list_all record_ok rs" "length rs < n"
  shows "\<exists>q'. frame_queue.drain n (emit_all oq_empty rs) = (map (\<lambda>(opc, p). scene_frame opc p) rs, q') \<and>
           pending q' []"
  unfolding emit_all_def using frame_queue.put_then_drain [OF pending_empty assms] by simp

theorem outbound_fifo_witness:
  "\<exists>q'. frame_queue.drain 3 (st_out demo_store) = (map (\<lambda>(opc, p). scene_frame opc p) demo_records, q') \<and>
     pending q' []"
  unfolding demo_store(3)
  by (rule outbound_fifo) (simp_all add: demo_records_def)

section \<open>Around the store\<close>

text \<open>C29. The desktop lock. After locking, whatever keys follow, the desktop stays locked, holding
  exactly the text typed since the last attempt, until an Enter on a text the password checker
  accepts; then it is unlocked and no text is held. Without a checker it is never unlocked.\<close>

theorem lock_needs_password:
  assumes "sl_built sh" "\<not> sl_locked sh" "length (sl_lock_pwd sh) = LOCK_PWD_MAX"
  shows "case type_keys check [] ks of
      Some typed \<Rightarrow> sl_locked (lock_keys check (scene_shell_lock sh now) ks) \<and>
        lock_typed (lock_keys check (scene_shell_lock sh now) ks) = typed
    | None \<Rightarrow> \<not> sl_locked (lock_keys check (scene_shell_lock sh now) ks) \<and>
        sl_lock_pwd_len (lock_keys check (scene_shell_lock sh now) ks) = 0"
  using locked_fresh [OF assms, of now] lock_keys_type [of "scene_shell_lock sh now" check ks] by simp

theorem lock_needs_password_witness:
  "sl_locked (lock_keys (Some (\<lambda>m. m = [97])) (scene_shell_lock demo_shell 0) [(1, 48, 1, 0), (2, 28, 1, 0)]) \<and>
   \<not> sl_locked (lock_keys (Some (\<lambda>m. m = [97])) (scene_shell_lock demo_shell 0)
      [(1, 48, 1, 0), (2, 14, 1, 0), (3, 30, 1, 0), (4, 28, 1, 0)])"
proof -
  have keys: "ovl_printable_char 48 0 = 98" "ovl_printable_char 30 0 = 97"
    by (simp_all add: ovl_printable_char_def ovl_letter_def Let_def)
  have sh: "sl_built demo_shell" "\<not> sl_locked demo_shell" "length (sl_lock_pwd demo_shell) = LOCK_PWD_MAX"
    by (simp_all add: demo_shell_def)
  let ?check = "Some (\<lambda>m. m = [97 :: u8])"
  have "type_keys ?check [] [(1, 48, 1, 0), (2, 28, 1, 0)] = Some []"
    "type_keys ?check [] [(1, 48, 1, 0), (2, 14, 1, 0), (3, 30, 1, 0), (4, 28, 1, 0)] = None"
    by (simp_all add: type_key_def keys)
  then show ?thesis
    using lock_needs_password [OF sh, where check = ?check and now = 0 and ks = "[(1, 48, 1, 0), (2, 28, 1, 0)]"]
      lock_needs_password [OF sh, where check = ?check and now = 0
        and ks = "[(1, 48, 1, 0), (2, 14, 1, 0), (3, 30, 1, 0), (4, 28, 1, 0)]"]
    by simp
qed

text \<open>C30. The terminal is a tape. Output of the shell moves the cursor and writes cells as it would on
  lines without end, whatever the window onto them, and keeps the cursor on the screen and
  the lines at their width, as long as the number of the cursor's line stays below \<open>2 ^ 31\<close>. It fails
  exactly when a character has to go beyond line 1024: the loop that should make the line exist then moves
  the origin on to the overflow of \<open>int32_t\<close>, some \<open>2 ^ 31\<close> turns, and leaves with a negative line.\<close>

theorem terminal_is_tape:
  assumes "term_ok t" "tm_view_top t + tm_row t + int (length bs) < 2 ^ 31"
  shows "map_option tape_of (drain_posix t bs) = tape_run (term_cols t) (tape_of t) bs \<and>
    (\<forall>t'. drain_posix t bs = Some t' \<longrightarrow> term_ok t' \<and> tm_cfg t' = tm_cfg t)"
  using assms by (rule terminal_run)

theorem terminal_is_tape_witness:
  "\<exists>t'. drain_posix (terminal_new (Some scene_terminal_config_defaults)) [72, 105, 10, 33] = Some t' \<and>
     tp_cells (tape_of t') 0 1 = 105 \<and> tp_cells (tape_of t') 1 0 = 33 \<and> term_ok t'"
proof -
  let ?t = "terminal_new (Some scene_terminal_config_defaults)"
  have ok: "term_ok ?t" by (rule term_ok_new) (simp_all add: scene_terminal_config_defaults_def)
  have low: "tm_view_top ?t + tm_row ?t + int (length [72, 105, 10, 33 :: u8]) < 2 ^ 31"
    by (simp add: terminal_new_def Let_def)
  have start: "term_cols ?t = 80" "tp_line (tape_of ?t) = 0" "tp_pos (tape_of ?t) = 0"
    by (simp_all add: term_cols_def tape_of_def terminal_new_def scene_terminal_config_defaults_def Let_def)
  obtain g where g: "tape_run 80 (tape_of ?t) [72, 105, 10, 33] = Some g" "tp_cells g 0 1 = 105" "tp_cells g 1 0 = 33"
    using start by (simp add: tape_byte_def Let_def)
  then show ?thesis
    using terminal_is_tape [OF ok low] start(1) by (auto simp del: drain_posix.simps tape_run.simps)
qed

text \<open>C31. The glyph cache is transparent. Any run of lookups on a new cache returns, and yields
  for each code point the glyph the rasteriser makes of it, whatever was evicted in
  between; the count is the number of entries in use, at most 1024.\<close>

theorem glyph_cache_transparent:
  "\<exists>fc'. glyph_run raster fc_new cps = Some (map (\<lambda>cp. cached (raster cp)) cps, fc') \<and>
     unat (fc_count fc') = fc_used fc' \<and> fc_used fc' \<le> FC_CAP"
  using glyph_run_sound [OF fc_sound_new, of raster cps] fc_used_le by (auto simp: fc_sound_def)

section \<open>Launched applications\<close>

text \<open>C32. Whatever is spawned, killed and pumped, whatever arrives on the network and whatever the compositor
  does with its layers, the launcher and the compositor agree: at most 16 sessions, each either waiting for
  its application or joined, none dead between two pumps; the layers above the shell are the servers of the
  joined sessions, each once. A pump keeps the order of the layers and puts new ones on top.\<close>

theorem launcher_keeps_sessions:
  assumes "launcher_reach (launcher_cbs import_cb clk born mem) sl"
  shows "launcher_ok sl \<and> length (ln_sessions sl) \<le> 16 \<and> distinct (refs (ln_cp sl)) \<and>
    mset (svs (ln_sessions sl)) = mset (tl (refs (ln_cp sl))) \<and>
    (\<forall>s\<in>set (ln_sessions sl). \<not> se_dead s \<and>
       (if se_listener s = None then se_peer s \<noteq> None \<and> se_sv s \<noteq> None else se_peer s = None \<and> se_sv s = None)) \<and>
    (let sl' = scene_launcher_pump (launcher_cbs import_cb clk born mem) now sl
     in refs (ln_cp sl') = filter (\<lambda>r. r \<in> set (refs (ln_cp sl'))) (refs (ln_cp sl) @ [ln_next sl..<ln_next sl']))"
proof -
  have ok: "launcher_ok sl" by (rule desk.launcher_reach_ok [OF assms])
  then have "\<forall>s\<in>set (ln_sessions sl). \<not> se_dead s \<and> session_shape s"
    by (simp add: launcher_ok_def linked_def)
  then have "\<forall>s\<in>set (ln_sessions sl). \<not> se_dead s \<and>
      (if se_listener s = None then se_peer s \<noteq> None \<and> se_sv s \<noteq> None else se_peer s = None \<and> se_sv s = None)"
    by (auto simp: session_shape_def split: if_splits)
  then show ?thesis
    using ok desk.pump_order [OF ok refl, of import_cb clk born mem now]
    by (simp add: launcher_ok_def linked_def MAX_SESSIONS_def Let_def)
qed

theorem launcher_keeps_sessions_witness:
  "let sl' = scene_launcher_pump (launcher_cbs None (\<lambda>_ _. 0) (\<lambda>_. 0) (\<lambda>_ _. zero_node)) 1 demo_spawned
   in launcher_ok demo_spawned \<and>
      refs (ln_cp sl') = filter (\<lambda>r. r \<in> set (refs (ln_cp sl'))) (refs (ln_cp demo_spawned) @ [ln_next demo_spawned..<ln_next sl'])"
  using launcher_keeps_sessions [OF demo_spawned_reach, of 1] by (simp only: Let_def)

text \<open>C33. The pump serves each joined application from its own connection: what its server and its connection
  become is the turn of the two, whatever the other sessions do. If the turn ends the session, its layer and
  its slot are gone, the connection is closed, and the host is told; otherwise the slot stays as it is.\<close>

theorem each_session_served:
  assumes "launcher_ok sl" and "s \<in> set (ln_sessions sl)" "se_peer s = Some p" "se_sv s = Some r"
    and env: "env = launcher_cbs import_cb clk born mem" and pump: "sl' = scene_launcher_pump env now sl"
  shows "\<exists>sv. server_at (ln_cp sl) r = Some sv \<and>
    (case session_turn env r (nt_sock (ln_net sl) p) sv of (dead, t', sv') \<Rightarrow>
       if dead then server_at (ln_cp sl') r = None \<and> nt_sock (ln_net sl') p = tcp_close t' \<and>
         (\<exists>n\<ge>1. SessionExited n (se_pid s) \<in> set (drop (length (ln_calls sl)) (ln_calls sl')))
       else s \<in> set (ln_sessions sl') \<and> server_at (ln_cp sl') r = Some sv' \<and> nt_sock (ln_net sl') p = t')"
  using desk.pump_serves [OF assms(1-4) pump [unfolded env]] unfolding env .

theorem each_session_served_witness:
  "\<exists>sv. server_at (ln_cp (demo_joined [])) 1 = Some sv \<and>
    (let env = launcher_cbs None (\<lambda>_ _. 0) (\<lambda>_. 0) (\<lambda>_ _. zero_node); sl' = scene_launcher_pump env 1 (demo_joined [])
     in case session_turn env 1 (nt_sock (ln_net (demo_joined [])) 0) sv of (dead, t', sv') \<Rightarrow>
       if dead then server_at (ln_cp sl') 1 = None \<and> nt_sock (ln_net sl') 0 = tcp_close t' \<and>
         (\<exists>n\<ge>1. SessionExited n (se_pid demo_session) \<in> set (drop (length (ln_calls (demo_joined []))) (ln_calls sl')))
       else demo_session \<in> set (ln_sessions sl') \<and> server_at (ln_cp sl') 1 = Some sv' \<and> nt_sock (ln_net sl') 0 = t')"
  using each_session_served [OF demo_joined(1-4) refl refl, of "[]"] by (simp only: Let_def)

text \<open>C34. An application that violates the protocol is dropped in the turn that reads the violation, and it
  gets nothing more: the ERROR record its server queued is gone with the session, and nothing is written to
  the connection before it is closed. The comment at the call says that it has been sent already.\<close>

theorem violating_session_dropped:
  assumes "launcher_ok sl" and "s \<in> set (ln_sessions sl)" "se_peer s = Some p" "se_sv s = Some r"
    and "server_at (ln_cp sl) r = Some sv" "tcp_recv (nt_sock (ln_net sl) p) 4096 = (TcpData d, t1)"
    and "scene_server_feed import_cb (clk r) sv d (of_nat (length d)) = (rc, sv1)" "rc \<noteq> 0"
    and pump: "sl' = scene_launcher_pump (launcher_cbs import_cb clk born mem) now sl"
  shows "server_at (ln_cp sl') r = None \<and> \<not> tk_open (nt_sock (ln_net sl') p) \<and>
    tk_wire (nt_sock (ln_net sl') p) = tk_wire (nt_sock (ln_net sl) p) \<and>
    (\<exists>n\<ge>1. SessionExited n (se_pid s) \<in> set (drop (length (ln_calls sl)) (ln_calls sl')))"
proof -
  let ?env = "launcher_cbs import_cb clk born mem"
  have turn: "session_turn ?env r (nt_sock (ln_net sl) p) sv = (True, t1, sv1)"
    using assms(7) by (intro violation_kills [OF assms(6) _ assms(8)]) (simp add: launcher_cbs_def)
  show ?thesis
    using desk.pump_serves [OF assms(1-4) pump] assms(5) turn dead_turn_silent [OF turn]
    by (simp add: tcp_close_def)
qed

theorem violating_session_dropped_witness:
  "let sl = demo_joined [Got demo_huge]; sl' = scene_launcher_pump (launcher_cbs None (\<lambda>_ _. 0) (\<lambda>_. 0) (\<lambda>_ _. zero_node)) 1 sl
   in server_at (ln_cp sl') 1 = None \<and> \<not> tk_open (nt_sock (ln_net sl') 0) \<and> tk_wire (nt_sock (ln_net sl') 0) = [] \<and>
      (\<exists>n\<ge>1. SessionExited n 42 \<in> set (drop 1 (ln_calls sl')))"
proof -
  let ?sl = "demo_joined [Got demo_huge]"
  have len: "length demo_huge = 16" "demo_huge \<noteq> []" by (simp_all add: demo_huge_def)
  then have got: "tcp_recv (nt_sock (ln_net ?sl) 0) 4096 = (TcpData demo_huge, (demo_sock [Got demo_huge] [])\<lparr>tk_in := []\<rparr>)"
    by (simp add: demo_joined(7) tcp_recv_def demo_sock_def)
  obtain rc sv1 where fed: "scene_server_feed None ((\<lambda>_ _. 0) (1::nat)) demo_fresh demo_huge (of_nat (length demo_huge)) = (rc, sv1)"
    by fastforce
  have "rc \<noteq> 0" using fed demo_refused [of "\<lambda>_. 0"] by (simp add: len)
  from violating_session_dropped [OF demo_joined(1-4,6) got fed this refl, where born = "\<lambda>_. 0" and mem = "\<lambda>_ _. zero_node" and now = 1]
  show ?thesis by (simp add: demo_joined(5,7) demo_sock_def Let_def) (simp add: demo_joined_def)
qed

text \<open>C35. What a connection does not take at once is lost. With room for everything the records of the server
  go out as they are; if the socket takes the first \<open>k\<close> bytes of a record and then would block, the rest of
  that record is never sent while the records after it are, and the queue of the server is empty: the
  application reads a torn stream. Connections of launched applications do not block.\<close>

theorem short_send_tears_stream:
  assumes "pending (st_out (sv_store sv)) ((opc, body) # rs)" "tk_open t"
    and "0 < k" "k < length (scene_frame opc body)"
  shows "fst (session_send (t\<lparr>tk_room := []\<rparr>) sv) =
      t\<lparr>tk_room := [], tk_wire := tk_wire t @ scene_frame opc body @ record_bytes rs\<rparr> \<and>
    fst (session_send (t\<lparr>tk_room := [int k, -1]\<rparr>) sv) =
      t\<lparr>tk_room := [], tk_wire := tk_wire t @ take k (scene_frame opc body) @ record_bytes rs\<rparr> \<and>
    pending (st_out (sv_store (snd (session_send (t\<lparr>tk_room := [int k, -1]\<rparr>) sv)))) []"
proof -
  have "tcp_send (t\<lparr>tk_room := [int k, -1]\<rparr>) (scene_frame opc body) =
      (-1, t\<lparr>tk_room := [], tk_wire := tk_wire t @ take k (scene_frame opc body)\<rparr>)"
    using tcp_send_short [of "t\<lparr>tk_room := [int k, -1]\<rparr>" k "-1" "scene_frame opc body"] assms(2-4) by simp
  then show ?thesis
    using assms(2) by (simp add: session_send_frames [OF assms(1)] send_all_frames tcp_send_all drained_def pending_empty)
qed

theorem short_send_tears_stream_witness:
  "let sv = demo_fresh\<lparr>sv_store := (sv_store demo_fresh)\<lparr>st_out := emit (emit oq_empty 0x8001 [7]) 0x8002 []\<rparr>\<rparr>
   in fst (session_send (demo_sock [] [5, -1]) sv) =
      demo_sock [] []\<lparr>tk_wire := take 5 (scene_frame 0x8001 [7]) @ record_bytes [(0x8002, [])]\<rparr>"
proof -
  let ?sv = "demo_fresh\<lparr>sv_store := (sv_store demo_fresh)\<lparr>st_out := emit (emit oq_empty 0x8001 [7]) 0x8002 []\<rparr>\<rparr>"
  have "pending (emit oq_empty 0x8001 [7]) [(0x8001, [7])]" using pending_emit [OF pending_empty, where p = "[7]" and opc = "0x8001"] by simp
  then have "pending (emit (emit oq_empty 0x8001 [7]) 0x8002 []) [(0x8001, [7]), (0x8002, [])]"
    using pending_emit [where rs = "[(0x8001, [7])]" and p = "[]" and opc = "0x8002"] by simp
  then have q: "pending (st_out (sv_store ?sv)) ((0x8001, [7]) # [(0x8002, [])])" by simp
  have "demo_sock [] [5, -1] = (demo_sock [] [])\<lparr>tk_room := [int 5, -1]\<rparr>" by (simp add: demo_sock_def)
  then show ?thesis
    using short_send_tears_stream [OF q, of "demo_sock [] []" 5] by (simp add: demo_sock_def Let_def)
qed

section \<open>Files\<close>

text \<open>C36. A screenshot read back is the screen: the BMP file the compositor writes, loaded by the image
  loader, gives the size of the framebuffer and its pixels, each opaque, whatever padding the rows need.\<close>

theorem screenshot_round_trip:
  assumes "fb_ok (cp_fb cp)" "scene_compositor_capture_bmp True cp = (0, Some f)"
    and "unat (fb_w (cp_fb cp)) * 3 + 3 < 2 ^ 31" "unat (fb_w (cp_fb cp)) * unat (fb_h (cp_fb cp)) < 2 ^ 31"
    and "has_ext path ''.bmp''" "fs path = Some f"
  shows "scene_image_load stb fs path = Inr (fb_w (cp_fb cp), fb_h (cp_fb cp), map opaque_px (fb_px (cp_fb cp)))"
proof -
  have "0 < unat (fb_w (cp_fb cp))" "0 < unat (fb_h (cp_fb cp))"
    using assms(2) by (auto simp: scene_compositor_capture_bmp_def unat_gt_0 split: if_splits)
  then show ?thesis using screenshot_read_back [OF assms(1) _ _ assms(3,4,2)] assms(5,6) by (simp add: scene_image_load_def)
qed

theorem screenshot_round_trip_witness:
  "scene_image_load (\<lambda>_. None) (\<lambda>_. snd (scene_compositor_capture_bmp True demo_desk)) (ascii ''shot.BMP'') =
    Inr (640, 480, map opaque_px (fb_px (cp_fb demo_desk)))"
proof -
  have fb: "fb_ok (cp_fb demo_desk)" "fb_w (cp_fb demo_desk) = 640" "fb_h (cp_fb demo_desk) = 480"
    using demo_desk_fields(7) demo_fb_size by (simp_all add: fb_real_def)
  obtain f where f: "scene_compositor_capture_bmp True demo_desk = (0, Some f)"
    using fb by (auto simp: scene_compositor_capture_bmp_def)
  have "has_ext (ascii ''shot.BMP'') ''.bmp''" by (simp add: has_ext_def ascii_def ascii_lower_def)
  then show ?thesis using screenshot_round_trip [OF fb(1) f, of "ascii ''shot.BMP''" "\<lambda>_. Some f" "\<lambda>_. None"] f fb(2,3) by simp
qed

text \<open>C37. TGA pictures: a file of packets, runs of one pixel and sequences of pixels in any division, loads as
  the pixels the packets stand for, cut at the size of the picture, top row first; the rows are turned
  over where the file stores them from the bottom.\<close>

theorem tga_packets_decode:
  assumes "tga_head th 10 w h bpp (length ident)" "list_all (packet_ok bpp) pks" "w * h \<le> length (packets_px bpp pks)"
    and "has_ext path ''.tga''" "fs path = Some (th @ ident @ packets_bytes pks @ rest)"
  shows "scene_image_load stb fs path =
    Inr (of_nat w, of_nat h, upright (rd th 17 AND 0x20 \<noteq> 0) w h (take (w * h) (packets_px bpp pks)))"
proof -
  have "\<not> has_ext path ''.bmp''" using assms(4) by (auto simp: has_ext_def ascii_eq_iff)
  then show ?thesis using load_tga_packets [OF assms(1,2,3), of rest] assms(4,5) by (simp add: scene_image_load_def)
qed

theorem tga_packets_decode_witness:
  "scene_image_load (\<lambda>_. None) (\<lambda>_. Some ([0, 0, 10, 0, 0, 0, 0, 0, 0, 0, 0, 0, 2, 0, 2, 0, 24, 0, 0x82, 1, 2, 3, 0x00, 4, 5, 6]))
      (ascii ''a.tga'') = Inr (2, 2, [0xFF030201, 0xFF060504, 0xFF030201, 0xFF030201])"
proof -
  let ?th = "[0, 0, 10, 0, 0, 0, 0, 0, 0, 0, 0, 0, 2, 0, 2, 0, 24, 0] :: bytes" and ?pks = "[Tga_run 3 [1, 2, 3], Tga_raw [[4, 5, 6]]]"
  have "tga_head ?th 10 2 2 3 (length [])" by (simp add: tga_head_def scene_get_u16_def)
  moreover have "has_ext (ascii ''a.tga'') ''.tga''" by (simp add: has_ext_def ascii_def ascii_lower_def)
  ultimately show ?thesis
    using tga_packets_decode [of ?th 2 2 3 "[]" ?pks "ascii ''a.tga''" "\<lambda>_. Some (?th @ packets_bytes ?pks)" "[]" "\<lambda>_. None"]
    by (simp add: upright_def file_px_def argb_def upt_rec nth_append)
qed

text \<open>C38. A theme whose list of applications fits into a line of 255 bytes, with names of at most 63 bytes
  that hold no comma and no end of line (\<open>theme_ok\<close>), is read back as it was saved: the parser of the shell reads back every colour, size and switch,
  and the list of applications; the wallpaper, and the applications beyond the
  list, stay as they were.\<close>

theorem theme_round_trip:
  assumes "theme_ok c" "length (cfg_apps d) = 32"
  shows "scene_theme_load atof (Some (scene_theme_save c)) d = (0, themed c d)"
  using assms by (rule theme_saved_loads)

theorem theme_round_trip_witness:
  "scene_theme_load (\<lambda>_. 0) (Some (scene_theme_save (snd (scene_theme_apply_builtin ''midnight'' scene_shell_config_defaults))))
      scene_shell_config_defaults =
    (0, themed (snd (scene_theme_apply_builtin ''midnight'' scene_shell_config_defaults)) scene_shell_config_defaults)"
  by (rule theme_round_trip)
    (simp_all add: theme_ok_def scene_theme_apply_builtin_def builtins_def builtin_theme_def app_name_def ascii_def put_apps_def
      scene_shell_config_defaults_def upt_rec)

section \<open>Containers\<close>

text \<open>C39. The open-addressing id table is a finite map: after entering any number of new ids, none
  of them 0, and removing any ids, through all growths and rehashes, a lookup finds the slot
  entered last for the ids that remain and 0 for all others.\<close>

theorem id_table_is_map:
  assumes "distinct (map fst xs)" "\<forall>(k, s) \<in> set xs. k \<noteq> 0 \<and> s \<noteq> 0"
  shows "idmap_get (foldl idmap_del (foldl (\<lambda>t (k, s). idmap_put t k s) idmap_init xs) ks) k =
    (if k \<in> set ks then 0 else case map_of xs k of Some s \<Rightarrow> s | None \<Rightarrow> 0)"
proof -
  have "\<forall>(k, s) \<in> set xs. k \<noteq> 0 \<and> s \<noteq> 0 \<and> idmap_get idmap_init k = 0"
    using assms(2) idt.get_empty by fastforce
  note put = idt.put_all [OF idt.invar_empty assms(1) this]
  show ?thesis using idt.del_all put idt.get_empty by (auto split: option.splits)
qed

theorem id_table_is_map_witness:
  "idmap_get (foldl idmap_del (foldl (\<lambda>t (k, s). idmap_put t k s) idmap_init [(7, 1), (1031, 2), (9, 3)]) [7]) 1031 = 2"
  by (subst id_table_is_map) simp_all

text \<open>Releasing a texture removes exactly one entry, with that reference, from the registry;
  when it reports failure no entry has the reference.\<close>

theorem texture_release:
  "case tex_release ts 0 ref (length ts) of
     Some ts' \<Rightarrow> \<exists>t \<in> set ts. te_ref t = ref \<and> mset ts' = mset ts - {#t#}
   | None \<Rightarrow> ref \<notin> te_ref ` set ts"
  using tex_release_mset [of ts ref] tex_release_None [of ts 0 ref "length ts"]
  by (auto simp: in_set_conv_nth split: option.split) blast

text \<open>The growable buffer is the list of the bytes appended to it, up to \<open>2^31\<close> bytes.\<close>

theorem buffer_append:
  assumes "db_ok b" "length (db_data b) + length bs \<le> 2 ^ 31"
  shows "\<exists>b'. db_put b bs = Some b' \<and> db_ok b' \<and> db_data b' = db_data b @ bs"
  using assms by (rule db_put_append)

theorem buffer_append_witness:
  "\<exists>b'. db_put db_empty [1, 2, 3] = Some b' \<and> db_data b' = [1, 2, 3]"
proof -
  have "db_data db_empty = []" by (simp add: db_empty_def)
  then show ?thesis using buffer_append [of db_empty "[1, 2, 3]"] by auto
qed

text \<open>C40. Beyond \<open>2^31\<close> bytes an append does not return: the capacity is doubled in a 32-bit
  variable, which reaches 0 and never the need.\<close>

theorem buffer_append_diverges:
  assumes "db_ok b" "2 ^ 31 < length (db_data b) + length bs"
    and "length (db_data b) + length bs < 2 ^ 32"
  shows "db_put b bs = None"
  using assms by (rule db_put_diverges)

theorem buffer_append_diverges_witness: "db_put db_empty (replicate (2 ^ 31 + 1) 0) = None"
proof -
  have "db_data db_empty = []" by (simp add: db_empty_def)
  then show ?thesis by (intro buffer_append_diverges) simp_all
qed

text \<open>Destroying the panel with the focused button leaves the focus on the button, which no
  longer exists: DESTROY clears the focus only when it is on the destroyed node itself.\<close>

theorem destroy_leaves_focus:
  "\<exists>d. represents (ac_scene (snd (apply_op (live_ctx demo_store True) SCENE_OP_DESTROY_NODE
           [5,0,0,0,0,0,0,0, 5,0,0,0] 12))) d \<and>
       dc_tree d = \<langle>\<rangle> \<and> dc_attr d 6 = None \<and> dc_focus d = 6"
proof -
  let ?p = "[5,0,0,0,0,0,0,0, 5,0,0,0] :: bytes"
  have nid: "scene_get_u32 ?p 8 = 5" by code_simp
  have "doc_op e SCENE_OP_DESTROY_NODE ?p 12 demo_doc = (OpOk, doc_delete 5 demo_doc, [])" for e
    by (simp add: doc_op_def doc_destroy_def nid Let_def) (simp add: demo_doc_def)
  then have "represents (ac_scene (snd (apply_op (live_ctx demo_store True) SCENE_OP_DESTROY_NODE ?p 12)))
      (doc_delete 5 demo_doc)"
    using apply_op_refines [of "live_ctx demo_store True" demo_doc SCENE_OP_DESTROY_NODE ?p 12] demo_store(1)
    by (simp add: implements_def live_ctx_def split: prod.splits)
  moreover have "dc_tree (doc_delete 5 demo_doc) = \<langle>\<rangle>" "dc_attr (doc_delete 5 demo_doc) 6 = None"
    "dc_focus (doc_delete 5 demo_doc) = 6"
    by (simp_all add: doc_delete_def demo_doc_def)
  ultimately show ?thesis by blast
qed

text \<open>A session that used a texture cannot be replayed before its first checkpoint: after an
  accepted SET_TEXTURE, entering replay succeeds, and seeking to that record fails, because the
  texture registry is not part of the replayed scene.\<close>

theorem texture_blocks_replay:
  assumes "fresh s" "in_sequence (st_lim s) 1 (ops @ [(SCENE_OP_SET_TEXTURE, p, plen)])"
    and "no_texture ops" "length ops < 4095"
    and "doc_session (env_of (live_ctx s True)) empty_doc (ops @ [(SCENE_OP_SET_TEXTURE, p, plen)]) = (OpOk, d, rs)"
    and "scene_store_begin_replay (snd (ingest_all s now (ops @ [(SCENE_OP_SET_TEXTURE, p, plen)]))) = (r1, s1)"
  shows "r1 = 0 \<and> fst (scene_store_seek_to s1 (of_nat (Suc (length ops)))) = -1"
  using assms by (rule texture_session_not_replayable)

theorem texture_blocks_replay_witness:
  "fst (scene_store_seek_to (snd (scene_store_begin_replay (snd (ingest_all demo_textured 0
     [(SCENE_OP_CREATE_NODE, demo_panel, 35), (SCENE_OP_SET_TEXTURE, demo_image, 34)])))) 2) = -1"
  using texture_blocks_replay [where ops = "[(SCENE_OP_CREATE_NODE, demo_panel, 35)]" and now = 0,
      OF demo_textured(1) _ _ _ demo_textured(3) surjective_pairing] demo_textured(2)
  by simp

text \<open>Growing the id table loses the id 0: in the table of the ids 0 and 16 both are found before
  the growth, and 0 is not found after it, since the growth takes a cell with key 0 as free.\<close>

theorem id_zero_lost_in_growth:
  "(let m = \<lparr>im_keys = (\<lambda>_. 0)(1 := 16), im_vals = (\<lambda>_. 0)(0 := 1, 1 := 2), im_cap = 8, im_count = 2\<rparr>
    in idmap_get m 0 = 1 \<and> idmap_get m 16 = 2 \<and>
       idmap_get (idmap_grow m) 0 = 0 \<and> idmap_get (idmap_grow m) 16 = 2)"
  by code_simp

text \<open>Removing a node breaks the probe chain of another: of two nodes that share a cell of the render
  table, once the first is gone the second is not found any more, since the sweep frees its cell and
  leaves the cells after it as they are.\<close>

theorem sweep_breaks_chain:
  "let ly1 = ly\<lparr>ly_map_shift := 6, ly_map := (replicate 64 zero_rnode)[23 := zero_rnode\<lparr>rn_id := 40000, rn_used := True\<rparr>,
      24 := zero_rnode\<lparr>rn_id := 40034, rn_used := True, rn_seen := True\<rparr>]\<rparr>
   in map_find ly1 40034 = Some 24 \<and> map_find (snd (map_sweep cp ly1)) 40034 = None"
proof -
  let ?e = "zero_rnode\<lparr>rn_id := 40000, rn_used := True\<rparr>" and ?f = "zero_rnode\<lparr>rn_id := 40034, rn_used := True\<rparr>"
  define ly1 where "ly1 = ly\<lparr>ly_map_shift := 6, ly_map := (replicate 64 zero_rnode)[23 := ?e, 24 := ?f\<lparr>rn_seen := True\<rparr>]\<rparr>"
  define rp where "rp = anim_replaying ly1"
  have unused: "\<not> rn_used zero_rnode" by (simp add: zero_rnode_def)
  have split: "[0..<64] = [0..<23] @ 23 # 24 # [25..<64]" by (simp add: upt_rec)
  have vis: "\<not> shown (rn_flags zero_rnode) r" for r by (simp add: zero_rnode_def shown_def)
  have ly1: "ly_map ly1 = (replicate 64 zero_rnode)[23 := ?e, 24 := ?f\<lparr>rn_seen := True\<rparr>]" "ly_map_shift ly1 = 6"
    by (simp_all add: ly1_def)
  have a: "foldl (sweep_step rp) (cp, ly1) [0..<23] = (cp, ly1)"
    by (rule sweep_unused) (simp add: ly1 unused)
  obtain l where l: "sweep_step rp (cp, ly1) 23 = (cp, l)" "ly_map l = (ly_map ly1)[23 := ?e\<lparr>rn_used := False\<rparr>]"
    "ly_map_shift l = 6"
    using vis [of zero_rect] by (simp add: sweep_step_def sweep_gone_def ly1 put_rnode_def zero_rnode_def Let_def)
  obtain m where m: "sweep_step rp (cp, l) 24 = (cp, m)" "ly_map m = (ly_map l)[24 := ?f]" "ly_map_shift m = 6"
    using l by (simp add: sweep_step_def ly1 put_rnode_def zero_rnode_def)
  have b: "foldl (sweep_step rp) (cp, m) [25..<64] = (cp, m)"
    by (rule sweep_unused) (simp add: m l ly1 unused)
  have "length (ly_map ly1) = 64" by (simp add: ly1)
  then have run: "map_sweep cp ly1 = (cp, m)"
    by (simp only: map_sweep_def rp_def [symmetric] split foldl_append foldl.simps a l(1) m(1) b)
  have path: "\<exists>p. probe_path 6 64 40034 = 23 # 24 # p"
  proof -
    have "[0..<64] = 0 # 1 # [2..<64]" by (simp add: upt_rec)
    moreover have "map_slot 6 40034 = 23" by code_simp
    ultimately show ?thesis by (simp add: probe_path_def)
  qed
  then have "map_find m 40034 = None" by (auto simp: map_find_def map_probe_def m l ly1 unused)
  moreover have "map_find ly1 40034 = Some 24" using path by (auto simp: map_find_def map_probe_def ly1)
  ultimately show ?thesis using run by (simp add: ly1_def Let_def)
qed

end
